(* ===== verification/Prelude.thy ===== *)
theory Prelude
  imports "HOL-Library.Word" "HOL-Library.AList" "HOL-Library.List_Lexorder"
begin

text \<open>
  Shared vocabulary of the development.

  \<^item> machine integers: \<open>u64\<close> with Rust's \<open>checked_add\<close>;
  \<^item> \<open>outcome\<close>: what a Rust method returns, \<open>Ok\<close>, \<open>Err\<close> or a panic (an \<open>expect\<close> that fails);
    a method that takes \<open>&mut self\<close> is a function into \<open>outcome \<times> state\<close>, so the state it leaves
    behind is visible on the error paths as well;
  \<^item> \<open>hmap\<close>: a \<open>HashMap\<close> as an association list. Its order stands for the unspecified iteration order
    of the Rust type, and nothing but \<open>map_of\<close> and the set of entries is meant to be observable;
  \<^item> \<open>ustr\<close>: a Rust \<open>String\<close> as its list of Unicode scalar values, whose lexicographic order is
    the order of the UTF-8 bytes.
\<close>

section \<open>Collections of facts\<close>

named_theorems hmap_simps \<open>rewriting of association-list maps\<close>
named_theorems step_defs \<open>definitions unfolded when one operation is analysed\<close>

section \<open>Machine integers\<close>

type_synonym u64 = "64 word"

definition checked_add :: "u64 \<Rightarrow> u64 \<Rightarrow> u64 option" where
  "checked_add a b = (if unat a + unat b < 2 ^ 64 then Some (a + b) else None)"

lemma checked_add_unat:
  "checked_add a b = Some c \<Longrightarrow> unat c = unat a + unat b"
  by (auto simp: checked_add_def unat_word_ariths split: if_splits)

lemma checked_add_one_less: "checked_add a 1 = Some b \<Longrightarrow> a < b"
  by (auto dest!: checked_add_unat simp: word_less_nat_alt)

lemma checked_add_one_le: "checked_add a 1 = Some b \<Longrightarrow> (x < b) = (x \<le> a)"
  by (auto dest!: checked_add_unat simp: word_less_nat_alt word_le_nat_alt)

lemma checked_add_one_pos: "checked_add a 1 = Some b \<Longrightarrow> 0 < b"
  by (auto dest!: checked_add_unat simp: word_less_nat_alt)

lemma checked_add_none: "checked_add a 1 = None \<longleftrightarrow> a = - 1"
proof -
  have "(- 1 :: u64) = 18446744073709551615"
    by simp
  then have "unat (- 1 :: u64) = 2 ^ 64 - 1"
    by (simp only: unsigned_numeral) (simp add: take_bit_eq_mod)
  moreover have "unat a < 2 ^ 64"
    using unsigned_less [of a] by simp
  ultimately show ?thesis
    by (auto simp: checked_add_def word_unat_eq_iff)
qed

text \<open>The same test without natural numbers, for evaluation.\<close>

lemma checked_add_code [code]:
  "checked_add a b = (let c = a + b in if c < a then None else Some c)"
proof (cases "unat a + unat b < 2 ^ 64")
  case True
  then have "unat (a + b) = unat a + unat b"
    by (simp add: unat_word_ariths)
  then show ?thesis using True by (simp add: checked_add_def word_less_nat_alt)
next
  case False
  have "unat a < 2 ^ 64" "unat b < 2 ^ 64"
    using unsigned_less [of a] unsigned_less [of b] by simp_all
  then have "unat (a + b) = unat a + unat b - 2 ^ 64"
    using False by (simp add: unat_word_ariths mod_if)
  then show ?thesis using False \<open>unat b < 2 ^ 64\<close> \<open>unat a < 2 ^ 64\<close>
    by (simp add: checked_add_def word_less_nat_alt)
qed

section \<open>Outcomes\<close>

datatype ('e, 'a) outcome = Ok (ok_value: 'a) | Err (err_value: 'e) | Panic

fun map_ok :: "('a \<Rightarrow> 'b) \<Rightarrow> ('e, 'a) outcome \<Rightarrow> ('e, 'b) outcome" where
  "map_ok f (Ok x) = Ok (f x)"
| "map_ok f (Err e) = Err e"
| "map_ok f Panic = Panic"

lemma map_ok_eq_iff [simp]:
  "map_ok f r = Ok y \<longleftrightarrow> (\<exists>x. r = Ok x \<and> y = f x)"
  "map_ok f r = Err e \<longleftrightarrow> r = Err e"
  "map_ok f r = Panic \<longleftrightarrow> r = Panic"
  by (cases r; auto)+

text \<open>\<open>iter().map(f).collect::<Result<Vec<_>, _>>()\<close>: the first error stops the traversal.\<close>

fun traverse :: "('a \<Rightarrow> ('e, 'b) outcome) \<Rightarrow> 'a list \<Rightarrow> ('e, 'b list) outcome" where
  "traverse f [] = Ok []"
| "traverse f (x # xs) =
     (case f x of
        Ok y \<Rightarrow> map_ok (\<lambda>ys. y # ys) (traverse f xs)
      | Err e \<Rightarrow> Err e
      | Panic \<Rightarrow> Panic)"

lemma traverse_Ok_map:
  "(\<And>x. x \<in> set xs \<Longrightarrow> f x = Ok (g x)) \<Longrightarrow> traverse f xs = Ok (map g xs)"
  by (induction xs) auto

lemma traverse_OkD: "traverse f xs = Ok ys \<Longrightarrow> y \<in> set ys \<Longrightarrow> \<exists>x \<in> set xs. f x = Ok y"
  by (induction xs arbitrary: ys) (auto split: outcome.splits)

lemma traverse_not_panic:
  "(\<And>x. x \<in> set xs \<Longrightarrow> f x \<noteq> Panic) \<Longrightarrow> traverse f xs \<noteq> Panic"
  by (induction xs) (auto split: outcome.split)

text \<open>The \<open>?\<close> operator on a check without a result.\<close>

definition guard_ok :: "('e, unit) outcome \<Rightarrow> ('e, 'a) outcome \<Rightarrow> ('e, 'a) outcome" where
  "guard_ok g r = (case g of Ok _ \<Rightarrow> r | Err e \<Rightarrow> Err e | Panic \<Rightarrow> Panic)"

lemma guard_ok_Ok [simp]: "guard_ok g r = Ok x \<longleftrightarrow> g = Ok () \<and> r = Ok x"
  by (cases g) (auto simp: guard_ok_def)

lemma guard_ok_Err: "guard_ok g r = Err e \<longleftrightarrow> g = Err e \<or> g = Ok () \<and> r = Err e"
  by (cases g) (auto simp: guard_ok_def)

lemma guard_ok_Panic: "guard_ok g r = Panic \<longleftrightarrow> g = Panic \<or> g = Ok () \<and> r = Panic"
  by (cases g) (auto simp: guard_ok_def)

section \<open>Hash maps\<close>

type_synonym ('k, 'v) hmap = "('k \<times> 'v) list"

abbreviation hm_keys :: "('k, 'v) hmap \<Rightarrow> 'k list" where
  "hm_keys m \<equiv> map fst m"

abbreviation hm_values :: "('k, 'v) hmap \<Rightarrow> 'v list" where
  "hm_values m \<equiv> map snd m"

abbreviation hm_insert :: "'k \<Rightarrow> 'v \<Rightarrow> ('k, 'v) hmap \<Rightarrow> ('k, 'v) hmap" where
  "hm_insert \<equiv> AList.update"

abbreviation hm_remove :: "'k \<Rightarrow> ('k, 'v) hmap \<Rightarrow> ('k, 'v) hmap" where
  "hm_remove \<equiv> AList.delete"

text \<open>\<open>get_mut(k).expect(..)\<close> followed by a mutation: \<open>None\<close> is the panic.\<close>

definition hm_modify :: "'k \<Rightarrow> ('v \<Rightarrow> 'v) \<Rightarrow> ('k, 'v) hmap \<Rightarrow> ('k, 'v) hmap option" where
  "hm_modify k f m = (case map_of m k of None \<Rightarrow> None | Some v \<Rightarrow> Some (hm_insert k (f v) m))"

lemmas hmap_basic [hmap_simps] = AList.update_conv' AList.delete_conv' AList.dom_update

lemma hm_modify_Some [simp]:
  "map_of m k = Some v \<Longrightarrow> hm_modify k f m = Some (hm_insert k (f v) m)"
  by (simp add: hm_modify_def)

lemma hm_modify_None_iff [simp]: "hm_modify k f m = None \<longleftrightarrow> map_of m k = None"
  by (simp add: hm_modify_def split: option.split)

lemma hm_modify_SomeE:
  assumes "hm_modify k f m = Some m'"
  obtains v where "map_of m k = Some v" and "m' = hm_insert k (f v) m"
  using assms by (auto simp: hm_modify_def split: option.splits)

lemma hm_distinct_insert [simp, intro]:
  "distinct (hm_keys m) \<Longrightarrow> distinct (hm_keys (hm_insert k v m))"
  by (rule AList.distinct_update)

lemma hm_keys_insert_present [simp]:
  "map_of m k = Some v \<Longrightarrow> hm_keys (hm_insert k w m) = hm_keys m"
  by (induction m) (auto split: if_splits)

lemma hm_values_conv:
  "distinct (hm_keys m) \<Longrightarrow> set (hm_values m) = ran (map_of m)"
  by (simp add: ran_distinct)

lemma hm_in_values_iff:
  "distinct (hm_keys m) \<Longrightarrow> v \<in> set (hm_values m) \<longleftrightarrow> (\<exists>k. map_of m k = Some v)"
  unfolding hm_values_conv by (auto simp: ran_def)

lemma hm_distinct_values:
  assumes "distinct (hm_keys m)" and "\<And>k v. map_of m k = Some v \<Longrightarrow> key v = k"
  shows "distinct (map key (hm_values m))"
proof -
  have "\<forall>(k, v) \<in> set m. key v = k"
    using assms by auto
  then have "map key (hm_values m) = hm_keys m"
    by (induction m) auto
  with assms(1) show ?thesis by (simp only:)
qed

section \<open>Strings\<close>

type_synonym ustr = "nat list"

definition lit :: "string \<Rightarrow> ustr" where
  "lit s = map of_char s"

text \<open>The Unicode property \<open>White_Space\<close>, which Rust's \<open>char::is_whitespace\<close> tests.\<close>

definition is_whitespace :: "nat \<Rightarrow> bool" where
  "is_whitespace c \<longleftrightarrow>
     (9 \<le> c \<and> c \<le> 13) \<or> c = 32 \<or> c = 133 \<or> c = 160 \<or> c = 5760 \<or>
     (8192 \<le> c \<and> c \<le> 8202) \<or> c = 8232 \<or> c = 8233 \<or> c = 8239 \<or> c = 8287 \<or> c = 12288"

text \<open>\<open>s.trim().is_empty()\<close>\<close>

definition is_blank :: "ustr \<Rightarrow> bool" where
  "is_blank s \<longleftrightarrow> list_all is_whitespace s"

section \<open>Lists\<close>

text \<open>\<open>iter_mut().find(p)\<close> followed by a mutation.\<close>

primrec update_first :: "('a \<Rightarrow> bool) \<Rightarrow> ('a \<Rightarrow> 'a) \<Rightarrow> 'a list \<Rightarrow> 'a list" where
  "update_first p f [] = []"
| "update_first p f (x # xs) = (if p x then f x # xs else x # update_first p f xs)"

lemma find_SomeD: "List.find P xs = Some x \<Longrightarrow> x \<in> set xs \<and> P x"
  by (induction xs) (auto split: if_splits)

lemma sorted_wrt_key_distinct_unique:
  fixes key :: "'a \<Rightarrow> 'k :: linorder"
  assumes "sorted (map key xs)" "sorted (map key ys)" "set xs = set ys"
    and "distinct (map key xs)" "distinct (map key ys)"
  shows "xs = ys"
proof -
  have "inj_on key (set xs)"
    using assms(4) by (simp add: distinct_map)
  then show ?thesis
    using assms by (intro map_sorted_distinct_set_unique [of key]) auto
qed

lemma filter_neq_eq_self: "x \<notin> set xs \<Longrightarrow> filter (\<lambda>y. y \<noteq> x) xs = xs"
  by (rule filter_True) auto

end
