(* ===== verification/Decimal.thy ===== *)
theory Decimal
  imports Prelude
begin

text \<open>
  Decimal text of unsigned integers: \<open>ToString\<close> and \<open>u64::from_str\<close> of the Rust standard library,
  on strings as lists of code points. The main fact is the round trip \<open>u64_from_str_show_u64\<close>;
  it is what the identifier formats of the tool input and of the persisted snapshot rest on.
\<close>

fun show_nat :: "nat \<Rightarrow> ustr" where
  "show_nat n = (if n < 10 then [48 + n] else show_nat (n div 10) @ [48 + n mod 10])"

declare show_nat.simps [simp del]

definition show_u64 :: "u64 \<Rightarrow> ustr" where
  "show_u64 w = show_nat (unat w)"

definition is_ascii_digit :: "nat \<Rightarrow> bool" where
  "is_ascii_digit c \<longleftrightarrow> 48 \<le> c \<and> c \<le> 57"

text \<open>The digit loop of \<open>from_str\<close>: multiply and add, each checked for overflow.\<close>

fun parse_digits :: "nat \<Rightarrow> ustr \<Rightarrow> nat option" where
  "parse_digits acc [] = Some acc"
| "parse_digits acc (c # cs) =
     (if is_ascii_digit c \<and> acc * 10 + (c - 48) < 2 ^ 64
      then parse_digits (acc * 10 + (c - 48)) cs else None)"

text \<open>\<open>u64::from_str\<close>: the empty string is an error, and one leading plus sign is accepted.\<close>

definition u64_from_str :: "ustr \<Rightarrow> u64 option" where
  "u64_from_str s =
     (case s of
        [] \<Rightarrow> None
      | c # cs \<Rightarrow> map_option of_nat (parse_digits 0 (if c = 43 \<and> cs \<noteq> [] then cs else s)))"

definition starts_with_zero :: "ustr \<Rightarrow> bool" where
  "starts_with_zero s \<longleftrightarrow> (case s of [] \<Rightarrow> False | c # _ \<Rightarrow> c = 48)"

lemma parse_digits_append:
  "parse_digits acc (xs @ ys) =
     (case parse_digits acc xs of None \<Rightarrow> None | Some a \<Rightarrow> parse_digits a ys)"
  by (induction xs arbitrary: acc) auto

lemma parse_digits_bound: "parse_digits acc s = Some n \<Longrightarrow> acc < 2 ^ 64 \<Longrightarrow> n < 2 ^ 64"
  by (induction s arbitrary: acc) (auto split: if_splits)

lemma show_nat_nonempty [simp]: "show_nat n \<noteq> []"
  by (subst show_nat.simps) simp

lemma show_nat_digits: "list_all is_ascii_digit (show_nat n)"
proof (induction n rule: show_nat.induct)
  case (1 n)
  show ?case
  proof (cases "n < 10")
    case True
    then show ?thesis by (subst show_nat.simps) (simp add: is_ascii_digit_def)
  next
    case False
    moreover have "is_ascii_digit (48 + n mod 10)"
      unfolding is_ascii_digit_def by arith
    ultimately show ?thesis
      using 1 by (subst show_nat.simps) simp
  qed
qed

lemma parse_digits_show_nat: "n < 2 ^ 64 \<Longrightarrow> parse_digits 0 (show_nat n) = Some n"
proof (induction n rule: show_nat.induct)
  case (1 n)
  show ?case
  proof (cases "n < 10")
    case True
    then show ?thesis by (subst show_nat.simps) (simp add: is_ascii_digit_def)
  next
    case False
    then have "parse_digits 0 (show_nat (n div 10)) = Some (n div 10)"
      using 1 by simp
    moreover have "n div 10 * 10 + n mod 10 = n" and "n mod 10 \<le> 9"
      by (simp, arith)
    ultimately show ?thesis
      using False "1.prems"
      by (subst show_nat.simps) (simp add: parse_digits_append is_ascii_digit_def)
  qed
qed

lemma show_nat_hd: "hd (show_nat n) \<noteq> 43" "0 < n \<Longrightarrow> hd (show_nat n) \<noteq> 48"
proof -
  show "hd (show_nat n) \<noteq> 43"
    using show_nat_digits [of n] by (cases "show_nat n") (auto simp: is_ascii_digit_def)
  show "0 < n \<Longrightarrow> hd (show_nat n) \<noteq> 48"
  proof (induction n rule: show_nat.induct)
    case (1 n)
    then show ?case
      by (cases "n < 10"; subst show_nat.simps) (auto simp: hd_append)
  qed
qed

lemma starts_with_zero_show: "0 < n \<Longrightarrow> \<not> starts_with_zero (show_nat n)"
  using show_nat_hd(2) [of n] by (cases "show_nat n") (auto simp: starts_with_zero_def)

lemma length_show_zero: "length (show_nat 0) = 1"
  by (subst show_nat.simps) simp

lemma u64_from_str_plain:
  "s \<noteq> [] \<Longrightarrow> hd s \<noteq> 43 \<Longrightarrow> u64_from_str s = map_option of_nat (parse_digits 0 s)"
  by (cases s) (simp_all only: u64_from_str_def list.case list.sel simp_thms if_False)

theorem u64_from_str_show_u64: "u64_from_str (show_u64 w) = Some w"
proof -
  have "unat w < 2 ^ 64"
    using unsigned_less [of w] by simp
  then have "parse_digits 0 (show_nat (unat w)) = Some (unat w)"
    by (rule parse_digits_show_nat)
  then show ?thesis
    unfolding show_u64_def
    by (subst u64_from_str_plain) (simp_all add: show_nat_hd(1))
qed

lemma show_u64_inj: "show_u64 a = show_u64 b \<Longrightarrow> a = b"
  by (metis option.inject u64_from_str_show_u64)

end
