(* ===== verification/Task_Model.thy ===== *)
theory Task_Model
  imports Decimal
begin

text \<open>
  The entities of the Task context (\<open>agent/features/task/src/domain/model.rs\<close>): typed identifiers,
  the status, priority and event vocabularies, the \<open>TaskData\<close> and \<open>BatchData\<close> entities and the
  operations on one entity. A method on \<open>&mut self\<close> is a function into an outcome and the
  entity it leaves behind. Getters are the record selectors.
\<close>

section \<open>Identifiers\<close>

datatype task_id = TaskIdData (task_id_get: u64)
datatype batch_id = BatchIdData (batch_id_get: u64)
datatype task_revision = TaskRevisionData (task_revision_get: u64)

instantiation task_id :: linorder
begin

definition less_eq_task_id :: "task_id \<Rightarrow> task_id \<Rightarrow> bool" where
  "a \<le> b \<longleftrightarrow> task_id_get a \<le> task_id_get b"

definition less_task_id :: "task_id \<Rightarrow> task_id \<Rightarrow> bool" where
  "a < b \<longleftrightarrow> task_id_get a < task_id_get b"

instance
  by standard (auto simp: less_eq_task_id_def less_task_id_def task_id.expand)

end

instantiation batch_id :: linorder
begin

definition less_eq_batch_id :: "batch_id \<Rightarrow> batch_id \<Rightarrow> bool" where
  "a \<le> b \<longleftrightarrow> batch_id_get a \<le> batch_id_get b"

definition less_batch_id :: "batch_id \<Rightarrow> batch_id \<Rightarrow> bool" where
  "a < b \<longleftrightarrow> batch_id_get a < batch_id_get b"

instance
  by standard (auto simp: less_eq_batch_id_def less_batch_id_def batch_id.expand)

end

text \<open>\<open>TaskIdData::parse_tool_input\<close>; the error carries the rejected text.\<close>

datatype task_id_parse_error = TaskIdParseError ustr

definition parse_tool_input :: "ustr \<Rightarrow> (task_id_parse_error, task_id) outcome" where
  "parse_tool_input value =
     (case u64_from_str value of
        None \<Rightarrow> Err (TaskIdParseError value)
      | Some n \<Rightarrow>
          if n = 0 \<or> (1 < length value \<and> starts_with_zero value)
          then Err (TaskIdParseError value)
          else Ok (TaskIdData n))"

section \<open>Vocabularies\<close>

datatype task_status = Pending | InProgress | Completed | Deleted

datatype batch_status = Active | Paused | Archived

datatype task_priority = Normal | Low | High | Urgent

text \<open>\<open>impl Ord for TaskPriorityData\<close> orders by rank, not by declaration order.\<close>

fun priority_rank :: "task_priority \<Rightarrow> nat" where
  "priority_rank Low = 0"
| "priority_rank Normal = 1"
| "priority_rank High = 2"
| "priority_rank Urgent = 3"

lemma priority_rank_inj: "priority_rank a = priority_rank b \<longleftrightarrow> a = b"
  by (cases a; cases b) auto

instantiation task_priority :: linorder
begin

definition less_eq_task_priority :: "task_priority \<Rightarrow> task_priority \<Rightarrow> bool" where
  "a \<le> b \<longleftrightarrow> priority_rank a \<le> priority_rank b"

definition less_task_priority :: "task_priority \<Rightarrow> task_priority \<Rightarrow> bool" where
  "a < b \<longleftrightarrow> priority_rank a < priority_rank b"

instance
  by standard
    (auto simp: less_eq_task_priority_def less_task_priority_def
      priority_rank_inj [symmetric])

end

datatype task_command_error =
    InvalidTaskSubject
  | InvalidBatchSummary
  | TaskIdExhausted
  | BatchIdExhausted
  | RevisionExhausted
  | IllegalTransition task_status task_status
  | DeletedOnlyViaDelete
  | IllegalBatchTransition batch_id batch_status batch_status
  | TaskNotFound task_id
  | BatchNotFound batch_id
  | NoActiveBatch
  | DependencyCycle task_id task_id
  | CrossBatchDependency task_id task_id
  | DuplicateDependency task_id task_id
  | TaskBlocked task_id "task_id list"
  | ActiveBatchConflict batch_id batch_id
  | BatchNotActive batch_id batch_status

datatype task_event =
    TaskCreated task_id
  | TaskStatusChanged task_id task_status task_status
  | TaskDependencyAdded task_id task_id
  | TaskDependencyRemoved task_id task_id
  | TaskPriorityChanged task_id task_priority task_priority
  | TaskSubjectChanged task_id
  | TaskDescriptionChanged task_id
  | TaskTagAdded task_id ustr
  | TaskTagRemoved task_id ustr
  | TaskDeleted task_id
  | TaskStoreCleared nat nat

record 'a command_result =
  cr_value :: 'a
  cr_events :: "task_event list"
  cr_revision :: "task_revision option"

definition uncommitted :: "'a \<Rightarrow> task_event list \<Rightarrow> 'a command_result" where
  "uncommitted v events = \<lparr>cr_value = v, cr_events = events, cr_revision = None\<rparr>"

definition commit_result :: "task_revision \<Rightarrow> 'a command_result \<Rightarrow> 'a command_result" where
  "commit_result revision r = r\<lparr>cr_revision := Some revision\<rparr>"

lemma command_result_sel [simp]:
  "cr_value (uncommitted v es) = v"
  "cr_events (uncommitted v es) = es"
  "cr_revision (uncommitted v es) = None"
  "cr_value (commit_result rv r) = cr_value r"
  "cr_events (commit_result rv r) = cr_events r"
  "cr_revision (commit_result rv r) = Some rv"
  by (simp_all add: uncommitted_def commit_result_def)

section \<open>Creation specs\<close>

record task_create_spec =
  tcs_subject :: ustr
  tcs_description :: ustr
  tcs_active_form :: "ustr option"
  tcs_priority :: task_priority

definition task_create_spec_try_new ::
    "ustr \<Rightarrow> ustr \<Rightarrow> ustr option \<Rightarrow> task_priority \<Rightarrow> (task_command_error, task_create_spec) outcome"
  where
  "task_create_spec_try_new subject description active_form priority =
     (if is_blank subject then Err InvalidTaskSubject
      else Ok \<lparr>tcs_subject = subject, tcs_description = description,
               tcs_active_form = active_form, tcs_priority = priority\<rparr>)"

record batch_create_spec =
  bcs_summary :: ustr

definition batch_create_spec_try_new :: "ustr \<Rightarrow> (task_command_error, batch_create_spec) outcome" where
  "batch_create_spec_try_new summary =
     (if is_blank summary then Err InvalidBatchSummary else Ok \<lparr>bcs_summary = summary\<rparr>)"

section \<open>Tasks\<close>

record task_data =
  td_id :: task_id
  td_batch :: batch_id
  td_seq :: u64
  td_subject :: ustr
  td_description :: ustr
  td_active_form :: "ustr option"
  td_session_id :: "ustr option"
  td_tags :: "ustr list"
  td_blocked_by :: "task_id list"
  td_blocks :: "task_id list"
  td_status :: task_status
  td_priority :: task_priority
  td_created_at :: u64
  td_updated_at :: u64
  td_started_at :: "u64 option"
  td_completed_at :: "u64 option"

definition td_create ::
    "task_id \<Rightarrow> batch_id \<Rightarrow> u64 \<Rightarrow> task_create_spec \<Rightarrow> u64 \<Rightarrow> task_data command_result" where
  "td_create i batch seq spec timestamp =
     uncommitted
       \<lparr>td_id = i, td_batch = batch, td_seq = seq, td_subject = tcs_subject spec,
        td_description = tcs_description spec, td_active_form = tcs_active_form spec,
        td_session_id = None, td_tags = [], td_blocked_by = [], td_blocks = [],
        td_status = Pending, td_priority = tcs_priority spec, td_created_at = timestamp,
        td_updated_at = timestamp, td_started_at = None, td_completed_at = None\<rparr>
       [TaskCreated i]"

definition td_set_subject ::
    "ustr \<Rightarrow> u64 \<Rightarrow> task_data \<Rightarrow>
      (task_command_error, task_data command_result) outcome \<times> task_data" where
  "td_set_subject subject updated_at t =
     (if is_blank subject then (Err InvalidTaskSubject, t)
      else if td_subject t = subject then (Ok (uncommitted t []), t)
      else let t' = t\<lparr>td_subject := subject, td_updated_at := updated_at\<rparr>
           in (Ok (uncommitted t' [TaskSubjectChanged (td_id t)]), t'))"

definition td_set_description ::
    "ustr \<Rightarrow> u64 \<Rightarrow> task_data \<Rightarrow> task_data command_result \<times> task_data" where
  "td_set_description description updated_at t =
     (if td_description t = description then (uncommitted t [], t)
      else let t' = t\<lparr>td_description := description, td_updated_at := updated_at\<rparr>
           in (uncommitted t' [TaskDescriptionChanged (td_id t)], t'))"

definition td_restore_blocks :: "task_id list \<Rightarrow> task_data \<Rightarrow> task_data" where
  "td_restore_blocks blocks t = t\<lparr>td_blocks := sort blocks\<rparr>"

definition td_set_seq_for_restore :: "u64 \<Rightarrow> task_data \<Rightarrow> task_data" where
  "td_set_seq_for_restore seq t = t\<lparr>td_seq := seq\<rparr>"

definition td_add_blocked_by :: "task_id \<Rightarrow> u64 \<Rightarrow> task_data \<Rightarrow> task_data" where
  "td_add_blocked_by i updated_at t =
     (if i \<in> set (td_blocked_by t) then t
      else t\<lparr>td_blocked_by := sort (td_blocked_by t @ [i]), td_updated_at := updated_at\<rparr>)"

definition td_add_blocks :: "task_id \<Rightarrow> u64 \<Rightarrow> task_data \<Rightarrow> task_data" where
  "td_add_blocks i updated_at t =
     (if i \<in> set (td_blocks t) then t
      else t\<lparr>td_blocks := sort (td_blocks t @ [i]), td_updated_at := updated_at\<rparr>)"

text \<open>\<open>retain\<close> and the length test that decides whether the entity counts as updated.\<close>

definition td_remove_blocked_by :: "task_id \<Rightarrow> u64 \<Rightarrow> task_data \<Rightarrow> task_data" where
  "td_remove_blocked_by i updated_at t =
     (let kept = filter (\<lambda>existing. existing \<noteq> i) (td_blocked_by t)
      in if length kept \<noteq> length (td_blocked_by t)
         then t\<lparr>td_blocked_by := kept, td_updated_at := updated_at\<rparr>
         else t\<lparr>td_blocked_by := kept\<rparr>)"

definition td_remove_blocks :: "task_id \<Rightarrow> u64 \<Rightarrow> task_data \<Rightarrow> task_data" where
  "td_remove_blocks i updated_at t =
     (let kept = filter (\<lambda>existing. existing \<noteq> i) (td_blocks t)
      in if length kept \<noteq> length (td_blocks t)
         then t\<lparr>td_blocks := kept, td_updated_at := updated_at\<rparr>
         else t\<lparr>td_blocks := kept\<rparr>)"

definition td_mark_deleted :: "u64 \<Rightarrow> task_data \<Rightarrow> task_data" where
  "td_mark_deleted updated_at t = t\<lparr>td_status := Deleted, td_updated_at := updated_at\<rparr>"

definition td_set_priority :: "task_priority \<Rightarrow> u64 \<Rightarrow> task_data \<Rightarrow> task_data" where
  "td_set_priority priority updated_at t =
     (if td_priority t = priority then t
      else t\<lparr>td_priority := priority, td_updated_at := updated_at\<rparr>)"

definition td_add_tag :: "ustr \<Rightarrow> u64 \<Rightarrow> task_data \<Rightarrow> task_data" where
  "td_add_tag tag updated_at t =
     (if tag \<in> set (td_tags t) then t
      else t\<lparr>td_tags := td_tags t @ [tag], td_updated_at := updated_at\<rparr>)"

definition td_remove_tag :: "ustr \<Rightarrow> u64 \<Rightarrow> task_data \<Rightarrow> task_data" where
  "td_remove_tag tag updated_at t =
     (let kept = filter (\<lambda>existing. existing \<noteq> tag) (td_tags t)
      in if length kept \<noteq> length (td_tags t)
         then t\<lparr>td_tags := kept, td_updated_at := updated_at\<rparr>
         else t\<lparr>td_tags := kept\<rparr>)"

definition td_reopen_from_completed ::
    "task_status \<Rightarrow> u64 \<Rightarrow> task_data \<Rightarrow>
      (task_command_error, task_data command_result) outcome \<times> task_data" where
  "td_reopen_from_completed to updated_at t =
     (if td_status t \<noteq> Completed \<or> \<not> (to = Pending \<or> to = InProgress)
      then (Err (IllegalTransition (td_status t) to), t)
      else let t' = t\<lparr>td_status := to, td_updated_at := updated_at, td_completed_at := None,
                      td_started_at := (if to = InProgress then Some updated_at else None)\<rparr>
           in (Ok (uncommitted t' [TaskStatusChanged (td_id t) (td_status t) to]), t'))"

fun task_transition_legal :: "task_status \<Rightarrow> task_status \<Rightarrow> bool" where
  "task_transition_legal Pending InProgress = True"
| "task_transition_legal Pending Completed = True"
| "task_transition_legal InProgress Pending = True"
| "task_transition_legal InProgress Completed = True"
| "task_transition_legal _ _ = False"

definition td_transition_to ::
    "task_status \<Rightarrow> u64 \<Rightarrow> task_data \<Rightarrow>
      (task_command_error, task_data command_result) outcome \<times> task_data" where
  "td_transition_to to updated_at t =
     (if to = Deleted then (Err DeletedOnlyViaDelete, t)
      else if \<not> task_transition_legal (td_status t) to
      then (Err (IllegalTransition (td_status t) to), t)
      else
        let t1 = t\<lparr>td_status := to, td_updated_at := updated_at\<rparr>;
            t2 = (if to = Pending then t1\<lparr>td_started_at := None, td_completed_at := None\<rparr>
                  else if (to = InProgress \<or> to = Completed) \<and> td_started_at t1 = None
                  then t1\<lparr>td_started_at := Some updated_at\<rparr>
                  else t1);
            t3 = (if to = Completed then t2\<lparr>td_completed_at := Some updated_at\<rparr> else t2)
        in (Ok (uncommitted t3 [TaskStatusChanged (td_id t) (td_status t) to]), t3))"

record task_view =
  tv_id :: task_id
  tv_subject :: ustr
  tv_description :: ustr
  tv_status :: task_status
  tv_blocked_by :: "ustr list"
  tv_priority :: task_priority
  tv_created_at :: u64
  tv_updated_at :: u64
  tv_session_id :: "ustr option"
  tv_batch :: batch_id

definition task_view_from_task :: "task_data \<Rightarrow> ustr list \<Rightarrow> task_view" where
  "task_view_from_task t blocked_by =
     \<lparr>tv_id = td_id t, tv_subject = td_subject t, tv_description = td_description t,
      tv_status = td_status t, tv_blocked_by = blocked_by, tv_priority = td_priority t,
      tv_created_at = td_created_at t, tv_updated_at = td_updated_at t,
      tv_session_id = td_session_id t, tv_batch = td_batch t\<rparr>"

definition task_view_from :: "task_data \<Rightarrow> task_view" where
  "task_view_from t = task_view_from_task t (map (\<lambda>i. show_u64 (task_id_get i)) (td_blocked_by t))"

section \<open>Batches\<close>

record batch_data =
  bd_id :: batch_id
  bd_summary :: "ustr option"
  bd_status :: batch_status
  bd_created_at :: u64
  bd_last_active_turn :: u64
  bd_silence_turns :: u64

definition bd_create :: "batch_id \<Rightarrow> batch_create_spec \<Rightarrow> u64 \<Rightarrow> batch_data" where
  "bd_create i spec created_at =
     \<lparr>bd_id = i, bd_summary = Some (bcs_summary spec), bd_status = Active,
      bd_created_at = created_at, bd_last_active_turn = 0, bd_silence_turns = 0\<rparr>"

text \<open>\<open>silence_turns == u64::MAX\<close> is the saturated case, so the increment never wraps.\<close>

definition bd_record_turn ::
    "u64 \<Rightarrow> bool \<Rightarrow> batch_data \<Rightarrow> (task_command_error, bool) outcome \<times> batch_data" where
  "bd_record_turn turn active b =
     (if bd_status b \<noteq> Active then (Err (BatchNotActive (bd_id b) (bd_status b)), b)
      else if active then
        (if bd_last_active_turn b = turn \<and> bd_silence_turns b = 0 then (Ok False, b)
         else (Ok True, b\<lparr>bd_last_active_turn := turn, bd_silence_turns := 0\<rparr>))
      else if bd_silence_turns b = - 1 then (Ok False, b)
      else (Ok True, b\<lparr>bd_silence_turns := bd_silence_turns b + 1\<rparr>))"

definition bd_reopen :: "batch_data \<Rightarrow> (task_command_error, unit) outcome \<times> batch_data" where
  "bd_reopen b =
     (if bd_status b \<noteq> Archived
      then (Err (IllegalBatchTransition (bd_id b) (bd_status b) Active), b)
      else (Ok (), b\<lparr>bd_status := Active\<rparr>))"

fun batch_transition_legal :: "batch_status \<Rightarrow> batch_status \<Rightarrow> bool" where
  "batch_transition_legal Active Paused = True"
| "batch_transition_legal Active Archived = True"
| "batch_transition_legal Paused Active = True"
| "batch_transition_legal Paused Archived = True"
| "batch_transition_legal Archived Archived = True"
| "batch_transition_legal _ _ = False"

definition bd_transition_to ::
    "batch_status \<Rightarrow> batch_data \<Rightarrow> (task_command_error, unit) outcome \<times> batch_data" where
  "bd_transition_to to b =
     (if \<not> batch_transition_legal (bd_status b) to
      then (Err (IllegalBatchTransition (bd_id b) (bd_status b) to), b)
      else (Ok (), b\<lparr>bd_status := to\<rparr>))"

end
