(* ===== verification/Graph_Search.thy ===== *)
theory Graph_Search
  imports Prelude
begin

text \<open>
  Adjacency maps \<open>HashMap<node, Vec<node>>\<close> and the search the task store writes by hand on them:
  \<open>dfs_finds\<close>, an explicit stack with a visited set (\<open>would_create_cycle\<close>). It is total, with a
  termination proof over the finite set of nodes the map mentions, and it is proved equal to its
  graph-theoretic meaning in terms of \<open>adj_edges\<close>.
\<close>

section \<open>Adjacency maps\<close>

type_synonym 'a adjacency = "('a, 'a list) hmap"

definition succs :: "'a adjacency \<Rightarrow> 'a \<Rightarrow> 'a list" where
  "succs adj x = (case map_of adj x of None \<Rightarrow> [] | Some ys \<Rightarrow> ys)"

definition adj_edges :: "'a adjacency \<Rightarrow> ('a \<times> 'a) set" where
  "adj_edges adj = {(x, y). y \<in> set (succs adj x)}"

definition adj_sources :: "'a adjacency \<Rightarrow> 'a set" where
  "adj_sources adj = set (hm_keys adj)"

definition adj_targets :: "'a adjacency \<Rightarrow> 'a set" where
  "adj_targets adj = (\<Union>ys \<in> set (hm_values adj). set ys)"

lemma finite_adj [simp, intro]: "finite (adj_sources adj)" "finite (adj_targets adj)"
  by (auto simp: adj_sources_def adj_targets_def)

lemma succs_outside: "x \<notin> adj_sources adj \<Longrightarrow> succs adj x = []"
  unfolding succs_def adj_sources_def by (simp add: map_of_eq_None_iff [THEN iffD2])

lemma succs_targets: "y \<in> set (succs adj x) \<Longrightarrow> y \<in> adj_targets adj"
proof (cases "map_of adj x")
  case (Some ys)
  moreover from Some have "ys \<in> set (hm_values adj)"
    by (force dest: map_of_SomeD)
  moreover assume "y \<in> set (succs adj x)"
  ultimately show ?thesis by (auto simp: succs_def adj_targets_def)
qed (simp add: succs_def)

lemma adj_edges_iff [simp]: "(x, y) \<in> adj_edges adj \<longleftrightarrow> y \<in> set (succs adj x)"
  by (simp add: adj_edges_def)

lemma reach_leaves_closed:
  assumes "(x, t) \<in> (adj_edges adj)\<^sup>*" "x \<in> V" "t \<notin> V"
    and "\<forall>v \<in> V. set (succs adj v) \<subseteq> V \<union> S"
  shows "\<exists>y \<in> S. (y, t) \<in> (adj_edges adj)\<^sup>*"
  using assms(1,2)
proof (induction rule: converse_rtrancl_induct)
  case base
  then show ?case using assms(3) by simp
next
  case (step x y)
  with assms(4) have "y \<in> V \<or> y \<in> S" by auto
  with step show ?case by blast
qed

section \<open>Depth-first search with a stack\<close>

lemma card_fresh_less:
  "finite U \<Longrightarrow> x \<in> U \<Longrightarrow> x \<notin> V \<Longrightarrow> card (U - insert x V) < card (U - V)"
  by (rule psubset_card_mono) auto

lemma card_unfresh: "x \<notin> U \<Longrightarrow> U - insert x V = U - V"
  by auto

lemma succs_card_decrease:
  assumes "x \<notin> V"
  shows "card (adj_sources adj - insert x V) < card (adj_sources adj - V) \<or>
    card (adj_sources adj - insert x V) = card (adj_sources adj - V) \<and> succs adj x = []"
proof (cases "x \<in> adj_sources adj")
  case True
  then show ?thesis using card_fresh_less [OF finite_adj(1) _ assms] by blast
next
  case False
  then show ?thesis by (metis card_unfresh succs_outside)
qed

function dfs_finds :: "'a adjacency \<Rightarrow> 'a \<Rightarrow> 'a list \<Rightarrow> 'a list \<Rightarrow> bool" where
  "dfs_finds adj target [] visited = False"
| "dfs_finds adj target (x # stack) visited =
     (if x = target then True
      else if x \<in> set visited then dfs_finds adj target stack visited
      else dfs_finds adj target (rev (succs adj x) @ stack) (x # visited))"
  by pat_completeness auto

termination
proof (relation "measures [\<lambda>(adj, t, st, vis). card (adj_sources adj - set vis),
      \<lambda>(adj, t, st, vis). length st]", goal_cases)
  case (3 adj target x stack visited)
  then show ?case using succs_card_decrease [of x "set visited" adj] by auto
qed auto

lemma dfs_finds_correct:
  assumes "target \<notin> set visited"
    and "\<forall>v \<in> set visited. set (succs adj v) \<subseteq> set visited \<union> set stack"
  shows "dfs_finds adj target stack visited \<longleftrightarrow>
    (\<exists>x \<in> set stack. (x, target) \<in> (adj_edges adj)\<^sup>*)"
  using assms
proof (induction adj target stack visited rule: dfs_finds.induct)
  case (1 adj target visited)
  then show ?case by simp
next
  case (2 adj target x stack visited)
  consider "x = target" | "x \<noteq> target" "x \<in> set visited" | "x \<noteq> target" "x \<notin> set visited"
    by blast
  then show ?case
  proof cases
    case 1
    then show ?thesis by auto
  next
    case 2
    with "2.prems" have closed: "\<forall>v \<in> set visited. set (succs adj v) \<subseteq> set visited \<union> set stack"
      by auto
    have "(x, target) \<in> (adj_edges adj)\<^sup>* \<Longrightarrow> \<exists>y \<in> set stack. (y, target) \<in> (adj_edges adj)\<^sup>*"
      using reach_leaves_closed [OF _ 2(2) "2.prems"(1) closed] .
    with 2 "2.IH"(1) [OF 2 "2.prems"(1) closed] show ?thesis by auto
  next
    case 3
    have "(\<exists>y \<in> set (succs adj x). (y, target) \<in> (adj_edges adj)\<^sup>*)
        \<longleftrightarrow> (x, target) \<in> (adj_edges adj)\<^sup>*"
      using 3(1) by (metis adj_edges_iff converse_rtranclE converse_rtrancl_into_rtrancl)
    moreover have "dfs_finds adj target (rev (succs adj x) @ stack) (x # visited) \<longleftrightarrow>
        (\<exists>y \<in> set (rev (succs adj x) @ stack). (y, target) \<in> (adj_edges adj)\<^sup>*)"
      using 3 "2.prems" by (intro "2.IH"(2)) auto
    ultimately show ?thesis using 3 by auto
  qed
qed

corollary dfs_finds_iff:
  "dfs_finds adj target [x] [] \<longleftrightarrow> (x, target) \<in> (adj_edges adj)\<^sup>*"
  by (subst dfs_finds_correct) auto

end
