(* ===== verification/Task_State.thy ===== *)
theory Task_State
  imports Task_Model Graph_Search
begin

text \<open>
  The state of the task aggregate (\<open>TaskStoreState\<close> of \<open>agent/features/task/src/domain/state.rs\<close>) and
  the reads every command starts from: live lookup, revision reservation and commit, the blocking
  dependencies of a task, and the cycle test on the dependency graph.
\<close>

record task_store_state =
  ts_tasks :: "(task_id, task_data) hmap"
  ts_batches :: "(batch_id, batch_data) hmap"
  ts_next_task_id :: task_id
  ts_next_batch_id :: batch_id
  ts_current_batch :: "batch_id option"
  ts_revision :: task_revision

type_synonym 'a task_outcome = "(task_command_error, 'a command_result) outcome \<times> task_store_state"

definition empty_state :: task_store_state where
  "empty_state =
     \<lparr>ts_tasks = [], ts_batches = [], ts_next_task_id = TaskIdData 1,
      ts_next_batch_id = BatchIdData 1, ts_current_batch = None, ts_revision = TaskRevisionData 0\<rparr>"

section \<open>Revisions\<close>

definition reserve_revision :: "task_store_state \<Rightarrow> (task_command_error, task_revision) outcome" where
  "reserve_revision s =
     (case checked_add (task_revision_get (ts_revision s)) 1 of
        None \<Rightarrow> Err RevisionExhausted
      | Some r \<Rightarrow> Ok (TaskRevisionData r))"

text \<open>\<open>let revision = self.reserve_revision()?;\<close> followed by the rest of the method.\<close>

definition with_revision ::
    "task_store_state \<Rightarrow> (task_revision \<Rightarrow> 'a task_outcome) \<Rightarrow> 'a task_outcome" where
  "with_revision s rest =
     (case reserve_revision s of
        Ok revision \<Rightarrow> rest revision
      | Err e \<Rightarrow> (Err e, s)
      | Panic \<Rightarrow> (Panic, s))"

definition commit :: "'a command_result \<Rightarrow> task_revision \<Rightarrow> task_store_state \<Rightarrow> 'a task_outcome" where
  "commit result revision s = (Ok (commit_result revision result), s\<lparr>ts_revision := revision\<rparr>)"

section \<open>Entities inside the aggregate\<close>

definition live_task :: "task_store_state \<Rightarrow> task_id \<Rightarrow> task_data option" where
  "live_task s i =
     (case map_of (ts_tasks s) i of
        None \<Rightarrow> None
      | Some t \<Rightarrow> if td_status t \<noteq> Deleted then Some t else None)"

definition put_task :: "task_id \<Rightarrow> task_data \<Rightarrow> task_store_state \<Rightarrow> task_store_state" where
  "put_task i t s = s\<lparr>ts_tasks := hm_insert i t (ts_tasks s)\<rparr>"

definition put_batch :: "batch_id \<Rightarrow> batch_data \<Rightarrow> task_store_state \<Rightarrow> task_store_state" where
  "put_batch i b s = s\<lparr>ts_batches := hm_insert i b (ts_batches s)\<rparr>"

text \<open>\<open>self.tasks.get_mut(&id).expect(..)\<close> and a mutation of the entity; \<open>None\<close> is the panic.\<close>

definition modify_task ::
    "task_id \<Rightarrow> (task_data \<Rightarrow> task_data) \<Rightarrow> task_store_state \<Rightarrow> task_store_state option" where
  "modify_task i f s =
     (case map_of (ts_tasks s) i of None \<Rightarrow> None | Some t \<Rightarrow> Some (put_task i (f t) s))"

fun modify_tasks ::
    "task_id list \<Rightarrow> (task_data \<Rightarrow> task_data) \<Rightarrow> task_store_state \<Rightarrow> task_store_state option" where
  "modify_tasks [] f s = Some s"
| "modify_tasks (i # is) f s =
     (case modify_task i f s of None \<Rightarrow> None | Some s' \<Rightarrow> modify_tasks is f s')"

section \<open>Dependencies\<close>

definition blocking_ids :: "task_store_state \<Rightarrow> task_id \<Rightarrow> (task_command_error, task_id list) outcome" where
  "blocking_ids s i =
     (case map_of (ts_tasks s) i of
        None \<Rightarrow> Err (TaskNotFound i)
      | Some t \<Rightarrow>
          Ok (filter
            (\<lambda>d. case map_of (ts_tasks s) d of
                   None \<Rightarrow> False
                 | Some dependency \<Rightarrow> \<not> (td_status dependency = Completed \<or> td_status dependency = Deleted))
            (td_blocked_by t)))"

definition is_blocked :: "task_store_state \<Rightarrow> task_id \<Rightarrow> (task_command_error, bool) outcome" where
  "is_blocked s i = map_ok (\<lambda>ids. ids \<noteq> []) (blocking_ids s i)"

text \<open>The dependency graph that \<open>would_create_cycle\<close> walks: a task points to what blocks it.\<close>

definition dep_adj :: "task_store_state \<Rightarrow> task_id adjacency" where
  "dep_adj s = map (\<lambda>(i, t). (i, td_blocked_by t)) (ts_tasks s)"

definition would_create_cycle :: "task_store_state \<Rightarrow> task_id \<Rightarrow> task_id \<Rightarrow> bool" where
  "would_create_cycle s task_id blocked_by_id =
     (if task_id = blocked_by_id then True else dfs_finds (dep_adj s) task_id [blocked_by_id] [])"

abbreviation dep_edges :: "task_store_state \<Rightarrow> (task_id \<times> task_id) set" where
  "dep_edges s \<equiv> adj_edges (dep_adj s)"

lemma succs_dep_adj:
  "succs (dep_adj s) i = (case map_of (ts_tasks s) i of None \<Rightarrow> [] | Some t \<Rightarrow> td_blocked_by t)"
proof -
  have "map_of (dep_adj s) i = map_option td_blocked_by (map_of (ts_tasks s) i)"
    unfolding dep_adj_def by (induction "ts_tasks s") (auto simp: map_of_map)
  then show ?thesis by (simp add: succs_def split: option.split)
qed

lemma dep_edges_iff:
  "(a, b) \<in> dep_edges s \<longleftrightarrow> (\<exists>t. map_of (ts_tasks s) a = Some t \<and> b \<in> set (td_blocked_by t))"
  by (cases "map_of (ts_tasks s) a") (simp_all add: succs_dep_adj)

lemma would_create_cycle_iff:
  "would_create_cycle s a b \<longleftrightarrow> (b, a) \<in> (dep_edges s)\<^sup>*"
  unfolding would_create_cycle_def dfs_finds_iff by auto

section \<open>Rewriting with state updates\<close>

lemma put_task_sel [simp]:
  "ts_tasks (put_task i t s) = hm_insert i t (ts_tasks s)"
  "ts_batches (put_task i t s) = ts_batches s"
  "ts_next_task_id (put_task i t s) = ts_next_task_id s"
  "ts_next_batch_id (put_task i t s) = ts_next_batch_id s"
  "ts_current_batch (put_task i t s) = ts_current_batch s"
  "ts_revision (put_task i t s) = ts_revision s"
  by (simp_all add: put_task_def)

lemma put_batch_sel [simp]:
  "ts_tasks (put_batch i b s) = ts_tasks s"
  "ts_batches (put_batch i b s) = hm_insert i b (ts_batches s)"
  "ts_next_task_id (put_batch i b s) = ts_next_task_id s"
  "ts_next_batch_id (put_batch i b s) = ts_next_batch_id s"
  "ts_current_batch (put_batch i b s) = ts_current_batch s"
  "ts_revision (put_batch i b s) = ts_revision s"
  by (simp_all add: put_batch_def)

lemma reserve_revision_cases:
  obtains "reserve_revision s = Err RevisionExhausted" "ts_revision s = TaskRevisionData (- 1)"
  | r where "reserve_revision s = Ok (TaskRevisionData r)"
      "checked_add (task_revision_get (ts_revision s)) 1 = Some r"
proof (cases "checked_add (task_revision_get (ts_revision s)) 1")
  case None
  then have "ts_revision s = TaskRevisionData (- 1)"
    by (cases "ts_revision s") (simp add: checked_add_none)
  with None that(1) show ?thesis by (simp add: reserve_revision_def)
next
  case (Some r)
  with that(2) show ?thesis by (simp add: reserve_revision_def)
qed

lemma reserve_revision_not_panic [simp]: "reserve_revision s \<noteq> Panic"
  by (simp add: reserve_revision_def split: option.split)

lemma with_revision_split:
  "P (with_revision s k) \<longleftrightarrow>
     (reserve_revision s = Err RevisionExhausted \<longrightarrow> P (Err RevisionExhausted, s)) \<and>
     (\<forall>r. reserve_revision s = Ok r \<longrightarrow> P (k r))"
  by (auto simp: with_revision_def reserve_revision_def split: option.split outcome.split)

lemma live_task_Some_iff:
  "live_task s i = Some t \<longleftrightarrow> map_of (ts_tasks s) i = Some t \<and> td_status t \<noteq> Deleted"
  by (auto simp: live_task_def split: option.split)

lemma modify_task_Some_iff:
  "modify_task i f s = Some s' \<longleftrightarrow>
     (\<exists>t. map_of (ts_tasks s) i = Some t \<and> s' = put_task i (f t) s)"
  by (auto simp: modify_task_def split: option.split)

lemma modify_task_None_iff [simp]: "modify_task i f s = None \<longleftrightarrow> map_of (ts_tasks s) i = None"
  by (simp add: modify_task_def split: option.split)

lemma modify_tasks_None_iff:
  "modify_tasks is f s = None \<longleftrightarrow> (\<exists>i \<in> set is. map_of (ts_tasks s) i = None)"
proof (induction "is" arbitrary: s)
  case (Cons i "is")
  have "map_of (ts_tasks (put_task i t s)) j = None \<longleftrightarrow> map_of (ts_tasks s) j = None"
    if "map_of (ts_tasks s) i = Some u" for t u j
    using that by (auto simp: hmap_simps)
  with Cons show ?case by (auto simp: modify_task_def split: option.split)
qed simp

text \<open>What a batch of modifications does, for modifications that commute with themselves.\<close>

lemma modify_tasks_lookup:
  assumes "modify_tasks is f s = Some s'" "distinct is"
  shows "map_of (ts_tasks s') j =
    (if j \<in> set is then map_option f (map_of (ts_tasks s) j) else map_of (ts_tasks s) j)"
  using assms
proof (induction "is" arbitrary: s)
  case (Cons i "is")
  then obtain t where t: "map_of (ts_tasks s) i = Some t"
    and s': "modify_tasks is f (put_task i (f t) s) = Some s'"
    by (auto simp: modify_task_def split: option.splits)
  from Cons.IH [OF s'] Cons.prems(2) t show ?case by (auto simp: hmap_simps)
qed simp

lemma modify_tasks_frame:
  assumes "modify_tasks is f s = Some s'"
  shows "ts_batches s' = ts_batches s" "ts_next_task_id s' = ts_next_task_id s"
    "ts_next_batch_id s' = ts_next_batch_id s" "ts_current_batch s' = ts_current_batch s"
    "ts_revision s' = ts_revision s"
  using assms
  by (induction "is" arbitrary: s) (auto simp: modify_task_def split: option.splits)

lemma modify_tasks_keys:
  "modify_tasks is f s = Some s' \<Longrightarrow> hm_keys (ts_tasks s') = hm_keys (ts_tasks s)"
  by (induction "is" arbitrary: s) (auto simp: modify_task_def split: option.splits)

end
