(* ===== verification/Task_Query.thy ===== *)
theory Task_Query
  imports Task_State "HOL-Library.Option_ord" "HOL-Library.Product_Lexorder"
begin

text \<open>
  The read models of the task aggregate (\<open>agent/features/task/src/domain/query.rs\<close>) and the pure
  lifecycle detectors they use (\<open>agent/features/task/src/domain/lifecycle.rs\<close>). A traversal of
  \<open>HashMap::values\<close> is a traversal of the association list; each read that returns a list sorts it,
  and \<open>Task_Query_Facts\<close> shows the results do not depend on the traversal order.
\<close>

definition RECENT_LIMIT :: nat where "RECENT_LIMIT = 2"
definition READY_LIMIT :: nat where "READY_LIMIT = 2"

section \<open>Lifecycle detectors\<close>

record interrupted_batch_info =
  ib_batch_id :: batch_id
  ib_incomplete_count :: nat
  ib_incomplete_ids :: "task_id list"

record stale_batch_info =
  sb_batch_id :: batch_id
  sb_silence_turns :: u64
  sb_incomplete_ids :: "task_id list"

definition detect_batch_all_completed :: "batch_id option \<Rightarrow> task_data list \<Rightarrow> batch_id option" where
  "detect_batch_all_completed prev_batch tasks =
     (case prev_batch of
        None \<Rightarrow> None
      | Some b \<Rightarrow>
          let relevant = filter (\<lambda>t. td_batch t = b \<and> td_status t \<noteq> Deleted) tasks
          in if relevant \<noteq> [] \<and> list_all (\<lambda>t. td_status t = Completed) relevant
             then Some b else None)"

text \<open>The incomplete tasks of one batch, as both detectors collect them.\<close>

definition incomplete_ids :: "task_data list \<Rightarrow> batch_id \<Rightarrow> task_id list" where
  "incomplete_ids tasks b =
     sort (map td_id (filter
       (\<lambda>t. td_batch t = b \<and> \<not> (td_status t = Completed \<or> td_status t = Deleted)) tasks))"

fun find_map :: "('a \<Rightarrow> 'b option) \<Rightarrow> 'a list \<Rightarrow> 'b option" where
  "find_map f [] = None"
| "find_map f (x # xs) = (case f x of Some y \<Rightarrow> Some y | None \<Rightarrow> find_map f xs)"

definition detect_interrupted_batch ::
    "batch_id \<Rightarrow> task_data list \<Rightarrow> batch_data list \<Rightarrow> bool \<Rightarrow> interrupted_batch_info option" where
  "detect_interrupted_batch current_batch tasks batches is_new_topic =
     (if \<not> is_new_topic then None
      else find_map
        (\<lambda>b. let ids = incomplete_ids tasks (bd_id b)
              in if ids \<noteq> []
                 then Some \<lparr>ib_batch_id = bd_id b, ib_incomplete_count = length ids,
                            ib_incomplete_ids = ids\<rparr>
                 else None)
        (sort_key bd_id (filter (\<lambda>b. bd_id b \<noteq> current_batch \<and> bd_status b = Active) batches)))"

definition detect_stale_batches ::
    "task_data list \<Rightarrow> batch_data list \<Rightarrow> u64 \<Rightarrow> stale_batch_info list" where
  "detect_stale_batches tasks batches threshold =
     sort_key sb_batch_id (List.map_filter
       (\<lambda>b. let ids = incomplete_ids tasks (bd_id b)
             in if ids \<noteq> []
                then Some \<lparr>sb_batch_id = bd_id b, sb_silence_turns = bd_silence_turns b,
                           sb_incomplete_ids = ids\<rparr>
                else None)
       (filter (\<lambda>b. bd_status b = Active \<and> threshold \<le> bd_silence_turns b) batches))"

section \<open>Statistics\<close>

record task_priority_stats =
  ps_low :: nat
  ps_normal :: nat
  ps_high :: nat
  ps_urgent :: nat

fun priority_stats_increment :: "task_priority \<Rightarrow> task_priority_stats \<Rightarrow> task_priority_stats" where
  "priority_stats_increment Low p = p\<lparr>ps_low := ps_low p + 1\<rparr>"
| "priority_stats_increment Normal p = p\<lparr>ps_normal := ps_normal p + 1\<rparr>"
| "priority_stats_increment High p = p\<lparr>ps_high := ps_high p + 1\<rparr>"
| "priority_stats_increment Urgent p = p\<lparr>ps_urgent := ps_urgent p + 1\<rparr>"

record task_store_stats =
  st_total :: nat
  st_pending :: nat
  st_in_progress :: nat
  st_completed :: nat
  st_deleted :: nat
  st_by_priority :: task_priority_stats

definition default_stats :: task_store_stats where
  "default_stats =
     \<lparr>st_total = 0, st_pending = 0, st_in_progress = 0, st_completed = 0, st_deleted = 0,
      st_by_priority = \<lparr>ps_low = 0, ps_normal = 0, ps_high = 0, ps_urgent = 0\<rparr>\<rparr>"

definition stats_increment :: "task_data \<Rightarrow> task_store_stats \<Rightarrow> task_store_stats" where
  "stats_increment t st0 =
     (let st = st0\<lparr>st_total := st_total st0 + 1\<rparr>;
          live = (\<lambda>s'. s'\<lparr>st_by_priority := priority_stats_increment (td_priority t) (st_by_priority s')\<rparr>)
      in case td_status t of
           Pending \<Rightarrow> live (st\<lparr>st_pending := st_pending st + 1\<rparr>)
         | InProgress \<Rightarrow> live (st\<lparr>st_in_progress := st_in_progress st + 1\<rparr>)
         | Completed \<Rightarrow> live (st\<lparr>st_completed := st_completed st + 1\<rparr>)
         | Deleted \<Rightarrow> st\<lparr>st_deleted := st_deleted st + 1\<rparr>)"

text \<open>\<open>TaskStoreState::stats\<close>, with its own fold body.\<close>

definition stats :: "task_store_state \<Rightarrow> task_store_stats" where
  "stats s = fold
     (\<lambda>t st0.
        let st1 = st0\<lparr>st_total := st_total st0 + 1\<rparr>;
            st2 = (case td_status t of
                     Pending \<Rightarrow> st1\<lparr>st_pending := st_pending st1 + 1\<rparr>
                   | InProgress \<Rightarrow> st1\<lparr>st_in_progress := st_in_progress st1 + 1\<rparr>
                   | Completed \<Rightarrow> st1\<lparr>st_completed := st_completed st1 + 1\<rparr>
                   | Deleted \<Rightarrow> st1\<lparr>st_deleted := st_deleted st1 + 1\<rparr>)
        in if td_status t \<noteq> Deleted
           then st2\<lparr>st_by_priority := priority_stats_increment (td_priority t) (st_by_priority st2)\<rparr>
           else st2)
     (hm_values (ts_tasks s)) default_stats"

section \<open>Lists and batch read models\<close>

definition get_task :: "task_store_state \<Rightarrow> task_id \<Rightarrow> task_data option" where
  "get_task s i = map_of (ts_tasks s) i"

definition current_task_by_seq :: "task_store_state \<Rightarrow> u64 \<Rightarrow> task_data option" where
  "current_task_by_seq s seq =
     (case ts_current_batch s of
        None \<Rightarrow> None
      | Some b \<Rightarrow>
          List.find (\<lambda>t. td_batch t = b \<and> td_seq t = seq \<and> td_status t \<noteq> Deleted)
            (hm_values (ts_tasks s)))"

definition list_tasks :: "task_store_state \<Rightarrow> task_data list" where
  "list_tasks s = sort_key td_id (filter (\<lambda>t. td_status t \<noteq> Deleted) (hm_values (ts_tasks s)))"

definition list_batches :: "task_store_state \<Rightarrow> batch_data list" where
  "list_batches s = sort_key bd_id (hm_values (ts_batches s))"

record task_batch_snapshot =
  bs_batch :: batch_data
  bs_stats :: task_store_stats
  bs_tasks :: "task_data list"

definition batch_snapshot :: "task_store_state \<Rightarrow> batch_id \<Rightarrow> task_batch_snapshot option" where
  "batch_snapshot s i =
     (case map_of (ts_batches s) i of
        None \<Rightarrow> None
      | Some b \<Rightarrow>
          let tasks = sort_key td_id
                (filter (\<lambda>t. td_batch t = i \<and> td_status t \<noteq> Deleted) (hm_values (ts_tasks s)))
          in Some \<lparr>bs_batch = b, bs_stats = fold stats_increment tasks default_stats,
                   bs_tasks = tasks\<rparr>)"

definition list_batch_snapshots :: "task_store_state \<Rightarrow> task_batch_snapshot list" where
  "list_batch_snapshots s = List.map_filter (\<lambda>b. batch_snapshot s (bd_id b)) (list_batches s)"

section \<open>Progress\<close>

record task_progress_item =
  pi_id :: task_id
  pi_seq :: u64
  pi_subject :: ustr
  pi_status :: task_status
  pi_completed_at :: "u64 option"

definition progress_item :: "task_data \<Rightarrow> task_progress_item" where
  "progress_item t =
     \<lparr>pi_id = td_id t, pi_seq = td_seq t, pi_subject = td_subject t, pi_status = td_status t,
      pi_completed_at = td_completed_at t\<rparr>"

record task_progress_snapshot =
  pg_task_list_id :: batch_id
  pg_summary :: "ustr option"
  pg_task_list_status :: batch_status
  pg_updated :: task_progress_item
  pg_recently_completed :: "task_progress_item list"
  pg_in_progress :: "task_progress_item list"
  pg_ready :: "task_progress_item list"
  pg_ready_omitted :: nat
  pg_blocked_count :: nat
  pg_auto_closed :: bool
  pg_auto_reopened :: bool

text \<open>The live tasks of a batch by identifier, and the predicate that splits ready from blocked.\<close>

definition batch_tasks :: "task_store_state \<Rightarrow> batch_id \<Rightarrow> task_data list" where
  "batch_tasks s b = sort_key td_id
     (filter (\<lambda>t. td_batch t = b \<and> td_status t \<noteq> Deleted) (hm_values (ts_tasks s)))"

definition is_ready :: "task_store_state \<Rightarrow> task_data \<Rightarrow> bool" where
  "is_ready s t = (case blocking_ids s (td_id t) of Ok ids \<Rightarrow> ids = [] | _ \<Rightarrow> False)"

text \<open>
  The comparator \<open>right.completed_at().cmp(&left.completed_at()).then(right.id().cmp(&left.id()))\<close>
  is the descending order of the pair; identifiers make the pairs distinct.
\<close>

definition recently_completed :: "task_data list \<Rightarrow> task_data list" where
  "recently_completed tasks =
     rev (sort_key (\<lambda>t. (td_completed_at t, td_id t)) (filter (\<lambda>t. td_status t = Completed) tasks))"

definition progress_snapshot ::
    "task_store_state \<Rightarrow> batch_id \<Rightarrow> task_id \<Rightarrow> bool \<Rightarrow> bool \<Rightarrow> task_progress_snapshot option" where
  "progress_snapshot s batch_id updated_id auto_closed auto_reopened =
     (case map_of (ts_batches s) batch_id of
        None \<Rightarrow> None
      | Some batch \<Rightarrow>
          (case map_of (ts_tasks s) updated_id of
             None \<Rightarrow> None
           | Some updated \<Rightarrow>
               let tasks = batch_tasks s batch_id;
                   pending = filter (\<lambda>t. td_status t = Pending) tasks;
                   ready = filter (is_ready s) pending;
                   blocked = filter (\<lambda>t. \<not> is_ready s t) pending
               in Some
                 \<lparr>pg_task_list_id = batch_id,
                  pg_summary = bd_summary batch,
                  pg_task_list_status = bd_status batch,
                  pg_updated = progress_item updated,
                  pg_recently_completed =
                    map progress_item (take RECENT_LIMIT (recently_completed tasks)),
                  pg_in_progress = map progress_item (filter (\<lambda>t. td_status t = InProgress) tasks),
                  pg_ready = map progress_item (take READY_LIMIT ready),
                  pg_ready_omitted = length ready - READY_LIMIT,
                  pg_blocked_count = length blocked,
                  pg_auto_closed = auto_closed,
                  pg_auto_reopened = auto_reopened\<rparr>))"

section \<open>Lifecycle snapshot\<close>

record task_lifecycle_snapshot =
  ls_current_batch :: "batch_id option"
  ls_stale_after_silence_turns :: u64
  ls_all_completed :: "batch_id option"
  ls_interrupted :: "interrupted_batch_info option"
  ls_stale_batches :: "stale_batch_info list"

definition lifecycle_snapshot :: "task_store_state \<Rightarrow> u64 \<Rightarrow> task_lifecycle_snapshot" where
  "lifecycle_snapshot s stale_after_silence_turns =
     (let tasks = list_tasks s; batches = list_batches s; current = ts_current_batch s
      in \<lparr>ls_current_batch = current,
          ls_stale_after_silence_turns = stale_after_silence_turns,
          ls_all_completed = detect_batch_all_completed current tasks,
          ls_interrupted =
            (case current of
               None \<Rightarrow> None
             | Some i \<Rightarrow> detect_interrupted_batch i tasks batches True),
          ls_stale_batches = detect_stale_batches tasks batches stale_after_silence_turns\<rparr>)"

end
