(* ===== verification/Task_Commands.thy ===== *)
theory Task_Commands
  imports Task_Query
begin

text \<open>
  The commands of the task aggregate, one definition per method of \<open>impl TaskStoreState\<close> in
  \<open>agent/features/task/src/domain/state.rs\<close>, in the order of the source. Every guard, early return
  and \<open>expect\<close> of the code is a branch; the state returned on an error path is the state the method
  leaves behind at that point, so that failed commands being atomic is a theorem and not an
  artefact of the encoding.
\<close>

section \<open>Clearing and creation\<close>

definition clear_store :: "task_store_state \<Rightarrow> unit task_outcome" where
  "clear_store s =
     (if ts_tasks s = [] \<and> ts_batches s = [] \<and> ts_current_batch s = None \<and>
         ts_next_batch_id s = BatchIdData 1
      then (Ok (uncommitted () []), s)
      else with_revision s (\<lambda>revision.
        let events = [TaskStoreCleared (length (ts_tasks s)) (length (ts_batches s))];
            s' = s\<lparr>ts_tasks := [], ts_batches := [], ts_next_batch_id := BatchIdData 1,
                   ts_current_batch := None\<rparr>
        in commit (uncommitted () events) revision s'))"

text \<open>The body of \<open>if let Some(active) = self.current_batch\<close> in \<open>create_batch\<close>: both \<open>expect\<close>s panic.\<close>

definition archive_current :: "task_store_state \<Rightarrow> task_store_state option" where
  "archive_current s =
     (case ts_current_batch s of
        None \<Rightarrow> Some s
      | Some active \<Rightarrow>
          (case map_of (ts_batches s) active of
             None \<Rightarrow> None
           | Some b \<Rightarrow>
               (case bd_transition_to Archived b of
                  (Ok _, b') \<Rightarrow> Some (put_batch active b' s)
                | _ \<Rightarrow> None)))"

definition create_batch :: "batch_create_spec \<Rightarrow> u64 \<Rightarrow> task_store_state \<Rightarrow> batch_data task_outcome" where
  "create_batch spec timestamp s =
     (case checked_add (batch_id_get (ts_next_batch_id s)) 1 of
        None \<Rightarrow> (Err BatchIdExhausted, s)
      | Some n \<Rightarrow> with_revision s (\<lambda>revision.
          case archive_current s of
            None \<Rightarrow> (Panic, s)
          | Some s1 \<Rightarrow>
              let i = ts_next_batch_id s;
                  batch = bd_create i spec timestamp;
                  s2 = (put_batch i batch s1)
                         \<lparr>ts_current_batch := Some i, ts_next_batch_id := BatchIdData n\<rparr>
              in commit (uncommitted batch []) revision s2))"

definition next_seq :: "task_store_state \<Rightarrow> batch_id \<Rightarrow> u64 option" where
  "next_seq s b =
     checked_add
       (fold max (map td_seq (filter (\<lambda>t. td_batch t = b) (hm_values (ts_tasks s)))) 0) 1"

definition create_task :: "task_create_spec \<Rightarrow> u64 \<Rightarrow> task_store_state \<Rightarrow> task_data task_outcome" where
  "create_task spec timestamp s =
     (case ts_current_batch s of
        None \<Rightarrow> (Err NoActiveBatch, s)
      | Some batch \<Rightarrow>
          (case checked_add (task_id_get (ts_next_task_id s)) 1 of
             None \<Rightarrow> (Err TaskIdExhausted, s)
           | Some n \<Rightarrow> with_revision s (\<lambda>revision.
               case next_seq s batch of
                 None \<Rightarrow> (Err TaskIdExhausted, s)
               | Some seq \<Rightarrow>
                   let i = ts_next_task_id s;
                       result = td_create i batch seq spec timestamp;
                       s' = (put_task i (cr_value result) s)\<lparr>ts_next_task_id := TaskIdData n\<rparr>
                   in commit result revision s')))"

section \<open>Fields of a task\<close>

definition set_subject :: "task_id \<Rightarrow> ustr \<Rightarrow> u64 \<Rightarrow> task_store_state \<Rightarrow> task_data task_outcome" where
  "set_subject i subject updated_at s =
     (case live_task s i of
        None \<Rightarrow> (Err (TaskNotFound i), s)
      | Some task \<Rightarrow>
          if is_blank subject then (Err InvalidTaskSubject, s)
          else if td_subject task = subject then (Ok (uncommitted task []), s)
          else with_revision s (\<lambda>revision.
            case map_of (ts_tasks s) i of
              None \<Rightarrow> (Panic, s)
            | Some t \<Rightarrow>
                (case td_set_subject subject updated_at t of
                   (Ok result, t') \<Rightarrow> commit result revision (put_task i t' s)
                 | (Err e, t') \<Rightarrow> (Err e, put_task i t' s)
                 | (Panic, t') \<Rightarrow> (Panic, put_task i t' s))))"

definition set_description :: "task_id \<Rightarrow> ustr \<Rightarrow> u64 \<Rightarrow> task_store_state \<Rightarrow> task_data task_outcome" where
  "set_description i description updated_at s =
     (case live_task s i of
        None \<Rightarrow> (Err (TaskNotFound i), s)
      | Some task \<Rightarrow>
          if td_description task = description then (Ok (uncommitted task []), s)
          else with_revision s (\<lambda>revision.
            case map_of (ts_tasks s) i of
              None \<Rightarrow> (Panic, s)
            | Some t \<Rightarrow>
                let (result, t') = td_set_description description updated_at t
                in commit result revision (put_task i t' s)))"

definition set_priority :: "task_id \<Rightarrow> task_priority \<Rightarrow> u64 \<Rightarrow> task_store_state \<Rightarrow> task_data task_outcome" where
  "set_priority i priority updated_at s =
     (case live_task s i of
        None \<Rightarrow> (Err (TaskNotFound i), s)
      | Some task \<Rightarrow>
          if td_priority task = priority then (Ok (uncommitted task []), s)
          else with_revision s (\<lambda>revision.
            case map_of (ts_tasks s) i of
              None \<Rightarrow> (Panic, s)
            | Some t \<Rightarrow>
                let t' = td_set_priority priority updated_at t
                in commit (uncommitted t' [TaskPriorityChanged i (td_priority task) priority])
                     revision (put_task i t' s)))"

definition add_tag :: "task_id \<Rightarrow> ustr \<Rightarrow> u64 \<Rightarrow> task_store_state \<Rightarrow> task_data task_outcome" where
  "add_tag i tag updated_at s =
     (case live_task s i of
        None \<Rightarrow> (Err (TaskNotFound i), s)
      | Some task \<Rightarrow>
          if tag \<in> set (td_tags task) then (Ok (uncommitted task []), s)
          else with_revision s (\<lambda>revision.
            case map_of (ts_tasks s) i of
              None \<Rightarrow> (Panic, s)
            | Some t \<Rightarrow>
                let t' = td_add_tag tag updated_at t
                in commit (uncommitted t' [TaskTagAdded i tag]) revision (put_task i t' s)))"

definition remove_tag :: "task_id \<Rightarrow> ustr \<Rightarrow> u64 \<Rightarrow> task_store_state \<Rightarrow> task_data task_outcome" where
  "remove_tag i tag updated_at s =
     (case live_task s i of
        None \<Rightarrow> (Err (TaskNotFound i), s)
      | Some task \<Rightarrow>
          if tag \<notin> set (td_tags task) then (Ok (uncommitted task []), s)
          else with_revision s (\<lambda>revision.
            case map_of (ts_tasks s) i of
              None \<Rightarrow> (Panic, s)
            | Some t \<Rightarrow>
                let t' = td_remove_tag tag updated_at t
                in commit (uncommitted t' [TaskTagRemoved i tag]) revision (put_task i t' s)))"

section \<open>Dependencies\<close>

text \<open>
  The two \<open>get_mut(..).expect(..)\<close> mutations of one edge. \<open>link_edge\<close> and \<open>unlink_edge\<close> return
  \<open>None\<close> when an end is missing; in that case the method panics.
\<close>

definition link_edge :: "task_id \<Rightarrow> task_id \<Rightarrow> u64 \<Rightarrow> task_store_state \<Rightarrow> task_store_state option" where
  "link_edge task_id blocked_by_id updated_at s =
     (case modify_task task_id (td_add_blocked_by blocked_by_id updated_at) s of
        None \<Rightarrow> None
      | Some s1 \<Rightarrow> modify_task blocked_by_id (td_add_blocks task_id updated_at) s1)"

definition unlink_edge :: "task_id \<Rightarrow> task_id \<Rightarrow> u64 \<Rightarrow> task_store_state \<Rightarrow> task_store_state option" where
  "unlink_edge task_id blocked_by_id updated_at s =
     (case modify_task task_id (td_remove_blocked_by blocked_by_id updated_at) s of
        None \<Rightarrow> None
      | Some s1 \<Rightarrow> modify_task blocked_by_id (td_remove_blocks task_id updated_at) s1)"

text \<open>Cloning the edited task out of the map and committing it with its events.\<close>

definition commit_task ::
    "task_id \<Rightarrow> task_event list \<Rightarrow> task_revision \<Rightarrow> task_store_state \<Rightarrow> task_data task_outcome" where
  "commit_task i events revision s =
     (case map_of (ts_tasks s) i of
        None \<Rightarrow> (Panic, s)
      | Some t \<Rightarrow> commit (uncommitted t events) revision s)"

definition add_dependency :: "task_id \<Rightarrow> task_id \<Rightarrow> u64 \<Rightarrow> task_store_state \<Rightarrow> task_data task_outcome" where
  "add_dependency task_id blocked_by_id updated_at s =
     (case live_task s task_id of
        None \<Rightarrow> (Err (TaskNotFound task_id), s)
      | Some task \<Rightarrow>
          (case live_task s blocked_by_id of
             None \<Rightarrow> (Err (TaskNotFound blocked_by_id), s)
           | Some blocker \<Rightarrow>
               if td_batch task \<noteq> td_batch blocker
               then (Err (CrossBatchDependency task_id blocked_by_id), s)
               else if blocked_by_id \<in> set (td_blocked_by task)
               then (Ok (uncommitted task []), s)
               else if would_create_cycle s task_id blocked_by_id
               then (Err (DependencyCycle task_id blocked_by_id), s)
               else with_revision s (\<lambda>revision.
                 case link_edge task_id blocked_by_id updated_at s of
                   None \<Rightarrow> (Panic, s)
                 | Some s' \<Rightarrow>
                     commit_task task_id [TaskDependencyAdded task_id blocked_by_id] revision s')))"

definition remove_dependency :: "task_id \<Rightarrow> task_id \<Rightarrow> u64 \<Rightarrow> task_store_state \<Rightarrow> task_data task_outcome" where
  "remove_dependency task_id blocked_by_id updated_at s =
     (case map_of (ts_tasks s) task_id of
        None \<Rightarrow> (Err (TaskNotFound task_id), s)
      | Some task \<Rightarrow>
          if map_of (ts_tasks s) blocked_by_id = None then (Err (TaskNotFound blocked_by_id), s)
          else if blocked_by_id \<notin> set (td_blocked_by task) then (Ok (uncommitted task []), s)
          else with_revision s (\<lambda>revision.
            case unlink_edge task_id blocked_by_id updated_at s of
              None \<Rightarrow> (Panic, s)
            | Some s' \<Rightarrow>
                commit_task task_id [TaskDependencyRemoved task_id blocked_by_id] revision s'))"

text \<open>\<open>for pair in blocked_by_ids.windows(2)\<close>: the first adjacent equal pair.\<close>

fun adjacent_duplicate :: "'a list \<Rightarrow> 'a option" where
  "adjacent_duplicate (x # y # zs) =
     (if x = y then Some x else adjacent_duplicate (y # zs))"
| "adjacent_duplicate _ = None"

text \<open>The validation loop over the requested blockers: the first error, if any.\<close>

fun check_blockers ::
    "task_store_state \<Rightarrow> task_id \<Rightarrow> batch_id \<Rightarrow> task_id list \<Rightarrow> task_command_error option" where
  "check_blockers s task_id batch [] = None"
| "check_blockers s task_id batch (b # bs) =
     (case live_task s b of
        None \<Rightarrow> Some (TaskNotFound b)
      | Some blocker \<Rightarrow>
          if td_batch blocker \<noteq> batch then Some (CrossBatchDependency task_id b)
          else check_blockers s task_id batch bs)"

text \<open>The two loops over the cloned state; the clone's revision was reset so it cannot run out.\<close>

fun dry_remove :: "task_id \<Rightarrow> task_id list \<Rightarrow> u64 \<Rightarrow> task_store_state
    \<Rightarrow> (task_command_error, unit) outcome \<times> task_store_state" where
  "dry_remove task_id [] updated_at s = (Ok (), s)"
| "dry_remove task_id (b # bs) updated_at s =
     (case remove_dependency task_id b updated_at s of
        (Ok _, s') \<Rightarrow> dry_remove task_id bs updated_at s'
      | (Err e, s') \<Rightarrow> (Err e, s')
      | (Panic, s') \<Rightarrow> (Panic, s'))"

fun dry_add :: "task_id \<Rightarrow> task_id list \<Rightarrow> u64 \<Rightarrow> task_store_state
    \<Rightarrow> (task_command_error, unit) outcome \<times> task_store_state" where
  "dry_add task_id [] updated_at s = (Ok (), s)"
| "dry_add task_id (b # bs) updated_at s =
     (case add_dependency task_id b updated_at s of
        (Ok _, s') \<Rightarrow> dry_add task_id bs updated_at s'
      | (Err e, s') \<Rightarrow> (Err e, s')
      | (Panic, s') \<Rightarrow> (Panic, s'))"

definition dry_replace :: "task_id \<Rightarrow> task_id list \<Rightarrow> task_id list \<Rightarrow> u64 \<Rightarrow> task_store_state
    \<Rightarrow> (task_command_error, unit) outcome" where
  "dry_replace task_id current blocked_by_ids updated_at s =
     (case dry_remove task_id current updated_at (s\<lparr>ts_revision := TaskRevisionData 0\<rparr>) of
        (Ok _, s1) \<Rightarrow> fst (dry_add task_id blocked_by_ids updated_at s1)
      | (Err e, _) \<Rightarrow> Err e
      | (Panic, _) \<Rightarrow> Panic)"

fun unlink_all :: "task_id \<Rightarrow> task_id list \<Rightarrow> u64 \<Rightarrow> task_store_state \<Rightarrow> task_store_state option" where
  "unlink_all task_id [] updated_at s = Some s"
| "unlink_all task_id (b # bs) updated_at s =
     (case unlink_edge task_id b updated_at s of
        None \<Rightarrow> None
      | Some s' \<Rightarrow> unlink_all task_id bs updated_at s')"

fun link_all :: "task_id \<Rightarrow> task_id list \<Rightarrow> u64 \<Rightarrow> task_store_state \<Rightarrow> task_store_state option" where
  "link_all task_id [] updated_at s = Some s"
| "link_all task_id (b # bs) updated_at s =
     (case link_edge task_id b updated_at s of
        None \<Rightarrow> None
      | Some s' \<Rightarrow> link_all task_id bs updated_at s')"

text \<open>The tail of \<open>replace_dependencies\<close> once the dry run has accepted the new edges.\<close>

definition apply_replacement :: "task_id \<Rightarrow> task_id list \<Rightarrow> task_id list \<Rightarrow> u64 \<Rightarrow> task_store_state
    \<Rightarrow> task_data task_outcome" where
  "apply_replacement task_id current blocked_by_ids updated_at s =
     with_revision s (\<lambda>revision.
       let removed = filter (\<lambda>i. i \<notin> set blocked_by_ids) current;
           added = filter (\<lambda>i. i \<notin> set current) blocked_by_ids
       in case unlink_all task_id removed updated_at s of
            None \<Rightarrow> (Panic, s)
          | Some s1 \<Rightarrow>
              (case link_all task_id added updated_at s1 of
                 None \<Rightarrow> (Panic, s1)
               | Some s2 \<Rightarrow>
                   commit_task task_id
                     (map (TaskDependencyRemoved task_id) removed @ map (TaskDependencyAdded task_id) added)
                     revision s2))"

definition replace_dependencies ::
    "task_id \<Rightarrow> task_id list \<Rightarrow> u64 \<Rightarrow> task_store_state \<Rightarrow> task_data task_outcome" where
  "replace_dependencies task_id blocked_by_ids updated_at s =
     (case live_task s task_id of
        None \<Rightarrow> (Err (TaskNotFound task_id), s)
      | Some task \<Rightarrow>
          let current = td_blocked_by task; ids = sort blocked_by_ids
          in case adjacent_duplicate ids of
               Some d \<Rightarrow> (Err (DuplicateDependency task_id d), s)
             | None \<Rightarrow>
                 (case check_blockers s task_id (td_batch task) ids of
                    Some e \<Rightarrow> (Err e, s)
                  | None \<Rightarrow>
                      if current = ids then (Ok (uncommitted task []), s)
                      else
                        (case dry_replace task_id current ids updated_at s of
                           Err e \<Rightarrow> (Err e, s)
                         | Panic \<Rightarrow> (Panic, s)
                         | Ok _ \<Rightarrow> apply_replacement task_id current ids updated_at s)))"

section \<open>Batch lifecycle\<close>

text \<open>
  \<open>pause_batch\<close>, \<open>resume_batch\<close> and \<open>archive_batch\<close> validate on a clone, reserve, and repeat the
  transition on the stored entity (\<open>expect\<close>); the resulting batch is cloned into the result.
\<close>

definition move_batch :: "batch_id \<Rightarrow> batch_data \<Rightarrow> batch_status \<Rightarrow> batch_id option
    \<Rightarrow> task_store_state \<Rightarrow> batch_data task_outcome" where
  "move_batch i batch to current s =
     (case bd_transition_to to batch of
        (Err e, _) \<Rightarrow> (Err e, s)
      | (Panic, _) \<Rightarrow> (Panic, s)
      | (Ok _, _) \<Rightarrow> with_revision s (\<lambda>revision.
          case map_of (ts_batches s) i of
            None \<Rightarrow> (Panic, s)
          | Some b \<Rightarrow>
              (case bd_transition_to to b of
                 (Ok _, b') \<Rightarrow>
                   commit (uncommitted b' []) revision
                     ((put_batch i b' s)\<lparr>ts_current_batch := current\<rparr>)
               | (_, b') \<Rightarrow> (Panic, put_batch i b' s))))"

definition pause_batch :: "batch_id \<Rightarrow> task_store_state \<Rightarrow> batch_data task_outcome" where
  "pause_batch i s =
     (case map_of (ts_batches s) i of
        None \<Rightarrow> (Err (BatchNotFound i), s)
      | Some batch \<Rightarrow>
          move_batch i batch Paused
            (if ts_current_batch s = Some i then None else ts_current_batch s) s)"

definition resume_batch :: "batch_id \<Rightarrow> task_store_state \<Rightarrow> batch_data task_outcome" where
  "resume_batch i s =
     (case map_of (ts_batches s) i of
        None \<Rightarrow> (Err (BatchNotFound i), s)
      | Some batch \<Rightarrow>
          (case ts_current_batch s of
             Some active \<Rightarrow>
               if active \<noteq> i then (Err (ActiveBatchConflict active i), s)
               else move_batch i batch Active (Some i) s
           | None \<Rightarrow> move_batch i batch Active (Some i) s))"

definition archive_batch :: "batch_id \<Rightarrow> task_store_state \<Rightarrow> batch_data task_outcome" where
  "archive_batch i s =
     (case map_of (ts_batches s) i of
        None \<Rightarrow> (Err (BatchNotFound i), s)
      | Some batch \<Rightarrow>
          if bd_status batch = Archived then (Ok (uncommitted batch []), s)
          else move_batch i batch Archived
            (if ts_current_batch s = Some i then None else ts_current_batch s) s)"

definition record_batch_turn :: "batch_id \<Rightarrow> u64 \<Rightarrow> bool \<Rightarrow> task_store_state \<Rightarrow> batch_data task_outcome" where
  "record_batch_turn i turn active s =
     (case map_of (ts_batches s) i of
        None \<Rightarrow> (Err (BatchNotFound i), s)
      | Some batch \<Rightarrow>
          (case bd_record_turn turn active batch of
             (Err e, _) \<Rightarrow> (Err e, s)
           | (Panic, _) \<Rightarrow> (Panic, s)
           | (Ok changed, dry_run) \<Rightarrow>
               if \<not> changed then (Ok (uncommitted dry_run []), s)
               else with_revision s (\<lambda>revision.
                 case map_of (ts_batches s) i of
                   None \<Rightarrow> (Panic, s)
                 | Some b \<Rightarrow>
                     (case bd_record_turn turn active b of
                        (Ok _, b') \<Rightarrow> commit (uncommitted b' []) revision (put_batch i b' s)
                      | (_, b') \<Rightarrow> (Panic, put_batch i b' s)))))"

section \<open>Transitions and deletion\<close>

text \<open>The admission test shared by both transitions: \<open>InProgress\<close> needs every blocker finished.\<close>

definition start_blocked :: "task_store_state \<Rightarrow> task_id \<Rightarrow> task_status \<Rightarrow> task_command_error option" where
  "start_blocked s i to =
     (if to = InProgress then
        (case blocking_ids s i of
           Err e \<Rightarrow> Some e
         | Panic \<Rightarrow> None
         | Ok blocked_by \<Rightarrow> if blocked_by \<noteq> [] then Some (TaskBlocked i blocked_by) else None)
      else None)"

definition batch_unfinished :: "task_store_state \<Rightarrow> batch_id \<Rightarrow> bool" where
  "batch_unfinished s b =
     list_ex (\<lambda>t. td_batch t = b \<and> (td_status t = Pending \<or> td_status t = InProgress))
       (hm_values (ts_tasks s))"

text \<open>
  Archiving a batch whose tasks are all finished; the flag says whether it happened. The
  transition of an \<open>Active\<close> batch cannot fail, and its \<open>?\<close> is the \<open>Err\<close> branch.
\<close>

definition auto_close :: "batch_id \<Rightarrow> task_store_state
    \<Rightarrow> (task_command_error, bool) outcome \<times> task_store_state" where
  "auto_close batch_id s =
     (case map_of (ts_batches s) batch_id of
        None \<Rightarrow> (Ok False, s)
      | Some b \<Rightarrow>
          if \<not> batch_unfinished s batch_id \<and> bd_status b = Active then
            (case bd_transition_to Archived b of
               (Ok _, b') \<Rightarrow>
                 let s1 = put_batch batch_id b' s
                 in (Ok True,
                     if ts_current_batch s1 = Some batch_id then s1\<lparr>ts_current_batch := None\<rparr> else s1)
             | (Err e, b') \<Rightarrow> (Err e, put_batch batch_id b' s)
             | (Panic, b') \<Rightarrow> (Panic, put_batch batch_id b' s))
          else (Ok False, s))"

text \<open>Reopening an archived batch when one of its tasks becomes unfinished again.\<close>

definition auto_reopen :: "batch_id \<Rightarrow> task_status \<Rightarrow> task_store_state
    \<Rightarrow> (task_command_error, bool) outcome \<times> task_store_state" where
  "auto_reopen batch_id to s =
     (case map_of (ts_batches s) batch_id of
        None \<Rightarrow> (Err (BatchNotFound batch_id), s)
      | Some b \<Rightarrow>
          if bd_status b = Archived \<and> (to = Pending \<or> to = InProgress) then
            (let reopen =
               (case bd_reopen b of
                  (Ok _, b') \<Rightarrow>
                    (Ok True, (put_batch batch_id b' s)\<lparr>ts_current_batch := Some batch_id\<rparr>)
                | (Err e, b') \<Rightarrow> (Err e, put_batch batch_id b' s)
                | (Panic, b') \<Rightarrow> (Panic, put_batch batch_id b' s))
             in case ts_current_batch s of
                  Some active \<Rightarrow>
                    if active \<noteq> batch_id then (Err (ActiveBatchConflict active batch_id), s) else reopen
                | None \<Rightarrow> reopen)
          else (Ok False, s))"

text \<open>
  The common end of the two progress commands: the revision of the original state, the progress
  view of the dry run (its absence is a panic), and \<open>*self = dry_run\<close> with the commit.
\<close>

definition finish_progress :: "task_store_state \<Rightarrow> task_store_state \<Rightarrow> batch_id \<Rightarrow> task_id \<Rightarrow> bool \<Rightarrow> bool
    \<Rightarrow> task_event list \<Rightarrow> task_revision \<Rightarrow> task_progress_snapshot task_outcome" where
  "finish_progress s dry batch_id i auto_closed auto_reopened events revision =
     (case progress_snapshot dry batch_id i auto_closed auto_reopened of
        None \<Rightarrow> (Panic, s)
      | Some progress \<Rightarrow> commit (uncommitted progress events) revision dry)"

definition transition_task :: "task_status \<Rightarrow> u64 \<Rightarrow> task_data
    \<Rightarrow> (task_command_error, task_data command_result) outcome \<times> task_data" where
  "transition_task to updated_at t =
     (if td_status t = Completed \<and> (to = Pending \<or> to = InProgress)
      then td_reopen_from_completed to updated_at t
      else td_transition_to to updated_at t)"

definition transition_with_progress ::
    "task_id \<Rightarrow> task_status \<Rightarrow> u64 \<Rightarrow> task_store_state \<Rightarrow> task_progress_snapshot task_outcome" where
  "transition_with_progress i to updated_at s =
     (case start_blocked s i to of
        Some e \<Rightarrow> (Err e, s)
      | None \<Rightarrow>
          (case map_of (ts_tasks s) i of
             None \<Rightarrow> (Err (TaskNotFound i), s)
           | Some task \<Rightarrow>
               (case transition_task to updated_at task of
                  (Err e, _) \<Rightarrow> (Err e, s)
                | (Panic, _) \<Rightarrow> (Panic, s)
                | (Ok task_result, t') \<Rightarrow>
                    (case auto_reopen (td_batch task) to (put_task i t' s) of
                       (Err e, _) \<Rightarrow> (Err e, s)
                     | (Panic, _) \<Rightarrow> (Panic, s)
                     | (Ok auto_reopened, s1) \<Rightarrow>
                         (case auto_close (td_batch task) s1 of
                            (Err e, _) \<Rightarrow> (Err e, s)
                          | (Panic, _) \<Rightarrow> (Panic, s)
                          | (Ok auto_closed, s2) \<Rightarrow>
                              with_revision s
                                (finish_progress s s2 (td_batch task) i auto_closed auto_reopened
                                  (cr_events task_result)))))))"

definition transition :: "task_id \<Rightarrow> task_status \<Rightarrow> u64 \<Rightarrow> task_store_state \<Rightarrow> task_data task_outcome" where
  "transition i to updated_at s =
     (case start_blocked s i to of
        Some e \<Rightarrow> (Err e, s)
      | None \<Rightarrow>
          (case map_of (ts_tasks s) i of
             None \<Rightarrow> (Err (TaskNotFound i), s)
           | Some current \<Rightarrow>
               (case td_transition_to to updated_at current of
                  (Err e, _) \<Rightarrow> (Err e, s)
                | (Panic, _) \<Rightarrow> (Panic, s)
                | (Ok _, _) \<Rightarrow> with_revision s (\<lambda>revision.
                    case map_of (ts_tasks s) i of
                      None \<Rightarrow> (Panic, s)
                    | Some t \<Rightarrow>
                        (case td_transition_to to updated_at t of
                           (Ok result, t') \<Rightarrow> commit result revision (put_task i t' s)
                         | (_, t') \<Rightarrow> (Panic, put_task i t' s))))))"

fun drop_blocked_by :: "task_id list \<Rightarrow> u64 \<Rightarrow> task_data \<Rightarrow> task_data" where
  "drop_blocked_by [] updated_at t = t"
| "drop_blocked_by (d # ds) updated_at t = drop_blocked_by ds updated_at (td_remove_blocked_by d updated_at t)"

fun drop_blocks :: "task_id list \<Rightarrow> u64 \<Rightarrow> task_data \<Rightarrow> task_data" where
  "drop_blocks [] updated_at t = t"
| "drop_blocks (d # ds) updated_at t = drop_blocks ds updated_at (td_remove_blocks d updated_at t)"

definition delete_task :: "task_id \<Rightarrow> u64 \<Rightarrow> task_store_state \<Rightarrow> task_data task_outcome" where
  "delete_task i updated_at s =
     (case map_of (ts_tasks s) i of
        None \<Rightarrow> (Err (TaskNotFound i), s)
      | Some task \<Rightarrow>
          if td_status task = Deleted then (Ok (uncommitted task []), s)
          else with_revision s (\<lambda>revision.
            case modify_tasks (td_blocked_by task) (td_remove_blocks i updated_at) s of
              None \<Rightarrow> (Panic, s)
            | Some s1 \<Rightarrow>
                (case modify_tasks (td_blocks task) (td_remove_blocked_by i updated_at) s1 of
                   None \<Rightarrow> (Panic, s1)
                 | Some s2 \<Rightarrow>
                     (case map_of (ts_tasks s2) i of
                        None \<Rightarrow> (Panic, s2)
                      | Some t \<Rightarrow>
                          let t' = td_mark_deleted updated_at
                                (drop_blocks (td_blocks task) updated_at
                                  (drop_blocked_by (td_blocked_by task) updated_at t))
                          in commit (uncommitted t' [TaskDeleted i]) revision (put_task i t' s2)))))"

definition delete_with_progress ::
    "task_id \<Rightarrow> u64 \<Rightarrow> task_store_state \<Rightarrow> task_progress_snapshot task_outcome" where
  "delete_with_progress i updated_at s =
     (case map_of (ts_tasks s) i of
        None \<Rightarrow> (Err (TaskNotFound i), s)
      | Some task \<Rightarrow> with_revision s (\<lambda>revision.
          case delete_task i updated_at s of
            (Err e, _) \<Rightarrow> (Err e, s)
          | (Panic, _) \<Rightarrow> (Panic, s)
          | (Ok task_result, s1) \<Rightarrow>
              (case auto_close (td_batch task) s1 of
                 (Err e, _) \<Rightarrow> (Err e, s)
               | (Panic, _) \<Rightarrow> (Panic, s)
               | (Ok auto_closed, s2) \<Rightarrow>
                   finish_progress s s2 (td_batch task) i auto_closed False
                     (cr_events task_result) revision)))"

end
