(* ===== verification/Task_Invariant.thy ===== *)
theory Task_Invariant
  imports Task_Commands
begin

text \<open>
  The invariant of the task aggregate and the contract of its commands.

  \<^item> \<open>deps_ok\<close>: the dependency graph is acyclic, stays inside one batch, joins live tasks only, and the
    \<open>blocks\<close> index is its exact inverse; both lists are duplicate free, and \<open>blocks\<close> is sorted. (\<open>blocked_by\<close> need not be:
    an image may carry unsorted edges, and they stay as they are, see \<open>edges_sorted\<close>);
  \<^item> \<open>entities_ok\<close>: keys agree with identifiers, identifiers are positive and below the allocation
    counters, each task belongs to a batch of the store;
  \<^item> \<open>current_ok\<close>: \<open>current_batch\<close> names the active batch, and there is at most one;
  \<^item> \<open>contract\<close>: a command never panics, an error leaves the state as it was, and a success is either a
    no-op without events and without a revision, or advances the revision by exactly one.

  \<open>good_step\<close> joins the invariant and the contract; one lemma per command.
\<close>

section \<open>The dependency graph of a task map\<close>

type_synonym task_map = "task_id \<rightharpoonup> task_data"

definition map_edges :: "task_map \<Rightarrow> (task_id \<times> task_id) set" where
  "map_edges T = {(a, b). \<exists>t. T a = Some t \<and> b \<in> set (td_blocked_by t)}"

lemma dep_edges_map: "dep_edges s = map_edges (map_of (ts_tasks s))"
  by (auto simp: map_edges_def dep_edges_iff simp del: adj_edges_iff)

definition linked :: "task_map \<Rightarrow> bool" where
  "linked T \<longleftrightarrow>
     (\<forall>i t. T i = Some t \<longrightarrow>
        distinct (td_blocked_by t) \<and>
        sorted (td_blocks t) \<and> distinct (td_blocks t) \<and>
        (\<forall>j \<in> set (td_blocked_by t). \<exists>u. T j = Some u \<and> i \<in> set (td_blocks u) \<and>
           td_batch u = td_batch t \<and> td_status t \<noteq> Deleted \<and> td_status u \<noteq> Deleted) \<and>
        (\<forall>j \<in> set (td_blocks t). \<exists>u. T j = Some u \<and> i \<in> set (td_blocked_by u)))"

definition deps_ok :: "task_map \<Rightarrow> bool" where
  "deps_ok T \<longleftrightarrow> linked T \<and> acyclic (map_edges T)"

definition same_node :: "task_data \<Rightarrow> task_data \<Rightarrow> bool" where
  "same_node t t' \<longleftrightarrow>
     td_blocked_by t' = td_blocked_by t \<and> td_blocks t' = td_blocks t \<and>
     td_batch t' = td_batch t \<and> (td_status t' = Deleted \<longleftrightarrow> td_status t = Deleted)"

lemma linkedD:
  assumes "linked T" "T i = Some t"
  shows "distinct (td_blocked_by t)"
    "sorted (td_blocks t)" "distinct (td_blocks t)"
    "j \<in> set (td_blocked_by t) \<Longrightarrow> \<exists>u. T j = Some u \<and> i \<in> set (td_blocks u) \<and>
       td_batch u = td_batch t \<and> td_status t \<noteq> Deleted \<and> td_status u \<noteq> Deleted"
    "j \<in> set (td_blocks t) \<Longrightarrow> \<exists>u. T j = Some u \<and> i \<in> set (td_blocked_by u)"
  using assms unfolding linked_def by blast+

lemma map_edges_same:
  assumes "T i = Some t" "td_blocked_by t' = td_blocked_by t"
  shows "map_edges (T(i \<mapsto> t')) = map_edges T"
  using assms by (auto simp: map_edges_def split: if_splits)

lemma deps_ok_same_node:
  assumes "deps_ok T" "T i = Some t" "same_node t t'"
  shows "deps_ok (T(i \<mapsto> t'))"
proof -
  have "linked T" and "acyclic (map_edges T)"
    using assms(1) by (auto simp: deps_ok_def)
  have "linked (T(i \<mapsto> t'))"
    unfolding linked_def
  proof (intro allI impI)
    fix j u
    assume u: "(T(i \<mapsto> t')) j = Some u"
    then obtain v where v: "T j = Some v" "same_node v u"
      using assms(2,3) by (cases "j = i") (auto simp: same_node_def)
    have step: "\<exists>x'. (T(i \<mapsto> t')) k = Some x' \<and> same_node x x'" if "T k = Some x" for k x
      using that assms(2,3) by (cases "k = i") (auto simp: same_node_def)
    note l = linkedD [OF \<open>linked T\<close> v(1)]
    show "distinct (td_blocked_by u) \<and>
        sorted (td_blocks u) \<and> distinct (td_blocks u) \<and>
        (\<forall>k \<in> set (td_blocked_by u). \<exists>x. (T(i \<mapsto> t')) k = Some x \<and> j \<in> set (td_blocks x) \<and>
           td_batch x = td_batch u \<and> td_status u \<noteq> Deleted \<and> td_status x \<noteq> Deleted) \<and>
        (\<forall>k \<in> set (td_blocks u). \<exists>x. (T(i \<mapsto> t')) k = Some x \<and> j \<in> set (td_blocked_by x))"
      using l(1-3) v(2) l(4,5) step unfolding same_node_def by metis
  qed
  moreover have "map_edges (T(i \<mapsto> t')) = map_edges T"
    using assms by (intro map_edges_same) (auto simp: same_node_def)
  ultimately show ?thesis
    using \<open>acyclic (map_edges T)\<close> by (simp add: deps_ok_def)
qed

lemma deps_ok_empty [simp]: "deps_ok Map.empty"
  by (simp add: deps_ok_def linked_def map_edges_def acyclic_def)

lemma deps_ok_new:
  assumes "deps_ok T" "T i = None" "td_blocked_by t = []" "td_blocks t = []"
  shows "deps_ok (T(i \<mapsto> t))"
proof -
  have "map_edges (T(i \<mapsto> t)) = map_edges T"
    using assms by (auto simp: map_edges_def split: if_splits)
  moreover have "linked (T(i \<mapsto> t))"
    using assms unfolding deps_ok_def linked_def
    by (auto split: if_splits; metis option.distinct(1))
  ultimately show ?thesis using assms(1) by (simp add: deps_ok_def)
qed

section \<open>Adding and removing one edge\<close>

lemma td_add_sel [simp]:
  "set (td_blocked_by (td_add_blocked_by i now t)) = insert i (set (td_blocked_by t))"
  "td_blocks (td_add_blocked_by i now t) = td_blocks t"
  "td_batch (td_add_blocked_by i now t) = td_batch t"
  "td_status (td_add_blocked_by i now t) = td_status t"
  "td_id (td_add_blocked_by i now t) = td_id t"
  "td_seq (td_add_blocked_by i now t) = td_seq t"
  "set (td_blocks (td_add_blocks i now t)) = insert i (set (td_blocks t))"
  "td_blocked_by (td_add_blocks i now t) = td_blocked_by t"
  "td_batch (td_add_blocks i now t) = td_batch t"
  "td_status (td_add_blocks i now t) = td_status t"
  "td_id (td_add_blocks i now t) = td_id t"
  "td_seq (td_add_blocks i now t) = td_seq t"
  by (auto simp: td_add_blocked_by_def td_add_blocks_def)

lemma td_add_sorted [simp]:
  "sorted (td_blocked_by t) \<Longrightarrow> sorted (td_blocked_by (td_add_blocked_by i now t))"
  "distinct (td_blocked_by t) \<Longrightarrow> distinct (td_blocked_by (td_add_blocked_by i now t))"
  "sorted (td_blocks t) \<Longrightarrow> sorted (td_blocks (td_add_blocks i now t))"
  "distinct (td_blocks t) \<Longrightarrow> distinct (td_blocks (td_add_blocks i now t))"
  by (auto simp: td_add_blocked_by_def td_add_blocks_def)

lemma td_remove_sel [simp]:
  "td_blocked_by (td_remove_blocked_by i now t) = filter (\<lambda>x. x \<noteq> i) (td_blocked_by t)"
  "td_blocks (td_remove_blocked_by i now t) = td_blocks t"
  "td_batch (td_remove_blocked_by i now t) = td_batch t"
  "td_status (td_remove_blocked_by i now t) = td_status t"
  "td_id (td_remove_blocked_by i now t) = td_id t"
  "td_seq (td_remove_blocked_by i now t) = td_seq t"
  "td_blocks (td_remove_blocks i now t) = filter (\<lambda>x. x \<noteq> i) (td_blocks t)"
  "td_blocked_by (td_remove_blocks i now t) = td_blocked_by t"
  "td_batch (td_remove_blocks i now t) = td_batch t"
  "td_status (td_remove_blocks i now t) = td_status t"
  "td_id (td_remove_blocks i now t) = td_id t"
  "td_seq (td_remove_blocks i now t) = td_seq t"
  by (simp_all add: td_remove_blocked_by_def td_remove_blocks_def Let_def)

text \<open>The two map updates that link, or unlink, one edge between different tasks.\<close>

definition map_link :: "task_id \<Rightarrow> task_id \<Rightarrow> u64 \<Rightarrow> task_data \<Rightarrow> task_data \<Rightarrow> task_map \<Rightarrow> task_map" where
  "map_link a b now ta tb T =
     T(a \<mapsto> td_add_blocked_by b now ta, b \<mapsto> td_add_blocks a now tb)"

definition map_unlink :: "task_id \<Rightarrow> task_id \<Rightarrow> u64 \<Rightarrow> task_data \<Rightarrow> task_data \<Rightarrow> task_map \<Rightarrow> task_map" where
  "map_unlink a b now ta tb T =
     T(a \<mapsto> td_remove_blocked_by b now ta, b \<mapsto> td_remove_blocks a now tb)"

lemma map_edges_link:
  assumes "T a = Some ta" "T b = Some tb" "a \<noteq> b"
  shows "map_edges (map_link a b now ta tb T) = insert (a, b) (map_edges T)"
  using assms by (auto simp: map_edges_def map_link_def split: if_splits)

lemma map_edges_unlink:
  assumes "T a = Some ta" "T b = Some tb" "a \<noteq> b"
  shows "map_edges (map_unlink a b now ta tb T) = map_edges T - {(a, b)}"
  using assms by (auto simp: map_edges_def map_unlink_def split: if_splits)

lemma linked_link:
  assumes "linked T" "T a = Some ta" "T b = Some tb" "a \<noteq> b"
    and "td_batch tb = td_batch ta" "td_status ta \<noteq> Deleted" "td_status tb \<noteq> Deleted"
  shows "linked (map_link a b now ta tb T)"
proof -
  note la = linkedD [OF assms(1,2)] and lb = linkedD [OF assms(1,3)]
  have other: "\<And>i t. T i = Some t \<Longrightarrow> i \<noteq> a \<Longrightarrow> i \<noteq> b \<Longrightarrow>
      (map_link a b now ta tb T) i = Some t"
    by (simp add: map_link_def)
  show ?thesis
    unfolding linked_def
  proof (intro allI impI)
    fix i t
    assume t: "map_link a b now ta tb T i = Some t"
    consider "i = a" | "i = b" "i \<noteq> a" | "i \<noteq> a" "i \<noteq> b" by blast
    then show "distinct (td_blocked_by t) \<and>
        sorted (td_blocks t) \<and> distinct (td_blocks t) \<and>
        (\<forall>j \<in> set (td_blocked_by t). \<exists>u. map_link a b now ta tb T j = Some u \<and>
           i \<in> set (td_blocks u) \<and> td_batch u = td_batch t \<and>
           td_status t \<noteq> Deleted \<and> td_status u \<noteq> Deleted) \<and>
        (\<forall>j \<in> set (td_blocks t). \<exists>u. map_link a b now ta tb T j = Some u \<and>
           i \<in> set (td_blocked_by u))"
    proof cases
      case 1
      then have "t = td_add_blocked_by b now ta"
        using t assms(4) by (simp add: map_link_def)
      then show ?thesis
        using 1 la assms by (auto simp: map_link_def; force)
    next
      case 2
      then have "t = td_add_blocks a now tb"
        using t by (simp add: map_link_def)
      then show ?thesis
        using 2 lb assms by (auto simp: map_link_def; force)
    next
      case 3
      then have "T i = Some t" using t by (simp add: map_link_def)
      note l = linkedD [OF assms(1) this]
      show ?thesis
        using 3 l assms by (auto simp: map_link_def; force)
    qed
  qed
qed

lemma linked_unlink:
  assumes "linked T" "T a = Some ta" "T b = Some tb" "a \<noteq> b"
  shows "linked (map_unlink a b now ta tb T)"
proof -
  note la = linkedD [OF assms(1,2)] and lb = linkedD [OF assms(1,3)]
  show ?thesis
    unfolding linked_def
  proof (intro allI impI)
    fix i t
    assume t: "map_unlink a b now ta tb T i = Some t"
    consider "i = a" | "i = b" "i \<noteq> a" | "i \<noteq> a" "i \<noteq> b" by blast
    then show "distinct (td_blocked_by t) \<and>
        sorted (td_blocks t) \<and> distinct (td_blocks t) \<and>
        (\<forall>j \<in> set (td_blocked_by t). \<exists>u. map_unlink a b now ta tb T j = Some u \<and>
           i \<in> set (td_blocks u) \<and> td_batch u = td_batch t \<and>
           td_status t \<noteq> Deleted \<and> td_status u \<noteq> Deleted) \<and>
        (\<forall>j \<in> set (td_blocks t). \<exists>u. map_unlink a b now ta tb T j = Some u \<and>
           i \<in> set (td_blocked_by u))"
    proof cases
      case 1
      then have "t = td_remove_blocked_by b now ta"
        using t assms(4) by (simp add: map_unlink_def)
      then show ?thesis
        using 1 la assms by (auto simp: map_unlink_def sorted_wrt_filter; force)
    next
      case 2
      then have "t = td_remove_blocks a now tb"
        using t by (simp add: map_unlink_def)
      then show ?thesis
        using 2 lb assms by (auto simp: map_unlink_def sorted_wrt_filter; force)
    next
      case 3
      then have "T i = Some t" using t by (simp add: map_unlink_def)
      note l = linkedD [OF assms(1) this]
      show ?thesis
        using 3 l assms by (auto simp: map_unlink_def; force)
    qed
  qed
qed

lemma deps_ok_link:
  assumes "deps_ok T" "T a = Some ta" "T b = Some tb" "(b, a) \<notin> (map_edges T)\<^sup>*"
    and "td_batch tb = td_batch ta" "td_status ta \<noteq> Deleted" "td_status tb \<noteq> Deleted"
  shows "deps_ok (map_link a b now ta tb T)"
proof -
  have "a \<noteq> b" using assms(4) by auto
  then show ?thesis
    using assms by (simp add: deps_ok_def linked_link map_edges_link acyclic_insert)
qed

lemma deps_ok_unlink:
  assumes "deps_ok T" "T a = Some ta" "T b = Some tb" "a \<noteq> b"
  shows "deps_ok (map_unlink a b now ta tb T)"
  using assms
  by (auto simp: deps_ok_def linked_unlink map_edges_unlink intro: acyclic_subset)

section \<open>The aggregate invariant\<close>

definition entities_ok :: "task_store_state \<Rightarrow> bool" where
  "entities_ok s \<longleftrightarrow>
     distinct (hm_keys (ts_tasks s)) \<and> distinct (hm_keys (ts_batches s)) \<and>
     TaskIdData 0 < ts_next_task_id s \<and> BatchIdData 0 < ts_next_batch_id s \<and>
     (\<forall>i t. map_of (ts_tasks s) i = Some t \<longrightarrow>
        td_id t = i \<and> TaskIdData 0 < i \<and> i < ts_next_task_id s \<and>
        map_of (ts_batches s) (td_batch t) \<noteq> None) \<and>
     (\<forall>i b. map_of (ts_batches s) i = Some b \<longrightarrow>
        bd_id b = i \<and> BatchIdData 0 < i \<and> i < ts_next_batch_id s)"

definition current_ok :: "task_store_state \<Rightarrow> bool" where
  "current_ok s \<longleftrightarrow>
     (\<forall>i. ts_current_batch s = Some i \<longleftrightarrow>
        (\<exists>b. map_of (ts_batches s) i = Some b \<and> bd_status b = Active))"

definition state_ok :: "task_store_state \<Rightarrow> bool" where
  "state_ok s \<longleftrightarrow> entities_ok s \<and> current_ok s \<and> deps_ok (map_of (ts_tasks s))"

lemma state_ok_empty: "state_ok empty_state"
  by (simp add: state_ok_def entities_ok_def current_ok_def empty_state_def
      less_task_id_def less_batch_id_def)

lemma state_ok_revision [simp]: "state_ok (s\<lparr>ts_revision := r\<rparr>) = state_ok s"
  by (simp add: state_ok_def entities_ok_def current_ok_def)

lemma state_ok_task:
  assumes "state_ok s" "map_of (ts_tasks s) i = Some t"
  shows "td_id t = i" "TaskIdData 0 < i" "i < ts_next_task_id s"
    "\<exists>b. map_of (ts_batches s) (td_batch t) = Some b"
  using assms unfolding state_ok_def entities_ok_def by blast+

lemma state_ok_batch:
  assumes "state_ok s" "map_of (ts_batches s) i = Some b"
  shows "bd_id b = i" "BatchIdData 0 < i" "i < ts_next_batch_id s"
  using assms unfolding state_ok_def entities_ok_def by blast+

lemma state_ok_current:
  assumes "state_ok s"
  shows "ts_current_batch s = Some i \<longleftrightarrow>
    (\<exists>b. map_of (ts_batches s) i = Some b \<and> bd_status b = Active)"
  using assms unfolding state_ok_def current_ok_def by blast

lemma state_ok_deps: "state_ok s \<Longrightarrow> deps_ok (map_of (ts_tasks s))"
  by (simp add: state_ok_def)

lemma state_ok_linked: "state_ok s \<Longrightarrow> linked (map_of (ts_tasks s))"
  by (simp add: state_ok_def deps_ok_def)

lemma state_ok_acyclic: "state_ok s \<Longrightarrow> acyclic (dep_edges s)"
  by (simp add: state_ok_def deps_ok_def dep_edges_map)

text \<open>Replacing one task by another with the same identity, for any graph effect that is sound.\<close>

lemma state_ok_put_task:
  assumes "state_ok s" "map_of (ts_tasks s) i = Some t" "td_id t' = td_id t"
    "td_batch t' = td_batch t" "deps_ok ((map_of (ts_tasks s))(i \<mapsto> t'))"
  shows "state_ok (put_task i t' s)"
  using assms unfolding state_ok_def entities_ok_def current_ok_def
  by (auto simp: hmap_simps)

lemma state_ok_put_same_node:
  assumes "state_ok s" "map_of (ts_tasks s) i = Some t" "td_id t' = td_id t" "same_node t t'"
  shows "state_ok (put_task i t' s)"
  using assms by (intro state_ok_put_task deps_ok_same_node state_ok_deps)
    (auto simp: same_node_def)

lemma state_ok_put_batch:
  assumes "state_ok s" "map_of (ts_batches s) i = Some b" "bd_id b' = bd_id b"
    and "\<And>j. cur = Some j \<longleftrightarrow>
      (if j = i then bd_status b' = Active
       else ts_current_batch s = Some j)"
  shows "state_ok ((put_batch i b' s)\<lparr>ts_current_batch := cur\<rparr>)"
  using assms unfolding state_ok_def entities_ok_def current_ok_def
  by (auto simp: hmap_simps)

section \<open>The contract of a command\<close>

definition contract :: "task_store_state \<Rightarrow> 'a task_outcome \<Rightarrow> bool" where
  "contract s res \<longleftrightarrow>
     (case fst res of
        Panic \<Rightarrow> False
      | Err e \<Rightarrow> snd res = s
      | Ok r \<Rightarrow>
          (snd res = s \<and> cr_events r = [] \<and> cr_revision r = None) \<or>
          (checked_add (task_revision_get (ts_revision s)) 1 =
             Some (task_revision_get (ts_revision (snd res))) \<and>
           cr_revision r = Some (ts_revision (snd res))))"

definition good_step :: "task_store_state \<Rightarrow> 'a task_outcome \<Rightarrow> bool" where
  "good_step s res \<longleftrightarrow> contract s res \<and> state_ok (snd res)"

lemma good_step_err [simp, intro]: "state_ok s \<Longrightarrow> good_step s (Err e, s)"
  by (simp add: good_step_def contract_def)

lemma good_step_noop [simp, intro]: "state_ok s \<Longrightarrow> good_step s (Ok (uncommitted v []), s)"
  by (simp add: good_step_def contract_def)

lemma good_step_commit:
  assumes "reserve_revision s = Ok revision" "state_ok s'"
  shows "good_step s (commit r revision s')"
  using assms
  by (auto simp: good_step_def contract_def commit_def reserve_revision_def split: option.splits)

lemma good_step_with_revision:
  assumes "state_ok s" "\<And>revision. reserve_revision s = Ok revision \<Longrightarrow> good_step s (k revision)"
  shows "good_step s (with_revision s k)"
  using assms by (auto split: with_revision_split)

lemma good_step_panic_free: "good_step s res \<Longrightarrow> fst res \<noteq> Panic"
  by (auto simp: good_step_def contract_def)

end
