(* ===== verification/Task_Preserve.thy ===== *)
theory Task_Preserve
  imports Task_Invariant
begin

text \<open>
  Each command of the task aggregate is a good step from a state that satisfies the invariant: it
  never panics, is atomic on error, keeps the invariant and accounts for its revision.
\<close>

section \<open>Creation and clearing\<close>

lemma good_clear_store:
  assumes "state_ok s"
  shows "good_step s (clear_store s)"
proof -
  have "state_ok (s\<lparr>ts_tasks := [], ts_batches := [], ts_next_batch_id := BatchIdData 1,
      ts_current_batch := None\<rparr>)"
    using assms by (simp add: state_ok_def entities_ok_def current_ok_def less_batch_id_def)
  with assms show ?thesis
    unfolding clear_store_def Let_def
    by (auto intro!: good_step_with_revision good_step_commit)
qed

lemma archive_current_ok:
  assumes "state_ok s"
  shows "\<exists>s1. archive_current s = Some s1 \<and> state_ok (s1\<lparr>ts_current_batch := None\<rparr>) \<and>
    ts_tasks s1 = ts_tasks s \<and> ts_next_task_id s1 = ts_next_task_id s \<and>
    ts_next_batch_id s1 = ts_next_batch_id s \<and> hm_keys (ts_batches s1) = hm_keys (ts_batches s)"
proof (cases "ts_current_batch s")
  case None
  then have "s\<lparr>ts_current_batch := None\<rparr> = s" by (cases s) simp
  then have "state_ok (s\<lparr>ts_current_batch := None\<rparr>)"
    using assms by (simp only:)
  with None show ?thesis by (simp add: archive_current_def)
next
  case (Some i)
  then obtain b where b: "map_of (ts_batches s) i = Some b" "bd_status b = Active"
    using state_ok_current [OF assms] by blast
  let ?s1 = "put_batch i (b\<lparr>bd_status := Archived\<rparr>) s"
  have "archive_current s = Some ?s1"
    using Some b by (simp add: archive_current_def bd_transition_to_def)
  moreover have "state_ok (?s1\<lparr>ts_current_batch := None\<rparr>)"
    using assms b Some by (intro state_ok_put_batch) auto
  ultimately show ?thesis using b by auto
qed

lemma state_ok_new_batch:
  assumes "state_ok (s\<lparr>ts_current_batch := None\<rparr>)"
    and "checked_add (batch_id_get (ts_next_batch_id s)) 1 = Some n"
  shows "state_ok ((put_batch (ts_next_batch_id s) (bd_create (ts_next_batch_id s) spec now) s)
    \<lparr>ts_current_batch := Some (ts_next_batch_id s), ts_next_batch_id := BatchIdData n\<rparr>)"
proof -
  have le: "i < BatchIdData n" if "i \<le> ts_next_batch_id s" for i
    using checked_add_one_le [OF assms(2)] that
    by (simp add: less_batch_id_def less_eq_batch_id_def)
  have less: "\<And>i. i < ts_next_batch_id s \<Longrightarrow> i < BatchIdData n" "ts_next_batch_id s < BatchIdData n"
    "BatchIdData 0 < BatchIdData n"
    using checked_add_one_pos [OF assms(2)] by (auto intro: le simp: less_batch_id_def [of "_ 0"])
  have "map_of (ts_batches s) (ts_next_batch_id s) = None"
    using state_ok_batch(3) [OF assms(1), of "ts_next_batch_id s"] by fastforce
  with assms(1) less show ?thesis
    unfolding state_ok_def entities_ok_def current_ok_def
    by (auto simp: hmap_simps bd_create_def)
qed

lemma good_create_batch:
  assumes "state_ok s"
  shows "good_step s (create_batch spec now s)"
proof -
  obtain s1 where s1: "archive_current s = Some s1" "state_ok (s1\<lparr>ts_current_batch := None\<rparr>)"
    "ts_next_batch_id s1 = ts_next_batch_id s"
    using archive_current_ok [OF assms] by blast
  show ?thesis
    unfolding create_batch_def Let_def
    using assms s1 state_ok_new_batch [OF s1(2)]
    by (auto split: option.split intro!: good_step_with_revision good_step_commit)
qed

lemma state_ok_new_task:
  assumes "state_ok s" "ts_current_batch s = Some b"
    and "checked_add (task_id_get (ts_next_task_id s)) 1 = Some n"
  shows "state_ok ((put_task (ts_next_task_id s)
    (cr_value (td_create (ts_next_task_id s) b seq spec now)) s)\<lparr>ts_next_task_id := TaskIdData n\<rparr>)"
proof -
  have le: "i < TaskIdData n" if "i \<le> ts_next_task_id s" for i
    using checked_add_one_le [OF assms(3)] that
    by (simp add: less_task_id_def less_eq_task_id_def)
  have less: "\<And>i. i < ts_next_task_id s \<Longrightarrow> i < TaskIdData n" "ts_next_task_id s < TaskIdData n"
    "TaskIdData 0 < TaskIdData n"
    using checked_add_one_pos [OF assms(3)] by (auto intro: le simp: less_task_id_def [of "_ 0"])
  have fresh: "map_of (ts_tasks s) (ts_next_task_id s) = None"
    using state_ok_task(3) [OF assms(1), of "ts_next_task_id s"] by fastforce
  have "\<exists>x. map_of (ts_batches s) b = Some x"
    using state_ok_current [OF assms(1)] assms(2) by blast
  with assms(1) less fresh show ?thesis
    unfolding state_ok_def entities_ok_def current_ok_def
    by (auto simp: hmap_simps td_create_def deps_ok_new)
qed

lemma good_create_task:
  assumes "state_ok s"
  shows "good_step s (create_task spec now s)"
  unfolding create_task_def Let_def
  using assms state_ok_new_task [OF assms]
  by (auto split: option.split intro!: good_step_with_revision good_step_commit)

section \<open>Edits of one task\<close>

lemma same_node_edits [simp, intro]:
  "same_node t (td_set_priority p now t)" "td_id (td_set_priority p now t) = td_id t"
  "same_node t (td_add_tag tag now t)" "td_id (td_add_tag tag now t) = td_id t"
  "same_node t (td_remove_tag tag now t)" "td_id (td_remove_tag tag now t) = td_id t"
  "same_node t (snd (td_set_description d now t))" "td_id (snd (td_set_description d now t)) = td_id t"
  "same_node t (snd (td_set_subject d now t))" "td_id (snd (td_set_subject d now t)) = td_id t"
  by (simp_all add: same_node_def td_set_priority_def td_add_tag_def td_remove_tag_def
      td_set_description_def td_set_subject_def Let_def)

lemma same_node_transition:
  "td_transition_to to now t = (Ok r, t') \<Longrightarrow> same_node t t' \<and> td_id t' = td_id t"
  "td_reopen_from_completed to now t = (Ok r, t') \<Longrightarrow> same_node t t' \<and> td_id t' = td_id t"
  "transition_task to now t = (Ok r, t') \<Longrightarrow> same_node t t' \<and> td_id t' = td_id t"
proof -
  show 1: "td_transition_to to now t = (Ok r, t') \<Longrightarrow> same_node t t' \<and> td_id t' = td_id t"
    by (cases "td_status t"; cases to)
      (auto simp: td_transition_to_def same_node_def Let_def split: if_splits)
  show 2: "td_reopen_from_completed to now t = (Ok r, t') \<Longrightarrow> same_node t t' \<and> td_id t' = td_id t"
    by (auto simp: td_reopen_from_completed_def same_node_def Let_def split: if_splits)
  show "transition_task to now t = (Ok r, t') \<Longrightarrow> same_node t t' \<and> td_id t' = td_id t"
    using 1 2 by (auto simp: transition_task_def split: if_splits)
qed

lemma good_put:
  assumes "state_ok s" "map_of (ts_tasks s) i = Some t" "same_node t t'" "td_id t' = td_id t"
    "reserve_revision s = Ok revision"
  shows "good_step s (commit r revision (put_task i t' s))"
  using assms by (intro good_step_commit state_ok_put_same_node)

lemma good_set_subject:
  assumes "state_ok s"
  shows "good_step s (set_subject i subject now s)"
proof -
  have "good_step s (case td_set_subject subject now t of
      (Ok result, t') \<Rightarrow> commit result revision (put_task i t' s)
    | (Err e, t') \<Rightarrow> (Err e, put_task i t' s)
    | (Panic, t') \<Rightarrow> (Panic, put_task i t' s))"
    if "\<not> is_blank subject" "map_of (ts_tasks s) i = Some t" "reserve_revision s = Ok revision"
    for t revision
    using that good_put [OF assms that(2) same_node_edits(9,10) that(3), of _ subject now]
    by (auto simp: td_set_subject_def Let_def split: if_splits)
  then show ?thesis
    unfolding set_subject_def using assms
    by (auto simp: live_task_Some_iff split: option.split intro!: good_step_with_revision)
qed

lemma good_set_description:
  assumes "state_ok s"
  shows "good_step s (set_description i d now s)"
  unfolding set_description_def using assms
  by (auto simp: live_task_Some_iff split_beta split: option.split
      intro!: good_step_with_revision good_put)

lemma good_set_priority:
  assumes "state_ok s"
  shows "good_step s (set_priority i p now s)"
  unfolding set_priority_def using assms
  by (auto simp: live_task_Some_iff Let_def split: option.split
      intro!: good_step_with_revision good_put)

lemma good_add_tag:
  assumes "state_ok s"
  shows "good_step s (add_tag i tag now s)"
  unfolding add_tag_def using assms
  by (auto simp: live_task_Some_iff Let_def split: option.split
      intro!: good_step_with_revision good_put)

lemma good_remove_tag:
  assumes "state_ok s"
  shows "good_step s (remove_tag i tag now s)"
  unfolding remove_tag_def using assms
  by (auto simp: live_task_Some_iff Let_def split: option.split
      intro!: good_step_with_revision good_put)

section \<open>Batch lifecycle\<close>

lemma good_move_batch:
  assumes "state_ok s" "map_of (ts_batches s) i = Some batch"
    and "\<And>j. current = Some j \<longleftrightarrow> (if j = i then to = Active else ts_current_batch s = Some j)"
  shows "good_step s (move_batch i batch to current s)"
proof -
  have "state_ok ((put_batch i (batch\<lparr>bd_status := to\<rparr>) s)\<lparr>ts_current_batch := current\<rparr>)"
    using assms by (intro state_ok_put_batch) auto
  with assms show ?thesis
    unfolding move_batch_def bd_transition_to_def
    by (auto intro!: good_step_with_revision good_step_commit)
qed

lemma good_pause_batch: "state_ok s \<Longrightarrow> good_step s (pause_batch i s)"
  unfolding pause_batch_def by (auto split: option.split if_splits intro!: good_move_batch)

lemma good_archive_batch: "state_ok s \<Longrightarrow> good_step s (archive_batch i s)"
  unfolding archive_batch_def by (auto split: option.split if_splits intro!: good_move_batch)

lemma good_resume_batch: "state_ok s \<Longrightarrow> good_step s (resume_batch i s)"
  unfolding resume_batch_def by (auto split: option.split if_splits intro!: good_move_batch)

lemma bd_record_turn_frame:
  assumes "bd_record_turn turn active b = (Ok changed, b')"
  shows "bd_id b' = bd_id b" "bd_status b' = bd_status b"
  using assms by (auto simp: bd_record_turn_def split: if_splits)

lemma good_record_batch_turn:
  assumes "state_ok s"
  shows "good_step s (record_batch_turn i turn active s)"
proof -
  have put: "state_ok (put_batch i b' s)"
    if "map_of (ts_batches s) i = Some b" "bd_id b' = bd_id b" "bd_status b' = bd_status b" for b b'
  proof -
    have "state_ok ((put_batch i b' s)\<lparr>ts_current_batch := ts_current_batch s\<rparr>)"
      using assms that state_ok_current [OF assms, of i] by (intro state_ok_put_batch) auto
    then show ?thesis by (simp add: put_batch_def)
  qed
  have "good_step s (case bd_record_turn turn active b of
      (Err e, _) \<Rightarrow> (Err e, s)
    | (Panic, _) \<Rightarrow> (Panic, s)
    | (Ok changed, dry_run) \<Rightarrow>
        if \<not> changed then (Ok (uncommitted dry_run []), s)
        else with_revision s (\<lambda>revision.
          case map_of (ts_batches s) i of
            None \<Rightarrow> (Panic, s)
          | Some b \<Rightarrow>
              (case bd_record_turn turn active b of
                 (Ok _, b') \<Rightarrow> commit (uncommitted b' []) revision (put_batch i b' s)
               | (_, b') \<Rightarrow> (Panic, put_batch i b' s))))"
    if b: "map_of (ts_batches s) i = Some b" for b
  proof (cases "bd_record_turn turn active b")
    case (Pair r b')
    then show ?thesis
    proof (cases r)
      case (Ok changed)
      with Pair b put [OF b] bd_record_turn_frame [of turn active b changed b'] assms
      show ?thesis by (auto intro!: good_step_with_revision good_step_commit)
    qed (use Pair assms in \<open>auto simp: bd_record_turn_def split: if_splits\<close>)
  qed
  then show ?thesis
    unfolding record_batch_turn_def using assms by (auto split: option.split)
qed

section \<open>Automatic closing and reopening\<close>

lemma auto_close_ok:
  assumes "state_ok s"
  shows "\<exists>f s'. auto_close b s = (Ok f, s') \<and> state_ok s' \<and> ts_tasks s' = ts_tasks s \<and>
    hm_keys (ts_batches s') = hm_keys (ts_batches s)"
proof (cases "map_of (ts_batches s) b")
  case (Some x)
  have "state_ok (if ts_current_batch s = Some b
      then (put_batch b (x\<lparr>bd_status := Archived\<rparr>) s)\<lparr>ts_current_batch := None\<rparr>
      else put_batch b (x\<lparr>bd_status := Archived\<rparr>) s)"
    if "bd_status x = Active"
  proof -
    have cur: "ts_current_batch s = Some b"
      using that Some state_ok_current [OF assms] by blast
    then show ?thesis
      using assms Some state_ok_put_batch [OF assms Some, of "x\<lparr>bd_status := Archived\<rparr>" None]
      by (auto split: if_splits)
  qed
  with assms Some show ?thesis
    by (auto simp: auto_close_def bd_transition_to_def Let_def)
qed (use assms in \<open>auto simp: auto_close_def\<close>)

lemma auto_reopen_ok:
  assumes "state_ok s" "map_of (ts_batches s) b = Some x"
  obtains e where "auto_reopen b to s = (Err e, s)"
  | f s' where "auto_reopen b to s = (Ok f, s')" "state_ok s'" "ts_tasks s' = ts_tasks s"
      "hm_keys (ts_batches s') = hm_keys (ts_batches s)"
proof -
  let ?s = "(put_batch b (x\<lparr>bd_status := Active\<rparr>) s)\<lparr>ts_current_batch := Some b\<rparr>"
  show thesis
  proof (cases "bd_status x = Archived \<and> (to = Pending \<or> to = InProgress)")
    case True
    show thesis
    proof (cases "ts_current_batch s = None \<or> ts_current_batch s = Some b")
      case free: True
      have "state_ok ?s"
        using assms free by (intro state_ok_put_batch) auto
      moreover have "auto_reopen b to s = (Ok True, ?s)"
        using True free assms(2) by (auto simp: auto_reopen_def bd_reopen_def Let_def)
      ultimately show thesis using that(2) [of True ?s] assms(2) by simp
    next
      case False
      then obtain c where "ts_current_batch s = Some c" "c \<noteq> b" by auto
      with True assms(2) show thesis using that(1) by (simp add: auto_reopen_def)
    qed
  next
    case False
    with assms show thesis using that(2) [of False s] by (auto simp: auto_reopen_def)
  qed
qed

lemma progress_snapshot_defined:
  assumes "map_of (ts_batches s) b \<noteq> None" "map_of (ts_tasks s) i \<noteq> None"
  shows "\<exists>p. progress_snapshot s b i c r = Some p"
  using assms by (auto simp: progress_snapshot_def Let_def split: option.split)

lemma good_finish_progress:
  assumes "state_ok s'" "reserve_revision s = Ok revision"
    "map_of (ts_batches s') b \<noteq> None" "map_of (ts_tasks s') i \<noteq> None"
  shows "good_step s (finish_progress s s' b i c r es revision)"
  using assms progress_snapshot_defined [OF assms(3,4), of c r]
  by (auto simp: finish_progress_def intro!: good_step_commit)

lemma hm_keys_present:
  "hm_keys m' = hm_keys m \<Longrightarrow> map_of m' k \<noteq> None \<longleftrightarrow> map_of m k \<noteq> None"
  by (metis list.set_map map_of_eq_None_iff)

lemma transition_task_not_panic: "fst (transition_task to now t) \<noteq> Panic"
  by (auto simp: transition_task_def td_transition_to_def td_reopen_from_completed_def Let_def)

lemma good_transition:
  assumes "state_ok s"
  shows "good_step s (transition i to now s)"
proof -
  have "good_step s (case td_transition_to to now t of
      (Err e, _) \<Rightarrow> (Err e, s)
    | (Panic, _) \<Rightarrow> (Panic, s)
    | (Ok _, _) \<Rightarrow> with_revision s (\<lambda>revision.
        case map_of (ts_tasks s) i of
          None \<Rightarrow> (Panic, s)
        | Some t \<Rightarrow>
            (case td_transition_to to now t of
               (Ok result, t') \<Rightarrow> commit result revision (put_task i t' s)
             | (_, t') \<Rightarrow> (Panic, put_task i t' s))))"
    if t: "map_of (ts_tasks s) i = Some t" for t
  proof (cases "td_transition_to to now t")
    case (Pair r t')
    then show ?thesis
    proof (cases r)
      case (Ok x)
      with Pair t same_node_transition(1) [of to now t x t'] assms
      show ?thesis by (auto intro!: good_step_with_revision good_put)
    qed (use Pair assms in \<open>auto simp: td_transition_to_def Let_def split: if_splits\<close>)
  qed
  then show ?thesis
    unfolding transition_def using assms by (auto split: option.split)
qed

lemma good_transition_with_progress:
  assumes "state_ok s"
  shows "good_step s (transition_with_progress i to now s)"
proof (cases "start_blocked s i to")
  case None
  show ?thesis
  proof (cases "map_of (ts_tasks s) i")
    case (Some t)
    obtain r t' where r: "transition_task to now t = (r, t')" by (meson surj_pair)
    show ?thesis
    proof (cases r)
      case (Ok x)
      let ?s = "put_task i t' s"
      have sn: "same_node t t'" "td_id t' = td_id t"
        using same_node_transition(3) r Ok by auto
      have ok: "state_ok ?s" using assms Some sn by (intro state_ok_put_same_node)
      obtain y where y: "map_of (ts_batches ?s) (td_batch t) = Some y"
        using state_ok_task(4) [OF assms Some] by auto
      show ?thesis
      proof (rule auto_reopen_ok [OF ok y, of to])
        fix e assume "auto_reopen (td_batch t) to ?s = (Err e, ?s)"
        with assms None Some r Ok show ?thesis by (simp add: transition_with_progress_def)
      next
        fix f s1
        assume s1: "auto_reopen (td_batch t) to ?s = (Ok f, s1)" "state_ok s1"
          "ts_tasks s1 = ts_tasks ?s" "hm_keys (ts_batches s1) = hm_keys (ts_batches ?s)"
        obtain g s2 where s2: "auto_close (td_batch t) s1 = (Ok g, s2)" "state_ok s2"
          "ts_tasks s2 = ts_tasks s1" "hm_keys (ts_batches s2) = hm_keys (ts_batches s1)"
          using auto_close_ok [OF s1(2)] by blast
        have "map_of (ts_batches s2) (td_batch t) \<noteq> None" "map_of (ts_tasks s2) i \<noteq> None"
          using hm_keys_present [of "ts_batches s2" "ts_batches s" "td_batch t"] s1 s2 y
          by (auto simp: hmap_simps)
        with assms None Some r Ok s1 s2 show ?thesis
          by (auto simp: transition_with_progress_def
              intro!: good_step_with_revision good_finish_progress)
      qed
    next
      case (Err e)
      with assms None Some r show ?thesis by (simp add: transition_with_progress_def)
    next
      case Panic
      with r transition_task_not_panic [of to now t] show ?thesis by simp
    qed
  qed (use assms None in \<open>simp add: transition_with_progress_def\<close>)
qed (use assms in \<open>simp add: transition_with_progress_def\<close>)

end
