(* ===== verification/Task_Dependencies.thy ===== *)
theory Task_Dependencies
  imports Task_Preserve
begin

text \<open>
  The commands that rewrite dependency edges: adding, removing and replacing blockers, and deleting
  a task with all its edges. Each is a good step, and \<open>replace_dependencies\<close> leaves exactly the
  requested blockers. The dry run of \<open>replace_dependencies\<close> is linked to the real run by one fact
  on graphs: paths into a node do not depend on the edges out of it.
\<close>

section \<open>Paths into a node\<close>

definition away :: "'a \<Rightarrow> ('a \<times> 'a) set \<Rightarrow> ('a \<times> 'a) set" where
  "away a E = {(x, y). (x, y) \<in> E \<and> x \<noteq> a}"

lemma away_simps [simp]:
  "away a (insert (a, b) E) = away a E"
  "away a (E - {(a, b)}) = away a E"
  by (auto simp: away_def)

lemma rtrancl_into_away:
  assumes "away a E = away a F" "(c, a) \<in> E\<^sup>*"
  shows "(c, a) \<in> F\<^sup>*"
  using assms(2)
proof (induction rule: converse_rtrancl_induct)
  case (step x y)
  show ?case
  proof (cases "x = a")
    case False
    with step(1) assms(1) have "(x, y) \<in> F"
      unfolding away_def by (metis (mono_tags, lifting) case_prod_conv mem_Collect_eq)
    from this step(3) show ?thesis by (rule converse_rtrancl_into_rtrancl)
  qed simp
qed simp

lemma rtrancl_away_iff:
  "away a E = away a F \<Longrightarrow> (c, a) \<in> E\<^sup>* \<longleftrightarrow> (c, a) \<in> F\<^sup>*"
  using rtrancl_into_away by metis

section \<open>Changing tasks only\<close>

text \<open>The states a run of edge edits can reach from \<open>s\<close>: the entities keep their identity.\<close>

definition task_frame :: "task_store_state \<Rightarrow> task_store_state \<Rightarrow> bool" where
  "task_frame s s' \<longleftrightarrow>
     ts_batches s' = ts_batches s \<and> ts_next_task_id s' = ts_next_task_id s \<and>
     ts_next_batch_id s' = ts_next_batch_id s \<and> ts_current_batch s' = ts_current_batch s \<and>
     ts_revision s' = ts_revision s \<and> hm_keys (ts_tasks s') = hm_keys (ts_tasks s) \<and>
     (\<forall>i t'. map_of (ts_tasks s') i = Some t' \<longrightarrow> (\<exists>t. map_of (ts_tasks s) i = Some t \<and>
        td_id t' = td_id t \<and> td_batch t' = td_batch t \<and> td_seq t' = td_seq t))"

lemma task_frame_refl [simp]: "task_frame s s"
  by (simp add: task_frame_def)

lemma task_frame_trans: "task_frame s s1 \<Longrightarrow> task_frame s1 s2 \<Longrightarrow> task_frame s s2"
  unfolding task_frame_def by (clarsimp; metis)

lemma task_frame_put:
  assumes "map_of (ts_tasks s) i = Some t" "td_id t' = td_id t" "td_batch t' = td_batch t"
    "td_seq t' = td_seq t"
  shows "task_frame s (put_task i t' s)"
  using assms by (auto simp: task_frame_def hmap_simps)

lemma task_frame_lookup:
  assumes "task_frame s s'"
  shows "map_of (ts_tasks s') i = None \<longleftrightarrow> map_of (ts_tasks s) i = None"
  using assms hm_keys_present [of "ts_tasks s'" "ts_tasks s" i] by (auto simp: task_frame_def)

lemma state_ok_task_frame:
  assumes "state_ok s" "task_frame s s'" "deps_ok (map_of (ts_tasks s'))"
  shows "state_ok s'"
proof -
  note f = assms(2) [unfolded task_frame_def]
  have "td_id u' = j \<and> TaskIdData 0 < j \<and> j < ts_next_task_id s' \<and>
      map_of (ts_batches s') (td_batch u') \<noteq> None"
    if u': "map_of (ts_tasks s') j = Some u'" for j u'
    using f u' state_ok_task [OF assms(1), of j] by fastforce
  then have "entities_ok s'"
    using assms(1) f unfolding state_ok_def entities_ok_def by simp
  moreover have "current_ok s'"
    using assms(1,2) unfolding state_ok_def current_ok_def task_frame_def by simp
  ultimately show ?thesis using assms(3) by (simp add: state_ok_def)
qed

lemma state_ok_no_self:
  assumes "state_ok s" "map_of (ts_tasks s) a = Some t" "b \<in> set (td_blocked_by t)"
  shows "a \<noteq> b" "(b, a) \<notin> (dep_edges s)\<^sup>*"
proof -
  have e: "(a, b) \<in> dep_edges s" using assms(2,3) unfolding dep_edges_iff by blast
  with state_ok_acyclic [OF assms(1)] show "(b, a) \<notin> (dep_edges s)\<^sup>*"
    by (metis acyclic_def rtrancl_into_trancl2)
  then show "a \<noteq> b" by auto
qed

section \<open>Linking and unlinking\<close>

lemma link_edge_ok:
  assumes "state_ok s" "live_task s a = Some ta" "live_task s b = Some tb"
    "td_batch tb = td_batch ta" "(b, a) \<notin> (dep_edges s)\<^sup>*"
  obtains s' where "link_edge a b now s = Some s'" "state_ok s'" "task_frame s s'"
    "map_of (ts_tasks s') = map_link a b now ta tb (map_of (ts_tasks s))"
    "dep_edges s' = insert (a, b) (dep_edges s)"
proof -
  have T: "map_of (ts_tasks s) a = Some ta" "map_of (ts_tasks s) b = Some tb" "a \<noteq> b"
    using assms(2,3,5) by (auto simp: live_task_Some_iff)
  let ?s = "put_task b (td_add_blocks a now tb) (put_task a (td_add_blocked_by b now ta) s)"
  have l: "link_edge a b now s = Some ?s"
    using T by (simp add: link_edge_def modify_task_def hmap_simps)
  have m: "map_of (ts_tasks ?s) = map_link a b now ta tb (map_of (ts_tasks s))"
    by (simp add: map_link_def hmap_simps)
  have f: "task_frame s ?s"
    using T by (intro task_frame_trans [OF task_frame_put task_frame_put])
      (auto simp: hmap_simps)
  have "deps_ok (map_of (ts_tasks ?s))"
    unfolding m using assms T
    by (intro deps_ok_link state_ok_deps) (auto simp: live_task_Some_iff dep_edges_map)
  then have "state_ok ?s" by (rule state_ok_task_frame [OF assms(1) f])
  moreover have "dep_edges ?s = insert (a, b) (dep_edges s)"
    using map_edges_link [OF T] m by (simp only: dep_edges_map)
  ultimately show thesis using that l f m by blast
qed

lemma unlink_edge_ok:
  assumes "state_ok s" "map_of (ts_tasks s) a = Some ta" "b \<in> set (td_blocked_by ta)"
  obtains s' tb where "unlink_edge a b now s = Some s'" "state_ok s'" "task_frame s s'"
    "map_of (ts_tasks s) b = Some tb"
    "map_of (ts_tasks s') = map_unlink a b now ta tb (map_of (ts_tasks s))"
    "dep_edges s' = dep_edges s - {(a, b)}"
proof -
  obtain tb where tb: "map_of (ts_tasks s) b = Some tb"
    using linkedD(4) [OF state_ok_linked [OF assms(1)] assms(2,3)] by blast
  note ne = state_ok_no_self(1) [OF assms]
  let ?s = "put_task b (td_remove_blocks a now tb) (put_task a (td_remove_blocked_by b now ta) s)"
  have l: "unlink_edge a b now s = Some ?s"
    using assms(2) tb ne by (simp add: unlink_edge_def modify_task_def hmap_simps)
  have m: "map_of (ts_tasks ?s) = map_unlink a b now ta tb (map_of (ts_tasks s))"
    by (simp add: map_unlink_def hmap_simps)
  have f: "task_frame s ?s"
    using assms(2) tb ne by (intro task_frame_trans [OF task_frame_put task_frame_put])
      (auto simp: hmap_simps)
  have "deps_ok (map_of (ts_tasks ?s))"
    unfolding m using assms tb ne by (intro deps_ok_unlink state_ok_deps) auto
  then have "state_ok ?s" by (rule state_ok_task_frame [OF assms(1) f])
  moreover have "dep_edges ?s = dep_edges s - {(a, b)}"
    using map_edges_unlink [OF assms(2) tb ne] m by (simp only: dep_edges_map)
  ultimately show thesis using that l f m tb by blast
qed

section \<open>Adding and removing one dependency\<close>

lemma good_commit_task:
  assumes "state_ok s'" "task_frame s s'" "map_of (ts_tasks s) i = Some t"
    "reserve_revision s = Ok revision"
  shows "good_step s (commit_task i es revision s')"
proof -
  obtain t' where "map_of (ts_tasks s') i = Some t'"
    using task_frame_lookup [OF assms(2), of i] assms(3) by auto
  then show ?thesis using assms by (auto simp: commit_task_def intro!: good_step_commit)
qed

lemma good_add_dependency:
  assumes "state_ok s"
  shows "good_step s (add_dependency a b now s)"
proof -
  have step: "good_step s (case link_edge a b now s of
      None \<Rightarrow> (Panic, s)
    | Some s' \<Rightarrow> commit_task a [TaskDependencyAdded a b] revision s')"
    if h: "live_task s a = Some ta" "live_task s b = Some tb" "td_batch ta = td_batch tb"
      "\<not> would_create_cycle s a b" "reserve_revision s = Ok revision" for ta tb revision
  proof -
    obtain s' where "link_edge a b now s = Some s'" "state_ok s'" "task_frame s s'"
      using link_edge_ok [OF assms h(1,2) h(3) [symmetric]] h(4)
      by (metis would_create_cycle_iff)
    with h show ?thesis by (auto simp: live_task_Some_iff intro!: good_commit_task)
  qed
  show ?thesis
    unfolding add_dependency_def using assms step
    by (simp split: option.split add: good_step_err good_step_noop good_step_with_revision)
qed

lemma good_remove_dependency:
  assumes "state_ok s"
  shows "good_step s (remove_dependency a b now s)"
proof -
  have step: "good_step s (case unlink_edge a b now s of
      None \<Rightarrow> (Panic, s)
    | Some s' \<Rightarrow> commit_task a [TaskDependencyRemoved a b] revision s')"
    if h: "map_of (ts_tasks s) a = Some ta" "b \<in> set (td_blocked_by ta)"
      "reserve_revision s = Ok revision" for ta revision
  proof -
    obtain s' where "unlink_edge a b now s = Some s'" "state_ok s'" "task_frame s s'"
      using unlink_edge_ok [OF assms h(1,2)] by metis
    with h show ?thesis by (auto intro!: good_commit_task)
  qed
  show ?thesis
    unfolding remove_dependency_def using assms step
    by (simp split: option.split add: good_step_err good_step_noop good_step_with_revision)
qed


section \<open>The dry run of a replacement\<close>

text \<open>Same tasks, up to their edges and time stamps.\<close>

definition alike :: "task_store_state \<Rightarrow> task_store_state \<Rightarrow> bool" where
  "alike s s' \<longleftrightarrow>
     (\<forall>i. map_option (\<lambda>t. (td_batch t, td_status t)) (map_of (ts_tasks s') i) =
          map_option (\<lambda>t. (td_batch t, td_status t)) (map_of (ts_tasks s) i))"

definition live_in :: "task_store_state \<Rightarrow> batch_id \<Rightarrow> task_id \<Rightarrow> bool" where
  "live_in s b i \<longleftrightarrow> (\<exists>t. live_task s i = Some t \<and> td_batch t = b)"

abbreviation revision_nat :: "task_store_state \<Rightarrow> nat" where
  "revision_nat s \<equiv> unat (task_revision_get (ts_revision s))"

lemma alike_refl [simp]: "alike s s"
  by (simp add: alike_def)

lemma alike_trans: "alike s s1 \<Longrightarrow> alike s1 s2 \<Longrightarrow> alike s s2"
  by (simp add: alike_def)

lemma alike_live_in: "alike s s' \<Longrightarrow> live_in s' b i = live_in s b i"
  unfolding alike_def live_in_def live_task_Some_iff
  by (drule spec [of _ i]) (cases "map_of (ts_tasks s') i"; cases "map_of (ts_tasks s) i"; auto)

lemma alike_map_link:
  assumes "map_of (ts_tasks s') = map_link a b now ta tb (map_of (ts_tasks s))"
    "map_of (ts_tasks s) a = Some ta" "map_of (ts_tasks s) b = Some tb"
  shows "alike s (s'\<lparr>ts_revision := r\<rparr>)"
  using assms by (auto simp: alike_def map_link_def)

lemma alike_map_unlink:
  assumes "map_of (ts_tasks s') = map_unlink a b now ta tb (map_of (ts_tasks s))"
    "map_of (ts_tasks s) a = Some ta" "map_of (ts_tasks s) b = Some tb"
  shows "alike s (s'\<lparr>ts_revision := r\<rparr>)"
  using assms by (auto simp: alike_def map_unlink_def)

lemma dep_edges_revision [simp]: "dep_edges (s\<lparr>ts_revision := r\<rparr>) = dep_edges s"
  by (simp add: dep_adj_def)

lemma revision_room:
  obtains "reserve_revision s = Err RevisionExhausted" "2 ^ 64 \<le> revision_nat s + 1"
  | r where "reserve_revision s = Ok (TaskRevisionData r)" "unat r = revision_nat s + 1"
proof (cases "checked_add (task_revision_get (ts_revision s)) 1")
  case None
  then show thesis
    using that(1) by (simp add: reserve_revision_def) (simp add: checked_add_def split: if_splits)
next
  case (Some r)
  then show thesis using that(2) checked_add_unat [OF Some] by (simp add: reserve_revision_def)
qed

lemma commit_task_Ok:
  assumes "map_of (ts_tasks s) i = Some t"
  shows "commit_task i es r s =
    (Ok \<lparr>cr_value = t, cr_events = es, cr_revision = Some r\<rparr>, s\<lparr>ts_revision := r\<rparr>)"
  using assms by (simp add: commit_task_def commit_def commit_result_def uncommitted_def)

lemma remove_dependency_cases:
  assumes "state_ok s" "(a, b) \<in> dep_edges s"
  obtains "remove_dependency a b now s = (Err RevisionExhausted, s)" "2 ^ 64 \<le> revision_nat s + 1"
  | r s' where "remove_dependency a b now s = (Ok r, s')" "state_ok s'" "alike s s'"
      "dep_edges s' = dep_edges s - {(a, b)}" "revision_nat s' = revision_nat s + 1"
proof -
  obtain ta where ta: "map_of (ts_tasks s) a = Some ta" "b \<in> set (td_blocked_by ta)"
    using assms(2) unfolding dep_edges_iff by blast
  obtain s1 tb where u: "unlink_edge a b now s = Some s1" "state_ok s1" "task_frame s s1"
    "map_of (ts_tasks s) b = Some tb"
    "map_of (ts_tasks s1) = map_unlink a b now ta tb (map_of (ts_tasks s))"
    "dep_edges s1 = dep_edges s - {(a, b)}"
    using unlink_edge_ok [OF assms(1) ta, of now thesis] by blast
  obtain t1 where t1: "map_of (ts_tasks s1) a = Some t1"
    using task_frame_lookup [OF u(3), of a] ta(1) by auto
  have eq: "remove_dependency a b now s =
      with_revision s (\<lambda>r. commit_task a [TaskDependencyRemoved a b] r s1)"
    using ta u(1,4) by (simp add: remove_dependency_def)
  show thesis
  proof (rule revision_room [of s])
    assume "reserve_revision s = Err RevisionExhausted" "2 ^ 64 \<le> revision_nat s + 1"
    then show thesis using that(1) eq by (simp add: with_revision_def)
  next
    fix r assume "reserve_revision s = Ok (TaskRevisionData r)" "unat r = revision_nat s + 1"
    then show thesis
      using that(2) [of _ "s1\<lparr>ts_revision := TaskRevisionData r\<rparr>"] eq t1 u
        alike_map_unlink [OF u(5) ta(1) u(4)]
      by (simp add: with_revision_def commit_task_Ok)
  qed
qed

lemma add_dependency_cases:
  assumes "state_ok s" "live_in s x a" "live_in s x b" "(a, b) \<notin> dep_edges s"
  obtains "add_dependency a b now s = (Err RevisionExhausted, s)" "2 ^ 64 \<le> revision_nat s + 1"
  | "add_dependency a b now s = (Err (DependencyCycle a b), s)" "(b, a) \<in> (dep_edges s)\<^sup>*"
  | r s' where "add_dependency a b now s = (Ok r, s')" "(b, a) \<notin> (dep_edges s)\<^sup>*"
      "state_ok s'" "alike s s'"
      "dep_edges s' = insert (a, b) (dep_edges s)" "revision_nat s' = revision_nat s + 1"
proof (cases "would_create_cycle s a b")
  case True
  obtain ta tb where l: "live_task s a = Some ta" "live_task s b = Some tb" "td_batch tb = td_batch ta"
    using assms(2,3) unfolding live_in_def by auto
  then have "b \<notin> set (td_blocked_by ta)"
    using assms(4) unfolding dep_edges_iff live_task_Some_iff by blast
  with l True that(2) show thesis
    by (simp add: add_dependency_def) (simp add: would_create_cycle_iff)
next
  case False
  obtain ta tb where l: "live_task s a = Some ta" "live_task s b = Some tb" "td_batch tb = td_batch ta"
    using assms(2,3) unfolding live_in_def by auto
  then have nb: "b \<notin> set (td_blocked_by ta)"
    using assms(4) unfolding dep_edges_iff live_task_Some_iff by blast
  have np: "(b, a) \<notin> (dep_edges s)\<^sup>*" using False by (simp add: would_create_cycle_iff)
  obtain s1 where u: "link_edge a b now s = Some s1" "state_ok s1" "task_frame s s1"
    "map_of (ts_tasks s1) = map_link a b now ta tb (map_of (ts_tasks s))"
    "dep_edges s1 = insert (a, b) (dep_edges s)"
    using link_edge_ok [OF assms(1) l np, of now thesis] by blast
  obtain t1 where t1: "map_of (ts_tasks s1) a = Some t1"
    using task_frame_lookup [OF u(3), of a] l(1) by (auto simp: live_task_Some_iff)
  have eq: "add_dependency a b now s =
      with_revision s (\<lambda>r. commit_task a [TaskDependencyAdded a b] r s1)"
    using l u(1) nb False by (simp add: add_dependency_def)
  show thesis
  proof (rule revision_room [of s])
    assume "reserve_revision s = Err RevisionExhausted" "2 ^ 64 \<le> revision_nat s + 1"
    then show thesis using that(1) eq by (simp add: with_revision_def)
  next
    fix r assume "reserve_revision s = Ok (TaskRevisionData r)" "unat r = revision_nat s + 1"
    then show thesis
      using that(3) [of _ "s1\<lparr>ts_revision := TaskRevisionData r\<rparr>"] eq t1 u np l
        alike_map_link [OF u(4)]
      by (simp add: with_revision_def commit_task_Ok live_task_Some_iff)
  qed
qed

text \<open>The loops over the clone, with every way they can end.\<close>

lemma dry_remove_cases:
  assumes "state_ok s" "{a} \<times> set bs \<subseteq> dep_edges s" "distinct bs"
  obtains s' where "dry_remove a bs now s = (Err RevisionExhausted, s')"
      "2 ^ 64 \<le> revision_nat s + length bs"
  | s' where "dry_remove a bs now s = (Ok (), s')" "state_ok s'" "alike s s'"
      "dep_edges s' = dep_edges s - {a} \<times> set bs" "revision_nat s' = revision_nat s + length bs"
  using assms
proof (induction bs arbitrary: s thesis)
  case Nil
  then show ?case using Nil.prems(2) [of s] by simp
next
  case (Cons b bs)
  have e: "(a, b) \<in> dep_edges s" using Cons.prems(4) by auto
  show ?case
  proof (rule remove_dependency_cases [OF Cons.prems(3) e, of now])
    assume "remove_dependency a b now s = (Err RevisionExhausted, s)" "2 ^ 64 \<le> revision_nat s + 1"
    then show ?case using Cons.prems(1) [of s] by simp
  next
    fix r s1
    assume s1: "remove_dependency a b now s = (Ok r, s1)" "state_ok s1" "alike s s1"
      "dep_edges s1 = dep_edges s - {(a, b)}" "revision_nat s1 = revision_nat s + 1"
    have sub: "{a} \<times> set bs \<subseteq> dep_edges s1" "distinct bs"
      using Cons.prems(4,5) unfolding s1(4) by auto
    have diff: "dep_edges s - {a} \<times> set (b # bs) = dep_edges s1 - {a} \<times> set bs"
      unfolding s1(4) by auto
    show ?case
    proof (rule Cons.IH [OF _ _ s1(2) sub])
      fix s' assume "dry_remove a bs now s1 = (Err RevisionExhausted, s')"
        "2 ^ 64 \<le> revision_nat s1 + length bs"
      then show ?case using Cons.prems(1) [of s'] s1 by simp
    next
      fix s' assume "dry_remove a bs now s1 = (Ok (), s')" "state_ok s'" "alike s1 s'"
        "dep_edges s' = dep_edges s1 - {a} \<times> set bs" "revision_nat s' = revision_nat s1 + length bs"
      then show ?case
        using Cons.prems(2) [of s'] s1 alike_trans [of s s1 s'] diff by simp
    qed
  qed
qed

lemma dry_add_cases:
  assumes "state_ok s" "live_in s x a" "\<forall>b \<in> set bs. live_in s x b"
    "\<forall>b \<in> set bs. (a, b) \<notin> dep_edges s" "distinct bs"
  obtains s' where "dry_add a bs now s = (Err RevisionExhausted, s')"
      "2 ^ 64 \<le> revision_nat s + length bs"
  | b s' where "dry_add a bs now s = (Err (DependencyCycle a b), s')" "b \<in> set bs"
      "(b, a) \<in> (dep_edges s)\<^sup>*"
  | s' where "dry_add a bs now s = (Ok (), s')" "\<forall>b \<in> set bs. (b, a) \<notin> (dep_edges s)\<^sup>*"
  using assms
proof (induction bs arbitrary: s thesis)
  case Nil
  then show ?case using Nil.prems(3) [of s] by simp
next
  case (Cons b bs)
  have e: "(a, b) \<notin> dep_edges s" using Cons.prems(7) by simp
  have l: "live_in s x b" using Cons.prems(6) by simp
  show ?case
  proof (rule add_dependency_cases [OF Cons.prems(4,5) l e, of now])
    assume "add_dependency a b now s = (Err RevisionExhausted, s)" "2 ^ 64 \<le> revision_nat s + 1"
    then show ?case using Cons.prems(1) [of s] by simp
  next
    assume "add_dependency a b now s = (Err (DependencyCycle a b), s)" "(b, a) \<in> (dep_edges s)\<^sup>*"
    then show ?case using Cons.prems(2) [of b s] by simp
  next
    fix r s1
    assume s1: "add_dependency a b now s = (Ok r, s1)" "(b, a) \<notin> (dep_edges s)\<^sup>*"
      "state_ok s1" "alike s s1"
      "dep_edges s1 = insert (a, b) (dep_edges s)" "revision_nat s1 = revision_nat s + 1"
    have path: "(c, a) \<in> (dep_edges s1)\<^sup>* \<longleftrightarrow> (c, a) \<in> (dep_edges s)\<^sup>*" for c
      unfolding s1(5) by (rule rtrancl_away_iff) simp
    have h: "live_in s1 x a" "\<forall>b \<in> set bs. live_in s1 x b"
      "\<forall>b \<in> set bs. (a, b) \<notin> dep_edges s1" "distinct bs"
      using Cons.prems(5-8) unfolding s1(5) by (auto simp: alike_live_in [OF s1(4)])
    show ?case
    proof (rule Cons.IH [OF _ _ _ s1(3) h])
      fix s' assume "dry_add a bs now s1 = (Err RevisionExhausted, s')"
        "2 ^ 64 \<le> revision_nat s1 + length bs"
      then show ?case using Cons.prems(1) [of s'] s1 by simp
    next
      fix c s' assume c: "dry_add a bs now s1 = (Err (DependencyCycle a c), s')" "c \<in> set bs"
        "(c, a) \<in> (dep_edges s1)\<^sup>*"
      show ?case
        using Cons.prems(2) [of c s'] s1(1) c(1,2) c(3) [unfolded path] by simp
    next
      fix s' assume c: "dry_add a bs now s1 = (Ok (), s')" "\<forall>b \<in> set bs. (b, a) \<notin> (dep_edges s1)\<^sup>*"
      show ?case
        using Cons.prems(3) [of s'] s1(1,2) c(1) c(2) [unfolded path] by simp
    qed
  qed
qed

text \<open>The paths into the edited task are the same in the clone as in the state.\<close>

lemma dry_replace_cases:
  assumes "state_ok s" "live_task s a = Some ta" "\<forall>b \<in> set ids. live_in s (td_batch ta) b"
    "distinct ids"
  obtains "dry_replace a (td_blocked_by ta) ids now s = Err RevisionExhausted"
      "2 ^ 64 \<le> length (td_blocked_by ta) + length ids"
  | b where "dry_replace a (td_blocked_by ta) ids now s = Err (DependencyCycle a b)" "b \<in> set ids"
      "(b, a) \<in> (dep_edges s)\<^sup>*"
  | "dry_replace a (td_blocked_by ta) ids now s = Ok ()"
      "\<forall>b \<in> set ids. (b, a) \<notin> (dep_edges s)\<^sup>*"
proof -
  let ?s0 = "s\<lparr>ts_revision := TaskRevisionData 0\<rparr>"
  have ta: "map_of (ts_tasks s) a = Some ta" using assms(2) by (simp add: live_task_Some_iff)
  have s0: "state_ok ?s0" using assms(1) by simp
  have edges: "(a, b) \<in> dep_edges s \<longleftrightarrow> b \<in> set (td_blocked_by ta)" for b
    unfolding dep_edges_iff using ta by auto
  then have sub: "{a} \<times> set (td_blocked_by ta) \<subseteq> dep_edges ?s0"
    unfolding dep_edges_revision by blast
  have d: "distinct (td_blocked_by ta)"
    using linkedD(1) [OF state_ok_linked [OF assms(1)] ta] .
  have a0: "alike s ?s0" by (simp add: alike_def)
  show thesis
  proof (rule dry_remove_cases [OF s0 sub d, of now])
    fix s' assume "dry_remove a (td_blocked_by ta) now ?s0 = (Err RevisionExhausted, s')"
      "2 ^ 64 \<le> revision_nat ?s0 + length (td_blocked_by ta)"
    then show thesis using that(1) by (simp add: dry_replace_def)
  next
    fix s1 assume s1: "dry_remove a (td_blocked_by ta) now ?s0 = (Ok (), s1)" "state_ok s1" "alike ?s0 s1"
      "dep_edges s1 = dep_edges ?s0 - {a} \<times> set (td_blocked_by ta)"
      "revision_nat s1 = revision_nat ?s0 + length (td_blocked_by ta)"
    note al = alike_live_in [OF alike_trans [OF a0 s1(3)]]
    have path: "(c, a) \<in> (dep_edges s1)\<^sup>* \<longleftrightarrow> (c, a) \<in> (dep_edges s)\<^sup>*" for c
      unfolding s1(4) dep_edges_revision by (rule rtrancl_away_iff) (auto simp: away_def)
    have h: "live_in s1 (td_batch ta) a" "\<forall>b \<in> set ids. live_in s1 (td_batch ta) b"
      "\<forall>b \<in> set ids. (a, b) \<notin> dep_edges s1"
      using assms(2,3) al edges unfolding s1(4) by (auto simp: live_in_def [of s])
    show thesis
    proof (rule dry_add_cases [OF s1(2) h assms(4), of now])
      fix s' assume "dry_add a ids now s1 = (Err RevisionExhausted, s')"
        "2 ^ 64 \<le> revision_nat s1 + length ids"
      then show thesis using that(1) s1 by (simp add: dry_replace_def)
    next
      fix b s' assume b: "dry_add a ids now s1 = (Err (DependencyCycle a b), s')" "b \<in> set ids"
        "(b, a) \<in> (dep_edges s1)\<^sup>*"
      show thesis
        using that(2) [of b] s1(1) b(1,2) b(3) [unfolded path] by (simp add: dry_replace_def)
    next
      fix s' assume b: "dry_add a ids now s1 = (Ok (), s')"
        "\<forall>b \<in> set ids. (b, a) \<notin> (dep_edges s1)\<^sup>*"
      show thesis
        using that(3) s1(1) b(1) b(2) [unfolded path] by (simp add: dry_replace_def)
    qed
  qed
qed

section \<open>The real run of a replacement\<close>

text \<open>Both loops edit the blockers of \<open>a\<close> only; every other task keeps its own.\<close>

lemma unlink_all_ok:
  assumes "state_ok s" "map_of (ts_tasks s) a = Some ta" "set bs \<subseteq> set (td_blocked_by ta)" "distinct bs"
  obtains s' where "unlink_all a bs now s = Some s'" "state_ok s'" "task_frame s s'" "alike s s'"
    "dep_edges s' = dep_edges s - {a} \<times> set bs"
  using assms
proof (induction bs arbitrary: s ta thesis)
  case Nil
  then show ?case by simp
next
  case (Cons b bs)
  have b: "b \<in> set (td_blocked_by ta)" using Cons.prems by simp
  obtain s1 tb where u: "unlink_edge a b now s = Some s1" "state_ok s1" "task_frame s s1"
    "map_of (ts_tasks s) b = Some tb"
    "map_of (ts_tasks s1) = map_unlink a b now ta tb (map_of (ts_tasks s))"
    "dep_edges s1 = dep_edges s - {(a, b)}"
    using unlink_edge_ok [OF Cons.prems(2,3) b, of now thesis] by blast
  have ne: "a \<noteq> b" using state_ok_no_self(1) [OF Cons.prems(2,3) b] .
  have ta1: "map_of (ts_tasks s1) a = Some (td_remove_blocked_by b now ta)"
    using u(5) ne by (simp add: map_unlink_def)
  have sub: "set bs \<subseteq> set (td_blocked_by (td_remove_blocked_by b now ta))" "distinct bs"
    using Cons.prems(4,5) by auto
  have al: "alike s s1" using alike_map_unlink [OF u(5) Cons.prems(3) u(4), of "ts_revision s1"] by simp
  show ?case
  proof (rule Cons.IH [OF _ u(2) ta1 sub])
    fix s' assume s': "unlink_all a bs now s1 = Some s'" "state_ok s'" "task_frame s1 s'" "alike s1 s'"
      "dep_edges s' = dep_edges s1 - {a} \<times> set bs"
    have "dep_edges s' = dep_edges s - {a} \<times> set (b # bs)"
      unfolding s'(5) u(6) by auto
    then show ?case
      using Cons.prems(1) [of s'] u(1) s' task_frame_trans [OF u(3) s'(3)] alike_trans [OF al s'(4)]
      by simp
  qed
qed

lemma link_all_ok:
  assumes "state_ok s" "live_in s x a" "\<forall>b \<in> set bs. live_in s x b"
    "\<forall>b \<in> set bs. (b, a) \<notin> (dep_edges s)\<^sup>*"
  obtains s' where "link_all a bs now s = Some s'" "state_ok s'" "task_frame s s'"
    "dep_edges s' = dep_edges s \<union> {a} \<times> set bs"
  using assms
proof (induction bs arbitrary: s thesis)
  case Nil
  then show ?case by simp
next
  case (Cons b bs)
  obtain ta tb where l: "live_task s a = Some ta" "live_task s b = Some tb" "td_batch tb = td_batch ta"
    using Cons.prems(3,4) unfolding live_in_def by auto
  have np: "(b, a) \<notin> (dep_edges s)\<^sup>*" using Cons.prems(5) by simp
  obtain s1 where u: "link_edge a b now s = Some s1" "state_ok s1" "task_frame s s1"
    "map_of (ts_tasks s1) = map_link a b now ta tb (map_of (ts_tasks s))"
    "dep_edges s1 = insert (a, b) (dep_edges s)"
    using link_edge_ok [OF Cons.prems(2) l np, of now thesis] by blast
  have al: "alike s s1"
    using alike_map_link [OF u(4), of "ts_revision s1"] l by (simp add: live_task_Some_iff)
  have path: "(c, a) \<in> (dep_edges s1)\<^sup>* \<longleftrightarrow> (c, a) \<in> (dep_edges s)\<^sup>*" for c
    unfolding u(5) by (rule rtrancl_away_iff) simp
  have h: "live_in s1 x a" "\<forall>b \<in> set bs. live_in s1 x b"
    "\<forall>b \<in> set bs. (b, a) \<notin> (dep_edges s1)\<^sup>*"
    unfolding path using Cons.prems(3-5) by (auto simp: alike_live_in [OF al])
  show ?case
  proof (rule Cons.IH [OF _ u(2) h])
    fix s' assume s': "link_all a bs now s1 = Some s'" "state_ok s'" "task_frame s1 s'"
      "dep_edges s' = dep_edges s1 \<union> {a} \<times> set bs"
    have "dep_edges s' = dep_edges s \<union> {a} \<times> set (b # bs)"
      unfolding s'(4) u(5) by auto
    then show ?case
      using Cons.prems(1) [of s'] u(1) s' task_frame_trans [OF u(3) s'(3)] by simp
  qed
qed

end
