(* ===== verification/Task_Replace.thy ===== *)
theory Task_Replace
  imports Task_Dependencies
begin

text \<open>
  The two commands that rewrite several edges at once: \<open>replace_dependencies\<close> accepts a request
  exactly when it is sound and then leaves exactly the requested blockers (in which order is said later); deleting a task takes
  all its edges with it. Both are good steps.
\<close>

section \<open>Validation of the request\<close>

lemma adjacent_duplicate_None:
  "sorted xs \<Longrightarrow> adjacent_duplicate xs = None \<longleftrightarrow> distinct xs"
proof (induction xs rule: adjacent_duplicate.induct)
  case (1 x y zs)
  then show ?case by (cases "x = y") force+
qed simp_all

lemma adjacent_duplicate_Some: "adjacent_duplicate xs = Some d \<Longrightarrow> \<not> distinct xs \<and> d \<in> set xs"
  by (induction xs rule: adjacent_duplicate.induct) (auto split: if_splits)

lemma check_blockers_None:
  "check_blockers s a x bs = None \<longleftrightarrow> (\<forall>b \<in> set bs. live_in s x b)"
  by (induction bs) (auto simp: live_in_def split: option.split)

section \<open>Replacing the blockers of a task\<close>

lemma apply_replacement_cases:
  assumes "state_ok s" "live_task s a = Some ta" "\<forall>b \<in> set ids. live_in s (td_batch ta) b"
    "\<forall>b \<in> set ids. (b, a) \<notin> (dep_edges s)\<^sup>*" "distinct ids"
  obtains "apply_replacement a (td_blocked_by ta) ids now s = (Err RevisionExhausted, s)"
      "reserve_revision s = Err RevisionExhausted"
  | t' s' revision where "reserve_revision s = Ok revision"
      "apply_replacement a (td_blocked_by ta) ids now s =
        (Ok \<lparr>cr_value = t',
             cr_events = map (TaskDependencyRemoved a) (filter (\<lambda>i. i \<notin> set ids) (td_blocked_by ta)) @
               map (TaskDependencyAdded a) (filter (\<lambda>i. i \<notin> set (td_blocked_by ta)) ids),
             cr_revision = Some revision\<rparr>, s'\<lparr>ts_revision := revision\<rparr>)"
      "state_ok s'" "task_frame s s'" "map_of (ts_tasks s') a = Some t'" "set (td_blocked_by t') = set ids"
      "dep_edges s' = away a (dep_edges s) \<union> {a} \<times> set ids"
proof (cases "reserve_revision s")
  case (Ok revision)
  let ?removed = "filter (\<lambda>i. i \<notin> set ids) (td_blocked_by ta)"
  let ?added = "filter (\<lambda>i. i \<notin> set (td_blocked_by ta)) ids"
  have ta: "map_of (ts_tasks s) a = Some ta" using assms(2) by (simp add: live_task_Some_iff)
  have edges: "(a, b) \<in> dep_edges s \<longleftrightarrow> b \<in> set (td_blocked_by ta)" for b
    unfolding dep_edges_iff using ta by auto
  have d: "distinct (td_blocked_by ta)"
    using linkedD(1) [OF state_ok_linked [OF assms(1)] ta] .
  obtain s1 where s1: "unlink_all a ?removed now s = Some s1" "state_ok s1" "task_frame s s1"
    "alike s s1" "dep_edges s1 = dep_edges s - {a} \<times> set ?removed"
    using unlink_all_ok [OF assms(1) ta _ distinct_filter [OF d], of "\<lambda>i. i \<notin> set ids" now thesis]
    by auto
  have path: "(c, a) \<in> (dep_edges s1)\<^sup>* \<longleftrightarrow> (c, a) \<in> (dep_edges s)\<^sup>*" for c
    unfolding s1(5) by (rule rtrancl_away_iff) (auto simp: away_def)
  have h: "live_in s1 (td_batch ta) a" "\<forall>b \<in> set ?added. live_in s1 (td_batch ta) b"
    "\<forall>b \<in> set ?added. (b, a) \<notin> (dep_edges s1)\<^sup>*"
    unfolding path using assms(2-4) by (auto simp: alike_live_in [OF s1(4)] live_in_def [of s])
  obtain s2 where s2: "link_all a ?added now s1 = Some s2" "state_ok s2" "task_frame s1 s2"
    "dep_edges s2 = dep_edges s1 \<union> {a} \<times> set ?added"
    using link_all_ok [OF s1(2) h, of now thesis] by blast
  have f: "task_frame s s2" using task_frame_trans [OF s1(3) s2(3)] .
  obtain t2 where t2: "map_of (ts_tasks s2) a = Some t2"
    using task_frame_lookup [OF f, of a] ta by auto
  have "(x, y) \<in> dep_edges s2 \<longleftrightarrow> (x, y) \<in> away a (dep_edges s) \<union> {a} \<times> set ids" for x y
    unfolding s2(4) s1(5) away_def
    by (cases "x = a") (use edges [of y] in \<open>simp_all del: adj_edges_iff\<close>, blast)
  then have E: "dep_edges s2 = away a (dep_edges s) \<union> {a} \<times> set ids"
    by (simp only: set_eq_iff split_paired_all) simp
  have "b \<in> set (td_blocked_by t2) \<longleftrightarrow> (a, b) \<in> dep_edges s2" for b
    unfolding dep_edges_iff using t2 by auto
  moreover have "(a, b) \<in> dep_edges s2 \<longleftrightarrow> b \<in> set ids" for b
    unfolding E away_def by simp
  ultimately have "set (td_blocked_by t2) = set ids" by blast
  moreover have "apply_replacement a (td_blocked_by ta) ids now s =
        (Ok \<lparr>cr_value = t2,
             cr_events = map (TaskDependencyRemoved a) ?removed @ map (TaskDependencyAdded a) ?added,
             cr_revision = Some revision\<rparr>, s2\<lparr>ts_revision := revision\<rparr>)"
    using s1(1) s2(1) Ok t2
    by (simp add: apply_replacement_def with_revision_def commit_task_Ok)
  ultimately show thesis using that(2) [OF Ok] s2(2) f t2 E by blast
qed (use that(1) in \<open>auto simp: apply_replacement_def with_revision_def reserve_revision_def split: option.splits\<close>)

text \<open>Every way \<open>replace_dependencies\<close> ends on a live task.\<close>

lemma replace_dependencies_cases:
  assumes "state_ok s" "live_task s a = Some ta"
  obtains e where "replace_dependencies a ids now s = (Err e, s)"
      "\<not> distinct ids \<or> (\<exists>b \<in> set ids. \<not> live_in s (td_batch ta) b) \<or>
       (\<exists>b \<in> set ids. (b, a) \<in> (dep_edges s)\<^sup>*) \<or>
       2 ^ 64 \<le> length (td_blocked_by ta) + length ids \<or> reserve_revision s = Err RevisionExhausted"
  | "replace_dependencies a ids now s = (Ok (uncommitted ta []), s)" "td_blocked_by ta = sort ids"
  | t' s' revision where "reserve_revision s = Ok revision"
      "replace_dependencies a ids now s =
        (Ok \<lparr>cr_value = t',
             cr_events = map (TaskDependencyRemoved a) (filter (\<lambda>i. i \<notin> set ids) (td_blocked_by ta)) @
               map (TaskDependencyAdded a) (filter (\<lambda>i. i \<notin> set (td_blocked_by ta)) (sort ids)),
             cr_revision = Some revision\<rparr>, s'\<lparr>ts_revision := revision\<rparr>)"
      "distinct ids" "\<forall>b \<in> set ids. live_in s (td_batch ta) b"
      "\<forall>b \<in> set ids. (b, a) \<notin> (dep_edges s)\<^sup>*"
      "state_ok s'" "task_frame s s'" "map_of (ts_tasks s') a = Some t'" "set (td_blocked_by t') = set ids"
      "dep_edges s' = away a (dep_edges s) \<union> {a} \<times> set ids"
proof -
  have dups: "adjacent_duplicate (sort ids) = None \<longleftrightarrow> distinct ids"
    by (simp add: adjacent_duplicate_None)
  consider (dup) d where "adjacent_duplicate (sort ids) = Some d" "\<not> distinct ids"
    | (check) e where "distinct ids" "check_blockers s a (td_batch ta) (sort ids) = Some e"
    | (noop) "distinct ids" "check_blockers s a (td_batch ta) (sort ids) = None" "td_blocked_by ta = sort ids"
    | (run) "distinct ids" "check_blockers s a (td_batch ta) (sort ids) = None" "td_blocked_by ta \<noteq> sort ids"
    using dups by (cases "adjacent_duplicate (sort ids)"; cases "check_blockers s a (td_batch ta) (sort ids)";
        cases "td_blocked_by ta = sort ids") simp_all
  then show thesis
  proof cases
    case dup
    then show thesis using that(1) assms by (simp add: replace_dependencies_def Let_def)
  next
    case check
    then have "\<not> (\<forall>b \<in> set ids. live_in s (td_batch ta) b)"
      using check_blockers_None [of s a "td_batch ta" "sort ids"] by simp
    with check that(1) assms dups show thesis
      by (simp add: replace_dependencies_def Let_def)
  next
    case noop
    with that(2) assms dups show thesis
      by (simp add: replace_dependencies_def Let_def)
  next
    case run
    have live: "\<forall>b \<in> set (sort ids). live_in s (td_batch ta) b"
      using run(2) check_blockers_None [of s a "td_batch ta" "sort ids"] by simp
    have d: "distinct (sort ids)" using run(1) by simp
    have eq: "replace_dependencies a ids now s =
        (case dry_replace a (td_blocked_by ta) (sort ids) now s of
           Err e \<Rightarrow> (Err e, s)
         | Panic \<Rightarrow> (Panic, s)
         | Ok _ \<Rightarrow> apply_replacement a (td_blocked_by ta) (sort ids) now s)"
      using run dups assms
      by (simp add: replace_dependencies_def Let_def)
    show thesis
    proof (rule dry_replace_cases [OF assms live d, of now])
      assume "dry_replace a (td_blocked_by ta) (sort ids) now s = Err RevisionExhausted"
        "2 ^ 64 \<le> length (td_blocked_by ta) + length (sort ids)"
      then show thesis using that(1) eq by simp
    next
      fix b assume "dry_replace a (td_blocked_by ta) (sort ids) now s = Err (DependencyCycle a b)"
        "b \<in> set (sort ids)" "(b, a) \<in> (dep_edges s)\<^sup>*"
      then show thesis using that(1) [of "DependencyCycle a b"] eq by (simp del: adj_edges_iff) blast
    next
      assume ok: "dry_replace a (td_blocked_by ta) (sort ids) now s = Ok ()"
        "\<forall>b \<in> set (sort ids). (b, a) \<notin> (dep_edges s)\<^sup>*"
      show thesis
      proof (rule apply_replacement_cases [OF assms live ok(2) d, of now])
        assume "apply_replacement a (td_blocked_by ta) (sort ids) now s = (Err RevisionExhausted, s)"
          "reserve_revision s = Err RevisionExhausted"
        then show thesis using that(1) eq ok(1) by simp
      next
        fix t' s' revision
        assume r: "reserve_revision s = Ok revision"
          "apply_replacement a (td_blocked_by ta) (sort ids) now s =
            (Ok \<lparr>cr_value = t',
             cr_events = map (TaskDependencyRemoved a) (filter (\<lambda>i. i \<notin> set (sort ids)) (td_blocked_by ta)) @
               map (TaskDependencyAdded a) (filter (\<lambda>i. i \<notin> set (td_blocked_by ta)) (sort ids)),
             cr_revision = Some revision\<rparr>, s'\<lparr>ts_revision := revision\<rparr>)"
          "state_ok s'" "task_frame s s'" "map_of (ts_tasks s') a = Some t'" "set (td_blocked_by t') = set (sort ids)"
          "dep_edges s' = away a (dep_edges s) \<union> {a} \<times> set (sort ids)"
        have s: "distinct ids" "\<forall>b \<in> set ids. live_in s (td_batch ta) b"
          "\<forall>b \<in> set ids. (b, a) \<notin> (dep_edges s)\<^sup>*"
          using run(1) live ok(2) by simp_all
        show thesis
          by (rule that(3) [OF r(1) _ s r(3-5)]) (use eq ok(1) r(2,6,7) in simp_all)
      qed
    qed
  qed
qed

lemma good_replace_dependencies:
  assumes "state_ok s"
  shows "good_step s (replace_dependencies a ids now s)"
proof (cases "live_task s a")
  case None
  then show ?thesis using assms by (simp add: replace_dependencies_def good_step_err)
next
  case (Some ta)
  show ?thesis
  proof (rule replace_dependencies_cases [OF assms Some, of ids now])
    fix t' s' revision
    assume r: "reserve_revision s = Ok revision" "state_ok s'"
      "replace_dependencies a ids now s =
        (Ok \<lparr>cr_value = t',
             cr_events = map (TaskDependencyRemoved a) (filter (\<lambda>i. i \<notin> set ids) (td_blocked_by ta)) @
               map (TaskDependencyAdded a) (filter (\<lambda>i. i \<notin> set (td_blocked_by ta)) (sort ids)),
             cr_revision = Some revision\<rparr>, s'\<lparr>ts_revision := revision\<rparr>)"
    show ?thesis
      unfolding r(3) using good_step_commit [OF r(1,2), of "uncommitted t' _"]
      by (simp add: commit_def commit_result_def uncommitted_def)
  qed (use assms in \<open>simp_all add: good_step_err good_step_noop\<close>)
qed

text \<open>
  Deleting a task: every edge that touches it goes, on both of its ends, and the rest of the graph
  stays as it was. \<open>delete_task\<close> and \<open>delete_with_progress\<close> are good steps.
\<close>

section \<open>Isolating a node of the graph\<close>

definition isolated :: "task_id \<Rightarrow> task_map \<Rightarrow> task_map \<Rightarrow> bool" where
  "isolated i T T' \<longleftrightarrow>
     (\<forall>j. case T j of
        None \<Rightarrow> T' j = None
      | Some u \<Rightarrow> \<exists>u'. T' j = Some u' \<and> td_id u' = td_id u \<and> td_batch u' = td_batch u \<and> td_seq u' = td_seq u \<and>
          (if j = i then td_blocked_by u' = [] \<and> td_blocks u' = [] \<and> td_status u' = Deleted
           else td_blocked_by u' = filter (\<lambda>x. x \<noteq> i) (td_blocked_by u) \<and>
             td_blocks u' = filter (\<lambda>x. x \<noteq> i) (td_blocks u) \<and> td_status u' = td_status u))"

lemma isolatedD:
  assumes "isolated i T T'"
  shows "T' j = Some u' \<Longrightarrow> \<exists>u. T j = Some u \<and> td_id u' = td_id u \<and> td_batch u' = td_batch u \<and>
      td_seq u' = td_seq u \<and>
      (if j = i then td_blocked_by u' = [] \<and> td_blocks u' = [] \<and> td_status u' = Deleted
       else td_blocked_by u' = filter (\<lambda>x. x \<noteq> i) (td_blocked_by u) \<and>
         td_blocks u' = filter (\<lambda>x. x \<noteq> i) (td_blocks u) \<and> td_status u' = td_status u)"
    and "T j = Some u \<Longrightarrow> j \<noteq> i \<Longrightarrow> \<exists>u'. T' j = Some u' \<and> td_batch u' = td_batch u \<and>
      td_blocked_by u' = filter (\<lambda>x. x \<noteq> i) (td_blocked_by u) \<and>
      td_blocks u' = filter (\<lambda>x. x \<noteq> i) (td_blocks u) \<and> td_status u' = td_status u"
  using assms unfolding isolated_def by (auto dest!: spec [of _ j] split: option.splits)

lemma map_edges_isolated:
  assumes "isolated i T T'"
  shows "map_edges T' = {(x, y). (x, y) \<in> map_edges T \<and> x \<noteq> i \<and> y \<noteq> i}"
proof -
  have "(x, y) \<in> map_edges T' \<longleftrightarrow> (x, y) \<in> map_edges T \<and> x \<noteq> i \<and> y \<noteq> i" for x y
    using assms unfolding map_edges_def isolated_def
    by (auto dest!: spec [of _ x] split: option.splits if_splits)
  then show ?thesis by auto
qed

lemma deps_ok_isolated:
  assumes "deps_ok T" "isolated i T T'"
  shows "deps_ok T'"
proof -
  have l: "linked T" and a: "acyclic (map_edges T)" using assms(1) by (auto simp: deps_ok_def)
  have "linked T'"
    unfolding linked_def
  proof (intro allI impI)
    fix j u'
    assume u': "T' j = Some u'"
    obtain u where u: "T j = Some u" "td_batch u' = td_batch u"
      "if j = i then td_blocked_by u' = [] \<and> td_blocks u' = [] \<and> td_status u' = Deleted
       else td_blocked_by u' = filter (\<lambda>x. x \<noteq> i) (td_blocked_by u) \<and>
         td_blocks u' = filter (\<lambda>x. x \<noteq> i) (td_blocks u) \<and> td_status u' = td_status u"
      using isolatedD(1) [OF assms(2) u'] by blast
    note lu = linkedD [OF l u(1)]
    show "distinct (td_blocked_by u') \<and>
        sorted (td_blocks u') \<and> distinct (td_blocks u') \<and>
        (\<forall>k \<in> set (td_blocked_by u'). \<exists>x. T' k = Some x \<and> j \<in> set (td_blocks x) \<and>
           td_batch x = td_batch u' \<and> td_status u' \<noteq> Deleted \<and> td_status x \<noteq> Deleted) \<and>
        (\<forall>k \<in> set (td_blocks u'). \<exists>x. T' k = Some x \<and> j \<in> set (td_blocked_by x))"
    proof (cases "j = i")
      case False
      have "\<exists>x. T' k = Some x \<and> j \<in> set (td_blocks x) \<and>
           td_batch x = td_batch u' \<and> td_status u' \<noteq> Deleted \<and> td_status x \<noteq> Deleted"
        if "k \<in> set (td_blocked_by u)" "k \<noteq> i" for k
        using lu(4) [OF that(1)] isolatedD(2) [OF assms(2) _ that(2)] u False by force
      moreover have "\<exists>x. T' k = Some x \<and> j \<in> set (td_blocked_by x)"
        if "k \<in> set (td_blocks u)" "k \<noteq> i" for k
        using lu(5) [OF that(1)] isolatedD(2) [OF assms(2) _ that(2)] False by force
      ultimately show ?thesis
        using False u(3) lu(1-3) by (auto simp: sorted_wrt_filter)
    qed (use u(3) in simp)
  qed
  moreover have "acyclic (map_edges T')"
    using a by (rule acyclic_subset) (auto simp: map_edges_isolated [OF assms(2)])
  ultimately show ?thesis by (simp add: deps_ok_def)
qed

lemma state_ok_isolated:
  assumes "state_ok s" "isolated i (map_of (ts_tasks s)) (map_of (ts_tasks s'))"
    "hm_keys (ts_tasks s') = hm_keys (ts_tasks s)"
    "ts_batches s' = ts_batches s" "ts_next_task_id s' = ts_next_task_id s"
    "ts_next_batch_id s' = ts_next_batch_id s" "ts_current_batch s' = ts_current_batch s"
  shows "state_ok s'"
proof -
  have "td_id u' = j \<and> TaskIdData 0 < j \<and> j < ts_next_task_id s' \<and>
      map_of (ts_batches s') (td_batch u') \<noteq> None"
    if u': "map_of (ts_tasks s') j = Some u'" for j u'
    using isolatedD(1) [OF assms(2) u'] state_ok_task [OF assms(1), of j] assms(4,5) by fastforce
  then have "entities_ok s'"
    using assms(1,3-6) unfolding state_ok_def entities_ok_def by simp
  then show ?thesis
    using assms deps_ok_isolated [OF _ assms(2)] by (simp add: state_ok_def current_ok_def)
qed

section \<open>Deletion\<close>

lemma drop_lists [simp]:
  "td_blocked_by (drop_blocked_by ds now t) = filter (\<lambda>x. x \<notin> set ds) (td_blocked_by t)"
  "td_blocks (drop_blocked_by ds now t) = td_blocks t"
  "td_id (drop_blocked_by ds now t) = td_id t"
  "td_batch (drop_blocked_by ds now t) = td_batch t"
  "td_seq (drop_blocked_by ds now t) = td_seq t"
  "td_blocks (drop_blocks ds now t) = filter (\<lambda>x. x \<notin> set ds) (td_blocks t)"
  "td_blocked_by (drop_blocks ds now t) = td_blocked_by t"
  "td_id (drop_blocks ds now t) = td_id t"
  "td_batch (drop_blocks ds now t) = td_batch t"
  "td_seq (drop_blocks ds now t) = td_seq t"
  by (induction ds arbitrary: t) (simp_all add: conj_commute)

lemma filter_notin_self [simp]: "filter (\<lambda>x. x \<notin> set xs) xs = []"
  by simp

lemma td_mark_deleted_sel [simp]:
  "td_blocked_by (td_mark_deleted now t) = td_blocked_by t"
  "td_blocks (td_mark_deleted now t) = td_blocks t"
  "td_id (td_mark_deleted now t) = td_id t"
  "td_batch (td_mark_deleted now t) = td_batch t"
  "td_seq (td_mark_deleted now t) = td_seq t"
  "td_status (td_mark_deleted now t) = Deleted"
  by (simp_all add: td_mark_deleted_def)

text \<open>Every way deleting a task of the store ends.\<close>

lemma delete_task_cases:
  assumes "state_ok s" "map_of (ts_tasks s) i = Some t"
  obtains "td_status t = Deleted" "delete_task i now s = (Ok (uncommitted t []), s)"
  | "td_status t \<noteq> Deleted" "reserve_revision s = Err RevisionExhausted"
      "delete_task i now s = (Err RevisionExhausted, s)"
  | t' s' revision where "td_status t \<noteq> Deleted" "reserve_revision s = Ok revision"
      "delete_task i now s =
        (Ok \<lparr>cr_value = t', cr_events = [TaskDeleted i], cr_revision = Some revision\<rparr>,
         s'\<lparr>ts_revision := revision\<rparr>)"
      "map_of (ts_tasks s') i = Some t'" "isolated i (map_of (ts_tasks s)) (map_of (ts_tasks s'))"
      "hm_keys (ts_tasks s') = hm_keys (ts_tasks s)" "ts_batches s' = ts_batches s"
      "ts_current_batch s' = ts_current_batch s" "state_ok s'"
proof (cases "td_status t = Deleted")
  case False
  note l = linkedD [OF state_ok_linked [OF assms(1)] assms(2)]
  have ni: "i \<notin> set (td_blocked_by t)" "i \<notin> set (td_blocks t)"
    using state_ok_no_self(1) [OF assms(1)] assms(2) l(5) [of i] by blast+
  have "modify_tasks (td_blocked_by t) (td_remove_blocks i now) s \<noteq> None"
    using l(4) unfolding modify_tasks_None_iff by fastforce
  then obtain s1 where s1: "modify_tasks (td_blocked_by t) (td_remove_blocks i now) s = Some s1"
    by blast
  note m1 = modify_tasks_lookup [OF s1 l(1)]
  have "map_of (ts_tasks s1) j \<noteq> None" if "j \<in> set (td_blocks t)" for j
    using l(5) [OF that] by (auto simp: m1)
  then have "modify_tasks (td_blocks t) (td_remove_blocked_by i now) s1 \<noteq> None"
    unfolding modify_tasks_None_iff by blast
  then obtain s2 where s2: "modify_tasks (td_blocks t) (td_remove_blocked_by i now) s1 = Some s2"
    by blast
  note m2 = modify_tasks_lookup [OF s2 l(3)]
  have t: "map_of (ts_tasks s2) i = Some t" using ni assms(2) by (simp add: m1 m2)
  define t' where "t' = td_mark_deleted now
    (drop_blocks (td_blocks t) now (drop_blocked_by (td_blocked_by t) now t))"
  let ?s = "put_task i t' s2"
  note f1 = modify_tasks_frame [OF s1] and f2 = modify_tasks_frame [OF s2]
  have keys: "hm_keys (ts_tasks ?s) = hm_keys (ts_tasks s)"
    using t modify_tasks_keys [OF s1] modify_tasks_keys [OF s2]
    by (simp add: hm_keys_insert_present)
  have iso: "isolated i (map_of (ts_tasks s)) (map_of (ts_tasks ?s))"
    unfolding isolated_def
  proof
    fix j
    show "case map_of (ts_tasks s) j of
        None \<Rightarrow> map_of (ts_tasks ?s) j = None
      | Some u \<Rightarrow> \<exists>u'. map_of (ts_tasks ?s) j = Some u' \<and> td_id u' = td_id u \<and> td_batch u' = td_batch u \<and>
          td_seq u' = td_seq u \<and>
          (if j = i then td_blocked_by u' = [] \<and> td_blocks u' = [] \<and> td_status u' = Deleted
           else td_blocked_by u' = filter (\<lambda>x. x \<noteq> i) (td_blocked_by u) \<and>
             td_blocks u' = filter (\<lambda>x. x \<noteq> i) (td_blocks u) \<and> td_status u' = td_status u)"
    proof (cases "map_of (ts_tasks s) j")
      case None
      then show ?thesis using assms(2) by (cases "i = j") (auto simp: hmap_simps m1 m2)
    next
      case (Some u)
      note lu = linkedD(4,5) [OF state_ok_linked [OF assms(1)] Some]
      have "j \<in> set (td_blocks t)" if "i \<in> set (td_blocked_by u)"
        using lu(1) [OF that] assms(2) by auto
      moreover have "j \<in> set (td_blocked_by t)" if "i \<in> set (td_blocks u)"
        using lu(2) [OF that] assms(2) by auto
      ultimately have
        "j \<notin> set (td_blocks t) \<Longrightarrow> filter (\<lambda>x. x \<noteq> i) (td_blocked_by u) = td_blocked_by u"
        "j \<notin> set (td_blocked_by t) \<Longrightarrow> filter (\<lambda>x. x \<noteq> i) (td_blocks u) = td_blocks u"
        by (blast intro: filter_neq_eq_self)+
      then show ?thesis
        using Some assms(2) by (cases "i = j") (auto simp: hmap_simps m1 m2 t'_def)
    qed
  qed
  have ok: "state_ok ?s"
    by (rule state_ok_isolated [OF assms(1) iso keys]) (simp_all add: f1 f2)
  have eq: "delete_task i now s = with_revision s
      (\<lambda>revision. commit (uncommitted t' [TaskDeleted i]) revision ?s)"
    using assms(2) False s1 s2 t by (simp add: delete_task_def t'_def Let_def)
  show thesis
  proof (cases "reserve_revision s")
    case (Ok revision)
    have "delete_task i now s =
        (Ok \<lparr>cr_value = t', cr_events = [TaskDeleted i], cr_revision = Some revision\<rparr>,
         ?s\<lparr>ts_revision := revision\<rparr>)"
      using eq Ok by (simp add: with_revision_def commit_def commit_result_def uncommitted_def)
    then show thesis
      by (rule that(3) [OF False Ok _ _ iso keys _ _ ok]) (simp_all add: f1 f2 hmap_simps)
  next
    case (Err e)
    then have "reserve_revision s = Err RevisionExhausted"
      using reserve_revision_cases [of s "e = RevisionExhausted"] by auto
    then show thesis using that(2) False eq by (simp add: with_revision_def)
  qed simp
next
  case True
  have "delete_task i now s = (Ok (uncommitted t []), s)"
    unfolding delete_task_def assms(2) option.case True by simp
  with True show thesis by (rule that(1))
qed

lemma good_delete_task:
  assumes "state_ok s"
  shows "good_step s (delete_task i now s)"
proof (cases "map_of (ts_tasks s) i")
  case None
  then show ?thesis using assms by (simp add: delete_task_def good_step_err)
next
  case (Some t)
  show ?thesis
  proof (rule delete_task_cases [OF assms Some, of now])
    fix t' s' revision
    assume r: "reserve_revision s = Ok revision" "state_ok s'"
      "delete_task i now s =
        (Ok \<lparr>cr_value = t', cr_events = [TaskDeleted i], cr_revision = Some revision\<rparr>,
         s'\<lparr>ts_revision := revision\<rparr>)"
    show ?thesis
      unfolding r(3) using good_step_commit [OF r(1,2), of "uncommitted t' _"]
      by (simp add: commit_def commit_result_def uncommitted_def)
  qed (use assms in \<open>simp_all add: good_step_err good_step_noop\<close>)
qed

lemma good_delete_with_progress:
  assumes "state_ok s"
  shows "good_step s (delete_with_progress i now s)"
proof (cases "map_of (ts_tasks s) i")
  case None
  then show ?thesis using assms by (simp add: delete_with_progress_def good_step_err)
next
  case (Some t)
  obtain r s1 where d: "delete_task i now s = (r, s1)" by (meson surj_pair)
  have keys: "hm_keys (ts_tasks s1) = hm_keys (ts_tasks s) \<and> ts_batches s1 = ts_batches s"
    by (rule delete_task_cases [OF assms Some, of now]) (use d in auto)
  have ok: "state_ok s1" "r \<noteq> Panic"
    using good_delete_task [OF assms, of i now] d by (auto simp: good_step_def contract_def)
  obtain f s2 where s2: "auto_close (td_batch t) s1 = (Ok f, s2)" "state_ok s2"
    "ts_tasks s2 = ts_tasks s1" "hm_keys (ts_batches s2) = hm_keys (ts_batches s1)"
    using auto_close_ok [OF ok(1)] by blast
  obtain b where b: "map_of (ts_batches s) (td_batch t) = Some b"
    using state_ok_task(4) [OF assms Some] by blast
  have def: "map_of (ts_batches s2) (td_batch t) \<noteq> None" "map_of (ts_tasks s2) i \<noteq> None"
    using hm_keys_present [of "ts_batches s2" "ts_batches s" "td_batch t"]
      hm_keys_present [of "ts_tasks s2" "ts_tasks s" i] s2 keys b Some by auto
  have "good_step s (case delete_task i now s of
            (Err e, _) \<Rightarrow> (Err e, s)
          | (Panic, _) \<Rightarrow> (Panic, s)
          | (Ok task_result, s1) \<Rightarrow>
              (case auto_close (td_batch t) s1 of
                 (Err e, _) \<Rightarrow> (Err e, s)
               | (Panic, _) \<Rightarrow> (Panic, s)
               | (Ok auto_closed, s2) \<Rightarrow>
                   finish_progress s s2 (td_batch t) i auto_closed False
                     (cr_events task_result) revision))"
    if "reserve_revision s = Ok revision" for revision
    using d s2 ok good_finish_progress [OF s2(2) that def] assms
    by (cases r) (simp_all add: good_step_err)
  then show ?thesis
    unfolding delete_with_progress_def using Some assms
    by (simp add: good_step_with_revision)
qed

end
