(* ===== verification/Task_Store.thy ===== *)
theory Task_Store
  imports Task_Replace
begin

text \<open>
  \<open>TaskStore\<close> (\<open>agent/features/task/src/adapters/store.rs\<close>): the aggregate behind one mutex. Each
  method takes the lock, runs one aggregate method and releases it, so a concurrent history is a
  sequence of commands. \<open>exec_command\<close> is the dispatch of the methods that take \<open>&mut\<close>; the locale
  \<open>transactional\<close> states what a caller of the store may rely on and proves its consequences for whole
  histories; it is interpreted on \<open>exec_command\<close> below.
\<close>

section \<open>Commands and replies\<close>

datatype task_command =
    CmdClear
  | CmdCreateBatch batch_create_spec u64
  | CmdArchiveBatch batch_id
  | CmdPauseBatch batch_id
  | CmdResumeBatch batch_id
  | CmdRecordBatchTurn batch_id u64 bool
  | CmdCreateTask task_create_spec u64
  | CmdTransition task_id task_status u64
  | CmdTransitionWithProgress task_id task_status u64
  | CmdSetSubject task_id ustr u64
  | CmdSetDescription task_id ustr u64
  | CmdSetPriority task_id task_priority u64
  | CmdAddTag task_id ustr u64
  | CmdRemoveTag task_id ustr u64
  | CmdAddDependency task_id task_id u64
  | CmdRemoveDependency task_id task_id u64
  | CmdReplaceDependencies task_id "task_id list" u64
  | CmdDelete task_id u64
  | CmdDeleteWithProgress task_id u64

datatype task_reply =
    ReplyUnit
  | ReplyBatch batch_data
  | ReplyTask task_data
  | ReplyProgress task_progress_snapshot

definition map_reply :: "('a \<Rightarrow> 'b) \<Rightarrow> 'a task_outcome \<Rightarrow> 'b task_outcome" where
  "map_reply f res =
     (case res of
        (Ok r, s) \<Rightarrow>
          (Ok \<lparr>cr_value = f (cr_value r), cr_events = cr_events r, cr_revision = cr_revision r\<rparr>, s)
      | (Err e, s) \<Rightarrow> (Err e, s)
      | (Panic, s) \<Rightarrow> (Panic, s))"

fun exec_command :: "task_command \<Rightarrow> task_store_state \<Rightarrow> task_reply task_outcome" where
  "exec_command CmdClear s = map_reply (\<lambda>_. ReplyUnit) (clear_store s)"
| "exec_command (CmdCreateBatch spec now) s = map_reply ReplyBatch (create_batch spec now s)"
| "exec_command (CmdArchiveBatch b) s = map_reply ReplyBatch (archive_batch b s)"
| "exec_command (CmdPauseBatch b) s = map_reply ReplyBatch (pause_batch b s)"
| "exec_command (CmdResumeBatch b) s = map_reply ReplyBatch (resume_batch b s)"
| "exec_command (CmdRecordBatchTurn b turn active) s =
     map_reply ReplyBatch (record_batch_turn b turn active s)"
| "exec_command (CmdCreateTask spec now) s = map_reply ReplyTask (create_task spec now s)"
| "exec_command (CmdTransition i to now) s = map_reply ReplyTask (transition i to now s)"
| "exec_command (CmdTransitionWithProgress i to now) s =
     map_reply ReplyProgress (transition_with_progress i to now s)"
| "exec_command (CmdSetSubject i x now) s = map_reply ReplyTask (set_subject i x now s)"
| "exec_command (CmdSetDescription i x now) s = map_reply ReplyTask (set_description i x now s)"
| "exec_command (CmdSetPriority i p now) s = map_reply ReplyTask (set_priority i p now s)"
| "exec_command (CmdAddTag i x now) s = map_reply ReplyTask (add_tag i x now s)"
| "exec_command (CmdRemoveTag i x now) s = map_reply ReplyTask (remove_tag i x now s)"
| "exec_command (CmdAddDependency i j now) s = map_reply ReplyTask (add_dependency i j now s)"
| "exec_command (CmdRemoveDependency i j now) s = map_reply ReplyTask (remove_dependency i j now s)"
| "exec_command (CmdReplaceDependencies i js now) s =
     map_reply ReplyTask (replace_dependencies i js now s)"
| "exec_command (CmdDelete i now) s = map_reply ReplyTask (delete_task i now s)"
| "exec_command (CmdDeleteWithProgress i now) s =
     map_reply ReplyProgress (delete_with_progress i now s)"

text \<open>The state after a command, whatever it returned: what the next holder of the lock sees.\<close>

definition step_store :: "task_command \<Rightarrow> task_store_state \<Rightarrow> task_store_state" where
  "step_store c s = snd (exec_command c s)"

definition run_store :: "task_command list \<Rightarrow> task_store_state \<Rightarrow> task_store_state" where
  "run_store cs s = fold step_store cs s"

lemma good_map_reply: "good_step s res \<Longrightarrow> good_step s (map_reply f res)"
  by (cases res; cases "fst res") (auto simp: map_reply_def good_step_def contract_def)

lemma good_exec_command: "state_ok s \<Longrightarrow> good_step s (exec_command c s)"
  by (cases c)
    (simp_all add: good_map_reply good_clear_store good_create_batch good_archive_batch
      good_pause_batch good_resume_batch good_record_batch_turn good_create_task good_transition
      good_transition_with_progress good_set_subject good_set_description good_set_priority
      good_add_tag good_remove_tag good_add_dependency good_remove_dependency
      good_replace_dependencies good_delete_task good_delete_with_progress)

section \<open>What a client of a transactional store may rely on\<close>

locale transactional =
  fixes step :: "'c \<Rightarrow> 's \<Rightarrow> 's"
    and rev :: "'s \<Rightarrow> nat"
    and inv :: "'s \<Rightarrow> bool"
  assumes step_inv: "inv s \<Longrightarrow> inv (step c s)"
    and step_rev: "inv s \<Longrightarrow> step c s = s \<or> rev (step c s) = Suc (rev s)"
begin

lemma inv_fold: "inv s \<Longrightarrow> inv (fold step cs s)"
  by (induction cs arbitrary: s) (auto intro: step_inv)

lemma rev_fold: "inv s \<Longrightarrow> rev s \<le> rev (fold step cs s) \<and> rev (fold step cs s) \<le> rev s + length cs"
proof (induction cs arbitrary: s)
  case (Cons c cs)
  have "rev s \<le> rev (step c s)" "rev (step c s) \<le> Suc (rev s)"
    using step_rev [OF Cons.prems, of c] by auto
  with Cons.IH [OF step_inv [OF Cons.prems, of c]] show ?case by simp
qed simp

text \<open>Reading the same revision twice is reading the same state: the revision is a change stamp.\<close>

lemma same_rev_same_state:
  "inv s \<Longrightarrow> rev (fold step cs s) = rev s \<Longrightarrow> fold step cs s = s"
proof (induction cs arbitrary: s)
  case (Cons c cs)
  have m: "rev (step c s) \<le> rev (fold step (c # cs) s)"
    using rev_fold [OF step_inv [OF Cons.prems(1), of c], of cs] by simp
  from step_rev [OF Cons.prems(1), of c] m Cons.prems(2) have "step c s = s" by auto
  with Cons show ?case by simp
qed simp

end

lemma step_store_rev:
  assumes "state_ok s"
  shows "step_store c s = s \<or>
    unat (task_revision_get (ts_revision (step_store c s))) =
      Suc (unat (task_revision_get (ts_revision s)))"
  using good_exec_command [OF assms, of c] checked_add_unat
  unfolding good_step_def contract_def step_store_def
  by (fastforce split: outcome.splits)

interpretation store: transactional step_store revision_nat state_ok
proof
  fix s c
  assume "state_ok s"
  then show "state_ok (step_store c s)"
    using good_exec_command unfolding step_store_def good_step_def by blast
  from \<open>state_ok s\<close> show "step_store c s = s \<or> revision_nat (step_store c s) = Suc (revision_nat s)"
    by (rule step_store_rev)
qed

end
