(* ===== verification/Kahn.thy ===== *)
theory Kahn
  imports Prelude
begin

text \<open>
  Kahn's algorithm as \<open>dependency_graph_has_cycle\<close> writes it
  (\<open>agent/features/task/src/domain/snapshot.rs\<close>): nodes are indices, \<open>deps ! x\<close> lists what \<open>x\<close> depends
  on, counters are decremented, and a node is stacked when its counter reaches zero. \<open>None\<close> is the
  panic of an index out of range or of a counter that would go below zero. \<open>kahn_correct\<close>: on an input
  whose lists are duplicate free and in range there is no panic, and the answer is exact.
\<close>

section \<open>The algorithm\<close>

fun push_dependents :: "nat \<Rightarrow> nat list \<Rightarrow> nat list list \<Rightarrow> nat list list option" where
  "push_dependents x [] D = Some D"
| "push_dependents x (d # ds) D =
     (if d < length D then push_dependents x ds (D[d := D ! d @ [x]]) else None)"

fun build_dependents :: "nat \<Rightarrow> nat list list \<Rightarrow> nat list list \<Rightarrow> nat list list option" where
  "build_dependents x [] D = Some D"
| "build_dependents x (ds # dss) D =
     (case push_dependents x ds D of
        None \<Rightarrow> None
      | Some D' \<Rightarrow> build_dependents (x + 1) dss D')"

fun kahn_visit :: "nat list \<Rightarrow> nat list \<Rightarrow> nat list \<Rightarrow> (nat list \<times> nat list) option" where
  "kahn_visit [] remaining ready = Some (remaining, ready)"
| "kahn_visit (d # ds) remaining ready =
     (if d < length remaining \<and> 0 < remaining ! d then
        let remaining' = remaining[d := remaining ! d - 1]
        in kahn_visit ds remaining' (if remaining' ! d = 0 then d # ready else ready)
      else None)"

lemma kahn_visit_measure:
  "kahn_visit ds remaining ready = Some (remaining', ready') \<Longrightarrow>
   2 * sum_list remaining' + length ready' \<le> 2 * sum_list remaining + length ready"
proof (induction ds remaining ready rule: kahn_visit.induct)
  case (2 d ds remaining ready)
  then have d: "d < length remaining" "0 < remaining ! d" by (auto split: if_splits)
  have "sum_list (remaining[d := remaining ! d - 1]) + 1 = sum_list remaining"
    using d elem_le_sum_list [OF d(1)] by (simp add: sum_list_update)
  with 2 d show ?case by (fastforce simp: Let_def split: if_splits)
qed simp

function kahn_loop :: "nat list list \<Rightarrow> nat list \<Rightarrow> nat list \<Rightarrow> nat \<Rightarrow> nat option" where
  "kahn_loop D remaining [] visited = Some visited"
| "kahn_loop D remaining (i # ready) visited =
     (if i < length D then
        (case kahn_visit (D ! i) remaining ready of
           None \<Rightarrow> None
         | Some (remaining', ready') \<Rightarrow> kahn_loop D remaining' ready' (visited + 1))
      else None)"
  by pat_completeness auto

termination
  by (relation "measure (\<lambda>(D, remaining, ready, v). 2 * sum_list remaining + length ready)")
    (auto dest!: kahn_visit_measure)

definition kahn_has_cycle :: "nat list list \<Rightarrow> bool option" where
  "kahn_has_cycle deps =
     (let n = length deps; remaining = map length deps
      in case build_dependents 0 deps (replicate n []) of
           None \<Rightarrow> None
         | Some D \<Rightarrow>
             map_option (\<lambda>visited. visited \<noteq> n)
               (kahn_loop D remaining (rev (filter (\<lambda>i. remaining ! i = 0) [0..<n])) 0))"

section \<open>The dependents lists\<close>

definition index_deps_ok :: "nat list list \<Rightarrow> bool" where
  "index_deps_ok deps \<longleftrightarrow> (\<forall>ds \<in> set deps. distinct ds \<and> set ds \<subseteq> {..<length deps})"

definition index_rel :: "nat list list \<Rightarrow> (nat \<times> nat) set" where
  "index_rel deps = {(x, d). x < length deps \<and> d \<in> set (deps ! x)}"

lemma push_dependents_result:
  "set ds \<subseteq> {..<length D} \<Longrightarrow> distinct ds \<Longrightarrow>
   push_dependents x ds D = Some (map (\<lambda>k. D ! k @ (if k \<in> set ds then [x] else [])) [0..<length D])"
proof (induction ds arbitrary: D)
  case Nil
  then show ?case by (simp add: map_nth)
next
  case (Cons d ds)
  let ?D = "D[d := D ! d @ [x]]"
  have "push_dependents x ds ?D =
      Some (map (\<lambda>k. ?D ! k @ (if k \<in> set ds then [x] else [])) [0..<length ?D])"
    using Cons.prems by (intro Cons.IH) auto
  also have "map (\<lambda>k. ?D ! k @ (if k \<in> set ds then [x] else [])) [0..<length ?D] =
      map (\<lambda>k. D ! k @ (if k \<in> set (d # ds) then [x] else [])) [0..<length D]"
    using Cons.prems by (auto simp: nth_list_update)
  finally show ?case using Cons.prems by simp
qed

lemma build_dependents_result:
  assumes "\<forall>ds \<in> set deps. set ds \<subseteq> {..<length D} \<and> distinct ds"
  shows "build_dependents x deps D = Some (map
    (\<lambda>k. D ! k @ filter (\<lambda>y. k \<in> set (deps ! (y - x))) [x..<x + length deps]) [0..<length D])"
  using assms
proof (induction deps arbitrary: x D)
  case Nil
  then show ?case by (simp add: map_nth)
next
  case (Cons ds deps)
  let ?D = "map (\<lambda>k. D ! k @ (if k \<in> set ds then [x] else [])) [0..<length D]"
  have "push_dependents x ds D = Some ?D"
    using Cons.prems by (intro push_dependents_result) auto
  moreover have "build_dependents (x + 1) deps ?D = Some (map
      (\<lambda>k. ?D ! k @ filter (\<lambda>y. k \<in> set (deps ! (y - (x + 1)))) [x + 1..<x + 1 + length deps])
      [0..<length ?D])"
    using Cons.prems by (intro Cons.IH) auto
  moreover have "filter (\<lambda>y. k \<in> set ((ds # deps) ! (y - x))) [x..<x + length (ds # deps)] =
      (if k \<in> set ds then [x] else []) @
      filter (\<lambda>y. k \<in> set (deps ! (y - (x + 1)))) [x + 1..<x + 1 + length deps]" for k
  proof -
    have "[x..<x + length (ds # deps)] = x # [x + 1..<x + 1 + length deps]"
      by (rule trans [OF upt_conv_Cons]) auto
    moreover have "filter (\<lambda>y. k \<in> set ((ds # deps) ! (y - x))) [x + 1..<x + 1 + length deps] =
        filter (\<lambda>y. k \<in> set (deps ! (y - (x + 1)))) [x + 1..<x + 1 + length deps]"
      by (rule filter_cong) (auto simp: nth_Cons')
    ultimately show ?thesis by simp
  qed
  ultimately show ?case by simp
qed

section \<open>The loop\<close>

lemma kahn_visit_result:
  assumes "distinct ds" "\<forall>d \<in> set ds. d < length remaining \<and> 0 < remaining ! d"
  shows "kahn_visit ds remaining ready = Some
    (map (\<lambda>k. if k \<in> set ds then remaining ! k - 1 else remaining ! k) [0..<length remaining],
     rev (filter (\<lambda>d. remaining ! d = 1) ds) @ ready)"
  using assms
proof (induction ds arbitrary: remaining ready)
  case Nil
  then show ?case by (simp add: map_nth)
next
  case (Cons d ds)
  let ?r = "remaining[d := remaining ! d - 1]"
  let ?ready = "if remaining ! d = 1 then d # ready else ready"
  have same: "?r ! k = remaining ! k" if "k \<in> set ds" for k
    using Cons.prems(1) that by (cases "k = d") auto
  have "kahn_visit ds ?r ?ready = Some
    (map (\<lambda>k. if k \<in> set ds then ?r ! k - 1 else ?r ! k) [0..<length ?r],
     rev (filter (\<lambda>d. ?r ! d = 1) ds) @ ?ready)"
    using Cons.prems same by (intro Cons.IH) auto
  moreover have "map (\<lambda>k. if k \<in> set ds then ?r ! k - 1 else ?r ! k) [0..<length ?r] =
      map (\<lambda>k. if k \<in> set (d # ds) then remaining ! k - 1 else remaining ! k) [0..<length remaining]"
    using Cons.prems by (auto simp: nth_list_update)
  moreover have "filter (\<lambda>k. ?r ! k = 1) ds = filter (\<lambda>k. remaining ! k = 1) ds"
    by (rule filter_cong) (simp_all add: same [unfolded One_nat_def])
  moreover have "(if ?r ! d = 0 then d # ready else ready) = ?ready"
    using Cons.prems(2) by auto
  ultimately show ?case
    using Cons.prems by (simp add: Let_def)
qed

text \<open>The visited nodes, most recent first, are a topological order.\<close>

fun topological :: "nat list list \<Rightarrow> nat list \<Rightarrow> bool" where
  "topological deps [] = True"
| "topological deps (v # vs) = (set (deps ! v) \<subseteq> set vs \<and> v \<notin> set vs \<and> topological deps vs)"

lemma topological_rank:
  assumes "topological deps vs" "x \<in> set vs" "d \<in> set (deps ! x)"
  shows "length (dropWhile (\<lambda>y. y \<noteq> d) vs) < length (dropWhile (\<lambda>y. y \<noteq> x) vs)"
  using assms
proof (induction vs)
  case (Cons v vs)
  show ?case
  proof (cases "x = v")
    case True
    with Cons.prems have "d \<in> set vs" "d \<noteq> v" by auto
    then show ?thesis using True length_dropWhile_le [of "\<lambda>y. y \<noteq> d" vs] by simp
  next
    case False
    then have "x \<in> set vs" "topological deps vs" "v \<notin> set vs" using Cons.prems by auto
    have "d \<noteq> v"
    proof -
      have "set (deps ! y) \<subseteq> set ws" if "topological deps ws" "y \<in> set ws" for y ws
        using that by (induction ws) auto
      then show ?thesis using \<open>x \<in> set vs\<close> \<open>topological deps vs\<close> \<open>v \<notin> set vs\<close> Cons.prems(3) by blast
    qed
    with False Cons \<open>x \<in> set vs\<close> \<open>topological deps vs\<close> show ?thesis by simp
  qed
qed simp

lemma topological_acyclic:
  assumes "topological deps vs" "{..<length deps} \<subseteq> set vs"
  shows "acyclic (index_rel deps)"
proof (rule acyclicI_order [where f = "\<lambda>x. length (dropWhile (\<lambda>y. y \<noteq> x) vs)"])
  fix x d
  assume "(x, d) \<in> index_rel deps"
  then show "length (dropWhile (\<lambda>y. y \<noteq> d) vs) < length (dropWhile (\<lambda>y. y \<noteq> x) vs)"
    using assms by (intro topological_rank) (auto simp: index_rel_def)
qed

definition kahn_inv :: "nat list list \<Rightarrow> nat list \<Rightarrow> nat list \<Rightarrow> nat list \<Rightarrow> bool" where
  "kahn_inv deps remaining ready vs \<longleftrightarrow>
     length remaining = length deps \<and> distinct ready \<and> set ready \<inter> set vs = {} \<and>
     set vs \<subseteq> {..<length deps} \<and> set ready \<subseteq> {..<length deps} \<and> topological deps vs \<and>
     (\<forall>x < length deps. remaining ! x = card (set (deps ! x) - set vs)) \<and>
     (\<forall>x < length deps. remaining ! x = 0 \<longleftrightarrow> x \<in> set vs \<union> set ready)"

lemma topological_distinct: "topological deps vs \<Longrightarrow> distinct vs"
  by (induction vs) auto


lemma kahn_inv_step:
  assumes "kahn_inv deps remaining (i # ready) vs" "index_deps_ok deps"
  defines "D \<equiv> filter (\<lambda>x. i \<in> set (deps ! x)) [0..<length deps]"
  obtains remaining' ready' where "kahn_visit D remaining ready = Some (remaining', ready')"
    "kahn_inv deps remaining' ready' (i # vs)"
proof -
  note inv = assms(1) [unfolded kahn_inv_def]
  have i: "i < length deps" "i \<notin> set vs" "i \<notin> set ready" using inv by auto
  have rem_i: "set (deps ! i) \<subseteq> set vs"
  proof -
    have "card (set (deps ! i) - set vs) = 0"
      using inv i(1) by (metis UnI2 list.set_intros(1))
    then show ?thesis by simp
  qed
  have pos: "x < length deps \<and> 0 < remaining ! x" if "x \<in> set D" for x
  proof -
    have x: "x < length deps" "i \<in> set (deps ! x) - set vs" using that i(2) by (auto simp: D_def)
    then have "0 < card (set (deps ! x) - set vs)" by (metis List.finite_set card_gt_0_iff empty_iff finite_Diff)
    with x inv show ?thesis by simp
  qed
  let ?rem = "map (\<lambda>k. if k \<in> set D then remaining ! k - 1 else remaining ! k) [0..<length remaining]"
  let ?ready = "rev (filter (\<lambda>d. remaining ! d = 1) D) @ ready"
  have visit: "kahn_visit D remaining ready = Some (?rem, ?ready)"
    using pos inv by (intro kahn_visit_result) (auto simp: D_def)
  have count: "?rem ! x = card (set (deps ! x) - set (i # vs))" if x: "x < length deps" for x
  proof (cases "i \<in> set (deps ! x)")
    case True
    have "set (deps ! x) - set (i # vs) = (set (deps ! x) - set vs) - {i}" by auto
    with True x inv i(2) show ?thesis by (simp add: D_def card_Diff_singleton)
  next
    case False
    then have "set (deps ! x) - set (i # vs) = set (deps ! x) - set vs" by auto
    with False x inv show ?thesis by (simp add: D_def)
  qed
  have zero: "?rem ! x = 0 \<longleftrightarrow> x \<in> set (i # vs) \<union> set ?ready" if x: "x < length deps" for x
  proof (cases "x \<in> set D")
    case True
    then have "remaining ! x \<noteq> 0" using pos by auto
    then have "x \<notin> set vs \<union> set (i # ready)" using inv x by metis
    with True x inv \<open>remaining ! x \<noteq> 0\<close> show ?thesis by auto
  next
    case False
    then have "?rem ! x = remaining ! x" "x \<in> set ?ready \<longleftrightarrow> x \<in> set ready"
      using x inv by auto
    moreover have "remaining ! x = 0 \<longleftrightarrow> x \<in> set vs \<union> set (i # ready)" using inv x by blast
    ultimately show ?thesis by auto
  qed
  have fresh: "x \<notin> set vs \<union> set (i # ready)" if "x \<in> set D" for x
    using inv pos [OF that] by (metis less_numeral_extra(3))
  have "distinct D" "set D \<subseteq> {..<length deps}" by (auto simp: D_def)
  then have "distinct ?ready" "set ?ready \<inter> set (i # vs) = {}" "set ?ready \<subseteq> {..<length deps}"
    using fresh inv i by auto
  moreover have "topological deps (i # vs)" "length ?rem = length deps" "set (i # vs) \<subseteq> {..<length deps}"
    using inv i rem_i by auto
  ultimately have "kahn_inv deps ?rem ?ready (i # vs)"
    unfolding kahn_inv_def using count zero by blast
  with visit that show thesis by blast
qed

text \<open>The loop visits every node exactly when the relation has no cycle.\<close>

lemma kahn_loop_correct:
  assumes "kahn_inv deps remaining ready vs" "index_deps_ok deps"
    and "\<forall>i < length deps. D ! i = filter (\<lambda>x. i \<in> set (deps ! x)) [0..<length deps]"
    and "length D = length deps"
  shows "\<exists>n. kahn_loop D remaining ready (length vs) = Some n \<and>
    (n = length deps \<longleftrightarrow> acyclic (index_rel deps))"
  using assms(1)
proof (induction "2 * sum_list remaining + length ready" arbitrary: remaining ready vs
    rule: less_induct)
  case less
  note inv = less.prems [unfolded kahn_inv_def]
  have len: "card (set vs) = length vs"
    using topological_distinct distinct_card inv by blast
  show ?case
  proof (cases ready)
    case Nil
    have "length vs = length deps \<longleftrightarrow> {..<length deps} \<subseteq> set vs"
    proof
      assume "length vs = length deps"
      then have "set vs = {..<length deps}"
        using inv len by (intro card_subset_eq) auto
      then show "{..<length deps} \<subseteq> set vs" by simp
    next
      assume "{..<length deps} \<subseteq> set vs"
      then have "set vs = {..<length deps}" using inv by auto
      then show "length vs = length deps" using len by simp
    qed
    moreover have "{..<length deps} \<subseteq> set vs" if ac: "acyclic (index_rel deps)"
    proof (rule ccontr)
      let ?W = "{..<length deps} - set vs"
      assume "\<not> {..<length deps} \<subseteq> set vs"
      then have "?W \<noteq> {}" by blast
      have "index_rel deps \<subseteq> {..<length deps} \<times> {..<length deps}"
        using assms(2) by (fastforce simp: index_rel_def index_deps_ok_def)
      then have "finite (index_rel deps)" by (rule finite_subset) simp
      then have wf: "wf ((index_rel deps)\<inverse>)" using ac by (rule finite_acyclic_wf_converse)
      obtain x where x: "x \<in> ?W" "\<And>y. (y, x) \<in> (index_rel deps)\<inverse> \<Longrightarrow> y \<notin> ?W"
        using wfE_min' [OF wf \<open>?W \<noteq> {}\<close>] by blast
      have "x < length deps" "x \<notin> set vs \<union> set ready" using x(1) Nil by simp_all
      then have "remaining ! x \<noteq> 0" "remaining ! x = card (set (deps ! x) - set vs)"
        using inv by blast+
      then have "card (set (deps ! x) - set vs) \<noteq> 0" by (simp only: not_False_eq_True)
      then have "set (deps ! x) - set vs \<noteq> {}" by (metis card.empty)
      then obtain d where d: "d \<in> set (deps ! x)" "d \<notin> set vs" by blast
      then have "(d, x) \<in> (index_rel deps)\<inverse>" using x(1) by (simp add: index_rel_def)
      moreover have "d < length deps"
        using d(1) x(1) assms(2) unfolding index_deps_ok_def by fastforce
      ultimately show False using x(2) d(2) by blast
    qed
    moreover have "acyclic (index_rel deps)" if "{..<length deps} \<subseteq> set vs"
      using topological_acyclic that inv by blast
    ultimately show ?thesis using Nil by auto
  next
    case (Cons i rest)
    then have i: "i < length deps" using inv by auto
    obtain remaining' ready' where
      v: "kahn_visit (D ! i) remaining rest = Some (remaining', ready')" and
      inv': "kahn_inv deps remaining' ready' (i # vs)"
      using kahn_inv_step [OF less.prems [unfolded Cons] assms(2)] assms(3) i by metis
    have "2 * sum_list remaining' + length ready' < 2 * sum_list remaining + length ready"
      using kahn_visit_measure [OF v] Cons by simp
    from less.hyps [OF this inv'] show ?thesis using Cons v i assms(4) by simp
  qed
qed

lemma kahn_correct:
  assumes "index_deps_ok deps"
  shows "kahn_has_cycle deps = Some (\<not> acyclic (index_rel deps))"
proof -
  let ?n = "length deps"
  let ?remaining = "map length deps"
  let ?ready = "rev (filter (\<lambda>i. ?remaining ! i = 0) [0..<?n])"
  let ?D = "map (\<lambda>k. filter (\<lambda>x. k \<in> set (deps ! x)) [0..<?n]) [0..<?n]"
  have "build_dependents 0 deps (replicate ?n []) = Some
      (map (\<lambda>k. replicate ?n [] ! k @ filter (\<lambda>y. k \<in> set (deps ! (y - 0))) [0..<0 + length deps])
        [0..<length (replicate ?n ([] :: nat list))])"
    using assms by (intro build_dependents_result) (auto simp: index_deps_ok_def)
  moreover have "map (\<lambda>k. replicate ?n [] ! k @ filter (\<lambda>y. k \<in> set (deps ! (y - 0))) [0..<0 + length deps])
        [0..<length (replicate ?n ([] :: nat list))] = ?D"
    by (rule map_cong) simp_all
  ultimately have D: "build_dependents 0 deps (replicate ?n []) = Some ?D" by simp
  have "card (set (deps ! x)) = length (deps ! x)" if "x < ?n" for x
    using assms that by (intro distinct_card) (auto simp: index_deps_ok_def)
  then have "kahn_inv deps ?remaining ?ready []"
    unfolding kahn_inv_def by (intro conjI) auto
  from kahn_loop_correct [OF this assms, of ?D] obtain n where
    "kahn_loop ?D ?remaining ?ready 0 = Some n" "n = ?n \<longleftrightarrow> acyclic (index_rel deps)"
    by auto
  then show ?thesis using D by (simp add: kahn_has_cycle_def Let_def)
qed

end
