(* ===== verification/Task_Snapshot.thy ===== *)
theory Task_Snapshot
  imports Task_Store Kahn
begin

text \<open>
  The persistence image of the task aggregate and its validation
  (\<open>agent/features/task/src/domain/snapshot.rs\<close>): \<open>from_state\<close> captures an image, \<open>prepare\<close> validates
  one and rebuilds a candidate state, with the \<open>blocks\<close> index derived from the persisted edges.
  The persistence ports (\<open>task_persist.rs\<close>, \<open>task_restore_access.rs\<close>) are at the end.
\<close>

section \<open>Images and validation errors\<close>

record task_snapshot =
  sn_revision :: task_revision
  sn_tasks :: "task_data list"
  sn_next_task_id :: task_id
  sn_next_batch_id :: batch_id
  sn_current_batch :: "batch_id option"
  sn_batches :: "batch_data list"

datatype task_snapshot_error =
    ZeroTaskId task_id
  | ZeroBatchId batch_id
  | DuplicateTaskId task_id
  | DuplicateBatchId batch_id
  | PersistedDeletedTask task_id
  | InvalidBatchReference task_id batch_id
  | DanglingDependency task_id task_id
  | SelfDependency task_id
  | DuplicateDependencyReference task_id task_id
  | SnapshotDependencyCycle
  | SnapshotCrossBatchDependency task_id task_id
  | MultipleActiveBatches batch_id batch_id
  | InvalidCurrentBatch batch_id
  | CurrentBatchMismatch "batch_id option" batch_id
  | InvalidNextTaskId
  | InvalidNextBatchId
  | InvalidTaskTimestamps task_id

definition snapshot_from_state :: "task_store_state \<Rightarrow> task_snapshot" where
  "snapshot_from_state s =
     \<lparr>sn_revision = ts_revision s,
      sn_tasks = sort_key td_id
        (map (td_restore_blocks []) (filter (\<lambda>t. td_status t \<noteq> Deleted) (hm_values (ts_tasks s)))),
      sn_next_task_id = ts_next_task_id s,
      sn_next_batch_id = ts_next_batch_id s,
      sn_current_batch = ts_current_batch s,
      sn_batches = sort_key bd_id (hm_values (ts_batches s))\<rparr>"

definition snapshot_empty :: task_snapshot where
  "snapshot_empty =
     \<lparr>sn_revision = TaskRevisionData 0, sn_tasks = [], sn_next_task_id = TaskIdData 1,
      sn_next_batch_id = BatchIdData 1, sn_current_batch = None, sn_batches = []\<rparr>"

definition from_decoded_parts ::
    "task_revision \<Rightarrow> task_data list \<Rightarrow> task_id \<Rightarrow> batch_id \<Rightarrow> batch_id option \<Rightarrow> batch_data list
      \<Rightarrow> task_snapshot" where
  "from_decoded_parts revision tasks next_task_id next_batch_id current_batch batches =
     \<lparr>sn_revision = revision, sn_tasks = sort_key td_id tasks, sn_next_task_id = next_task_id,
      sn_next_batch_id = next_batch_id, sn_current_batch = current_batch,
      sn_batches = sort_key bd_id batches\<rparr>"

definition valid_task_timestamps :: "task_data \<Rightarrow> bool" where
  "valid_task_timestamps t =
     (let created = td_created_at t; updated = td_updated_at t
      in if updated < created
           \<or> (case td_started_at t of None \<Rightarrow> False | Some started \<Rightarrow> started < created \<or> updated < started)
           \<or> (case td_completed_at t of None \<Rightarrow> False
               | Some completed \<Rightarrow> completed < created \<or> updated < completed)
           \<or> (case (td_started_at t, td_completed_at t) of
                (Some started, Some completed) \<Rightarrow> completed < started | _ \<Rightarrow> False)
         then False
         else case td_status t of
                Pending \<Rightarrow> td_started_at t = None \<and> td_completed_at t = None
              | InProgress \<Rightarrow> td_started_at t \<noteq> None \<and> td_completed_at t = None
              | Completed \<Rightarrow> td_started_at t \<noteq> None \<and> td_completed_at t \<noteq> None
              | Deleted \<Rightarrow> False)"

section \<open>Validation\<close>

text \<open>The first loop: \<open>task_indexes\<close>, rejecting zero and repeated identifiers.\<close>

fun index_tasks :: "nat \<Rightarrow> task_data list \<Rightarrow> (task_id, nat) hmap
    \<Rightarrow> (task_snapshot_error, (task_id, nat) hmap) outcome" where
  "index_tasks k [] idx = Ok idx"
| "index_tasks k (t # ts) idx =
     (if task_id_get (td_id t) = 0 then Err (ZeroTaskId (td_id t))
      else if map_of idx (td_id t) \<noteq> None then Err (DuplicateTaskId (td_id t))
      else index_tasks (k + 1) ts (hm_insert (td_id t) k idx))"

text \<open>The second loop: \<open>batch_indexes\<close> and the only active batch.\<close>

fun index_batches :: "nat \<Rightarrow> batch_data list \<Rightarrow> (batch_id, nat) hmap \<Rightarrow> batch_id option
    \<Rightarrow> (task_snapshot_error, (batch_id, nat) hmap \<times> batch_id option) outcome" where
  "index_batches k [] idx active = Ok (idx, active)"
| "index_batches k (b # bs) idx active =
     (if batch_id_get (bd_id b) = 0 then Err (ZeroBatchId (bd_id b))
      else if map_of idx (bd_id b) \<noteq> None then Err (DuplicateBatchId (bd_id b))
      else if bd_status b = Active then
        (case active of
           Some first \<Rightarrow> Err (MultipleActiveBatches first (bd_id b))
         | None \<Rightarrow> index_batches (k + 1) bs (hm_insert (bd_id b) k idx) (Some (bd_id b)))
      else index_batches (k + 1) bs (hm_insert (bd_id b) k idx) active)"

text \<open>The loop over the edges of one task; \<open>self.tasks[dependency_index]\<close> panics out of range.\<close>

fun check_edges :: "task_data list \<Rightarrow> (task_id, nat) hmap \<Rightarrow> task_data \<Rightarrow> task_id list \<Rightarrow> task_id list
    \<Rightarrow> (task_snapshot_error, unit) outcome" where
  "check_edges tasks idx t [] seen = Ok ()"
| "check_edges tasks idx t (d # ds) seen =
     (if d = td_id t then Err (SelfDependency (td_id t))
      else if d \<in> set seen then Err (DuplicateDependencyReference (td_id t) d)
      else case map_of idx d of
             None \<Rightarrow> Err (DanglingDependency (td_id t) d)
           | Some k \<Rightarrow>
               if \<not> k < length tasks then Panic
               else if td_batch (tasks ! k) \<noteq> td_batch t
               then Err (SnapshotCrossBatchDependency (td_id t) d)
               else check_edges tasks idx t ds (d # seen))"

fun check_tasks :: "task_data list \<Rightarrow> (task_id, nat) hmap \<Rightarrow> (batch_id, nat) hmap \<Rightarrow> task_data list
    \<Rightarrow> (task_snapshot_error, unit) outcome" where
  "check_tasks tasks idx batches [] = Ok ()"
| "check_tasks tasks idx batches (t # ts) =
     (if td_status t = Deleted then Err (PersistedDeletedTask (td_id t))
      else if map_of batches (td_batch t) = None then Err (InvalidBatchReference (td_id t) (td_batch t))
      else if \<not> valid_task_timestamps t then Err (InvalidTaskTimestamps (td_id t))
      else case check_edges tasks idx t (td_blocked_by t) [] of
             Ok _ \<Rightarrow> check_tasks tasks idx batches ts
           | Err e \<Rightarrow> Err e
           | Panic \<Rightarrow> Panic)"

text \<open>\<open>dependency_graph_has_cycle\<close>: \<open>indexes[dependency_id]\<close> panics on a missing key.\<close>

definition dependency_graph_has_cycle :: "task_data list \<Rightarrow> (task_id, nat) hmap \<Rightarrow> bool option" where
  "dependency_graph_has_cycle tasks idx =
     (case those (map (\<lambda>t. those (map (map_of idx) (td_blocked_by t))) tasks) of
        None \<Rightarrow> None
      | Some deps \<Rightarrow> kahn_has_cycle deps)"

definition check_current :: "batch_data list \<Rightarrow> (batch_id, nat) hmap \<Rightarrow> batch_id option \<Rightarrow> batch_id option
    \<Rightarrow> (task_snapshot_error, unit) outcome" where
  "check_current batches idx current active =
     (let mismatch =
        (case active of
           Some a \<Rightarrow> if current \<noteq> Some a then Err (CurrentBatchMismatch current a) else Ok ()
         | None \<Rightarrow> Ok ())
      in case current of
           None \<Rightarrow> mismatch
         | Some c \<Rightarrow>
             (case map_of idx c of
                None \<Rightarrow> Err (InvalidCurrentBatch c)
              | Some k \<Rightarrow>
                  if \<not> k < length batches then Panic
                  else if bd_status (batches ! k) \<noteq> Active then Err (InvalidCurrentBatch c)
                  else mismatch))"

definition check_counters :: "task_snapshot \<Rightarrow> (task_snapshot_error, unit) outcome" where
  "check_counters sn =
     (if task_id_get (sn_next_task_id sn) = 0 \<or>
         list_ex (\<lambda>t. sn_next_task_id sn \<le> td_id t) (sn_tasks sn)
      then Err InvalidNextTaskId
      else if batch_id_get (sn_next_batch_id sn) = 0 \<or>
         list_ex (\<lambda>b. sn_next_batch_id sn \<le> bd_id b) (sn_batches sn)
      then Err InvalidNextBatchId
      else Ok ())"

text \<open>The candidate: \<open>reverse\<close> collects, for each dependency, the tasks it blocks.\<close>

definition reverse_index :: "task_data list \<Rightarrow> task_id \<Rightarrow> task_id list" where
  "reverse_index tasks d =
     concat (map (\<lambda>t. map (\<lambda>_. td_id t) (filter (\<lambda>x. x = d) (td_blocked_by t))) tasks)"

definition restore_task :: "task_data list \<Rightarrow> task_data \<Rightarrow> task_data" where
  "restore_task tasks t =
     (let blocks = reverse_index tasks (td_id t)
      in if blocks = [] then t else td_restore_blocks blocks t)"

text \<open>
  The final \<open>expect\<close> of the loop over \<open>reverse\<close> fails for an edge to a missing task: \<open>None\<close>.
\<close>

definition build_candidate :: "task_snapshot \<Rightarrow> task_store_state option" where
  "build_candidate sn =
     (if list_all (\<lambda>t. list_all (\<lambda>d. d \<in> set (map td_id (sn_tasks sn))) (td_blocked_by t)) (sn_tasks sn)
      then Some
        \<lparr>ts_tasks = fold (\<lambda>t m. hm_insert (td_id t) (restore_task (sn_tasks sn) t) m) (sn_tasks sn) [],
         ts_batches = fold (\<lambda>b m. hm_insert (bd_id b) b m) (sn_batches sn) [],
         ts_next_task_id = sn_next_task_id sn, ts_next_batch_id = sn_next_batch_id sn,
         ts_current_batch = sn_current_batch sn, ts_revision = sn_revision sn\<rparr>
      else None)"

definition prepare :: "task_snapshot \<Rightarrow> (task_snapshot_error, task_store_state) outcome" where
  "prepare sn =
     (case index_tasks 0 (sn_tasks sn) [] of
        Err e \<Rightarrow> Err e
      | Panic \<Rightarrow> Panic
      | Ok task_indexes \<Rightarrow>
          (case index_batches 0 (sn_batches sn) [] None of
             Err e \<Rightarrow> Err e
           | Panic \<Rightarrow> Panic
           | Ok (batch_indexes, active) \<Rightarrow>
               (case check_tasks (sn_tasks sn) task_indexes batch_indexes (sn_tasks sn) of
                  Err e \<Rightarrow> Err e
                | Panic \<Rightarrow> Panic
                | Ok _ \<Rightarrow>
                    (case dependency_graph_has_cycle (sn_tasks sn) task_indexes of
                       None \<Rightarrow> Panic
                     | Some True \<Rightarrow> Err SnapshotDependencyCycle
                     | Some False \<Rightarrow>
                         (case check_current (sn_batches sn) batch_indexes (sn_current_batch sn) active of
                            Err e \<Rightarrow> Err e
                          | Panic \<Rightarrow> Panic
                          | Ok _ \<Rightarrow>
                              (case check_counters sn of
                                 Err e \<Rightarrow> Err e
                               | Panic \<Rightarrow> Panic
                               | Ok _ \<Rightarrow>
                                   (case build_candidate sn of
                                      None \<Rightarrow> Panic
                                    | Some candidate \<Rightarrow> Ok candidate)))))))"

definition validate :: "task_snapshot \<Rightarrow> (task_snapshot_error, unit) outcome" where
  "validate sn = map_ok (\<lambda>_. ()) (prepare sn)"

section \<open>The persistence ports of the store\<close>

definition collect_snapshot :: "task_store_state \<Rightarrow> task_snapshot" where
  "collect_snapshot s = snapshot_from_state s"

text \<open>The candidate depends on the snapshot alone; the live state is not even read.\<close>

definition prepare_restore :: "task_store_state \<Rightarrow> task_snapshot
    \<Rightarrow> (task_snapshot_error, task_store_state) outcome" where
  "prepare_restore s sn = prepare sn"

definition commit_restore :: "task_store_state \<Rightarrow> task_store_state \<Rightarrow> task_store_state" where
  "commit_restore token s = token"

definition prepare_session_restore :: "task_store_state \<Rightarrow> task_snapshot option
    \<Rightarrow> (task_snapshot_error, task_store_state) outcome" where
  "prepare_session_restore s snapshot =
     (case snapshot of
        Some sn \<Rightarrow> prepare_restore s sn
      | None \<Rightarrow> prepare_restore s snapshot_empty)"

definition commit_session_restore :: "task_store_state \<Rightarrow> task_store_state \<Rightarrow> task_store_state" where
  "commit_session_restore ticket s = commit_restore ticket s"

end
