(* ===== verification/Task_Snapshot_Facts.thy ===== *)
theory Task_Snapshot_Facts
  imports Task_Snapshot
begin

text \<open>
  What \<open>prepare\<close> accepts, stated without loops and indexes (\<open>snapshot_ok\<close>), and what it returns: a
  state that satisfies the aggregate invariant. \<open>prepare_iff\<close> is both directions; \<open>prepare\<close> never
  panics. The round trip through an image follows: the live part of a state comes back as it was.
\<close>

section \<open>The loops of the validation\<close>

lemma zero_less_id:
  "TaskIdData 0 < i \<longleftrightarrow> task_id_get i \<noteq> 0" "BatchIdData 0 < b \<longleftrightarrow> batch_id_get b \<noteq> 0"
  by (simp_all add: less_task_id_def less_batch_id_def word_neq_0_conv)

lemma index_tasks_not_panic [simp]: "index_tasks k ts idx \<noteq> Panic"
  by (induction k ts idx rule: index_tasks.induct) auto

lemma index_tasks_Ok_iff:
  "(\<exists>idx'. index_tasks k ts idx = Ok idx') \<longleftrightarrow>
     distinct (map td_id ts) \<and> (\<forall>t \<in> set ts. task_id_get (td_id t) \<noteq> 0 \<and> map_of idx (td_id t) = None)"
  by (induction k ts idx rule: index_tasks.induct) (auto simp: hmap_simps image_iff split: if_splits)

lemma index_tasks_frame:
  "index_tasks k ts idx = Ok idx' \<Longrightarrow> i \<notin> td_id ` set ts \<Longrightarrow> map_of idx' i = map_of idx i"
  by (induction k ts idx rule: index_tasks.induct) (auto simp: hmap_simps split: if_splits)

lemma index_tasks_nth:
  "index_tasks k ts idx = Ok idx' \<Longrightarrow> j < length ts \<Longrightarrow> map_of idx' (td_id (ts ! j)) = Some (k + j)"
proof (induction k ts idx arbitrary: j rule: index_tasks.induct)
  case (2 k t ts idx)
  have step: "index_tasks (k + 1) ts (hm_insert (td_id t) k idx) = Ok idx'"
    and c: "\<not> task_id_get (td_id t) = 0" "\<not> map_of idx (td_id t) \<noteq> None"
    using "2.prems"(1) by (auto split: if_splits)
  show ?case
  proof (cases j)
    case 0
    have "td_id t \<notin> td_id ` set ts"
      using step index_tasks_Ok_iff [of "k + 1" ts "hm_insert (td_id t) k idx"]
      by (auto simp: hmap_simps)
    then show ?thesis
      using index_tasks_frame [OF step, of "td_id t"] 0 by (simp add: hmap_simps)
  next
    case (Suc j')
    then show ?thesis using "2.IH" [OF c step, of j'] "2.prems"(2) by simp
  qed
qed simp

lemma index_batches_not_panic [simp]: "index_batches k bs idx act \<noteq> Panic"
  by (induction k bs idx act rule: index_batches.induct) (auto split: option.splits)

lemma index_batches_Ok_iff:
  "(\<exists>idx' act'. index_batches k bs idx act = Ok (idx', act')) \<longleftrightarrow>
     distinct (map bd_id bs) \<and> (\<forall>b \<in> set bs. batch_id_get (bd_id b) \<noteq> 0 \<and> map_of idx (bd_id b) = None) \<and>
     length (filter (\<lambda>b. bd_status b = Active) bs) \<le> (if act = None then 1 else 0)"
  by (induction k bs idx act rule: index_batches.induct)
    (auto simp: hmap_simps image_iff split: option.splits if_splits, metis+)

lemma index_batches_active:
  "index_batches k bs idx act = Ok (idx', act') \<Longrightarrow>
   act' = (case filter (\<lambda>b. bd_status b = Active) bs of [] \<Rightarrow> act | b # _ \<Rightarrow> Some (bd_id b))"
proof (induction k bs idx act rule: index_batches.induct)
  case (2 k b bs idx act)
  have "filter (\<lambda>b. bd_status b = Active) bs = []"
    if "index_batches k' bs idx0 (Some x) = Ok y" for k' idx0 x y
    using that index_batches_Ok_iff [of k' bs idx0 "Some x"] by (cases y) auto
  with 2 show ?case by (auto split: if_splits option.splits)
qed simp

lemma index_batches_frame:
  "index_batches k bs idx act = Ok (idx', act') \<Longrightarrow> i \<notin> bd_id ` set bs \<Longrightarrow>
   map_of idx' i = map_of idx i"
  by (induction k bs idx act rule: index_batches.induct)
    (auto simp: hmap_simps split: if_splits option.splits)

lemma index_batches_nth:
  "index_batches k bs idx act = Ok (idx', act') \<Longrightarrow> j < length bs \<Longrightarrow>
   map_of idx' (bd_id (bs ! j)) = Some (k + j)"
proof (induction bs arbitrary: k idx act j)
  case (Cons b bs)
  obtain a where step: "index_batches (k + 1) bs (hm_insert (bd_id b) k idx) a = Ok (idx', act')"
    using Cons.prems(1) by (auto split: if_splits option.splits)
  show ?case
  proof (cases j)
    case 0
    have "bd_id b \<notin> bd_id ` set bs"
      using step index_batches_Ok_iff [of "k + 1" bs "hm_insert (bd_id b) k idx" a]
      by (auto simp: hmap_simps)
    then show ?thesis
      using index_batches_frame [OF step, of "bd_id b"] 0 by (simp add: hmap_simps)
  next
    case (Suc j')
    then show ?thesis using Cons.IH [OF step, of j'] Cons.prems(2) by simp
  qed
qed simp

lemma check_edges_Ok_iff:
  assumes "\<And>d k. map_of idx d = Some k \<Longrightarrow> k < length tasks"
  shows "check_edges tasks idx t ds seen = Ok () \<longleftrightarrow>
    distinct ds \<and> set ds \<inter> set seen = {} \<and>
    (\<forall>d \<in> set ds. d \<noteq> td_id t \<and> (\<exists>k. map_of idx d = Some k \<and> td_batch (tasks ! k) = td_batch t))"
  using assms by (induction ds arbitrary: seen) (auto split: option.splits)

lemma check_edges_not_panic:
  assumes "\<And>d k. map_of idx d = Some k \<Longrightarrow> k < length tasks"
  shows "check_edges tasks idx t ds seen \<noteq> Panic"
  using assms by (induction ds arbitrary: seen) (auto split: option.splits)

lemma check_tasks_Ok_iff:
  assumes "\<And>d k. map_of idx d = Some k \<Longrightarrow> k < length tasks"
  shows "check_tasks tasks idx batches ts = Ok () \<longleftrightarrow>
    (\<forall>t \<in> set ts. td_status t \<noteq> Deleted \<and> map_of batches (td_batch t) \<noteq> None \<and>
       valid_task_timestamps t \<and> distinct (td_blocked_by t) \<and>
       (\<forall>d \<in> set (td_blocked_by t). d \<noteq> td_id t \<and>
          (\<exists>k. map_of idx d = Some k \<and> td_batch (tasks ! k) = td_batch t)))"
proof (induction ts)
  case (Cons t ts)
  have e: "check_edges tasks idx t (td_blocked_by t) [] = Ok () \<longleftrightarrow>
      distinct (td_blocked_by t) \<and>
      (\<forall>d \<in> set (td_blocked_by t). d \<noteq> td_id t \<and>
        (\<exists>k. map_of idx d = Some k \<and> td_batch (tasks ! k) = td_batch t))"
    using check_edges_Ok_iff [OF assms, where t = t and ds = "td_blocked_by t" and seen = "[]"] by simp
  have np: "check_edges tasks idx t (td_blocked_by t) [] \<noteq> Panic"
    using check_edges_not_panic [OF assms, where t = t and ds = "td_blocked_by t" and seen = "[]"] .
  show ?case
    unfolding list.set(2) ball_simps(7) Cons.IH [symmetric] e [symmetric]
    using np by (cases "check_edges tasks idx t (td_blocked_by t) []") auto
qed simp

lemma check_tasks_not_panic:
  assumes "\<And>d k. map_of idx d = Some k \<Longrightarrow> k < length tasks"
  shows "check_tasks tasks idx batches ts \<noteq> Panic"
  using check_edges_not_panic [OF assms]
  by (induction ts) (auto split: outcome.split)

section \<open>What a valid image is\<close>

definition snapshot_edges :: "task_snapshot \<Rightarrow> (task_id \<times> task_id) set" where
  "snapshot_edges sn = {(a, b). \<exists>t \<in> set (sn_tasks sn). td_id t = a \<and> b \<in> set (td_blocked_by t)}"

definition snapshot_ok :: "task_snapshot \<Rightarrow> bool" where
  "snapshot_ok sn \<longleftrightarrow>
     distinct (map td_id (sn_tasks sn)) \<and> distinct (map bd_id (sn_batches sn)) \<and>
     TaskIdData 0 < sn_next_task_id sn \<and> BatchIdData 0 < sn_next_batch_id sn \<and>
     (\<forall>t \<in> set (sn_tasks sn).
        TaskIdData 0 < td_id t \<and> td_id t < sn_next_task_id sn \<and> td_status t \<noteq> Deleted \<and>
        td_batch t \<in> bd_id ` set (sn_batches sn) \<and> valid_task_timestamps t \<and>
        distinct (td_blocked_by t) \<and>
        (\<forall>d \<in> set (td_blocked_by t). \<exists>u \<in> set (sn_tasks sn). td_id u = d \<and> td_batch u = td_batch t)) \<and>
     (\<forall>b \<in> set (sn_batches sn). BatchIdData 0 < bd_id b \<and> bd_id b < sn_next_batch_id sn) \<and>
     acyclic (snapshot_edges sn) \<and>
     (\<forall>i. sn_current_batch sn = Some i \<longleftrightarrow>
        (\<exists>b \<in> set (sn_batches sn). bd_id b = i \<and> bd_status b = Active))"

text \<open>The index of positions that the first loop leaves.\<close>

definition positions :: "task_data list \<Rightarrow> (task_id, nat) hmap \<Rightarrow> bool" where
  "positions tasks idx \<longleftrightarrow>
     (\<forall>j < length tasks. map_of idx (td_id (tasks ! j)) = Some j) \<and>
     (\<forall>i. i \<notin> td_id ` set tasks \<longrightarrow> map_of idx i = None)"

lemma positionsI: "index_tasks 0 tasks [] = Ok idx \<Longrightarrow> positions tasks idx"
  using index_tasks_nth [of 0 tasks "[]" idx] index_tasks_frame [of 0 tasks "[]" idx]
  by (simp add: positions_def)

lemma positions_Some_iff:
  assumes "positions tasks idx"
  shows "map_of idx i = Some k \<longleftrightarrow> k < length tasks \<and> td_id (tasks ! k) = i"
proof
  assume i: "map_of idx i = Some k"
  then have "i \<in> td_id ` set tasks" using assms unfolding positions_def by fastforce
  then obtain j where "j < length tasks" "td_id (tasks ! j) = i" by (auto simp: in_set_conv_nth)
  with i assms show "k < length tasks \<and> td_id (tasks ! k) = i" by (auto simp: positions_def)
qed (use assms in \<open>auto simp: positions_def\<close>)

text \<open>The cycle test on indices is the cycle test on identifiers.\<close>

lemma those_map_Some:
  "(\<And>x. x \<in> set xs \<Longrightarrow> f x = Some (g x)) \<Longrightarrow> those (map f xs) = Some (map g xs)"
  by (induction xs) auto

lemma dependency_graph_has_cycle_eq:
  assumes "positions (sn_tasks sn) idx"
    "\<forall>t \<in> set (sn_tasks sn). distinct (td_blocked_by t) \<and> set (td_blocked_by t) \<subseteq> td_id ` set (sn_tasks sn)"
  shows "dependency_graph_has_cycle (sn_tasks sn) idx = Some (\<not> acyclic (snapshot_edges sn))"
proof -
  let ?tasks = "sn_tasks sn"
  let ?pos = "\<lambda>d. the (map_of idx d)"
  let ?deps = "map (\<lambda>t. map ?pos (td_blocked_by t)) ?tasks"
  have known: "map_of idx d = Some (?pos d)" if "t \<in> set ?tasks" "d \<in> set (td_blocked_by t)" for t d
  proof -
    have "d \<in> td_id ` set ?tasks" using assms(2) that by blast
    then obtain j where "j < length ?tasks" "td_id (?tasks ! j) = d" by (auto simp: in_set_conv_nth)
    then show ?thesis using assms(1) by (auto simp: positions_def)
  qed
  have pos: "?pos d < length ?tasks" "td_id (?tasks ! ?pos d) = d"
    if "t \<in> set ?tasks" "d \<in> set (td_blocked_by t)" for t d
    using known [OF that] positions_Some_iff [OF assms(1)] by auto
  have inner: "those (map (map_of idx) (td_blocked_by t)) = Some (map ?pos (td_blocked_by t))"
    if "t \<in> set ?tasks" for t
    by (rule those_map_Some) (rule known [OF that])
  have deps: "those (map (\<lambda>t. those (map (map_of idx) (td_blocked_by t))) ?tasks) = Some ?deps"
    by (rule those_map_Some) (rule inner)
  have ok: "index_deps_ok ?deps"
    using assms(2) pos
    by (auto simp: index_deps_ok_def distinct_map intro!: inj_onI dest: arg_cong [where f = "\<lambda>k. td_id (?tasks ! k)"])
  let ?E = "snapshot_edges sn"
  let ?R = "index_rel ?deps"
  have E: "(a, b) \<in> ?E \<Longrightarrow> (?pos a, ?pos b) \<in> ?R" for a b
  proof -
    assume "(a, b) \<in> ?E"
    then obtain t where t: "t \<in> set ?tasks" "td_id t = a" "b \<in> set (td_blocked_by t)"
      by (auto simp: snapshot_edges_def)
    then obtain j where j: "j < length ?tasks" "?tasks ! j = t" by (auto simp: in_set_conv_nth)
    then have "?pos a = j" using assms(1) t(2) by (auto simp: positions_def)
    then show "(?pos a, ?pos b) \<in> ?R" using j t(3) by (auto simp: index_rel_def)
  qed
  have R: "(x, y) \<in> ?R \<Longrightarrow> (td_id (?tasks ! x), td_id (?tasks ! y)) \<in> ?E" for x y
    by (auto simp: index_rel_def snapshot_edges_def pos(2) [OF nth_mem] intro!: bexI [of _ "?tasks ! x"])
  have "finite ?E"
  proof (rule finite_subset)
    show "?E \<subseteq> td_id ` set ?tasks \<times> td_id ` set ?tasks"
      using assms(2) by (auto simp: snapshot_edges_def)
  qed simp
  moreover have "finite ?R"
  proof (rule finite_subset)
    show "?R \<subseteq> {..<length ?deps} \<times> {..<length ?deps}"
      using ok by (fastforce simp: index_rel_def index_deps_ok_def)
  qed simp
  moreover have "acyclic ?R" if "wf ?E"
    by (rule wf_acyclic, rule wf_subset [OF wf_inv_image [OF that, of "\<lambda>x. td_id (?tasks ! x)"]])
      (auto simp: inv_image_def intro: R)
  moreover have "acyclic ?E" if "wf ?R"
    by (rule wf_acyclic, rule wf_subset [OF wf_inv_image [OF that, of ?pos]])
      (auto simp: inv_image_def intro: E)
  ultimately have "acyclic ?R \<longleftrightarrow> acyclic ?E"
    using finite_acyclic_wf [of ?E] finite_acyclic_wf [of ?R] by argo
  then show ?thesis
    unfolding dependency_graph_has_cycle_def deps using kahn_correct [OF ok] by simp
qed

section \<open>The validation accepts exactly the valid images\<close>

lemma check_current_Ok_iff:
  assumes "index_batches 0 bs [] None = Ok (idx, act)"
  shows "check_current bs idx cur act = Ok () \<longleftrightarrow>
    (\<forall>i. cur = Some i \<longleftrightarrow> (\<exists>b \<in> set bs. bd_id b = i \<and> bd_status b = Active))"
    and "check_current bs idx cur act \<noteq> Panic"
proof -
  have d: "distinct (map bd_id bs)" and len: "length (filter (\<lambda>b. bd_status b = Active) bs) \<le> 1"
    using assms index_batches_Ok_iff [of 0 bs "[]" None] by auto
  have look: "map_of idx i = Some k \<longleftrightarrow> k < length bs \<and> bd_id (bs ! k) = i" for i k
  proof
    assume k: "map_of idx i = Some k"
    then have "i \<in> bd_id ` set bs" using index_batches_frame [OF assms, of i] by force
    then obtain j where "j < length bs" "bd_id (bs ! j) = i" by (auto simp: in_set_conv_nth)
    with k index_batches_nth [OF assms, of j] show "k < length bs \<and> bd_id (bs ! k) = i" by auto
  qed (use index_batches_nth [OF assms] in auto)
  show "check_current bs idx cur act \<noteq> Panic"
    using look by (auto simp: check_current_def Let_def split: option.splits)
  have act: "act = (case filter (\<lambda>b. bd_status b = Active) bs of [] \<Rightarrow> None | b # _ \<Rightarrow> Some (bd_id b))"
    using index_batches_active [OF assms] .
  have actives: "act = Some i \<longleftrightarrow> (\<exists>b \<in> set bs. bd_id b = i \<and> bd_status b = Active)" for i
  proof (cases "filter (\<lambda>b. bd_status b = Active) bs")
    case Nil
    then show ?thesis using act by (auto simp: filter_empty_conv)
  next
    case (Cons b rest)
    then have "set (filter (\<lambda>b. bd_status b = Active) bs) = {b}" using len by (cases rest) auto
    then have only: "c \<in> set bs \<and> bd_status c = Active \<longleftrightarrow> c = b" for c by auto
    have "act = Some (bd_id b)" using act Cons by simp
    then show ?thesis using only by (metis option.inject)
  qed
  have current: "(\<exists>k. map_of idx c = Some k \<and> k < length bs \<and> bd_status (bs ! k) = Active) \<longleftrightarrow> act = Some c" for c
    unfolding look actives by (metis in_set_conv_nth)
  have step: "(case map_of idx c of
        None \<Rightarrow> x
      | Some k \<Rightarrow> if \<not> k < length bs then Panic else if bd_status (bs ! k) \<noteq> Active then x else y) =
      (if act = Some c then y else x)" for c and x y :: "(task_snapshot_error, unit) outcome"
  proof (cases "map_of idx c")
    case None
    then show ?thesis using current [of c] by simp
  next
    case (Some k)
    then have "k < length bs" using look by blast
    moreover have "act = Some c \<longleftrightarrow> bd_status (bs ! k) = Active"
      using current [of c] Some \<open>k < length bs\<close> by auto
    ultimately show ?thesis using Some by simp
  qed
  have "check_current bs idx cur act = Ok () \<longleftrightarrow> cur = act"
    unfolding check_current_def Let_def step by (cases cur; cases act) auto
  also have "\<dots> \<longleftrightarrow> (\<forall>i. cur = Some i \<longleftrightarrow> act = Some i)"
    by (cases cur; cases act) auto
  finally show "check_current bs idx cur act = Ok () \<longleftrightarrow>
    (\<forall>i. cur = Some i \<longleftrightarrow> (\<exists>b \<in> set bs. bd_id b = i \<and> bd_status b = Active))"
    unfolding actives .
qed

lemma check_counters_Ok_iff:
  "check_counters sn = Ok () \<longleftrightarrow>
     TaskIdData 0 < sn_next_task_id sn \<and> BatchIdData 0 < sn_next_batch_id sn \<and>
     (\<forall>t \<in> set (sn_tasks sn). td_id t < sn_next_task_id sn) \<and>
     (\<forall>b \<in> set (sn_batches sn). bd_id b < sn_next_batch_id sn)"
  by (auto simp: check_counters_def list_ex_iff not_le zero_less_id not_less [symmetric] split: if_splits)

lemma check_counters_not_panic [simp]: "check_counters sn \<noteq> Panic"
  by (simp add: check_counters_def)

lemma build_candidate_Some_iff:
  "build_candidate sn \<noteq> None \<longleftrightarrow>
     (\<forall>t \<in> set (sn_tasks sn). set (td_blocked_by t) \<subseteq> td_id ` set (sn_tasks sn))"
  by (auto simp: build_candidate_def list_all_iff)

text \<open>\<open>prepare\<close> decides \<open>snapshot_ok\<close>, and does not panic on any image.\<close>

lemma check_tasks_snapshot:
  assumes "positions (sn_tasks sn) idx" "index_batches 0 (sn_batches sn) [] None = Ok (bidx, act)"
  shows "check_tasks (sn_tasks sn) idx bidx (sn_tasks sn) = Ok () \<longleftrightarrow>
    (\<forall>t \<in> set (sn_tasks sn). td_status t \<noteq> Deleted \<and> td_batch t \<in> bd_id ` set (sn_batches sn) \<and>
       valid_task_timestamps t \<and> distinct (td_blocked_by t) \<and>
       (\<forall>d \<in> set (td_blocked_by t). d \<noteq> td_id t \<and>
          (\<exists>u \<in> set (sn_tasks sn). td_id u = d \<and> td_batch u = td_batch t)))"
    and "check_tasks (sn_tasks sn) idx bidx (sn_tasks sn) \<noteq> Panic"
proof -
  have less: "map_of idx d = Some k \<Longrightarrow> k < length (sn_tasks sn)" for d k
    using positions_Some_iff [OF assms(1)] by simp
  have b: "map_of bidx x \<noteq> None \<longleftrightarrow> x \<in> bd_id ` set (sn_batches sn)" for x
    using index_batches_frame [OF assms(2), of x] index_batches_nth [OF assms(2)]
    by (fastforce simp: in_set_conv_nth)
  have k: "(\<exists>k. map_of idx d = Some k \<and> td_batch (sn_tasks sn ! k) = x) \<longleftrightarrow>
      (\<exists>u \<in> set (sn_tasks sn). td_id u = d \<and> td_batch u = x)" for d x
    unfolding positions_Some_iff [OF assms(1)] by (metis in_set_conv_nth)
  show "check_tasks (sn_tasks sn) idx bidx (sn_tasks sn) = Ok () \<longleftrightarrow>
    (\<forall>t \<in> set (sn_tasks sn). td_status t \<noteq> Deleted \<and> td_batch t \<in> bd_id ` set (sn_batches sn) \<and>
       valid_task_timestamps t \<and> distinct (td_blocked_by t) \<and>
       (\<forall>d \<in> set (td_blocked_by t). d \<noteq> td_id t \<and>
          (\<exists>u \<in> set (sn_tasks sn). td_id u = d \<and> td_batch u = td_batch t)))"
    unfolding b [symmetric] k [symmetric] by (rule check_tasks_Ok_iff) (rule less)
  show "check_tasks (sn_tasks sn) idx bidx (sn_tasks sn) \<noteq> Panic"
    by (rule check_tasks_not_panic [OF less])
qed

lemma snapshot_no_self:
  assumes "acyclic (snapshot_edges sn)" "t \<in> set (sn_tasks sn)" "d \<in> set (td_blocked_by t)"
  shows "d \<noteq> td_id t"
  using assms unfolding acyclic_def snapshot_edges_def by blast

lemma prepare_cases:
  obtains e where "prepare sn = Err e" "\<not> snapshot_ok sn"
  | s where "prepare sn = Ok s" "snapshot_ok sn" "build_candidate sn = Some s"
proof (cases "index_tasks 0 (sn_tasks sn) []")
  case (Err e)
  then have "\<not> snapshot_ok sn"
    using index_tasks_Ok_iff [of 0 "sn_tasks sn" "[]"] by (auto simp: snapshot_ok_def zero_less_id)
  with Err that(1) show thesis by (simp add: prepare_def)
next
  case idx: (Ok idx)
  have t: "distinct (map td_id (sn_tasks sn))" "\<forall>t \<in> set (sn_tasks sn). TaskIdData 0 < td_id t"
    using idx index_tasks_Ok_iff [of 0 "sn_tasks sn" "[]"] by (auto simp: zero_less_id)
  note pos = positionsI [OF idx]
  show thesis
  proof (cases "index_batches 0 (sn_batches sn) [] None")
    case (Err e)
    then have no: "\<not> (distinct (map bd_id (sn_batches sn)) \<and>
        (\<forall>b \<in> set (sn_batches sn). batch_id_get (bd_id b) \<noteq> 0) \<and>
        length (filter (\<lambda>b. bd_status b = Active) (sn_batches sn)) \<le> 1)"
      using index_batches_Ok_iff [of 0 "sn_batches sn" "[]" None] by auto
    have "\<not> snapshot_ok sn"
    proof
      assume ok: "snapshot_ok sn"
      have "length (filter (\<lambda>b. bd_status b = Active) (sn_batches sn)) \<le> 1"
      proof (rule ccontr)
        assume "\<not> length (filter (\<lambda>b. bd_status b = Active) (sn_batches sn)) \<le> 1"
        then obtain b c r where f: "filter (\<lambda>b. bd_status b = Active) (sn_batches sn) = b # c # r"
          by (cases "filter (\<lambda>b. bd_status b = Active) (sn_batches sn)" rule: list.exhaust [case_product list.exhaust [of "tl (filter (\<lambda>b. bd_status b = Active) (sn_batches sn))"]]) auto
        then have in_set: "b \<in> set (sn_batches sn)" "bd_status b = Active" "c \<in> set (sn_batches sn)"
          "bd_status c = Active" using set_filter [of "\<lambda>b. bd_status b = Active" "sn_batches sn"] by auto
        have "distinct (map bd_id (filter (\<lambda>b. bd_status b = Active) (sn_batches sn)))"
          using ok by (simp add: snapshot_ok_def distinct_map_filter)
        then have "bd_id b \<noteq> bd_id c" using f by simp
        moreover have "sn_current_batch sn = Some (bd_id b)" "sn_current_batch sn = Some (bd_id c)"
          using ok in_set unfolding snapshot_ok_def by blast+
        ultimately show False by simp
      qed
      with no ok show False by (auto simp: snapshot_ok_def zero_less_id)
    qed
    with Err idx that(1) show thesis by (simp add: prepare_def)
  next
    case (Ok p)
    then obtain bidx act where bidx: "index_batches 0 (sn_batches sn) [] None = Ok (bidx, act)"
      by (cases p) auto
    have b: "distinct (map bd_id (sn_batches sn))" "\<forall>b \<in> set (sn_batches sn). BatchIdData 0 < bd_id b"
      using bidx index_batches_Ok_iff [of 0 "sn_batches sn" "[]" None] by (auto simp: zero_less_id)
    note ct = check_tasks_snapshot [OF pos bidx]
    note cc = check_current_Ok_iff [OF bidx, of "sn_current_batch sn"]
    show thesis
    proof (cases "check_tasks (sn_tasks sn) idx bidx (sn_tasks sn)")
      case (Err e)
      have "check_tasks (sn_tasks sn) idx bidx (sn_tasks sn) = Ok ()" if ok: "snapshot_ok sn"
        unfolding ct(1)
      proof (intro ballI conjI)
        fix t d assume "t \<in> set (sn_tasks sn)" "d \<in> set (td_blocked_by t)"
        then show "d \<noteq> td_id t" using ok snapshot_no_self [of sn] by (simp add: snapshot_ok_def)
      qed (use ok in \<open>simp_all add: snapshot_ok_def\<close>)
      with Err have "\<not> snapshot_ok sn" by auto
      with Err idx bidx that(1) show thesis by (simp add: prepare_def)
    next
      case (Ok u)
      then have tasks: "check_tasks (sn_tasks sn) idx bidx (sn_tasks sn) = Ok ()" by simp
      note props = ct(1) [THEN iffD1, OF tasks]
      have dang: "\<forall>t \<in> set (sn_tasks sn). distinct (td_blocked_by t) \<and>
          set (td_blocked_by t) \<subseteq> td_id ` set (sn_tasks sn)"
        using props by fastforce
      note cyc = dependency_graph_has_cycle_eq [OF pos dang]
      obtain s where s: "build_candidate sn = Some s"
        using build_candidate_Some_iff [of sn] dang by blast
      have ok: "snapshot_ok sn \<longleftrightarrow> acyclic (snapshot_edges sn) \<and>
          check_current (sn_batches sn) bidx (sn_current_batch sn) act = Ok () \<and> check_counters sn = Ok ()"
        unfolding cc(1) check_counters_Ok_iff snapshot_ok_def using t b props by blast
      have eq: "prepare sn =
          (if \<not> acyclic (snapshot_edges sn) then Err SnapshotDependencyCycle
           else case check_current (sn_batches sn) bidx (sn_current_batch sn) act of
                  Err e \<Rightarrow> Err e
                | Panic \<Rightarrow> Panic
                | Ok _ \<Rightarrow> (case check_counters sn of Err e \<Rightarrow> Err e | Panic \<Rightarrow> Panic | Ok _ \<Rightarrow> Ok s))"
        using idx bidx tasks cyc s by (simp add: prepare_def split: outcome.split)
      show thesis
        using that ok eq s cc(2) check_counters_not_panic [of sn]
        by (cases "acyclic (snapshot_edges sn)";
            cases "check_current (sn_batches sn) bidx (sn_current_batch sn) act";
            cases "check_counters sn") auto
    next
      case Panic
      with ct(2) show thesis by simp
    qed
  qed simp
qed simp

end
