(* ===== verification/Task_Restore.thy ===== *)
theory Task_Restore
  imports Task_Snapshot_Facts
begin

text \<open>
  What a restored state looks like: a validated image gives a state that satisfies the aggregate
  invariant, with the reverse index rebuilt; and saving then restoring a live state gives back its
  live tasks, its batches, its counters and its revision.
\<close>

section \<open>The rebuilt maps\<close>

lemma fold_insert_outside:
  "x \<notin> f ` set ts \<Longrightarrow> map_of (fold (\<lambda>t m. hm_insert (f t) (g t) m) ts m0) x = map_of m0 x"
  by (induction ts arbitrary: m0) (auto simp: hmap_simps)

lemma fold_insert_lookup:
  "distinct (map f ts) \<Longrightarrow> t \<in> set ts \<Longrightarrow>
   map_of (fold (\<lambda>t m. hm_insert (f t) (g t) m) ts m0) (f t) = Some (g t)"
proof (induction ts arbitrary: m0)
  case (Cons u ts)
  show ?case
  proof (cases "t = u")
    case True
    have "f u \<notin> f ` set ts" using Cons.prems(1) by auto
    then show ?thesis using True by (simp add: fold_insert_outside hmap_simps)
  qed (use Cons in auto)
qed simp

lemma fold_insert_Some_iff:
  assumes "distinct (map f ts)"
  shows "map_of (fold (\<lambda>t m. hm_insert (f t) (g t) m) ts []) x = Some y \<longleftrightarrow>
    (\<exists>t \<in> set ts. f t = x \<and> g t = y)"
proof (cases "x \<in> f ` set ts")
  case True
  then obtain t where t: "t \<in> set ts" "x = f t" by blast
  have "u = t" if "u \<in> set ts" "f u = f t" for u
    using assms that t(1) by (metis distinct_map inj_on_contraD)
  then show ?thesis using fold_insert_lookup [OF assms t(1), of g "[]"] t by auto
qed (auto simp: fold_insert_outside)

lemma fold_insert_distinct:
  "distinct (hm_keys m0) \<Longrightarrow> distinct (hm_keys (fold (\<lambda>t m. hm_insert (f t) (g t) m) ts m0))"
  by (induction ts arbitrary: m0) (simp_all add: distinct_update)

lemma set_reverse_index:
  "set (reverse_index tasks d) = {td_id t | t. t \<in> set tasks \<and> d \<in> set (td_blocked_by t)}"
  by (auto simp: reverse_index_def)

lemma filter_eq_distinct:
  "distinct xs \<Longrightarrow> filter (\<lambda>x. x = d) xs = (if d \<in> set xs then [d] else [])"
  by (induction xs) auto

lemma distinct_reverse_index:
  assumes "distinct (map td_id tasks)" "\<forall>t \<in> set tasks. distinct (td_blocked_by t)"
  shows "distinct (reverse_index tasks d)"
  using assms
proof (induction tasks)
  case (Cons t tasks)
  have "td_id t \<notin> set (reverse_index tasks d)"
    using Cons.prems(1) by (auto simp: set_reverse_index)
  then show ?case
    using Cons by (simp add: reverse_index_def filter_eq_distinct)
qed (simp add: reverse_index_def)

lemma restore_task_sel [simp]:
  "td_id (restore_task tasks t) = td_id t" "td_batch (restore_task tasks t) = td_batch t"
  "td_status (restore_task tasks t) = td_status t" "td_seq (restore_task tasks t) = td_seq t"
  "td_blocked_by (restore_task tasks t) = td_blocked_by t"
  by (simp_all add: restore_task_def td_restore_blocks_def Let_def)

lemma restore_task_blocks:
  "td_blocks t = [] \<Longrightarrow> td_blocks (restore_task tasks t) = sort (reverse_index tasks (td_id t))"
  by (simp add: restore_task_def td_restore_blocks_def Let_def)

section \<open>A validated image is a good state\<close>

text \<open>
  Both constructors of images leave the reverse index empty (\<open>decoded_image_fresh\<close>, \<open>captured_fresh\<close>). The
  encoder sorts the edges, but neither the decoder nor \<open>prepare\<close> asks for sorted ones.
\<close>

definition image_fresh :: "task_snapshot \<Rightarrow> bool" where
  "image_fresh sn \<longleftrightarrow> (\<forall>t \<in> set (sn_tasks sn). td_blocks t = [])"

definition snapshot_wf :: "task_snapshot \<Rightarrow> bool" where
  "snapshot_wf sn \<longleftrightarrow> (\<forall>t \<in> set (sn_tasks sn). td_blocks t = [] \<and> sorted (td_blocked_by t))"

lemma candidate_lookup:
  assumes "build_candidate sn = Some s" "snapshot_ok sn"
  shows "map_of (ts_tasks s) i = Some t' \<longleftrightarrow>
      (\<exists>t \<in> set (sn_tasks sn). td_id t = i \<and> restore_task (sn_tasks sn) t = t')"
    and "map_of (ts_batches s) k = Some b \<longleftrightarrow> b \<in> set (sn_batches sn) \<and> bd_id b = k"
    and "ts_next_task_id s = sn_next_task_id sn" "ts_next_batch_id s = sn_next_batch_id sn"
    "ts_current_batch s = sn_current_batch sn" "ts_revision s = sn_revision sn"
    and "distinct (hm_keys (ts_tasks s))" "distinct (hm_keys (ts_batches s))"
proof -
  have d: "distinct (map td_id (sn_tasks sn))" "distinct (map bd_id (sn_batches sn))"
    using assms(2) by (simp_all add: snapshot_ok_def)
  have s: "s = \<lparr>ts_tasks = fold (\<lambda>t m. hm_insert (td_id t) (restore_task (sn_tasks sn) t) m) (sn_tasks sn) [],
         ts_batches = fold (\<lambda>b m. hm_insert (bd_id b) b m) (sn_batches sn) [],
         ts_next_task_id = sn_next_task_id sn, ts_next_batch_id = sn_next_batch_id sn,
         ts_current_batch = sn_current_batch sn, ts_revision = sn_revision sn\<rparr>"
    using assms(1) by (simp add: build_candidate_def split: if_splits)
  show "map_of (ts_tasks s) i = Some t' \<longleftrightarrow>
      (\<exists>t \<in> set (sn_tasks sn). td_id t = i \<and> restore_task (sn_tasks sn) t = t')"
    unfolding s by (simp add: fold_insert_Some_iff [OF d(1)])
  show "map_of (ts_batches s) k = Some b \<longleftrightarrow> b \<in> set (sn_batches sn) \<and> bd_id b = k"
    unfolding s using fold_insert_Some_iff [OF d(2), of "\<lambda>b. b"] by auto
  show "distinct (hm_keys (ts_tasks s))" "distinct (hm_keys (ts_batches s))"
    unfolding s by (simp_all add: fold_insert_distinct)
qed (use assms(1) in \<open>auto simp: build_candidate_def split: if_splits\<close>)

lemma candidate_state_ok:
  assumes s: "build_candidate sn = Some s" and ok: "snapshot_ok sn" and wf: "image_fresh sn"
  shows "state_ok s"
proof -
  note look = candidate_lookup [OF s ok]
  let ?T = "map_of (ts_tasks s)"
  note o = ok [unfolded snapshot_ok_def]
  have d: "distinct (map td_id (sn_tasks sn))" "\<forall>t \<in> set (sn_tasks sn). distinct (td_blocked_by t)"
    using o by blast+
  have edges: "map_edges ?T = snapshot_edges sn"
    by (auto simp: map_edges_def snapshot_edges_def look(1))
  have "linked ?T"
    unfolding linked_def
  proof (intro allI impI)
    fix i t'
    assume "?T i = Some t'"
    then obtain t where t: "t \<in> set (sn_tasks sn)" "td_id t = i" "t' = restore_task (sn_tasks sn) t"
      using look(1) by auto
    have "td_blocks t' = sort (reverse_index (sn_tasks sn) i)"
      using t wf restore_task_blocks [of t] by (simp add: image_fresh_def)
    then have blocks: "set (td_blocks t') = {td_id u | u. u \<in> set (sn_tasks sn) \<and> i \<in> set (td_blocked_by u)}"
      "sorted (td_blocks t')" "distinct (td_blocks t')"
      using distinct_reverse_index [OF d, of i] by (simp_all add: set_reverse_index)
    have bwd: "\<exists>x. ?T j = Some x \<and> i \<in> set (td_blocks x) \<and> td_batch x = td_batch t' \<and>
        td_status t' \<noteq> Deleted \<and> td_status x \<noteq> Deleted" if j: "j \<in> set (td_blocked_by t')" for j
    proof -
      obtain u where u: "u \<in> set (sn_tasks sn)" "td_id u = j" "td_batch u = td_batch t"
        using o t j by fastforce
      let ?x = "restore_task (sn_tasks sn) u"
      have "?T j = Some ?x" using u look(1) by blast
      moreover have "i \<in> set (td_blocks ?x)"
        using u t j wf restore_task_blocks [of u "sn_tasks sn"]
        by (auto simp: image_fresh_def set_reverse_index)
      ultimately show ?thesis using u t o by auto
    qed
    have fwd: "\<exists>x. ?T j = Some x \<and> i \<in> set (td_blocked_by x)" if "j \<in> set (td_blocks t')" for j
      using that look(1) unfolding blocks(1) by fastforce
    show "distinct (td_blocked_by t') \<and>
        sorted (td_blocks t') \<and> distinct (td_blocks t') \<and>
        (\<forall>j \<in> set (td_blocked_by t'). \<exists>u. ?T j = Some u \<and> i \<in> set (td_blocks u) \<and>
           td_batch u = td_batch t' \<and> td_status t' \<noteq> Deleted \<and> td_status u \<noteq> Deleted) \<and>
        (\<forall>j \<in> set (td_blocks t'). \<exists>u. ?T j = Some u \<and> i \<in> set (td_blocked_by u))"
      using t wf d(2) blocks(2,3) bwd fwd by simp
  qed
  then have "deps_ok ?T" using o by (simp add: deps_ok_def edges)
  moreover have "map_of (ts_batches s) (td_batch t) \<noteq> None" if "t \<in> set (sn_tasks sn)" for t
    using o that look(2) by fastforce
  then have "entities_ok s"
    unfolding entities_ok_def using o look by auto
  moreover have "current_ok s"
    unfolding current_ok_def look(2,5) using o by blast
  ultimately show ?thesis by (simp add: state_ok_def)
qed

section \<open>Saving and restoring\<close>

lemma td_restore_blocks_sel [simp]:
  "td_id (td_restore_blocks bs t) = td_id t" "td_batch (td_restore_blocks bs t) = td_batch t"
  "td_status (td_restore_blocks bs t) = td_status t" "td_seq (td_restore_blocks bs t) = td_seq t"
  "td_blocked_by (td_restore_blocks bs t) = td_blocked_by t"
  "td_blocks (td_restore_blocks bs t) = sort bs"
  "valid_task_timestamps (td_restore_blocks bs t) = valid_task_timestamps t"
  "td_restore_blocks cs (td_restore_blocks bs t) = td_restore_blocks cs t"
  by (simp_all add: td_restore_blocks_def valid_task_timestamps_def Let_def split: task_status.split)

definition timestamps_ok :: "task_store_state \<Rightarrow> bool" where
  "timestamps_ok s \<longleftrightarrow> (\<forall>i t. live_task s i = Some t \<longrightarrow> valid_task_timestamps t)"

lemma captured_tasks:
  assumes "state_ok s"
  shows "t' \<in> set (sn_tasks (snapshot_from_state s)) \<longleftrightarrow>
      (\<exists>i t. live_task s i = Some t \<and> t' = td_restore_blocks [] t)"
    and "b \<in> set (sn_batches (snapshot_from_state s)) \<longleftrightarrow>
      (\<exists>i. map_of (ts_batches s) i = Some b)"
    and "distinct (map td_id (sn_tasks (snapshot_from_state s)))"
    and "distinct (map bd_id (sn_batches (snapshot_from_state s)))"
proof -
  have d: "distinct (hm_keys (ts_tasks s))" "distinct (hm_keys (ts_batches s))"
    using assms by (auto simp: state_ok_def entities_ok_def)
  show "t' \<in> set (sn_tasks (snapshot_from_state s)) \<longleftrightarrow>
      (\<exists>i t. live_task s i = Some t \<and> t' = td_restore_blocks [] t)"
    using hm_in_values_iff [OF d(1)]
    by (fastforce simp: snapshot_from_state_def live_task_Some_iff)
  show "b \<in> set (sn_batches (snapshot_from_state s)) \<longleftrightarrow> (\<exists>i. map_of (ts_batches s) i = Some b)"
    using hm_in_values_iff [OF d(2)] by (simp add: snapshot_from_state_def)
  have "distinct (map td_id (hm_values (ts_tasks s)))"
    by (rule hm_distinct_values [OF d(1)]) (rule state_ok_task(1) [OF assms])
  moreover have "distinct (map bd_id (hm_values (ts_batches s)))"
    by (rule hm_distinct_values [OF d(2)]) (rule state_ok_batch(1) [OF assms])
  ultimately have v: "inj_on td_id (set (hm_values (ts_tasks s)))" "distinct (hm_values (ts_tasks s))"
    "inj_on bd_id (set (hm_values (ts_batches s)))" "distinct (hm_values (ts_batches s))"
    unfolding distinct_map [of td_id] distinct_map [of bd_id] by blast+
  let ?live = "filter (\<lambda>t. td_status t \<noteq> Deleted) (hm_values (ts_tasks s))"
  have "distinct (map td_id (map (td_restore_blocks []) ?live))"
  proof -
    have "map td_id (map (td_restore_blocks []) ?live) = map td_id ?live" by simp
    moreover have "inj_on td_id (set ?live)" using v(1) by (rule inj_on_subset) auto
    ultimately show ?thesis using v(2) by (simp only: distinct_map distinct_filter simp_thms)
  qed
  then show "distinct (map td_id (sn_tasks (snapshot_from_state s)))"
    unfolding snapshot_from_state_def task_snapshot.simps
    by (simp only: distinct_map distinct_sort set_sort)
  show "distinct (map bd_id (sn_batches (snapshot_from_state s)))"
    unfolding snapshot_from_state_def task_snapshot.simps
    using v(3,4) by (simp only: distinct_map distinct_sort set_sort simp_thms)
qed

lemma captured_edges:
  assumes "state_ok s"
  shows "snapshot_edges (snapshot_from_state s) = dep_edges s"
proof -
  have "(a, b) \<in> snapshot_edges (snapshot_from_state s) \<longleftrightarrow> (a, b) \<in> dep_edges s" for a b
  proof -
    have "(a, b) \<in> snapshot_edges (snapshot_from_state s) \<longleftrightarrow>
        (\<exists>i t. live_task s i = Some t \<and> td_id t = a \<and> b \<in> set (td_blocked_by t))"
      unfolding snapshot_edges_def Bex_def captured_tasks(1) [OF assms] mem_Collect_eq case_prod_conv
      by (metis td_restore_blocks_sel(1,5))
    also have "\<dots> \<longleftrightarrow> (\<exists>t. map_of (ts_tasks s) a = Some t \<and> b \<in> set (td_blocked_by t))"
    proof
      assume "\<exists>t. map_of (ts_tasks s) a = Some t \<and> b \<in> set (td_blocked_by t)"
      then obtain t where t: "map_of (ts_tasks s) a = Some t" "b \<in> set (td_blocked_by t)" by blast
      then show "\<exists>i t. live_task s i = Some t \<and> td_id t = a \<and> b \<in> set (td_blocked_by t)"
        using linkedD(4) [OF state_ok_linked [OF assms] t] state_ok_task(1) [OF assms t(1)]
        unfolding live_task_Some_iff by blast
    qed (use state_ok_task(1) [OF assms] in \<open>auto simp: live_task_Some_iff\<close>)
    finally show ?thesis unfolding dep_edges_iff .
  qed
  then show ?thesis by auto
qed

lemma captured_ok_iff:
  assumes "state_ok s"
  shows "snapshot_ok (snapshot_from_state s) \<longleftrightarrow> timestamps_ok s"
proof
  note c = captured_tasks [OF assms]
  assume "snapshot_ok (snapshot_from_state s)"
  then have "\<forall>t \<in> set (sn_tasks (snapshot_from_state s)). valid_task_timestamps t"
    by (simp add: snapshot_ok_def)
  then show "timestamps_ok s"
    unfolding timestamps_ok_def using c(1) by (metis td_restore_blocks_sel(7))
next
  note c = captured_tasks [OF assms]
  assume times: "timestamps_ok s"
  let ?sn = "snapshot_from_state s"
  have f: "sn_next_task_id ?sn = ts_next_task_id s" "sn_next_batch_id ?sn = ts_next_batch_id s"
    "sn_current_batch ?sn = ts_current_batch s"
    by (simp_all add: snapshot_from_state_def)
  have tasks: "TaskIdData 0 < td_id t' \<and> td_id t' < sn_next_task_id ?sn \<and> td_status t' \<noteq> Deleted \<and>
        td_batch t' \<in> bd_id ` set (sn_batches ?sn) \<and> valid_task_timestamps t' \<and>
        distinct (td_blocked_by t') \<and>
        (\<forall>d \<in> set (td_blocked_by t'). \<exists>u \<in> set (sn_tasks ?sn). td_id u = d \<and> td_batch u = td_batch t')"
    if t': "t' \<in> set (sn_tasks ?sn)" for t'
  proof -
    obtain i t where t: "live_task s i = Some t" "t' = td_restore_blocks [] t"
      using t' c(1) by blast
    then have i: "map_of (ts_tasks s) i = Some t" "td_status t \<noteq> Deleted"
      by (auto simp: live_task_Some_iff)
    note st = state_ok_task [OF assms i(1)] and l = linkedD [OF state_ok_linked [OF assms] i(1)]
    obtain b where b: "map_of (ts_batches s) (td_batch t) = Some b" using st(4) by blast
    then have "td_batch t \<in> bd_id ` set (sn_batches ?sn)"
      using c(2) state_ok_batch(1) [OF assms b] by force
    moreover have "\<exists>u \<in> set (sn_tasks ?sn). td_id u = d \<and> td_batch u = td_batch t'"
      if "d \<in> set (td_blocked_by t)" for d
    proof -
      obtain u where u: "map_of (ts_tasks s) d = Some u" "td_batch u = td_batch t" "td_status u \<noteq> Deleted"
        using l(4) \<open>d \<in> set (td_blocked_by t)\<close> by blast
      then have "td_restore_blocks [] u \<in> set (sn_tasks ?sn)"
        using c(1) by (auto simp: live_task_Some_iff)
      then show ?thesis using u state_ok_task(1) [OF assms u(1)] t(2)
        by (intro bexI [of _ "td_restore_blocks [] u"]) simp_all
    qed
    moreover have "valid_task_timestamps t" using times t(1) by (auto simp: timestamps_ok_def)
    ultimately show ?thesis using st l(1) i t(2) f by simp
  qed
  have batches: "BatchIdData 0 < bd_id b \<and> bd_id b < sn_next_batch_id ?sn"
    if "b \<in> set (sn_batches ?sn)" for b
    using that c(2) state_ok_batch [OF assms] f by auto
  have current: "sn_current_batch ?sn = Some i \<longleftrightarrow>
      (\<exists>b \<in> set (sn_batches ?sn). bd_id b = i \<and> bd_status b = Active)" for i
    unfolding f(3) state_ok_current [OF assms] using c(2) state_ok_batch(1) [OF assms] by metis
  have "acyclic (snapshot_edges ?sn)"
    unfolding captured_edges [OF assms] by (rule state_ok_acyclic [OF assms])
  moreover have "TaskIdData 0 < sn_next_task_id ?sn" "BatchIdData 0 < sn_next_batch_id ?sn"
    using assms by (auto simp: f state_ok_def entities_ok_def)
  ultimately show "snapshot_ok ?sn"
    unfolding snapshot_ok_def using c(3,4) tasks batches current by blast
qed

text \<open>Sorted edges, which every store has that has not restored an image with unsorted ones.\<close>

definition edges_sorted :: "task_store_state \<Rightarrow> bool" where
  "edges_sorted s \<longleftrightarrow> (\<forall>i t. map_of (ts_tasks s) i = Some t \<longrightarrow> sorted (td_blocked_by t))"

lemma captured_fresh: "state_ok s \<Longrightarrow> image_fresh (snapshot_from_state s)"
  unfolding image_fresh_def by (auto simp: captured_tasks(1))

lemma captured_wf:
  assumes "state_ok s" "edges_sorted s"
  shows "snapshot_wf (snapshot_from_state s)"
  unfolding snapshot_wf_def
  using captured_tasks(1) [OF assms(1)] assms(2)
  by (fastforce simp: live_task_Some_iff edges_sorted_def)

lemma candidate_edges_sorted:
  assumes "build_candidate sn = Some s" "snapshot_ok sn" "snapshot_wf sn"
  shows "edges_sorted s"
  using assms(3) by (auto simp: edges_sorted_def snapshot_wf_def candidate_lookup(1) [OF assms(1,2)])

lemma restored_task:
  assumes "state_ok s" "live_task s i = Some t"
  shows "restore_task (sn_tasks (snapshot_from_state s)) (td_restore_blocks [] t) = t"
proof -
  let ?tasks = "sn_tasks (snapshot_from_state s)"
  note c = captured_tasks [OF assms(1)]
  have i: "map_of (ts_tasks s) i = Some t" "td_id t = i"
    using assms(2) state_ok_task(1) [OF assms(1)] by (auto simp: live_task_Some_iff)
  note l = state_ok_linked [OF assms(1)]
  have "set (reverse_index ?tasks i) = set (td_blocks t)"
  proof -
    have "j \<in> set (reverse_index ?tasks i) \<longleftrightarrow> j \<in> set (td_blocks t)" for j
    proof
      assume "j \<in> set (reverse_index ?tasks i)"
      then obtain k u where "live_task s k = Some u" "td_id u = j" "i \<in> set (td_blocked_by u)"
        by (auto simp: set_reverse_index c(1))
      then show "j \<in> set (td_blocks t)"
        using linkedD(4) [OF l, of k u i] state_ok_task(1) [OF assms(1), of k u] i
        by (auto simp: live_task_Some_iff)
    next
      assume "j \<in> set (td_blocks t)"
      then obtain u where u: "map_of (ts_tasks s) j = Some u" "i \<in> set (td_blocked_by u)"
        using linkedD(5) [OF l i(1)] by blast
      then have "live_task s j = Some u" "td_id u = j"
        using linkedD(4) [OF l u] state_ok_task(1) [OF assms(1) u(1)] by (auto simp: live_task_Some_iff)
      moreover have "td_restore_blocks [] u \<in> set ?tasks"
        using c(1) calculation(1) by blast
      ultimately show "j \<in> set (reverse_index ?tasks i)"
        unfolding set_reverse_index mem_Collect_eq using u(2)
        by (intro exI [of _ "td_restore_blocks [] u"]) simp
    qed
    then show ?thesis by auto
  qed
  moreover have "distinct (reverse_index ?tasks i)"
    by (rule distinct_reverse_index [OF c(3)])
      (use c(1) linkedD(1) [OF l] in \<open>fastforce simp: live_task_Some_iff\<close>)
  ultimately have s: "sort (reverse_index ?tasks i) = td_blocks t"
    using linkedD(2,3) [OF l i(1)] by (intro sorted_distinct_set_unique) simp_all
  show ?thesis
  proof (cases "reverse_index ?tasks i = []")
    case True
    then have "td_blocks t = []" using s by simp
    then have "td_restore_blocks [] t = t" by (cases t) (simp add: td_restore_blocks_def)
    then show ?thesis using True i(2) by (simp add: restore_task_def)
  next
    case False
    then show ?thesis
      using s i(2) by (cases t) (simp add: restore_task_def td_restore_blocks_def Let_def)
  qed
qed

text \<open>The whole round trip.\<close>

lemma restore_captured:
  assumes "state_ok s" "timestamps_ok s"
  obtains s' where "prepare (snapshot_from_state s) = Ok s'"
    "\<And>i. map_of (ts_tasks s') i = live_task s i"
    "map_of (ts_batches s') = map_of (ts_batches s)"
    "ts_next_task_id s' = ts_next_task_id s" "ts_next_batch_id s' = ts_next_batch_id s"
    "ts_current_batch s' = ts_current_batch s" "ts_revision s' = ts_revision s"
proof -
  let ?sn = "snapshot_from_state s"
  note c = captured_tasks [OF assms(1)]
  have ok: "snapshot_ok ?sn" using assms captured_ok_iff by blast
  then obtain s' where s': "prepare ?sn = Ok s'" "build_candidate ?sn = Some s'"
    by (rule_tac sn = ?sn in prepare_cases) auto
  note look = candidate_lookup [OF s'(2) ok]
  have "map_of (ts_tasks s') i = Some t \<longleftrightarrow> live_task s i = Some t" for i t
  proof
    assume "map_of (ts_tasks s') i = Some t"
    then obtain t' where t': "t' \<in> set (sn_tasks ?sn)" "td_id t' = i" "restore_task (sn_tasks ?sn) t' = t"
      unfolding look(1) by blast
    then obtain j u where u: "live_task s j = Some u" "t' = td_restore_blocks [] u"
      using c(1) by blast
    then have "j = i" using t'(2) state_ok_task(1) [OF assms(1), of j u] by (simp add: live_task_Some_iff)
    then show "live_task s i = Some t" using u t'(3) restored_task [OF assms(1) u(1)] by simp
  next
    assume t: "live_task s i = Some t"
    then have "td_restore_blocks [] t \<in> set (sn_tasks ?sn)" using c(1) by blast
    moreover have "td_id t = i" using t state_ok_task(1) [OF assms(1)] by (auto simp: live_task_Some_iff)
    ultimately show "map_of (ts_tasks s') i = Some t"
      unfolding look(1) using restored_task [OF assms(1) t]
      by (intro bexI [of _ "td_restore_blocks [] t"]) simp_all
  qed
  then have "map_of (ts_tasks s') i = live_task s i" for i
    by (cases "live_task s i") (metis option.exhaust, metis)
  moreover have "map_of (ts_batches s') k = Some b \<longleftrightarrow> map_of (ts_batches s) k = Some b" for k b
    unfolding look(2) c(2) using state_ok_batch(1) [OF assms(1)] by blast
  then have "map_of (ts_batches s') = map_of (ts_batches s)"
    by (intro ext) (metis option.exhaust)
  ultimately show thesis
    using that s'(1) look(3-6) by (simp add: snapshot_from_state_def)
qed

text \<open>No image makes \<open>prepare\<close> panic, and what it accepts can be installed.\<close>

lemma prepare_state_ok:
  assumes "prepare sn = Ok s" "image_fresh sn"
  shows "state_ok s"
  by (rule prepare_cases [of sn]) (use assms candidate_state_ok in auto)

section \<open>Every state the store can be in\<close>

text \<open>
  A mutex-guarded store starts empty; from then on it runs commands and installs prepared images, of any
  kind that \<open>prepare\<close> accepts: with unsorted edges as well.
\<close>

inductive store_reachable :: "task_store_state \<Rightarrow> bool" where
  start: "store_reachable empty_state"
| command: "store_reachable s \<Longrightarrow> store_reachable (step_store c s)"
| restore: "store_reachable s \<Longrightarrow> image_fresh sn \<Longrightarrow> prepare_restore s sn = Ok token \<Longrightarrow>
    store_reachable (commit_restore token s)"

lemma store_reachable_ok: "store_reachable s \<Longrightarrow> state_ok s"
proof (induction rule: store_reachable.induct)
  case start
  show ?case by (rule state_ok_empty)
next
  case (command s c)
  from command.IH show ?case by (rule store.step_inv)
next
  case (restore s sn token)
  then show ?case by (simp add: prepare_restore_def commit_restore_def prepare_state_ok)
qed

end
