(* ===== verification/Task_Evolution.thy ===== *)
theory Task_Evolution
  imports Task_Restore
begin

text \<open>
  How commands change the tasks that exist: identity, batch and sequence number are fixed for life,
  a tombstone stays a tombstone, and under a clock that does not run backwards the time stamps stay
  restorable. Sorted edges stay sorted. Two invariants follow: sequence numbers are unique in a batch (\<open>seqs_ok\<close>), and every
  image the store captures is one it accepts back (\<open>clock_ok\<close>).
\<close>

section \<open>One task\<close>

definition time_ok :: "u64 \<Rightarrow> task_data \<Rightarrow> bool" where
  "time_ok now t \<longleftrightarrow> td_updated_at t \<le> now \<and> (td_status t = Deleted \<or> valid_task_timestamps t)"

lemma valid_iff:
  "valid_task_timestamps t \<longleftrightarrow>
     (case td_status t of
        Pending \<Rightarrow> td_started_at t = None \<and> td_completed_at t = None \<and> td_created_at t \<le> td_updated_at t
      | InProgress \<Rightarrow> td_completed_at t = None \<and>
          (\<exists>a. td_started_at t = Some a \<and> td_created_at t \<le> a \<and> a \<le> td_updated_at t)
      | Completed \<Rightarrow> (\<exists>a b. td_started_at t = Some a \<and> td_completed_at t = Some b \<and>
          td_created_at t \<le> a \<and> a \<le> b \<and> b \<le> td_updated_at t)
      | Deleted \<Rightarrow> False)"
  by (cases "td_status t"; cases "td_started_at t"; cases "td_completed_at t")
    (auto simp: valid_task_timestamps_def Let_def not_less)

definition evolve :: "u64 \<Rightarrow> task_data \<Rightarrow> task_data \<Rightarrow> bool" where
  "evolve now t t' \<longleftrightarrow>
     td_id t' = td_id t \<and> td_batch t' = td_batch t \<and> td_seq t' = td_seq t \<and>
     (td_status t = Deleted \<longrightarrow> td_status t' = Deleted) \<and>
     (sorted (td_blocked_by t) \<longrightarrow> sorted (td_blocked_by t')) \<and>
     (time_ok now t \<longrightarrow> time_ok now t')"

lemma evolve_refl [simp]: "evolve now t t"
  by (simp add: evolve_def)

lemma evolve_trans: "evolve now t u \<Longrightarrow> evolve now u v \<Longrightarrow> evolve now t v"
  by (simp add: evolve_def)

text \<open>An edit that stamps \<open>now\<close> and leaves status, creation, start and completion alone.\<close>

lemma evolve_touch:
  assumes "td_id t' = td_id t" "td_batch t' = td_batch t" "td_seq t' = td_seq t"
    "td_status t' = td_status t" "td_created_at t' = td_created_at t"
    "td_started_at t' = td_started_at t" "td_completed_at t' = td_completed_at t"
    "td_updated_at t' = now \<or> td_updated_at t' = td_updated_at t"
    "sorted (td_blocked_by t) \<longrightarrow> sorted (td_blocked_by t')"
  shows "evolve now t t'"
  using assms
  by (cases "td_status t") (auto simp: evolve_def time_ok_def valid_iff)

lemma evolve_edits [simp]:
  "evolve now t (td_set_priority p now t)" "evolve now t (td_add_tag tag now t)"
  "evolve now t (td_remove_tag tag now t)" "evolve now t (td_add_blocked_by i now t)"
  "evolve now t (td_add_blocks i now t)" "evolve now t (td_remove_blocked_by i now t)"
  "evolve now t (td_remove_blocks i now t)" "evolve now t (snd (td_set_description x now t))"
  "evolve now t (snd (td_set_subject x now t))"
  by (rule evolve_touch; simp add: td_set_priority_def td_add_tag_def td_remove_tag_def
      td_add_blocked_by_def td_add_blocks_def td_remove_blocked_by_def td_remove_blocks_def
      td_set_description_def td_set_subject_def Let_def sorted_wrt_filter)+

lemma evolve_deleted [simp]: "evolve now t (td_mark_deleted now t)"
  by (simp add: evolve_def td_mark_deleted_def time_ok_def)

lemma evolve_transition [simp]: "evolve now t (snd (td_transition_to to now t))"
  by (cases "td_status t"; cases to; cases "td_started_at t")
    (auto simp: evolve_def td_transition_to_def time_ok_def valid_iff Let_def)

lemma evolve_reopen [simp]: "evolve now t (snd (td_reopen_from_completed to now t))"
  by (cases "td_status t"; cases to)
    (auto simp: evolve_def td_reopen_from_completed_def time_ok_def valid_iff Let_def)

lemma evolve_transition_task [simp]: "evolve now t (snd (transition_task to now t))"
  by (simp add: transition_task_def)

fun command_time :: "task_command \<Rightarrow> u64 option" where
  "command_time (CmdCreateBatch spec now) = Some now"
| "command_time (CmdCreateTask spec now) = Some now"
| "command_time (CmdTransition i to now) = Some now"
| "command_time (CmdTransitionWithProgress i to now) = Some now"
| "command_time (CmdSetSubject i x now) = Some now"
| "command_time (CmdSetDescription i x now) = Some now"
| "command_time (CmdSetPriority i p now) = Some now"
| "command_time (CmdAddTag i x now) = Some now"
| "command_time (CmdRemoveTag i x now) = Some now"
| "command_time (CmdAddDependency i j now) = Some now"
| "command_time (CmdRemoveDependency i j now) = Some now"
| "command_time (CmdReplaceDependencies i js now) = Some now"
| "command_time (CmdDelete i now) = Some now"
| "command_time (CmdDeleteWithProgress i now) = Some now"
| "command_time _ = None"

fun creates_or_clears :: "task_command \<Rightarrow> bool" where
  "creates_or_clears CmdClear = True"
| "creates_or_clears (CmdCreateTask spec now) = True"
| "creates_or_clears _ = False"

fun moves :: "task_command \<Rightarrow> bool" where
  "moves (CmdTransition i to now) = True"
| "moves (CmdTransitionWithProgress i to now) = True"
| "moves _ = False"

lemma snd_map_reply [simp]: "snd (map_reply f res) = snd res"
  by (simp add: map_reply_def split: prod.split outcome.split)

section \<open>The store\<close>

text \<open>
  Commands change a task only by the entity operations. So a relation between a task and what becomes of it that
  holds for each of these operations holds for every command: \<open>task_change\<close>, and \<open>task_change_moves\<close> where the
  status transitions are included.
\<close>

definition changes :: "(task_data \<Rightarrow> task_data \<Rightarrow> bool) \<Rightarrow> task_store_state \<Rightarrow> task_store_state \<Rightarrow> bool" where
  "changes P s s' \<longleftrightarrow>
     (\<forall>i t'. map_of (ts_tasks s') i = Some t' \<longrightarrow>
        (\<exists>t. map_of (ts_tasks s) i = Some t \<and> P t t'))"

locale task_change =
  fixes becomes :: "u64 \<Rightarrow> task_data \<Rightarrow> task_data \<Rightarrow> bool"
  assumes becomes_refl [simp]: "becomes now t t"
    and becomes_trans: "becomes now t u \<Longrightarrow> becomes now u v \<Longrightarrow> becomes now t v"
    and becomes_edits [simp]:
      "becomes now t (td_set_priority p now t)" "becomes now t (td_add_tag tag now t)"
      "becomes now t (td_remove_tag tag now t)" "becomes now t (td_add_blocked_by i now t)"
      "becomes now t (td_add_blocks i now t)" "becomes now t (td_remove_blocked_by i now t)"
      "becomes now t (td_remove_blocks i now t)" "becomes now t (snd (td_set_description x now t))"
      "becomes now t (snd (td_set_subject x now t))"
    and becomes_deleted [simp]: "becomes now t (td_mark_deleted now t)"
begin

abbreviation evolves :: "u64 \<Rightarrow> task_store_state \<Rightarrow> task_store_state \<Rightarrow> bool" where
  "evolves now \<equiv> changes (becomes now)"

lemma becomes_drop [simp]:
  "becomes now t (drop_blocked_by ds now t)" "becomes now t (drop_blocks ds now t)"
  by (induction ds arbitrary: t)
    (simp_all, (metis becomes_trans becomes_edits(6,7))+)

lemma evolves_same_tasks [simp]: "ts_tasks s' = ts_tasks s \<Longrightarrow> evolves now s s'"
  by (auto simp: changes_def)

lemma evolves_trans: "evolves now s s1 \<Longrightarrow> evolves now s1 s2 \<Longrightarrow> evolves now s s2"
  unfolding changes_def using becomes_trans by blast

lemma evolves_tasks_cong: "ts_tasks s1 = ts_tasks s2 \<Longrightarrow> evolves now s s1 = evolves now s s2"
  by (simp add: changes_def)

lemma evolves_put:
  "map_of (ts_tasks s) i = Some t \<Longrightarrow> becomes now t t' \<Longrightarrow> evolves now s (put_task i t' s)"
  by (auto simp: changes_def hmap_simps)

lemma evolves_put_iff [simp]:
  "map_of (ts_tasks s) i = Some t \<Longrightarrow> evolves now s (put_task i t' s) \<longleftrightarrow> becomes now t t'"
  by (auto simp: changes_def hmap_simps split: if_splits)

lemma evolves_modify_task:
  "(\<And>t. becomes now t (f t)) \<Longrightarrow> modify_task i f s = Some s' \<Longrightarrow> evolves now s s'"
  by (auto simp: modify_task_Some_iff intro!: evolves_put)

lemma evolves_modify_tasks:
  assumes "\<And>t. becomes now t (f t)"
  shows "modify_tasks is f s = Some s' \<Longrightarrow> evolves now s s'"
proof (induction "is" arbitrary: s)
  case (Cons i "is")
  then obtain s1 where s1: "modify_task i f s = Some s1" "modify_tasks is f s1 = Some s'"
    by (auto split: option.splits)
  then show ?case
    using evolves_modify_task [OF assms, of i s s1] Cons.IH [OF s1(2)] evolves_trans by blast
qed simp

lemma evolves_commit [simp]: "evolves now s (snd (commit res r s')) = evolves now s s'"
  by (simp add: commit_def changes_def)

lemma evolves_with_revision:
  "(\<And>r. evolves now s (snd (k r))) \<Longrightarrow> evolves now s (snd (with_revision s k))"
  by (auto simp: with_revision_def split: outcome.split)

lemma evolves_link:
  "link_edge a b now s = Some s' \<Longrightarrow> evolves now s s'"
  unfolding link_edge_def
  by (auto split: option.splits dest!: evolves_modify_task [OF becomes_edits(4)]
      evolves_modify_task [OF becomes_edits(5)] elim: evolves_trans)

lemma evolves_unlink:
  "unlink_edge a b now s = Some s' \<Longrightarrow> evolves now s s'"
  unfolding unlink_edge_def
  by (auto split: option.splits dest!: evolves_modify_task [OF becomes_edits(6)]
      evolves_modify_task [OF becomes_edits(7)] elim: evolves_trans)

lemma evolves_link_all: "link_all a bs now s = Some s' \<Longrightarrow> evolves now s s'"
  by (induction bs arbitrary: s) (auto split: option.splits dest: evolves_link intro: evolves_trans)

lemma evolves_unlink_all: "unlink_all a bs now s = Some s' \<Longrightarrow> evolves now s s'"
  by (induction bs arbitrary: s) (auto split: option.splits dest: evolves_unlink intro: evolves_trans)

lemma evolves_commit_task: "evolves now s s' \<Longrightarrow> evolves now s (snd (commit_task i es r s'))"
  by (simp add: commit_task_def split: option.split)

subsection \<open>Every command except clearing and creation\<close>

lemma evolves_put_batch [simp]: "evolves now s (put_batch i b s)"
  by simp

lemma evolves_edit:
  assumes "map_of (ts_tasks s) i = Some t" "becomes now t t'"
  shows "evolves now s (snd (commit res r (put_task i t' s)))"
  using assms by (simp add: evolves_put)

lemma evolves_set_subject: "evolves now s (snd (set_subject i x now s))"
proof -
  have step: "becomes now t t'" if "td_set_subject x now t = (r, t')" for t r t'
    using becomes_edits(9) [of now t x] that by simp
  then show ?thesis
    unfolding set_subject_def
    by (auto split: option.split outcome.split prod.split intro!: evolves_with_revision dest: step)
qed

lemma evolves_set_description: "evolves now s (snd (set_description i x now s))"
proof -
  have step: "becomes now t t'" if "td_set_description x now t = (r, t')" for t r t'
    using becomes_edits(8) [of now t x] that by simp
  then show ?thesis
    unfolding set_description_def
    by (auto split: option.split prod.split intro!: evolves_with_revision dest: step)
qed

lemma evolves_simple_edits:
  "evolves now s (snd (set_priority i p now s))"
  "evolves now s (snd (add_tag i tag now s))"
  "evolves now s (snd (remove_tag i tag now s))"
  by (auto simp: set_priority_def add_tag_def remove_tag_def Let_def split: option.split
      intro!: evolves_with_revision)

lemma evolves_batch_commands:
  "evolves now s (snd (pause_batch b s))" "evolves now s (snd (resume_batch b s))"
  "evolves now s (snd (archive_batch b s))" "evolves now s (snd (record_batch_turn b turn active s))"
  by (auto simp: pause_batch_def resume_batch_def archive_batch_def record_batch_turn_def move_batch_def
      split: option.split outcome.split prod.split intro!: evolves_with_revision)

lemma evolves_create_batch: "evolves now s (snd (create_batch spec t s))"
  unfolding create_batch_def archive_current_def
  by (auto simp: Let_def split: option.split outcome.split prod.split intro!: evolves_with_revision)

lemma evolves_dependency_commands:
  "evolves now s (snd (add_dependency i j now s))"
  "evolves now s (snd (remove_dependency i j now s))"
  unfolding add_dependency_def remove_dependency_def
  by (auto split: option.split
      intro!: evolves_with_revision evolves_commit_task intro: evolves_link evolves_unlink)

lemma evolves_replace_dependencies: "evolves now s (snd (replace_dependencies i js now s))"
proof -
  have "evolves now s (snd (apply_replacement i cur ids now s))" for cur ids
    unfolding apply_replacement_def Let_def
    by (auto split: option.split
        intro!: evolves_with_revision evolves_commit_task
        intro: evolves_unlink_all evolves_trans [OF evolves_unlink_all evolves_link_all])
  then show ?thesis
    unfolding replace_dependencies_def Let_def by (auto split: option.split outcome.split)
qed

lemma evolves_auto:
  "evolves now s (snd (auto_close b s))" "evolves now s (snd (auto_reopen b to s))"
  unfolding auto_close_def auto_reopen_def Let_def
  by (auto split: option.split outcome.split prod.split)

lemma evolves_finish_progress:
  "evolves now s s' \<Longrightarrow> evolves now s (snd (finish_progress s s' b i c r es rv))"
  by (simp add: finish_progress_def split: option.split)

lemma evolves_delete_task: "evolves now s (snd (delete_task i now s))"
proof -
  have "evolves now s s1"
    if "modify_tasks is (td_remove_blocks i now) s = Some s1" for "is" s1
    using that by (rule evolves_modify_tasks [rotated]) simp
  moreover have "evolves now s s2"
    if "modify_tasks is (td_remove_blocks i now) s = Some s1"
      "modify_tasks js (td_remove_blocked_by i now) s1 = Some s2" for "is" js s1 s2
    by (rule evolves_trans [OF evolves_modify_tasks [OF _ that(1)] evolves_modify_tasks [OF _ that(2)]])
      simp_all
  moreover have "evolves now s (put_task i (td_mark_deleted now (drop_blocks bs now (drop_blocked_by ds now t))) s2)"
    if "evolves now s s2" "map_of (ts_tasks s2) i = Some t" for s2 t bs ds
    by (rule evolves_trans [OF that(1)], rule evolves_put [OF that(2)])
      (metis becomes_trans becomes_drop becomes_deleted)
  ultimately show ?thesis
    unfolding delete_task_def Let_def
    by (auto split: option.split intro!: evolves_with_revision; metis)
qed

lemma evolves_delete_with_progress: "evolves now s (snd (delete_with_progress i now s))"
proof -
  have "evolves now s s2"
    if "delete_task i now s = (r, s1)" "auto_close b s1 = (g, s2)" for r s1 b g s2
    using evolves_delete_task [of now s i] evolves_auto(1) [of now s1 b] that evolves_trans by fastforce
  then show ?thesis
    unfolding delete_with_progress_def
    by (auto split: option.split outcome.split prod.split
        intro!: evolves_with_revision evolves_finish_progress)
qed

text \<open>The commands that move no task to another status, except to \<open>Deleted\<close>.\<close>

lemma step_store_evolves_still:
  assumes "\<not> creates_or_clears c" "\<not> moves c" "command_time c = None \<or> command_time c = Some now"
  shows "evolves now s (step_store c s)"
  using assms
  by (cases c)
    (simp_all add: step_store_def evolves_set_subject evolves_set_description evolves_simple_edits
      evolves_batch_commands evolves_create_batch evolves_dependency_commands
      evolves_replace_dependencies evolves_delete_task evolves_delete_with_progress)

end

locale task_change_moves = task_change becomes for becomes +
  assumes becomes_transition [simp]: "becomes now t (snd (td_transition_to to now t))"
    and becomes_reopen [simp]: "becomes now t (snd (td_reopen_from_completed to now t))"
begin

lemma becomes_transition_task [simp]: "becomes now t (snd (transition_task to now t))"
  by (simp add: transition_task_def)

lemma evolves_transition: "evolves now s (snd (transition i to now s))"
proof -
  have step: "becomes now t t'" if "td_transition_to to now t = (r, t')" for t t' r
    using becomes_transition [of now t to] that by simp
  then show ?thesis
    unfolding transition_def
    by (auto split: option.split outcome.split prod.split intro!: evolves_with_revision dest: step)
qed

lemma evolves_transition_with_progress:
  "evolves now s (snd (transition_with_progress i to now s))"
proof -
  have "evolves now s s2"
    if "map_of (ts_tasks s) i = Some t" "transition_task to now t = (r, t')"
      "auto_reopen b to (put_task i t' s) = (f, s1)" "auto_close b s1 = (g, s2)" for t t' r b f s1 g s2
  proof -
    have "evolves now s (put_task i t' s)"
      using that(1,2) becomes_transition_task [of now t to] by (intro evolves_put) simp_all
    moreover have "evolves now (put_task i t' s) s1" "evolves now s1 s2"
      using evolves_auto(2) [of now "put_task i t' s" b to] evolves_auto(1) [of now s1 b] that(3,4)
      by simp_all
    ultimately show ?thesis using evolves_trans by blast
  qed
  then show ?thesis
    unfolding transition_with_progress_def
    by (auto split: option.split outcome.split prod.split
        intro!: evolves_with_revision evolves_finish_progress)
qed

lemma step_store_evolves:
  assumes "\<not> creates_or_clears c" "command_time c = None \<or> command_time c = Some now"
  shows "evolves now s (step_store c s)"
  using assms
  by (cases c)
    (simp_all add: step_store_def evolves_set_subject evolves_set_description evolves_simple_edits
      evolves_batch_commands evolves_create_batch evolves_dependency_commands
      evolves_replace_dependencies evolves_transition evolves_transition_with_progress
      evolves_delete_task evolves_delete_with_progress)

end

interpretation ev: task_change_moves evolve
  by unfold_locales (fact evolve_refl evolve_trans evolve_edits evolve_deleted evolve_transition evolve_reopen)+

abbreviation evolves :: "u64 \<Rightarrow> task_store_state \<Rightarrow> task_store_state \<Rightarrow> bool" where
  "evolves now \<equiv> changes (evolve now)"

text \<open>No command but a transition makes a task run.\<close>

definition keeps_waiting :: "u64 \<Rightarrow> task_data \<Rightarrow> task_data \<Rightarrow> bool" where
  "keeps_waiting now t t' \<longleftrightarrow> (td_status t' = InProgress \<longrightarrow> td_status t = InProgress)"

interpretation waiting: task_change keeps_waiting
  by unfold_locales
    (auto simp: keeps_waiting_def td_set_priority_def td_add_tag_def td_remove_tag_def td_add_blocked_by_def
      td_add_blocks_def td_remove_blocked_by_def td_remove_blocks_def td_set_description_def td_set_subject_def
      Let_def)

text \<open>What clearing and creation do to the tasks.\<close>

lemma step_clear_tasks: "ts_tasks (step_store CmdClear s) \<in> {[], ts_tasks s}"
  by (auto simp: step_store_def clear_store_def Let_def with_revision_def commit_def split: outcome.split)

lemma step_create_tasks:
  "ts_tasks (step_store (CmdCreateTask spec now) s) = ts_tasks s \<or>
   (\<exists>b q. next_seq s b = Some q \<and> ts_tasks (step_store (CmdCreateTask spec now) s) =
      hm_insert (ts_next_task_id s) (cr_value (td_create (ts_next_task_id s) b q spec now)) (ts_tasks s))"
  by (auto simp: step_store_def create_task_def Let_def with_revision_def commit_def
      split: outcome.split option.split)

lemma create_task_cases:
  obtains "ts_tasks (step_store (CmdCreateTask spec now) s) = ts_tasks s"
  | b q where "next_seq s b = Some q"
      "ts_tasks (step_store (CmdCreateTask spec now) s) =
        hm_insert (ts_next_task_id s) (cr_value (td_create (ts_next_task_id s) b q spec now)) (ts_tasks s)"
  using step_create_tasks [of spec now s] by blast

section \<open>Sequence numbers\<close>

definition seqs_ok :: "task_store_state \<Rightarrow> bool" where
  "seqs_ok s \<longleftrightarrow>
     (\<forall>i j t u. map_of (ts_tasks s) i = Some t \<longrightarrow> map_of (ts_tasks s) j = Some u \<longrightarrow>
        td_batch t = td_batch u \<longrightarrow> td_seq t = td_seq u \<longrightarrow> i = j) \<and>
     (\<forall>i t. map_of (ts_tasks s) i = Some t \<longrightarrow> td_seq t \<noteq> 0)"

lemma seqs_ok_evolves: "seqs_ok s \<Longrightarrow> evolves now s s' \<Longrightarrow> seqs_ok s'"
  unfolding seqs_ok_def changes_def evolve_def by metis

lemma fold_max_ge: "(x :: u64) \<in> set xs \<Longrightarrow> x \<le> fold max xs a"
  and fold_max_ge_start: "(a :: u64) \<le> fold max xs a"
proof -
  have *: "a \<le> fold max xs a" for a :: u64 and xs
    by (induction xs arbitrary: a) (auto intro: order_trans [OF max.cobounded2])
  then show "a \<le> fold max xs a" .
  show "x \<in> set xs \<Longrightarrow> x \<le> fold max xs a"
  proof (induction xs arbitrary: a)
    case (Cons y xs)
    then show ?case using * [of "max x a" xs] by auto
  qed simp
qed

lemma next_seq_fresh:
  assumes "next_seq s b = Some q" "map_of (ts_tasks s) i = Some t" "td_batch t = b"
  shows "td_seq t < q"
proof -
  have "td_seq t \<in> set (map td_seq (filter (\<lambda>t. td_batch t = b) (hm_values (ts_tasks s))))"
    using assms(2,3) by (force dest: map_of_SomeD)
  then have "td_seq t \<le> fold max (map td_seq (filter (\<lambda>t. td_batch t = b) (hm_values (ts_tasks s)))) 0"
    by (rule fold_max_ge)
  also have "\<dots> < q"
    using assms(1) unfolding next_seq_def by (rule checked_add_one_less)
  finally show ?thesis .
qed

lemma td_create_sel [simp]:
  "td_id (cr_value (td_create i b q spec now)) = i"
  "td_batch (cr_value (td_create i b q spec now)) = b"
  "td_seq (cr_value (td_create i b q spec now)) = q"
  "td_blocked_by (cr_value (td_create i b q spec now)) = []"
  "time_ok now (cr_value (td_create i b q spec now))"
  by (simp_all add: td_create_def uncommitted_def time_ok_def valid_iff)

lemma seqs_ok_step:
  assumes "seqs_ok s"
  shows "seqs_ok (step_store c s)"
proof (cases "creates_or_clears c")
  case True
  then consider "c = CmdClear" | spec now where "c = CmdCreateTask spec now"
    by (cases c) auto
  then show ?thesis
  proof cases
    case 1
    then show ?thesis using step_clear_tasks [of s] assms by (auto simp: seqs_ok_def)
  next
    case 2
    show ?thesis
    proof (rule create_task_cases [of spec now s])
      assume "ts_tasks (step_store (CmdCreateTask spec now) s) = ts_tasks s"
      then show ?thesis using assms 2 by (simp add: seqs_ok_def)
    next
      fix b q assume q: "next_seq s b = Some q"
        "ts_tasks (step_store (CmdCreateTask spec now) s) =
          hm_insert (ts_next_task_id s) (cr_value (td_create (ts_next_task_id s) b q spec now)) (ts_tasks s)"
      let ?n = "ts_next_task_id s" and ?T = "map_of (ts_tasks s)"
      let ?new = "cr_value (td_create ?n b q spec now)"
      have fresh: "td_seq t \<noteq> q" if "?T i = Some t" "td_batch t = b" for i t
        using next_seq_fresh [OF q(1) that] by simp
      have nz: "q \<noteq> 0"
        using checked_add_one_pos q(1) unfolding next_seq_def by fastforce
      have "i = j"
        if a: "(?T(?n \<mapsto> ?new)) i = Some t" "(?T(?n \<mapsto> ?new)) j = Some u"
          "td_batch t = td_batch u" "td_seq t = td_seq u" for i j t u
      proof (cases "i = ?n \<or> j = ?n")
        case True
        then show ?thesis using a fresh [of i t] fresh [of j u] by (auto split: if_splits)
      next
        case False
        then have "?T i = Some t" "?T j = Some u" using a by simp_all
        then show ?thesis using assms a(3,4) unfolding seqs_ok_def by blast
      qed
      moreover have "td_seq t \<noteq> 0" if "(?T(?n \<mapsto> ?new)) i = Some t" for i t
        using that nz assms unfolding seqs_ok_def by (auto split: if_splits)
      ultimately show ?thesis unfolding seqs_ok_def 2 q(2) hmap_simps by blast
    qed
  qed
next
  case False
  obtain now where "command_time c = None \<or> command_time c = Some now"
    by (cases "command_time c") auto
  then show ?thesis using seqs_ok_evolves [OF assms ev.step_store_evolves [OF False]] by blast
qed

lemma seqs_ok_run: "seqs_ok s \<Longrightarrow> seqs_ok (run_store cs s)"
  unfolding run_store_def by (induction cs arbitrary: s) (auto intro: seqs_ok_step)

section \<open>Time stamps\<close>

definition clock_ok :: "u64 \<Rightarrow> task_store_state \<Rightarrow> bool" where
  "clock_ok now s \<longleftrightarrow> (\<forall>i t. map_of (ts_tasks s) i = Some t \<longrightarrow> time_ok now t)"

lemma clock_ok_later: "clock_ok now s \<Longrightarrow> now \<le> later \<Longrightarrow> clock_ok later s"
  unfolding clock_ok_def time_ok_def by (meson order_trans)

lemma clock_ok_evolves: "clock_ok now s \<Longrightarrow> evolves now s s' \<Longrightarrow> clock_ok now s'"
  unfolding clock_ok_def changes_def evolve_def by blast

text \<open>The clock readings of a history do not decrease; the result is the last reading.\<close>

fun clock_after :: "u64 \<Rightarrow> task_command list \<Rightarrow> u64 option" where
  "clock_after now [] = Some now"
| "clock_after now (c # cs) =
     (case command_time c of
        None \<Rightarrow> clock_after now cs
      | Some t \<Rightarrow> if now \<le> t then clock_after t cs else None)"

lemma clock_ok_step:
  assumes "clock_ok now s" "command_time c = None \<or> command_time c = Some now"
  shows "clock_ok now (step_store c s)"
proof (cases "creates_or_clears c")
  case True
  then consider "c = CmdClear" | spec where "c = CmdCreateTask spec now"
    using assms(2) by (cases c) auto
  then show ?thesis
  proof cases
    case 1
    then show ?thesis using step_clear_tasks [of s] assms by (auto simp: clock_ok_def)
  next
    case 2
    show ?thesis
      by (rule create_task_cases [of spec now s])
        (use assms 2 in \<open>auto simp: clock_ok_def hmap_simps split: if_splits\<close>)
  qed
next
  case False
  then show ?thesis using ev.step_store_evolves [OF False assms(2)] clock_ok_evolves assms(1) by blast
qed

lemma clock_ok_run:
  "clock_ok now s \<Longrightarrow> clock_after now cs = Some later \<Longrightarrow> clock_ok later (run_store cs s)"
proof (induction cs arbitrary: now s)
  case (Cons c cs)
  show ?case
  proof (cases "command_time c")
    case None
    then show ?thesis using Cons clock_ok_step [of now s c] by (simp add: run_store_def)
  next
    case (Some t)
    then show ?thesis
      using Cons clock_ok_step [of t s c] clock_ok_later [of now s t]
      by (auto simp: run_store_def split: if_splits)
  qed
qed (simp add: run_store_def)

lemma clock_ok_timestamps: "clock_ok now s \<Longrightarrow> timestamps_ok s"
  by (auto simp: clock_ok_def timestamps_ok_def time_ok_def live_task_Some_iff)

section \<open>Sorted edges\<close>

lemma edges_sorted_step:
  assumes "edges_sorted s"
  shows "edges_sorted (step_store c s)"
proof (cases "creates_or_clears c")
  case True
  then consider "c = CmdClear" | spec now where "c = CmdCreateTask spec now"
    by (cases c) auto
  then show ?thesis
  proof cases
    case 1
    then show ?thesis using step_clear_tasks [of s] assms by (auto simp: edges_sorted_def)
  next
    case 2
    show ?thesis
      by (rule create_task_cases [of spec now s])
        (use assms 2 in \<open>auto simp: edges_sorted_def hmap_simps split: if_splits\<close>)
  qed
next
  case False
  obtain now where "command_time c = None \<or> command_time c = Some now"
    by (cases "command_time c") auto
  from ev.step_store_evolves [OF False this, of s] assms show ?thesis
    unfolding edges_sorted_def changes_def evolve_def by metis
qed

lemma edges_sorted_run: "edges_sorted s \<Longrightarrow> edges_sorted (run_store cs s)"
  unfolding run_store_def by (induction cs arbitrary: s) (auto intro: edges_sorted_step)

lemma edges_sorted_empty: "edges_sorted empty_state"
  by (simp add: edges_sorted_def empty_state_def)

lemma ok_empty: "seqs_ok empty_state" "clock_ok now empty_state"
  by (simp_all add: seqs_ok_def clock_ok_def empty_state_def)

end
