(* ===== verification/Task_Codec.thy ===== *)
theory Task_Codec
  imports Task_Evolution "HOL-Library.List_Lexorder"
begin

text \<open>
  The wire format of the task snapshot (\<open>agent/features/task/src/adapters/snapshot_codec.rs\<close>) between
  the typed wire records and the domain: version 2 in both directions, and the upgrade of version 1.
  The JSON layer (\<open>serde_json\<close>) is not under \<open>src/\<close>; the records below are what it reads and writes,
  so \<open>decode_v2\<close> starts after \<open>from_value\<close> and \<open>encode\<close> ends before \<open>to_vec\<close>. The pre-check
  \<open>validate_v2_ids\<close> inspects raw JSON values and only changes which error is reported first.
\<close>

definition CURRENT_SCHEMA_VERSION :: u64 where "CURRENT_SCHEMA_VERSION = 2"

datatype codec_error =
    InvalidJson ustr
  | InvalidSchemaVersionRepresentation ustr
  | UnsupportedFutureVersion u64
  | UnsupportedVersion u64
  | InvalidIdRepresentation ustr ustr
  | NextBatchIdExhausted

section \<open>Identifiers on the wire\<close>

definition parse_wire_u64 :: "ustr \<Rightarrow> u64 option" where
  "parse_wire_u64 value =
     (if value = [] \<or> \<not> list_all is_ascii_digit value then None else u64_from_str value)"

definition parse_id :: "ustr \<Rightarrow> ustr \<Rightarrow> bool \<Rightarrow> (codec_error, u64) outcome" where
  "parse_id value field allow_zero =
     (case parse_wire_u64 value of
        None \<Rightarrow> Err (InvalidIdRepresentation field value)
      | Some parsed \<Rightarrow>
          if (\<not> allow_zero \<and> parsed = 0) \<or> (1 < length value \<and> starts_with_zero value)
          then Err (InvalidIdRepresentation field value)
          else Ok parsed)"

definition wire_key :: "ustr \<Rightarrow> u64" where
  "wire_key value = (case parse_wire_u64 value of None \<Rightarrow> - 1 | Some n \<Rightarrow> n)"

section \<open>Version 2\<close>

record task_wire =
  tw_id :: ustr
  tw_batch :: ustr
  tw_seq :: u64
  tw_subject :: ustr
  tw_description :: ustr
  tw_active_form :: "ustr option"
  tw_session_id :: "ustr option"
  tw_tags :: "ustr list"
  tw_blocked_by :: "ustr list"
  tw_status :: task_status
  tw_priority :: task_priority
  tw_created_at :: u64
  tw_updated_at :: u64
  tw_started_at :: "u64 option"
  tw_completed_at :: "u64 option"

record batch_wire =
  bw_id :: ustr
  bw_summary :: "ustr option"
  bw_status :: batch_status
  bw_created_at :: u64
  bw_last_active_turn :: u64
  bw_silence_turns :: u64

record snapshot_wire =
  sw_schema_version :: u64
  sw_revision :: ustr
  sw_tasks :: "task_wire list"
  sw_next_task_id :: ustr
  sw_next_batch_id :: ustr
  sw_current_batch :: "ustr option"
  sw_batches :: "batch_wire list"

definition task_to_wire :: "task_data \<Rightarrow> task_wire" where
  "task_to_wire t =
     \<lparr>tw_id = show_u64 (task_id_get (td_id t)), tw_batch = show_u64 (batch_id_get (td_batch t)),
      tw_seq = td_seq t, tw_subject = td_subject t, tw_description = td_description t,
      tw_active_form = td_active_form t, tw_session_id = td_session_id t, tw_tags = td_tags t,
      tw_blocked_by = map (\<lambda>i. show_u64 (task_id_get i)) (td_blocked_by t),
      tw_status = td_status t, tw_priority = td_priority t, tw_created_at = td_created_at t,
      tw_updated_at = td_updated_at t, tw_started_at = td_started_at t,
      tw_completed_at = td_completed_at t\<rparr>"

definition batch_to_wire :: "batch_data \<Rightarrow> batch_wire" where
  "batch_to_wire b =
     \<lparr>bw_id = show_u64 (batch_id_get (bd_id b)), bw_summary = bd_summary b, bw_status = bd_status b,
      bw_created_at = bd_created_at b, bw_last_active_turn = bd_last_active_turn b,
      bw_silence_turns = bd_silence_turns b\<rparr>"

definition encode_snapshot :: "task_snapshot \<Rightarrow> snapshot_wire" where
  "encode_snapshot sn =
     (let tasks = sort_key (\<lambda>w. wire_key (tw_id w)) (map task_to_wire (sn_tasks sn));
          tasks' = map (\<lambda>w. w\<lparr>tw_tags := sort (tw_tags w),
                             tw_blocked_by := sort_key wire_key (tw_blocked_by w)\<rparr>) tasks;
          batches = sort_key (\<lambda>w. wire_key (bw_id w)) (map batch_to_wire (sn_batches sn))
      in \<lparr>sw_schema_version = CURRENT_SCHEMA_VERSION,
          sw_revision = show_u64 (task_revision_get (sn_revision sn)),
          sw_tasks = tasks',
          sw_next_task_id = show_u64 (task_id_get (sn_next_task_id sn)),
          sw_next_batch_id = show_u64 (batch_id_get (sn_next_batch_id sn)),
          sw_current_batch = map_option (\<lambda>i. show_u64 (batch_id_get i)) (sn_current_batch sn),
          sw_batches = batches\<rparr>)"

text \<open>The error locations \<open>tasks[i].id\<close>, \<open>tasks[i].blocked_by[j]\<close> and \<open>batches[i].id\<close>.\<close>

definition at_index :: "nat \<Rightarrow> ustr" where
  "at_index i = lit ''['' @ show_nat i @ lit '']''"

definition field_at :: "string \<Rightarrow> nat \<Rightarrow> string \<Rightarrow> ustr" where
  "field_at name i rest = lit name @ at_index i @ lit rest"

definition task_from_v2 :: "nat \<times> task_wire \<Rightarrow> (codec_error, task_data) outcome" where
  "task_from_v2 = (\<lambda>(index, w).
     (let started = (if tw_status w = Pending \<and> tw_completed_at w = None then None else tw_started_at w)
      in case parse_id (tw_id w) (field_at ''tasks'' index ''.id'') False of
           Err e \<Rightarrow> Err e
         | Panic \<Rightarrow> Panic
         | Ok i \<Rightarrow>
             (case parse_id (tw_batch w) (field_at ''tasks'' index ''.batch'') False of
                Err e \<Rightarrow> Err e
              | Panic \<Rightarrow> Panic
              | Ok batch \<Rightarrow>
                  map_ok
                    (\<lambda>blocked_by.
                      \<lparr>td_id = TaskIdData i, td_batch = BatchIdData batch, td_seq = tw_seq w,
                       td_subject = tw_subject w, td_description = tw_description w,
                       td_active_form = tw_active_form w, td_session_id = tw_session_id w,
                       td_tags = tw_tags w, td_blocked_by = blocked_by, td_blocks = [],
                       td_status = tw_status w, td_priority = tw_priority w,
                       td_created_at = tw_created_at w, td_updated_at = tw_updated_at w,
                       td_started_at = started, td_completed_at = tw_completed_at w\<rparr>)
                    (traverse
                      (\<lambda>(d, value). map_ok TaskIdData (parse_id value
                         (field_at ''tasks'' index ''.blocked_by'' @ at_index d) False))
                      (enumerate 0 (tw_blocked_by w))))))"

definition batch_from_v2 :: "nat \<times> batch_wire \<Rightarrow> (codec_error, batch_data) outcome" where
  "batch_from_v2 = (\<lambda>(index, w).
     map_ok
       (\<lambda>i. \<lparr>bd_id = BatchIdData i, bd_summary = bw_summary w, bd_status = bw_status w,
             bd_created_at = bw_created_at w, bd_last_active_turn = bw_last_active_turn w,
             bd_silence_turns = bw_silence_turns w\<rparr>)
       (parse_id (bw_id w) (field_at ''batches'' index ''.id'') False))"

text \<open>
  Sequence numbers for records written before they existed: the counters per batch, with the
  saturating increment of the source.
\<close>

fun fill_seqs :: "(batch_id, u64) hmap \<Rightarrow> task_data list \<Rightarrow> task_data list" where
  "fill_seqs counters [] = []"
| "fill_seqs counters (t # ts) =
     (if td_seq t = 0 then
        let seq = (case map_of counters (td_batch t) of None \<Rightarrow> 1 | Some n \<Rightarrow> n);
            next = (case checked_add seq 1 of None \<Rightarrow> - 1 | Some n \<Rightarrow> n)
        in td_set_seq_for_restore seq t # fill_seqs (hm_insert (td_batch t) next counters) ts
      else t # fill_seqs counters ts)"

definition decode_v2 :: "snapshot_wire \<Rightarrow> (codec_error, task_snapshot) outcome" where
  "decode_v2 w =
     (case parse_id (sw_revision w) (lit ''revision'') True of
        Err e \<Rightarrow> Err e | Panic \<Rightarrow> Panic
      | Ok revision \<Rightarrow>
     (case parse_id (sw_next_task_id w) (lit ''next_task_id'') False of
        Err e \<Rightarrow> Err e | Panic \<Rightarrow> Panic
      | Ok next_task_id \<Rightarrow>
     (case parse_id (sw_next_batch_id w) (lit ''next_batch_id'') False of
        Err e \<Rightarrow> Err e | Panic \<Rightarrow> Panic
      | Ok next_batch_id \<Rightarrow>
     (case (case sw_current_batch w of
              None \<Rightarrow> Ok None
            | Some i \<Rightarrow> map_ok (\<lambda>n. Some (BatchIdData n)) (parse_id i (lit ''current_batch'') False)) of
        Err e \<Rightarrow> Err e | Panic \<Rightarrow> Panic
      | Ok current_batch \<Rightarrow>
     (case traverse task_from_v2 (enumerate 0 (sw_tasks w)) of
        Err e \<Rightarrow> Err e | Panic \<Rightarrow> Panic
      | Ok tasks \<Rightarrow>
          map_ok
            (\<lambda>batches. from_decoded_parts (TaskRevisionData revision)
               (fill_seqs [] (sort_key td_id tasks)) (TaskIdData next_task_id)
               (BatchIdData next_batch_id) current_batch batches)
            (traverse batch_from_v2 (enumerate 0 (sw_batches w))))))))"

section \<open>Version 1\<close>

record task_wire_v1 =
  tv1_id :: ustr
  tv1_batch :: u64
  tv1_subject :: ustr
  tv1_description :: ustr
  tv1_active_form :: "ustr option"
  tv1_session_id :: "ustr option"
  tv1_tags :: "ustr list"
  tv1_blocked_by :: "ustr list"
  tv1_status :: task_status
  tv1_priority :: task_priority
  tv1_created_at :: u64
  tv1_updated_at :: u64
  tv1_started_at :: "u64 option"
  tv1_completed_at :: "u64 option"

record batch_wire_v1 =
  bv1_id :: u64
  bv1_summary :: "ustr option"
  bv1_status :: batch_status
  bv1_created_at :: u64
  bv1_last_active_turn :: u64
  bv1_silence_turns :: u64

record snapshot_wire_v1 =
  sv1_tasks :: "task_wire_v1 list"
  sv1_next_id :: u64
  sv1_current_batch :: u64
  sv1_batches :: "batch_wire_v1 list"

fun upgrade_v1_execution_timestamps ::
    "task_status \<Rightarrow> u64 \<Rightarrow> u64 option \<Rightarrow> u64 option \<Rightarrow> u64 option \<times> u64 option" where
  "upgrade_v1_execution_timestamps Pending updated_at started completed = (None, None)"
| "upgrade_v1_execution_timestamps InProgress updated_at started completed =
     (Some (case started of None \<Rightarrow> updated_at | Some a \<Rightarrow> a), None)"
| "upgrade_v1_execution_timestamps Completed updated_at started completed =
     (Some (case started of None \<Rightarrow> updated_at | Some a \<Rightarrow> a),
      Some (case completed of None \<Rightarrow> updated_at | Some a \<Rightarrow> a))"
| "upgrade_v1_execution_timestamps Deleted updated_at started completed = (started, completed)"

definition task_from_v1 :: "nat \<times> task_wire_v1 \<Rightarrow> (codec_error, task_data) outcome" where
  "task_from_v1 = (\<lambda>(index, w).
     (case parse_id (tv1_id w) (field_at ''tasks'' index ''.id'') False of
        Err e \<Rightarrow> Err e
      | Panic \<Rightarrow> Panic
      | Ok i \<Rightarrow>
          map_ok
            (\<lambda>blocked_by.
              (let times = upgrade_v1_execution_timestamps (tv1_status w) (tv1_updated_at w)
                     (tv1_started_at w) (tv1_completed_at w)
               in \<lparr>td_id = TaskIdData i, td_batch = BatchIdData (tv1_batch w), td_seq = i,
                   td_subject = tv1_subject w, td_description = tv1_description w,
                   td_active_form = tv1_active_form w, td_session_id = tv1_session_id w,
                   td_tags = tv1_tags w, td_blocked_by = blocked_by, td_blocks = [],
                   td_status = tv1_status w, td_priority = tv1_priority w,
                   td_created_at = tv1_created_at w, td_updated_at = tv1_updated_at w,
                   td_started_at = fst times, td_completed_at = snd times\<rparr>))
            (traverse
              (\<lambda>(d, value). map_ok TaskIdData (parse_id value
                 (field_at ''tasks'' index ''.blocked_by'' @ at_index d) False))
              (enumerate 0 (tv1_blocked_by w)))))"

definition batch_from_v1 :: "batch_wire_v1 \<Rightarrow> batch_data" where
  "batch_from_v1 w =
     \<lparr>bd_id = BatchIdData (bv1_id w), bd_summary = bv1_summary w, bd_status = bv1_status w,
      bd_created_at = bv1_created_at w, bd_last_active_turn = bv1_last_active_turn w,
      bd_silence_turns = bv1_silence_turns w\<rparr>"

definition decode_v1 :: "snapshot_wire_v1 \<Rightarrow> (codec_error, task_snapshot) outcome" where
  "decode_v1 w =
     (if sv1_next_id w = 0 then Err (InvalidIdRepresentation (lit ''next_id'') (lit ''0''))
      else case checked_add (fold max (map bv1_id (sv1_batches w)) 0) 1 of
        None \<Rightarrow> Err NextBatchIdExhausted
      | Some next_batch_id \<Rightarrow>
          map_ok
            (\<lambda>tasks. from_decoded_parts (TaskRevisionData 0) tasks (TaskIdData (sv1_next_id w))
               (BatchIdData next_batch_id)
               (if sv1_current_batch w \<noteq> 0 then Some (BatchIdData (sv1_current_batch w)) else None)
               (map batch_from_v1 (sv1_batches w)))
            (traverse task_from_v1 (enumerate 0 (sv1_tasks w))))"

section \<open>Round trip\<close>

lemma parse_wire_show [simp]: "parse_wire_u64 (show_u64 n) = Some n"
  using show_nat_digits [of "unat n"] u64_from_str_show_u64 [of n]
  by (simp add: parse_wire_u64_def show_u64_def)

lemma wire_key_show [simp]: "wire_key (show_u64 n) = n"
  by (simp add: wire_key_def)

lemma parse_id_show [simp]: "allow_zero \<or> n \<noteq> 0 \<Longrightarrow> parse_id (show_u64 n) field allow_zero = Ok n"
proof -
  assume a: "allow_zero \<or> n \<noteq> 0"
  have "\<not> (1 < length (show_u64 n) \<and> starts_with_zero (show_u64 n))"
  proof (cases "n = 0")
    case True
    then show ?thesis by (simp add: show_u64_def length_show_zero)
  next
    case False
    then have "0 < unat n" by (simp add: unat_gt_0)
    then show ?thesis unfolding show_u64_def by (simp add: starts_with_zero_show)
  qed
  with a show ?thesis by (auto simp: parse_id_def)
qed

text \<open>What decoding brings back: tags come back sorted, everything else as it was.\<close>

definition sorted_tags :: "task_data \<Rightarrow> task_data" where
  "sorted_tags t = t\<lparr>td_tags := sort (td_tags t)\<rparr>"

definition codec_ok :: "task_snapshot \<Rightarrow> bool" where
  "codec_ok sn \<longleftrightarrow> snapshot_wf sn \<and>
     sorted (map td_id (sn_tasks sn)) \<and> sorted (map bd_id (sn_batches sn)) \<and>
     distinct (map td_id (sn_tasks sn)) \<and> distinct (map bd_id (sn_batches sn)) \<and>
     task_id_get (sn_next_task_id sn) \<noteq> 0 \<and> batch_id_get (sn_next_batch_id sn) \<noteq> 0 \<and>
     sn_current_batch sn \<noteq> Some (BatchIdData 0) \<and>
     (\<forall>t \<in> set (sn_tasks sn). task_id_get (td_id t) \<noteq> 0 \<and> batch_id_get (td_batch t) \<noteq> 0 \<and> td_seq t \<noteq> 0 \<and>
        (\<forall>d \<in> set (td_blocked_by t). task_id_get d \<noteq> 0) \<and>
        (td_status t = Pending \<and> td_completed_at t = None \<longrightarrow> td_started_at t = None)) \<and>
     (\<forall>b \<in> set (sn_batches sn). batch_id_get (bd_id b) \<noteq> 0)"


lemma traverse_enumerate:
  "(\<And>x i. x \<in> set xs \<Longrightarrow> f (i, h x) = Ok (g x)) \<Longrightarrow>
   traverse f (enumerate n (map h xs)) = Ok (map g xs)"
  by (induction xs arbitrary: n) auto

definition task_wire_out :: "task_data \<Rightarrow> task_wire" where
  "task_wire_out t = (task_to_wire t)
     \<lparr>tw_tags := sort (td_tags t),
      tw_blocked_by := sort_key wire_key (tw_blocked_by (task_to_wire t))\<rparr>"

lemma sorted_ids:
  "sorted (map td_id ts) \<longleftrightarrow> sorted (map (\<lambda>t. task_id_get (td_id t)) ts)"
  "sorted (map bd_id bs) \<longleftrightarrow> sorted (map (\<lambda>b. batch_id_get (bd_id b)) bs)"
  "sorted is \<longleftrightarrow> sorted (map task_id_get is)"
  by (simp_all add: sorted_wrt_map less_eq_task_id_def [abs_def] less_eq_batch_id_def [abs_def])

lemma encode_codec_ok:
  assumes "codec_ok sn"
  shows "sw_tasks (encode_snapshot sn) = map task_wire_out (sn_tasks sn)"
    "sw_batches (encode_snapshot sn) = map batch_to_wire (sn_batches sn)"
proof -
  have "sorted (map (\<lambda>w. wire_key (tw_id w)) (map task_to_wire (sn_tasks sn)))"
    "sorted (map (\<lambda>w. wire_key (bw_id w)) (map batch_to_wire (sn_batches sn)))"
    using assms by (simp_all add: codec_ok_def sorted_ids comp_def task_to_wire_def batch_to_wire_def)
  then have "sort_key (\<lambda>w. wire_key (tw_id w)) (map task_to_wire (sn_tasks sn)) = map task_to_wire (sn_tasks sn)"
    "sort_key (\<lambda>w. wire_key (bw_id w)) (map batch_to_wire (sn_batches sn)) = map batch_to_wire (sn_batches sn)"
    by (simp_all only: sort_key_id_if_sorted)
  then show "sw_tasks (encode_snapshot sn) = map task_wire_out (sn_tasks sn)"
    "sw_batches (encode_snapshot sn) = map batch_to_wire (sn_batches sn)"
    by (simp_all add: encode_snapshot_def Let_def task_wire_out_def task_to_wire_def)
qed

lemma task_from_v2_out:
  assumes "codec_ok sn" "t \<in> set (sn_tasks sn)"
  shows "task_from_v2 (k, task_wire_out t) = Ok (sorted_tags t)"
proof -
  have t: "td_blocks t = []" "sorted (td_blocked_by t)" "task_id_get (td_id t) \<noteq> 0"
    "batch_id_get (td_batch t) \<noteq> 0" "\<forall>d \<in> set (td_blocked_by t). task_id_get d \<noteq> 0"
    "td_status t = Pending \<and> td_completed_at t = None \<longrightarrow> td_started_at t = None"
    using assms by (auto simp: codec_ok_def snapshot_wf_def)
  have "sorted (map wire_key (map (\<lambda>i. show_u64 (task_id_get i)) (td_blocked_by t)))"
    using t(2) by (simp add: comp_def sorted_ids(3))
  then have b: "tw_blocked_by (task_wire_out t) = map (\<lambda>i. show_u64 (task_id_get i)) (td_blocked_by t)"
    by (simp add: task_wire_out_def task_to_wire_def sort_key_id_if_sorted)
  have tr: "traverse (\<lambda>(d, value). map_ok TaskIdData (parse_id value
        (field_at ''tasks'' k ''.blocked_by'' @ at_index d) False))
      (enumerate 0 (tw_blocked_by (task_wire_out t))) = Ok (map (\<lambda>i. i) (td_blocked_by t))"
    unfolding b by (rule traverse_enumerate) (use t(5) in auto)
  have f: "tw_id (task_wire_out t) = show_u64 (task_id_get (td_id t))"
    "tw_batch (task_wire_out t) = show_u64 (batch_id_get (td_batch t))"
    by (simp_all add: task_wire_out_def task_to_wire_def)
  show ?thesis
    unfolding task_from_v2_def prod.case Let_def f tr
    using t by (cases t) (auto simp: task_wire_out_def task_to_wire_def sorted_tags_def)
qed

lemma fill_seqs_id: "\<forall>t \<in> set ts. td_seq t \<noteq> 0 \<Longrightarrow> fill_seqs counters ts = ts"
  by (induction ts) auto

lemma sorted_tags_sel [simp]:
  "td_id (sorted_tags t) = td_id t" "td_seq (sorted_tags t) = td_seq t"
  by (simp_all add: sorted_tags_def)

lemma decode_encode:
  assumes "codec_ok sn"
  shows "decode_v2 (encode_snapshot sn) = Ok (sn\<lparr>sn_tasks := map sorted_tags (sn_tasks sn)\<rparr>)"
proof -
  note c = assms [unfolded codec_ok_def]
  have tasks: "traverse task_from_v2 (enumerate 0 (map task_wire_out (sn_tasks sn))) =
      Ok (map sorted_tags (sn_tasks sn))"
    by (rule traverse_enumerate) (rule task_from_v2_out [OF assms])
  have batches: "traverse batch_from_v2 (enumerate 0 (map batch_to_wire (sn_batches sn))) =
      Ok (map (\<lambda>b. b) (sn_batches sn))"
    by (rule traverse_enumerate) (use c in \<open>auto simp: batch_from_v2_def batch_to_wire_def\<close>)
  have cur: "(case sw_current_batch (encode_snapshot sn) of
              None \<Rightarrow> Ok None
            | Some i \<Rightarrow> map_ok (\<lambda>n. Some (BatchIdData n)) (parse_id i (lit ''current_batch'') False)) =
      Ok (sn_current_batch sn)"
  proof (cases "sn_current_batch sn")
    case (Some i)
    then have "batch_id_get i \<noteq> 0" using c by (cases i) auto
    then show ?thesis using Some by (simp add: encode_snapshot_def Let_def)
  qed (simp add: encode_snapshot_def Let_def)
  have f: "sw_revision (encode_snapshot sn) = show_u64 (task_revision_get (sn_revision sn))"
    "sw_next_task_id (encode_snapshot sn) = show_u64 (task_id_get (sn_next_task_id sn))"
    "sw_next_batch_id (encode_snapshot sn) = show_u64 (batch_id_get (sn_next_batch_id sn))"
    by (simp_all add: encode_snapshot_def Let_def)
  have srt: "sort_key td_id (map sorted_tags (sn_tasks sn)) = map sorted_tags (sn_tasks sn)"
    "sort_key bd_id (sn_batches sn) = sn_batches sn"
    using c by (simp_all add: sort_key_id_if_sorted comp_def)
  have fs: "fill_seqs [] (map sorted_tags (sn_tasks sn)) = map sorted_tags (sn_tasks sn)"
    using c by (intro fill_seqs_id) auto
  show ?thesis
    unfolding decode_v2_def encode_codec_ok [OF assms] f cur tasks batches
    using c srt fs by (cases sn) (simp add: from_decoded_parts_def)
qed

text \<open>What the store captures is in the domain of the round trip.\<close>

lemma captured_codec_ok:
  assumes "state_ok s" "seqs_ok s" "timestamps_ok s" "edges_sorted s"
  shows "codec_ok (snapshot_from_state s)"
proof -
  let ?sn = "snapshot_from_state s"
  note ok = captured_ok_iff [OF assms(1), THEN iffD2, OF assms(3), unfolded snapshot_ok_def]
  have srt: "sorted (map td_id (sn_tasks ?sn))" "sorted (map bd_id (sn_batches ?sn))"
    by (simp_all only: snapshot_from_state_def task_snapshot.simps sorted_sort_key)
  have cur: "sn_current_batch ?sn \<noteq> Some (BatchIdData 0)"
    using ok by (auto simp: zero_less_id)
  have task: "task_id_get (td_id t) \<noteq> 0 \<and> batch_id_get (td_batch t) \<noteq> 0 \<and> td_seq t \<noteq> 0 \<and>
        (\<forall>d \<in> set (td_blocked_by t). task_id_get d \<noteq> 0) \<and>
        (td_status t = Pending \<and> td_completed_at t = None \<longrightarrow> td_started_at t = None)"
    if t: "t \<in> set (sn_tasks ?sn)" for t
  proof -
    have "td_seq t \<noteq> 0"
      using t assms(2) unfolding captured_tasks(1) [OF assms(1)] seqs_ok_def live_task_Some_iff
      by (auto simp: td_restore_blocks_sel)
    moreover have "valid_task_timestamps t" using ok t by blast
    then have "td_status t = Pending \<and> td_completed_at t = None \<longrightarrow> td_started_at t = None"
      by (auto simp: valid_iff)
    moreover have "\<forall>d \<in> set (td_blocked_by t). task_id_get d \<noteq> 0"
      using ok t unfolding zero_less_id by metis
    moreover have "batch_id_get (td_batch t) \<noteq> 0"
      using ok t unfolding zero_less_id by (metis imageE)
    ultimately show ?thesis using ok t by (simp add: zero_less_id)
  qed
  show ?thesis
    unfolding codec_ok_def using captured_wf [OF assms(1,4)] srt cur task ok
    by (simp add: zero_less_id)
qed

text \<open>Decoding, of either version, leaves the reverse index empty and asks nothing of the order of the edges.\<close>

lemma fill_seqs_blocks: "\<forall>t \<in> set ts. td_blocks t = [] \<Longrightarrow> t \<in> set (fill_seqs m ts) \<Longrightarrow> td_blocks t = []"
  by (induction m ts rule: fill_seqs.induct) (auto simp: Let_def td_set_seq_for_restore_def split: if_splits)

lemma task_from_wire_blocks:
  "task_from_v2 x = Ok t \<Longrightarrow> td_blocks t = []"
  "task_from_v1 y = Ok t \<Longrightarrow> td_blocks t = []"
  by (cases x; cases y; auto simp: task_from_v2_def task_from_v1_def Let_def split: outcome.splits)+

lemma decoded_image_fresh:
  "decode_v2 w = Ok sn \<Longrightarrow> image_fresh sn"
  "decode_v1 v = Ok sn \<Longrightarrow> image_fresh sn"
proof -
  show "image_fresh sn" if d: "decode_v2 w = Ok sn"
  proof -
    obtain tasks where tasks: "traverse task_from_v2 (enumerate 0 (sw_tasks w)) = Ok tasks"
      and sn: "set (sn_tasks sn) = set (fill_seqs [] (sort_key td_id tasks))"
    proof (cases "traverse task_from_v2 (enumerate 0 (sw_tasks w))")
      case (Ok tasks)
      with d have "set (sn_tasks sn) = set (fill_seqs [] (sort_key td_id tasks))"
        by (auto simp: decode_v2_def from_decoded_parts_def split: outcome.splits)
      with Ok show thesis by (rule that)
    qed (use d in \<open>auto simp: decode_v2_def split: outcome.splits\<close>)
    have "\<forall>t \<in> set (sort_key td_id tasks). td_blocks t = []"
      using traverse_OkD [OF tasks] task_from_wire_blocks(1) by fastforce
    then show ?thesis unfolding image_fresh_def sn using fill_seqs_blocks by blast
  qed
  show "image_fresh sn" if "decode_v1 v = Ok sn"
    using that task_from_wire_blocks(2)
    by (fastforce simp: decode_v1_def from_decoded_parts_def image_fresh_def dest: traverse_OkD
        split: if_splits option.splits)
qed

text \<open>The legacy upgrade of a record without execution times is accepted; see also the findings.\<close>

lemma upgrade_v1_valid:
  assumes "created \<le> updated" "status \<noteq> Deleted"
    and "upgrade_v1_execution_timestamps status updated None None = (started, completed)"
    and "td_status t = status" "td_created_at t = created" "td_updated_at t = updated"
      "td_started_at t = started" "td_completed_at t = completed"
  shows "valid_task_timestamps t"
  using assms(1,2) assms(3) [symmetric] assms(4-8) by (cases status) (simp_all add: valid_iff)

end
