(* ===== verification/Task_Query_Facts.thy ===== *)
theory Task_Query_Facts
  imports Task_Codec "HOL-Library.Multiset"
begin

text \<open>
  Facts about the read models: no read that sorts depends on the traversal order of a hash map; the
  counters count; the progress view splits the pending tasks of a batch; a sequence number names at
  most one task; and under the one-active-batch invariant nothing is ever reported interrupted.
\<close>

section \<open>Traversal order\<close>

text \<open>Two representations of one store: the maps differ in their traversal order only.\<close>

definition same_store :: "task_store_state \<Rightarrow> task_store_state \<Rightarrow> bool" where
  "same_store s s' \<longleftrightarrow>
     mset (ts_tasks s') = mset (ts_tasks s) \<and> mset (ts_batches s') = mset (ts_batches s) \<and>
     ts_next_task_id s' = ts_next_task_id s \<and> ts_next_batch_id s' = ts_next_batch_id s \<and>
     ts_current_batch s' = ts_current_batch s \<and> ts_revision s' = ts_revision s"

lemma map_of_mset:
  assumes "mset m' = mset m" "distinct (map fst m)"
  shows "map_of m' = map_of m"
proof -
  have "distinct (map fst m')"
    using assms by (metis mset_map mset_eq_imp_distinct_iff)
  moreover have "set m' = set m" using assms(1) by (metis set_mset_mset)
  ultimately show ?thesis using assms(2) map_of_inject_set by blast
qed

lemma same_store_maps:
  assumes "state_ok s" "same_store s s'"
  shows "map_of (ts_tasks s') = map_of (ts_tasks s)" "map_of (ts_batches s') = map_of (ts_batches s)"
    "mset (hm_values (ts_tasks s')) = mset (hm_values (ts_tasks s))"
    "mset (hm_values (ts_batches s')) = mset (hm_values (ts_batches s))"
  using assms
  by (auto simp: same_store_def state_ok_def entities_ok_def intro!: map_of_mset)

lemma sort_key_mset:
  fixes key :: "'a \<Rightarrow> 'k :: linorder"
  assumes "mset xs = mset ys" "distinct (map key xs)"
  shows "sort_key key xs = sort_key key ys"
proof (rule sorted_wrt_key_distinct_unique [of key])
  have "distinct (map key ys)"
    using assms by (metis mset_map mset_eq_imp_distinct_iff)
  then show "distinct (map key (sort_key key ys))" "distinct (map key (sort_key key xs))"
    using assms(2) by (simp_all add: distinct_map)
  show "set (sort_key key xs) = set (sort_key key ys)"
    using assms(1) by (metis set_mset_mset set_sort)
qed simp_all

lemma distinct_values:
  assumes "state_ok s"
  shows "distinct (map td_id (hm_values (ts_tasks s)))" "distinct (map bd_id (hm_values (ts_batches s)))"
proof -
  have d: "distinct (hm_keys (ts_tasks s))" "distinct (hm_keys (ts_batches s))"
    using assms by (auto simp: state_ok_def entities_ok_def)
  show "distinct (map td_id (hm_values (ts_tasks s)))"
    by (rule hm_distinct_values [OF d(1)]) (rule state_ok_task(1) [OF assms])
  show "distinct (map bd_id (hm_values (ts_batches s)))"
    by (rule hm_distinct_values [OF d(2)]) (rule state_ok_batch(1) [OF assms])
qed

lemma sorted_tasks_same:
  assumes "state_ok s" "same_store s s'"
  shows "sort_key td_id (filter P (hm_values (ts_tasks s'))) = sort_key td_id (filter P (hm_values (ts_tasks s)))"
proof (rule sort_key_mset [symmetric])
  show "mset (filter P (hm_values (ts_tasks s))) = mset (filter P (hm_values (ts_tasks s')))"
    using same_store_maps(3) [OF assms] by (simp only: mset_filter)
  show "distinct (map td_id (filter P (hm_values (ts_tasks s))))"
    by (rule distinct_map_filter [OF distinct_values(1) [OF assms(1)]])
qed

lemma list_tasks_same: "state_ok s \<Longrightarrow> same_store s s' \<Longrightarrow> list_tasks s' = list_tasks s"
  unfolding list_tasks_def by (rule sorted_tasks_same)

lemma batch_tasks_same: "state_ok s \<Longrightarrow> same_store s s' \<Longrightarrow> batch_tasks s' b = batch_tasks s b"
  unfolding batch_tasks_def by (rule sorted_tasks_same)

lemma list_batches_same:
  assumes "state_ok s" "same_store s s'"
  shows "list_batches s' = list_batches s"
  unfolding list_batches_def
  using same_store_maps(4) [OF assms] distinct_values(2) [OF assms(1)]
  by (intro sort_key_mset [symmetric]) simp_all

lemma batch_snapshot_same:
  assumes "state_ok s" "same_store s s'"
  shows "batch_snapshot s' b = batch_snapshot s b"
  unfolding batch_snapshot_def same_store_maps(2) [OF assms] sorted_tasks_same [OF assms] ..

lemma blocking_ids_same:
  assumes "state_ok s" "same_store s s'"
  shows "blocking_ids s' i = blocking_ids s i"
  unfolding blocking_ids_def same_store_maps(1) [OF assms] ..

lemma progress_snapshot_same:
  assumes "state_ok s" "same_store s s'"
  shows "progress_snapshot s' b i c r = progress_snapshot s b i c r"
proof -
  have r: "is_ready s' t = is_ready s t" for t
    unfolding is_ready_def blocking_ids_same [OF assms] ..
  show ?thesis
    unfolding progress_snapshot_def same_store_maps(1,2) [OF assms] batch_tasks_same [OF assms] r ..
qed

lemma lifecycle_snapshot_same:
  assumes "state_ok s" "same_store s s'"
  shows "lifecycle_snapshot s' n = lifecycle_snapshot s n"
  using assms(2)
  unfolding lifecycle_snapshot_def list_tasks_same [OF assms] list_batches_same [OF assms]
  by (simp add: same_store_def)

section \<open>Counters\<close>

definition count_status :: "task_status \<Rightarrow> task_data list \<Rightarrow> nat" where
  "count_status st ts = length (filter (\<lambda>t. td_status t = st) ts)"

definition count_priority :: "task_priority \<Rightarrow> task_data list \<Rightarrow> nat" where
  "count_priority p ts = length (filter (\<lambda>t. td_priority t = p \<and> td_status t \<noteq> Deleted) ts)"

lemma fold_stats_increment:
  "fold stats_increment ts st =
     \<lparr>st_total = st_total st + length ts,
      st_pending = st_pending st + count_status Pending ts,
      st_in_progress = st_in_progress st + count_status InProgress ts,
      st_completed = st_completed st + count_status Completed ts,
      st_deleted = st_deleted st + count_status Deleted ts,
      st_by_priority =
        \<lparr>ps_low = ps_low (st_by_priority st) + count_priority Low ts,
         ps_normal = ps_normal (st_by_priority st) + count_priority Normal ts,
         ps_high = ps_high (st_by_priority st) + count_priority High ts,
         ps_urgent = ps_urgent (st_by_priority st) + count_priority Urgent ts\<rparr>\<rparr>"
proof (induction ts arbitrary: st)
  case Nil
  then show ?case by (simp add: count_status_def count_priority_def)
next
  case (Cons t ts)
  then show ?case
    by (cases "td_status t"; cases "td_priority t")
      (simp_all add: stats_increment_def count_status_def count_priority_def Let_def)
qed

lemma stats_body_eq:
  "(\<lambda>t st0.
        let st1 = st0\<lparr>st_total := st_total st0 + 1\<rparr>;
            st2 = (case td_status t of
                     Pending \<Rightarrow> st1\<lparr>st_pending := st_pending st1 + 1\<rparr>
                   | InProgress \<Rightarrow> st1\<lparr>st_in_progress := st_in_progress st1 + 1\<rparr>
                   | Completed \<Rightarrow> st1\<lparr>st_completed := st_completed st1 + 1\<rparr>
                   | Deleted \<Rightarrow> st1\<lparr>st_deleted := st_deleted st1 + 1\<rparr>)
        in if td_status t \<noteq> Deleted
           then st2\<lparr>st_by_priority := priority_stats_increment (td_priority t) (st_by_priority st2)\<rparr>
           else st2) = stats_increment"
  by (intro ext) (simp add: stats_increment_def Let_def split: task_status.split)

lemma stats_counts:
  "stats s = fold stats_increment (hm_values (ts_tasks s)) default_stats"
  unfolding stats_def stats_body_eq ..

lemma count_status_total:
  "length ts = count_status Pending ts + count_status InProgress ts + count_status Completed ts +
     count_status Deleted ts"
proof (induction ts)
  case (Cons t ts)
  then show ?case by (cases "td_status t") (simp_all add: count_status_def)
qed (simp add: count_status_def)

section \<open>Progress\<close>

lemma batch_tasks_mem:
  assumes "state_ok s"
  shows "t \<in> set (batch_tasks s b) \<longleftrightarrow>
    (\<exists>i. live_task s i = Some t \<and> td_batch t = b)"
proof -
  have "distinct (hm_keys (ts_tasks s))" using assms by (auto simp: state_ok_def entities_ok_def)
  then show ?thesis
    using hm_in_values_iff [of "ts_tasks s" t] by (auto simp: batch_tasks_def live_task_Some_iff)
qed

lemma is_ready_iff:
  assumes "state_ok s" "live_task s i = Some t"
  shows "is_ready s t \<longleftrightarrow>
    (\<forall>j \<in> set (td_blocked_by t). \<exists>u. map_of (ts_tasks s) j = Some u \<and> td_status u = Completed)"
proof -
  have t: "map_of (ts_tasks s) i = Some t" "td_id t = i"
    using assms state_ok_task(1) [OF assms(1)] by (auto simp: live_task_Some_iff)
  show ?thesis
    unfolding is_ready_def t(2) blocking_ids_def t(1)
    using linkedD(4) [OF state_ok_linked [OF assms(1)] t(1)]
    by (force simp: filter_empty_conv split: option.splits)
qed

lemma progress_partition:
  assumes "progress_snapshot s b i c r = Some p"
  shows "length (pg_ready p) + pg_ready_omitted p + pg_blocked_count p =
      count_status Pending (batch_tasks s b)"
    and "length (pg_in_progress p) = count_status InProgress (batch_tasks s b)"
    and "length (pg_ready p) \<le> READY_LIMIT" "length (pg_recently_completed p) \<le> RECENT_LIMIT"
  using assms sum_length_filter_compl [of "is_ready s" "filter (\<lambda>t. td_status t = Pending) (batch_tasks s b)"]
  by (auto simp: progress_snapshot_def Let_def count_status_def READY_LIMIT_def RECENT_LIMIT_def min_def
      split: option.splits)

section \<open>Lookup by sequence number\<close>

lemma current_task_by_seq_iff:
  assumes "state_ok s" "seqs_ok s"
  shows "current_task_by_seq s q = Some t \<longleftrightarrow>
    (\<exists>i b. ts_current_batch s = Some b \<and> live_task s i = Some t \<and> td_batch t = b \<and> td_seq t = q)"
proof (cases "ts_current_batch s")
  case (Some b)
  have d: "distinct (hm_keys (ts_tasks s))" using assms(1) by (auto simp: state_ok_def entities_ok_def)
  note vals = hm_in_values_iff [OF d]
  let ?P = "\<lambda>t. td_batch t = b \<and> td_seq t = q \<and> td_status t \<noteq> Deleted"
  have uniq: "t = u" if h: "t \<in> set (hm_values (ts_tasks s))" "u \<in> set (hm_values (ts_tasks s))" "?P t" "?P u" for t u
  proof -
    obtain i j where "map_of (ts_tasks s) i = Some t" "map_of (ts_tasks s) j = Some u"
      using h(1,2) unfolding vals by blast
    moreover from this have "i = j" using h(3,4) assms(2) unfolding seqs_ok_def by metis
    ultimately show ?thesis by simp
  qed
  have "List.find ?P (hm_values (ts_tasks s)) = Some t \<longleftrightarrow> t \<in> set (hm_values (ts_tasks s)) \<and> ?P t"
  proof
    assume "List.find ?P (hm_values (ts_tasks s)) = Some t"
    then show "t \<in> set (hm_values (ts_tasks s)) \<and> ?P t"
      by (rule find_SomeD)
  next
    assume t: "t \<in> set (hm_values (ts_tasks s)) \<and> ?P t"
    then obtain u where u: "List.find ?P (hm_values (ts_tasks s)) = Some u"
      by (cases "List.find ?P (hm_values (ts_tasks s))") (auto simp: find_None_iff)
    then have "u \<in> set (hm_values (ts_tasks s)) \<and> ?P u"
      by (rule find_SomeD)
    then show "List.find ?P (hm_values (ts_tasks s)) = Some t" using u t uniq by blast
  qed
  then show ?thesis
    using Some unfolding current_task_by_seq_def vals by (auto simp: live_task_Some_iff)
qed (simp add: current_task_by_seq_def)

section \<open>Interrupted batches\<close>

lemma find_map_None: "(\<And>x. x \<in> set xs \<Longrightarrow> f x = None) \<Longrightarrow> find_map f xs = None"
  by (induction xs) auto

lemma never_interrupted:
  assumes "state_ok s"
  shows "ls_interrupted (lifecycle_snapshot s n) = None"
proof (cases "ts_current_batch s")
  case (Some i)
  have "filter (\<lambda>b. bd_id b \<noteq> i \<and> bd_status b = Active) (list_batches s) = []"
  proof (rule filter_False, intro ballI)
    fix b assume "b \<in> set (list_batches s)"
    then obtain k where k: "map_of (ts_batches s) k = Some b"
      using hm_in_values_iff [of "ts_batches s" b] assms
      by (auto simp: list_batches_def state_ok_def entities_ok_def)
    show "\<not> (bd_id b \<noteq> i \<and> bd_status b = Active)"
      using state_ok_current [OF assms, of k] state_ok_batch(1) [OF assms k] k Some by auto
  qed
  then show ?thesis
    using Some by (simp add: lifecycle_snapshot_def Let_def detect_interrupted_batch_def)
qed (simp add: lifecycle_snapshot_def Let_def)

end
