(* ===== verification/Task_Compact.thy ===== *)
theory Task_Compact
  imports Decimal "HOL-Library.Multiset"
begin

text \<open>
  The task projection that context compaction carries and its text rendering
  (\<open>agent/features/task/src/domain/compact_snapshot.rs\<close>). Strings are lists of code points; the
  symbols of the text are written as their code points.
\<close>

datatype compact_status = CPending | CInProgress | CCompleted
datatype compact_batch_status = CBatchActive | CBatchPaused | CBatchArchived

record compact_item =
  ci_sequence :: u64
  ci_subject :: ustr
  ci_status :: compact_status
  ci_blocked_by :: "u64 list"

record compact_snapshot =
  cs_revision :: u64
  cs_batch_id :: u64
  cs_batch_summary :: ustr
  cs_batch_status :: compact_batch_status
  cs_items :: "compact_item list"

definition compact_item_new :: "u64 \<Rightarrow> ustr \<Rightarrow> compact_status \<Rightarrow> u64 list \<Rightarrow> compact_item" where
  "compact_item_new sequence subject status blocked_by =
     \<lparr>ci_sequence = sequence, ci_subject = subject, ci_status = status, ci_blocked_by = blocked_by\<rparr>"

definition compact_pending :: "u64 \<Rightarrow> ustr \<Rightarrow> u64 list \<Rightarrow> compact_item" where
  "compact_pending sequence subject blocked_by = compact_item_new sequence subject CPending blocked_by"

definition compact_in_progress :: "u64 \<Rightarrow> ustr \<Rightarrow> compact_item" where
  "compact_in_progress sequence subject = compact_item_new sequence subject CInProgress []"

definition compact_completed :: "u64 \<Rightarrow> ustr \<Rightarrow> compact_item" where
  "compact_completed sequence subject = compact_item_new sequence subject CCompleted []"

definition compact_snapshot_new ::
    "u64 \<Rightarrow> u64 \<Rightarrow> ustr \<Rightarrow> compact_batch_status \<Rightarrow> compact_item list \<Rightarrow> compact_snapshot" where
  "compact_snapshot_new revision batch_id batch_summary batch_status items =
     \<lparr>cs_revision = revision, cs_batch_id = batch_id, cs_batch_summary = batch_summary,
      cs_batch_status = batch_status, cs_items = sort_key ci_sequence items\<rparr>"

definition compact_snapshot_active :: "u64 \<Rightarrow> u64 \<Rightarrow> ustr \<Rightarrow> compact_item list \<Rightarrow> compact_snapshot" where
  "compact_snapshot_active revision batch_id summary items =
     compact_snapshot_new revision batch_id summary CBatchActive items"

definition compact_snapshot_paused :: "u64 \<Rightarrow> u64 \<Rightarrow> ustr \<Rightarrow> compact_item list \<Rightarrow> compact_snapshot" where
  "compact_snapshot_paused revision batch_id summary items =
     compact_snapshot_new revision batch_id summary CBatchPaused items"

section \<open>Rendering\<close>

fun join :: "ustr \<Rightarrow> ustr list \<Rightarrow> ustr" where
  "join sep [] = []"
| "join sep [x] = x"
| "join sep (x # y # zs) = x @ sep @ join sep (y # zs)"

fun status_icon :: "compact_status \<Rightarrow> ustr" where
  "status_icon CPending = [9633]"
| "status_icon CInProgress = [9632]"
| "status_icon CCompleted = [10003]"

definition prioritized_items :: "compact_item list \<Rightarrow> compact_item list" where
  "prioritized_items items =
     filter (\<lambda>i. ci_status i = CInProgress) items @
     filter (\<lambda>i. ci_status i = CPending) items @
     filter (\<lambda>i. ci_status i = CCompleted) items"

definition render_item :: "compact_item \<Rightarrow> ustr" where
  "render_item i =
     (let blocked_by =
        (if ci_blocked_by i = [] then []
         else lit '' (blocked by '' @ join (lit '', '') (map (\<lambda>s. lit ''#'' @ show_u64 s) (ci_blocked_by i))
              @ lit '')'')
      in status_icon (ci_status i) @ lit '' [task:'' @ show_u64 (ci_sequence i) @ lit '' seq:''
         @ show_u64 (ci_sequence i) @ lit ''] '' @ ci_subject i @ blocked_by)"

definition companion_header :: "compact_snapshot \<Rightarrow> ustr" where
  "companion_header c =
     lit ''BatchData #'' @ show_u64 (cs_batch_id c) @ lit '' '' @ [8212] @ lit '' Tasks: ''
     @ show_nat (length (filter (\<lambda>i. ci_status i = CCompleted) (cs_items c))) @ lit ''/''
     @ show_nat (length (cs_items c))"

definition companion_lines :: "compact_snapshot \<Rightarrow> nat \<Rightarrow> ustr list" where
  "companion_lines c item_limit =
     companion_header c # map render_item (take item_limit (prioritized_items (cs_items c)))
     @ (let hidden = length (cs_items c) - item_limit
        in if 0 < hidden
           then [[8230] @ lit '' '' @ show_nat hidden @ lit '' more tasks omitted to fit compact budget'']
           else [])"

definition render_companion_with_limit :: "compact_snapshot \<Rightarrow> nat \<Rightarrow> ustr" where
  "render_companion_with_limit c item_limit = join [10] (companion_lines c item_limit)"

definition render_companion :: "compact_snapshot \<Rightarrow> ustr" where
  "render_companion c = render_companion_with_limit c (length (cs_items c))"

lemma mset_prioritized [simp]: "mset (prioritized_items items) = mset items"
proof (induction items)
  case (Cons i items)
  then show ?case by (cases "ci_status i") (simp_all add: prioritized_items_def)
qed (simp add: prioritized_items_def)

lemma length_prioritized [simp]: "length (prioritized_items items) = length items"
  by (metis mset_prioritized size_mset)

text \<open>The line budget: the header, at most the limit of items, and one line when items are hidden.\<close>

lemma length_companion_lines:
  "length (companion_lines c n) =
     1 + min n (length (cs_items c)) + (if n < length (cs_items c) then 1 else 0)"
  by (simp add: companion_lines_def Let_def)

end
