(* ===== verification/Task_Properties.thy ===== *)
theory Task_Properties
  imports Task_Query_Facts Task_Compact
begin

text \<open>
  The properties of the Task context, each over the definitions of the code, with a witness on a
  small store where it has hypotheses.
\<close>

section \<open>A store for the witnesses\<close>

text \<open>One batch with three tasks; task 2 waits for task 1.\<close>

definition demo_spec :: "task_create_spec" where
  "demo_spec = \<lparr>tcs_subject = lit ''t'', tcs_description = [], tcs_active_form = None,
     tcs_priority = Normal\<rparr>"

definition demo_history :: "task_command list" where
  "demo_history =
     [CmdCreateBatch \<lparr>bcs_summary = lit ''b''\<rparr> 1, CmdCreateTask demo_spec 2, CmdCreateTask demo_spec 3,
      CmdCreateTask demo_spec 4, CmdAddDependency (TaskIdData 2) (TaskIdData 1) 5]"

definition demo_store :: task_store_state where
  "demo_store = run_store demo_history empty_state"

lemma run_store_reachable: "store_reachable s \<Longrightarrow> store_reachable (run_store cs s)"
  unfolding run_store_def
  by (induction cs arbitrary: s) (auto intro: store_reachable.command)

lemma demo_reachable: "store_reachable demo_store"
  unfolding demo_store_def by (rule run_store_reachable [OF store_reachable.start])

lemma demo_ok: "state_ok demo_store" "seqs_ok demo_store"
  using store_reachable_ok [OF demo_reachable] seqs_ok_run [OF ok_empty(1)]
  by (simp_all add: demo_store_def)

lemma demo_sorted: "edges_sorted demo_store"
  unfolding demo_store_def by (rule edges_sorted_run [OF edges_sorted_empty])

lemma demo_clock: "clock_after 0 demo_history = Some 5"
  by (simp add: demo_history_def)

lemma demo_timestamps: "timestamps_ok demo_store"
  using clock_ok_run [OF ok_empty(2) demo_clock] clock_ok_timestamps by (simp add: demo_store_def)

fun is_ok :: "('e, 'a) outcome \<times> 's \<Rightarrow> bool" where
  "is_ok (Ok r, s) = True"
| "is_ok _ = False"

lemma is_okE:
  assumes "is_ok x"
  obtains r s where "x = (Ok r, s)"
  using assms by (cases x rule: is_ok.cases) auto

section \<open>Commands\<close>

text \<open>
  C8: in every state the store can be in, after any commands and any images that were restored (sorted or not;
  as the codec decodes them, with an empty reverse index), a command never panics, an error leaves the state exactly as it was, and a success is either a no-op without events or commits
  one revision.
\<close>

theorem command_contract:
  assumes "store_reachable s"
  shows "case exec_command c s of
      (Panic, s') \<Rightarrow> False
    | (Err e, s') \<Rightarrow> s' = s
    | (Ok r, s') \<Rightarrow>
        (s' = s \<and> cr_events r = [] \<and> cr_revision r = None) \<or>
        (revision_nat s' = revision_nat s + 1 \<and> cr_revision r = Some (ts_revision s'))"
proof -
  have "contract s (exec_command c s)"
    using good_exec_command [OF store_reachable_ok [OF assms]] by (simp add: good_step_def)
  then show ?thesis
    unfolding contract_def
    by (auto dest!: checked_add_unat split: prod.splits outcome.splits)
qed

theorem command_contract_witness:
  "is_ok (exec_command (CmdDelete (TaskIdData 1) 9) demo_store) \<and>
   (case exec_command (CmdDelete (TaskIdData 1) 9) demo_store of
      (Panic, s') \<Rightarrow> False
    | (Err e, s') \<Rightarrow> s' = demo_store
    | (Ok r, s') \<Rightarrow>
        (s' = demo_store \<and> cr_events r = [] \<and> cr_revision r = None) \<or>
        (revision_nat s' = revision_nat demo_store + 1 \<and> cr_revision r = Some (ts_revision s')))"
  using command_contract [OF demo_reachable, of "CmdDelete (TaskIdData 1) 9"]
  by (intro conjI) (code_simp, assumption)

text \<open>
  C9: every reachable store is consistent, whatever commands it ran and whatever images it restored (sorted or
  not; as the codec decodes them, with an empty reverse index): identifiers
  are unique, positive and below the counters, tasks belong to batches, at most one batch is active and it is the
  current one, the dependency graph is acyclic, inside one batch and over live tasks, \<open>blocks\<close> is its exact
  inverse, and no edge is stored twice. Edges are not always sorted, because a restored image may bring unsorted
  ones; but no command takes sorted edges to unsorted ones.
\<close>

theorem store_invariant:
  assumes "store_reachable s"
  shows "entities_ok s \<and> current_ok s \<and> deps_ok (map_of (ts_tasks s)) \<and>
    (edges_sorted s \<longrightarrow> edges_sorted (step_store c s))"
  using store_reachable_ok [OF assms] by (simp add: state_ok_def edges_sorted_step)

theorem store_invariant_witness:
  "entities_ok demo_store \<and> current_ok demo_store \<and> deps_ok (map_of (ts_tasks demo_store)) \<and>
    edges_sorted (step_store (CmdReplaceDependencies (TaskIdData 3) [TaskIdData 2, TaskIdData 1] 9) demo_store)"
  using store_invariant [OF demo_reachable] demo_sorted by blast

text \<open>
  C10: the revision is a change stamp: a history of commands that ends at the revision it started
  from has not changed anything.
\<close>

theorem revision_is_change_stamp:
  assumes "store_reachable s" "revision_nat (run_store cs s) = revision_nat s"
  shows "run_store cs s = s"
  using assms store.same_rev_same_state [OF store_reachable_ok] unfolding run_store_def by blast

theorem revision_is_change_stamp_witness:
  "run_store [CmdSetSubject (TaskIdData 7) [97] 9, CmdPauseBatch (BatchIdData 4)] demo_store = demo_store"
  by (rule revision_is_change_stamp [OF demo_reachable]) code_simp

text \<open>
  C11: \<open>would_create_cycle\<close> is exact: it answers true exactly when the new edge would close a path
  of blocking edges, the empty path included.
\<close>

theorem cycle_test_exact:
  "would_create_cycle s task_id blocked_by_id \<longleftrightarrow> (blocked_by_id, task_id) \<in> (dep_edges s)\<^sup>*"
  by (rule would_create_cycle_iff)



text \<open>
  C13: and it succeeds on every sound request: distinct live tasks of the same batch, none of which
  waits for the edited task, while revisions are left. The dry run rejects nothing else.
\<close>

theorem replace_dependencies_complete:
  assumes "store_reachable s" "live_task s i = Some t" "distinct ids"
    and "\<forall>b \<in> set ids. \<exists>u. live_task s b = Some u \<and> td_batch u = td_batch t"
    and "\<forall>b \<in> set ids. (b, i) \<notin> (dep_edges s)\<^sup>*"
    and "ts_revision s \<noteq> TaskRevisionData (- 1)"
    and "length (td_blocked_by t) + length ids < 2 ^ 64"
  shows "\<exists>r s'. replace_dependencies i ids now s = (Ok r, s')"
proof -
  note ok = store_reachable_ok [OF assms(1)]
  have rev_ok: "reserve_revision s \<noteq> Err RevisionExhausted"
    using assms(6) by (cases "ts_revision s") (auto simp: reserve_revision_def checked_add_none split: option.split)
  have live: "\<forall>b \<in> set ids. live_in s (td_batch t) b"
    using assms(4) by (auto simp: live_in_def)
  show ?thesis
  proof (rule replace_dependencies_cases [OF ok assms(2), of ids now])
    fix e
    assume "replace_dependencies i ids now s = (Err e, s)"
      "\<not> distinct ids \<or> (\<exists>b \<in> set ids. \<not> live_in s (td_batch t) b) \<or>
       (\<exists>b \<in> set ids. (b, i) \<in> (dep_edges s)\<^sup>*) \<or>
       2 ^ 64 \<le> length (td_blocked_by t) + length ids \<or> reserve_revision s = Err RevisionExhausted"
    then have False using assms(3,5,7) live rev_ok by (meson not_le)
    then show ?thesis ..
  qed blast+
qed

theorem replace_dependencies_complete_witness:
  "\<exists>r s'. replace_dependencies (TaskIdData 3) [TaskIdData 1] 9 demo_store = (Ok r, s')"
proof -
  obtain t where t: "live_task demo_store (TaskIdData 3) = Some t" "td_batch t = BatchIdData 1"
    "td_blocked_by t = []"
  proof -
    have "(case live_task demo_store (TaskIdData 3) of None \<Rightarrow> False
        | Some t \<Rightarrow> td_batch t = BatchIdData 1 \<and> td_blocked_by t = [])" by code_simp
    then show thesis using that by (auto split: option.splits)
  qed
  have "(case live_task demo_store (TaskIdData 1) of None \<Rightarrow> False | Some t \<Rightarrow> td_batch t = BatchIdData 1)"
    by code_simp
  then have u: "\<exists>u. live_task demo_store (TaskIdData 1) = Some u \<and> td_batch u = BatchIdData 1"
    by (auto split: option.splits)
  have "\<not> would_create_cycle demo_store (TaskIdData 3) (TaskIdData 1)" by code_simp
  then have "(TaskIdData 1, TaskIdData 3) \<notin> (dep_edges demo_store)\<^sup>*"
    by (simp add: would_create_cycle_iff)
  moreover have "ts_revision demo_store \<noteq> TaskRevisionData (- 1)" by code_simp
  ultimately show ?thesis
    using replace_dependencies_complete [OF demo_reachable t(1), of "[TaskIdData 1]" 9] t u by simp
qed

text \<open>
  Deleting a task takes exactly its own edges out of the graph, in both directions, and leaves a
  tombstone.
\<close>

theorem delete_isolates_task:
  assumes "store_reachable s" "delete_task i now s = (Ok r, s')"
  shows "dep_edges s' = {(x, y). (x, y) \<in> dep_edges s \<and> x \<noteq> i \<and> y \<noteq> i} \<and>
    live_task s' i = None \<and> cr_events r \<in> {[], [TaskDeleted i]}"
proof -
  note ok = store_reachable_ok [OF assms(1)]
  obtain t where t: "map_of (ts_tasks s) i = Some t"
    using assms(2) by (cases "map_of (ts_tasks s) i") (auto simp: delete_task_def)
  show ?thesis
  proof (rule delete_task_cases [OF ok t, of now])
    assume d: "td_status t = Deleted" "delete_task i now s = (Ok (uncommitted t []), s)"
    have none: "x \<noteq> i \<and> y \<noteq> i" if "(x, y) \<in> dep_edges s" for x y
    proof -
      obtain u where u: "map_of (ts_tasks s) x = Some u" "y \<in> set (td_blocked_by u)"
        using \<open>(x, y) \<in> dep_edges s\<close> unfolding dep_edges_iff by blast
      then show ?thesis using linkedD(4) [OF state_ok_linked [OF ok] u] t d(1) by auto
    qed
    have "dep_edges s = {(x, y). (x, y) \<in> dep_edges s \<and> x \<noteq> i \<and> y \<noteq> i}"
      using none by blast
    then show ?thesis
      using assms(2) d t by (auto simp: uncommitted_def live_task_def simp del: adj_edges_iff)
  next
    fix t' s'' revision
    assume d: "delete_task i now s =
        (Ok \<lparr>cr_value = t', cr_events = [TaskDeleted i], cr_revision = Some revision\<rparr>,
         s''\<lparr>ts_revision := revision\<rparr>)"
      "isolated i (map_of (ts_tasks s)) (map_of (ts_tasks s''))"
    have "dep_edges s'' = {(x, y). (x, y) \<in> dep_edges s \<and> x \<noteq> i \<and> y \<noteq> i}"
      using map_edges_isolated [OF d(2)] by (simp only: dep_edges_map)
    moreover have "live_task s'' i = None"
      using d(2) t by (auto simp: isolated_def live_task_def dest!: spec [of _ i] split: option.splits)
    ultimately show ?thesis using assms(2) d(1) by (auto simp: live_task_def simp del: adj_edges_iff)
  qed (use assms(2) in simp)
qed

theorem delete_isolates_task_witness:
  "\<exists>r s'. delete_task (TaskIdData 1) 9 demo_store = (Ok r, s') \<and> live_task s' (TaskIdData 1) = None"
proof -
  have "is_ok (delete_task (TaskIdData 1) 9 demo_store)" by code_simp
  then obtain r s' where r: "delete_task (TaskIdData 1) 9 demo_store = (Ok r, s')" by (rule is_okE)
  from delete_isolates_task [OF demo_reachable r] r show ?thesis by blast
qed

lemma unblocked_completed:
  assumes "state_ok s" "start_blocked s i InProgress = None" "map_of (ts_tasks s) i = Some t" "j \<in> set (td_blocked_by t)"
  shows "\<exists>u. map_of (ts_tasks s) j = Some u \<and> td_status u = Completed"
proof -
  obtain u where u: "map_of (ts_tasks s) j = Some u" "td_status u \<noteq> Deleted"
    using linkedD(4) [OF state_ok_linked [OF assms(1)] assms(3,4)] by blast
  have "filter (\<lambda>d. case map_of (ts_tasks s) d of None \<Rightarrow> False
      | Some dep \<Rightarrow> \<not> (td_status dep = Completed \<or> td_status dep = Deleted)) (td_blocked_by t) = []"
    using assms(2,3) by (simp add: start_blocked_def blocking_ids_def split: if_splits)
  with assms(4) u show ?thesis by (auto simp: filter_empty_conv)
qed

text \<open>What the two transitions do to the tasks: nothing, or they move one task, if it may start.\<close>

lemma moved_status:
  assumes "transition_task to now t = (Ok r, t') \<or> td_transition_to to now t = (Ok r, t')" "td_status t' = InProgress"
  shows "td_status t = InProgress \<or> to = InProgress"
  using assms
  by (cases "td_status t"; cases to)
    (auto simp: transition_task_def td_transition_to_def td_reopen_from_completed_def Let_def split: if_splits)

lemma moving_tasks:
  assumes "c = CmdTransition k to now \<or> c = CmdTransitionWithProgress k to now"
  obtains "ts_tasks (step_store c s) = ts_tasks s"
  | t t' r where "map_of (ts_tasks s) k = Some t" "start_blocked s k to = None"
      "transition_task to now t = (Ok r, t') \<or> td_transition_to to now t = (Ok r, t')"
      "ts_tasks (step_store c s) = hm_insert k t' (ts_tasks s)"
proof -
  have close: "auto_close b v = (x, v') \<Longrightarrow> ts_tasks v' = ts_tasks v"
    and reopen: "auto_reopen b to v = (x, v') \<Longrightarrow> ts_tasks v' = ts_tasks v" for b v v' x
    by (auto simp: auto_close_def auto_reopen_def Let_def split: option.splits outcome.splits prod.splits if_splits)
  have "ts_tasks (step_store c s) = ts_tasks s \<or> (\<exists>t t' r. map_of (ts_tasks s) k = Some t \<and>
      start_blocked s k to = None \<and> (transition_task to now t = (Ok r, t') \<or> td_transition_to to now t = (Ok r, t')) \<and>
      ts_tasks (step_store c s) = hm_insert k t' (ts_tasks s))"
    using assms
  proof
    assume "c = CmdTransition k to now"
    then show ?thesis
      by (auto simp: step_store_def transition_def with_revision_def commit_def
          split: option.split outcome.split prod.split)
  next
    assume "c = CmdTransitionWithProgress k to now"
    then show ?thesis
      by (auto simp: step_store_def transition_with_progress_def with_revision_def finish_progress_def commit_def
          split: option.split outcome.split prod.split dest!: close reopen)
  qed
  then show thesis using that by blast
qed

text \<open>No command but the two transitions makes a task run.\<close>

lemma only_transitions_start:
  assumes "\<not> moves c" "map_of (ts_tasks (step_store c s)) i = Some t'" "td_status t' = InProgress"
  shows "\<exists>t. map_of (ts_tasks s) i = Some t \<and> td_status t = InProgress"
proof (cases "creates_or_clears c")
  case True
  then consider "c = CmdClear" | spec now where "c = CmdCreateTask spec now" by (cases c) auto
  then show ?thesis
  proof cases
    case 1
    then show ?thesis using step_clear_tasks [of s] assms(2,3) by auto
  next
    case (2 spec now)
    show ?thesis
      by (rule create_task_cases [of spec now s])
        (use assms(2,3) 2 in \<open>auto simp: hmap_simps td_create_def uncommitted_def split: if_splits\<close>)
  qed
next
  case still: False
  obtain now where "command_time c = None \<or> command_time c = Some now" by (cases "command_time c") auto
  from waiting.step_store_evolves_still [OF still assms(1) this, of s] assms(2,3) show ?thesis
    by (auto simp: changes_def keeps_waiting_def)
qed

text \<open>
  C14: a task only starts when everything it waits for is completed: whatever command makes a task run that was
  not running before, every blocker of the task was completed.
\<close>

theorem start_needs_completed_blockers:
  assumes "store_reachable s" "map_of (ts_tasks (step_store c s)) i = Some t'" "td_status t' = InProgress"
    and "\<forall>t. map_of (ts_tasks s) i = Some t \<longrightarrow> td_status t \<noteq> InProgress"
  shows "\<exists>t. map_of (ts_tasks s) i = Some t \<and> td_blocked_by t' = td_blocked_by t \<and>
    (\<forall>j \<in> set (td_blocked_by t). \<exists>u. map_of (ts_tasks s) j = Some u \<and> td_status u = Completed)"
proof (cases "moves c")
  case True
  then obtain k to now where c: "c = CmdTransition k to now \<or> c = CmdTransitionWithProgress k to now"
    by (cases c) auto
  show ?thesis
  proof (cases rule: moving_tasks [OF c, of s])
    case 1
    then show ?thesis using assms(2-4) by auto
  next
    case (2 t u r)
    have i: "i = k" "t' = u" using assms(2-4) 2(4) by (auto simp: hmap_simps split: if_splits)
    with moved_status [OF 2(3)] assms(3,4) 2(1) have "to = InProgress" by auto
    moreover have "td_blocked_by t' = td_blocked_by t"
      using same_node_transition(1,3) [of to now t r u] 2(3) i(2) by (auto simp: same_node_def)
    ultimately show ?thesis
      using unblocked_completed [OF store_reachable_ok [OF assms(1)]] 2(1,2) i(1) by blast
  qed
qed (use only_transitions_start [OF _ assms(2,3)] assms(4) in blast)

text \<open>Task 2 of the example waits for task 1; once task 1 is completed it starts.\<close>

definition demo_unblocked :: task_store_state where
  "demo_unblocked = run_store
     [CmdTransition (TaskIdData 1) InProgress 6, CmdTransition (TaskIdData 1) Completed 7] demo_store"

theorem start_needs_completed_blockers_witness:
  "\<exists>t. map_of (ts_tasks demo_unblocked) (TaskIdData 2) = Some t \<and> td_blocked_by t = [TaskIdData 1] \<and>
    (\<forall>j \<in> set (td_blocked_by t).
       \<exists>u. map_of (ts_tasks demo_unblocked) j = Some u \<and> td_status u = Completed)"
proof -
  let ?c = "CmdTransitionWithProgress (TaskIdData 2) InProgress 9"
  have reachable: "store_reachable demo_unblocked"
    unfolding demo_unblocked_def by (rule run_store_reachable [OF demo_reachable])
  have "(case map_of (ts_tasks (step_store ?c demo_unblocked)) (TaskIdData 2) of
      Some t \<Rightarrow> td_status t = InProgress \<and> td_blocked_by t = [TaskIdData 1] | None \<Rightarrow> False)" by code_simp
  then obtain t' where t': "map_of (ts_tasks (step_store ?c demo_unblocked)) (TaskIdData 2) = Some t'"
    "td_status t' = InProgress" "td_blocked_by t' = [TaskIdData 1]" by (auto split: option.splits)
  have "(case map_of (ts_tasks demo_unblocked) (TaskIdData 2) of
      Some t \<Rightarrow> td_status t \<noteq> InProgress | None \<Rightarrow> True)" by code_simp
  then have "\<forall>t. map_of (ts_tasks demo_unblocked) (TaskIdData 2) = Some t \<longrightarrow> td_status t \<noteq> InProgress"
    by (auto split: option.splits)
  from start_needs_completed_blockers [OF reachable t'(1,2) this] t'(3) show ?thesis by metis
qed

lemma auto_close_result:
  assumes "auto_close b s = (Ok f, s')" "state_ok s"
  shows "ts_tasks s' = ts_tasks s \<and>
    (f \<longrightarrow> \<not> batch_unfinished s b \<and> ts_current_batch s' = None \<and>
      (\<exists>x. map_of (ts_batches s') b = Some x \<and> bd_status x = Archived)) \<and>
    (\<forall>x. map_of (ts_batches s') b = Some x \<and> bd_status x = Active \<longrightarrow> batch_unfinished s b)"
proof (cases "map_of (ts_batches s) b")
  case (Some x)
  then have "bd_status x = Active \<Longrightarrow> ts_current_batch s = Some b"
    using state_ok_current [OF assms(2), of b] by blast
  then show ?thesis
    using Some assms(1)
    by (auto simp: auto_close_def bd_transition_to_def Let_def hmap_simps split: if_splits)
qed (use assms in \<open>auto simp: auto_close_def\<close>)

text \<open>
  After a task moved, its batch is archived if nothing in it is unfinished: the close is reported
  in the reply, clears the current batch, and an active batch always has work left.
\<close>

theorem transition_closes_finished_batch:
  assumes "store_reachable s" "transition_with_progress i to now s = (Ok r, s')"
    and "map_of (ts_tasks s) i = Some t"
  shows "(pg_auto_closed (cr_value r) \<longrightarrow> \<not> batch_unfinished s' (td_batch t) \<and> ts_current_batch s' = None \<and>
      (\<exists>x. map_of (ts_batches s') (td_batch t) = Some x \<and> bd_status x = Archived)) \<and>
    (\<forall>x. map_of (ts_batches s') (td_batch t) = Some x \<and> bd_status x = Active \<longrightarrow>
       batch_unfinished s' (td_batch t))"
proof -
  note ok = store_reachable_ok [OF assms(1)]
  have nb: "start_blocked s i to = None"
    using assms(2) by (cases "start_blocked s i to") (auto simp: transition_with_progress_def)
  obtain x t' where t': "transition_task to now t = (Ok x, t')"
    using assms(2,3) nb transition_task_not_panic [of to now t]
    by (cases "transition_task to now t"; cases "fst (transition_task to now t)")
      (auto simp: transition_with_progress_def)
  have sn: "same_node t t'" "td_id t' = td_id t" using same_node_transition(3) t' by auto
  have ok1: "state_ok (put_task i t' s)" by (rule state_ok_put_same_node [OF ok assms(3) sn(2,1)])
  obtain y where y: "map_of (ts_batches (put_task i t' s)) (td_batch t) = Some y"
    using state_ok_task(4) [OF ok assms(3)] by auto
  show ?thesis
  proof (rule auto_reopen_ok [OF ok1 y, of to])
    fix e assume "auto_reopen (td_batch t) to (put_task i t' s) = (Err e, put_task i t' s)"
    then show ?thesis using assms(2,3) nb t' by (simp add: transition_with_progress_def)
  next
    fix f s1
    assume s1: "auto_reopen (td_batch t) to (put_task i t' s) = (Ok f, s1)" "state_ok s1"
    obtain g s2 where s2: "auto_close (td_batch t) s1 = (Ok g, s2)" "ts_tasks s2 = ts_tasks s1"
      using auto_close_ok [OF s1(2)] by blast
    note close = auto_close_result [OF s2(1) s1(2)]
    have "with_revision s (finish_progress s s2 (td_batch t) i g f (cr_events x)) = (Ok r, s')"
      using assms(2,3) nb t' s1 s2 by (simp add: transition_with_progress_def)
    then obtain p rv where p: "progress_snapshot s2 (td_batch t) i g f = Some p"
      "cr_value r = p" "s' = s2\<lparr>ts_revision := rv\<rparr>"
      by (auto simp: with_revision_def finish_progress_def commit_def commit_result_def uncommitted_def
          split: outcome.splits option.splits)
    have "pg_auto_closed p = g"
      using p(1) by (auto simp: progress_snapshot_def Let_def split: option.splits)
    moreover have "batch_unfinished s' (td_batch t) = batch_unfinished s1 (td_batch t)"
      using p(3) s2(2) by (simp add: batch_unfinished_def)
    ultimately show ?thesis using close p(2,3) by simp
  qed
qed

theorem transition_closes_finished_batch_witness:
  "\<exists>r s'. transition_with_progress (TaskIdData 1) Completed 9 demo_store = (Ok r, s') \<and>
     (\<forall>x. map_of (ts_batches s') (BatchIdData 1) = Some x \<and> bd_status x = Active \<longrightarrow>
        batch_unfinished s' (BatchIdData 1))"
proof -
  have "is_ok (transition_with_progress (TaskIdData 1) Completed 9 demo_store)" by code_simp
  then obtain r s' where r: "transition_with_progress (TaskIdData 1) Completed 9 demo_store = (Ok r, s')"
    by (rule is_okE)
  have "(case map_of (ts_tasks demo_store) (TaskIdData 1) of None \<Rightarrow> False
      | Some t \<Rightarrow> td_batch t = BatchIdData 1)" by code_simp
  then obtain t where t: "map_of (ts_tasks demo_store) (TaskIdData 1) = Some t" "td_batch t = BatchIdData 1"
    by (auto split: option.splits)
  from transition_closes_finished_batch [OF demo_reachable r t(1)] r show ?thesis
    unfolding t(2) by blast
qed

text \<open>
  The progress view splits the pending tasks of the batch: those shown ready, those omitted
  for space and those blocked add up, and a task counts as ready exactly when all its blockers are
  completed.
\<close>

theorem progress_view_partitions:
  assumes "store_reachable s" "progress_snapshot s b i c r = Some p"
  shows "length (pg_ready p) + pg_ready_omitted p + pg_blocked_count p =
      length (filter (\<lambda>t. td_status t = Pending) (batch_tasks s b)) \<and>
    pg_ready p = map progress_item (take READY_LIMIT (filter
      (\<lambda>t. \<forall>j \<in> set (td_blocked_by t). \<exists>u. map_of (ts_tasks s) j = Some u \<and> td_status u = Completed)
      (filter (\<lambda>t. td_status t = Pending) (batch_tasks s b))))"
proof -
  note ok = store_reachable_ok [OF assms(1)]
  have "is_ready s t \<longleftrightarrow>
      (\<forall>j \<in> set (td_blocked_by t). \<exists>u. map_of (ts_tasks s) j = Some u \<and> td_status u = Completed)"
    if "t \<in> set (filter (\<lambda>t. td_status t = Pending) (batch_tasks s b))" for t
    using that batch_tasks_mem [OF ok] is_ready_iff [OF ok] by auto
  then have "filter (is_ready s) (filter (\<lambda>t. td_status t = Pending) (batch_tasks s b)) =
      filter (\<lambda>t. \<forall>j \<in> set (td_blocked_by t). \<exists>u. map_of (ts_tasks s) j = Some u \<and> td_status u = Completed)
        (filter (\<lambda>t. td_status t = Pending) (batch_tasks s b))"
    by (rule filter_cong [OF refl])
  moreover have "pg_ready p = map progress_item (take READY_LIMIT
      (filter (is_ready s) (filter (\<lambda>t. td_status t = Pending) (batch_tasks s b))))"
    using assms(2) by (auto simp: progress_snapshot_def Let_def split: option.splits)
  ultimately show ?thesis
    using progress_partition(1) [OF assms(2)] by (simp add: count_status_def)
qed

theorem progress_view_partitions_witness:
  "\<exists>p. progress_snapshot demo_store (BatchIdData 1) (TaskIdData 1) False False = Some p \<and>
     length (pg_ready p) + pg_ready_omitted p + pg_blocked_count p =
       length (filter (\<lambda>t. td_status t = Pending) (batch_tasks demo_store (BatchIdData 1)))"
proof -
  have "progress_snapshot demo_store (BatchIdData 1) (TaskIdData 1) False False \<noteq> None" by code_simp
  then obtain p where p: "progress_snapshot demo_store (BatchIdData 1) (TaskIdData 1) False False = Some p"
    by blast
  from progress_view_partitions [OF demo_reachable p] p show ?thesis by blast
qed

section \<open>Reads\<close>

text \<open>
  No read model depends on the iteration order of the hash maps.
\<close>

theorem reads_ignore_map_order:
  assumes "store_reachable s" "same_store s s'"
  shows "list_tasks s' = list_tasks s \<and> list_batches s' = list_batches s \<and>
    batch_snapshot s' b = batch_snapshot s b \<and> blocking_ids s' i = blocking_ids s i \<and>
    progress_snapshot s' b i c r = progress_snapshot s b i c r \<and>
    lifecycle_snapshot s' n = lifecycle_snapshot s n"
proof -
  note ok = store_reachable_ok [OF assms(1)]
  show ?thesis
    using list_tasks_same [OF ok assms(2)] list_batches_same [OF ok assms(2)]
      batch_snapshot_same [OF ok assms(2)] blocking_ids_same [OF ok assms(2)]
      progress_snapshot_same [OF ok assms(2)] lifecycle_snapshot_same [OF ok assms(2)]
    by simp
qed

theorem reads_ignore_map_order_witness:
  "rev (ts_tasks demo_store) \<noteq> ts_tasks demo_store \<and>
   list_tasks (demo_store\<lparr>ts_tasks := rev (ts_tasks demo_store)\<rparr>) = list_tasks demo_store"
proof
  show "rev (ts_tasks demo_store) \<noteq> ts_tasks demo_store" by code_simp
  have "same_store demo_store (demo_store\<lparr>ts_tasks := rev (ts_tasks demo_store)\<rparr>)"
    by (simp add: same_store_def)
  from reads_ignore_map_order [OF demo_reachable this]
  show "list_tasks (demo_store\<lparr>ts_tasks := rev (ts_tasks demo_store)\<rparr>) = list_tasks demo_store"
    by blast
qed

text \<open>
  A sequence number addresses at most one live task of the current batch, and the lookup finds
  it: after any history of commands, the first match is the only match.
\<close>

theorem lookup_by_seq_exact:
  fixes cs :: "task_command list"
  defines "s \<equiv> run_store cs empty_state"
  shows "current_task_by_seq s q = Some t \<longleftrightarrow>
    (\<exists>i b. ts_current_batch s = Some b \<and> live_task s i = Some t \<and> td_batch t = b \<and> td_seq t = q)"
proof -
  have "state_ok s"
    unfolding s_def by (rule store_reachable_ok [OF run_store_reachable [OF store_reachable.start]])
  moreover have "seqs_ok s" unfolding s_def by (rule seqs_ok_run [OF ok_empty(1)])
  ultimately show ?thesis by (rule current_task_by_seq_iff)
qed

theorem lookup_by_seq_exact_witness:
  "\<exists>t. current_task_by_seq (run_store demo_history empty_state) 2 = Some t \<and> td_seq t = 2"
proof -
  have "current_task_by_seq (run_store demo_history empty_state) 2 \<noteq> None" by code_simp
  then obtain t where t: "current_task_by_seq (run_store demo_history empty_state) 2 = Some t" by blast
  from lookup_by_seq_exact [of demo_history 2 t] t show ?thesis by blast
qed

text \<open>
  The statistics are the counts they are named after.
\<close>

theorem stats_are_counts:
  "st_total (stats s) = length (hm_values (ts_tasks s)) \<and>
   st_pending (stats s) = length (filter (\<lambda>t. td_status t = Pending) (hm_values (ts_tasks s))) \<and>
   st_in_progress (stats s) = length (filter (\<lambda>t. td_status t = InProgress) (hm_values (ts_tasks s))) \<and>
   st_completed (stats s) = length (filter (\<lambda>t. td_status t = Completed) (hm_values (ts_tasks s))) \<and>
   st_deleted (stats s) = length (filter (\<lambda>t. td_status t = Deleted) (hm_values (ts_tasks s))) \<and>
   st_total (stats s) = st_pending (stats s) + st_in_progress (stats s) + st_completed (stats s) +
     st_deleted (stats s)"
  unfolding stats_counts fold_stats_increment
  using count_status_total [of "hm_values (ts_tasks s)"]
  by (simp add: default_stats_def count_status_def)

text \<open>
  The report of interrupted batches is empty on every reachable store, whatever the history:
  only the current batch is ever active.
\<close>

theorem no_batch_is_interrupted:
  assumes "store_reachable s"
  shows "ls_interrupted (lifecycle_snapshot s n) = None"
  by (rule never_interrupted [OF store_reachable_ok [OF assms]])

theorem no_batch_is_interrupted_witness:
  "ls_interrupted (lifecycle_snapshot demo_store 3) = None"
  by (rule no_batch_is_interrupted [OF demo_reachable])

section \<open>Persistence\<close>

text \<open>
  C15: \<open>prepare\<close> decides validity: it never panics, rejects exactly the images that are not valid,
  and the candidate it builds from an image with an empty reverse index satisfies the aggregate invariant; its
  edges are sorted when those of the image are. (Decoded and captured images have an empty reverse index:
  \<open>decoded_image_fresh\<close>, \<open>captured_fresh\<close>.)
\<close>

theorem prepare_decides_validity:
  "case prepare sn of
     Panic \<Rightarrow> False
   | Err e \<Rightarrow> \<not> snapshot_ok sn
   | Ok s \<Rightarrow> snapshot_ok sn \<and> (image_fresh sn \<longrightarrow> state_ok s) \<and> (snapshot_wf sn \<longrightarrow> edges_sorted s)"
  by (rule prepare_cases [of sn]) (auto intro: candidate_state_ok candidate_edges_sorted)

theorem prepare_decides_validity_witness:
  "\<exists>s. prepare (snapshot_from_state demo_store) = Ok s \<and> state_ok s \<and> edges_sorted s"
proof -
  have "(case prepare (snapshot_from_state demo_store) of Ok s \<Rightarrow> True | _ \<Rightarrow> False)"
    by code_simp
  then obtain s where s: "prepare (snapshot_from_state demo_store) = Ok s"
    by (auto split: outcome.splits)
  with prepare_decides_validity [of "snapshot_from_state demo_store"] captured_wf [OF demo_ok(1) demo_sorted]
    captured_fresh [OF demo_ok(1)]
  show ?thesis by simp
qed

text \<open>
  The cycle check of the validation, Kahn's algorithm over positions, does not run out of range
  or below zero on duplicate-free lists, and its answer is exact.
\<close>

theorem kahn_decides_cycles:
  assumes "\<forall>ds \<in> set deps. distinct ds \<and> set ds \<subseteq> {..<length deps}"
  shows "kahn_has_cycle deps = Some (\<not> acyclic {(x, d). x < length deps \<and> d \<in> set (deps ! x)})"
  using kahn_correct [of deps] assms by (simp add: index_deps_ok_def index_rel_def)

theorem kahn_decides_cycles_witness:
  "kahn_has_cycle [[1], [0 :: nat]] = Some (\<not> acyclic {(x, d). x < length [[1], [0 :: nat]] \<and>
     d \<in> set ([[1], [0]] ! x)}) \<and> kahn_has_cycle [[1], [0]] = Some True"
proof
  show "kahn_has_cycle [[1], [0 :: nat]] = Some (\<not> acyclic {(x, d). x < length [[1], [0 :: nat]] \<and>
     d \<in> set ([[1], [0]] ! x)})"
    by (rule kahn_decides_cycles) auto
  show "kahn_has_cycle [[1], [0]] = Some True" by code_simp
qed

text \<open>
  C16: under a clock that does not run backwards, whatever commands were run, the store accepts its
  own image, and gets back its live tasks, its batches, its counters and its revision.
\<close>

theorem save_restore_round_trip:
  assumes "clock_after now cs = Some later"
  defines "s \<equiv> run_store cs empty_state"
  shows "\<exists>s'. prepare_restore s (collect_snapshot s) = Ok s' \<and>
    (\<forall>i. map_of (ts_tasks s') i = live_task s i) \<and> map_of (ts_batches s') = map_of (ts_batches s) \<and>
    ts_next_task_id s' = ts_next_task_id s \<and> ts_next_batch_id s' = ts_next_batch_id s \<and>
    ts_current_batch s' = ts_current_batch s \<and> ts_revision s' = ts_revision s"
proof -
  have ok: "state_ok s"
    unfolding s_def by (rule store_reachable_ok [OF run_store_reachable [OF store_reachable.start]])
  have "timestamps_ok s"
    unfolding s_def using clock_ok_run [OF ok_empty(2) assms(1)] clock_ok_timestamps by blast
  then show ?thesis
    unfolding prepare_restore_def collect_snapshot_def
    by (rule restore_captured [OF ok]) blast
qed

theorem save_restore_round_trip_witness:
  "\<exists>s'. prepare_restore (run_store demo_history empty_state)
     (collect_snapshot (run_store demo_history empty_state)) = Ok s' \<and>
   map_of (ts_tasks s') (TaskIdData 2) = live_task (run_store demo_history empty_state) (TaskIdData 2)"
  using save_restore_round_trip [OF demo_clock] by blast

text \<open>
  And through the wire format of version 2: decoding an encoded image gives the image back, with
  the tags of each task sorted.
\<close>

theorem wire_round_trip:
  assumes "clock_after now cs = Some later"
  defines "s \<equiv> run_store cs empty_state"
  shows "decode_v2 (encode_snapshot (collect_snapshot s)) =
    Ok ((collect_snapshot s)\<lparr>sn_tasks := map (\<lambda>t. t\<lparr>td_tags := sort (td_tags t)\<rparr>)
      (sn_tasks (collect_snapshot s))\<rparr>)"
proof -
  have ok: "state_ok s"
    unfolding s_def by (rule store_reachable_ok [OF run_store_reachable [OF store_reachable.start]])
  have times: "timestamps_ok s"
    unfolding s_def using clock_ok_run [OF ok_empty(2) assms(1)] clock_ok_timestamps by blast
  have seqs: "seqs_ok s" unfolding s_def by (rule seqs_ok_run [OF ok_empty(1)])
  have "edges_sorted s" unfolding s_def by (rule edges_sorted_run [OF edges_sorted_empty])
  from decode_encode [OF captured_codec_ok [OF ok seqs times this]]
  show ?thesis by (simp add: collect_snapshot_def sorted_tags_def)
qed

theorem wire_round_trip_witness:
  "\<exists>sn. decode_v2 (encode_snapshot (collect_snapshot (run_store demo_history empty_state))) = Ok sn"
  using wire_round_trip [OF demo_clock] by blast

text \<open>
  Identifiers typed by the model: the text of a positive identifier parses back to it, and
  nothing parses to zero.
\<close>

theorem tool_input_round_trip:
  "(task_id_get i \<noteq> 0 \<longrightarrow> parse_tool_input (show_u64 (task_id_get i)) = Ok i) \<and>
   parse_tool_input text \<noteq> Ok (TaskIdData 0)"
proof
  show "task_id_get i \<noteq> 0 \<longrightarrow> parse_tool_input (show_u64 (task_id_get i)) = Ok i"
  proof
    assume "task_id_get i \<noteq> 0"
    then have "\<not> starts_with_zero (show_u64 (task_id_get i))"
      unfolding show_u64_def by (intro starts_with_zero_show) (simp add: unat_gt_0)
    with \<open>task_id_get i \<noteq> 0\<close> show "parse_tool_input (show_u64 (task_id_get i)) = Ok i"
      by (simp add: parse_tool_input_def u64_from_str_show_u64)
  qed
qed (auto simp: parse_tool_input_def split: option.splits)

theorem tool_input_round_trip_witness:
  "parse_tool_input (show_u64 (task_id_get (TaskIdData 42))) = Ok (TaskIdData 42)"
  using tool_input_round_trip [of "TaskIdData 42"] by simp

section \<open>Where the code departs from its documentation\<close>

text \<open>
  Deleting an already deleted task through \<open>delete_with_progress\<close> emits no event but advances the
  revision, although idempotent commands are documented to leave it alone.
\<close>

lemma finding_delete_twice_advances_revision:
  "\<exists>s r s'. store_reachable s \<and> delete_with_progress (TaskIdData 1) 10 s = (Ok r, s') \<and>
     cr_events r = [] \<and> revision_nat s' = revision_nat s + 1"
proof -
  let ?s = "step_store (CmdDelete (TaskIdData 1) 9) demo_store"
  have "(case delete_with_progress (TaskIdData 1) 10 ?s of
      (Ok r, s') \<Rightarrow> cr_events r = [] \<and> ts_revision s' = TaskRevisionData 7 \<and> ts_revision ?s = TaskRevisionData 6
    | _ \<Rightarrow> False)" by code_simp
  then have "\<exists>r s'. delete_with_progress (TaskIdData 1) 10 ?s = (Ok r, s') \<and> cr_events r = [] \<and>
      revision_nat s' = revision_nat ?s + 1"
    by (auto split: prod.splits outcome.splits)
  then show ?thesis using store_reachable.command [OF demo_reachable] by blast
qed

text \<open>
  An image whose edges are not sorted is accepted as it is. Replacing the blockers of the task by the same ones
  then answers with success and advances the revision, although nothing has changed and no event is emitted.
\<close>

definition unsorted_image :: task_snapshot where
  "unsorted_image =
     (let sn = collect_snapshot demo_store
      in sn\<lparr>sn_tasks := map (\<lambda>t. if td_id t = TaskIdData 3
           then t\<lparr>td_blocked_by := [TaskIdData 2, TaskIdData 1]\<rparr> else t) (sn_tasks sn)\<rparr>)"

definition unsorted_store :: task_store_state where
  "unsorted_store = commit_restore (ok_value (prepare_restore demo_store unsorted_image)) demo_store"

lemma finding_unsorted_edges_stay:
  "store_reachable unsorted_store \<and> \<not> edges_sorted unsorted_store \<and>
   (\<exists>r s'. replace_dependencies (TaskIdData 3) [TaskIdData 1, TaskIdData 2] 9 unsorted_store = (Ok r, s') \<and>
      cr_events r = [] \<and> td_blocked_by (cr_value r) = [TaskIdData 2, TaskIdData 1] \<and>
      revision_nat s' = revision_nat unsorted_store + 1)"
proof -
  have "prepare_restore demo_store unsorted_image = Ok (ok_value (prepare_restore demo_store unsorted_image))"
    by code_simp
  moreover have "image_fresh unsorted_image"
    using captured_fresh [OF demo_ok(1)] by (auto simp: image_fresh_def unsorted_image_def collect_snapshot_def Let_def)
  ultimately have "store_reachable unsorted_store"
    unfolding unsorted_store_def using store_reachable.restore [OF demo_reachable] by blast
  moreover have "(case map_of (ts_tasks unsorted_store) (TaskIdData 3) of
      Some t \<Rightarrow> td_blocked_by t = [TaskIdData 2, TaskIdData 1] | None \<Rightarrow> False)" by code_simp
  then obtain t where t: "map_of (ts_tasks unsorted_store) (TaskIdData 3) = Some t"
      "td_blocked_by t = [TaskIdData 2, TaskIdData 1]" by (auto split: option.splits)
  have "\<not> edges_sorted unsorted_store"
  proof
    assume "edges_sorted unsorted_store"
    then have "sorted [TaskIdData 2, TaskIdData 1]" using t unfolding edges_sorted_def by fastforce
    then show False by (simp add: less_eq_task_id_def word_le_nat_alt)
  qed
  moreover have "(case replace_dependencies (TaskIdData 3) [TaskIdData 1, TaskIdData 2] 9 unsorted_store of
      (Ok r, s') \<Rightarrow> cr_events r = [] \<and> td_blocked_by (cr_value r) = [TaskIdData 2, TaskIdData 1] \<and>
        ts_revision unsorted_store = TaskRevisionData 5 \<and> ts_revision s' = TaskRevisionData 6
    | _ \<Rightarrow> False)" by code_simp
  then have "\<exists>r s'. replace_dependencies (TaskIdData 3) [TaskIdData 1, TaskIdData 2] 9 unsorted_store = (Ok r, s') \<and>
      cr_events r = [] \<and> td_blocked_by (cr_value r) = [TaskIdData 2, TaskIdData 1] \<and>
      revision_nat s' = revision_nat unsorted_store + 1"
    by (auto split: prod.splits outcome.splits)
  ultimately show ?thesis by blast
qed

text \<open>A leading plus sign passes the check against non-canonical numbers.\<close>

lemma finding_plus_sign_accepted:
  "parse_tool_input (lit ''+5'') = Ok (TaskIdData 5)" "parse_tool_input (lit ''+05'') = Ok (TaskIdData 5)"
  by (simp_all add: lit_def parse_tool_input_def u64_from_str_def is_ascii_digit_def starts_with_zero_def)

text \<open>With a clock that runs backwards a store captures an image that it then rejects.\<close>

lemma finding_clock_step_back_unrestorable:
  "case prepare (snapshot_from_state (run_store [CmdSetPriority (TaskIdData 1) Low 1] demo_store)) of
     Err e \<Rightarrow> e = InvalidTaskTimestamps (TaskIdData 1)
   | _ \<Rightarrow> False"
  by code_simp

text \<open>
  A version 1 record that was completed before its last update and has no start time is given the
  update as its start time, which the validation then rejects.
\<close>

lemma finding_v1_upgrade_rejected:
  assumes "c < u" "upgrade_v1_execution_timestamps Completed u None (Some c) = (started, completed)"
    and "td_started_at t = started" "td_completed_at t = completed" "td_updated_at t = u"
  shows "\<not> valid_task_timestamps t"
proof -
  have "td_started_at t = Some u" "td_completed_at t = Some c" using assms by auto
  then show ?thesis using assms(1) by (simp add: valid_task_timestamps_def Let_def)
qed

end
