(* ===== verification/Run_Model.thy ===== *)
theory Run_Model
  imports Prelude
begin

text \<open>
  The data of one agent run (\<open>agent/features/runtime/src/domain/agent_run\<close>): \<open>state.rs\<close>, \<open>step.rs\<close>,
  \<open>event.rs\<close>, \<open>intent.rs\<close> and the fields of the aggregate in \<open>domain.rs\<close>.

  Identifiers are strings, as \<open>define_typed_id!\<close> declares them. \<open>Instant\<close> and \<open>Duration\<close> are natural
  numbers of nanoseconds; the moment \<open>Instant::now()\<close> returns is an argument of the operations that
  read it. The JSON input of a tool call is the type parameter \<open>'j\<close>. Constructors carry a prefix where
  the Rust enums share a name.
\<close>

section \<open>Statuses\<close>

datatype run_status =
    RsCreated | RsDrainingInput | RsPreparingContext | RsInvokingModel | RsApplyingResponse
  | RsAwaitingToolApproval | RsExecutingTools | RsAwaitingUser | RsCompacting | RsReflecting
  | RsCancellingStep | RsFinalizingStep | RsTerminating | RsCompleted | RsFailed | RsTerminated

fun rs_is_terminal :: "run_status \<Rightarrow> bool" where
  "rs_is_terminal RsCompleted = True"
| "rs_is_terminal RsFailed = True"
| "rs_is_terminal RsTerminated = True"
| "rs_is_terminal _ = False"

datatype run_step_status =
    SsInvoking | SsApplying | SsToolPhase | SsCancelling | SsFinalizing
  | SsDone | SsFailed | SsCancelled | SsCancellationUnconfirmed

text \<open>The pattern that \<open>is_active\<close>, \<open>active_step_mut\<close> and \<open>close_active_steps\<close> all spell out.\<close>

fun ss_closed :: "run_step_status \<Rightarrow> bool" where
  "ss_closed SsDone = True"
| "ss_closed SsFailed = True"
| "ss_closed SsCancelled = True"
| "ss_closed SsCancellationUnconfirmed = True"
| "ss_closed _ = False"

datatype tool_call_status = TcPending | TcReady | TcRunning | TcSuccess | TcError | TcCancelled

fun can_transition_to :: "tool_call_status \<Rightarrow> tool_call_status \<Rightarrow> bool" where
  "can_transition_to TcPending TcReady = True"
| "can_transition_to TcPending TcCancelled = True"
| "can_transition_to TcReady TcRunning = True"
| "can_transition_to TcReady TcCancelled = True"
| "can_transition_to TcRunning TcSuccess = True"
| "can_transition_to TcRunning TcError = True"
| "can_transition_to TcRunning TcCancelled = True"
| "can_transition_to _ _ = False"

section \<open>Transitions and their reasons\<close>

datatype run_transition =
    StartDraining | DrainInputs | DrainInternalContinuation | DrainEmptyAndSealed
  | BeginCompaction | CompactionCompleted | BeginReflection | ReflectionCompleted
  | ContextPrepared | RetryModel | ModelContextExceeded | ModelInvoked | ResponseWithTools
  | ContinueAfterResponse | ToolsApproved | AwaitUser | UserResumed | ToolsCompleted
  | StepCancelled | TerminationFinished

datatype run_transition_reason =
    WhyDrainStarted | WhyDrainInputs | WhyDrainInternalContinuation | WhyDrainEmptyAndSealed
  | WhyBeginCompaction | WhyCompactionCompleted | WhyManualCompactionSettled
  | WhyBeginReflection | WhyReflectionCompleted | WhyManualReflectionSettled
  | WhyContextPrepared | WhyRetryModel | WhyModelContextExceeded | WhyModelInvoked
  | WhyResponseWithTools | WhyContinueAfterResponse | WhyToolsApproved | WhyAwaitUser
  | WhyUserResumed | WhyToolsCompleted | WhyStepCancellationRequested
  | WhyStepFinalizationStarted | WhyStepCancelled | WhyTerminationRequested
  | WhyTerminationFinished | WhyFailed

fun reason_from :: "run_transition \<Rightarrow> run_transition_reason" where
  "reason_from StartDraining = WhyDrainStarted"
| "reason_from DrainInputs = WhyDrainInputs"
| "reason_from DrainInternalContinuation = WhyDrainInternalContinuation"
| "reason_from DrainEmptyAndSealed = WhyDrainEmptyAndSealed"
| "reason_from BeginCompaction = WhyBeginCompaction"
| "reason_from CompactionCompleted = WhyCompactionCompleted"
| "reason_from BeginReflection = WhyBeginReflection"
| "reason_from ReflectionCompleted = WhyReflectionCompleted"
| "reason_from ContextPrepared = WhyContextPrepared"
| "reason_from RetryModel = WhyRetryModel"
| "reason_from ModelContextExceeded = WhyModelContextExceeded"
| "reason_from ModelInvoked = WhyModelInvoked"
| "reason_from ResponseWithTools = WhyResponseWithTools"
| "reason_from ContinueAfterResponse = WhyContinueAfterResponse"
| "reason_from ToolsApproved = WhyToolsApproved"
| "reason_from AwaitUser = WhyAwaitUser"
| "reason_from UserResumed = WhyUserResumed"
| "reason_from ToolsCompleted = WhyToolsCompleted"
| "reason_from StepCancelled = WhyStepCancelled"
| "reason_from TerminationFinished = WhyTerminationFinished"

section \<open>Identifiers and interactions\<close>

type_synonym run_id = ustr
type_synonym run_step_id = ustr
type_synonym tool_call_id = ustr
type_synonym interaction_request_id = ustr

datatype interaction_continuation =
    CompleteToolCall tool_call_id
  | ContinueToolApproval tool_call_id

fun resume_status :: "interaction_continuation \<Rightarrow> run_status" where
  "resume_status (CompleteToolCall _) = RsExecutingTools"
| "resume_status (ContinueToolApproval _) = RsExecutingTools"

record pending_interaction =
  pi_request_id :: interaction_request_id
  pi_continuation :: interaction_continuation

section \<open>Errors and typed replies\<close>

datatype run_transition_error =
    IllegalTransition run_status run_transition
  | IllegalCommandTransition run_status run_status
  | RunNotActive run_status
  | StepNotFound
  | StepNotActive
  | ActiveStepAlreadyExists
  | StepIncomplete
  | InvocationAlreadyRecorded
  | ToolCallNotFound
  | IllegalToolCallTransition tool_call_status tool_call_status
  | InteractionAlreadyPending interaction_request_id
  | NoPendingInteraction
  | InteractionRequestMismatch interaction_request_id interaction_request_id

datatype drain_decision = DdInputs | DdInternalContinuation | DdEmptyAndSealed

datatype step_cancellation_request =
    CancelAccepted | AlreadyCancelling | NoActiveStep | RunTerminating | RunTerminal

datatype run_termination_request = TerminationAccepted | AlreadyTerminating | AlreadyTerminal

datatype stop_hook_block_result = Blocked u64 | RetryExhausted u64

datatype run_termination_reason =
    UserExit | DoubleCtrlC | QuitCommand | ProcessSignal | SessionShutdown | ParentStepCancelled

datatype step_cancellation_terminal = CtCancelled | CtCancellationUnconfirmed

record control_deadline =
  unix_millis :: u64

section \<open>Intents\<close>

datatype run_intent =
  Conversation | ManualCompaction | ManualReflection | BackgroundProcessWakeup

fun allows_auto_reflection :: "run_intent \<Rightarrow> bool" where
  "allows_auto_reflection Conversation = True"
| "allows_auto_reflection _ = False"

section \<open>Tool calls and steps\<close>

record 'j tool_call =
  tc_id :: tool_call_id
  tc_provider_id :: ustr
  tc_name :: ustr
  tc_index :: u64
  tc_input :: 'j

record 'j run_tool_call =
  rtc_call :: "'j tool_call"
  rtc_status :: tool_call_status

definition run_tool_call_new :: "'j tool_call \<Rightarrow> 'j run_tool_call" where
  "run_tool_call_new call = \<lparr>rtc_call = call, rtc_status = TcPending\<rparr>"

definition rtc_id :: "'j run_tool_call \<Rightarrow> tool_call_id" where
  "rtc_id c = tc_id (rtc_call c)"

definition rtc_advance :: "tool_call_status \<Rightarrow> 'j run_tool_call \<Rightarrow> bool \<times> 'j run_tool_call" where
  "rtc_advance next c =
     (if \<not> can_transition_to (rtc_status c) next then (False, c)
      else (True, c\<lparr>rtc_status := next\<rparr>))"

record model_invocation =
  mi_response :: ustr

record 'j run_step =
  st_id :: run_step_id
  st_status :: run_step_status
  st_invocation :: "model_invocation option"
  st_tool_calls :: "'j run_tool_call list"

definition step_is_active :: "'j run_step \<Rightarrow> bool" where
  "step_is_active s \<longleftrightarrow> \<not> ss_closed (st_status s)"

fun tc_finished :: "tool_call_status \<Rightarrow> bool" where
  "tc_finished TcSuccess = True"
| "tc_finished TcError = True"
| "tc_finished TcCancelled = True"
| "tc_finished _ = False"

definition step_is_complete :: "'j run_step \<Rightarrow> bool" where
  "step_is_complete s \<longleftrightarrow>
     st_invocation s \<noteq> None \<and> list_all (\<lambda>c. tc_finished (rtc_status c)) (st_tool_calls s)"

section \<open>Time\<close>

type_synonym instant = nat
type_synonym duration = nat

definition duration_millis :: "instant \<Rightarrow> instant \<Rightarrow> u64" where
  "duration_millis now started_at =
     (let ms = (now - started_at) div 1000000 in if ms < 2 ^ 64 then of_nat ms else - 1)"

record run_timing_snapshot =
  observation_revision :: u64
  total_elapsed_ms :: u64
  phase_elapsed_ms :: u64

section \<open>Lifecycle events\<close>

text \<open>Every event carries the run and its parent first.\<close>

datatype runtime_lifecycle_event =
    EvTransitioned (ev_run: run_id) (ev_parent: "run_id option") (ev_from: run_status)
      (ev_to: run_status) run_transition_reason (ev_timing: run_timing_snapshot)
  | EvStarted (ev_run: run_id) (ev_parent: "run_id option")
  | EvStepStarted (ev_run: run_id) (ev_parent: "run_id option") run_step_id
  | EvStepCompleted (ev_run: run_id) (ev_parent: "run_id option") run_step_id
  | EvStepCancellationRequested (ev_run: run_id) (ev_parent: "run_id option") run_step_id
  | EvStepFinalizationStarted (ev_run: run_id) (ev_parent: "run_id option") run_step_id
  | EvStepCancelled (ev_run: run_id) (ev_parent: "run_id option") run_step_id
      step_cancellation_terminal
  | EvDrainingInput (ev_run: run_id) (ev_parent: "run_id option")
  | EvTerminationRequested (ev_run: run_id) (ev_parent: "run_id option") run_termination_reason
      control_deadline
  | EvTerminated (ev_run: run_id) (ev_parent: "run_id option") run_termination_reason
  | EvAwaitingUser (ev_run: run_id) (ev_parent: "run_id option") interaction_request_id
  | EvResumed (ev_run: run_id) (ev_parent: "run_id option") interaction_request_id
  | EvStuckDetected (ev_run: run_id) (ev_parent: "run_id option") ustr
  | EvCompleted (ev_run: run_id) (ev_parent: "run_id option") ustr bool
  | EvFailed (ev_run: run_id) (ev_parent: "run_id option") ustr

end
