(* ===== verification/Run_Spec.thy ===== *)
theory Run_Spec
  imports Run_Model
begin

text \<open>
  The specification a run is created from (\<open>agent_run/spec.rs\<close>): ten capability dimensions and a
  timeout, the restricted policy, and the ceiling a derived specification inherits from its parent.

  Each dimension has its own \<open>is_within\<close>. The locale \<open>capability_order\<close> is what the derivation relies
  on (a preorder), and it is interpreted once for every dimension. \<open>spec_within\<close> is the relation
  \<open>validate_against\<close> decides.
\<close>

section \<open>Dimensions\<close>

datatype interaction_binding_mode = IbClient | IbParentMediated | IbUnavailable

fun ib_is_within :: "interaction_binding_mode \<Rightarrow> interaction_binding_mode \<Rightarrow> bool" where
  "ib_is_within IbClient IbParentMediated = False"
| "ib_is_within IbClient IbUnavailable = False"
| "ib_is_within IbParentMediated IbUnavailable = False"
| "ib_is_within _ _ = True"

datatype hook_binding_mode = HookFull | HookBoundaryOnly

fun hook_is_within :: "hook_binding_mode \<Rightarrow> hook_binding_mode \<Rightarrow> bool" where
  "hook_is_within HookFull HookBoundaryOnly = False"
| "hook_is_within _ _ = True"

datatype reasoning_binding_mode = RbAdaptive | RbFixed | RbInherit | RbNoOp

fun rb_is_within :: "reasoning_binding_mode \<Rightarrow> reasoning_binding_mode \<Rightarrow> bool" where
  "rb_is_within RbAdaptive RbFixed = False"
| "rb_is_within RbAdaptive RbInherit = False"
| "rb_is_within RbAdaptive RbNoOp = False"
| "rb_is_within RbFixed RbInherit = False"
| "rb_is_within RbFixed RbNoOp = False"
| "rb_is_within RbInherit RbNoOp = False"
| "rb_is_within _ _ = True"

datatype input_mode = SessionQueue | InputFixed

fun input_is_within :: "input_mode \<Rightarrow> input_mode \<Rightarrow> bool" where
  "input_is_within SessionQueue InputFixed = False"
| "input_is_within _ _ = True"

datatype interaction_mode = Interactive | NonInteractive

fun interaction_is_within :: "interaction_mode \<Rightarrow> interaction_mode \<Rightarrow> bool" where
  "interaction_is_within Interactive NonInteractive = False"
| "interaction_is_within _ _ = True"

datatype event_route = RouteClient | RouteParentRun

fun route_is_within :: "event_route \<Rightarrow> event_route \<Rightarrow> bool" where
  "route_is_within RouteClient RouteParentRun = False"
| "route_is_within _ _ = True"

datatype resource_mode = ResShared | ResIsolated

fun resource_is_within :: "resource_mode \<Rightarrow> resource_mode \<Rightarrow> bool" where
  "resource_is_within ResShared ResIsolated = False"
| "resource_is_within _ _ = True"

datatype memory_mode = MemEnabled | MemDisabled

fun memory_is_within :: "memory_mode \<Rightarrow> memory_mode \<Rightarrow> bool" where
  "memory_is_within MemEnabled MemDisabled = False"
| "memory_is_within _ _ = True"

datatype tool_scope = ScopeFull | ScopeRestricted

fun scope_is_within :: "tool_scope \<Rightarrow> tool_scope \<Rightarrow> bool" where
  "scope_is_within ScopeFull ScopeRestricted = False"
| "scope_is_within _ _ = True"

section \<open>The order every dimension promises\<close>

locale capability_order =
  fixes within :: "'m \<Rightarrow> 'm \<Rightarrow> bool"
  assumes within_refl: "within a a"
    and within_trans: "within a b \<Longrightarrow> within b c \<Longrightarrow> within a c"
begin

lemma chain_within:
  "successively (\<lambda>parent child. within child parent) (base # ms) \<Longrightarrow> m \<in> set ms \<Longrightarrow> within m base"
proof (induction ms arbitrary: base)
  case (Cons c ms)
  then have "within c base" by simp
  moreover have "m \<in> set ms \<Longrightarrow> within m c" using Cons by simp
  ultimately show ?case using Cons.prems within_trans by auto
qed simp

end

interpretation ib: capability_order ib_is_within
proof
  show "ib_is_within a a" for a by (cases a) auto
  show "ib_is_within a b \<Longrightarrow> ib_is_within b c \<Longrightarrow> ib_is_within a c" for a b c
    by (cases a; cases b; cases c) auto
qed

interpretation hook: capability_order hook_is_within
proof
  show "hook_is_within a a" for a by (cases a) auto
  show "hook_is_within a b \<Longrightarrow> hook_is_within b c \<Longrightarrow> hook_is_within a c" for a b c
    by (cases a; cases b; cases c) auto
qed

interpretation rb: capability_order rb_is_within
proof
  show "rb_is_within a a" for a by (cases a) auto
  show "rb_is_within a b \<Longrightarrow> rb_is_within b c \<Longrightarrow> rb_is_within a c" for a b c
    by (cases a; cases b; cases c) auto
qed

interpretation input: capability_order input_is_within
proof
  show "input_is_within a a" for a by (cases a) auto
  show "input_is_within a b \<Longrightarrow> input_is_within b c \<Longrightarrow> input_is_within a c" for a b c
    by (cases a; cases b; cases c) auto
qed

interpretation interaction: capability_order interaction_is_within
proof
  show "interaction_is_within a a" for a by (cases a) auto
  show "interaction_is_within a b \<Longrightarrow> interaction_is_within b c \<Longrightarrow> interaction_is_within a c"
    for a b c by (cases a; cases b; cases c) auto
qed

interpretation route: capability_order route_is_within
proof
  show "route_is_within a a" for a by (cases a) auto
  show "route_is_within a b \<Longrightarrow> route_is_within b c \<Longrightarrow> route_is_within a c" for a b c
    by (cases a; cases b; cases c) auto
qed

interpretation resource: capability_order resource_is_within
proof
  show "resource_is_within a a" for a by (cases a) auto
  show "resource_is_within a b \<Longrightarrow> resource_is_within b c \<Longrightarrow> resource_is_within a c" for a b c
    by (cases a; cases b; cases c) auto
qed

interpretation memory: capability_order memory_is_within
proof
  show "memory_is_within a a" for a by (cases a) auto
  show "memory_is_within a b \<Longrightarrow> memory_is_within b c \<Longrightarrow> memory_is_within a c" for a b c
    by (cases a; cases b; cases c) auto
qed

interpretation scope: capability_order scope_is_within
proof
  show "scope_is_within a a" for a by (cases a) auto
  show "scope_is_within a b \<Longrightarrow> scope_is_within b c \<Longrightarrow> scope_is_within a c" for a b c
    by (cases a; cases b; cases c) auto
qed

section \<open>Specifications\<close>

datatype capability_policy = PolicyFull | PolicyRestricted

datatype run_spec_error = CapabilityEscalation

record capability_ceiling =
  cc_input :: input_mode
  cc_interaction :: interaction_mode
  cc_events :: event_route
  cc_context :: resource_mode
  cc_workspace :: resource_mode
  cc_memory :: memory_mode
  cc_tools :: tool_scope
  cc_timeout :: duration
  cc_interaction_kind :: interaction_binding_mode
  cc_hooks :: hook_binding_mode
  cc_reasoning :: reasoning_binding_mode

record run_spec =
  sp_name :: ustr
  sp_timeout :: duration
  sp_input :: input_mode
  sp_interaction :: interaction_mode
  sp_events :: event_route
  sp_context :: resource_mode
  sp_workspace :: resource_mode
  sp_memory :: memory_mode
  sp_tools :: tool_scope
  sp_intent :: run_intent
  sp_interaction_kind :: interaction_binding_mode
  sp_hooks :: hook_binding_mode
  sp_reasoning :: reasoning_binding_mode
  sp_policy :: capability_policy
  sp_ceiling :: "capability_ceiling option"

definition ceiling_from_spec :: "run_spec \<Rightarrow> capability_ceiling" where
  "ceiling_from_spec s =
     \<lparr>cc_input = sp_input s, cc_interaction = sp_interaction s, cc_events = sp_events s,
      cc_context = sp_context s, cc_workspace = sp_workspace s, cc_memory = sp_memory s,
      cc_tools = sp_tools s, cc_timeout = sp_timeout s,
      cc_interaction_kind = sp_interaction_kind s, cc_hooks = sp_hooks s,
      cc_reasoning = sp_reasoning s\<rparr>"

definition spec_full :: "ustr \<Rightarrow> duration \<Rightarrow> run_spec" where
  "spec_full n timeout =
     \<lparr>sp_name = n, sp_timeout = timeout, sp_input = SessionQueue, sp_interaction = Interactive,
      sp_events = RouteClient, sp_context = ResShared, sp_workspace = ResShared,
      sp_memory = MemEnabled, sp_tools = ScopeFull, sp_intent = Conversation,
      sp_interaction_kind = IbClient, sp_hooks = HookFull, sp_reasoning = RbAdaptive,
      sp_policy = PolicyFull, sp_ceiling = None\<rparr>"

definition spec_main :: run_spec where
  "spec_main = spec_full (lit ''main'') 0"

definition spec_restricted :: "ustr \<Rightarrow> duration \<Rightarrow> run_spec" where
  "spec_restricted n timeout =
     \<lparr>sp_name = n, sp_timeout = timeout, sp_input = InputFixed, sp_interaction = NonInteractive,
      sp_events = RouteParentRun, sp_context = ResIsolated, sp_workspace = ResIsolated,
      sp_memory = MemDisabled, sp_tools = ScopeRestricted, sp_intent = Conversation,
      sp_interaction_kind = IbParentMediated, sp_hooks = HookBoundaryOnly,
      sp_reasoning = RbInherit, sp_policy = PolicyRestricted, sp_ceiling = None\<rparr>"

definition spec_sub :: "ustr \<Rightarrow> duration \<Rightarrow> run_spec" where
  "spec_sub n timeout = spec_restricted n timeout"

definition spec_manual_compaction :: run_spec where
  "spec_manual_compaction = (spec_full (lit ''main'') 0)\<lparr>sp_intent := ManualCompaction\<rparr>"

definition spec_manual_reflection :: run_spec where
  "spec_manual_reflection = (spec_full (lit ''main'') 0)\<lparr>sp_intent := ManualReflection\<rparr>"

definition spec_background_process_wakeup :: run_spec where
  "spec_background_process_wakeup =
     (spec_full (lit ''main'') 0)\<lparr>sp_intent := BackgroundProcessWakeup\<rparr>"

text \<open>The conjunction \<open>derive_sub\<close> and \<open>validate_against\<close> both write out, without the timeout.\<close>

definition modes_within :: "run_spec \<Rightarrow> run_spec \<Rightarrow> bool" where
  "modes_within s parent \<longleftrightarrow>
     input_is_within (sp_input s) (sp_input parent) \<and>
     interaction_is_within (sp_interaction s) (sp_interaction parent) \<and>
     route_is_within (sp_events s) (sp_events parent) \<and>
     resource_is_within (sp_context s) (sp_context parent) \<and>
     resource_is_within (sp_workspace s) (sp_workspace parent) \<and>
     memory_is_within (sp_memory s) (sp_memory parent) \<and>
     scope_is_within (sp_tools s) (sp_tools parent) \<and>
     ib_is_within (sp_interaction_kind s) (sp_interaction_kind parent) \<and>
     hook_is_within (sp_hooks s) (sp_hooks parent) \<and>
     rb_is_within (sp_reasoning s) (sp_reasoning parent)"

definition derive_sub ::
  "run_spec \<Rightarrow> ustr \<Rightarrow> duration \<Rightarrow> (run_spec_error, run_spec) outcome" where
  "derive_sub self n timeout =
     (if sp_timeout self \<noteq> 0 \<and> (timeout = 0 \<or> timeout > sp_timeout self)
      then Err CapabilityEscalation
      else
        let derived = spec_restricted n timeout in
        if \<not> modes_within derived self then Err CapabilityEscalation
        else Ok (derived\<lparr>sp_ceiling := Some (ceiling_from_spec self)\<rparr>))"

definition enforce_policy :: "run_spec \<Rightarrow> bool \<Rightarrow> (run_spec_error, unit) outcome" where
  "enforce_policy s within_restricted =
     (if sp_policy s = PolicyRestricted \<and> \<not> within_restricted then Err CapabilityEscalation
      else Ok ())"

definition check_ceiling ::
  "run_spec \<Rightarrow> (capability_ceiling \<Rightarrow> bool) \<Rightarrow> (run_spec_error, unit) outcome" where
  "check_ceiling s pred =
     (case sp_ceiling s of
        Some ceiling \<Rightarrow> if \<not> pred ceiling then Err CapabilityEscalation else Ok ()
      | None \<Rightarrow> Ok ())"

definition with_input :: "run_spec \<Rightarrow> input_mode \<Rightarrow> (run_spec_error, run_spec) outcome" where
  "with_input s v =
     guard_ok (enforce_policy s (input_is_within v InputFixed))
       (guard_ok (check_ceiling s (\<lambda>c. input_is_within v (cc_input c)))
         (Ok (s\<lparr>sp_input := v\<rparr>)))"

definition with_interaction ::
  "run_spec \<Rightarrow> interaction_mode \<Rightarrow> (run_spec_error, run_spec) outcome" where
  "with_interaction s v =
     guard_ok (enforce_policy s (interaction_is_within v NonInteractive))
       (guard_ok (check_ceiling s (\<lambda>c. interaction_is_within v (cc_interaction c)))
         (Ok (s\<lparr>sp_interaction := v\<rparr>)))"

definition with_events :: "run_spec \<Rightarrow> event_route \<Rightarrow> (run_spec_error, run_spec) outcome" where
  "with_events s v =
     guard_ok (enforce_policy s (route_is_within v RouteParentRun))
       (guard_ok (check_ceiling s (\<lambda>c. route_is_within v (cc_events c)))
         (Ok (s\<lparr>sp_events := v\<rparr>)))"

definition with_context :: "run_spec \<Rightarrow> resource_mode \<Rightarrow> (run_spec_error, run_spec) outcome" where
  "with_context s v =
     guard_ok (enforce_policy s (resource_is_within v ResIsolated))
       (guard_ok (check_ceiling s (\<lambda>c. resource_is_within v (cc_context c)))
         (Ok (s\<lparr>sp_context := v\<rparr>)))"

definition with_workspace :: "run_spec \<Rightarrow> resource_mode \<Rightarrow> (run_spec_error, run_spec) outcome" where
  "with_workspace s v =
     guard_ok (enforce_policy s (resource_is_within v ResIsolated))
       (guard_ok (check_ceiling s (\<lambda>c. resource_is_within v (cc_workspace c)))
         (Ok (s\<lparr>sp_workspace := v\<rparr>)))"

definition with_memory_mode :: "run_spec \<Rightarrow> memory_mode \<Rightarrow> (run_spec_error, run_spec) outcome" where
  "with_memory_mode s v =
     guard_ok (if sp_ceiling s = None then enforce_policy s (memory_is_within v MemDisabled) else Ok ())
       (guard_ok (check_ceiling s (\<lambda>c. memory_is_within v (cc_memory c)))
         (Ok (s\<lparr>sp_memory := v\<rparr>)))"

definition with_tool_scope :: "run_spec \<Rightarrow> tool_scope \<Rightarrow> (run_spec_error, run_spec) outcome" where
  "with_tool_scope s v =
     guard_ok (enforce_policy s (scope_is_within v ScopeRestricted))
       (guard_ok (check_ceiling s (\<lambda>c. scope_is_within v (cc_tools c)))
         (Ok (s\<lparr>sp_tools := v\<rparr>)))"

definition with_interaction_kind ::
  "run_spec \<Rightarrow> interaction_binding_mode \<Rightarrow> (run_spec_error, run_spec) outcome" where
  "with_interaction_kind s v =
     guard_ok (check_ceiling s (\<lambda>c. ib_is_within v (cc_interaction_kind c)))
       (Ok (s\<lparr>sp_interaction_kind := v\<rparr>))"

definition with_hooks :: "run_spec \<Rightarrow> hook_binding_mode \<Rightarrow> (run_spec_error, run_spec) outcome" where
  "with_hooks s v =
     guard_ok (check_ceiling s (\<lambda>c. hook_is_within v (cc_hooks c))) (Ok (s\<lparr>sp_hooks := v\<rparr>))"

definition with_reasoning ::
  "run_spec \<Rightarrow> reasoning_binding_mode \<Rightarrow> (run_spec_error, run_spec) outcome" where
  "with_reasoning s v =
     guard_ok (check_ceiling s (\<lambda>c. rb_is_within v (cc_reasoning c))) (Ok (s\<lparr>sp_reasoning := v\<rparr>))"

definition with_timeout :: "run_spec \<Rightarrow> duration \<Rightarrow> (run_spec_error, run_spec) outcome" where
  "with_timeout s timeout =
     guard_ok
       (check_ceiling s (\<lambda>c. if cc_timeout c = 0 then True
                             else timeout \<noteq> 0 \<and> timeout \<le> cc_timeout c))
       (Ok (s\<lparr>sp_timeout := timeout\<rparr>))"

definition validate_against :: "run_spec \<Rightarrow> run_spec \<Rightarrow> (run_spec_error, unit) outcome" where
  "validate_against s parent =
     (let within_timeout =
        sp_timeout parent = 0 \<or> (sp_timeout s \<noteq> 0 \<and> sp_timeout s \<le> sp_timeout parent)
      in if modes_within s parent \<and> within_timeout then Ok () else Err CapabilityEscalation)"

section \<open>Builder sequences\<close>

datatype spec_builder =
    WithInput input_mode | WithInteraction interaction_mode | WithEvents event_route
  | WithContext resource_mode | WithWorkspace resource_mode | WithMemoryMode memory_mode
  | WithToolScope tool_scope | WithInteractionKind interaction_binding_mode
  | WithHooks hook_binding_mode | WithReasoning reasoning_binding_mode | WithTimeout duration

fun apply_builder :: "spec_builder \<Rightarrow> run_spec \<Rightarrow> (run_spec_error, run_spec) outcome" where
  "apply_builder (WithInput v) s = with_input s v"
| "apply_builder (WithInteraction v) s = with_interaction s v"
| "apply_builder (WithEvents v) s = with_events s v"
| "apply_builder (WithContext v) s = with_context s v"
| "apply_builder (WithWorkspace v) s = with_workspace s v"
| "apply_builder (WithMemoryMode v) s = with_memory_mode s v"
| "apply_builder (WithToolScope v) s = with_tool_scope s v"
| "apply_builder (WithInteractionKind v) s = with_interaction_kind s v"
| "apply_builder (WithHooks v) s = with_hooks s v"
| "apply_builder (WithReasoning v) s = with_reasoning s v"
| "apply_builder (WithTimeout v) s = with_timeout s v"

fun apply_builders :: "spec_builder list \<Rightarrow> run_spec \<Rightarrow> (run_spec_error, run_spec) outcome" where
  "apply_builders [] s = Ok s"
| "apply_builders (b # bs) s =
     (case apply_builder b s of Ok s' \<Rightarrow> apply_builders bs s' | Err e \<Rightarrow> Err e | Panic \<Rightarrow> Panic)"

lemmas builder_defs [step_defs] = with_input_def with_interaction_def with_events_def
  with_context_def with_workspace_def with_memory_mode_def with_tool_scope_def
  with_interaction_kind_def with_hooks_def with_reasoning_def with_timeout_def

lemma check_ceiling_Ok [simp]:
  "check_ceiling s p = Ok () \<longleftrightarrow> (\<forall>c. sp_ceiling s = Some c \<longrightarrow> p c)"
  by (auto simp: check_ceiling_def split: option.split)

definition spec_within :: "run_spec \<Rightarrow> run_spec \<Rightarrow> bool" where
  "spec_within s parent \<longleftrightarrow> validate_against s parent = Ok ()"

lemma spec_within_iff:
  "spec_within s parent \<longleftrightarrow> modes_within s parent \<and>
     (sp_timeout parent = 0 \<or> (sp_timeout s \<noteq> 0 \<and> sp_timeout s \<le> sp_timeout parent))"
  by (simp add: spec_within_def validate_against_def)

lemma modes_within_refl: "modes_within s s"
  by (simp add: modes_within_def ib.within_refl hook.within_refl rb.within_refl input.within_refl
      interaction.within_refl route.within_refl resource.within_refl memory.within_refl
      scope.within_refl)

lemma modes_within_trans: "modes_within a b \<Longrightarrow> modes_within b c \<Longrightarrow> modes_within a c"
  unfolding modes_within_def
  by (elim conjE, intro conjI)
    (erule (1) ib.within_trans hook.within_trans rb.within_trans input.within_trans
      interaction.within_trans route.within_trans resource.within_trans memory.within_trans
      scope.within_trans)+

text \<open>The relation the specifications themselves are ordered by obeys the same law.\<close>

interpretation spec: capability_order spec_within
proof
  show "spec_within a a" for a
    by (auto simp: spec_within_iff modes_within_refl)
  show "spec_within a b \<Longrightarrow> spec_within b c \<Longrightarrow> spec_within a c" for a b c
    unfolding spec_within_iff using modes_within_trans [of a b c] by auto
qed

lemma apply_builder_keeps:
  assumes "apply_builder b s = Ok s'" "sp_ceiling s = Some (ceiling_from_spec parent)"
    and "spec_within s parent"
  shows "sp_ceiling s' = sp_ceiling s" and "spec_within s' parent"
    and "sp_policy s' = sp_policy s" and "sp_intent s' = sp_intent s"
  using assms unfolding spec_within_iff
  by (cases b; auto simp: builder_defs modes_within_def ceiling_from_spec_def split: if_splits)+

lemma apply_builders_keep:
  assumes "apply_builders bs s = Ok s'" "sp_ceiling s = Some (ceiling_from_spec parent)"
    and "spec_within s parent"
  shows "spec_within s' parent \<and> sp_ceiling s' = sp_ceiling s \<and> sp_policy s' = sp_policy s"
  using assms
proof (induction bs arbitrary: s)
  case (Cons b bs)
  then show ?case
    using apply_builder_keeps [of b s _ parent] by (auto split: outcome.splits)
qed simp

lemma derive_sub_Ok:
  assumes "derive_sub parent n t = Ok s"
  shows "spec_within s parent" "sp_ceiling s = Some (ceiling_from_spec parent)"
    "sp_policy s = PolicyRestricted" "sp_timeout s = t" "sp_name s = n"
  using assms
  by (auto simp: derive_sub_def Let_def spec_within_iff modes_within_def spec_restricted_def
      split: if_splits)

lemma input_restricted [simp]: "input_is_within InputFixed a" by (cases a) simp_all
lemma interaction_restricted [simp]: "interaction_is_within NonInteractive a" by (cases a) simp_all
lemma route_restricted [simp]: "route_is_within RouteParentRun a" by (cases a) simp_all
lemma resource_restricted [simp]: "resource_is_within ResIsolated a" by (cases a) simp_all
lemma memory_restricted [simp]: "memory_is_within MemDisabled a" by (cases a) simp_all
lemma scope_restricted [simp]: "scope_is_within ScopeRestricted a" by (cases a) simp_all
lemma hook_restricted [simp]: "hook_is_within HookBoundaryOnly a" by (cases a) simp_all

lemma derive_sub_iff:
  "(\<exists>s. derive_sub parent n t = Ok s) \<longleftrightarrow>
     (sp_timeout parent = 0 \<or> (t \<noteq> 0 \<and> t \<le> sp_timeout parent)) \<and>
     sp_interaction_kind parent \<noteq> IbUnavailable \<and> sp_reasoning parent \<noteq> RbNoOp"
proof -
  have "ib_is_within IbParentMediated k \<longleftrightarrow> k \<noteq> IbUnavailable" for k by (cases k) auto
  moreover have "rb_is_within RbInherit k \<longleftrightarrow> k \<noteq> RbNoOp" for k by (cases k) auto
  ultimately have "modes_within (spec_restricted n t) parent \<longleftrightarrow>
      sp_interaction_kind parent \<noteq> IbUnavailable \<and> sp_reasoning parent \<noteq> RbNoOp"
    by (simp add: modes_within_def spec_restricted_def)
  then show ?thesis
    unfolding derive_sub_def Let_def by (cases "t = 0") (simp_all add: not_less)
qed

end
