(* ===== verification/Run_Machine.thy ===== *)
theory Run_Machine
  imports Run_Spec
begin

text \<open>
  The aggregate \<open>Run\<close> of \<open>agent_run/domain.rs\<close>: its state and every method that changes it, in the order
  of the source. A method with a \<open>&mut self\<close> receiver returns its result and the state it leaves, on the
  error paths as well. The accessors of the source are the record selectors. \<open>log::warn!\<close> and
  \<open>log::debug!\<close> have no effect on the state and are left out; \<open>next_drain_epoch += 1\<close> wraps, as in a
  release build.
\<close>

section \<open>State\<close>

record stop_hook_policy =
  shp_max_blocks :: u64

definition stop_hook_policy_new :: "u64 \<Rightarrow> stop_hook_policy" where
  "stop_hook_policy_new n = \<lparr>shp_max_blocks = (if n > 0 then n else 15)\<rparr>"

record 'j run =
  r_id :: run_id
  r_spec :: run_spec
  r_parent_id :: "run_id option"
  r_status :: run_status
  r_reflection_return :: "run_status option"
  r_termination :: "(run_termination_reason \<times> control_deadline) option"
  r_pending_interaction :: "pending_interaction option"
  r_pending_completion_result :: "ustr option"
  r_next_drain_epoch :: u64
  r_stop_hook_block_count :: u64
  r_stop_hook_policy :: stop_hook_policy
  r_user_cancelled_step :: bool
  r_steps :: "'j run_step list"
  r_started_at :: "instant option"
  r_phase_started_at :: "instant option"
  r_timing_revision :: u64
  r_events :: "runtime_lifecycle_event list"

definition run_new ::
  "run_id \<Rightarrow> run_spec \<Rightarrow> run_id option \<Rightarrow> stop_hook_policy \<Rightarrow> 'j run" where
  "run_new i spec parent policy =
     \<lparr>r_id = i, r_spec = spec, r_parent_id = parent, r_status = RsCreated,
      r_reflection_return = None, r_termination = None, r_pending_interaction = None,
      r_pending_completion_result = None, r_next_drain_epoch = 0, r_stop_hook_block_count = 0,
      r_stop_hook_policy = policy, r_user_cancelled_step = False, r_steps = [],
      r_started_at = None, r_phase_started_at = None, r_timing_revision = 0, r_events = []\<rparr>"

abbreviation r_intent :: "'j run \<Rightarrow> run_intent" where
  "r_intent r \<equiv> sp_intent (r_spec r)"

definition push_event ::
  "(run_id \<Rightarrow> run_id option \<Rightarrow> runtime_lifecycle_event) \<Rightarrow> 'j run \<Rightarrow> 'j run" where
  "push_event ev r = r\<lparr>r_events := r_events r @ [ev (r_id r) (r_parent_id r)]\<rparr>"

definition find_step :: "run_step_id \<Rightarrow> 'j run \<Rightarrow> 'j run_step option" where
  "find_step sid r = find (\<lambda>s. st_id s = sid) (r_steps r)"

definition update_step ::
  "run_step_id \<Rightarrow> ('j run_step \<Rightarrow> 'j run_step) \<Rightarrow> 'j run \<Rightarrow> 'j run" where
  "update_step sid f r = r\<lparr>r_steps := update_first (\<lambda>s. st_id s = sid) f (r_steps r)\<rparr>"

definition set_step_status :: "run_step_id \<Rightarrow> run_step_status \<Rightarrow> 'j run \<Rightarrow> 'j run" where
  "set_step_status sid st = update_step sid (\<lambda>s. s\<lparr>st_status := st\<rparr>)"

definition rejects_controlled_work :: "'j run \<Rightarrow> bool" where
  "rejects_controlled_work r \<longleftrightarrow>
     r_status r \<in> {RsCancellingStep, RsFinalizingStep, RsTerminating} \<or> rs_is_terminal (r_status r)"

definition active_step_id :: "'j run \<Rightarrow> run_step_id option" where
  "active_step_id r = map_option st_id (find step_is_active (r_steps r))"

text \<open>The step that \<open>active_step_mut\<close> borrows; the callers then update the first step of that id.\<close>

definition active_step_mut ::
  "run_step_id \<Rightarrow> 'j run \<Rightarrow> (run_transition_error, 'j run_step) outcome" where
  "active_step_mut sid r =
     (case find_step sid r of
        None \<Rightarrow> Err StepNotFound
      | Some s \<Rightarrow> if ss_closed (st_status s) then Err StepNotActive else Ok s)"

section \<open>Changing the status\<close>

definition apply_state_transition ::
  "instant \<Rightarrow> run_status \<Rightarrow> run_transition_reason \<Rightarrow> 'j run \<Rightarrow> 'j run" where
  "apply_state_transition now to_status reason r =
     (let rev = r_timing_revision r + 1;
          timing = \<lparr>observation_revision = rev,
            total_elapsed_ms =
              (case r_started_at r of None \<Rightarrow> 0 | Some t \<Rightarrow> duration_millis now t),
            phase_elapsed_ms = 0\<rparr>
      in push_event (\<lambda>i p. EvTransitioned i p (r_status r) to_status reason timing)
           (r\<lparr>r_timing_revision := rev, r_status := to_status, r_phase_started_at := Some now\<rparr>))"

definition command_status_allowed :: "run_status \<Rightarrow> run_status \<Rightarrow> bool" where
  "command_status_allowed from_status to_status =
     (if rs_is_terminal from_status then False
      else case to_status of
        RsTerminating \<Rightarrow> True
      | RsFailed \<Rightarrow> True
      | RsCancellingStep \<Rightarrow> True
      | RsFinalizingStep \<Rightarrow> from_status = RsCancellingStep
      | RsAwaitingUser \<Rightarrow> from_status \<in> {RsInvokingModel, RsApplyingResponse,
          RsAwaitingToolApproval, RsExecutingTools, RsDrainingInput}
      | RsExecutingTools \<Rightarrow> from_status = RsAwaitingUser
      | RsPreparingContext \<Rightarrow> from_status = RsAwaitingUser
      | RsApplyingResponse \<Rightarrow> from_status = RsAwaitingUser
      | RsAwaitingToolApproval \<Rightarrow> from_status = RsAwaitingUser
      | RsDrainingInput \<Rightarrow> from_status = RsAwaitingUser
      | _ \<Rightarrow> False)"

type_synonym ('j, 'a) run_result = "(run_transition_error, 'a) outcome \<times> 'j run"

definition set_status_by_command ::
  "instant \<Rightarrow> run_status \<Rightarrow> run_transition_reason \<Rightarrow> 'j run \<Rightarrow> ('j, unit) run_result" where
  "set_status_by_command now to_status reason r =
     (if \<not> command_status_allowed (r_status r) to_status
      then (Err (IllegalCommandTransition (r_status r) to_status), r)
      else (Ok (), apply_state_transition now to_status reason r))"

text \<open>
  The matrix of \<open>transition\<close>. The pair \<open>(Reflecting, ReflectionCompleted)\<close> reads the recorded return
  status and is handled by \<open>do_transition\<close>.
\<close>

definition next_status :: "bool \<Rightarrow> run_status \<Rightarrow> run_transition \<Rightarrow> run_status option" where
  "next_status has_active_step from_status transition =
     (case (from_status, transition) of
        (RsCreated, StartDraining) \<Rightarrow> Some RsDrainingInput
      | (RsDrainingInput, DrainInputs) \<Rightarrow> Some RsPreparingContext
      | (RsDrainingInput, DrainInternalContinuation) \<Rightarrow> Some RsPreparingContext
      | (RsDrainingInput, DrainEmptyAndSealed) \<Rightarrow> Some RsCompleted
      | (RsPreparingContext, BeginCompaction) \<Rightarrow> Some RsCompacting
      | (RsCompacting, CompactionCompleted) \<Rightarrow>
          Some (if has_active_step then RsPreparingContext else RsDrainingInput)
      | (RsDrainingInput, BeginCompaction) \<Rightarrow> Some RsCompacting
      | (RsDrainingInput, BeginReflection) \<Rightarrow> Some RsReflecting
      | (RsApplyingResponse, BeginReflection) \<Rightarrow> Some RsReflecting
      | (RsCompacting, BeginReflection) \<Rightarrow> Some RsReflecting
      | (RsPreparingContext, ContextPrepared) \<Rightarrow> Some RsInvokingModel
      | (RsInvokingModel, RetryModel) \<Rightarrow> Some RsInvokingModel
      | (RsInvokingModel, ModelContextExceeded) \<Rightarrow> Some RsCompacting
      | (RsInvokingModel, ModelInvoked) \<Rightarrow> Some RsApplyingResponse
      | (RsApplyingResponse, ResponseWithTools) \<Rightarrow> Some RsAwaitingToolApproval
      | (RsApplyingResponse, ContinueAfterResponse) \<Rightarrow> Some RsDrainingInput
      | (RsAwaitingToolApproval, ToolsApproved) \<Rightarrow> Some RsExecutingTools
      | (RsAwaitingToolApproval, AwaitUser) \<Rightarrow> Some RsAwaitingUser
      | (RsExecutingTools, AwaitUser) \<Rightarrow> Some RsAwaitingUser
      | (RsAwaitingUser, UserResumed) \<Rightarrow> Some RsDrainingInput
      | (RsExecutingTools, ToolsCompleted) \<Rightarrow> Some RsDrainingInput
      | (RsFinalizingStep, StepCancelled) \<Rightarrow> Some RsDrainingInput
      | (RsTerminating, TerminationFinished) \<Rightarrow> Some RsTerminated
      | _ \<Rightarrow> None)"

definition transition_reason :: "run_status \<Rightarrow> run_transition \<Rightarrow> run_transition_reason" where
  "transition_reason next transition =
     (case (next, transition) of
        (RsDrainingInput, CompactionCompleted) \<Rightarrow> WhyManualCompactionSettled
      | (RsDrainingInput, ReflectionCompleted) \<Rightarrow> WhyManualReflectionSettled
      | _ \<Rightarrow> reason_from transition)"

definition reflection_allowed :: "run_status \<Rightarrow> run_intent \<Rightarrow> bool" where
  "reflection_allowed status intent =
     (case status of
        RsDrainingInput \<Rightarrow> intent = ManualReflection
      | RsApplyingResponse \<Rightarrow> allows_auto_reflection intent
      | RsCompacting \<Rightarrow> allows_auto_reflection intent
      | _ \<Rightarrow> False)"

definition settle_transition ::
  "instant \<Rightarrow> run_transition \<Rightarrow> run_status \<Rightarrow> 'j run \<Rightarrow> ('j, run_status) run_result" where
  "settle_transition now transition next r =
     (Ok next, apply_state_transition now next (transition_reason next transition) r)"

definition do_transition ::
  "instant \<Rightarrow> run_transition \<Rightarrow> 'j run \<Rightarrow> ('j, run_status) run_result" where
  "do_transition now transition r =
     (if r_status r = RsInvokingModel \<and> transition = ModelInvoked \<and>
         (case find step_is_active (r_steps r) of
            None \<Rightarrow> True | Some step \<Rightarrow> st_invocation step = None)
      then (Err StepIncomplete, r)
      else if transition = BeginCompaction \<and> r_status r = RsDrainingInput \<and>
              r_intent r \<noteq> ManualCompaction
      then (Err (IllegalTransition (r_status r) transition), r)
      else if transition = ContextPrepared \<and> r_intent r \<in> {ManualCompaction, ManualReflection}
      then (Err (IllegalTransition (r_status r) transition), r)
      else if transition = BeginReflection \<and> \<not> reflection_allowed (r_status r) (r_intent r)
      then (Err (IllegalTransition (r_status r) transition), r)
      else
        let r = (if transition = BeginReflection
                 then r\<lparr>r_reflection_return := Some (r_status r)\<rparr> else r)
        in if r_status r = RsReflecting \<and> transition = ReflectionCompleted then
             (case r_reflection_return r of
                None \<Rightarrow> (Err (IllegalTransition RsReflecting ReflectionCompleted), r)
              | Some return_status \<Rightarrow>
                  settle_transition now transition return_status
                    (r\<lparr>r_reflection_return := None\<rparr>))
           else
             (case next_status (\<exists>s \<in> set (r_steps r). step_is_active s) (r_status r) transition of
                None \<Rightarrow> (Err (IllegalTransition (r_status r) transition), r)
              | Some next \<Rightarrow> settle_transition now transition next r))"

section \<open>Sequencing\<close>

text \<open>\<open>self.op()?; rest\<close>: the state threads through, the first error returns.\<close>

definition run_then ::
  "('j, 'a) run_result \<Rightarrow> ('a \<Rightarrow> 'j run \<Rightarrow> ('j, 'b) run_result) \<Rightarrow> ('j, 'b) run_result" where
  "run_then m k =
     (case m of (Ok x, r) \<Rightarrow> k x r | (Err e, r) \<Rightarrow> (Err e, r) | (Panic, r) \<Rightarrow> (Panic, r))"

section \<open>Interactions\<close>

definition interaction_allowed :: "interaction_continuation \<Rightarrow> run_status \<Rightarrow> bool" where
  "interaction_allowed continuation status =
     (case (continuation, status) of
        (CompleteToolCall _, RsExecutingTools) \<Rightarrow> True
      | (ContinueToolApproval _, RsExecutingTools) \<Rightarrow> True
      | (ContinueToolApproval _, RsAwaitingToolApproval) \<Rightarrow> True
      | _ \<Rightarrow> False)"

definition begin_interaction ::
  "instant \<Rightarrow> interaction_request_id \<Rightarrow> interaction_continuation \<Rightarrow> 'j run
     \<Rightarrow> ('j, unit) run_result" where
  "begin_interaction now request_id continuation r =
     (if rejects_controlled_work r then (Err (RunNotActive (r_status r)), r)
      else case r_pending_interaction r of
        Some pending \<Rightarrow> (Err (InteractionAlreadyPending (pi_request_id pending)), r)
      | None \<Rightarrow>
          if \<not> interaction_allowed continuation (r_status r)
          then (Err (RunNotActive (r_status r)), r)
          else
            run_then
              (set_status_by_command now RsAwaitingUser WhyAwaitUser
                (r\<lparr>r_pending_interaction :=
                     Some \<lparr>pi_request_id = request_id, pi_continuation = continuation\<rparr>\<rparr>))
              (\<lambda>_ r. (Ok (), push_event (\<lambda>i p. EvAwaitingUser i p request_id) r)))"

text \<open>What \<open>complete_interaction\<close> and \<open>cancel_interaction\<close> share; the first one adds an event.\<close>

definition take_interaction ::
  "instant \<Rightarrow> interaction_request_id \<Rightarrow> 'j run \<Rightarrow> ('j, interaction_continuation) run_result" where
  "take_interaction now request_id r =
     (case r_pending_interaction r of
        None \<Rightarrow> (Err NoPendingInteraction, r)
      | Some pending \<Rightarrow>
          if pi_request_id pending \<noteq> request_id
          then (Err (InteractionRequestMismatch (pi_request_id pending) request_id), r)
          else
            run_then
              (set_status_by_command now (resume_status (pi_continuation pending)) WhyUserResumed
                (r\<lparr>r_pending_interaction := None\<rparr>))
              (\<lambda>_ r. (Ok (pi_continuation pending), r)))"

definition complete_interaction ::
  "instant \<Rightarrow> interaction_request_id \<Rightarrow> 'j run \<Rightarrow> ('j, interaction_continuation) run_result" where
  "complete_interaction now request_id r =
     run_then (take_interaction now request_id r)
       (\<lambda>c r. (Ok c, push_event (\<lambda>i p. EvResumed i p request_id) r))"

definition cancel_interaction ::
  "instant \<Rightarrow> interaction_request_id \<Rightarrow> 'j run \<Rightarrow> ('j, interaction_continuation) run_result" where
  "cancel_interaction now request_id r = take_interaction now request_id r"

section \<open>Events and time\<close>

definition drain_events :: "'j run \<Rightarrow> runtime_lifecycle_event list \<times> 'j run" where
  "drain_events r = (r_events r, r\<lparr>r_events := []\<rparr>)"

definition restore_events :: "runtime_lifecycle_event list \<Rightarrow> 'j run \<Rightarrow> 'j run" where
  "restore_events evs r = r\<lparr>r_events := evs @ r_events r\<rparr>"

definition remaining_time :: "'j run \<Rightarrow> instant \<Rightarrow> duration option" where
  "remaining_time r now =
     (if sp_timeout (r_spec r) = 0 then None
      else map_option (\<lambda>t. sp_timeout (r_spec r) - (now - t)) (r_started_at r))"

definition has_timed_out :: "'j run \<Rightarrow> instant \<Rightarrow> bool" where
  "has_timed_out r now \<longleftrightarrow>
     sp_timeout (r_spec r) \<noteq> 0 \<and>
     (case r_started_at r of None \<Rightarrow> False | Some t \<Rightarrow> now - t \<ge> sp_timeout (r_spec r))"

section \<open>Steps\<close>

definition begin_step_with_id :: "run_step_id \<Rightarrow> 'j run \<Rightarrow> ('j, run_step_id) run_result" where
  "begin_step_with_id sid r =
     (if r_status r \<noteq> RsPreparingContext \<and> r_status r \<noteq> RsInvokingModel
      then (Err (RunNotActive (r_status r)), r)
      else if \<exists>s \<in> set (r_steps r). step_is_active s then (Err ActiveStepAlreadyExists, r)
      else
        (Ok sid,
         push_event (\<lambda>i p. EvStepStarted i p sid)
           (r\<lparr>r_steps := r_steps r @ [\<lparr>st_id = sid, st_status = SsInvoking, st_invocation = None,
              st_tool_calls = []\<rparr>]\<rparr>)))"

text \<open>\<open>ensure_accepts_step_work()?\<close> followed by \<open>active_step_mut(step_id)?\<close>.\<close>

definition on_working_step ::
  "run_step_id \<Rightarrow> ('j run_step \<Rightarrow> ('j, 'a) run_result) \<Rightarrow> 'j run \<Rightarrow> ('j, 'a) run_result" where
  "on_working_step sid k r =
     (if rejects_controlled_work r then (Err (RunNotActive (r_status r)), r)
      else case active_step_mut sid r of
        Ok s \<Rightarrow> k s | Err e \<Rightarrow> (Err e, r) | Panic \<Rightarrow> (Panic, r))"

definition record_model_invocation ::
  "run_step_id \<Rightarrow> model_invocation \<Rightarrow> 'j run \<Rightarrow> ('j, unit) run_result" where
  "record_model_invocation sid invoc r =
     on_working_step sid
       (\<lambda>s. if st_invocation s \<noteq> None then (Err InvocationAlreadyRecorded, r)
            else (Ok (), update_step sid
              (\<lambda>s. s\<lparr>st_invocation := Some invoc, st_status := SsApplying\<rparr>) r)) r"

definition add_tool_call :: "run_step_id \<Rightarrow> 'j tool_call \<Rightarrow> 'j run \<Rightarrow> ('j, unit) run_result" where
  "add_tool_call sid call r =
     on_working_step sid
       (\<lambda>s. (Ok (), update_step sid
          (\<lambda>s. s\<lparr>st_tool_calls := st_tool_calls s @ [run_tool_call_new call],
                 st_status := SsToolPhase\<rparr>) r)) r"

definition advance_tool_call ::
  "run_step_id \<Rightarrow> tool_call_id \<Rightarrow> tool_call_status \<Rightarrow> 'j run \<Rightarrow> ('j, unit) run_result" where
  "advance_tool_call sid cid status r =
     on_working_step sid
       (\<lambda>s. case find (\<lambda>c. rtc_id c = cid) (st_tool_calls s) of
          None \<Rightarrow> (Err ToolCallNotFound, r)
        | Some call \<Rightarrow>
            if \<not> fst (rtc_advance status call)
            then (Err (IllegalToolCallTransition (rtc_status call) status), r)
            else (Ok (), update_step sid
              (\<lambda>s. s\<lparr>st_tool_calls :=
                 update_first (\<lambda>c. rtc_id c = cid) (\<lambda>c. snd (rtc_advance status c))
                   (st_tool_calls s)\<rparr>) r)) r"

definition complete_step :: "run_step_id \<Rightarrow> 'j run \<Rightarrow> ('j, unit) run_result" where
  "complete_step sid r =
     (if rejects_controlled_work r then (Err (RunNotActive (r_status r)), r)
      else case find_step sid r of
        None \<Rightarrow> (Err StepNotFound, r)
      | Some s \<Rightarrow>
          if \<not> step_is_active s then (Err StepNotActive, r)
          else if \<not> step_is_complete s then (Err StepIncomplete, r)
          else (Ok (), push_event (\<lambda>i p. EvStepCompleted i p sid) (set_step_status sid SsDone r)))"

definition mark_stuck :: "ustr \<Rightarrow> 'j run \<Rightarrow> ('j, unit) run_result" where
  "mark_stuck reason r =
     (if rejects_controlled_work r then (Err (RunNotActive (r_status r)), r)
      else (Ok (), push_event (\<lambda>i p. EvStuckDetected i p reason) r))"

section \<open>Phases\<close>

text \<open>\<open>started\<close> is the \<open>Instant::now()\<close> of \<open>start_draining\<close>, \<open>now\<close> the one its transition reads.\<close>

definition start_draining :: "instant \<Rightarrow> instant \<Rightarrow> 'j run \<Rightarrow> ('j, unit) run_result" where
  "start_draining started now r =
     run_then
       (do_transition now StartDraining
         (r\<lparr>r_started_at := Some started, r_phase_started_at := Some started\<rparr>))
       (\<lambda>_ r. (Ok (), push_event EvDrainingInput (push_event EvStarted r)))"

definition begin_manual_compaction :: "instant \<Rightarrow> 'j run \<Rightarrow> ('j, unit) run_result" where
  "begin_manual_compaction now r =
     (if r_intent r \<noteq> ManualCompaction \<or> r_status r \<noteq> RsDrainingInput
      then (Err (IllegalTransition (r_status r) BeginCompaction), r)
      else run_then (do_transition now BeginCompaction r) (\<lambda>_ r. (Ok (), r)))"

definition begin_manual_reflection :: "instant \<Rightarrow> 'j run \<Rightarrow> ('j, unit) run_result" where
  "begin_manual_reflection now r =
     (if r_intent r \<noteq> ManualReflection \<or> r_status r \<noteq> RsDrainingInput
      then (Err (IllegalTransition (r_status r) BeginReflection), r)
      else run_then (do_transition now BeginReflection r) (\<lambda>_ r. (Ok (), r)))"

definition advance_drain_epoch :: "'j run \<Rightarrow> 'j run" where
  "advance_drain_epoch r = r\<lparr>r_next_drain_epoch := r_next_drain_epoch r + 1\<rparr>"

definition saturating_succ :: "u64 \<Rightarrow> u64" where
  "saturating_succ n = (if n = - 1 then n else n + 1)"

definition record_stop_hook_block :: "'j run \<Rightarrow> stop_hook_block_result \<times> 'j run" where
  "record_stop_hook_block r =
     (let count = saturating_succ (r_stop_hook_block_count r)
      in (if count > shp_max_blocks (r_stop_hook_policy r) then RetryExhausted count
          else Blocked count,
          r\<lparr>r_stop_hook_block_count := count\<rparr>))"

fun drain_transition :: "drain_decision \<Rightarrow> run_transition" where
  "drain_transition DdInputs = DrainInputs"
| "drain_transition DdInternalContinuation = DrainInternalContinuation"
| "drain_transition DdEmptyAndSealed = DrainEmptyAndSealed"

definition apply_drain_decision ::
  "instant \<Rightarrow> drain_decision \<Rightarrow> ustr option \<Rightarrow> 'j run \<Rightarrow> ('j, unit) run_result" where
  "apply_drain_decision now decision terminal_text r =
     (let (result, r) =
        (if decision = DdEmptyAndSealed then
           (case terminal_text of
              Some t \<Rightarrow> (Some t, r)
            | None \<Rightarrow>
                (case r_pending_completion_result r of
                   Some t \<Rightarrow> (Some t, r\<lparr>r_pending_completion_result := None\<rparr>)
                 | None \<Rightarrow> (Some [], r\<lparr>r_pending_completion_result := None\<rparr>)))
         else (None, r))
      in run_then (do_transition now (drain_transition decision) r)
           (\<lambda>_ r. (Ok (),
              case result of
                None \<Rightarrow> r
              | Some text \<Rightarrow>
                  push_event (\<lambda>i p. EvCompleted i p text (r_user_cancelled_step r)) r)))"

section \<open>Cancelling a step\<close>

definition request_step_cancellation ::
  "instant \<Rightarrow> run_step_id \<Rightarrow> 'j run \<Rightarrow> step_cancellation_request \<times> 'j run" where
  "request_step_cancellation now sid r =
     (if rs_is_terminal (r_status r) then (RunTerminal, r)
      else if r_status r = RsTerminating then (RunTerminating, r)
      else case find_step sid r of
        None \<Rightarrow> (NoActiveStep, r)
      | Some s \<Rightarrow>
          if st_status s \<in> {SsCancelling, SsFinalizing} then (AlreadyCancelling, r)
          else if \<not> step_is_active s then (NoActiveStep, r)
          else
            (case set_status_by_command now RsCancellingStep WhyStepCancellationRequested
                    (set_step_status sid SsCancelling (r\<lparr>r_pending_interaction := None\<rparr>)) of
               (Ok _, r) \<Rightarrow>
                 (CancelAccepted, push_event (\<lambda>i p. EvStepCancellationRequested i p sid) r)
             | (_, r) \<Rightarrow> (RunTerminal, r)))"

definition begin_step_finalization ::
  "instant \<Rightarrow> run_step_id \<Rightarrow> 'j run \<Rightarrow> ('j, unit) run_result" where
  "begin_step_finalization now sid r =
     (case active_step_mut sid r of
        Err e \<Rightarrow> (Err e, r)
      | Panic \<Rightarrow> (Panic, r)
      | Ok s \<Rightarrow>
          if st_status s \<noteq> SsCancelling then (Err StepNotActive, r)
          else
            run_then
              (set_status_by_command now RsFinalizingStep WhyStepFinalizationStarted
                (set_step_status sid SsFinalizing r))
              (\<lambda>_ r. (Ok (), push_event (\<lambda>i p. EvStepFinalizationStarted i p sid) r)))"

definition finish_controlled_step ::
  "instant \<Rightarrow> run_step_id \<Rightarrow> run_step_status \<Rightarrow> 'j run \<Rightarrow> ('j, unit) run_result" where
  "finish_controlled_step now sid terminal r =
     (case active_step_mut sid r of
        Err e \<Rightarrow> (Err e, r)
      | Panic \<Rightarrow> (Panic, r)
      | Ok s \<Rightarrow>
          if st_status s \<noteq> SsFinalizing then (Err StepNotActive, r)
          else
            let confirmed = (terminal = SsCancelled);
                r = set_step_status sid terminal r;
                r = (if confirmed then r\<lparr>r_user_cancelled_step := True\<rparr> else r)
            in run_then (do_transition now StepCancelled r)
                 (\<lambda>_ r. (Ok (),
                    push_event EvDrainingInput
                      (push_event (\<lambda>i p. EvStepCancelled i p sid
                         (if confirmed then CtCancelled else CtCancellationUnconfirmed)) r))))"

definition finish_step_cancellation ::
  "instant \<Rightarrow> run_step_id \<Rightarrow> run_step_status \<Rightarrow> 'j run \<Rightarrow> ('j, unit) run_result" where
  "finish_step_cancellation now sid status r =
     (if status \<notin> {SsCancelled, SsCancellationUnconfirmed} then (Err StepNotActive, r)
      else finish_controlled_step now sid status r)"

section \<open>Termination and failure\<close>

definition request_termination ::
  "instant \<Rightarrow> run_termination_reason \<Rightarrow> control_deadline \<Rightarrow> 'j run
     \<Rightarrow> run_termination_request \<times> 'j run" where
  "request_termination now reason deadline r =
     (if rs_is_terminal (r_status r) then (AlreadyTerminal, r)
      else if r_status r = RsTerminating then (AlreadyTerminating, r)
      else
        (case set_status_by_command now RsTerminating WhyTerminationRequested
                (r\<lparr>r_termination := Some (reason, deadline), r_pending_interaction := None\<rparr>) of
           (Ok _, r) \<Rightarrow>
             (TerminationAccepted,
              push_event (\<lambda>i p. EvTerminationRequested i p reason deadline) r)
         | (_, r) \<Rightarrow> (AlreadyTerminal, r)))"

definition close_active_steps :: "run_step_status \<Rightarrow> 'j run \<Rightarrow> 'j run" where
  "close_active_steps status r =
     r\<lparr>r_steps := map (\<lambda>s. if ss_closed (st_status s) then s else s\<lparr>st_status := status\<rparr>)
         (r_steps r)\<rparr>"

definition finish_termination :: "instant \<Rightarrow> 'j run \<Rightarrow> ('j, unit) run_result" where
  "finish_termination now r =
     (case r_termination r of
        None \<Rightarrow> (Err (RunNotActive (r_status r)), r)
      | Some (reason, _) \<Rightarrow>
          run_then (do_transition now TerminationFinished r)
            (\<lambda>_ r. (Ok (),
               push_event (\<lambda>i p. EvTerminated i p reason)
                 (close_active_steps SsCancellationUnconfirmed r))))"

definition run_fail :: "instant \<Rightarrow> ustr \<Rightarrow> 'j run \<Rightarrow> ('j, unit) run_result" where
  "run_fail now error r =
     (if rs_is_terminal (r_status r) then (Err (RunNotActive (r_status r)), r)
      else
        run_then (set_status_by_command now RsFailed WhyFailed r)
          (\<lambda>_ r. (Ok (),
             push_event (\<lambda>i p. EvFailed i p error) (close_active_steps SsFailed r))))"

section \<open>One operation at a time\<close>

text \<open>
  The public methods with a \<open>&mut self\<close> receiver outside the tests, and the moment each one reads. The
  replies that are no \<open>Result\<close> are wrapped.
\<close>

datatype 'j run_op =
    OpBeginInteraction interaction_request_id interaction_continuation
  | OpCompleteInteraction interaction_request_id
  | OpCancelInteraction interaction_request_id
  | OpTransition run_transition
  | OpBeginStep run_step_id
  | OpRecordInvocation run_step_id model_invocation
  | OpAddToolCall run_step_id "'j tool_call"
  | OpAdvanceToolCall run_step_id tool_call_id tool_call_status
  | OpCompleteStep run_step_id
  | OpMarkStuck ustr
  | OpStartDraining instant
  | OpBeginManualCompaction
  | OpBeginManualReflection
  | OpAdvanceDrainEpoch
  | OpRecordStopHookBlock
  | OpApplyDrainDecision drain_decision "ustr option"
  | OpRequestStepCancellation run_step_id
  | OpBeginStepFinalization run_step_id
  | OpFinishStepCancellation run_step_id run_step_status
  | OpRequestTermination run_termination_reason control_deadline
  | OpFinishTermination
  | OpFail ustr

datatype run_reply =
    ReUnit | ReContinuation interaction_continuation | ReStatus run_status | ReStep run_step_id
  | ReStopHook stop_hook_block_result | ReCancellation step_cancellation_request
  | ReTermination run_termination_request

fun run_exec :: "instant \<Rightarrow> 'j run_op \<Rightarrow> 'j run \<Rightarrow> ('j, run_reply) run_result" where
  "run_exec now (OpBeginInteraction i c) r = apfst (map_ok (\<lambda>_. ReUnit)) (begin_interaction now i c r)"
| "run_exec now (OpCompleteInteraction i) r = apfst (map_ok ReContinuation) (complete_interaction now i r)"
| "run_exec now (OpCancelInteraction i) r = apfst (map_ok ReContinuation) (cancel_interaction now i r)"
| "run_exec now (OpTransition t) r = apfst (map_ok ReStatus) (do_transition now t r)"
| "run_exec now (OpBeginStep s) r = apfst (map_ok ReStep) (begin_step_with_id s r)"
| "run_exec now (OpRecordInvocation s i) r = apfst (map_ok (\<lambda>_. ReUnit)) (record_model_invocation s i r)"
| "run_exec now (OpAddToolCall s c) r = apfst (map_ok (\<lambda>_. ReUnit)) (add_tool_call s c r)"
| "run_exec now (OpAdvanceToolCall s c t) r = apfst (map_ok (\<lambda>_. ReUnit)) (advance_tool_call s c t r)"
| "run_exec now (OpCompleteStep s) r = apfst (map_ok (\<lambda>_. ReUnit)) (complete_step s r)"
| "run_exec now (OpMarkStuck m) r = apfst (map_ok (\<lambda>_. ReUnit)) (mark_stuck m r)"
| "run_exec now (OpStartDraining t) r = apfst (map_ok (\<lambda>_. ReUnit)) (start_draining t now r)"
| "run_exec now OpBeginManualCompaction r = apfst (map_ok (\<lambda>_. ReUnit)) (begin_manual_compaction now r)"
| "run_exec now OpBeginManualReflection r = apfst (map_ok (\<lambda>_. ReUnit)) (begin_manual_reflection now r)"
| "run_exec now OpAdvanceDrainEpoch r = (Ok ReUnit, advance_drain_epoch r)"
| "run_exec now OpRecordStopHookBlock r = apfst (\<lambda>x. Ok (ReStopHook x)) (record_stop_hook_block r)"
| "run_exec now (OpApplyDrainDecision d t) r = apfst (map_ok (\<lambda>_. ReUnit)) (apply_drain_decision now d t r)"
| "run_exec now (OpRequestStepCancellation s) r =
     apfst (\<lambda>x. Ok (ReCancellation x)) (request_step_cancellation now s r)"
| "run_exec now (OpBeginStepFinalization s) r = apfst (map_ok (\<lambda>_. ReUnit)) (begin_step_finalization now s r)"
| "run_exec now (OpFinishStepCancellation s t) r =
     apfst (map_ok (\<lambda>_. ReUnit)) (finish_step_cancellation now s t r)"
| "run_exec now (OpRequestTermination x d) r =
     apfst (\<lambda>x. Ok (ReTermination x)) (request_termination now x d r)"
| "run_exec now OpFinishTermination r = apfst (map_ok (\<lambda>_. ReUnit)) (finish_termination now r)"
| "run_exec now (OpFail m) r = apfst (map_ok (\<lambda>_. ReUnit)) (run_fail now m r)"

end
