(* ===== verification/Histories.thy ===== *)
theory Histories
  imports Prelude
begin

text \<open>
  The interface of an aggregate that records what happens to it: every operation appends events to a
  journal, some events state a move from one status to the next, and no move leaves a final status.
  The lemmas of the locale are what a consumer of the events may rely on.
\<close>

section \<open>Chained journals\<close>

fun chained ::
  "('ev \<Rightarrow> ('st \<times> 'st) option) \<Rightarrow> ('st \<Rightarrow> bool) \<Rightarrow> 'st \<Rightarrow> 'ev list \<Rightarrow> 'st \<Rightarrow> bool" where
  "chained move final a [] b \<longleftrightarrow> a = b"
| "chained move final a (e # es) b \<longleftrightarrow>
     (case move e of
        None \<Rightarrow> chained move final a es b
      | Some (x, y) \<Rightarrow> x = a \<and> \<not> final a \<and> chained move final y es b)"

lemma chained_append:
  "chained move final a (es @ fs) c \<longleftrightarrow>
     (\<exists>b. chained move final a es b \<and> chained move final b fs c)"
  by (induction es arbitrary: a) (auto split: option.split)

lemma chained_final:
  "chained move final a es b \<Longrightarrow> final a \<Longrightarrow> b = a \<and> list_all (\<lambda>e. move e = None) es"
  by (induction es arbitrary: a) (auto split: option.splits)

text \<open>The status the journal ends in, read off the journal alone.\<close>

definition replay :: "('ev \<Rightarrow> ('st \<times> 'st) option) \<Rightarrow> 'st \<Rightarrow> 'ev list \<Rightarrow> 'st" where
  "replay move a es = fold (\<lambda>e s. case move e of None \<Rightarrow> s | Some (_, y) \<Rightarrow> y) es a"

lemma chained_replay: "chained move final a es b \<Longrightarrow> replay move a es = b"
  by (induction es arbitrary: a) (auto simp: replay_def split: option.splits)

section \<open>The interface\<close>

locale journalled =
  fixes step :: "'op \<Rightarrow> 's \<Rightarrow> 's"
    and journal :: "'s \<Rightarrow> 'ev list"
    and status :: "'s \<Rightarrow> 'st"
    and owner :: "'s \<Rightarrow> 'i"
    and move :: "'ev \<Rightarrow> ('st \<times> 'st) option"
    and stamp :: "'ev \<Rightarrow> 'i"
    and final :: "'st \<Rightarrow> bool"
  assumes step_appends:
    "\<exists>new. journal (step op s) = journal s @ new \<and> chained move final (status s) new (status (step op s))
       \<and> list_all (\<lambda>e. stamp e = owner s) new"
    and step_owner: "owner (step op s) = owner s"
begin

lemma runs_append:
  "\<exists>new. journal (fold step ops s) = journal s @ new \<and>
     chained move final (status s) new (status (fold step ops s)) \<and>
     list_all (\<lambda>e. stamp e = owner s) new"
proof (induction ops arbitrary: s)
  case (Cons op ops)
  obtain new1 where 1: "journal (step op s) = journal s @ new1"
    "chained move final (status s) new1 (status (step op s))" "list_all (\<lambda>e. stamp e = owner s) new1"
    using step_appends by blast
  obtain new2 where 2: "journal (fold step ops (step op s)) = journal (step op s) @ new2"
    "chained move final (status (step op s)) new2 (status (fold step ops (step op s)))"
    "list_all (\<lambda>e. stamp e = owner (step op s)) new2"
    using Cons.IH by blast
  then show ?case
    using 1 step_owner by (intro exI [of _ "new1 @ new2"]) (auto simp: chained_append)
qed simp

lemma runs_replay:
  assumes "journal s = []"
  shows "replay move (status s) (journal (fold step ops s)) = status (fold step ops s)"
  using runs_append [of ops s] assms by (auto intro: chained_replay)

lemma final_absorbing:
  assumes "final (status s)"
  shows "status (fold step ops s) = status s"
  using runs_append [of ops s] assms by (auto dest: chained_final)

end

text \<open>
  The interface of a state with cells that are written once: an operation may fill or change a cell, but
  a cell that holds a final value keeps it. A client learns that what was final at some point of a history
  is what it reads at every later point.
\<close>

text \<open>Every operation of the list is allowed in the state it meets.\<close>

fun all_allowed :: "('op \<Rightarrow> 's \<Rightarrow> 's) \<Rightarrow> ('op \<Rightarrow> 's \<Rightarrow> bool) \<Rightarrow> 'op list \<Rightarrow> 's \<Rightarrow> bool" where
  "all_allowed step allowed [] s \<longleftrightarrow> True"
| "all_allowed step allowed (op # ops) s \<longleftrightarrow> allowed op s \<and> all_allowed step allowed ops (step op s)"

lemma all_allowed_append:
  "all_allowed step allowed (ops @ ops') s \<longleftrightarrow>
     all_allowed step allowed ops s \<and> all_allowed step allowed ops' (fold step ops s)"
  by (induction ops arbitrary: s) auto

lemma all_allowed_True: "(\<And>op s. allowed op s) \<Longrightarrow> all_allowed step allowed ops s"
  by (induction ops arbitrary: s) auto

locale write_once =
  fixes step :: "'op \<Rightarrow> 's \<Rightarrow> 's"
    and allowed :: "'op \<Rightarrow> 's \<Rightarrow> bool"
    and good :: "'s \<Rightarrow> bool"
    and cell :: "'s \<Rightarrow> 'k \<Rightarrow> 'v option"
    and final :: "'v \<Rightarrow> bool"
  assumes step_good: "good s \<Longrightarrow> allowed op s \<Longrightarrow> good (step op s)"
    and step_final:
      "good s \<Longrightarrow> allowed op s \<Longrightarrow> cell s k = Some v \<Longrightarrow> final v \<Longrightarrow> cell (step op s) k = Some v"
begin

lemma run_good: "good s \<Longrightarrow> all_allowed step allowed ops s \<Longrightarrow> good (fold step ops s)"
  by (induction ops arbitrary: s) (auto intro: step_good)

lemma run_final:
  "good s \<Longrightarrow> all_allowed step allowed ops s \<Longrightarrow> cell s k = Some v \<Longrightarrow> final v \<Longrightarrow>
     cell (fold step ops s) k = Some v"
  by (induction ops arbitrary: s) (auto intro: step_good step_final)

lemma later_final:
  assumes "good s" "all_allowed step allowed (ops @ ops') s"
    and "cell (fold step ops s) k = Some v" "final v"
  shows "cell (fold step (ops @ ops') s) k = Some v"
  using assms run_good [of s ops] run_final [of "fold step ops s" ops' k v]
  by (simp add: all_allowed_append)

end

end
