(* ===== verification/Run_Facts.thy ===== *)
theory Run_Facts
  imports Run_Machine Histories
begin

text \<open>
  Facts about the operations of a run that the invariants share: what the helpers leave alone, the ways
  a transition can go, and the segment of the journal one operation writes. The journal of a run
  interprets the locale \<open>journalled\<close>; a move is a status together with the observation revision.
\<close>

section \<open>What the helpers change\<close>

lemma push_event_sel [simp]:
  "r_id (push_event ev r) = r_id r" "r_spec (push_event ev r) = r_spec r"
  "r_parent_id (push_event ev r) = r_parent_id r" "r_status (push_event ev r) = r_status r"
  "r_reflection_return (push_event ev r) = r_reflection_return r"
  "r_termination (push_event ev r) = r_termination r"
  "r_pending_interaction (push_event ev r) = r_pending_interaction r"
  "r_pending_completion_result (push_event ev r) = r_pending_completion_result r"
  "r_next_drain_epoch (push_event ev r) = r_next_drain_epoch r"
  "r_stop_hook_block_count (push_event ev r) = r_stop_hook_block_count r"
  "r_stop_hook_policy (push_event ev r) = r_stop_hook_policy r"
  "r_user_cancelled_step (push_event ev r) = r_user_cancelled_step r"
  "r_steps (push_event ev r) = r_steps r" "r_started_at (push_event ev r) = r_started_at r"
  "r_phase_started_at (push_event ev r) = r_phase_started_at r"
  "r_timing_revision (push_event ev r) = r_timing_revision r"
  "r_events (push_event ev r) = r_events r @ [ev (r_id r) (r_parent_id r)]"
  by (simp_all add: push_event_def)

lemma apply_state_transition_sel [simp]:
  "r_id (apply_state_transition now s w r) = r_id r"
  "r_spec (apply_state_transition now s w r) = r_spec r"
  "r_parent_id (apply_state_transition now s w r) = r_parent_id r"
  "r_status (apply_state_transition now s w r) = s"
  "r_reflection_return (apply_state_transition now s w r) = r_reflection_return r"
  "r_termination (apply_state_transition now s w r) = r_termination r"
  "r_pending_interaction (apply_state_transition now s w r) = r_pending_interaction r"
  "r_pending_completion_result (apply_state_transition now s w r) = r_pending_completion_result r"
  "r_next_drain_epoch (apply_state_transition now s w r) = r_next_drain_epoch r"
  "r_stop_hook_block_count (apply_state_transition now s w r) = r_stop_hook_block_count r"
  "r_stop_hook_policy (apply_state_transition now s w r) = r_stop_hook_policy r"
  "r_user_cancelled_step (apply_state_transition now s w r) = r_user_cancelled_step r"
  "r_steps (apply_state_transition now s w r) = r_steps r"
  "r_started_at (apply_state_transition now s w r) = r_started_at r"
  "r_phase_started_at (apply_state_transition now s w r) = Some now"
  "r_timing_revision (apply_state_transition now s w r) = r_timing_revision r + 1"
  by (simp_all add: apply_state_transition_def Let_def)

lemma update_step_sel [simp]:
  "r_id (update_step i f r) = r_id r" "r_spec (update_step i f r) = r_spec r"
  "r_parent_id (update_step i f r) = r_parent_id r" "r_status (update_step i f r) = r_status r"
  "r_reflection_return (update_step i f r) = r_reflection_return r"
  "r_termination (update_step i f r) = r_termination r"
  "r_pending_interaction (update_step i f r) = r_pending_interaction r"
  "r_timing_revision (update_step i f r) = r_timing_revision r"
  "r_events (update_step i f r) = r_events r"
  "r_steps (update_step i f r) = update_first (\<lambda>s. st_id s = i) f (r_steps r)"
  by (simp_all add: update_step_def)

lemma close_active_steps_sel [simp]:
  "r_id (close_active_steps c r) = r_id r" "r_spec (close_active_steps c r) = r_spec r"
  "r_parent_id (close_active_steps c r) = r_parent_id r"
  "r_status (close_active_steps c r) = r_status r"
  "r_reflection_return (close_active_steps c r) = r_reflection_return r"
  "r_termination (close_active_steps c r) = r_termination r"
  "r_pending_interaction (close_active_steps c r) = r_pending_interaction r"
  "r_timing_revision (close_active_steps c r) = r_timing_revision r"
  "r_events (close_active_steps c r) = r_events r"
  by (simp_all add: close_active_steps_def)

lemma set_step_status_sel [simp]:
  "r_id (set_step_status i t r) = r_id r" "r_spec (set_step_status i t r) = r_spec r"
  "r_parent_id (set_step_status i t r) = r_parent_id r"
  "r_status (set_step_status i t r) = r_status r"
  "r_reflection_return (set_step_status i t r) = r_reflection_return r"
  "r_termination (set_step_status i t r) = r_termination r"
  "r_pending_interaction (set_step_status i t r) = r_pending_interaction r"
  "r_timing_revision (set_step_status i t r) = r_timing_revision r"
  "r_events (set_step_status i t r) = r_events r"
  "r_steps (set_step_status i t r) =
     update_first (\<lambda>s. st_id s = i) (\<lambda>s. s\<lparr>st_status := t\<rparr>) (r_steps r)"
  by (simp_all add: set_step_status_def)

section \<open>Transitions\<close>

lemma next_status_reflecting:
  "next_status b s BeginReflection = Some n \<Longrightarrow> n = RsReflecting"
  "next_status b s ReflectionCompleted = None"
  "reflection_allowed s i \<Longrightarrow> next_status b s BeginReflection = Some RsReflecting"
  by (cases s; simp add: next_status_def reflection_allowed_def)+

lemma do_transition_cases:
  obtains (rejected) e where "do_transition now t r = (Err e, r)"
  | (plain) n where "do_transition now t r =
        (Ok n, apply_state_transition now n (transition_reason n t) r)"
      "next_status (\<exists>s \<in> set (r_steps r). step_is_active s) (r_status r) t = Some n"
      "t \<noteq> BeginReflection" "t \<noteq> ReflectionCompleted"
      "t = ContextPrepared \<Longrightarrow> r_intent r \<notin> {ManualCompaction, ManualReflection}"
      "t = ModelInvoked \<Longrightarrow> r_status r = RsInvokingModel \<Longrightarrow>
         \<exists>s. find step_is_active (r_steps r) = Some s \<and> st_invocation s \<noteq> None"
      "t = BeginCompaction \<Longrightarrow> r_status r = RsDrainingInput \<Longrightarrow> r_intent r = ManualCompaction"
  | (enter) "do_transition now t r =
        (Ok RsReflecting, apply_state_transition now RsReflecting WhyBeginReflection
           (r\<lparr>r_reflection_return := Some (r_status r)\<rparr>))"
      "t = BeginReflection" "reflection_allowed (r_status r) (r_intent r)"
  | (leave) n where "do_transition now t r =
        (Ok n, apply_state_transition now n (transition_reason n t)
           (r\<lparr>r_reflection_return := None\<rparr>))"
      "t = ReflectionCompleted" "r_status r = RsReflecting" "r_reflection_return r = Some n"
proof (cases "t = BeginReflection")
  case begins: True
  show ?thesis
  proof (cases "reflection_allowed (r_status r) (r_intent r)")
    case True
    have "do_transition now t r =
        (Ok RsReflecting, apply_state_transition now RsReflecting WhyBeginReflection
           (r\<lparr>r_reflection_return := Some (r_status r)\<rparr>))"
      by (simp add: begins True do_transition_def Let_def next_status_reflecting(3) [OF True]
          settle_transition_def transition_reason_def)
    then show ?thesis using begins True by (rule enter)
  next
    case False
    have "do_transition now t r = (Err (IllegalTransition (r_status r) t), r)"
      by (simp add: begins False do_transition_def)
    then show ?thesis by (rule rejected)
  qed
next
  case not_begin: False
  show ?thesis
  proof (cases "t = ReflectionCompleted")
    case leaves: True
    show ?thesis
    proof (cases "r_status r = RsReflecting")
      case reflecting: True
      show ?thesis
      proof (cases "r_reflection_return r")
        case None
        then show ?thesis
          by (intro rejected) (simp add: leaves reflecting do_transition_def)
      next
        case (Some n)
        have "do_transition now t r = (Ok n, apply_state_transition now n (transition_reason n t)
            (r\<lparr>r_reflection_return := None\<rparr>))"
          by (simp add: leaves reflecting Some do_transition_def settle_transition_def)
        then show ?thesis using leaves reflecting Some by (rule leave)
      qed
    next
      case False
      then show ?thesis
        by (intro rejected) (simp add: leaves do_transition_def next_status_reflecting)
    qed
  next
    case False
    show ?thesis
    proof (cases "\<exists>e. do_transition now t r = (Err e, r)")
      case True
      then show ?thesis using rejected by blast
    next
      case ok: False
      then obtain n where n:
        "next_status (\<exists>s \<in> set (r_steps r). step_is_active s) (r_status r) t = Some n"
        "do_transition now t r = (Ok n, apply_state_transition now n (transition_reason n t) r)"
        using not_begin False
        by (auto simp: do_transition_def Let_def settle_transition_def split: if_splits option.splits)
      show ?thesis
      proof (rule plain [OF n(2,1) not_begin False])
      qed (use ok not_begin False in
        \<open>auto simp: do_transition_def Let_def split: if_splits option.splits\<close>)
    qed
  qed
qed

lemma set_status_cases:
  obtains (rejected) "set_status_by_command now s w r =
      (Err (IllegalCommandTransition (r_status r) s), r)"
    "\<not> command_status_allowed (r_status r) s"
  | (moved) "set_status_by_command now s w r = (Ok (), apply_state_transition now s w r)"
    "command_status_allowed (r_status r) s"
  by (cases "command_status_allowed (r_status r) s") (auto simp: set_status_by_command_def)

lemma command_not_terminal: "command_status_allowed s t \<Longrightarrow> \<not> rs_is_terminal s"
  by (simp add: command_status_allowed_def split: if_splits)

lemma next_not_terminal: "next_status b s t = Some n \<Longrightarrow> \<not> rs_is_terminal s"
  by (cases s) (simp_all add: next_status_def)

section \<open>The journal\<close>

fun run_move :: "runtime_lifecycle_event \<Rightarrow> ((run_status \<times> u64) \<times> (run_status \<times> u64)) option" where
  "run_move (EvTransitioned _ _ f t _ tm) =
     Some ((f, observation_revision tm - 1), (t, observation_revision tm))"
| "run_move _ = None"

definition run_mark :: "'j run \<Rightarrow> run_status \<times> u64" where
  "run_mark r = (r_status r, r_timing_revision r)"

definition run_owner :: "'j run \<Rightarrow> run_id \<times> run_id option" where
  "run_owner r = (r_id r, r_parent_id r)"

definition ev_owner :: "runtime_lifecycle_event \<Rightarrow> run_id \<times> run_id option" where
  "ev_owner e = (ev_run e, ev_parent e)"

definition mark_final :: "run_status \<times> u64 \<Rightarrow> bool" where
  "mark_final m = rs_is_terminal (fst m)"

definition segment :: "'j run \<Rightarrow> 'j run \<Rightarrow> bool" where
  "segment r r' \<longleftrightarrow> run_owner r' = run_owner r \<and>
     (\<exists>new. r_events r' = r_events r @ new \<and>
        chained run_move mark_final (run_mark r) new (run_mark r') \<and>
        list_all (\<lambda>e. ev_owner e = run_owner r) new)"

lemma segment_same:
  "r_id r' = r_id r \<Longrightarrow> r_parent_id r' = r_parent_id r \<Longrightarrow> r_events r' = r_events r \<Longrightarrow>
   r_status r' = r_status r \<Longrightarrow> r_timing_revision r' = r_timing_revision r \<Longrightarrow> segment r r'"
  by (simp add: segment_def run_owner_def run_mark_def)

lemma segment_trans:
  assumes "segment r s" "segment s t"
  shows "segment r t"
proof -
  obtain n1 where 1: "r_events s = r_events r @ n1"
    "chained run_move mark_final (run_mark r) n1 (run_mark s)"
    "list_all (\<lambda>e. ev_owner e = run_owner r) n1" "run_owner s = run_owner r"
    using assms(1) by (auto simp: segment_def)
  obtain n2 where 2: "r_events t = r_events s @ n2"
    "chained run_move mark_final (run_mark s) n2 (run_mark t)"
    "list_all (\<lambda>e. ev_owner e = run_owner s) n2" "run_owner t = run_owner s"
    using assms(2) by (auto simp: segment_def)
  have "chained run_move mark_final (run_mark r) (n1 @ n2) (run_mark t)"
    using 1(2) 2(2) unfolding chained_append by blast
  with 1 2 show ?thesis
    unfolding segment_def by auto
qed

lemma segment_push:
  assumes "segment r s" "run_move (ev (r_id s) (r_parent_id s)) = None"
    "ev_run (ev (r_id s) (r_parent_id s)) = r_id s"
    "ev_parent (ev (r_id s) (r_parent_id s)) = r_parent_id s"
  shows "segment r (push_event ev s)"
proof (rule segment_trans [OF assms(1)])
  show "segment s (push_event ev s)"
    using assms(2-) by (simp add: segment_def run_owner_def run_mark_def ev_owner_def)
qed

lemma segment_move:
  assumes "segment r s" "\<not> rs_is_terminal (r_status s)"
  shows "segment r (apply_state_transition now n w s)"
proof (rule segment_trans [OF assms(1)])
  show "segment s (apply_state_transition now n w s)"
    using assms(2)
    by (simp add: segment_def run_owner_def run_mark_def ev_owner_def mark_final_def
        apply_state_transition_def Let_def)
qed

lemma segment_fields:
  assumes "segment r s" "r_id s' = r_id s" "r_parent_id s' = r_parent_id s"
    "r_events s' = r_events s" "r_status s' = r_status s" "r_timing_revision s' = r_timing_revision s"
  shows "segment r s'"
  using assms segment_same segment_trans by metis

lemma segment_refl [simp, intro]: "segment r r"
  by (rule segment_same) simp_all

lemma segment_transition: "segment r s \<Longrightarrow> segment r (snd (do_transition now t s))"
proof (cases rule: do_transition_cases [of now t s])
  case (plain n)
  then show "segment r s \<Longrightarrow> ?thesis" by (simp add: segment_move next_not_terminal)
next
  case enter
  moreover from enter(3) have "\<not> rs_is_terminal (r_status s)"
    by (cases "r_status s") (auto simp: reflection_allowed_def)
  ultimately show "segment r s \<Longrightarrow> ?thesis"
    by (auto intro!: segment_move elim: segment_fields)
next
  case (leave n)
  then show "segment r s \<Longrightarrow> ?thesis" by (auto intro!: segment_move elim: segment_fields)
qed simp

lemma segment_command: "segment r s \<Longrightarrow> segment r (snd (set_status_by_command now n w s))"
  by (cases rule: set_status_cases [of now n w s])
    (auto intro: segment_move dest: command_not_terminal)

lemma segment_then:
  "segment r (snd m) \<Longrightarrow> (\<And>x s. segment r s \<Longrightarrow> segment r (snd (k x s))) \<Longrightarrow>
   segment r (snd (run_then m k))"
  by (auto simp: run_then_def split: prod.splits outcome.splits)

lemma segment_updates:
  assumes "segment r s"
  shows "segment r (s\<lparr>r_pending_interaction := a\<rparr>)" "segment r (s\<lparr>r_termination := b\<rparr>)"
    "segment r (s\<lparr>r_pending_completion_result := c\<rparr>)" "segment r (s\<lparr>r_next_drain_epoch := d\<rparr>)"
    "segment r (s\<lparr>r_stop_hook_block_count := e\<rparr>)" "segment r (s\<lparr>r_user_cancelled_step := f\<rparr>)"
    "segment r (s\<lparr>r_steps := g\<rparr>)" "segment r (s\<lparr>r_started_at := h\<rparr>)"
    "segment r (s\<lparr>r_phase_started_at := i\<rparr>)" "segment r (update_step j k s)"
    "segment r (set_step_status j l s)" "segment r (close_active_steps l s)"
  using assms by (auto elim!: segment_fields)

lemmas segment_intros = segment_updates segment_transition segment_command segment_then segment_push

lemma segment_interactions:
  "segment r (snd (begin_interaction now i c r))"
  "segment r (snd (take_interaction now i r))"
  by (auto simp: begin_interaction_def take_interaction_def split: option.split
      intro!: segment_intros)

lemma segment_steps:
  "segment r (snd (begin_step_with_id i r))"
  "segment r (snd (record_model_invocation i v r))"
  "segment r (snd (add_tool_call i call r))"
  "segment r (snd (advance_tool_call i cid st r))"
  "segment r (snd (complete_step i r))"
  "segment r (snd (mark_stuck m r))"
  by (auto simp: begin_step_with_id_def record_model_invocation_def add_tool_call_def
      advance_tool_call_def complete_step_def mark_stuck_def on_working_step_def
      split: option.split outcome.split intro!: segment_intros)

lemma segment_phases:
  "segment r (snd (start_draining t now r))"
  "segment r (snd (begin_manual_compaction now r))"
  "segment r (snd (begin_manual_reflection now r))"
  "segment r (advance_drain_epoch r)"
  "segment r (snd (record_stop_hook_block r))"
  "segment r (snd (apply_drain_decision now d text r))"
  by (auto simp: start_draining_def begin_manual_compaction_def begin_manual_reflection_def
      advance_drain_epoch_def record_stop_hook_block_def apply_drain_decision_def Let_def
      split: option.split intro!: segment_intros)

lemma command_then:
  assumes "segment r s" "\<And>u. segment r u \<Longrightarrow> segment r (f u)"
  shows "segment r (snd (case set_status_by_command now n w s of
      (Ok _, u) \<Rightarrow> (x, f u) | (_, u) \<Rightarrow> (y, u)))"
proof (cases rule: set_status_cases [of now n w s])
  case rejected
  then show ?thesis using assms(1) by simp
next
  case moved
  then show ?thesis using assms(2) segment_command [OF assms(1), of now n w] by simp
qed

lemma segment_cancellation: "segment r (snd (request_step_cancellation now i r))"
proof -
  have "segment r (snd (case set_status_by_command now RsCancellingStep
      WhyStepCancellationRequested (set_step_status i SsCancelling (r\<lparr>r_pending_interaction := None\<rparr>))
      of (Ok _, u) \<Rightarrow> (CancelAccepted, push_event (\<lambda>j p. EvStepCancellationRequested j p i) u)
      | (_, u) \<Rightarrow> (RunTerminal, u)))"
    by (intro command_then segment_updates segment_refl segment_push) simp_all
  then show ?thesis
    unfolding request_step_cancellation_def by (simp only: split: option.split if_split) simp
qed

lemma segment_finalization: "segment r (snd (begin_step_finalization now i r))"
  unfolding begin_step_finalization_def
  by (auto split: outcome.split intro!: segment_then segment_command segment_updates segment_push)

lemma segment_finish_step: "segment r (snd (finish_step_cancellation now i st r))"
  unfolding finish_step_cancellation_def finish_controlled_step_def Let_def
  by (auto split: outcome.split intro!: segment_then segment_transition segment_updates segment_push)

lemma segment_termination:
  "segment r (snd (request_termination now reason deadline r))"
  "segment r (snd (finish_termination now r))"
  "segment r (snd (run_fail now m r))"
  unfolding request_termination_def finish_termination_def run_fail_def
  by (auto split: option.split
      intro!: command_then segment_then segment_transition segment_command segment_updates
        segment_push)

lemmas segment_control = segment_cancellation segment_finalization segment_finish_step
  segment_termination

lemma segment_exec: "segment r (snd (run_exec now op r))"
proof (cases op)
  case (OpCompleteInteraction i)
  have "segment r (snd (complete_interaction now i r))"
    unfolding complete_interaction_def
    by (rule segment_then [OF segment_interactions(2)]) (auto intro!: segment_push)
  then show ?thesis using OpCompleteInteraction by simp
qed (simp_all add: cancel_interaction_def segment_interactions segment_steps segment_phases
    segment_control segment_transition)

section \<open>The run as a journalled aggregate\<close>

definition run_step_at :: "instant \<times> 'j run_op \<Rightarrow> 'j run \<Rightarrow> 'j run" where
  "run_step_at o1 r = snd (run_exec (fst o1) (snd o1) r)"

interpretation run_journal: journalled run_step_at r_events run_mark run_owner run_move ev_owner
  mark_final
proof
  fix o1 :: "instant \<times> 'a run_op" and r :: "'a run"
  have "segment r (run_step_at o1 r)"
    by (simp add: run_step_at_def segment_exec)
  then show "\<exists>new. r_events (run_step_at o1 r) = r_events r @ new \<and>
      chained run_move mark_final (run_mark r) new (run_mark (run_step_at o1 r)) \<and>
      list_all (\<lambda>e. ev_owner e = run_owner r) new"
    and "run_owner (run_step_at o1 r) = run_owner r"
    by (auto simp: segment_def)
qed

end
