(* ===== verification/Run_Invariant.thy ===== *)
theory Run_Invariant
  imports Run_Facts
begin

text \<open>
  What holds of every run that its own methods can reach.

  \<^item> \<open>run_ok\<close>: at most one step is active; a run that reflects knows the status it returns to; a manual
    run is confined to the statuses in which no model is called.
  \<^item> \<open>control_ok\<close>: the statuses of the cancellation protocol and of the steps agree, and a pending
    interaction is only found while the run awaits the user. It holds of the runs driven as the loop
    engine drives them: raw transitions only where no command of their own exists.
\<close>

section \<open>Updating the first match\<close>

lemma set_update_first:
  assumes "find p xs = Some s"
  shows "set (update_first p f xs) \<subseteq> insert (f s) (set xs)" and "f s \<in> set (update_first p f xs)"
  using assms by (induction xs) (auto split: if_splits)

lemma active_update_first:
  assumes "find p xs = Some s" "A (f s) \<Longrightarrow> A s"
  shows "length (filter A (update_first p f xs)) \<le> length (filter A xs)"
  using assms by (induction xs) (auto split: if_splits)

lemma set_update_first_unique:
  assumes "find p xs = Some s" "A s" "length (filter A xs) \<le> 1"
  shows "set (update_first p f xs) \<subseteq> insert (f s) {x \<in> set xs. \<not> A x}"
  using assms
proof (induction xs)
  case (Cons x xs)
  show ?case
  proof (cases "p x")
    case True
    with Cons.prems have "x = s" "filter A xs = []" by auto
    then show ?thesis using True by (auto simp: filter_empty_conv)
  next
    case False
    with Cons.prems have s: "find p xs = Some s" by simp
    then have "filter A xs \<noteq> []"
      using \<open>A s\<close> find_SomeD [OF s] by (auto simp: filter_empty_conv)
    with Cons.prems have "\<not> A x" by (cases "filter A xs") auto
    then show ?thesis using Cons s False by auto
  qed
qed simp

lemma filter_unique_find:
  "length (filter A xs) \<le> 1 \<Longrightarrow> x \<in> set xs \<Longrightarrow> A x \<Longrightarrow> find A xs = Some x"
proof (induction xs)
  case (Cons y ys)
  show ?case
  proof (cases "A y")
    case True
    then have "filter A ys = []" using Cons.prems(1) by simp
    then show ?thesis using Cons.prems True by (auto simp: filter_empty_conv)
  next
    case False
    then show ?thesis using Cons by auto
  qed
qed simp

section \<open>The invariant of every run\<close>

definition one_active :: "'j run \<Rightarrow> bool" where
  "one_active r \<longleftrightarrow> length (filter step_is_active (r_steps r)) \<le> 1"

definition reflection_ok :: "'j run \<Rightarrow> bool" where
  "reflection_ok r \<longleftrightarrow>
     (r_status r = RsReflecting \<longrightarrow>
       (\<exists>s. r_reflection_return r = Some s \<and> reflection_allowed s (r_intent r)))"

definition manual_statuses :: "run_intent \<Rightarrow> run_status set" where
  "manual_statuses intent =
     {RsCreated, RsDrainingInput, RsPreparingContext, RsCompacting, RsCancellingStep,
      RsFinalizingStep, RsTerminating, RsCompleted, RsFailed, RsTerminated} \<union>
     (if intent = ManualReflection then {RsReflecting} else {})"

definition manual_ok :: "'j run \<Rightarrow> bool" where
  "manual_ok r \<longleftrightarrow>
     (r_intent r \<in> {ManualCompaction, ManualReflection} \<longrightarrow>
       r_status r \<in> manual_statuses (r_intent r))"

definition run_ok :: "'j run \<Rightarrow> bool" where
  "run_ok r \<longleftrightarrow> one_active r \<and> reflection_ok r \<and> manual_ok r"

text \<open>The status and what it depends on are kept; the steps get no more active.\<close>

definition quiet :: "'j run \<Rightarrow> 'j run \<Rightarrow> bool" where
  "quiet r r' \<longleftrightarrow> r_status r' = r_status r \<and> r_spec r' = r_spec r \<and>
     r_reflection_return r' = r_reflection_return r \<and>
     length (filter step_is_active (r_steps r')) \<le> max 1 (length (filter step_is_active (r_steps r)))"

lemma run_ok_quiet: "run_ok r \<Longrightarrow> quiet r r' \<Longrightarrow> run_ok r'"
  by (auto simp: run_ok_def quiet_def one_active_def reflection_ok_def manual_ok_def)

lemma quiet_refl [simp]: "quiet r r"
  by (simp add: quiet_def)

lemma run_ok_new [simp]: "run_ok (run_new i spec parent policy)"
  by (auto simp: run_ok_def run_new_def one_active_def reflection_ok_def manual_ok_def
      manual_statuses_def)

lemma next_status_manual:
  assumes "next_status b s t = Some n" "s \<in> manual_statuses i" "t \<noteq> ContextPrepared"
    "t \<noteq> BeginReflection"
  shows "n \<in> manual_statuses i"
  using assms by (cases s; cases t) (auto simp: next_status_def manual_statuses_def split: if_splits)

lemma next_status_not_reflecting:
  "next_status b s t = Some n \<Longrightarrow> t \<noteq> BeginReflection \<Longrightarrow> n \<noteq> RsReflecting"
  by (cases s; auto simp: next_status_def split: run_transition.splits if_splits)

lemma reflection_allowed_status:
  "reflection_allowed s i \<Longrightarrow> s \<in> {RsDrainingInput, RsApplyingResponse, RsCompacting}"
  "reflection_allowed s i \<Longrightarrow> i \<in> {ManualCompaction, ManualReflection} \<Longrightarrow>
     i = ManualReflection \<and> s = RsDrainingInput"
  by (cases s; cases i; simp add: reflection_allowed_def)+

lemma run_ok_transition:
  assumes "run_ok r"
  shows "run_ok (snd (do_transition now t r))"
proof (cases rule: do_transition_cases [of now t r])
  case (plain n)
  have "n \<noteq> RsReflecting"
    using next_status_not_reflecting plain(2,3) by blast
  moreover have "r_intent r \<in> {ManualCompaction, ManualReflection} \<Longrightarrow>
      n \<in> manual_statuses (r_intent r)"
    using assms plain(3,5) by (intro next_status_manual [OF plain(2)])
      (auto simp: run_ok_def manual_ok_def)
  ultimately show ?thesis
    using assms plain(1) by (simp add: run_ok_def one_active_def reflection_ok_def manual_ok_def)
next
  case enter
  have "r_intent r \<in> {ManualCompaction, ManualReflection} \<Longrightarrow>
      RsReflecting \<in> manual_statuses (r_intent r)"
    using reflection_allowed_status(2) [OF enter(3)] by (simp add: manual_statuses_def)
  then show ?thesis
    using assms enter by (simp add: run_ok_def one_active_def reflection_ok_def manual_ok_def)
next
  case (leave n)
  have allowed: "reflection_allowed n (r_intent r)"
    using assms leave(3,4) by (auto simp: run_ok_def reflection_ok_def)
  then have "n \<noteq> RsReflecting"
    using reflection_allowed_status(1) by blast
  moreover have "r_intent r \<in> {ManualCompaction, ManualReflection} \<Longrightarrow>
      n \<in> manual_statuses (r_intent r)"
    using reflection_allowed_status(2) [OF allowed] by (simp add: manual_statuses_def)
  ultimately show ?thesis
    using assms leave(1) by (simp add: run_ok_def one_active_def reflection_ok_def manual_ok_def)
qed (use assms in simp)

lemma run_ok_command:
  assumes "run_ok r"
    and "n \<in> {RsTerminating, RsFailed, RsCancellingStep, RsFinalizingStep, RsExecutingTools} \<or>
      n = RsAwaitingUser \<and> r_status r \<in> {RsExecutingTools, RsAwaitingToolApproval}"
  shows "run_ok (snd (set_status_by_command now n w r))"
proof (cases rule: set_status_cases [of now n w r])
  case rejected
  then show ?thesis using assms by simp
next
  case moved
  have "r_intent r \<in> {ManualCompaction, ManualReflection} \<Longrightarrow>
      r_status r \<notin> {RsAwaitingUser, RsExecutingTools, RsAwaitingToolApproval}"
    using assms(1) unfolding run_ok_def manual_ok_def manual_statuses_def by auto
  moreover have "n = RsExecutingTools \<Longrightarrow> r_status r = RsAwaitingUser"
    using moved(2) by (simp add: command_status_allowed_def split: if_splits)
  ultimately have "r_intent r \<in> {ManualCompaction, ManualReflection} \<Longrightarrow>
      n \<in> {RsTerminating, RsFailed, RsCancellingStep, RsFinalizingStep}"
    using assms(2) by blast
  then have "r_intent r \<in> {ManualCompaction, ManualReflection} \<Longrightarrow>
      n \<in> manual_statuses (r_intent r)"
    by (auto simp: manual_statuses_def)
  moreover have "n \<noteq> RsReflecting" using assms(2) by auto
  ultimately show ?thesis
    using assms(1) moved(1) by (simp add: run_ok_def one_active_def reflection_ok_def manual_ok_def)
qed

lemma run_then_keeps:
  "P (snd m) \<Longrightarrow> (\<And>x s. m = (Ok x, s) \<Longrightarrow> P s \<Longrightarrow> P (snd (k x s))) \<Longrightarrow> P (snd (run_then m k))"
  by (cases m; cases "fst m") (auto simp: run_then_def)

lemma quiet_updates [simp]:
  "quiet r (push_event ev r)" "quiet r (r\<lparr>r_pending_interaction := a\<rparr>)"
  "quiet r (r\<lparr>r_termination := b\<rparr>)" "quiet r (r\<lparr>r_pending_completion_result := c\<rparr>)"
  "quiet r (r\<lparr>r_next_drain_epoch := d\<rparr>)" "quiet r (r\<lparr>r_stop_hook_block_count := e\<rparr>)"
  "quiet r (r\<lparr>r_user_cancelled_step := f\<rparr>)"
  "quiet r (r\<lparr>r_started_at := h, r_phase_started_at := i\<rparr>)" "quiet r (r\<lparr>r_events := evs\<rparr>)"
  by (simp_all add: quiet_def)

lemma quiet_close: "ss_closed st \<Longrightarrow> quiet r (close_active_steps st r)"
proof -
  assume st: "ss_closed st"
  have "filter step_is_active
      (map (\<lambda>s. if ss_closed (st_status s) then s else s\<lparr>st_status := st\<rparr>) (r_steps r)) = []"
    using st by (auto simp: filter_empty_conv step_is_active_def)
  then show ?thesis by (simp add: quiet_def) (simp add: close_active_steps_def)
qed

lemma quiet_update_step:
  assumes "find_step i r = Some s" "step_is_active (f s) \<Longrightarrow> step_is_active s"
  shows "quiet r (update_step i f r)"
  using active_update_first [of "\<lambda>s. st_id s = i" "r_steps r" s step_is_active f] assms
  by (simp add: quiet_def find_step_def)

lemma active_step_mut_Ok [simp]:
  "active_step_mut i r = Ok s \<longleftrightarrow> find_step i r = Some s \<and> step_is_active s"
  "active_step_mut i r \<noteq> Panic"
  by (auto simp: active_step_mut_def step_is_active_def split: option.split)

lemma on_working_step_keeps:
  assumes "P r"
    and "\<And>s. find_step i r = Some s \<Longrightarrow> step_is_active s \<Longrightarrow> \<not> rejects_controlled_work r \<Longrightarrow>
      P (snd (k s))"
  shows "P (snd (on_working_step i k r))"
proof (cases "active_step_mut i r")
  case (Ok s)
  moreover from this have "find_step i r = Some s" "step_is_active s" by simp_all
  ultimately show ?thesis using assms unfolding on_working_step_def by (simp del: active_step_mut_Ok)
qed (use assms(1) in \<open>simp_all add: on_working_step_def\<close>)

lemma quiet_step_ops:
  "quiet r (snd (begin_step_with_id i r))"
  "quiet r (snd (record_model_invocation i v r))"
  "quiet r (snd (add_tool_call i call r))"
  "quiet r (snd (advance_tool_call i cid st r))"
  "quiet r (snd (complete_step i r))"
proof -
  show "quiet r (snd (begin_step_with_id i r))"
    by (auto simp: begin_step_with_id_def quiet_def step_is_active_def filter_empty_conv)
  show "quiet r (snd (record_model_invocation i v r))"
    unfolding record_model_invocation_def
    by (rule on_working_step_keeps) (auto intro: quiet_update_step)
  show "quiet r (snd (add_tool_call i call r))"
    unfolding add_tool_call_def
    by (rule on_working_step_keeps) (auto intro: quiet_update_step)
  show "quiet r (snd (advance_tool_call i cid st r))"
    unfolding advance_tool_call_def
    by (rule on_working_step_keeps) (auto intro: quiet_update_step split: option.split)
  show "quiet r (snd (complete_step i r))"
    using active_update_first [of "\<lambda>s. st_id s = i" "r_steps r" _ step_is_active
        "\<lambda>s. s\<lparr>st_status := SsDone\<rparr>"]
    by (auto simp: complete_step_def find_step_def quiet_def step_is_active_def split: option.split)
qed

lemma run_ok_push: "run_ok r \<Longrightarrow> run_ok (push_event ev r)"
  by (erule run_ok_quiet) (rule quiet_updates)

lemmas run_ok_then = run_then_keeps [where P = run_ok]

lemma run_ok_interactions:
  assumes "run_ok r"
  shows "run_ok (snd (begin_interaction now i c r))" "run_ok (snd (take_interaction now i r))"
    "run_ok (snd (complete_interaction now i r))"
proof -
  note push = run_ok_push
  have pending: "run_ok (r\<lparr>r_pending_interaction := a\<rparr>)" for a
    by (rule run_ok_quiet [OF assms]) simp
  have allowed: "interaction_allowed c (r_status r) \<Longrightarrow>
      r_status r \<in> {RsExecutingTools, RsAwaitingToolApproval}"
    by (cases c; cases "r_status r") (simp_all add: interaction_allowed_def)
  have "run_ok (snd (set_status_by_command now RsAwaitingUser WhyAwaitUser
      (r\<lparr>r_pending_interaction := a\<rparr>)))" if "interaction_allowed c (r_status r)" for a
    using allowed [OF that] by (intro run_ok_command pending) auto
  then show "run_ok (snd (begin_interaction now i c r))"
    unfolding begin_interaction_def
    by (auto simp: assms split: option.split intro!: run_ok_then push)
  have "resume_status k = RsExecutingTools" for k by (cases k) simp_all
  then show take: "run_ok (snd (take_interaction now i r))"
    unfolding take_interaction_def
    by (auto simp: assms split: option.split intro!: run_ok_then run_ok_command pending)
  show "run_ok (snd (complete_interaction now i r))"
    unfolding complete_interaction_def by (rule run_ok_then [OF take]) (simp add: push)
qed

lemma run_ok_phases:
  assumes "run_ok r"
  shows "run_ok (snd (start_draining t now r))"
    "run_ok (snd (begin_manual_compaction now r))"
    "run_ok (snd (begin_manual_reflection now r))"
    "run_ok (snd (apply_drain_decision now d text r))"
proof -
  note push = run_ok_push
  have "run_ok (r\<lparr>r_started_at := h, r_phase_started_at := p\<rparr>)" for h p
    by (rule run_ok_quiet [OF assms]) simp
  then show "run_ok (snd (start_draining t now r))"
    unfolding start_draining_def
    by (intro run_ok_then run_ok_transition) (simp_all add: push)
  show "run_ok (snd (begin_manual_compaction now r))"
    "run_ok (snd (begin_manual_reflection now r))"
    unfolding begin_manual_compaction_def begin_manual_reflection_def
    by (auto simp: assms intro!: run_ok_then run_ok_transition)
  have "run_ok (r\<lparr>r_pending_completion_result := c\<rparr>)" for c
    by (rule run_ok_quiet [OF assms]) simp
  then show "run_ok (snd (apply_drain_decision now d text r))"
    unfolding apply_drain_decision_def Let_def
    by (auto simp: assms split: option.split intro!: run_ok_then run_ok_transition push)
qed

lemma run_ok_control:
  assumes "run_ok r"
  shows "run_ok (snd (request_step_cancellation now i r))"
    "run_ok (snd (begin_step_finalization now i r))"
    "run_ok (snd (finish_step_cancellation now i st r))"
    "run_ok (snd (request_termination now reason deadline r))"
    "run_ok (snd (finish_termination now r))"
    "run_ok (snd (run_fail now m r))"
proof -
  note push = run_ok_push
  have close: "run_ok s \<Longrightarrow> ss_closed x \<Longrightarrow> run_ok (close_active_steps x s)"
    for x and s :: "'a run"
    by (rule run_ok_quiet [OF _ quiet_close])
  have step: "run_ok (set_step_status i x s)"
    if "run_ok s" "find_step i s = Some u" "step_is_active u" for i x u and s :: "'a run"
    unfolding set_step_status_def
    by (rule run_ok_quiet [OF that(1) quiet_update_step [OF that(2)]]) (use that(3) in simp)
  have pend: "run_ok (r\<lparr>r_pending_interaction := a\<rparr>)" for a
    by (rule run_ok_quiet [OF assms]) simp
  have find_pend: "find_step i (s\<lparr>r_pending_interaction := a\<rparr>) = find_step i s"
    for a i and s :: "'a run" by (simp add: find_step_def)
  have command: "run_ok (snd (case set_status_by_command now n w s of
      (Ok _, u) \<Rightarrow> (x, push_event ev u) | (_, u) \<Rightarrow> (y, u)))"
    if "run_ok s" "n \<in> {RsTerminating, RsCancellingStep}" for n w ev and x y :: 'y and s :: "'a run"
  proof -
    have "run_ok (snd (set_status_by_command now n w s))"
      using that by (intro run_ok_command) auto
    then show ?thesis
      by (cases rule: set_status_cases [of now n w s]) (simp_all add: push)
  qed
  show "run_ok (snd (request_step_cancellation now i r))"
    unfolding request_step_cancellation_def
    by (auto simp: assms find_pend split: option.split intro!: command step pend)
  show "run_ok (snd (begin_step_finalization now i r))"
    unfolding begin_step_finalization_def
    by (auto simp: assms split: outcome.split intro!: run_ok_then run_ok_command step push)
  have cancelled: "run_ok (s\<lparr>r_user_cancelled_step := b\<rparr>)" if "run_ok s" for b and s :: "'a run"
    by (rule run_ok_quiet [OF that]) simp
  show "run_ok (snd (finish_step_cancellation now i st r))"
    unfolding finish_step_cancellation_def finish_controlled_step_def Let_def
    by (auto simp: assms split: outcome.split
        intro!: run_ok_then run_ok_transition step push cancelled)
  have ended: "run_ok (r\<lparr>r_termination := a, r_pending_interaction := b\<rparr>)" for a b
    by (rule run_ok_quiet [OF assms]) (simp add: quiet_def)
  show "run_ok (snd (request_termination now reason deadline r))"
    unfolding request_termination_def by (auto simp: assms intro!: command ended)
  show "run_ok (snd (finish_termination now r))"
    unfolding finish_termination_def
    by (auto simp: assms split: option.split intro!: run_ok_then run_ok_transition push close)
  show "run_ok (snd (run_fail now m r))"
    unfolding run_fail_def
    by (auto simp: assms intro!: run_ok_then run_ok_command push close)
qed

lemma run_ok_exec: "run_ok r \<Longrightarrow> run_ok (snd (run_exec now op r))"
  by (cases op)
    (auto simp: run_ok_interactions run_ok_phases run_ok_control run_ok_transition
      cancel_interaction_def mark_stuck_def advance_drain_epoch_def record_stop_hook_block_def Let_def
      intro: run_ok_quiet quiet_step_ops)

section \<open>Reachable runs\<close>

inductive run_reachable :: "'j run \<Rightarrow> bool" where
  created: "run_reachable (run_new i spec parent policy)"
| operated: "run_reachable r \<Longrightarrow> run_reachable (snd (run_exec now op r))"
| drained: "run_reachable r \<Longrightarrow> run_reachable (snd (drain_events r))"
| restored: "run_reachable r \<Longrightarrow> run_reachable (restore_events evs r)"

lemma run_reachable_ok: "run_reachable r \<Longrightarrow> run_ok r"
proof (induction rule: run_reachable.induct)
  case (drained r)
  then show ?case by (auto simp: drain_events_def intro: run_ok_quiet)
next
  case (restored r evs)
  then show ?case by (auto simp: restore_events_def intro: run_ok_quiet)
qed (simp_all add: run_ok_exec)

end
