(* ===== verification/Run_Control.thy ===== *)
theory Run_Control
  imports Run_Invariant
begin

text \<open>
  The cancellation and termination protocol of a run that is driven as the loop engine drives it
  (\<open>loop_engine/engine.rs\<close>, \<open>engine/step_driver.rs\<close>): raw transitions are those the engine requests by
  name, and it resumes an awaiting run only when no interaction is pending
  (\<open>defer_user_batch_if_pending_interaction\<close>). The invariant \<open>control_ok\<close> ties the statuses of the
  steps to the status of the run.
\<close>

section \<open>The discipline of the engine\<close>

definition engine_transitions :: "run_transition set" where
  "engine_transitions = {BeginCompaction, CompactionCompleted, ContextPrepared,
     ModelContextExceeded, ModelInvoked, ContinueAfterResponse, ResponseWithTools, ToolsApproved,
     ToolsCompleted, AwaitUser, UserResumed, BeginReflection, ReflectionCompleted}"

fun engine_op :: "'j run \<Rightarrow> 'j run_op \<Rightarrow> bool" where
  "engine_op r (OpTransition t) \<longleftrightarrow>
     t \<in> engine_transitions \<and> (t = UserResumed \<longrightarrow> r_pending_interaction r = None)"
| "engine_op r _ \<longleftrightarrow> True"

inductive engine_reachable :: "'j run \<Rightarrow> bool" where
  created: "engine_reachable (run_new i spec parent policy)"
| operated: "engine_reachable r \<Longrightarrow> engine_op r op \<Longrightarrow> engine_reachable (snd (run_exec now op r))"
| drained: "engine_reachable r \<Longrightarrow> engine_reachable (snd (drain_events r))"
| restored: "engine_reachable r \<Longrightarrow> engine_reachable (restore_events evs r)"

lemma engine_run_reachable: "engine_reachable r \<Longrightarrow> run_reachable r"
  by (induction rule: engine_reachable.induct) (auto intro: run_reachable.intros)

section \<open>The invariant\<close>

definition working :: "run_status set" where
  "working = {RsDrainingInput, RsPreparingContext, RsInvokingModel, RsApplyingResponse,
     RsAwaitingToolApproval, RsExecutingTools, RsAwaitingUser, RsCompacting, RsReflecting}"

definition steps_agree :: "run_status \<Rightarrow> 'j run_step list \<Rightarrow> bool" where
  "steps_agree status ss \<longleftrightarrow>
     (\<forall>s \<in> set ss. st_status s = SsCancelling \<longrightarrow> status \<in> {RsCancellingStep, RsTerminating}) \<and>
     (\<forall>s \<in> set ss. st_status s = SsFinalizing \<longrightarrow> status \<in> {RsFinalizingStep, RsTerminating}) \<and>
     (status = RsCancellingStep \<longrightarrow> (\<exists>s \<in> set ss. st_status s = SsCancelling)) \<and>
     (status = RsFinalizingStep \<longrightarrow> (\<exists>s \<in> set ss. st_status s = SsFinalizing)) \<and>
     (status = RsCreated \<longrightarrow> ss = []) \<and>
     (status \<in> {RsFailed, RsTerminated} \<longrightarrow> (\<forall>s \<in> set ss. \<not> step_is_active s))"

definition ending_agrees :: "'j run \<Rightarrow> bool" where
  "ending_agrees r \<longleftrightarrow>
     (r_status r = RsTerminating \<longrightarrow> r_termination r \<noteq> None) \<and>
     (r_pending_interaction r \<noteq> None \<longrightarrow> r_status r \<in> {RsAwaitingUser, RsFailed})"

definition control_ok :: "'j run \<Rightarrow> bool" where
  "control_ok r \<longleftrightarrow> steps_agree (r_status r) (r_steps r) \<and> ending_agrees r"

lemma control_ok_new [simp]: "control_ok (run_new i spec parent policy)"
  by (simp add: control_ok_def run_new_def steps_agree_def ending_agrees_def)

text \<open>Nothing the invariant speaks of changes.\<close>

definition unmoved :: "'j run \<Rightarrow> 'j run \<Rightarrow> bool" where
  "unmoved r r' \<longleftrightarrow> r_status r' = r_status r \<and> r_steps r' = r_steps r \<and>
     r_termination r' = r_termination r \<and> r_pending_interaction r' = r_pending_interaction r"

lemma control_ok_unmoved: "control_ok r \<Longrightarrow> unmoved r r' \<Longrightarrow> control_ok r'"
  by (simp add: control_ok_def unmoved_def ending_agrees_def)

lemma unmoved_updates [simp]:
  "unmoved r r" "unmoved r (push_event ev r)" "unmoved r (r\<lparr>r_pending_completion_result := c\<rparr>)"
  "unmoved r (r\<lparr>r_next_drain_epoch := d\<rparr>)" "unmoved r (r\<lparr>r_stop_hook_block_count := e\<rparr>)"
  "unmoved r (r\<lparr>r_user_cancelled_step := f\<rparr>)"
  "unmoved r (r\<lparr>r_started_at := h, r_phase_started_at := i\<rparr>)" "unmoved r (r\<lparr>r_events := evs\<rparr>)"
  "unmoved r (r\<lparr>r_reflection_return := g\<rparr>)"
  by (simp_all add: unmoved_def)

lemma control_ok_push: "control_ok r \<Longrightarrow> control_ok (push_event ev r)"
  by (erule control_ok_unmoved) (rule unmoved_updates)

lemmas control_ok_then = run_then_keeps [where P = control_ok]

text \<open>Between two working statuses the steps and the interaction stay as they are.\<close>

lemma steps_agree_working:
  "steps_agree s ss \<Longrightarrow> s \<in> working \<Longrightarrow> n \<in> working \<or> n = RsCompleted \<Longrightarrow> steps_agree n ss"
  by (fastforce simp: steps_agree_def working_def)

lemma control_ok_working:
  assumes "control_ok r" "r_status r \<in> working \<or> r_status r = RsCreated"
    and "n \<in> working \<or> n = RsCompleted" "r_pending_interaction r = None \<or> n = RsAwaitingUser"
  shows "control_ok (apply_state_transition now n w r)"
proof -
  have "steps_agree n (r_steps r)"
  proof (cases "r_status r = RsCreated")
    case True
    then have "r_steps r = []" using assms(1) by (simp add: control_ok_def steps_agree_def)
    then show ?thesis using assms(3) by (auto simp: steps_agree_def working_def)
  next
    case False
    then show ?thesis
      using assms(1-3) steps_agree_working by (auto simp: control_ok_def)
  qed
  moreover have "n \<noteq> RsTerminating" using assms(3) by (auto simp: working_def)
  ultimately show ?thesis
    using assms(4) by (auto simp: control_ok_def ending_agrees_def)
qed

lemma next_status_working:
  assumes "next_status b s t = Some n" "t \<in> engine_transitions \<or>
      t \<in> {StartDraining, DrainInputs, DrainInternalContinuation, DrainEmptyAndSealed}"
  shows "s \<in> working \<or> s = RsCreated" "n \<in> working \<or> n = RsCompleted"
    "s = RsAwaitingUser \<Longrightarrow> t = UserResumed"
  using assms
  by (cases s; cases t; auto simp: next_status_def working_def engine_transitions_def split: if_splits)+

lemma control_ok_transition:
  assumes "control_ok r" "run_ok r"
    and "t \<in> engine_transitions \<or>
      t \<in> {StartDraining, DrainInputs, DrainInternalContinuation, DrainEmptyAndSealed}"
    and "t = UserResumed \<Longrightarrow> r_pending_interaction r = None"
  shows "control_ok (snd (do_transition now t r))"
proof (cases rule: do_transition_cases [of now t r])
  case (plain n)
  note w = next_status_working [OF plain(2) assms(3)]
  have "r_status r \<noteq> RsAwaitingUser \<Longrightarrow> r_status r \<noteq> RsFailed \<Longrightarrow> r_pending_interaction r = None"
    using assms(1) by (auto simp: control_ok_def ending_agrees_def)
  moreover have "r_status r \<noteq> RsFailed" using w(1) by (auto simp: working_def)
  ultimately have "r_pending_interaction r = None" using w(3) assms(4) by blast
  then show ?thesis
    using plain(1) w(1,2) by (simp add: control_ok_working [OF assms(1)])
next
  case enter
  have source: "r_status r \<in> working" "r_status r \<notin> {RsAwaitingUser, RsFailed}"
    using reflection_allowed_status(1) [OF enter(3)] by (auto simp: working_def)
  then have "r_pending_interaction r = None"
    using assms(1) by (auto simp: control_ok_def ending_agrees_def)
  moreover have "control_ok (r\<lparr>r_reflection_return := g\<rparr>)" for g
    by (rule control_ok_unmoved [OF assms(1)]) simp
  ultimately show ?thesis
    using enter(1) source(1) by (simp add: control_ok_working working_def)
next
  case (leave n)
  have "reflection_allowed n (r_intent r)"
    using assms(2) leave(3,4) by (auto simp: run_ok_def reflection_ok_def)
  then have "n \<in> working"
    using reflection_allowed_status(1) by (auto simp: working_def)
  moreover have "r_pending_interaction r = None"
    using assms(1) leave(3) by (auto simp: control_ok_def ending_agrees_def)
  moreover have "control_ok (r\<lparr>r_reflection_return := g\<rparr>)" for g
    by (rule control_ok_unmoved [OF assms(1)]) simp
  ultimately show ?thesis
    using leave(1,3) by (simp add: control_ok_working working_def)
qed (use assms(1) in simp)

section \<open>Steps at work\<close>

lemma control_ok_steps:
  assumes "control_ok r" "\<not> rejects_controlled_work r" "r_status r \<noteq> RsCreated"
    and "\<forall>s \<in> set ss. st_status s \<notin> {SsCancelling, SsFinalizing}"
  shows "control_ok (r\<lparr>r_steps := ss\<rparr>)"
  using assms
  by (auto simp: control_ok_def steps_agree_def ending_agrees_def rejects_controlled_work_def)

lemma uncontrolled_steps:
  assumes "control_ok r" "\<not> rejects_controlled_work r" "s \<in> set (r_steps r)"
  shows "st_status s \<notin> {SsCancelling, SsFinalizing}" "r_status r \<noteq> RsCreated"
  using assms by (auto simp: control_ok_def steps_agree_def rejects_controlled_work_def)

lemma find_step_mem: "find_step i r = Some s \<Longrightarrow> s \<in> set (r_steps r) \<and> st_id s = i"
  unfolding find_step_def by (drule find_SomeD) simp

lemma control_ok_update_step:
  assumes "control_ok r" "\<not> rejects_controlled_work r" "find_step i r = Some s"
    and "st_status (f s) \<notin> {SsCancelling, SsFinalizing}"
  shows "control_ok (update_step i f r)"
proof -
  have "s \<in> set (r_steps r)"
    using find_step_mem [OF assms(3)] ..
  then show ?thesis
    using assms set_update_first(1) [of "\<lambda>s. st_id s = i" "r_steps r" s f]
      uncontrolled_steps [OF assms(1,2)]
    unfolding update_step_def find_step_def by (intro control_ok_steps) auto
qed

lemma control_ok_step_ops:
  assumes "control_ok r"
  shows "control_ok (snd (begin_step_with_id i r))"
    "control_ok (snd (record_model_invocation i v r))"
    "control_ok (snd (add_tool_call i call r))"
    "control_ok (snd (advance_tool_call i cid st r))"
    "control_ok (snd (complete_step i r))"
proof -
  have "control_ok (r\<lparr>r_steps := r_steps r @ [\<lparr>st_id = i, st_status = SsInvoking,
      st_invocation = None, st_tool_calls = []\<rparr>]\<rparr>)"
    if "r_status r = RsPreparingContext \<or> r_status r = RsInvokingModel"
  proof -
    have "\<not> rejects_controlled_work r" "r_status r \<noteq> RsCreated"
      using that by (auto simp: rejects_controlled_work_def)
    then show ?thesis
      using uncontrolled_steps(1) [OF assms] by (intro control_ok_steps [OF assms]) auto
  qed
  then show "control_ok (snd (begin_step_with_id i r))"
    using assms by (auto simp: begin_step_with_id_def intro!: control_ok_push)
  show "control_ok (snd (record_model_invocation i v r))"
    unfolding record_model_invocation_def
    by (rule on_working_step_keeps [where P = control_ok, OF assms])
      (auto intro: control_ok_update_step assms)
  show "control_ok (snd (add_tool_call i call r))"
    unfolding add_tool_call_def
    by (rule on_working_step_keeps [where P = control_ok, OF assms])
      (auto intro: control_ok_update_step assms)
  show "control_ok (snd (advance_tool_call i cid st r))"
    unfolding advance_tool_call_def
  proof (rule on_working_step_keeps [where P = control_ok, OF assms])
    fix s
    assume s: "find_step i r = Some s" "\<not> rejects_controlled_work r"
    then have "st_status s \<notin> {SsCancelling, SsFinalizing}"
      using find_step_mem uncontrolled_steps(1) [OF assms] by blast
    with s show "control_ok (snd (case find (\<lambda>c. rtc_id c = cid) (st_tool_calls s) of
          None \<Rightarrow> (Err ToolCallNotFound, r)
        | Some call \<Rightarrow> if \<not> fst (rtc_advance st call)
            then (Err (IllegalToolCallTransition (rtc_status call) st), r)
            else (Ok (), update_step i (\<lambda>s. s\<lparr>st_tool_calls := update_first (\<lambda>c. rtc_id c = cid)
                (\<lambda>c. snd (rtc_advance st c)) (st_tool_calls s)\<rparr>) r)))"
      by (auto intro: control_ok_update_step assms split: option.split)
  qed
  have "control_ok (set_step_status i SsDone r)"
    if "find_step i r = Some s" "\<not> rejects_controlled_work r" for s
    unfolding set_step_status_def by (rule control_ok_update_step [OF assms that(2,1)]) simp
  then show "control_ok (snd (complete_step i r))"
    using assms by (auto simp: complete_step_def split: option.split intro!: control_ok_push)
qed

section \<open>Interactions\<close>

lemma control_ok_unpend: "control_ok r \<Longrightarrow> control_ok (r\<lparr>r_pending_interaction := None\<rparr>)"
  by (simp add: control_ok_def ending_agrees_def)

lemma control_ok_interactions:
  assumes "control_ok r"
  shows "control_ok (snd (begin_interaction now i c r))"
    "control_ok (snd (take_interaction now i r))"
    "control_ok (snd (complete_interaction now i r))"
proof -
  have allowed: "r_status r \<in> {RsExecutingTools, RsAwaitingToolApproval}"
    if "interaction_allowed c (r_status r)"
    using that by (cases c; cases "r_status r") (simp_all add: interaction_allowed_def)
  have "control_ok (snd (set_status_by_command now RsAwaitingUser WhyAwaitUser
      (r\<lparr>r_pending_interaction := Some a\<rparr>)))" if "interaction_allowed c (r_status r)" for a
  proof -
    have "steps_agree RsAwaitingUser (r_steps r)"
      by (rule steps_agree_working [of "r_status r"])
        (use assms allowed [OF that] in \<open>auto simp: control_ok_def working_def\<close>)
    moreover have "command_status_allowed (r_status r) RsAwaitingUser"
      using allowed [OF that] by (auto simp: command_status_allowed_def)
    ultimately show ?thesis
      by (simp add: set_status_by_command_def control_ok_def ending_agrees_def)
  qed
  then show "control_ok (snd (begin_interaction now i c r))"
    unfolding begin_interaction_def
    by (auto simp: assms split: option.split intro!: control_ok_then control_ok_push)
  have resume: "resume_status k = RsExecutingTools" for k by (cases k) simp_all
  have "control_ok (snd (set_status_by_command now RsExecutingTools WhyUserResumed
      (r\<lparr>r_pending_interaction := None\<rparr>)))"
  proof (cases rule: set_status_cases [of now RsExecutingTools WhyUserResumed
        "r\<lparr>r_pending_interaction := None\<rparr>"])
    case rejected
    then show ?thesis using control_ok_unpend [OF assms] by simp
  next
    case moved
    then have "r_status r = RsAwaitingUser"
      by (simp add: command_status_allowed_def split: if_splits)
    then show ?thesis
      using moved(1) control_ok_unpend [OF assms]
      by (simp add: control_ok_working working_def)
  qed
  then show take: "control_ok (snd (take_interaction now i r))"
    unfolding take_interaction_def
    by (auto simp: assms resume split: option.split intro!: control_ok_then)
  show "control_ok (snd (complete_interaction now i r))"
    unfolding complete_interaction_def by (rule control_ok_then [OF take]) (simp add: control_ok_push)
qed

section \<open>Cancelling a step\<close>

text \<open>The step an identifier finds, when it is active, is the only active one.\<close>

lemma sole_step:
  assumes "one_active r" "find_step i r = Some s" "step_is_active s"
  shows "set (update_first (\<lambda>s. st_id s = i) f (r_steps r)) \<subseteq>
      insert (f s) {x \<in> set (r_steps r). \<not> step_is_active x}"
    and "f s \<in> set (update_first (\<lambda>s. st_id s = i) f (r_steps r))"
  using set_update_first_unique [of "\<lambda>s. st_id s = i" "r_steps r" s step_is_active f]
    set_update_first(2) [of "\<lambda>s. st_id s = i" "r_steps r" s f] assms
  by (simp_all add: one_active_def find_step_def)

lemma inactive_status: "\<not> step_is_active s \<Longrightarrow> st_status s \<notin> {SsCancelling, SsFinalizing}"
  by (auto simp: step_is_active_def)

lemma steps_agree_sole:
  assumes "one_active r" "find_step i r = Some s" "step_is_active s"
    and "(n, st) \<in> {(RsCancellingStep, SsCancelling), (RsFinalizingStep, SsFinalizing),
      (RsTerminating, SsFinalizing)} \<or> ss_closed st \<and> n \<in> {RsDrainingInput, RsTerminating}"
  shows "steps_agree n (r_steps (set_step_status i st r))"
  using sole_step [OF assms(1-3), of "\<lambda>s. s\<lparr>st_status := st\<rparr>"] assms(4) inactive_status
  unfolding steps_agree_def by (fastforce simp: step_is_active_def)

lemma transition_step_cancelled:
  "r_status r = RsFinalizingStep \<Longrightarrow> do_transition now StepCancelled r =
     (Ok RsDrainingInput, apply_state_transition now RsDrainingInput WhyStepCancelled r)"
  "r_status r \<noteq> RsFinalizingStep \<Longrightarrow> do_transition now StepCancelled r =
     (Err (IllegalTransition (r_status r) StepCancelled), r)"
  by (cases "r_status r"; simp add: do_transition_def next_status_def settle_transition_def
      transition_reason_def)+

lemma transition_termination_finished:
  "r_status r = RsTerminating \<Longrightarrow> do_transition now TerminationFinished r =
     (Ok RsTerminated, apply_state_transition now RsTerminated WhyTerminationFinished r)"
  "r_status r \<noteq> RsTerminating \<Longrightarrow> do_transition now TerminationFinished r =
     (Err (IllegalTransition (r_status r) TerminationFinished), r)"
  by (cases "r_status r"; simp add: do_transition_def next_status_def settle_transition_def
      transition_reason_def)+

lemma find_step_pending [simp]: "find_step i (r\<lparr>r_pending_interaction := a\<rparr>) = find_step i r"
  by (simp add: find_step_def)

lemma request_step_cancellation_cases:
  obtains (refused) x where "request_step_cancellation now i r = (x, r)" "x \<noteq> CancelAccepted"
  | (accepted) s where "find_step i r = Some s" "step_is_active s"
      "st_status s \<notin> {SsCancelling, SsFinalizing}"
      "\<not> rs_is_terminal (r_status r)" "r_status r \<noteq> RsTerminating"
      "request_step_cancellation now i r = (CancelAccepted,
         push_event (\<lambda>j p. EvStepCancellationRequested j p i)
           (apply_state_transition now RsCancellingStep WhyStepCancellationRequested
             (set_step_status i SsCancelling (r\<lparr>r_pending_interaction := None\<rparr>))))"
proof (cases "rs_is_terminal (r_status r) \<or> r_status r = RsTerminating")
  case True
  then show ?thesis using refused by (auto simp: request_step_cancellation_def)
next
  case over: False
  show ?thesis
  proof (cases "find_step i r")
    case None
    then show ?thesis using over refused by (simp add: request_step_cancellation_def)
  next
    case (Some s)
    show ?thesis
    proof (cases "st_status s \<in> {SsCancelling, SsFinalizing} \<or> \<not> step_is_active s")
      case True
      then have "\<exists>x. request_step_cancellation now i r = (x, r) \<and> x \<noteq> CancelAccepted"
        using over Some by (auto simp: request_step_cancellation_def)
      then show ?thesis using refused by blast
    next
      case False
      then show ?thesis
        using over Some
        by (intro accepted [of s])
          (simp_all add: request_step_cancellation_def set_status_by_command_def
            command_status_allowed_def)
    qed
  qed
qed

lemma control_ok_cancellation:
  assumes "control_ok r" "run_ok r"
  shows "control_ok (snd (request_step_cancellation now i r))"
proof (cases rule: request_step_cancellation_cases [of now i r])
  case (refused x)
  then show ?thesis using assms(1) by simp
next
  case (accepted s)
  let ?r = "r\<lparr>r_pending_interaction := None\<rparr>"
  have "one_active ?r" "find_step i ?r = Some s"
    using assms(2) accepted(1) by (simp_all add: run_ok_def one_active_def)
  then have "steps_agree RsCancellingStep (r_steps (set_step_status i SsCancelling ?r))"
    by (rule steps_agree_sole) (use accepted(2) in simp_all)
  then show ?thesis
    using accepted(6) by (simp add: control_ok_def ending_agrees_def)
qed

lemma control_ok_finalization:
  assumes "control_ok r" "run_ok r"
  shows "control_ok (snd (begin_step_finalization now i r))"
proof (cases "\<exists>s. active_step_mut i r = Ok s \<and> st_status s = SsCancelling")
  case False
  then show ?thesis
    using assms(1) by (auto simp: begin_step_finalization_def simp del: active_step_mut_Ok
        split: outcome.split)
next
  case True
  then obtain s where s: "active_step_mut i r = Ok s" "st_status s = SsCancelling" by blast
  then have f: "find_step i r = Some s" "step_is_active s" by simp_all
  have one: "one_active r" using assms(2) by (simp add: run_ok_def)
  have "r_status r \<in> {RsCancellingStep, RsTerminating}"
    using assms(1) s(2) find_step_mem [OF f(1)] by (auto simp: control_ok_def steps_agree_def)
  moreover have "steps_agree RsFinalizingStep (r_steps (set_step_status i SsFinalizing r))"
    "steps_agree RsTerminating (r_steps (set_step_status i SsFinalizing r))"
    by (rule steps_agree_sole [OF one f]; simp)+
  ultimately show ?thesis
    using s assms(1) unfolding begin_step_finalization_def
    by (auto simp: set_status_by_command_def command_status_allowed_def control_ok_def
        ending_agrees_def run_then_def simp del: active_step_mut_Ok)
qed

lemma control_ok_finish_step:
  assumes "control_ok r" "run_ok r"
  shows "control_ok (snd (finish_step_cancellation now i st r))"
proof (cases "(\<exists>s. active_step_mut i r = Ok s \<and> st_status s = SsFinalizing) \<and>
    st \<in> {SsCancelled, SsCancellationUnconfirmed}")
  case False
  then show ?thesis
    using assms(1) by (auto simp: finish_step_cancellation_def finish_controlled_step_def
        simp del: active_step_mut_Ok split: outcome.split)
next
  case True
  then obtain s where s: "active_step_mut i r = Ok s" "st_status s = SsFinalizing"
    and st: "st \<in> {SsCancelled, SsCancellationUnconfirmed}" by blast
  then have f: "find_step i r = Some s" "step_is_active s" by simp_all
  have one: "one_active r" using assms(2) by (simp add: run_ok_def)
  have status: "r_status r \<in> {RsFinalizingStep, RsTerminating}"
    using assms(1) s(2) find_step_mem [OF f(1)] by (auto simp: control_ok_def steps_agree_def)
  have "steps_agree RsDrainingInput (r_steps (set_step_status i st r))"
    "steps_agree RsTerminating (r_steps (set_step_status i st r))"
    by (rule steps_agree_sole [OF one f]; use st in auto)+
  then show ?thesis
    using s st status assms(1)
    unfolding finish_step_cancellation_def finish_controlled_step_def Let_def
    by (auto simp: transition_step_cancelled control_ok_def ending_agrees_def run_then_def
        simp del: active_step_mut_Ok)
qed

lemma control_ok_endings:
  assumes "control_ok r"
  shows "control_ok (snd (request_termination now reason deadline r))"
    "control_ok (snd (finish_termination now r))"
    "control_ok (snd (run_fail now m r))"
proof -
  show "control_ok (snd (request_termination now reason deadline r))"
    using assms
    by (auto simp: request_termination_def set_status_by_command_def command_status_allowed_def
        control_ok_def steps_agree_def ending_agrees_def)
  have closed: "\<forall>s \<in> set (r_steps (close_active_steps x u)). \<not> step_is_active s"
    if "ss_closed x" for x and u :: "'a run"
    using that by (auto simp: close_active_steps_def step_is_active_def)
  have agree: "steps_agree n (r_steps (close_active_steps x u))"
    if "ss_closed x" "n \<in> {RsFailed, RsTerminated}" for x n and u :: "'a run"
    using closed [OF that(1), of u] that(2) inactive_status by (fastforce simp: steps_agree_def)
  show "control_ok (snd (finish_termination now r))"
    using assms agree
    by (cases "r_status r = RsTerminating")
      (auto simp: finish_termination_def transition_termination_finished run_then_def
        control_ok_def ending_agrees_def split: option.split)
  show "control_ok (snd (run_fail now m r))"
    using assms agree
    by (auto simp: run_fail_def run_then_def set_status_by_command_def control_ok_def
        ending_agrees_def command_status_allowed_def)
qed

lemma control_ok_phases:
  assumes "control_ok r" "run_ok r"
  shows "control_ok (snd (start_draining t now r))"
    "control_ok (snd (begin_manual_compaction now r))"
    "control_ok (snd (begin_manual_reflection now r))"
    "control_ok (snd (apply_drain_decision now d text r))"
proof -
  have same: "control_ok (r\<lparr>r_started_at := h, r_phase_started_at := p\<rparr>)"
    "run_ok (r\<lparr>r_started_at := h, r_phase_started_at := p\<rparr>)" for h p
    by (rule control_ok_unmoved [OF assms(1)], simp) (rule run_ok_quiet [OF assms(2)], simp)
  show "control_ok (snd (start_draining t now r))"
    unfolding start_draining_def
    by (intro control_ok_then control_ok_transition same) (simp_all add: control_ok_push)
  show "control_ok (snd (begin_manual_compaction now r))"
    "control_ok (snd (begin_manual_reflection now r))"
    unfolding begin_manual_compaction_def begin_manual_reflection_def
    by (auto simp: assms engine_transitions_def intro!: control_ok_then control_ok_transition)
  have result: "control_ok (r\<lparr>r_pending_completion_result := c\<rparr>)"
    "run_ok (r\<lparr>r_pending_completion_result := c\<rparr>)" for c
    by (rule control_ok_unmoved [OF assms(1)], simp) (rule run_ok_quiet [OF assms(2)], simp)
  show "control_ok (snd (apply_drain_decision now d text r))"
    unfolding apply_drain_decision_def Let_def
    by (cases d) (auto simp: assms result split: option.split
        intro!: control_ok_then control_ok_push control_ok_transition)
qed

lemma control_ok_exec:
  assumes "control_ok r" "run_ok r" "engine_op r op"
  shows "control_ok (snd (run_exec now op r))"
proof (cases op)
  case (OpTransition t)
  then show ?thesis using assms by (auto intro: control_ok_transition)
next
  case (OpMarkStuck m)
  then show ?thesis using assms(1) by (simp add: mark_stuck_def control_ok_push)
next
  case OpAdvanceDrainEpoch
  then show ?thesis
    using assms(1) by (auto simp: advance_drain_epoch_def intro: control_ok_unmoved)
next
  case OpRecordStopHookBlock
  then show ?thesis
    using assms(1) by (auto simp: record_stop_hook_block_def Let_def intro: control_ok_unmoved)
qed (use assms(1,2) in \<open>simp_all add: control_ok_interactions control_ok_step_ops
    control_ok_phases control_ok_cancellation control_ok_finalization control_ok_finish_step
    control_ok_endings cancel_interaction_def\<close>)

lemma engine_reachable_ok: "engine_reachable r \<Longrightarrow> control_ok r"
proof (induction rule: engine_reachable.induct)
  case (operated r op now)
  then show ?case using run_reachable_ok engine_run_reachable control_ok_exec by blast
next
  case (drained r)
  then show ?case by (auto simp: drain_events_def intro: control_ok_unmoved)
next
  case (restored r evs)
  then show ?case by (auto simp: restore_events_def intro: control_ok_unmoved)
qed simp

end
