(* ===== verification/Run_Lifecycle.thy ===== *)
theory Run_Lifecycle
  imports Run_Control
begin

text \<open>
  The abstract life of a run and what its operations promise about it.

  \<^item> \<open>lifecycle\<close>: the moves between the phases a client distinguishes, as a step relation; every
    operation of a driven run is one of its moves or keeps the phase.
  \<^item> \<open>announced\<close>: the end of a run is announced by one event, when it happens and never again.
\<close>

section \<open>Phases\<close>

datatype run_phase = Fresh | Working | Stopping | Ending | Over

fun phase_of :: "run_status \<Rightarrow> run_phase" where
  "phase_of RsCreated = Fresh"
| "phase_of RsCancellingStep = Stopping"
| "phase_of RsFinalizingStep = Stopping"
| "phase_of RsTerminating = Ending"
| "phase_of RsCompleted = Over"
| "phase_of RsFailed = Over"
| "phase_of RsTerminated = Over"
| "phase_of _ = Working"

inductive lifecycle :: "run_phase \<Rightarrow> run_phase \<Rightarrow> bool" where
  start: "lifecycle Fresh Working"
| stop: "lifecycle Working Stopping"
| resume: "lifecycle Stopping Working"
| finish: "lifecycle Working Over"
| abort: "p \<noteq> Over \<Longrightarrow> lifecycle p Over"
| end_requested: "p \<noteq> Over \<Longrightarrow> p \<noteq> Ending \<Longrightarrow> lifecycle p Ending"

inductive_cases lifecycle_from_over: "lifecycle Over p"
inductive_cases lifecycle_from_ending: "lifecycle Ending p"
inductive_simps lifecycle_iff: "lifecycle p q"

lemma phase_over [simp]: "phase_of s = Over \<longleftrightarrow> rs_is_terminal s"
  by (cases s) simp_all

lemma phase_working [simp]: "phase_of s = Working \<longleftrightarrow> s \<in> working"
  by (cases s) (simp_all add: working_def)

lemma phase_fresh [simp]: "phase_of s = Fresh \<longleftrightarrow> s = RsCreated"
  by (cases s) simp_all

definition moves :: "'j run \<Rightarrow> 'j run \<Rightarrow> bool" where
  "moves r r' \<longleftrightarrow> phase_of (r_status r') = phase_of (r_status r) \<or>
     lifecycle (phase_of (r_status r)) (phase_of (r_status r'))"

lemma moves_same: "r_status r' = r_status r \<Longrightarrow> moves r r'"
  by (simp add: moves_def)

lemma moves_transition:
  assumes "run_ok r" "t \<in> engine_transitions \<or>
      t \<in> {StartDraining, DrainInputs, DrainInternalContinuation, DrainEmptyAndSealed}"
  shows "moves r (snd (do_transition now t r))"
proof (cases rule: do_transition_cases [of now t r])
  case (plain n)
  have "phase_of (r_status r) \<in> {Working, Fresh}" "phase_of n \<in> {Working, Over}"
    using next_status_working(1,2) [OF plain(2) assms(2)] by auto
  then show ?thesis
    using plain(1) lifecycle.intros by (fastforce simp: moves_def simp del: phase_over phase_working phase_fresh)
next
  case enter
  then show ?thesis
    using reflection_allowed_status(1) [OF enter(3)] by (auto simp: moves_def)
next
  case (leave n)
  have "reflection_allowed n (r_intent r)"
    using assms(1) leave(3,4) by (auto simp: run_ok_def reflection_ok_def)
  then have "n \<in> working"
    using reflection_allowed_status(1) [of n "r_intent r"] by (auto simp: working_def)
  then show ?thesis
    using leave(1,3) by (simp add: moves_def)
qed (simp add: moves_same)

lemma moves_command:
  assumes "n \<in> {RsFailed, RsAwaitingUser, RsExecutingTools} \<or>
      n = RsTerminating \<and> r_status r \<noteq> RsTerminating"
  shows "moves r (snd (set_status_by_command now n w r))"
proof (cases rule: set_status_cases [of now n w r])
  case rejected
  then show ?thesis by (simp add: moves_same)
next
  case moved
  have "\<not> rs_is_terminal (r_status r)"
    using moved(2) by (rule command_not_terminal)
  moreover have "n \<in> {RsAwaitingUser, RsExecutingTools} \<Longrightarrow> r_status r \<in> working"
    using moved(2) by (auto simp: command_status_allowed_def working_def split: if_splits)
  moreover have "phase_of (r_status r) = Ending \<Longrightarrow> r_status r = RsTerminating"
    by (cases "r_status r") simp_all
  ultimately show ?thesis
    using assms moved(1) by (auto simp: moves_def lifecycle_iff working_def)
qed

lemma moves_then:
  assumes "moves r (snd m)" "\<And>x s. r_status (snd (k x s)) = r_status s"
  shows "moves r (snd (run_then m k))"
  using assms by (cases m; cases "fst m") (auto simp: run_then_def moves_def)

lemma moves_from: "moves s u \<Longrightarrow> r_status r = r_status s \<Longrightarrow> moves r u"
  by (simp add: moves_def)

lemma moves_interactions:
  "moves r (snd (begin_interaction now i c r))" "moves r (snd (take_interaction now i r))"
  "moves r (snd (complete_interaction now i r))"
proof -
  show "moves r (snd (begin_interaction now i c r))"
    unfolding begin_interaction_def
    by (auto split: option.split intro: moves_same intro!: moves_then moves_from [OF moves_command])
  have "resume_status k = RsExecutingTools" for k by (cases k) simp_all
  then show take: "moves r (snd (take_interaction now i r))"
    unfolding take_interaction_def
    by (auto split: option.split intro: moves_same intro!: moves_then moves_from [OF moves_command])
  show "moves r (snd (complete_interaction now i r))"
    unfolding complete_interaction_def by (rule moves_then [OF take]) simp
qed

lemma moves_phases:
  assumes "run_ok r"
  shows "moves r (snd (start_draining t now r))"
    "moves r (snd (begin_manual_compaction now r))"
    "moves r (snd (begin_manual_reflection now r))"
    "moves r (snd (apply_drain_decision now d text r))"
proof -
  have same: "run_ok (r\<lparr>r_started_at := h, r_phase_started_at := p\<rparr>)"
    "run_ok (r\<lparr>r_pending_completion_result := c\<rparr>)" for h p c
    by (rule run_ok_quiet [OF assms], simp)+
  show "moves r (snd (start_draining t now r))"
    unfolding start_draining_def
    by (rule moves_then, rule moves_from [OF moves_transition [OF same(1)]]) simp_all
  show "moves r (snd (begin_manual_compaction now r))"
    "moves r (snd (begin_manual_reflection now r))"
    unfolding begin_manual_compaction_def begin_manual_reflection_def
    by (auto simp: engine_transitions_def intro: moves_same
        intro!: moves_then moves_transition [OF assms])
  show "moves r (snd (apply_drain_decision now d text r))"
    unfolding apply_drain_decision_def Let_def
    by (cases d) (auto split: option.split
        intro!: moves_then moves_from [OF moves_transition] assms same)
qed

lemma moves_control:
  assumes "control_ok r" "run_ok r"
  shows "moves r (snd (request_step_cancellation now i r))"
    "moves r (snd (begin_step_finalization now i r))"
    "moves r (snd (finish_step_cancellation now i st r))"
proof -
  show "moves r (snd (request_step_cancellation now i r))"
  proof (cases rule: request_step_cancellation_cases [of now i r])
    case (refused x)
    then show ?thesis by (simp add: moves_same)
  next
    case (accepted s)
    have "r_steps r \<noteq> []"
      using find_step_mem [OF accepted(1)] by auto
    then have "r_status r \<noteq> RsCreated"
      using assms(1) by (auto simp: control_ok_def steps_agree_def)
    then have "phase_of (r_status r) \<in> {Working, Stopping}"
      using accepted(4,5) by (cases "r_status r") auto
    then show ?thesis unfolding accepted(6) by (auto simp: moves_def lifecycle.stop simp del: phase_working)
  qed
  show "moves r (snd (begin_step_finalization now i r))"
  proof (cases "active_step_mut i r")
    case (Ok s)
    then show ?thesis
      by (cases "r_status r = RsCancellingStep") (simp_all add: begin_step_finalization_def
          set_status_by_command_def run_then_def moves_def command_status_allowed_def
          del: active_step_mut_Ok)
  qed (simp_all add: begin_step_finalization_def moves_def)
  show "moves r (snd (finish_step_cancellation now i st r))"
  proof (cases "active_step_mut i r")
    case (Ok s)
    then show ?thesis
      using lifecycle.resume
      by (cases "r_status r = RsFinalizingStep") (simp_all add: finish_step_cancellation_def
          finish_controlled_step_def Let_def run_then_def transition_step_cancelled moves_def
          del: active_step_mut_Ok phase_working)
  qed (simp_all add: finish_step_cancellation_def finish_controlled_step_def moves_def)
qed

lemma moves_endings:
  "moves r (snd (request_termination now reason deadline r))"
  "moves r (snd (finish_termination now r))"
  "moves r (snd (run_fail now m r))"
proof -
  show "moves r (snd (request_termination now reason deadline r))"
  proof (cases "rs_is_terminal (r_status r) \<or> r_status r = RsTerminating")
    case False
    then show ?thesis
      by (cases "r_status r") (auto simp: request_termination_def set_status_by_command_def
          command_status_allowed_def moves_def lifecycle_iff)
  qed (auto simp: request_termination_def moves_def)
  show "moves r (snd (finish_termination now r))"
    by (cases "r_status r = RsTerminating")
      (auto simp: finish_termination_def transition_termination_finished run_then_def moves_def
        lifecycle_iff split: option.split)
  show "moves r (snd (run_fail now m r))"
    unfolding run_fail_def by (auto intro: moves_same intro!: moves_then moves_command)
qed

lemma quiet_status: "quiet r r' \<Longrightarrow> r_status r' = r_status r"
  by (simp add: quiet_def)

lemma status_step_ops [simp]:
  "r_status (snd (begin_step_with_id i r)) = r_status r"
  "r_status (snd (record_model_invocation i v r)) = r_status r"
  "r_status (snd (add_tool_call i call r)) = r_status r"
  "r_status (snd (advance_tool_call i cid st r)) = r_status r"
  "r_status (snd (complete_step i r)) = r_status r"
  by (rule quiet_status, rule quiet_step_ops)+

lemma moves_exec:
  assumes "control_ok r" "run_ok r" "engine_op r op"
  shows "moves r (snd (run_exec now op r))"
proof (cases op)
  case (OpTransition t)
  then show ?thesis using assms(2,3) by (auto intro: moves_transition)
qed (simp_all add: moves_interactions moves_phases moves_control moves_endings assms(1,2)
    moves_same cancel_interaction_def mark_stuck_def advance_drain_epoch_def
    record_stop_hook_block_def Let_def)

section \<open>Announcing the end\<close>

fun is_ending :: "runtime_lifecycle_event \<Rightarrow> bool" where
  "is_ending (EvCompleted _ _ _ _) = True"
| "is_ending (EvFailed _ _ _) = True"
| "is_ending (EvTerminated _ _ _) = True"
| "is_ending _ = False"

definition endings :: "'j run \<Rightarrow> nat" where
  "endings r = length (filter is_ending (r_events r))"

definition announced :: "'j run \<Rightarrow> bool" where
  "announced r \<longleftrightarrow> endings r = (if rs_is_terminal (r_status r) then 1 else 0)"

lemma endings_simps [simp]:
  "endings (push_event ev r) = endings r + (if is_ending (ev (r_id r) (r_parent_id r)) then 1 else 0)"
  "endings (apply_state_transition now n w r) = endings r"
  by (simp_all add: endings_def apply_state_transition_def Let_def)

lemma announced_same:
  "announced r \<Longrightarrow> r_events r' = r_events r \<Longrightarrow> r_status r' = r_status r \<Longrightarrow> announced r'"
  by (simp add: announced_def endings_def)

lemma announced_push:
  "announced r \<Longrightarrow> (\<And>i p. \<not> is_ending (ev i p)) \<Longrightarrow> announced (push_event ev r)"
  by (simp add: announced_def)

lemmas announced_then = run_then_keeps [where P = announced]

lemma next_status_not_over:
  assumes "next_status b s t = Some n" "t \<notin> {DrainEmptyAndSealed, TerminationFinished}"
  shows "\<not> rs_is_terminal n"
  using assms by (cases s; cases t; auto simp: next_status_def split: if_splits)

lemma announced_move:
  "announced r \<Longrightarrow> \<not> rs_is_terminal (r_status r) \<Longrightarrow> \<not> rs_is_terminal n \<Longrightarrow>
   announced (apply_state_transition now n w r)"
  by (simp add: announced_def)

lemma announced_transition:
  assumes "announced r" "run_ok r" "t \<notin> {DrainEmptyAndSealed, TerminationFinished}"
  shows "announced (snd (do_transition now t r))"
proof -
  have ret: "announced (r\<lparr>r_reflection_return := g\<rparr>)" for g
    by (rule announced_same [OF assms(1)]) simp_all
  show ?thesis
  proof (cases rule: do_transition_cases [of now t r])
    case (plain n)
    then show ?thesis
      using assms(1,3) next_status_not_over [OF plain(2)] next_not_terminal [OF plain(2)]
      by (simp add: announced_move)
  next
    case enter
    have "\<not> rs_is_terminal (r_status r)"
      using reflection_allowed_status(1) [OF enter(3)] by auto
    then show ?thesis
      using enter(1) by (simp add: announced_move ret)
  next
    case (leave n)
    have "reflection_allowed n (r_intent r)"
      using assms(2) leave(3,4) by (auto simp: run_ok_def reflection_ok_def)
    then have "\<not> rs_is_terminal n"
      using reflection_allowed_status(1) by fastforce
    then show ?thesis
      using leave(1,3) by (simp add: announced_move ret)
  qed (use assms(1) in simp)
qed

lemma announced_command:
  assumes "announced r" "\<not> rs_is_terminal n"
  shows "announced (snd (set_status_by_command now n w r))"
proof (cases rule: set_status_cases [of now n w r])
  case rejected
  then show ?thesis using assms(1) by simp
next
  case moved
  then show ?thesis
    using assms command_not_terminal [OF moved(2)] by (simp add: announced_move)
qed

lemma announced_interactions:
  assumes "announced r"
  shows "announced (snd (begin_interaction now i c r))" "announced (snd (take_interaction now i r))"
    "announced (snd (complete_interaction now i r))"
proof -
  have pend: "announced (r\<lparr>r_pending_interaction := a\<rparr>)" for a
    by (rule announced_same [OF assms]) simp_all
  have resume: "resume_status k = RsExecutingTools" for k by (cases k) simp_all
  show "announced (snd (begin_interaction now i c r))"
    unfolding begin_interaction_def
    by (auto simp: assms pend split: option.split intro!: announced_then announced_command announced_push)
  show take: "announced (snd (take_interaction now i r))"
    unfolding take_interaction_def
    by (auto simp: assms pend resume split: option.split intro!: announced_then announced_command)
  show "announced (snd (complete_interaction now i r))"
    unfolding complete_interaction_def by (rule announced_then [OF take]) (simp add: announced_push)
qed

lemma announced_step_ops:
  assumes "announced r"
  shows "announced (snd (begin_step_with_id i r))"
    "announced (snd (record_model_invocation i v r))"
    "announced (snd (add_tool_call i call r))"
    "announced (snd (advance_tool_call i cid st r))"
    "announced (snd (complete_step i r))"
    "announced (snd (mark_stuck m r))"
proof -
  have update: "announced (update_step i f r)" "announced (set_step_status i x r)"
    "announced (r\<lparr>r_steps := ss\<rparr>)" for f x ss
    by (rule announced_same [OF assms]; simp)+
  show "announced (snd (begin_step_with_id i r))"
    "announced (snd (complete_step i r))" "announced (snd (mark_stuck m r))"
    by (auto simp: begin_step_with_id_def complete_step_def mark_stuck_def assms update
        split: option.split intro!: announced_push)
  show "announced (snd (record_model_invocation i v r))"
    "announced (snd (add_tool_call i call r))"
    "announced (snd (advance_tool_call i cid st r))"
    unfolding record_model_invocation_def add_tool_call_def advance_tool_call_def
    by (rule on_working_step_keeps [where P = announced]; auto simp: assms update split: option.split)+
qed

lemma announced_phases:
  assumes "announced r" "run_ok r"
  shows "announced (snd (start_draining t now r))"
    "announced (snd (begin_manual_compaction now r))"
    "announced (snd (begin_manual_reflection now r))"
    "announced (snd (apply_drain_decision now d text r))"
proof -
  have same: "run_ok (r\<lparr>r_started_at := h, r_phase_started_at := p\<rparr>)"
    "run_ok (r\<lparr>r_pending_completion_result := c\<rparr>)" for h p c
    by (rule run_ok_quiet [OF assms(2)], simp)+
  have keep: "announced (r\<lparr>r_started_at := h, r_phase_started_at := p\<rparr>)"
    "announced (r\<lparr>r_pending_completion_result := c\<rparr>)" for h p c
    by (rule announced_same [OF assms(1)]; simp)+
  show "announced (snd (start_draining t now r))"
    unfolding start_draining_def
    by (intro announced_then announced_transition keep same) (simp_all add: announced_push)
  show "announced (snd (begin_manual_compaction now r))"
    "announced (snd (begin_manual_reflection now r))"
    unfolding begin_manual_compaction_def begin_manual_reflection_def
    by (auto simp: assms intro!: announced_then announced_transition)
  have seal: "announced (snd (run_then (do_transition now DrainEmptyAndSealed s)
      (\<lambda>_ r. (Ok (), push_event (\<lambda>i p. EvCompleted i p x (r_user_cancelled_step r)) r))))"
    if "announced s" for x and s :: "'a run"
    using that
    by (cases "r_status s"; simp add: run_then_def do_transition_def next_status_def
        settle_transition_def announced_def)
  show "announced (snd (apply_drain_decision now d text r))"
    unfolding apply_drain_decision_def Let_def
    by (cases d) (auto simp: assms keep same split: option.split
        intro!: seal announced_then announced_transition)
qed

lemma announced_control:
  assumes "announced r"
  shows "announced (snd (request_step_cancellation now i r))"
    "announced (snd (begin_step_finalization now i r))"
    "announced (snd (finish_step_cancellation now i st r))"
proof -
  have step: "announced s \<Longrightarrow> announced (set_step_status i x s)" for x and s :: "'a run"
    by (erule announced_same) simp_all
  have pend: "announced (r\<lparr>r_pending_interaction := a\<rparr>)" "announced (s\<lparr>r_user_cancelled_step := b\<rparr>)"
    if "announced s" for a b and s :: "'a run"
    using that assms by (auto intro: announced_same)
  show "announced (snd (request_step_cancellation now i r))"
    by (cases rule: request_step_cancellation_cases [of now i r])
      (simp_all add: assms announced_push announced_move step pend [OF assms])
  show "announced (snd (begin_step_finalization now i r))"
  proof (cases "active_step_mut i r")
    case (Ok s)
    have "announced (snd (run_then (set_status_by_command now RsFinalizingStep
        WhyStepFinalizationStarted (set_step_status i SsFinalizing r))
        (\<lambda>_ r. (Ok (), push_event (\<lambda>j p. EvStepFinalizationStarted j p i) r))))"
      by (intro announced_then announced_command step assms) (simp_all add: announced_push)
    with Ok show ?thesis
      by (simp add: begin_step_finalization_def assms del: active_step_mut_Ok)
  qed (simp_all add: begin_step_finalization_def assms)
  have finish: "announced (snd (run_then (do_transition now StepCancelled s) k))"
    if "announced s" "\<And>x u. announced u \<Longrightarrow> announced (snd (k x u))"
    for k :: "run_status \<Rightarrow> 'a run \<Rightarrow> ('a, unit) run_result" and s
    using that by (cases "r_status s = RsFinalizingStep")
      (simp_all add: transition_step_cancelled run_then_def announced_move)
  show "announced (snd (finish_step_cancellation now i st r))"
  proof (cases "active_step_mut i r")
    case (Ok s)
    then show ?thesis
      by (simp add: finish_step_cancellation_def finish_controlled_step_def Let_def assms
          del: active_step_mut_Ok)
        (auto intro!: finish announced_push step pend assms)
  qed (simp_all add: finish_step_cancellation_def finish_controlled_step_def assms)
qed

lemma announced_endings:
  assumes "announced r"
  shows "announced (snd (request_termination now reason deadline r))"
    "announced (snd (finish_termination now r))"
    "announced (snd (run_fail now m r))"
proof -
  have close: "endings (close_active_steps x s) = endings s" for x and s :: "'a run"
    by (simp add: endings_def)
  have "endings (r\<lparr>r_termination := a, r_pending_interaction := b\<rparr>) = endings r" for a b
    by (simp add: endings_def)
  then show "announced (snd (request_termination now reason deadline r))"
    using assms by (simp add: request_termination_def set_status_by_command_def
        command_status_allowed_def announced_def)
  show "announced (snd (finish_termination now r))"
    using assms by (cases "r_status r = RsTerminating")
      (auto simp: finish_termination_def transition_termination_finished run_then_def announced_def
        close split: option.split)
  show "announced (snd (run_fail now m r))"
    using assms by (simp add: run_fail_def run_then_def set_status_by_command_def
        command_status_allowed_def announced_def close)
qed

lemma announced_exec:
  assumes "announced r" "run_ok r" "engine_op r op"
  shows "announced (snd (run_exec now op r))"
proof (cases op)
  case (OpTransition t)
  then show ?thesis
    using assms by (auto simp: engine_transitions_def intro!: announced_transition)
next
  case OpAdvanceDrainEpoch
  then show ?thesis using assms(1) by (simp add: advance_drain_epoch_def announced_def endings_def)
next
  case OpRecordStopHookBlock
  then show ?thesis
    using assms(1) by (simp add: record_stop_hook_block_def Let_def announced_def endings_def)
qed (use assms(1,2) in \<open>simp_all add: announced_interactions announced_step_ops announced_phases
    announced_control announced_endings cancel_interaction_def\<close>)

end
