(* ===== verification/Run_Records.thy ===== *)
theory Run_Records
  imports Run_Lifecycle
begin

text \<open>
  Three more promises of single operations: a step that is done has its model invocation and no open
  tool call (\<open>done_ok\<close>), an operation that reports an error leaves the record of the run alone
  (\<open>same_record\<close>), and no operation but the recording of a block moves the count of stop-hook blocks
  (\<open>same_hook\<close>).
\<close>

section \<open>Finished steps\<close>

definition done_ok :: "'j run \<Rightarrow> bool" where
  "done_ok r \<longleftrightarrow> (\<forall>s \<in> set (r_steps r). st_status s = SsDone \<longrightarrow> step_is_complete s)"

lemma done_ok_same: "done_ok r \<Longrightarrow> r_steps r' = r_steps r \<Longrightarrow> done_ok r'"
  by (simp add: done_ok_def)

lemma done_ok_push [simp]: "done_ok (push_event ev r) \<longleftrightarrow> done_ok r"
  by (simp add: done_ok_def)

lemmas done_ok_then = run_then_keeps [where P = done_ok]

lemma steps_transition [simp]: "r_steps (snd (do_transition now t r)) = r_steps r"
  by (cases rule: do_transition_cases [of now t r]) simp_all

lemma steps_command [simp]: "r_steps (snd (set_status_by_command now n w r)) = r_steps r"
  by (cases rule: set_status_cases [of now n w r]) simp_all

lemma done_ok_transition: "done_ok r \<Longrightarrow> done_ok (snd (do_transition now t r))"
  by (erule done_ok_same) simp

lemma done_ok_command: "done_ok r \<Longrightarrow> done_ok (snd (set_status_by_command now n w r))"
  by (erule done_ok_same) simp

lemma done_ok_update_step:
  assumes "done_ok r" "find_step i r = Some s" "st_status (f s) = SsDone \<Longrightarrow> step_is_complete (f s)"
  shows "done_ok (update_step i f r)"
  using set_update_first(1) [OF assms(2) [unfolded find_step_def], of f] assms(1,3)
  by (auto simp: done_ok_def)

lemma done_ok_set_status:
  assumes "done_ok r" "find_step i r = Some s" "x = SsDone \<Longrightarrow> step_is_complete s"
  shows "done_ok (set_step_status i x r)"
  unfolding set_step_status_def
  by (rule done_ok_update_step [OF assms(1,2)]) (use assms(3) in \<open>simp add: step_is_complete_def\<close>)

lemma done_ok_close: "ss_closed x \<Longrightarrow> x \<noteq> SsDone \<Longrightarrow> done_ok r \<Longrightarrow> done_ok (close_active_steps x r)"
  by (auto simp: done_ok_def close_active_steps_def)

lemma done_ok_step_ops:
  assumes "done_ok r"
  shows "done_ok (snd (begin_step_with_id i r))"
    "done_ok (snd (record_model_invocation i v r))"
    "done_ok (snd (add_tool_call i call r))"
    "done_ok (snd (advance_tool_call i cid st r))"
    "done_ok (snd (complete_step i r))"
proof -
  show "done_ok (snd (begin_step_with_id i r))"
    using assms by (auto simp: begin_step_with_id_def done_ok_def)
  show "done_ok (snd (record_model_invocation i v r))"
    unfolding record_model_invocation_def
    by (rule on_working_step_keeps [where P = done_ok]) (auto simp: assms intro!: done_ok_update_step)
  show "done_ok (snd (add_tool_call i call r))"
    unfolding add_tool_call_def
    by (rule on_working_step_keeps [where P = done_ok]) (auto simp: assms intro!: done_ok_update_step)
  show "done_ok (snd (advance_tool_call i cid st r))"
    unfolding advance_tool_call_def
    by (rule on_working_step_keeps [where P = done_ok])
      (auto simp: assms step_is_active_def split: option.split intro!: done_ok_update_step)
  show "done_ok (snd (complete_step i r))"
    by (auto simp: complete_step_def assms split: option.split intro!: done_ok_set_status)
qed

lemma done_ok_other_ops:
  assumes "done_ok r"
  shows "done_ok (snd (begin_interaction now q c r))" "done_ok (snd (take_interaction now q r))"
    "done_ok (snd (complete_interaction now q r))"
    "done_ok (snd (start_draining t now r))" "done_ok (snd (begin_manual_compaction now r))"
    "done_ok (snd (begin_manual_reflection now r))"
    "done_ok (snd (apply_drain_decision now d text r))"
    "done_ok (snd (request_termination now reason deadline r))"
    "done_ok (snd (finish_termination now r))" "done_ok (snd (run_fail now m r))"
proof -
  have same: "done_ok (r\<lparr>r_pending_interaction := a\<rparr>)"
    "done_ok (r\<lparr>r_pending_completion_result := b\<rparr>)"
    "done_ok (r\<lparr>r_started_at := h, r_phase_started_at := p\<rparr>)"
    "done_ok (r\<lparr>r_termination := e, r_pending_interaction := a\<rparr>)" for a b h p e
    by (rule done_ok_same [OF assms]; simp)+
  show "done_ok (snd (begin_interaction now q c r))"
    and take: "done_ok (snd (take_interaction now q r))"
    unfolding begin_interaction_def take_interaction_def
    by (auto simp: assms same split: option.split intro!: done_ok_then done_ok_command)
  show "done_ok (snd (complete_interaction now q r))"
    unfolding complete_interaction_def by (rule done_ok_then [OF take]) simp
  show "done_ok (snd (start_draining t now r))" "done_ok (snd (begin_manual_compaction now r))"
    "done_ok (snd (begin_manual_reflection now r))"
    unfolding start_draining_def begin_manual_compaction_def begin_manual_reflection_def
    by (auto simp: assms same intro!: done_ok_then done_ok_transition)
  show "done_ok (snd (apply_drain_decision now d text r))"
    unfolding apply_drain_decision_def Let_def
    by (cases d) (auto simp: assms same split: option.split intro!: done_ok_then done_ok_transition)
  show "done_ok (snd (request_termination now reason deadline r))"
    using assms same(4) by (simp add: request_termination_def set_status_by_command_def
        command_status_allowed_def done_ok_def)
  show "done_ok (snd (finish_termination now r))"
    unfolding finish_termination_def
    by (auto simp: assms split: option.split intro!: done_ok_then done_ok_transition done_ok_close)
  show "done_ok (snd (run_fail now m r))"
    unfolding run_fail_def
    by (auto simp: assms intro!: done_ok_then done_ok_command done_ok_close)
qed

lemma done_ok_control:
  assumes "done_ok r"
  shows "done_ok (snd (request_step_cancellation now i r))"
    "done_ok (snd (begin_step_finalization now i r))"
    "done_ok (snd (finish_step_cancellation now i st r))"
proof -
  have pend: "done_ok (r\<lparr>r_pending_interaction := a\<rparr>)" for a
    by (rule done_ok_same [OF assms]) simp
  show "done_ok (snd (request_step_cancellation now i r))"
  proof (cases rule: request_step_cancellation_cases [of now i r])
    case (accepted s)
    have "done_ok (set_step_status i SsCancelling (r\<lparr>r_pending_interaction := None\<rparr>))"
      by (rule done_ok_set_status [OF pend]) (simp_all add: accepted(1))
    then show ?thesis unfolding accepted(6) by (auto intro: done_ok_same)
  qed (simp add: assms)
  show "done_ok (snd (begin_step_finalization now i r))"
    unfolding begin_step_finalization_def
    by (auto simp: assms split: outcome.split
        intro!: done_ok_then done_ok_command done_ok_set_status)
  have cancelled: "done_ok s \<Longrightarrow> done_ok (s\<lparr>r_user_cancelled_step := b\<rparr>)" for b and s :: "'a run"
    by (erule done_ok_same) simp
  show "done_ok (snd (finish_step_cancellation now i st r))"
    unfolding finish_step_cancellation_def finish_controlled_step_def Let_def
    by (auto simp: assms split: outcome.split
        intro!: done_ok_then done_ok_transition done_ok_set_status cancelled)
qed

lemma done_ok_exec: "done_ok r \<Longrightarrow> done_ok (snd (run_exec now op r))"
  by (cases op)
    (auto simp: done_ok_step_ops done_ok_other_ops done_ok_control done_ok_transition
      cancel_interaction_def mark_stuck_def advance_drain_epoch_def record_stop_hook_block_def
      Let_def intro: done_ok_same)

lemma run_reachable_done: "run_reachable r \<Longrightarrow> done_ok r"
proof (induction rule: run_reachable.induct)
  case (created i spec parent policy)
  then show ?case by (simp add: done_ok_def run_new_def)
qed (auto simp: done_ok_exec drain_events_def restore_events_def intro: done_ok_same)

section \<open>Operations that fail\<close>

definition same_record :: "'j run \<Rightarrow> 'j run \<Rightarrow> bool" where
  "same_record r r' \<longleftrightarrow> r_id r' = r_id r \<and> r_spec r' = r_spec r \<and> r_parent_id r' = r_parent_id r \<and>
     r_status r' = r_status r \<and> r_reflection_return r' = r_reflection_return r \<and>
     r_termination r' = r_termination r \<and> r_next_drain_epoch r' = r_next_drain_epoch r \<and>
     r_stop_hook_block_count r' = r_stop_hook_block_count r \<and>
     r_timing_revision r' = r_timing_revision r \<and> r_events r' = r_events r"

lemma same_record_refl [simp]: "same_record r r"
  by (simp add: same_record_def)

lemma run_then_Err:
  "run_then m k = (Err e, r') \<longleftrightarrow>
     m = (Err e, r') \<or> (\<exists>x s. m = (Ok x, s) \<and> k x s = (Err e, r'))"
  by (cases m; cases "fst m") (auto simp: run_then_def)

lemma do_transition_Err: "do_transition now t r = (Err e, r') \<Longrightarrow> r' = r"
  by (cases rule: do_transition_cases [of now t r]) auto

lemma set_status_Err: "set_status_by_command now n w r = (Err e, r') \<Longrightarrow> r' = r"
  by (cases rule: set_status_cases [of now n w r]) auto

lemma on_working_step_Err:
  assumes "on_working_step i k r = (Err e, r')" "\<And>s. k s = (Err e, r') \<Longrightarrow> r' = r"
  shows "r' = r"
  using assms by (auto simp: on_working_step_def split: if_splits outcome.splits)

lemma step_ops_Err:
  "record_model_invocation i v r = (Err e, r') \<Longrightarrow> r' = r"
  "add_tool_call i call r = (Err e, r') \<Longrightarrow> r' = r"
  "advance_tool_call i cid st r = (Err e, r') \<Longrightarrow> r' = r"
  unfolding record_model_invocation_def add_tool_call_def advance_tool_call_def
  by (erule on_working_step_Err; auto split: if_splits option.splits)+

lemma interaction_Err:
  assumes "begin_interaction now q c r = (Err e, r')"
  shows "r' = r"
proof -
  have "command_status_allowed (r_status r) RsAwaitingUser" if "interaction_allowed c (r_status r)"
    using that by (cases c; cases "r_status r")
      (simp_all add: interaction_allowed_def command_status_allowed_def)
  then show ?thesis
    using assms by (auto simp: begin_interaction_def run_then_Err set_status_by_command_def
        split: if_splits option.splits)
qed

lemma take_interaction_Err: "take_interaction now q r = (Err e, r') \<Longrightarrow> same_record r r'"
  by (auto simp: take_interaction_def run_then_Err same_record_def dest!: set_status_Err
      split: if_splits option.splits)

lemma phases_Err:
  "start_draining t now r = (Err e, r') \<Longrightarrow> same_record r r'"
  "begin_manual_compaction now r = (Err e, r') \<Longrightarrow> same_record r r'"
  "begin_manual_reflection now r = (Err e, r') \<Longrightarrow> same_record r r'"
  "apply_drain_decision now d text r = (Err e, r') \<Longrightarrow> same_record r r'"
  by (auto simp: start_draining_def begin_manual_compaction_def begin_manual_reflection_def
      apply_drain_decision_def Let_def run_then_Err same_record_def
      dest!: do_transition_Err split: if_splits option.splits)

lemma set_step_status_rest [simp]:
  "r_next_drain_epoch (set_step_status i x r) = r_next_drain_epoch r"
  "r_stop_hook_block_count (set_step_status i x r) = r_stop_hook_block_count r"
  by (simp_all add: set_step_status_def update_step_def)

lemma finalization_Err:
  assumes "begin_step_finalization now i r = (Err e, r')"
  shows "same_record r r'"
proof (cases "active_step_mut i r")
  case (Ok s)
  then show ?thesis
    using assms by (auto simp: begin_step_finalization_def run_then_Err same_record_def
        simp del: active_step_mut_Ok dest!: set_status_Err split: if_splits)
qed (use assms in \<open>simp_all add: begin_step_finalization_def\<close>)

lemma finish_step_Err:
  assumes "finish_step_cancellation now i st r = (Err e, r')"
  shows "same_record r r'"
proof (cases "active_step_mut i r")
  case (Ok s)
  then show ?thesis
    using assms by (auto simp: finish_step_cancellation_def finish_controlled_step_def Let_def
        run_then_Err same_record_def simp del: active_step_mut_Ok dest!: do_transition_Err
        split: if_splits)
qed (use assms in \<open>auto simp: finish_step_cancellation_def finish_controlled_step_def
    split: if_splits\<close>)

lemma endings_Err:
  "finish_termination now r = (Err e, r') \<Longrightarrow> r' = r"
  "run_fail now m r = (Err e, r') \<Longrightarrow> r' = r"
  by (auto simp: finish_termination_def run_fail_def run_then_Err
      dest!: do_transition_Err set_status_Err split: if_splits option.splits prod.splits)

lemma simple_ops_Err:
  "begin_step_with_id i r = (Err e, r') \<Longrightarrow> r' = r"
  "complete_step i r = (Err e, r') \<Longrightarrow> r' = r"
  "mark_stuck m r = (Err e, r') \<Longrightarrow> r' = r"
  by (auto simp: begin_step_with_id_def complete_step_def mark_stuck_def
      split: if_splits option.splits)

lemma apfst_Err: "apfst (map_ok f) m = (Err e, r') \<longleftrightarrow> m = (Err e, r')"
  by (cases m) auto

lemma exec_Err:
  assumes "run_exec now op r = (Err e, r')"
  shows "same_record r r'"
proof (cases op)
  case (OpCompleteInteraction q)
  then show ?thesis
    using assms by (auto simp: apfst_Err complete_interaction_def run_then_Err
        dest: take_interaction_Err)
next
  case (OpRecordStopHookBlock)
  then show ?thesis using assms by (cases "record_stop_hook_block r") simp
next
  case (OpRequestStepCancellation i)
  then show ?thesis using assms by (cases "request_step_cancellation now i r") simp
next
  case (OpRequestTermination x d)
  then show ?thesis using assms by (cases "request_termination now x d r") simp
qed (use assms in \<open>auto simp: apfst_Err cancel_interaction_def
    dest: do_transition_Err step_ops_Err interaction_Err take_interaction_Err phases_Err
      finalization_Err finish_step_Err endings_Err simple_ops_Err\<close>)

section \<open>The count of stop-hook blocks\<close>

text \<open>Only a recorded block moves the count, and nothing moves the policy.\<close>

definition same_hook :: "'j run \<Rightarrow> 'j run \<Rightarrow> bool" where
  "same_hook r s \<longleftrightarrow> r_stop_hook_policy s = r_stop_hook_policy r \<and>
     r_stop_hook_block_count s = r_stop_hook_block_count r"

lemma same_hook_refl [simp, intro]: "same_hook r r"
  by (simp add: same_hook_def)

lemma same_hook_updates:
  assumes "same_hook r s"
  shows "same_hook r (s\<lparr>r_pending_interaction := a\<rparr>)" "same_hook r (s\<lparr>r_termination := b\<rparr>)"
    "same_hook r (s\<lparr>r_pending_completion_result := c\<rparr>)" "same_hook r (s\<lparr>r_next_drain_epoch := d\<rparr>)"
    "same_hook r (s\<lparr>r_user_cancelled_step := f\<rparr>)" "same_hook r (s\<lparr>r_steps := g\<rparr>)"
    "same_hook r (s\<lparr>r_started_at := h\<rparr>)" "same_hook r (s\<lparr>r_phase_started_at := i\<rparr>)"
    "same_hook r (s\<lparr>r_reflection_return := e\<rparr>)"
    "same_hook r (update_step j k s)" "same_hook r (set_step_status j l s)"
    "same_hook r (close_active_steps l s)" "same_hook r (push_event ev s)"
    "same_hook r (apply_state_transition now n w s)"
  using assms by (simp_all add: same_hook_def update_step_def set_step_status_def close_active_steps_def)

lemma same_hook_transition: "same_hook r s \<Longrightarrow> same_hook r (snd (do_transition now t s))"
  by (cases rule: do_transition_cases [of now t s]) (auto intro!: same_hook_updates)

lemma same_hook_command: "same_hook r s \<Longrightarrow> same_hook r (snd (set_status_by_command now n w s))"
  by (cases rule: set_status_cases [of now n w s]) (auto intro!: same_hook_updates)

lemma same_hook_then:
  "same_hook r (snd m) \<Longrightarrow> (\<And>x s. same_hook r s \<Longrightarrow> same_hook r (snd (k x s))) \<Longrightarrow>
   same_hook r (snd (run_then m k))"
  by (rule run_then_keeps) auto

lemmas same_hook_intros = same_hook_then same_hook_transition same_hook_command same_hook_updates

lemma same_hook_work:
  "same_hook r (snd (begin_interaction now q c r))" "same_hook r (snd (take_interaction now q r))"
  "same_hook r (snd (begin_step_with_id i r))" "same_hook r (snd (record_model_invocation i v r))"
  "same_hook r (snd (add_tool_call i call r))" "same_hook r (snd (advance_tool_call i cid st r))"
  "same_hook r (snd (complete_step i r))" "same_hook r (snd (mark_stuck m r))"
  by (auto simp: begin_interaction_def take_interaction_def begin_step_with_id_def
      record_model_invocation_def add_tool_call_def advance_tool_call_def complete_step_def
      mark_stuck_def on_working_step_def split: option.split outcome.split intro!: same_hook_intros)

lemma same_hook_phases:
  "same_hook r (snd (start_draining t now r))" "same_hook r (snd (begin_manual_compaction now r))"
  "same_hook r (snd (begin_manual_reflection now r))" "same_hook r (advance_drain_epoch r)"
  "same_hook r (snd (apply_drain_decision now d text r))"
  by (auto simp: start_draining_def begin_manual_compaction_def begin_manual_reflection_def
      advance_drain_epoch_def apply_drain_decision_def Let_def split: option.split
      intro!: same_hook_intros)

lemma same_hook_control:
  "same_hook r (snd (request_step_cancellation now i r))"
  "same_hook r (snd (begin_step_finalization now i r))"
  "same_hook r (snd (finish_step_cancellation now i st r))"
  "same_hook r (snd (finish_termination now r))" "same_hook r (snd (run_fail now m r))"
proof -
  show "same_hook r (snd (request_step_cancellation now i r))"
    by (cases rule: request_step_cancellation_cases [of now i r]) (auto intro!: same_hook_updates)
qed (auto simp: begin_step_finalization_def finish_step_cancellation_def finish_controlled_step_def
    finish_termination_def run_fail_def Let_def split: option.split outcome.split
    intro!: same_hook_intros)

lemma same_hook_request_termination: "same_hook r (snd (request_termination now x d r))"
  by (simp add: request_termination_def set_status_by_command_def command_status_allowed_def
      same_hook_updates)

lemma same_hook_exec:
  assumes "op \<noteq> OpRecordStopHookBlock"
  shows "same_hook r (snd (run_exec now op r))"
proof (cases op)
  case (OpCompleteInteraction q)
  have "same_hook r (snd (complete_interaction now q r))"
    unfolding complete_interaction_def
    by (rule same_hook_then [OF same_hook_work(2)]) (auto intro!: same_hook_updates)
  then show ?thesis using OpCompleteInteraction by simp
qed (use assms in \<open>simp_all add: cancel_interaction_def same_hook_work same_hook_phases
    same_hook_control same_hook_request_termination same_hook_transition\<close>)

end
