(* ===== verification/Run_Properties.thy ===== *)
theory Run_Properties
  imports Run_Records
begin

text \<open>
  The properties of the agent run and of its specification, with the applications that show their
  hypotheses can hold. The driven runs of the witnesses are built by scripts of operations.
\<close>

section \<open>Scripts\<close>

text \<open>A sequence of operations that keeps to the discipline of the engine.\<close>

fun engine_script :: "(instant \<times> 'j run_op) list \<Rightarrow> 'j run \<Rightarrow> bool" where
  "engine_script [] r \<longleftrightarrow> True"
| "engine_script (o1 # os) r \<longleftrightarrow> engine_op r (snd o1) \<and> engine_script os (run_step_at o1 r)"

lemma script_reachable:
  "engine_reachable r \<Longrightarrow> engine_script os r \<Longrightarrow> engine_reachable (fold run_step_at os r)"
  by (induction os arbitrary: r) (auto simp: run_step_at_def intro: engine_reachable.operated)

lemma script_announced:
  "engine_reachable r \<Longrightarrow> announced r \<Longrightarrow> engine_script os r \<Longrightarrow> announced (fold run_step_at os r)"
proof (induction os arbitrary: r)
  case (Cons o1 os)
  then have "run_ok r" using engine_run_reachable run_reachable_ok by blast
  with Cons have "announced (run_step_at o1 r)" "engine_reachable (run_step_at o1 r)"
    by (auto simp: run_step_at_def intro: announced_exec engine_reachable.operated)
  with Cons show ?case by simp
qed simp

text \<open>The run a sequence of operations leaves, from its creation on.\<close>

definition run_history ::
  "(instant \<times> 'j run_op) list \<Rightarrow> run_id \<Rightarrow> run_spec \<Rightarrow> run_id option \<Rightarrow> stop_hook_policy \<Rightarrow> 'j run"
where
  "run_history ops i spec parent policy = fold run_step_at ops (run_new i spec parent policy)"

definition demo_run :: "unit run" where
  "demo_run = run_new [1] spec_main None (stop_hook_policy_new 2)"

definition demo_prefix :: "(instant \<times> unit run_op) list" where
  "demo_prefix = [(0, OpStartDraining 0), (0, OpApplyDrainDecision DdInputs None),
     (0, OpBeginStep [7])]"

definition demo_working :: "unit run" where
  "demo_working = fold run_step_at demo_prefix demo_run"

lemmas demo_eval = demo_working_def demo_prefix_def demo_run_def run_step_at_def start_draining_def
  apply_drain_decision_def do_transition_def next_status_def settle_transition_def run_then_def
  begin_step_with_id_def run_new_def spec_main_def spec_full_def apply_state_transition_def
  push_event_def transition_reason_def

lemma demo_driven: "engine_reachable demo_working"
  unfolding demo_working_def demo_run_def
  by (rule script_reachable [OF engine_reachable.created])
    (simp add: demo_prefix_def run_step_at_def)

lemma demo_status: "r_status demo_working = RsPreparingContext"
  by (simp add: demo_eval)

lemma demo_steps: "r_steps demo_working =
    [\<lparr>st_id = [7], st_status = SsInvoking, st_invocation = None, st_tool_calls = []\<rparr>]"
  by (simp add: demo_eval)

lemma demo_active: "active_step_id demo_working = Some [7]"
  by (simp add: active_step_id_def demo_steps step_is_active_def)

section \<open>The life of a run\<close>

text \<open> C17: The methods of a run refine the lifecycle its clients see. Of a run driven as the loop
  engine drives it, every operation either keeps the phase (fresh, working, stopping a step, ending,
  over) or makes one move of the lifecycle: a run that is ending can only be over next, and only a
  working run stops a step. \<close>

theorem run_refines_lifecycle:
  assumes "engine_reachable r" "engine_op r op"
  shows "phase_of (r_status (snd (run_exec now op r))) = phase_of (r_status r) \<or>
    lifecycle (phase_of (r_status r)) (phase_of (r_status (snd (run_exec now op r))))"
  using moves_exec [OF engine_reachable_ok run_reachable_ok] assms engine_run_reachable
  by (auto simp: moves_def)

theorem run_refines_lifecycle_witness:
  "phase_of (r_status demo_working) = Working \<and>
   (phase_of (r_status (snd (run_exec 0 (OpFail []) demo_working))) = Working \<or>
    lifecycle Working (phase_of (r_status (snd (run_exec 0 (OpFail []) demo_working)))))"
proof -
  have phase: "phase_of (r_status demo_working) = Working"
    by (simp add: demo_status working_def)
  have "engine_op demo_working (OpFail [])" by simp
  from run_refines_lifecycle [OF demo_driven this, of 0] show ?thesis
    unfolding phase by blast
qed

text \<open> C18: The journal of a run tells its whole story. After any sequence of operations on a new run,
  whatever they returned, the transition events form one chain from \<open>Created\<close> to the present status,
  their observation revisions count up one by one (modulo the width of the counter), no transition
  leaves a terminal status, every event carries the run and its parent, and replaying the
  journal gives the status. \<close>

theorem run_journal_is_chained:
  "chained run_move mark_final (RsCreated, 0) (r_events (run_history ops i spec parent policy))
     (run_mark (run_history ops i spec parent policy)) \<and>
   list_all (\<lambda>e. ev_run e = i \<and> ev_parent e = parent)
     (r_events (run_history ops i spec parent policy)) \<and>
   replay run_move (RsCreated, 0) (r_events (run_history ops i spec parent policy)) =
     run_mark (run_history ops i spec parent policy)"
proof -
  let ?fresh = "run_new i spec parent policy" and ?r = "run_history ops i spec parent policy"
  have start: "r_events ?fresh = []" "run_mark ?fresh = (RsCreated, 0)" "run_owner ?fresh = (i, parent)"
    by (simp_all add: run_new_def run_mark_def run_owner_def)
  obtain new where "r_events ?r = new" "chained run_move mark_final (RsCreated, 0) new (run_mark ?r)"
    "list_all (\<lambda>e. ev_owner e = (i, parent)) new"
    using run_journal.runs_append [of ops ?fresh] by (auto simp: start run_history_def)
  moreover have "replay run_move (RsCreated, 0) (r_events ?r) = run_mark ?r"
    using run_journal.runs_replay [of ?fresh ops] by (simp add: start run_history_def)
  ultimately show ?thesis
    by (simp add: ev_owner_def)
qed

text \<open> C19: A run ends once. Along every script of the engine the journal holds exactly one of the
  events Completed, Failed and Terminated when the run has ended and none before, and once the run
  has ended no operation at all changes its status. \<close>

theorem run_ends_once:
  assumes "engine_script ops (run_new i spec parent policy)"
  shows "length (filter is_ending (r_events (run_history ops i spec parent policy))) =
      (if rs_is_terminal (r_status (run_history ops i spec parent policy)) then 1 else 0)
    \<and> (rs_is_terminal (r_status (run_history ops i spec parent policy)) \<longrightarrow>
      r_status (fold run_step_at later (run_history ops i spec parent policy)) =
        r_status (run_history ops i spec parent policy))"
proof -
  let ?r = "run_history ops i spec parent policy"
  have "announced (run_new i spec parent policy)"
    by (simp add: announced_def endings_def run_new_def)
  then have "announced ?r"
    unfolding run_history_def using script_announced [OF engine_reachable.created] assms by blast
  moreover have "rs_is_terminal (r_status ?r) \<Longrightarrow> r_status (fold run_step_at later ?r) = r_status ?r"
    using run_journal.final_absorbing [of ?r later] by (simp add: mark_final_def run_mark_def)
  ultimately show ?thesis by (simp add: announced_def endings_def)
qed

definition demo_failed :: "unit run" where
  "demo_failed = run_history [(0, OpFail [])] [1] spec_main None (stop_hook_policy_new 2)"

theorem run_ends_once_witness: "length (filter is_ending (r_events demo_failed)) = 1"
proof -
  have "r_status demo_failed = RsFailed"
    by (simp add: demo_failed_def run_history_def run_step_at_def run_fail_def run_then_def
        set_status_by_command_def run_new_def command_status_allowed_def)
  moreover have script: "engine_script [(0, OpFail [])]
      (run_new [1] spec_main None (stop_hook_policy_new 2) :: unit run)"
    by simp
  ultimately show ?thesis
    using run_ends_once [OF script, of "[]", folded demo_failed_def] by simp
qed

text \<open> C20: A run that was created to compact or to reflect never calls the model: in no state its
  methods can reach is it invoking the model, applying a response, approving or executing tools or
  awaiting the user, and only the reflecting one reflects. \<close>

theorem manual_run_never_invokes_model:
  assumes "run_reachable r" "r_intent r \<in> {ManualCompaction, ManualReflection}"
  shows "r_status r \<notin> {RsInvokingModel, RsApplyingResponse, RsAwaitingToolApproval,
      RsExecutingTools, RsAwaitingUser} \<and>
    (r_status r = RsReflecting \<longrightarrow> r_intent r = ManualReflection)"
proof -
  have "r_status r \<in> manual_statuses (r_intent r)"
    using run_reachable_ok [OF assms(1)] assms(2) unfolding run_ok_def manual_ok_def by blast
  then show ?thesis
    unfolding manual_statuses_def by (cases "r_intent r = ManualReflection") auto
qed

theorem manual_run_never_invokes_model_witness:
  "r_status (run_new [1] spec_manual_compaction None (stop_hook_policy_new 0) :: unit run)
     \<noteq> RsInvokingModel"
proof -
  let ?fresh = "run_new [1] spec_manual_compaction None (stop_hook_policy_new 0) :: unit run"
  have "r_intent ?fresh \<in> {ManualCompaction, ManualReflection}"
    by (simp add: run_new_def spec_manual_compaction_def)
  from manual_run_never_invokes_model [OF run_reachable.created this] show ?thesis by blast
qed

text \<open> C21: Steps come one at a time and finish completely. In every reachable run at most one step
  is active; a new step is accepted exactly when the run prepares the context or invokes the model
  and no step is active; and a step that is done has its model invocation and no open tool call. \<close>

theorem one_step_at_a_time:
  assumes "run_reachable r"
  shows "length (filter step_is_active (r_steps r)) \<le> 1 \<and>
    ((\<exists>j. fst (begin_step_with_id sid r) = Ok j) \<longleftrightarrow>
       r_status r \<in> {RsPreparingContext, RsInvokingModel} \<and> active_step_id r = None) \<and>
    (\<forall>s \<in> set (r_steps r). st_status s = SsDone \<longrightarrow> st_invocation s \<noteq> None \<and>
       (\<forall>c \<in> set (st_tool_calls s). rtc_status c \<in> {TcSuccess, TcError, TcCancelled}))"
proof (intro conjI)
  show "length (filter step_is_active (r_steps r)) \<le> 1"
    using run_reachable_ok [OF assms] by (simp add: run_ok_def one_active_def)
  have "active_step_id r = None \<longleftrightarrow> \<not> (\<exists>s \<in> set (r_steps r). step_is_active s)"
    by (auto simp: active_step_id_def find_None_iff)
  then show "(\<exists>j. fst (begin_step_with_id sid r) = Ok j) \<longleftrightarrow>
      r_status r \<in> {RsPreparingContext, RsInvokingModel} \<and> active_step_id r = None"
    by (auto simp: begin_step_with_id_def)
  have "tc_finished x \<longleftrightarrow> x \<in> {TcSuccess, TcError, TcCancelled}" for x
    by (cases x) simp_all
  then show "\<forall>s \<in> set (r_steps r). st_status s = SsDone \<longrightarrow> st_invocation s \<noteq> None \<and>
       (\<forall>c \<in> set (st_tool_calls s). rtc_status c \<in> {TcSuccess, TcError, TcCancelled})"
    using run_reachable_done [OF assms] by (auto simp: done_ok_def step_is_complete_def list_all_iff)
qed

theorem one_step_at_a_time_witness:
  "length (filter step_is_active (r_steps demo_working)) \<le> 1 \<and>
   \<not> (\<exists>j. fst (begin_step_with_id [8] demo_working) = Ok j)"
  using one_step_at_a_time [OF engine_run_reachable [OF demo_driven], of "[8]"]
  by (simp add: demo_active)

text \<open> Reflection returns to where it came from. When a transition has put the run into
  reflection, completing the reflection succeeds and restores the status it was entered from, and in
  every reachable run that reflects the completion succeeds, so the branch for a missing return status
  is dead. \<close>

theorem reflection_returns:
  assumes "do_transition t1 BeginReflection r = (Ok n, r1)" "run_reachable u"
    and "r_status u = RsReflecting"
  shows "n = RsReflecting \<and> fst (do_transition t2 ReflectionCompleted r1) = Ok (r_status r) \<and>
    r_status (snd (do_transition t2 ReflectionCompleted r1)) = r_status r \<and>
    fst (do_transition t2 ReflectionCompleted u) \<in>
      Ok ` {RsDrainingInput, RsApplyingResponse, RsCompacting}"
proof -
  have r1: "n = RsReflecting" "r_status r1 = RsReflecting" "r_reflection_return r1 = Some (r_status r)"
    by (cases rule: do_transition_cases [of t1 BeginReflection r]; use assms(1) in simp)+
  obtain s where s: "r_reflection_return u = Some s" "reflection_allowed s (r_intent u)"
    using run_reachable_ok [OF assms(2)] assms(3) by (auto simp: run_ok_def reflection_ok_def)
  have leave: "do_transition t2 ReflectionCompleted x = (Ok m, apply_state_transition t2 m
      (transition_reason m ReflectionCompleted) (x\<lparr>r_reflection_return := None\<rparr>))"
    if "r_status x = RsReflecting" "r_reflection_return x = Some m" for x m
    using that by (simp add: do_transition_def settle_transition_def)
  have "do_transition t2 ReflectionCompleted u = (Ok s, apply_state_transition t2 s
      (transition_reason s ReflectionCompleted) (u\<lparr>r_reflection_return := None\<rparr>))"
    using assms(3) s(1) by (simp add: do_transition_def settle_transition_def)
  then show ?thesis
    using leave [OF r1(2,3)] r1(1) reflection_allowed_status(1) [OF s(2)] by simp
qed

definition demo_reflecting :: "unit run" where
  "demo_reflecting = fold run_step_at [(0, OpStartDraining 0)]
     (run_new [1] spec_manual_reflection None (stop_hook_policy_new 2))"

theorem reflection_returns_witness:
  "fst (do_transition 0 ReflectionCompleted
     (snd (do_transition 0 BeginReflection demo_reflecting))) = Ok RsDrainingInput"
proof -
  have status: "r_status demo_reflecting = RsDrainingInput" "r_intent demo_reflecting = ManualReflection"
    by (simp_all add: demo_reflecting_def demo_eval spec_manual_reflection_def)
  then have enter: "do_transition 0 BeginReflection demo_reflecting =
      (Ok RsReflecting, snd (do_transition 0 BeginReflection demo_reflecting))"
    by (simp add: do_transition_def next_status_def settle_transition_def reflection_allowed_def)
  have "run_reachable demo_reflecting"
    using run_reachable.operated [OF run_reachable.created, of 0 "OpStartDraining 0"]
    by (simp add: demo_reflecting_def run_step_at_def)
  then have reach: "run_reachable (snd (do_transition 0 BeginReflection demo_reflecting))"
    using run_reachable.operated [of demo_reflecting 0 "OpTransition BeginReflection"] by simp
  have "r_status (snd (do_transition 0 BeginReflection demo_reflecting)) = RsReflecting"
    using status by (simp add: do_transition_def next_status_def settle_transition_def
        reflection_allowed_def)
  from reflection_returns [OF enter reach this, of 0] show ?thesis by (simp add: status)
qed

section \<open>Control\<close>

lemma find_update_first:
  assumes "\<And>x. p (f x) = p x"
  shows "find p (update_first p f xs) = map_option f (find p xs)"
  using assms by (induction xs) auto

lemma find_set_step_status:
  "find_step i (set_step_status i x r) = map_option (\<lambda>s. s\<lparr>st_status := x\<rparr>) (find_step i r)"
  by (simp add: find_step_def find_update_first)

lemma find_step_other [simp]:
  "find_step i (push_event ev r) = find_step i r"
  "find_step i (apply_state_transition now n w r) = find_step i r"
  by (simp_all add: find_step_def)

lemma active_step_mut_found:
  "find_step i r = Some s \<Longrightarrow> step_is_active s \<Longrightarrow> active_step_mut i r = Ok s"
  by simp

definition after_finish :: "'j run \<Rightarrow> bool" where
  "after_finish r \<longleftrightarrow> r_status r = RsDrainingInput \<and> active_step_id r = None \<and> r_user_cancelled_step r"

lemma finish_cancelled:
  assumes "run_ok r" "r_status r = RsFinalizingStep" "find_step i r = Some s"
    and "st_status s = SsFinalizing"
  shows "fst (finish_step_cancellation now i SsCancelled r) = Ok ()"
    and "after_finish (snd (finish_step_cancellation now i SsCancelled r))"
proof -
  have active: "step_is_active s" using assms(4) by (simp add: step_is_active_def)
  have one: "one_active r" using assms(1) by (simp add: run_ok_def)
  let ?ss = "update_first (\<lambda>s. st_id s = i) (\<lambda>s. s\<lparr>st_status := SsCancelled\<rparr>) (r_steps r)"
  have "\<forall>x \<in> set ?ss. \<not> step_is_active x"
    using sole_step(1) [OF one assms(3) active, of "\<lambda>s. s\<lparr>st_status := SsCancelled\<rparr>"]
    by (auto simp: step_is_active_def)
  then have "find step_is_active ?ss = None" by (auto simp: find_None_iff)
  moreover have "active_step_mut i r = Ok s"
    using assms(3) active by (rule active_step_mut_found)
  ultimately show "fst (finish_step_cancellation now i SsCancelled r) = Ok ()"
    "after_finish (snd (finish_step_cancellation now i SsCancelled r))"
    using assms(2,4)
    by (simp_all add: finish_step_cancellation_def finish_controlled_step_def Let_def run_then_def
        transition_step_cancelled after_finish_def active_step_id_def del: active_step_mut_Ok)
qed

lemma finalize_cancelling:
  assumes "r_status r = RsCancellingStep" "find_step i r = Some s" "st_status s = SsCancelling"
  shows "r_status (snd (begin_step_finalization now i r)) = RsFinalizingStep \<and>
    (\<exists>s'. find_step i (snd (begin_step_finalization now i r)) = Some s' \<and> st_status s' = SsFinalizing)"
proof -
  have "active_step_mut i r = Ok s"
    using assms(2,3) by (intro active_step_mut_found) (simp_all add: step_is_active_def)
  then show ?thesis
    using assms
    by (simp add: begin_step_finalization_def run_then_def set_status_by_command_def
        command_status_allowed_def find_set_step_status del: active_step_mut_Ok)
qed

lemma closed_steps:
  "find step_is_active (r_steps (close_active_steps SsCancellationUnconfirmed r)) = None"
  by (auto simp: find_None_iff close_active_steps_def step_is_active_def)

lemma steps_agreeD:
  assumes "steps_agree n ss" "s \<in> set ss" "n \<noteq> RsTerminating"
  shows "st_status s = SsCancelling \<Longrightarrow> n = RsCancellingStep"
    and "st_status s = SsFinalizing \<Longrightarrow> n = RsFinalizingStep"
  using assms unfolding steps_agree_def by blast+

lemma cancellation_reaches_finalization:
  assumes "steps_agree (r_status r) (r_steps r)" "find_step i r = Some s" "step_is_active s"
    and "\<not> rs_is_terminal (r_status r)" "r_status r \<noteq> RsTerminating"
  defines "r1 \<equiv> \<lambda>t1. snd (request_step_cancellation t1 i r)"
  shows "r_status (snd (begin_step_finalization t2 i (r1 t1))) = RsFinalizingStep \<and>
    (\<exists>s'. find_step i (snd (begin_step_finalization t2 i (r1 t1))) = Some s' \<and> st_status s' = SsFinalizing)"
proof -
  note mem = find_step_mem [OF assms(2)]
  consider "st_status s = SsFinalizing" | "st_status s = SsCancelling"
    | "st_status s \<notin> {SsFinalizing, SsCancelling}" by blast
  then show ?thesis
  proof cases
    case 1
    then have "r_status r = RsFinalizingStep" using steps_agreeD(2) [OF assms(1) _ assms(5)] mem by blast
    moreover have r1: "r1 t1 = r" using 1 assms(2-5) by (simp add: r1_def request_step_cancellation_def)
    moreover have "snd (begin_step_finalization t2 i r) = r"
      using 1 active_step_mut_found [OF assms(2,3)]
      by (simp add: begin_step_finalization_def del: active_step_mut_Ok)
    ultimately show ?thesis using 1 assms(2) by simp
  next
    case 2
    then have "r_status r = RsCancellingStep" using steps_agreeD(1) [OF assms(1) _ assms(5)] mem by blast
    moreover have "r1 t1 = r" using 2 assms(2-5) by (simp add: r1_def request_step_cancellation_def)
    ultimately show ?thesis using finalize_cancelling [of r i s t2] 2 assms(2) by simp
  next
    case 3
    then have "r1 t1 = push_event (\<lambda>j p. EvStepCancellationRequested j p i)
        (apply_state_transition t1 RsCancellingStep WhyStepCancellationRequested
          (set_step_status i SsCancelling (r\<lparr>r_pending_interaction := None\<rparr>)))"
      using assms(2-5)
      by (simp add: r1_def request_step_cancellation_def set_status_by_command_def command_status_allowed_def)
    then have "r_status (r1 t1) = RsCancellingStep"
      "find_step i (r1 t1) = Some (s\<lparr>st_status := SsCancelling\<rparr>)"
      using assms(2) by (simp_all add: find_set_step_status)
    then show ?thesis by (rule finalize_cancelling) (cases s, simp)
  qed
qed

text \<open> C22: Cancelling a step always comes to an end. In every driven run that has not ended and is not
  being terminated, whatever it is doing, if the first step under an identifier is active then
  requesting its cancellation, starting its finalization and finishing it as cancelled leaves the run
  draining its input, with no active step and marked as cancelled by the user. (The caller supplies
  the identifiers. It names the active step as long as it does not use one twice;
  \<open>finding_reused_step_id\<close> shows what happens when it does.) \<close>

theorem cancellation_completes:
  assumes "engine_reachable r" "find_step i r = Some s" "step_is_active s"
    and "\<not> rs_is_terminal (r_status r)" "r_status r \<noteq> RsTerminating"
  shows "after_finish (fold run_step_at [(t1, OpRequestStepCancellation i),
    (t2, OpBeginStepFinalization i), (t3, OpFinishStepCancellation i SsCancelled)] r)"
proof -
  have ok: "run_ok r" "steps_agree (r_status r) (r_steps r)"
    using assms(1) engine_run_reachable run_reachable_ok engine_reachable_ok
    by (auto simp: control_ok_def)
  let ?r2 = "snd (begin_step_finalization t2 i (snd (request_step_cancellation t1 i r)))"
  have "run_ok ?r2" by (intro run_ok_control ok(1))
  then have "after_finish (snd (finish_step_cancellation t3 i SsCancelled ?r2))"
    using cancellation_reaches_finalization [OF ok(2) assms(2-5)] finish_cancelled(2) by blast
  then show ?thesis by (simp add: run_step_at_def)
qed

lemma demo_found:
  "find_step [7] demo_working =
     Some \<lparr>st_id = [7], st_status = SsInvoking, st_invocation = None, st_tool_calls = []\<rparr>"
  by (simp add: find_step_def demo_steps)

theorem cancellation_completes_witness:
  "after_finish (fold run_step_at [(1, OpRequestStepCancellation [7]),
    (2, OpBeginStepFinalization [7]), (3, OpFinishStepCancellation [7] SsCancelled)] demo_working)"
  using cancellation_completes [OF demo_driven demo_found, of 1 2 3]
  by (simp only: demo_status) (simp add: step_is_active_def)

lemma find_snoc:
  "find P (xs @ [x]) = (case find P xs of None \<Rightarrow> if P x then Some x else None | Some y \<Rightarrow> Some y)"
  by (induction xs) auto

text \<open> Between two steps, a step can begin under the identifier of a finished one. It is then active and
  cannot be cancelled: every operation that names it finds the finished step. \<close>

theorem finding_reused_step_id:
  assumes "engine_reachable r" "r_status r \<in> {RsPreparingContext, RsInvokingModel}"
    and "active_step_id r = None" "find_step i r = Some s" "begin_step_with_id i r = (x, r')"
  shows "engine_reachable r' \<and> active_step_id r' = Some i \<and>
    request_step_cancellation now i r' = (NoActiveStep, r')"
proof -
  have closed: "\<forall>x \<in> set (r_steps r). \<not> step_is_active x"
    using assms(3) by (auto simp: active_step_id_def find_None_iff)
  have "engine_reachable r'"
    using engine_reachable.operated [OF assms(1), of "OpBeginStep i" 0] assms(5) by simp
  moreover have "r_steps r' = r_steps r @ [\<lparr>st_id = i, st_status = SsInvoking, st_invocation = None,
      st_tool_calls = []\<rparr>]" "r_status r' = r_status r"
    using assms(2,5) closed by (auto simp: begin_step_with_id_def list_ex_iff)
  moreover have "find step_is_active (r_steps r) = None" using closed by (auto simp: find_None_iff)
  moreover have "\<not> step_is_active s" using closed find_step_mem [OF assms(4)] by blast
  ultimately show ?thesis
    using assms(2,4)
    by (auto simp: active_step_id_def find_step_def find_snoc step_is_active_def
        request_step_cancellation_def)
qed

text \<open> C23: Termination always completes. In every driven run that has not ended, requesting the
  termination and finishing it ends the run as terminated, with every step closed and the reason of
  the first request announced. \<close>

theorem termination_completes:
  assumes "engine_reachable r" "\<not> rs_is_terminal (r_status r)"
  shows "\<exists>u. u = fold run_step_at [(t1, OpRequestTermination reason deadline), (t2, OpFinishTermination)] r \<and>
    r_status u = RsTerminated \<and> active_step_id u = None \<and>
    last (r_events u) = EvTerminated (r_id r) (r_parent_id r)
      (case r_termination r of
         Some (first, _) \<Rightarrow> if r_status r = RsTerminating then first else reason
       | None \<Rightarrow> reason)"
proof -
  let ?r1 = "snd (request_termination t1 reason deadline r)"
  have finish: "r_status v = RsTerminated \<and> active_step_id v = None \<and>
      last (r_events v) = EvTerminated (r_id x) (r_parent_id x) why"
    if "r_status x = RsTerminating" "r_termination x = Some (why, d)"
      "v = snd (finish_termination t2 x)" for x v why d
    using that closed_steps
    by (simp add: finish_termination_def transition_termination_finished run_then_def
        active_step_id_def)
  show ?thesis
  proof (cases "r_status r = RsTerminating")
    case True
    then obtain why d where "r_termination r = Some (why, d)"
      using engine_reachable_ok [OF assms(1)] by (auto simp: control_ok_def ending_agrees_def)
    moreover have "?r1 = r" using True by (simp add: request_termination_def)
    ultimately show ?thesis
      using finish [OF True, of why d] True by (simp add: run_step_at_def)
  next
    case False
    then have r1: "?r1 = push_event (\<lambda>i p. EvTerminationRequested i p reason deadline)
        (apply_state_transition t1 RsTerminating WhyTerminationRequested
          (r\<lparr>r_termination := Some (reason, deadline), r_pending_interaction := None\<rparr>))"
      using assms(2) by (simp add: request_termination_def set_status_by_command_def
          command_status_allowed_def)
    have "r_status ?r1 = RsTerminating" "r_termination ?r1 = Some (reason, deadline)"
      "r_id ?r1 = r_id r" "r_parent_id ?r1 = r_parent_id r"
      unfolding r1 by simp_all
    then show ?thesis
      using finish [of ?r1 reason deadline] False
      by (simp add: run_step_at_def split: option.split)
  qed
qed

theorem termination_completes_witness:
  "\<exists>u. u = fold run_step_at [(1, OpRequestTermination UserExit \<lparr>unix_millis = 5\<rparr>),
      (2, OpFinishTermination)] demo_working \<and>
    r_status u = RsTerminated \<and> active_step_id u = None"
  using termination_completes [OF demo_driven, of 1 UserExit "\<lparr>unix_millis = 5\<rparr>" 2] demo_status
  by auto

text \<open> An operation that reports an error leaves the record of the run alone: its identity,
  specification, status, return status, termination request, drain epoch, stop-hook count,
  observation revision and journal are what they were. \<close>

theorem failed_operation_keeps_record:
  assumes "run_exec now op r = (Err e, r')"
  shows "r_status r' = r_status r \<and> r_events r' = r_events r \<and>
    r_timing_revision r' = r_timing_revision r \<and> r_id r' = r_id r \<and> r_spec r' = r_spec r \<and>
    r_parent_id r' = r_parent_id r \<and> r_reflection_return r' = r_reflection_return r \<and>
    r_termination r' = r_termination r \<and> r_next_drain_epoch r' = r_next_drain_epoch r \<and>
    r_stop_hook_block_count r' = r_stop_hook_block_count r"
  using exec_Err [OF assms] by (simp add: same_record_def)

theorem failed_operation_keeps_record_witness:
  "r_events (snd (run_exec 0 (OpTransition ModelInvoked) demo_working)) = r_events demo_working"
proof -
  have "run_exec 0 (OpTransition ModelInvoked) demo_working =
      (Err (IllegalTransition RsPreparingContext ModelInvoked), demo_working)"
    by (simp add: do_transition_def next_status_def demo_status)
  from failed_operation_keeps_record [OF this] show ?thesis
    by (simp add: do_transition_def next_status_def demo_status)
qed

lemma saturating_succ_nat:
  assumes "k < 2 ^ 64 - 1"
  shows "saturating_succ (of_nat k) = of_nat (Suc k)" and "unat (of_nat (Suc k) :: u64) = Suc k"
proof -
  show "unat (of_nat (Suc k) :: u64) = Suc k"
    using assms by (simp add: unat_of_nat del: of_nat_Suc)
  have "unat (of_nat k :: u64) = k"
    using assms by (simp add: unat_of_nat)
  then have "checked_add (of_nat k) 1 \<noteq> None"
    using assms by (simp add: checked_add_def)
  then have "(of_nat k :: u64) \<noteq> - 1"
    by (simp add: checked_add_none)
  then show "saturating_succ (of_nat k) = of_nat (Suc k)"
    by (simp add: saturating_succ_def add.commute)
qed

definition is_stop_block :: "instant \<times> 'j run_op \<Rightarrow> bool" where
  "is_stop_block x \<longleftrightarrow> (case snd x of OpRecordStopHookBlock \<Rightarrow> True | _ \<Rightarrow> False)"

lemma blocks_counted:
  assumes "unat (r_stop_hook_block_count r) + length (filter is_stop_block ops) < 2 ^ 64"
  shows "unat (r_stop_hook_block_count (fold run_step_at ops r)) =
      unat (r_stop_hook_block_count r) + length (filter is_stop_block ops) \<and>
    r_stop_hook_policy (fold run_step_at ops r) = r_stop_hook_policy r"
  using assms
proof (induction ops arbitrary: r)
  case (Cons x ops)
  let ?r = "run_step_at x r" and ?n = "unat (r_stop_hook_block_count r)"
  have one: "unat (r_stop_hook_block_count ?r) = ?n + (if is_stop_block x then 1 else 0) \<and>
      r_stop_hook_policy ?r = r_stop_hook_policy r"
  proof (cases "is_stop_block x")
    case True
    then have "snd x = OpRecordStopHookBlock" by (simp add: is_stop_block_def split: run_op.splits)
    moreover have "saturating_succ (r_stop_hook_block_count r) = of_nat (Suc ?n)" "unat (of_nat (Suc ?n) :: u64) = Suc ?n"
      using saturating_succ_nat [of ?n] Cons.prems True by simp_all
    ultimately show ?thesis
      using True by (simp add: run_step_at_def record_stop_hook_block_def Let_def del: of_nat_Suc)
  next
    case False
    then have "snd x \<noteq> OpRecordStopHookBlock" by (auto simp: is_stop_block_def)
    then show ?thesis using False same_hook_exec [of "snd x" r "fst x"] by (simp add: run_step_at_def same_hook_def)
  qed
  then show ?case using Cons.IH [of ?r] Cons.prems by (auto split: if_splits)
qed simp

text \<open> C24: The stop hook blocks a run a bounded number of times. Take any history of a run, with any
  operations before, between and after the blocks: of the blocks recorded on the run exactly the
  first \<open>max_blocks\<close> allow it to continue, and every later one reports exhaustion, each with the exact
  count of the blocks so far (as long as that count fits the width of the counter). A limit of zero
  means the default of fifteen. \<close>

theorem stop_hook_blocks_bounded:
  assumes "k = length (filter is_stop_block ops)" "k < 2 ^ 64 - 1"
  shows "fst (record_stop_hook_block (run_history ops i spec parent (stop_hook_policy_new n) :: 'j run)) =
    (if k < (if n = 0 then 15 else unat n) then Blocked (of_nat (Suc k))
     else RetryExhausted (of_nat (Suc k)))"
proof -
  let ?fresh = "run_new i spec parent (stop_hook_policy_new n) :: 'j run"
  let ?r = "run_history ops i spec parent (stop_hook_policy_new n) :: 'j run"
  have limit: "unat (shp_max_blocks (stop_hook_policy_new n)) = (if n = 0 then 15 else unat n)"
    by (simp add: stop_hook_policy_new_def word_gt_0)
  have "r_stop_hook_block_count ?fresh = 0" "r_stop_hook_policy ?fresh = stop_hook_policy_new n"
    by (simp_all add: run_new_def)
  then have "unat (r_stop_hook_block_count ?r) = k" "r_stop_hook_policy ?r = stop_hook_policy_new n"
    using blocks_counted [of ?fresh ops] assms by (simp_all add: run_history_def)
  moreover from this(1) have "r_stop_hook_block_count ?r = of_nat k" by auto
  ultimately show ?thesis
    using saturating_succ_nat [OF assms(2)] limit
    by (auto simp: record_stop_hook_block_def Let_def word_less_nat_alt)
qed

theorem stop_hook_blocks_bounded_witness:
  "fst (record_stop_hook_block (run_history [(0, OpRecordStopHookBlock), (1, OpStartDraining 0),
     (2, OpRecordStopHookBlock), (3, OpFail [])] [] spec_main None (stop_hook_policy_new 2) :: unit run)) = RetryExhausted 3"
  using stop_hook_blocks_bounded [of 2 "[(0, OpRecordStopHookBlock), (1, OpStartDraining 0),
     (2, OpRecordStopHookBlock), (3, OpFail [])] :: (instant \<times> unit run_op) list" "[]" spec_main None 2]
  by (simp add: is_stop_block_def)

section \<open>Specifications\<close>

text \<open> C25: A sub-run never gets more than its parent has. Whatever builders are applied to a
  specification derived from a parent, as long as none fails, every capability dimension and the
  timeout of the result stay within the parent, and the specification keeps the restricted policy and
  its ceiling. \<close>

theorem derived_spec_within_parent:
  assumes "derive_sub parent n t = Ok s" "apply_builders bs s = Ok s'"
  shows "validate_against s' parent = Ok () \<and> sp_policy s' = PolicyRestricted \<and>
    sp_ceiling s' = Some (ceiling_from_spec parent)"
  using apply_builders_keep [OF assms(2)] derive_sub_Ok [OF assms(1)]
  by (auto simp: spec_within_def)

theorem derived_spec_within_parent_witness:
  "validate_against ((spec_restricted [5] 3)\<lparr>sp_ceiling := Some (ceiling_from_spec spec_main),
      sp_memory := MemEnabled, sp_timeout := 8\<rparr>) spec_main = Ok ()"
proof -
  have derive: "derive_sub spec_main [5] 3 =
      Ok ((spec_restricted [5] 3)\<lparr>sp_ceiling := Some (ceiling_from_spec spec_main)\<rparr>)"
    by (simp add: derive_sub_def spec_main_def spec_full_def modes_within_def spec_restricted_def)
  have "apply_builders [WithMemoryMode MemEnabled, WithTimeout 8]
      ((spec_restricted [5] 3)\<lparr>sp_ceiling := Some (ceiling_from_spec spec_main)\<rparr>) =
    Ok ((spec_restricted [5] 3)\<lparr>sp_ceiling := Some (ceiling_from_spec spec_main),
      sp_memory := MemEnabled, sp_timeout := 8\<rparr>)"
    by (simp add: with_memory_mode_def with_timeout_def guard_ok_def check_ceiling_def
        ceiling_from_spec_def spec_main_def spec_full_def spec_restricted_def)
  from derived_spec_within_parent [OF derive this] show ?thesis by simp
qed

text \<open> When a sub-run can be derived. The derivation succeeds exactly when the timeout is within
  the parent's, the parent can mediate interaction, and the parent has reasoning to inherit; no other
  dimension of the parent matters. \<close>

theorem derive_sub_exact:
  "(\<exists>s. derive_sub parent n t = Ok s) \<longleftrightarrow>
     (sp_timeout parent = 0 \<or> (t \<noteq> 0 \<and> t \<le> sp_timeout parent)) \<and>
     sp_interaction_kind parent \<noteq> IbUnavailable \<and> sp_reasoning parent \<noteq> RbNoOp"
  by (rule derive_sub_iff)

section \<open>Interactions\<close>

text \<open> A question to the user can always be answered. In every driven run that has not failed and
  has an interaction pending, completing that interaction succeeds, returns the stored continuation,
  clears the interaction and resumes the execution of the tools. \<close>

theorem pending_interaction_completes:
  assumes "engine_reachable r" "r_pending_interaction r = Some p" "r_status r \<noteq> RsFailed"
  shows "fst (complete_interaction now (pi_request_id p) r) = Ok (pi_continuation p) \<and>
    r_pending_interaction (snd (complete_interaction now (pi_request_id p) r)) = None \<and>
    r_status (snd (complete_interaction now (pi_request_id p) r)) = RsExecutingTools"
proof -
  have "r_status r = RsAwaitingUser"
    using engine_reachable_ok [OF assms(1)] assms(2,3) by (auto simp: control_ok_def ending_agrees_def)
  moreover have "resume_status k = RsExecutingTools" for k by (cases k) simp_all
  ultimately show ?thesis
    using assms(2) by (simp add: complete_interaction_def take_interaction_def run_then_def
        set_status_by_command_def command_status_allowed_def)
qed

definition demo_script :: "(instant \<times> unit run_op) list" where
  "demo_script = [(0, OpTransition ContextPrepared), (0, OpRecordInvocation [7] \<lparr>mi_response = []\<rparr>),
     (0, OpTransition ModelInvoked), (0, OpTransition ResponseWithTools),
     (0, OpBeginInteraction [9] (ContinueToolApproval [3]))]"

definition demo_waiting :: "unit run" where
  "demo_waiting = fold run_step_at demo_script demo_working"

lemma demo_waiting_pending:
  "r_pending_interaction demo_waiting =
     Some \<lparr>pi_request_id = [9], pi_continuation = ContinueToolApproval [3]\<rparr>"
  "r_status demo_waiting = RsAwaitingUser"
  by (simp_all add: demo_waiting_def demo_script_def demo_eval record_model_invocation_def
      on_working_step_def active_step_mut_def find_step_def rejects_controlled_work_def
      update_step_def begin_interaction_def interaction_allowed_def set_status_by_command_def
      command_status_allowed_def step_is_active_def del: active_step_mut_Ok)

theorem pending_interaction_completes_witness:
  "fst (complete_interaction 4 [9] demo_waiting) = Ok (ContinueToolApproval [3])"
proof -
  have "engine_script demo_script demo_working"
    by (simp add: demo_script_def engine_transitions_def)
  then have "engine_reachable demo_waiting"
    unfolding demo_waiting_def by (rule script_reachable [OF demo_driven])
  from pending_interaction_completes [OF this demo_waiting_pending(1), of 4]
  show ?thesis by (simp add: demo_waiting_pending(2))
qed

section \<open>Observations\<close>

lemma finding_start_resets_clock:
  assumes "r_status r \<noteq> RsCreated"
  shows "start_draining s now r = (Err (IllegalTransition (r_status r) StartDraining),
    r\<lparr>r_started_at := Some s, r_phase_started_at := Some s\<rparr>)"
  using assms by (cases "r_status r")
    (simp_all add: start_draining_def do_transition_def next_status_def run_then_def)

definition demo_sealed :: "unit run" where
  "demo_sealed = fold run_step_at
     [(0, OpTransition ContextPrepared), (0, OpRecordInvocation [7] \<lparr>mi_response = []\<rparr>),
      (0, OpTransition ModelInvoked), (0, OpTransition ContinueAfterResponse),
      (0, OpApplyDrainDecision DdEmptyAndSealed None)] demo_working"

lemma finding_completed_with_active_step:
  "r_status demo_sealed = RsCompleted" "active_step_id demo_sealed = Some [7]"
  by (simp_all add: demo_sealed_def demo_eval record_model_invocation_def on_working_step_def
      active_step_mut_def find_step_def rejects_controlled_work_def update_step_def
      step_is_active_def active_step_id_def del: active_step_mut_Ok)

lemma finding_cancel_lost_in_termination:
  assumes "r_status r = RsTerminating" "find_step i r = Some s" "st_status s = SsFinalizing"
  shows "fst (finish_step_cancellation now i SsCancelled r) =
      Err (IllegalTransition RsTerminating StepCancelled)"
    and "r_user_cancelled_step (snd (finish_step_cancellation now i SsCancelled r))"
    and "r_events (snd (finish_step_cancellation now i SsCancelled r)) = r_events r"
proof -
  have "active_step_mut i r = Ok s"
    using assms(2,3) by (intro active_step_mut_found) (simp_all add: step_is_active_def)
  then show "fst (finish_step_cancellation now i SsCancelled r) =
      Err (IllegalTransition RsTerminating StepCancelled)"
    "r_user_cancelled_step (snd (finish_step_cancellation now i SsCancelled r))"
    "r_events (snd (finish_step_cancellation now i SsCancelled r)) = r_events r"
    using assms(1,3)
    by (simp_all add: finish_step_cancellation_def finish_controlled_step_def Let_def run_then_def
        transition_step_cancelled del: active_step_mut_Ok)
qed

end
