(* ===== verification/Workflow_Model.thy ===== *)
theory Workflow_Model
  imports Prelude
begin

text \<open>
  The data of the Workflow context (\<open>agent/features/workflow/src\<close>): the graph types of \<open>domain.rs\<close>, the
  commands, queries and results of \<open>domain/tool_data.rs\<close>, the errors of \<open>domain/tool_error.rs\<close> and
  \<open>ports.rs\<close>, and the persisted image of \<open>domain/snapshot.rs\<close>.

  \<open>usize\<close> is \<open>nat\<close>: the code only counts, compares and skips with it. Constructors carry a prefix where
  the Rust enums share a name.
\<close>

section \<open>Statuses and roles\<close>

datatype workflow_status = WfActive | WfInactive | WfCompleted | WfCancelled | WfFailed

datatype active_mode = Executing | Replanning

datatype node_kind = KindWork | KindConfirm | KindComplete

datatype node_status = NsPending | NsActive | NsCompleted | NsFailed | NsStopped

datatype role = Planner | Explorer | Architect | Implementer | Verifier | Reviewer

section \<open>The graph\<close>

type_synonym node_id = ustr

record node_definition =
  nd_node_id :: node_id
  nd_kind :: node_kind
  nd_role :: "role option"
  nd_description :: ustr
  nd_completion_criteria :: "ustr option"

record edge_definition =
  ed_from_node_id :: node_id
  ed_to_node_id :: node_id

record workflow_definition =
  wd_name :: ustr
  wd_objective :: ustr
  wd_root_node_id :: node_id
  wd_nodes :: "node_definition list"
  wd_edges :: "edge_definition list"

datatype graph_invariant_reason =
    MissingNode | MultipleRoots | RootIsSpecialKind | MissingCompleteNode | MultipleCompleteNodes
  | CompleteNodeHasSuccessor | NodeWithoutSuccessor | UnreachableNode | NoPathToCompleteNode
  | CycleDetected | SelfLoop | RoleOnSpecialKind | WorkNodeMissingRole

record graph_error =
  ge_reason :: graph_invariant_reason
  ge_subject :: "ustr option"

section \<open>Evidence, decisions and replans\<close>

datatype evidence_kind = EvToolResult | EvSubAgentOutput | EvBackgroundTask | EvUserMessage

record evidence_ref =
  er_fact_id :: ustr
  er_kind :: evidence_kind

record successor_decision =
  sd_node_id :: node_id
  sd_description :: ustr

record replan_boundary =
  rb_trigger_node_id :: node_id
  rb_stopped_node_ids :: "node_id list"
  rb_frozen_fact_refs :: "evidence_ref list"

record rejoin_edge =
  rj_from_node_id :: node_id
  rj_target_node_id :: node_id

record pending_node_update =
  pu_node_id :: node_id
  pu_description :: "ustr option"
  pu_role :: "role option"
  pu_completion_criteria :: "ustr option"

record pending_rewrites =
  pr_update :: "pending_node_update list"
  pr_remove :: "node_id list"

section \<open>Commands and queries\<close>

record create_workflow_spec =
  cs_name :: ustr
  cs_objective :: ustr
  cs_root_node_id :: node_id
  cs_nodes :: "node_definition list"
  cs_edges :: "edge_definition list"

datatype lifecycle_action = LaActivate | LaDeactivate | LaComplete | LaCancel | LaFail

record update_workflow_command =
  uw_workflow_id :: ustr
  uw_action :: lifecycle_action
  uw_summary :: "ustr option"
  uw_evidence_refs :: "evidence_ref list"

datatype node_action = NaComplete | NaFail

record update_node_command =
  un_workflow_id :: ustr
  un_node_id :: node_id
  un_action :: node_action
  un_conclusion :: ustr
  un_evidence_refs :: "evidence_ref list"
  un_successors :: "successor_decision list"

record replan_workflow_command =
  rw_workflow_id :: ustr
  rw_boundary :: replan_boundary
  rw_new_nodes :: "node_definition list"
  rw_new_edges :: "edge_definition list"
  rw_entry_node_ids :: "node_id list"
  rw_rejoin_edges :: "rejoin_edge list"
  rw_pending_rewrites :: "pending_rewrites option"

record list_workflows_query =
  lq_status :: "workflow_status option"
  lq_limit :: nat
  lq_offset :: nat

record query_workflow_query =
  qq_workflow_id :: ustr
  qq_include_facts :: bool

section \<open>Results\<close>

record node_summary_counts =
  nc_pending :: nat
  nc_active :: nat
  nc_completed :: nat
  nc_failed :: nat
  nc_stopped :: nat

record workflow_summary_data =
  ws_workflow_id :: ustr
  ws_name :: ustr
  ws_status :: workflow_status
  ws_active_mode :: "active_mode option"
  ws_pending_mode :: "active_mode option"
  ws_node_summary :: node_summary_counts
  ws_updated_at :: ustr

record list_workflows_data =
  lw_workflows :: "workflow_summary_data list"
  lw_total :: nat
  lw_limit :: nat
  lw_offset :: nat

record node_view_data =
  nv_node_id :: node_id
  nv_kind :: node_kind
  nv_role :: "role option"
  nv_status :: node_status
  nv_description :: ustr
  nv_completion_criteria :: "ustr option"
  nv_conclusion :: "ustr option"
  nv_evidence_refs :: "evidence_ref list"
  nv_successors :: "successor_decision list"

record fact_summary_data =
  fs_fact_id :: ustr
  fs_kind :: evidence_kind
  fs_source :: ustr
  fs_related_node_ids :: "node_id list"
  fs_at :: ustr

datatype allowed_action =
  AaActivate | AaDeactivate | AaComplete | AaCancel | AaFail | AaReplan | AaNodeComplete | AaNodeFail

record workflow_detail_data =
  dd_workflow_id :: ustr
  dd_name :: ustr
  dd_objective :: ustr
  dd_status :: workflow_status
  dd_active_mode :: "active_mode option"
  dd_pending_mode :: "active_mode option"
  dd_root_node_id :: node_id
  dd_complete_node_id :: node_id
  dd_nodes :: "node_view_data list"
  dd_edges :: "edge_definition list"
  dd_facts :: "fact_summary_data list"
  dd_allowed_actions :: "allowed_action list"

record lifecycle_result_data =
  lr_workflow_id :: ustr
  lr_status :: workflow_status
  lr_active_mode :: "active_mode option"
  lr_pending_mode :: "active_mode option"

record node_update_result_data =
  nr_workflow_id :: ustr
  nr_node_id :: node_id
  nr_node_status :: node_status
  nr_status :: workflow_status
  nr_active_mode :: "active_mode option"
  nr_activated_node_ids :: "node_id list"
  nr_stopped_node_ids :: "node_id list"
  nr_replan_boundary :: "replan_boundary option"

record replan_result_data =
  rr_workflow_id :: ustr
  rr_status :: workflow_status
  rr_active_mode :: "active_mode option"
  rr_activated_node_ids :: "node_id list"
  rr_applied_node_ids :: "node_id list"
  rr_retired_pending_node_ids :: "node_id list"

section \<open>Errors\<close>

datatype workflow_tool_error =
    ActiveWorkflowAlreadyExists
  | WorkflowNotActive ustr
  | WorkflowAlreadyTerminal ustr
  | WorkflowReplanning ustr
  | WorkflowNotReplanning ustr
  | WorkflowCannotContinue ustr
  | NodeNotActive node_id
  | NodeHistoryFrozen node_id
  | InvalidSuccessor ustr
  | InvalidEvidenceReference
  | GraphInvariantViolation graph_invariant_reason "ustr option"
  | CompletionConditionsUnsatisfied ustr
  | WorkflowNotVisible ustr

datatype persistence_error = PeIo ustr | PeCorrupt ustr

section \<open>The persisted image\<close>

record node_snapshot_entry =
  ne_node_id :: node_id
  ne_status :: node_status
  ne_conclusion :: "ustr option"
  ne_evidence_refs :: "evidence_ref list"
  ne_exits :: "successor_decision list"

record workflow_snapshot_data =
  sn_workflow_id :: ustr
  sn_name :: ustr
  sn_objective :: ustr
  sn_root_node_id :: node_id
  sn_nodes :: "node_definition list"
  sn_edges :: "edge_definition list"
  sn_node_entries :: "node_snapshot_entry list"
  sn_status :: workflow_status
  sn_active_mode :: "active_mode option"
  sn_pending_mode :: "active_mode option"
  sn_updated_at :: ustr

record workflow_state_hint =
  wh_workflow_id :: ustr
  wh_active_mode :: active_mode

end
