(* ===== verification/Graph_Walk.thy ===== *)
theory Graph_Walk
  imports Graph_Search
begin

text \<open>
  The two searches the workflow kernel writes by hand.

  \<^item> \<open>bfs_marks\<close> and \<open>bfs_finds\<close>: a queue whose nodes are marked when they are pushed. Both end because
    every push marks a fresh target; the first computes exactly the reachable nodes, the second
    whether a target is among them.
  \<^item> \<open>visit\<close>: the recursion with white, grey and black marks that looks for a back edge. The marks are
    threaded through the recursion, and the depth of the recursion is its fuel; \<open>visit_enough\<close> shows
    that the number of nodes is enough.
\<close>

section \<open>The adjacency of a list of edges\<close>

text \<open>\<open>entry(from).or_default().push(to)\<close> over the edges.\<close>

definition adj_push :: "'a \<Rightarrow> 'a \<Rightarrow> 'a adjacency \<Rightarrow> 'a adjacency" where
  "adj_push x y adj = hm_insert x (succs adj x @ [y]) adj"

definition build_adj :: "('a \<times> 'a) list \<Rightarrow> 'a adjacency" where
  "build_adj es = fold (\<lambda>(x, y). adj_push x y) es []"

lemma succs_adj_push: "succs (adj_push x y adj) z = (if z = x then succs adj x @ [y] else succs adj z)"
  by (simp add: adj_push_def succs_def AList.update_conv')

lemma adj_edges_push: "adj_edges (adj_push x y adj) = insert (x, y) (adj_edges adj)"
  by (auto simp: adj_edges_def succs_adj_push split: if_splits)

lemma adj_edges_build: "adj_edges (build_adj es) = set es"
proof -
  have "adj_edges (fold (\<lambda>(x, y). adj_push x y) es adj) = adj_edges adj \<union> set es" for adj
    by (induction es arbitrary: adj) (simp_all add: adj_edges_push split_beta)
  moreover have "adj_edges ([] :: 'a adjacency) = {}"
    by (auto simp: succs_def)
  ultimately show ?thesis
    unfolding build_adj_def by (simp only: Un_empty_left)
qed

lemma succs_subset: "set (succs adj x) \<subseteq> adj_targets adj"
  using succs_targets by auto

lemma set_succs_build: "set (succs (build_adj es) x) = {y. (x, y) \<in> set es}"
  unfolding adj_edges_build [symmetric] by simp

section \<open>Breadth-first search\<close>

text \<open>\<open>if visited.insert(s) { queue.push_back(s) }\<close> over the successors.\<close>

fun push_new :: "'a list \<Rightarrow> 'a list \<Rightarrow> 'a list \<Rightarrow> 'a list \<times> 'a list" where
  "push_new [] queue visited = (queue, visited)"
| "push_new (y # ys) queue visited =
     (if y \<in> set visited then push_new ys queue visited
      else push_new ys (queue @ [y]) (y # visited))"

lemma push_new_visited: "set (snd (push_new ys q v)) = set v \<union> set ys"
  by (induction ys q v rule: push_new.induct) auto

lemma push_new_queue: "set (fst (push_new ys q v)) = set q \<union> (set ys - set v)"
  by (induction ys q v rule: push_new.induct) auto

lemma push_new_card:
  assumes "finite U" "set ys \<subseteq> U"
  shows "card (U - set (snd (push_new ys q v))) + length (fst (push_new ys q v)) \<le>
      card (U - set v) + length q"
  using assms
proof (induction ys q v rule: push_new.induct)
  case (2 y ys q v)
  show ?case
  proof (cases "y \<in> set v")
    case False
    then have "card (U - insert y (set v)) < card (U - set v)"
      using 2 by (intro psubset_card_mono) auto
    then show ?thesis using 2 False by simp
  qed (use 2 in simp)
qed simp

function bfs_marks :: "'a adjacency \<Rightarrow> 'a list \<Rightarrow> 'a list \<Rightarrow> 'a list" where
  "bfs_marks adj [] visited = visited"
| "bfs_marks adj (x # queue) visited =
     (let (queue', visited') = push_new (succs adj x) queue visited
      in bfs_marks adj queue' visited')"
  by pat_completeness auto

termination
proof (relation "measure (\<lambda>(adj, q, v). card (adj_targets adj - set v) + length q)", goal_cases)
  case (2 adj x queue visited qv queue' visited')
  then show ?case
    using push_new_card [OF finite_adj(2) succs_subset, of adj x queue visited]
    by (simp add: case_prod_beta prod_eq_iff le_imp_less_Suc)
qed simp

function bfs_finds :: "'a adjacency \<Rightarrow> 'a list \<Rightarrow> 'a list \<Rightarrow> 'a list \<Rightarrow> bool" where
  "bfs_finds adj targets [] visited = False"
| "bfs_finds adj targets (x # queue) visited =
     (if x \<in> set targets then True
      else let (queue', visited') = push_new (succs adj x) queue visited
           in bfs_finds adj targets queue' visited')"
  by pat_completeness auto

termination
proof (relation "measure (\<lambda>(adj, t, q, v). card (adj_targets adj - set v) + length q)", goal_cases)
  case (2 adj targets x queue visited qv queue' visited')
  then show ?case
    using push_new_card [OF finite_adj(2) succs_subset, of adj x queue visited]
    by (simp add: case_prod_beta prod_eq_iff le_imp_less_Suc)
qed simp

text \<open>A set that is closed under the edges contains what its members reach.\<close>

lemma closed_reach:
  assumes "\<forall>v \<in> V. set (succs adj v) \<subseteq> V" "x \<in> V" "(x, y) \<in> (adj_edges adj)\<^sup>*"
  shows "y \<in> V"
  using assms(3,2) by (induction rule: rtrancl_induct) (use assms(1) in auto)

lemma bfs_marks_correct:
  assumes "set queue \<subseteq> set visited" "\<forall>v \<in> set visited - set queue. set (succs adj v) \<subseteq> set visited"
  shows "set (bfs_marks adj queue visited) =
    set visited \<union> {y. \<exists>x \<in> set queue. (x, y) \<in> (adj_edges adj)\<^sup>*}"
  using assms
proof (induction adj queue visited rule: bfs_marks.induct)
  case (1 adj visited)
  then show ?case by simp
next
  case (2 adj x queue visited)
  obtain q' v' where qv: "push_new (succs adj x) queue visited = (q', v')"
    by (cases "push_new (succs adj x) queue visited")
  have q': "set q' = set queue \<union> (set (succs adj x) - set visited)"
    and v': "set v' = set visited \<union> set (succs adj x)"
    using push_new_queue [of "succs adj x" queue visited]
      push_new_visited [of "succs adj x" queue visited] by (simp_all add: qv)
  have "set (bfs_marks adj q' v') = set v' \<union> {y. \<exists>z \<in> set q'. (z, y) \<in> (adj_edges adj)\<^sup>*}"
    using 2 q' v' by (intro "2.IH" [OF qv [symmetric] refl]) auto
  moreover have "set v' \<union> {y. \<exists>z \<in> set q'. (z, y) \<in> (adj_edges adj)\<^sup>*} =
      set visited \<union> {y. \<exists>z \<in> set (x # queue). (z, y) \<in> (adj_edges adj)\<^sup>*}" (is "?L = ?R")
  proof
    have "set (succs adj x) \<subseteq> {y. (x, y) \<in> (adj_edges adj)\<^sup>*}" by auto
    moreover have "(z, y) \<in> (adj_edges adj)\<^sup>* \<Longrightarrow> z \<in> set (succs adj x) \<Longrightarrow>
        (x, y) \<in> (adj_edges adj)\<^sup>*" for z y
      by (simp add: converse_rtrancl_into_rtrancl)
    ultimately show "?L \<subseteq> ?R" unfolding q' v' by auto
    have closed: "\<forall>v \<in> ?L. set (succs adj v) \<subseteq> ?L"
    proof
      fix v assume "v \<in> ?L"
      then consider "v \<in> set v' - set q'" | z where "z \<in> set q'" "(z, v) \<in> (adj_edges adj)\<^sup>*"
        by auto
      then show "set (succs adj v) \<subseteq> ?L"
      proof cases
        case 1
        then show ?thesis using "2.prems" q' v' by auto
      next
        case 2
        then have "(z, w) \<in> (adj_edges adj)\<^sup>*" if "w \<in> set (succs adj v)" for w
          using that by (simp add: rtrancl_into_rtrancl)
        then show ?thesis using 2 by auto
      qed
    qed
    have "set (x # queue) \<subseteq> ?L" using "2.prems" v' by auto
    then have "y \<in> ?L" if "z \<in> set (x # queue)" "(z, y) \<in> (adj_edges adj)\<^sup>*" for z y
      using closed_reach [OF closed _ that(2)] that(1) by blast
    moreover have "set visited \<subseteq> ?L" using v' by auto
    ultimately show "?R \<subseteq> ?L" by blast
  qed
  ultimately show ?case by (simp add: qv)
qed

corollary bfs_marks_iff: "y \<in> set (bfs_marks adj [x] [x]) \<longleftrightarrow> (x, y) \<in> (adj_edges adj)\<^sup>*"
  by (subst bfs_marks_correct) auto

lemma bfs_finds_correct:
  assumes "set queue \<subseteq> set visited" "\<forall>v \<in> set visited - set queue. set (succs adj v) \<subseteq> set visited"
    and "\<forall>v \<in> set visited - set queue. v \<notin> set targets"
  shows "bfs_finds adj targets queue visited \<longleftrightarrow>
    (\<exists>x \<in> set queue. \<exists>t \<in> set targets. (x, t) \<in> (adj_edges adj)\<^sup>*)"
  using assms
proof (induction adj targets queue visited rule: bfs_finds.induct)
  case (1 adj targets visited)
  then show ?case by simp
next
  case (2 adj targets x queue visited)
  show ?case
  proof (cases "x \<in> set targets")
    case True
    then show ?thesis by auto
  next
    case False
    obtain q' v' where qv: "push_new (succs adj x) queue visited = (q', v')"
      by (cases "push_new (succs adj x) queue visited")
    have q': "set q' = set queue \<union> (set (succs adj x) - set visited)"
      and v': "set v' = set visited \<union> set (succs adj x)"
      using push_new_queue [of "succs adj x" queue visited]
        push_new_visited [of "succs adj x" queue visited] by (simp_all add: qv)
    have closed: "\<forall>v \<in> set v' - set q'. set (succs adj v) \<subseteq> set v'"
      "\<forall>v \<in> set v' - set q'. v \<notin> set targets"
      using "2.prems" False unfolding q' v' by auto
    have "bfs_finds adj targets q' v' \<longleftrightarrow>
        (\<exists>z \<in> set q'. \<exists>t \<in> set targets. (z, t) \<in> (adj_edges adj)\<^sup>*)"
      using "2.prems"(1) q' v' closed by (intro "2.IH" [OF False qv [symmetric] refl]) auto
    also have "\<dots> \<longleftrightarrow> (\<exists>z \<in> set (x # queue). \<exists>t \<in> set targets. (z, t) \<in> (adj_edges adj)\<^sup>*)"
    proof
      assume "\<exists>z \<in> set q'. \<exists>t \<in> set targets. (z, t) \<in> (adj_edges adj)\<^sup>*"
      then obtain z t where z: "z \<in> set q'" "t \<in> set targets" "(z, t) \<in> (adj_edges adj)\<^sup>*" by blast
      have "(x, t) \<in> (adj_edges adj)\<^sup>*" if "z \<in> set (succs adj x)"
        using that z(3) by (simp add: converse_rtrancl_into_rtrancl)
      then show "\<exists>z \<in> set (x # queue). \<exists>t \<in> set targets. (z, t) \<in> (adj_edges adj)\<^sup>*"
        using z q' by auto
    next
      assume "\<exists>z \<in> set (x # queue). \<exists>t \<in> set targets. (z, t) \<in> (adj_edges adj)\<^sup>*"
      then obtain z t where z: "z \<in> set (x # queue)" "t \<in> set targets" "(z, t) \<in> (adj_edges adj)\<^sup>*"
        by blast
      have "\<exists>y \<in> set q'. (y, t) \<in> (adj_edges adj)\<^sup>*"
      proof (cases "z \<in> set q'")
        case True
        then show ?thesis using z(3) by blast
      next
        case not_queued: False
        let ?V = "set v' - set q'"
        have "z \<in> ?V" using z(1) "2.prems"(1) v' not_queued by auto
        moreover have "t \<notin> ?V" using closed(2) z(2) by blast
        moreover have "\<forall>v \<in> ?V. set (succs adj v) \<subseteq> ?V \<union> set q'" using closed(1) by blast
        ultimately show ?thesis by (rule reach_leaves_closed [OF z(3)])
      qed
      then show "\<exists>z \<in> set q'. \<exists>t \<in> set targets. (z, t) \<in> (adj_edges adj)\<^sup>*" using z(2) by blast
    qed
    finally show ?thesis using False by (simp add: qv)
  qed
qed

corollary bfs_finds_iff:
  "bfs_finds adj targets [x] [x] \<longleftrightarrow> (\<exists>t \<in> set targets. (x, t) \<in> (adj_edges adj)\<^sup>*)"
  by (subst bfs_finds_correct) auto

section \<open>Three colours\<close>

datatype mark = White | Grey | Black

type_synonym 'a marks = "'a \<Rightarrow> mark option"

text \<open>
  \<open>visit\<close> returns whether no back edge was met, and the marks; \<open>None\<close> is a recursion deeper than
  the fuel. \<open>visit_succs\<close> is its loop over the successors.
\<close>

function visit :: "nat \<Rightarrow> 'a adjacency \<Rightarrow> 'a \<Rightarrow> 'a marks \<Rightarrow> (bool \<times> 'a marks) option"
  and visit_succs :: "nat \<Rightarrow> 'a adjacency \<Rightarrow> 'a list \<Rightarrow> 'a marks \<Rightarrow> (bool \<times> 'a marks) option"
where
  "visit 0 adj x m = None"
| "visit (Suc n) adj x m =
     (case m x of
        Some Grey \<Rightarrow> Some (False, m)
      | Some Black \<Rightarrow> Some (True, m)
      | _ \<Rightarrow>
          (case visit_succs n adj (succs adj x) (m(x \<mapsto> Grey)) of
             Some (True, m') \<Rightarrow> Some (True, m'(x \<mapsto> Black))
           | r \<Rightarrow> r))"
| "visit_succs n adj [] m = Some (True, m)"
| "visit_succs n adj (y # ys) m =
     (case visit n adj y m of
        Some (True, m') \<Rightarrow> visit_succs n adj ys m'
      | r \<Rightarrow> r)"
  by pat_completeness auto

termination
  by (relation "measures [\<lambda>x. (case x of Inl (n, _) \<Rightarrow> n | Inr (n, _) \<Rightarrow> n),
        \<lambda>x. (case x of Inl _ \<Rightarrow> 0 | Inr (_, _, xs, _) \<Rightarrow> Suc (length xs))]") auto

text \<open>\<open>for node in nodes { if !visit(node) { .. } }\<close> is the same loop.\<close>

definition visit_all :: "nat \<Rightarrow> 'a adjacency \<Rightarrow> 'a list \<Rightarrow> bool option" where
  "visit_all n adj xs =
     map_option fst (visit_succs n adj xs (\<lambda>x. if x \<in> set xs then Some White else None))"

definition black :: "'a marks \<Rightarrow> 'a set" where
  "black m = {x. m x = Some Black}"

definition grey :: "'a marks \<Rightarrow> 'a set" where
  "grey m = {x. m x = Some Grey}"

lemma mark_upd [simp]:
  "black (m(x \<mapsto> Grey)) = black m - {x}" "grey (m(x \<mapsto> Grey)) = insert x (grey m)"
  "black (m(x \<mapsto> Black)) = insert x (black m)" "grey (m(x \<mapsto> Black)) = grey m - {x}"
  by (auto simp: black_def grey_def)

lemma fresh_mark:
  "m x \<noteq> Some Grey \<Longrightarrow> m x \<noteq> Some Black \<Longrightarrow> x \<notin> black m \<and> x \<notin> grey m"
  by (simp add: black_def grey_def)

text \<open>What a search without a back edge leaves: no cycle among the black nodes, and no way out.\<close>

definition settled :: "'a adjacency \<Rightarrow> 'a set \<Rightarrow> bool" where
  "settled adj B \<longleftrightarrow> (\<forall>b \<in> B. set (succs adj b) \<subseteq> B \<and> (b, b) \<notin> (adj_edges adj)\<^sup>+)"

lemma closed_trancl:
  assumes "(x, y) \<in> (adj_edges adj)\<^sup>+" "\<forall>b \<in> B. set (succs adj b) \<subseteq> B" "x \<in> B"
  shows "y \<in> B"
  using closed_reach [OF assms(2,3)] assms(1) by (simp add: trancl_into_rtrancl)

lemma settled_insert:
  assumes "settled adj B" "x \<notin> B" "set (succs adj x) \<subseteq> B"
  shows "settled adj (insert x B)"
proof -
  have closed: "\<forall>b \<in> B. set (succs adj b) \<subseteq> B"
    using assms(1) by (simp add: settled_def)
  have "(x, x) \<notin> (adj_edges adj)\<^sup>+"
  proof
    assume "(x, x) \<in> (adj_edges adj)\<^sup>+"
    then obtain y where "(x, y) \<in> adj_edges adj" "(y, x) \<in> (adj_edges adj)\<^sup>*"
      by (metis tranclD)
    then show False
      using closed_reach [OF closed] assms(2,3) by (auto simp: subset_iff)
  qed
  then show ?thesis using assms(1,3) by (auto simp: settled_def)
qed

lemma visit_True:
  "visit n adj x m = Some (True, m') \<Longrightarrow> settled adj (black m) \<Longrightarrow>
     settled adj (black m') \<and> black m \<subseteq> black m' \<and> grey m' = grey m \<and> x \<in> black m'"
  "visit_succs n adj ys m = Some (True, m') \<Longrightarrow> settled adj (black m) \<Longrightarrow>
     settled adj (black m') \<and> black m \<subseteq> black m' \<and> grey m' = grey m \<and> set ys \<subseteq> black m'"
proof (induction n adj x m and n adj ys m arbitrary: m' and m' rule: visit_visit_succs.induct)
  case (2 n adj x m)
  show ?case
  proof (cases "m x = Some Black")
    case True
    then show ?thesis using "2.prems" by (auto simp: black_def)
  next
    case not_black: False
    with "2.prems" have not_grey: "m x \<noteq> Some Grey" by auto
    obtain m1 where m1: "visit_succs n adj (succs adj x) (m(x \<mapsto> Grey)) = Some (True, m1)"
      "m' = m1(x \<mapsto> Black)"
      using "2.prems"(1) not_black not_grey
      by (auto split: option.splits mark.splits prod.splits bool.splits)
    have fresh: "x \<notin> black m" "x \<notin> grey m"
      using fresh_mark [of m x] not_grey not_black by simp_all
    have ih: "settled adj (black m1) \<and> black m \<subseteq> black m1 \<and> grey m1 = insert x (grey m) \<and>
        set (succs adj x) \<subseteq> black m1"
    proof -
      have "settled adj (black (m(x \<mapsto> Grey)))" using "2.prems"(2) fresh by simp
      moreover have "m x = None \<or> m x = Some White"
        using not_black not_grey by (metis mark.exhaust not_Some_eq)
      ultimately show ?thesis using "2.IH" m1(1) fresh by fastforce
    qed
    then have "x \<in> grey m1" by simp
    then have "x \<notin> black m1" by (simp add: black_def grey_def)
    then have "settled adj (insert x (black m1))"
      using ih settled_insert [of adj "black m1" x] by simp
    then show ?thesis
      unfolding m1(2) mark_upd using ih fresh by simp blast
  qed
next
  case (4 n adj y ys m)
  then obtain m1 where m1: "visit n adj y m = Some (True, m1)"
    "visit_succs n adj ys m1 = Some (True, m')"
    by (auto split: option.splits prod.splits bool.splits)
  have first: "settled adj (black m1) \<and> black m \<subseteq> black m1 \<and> grey m1 = grey m \<and> y \<in> black m1"
    using "4.IH"(1) m1(1) "4.prems"(2) by blast
  then have "settled adj (black m') \<and> black m1 \<subseteq> black m' \<and> grey m' = grey m1 \<and> set ys \<subseteq> black m'"
    using "4.IH"(2) m1 by blast
  then show ?case using first by auto
qed simp_all

lemma visit_False:
  "visit n adj x m = Some (False, m') \<Longrightarrow> \<forall>g \<in> grey m. (g, x) \<in> (adj_edges adj)\<^sup>+ \<Longrightarrow>
     settled adj (black m) \<Longrightarrow> \<exists>c. (x, c) \<in> (adj_edges adj)\<^sup>* \<and> (c, c) \<in> (adj_edges adj)\<^sup>+"
  "visit_succs n adj ys m = Some (False, m') \<Longrightarrow>
     \<forall>g \<in> grey m. \<forall>y \<in> set ys. (g, y) \<in> (adj_edges adj)\<^sup>+ \<Longrightarrow> settled adj (black m) \<Longrightarrow>
     \<exists>y \<in> set ys. \<exists>c. (y, c) \<in> (adj_edges adj)\<^sup>* \<and> (c, c) \<in> (adj_edges adj)\<^sup>+"
proof (induction n adj x m and n adj ys m arbitrary: m' and m' rule: visit_visit_succs.induct)
  case (2 n adj x m)
  show ?case
  proof (cases "m x = Some Grey")
    case True
    then show ?thesis using "2.prems"(2) by (auto simp: grey_def)
  next
    case not_grey: False
    with "2.prems" have not_black: "m x \<noteq> Some Black" by auto
    have fresh: "x \<notin> black m" "x \<notin> grey m"
      using fresh_mark [of m x] not_grey not_black by simp_all
    have white: "m x = None \<or> m x = Some White"
      using not_black not_grey by (metis mark.exhaust not_Some_eq)
    then have "visit_succs n adj (succs adj x) (m(x \<mapsto> Grey)) = Some (False, m')"
      using "2.prems"(1) by (auto split: option.splits prod.splits bool.splits)
    moreover have "\<forall>g \<in> grey (m(x \<mapsto> Grey)). \<forall>y \<in> set (succs adj x). (g, y) \<in> (adj_edges adj)\<^sup>+"
      using "2.prems"(2) by (auto intro: trancl_into_trancl)
    moreover have "settled adj (black (m(x \<mapsto> Grey)))" using "2.prems"(3) fresh by simp
    ultimately obtain y c where "y \<in> set (succs adj x)" "(y, c) \<in> (adj_edges adj)\<^sup>*"
      "(c, c) \<in> (adj_edges adj)\<^sup>+"
      using "2.IH" white by blast
    then show ?thesis
      by (meson adj_edges_iff converse_rtrancl_into_rtrancl)
  qed
next
  case (4 n adj y ys m)
  show ?case
  proof (cases "visit n adj y m")
    case None
    then show ?thesis using "4.prems"(1) by simp
  next
    case (Some r)
    obtain b m1 where r: "r = (b, m1)" by (cases r)
    show ?thesis
    proof (cases b)
      case True
      have "settled adj (black m1) \<and> grey m1 = grey m"
        using visit_True(1) [of n adj y m m1] Some r True "4.prems"(3) by simp
      then have "\<exists>z \<in> set ys. \<exists>c. (z, c) \<in> (adj_edges adj)\<^sup>* \<and> (c, c) \<in> (adj_edges adj)\<^sup>+"
        using "4.IH"(2) [of "(True, m1)" True m1 m'] Some r True "4.prems" by simp
      then show ?thesis by auto
    next
      case False
      then show ?thesis using "4.IH"(1) [of m1] Some r "4.prems" by auto
    qed
  qed
qed simp_all


text \<open>The depth: every call below a fresh node has one fresh node less.\<close>

definition fresh :: "'a marks \<Rightarrow> 'a set" where
  "fresh m = {x. m x \<noteq> Some Grey \<and> m x \<noteq> Some Black}"

lemma fresh_upd [simp]:
  "fresh (m(x \<mapsto> Grey)) = fresh m - {x}" "fresh (m(x \<mapsto> Black)) = fresh m - {x}"
  by (auto simp: fresh_def)

lemma visit_fresh:
  "visit n adj x m = Some (b, m') \<Longrightarrow> fresh m' \<subseteq> fresh m"
  "visit_succs n adj ys m = Some (b, m') \<Longrightarrow> fresh m' \<subseteq> fresh m"
proof (induction n adj x m and n adj ys m arbitrary: b m' and b m' rule: visit_visit_succs.induct)
  case (2 n adj x m)
  then show ?case
    by (fastforce split: option.splits mark.splits prod.splits bool.splits)
next
  case (4 n adj y ys m)
  then show ?case
    by (fastforce split: option.splits prod.splits bool.splits)
qed simp_all

lemma visit_enough:
  assumes "finite U" "adj_targets adj \<subseteq> U"
  shows "x \<in> U \<Longrightarrow> card (fresh m \<inter> U) < n \<Longrightarrow> visit n adj x m \<noteq> None"
    and "set ys \<subseteq> U \<Longrightarrow> card (fresh m \<inter> U) < n \<Longrightarrow> visit_succs n adj ys m \<noteq> None"
  using assms
proof (induction n adj x m and n adj ys m rule: visit_visit_succs.induct)
  case (2 n adj x m)
  show ?case
  proof (cases "x \<in> fresh m")
    case True
    have "fresh (m(x \<mapsto> Grey)) \<inter> U \<subset> fresh m \<inter> U"
      using True 2 by auto
    then have "card (fresh (m(x \<mapsto> Grey)) \<inter> U) < card (fresh m \<inter> U)"
      using \<open>finite U\<close> by (intro psubset_card_mono) simp_all
    then have less: "card (fresh (m(x \<mapsto> Grey)) \<inter> U) < n"
      using 2 by simp
    have subset: "set (succs adj x) \<subseteq> U"
      using succs_subset \<open>adj_targets adj \<subseteq> U\<close> by (rule order_trans)
    have white: "m x = None \<or> m x = Some White"
      using True mark.exhaust by (cases "m x") (auto simp: fresh_def)
    then have "visit_succs n adj (succs adj x) (m(x \<mapsto> Grey)) \<noteq> None"
      using "2.IH" subset less \<open>finite U\<close> \<open>adj_targets adj \<subseteq> U\<close> by blast
    then show ?thesis
      using white by (auto split: option.split prod.split bool.split)
  next
    case False
    then show ?thesis by (auto simp: fresh_def)
  qed
next
  case (4 n adj y ys m)
  have "visit n adj y m \<noteq> None"
    using 4 by simp
  then obtain b m1 where m1: "visit n adj y m = Some (b, m1)" by auto
  have "card (fresh m1 \<inter> U) \<le> card (fresh m \<inter> U)"
    using visit_fresh(1) [OF m1] \<open>finite U\<close> by (intro card_mono) auto
  then show ?case
    using 4 m1 by (auto split: bool.split)
qed simp_all

theorem visit_all_correct:
  assumes "card (set xs \<union> adj_targets adj) < n"
  shows "visit_all n adj xs =
    Some (\<not> (\<exists>x \<in> set xs. \<exists>c. (x, c) \<in> (adj_edges adj)\<^sup>* \<and> (c, c) \<in> (adj_edges adj)\<^sup>+))"
proof -
  let ?m = "\<lambda>x. if x \<in> set xs then Some White else None"
  let ?U = "set xs \<union> adj_targets adj"
  have white: "black ?m = {}" "grey ?m = {}" "fresh ?m = UNIV"
    by (auto simp: black_def grey_def fresh_def)
  have fin: "finite ?U" by simp
  have "visit_succs n adj xs ?m \<noteq> None"
    by (rule visit_enough(2) [OF fin]) (use assms white in auto)
  then obtain b m' where r: "visit_succs n adj xs ?m = Some (b, m')" by auto
  have settled: "settled adj (black ?m)" unfolding white by (simp add: settled_def)
  show ?thesis
  proof (cases b)
    case True
    have m': "settled adj (black m') \<and> set xs \<subseteq> black m'"
      using visit_True(2) [of n adj xs ?m m'] r True settled by simp
    have "(c, c) \<notin> (adj_edges adj)\<^sup>+" if "x \<in> set xs" "(x, c) \<in> (adj_edges adj)\<^sup>*" for x c
    proof -
      have "c \<in> black m'"
        using closed_reach [of "black m'" adj x c] m' that by (auto simp: settled_def)
      then show ?thesis using m' by (simp add: settled_def)
    qed
    then show ?thesis using r True by (auto simp: visit_all_def)
  next
    case False
    have "\<exists>y \<in> set xs. \<exists>c. (y, c) \<in> (adj_edges adj)\<^sup>* \<and> (c, c) \<in> (adj_edges adj)\<^sup>+"
      using visit_False(2) [of n adj xs ?m m'] r False settled unfolding white by simp
    then show ?thesis using r False by (auto simp: visit_all_def)
  qed
qed

end
