(* ===== verification/Workflow_Kernel.thy ===== *)
theory Workflow_Kernel
  imports Workflow_Model Graph_Walk
begin

text \<open>
  The deterministic kernel (\<open>domain/kernel.rs\<close>): the ten checks in the order of the source, each
  reporting its first violation, and their declarative meaning. Definitions come first; the second half
  shows that the kernel accepts exactly the well-formed graphs.

  The recursion of the cycle check is bounded by the stack of the process; its model has fuel, and a
  recursion deeper than the fuel would be a panic. The fuel is the number of nodes and edges plus one,
  and \<open>visit_all_correct\<close> shows that it is never used up.
\<close>

section \<open>The checks\<close>

definition edge_pairs :: "edge_definition list \<Rightarrow> (node_id \<times> node_id) list" where
  "edge_pairs es = map (\<lambda>e. (ed_from_node_id e, ed_to_node_id e)) es"

definition edge_adj :: "edge_definition list \<Rightarrow> node_id adjacency" where
  "edge_adj es = build_adj (edge_pairs es)"

definition node_ids :: "node_definition list \<Rightarrow> node_id list" where
  "node_ids ns = map nd_node_id ns"

definition graph_err :: "graph_invariant_reason \<Rightarrow> ustr option \<Rightarrow> (graph_error, 'a) outcome" where
  "graph_err why subject = Err \<lparr>ge_reason = why, ge_subject = subject\<rparr>"

fun check_edge_ends :: "node_id list \<Rightarrow> edge_definition list \<Rightarrow> (graph_error, unit) outcome" where
  "check_edge_ends known [] = Ok ()"
| "check_edge_ends known (e # es) =
     (if ed_from_node_id e \<notin> set known then graph_err MissingNode (Some (ed_from_node_id e))
      else if ed_to_node_id e \<notin> set known then graph_err MissingNode (Some (ed_to_node_id e))
      else check_edge_ends known es)"

definition check_references :: "workflow_definition \<Rightarrow> (graph_error, unit) outcome" where
  "check_references d =
     (let known = node_ids (wd_nodes d)
      in if wd_root_node_id d \<notin> set known then graph_err MissingNode (Some (wd_root_node_id d))
         else check_edge_ends known (wd_edges d))"

definition check_self_loops :: "workflow_definition \<Rightarrow> (graph_error, unit) outcome" where
  "check_self_loops d =
     (case find (\<lambda>e. ed_from_node_id e = ed_to_node_id e) (wd_edges d) of
        Some e \<Rightarrow> graph_err SelfLoop (Some (ed_from_node_id e))
      | None \<Rightarrow> Ok ())"

definition visit_fuel :: "edge_definition list \<Rightarrow> node_id list \<Rightarrow> nat" where
  "visit_fuel es ids = Suc (length ids + length es)"

definition check_cycles :: "workflow_definition \<Rightarrow> (graph_error, unit) outcome" where
  "check_cycles d =
     (let ids = node_ids (wd_nodes d)
      in case visit_all (visit_fuel (wd_edges d) ids) (edge_adj (wd_edges d)) ids of
           None \<Rightarrow> Panic
         | Some True \<Rightarrow> Ok ()
         | Some False \<Rightarrow> graph_err CycleDetected None)"

definition complete_node_ids :: "node_definition list \<Rightarrow> node_id list" where
  "complete_node_ids ns = map nd_node_id (filter (\<lambda>n. nd_kind n = KindComplete) ns)"

definition check_complete_nodes :: "workflow_definition \<Rightarrow> (graph_error, unit) outcome" where
  "check_complete_nodes d =
     (case complete_node_ids (wd_nodes d) of
        [] \<Rightarrow> graph_err MissingCompleteNode None
      | [c] \<Rightarrow>
          if list_ex (\<lambda>e. ed_from_node_id e = c) (wd_edges d)
          then graph_err CompleteNodeHasSuccessor (Some c)
          else Ok ()
      | _ \<Rightarrow> graph_err MultipleCompleteNodes None)"

definition root_candidates :: "workflow_definition \<Rightarrow> node_id list" where
  "root_candidates d =
     filter (\<lambda>i. i \<notin> set (map ed_to_node_id (wd_edges d))) (node_ids (wd_nodes d))"

definition check_single_root :: "workflow_definition \<Rightarrow> (graph_error, unit) outcome" where
  "check_single_root d =
     (if length (root_candidates d) \<noteq> 1 \<or> root_candidates d ! 0 \<noteq> wd_root_node_id d
      then graph_err MultipleRoots None else Ok ())"

definition check_root_kind :: "workflow_definition \<Rightarrow> (graph_error, unit) outcome" where
  "check_root_kind d =
     (case find (\<lambda>n. nd_node_id n = wd_root_node_id d) (wd_nodes d) of
        Some root \<Rightarrow>
          if nd_kind root \<noteq> KindWork then graph_err RootIsSpecialKind (Some (nd_node_id root))
          else Ok ()
      | None \<Rightarrow> Ok ())"

fun check_roles_from :: "node_definition list \<Rightarrow> (graph_error, unit) outcome" where
  "check_roles_from [] = Ok ()"
| "check_roles_from (n # ns) =
     (case nd_kind n of
        KindWork \<Rightarrow>
          if nd_role n = None then graph_err WorkNodeMissingRole (Some (nd_node_id n))
          else check_roles_from ns
      | _ \<Rightarrow>
          if nd_role n \<noteq> None then graph_err RoleOnSpecialKind (Some (nd_node_id n))
          else check_roles_from ns)"

definition check_roles :: "workflow_definition \<Rightarrow> (graph_error, unit) outcome" where
  "check_roles d = check_roles_from (wd_nodes d)"

definition check_reachable :: "workflow_definition \<Rightarrow> (graph_error, unit) outcome" where
  "check_reachable d =
     (let root = wd_root_node_id d;
          visited = bfs_marks (edge_adj (wd_edges d)) [root] [root]
      in case find (\<lambda>n. nd_node_id n \<notin> set visited) (wd_nodes d) of
           Some n \<Rightarrow> graph_err UnreachableNode (Some (nd_node_id n))
         | None \<Rightarrow> Ok ())"

definition check_successors :: "workflow_definition \<Rightarrow> (graph_error, unit) outcome" where
  "check_successors d =
     (let has_successor = map ed_from_node_id (wd_edges d)
      in case find (\<lambda>n. nd_kind n \<noteq> KindComplete \<and> nd_node_id n \<notin> set has_successor) (wd_nodes d) of
           Some n \<Rightarrow> graph_err NodeWithoutSuccessor (Some (nd_node_id n))
         | None \<Rightarrow> Ok ())"

text \<open>The inner loops that turn every entry \<open>(from, successors)\<close> around.\<close>

definition reverse_adj :: "node_id adjacency \<Rightarrow> node_id adjacency" where
  "reverse_adj adj = build_adj (concat (map (\<lambda>(x, ys). map (\<lambda>y. (y, x)) ys) adj))"

definition check_path_to_complete :: "workflow_definition \<Rightarrow> (graph_error, unit) outcome" where
  "check_path_to_complete d =
     (case find (\<lambda>n. nd_kind n = KindComplete) (wd_nodes d) of
        None \<Rightarrow> Ok ()
      | Some c \<Rightarrow>
          let reverse = reverse_adj (edge_adj (wd_edges d));
              reaches_complete = bfs_marks reverse [nd_node_id c] [nd_node_id c]
          in case find (\<lambda>n. nd_kind n \<noteq> KindComplete \<and> nd_node_id n \<notin> set reaches_complete)
                   (wd_nodes d) of
               Some n \<Rightarrow> graph_err NoPathToCompleteNode (Some (nd_node_id n))
             | None \<Rightarrow> Ok ())"

definition validate_inner :: "workflow_definition \<Rightarrow> (graph_error, unit) outcome" where
  "validate_inner d =
     guard_ok (check_references d)
     (guard_ok (check_self_loops d)
     (guard_ok (check_cycles d)
     (guard_ok (check_complete_nodes d)
     (guard_ok (check_single_root d)
     (guard_ok (check_root_kind d)
     (guard_ok (check_roles d)
     (guard_ok (check_reachable d)
     (guard_ok (check_successors d)
     (check_path_to_complete d)))))))))"

definition validate :: "workflow_definition \<Rightarrow> (graph_error, unit) outcome" where
  "validate d =
     (case validate_inner d of Err e \<Rightarrow> Err e | Ok _ \<Rightarrow> Ok () | Panic \<Rightarrow> Panic)"

section \<open>What the checks mean\<close>

definition edge_rel :: "edge_definition list \<Rightarrow> (node_id \<times> node_id) set" where
  "edge_rel es = set (edge_pairs es)"

lemma edge_rel_iff [simp]:
  "(x, y) \<in> edge_rel es \<longleftrightarrow> (\<exists>e \<in> set es. ed_from_node_id e = x \<and> ed_to_node_id e = y)"
  by (auto simp: edge_rel_def edge_pairs_def)

lemma edge_rel_simps [simp]:
  "edge_rel [] = {}" "edge_rel (e # es) = insert (ed_from_node_id e, ed_to_node_id e) (edge_rel es)"
  "edge_rel (es @ fs) = edge_rel es \<union> edge_rel fs"
  by (simp_all add: edge_rel_def edge_pairs_def)

lemma adj_edges_edge_adj [simp]: "adj_edges (edge_adj es) = edge_rel es"
  by (simp add: edge_adj_def edge_rel_def adj_edges_build)


lemma distinct_build: "distinct (hm_keys (build_adj es))"
proof -
  have "distinct (hm_keys (fold (\<lambda>(x, y). adj_push x y) es adj))" if "distinct (hm_keys adj)" for adj
    using that by (induction es arbitrary: adj) (simp_all add: adj_push_def split_beta)
  then show ?thesis by (simp add: build_adj_def)
qed

lemma adj_edges_reverse:
  assumes "distinct (hm_keys adj)"
  shows "adj_edges (reverse_adj adj) = (adj_edges adj)\<inverse>"
proof -
  have "(y, x) \<in> adj_edges (reverse_adj adj) \<longleftrightarrow> (\<exists>ys. (x, ys) \<in> set adj \<and> y \<in> set ys)" for x y
    unfolding reverse_adj_def adj_edges_build by auto
  also have "(\<exists>ys. (x, ys) \<in> set adj \<and> y \<in> set ys) \<longleftrightarrow> (x, y) \<in> adj_edges adj" for x y
    unfolding map_of_eq_Some_iff [OF assms, symmetric]
    by (cases "map_of adj x") (simp_all add: succs_def)
  finally have "(y, x) \<in> adj_edges (reverse_adj adj) \<longleftrightarrow> (y, x) \<in> (adj_edges adj)\<inverse>" for x y
    by (simp only: converse_iff)
  then show ?thesis by (intro equalityI subrelI) (simp_all only:)
qed

lemma targets_push: "adj_targets (adj_push x y adj) \<subseteq> insert y (adj_targets adj)"
proof -
  have vs: "set (hm_values (hm_insert k v m)) \<subseteq> insert v (set (hm_values m))"
    for k v and m :: "('a, 'a list) hmap"
    by (induction m) auto
  have "adj_targets (adj_push x y adj) \<subseteq>
      (\<Union>ys \<in> insert (succs adj x @ [y]) (set (hm_values adj)). set ys)"
    unfolding adj_push_def adj_targets_def by (rule UN_mono [OF vs order_refl])
  also have "\<dots> \<subseteq> insert y (adj_targets adj)"
    using succs_subset [of adj x] by (auto simp: adj_targets_def)
  finally show ?thesis .
qed

lemma targets_build: "adj_targets (build_adj es) \<subseteq> snd ` set es"
proof -
  have "adj_targets (fold (\<lambda>(x, y). adj_push x y) es adj) \<subseteq> adj_targets adj \<union> snd ` set es" for adj
  proof (induction es arbitrary: adj)
    case (Cons e es)
    from Cons [of "adj_push (fst e) (snd e) adj"] targets_push [of "fst e" "snd e" adj]
    show ?case by (auto simp: split_beta)
  qed simp
  from this [of "[]"] show ?thesis by (simp add: build_adj_def adj_targets_def)
qed

lemma visit_fuel_enough: "card (set ids \<union> adj_targets (edge_adj es)) < visit_fuel es ids"
proof -
  have "card (set ids \<union> adj_targets (edge_adj es)) \<le> card (set (ids @ map ed_to_node_id es))"
    using targets_build [of "edge_pairs es"]
    by (intro card_mono) (auto simp: edge_adj_def edge_pairs_def)
  also have "\<dots> \<le> length ids + length es"
    using card_length [of "ids @ map ed_to_node_id es"] by simp
  finally show ?thesis by (simp add: visit_fuel_def)
qed

text \<open>What the cycle check decides, for the kernel and for the merged graph of a replan.\<close>

definition cycle_from :: "node_id list \<Rightarrow> edge_definition list \<Rightarrow> bool" where
  "cycle_from ids es \<longleftrightarrow>
     (\<exists>x \<in> set ids. \<exists>c. (x, c) \<in> (edge_rel es)\<^sup>* \<and> (c, c) \<in> (edge_rel es)\<^sup>+)"

lemma visit_all_edges:
  "visit_all (visit_fuel es ids) (edge_adj es) ids = Some (\<not> cycle_from ids es)"
  unfolding visit_all_correct [OF visit_fuel_enough] adj_edges_edge_adj cycle_from_def ..

lemma cycle_from_acyclic:
  assumes "edge_rel es \<subseteq> set ids \<times> set ids"
  shows "\<not> cycle_from ids es \<longleftrightarrow> acyclic (edge_rel es)"
proof -
  have "c \<in> set ids" if "(c, c) \<in> (edge_rel es)\<^sup>+" for c
    using assms tranclD [OF that] by blast
  then show ?thesis unfolding cycle_from_def acyclic_def by blast
qed

definition id_set :: "workflow_definition \<Rightarrow> node_id set" where
  "id_set d = set (node_ids (wd_nodes d))"

lemma graph_err_neq [simp]: "graph_err why s \<noteq> Ok x" "graph_err why s \<noteq> Panic"
  by (simp_all add: graph_err_def)

lemma find_check [simp]:
  "(case find P xs of None \<Rightarrow> Ok () | Some n \<Rightarrow> graph_err why (s n)) = Ok () \<longleftrightarrow> (\<forall>x \<in> set xs. \<not> P x)"
  "(case find P xs of None \<Rightarrow> Ok () | Some n \<Rightarrow> graph_err why (s n)) \<noteq> Panic"
proof -
  have "(find P xs = None) = (\<forall>x \<in> set xs. \<not> P x)"
    by (auto simp: find_None_iff)
  then show "(case find P xs of None \<Rightarrow> Ok () | Some n \<Rightarrow> graph_err why (s n)) = Ok () \<longleftrightarrow>
      (\<forall>x \<in> set xs. \<not> P x)"
    by (cases "find P xs") auto
qed (simp split: option.split)

lemma id_set_image: "id_set d = nd_node_id ` set (wd_nodes d)"
  by (simp add: id_set_def node_ids_def)

lemma check_edge_ends_Ok:
  "check_edge_ends known es = Ok () \<longleftrightarrow> edge_rel es \<subseteq> set known \<times> set known"
  by (induction known es rule: check_edge_ends.induct) (simp_all del: edge_rel_iff)

lemma check_references_Ok:
  "check_references d = Ok () \<longleftrightarrow>
     wd_root_node_id d \<in> id_set d \<and> edge_rel (wd_edges d) \<subseteq> id_set d \<times> id_set d"
  by (simp add: check_references_def Let_def check_edge_ends_Ok id_set_def)

lemma check_self_loops_Ok:
  "check_self_loops d = Ok () \<longleftrightarrow> (\<forall>x. (x, x) \<notin> edge_rel (wd_edges d))"
  by (auto simp: check_self_loops_def)

lemma check_cycles_result:
  "check_cycles d =
     (if cycle_from (node_ids (wd_nodes d)) (wd_edges d) then graph_err CycleDetected None else Ok ())"
  by (simp add: check_cycles_def Let_def visit_all_edges)

lemma check_complete_nodes_Ok:
  "check_complete_nodes d = Ok () \<longleftrightarrow>
     (\<exists>c. complete_node_ids (wd_nodes d) = [c] \<and> c \<notin> Domain (edge_rel (wd_edges d)))"
  by (auto simp: check_complete_nodes_def list_ex_iff Domain_iff split: list.split)

lemma check_single_root_Ok:
  "check_single_root d = Ok () \<longleftrightarrow> root_candidates d = [wd_root_node_id d]"
  by (cases "root_candidates d") (auto simp: check_single_root_def)

lemma check_root_kind_Ok:
  "check_root_kind d = Ok () \<longleftrightarrow>
     (\<forall>n. find (\<lambda>n. nd_node_id n = wd_root_node_id d) (wd_nodes d) = Some n \<longrightarrow> nd_kind n = KindWork)"
  by (auto simp: check_root_kind_def split: option.split)

lemma check_roles_Ok:
  "check_roles d = Ok () \<longleftrightarrow>
     (\<forall>n \<in> set (wd_nodes d). nd_kind n = KindWork \<longleftrightarrow> nd_role n \<noteq> None)"
proof -
  have "check_roles_from ns = Ok () \<longleftrightarrow> (\<forall>n \<in> set ns. nd_kind n = KindWork \<longleftrightarrow> nd_role n \<noteq> None)" for ns
  proof (induction ns)
    case (Cons n ns)
    then show ?case by (cases "nd_kind n"; cases "nd_role n") simp_all
  qed simp
  then show ?thesis by (simp add: check_roles_def)
qed

lemma check_reachable_Ok:
  "check_reachable d = Ok () \<longleftrightarrow>
     (\<forall>x \<in> id_set d. (wd_root_node_id d, x) \<in> (edge_rel (wd_edges d))\<^sup>*)"
proof -
  have "(\<forall>x \<in> id_set d. P x) \<longleftrightarrow> (\<forall>n \<in> set (wd_nodes d). P (nd_node_id n))" for P
    unfolding id_set_image by simp
  then show ?thesis
    unfolding check_reachable_def Let_def bfs_marks_iff find_check by simp
qed

lemma check_successors_Ok:
  "check_successors d = Ok () \<longleftrightarrow>
     (\<forall>n \<in> set (wd_nodes d). nd_kind n \<noteq> KindComplete \<longrightarrow> nd_node_id n \<in> Domain (edge_rel (wd_edges d)))"
proof -
  have "Domain (edge_rel es) = set (map ed_from_node_id es)" for es
    by (force simp: edge_rel_def edge_pairs_def)
  then show ?thesis
    unfolding check_successors_def Let_def find_check by blast
qed

lemma check_path_Ok:
  "check_path_to_complete d = Ok () \<longleftrightarrow>
     (\<forall>c. find (\<lambda>n. nd_kind n = KindComplete) (wd_nodes d) = Some c \<longrightarrow>
        (\<forall>n \<in> set (wd_nodes d). nd_kind n \<noteq> KindComplete \<longrightarrow>
           (nd_node_id n, nd_node_id c) \<in> (edge_rel (wd_edges d))\<^sup>*))"
proof -
  have "adj_edges (reverse_adj (edge_adj es)) = (edge_rel es)\<inverse>" for es
    using adj_edges_reverse [OF distinct_build, of "edge_pairs es"]
    by (simp only: edge_adj_def [symmetric] adj_edges_edge_adj)
  then show ?thesis
    unfolding check_path_to_complete_def Let_def bfs_marks_iff
    by (cases "find (\<lambda>n. nd_kind n = KindComplete) (wd_nodes d)") (auto simp: rtrancl_converse)
qed

lemma check_not_panic [simp]:
  "check_references d \<noteq> Panic" "check_self_loops d \<noteq> Panic" "check_cycles d \<noteq> Panic"
  "check_complete_nodes d \<noteq> Panic" "check_single_root d \<noteq> Panic" "check_root_kind d \<noteq> Panic"
  "check_roles d \<noteq> Panic" "check_reachable d \<noteq> Panic" "check_successors d \<noteq> Panic"
  "check_path_to_complete d \<noteq> Panic"
proof -
  have "check_edge_ends known es \<noteq> Panic" for known es
    by (induction known es rule: check_edge_ends.induct) auto
  then show "check_references d \<noteq> Panic" by (simp add: check_references_def Let_def)
  have "check_roles_from ns \<noteq> Panic" for ns
  proof (induction ns)
    case (Cons n ns)
    then show ?case by (cases "nd_kind n"; cases "nd_role n") simp_all
  qed simp
  then show "check_roles d \<noteq> Panic" by (simp add: check_roles_def)
qed (simp_all add: check_self_loops_def check_cycles_result check_complete_nodes_def
    check_single_root_def check_root_kind_def check_reachable_def check_successors_def
    check_path_to_complete_def Let_def split: option.split list.split)

section \<open>The graphs the kernel accepts\<close>

definition well_formed :: "workflow_definition \<Rightarrow> bool" where
  "well_formed d \<longleftrightarrow>
     (let E = edge_rel (wd_edges d); root = wd_root_node_id d; ns = set (wd_nodes d)
      in root \<in> id_set d \<and> E \<subseteq> id_set d \<times> id_set d \<and> acyclic E
       \<and> filter (\<lambda>i. i \<notin> Range E) (node_ids (wd_nodes d)) = [root]
       \<and> (\<forall>x \<in> id_set d. (root, x) \<in> E\<^sup>*)
       \<and> (\<exists>c. complete_node_ids (wd_nodes d) = [c] \<and> c \<notin> Domain E \<and> (\<forall>x \<in> id_set d. (x, c) \<in> E\<^sup>*))
       \<and> (\<forall>n \<in> ns. nd_kind n \<noteq> KindComplete \<longrightarrow> nd_node_id n \<in> Domain E)
       \<and> (\<forall>n \<in> ns. nd_node_id n = root \<longrightarrow> nd_kind n = KindWork)
       \<and> (\<forall>n \<in> ns. nd_kind n = KindWork \<longleftrightarrow> nd_role n \<noteq> None))"


lemma sources_reach:
  assumes "finite E" "acyclic E" "E \<subseteq> A \<times> A" "\<And>x. x \<in> A \<Longrightarrow> x \<notin> Range E \<Longrightarrow> x = r" "x \<in> A"
  shows "(r, x) \<in> E\<^sup>*"
proof -
  have "wf E" using assms(1,2) by (rule finite_acyclic_wf)
  then show ?thesis
    using assms(5)
  proof (induction x rule: wf_induct_rule)
    case (less x)
    show ?case
    proof (cases "x \<in> Range E")
      case True
      then obtain y where y: "(y, x) \<in> E" by blast
      then have "(r, y) \<in> E\<^sup>*" using less.IH assms(3) by blast
      then show ?thesis using y by (rule rtrancl_into_rtrancl)
    qed (use assms(4) less.prems in simp)
  qed
qed

lemma filter_map_single:
  assumes "filter P (map f ns) = [r]" "n \<in> set ns" "m \<in> set ns" "f n = r" "f m = r"
  shows "n = m"
proof -
  have "r \<in> set (filter P (map f ns))" unfolding assms(1) by simp
  then have "P r" by simp
  then show ?thesis
    using assms
  proof (induction ns)
    case (Cons a ns)
    show ?case
    proof (cases "P (f a)")
      case True
      then have "filter P (map f ns) = []" using Cons.prems by simp
      then have "k \<notin> set ns" if "f k = r" for k
        using \<open>P r\<close> that by (auto simp: filter_empty_conv)
      then show ?thesis using Cons.prems by auto
    next
      case False
      then show ?thesis using Cons by auto
    qed
  qed simp
qed

lemma validate_Ok:
  "validate d = Ok () \<longleftrightarrow>
     check_references d = Ok () \<and> check_self_loops d = Ok () \<and> check_cycles d = Ok ()
     \<and> check_complete_nodes d = Ok () \<and> check_single_root d = Ok () \<and> check_root_kind d = Ok ()
     \<and> check_roles d = Ok () \<and> check_reachable d = Ok () \<and> check_successors d = Ok ()
     \<and> check_path_to_complete d = Ok ()"
proof -
  have "validate d = Ok () \<longleftrightarrow> validate_inner d = Ok ()"
    by (cases "validate_inner d") (simp_all add: validate_def)
  then show ?thesis by (simp add: validate_inner_def)
qed

lemma finite_edge_rel [simp]: "finite (edge_rel es)"
  by (simp add: edge_rel_def)

lemma Range_edge_rel: "Range (edge_rel es) = set (map ed_to_node_id es)"
  by (force simp: edge_rel_def edge_pairs_def)

lemma root_candidates_eq:
  "root_candidates d = filter (\<lambda>i. i \<notin> Range (edge_rel (wd_edges d))) (node_ids (wd_nodes d))"
  by (simp add: root_candidates_def Range_edge_rel)

lemma check_cycles_Ok:
  assumes "check_references d = Ok ()"
  shows "check_cycles d = Ok () \<longleftrightarrow> acyclic (edge_rel (wd_edges d))"
  using assms cycle_from_acyclic [of "wd_edges d" "node_ids (wd_nodes d)"]
  by (auto simp: check_cycles_result check_references_Ok id_set_def)

text \<open>The two reachability checks come too late to reject anything.\<close>

lemma reachable_follows:
  assumes "check_references d = Ok ()" "check_cycles d = Ok ()" "check_single_root d = Ok ()"
  shows "check_reachable d = Ok ()"
proof -
  have "acyclic (edge_rel (wd_edges d))"
    using assms(1,2) by (simp add: check_cycles_Ok)
  moreover have "x = wd_root_node_id d" if "x \<in> id_set d" "x \<notin> Range (edge_rel (wd_edges d))" for x
  proof -
    have "x \<in> set (root_candidates d)" using that by (simp add: root_candidates_eq id_set_def)
    then show ?thesis using assms(3) by (simp add: check_single_root_Ok)
  qed
  ultimately show ?thesis
    using assms(1) sources_reach [of "edge_rel (wd_edges d)" "id_set d" "wd_root_node_id d"]
    by (simp add: check_reachable_Ok check_references_Ok)
qed

lemma reaches_complete:
  assumes "check_references d = Ok ()" "check_cycles d = Ok ()" "check_successors d = Ok ()"
    and "complete_node_ids (wd_nodes d) = [c]" "x \<in> id_set d"
  shows "(x, c) \<in> (edge_rel (wd_edges d))\<^sup>*"
proof -
  let ?E = "edge_rel (wd_edges d)"
  have acyclic: "acyclic (?E\<inverse>)"
    using assms(1,2) by (simp add: check_cycles_Ok)
  have subset: "?E\<inverse> \<subseteq> id_set d \<times> id_set d"
    using assms(1) unfolding check_references_Ok by blast
  have sink: "y = c" if y: "y \<in> id_set d" "y \<notin> Range (?E\<inverse>)" for y
  proof -
    obtain n where n: "n \<in> set (wd_nodes d)" "nd_node_id n = y"
      using y(1) by (auto simp: id_set_def node_ids_def)
    have "nd_kind n = KindComplete"
      using assms(3) n y(2) unfolding check_successors_Ok Range_converse by blast
    then have "y \<in> set (complete_node_ids (wd_nodes d))"
      using n by (force simp: complete_node_ids_def)
    then show ?thesis using assms(4) by simp
  qed
  have "(c, x) \<in> (?E\<inverse>)\<^sup>*"
    by (rule sources_reach [OF _ acyclic subset sink assms(5)]) simp_all
  then show ?thesis by (simp add: rtrancl_converse)
qed

lemma path_follows:
  assumes "check_references d = Ok ()" "check_cycles d = Ok ()" "check_successors d = Ok ()"
    and "check_complete_nodes d = Ok ()"
  shows "check_path_to_complete d = Ok ()"
proof -
  obtain c where c: "complete_node_ids (wd_nodes d) = [c]"
    using assms(4) by (auto simp: check_complete_nodes_Ok)
  have "nd_node_id m = c" if "find (\<lambda>n. nd_kind n = KindComplete) (wd_nodes d) = Some m" for m
  proof -
    have "nd_node_id m \<in> set (complete_node_ids (wd_nodes d))"
      using find_SomeD [OF that] by (auto simp: complete_node_ids_def)
    then show ?thesis using c by simp
  qed
  moreover have "nd_node_id n \<in> id_set d" if "n \<in> set (wd_nodes d)" for n
    using that by (simp add: id_set_def node_ids_def)
  ultimately show ?thesis
    unfolding check_path_Ok using reaches_complete [OF assms(1,2,3) c] by blast
qed

lemma root_kind_unique:
  assumes "check_references d = Ok ()" "check_single_root d = Ok ()"
  shows "check_root_kind d = Ok () \<longleftrightarrow>
    (\<forall>n \<in> set (wd_nodes d). nd_node_id n = wd_root_node_id d \<longrightarrow> nd_kind n = KindWork)"
proof
  assume ok: "check_root_kind d = Ok ()"
  show "\<forall>n \<in> set (wd_nodes d). nd_node_id n = wd_root_node_id d \<longrightarrow> nd_kind n = KindWork"
  proof (intro ballI impI)
    fix n assume n: "n \<in> set (wd_nodes d)" "nd_node_id n = wd_root_node_id d"
    then obtain m where m: "find (\<lambda>n. nd_node_id n = wd_root_node_id d) (wd_nodes d) = Some m"
      by (cases "find (\<lambda>n. nd_node_id n = wd_root_node_id d) (wd_nodes d)") (auto simp: find_None_iff)
    have "n = m"
      using filter_map_single [of _ nd_node_id "wd_nodes d" "wd_root_node_id d" n m] assms(2) n
        find_SomeD [OF m] unfolding check_single_root_Ok root_candidates_def node_ids_def by blast
    then show "nd_kind n = KindWork" using ok m by (simp add: check_root_kind_Ok)
  qed
next
  assume "\<forall>n \<in> set (wd_nodes d). nd_node_id n = wd_root_node_id d \<longrightarrow> nd_kind n = KindWork"
  then show "check_root_kind d = Ok ()" by (auto simp: check_root_kind_Ok dest!: find_SomeD)
qed

theorem validate_well_formed: "validate d = Ok () \<longleftrightarrow> well_formed d"
proof
  assume "validate d = Ok ()"
  then have ok: "check_references d = Ok ()" "check_cycles d = Ok ()" "check_complete_nodes d = Ok ()"
    "check_single_root d = Ok ()" "check_root_kind d = Ok ()" "check_roles d = Ok ()"
    "check_reachable d = Ok ()" "check_successors d = Ok ()"
    by (simp_all add: validate_Ok)
  obtain c where c: "complete_node_ids (wd_nodes d) = [c]" "c \<notin> Domain (edge_rel (wd_edges d))"
    using ok(3) by (auto simp: check_complete_nodes_Ok)
  have "\<forall>x \<in> id_set d. (x, c) \<in> (edge_rel (wd_edges d))\<^sup>*"
    using reaches_complete [OF ok(1,2,8) c(1)] by blast
  moreover have "acyclic (edge_rel (wd_edges d))" using ok(1,2) by (simp add: check_cycles_Ok)
  ultimately show "well_formed d"
    unfolding well_formed_def Let_def
    using ok(1,4-8) root_kind_unique [OF ok(1,4)] c
    unfolding check_references_Ok check_single_root_Ok root_candidates_eq check_roles_Ok
      check_reachable_Ok check_successors_Ok by blast
next
  assume wf: "well_formed d"
  then have refs: "check_references d = Ok ()"
    and root: "check_single_root d = Ok ()"
    and acyclic: "acyclic (edge_rel (wd_edges d))"
    by (simp_all add: well_formed_def Let_def check_references_Ok check_single_root_Ok root_candidates_eq)
  have rest: "check_complete_nodes d = Ok ()" "check_roles d = Ok ()" "check_successors d = Ok ()"
    using wf unfolding well_formed_def Let_def check_complete_nodes_Ok check_roles_Ok
      check_successors_Ok by blast+
  have cycles: "check_cycles d = Ok ()" using acyclic refs by (simp add: check_cycles_Ok)
  have loops: "check_self_loops d = Ok ()"
    using acyclic unfolding check_self_loops_Ok acyclic_def by (meson r_into_trancl')
  have "check_root_kind d = Ok ()"
    using wf root_kind_unique [OF refs root] by (simp add: well_formed_def Let_def)
  then show "validate d = Ok ()"
    using refs root cycles loops rest reachable_follows [OF refs cycles root]
      path_follows [OF refs cycles rest(3,1)] by (simp add: validate_Ok)
qed


section \<open>The errors the kernel reports\<close>

lemma graph_err_reason: "graph_err why s = Err e \<Longrightarrow> ge_reason e = why"
  by (auto simp: graph_err_def)

lemma find_check_reason:
  "(case find P xs of None \<Rightarrow> Ok () | Some n \<Rightarrow> graph_err why (s n)) = Err e \<Longrightarrow> ge_reason e = why"
  by (cases "find P xs") (auto dest: graph_err_reason)

lemma check_reasons:
  "check_references d = Err e \<Longrightarrow> ge_reason e = MissingNode"
  "check_self_loops d = Err e \<Longrightarrow> ge_reason e = SelfLoop"
  "check_cycles d = Err e \<Longrightarrow> ge_reason e = CycleDetected"
  "check_complete_nodes d = Err e \<Longrightarrow>
     ge_reason e \<in> {MissingCompleteNode, CompleteNodeHasSuccessor, MultipleCompleteNodes}"
  "check_single_root d = Err e \<Longrightarrow> ge_reason e = MultipleRoots"
  "check_root_kind d = Err e \<Longrightarrow> ge_reason e = RootIsSpecialKind"
  "check_roles d = Err e \<Longrightarrow> ge_reason e \<in> {WorkNodeMissingRole, RoleOnSpecialKind}"
  "check_successors d = Err e \<Longrightarrow> ge_reason e = NodeWithoutSuccessor"
proof -
  have ends: "check_edge_ends known es = Err e \<Longrightarrow> ge_reason e = MissingNode" for known es
    by (induction known es rule: check_edge_ends.induct) (auto dest: graph_err_reason split: if_splits)
  then show "check_references d = Err e \<Longrightarrow> ge_reason e = MissingNode"
    by (auto simp: check_references_def Let_def dest: graph_err_reason split: if_splits)
  have "check_roles_from ns = Err e \<Longrightarrow> ge_reason e \<in> {WorkNodeMissingRole, RoleOnSpecialKind}" for ns
  proof (induction ns)
    case (Cons n ns)
    then show ?case
      by (cases "nd_kind n"; cases "nd_role n") (auto dest: graph_err_reason)
  qed simp
  then show "check_roles d = Err e \<Longrightarrow> ge_reason e \<in> {WorkNodeMissingRole, RoleOnSpecialKind}"
    by (simp add: check_roles_def)
  show "check_complete_nodes d = Err e \<Longrightarrow>
      ge_reason e \<in> {MissingCompleteNode, CompleteNodeHasSuccessor, MultipleCompleteNodes}"
    by (auto simp: check_complete_nodes_def dest: graph_err_reason split: list.splits if_splits)
  show "check_self_loops d = Err e \<Longrightarrow> ge_reason e = SelfLoop"
    unfolding check_self_loops_def by (rule find_check_reason)
  show "check_cycles d = Err e \<Longrightarrow> ge_reason e = CycleDetected"
    by (auto simp: check_cycles_result dest: graph_err_reason split: if_splits)
  show "check_single_root d = Err e \<Longrightarrow> ge_reason e = MultipleRoots"
    unfolding check_single_root_def by (auto dest: graph_err_reason split: if_splits)
  show "check_root_kind d = Err e \<Longrightarrow> ge_reason e = RootIsSpecialKind"
    unfolding check_root_kind_def by (auto dest: graph_err_reason split: option.splits if_splits)
  show "check_successors d = Err e \<Longrightarrow> ge_reason e = NodeWithoutSuccessor"
    unfolding check_successors_def Let_def by (rule find_check_reason)
qed

lemma validate_Err: "validate d = Err e \<longleftrightarrow> validate_inner d = Err e"
  by (cases "validate_inner d") (simp_all add: validate_def)

lemma validate_reasons:
  assumes "validate d = Err e"
  shows "ge_reason e \<noteq> UnreachableNode" "ge_reason e \<noteq> NoPathToCompleteNode"
proof -
  have not_ok: "check_reachable d = Err e \<Longrightarrow> check_reachable d \<noteq> Ok ()"
    "check_path_to_complete d = Err e \<Longrightarrow> check_path_to_complete d \<noteq> Ok ()" by simp_all
  from assms consider
    "check_references d = Err e" | "check_self_loops d = Err e" | "check_cycles d = Err e"
    | "check_complete_nodes d = Err e" | "check_single_root d = Err e" | "check_root_kind d = Err e"
    | "check_roles d = Err e" | "check_successors d = Err e"
    using not_ok reachable_follows [of d] path_follows [of d]
    unfolding validate_Err validate_inner_def guard_ok_Err by blast
  then have "ge_reason e \<noteq> UnreachableNode \<and> ge_reason e \<noteq> NoPathToCompleteNode"
    by cases (auto dest: check_reasons)
  then show "ge_reason e \<noteq> UnreachableNode" "ge_reason e \<noteq> NoPathToCompleteNode" by simp_all
qed

lemma validate_not_panic: "validate d \<noteq> Panic"
proof -
  have "validate_inner d \<noteq> Panic" by (simp add: validate_inner_def guard_ok_Panic)
  then show ?thesis by (cases "validate_inner d") (simp_all add: validate_def)
qed

end
