(* ===== verification/Workflow_Aggregate.thy ===== *)
theory Workflow_Aggregate
  imports Workflow_Kernel
begin

text \<open>
  The aggregate \<open>WorkflowAggregate\<close> of \<open>application/aggregate.rs\<close>: its state and its methods in the order
  of the source. A method with a \<open>&mut self\<close> receiver returns its result and the state it leaves. The
  four hash maps keyed by node are association lists. The texts \<open>replan\<close> builds for its private closure
  \<open>cannot\<close> are dropped there as they are in the source.
\<close>

section \<open>State\<close>

record workflow_aggregate =
  wa_workflow_id :: ustr
  wa_name :: ustr
  wa_objective :: ustr
  wa_root_node_id :: node_id
  wa_nodes :: "node_definition list"
  wa_edges :: "edge_definition list"
  wa_node_states :: "(node_id, node_status) hmap"
  wa_node_conclusions :: "(node_id, ustr) hmap"
  wa_node_evidence :: "(node_id, evidence_ref list) hmap"
  wa_node_exits :: "(node_id, successor_decision list) hmap"
  wa_status :: workflow_status
  wa_active_mode :: "active_mode option"
  wa_pending_mode :: "active_mode option"
  wa_updated_at :: ustr

record advance_outcome =
  ao_node_status :: node_status
  ao_activated_node_ids :: "node_id list"
  ao_stopped_node_ids :: "node_id list"

type_synonym 'a wf_result = "(workflow_tool_error, 'a) outcome \<times> workflow_aggregate"

definition spec_definition :: "create_workflow_spec \<Rightarrow> workflow_definition" where
  "spec_definition spec =
     \<lparr>wd_name = cs_name spec, wd_objective = cs_objective spec, wd_root_node_id = cs_root_node_id spec,
      wd_nodes = cs_nodes spec, wd_edges = cs_edges spec\<rparr>"

definition initial_states :: "node_id \<Rightarrow> node_definition list \<Rightarrow> (node_id, node_status) hmap" where
  "initial_states root ns =
     fold (\<lambda>n. hm_insert (nd_node_id n) (if nd_node_id n = root then NsActive else NsPending)) ns []"

definition wa_new ::
  "create_workflow_spec \<Rightarrow> ustr \<Rightarrow> ustr \<Rightarrow> (workflow_tool_error, workflow_aggregate) outcome" where
  "wa_new spec workflow_id updated_at =
     (case validate (spec_definition spec) of
        Panic \<Rightarrow> Panic
      | Err e \<Rightarrow> Err (GraphInvariantViolation (ge_reason e) (ge_subject e))
      | Ok _ \<Rightarrow>
          Ok \<lparr>wa_workflow_id = workflow_id, wa_name = cs_name spec, wa_objective = cs_objective spec,
              wa_root_node_id = cs_root_node_id spec, wa_nodes = cs_nodes spec,
              wa_edges = cs_edges spec,
              wa_node_states = initial_states (cs_root_node_id spec) (cs_nodes spec),
              wa_node_conclusions = [], wa_node_evidence = [], wa_node_exits = [],
              wa_status = WfActive, wa_active_mode = Some Executing, wa_pending_mode = None,
              wa_updated_at = updated_at\<rparr>)"

definition node_status :: "workflow_aggregate \<Rightarrow> node_id \<Rightarrow> node_status option" where
  "node_status w i = map_of (wa_node_states w) i"

definition node_conclusion :: "workflow_aggregate \<Rightarrow> node_id \<Rightarrow> ustr option" where
  "node_conclusion w i = map_of (wa_node_conclusions w) i"

definition node_evidence :: "workflow_aggregate \<Rightarrow> node_id \<Rightarrow> evidence_ref list option" where
  "node_evidence w i = map_of (wa_node_evidence w) i"

definition node_exits :: "workflow_aggregate \<Rightarrow> node_id \<Rightarrow> successor_decision list option" where
  "node_exits w i = map_of (wa_node_exits w) i"

definition node_ids_with_status :: "workflow_aggregate \<Rightarrow> node_status \<Rightarrow> node_id list" where
  "node_ids_with_status w s = map fst (filter (\<lambda>(_, t). t = s) (wa_node_states w))"

definition set_node :: "node_id \<Rightarrow> node_status \<Rightarrow> workflow_aggregate \<Rightarrow> workflow_aggregate" where
  "set_node i s w = w\<lparr>wa_node_states := hm_insert i s (wa_node_states w)\<rparr>"

definition enter_replanning :: "workflow_aggregate \<Rightarrow> workflow_aggregate" where
  "enter_replanning w = w\<lparr>wa_active_mode := Some Replanning\<rparr>"

section \<open>Failing a node\<close>

definition stop_others ::
  "node_id \<Rightarrow> (node_id, node_status) hmap \<Rightarrow> (node_id, node_status) hmap" where
  "stop_others i m = map (\<lambda>(k, s). (k, if s = NsActive \<and> k \<noteq> i then NsStopped else s)) m"

definition stopped_by :: "node_id \<Rightarrow> workflow_aggregate \<Rightarrow> node_id list" where
  "stopped_by i w = map fst (filter (\<lambda>(k, s). s = NsActive \<and> k \<noteq> i) (wa_node_states w))"

definition failed_node :: "node_id \<Rightarrow> ustr \<Rightarrow> workflow_aggregate \<Rightarrow> workflow_aggregate" where
  "failed_node i conclusion w =
     enter_replanning
       (w\<lparr>wa_node_states := hm_insert i NsFailed (stop_others i (wa_node_states w)),
          wa_node_conclusions := hm_insert i conclusion (wa_node_conclusions w)\<rparr>)"

definition fail_node :: "node_id \<Rightarrow> ustr \<Rightarrow> workflow_aggregate \<Rightarrow> node_id list wf_result" where
  "fail_node i conclusion w =
     (case node_status w i of
        Some NsActive \<Rightarrow> (Ok (stopped_by i w), failed_node i conclusion w)
      | _ \<Rightarrow> (Err (NodeNotActive i), w))"

section \<open>Advancing a node\<close>

definition is_complete_node :: "workflow_aggregate \<Rightarrow> node_id \<Rightarrow> bool" where
  "is_complete_node w i =
     list_ex (\<lambda>n. nd_node_id n = i \<and> nd_kind n = KindComplete) (wa_nodes w)"

definition direct_successors :: "workflow_aggregate \<Rightarrow> node_id \<Rightarrow> node_id list" where
  "direct_successors w i =
     map ed_to_node_id (filter (\<lambda>e. ed_from_node_id e = i) (wa_edges w))"

text \<open>The loop that looks for a decision that is no direct successor or that is repeated.\<close>

fun bad_successor :: "node_id list \<Rightarrow> node_id list \<Rightarrow> successor_decision list \<Rightarrow> node_id option" where
  "bad_successor direct seen [] = None"
| "bad_successor direct seen (s # ss) =
     (if sd_node_id s \<notin> set direct then Some (sd_node_id s)
      else if sd_node_id s \<in> set seen then Some (sd_node_id s)
      else bad_successor direct (seen @ [sd_node_id s]) ss)"

definition effective_predecessors :: "workflow_aggregate \<Rightarrow> node_id \<Rightarrow> node_id list" where
  "effective_predecessors w target =
     map ed_from_node_id
       (filter (\<lambda>e. node_status w (ed_from_node_id e) \<notin> {Some NsFailed, Some NsStopped})
         (filter (\<lambda>e. ed_to_node_id e = target) (wa_edges w)))"

definition and_join_satisfied :: "workflow_aggregate \<Rightarrow> node_id \<Rightarrow> bool" where
  "and_join_satisfied w target =
     (let ps = effective_predecessors w target
      in if ps = [] then False
         else list_all (\<lambda>p. node_status w p = Some NsCompleted \<and>
                (case node_exits w p of
                   Some exits \<Rightarrow> list_ex (\<lambda>s. sd_node_id s = target) exits
                 | None \<Rightarrow> False)) ps)"

fun activate_joins ::
  "successor_decision list \<Rightarrow> workflow_aggregate \<Rightarrow> node_id list \<times> workflow_aggregate" where
  "activate_joins [] w = ([], w)"
| "activate_joins (s # ss) w =
     (if and_join_satisfied w (sd_node_id s) then
        let (activated, w') = activate_joins ss (set_node (sd_node_id s) NsActive w)
        in (sd_node_id s # activated, w')
      else activate_joins ss w)"

definition record_completion ::
  "node_id \<Rightarrow> ustr \<Rightarrow> evidence_ref list \<Rightarrow> successor_decision list \<Rightarrow> workflow_aggregate \<Rightarrow>
     workflow_aggregate" where
  "record_completion i conclusion evidence successors w =
     w\<lparr>wa_node_states := hm_insert i NsCompleted (wa_node_states w),
       wa_node_conclusions := hm_insert i conclusion (wa_node_conclusions w),
       wa_node_evidence := hm_insert i evidence (wa_node_evidence w),
       wa_node_exits := hm_insert i successors (wa_node_exits w)\<rparr>"

definition advance_node ::
  "node_id \<Rightarrow> node_action \<Rightarrow> ustr \<Rightarrow> evidence_ref list \<Rightarrow> successor_decision list \<Rightarrow>
     workflow_aggregate \<Rightarrow> advance_outcome wf_result" where
  "advance_node i action conclusion evidence successors w =
     (if wa_active_mode w = Some Replanning then (Err (WorkflowReplanning (wa_workflow_id w)), w)
      else case node_status w i of
        Some NsActive \<Rightarrow>
          (case bad_successor (direct_successors w i) [] successors of
             Some s \<Rightarrow> (Err (InvalidSuccessor s), w)
           | None \<Rightarrow>
               (case action of
                  NaFail \<Rightarrow>
                    if successors \<noteq> [] then (Err (InvalidSuccessor (sd_node_id (hd successors))), w)
                    else (case fail_node i conclusion w of
                        (Ok stopped, w') \<Rightarrow>
                          (Ok \<lparr>ao_node_status = NsFailed, ao_activated_node_ids = [],
                               ao_stopped_node_ids = stopped\<rparr>,
                           w'\<lparr>wa_node_evidence := hm_insert i evidence (wa_node_evidence w')\<rparr>)
                      | (Err e, w') \<Rightarrow> (Err e, w')
                      | (Panic, w') \<Rightarrow> (Panic, w'))
                | NaComplete \<Rightarrow>
                    let is_complete = is_complete_node w i
                    in if is_complete \<and> successors \<noteq> [] then
                         (Err (InvalidSuccessor (sd_node_id (hd successors))), w)
                       else if \<not> is_complete \<and> successors = [] then (Err (InvalidSuccessor i), w)
                       else
                         let w1 = record_completion i conclusion evidence successors w;
                             (activated, w2) =
                               (if is_complete then ([], w1) else activate_joins successors w1)
                         in (Ok \<lparr>ao_node_status = NsCompleted, ao_activated_node_ids = activated,
                                 ao_stopped_node_ids = []\<rparr>, w2)))
      | Some NsPending \<Rightarrow> (Err (NodeNotActive i), w)
      | Some NsStopped \<Rightarrow> (Err (NodeNotActive i), w)
      | None \<Rightarrow> (Err (NodeNotActive i), w)
      | Some _ \<Rightarrow> (Err (NodeHistoryFrozen i), w))"


section \<open>Replanning: the checks on the command\<close>

definition cannot :: "workflow_aggregate \<Rightarrow> workflow_tool_error" where
  "cannot w = WorkflowCannotContinue (wa_workflow_id w)"

definition rejoin_target_ok :: "workflow_aggregate \<Rightarrow> node_id list \<Rightarrow> node_id \<Rightarrow> bool" where
  "rejoin_target_ok w new_ids target \<longleftrightarrow>
     target \<notin> set new_ids
     \<and> list_ex (\<lambda>n. nd_node_id n = target) (wa_nodes w)
     \<and> node_status w target = Some NsPending
     \<and> \<not> is_complete_node w target"

fun check_rejoins ::
  "workflow_aggregate \<Rightarrow> node_id list \<Rightarrow> rejoin_edge list \<Rightarrow> (workflow_tool_error, unit) outcome" where
  "check_rejoins w new_ids [] = Ok ()"
| "check_rejoins w new_ids (r # rs) =
     (if rj_from_node_id r \<notin> set new_ids then Err (cannot w)
      else if \<not> rejoin_target_ok w new_ids (rj_target_node_id r) then Err (cannot w)
      else check_rejoins w new_ids rs)"

fun check_updates ::
  "workflow_aggregate \<Rightarrow> pending_node_update list \<Rightarrow> (workflow_tool_error, unit) outcome" where
  "check_updates w [] = Ok ()"
| "check_updates w (u # us) =
     (case node_status w (pu_node_id u) of
        Some NsPending \<Rightarrow> check_updates w us
      | _ \<Rightarrow> Err (NodeHistoryFrozen (pu_node_id u)))"

fun check_removes ::
  "workflow_aggregate \<Rightarrow> node_id list \<Rightarrow> (workflow_tool_error, unit) outcome" where
  "check_removes w [] = Ok ()"
| "check_removes w (i # is) =
     (if is_complete_node w i \<or> node_status w i \<noteq> Some NsPending then Err (NodeHistoryFrozen i)
      else check_removes w is)"

definition check_rewrites ::
  "workflow_aggregate \<Rightarrow> pending_rewrites option \<Rightarrow> (workflow_tool_error, unit) outcome" where
  "check_rewrites w rewrites =
     (case rewrites of
        None \<Rightarrow> Ok ()
      | Some r \<Rightarrow> guard_ok (check_updates w (pr_update r)) (check_removes w (pr_remove r)))"

section \<open>Replanning: the merged graph\<close>

definition rewrite_updates :: "pending_rewrites option \<Rightarrow> pending_node_update list" where
  "rewrite_updates rewrites = (case rewrites of None \<Rightarrow> [] | Some r \<Rightarrow> pr_update r)"

definition rewrite_removes :: "pending_rewrites option \<Rightarrow> node_id list" where
  "rewrite_removes rewrites = (case rewrites of None \<Rightarrow> [] | Some r \<Rightarrow> pr_remove r)"

definition override_node :: "pending_node_update \<Rightarrow> node_definition \<Rightarrow> node_definition" where
  "override_node u n =
     n\<lparr>nd_description := (case pu_description u of Some d \<Rightarrow> d | None \<Rightarrow> nd_description n),
       nd_role := (case pu_role u of Some r \<Rightarrow> Some r | None \<Rightarrow> nd_role n),
       nd_completion_criteria :=
         (case pu_completion_criteria u of Some c \<Rightarrow> Some c | None \<Rightarrow> nd_completion_criteria n)\<rparr>"

definition is_effective :: "workflow_aggregate \<Rightarrow> node_id list \<Rightarrow> node_definition \<Rightarrow> bool" where
  "is_effective w removed n \<longleftrightarrow>
     ((case node_status w (nd_node_id n) of Some s \<Rightarrow> s | None \<Rightarrow> NsPending) = NsPending
        \<and> nd_node_id n \<notin> set removed)
     \<or> nd_kind n = KindComplete"

definition updated_definition :: "pending_node_update list \<Rightarrow> node_definition \<Rightarrow> node_definition" where
  "updated_definition us n =
     fold (\<lambda>u m. if pu_node_id u = nd_node_id n then override_node u m else m) us n"

definition kept_nodes :: "workflow_aggregate \<Rightarrow> replan_workflow_command \<Rightarrow> node_definition list" where
  "kept_nodes w cmd =
     (let rewrites = rw_pending_rewrites cmd
      in map (updated_definition (rewrite_updates rewrites))
           (filter (is_effective w (rewrite_removes rewrites)) (wa_nodes w)))"

definition effective_nodes :: "workflow_aggregate \<Rightarrow> replan_workflow_command \<Rightarrow> node_definition list" where
  "effective_nodes w cmd = kept_nodes w cmd @ rw_new_nodes cmd"

definition rejoin_as_edge :: "rejoin_edge \<Rightarrow> edge_definition" where
  "rejoin_as_edge r = \<lparr>ed_from_node_id = rj_from_node_id r, ed_to_node_id = rj_target_node_id r\<rparr>"

definition effective_edges :: "workflow_aggregate \<Rightarrow> replan_workflow_command \<Rightarrow> edge_definition list" where
  "effective_edges w cmd =
     (let effective_ids = node_ids (kept_nodes w cmd)
      in filter (\<lambda>e. ed_from_node_id e \<in> set effective_ids \<and> ed_to_node_id e \<in> set effective_ids)
           (wa_edges w)
         @ rw_new_edges cmd @ map rejoin_as_edge (rw_rejoin_edges cmd))"

text \<open>\<open>None\<close> is a recursion deeper than the fuel; see the kernel.\<close>

definition merged_graph_has_cycle :: "edge_definition list \<Rightarrow> node_id list \<Rightarrow> bool option" where
  "merged_graph_has_cycle es ids = map_option Not (visit_all (visit_fuel es ids) (edge_adj es) ids)"

definition merged_graph_reaches :: "edge_definition list \<Rightarrow> node_id \<Rightarrow> node_id list \<Rightarrow> bool" where
  "merged_graph_reaches es start targets = bfs_finds (edge_adj es) targets [start] [start]"

definition check_merged ::
  "workflow_aggregate \<Rightarrow> replan_workflow_command \<Rightarrow> (workflow_tool_error, unit) outcome" where
  "check_merged w cmd =
     (let nodes = effective_nodes w cmd; edges = effective_edges w cmd;
          complete_ids = complete_node_ids nodes
      in if list_ex (\<lambda>e. ed_from_node_id e = ed_to_node_id e) edges then Err (cannot w)
         else case merged_graph_has_cycle edges (node_ids nodes) of
           None \<Rightarrow> Panic
         | Some True \<Rightarrow> Err (cannot w)
         | Some False \<Rightarrow>
             if list_ex (\<lambda>i. \<not> merged_graph_reaches edges i complete_ids) (rw_entry_node_ids cmd)
             then Err (cannot w)
             else if list_ex (\<lambda>n. nd_kind n \<noteq> KindComplete \<and>
                       \<not> list_ex (\<lambda>e. ed_from_node_id e = nd_node_id n) edges) nodes
             then Err (cannot w) else Ok ())"

section \<open>Replanning: the commit\<close>

definition remove_nodes :: "node_id list \<Rightarrow> workflow_aggregate \<Rightarrow> workflow_aggregate" where
  "remove_nodes removed w =
     (if removed = [] then w
      else w\<lparr>wa_nodes := filter (\<lambda>n. nd_node_id n \<notin> set removed) (wa_nodes w),
             wa_edges := filter (\<lambda>e. ed_from_node_id e \<notin> set removed) (wa_edges w),
             wa_node_states := fold hm_remove removed (wa_node_states w),
             wa_node_conclusions := fold hm_remove removed (wa_node_conclusions w),
             wa_node_evidence := fold hm_remove removed (wa_node_evidence w),
             wa_node_exits := fold hm_remove removed (wa_node_exits w)\<rparr>)"

definition update_nodes :: "pending_node_update list \<Rightarrow> workflow_aggregate \<Rightarrow> workflow_aggregate" where
  "update_nodes us w =
     w\<lparr>wa_nodes :=
         fold (\<lambda>u. update_first (\<lambda>n. nd_node_id n = pu_node_id u) (override_node u)) us (wa_nodes w)\<rparr>"

definition merge_nodes :: "replan_workflow_command \<Rightarrow> workflow_aggregate \<Rightarrow> workflow_aggregate" where
  "merge_nodes cmd w =
     w\<lparr>wa_node_states :=
         fold (\<lambda>n. hm_insert (nd_node_id n) NsPending) (rw_new_nodes cmd) (wa_node_states w),
       wa_nodes := wa_nodes w @ rw_new_nodes cmd,
       wa_edges := wa_edges w @ rw_new_edges cmd @ map rejoin_as_edge (rw_rejoin_edges cmd)\<rparr>"

fun activate_entries ::
  "node_id list \<Rightarrow> workflow_aggregate \<Rightarrow> node_id list \<times> workflow_aggregate" where
  "activate_entries [] w = ([], w)"
| "activate_entries (i # is) w =
     (if node_status w i = Some NsPending then
        let (activated, w') = activate_entries is (set_node i NsActive w)
        in (i # activated, w')
      else activate_entries is w)"

definition commit_replan ::
  "replan_workflow_command \<Rightarrow> workflow_aggregate \<Rightarrow> node_id list \<times> workflow_aggregate" where
  "commit_replan cmd w =
     (let rewrites = rw_pending_rewrites cmd;
          w1 = remove_nodes (rewrite_removes rewrites) w;
          w2 = update_nodes (rewrite_updates rewrites) w1;
          w3 = merge_nodes cmd w2;
          (activated, w4) = activate_entries (rw_entry_node_ids cmd) w3
      in (activated, w4\<lparr>wa_active_mode := Some Executing\<rparr>))"

definition check_replan ::
  "workflow_aggregate \<Rightarrow> replan_workflow_command \<Rightarrow> (workflow_tool_error, unit) outcome" where
  "check_replan w cmd =
     (if wa_active_mode w \<noteq> Some Replanning then Err (WorkflowNotReplanning (wa_workflow_id w))
      else if rw_rejoin_edges cmd = [] \<or> rw_entry_node_ids cmd = [] then Err (cannot w)
      else if list_ex (\<lambda>n. nd_kind n = KindComplete) (rw_new_nodes cmd) then
        Err (GraphInvariantViolation MultipleCompleteNodes None)
      else guard_ok (check_rejoins w (node_ids (rw_new_nodes cmd)) (rw_rejoin_edges cmd))
          (guard_ok (check_rewrites w (rw_pending_rewrites cmd)) (check_merged w cmd)))"

definition replan :: "replan_workflow_command \<Rightarrow> workflow_aggregate \<Rightarrow> replan_result_data wf_result" where
  "replan cmd w =
     (case check_replan w cmd of
        Err e \<Rightarrow> (Err e, w)
      | Panic \<Rightarrow> (Panic, w)
      | Ok _ \<Rightarrow>
          let (activated, w') = commit_replan cmd w
          in (Ok \<lparr>rr_workflow_id = wa_workflow_id w', rr_status = wa_status w',
                  rr_active_mode = wa_active_mode w', rr_activated_node_ids = activated,
                  rr_applied_node_ids = node_ids (rw_new_nodes cmd)
                    @ map pu_node_id (rewrite_updates (rw_pending_rewrites cmd)),
                  rr_retired_pending_node_ids = rewrite_removes (rw_pending_rewrites cmd)\<rparr>, w'))"

section \<open>Snapshots\<close>

definition snapshot_entry :: "workflow_aggregate \<Rightarrow> node_definition \<Rightarrow> node_snapshot_entry" where
  "snapshot_entry w n =
     (let i = nd_node_id n
      in \<lparr>ne_node_id = i,
          ne_status = (case node_status w i of Some s \<Rightarrow> s | None \<Rightarrow> NsPending),
          ne_conclusion = node_conclusion w i,
          ne_evidence_refs = (case node_evidence w i of Some r \<Rightarrow> r | None \<Rightarrow> []),
          ne_exits = (case node_exits w i of Some x \<Rightarrow> x | None \<Rightarrow> [])\<rparr>)"

definition to_snapshot :: "workflow_aggregate \<Rightarrow> workflow_snapshot_data" where
  "to_snapshot w =
     \<lparr>sn_workflow_id = wa_workflow_id w, sn_name = wa_name w, sn_objective = wa_objective w,
      sn_root_node_id = wa_root_node_id w, sn_nodes = wa_nodes w, sn_edges = wa_edges w,
      sn_node_entries = map (snapshot_entry w) (wa_nodes w), sn_status = wa_status w,
      sn_active_mode = wa_active_mode w, sn_pending_mode = wa_pending_mode w,
      sn_updated_at = wa_updated_at w\<rparr>"

record entry_maps =
  em_states :: "(node_id, node_status) hmap"
  em_conclusions :: "(node_id, ustr) hmap"
  em_evidence :: "(node_id, evidence_ref list) hmap"
  em_exits :: "(node_id, successor_decision list) hmap"

definition load_entry :: "node_snapshot_entry \<Rightarrow> entry_maps \<Rightarrow> entry_maps" where
  "load_entry e m =
     \<lparr>em_states = hm_insert (ne_node_id e) (ne_status e) (em_states m),
      em_conclusions = (case ne_conclusion e of
          Some c \<Rightarrow> hm_insert (ne_node_id e) c (em_conclusions m) | None \<Rightarrow> em_conclusions m),
      em_evidence = hm_insert (ne_node_id e) (ne_evidence_refs e) (em_evidence m),
      em_exits = hm_insert (ne_node_id e) (ne_exits e) (em_exits m)\<rparr>"

fun load_entries ::
  "node_definition list \<Rightarrow> node_snapshot_entry list \<Rightarrow> entry_maps \<Rightarrow>
     (persistence_error, entry_maps) outcome" where
  "load_entries ns [] m = Ok m"
| "load_entries ns (e # es) m =
     (if \<not> list_ex (\<lambda>n. nd_node_id n = ne_node_id e) ns then
        Err (PeCorrupt (lit ''unknown node '' @ ne_node_id e))
      else load_entries ns es (load_entry e m))"

text \<open>\<open>entry(id).or_insert(Pending)\<close>\<close>

definition default_pending ::
  "node_definition list \<Rightarrow> (node_id, node_status) hmap \<Rightarrow> (node_id, node_status) hmap" where
  "default_pending ns m =
     fold (\<lambda>n m. case map_of m (nd_node_id n) of
                   None \<Rightarrow> hm_insert (nd_node_id n) NsPending m | Some _ \<Rightarrow> m) ns m"

definition from_snapshot :: "workflow_snapshot_data \<Rightarrow> (persistence_error, workflow_aggregate) outcome" where
  "from_snapshot s =
     map_ok (\<lambda>m. \<lparr>wa_workflow_id = sn_workflow_id s, wa_name = sn_name s,
        wa_objective = sn_objective s, wa_root_node_id = sn_root_node_id s, wa_nodes = sn_nodes s,
        wa_edges = sn_edges s, wa_node_states = default_pending (sn_nodes s) (em_states m),
        wa_node_conclusions = em_conclusions m, wa_node_evidence = em_evidence m,
        wa_node_exits = em_exits m, wa_status = sn_status s, wa_active_mode = sn_active_mode s,
        wa_pending_mode = sn_pending_mode s, wa_updated_at = sn_updated_at s\<rparr>)
       (load_entries (sn_nodes s) (sn_node_entries s)
          \<lparr>em_states = [], em_conclusions = [], em_evidence = [], em_exits = []\<rparr>)"

section \<open>The life of the workflow\<close>

definition wf_terminal :: "workflow_status \<Rightarrow> bool" where
  "wf_terminal s \<longleftrightarrow> s \<in> {WfCompleted, WfCancelled, WfFailed}"

definition ensure_not_terminal :: "workflow_aggregate \<Rightarrow> (workflow_tool_error, unit) outcome" where
  "ensure_not_terminal w =
     (if wf_terminal (wa_status w) then Err (WorkflowAlreadyTerminal (wa_workflow_id w)) else Ok ())"

text \<open>A guard that fails leaves the state alone.\<close>

definition guarded ::
  "(workflow_tool_error, unit) outcome \<Rightarrow> workflow_aggregate \<Rightarrow> workflow_aggregate \<Rightarrow> unit wf_result" where
  "guarded g w w' = (case g of Ok _ \<Rightarrow> (Ok (), w') | Err e \<Rightarrow> (Err e, w) | Panic \<Rightarrow> (Panic, w))"

definition fail_unless :: "bool \<Rightarrow> workflow_tool_error \<Rightarrow> (workflow_tool_error, unit) outcome" where
  "fail_unless b e = (if b then Ok () else Err e)"

definition activate :: "workflow_aggregate \<Rightarrow> unit wf_result" where
  "activate w =
     guarded
       (guard_ok (ensure_not_terminal w)
         (fail_unless (wa_status w = WfInactive) (WorkflowNotActive (wa_workflow_id w))))
       w
       (w\<lparr>wa_status := WfActive,
          wa_active_mode := Some (case wa_pending_mode w of Some m \<Rightarrow> m | None \<Rightarrow> Executing)\<rparr>)"

definition deactivate :: "workflow_aggregate \<Rightarrow> unit wf_result" where
  "deactivate w =
     guarded
       (guard_ok (ensure_not_terminal w)
         (fail_unless (wa_status w = WfActive) (WorkflowNotActive (wa_workflow_id w))))
       w
       (w\<lparr>wa_pending_mode := (if wa_active_mode w = Some Replanning then Some Replanning else None),
          wa_status := WfInactive, wa_active_mode := None\<rparr>)"

definition finish_workflow :: "workflow_status \<Rightarrow> workflow_aggregate \<Rightarrow> workflow_aggregate" where
  "finish_workflow s w = w\<lparr>wa_status := s, wa_active_mode := None, wa_pending_mode := None\<rparr>"

definition complete_done :: "workflow_aggregate \<Rightarrow> bool" where
  "complete_done w =
     list_ex (\<lambda>n. nd_kind n = KindComplete \<and> node_status w (nd_node_id n) = Some NsCompleted) (wa_nodes w)"

definition no_active :: "workflow_aggregate \<Rightarrow> bool" where
  "no_active w \<longleftrightarrow> node_ids_with_status w NsActive = []"

definition complete_workflow :: "ustr \<Rightarrow> workflow_aggregate \<Rightarrow> unit wf_result" where
  "complete_workflow summary w =
     guarded
       (guard_ok (ensure_not_terminal w)
       (guard_ok (fail_unless (wa_status w = WfActive) (WorkflowNotActive (wa_workflow_id w)))
       (guard_ok (fail_unless (wa_active_mode w \<noteq> Some Replanning) (WorkflowReplanning (wa_workflow_id w)))
       (guard_ok (fail_unless (\<not> is_blank summary)
           (CompletionConditionsUnsatisfied (lit ''summary is required for complete'')))
         (fail_unless (complete_done w \<and> no_active w)
           (CompletionConditionsUnsatisfied
              (if complete_done w then lit ''active nodes remain''
               else lit ''complete node has no conclusion'')))))))
       w (finish_workflow WfCompleted w)"

definition cancel :: "ustr \<Rightarrow> workflow_aggregate \<Rightarrow> unit wf_result" where
  "cancel reason w =
     guarded
       (guard_ok (ensure_not_terminal w)
         (fail_unless (\<not> is_blank reason)
           (CompletionConditionsUnsatisfied (lit ''reason is required for cancel''))))
       w (finish_workflow WfCancelled w)"

definition fail_workflow :: "ustr \<Rightarrow> workflow_aggregate \<Rightarrow> unit wf_result" where
  "fail_workflow reason w =
     guarded
       (guard_ok (ensure_not_terminal w)
       (guard_ok (fail_unless (wa_status w = WfActive) (WorkflowNotActive (wa_workflow_id w)))
       (guard_ok (fail_unless (wa_active_mode w = Some Replanning) (WorkflowNotReplanning (wa_workflow_id w)))
         (fail_unless (\<not> is_blank reason)
           (CompletionConditionsUnsatisfied (lit ''reason is required for fail''))))))
       w (finish_workflow WfFailed w)"

fun allowed_actions_for :: "workflow_status \<Rightarrow> active_mode option \<Rightarrow> allowed_action list" where
  "allowed_actions_for WfActive (Some Executing) =
     [AaDeactivate, AaComplete, AaCancel, AaNodeComplete, AaNodeFail]"
| "allowed_actions_for WfActive (Some Replanning) = [AaReplan, AaFail, AaCancel, AaDeactivate]"
| "allowed_actions_for WfInactive _ = [AaActivate, AaCancel]"
| "allowed_actions_for WfCompleted _ = []"
| "allowed_actions_for WfCancelled _ = []"
| "allowed_actions_for WfFailed _ = []"
| "allowed_actions_for WfActive None = []"

definition allowed_actions :: "workflow_aggregate \<Rightarrow> allowed_action list" where
  "allowed_actions w = allowed_actions_for (wa_status w) (wa_active_mode w)"

end
