(* ===== verification/Workflow_History.thy ===== *)
theory Workflow_History
  imports Workflow_Aggregate Histories
begin

text \<open>
  Histories of one workflow: its operations as data, what each does to the statuses of the nodes, and the
  invariant that keeps finished nodes finished. The code relies on the sender of a replan for part of it:
  \<open>disciplined\<close> states what the sender has to respect, namely that new nodes get new names, that new edges
  leave from new nodes and lead to open ones, and that only new nodes without predecessors are entries.
\<close>

section \<open>Operations\<close>

datatype wf_op =
    WfAdvance node_id node_action ustr "evidence_ref list" "successor_decision list"
  | WfReplan replan_workflow_command
  | WfActivate
  | WfDeactivate
  | WfComplete ustr
  | WfCancel ustr
  | WfFail ustr

fun wf_step :: "wf_op \<Rightarrow> workflow_aggregate \<Rightarrow> workflow_aggregate" where
  "wf_step (WfAdvance i a c ev ss) w = snd (advance_node i a c ev ss w)"
| "wf_step (WfReplan cmd) w = snd (replan cmd w)"
| "wf_step WfActivate w = snd (activate w)"
| "wf_step WfDeactivate w = snd (deactivate w)"
| "wf_step (WfComplete s) w = snd (complete_workflow s w)"
| "wf_step (WfCancel s) w = snd (cancel s w)"
| "wf_step (WfFail s) w = snd (fail_workflow s w)"

section \<open>Node statuses under the operations\<close>

definition frozen :: "node_status \<Rightarrow> bool" where
  "frozen s \<longleftrightarrow> s \<in> {NsCompleted, NsFailed, NsStopped}"

definition open_at :: "workflow_aggregate \<Rightarrow> node_id \<Rightarrow> bool" where
  "open_at w i \<longleftrightarrow> node_status w i \<in> {Some NsPending, Some NsActive}"

definition untouched :: "workflow_aggregate \<Rightarrow> node_id \<Rightarrow> bool" where
  "untouched w i \<longleftrightarrow> node_status w i \<in> {None, Some NsPending}"

definition hist_ok :: "workflow_aggregate \<Rightarrow> bool" where
  "hist_ok w \<longleftrightarrow>
     (\<forall>x t. (x, t) \<in> edge_rel (wa_edges w) \<longrightarrow>
        node_status w x \<noteq> None \<and> (open_at w x \<longrightarrow> untouched w t))"

lemma set_node_sel [simp]:
  "node_status (set_node i s w) = (node_status w)(i \<mapsto> s)"
  "wa_edges (set_node i s w) = wa_edges w" "wa_nodes (set_node i s w) = wa_nodes w"
  "wa_node_exits (set_node i s w) = wa_node_exits w" "node_exits (set_node i s w) = node_exits w"
  "wa_status (set_node i s w) = wa_status w" "wa_active_mode (set_node i s w) = wa_active_mode w"
  "wa_pending_mode (set_node i s w) = wa_pending_mode w"
  by (simp_all add: set_node_def node_status_def node_exits_def AList.update_conv' fun_eq_iff)

lemma record_completion_sel [simp]:
  "node_status (record_completion i c ev ss w) = (node_status w)(i \<mapsto> NsCompleted)"
  "node_exits (record_completion i c ev ss w) = (node_exits w)(i \<mapsto> ss)"
  "wa_edges (record_completion i c ev ss w) = wa_edges w"
  "wa_nodes (record_completion i c ev ss w) = wa_nodes w"
  "wa_status (record_completion i c ev ss w) = wa_status w"
  "wa_active_mode (record_completion i c ev ss w) = wa_active_mode w"
  by (simp_all add: record_completion_def node_status_def node_exits_def AList.update_conv' fun_eq_iff)

lemma stop_others_status:
  "map_of (stop_others i m) j =
     (if map_of m j = Some NsActive \<and> j \<noteq> i then Some NsStopped else map_of m j)"
proof (induction m)
  case (Cons e m)
  then show ?case
    by (cases e; cases "fst e = j"; cases "snd e = NsActive") (simp_all add: stop_others_def)
qed (simp add: stop_others_def)

lemma failed_node_sel [simp]:
  "node_status (failed_node i c w) = (\<lambda>j. if j = i then Some NsFailed
     else if node_status w j = Some NsActive then Some NsStopped else node_status w j)"
  "wa_edges (failed_node i c w) = wa_edges w" "wa_nodes (failed_node i c w) = wa_nodes w"
  "wa_status (failed_node i c w) = wa_status w"
  "wa_active_mode (failed_node i c w) = Some Replanning"
  by (simp_all add: fun_eq_iff failed_node_def enter_replanning_def node_status_def AList.update_conv'
      stop_others_status)

lemma node_status_evidence [simp]:
  "node_status (w\<lparr>wa_node_evidence := x\<rparr>) = node_status w"
  "node_status (w\<lparr>wa_active_mode := m\<rparr>) = node_status w"
  by (simp_all add: node_status_def fun_eq_iff)

text \<open>What \<open>advance_node\<close> does when it succeeds, and that it does nothing otherwise.\<close>

inductive advanced ::
  "node_id \<Rightarrow> node_action \<Rightarrow> ustr \<Rightarrow> evidence_ref list \<Rightarrow> successor_decision list \<Rightarrow>
     workflow_aggregate \<Rightarrow> advance_outcome \<Rightarrow> workflow_aggregate \<Rightarrow> bool" where
  adv_fail: "node_status w i = Some NsActive \<Longrightarrow> wa_active_mode w \<noteq> Some Replanning \<Longrightarrow>
    w1 = failed_node i c w \<Longrightarrow>
    advanced i NaFail c ev [] w
      \<lparr>ao_node_status = NsFailed, ao_activated_node_ids = [], ao_stopped_node_ids = stopped_by i w\<rparr>
      (w1\<lparr>wa_node_evidence := hm_insert i ev (wa_node_evidence w1)\<rparr>)"
| adv_last: "node_status w i = Some NsActive \<Longrightarrow> wa_active_mode w \<noteq> Some Replanning \<Longrightarrow>
    is_complete_node w i \<Longrightarrow>
    advanced i NaComplete c ev [] w
      \<lparr>ao_node_status = NsCompleted, ao_activated_node_ids = [], ao_stopped_node_ids = []\<rparr>
      (record_completion i c ev [] w)"
| adv_complete: "node_status w i = Some NsActive \<Longrightarrow> wa_active_mode w \<noteq> Some Replanning \<Longrightarrow>
    \<not> is_complete_node w i \<Longrightarrow> ss \<noteq> [] \<Longrightarrow>
    bad_successor (direct_successors w i) [] ss = None \<Longrightarrow>
    activate_joins ss (record_completion i c ev ss w) = (activated, w') \<Longrightarrow>
    advanced i NaComplete c ev ss w
      \<lparr>ao_node_status = NsCompleted, ao_activated_node_ids = activated, ao_stopped_node_ids = []\<rparr> w'"

lemma advance_node_cases:
  "(\<exists>out w'. advance_node i a c ev ss w = (Ok out, w') \<and> advanced i a c ev ss w out w') \<or>
   (\<exists>e. advance_node i a c ev ss w = (Err e, w))"
proof (cases "wa_active_mode w = Some Replanning \<or> node_status w i \<noteq> Some NsActive")
  case True
  then show ?thesis
    by (auto simp: advance_node_def split: option.split node_status.split)
next
  case False
  then have active: "node_status w i = Some NsActive" "wa_active_mode w \<noteq> Some Replanning" by auto
  show ?thesis
  proof (cases "bad_successor (direct_successors w i) [] ss")
    case (Some s)
    then show ?thesis using active by (simp add: advance_node_def)
  next
    case None
    show ?thesis
    proof (cases a)
      case NaComplete
      obtain activated w' where *: "activate_joins ss (record_completion i c ev ss w) = (activated, w')"
        by (cases "activate_joins ss (record_completion i c ev ss w)")
      show ?thesis
        using active None NaComplete * adv_last [OF active, of c ev] adv_complete [OF active _ _ None *]
        by (simp add: advance_node_def Let_def)
    next
      case NaFail
      then show ?thesis
        using active None adv_fail [OF active refl, of c ev]
        by (simp add: advance_node_def fail_node_def)
    qed
  qed
qed


section \<open>The AND-join\<close>

definition chose :: "workflow_aggregate \<Rightarrow> node_id \<Rightarrow> node_id \<Rightarrow> bool" where
  "chose w x t \<longleftrightarrow> (\<exists>exits. node_exits w x = Some exits \<and> t \<in> sd_node_id ` set exits)"

definition out_of_play :: "workflow_aggregate \<Rightarrow> node_id \<Rightarrow> bool" where
  "out_of_play w i \<longleftrightarrow> node_status w i \<in> {Some NsFailed, Some NsStopped}"

definition join_ready :: "workflow_aggregate \<Rightarrow> node_id \<Rightarrow> bool" where
  "join_ready w t \<longleftrightarrow>
     (let E = edge_rel (wa_edges w)
      in (\<exists>x. (x, t) \<in> E \<and> \<not> out_of_play w x) \<and>
         (\<forall>x. (x, t) \<in> E \<longrightarrow> out_of_play w x \<or> node_status w x = Some NsCompleted \<and> chose w x t))"

lemma set_effective_predecessors:
  "set (effective_predecessors w t) = {x. (x, t) \<in> edge_rel (wa_edges w) \<and> \<not> out_of_play w x}"
  by (auto simp: effective_predecessors_def out_of_play_def)

lemma and_join_iff: "and_join_satisfied w t = join_ready w t"
proof -
  have chosen: "(case node_exits w p of Some exits \<Rightarrow> list_ex (\<lambda>s. sd_node_id s = t) exits | None \<Rightarrow> False)
      = chose w p t" for p
    by (auto simp: chose_def list_ex_iff split: option.split)
  have empty: "effective_predecessors w t = [] \<longleftrightarrow>
      \<not> (\<exists>x. (x, t) \<in> edge_rel (wa_edges w) \<and> \<not> out_of_play w x)"
    unfolding set_empty [symmetric] set_effective_predecessors by blast
  show ?thesis
    unfolding and_join_satisfied_def Let_def empty chosen list_all_iff set_effective_predecessors
      join_ready_def by auto
qed

text \<open>The join looks at finished nodes only.\<close>

lemma join_cong:
  assumes "wa_edges w' = wa_edges w" "node_exits w' = node_exits w"
    and "\<And>x s. frozen s \<Longrightarrow> node_status w' x = Some s \<longleftrightarrow> node_status w x = Some s"
  shows "join_ready w' t = join_ready w t"
proof -
  have "out_of_play w' x = out_of_play w x" for x
    using assms(3) [of NsFailed x] assms(3) [of NsStopped x] by (simp add: out_of_play_def frozen_def)
  moreover have "node_status w' x = Some NsCompleted \<longleftrightarrow> node_status w x = Some NsCompleted" for x
    using assms(3) by (simp add: frozen_def)
  ultimately show ?thesis by (simp add: join_ready_def chose_def assms(1,2))
qed

lemma bad_successor_None:
  "bad_successor direct seen ss = None \<longleftrightarrow>
     sd_node_id ` set ss \<subseteq> set direct \<and> distinct (map sd_node_id ss) \<and>
     sd_node_id ` set ss \<inter> set seen = {}"
  by (induction direct seen ss rule: bad_successor.induct) auto

lemma set_direct_successors: "set (direct_successors w i) = {t. (i, t) \<in> edge_rel (wa_edges w)}"
  by (auto simp: direct_successors_def)

lemma activate_joins_result:
  assumes "activate_joins ss w = (activated, w')"
    and "\<And>t s. t \<in> sd_node_id ` set ss \<Longrightarrow> frozen s \<Longrightarrow> node_status w t \<noteq> Some s"
  shows "activated = filter (join_ready w) (map sd_node_id ss) \<and>
    node_status w' = (\<lambda>j. if j \<in> set activated then Some NsActive else node_status w j) \<and>
    wa_edges w' = wa_edges w \<and> wa_nodes w' = wa_nodes w \<and> node_exits w' = node_exits w \<and>
    wa_status w' = wa_status w \<and> wa_active_mode w' = wa_active_mode w"
  using assms
proof (induction ss arbitrary: w activated)
  case (Cons s ss)
  let ?t = "sd_node_id s"
  show ?case
  proof (cases "join_ready w ?t")
    case True
    let ?w = "set_node ?t NsActive w"
    obtain act where act: "activate_joins ss ?w = (act, w')" "activated = ?t # act"
      using Cons.prems(1) True by (auto simp: and_join_iff split: prod.splits)
    have same: "join_ready ?w t = join_ready w t" for t
      using Cons.prems(2) [of ?t] by (intro join_cong) (auto simp: frozen_def)
    have "node_status ?w t \<noteq> Some r" if "t \<in> sd_node_id ` set ss" "frozen r" for t r
      using Cons.prems(2) [of t r] that by (auto simp: frozen_def)
    from Cons.IH [OF act(1) this] show ?thesis
      using True act(2) same by (auto simp: fun_eq_iff)
  next
    case False
    then have "activate_joins ss w = (activated, w')"
      using Cons.prems(1) by (simp add: and_join_iff)
    from Cons.IH [OF this] show ?thesis using Cons.prems(2) False by simp
  qed
qed simp

section \<open>The invariant of the histories\<close>

lemma hist_okD:
  assumes "hist_ok w" "(x, t) \<in> edge_rel (wa_edges w)"
  shows "node_status w x \<noteq> None" "open_at w x \<Longrightarrow> untouched w t"
  using assms unfolding hist_ok_def by blast+

lemma hist_okI:
  assumes "\<And>x t. (x, t) \<in> edge_rel (wa_edges w) \<Longrightarrow> node_status w x \<noteq> None"
    and "\<And>x t. (x, t) \<in> edge_rel (wa_edges w) \<Longrightarrow> open_at w x \<Longrightarrow> untouched w t"
  shows "hist_ok w"
  using assms unfolding hist_ok_def by blast

text \<open>The successors of an active node are untouched, so the join never looks at a finished target.\<close>

lemma chosen_untouched:
  assumes "hist_ok w" "node_status w i = Some NsActive"
    and "bad_successor (direct_successors w i) [] ss = None" "t \<in> sd_node_id ` set ss"
  shows "untouched w t" "t \<noteq> i"
proof -
  have "(i, t) \<in> edge_rel (wa_edges w)"
    using assms(3,4) unfolding bad_successor_None set_direct_successors by blast
  then show "untouched w t"
    using hist_okD(2) [OF assms(1)] assms(2) by (simp add: open_at_def)
  then show "t \<noteq> i" using assms(2) by (auto simp: untouched_def)
qed

lemma advanced_completion:
  assumes "hist_ok w" "advanced i NaComplete c ev ss w out w'"
  shows "ao_activated_node_ids out = filter (join_ready w') (map sd_node_id ss)"
    and "node_status w' = (\<lambda>j. if j = i then Some NsCompleted
      else if j \<in> set (ao_activated_node_ids out) then Some NsActive else node_status w j)"
    and "wa_edges w' = wa_edges w"
proof -
  have "ao_activated_node_ids out = filter (join_ready w') (map sd_node_id ss) \<and>
    node_status w' = (\<lambda>j. if j = i then Some NsCompleted
      else if j \<in> set (ao_activated_node_ids out) then Some NsActive else node_status w j) \<and>
    wa_edges w' = wa_edges w"
    using assms(2)
  proof cases
    case adv_last
    then show ?thesis by auto
  next
    case (adv_complete activated)
    let ?w = "record_completion i c ev ss w"
    have fresh: "untouched w t \<and> t \<noteq> i" if "t \<in> sd_node_id ` set ss" for t
      using chosen_untouched [OF assms(1) adv_complete(2) adv_complete(6) that] by blast
    have open_target: "node_status ?w t \<noteq> Some s" if "t \<in> sd_node_id ` set ss" "frozen s" for t s
      using fresh [OF that(1)] that(2) by (auto simp: untouched_def frozen_def)
    note result = activate_joins_result [OF adv_complete(7) open_target]
    have status: "node_status w' = (\<lambda>j. if j \<in> set activated then Some NsActive else node_status ?w j)"
      using result by blast
    have joins: "join_ready w' = join_ready ?w"
    proof (intro ext join_cong)
      fix x s assume s: "frozen s"
      show "node_status w' x = Some s \<longleftrightarrow> node_status ?w x = Some s"
      proof (cases "x \<in> set activated")
        case True
        then have "x \<in> sd_node_id ` set ss" using result by auto
        then have "node_status ?w x \<noteq> Some s" using open_target s by blast
        moreover have "s \<noteq> NsActive" using s by (auto simp: frozen_def)
        ultimately show ?thesis unfolding status using True by simp
      qed (simp add: status)
    qed (use result in auto)
    have out: "ao_activated_node_ids out = activated" using adv_complete(1) by simp
    have act: "activated = filter (join_ready ?w) (map sd_node_id ss)"
      and edges: "wa_edges w' = wa_edges w"
      using result by simp_all
    have "i \<notin> set activated" using act fresh by auto
    then have changed: "(\<lambda>j. if j \<in> set activated then Some NsActive else ((node_status w)(i \<mapsto> NsCompleted)) j)
        = (\<lambda>j. if j = i then Some NsCompleted else if j \<in> set activated then Some NsActive else node_status w j)"
      by (auto simp: fun_eq_iff)
    show ?thesis
      unfolding out joins status record_completion_sel(1) by (intro conjI act changed edges)
  qed
  then show "ao_activated_node_ids out = filter (join_ready w') (map sd_node_id ss)"
    "node_status w' = (\<lambda>j. if j = i then Some NsCompleted
      else if j \<in> set (ao_activated_node_ids out) then Some NsActive else node_status w j)"
    "wa_edges w' = wa_edges w" by blast+
qed


definition keeps_frozen :: "workflow_aggregate \<Rightarrow> workflow_aggregate \<Rightarrow> bool" where
  "keeps_frozen w w' \<longleftrightarrow> (\<forall>i s. node_status w i = Some s \<longrightarrow> frozen s \<longrightarrow> node_status w' i = Some s)"

lemma hist_ok_advanced:
  assumes "hist_ok w" "advanced i a c ev ss w out w'"
  shows "hist_ok w' \<and> keeps_frozen w w'"
proof (cases a)
  case NaFail
  with assms(2) have w': "wa_edges w' = wa_edges w"
    "node_status w' = (\<lambda>j. if j = i then Some NsFailed
       else if node_status w j = Some NsActive then Some NsStopped else node_status w j)"
    and i: "node_status w i = Some NsActive"
    by (auto elim: advanced.cases)
  have "untouched w' t" if "open_at w' x" "(x, t) \<in> edge_rel (wa_edges w)" for x t
  proof -
    have "open_at w x" using that(1) w'(2) by (auto simp: open_at_def split: if_splits)
    then have "untouched w t" by (rule hist_okD(2) [OF assms(1) that(2)])
    then show ?thesis using w'(2) i by (auto simp: untouched_def)
  qed
  moreover have "node_status w' x \<noteq> None" if "(x, t) \<in> edge_rel (wa_edges w)" for x t
    using hist_okD(1) [OF assms(1) that] unfolding w'(2) by simp
  ultimately have "hist_ok w'" by (intro hist_okI) (unfold w'(1))
  then show ?thesis using w'(2) i by (auto simp: keeps_frozen_def frozen_def)
next
  case NaComplete
  let ?act = "set (ao_activated_node_ids out)"
  have adv: "advanced i NaComplete c ev ss w out w'" using assms(2) NaComplete by simp
  note w' = advanced_completion [OF assms(1) adv]
  have i: "node_status w i = Some NsActive" using adv by (auto elim: advanced.cases)
  have fresh: "untouched w t \<and> t \<noteq> i" if t: "t \<in> ?act" for t
    using adv
  proof cases
    case (adv_complete activated)
    have "t \<in> sd_node_id ` set ss" using t w'(1) by auto
    then show ?thesis
      using chosen_untouched [OF assms(1) i adv_complete(6)] by blast
  qed (use t in auto)
  have ready: "join_ready w' t" if "t \<in> ?act" for t
    using that unfolding w'(1) by simp
  have "untouched w' t" if x: "open_at w' x" and xt: "(x, t) \<in> edge_rel (wa_edges w)" for x t
  proof -
    have "x \<noteq> i" using x w'(2) by (auto simp: open_at_def)
    moreover have "open_at w x"
    proof (cases "x \<in> ?act")
      case True
      then have "untouched w x" using fresh by blast
      then show ?thesis
        using hist_okD(1) [OF assms(1) xt] by (auto simp: untouched_def open_at_def)
    next
      case False
      then show ?thesis using x w'(2) \<open>x \<noteq> i\<close> by (auto simp: open_at_def)
    qed
    then have t: "untouched w t" by (rule hist_okD(2) [OF assms(1) xt])
    moreover have "t \<notin> ?act"
    proof
      assume "t \<in> ?act"
      then have "out_of_play w' x \<or> node_status w' x = Some NsCompleted"
        using ready xt unfolding join_ready_def Let_def w'(3) by blast
      then show False using x by (auto simp: out_of_play_def open_at_def)
    qed
    ultimately show ?thesis using w'(2) i by (auto simp: untouched_def)
  qed
  moreover have "node_status w' x \<noteq> None" if "(x, t) \<in> edge_rel (wa_edges w)" for x t
    using hist_okD(1) [OF assms(1) that] unfolding w'(2) by simp
  ultimately have "hist_ok w'" by (intro hist_okI) (unfold w'(3))
  moreover have "keeps_frozen w w'"
    unfolding keeps_frozen_def
  proof (intro allI impI)
    fix j s assume j: "node_status w j = Some s" "frozen s"
    then have "j \<noteq> i" using i by (auto simp: frozen_def)
    moreover have "j \<notin> ?act" using fresh [of j] j by (auto simp: untouched_def frozen_def)
    ultimately show "node_status w' j = Some s" using j unfolding w'(2) by simp
  qed
  ultimately show ?thesis ..
qed

section \<open>What a replan does to statuses and edges\<close>

lemma fold_hm_remove: "map_of (fold hm_remove ks m) j = (if j \<in> set ks then None else map_of m j)"
  by (induction ks arbitrary: m) (simp_all add: AList.delete_conv')

lemma fold_hm_insert_const:
  "map_of (fold (\<lambda>n. hm_insert (f n) v) ns m) j = (if j \<in> f ` set ns then Some v else map_of m j)"
  by (induction ns arbitrary: m) (auto simp: AList.update_conv')

lemma remove_nodes_sel [simp]:
  "node_status (remove_nodes ks w) = (\<lambda>j. if j \<in> set ks then None else node_status w j)"
  "wa_edges (remove_nodes ks w) = filter (\<lambda>e. ed_from_node_id e \<notin> set ks) (wa_edges w)"
  "wa_status (remove_nodes ks w) = wa_status w"
  by (simp_all add: remove_nodes_def node_status_def fold_hm_remove fun_eq_iff)

lemma update_nodes_sel [simp]:
  "node_status (update_nodes us w) = node_status w" "wa_edges (update_nodes us w) = wa_edges w"
  "wa_status (update_nodes us w) = wa_status w"
  by (simp_all add: update_nodes_def node_status_def fun_eq_iff)

lemma merge_nodes_sel [simp]:
  "node_status (merge_nodes cmd w) =
     (\<lambda>j. if j \<in> nd_node_id ` set (rw_new_nodes cmd) then Some NsPending else node_status w j)"
  "wa_edges (merge_nodes cmd w) =
     wa_edges w @ rw_new_edges cmd @ map rejoin_as_edge (rw_rejoin_edges cmd)"
  "wa_status (merge_nodes cmd w) = wa_status w"
  by (simp_all add: merge_nodes_def node_status_def fold_hm_insert_const fun_eq_iff)

lemma activate_entries_sel:
  assumes "activate_entries is w = (activated, w')"
  shows "node_status w' =
      (\<lambda>j. if j \<in> set is \<and> node_status w j = Some NsPending then Some NsActive else node_status w j)"
    and "wa_edges w' = wa_edges w" and "wa_status w' = wa_status w"
    and "set activated = {i \<in> set is. node_status w i = Some NsPending}"
proof -
  have "node_status w' =
      (\<lambda>j. if j \<in> set is \<and> node_status w j = Some NsPending then Some NsActive else node_status w j) \<and>
    wa_edges w' = wa_edges w \<and> wa_status w' = wa_status w \<and>
    set activated = {i \<in> set is. node_status w i = Some NsPending}"
    using assms
  proof (induction "is" arbitrary: w activated)
    case (Cons i "is")
    show ?case
    proof (cases "node_status w i = Some NsPending")
      case True
      then obtain act where act: "activate_entries is (set_node i NsActive w) = (act, w')"
        "activated = i # act"
        using Cons.prems by (auto split: prod.splits)
      then show ?thesis using Cons.IH [OF act(1)] True by (auto simp: fun_eq_iff)
    next
      case False
      then show ?thesis using Cons.IH [of w activated] Cons.prems by (auto simp: fun_eq_iff)
    qed
  qed auto
  then show "node_status w' =
      (\<lambda>j. if j \<in> set is \<and> node_status w j = Some NsPending then Some NsActive else node_status w j)"
    "wa_edges w' = wa_edges w" "wa_status w' = wa_status w"
    "set activated = {i \<in> set is. node_status w i = Some NsPending}" by blast+
qed

text \<open>The status of a node after removal and merging, before the entries are activated.\<close>

definition merged_status ::
  "replan_workflow_command \<Rightarrow> workflow_aggregate \<Rightarrow> node_id \<Rightarrow> node_status option" where
  "merged_status cmd w j =
     (if j \<in> nd_node_id ` set (rw_new_nodes cmd) then Some NsPending
      else if j \<in> set (rewrite_removes (rw_pending_rewrites cmd)) then None
      else node_status w j)"

lemma commit_replan_sel:
  assumes "commit_replan cmd w = (activated, w')"
  shows "node_status w' = (\<lambda>j. if j \<in> set (rw_entry_node_ids cmd) \<and> merged_status cmd w j = Some NsPending
      then Some NsActive else merged_status cmd w j)"
    and "wa_edges w' =
      filter (\<lambda>e. ed_from_node_id e \<notin> set (rewrite_removes (rw_pending_rewrites cmd))) (wa_edges w)
        @ rw_new_edges cmd @ map rejoin_as_edge (rw_rejoin_edges cmd)"
    and "wa_status w' = wa_status w" and "wa_active_mode w' = Some Executing"
    and "set activated = {i \<in> set (rw_entry_node_ids cmd). merged_status cmd w i = Some NsPending}"
proof -
  let ?w = "merge_nodes cmd (update_nodes (rewrite_updates (rw_pending_rewrites cmd))
      (remove_nodes (rewrite_removes (rw_pending_rewrites cmd)) w))"
  obtain w4 where w4: "activate_entries (rw_entry_node_ids cmd) ?w = (activated, w4)"
    "w' = w4\<lparr>wa_active_mode := Some Executing\<rparr>"
    using assms by (auto simp: commit_replan_def Let_def split: prod.splits)
  have status: "node_status ?w = merged_status cmd w" by (auto simp: merged_status_def fun_eq_iff)
  show "node_status w' = (\<lambda>j. if j \<in> set (rw_entry_node_ids cmd) \<and> merged_status cmd w j = Some NsPending
      then Some NsActive else merged_status cmd w j)"
    unfolding w4(2) node_status_evidence activate_entries_sel(1) [OF w4(1)] status ..
  show "set activated = {i \<in> set (rw_entry_node_ids cmd). merged_status cmd w i = Some NsPending}"
    unfolding activate_entries_sel(4) [OF w4(1)] status ..
qed (use assms activate_entries_sel(2,3) in \<open>fastforce simp: commit_replan_def Let_def split: prod.splits\<close>)+

end
