(* ===== verification/Workflow_Lifecycle.thy ===== *)
theory Workflow_Lifecycle
  imports Workflow_History
begin

text \<open>
  What the checks of a replan mean, the invariant of the histories under every operation, and the end of a
  workflow. The locale \<open>write_once\<close> is interpreted twice on the operations of the aggregate: for the
  statuses of its nodes and for the status of the workflow.
\<close>

section \<open>The checks of a replan\<close>

lemma check_rejoins_Ok:
  "check_rejoins w new_ids rs = Ok () \<longleftrightarrow>
     (\<forall>r \<in> set rs. rj_from_node_id r \<in> set new_ids \<and> rejoin_target_ok w new_ids (rj_target_node_id r))"
  by (induction w new_ids rs rule: check_rejoins.induct) auto

lemma check_updates_Ok:
  "check_updates w us = Ok () \<longleftrightarrow> (\<forall>u \<in> set us. node_status w (pu_node_id u) = Some NsPending)"
proof (induction us)
  case (Cons u us)
  then show ?case
    by (cases "node_status w (pu_node_id u)") (auto split: node_status.split)
qed simp

lemma check_removes_Ok:
  "check_removes w is = Ok () \<longleftrightarrow>
     (\<forall>i \<in> set is. \<not> is_complete_node w i \<and> node_status w i = Some NsPending)"
  by (induction w "is" rule: check_removes.induct) auto

lemma check_rewrites_Ok:
  "check_rewrites w rw = Ok () \<longleftrightarrow>
     (\<forall>u \<in> set (rewrite_updates rw). node_status w (pu_node_id u) = Some NsPending) \<and>
     (\<forall>i \<in> set (rewrite_removes rw). \<not> is_complete_node w i \<and> node_status w i = Some NsPending)"
  by (cases rw)
    (simp_all add: check_rewrites_def rewrite_updates_def rewrite_removes_def check_updates_Ok check_removes_Ok)

lemma merged_graph_has_cycle_eq: "merged_graph_has_cycle es ids = Some (cycle_from ids es)"
  by (simp add: merged_graph_has_cycle_def visit_all_edges)

lemma merged_graph_reaches_iff:
  "merged_graph_reaches es start targets \<longleftrightarrow> (\<exists>t \<in> set targets. (start, t) \<in> (edge_rel es)\<^sup>*)"
  unfolding merged_graph_reaches_def bfs_finds_iff adj_edges_edge_adj ..

text \<open>The merged graph a replan has to offer.\<close>

definition merged_ok :: "workflow_aggregate \<Rightarrow> replan_workflow_command \<Rightarrow> bool" where
  "merged_ok w cmd \<longleftrightarrow>
     (let nodes = effective_nodes w cmd; E = edge_rel (effective_edges w cmd)
      in (\<forall>x. (x, x) \<notin> E)
       \<and> \<not> cycle_from (node_ids nodes) (effective_edges w cmd)
       \<and> (\<forall>i \<in> set (rw_entry_node_ids cmd). \<exists>c \<in> set (complete_node_ids nodes). (i, c) \<in> E\<^sup>*)
       \<and> (\<forall>n \<in> set nodes. nd_kind n \<noteq> KindComplete \<longrightarrow> nd_node_id n \<in> Domain E))"

lemma Domain_edge_rel: "i \<in> Domain (edge_rel es) \<longleftrightarrow> (\<exists>e \<in> set es. ed_from_node_id e = i)"
  by (force simp: edge_rel_def edge_pairs_def)

lemma check_merged_Ok: "check_merged w cmd = Ok () \<longleftrightarrow> merged_ok w cmd"
proof -
  have loops: "list_ex (\<lambda>e. ed_from_node_id e = ed_to_node_id e) es \<longleftrightarrow> (\<exists>x. (x, x) \<in> edge_rel es)" for es
    unfolding list_ex_iff edge_rel_iff by metis
  show ?thesis
    unfolding check_merged_def merged_ok_def Let_def loops merged_graph_has_cycle_eq
      merged_graph_reaches_iff Domain_edge_rel list_ex_iff
    by (cases "cycle_from (node_ids (effective_nodes w cmd)) (effective_edges w cmd)")
      (auto simp del: edge_rel_iff)
qed

lemma check_merged_not_panic: "check_merged w cmd \<noteq> Panic"
  by (cases "cycle_from (node_ids (effective_nodes w cmd)) (effective_edges w cmd)")
    (simp_all add: check_merged_def Let_def merged_graph_has_cycle_eq)

lemma check_replan_not_panic: "check_replan w cmd \<noteq> Panic"
proof -
  have "check_rejoins w new_ids rs \<noteq> Panic" for new_ids rs
    by (induction w new_ids rs rule: check_rejoins.induct) auto
  moreover have "check_updates w us \<noteq> Panic" for us
  proof (induction us)
    case (Cons u us)
    then show ?case
      by (cases "node_status w (pu_node_id u)") (auto split: node_status.split)
  qed simp
  moreover have "check_removes w is \<noteq> Panic" for "is"
    by (induction w "is" rule: check_removes.induct) auto
  ultimately show ?thesis
    by (auto simp: check_replan_def check_rewrites_def guard_ok_Panic check_merged_not_panic split: option.split)
qed

definition replan_ok :: "workflow_aggregate \<Rightarrow> replan_workflow_command \<Rightarrow> bool" where
  "replan_ok w cmd \<longleftrightarrow>
     (let new = nd_node_id ` set (rw_new_nodes cmd)
      in wa_active_mode w = Some Replanning
       \<and> rw_rejoin_edges cmd \<noteq> [] \<and> rw_entry_node_ids cmd \<noteq> []
       \<and> (\<forall>n \<in> set (rw_new_nodes cmd). nd_kind n \<noteq> KindComplete)
       \<and> (\<forall>r \<in> set (rw_rejoin_edges cmd).
            rj_from_node_id r \<in> new \<and> rj_target_node_id r \<notin> new
            \<and> rj_target_node_id r \<in> nd_node_id ` set (wa_nodes w)
            \<and> node_status w (rj_target_node_id r) = Some NsPending
            \<and> \<not> is_complete_node w (rj_target_node_id r))
       \<and> (\<forall>u \<in> set (rewrite_updates (rw_pending_rewrites cmd)).
            node_status w (pu_node_id u) = Some NsPending)
       \<and> (\<forall>i \<in> set (rewrite_removes (rw_pending_rewrites cmd)).
            node_status w i = Some NsPending \<and> \<not> is_complete_node w i)
       \<and> merged_ok w cmd)"

lemma check_replan_Ok: "check_replan w cmd = Ok () \<longleftrightarrow> replan_ok w cmd"
proof -
  have "rejoin_target_ok w new_ids t \<longleftrightarrow>
      t \<notin> set new_ids \<and> t \<in> nd_node_id ` set (wa_nodes w) \<and> node_status w t = Some NsPending
      \<and> \<not> is_complete_node w t" for new_ids t
    by (auto simp: rejoin_target_ok_def list_ex_iff)
  then show ?thesis
    unfolding replan_ok_def Let_def
    by (auto simp: check_replan_def check_rejoins_Ok check_rewrites_Ok check_merged_Ok list_ex_iff node_ids_def)
qed

lemma replan_cases:
  obtains (accepted) activated w' where "replan_ok w cmd" "commit_replan cmd w = (activated, w')"
      "snd (replan cmd w) = w'" "\<exists>r. fst (replan cmd w) = Ok r"
  | (rejected) e where "\<not> replan_ok w cmd" "replan cmd w = (Err e, w)"
proof (cases "check_replan w cmd")
  case (Ok u)
  obtain activated w' where "commit_replan cmd w = (activated, w')"
    by (cases "commit_replan cmd w")
  then show ?thesis
    using Ok accepted check_replan_Ok [of w cmd] by (simp add: replan_def)
next
  case (Err e)
  then show ?thesis using rejected check_replan_Ok [of w cmd] by (simp add: replan_def)
qed (simp add: check_replan_not_panic)

section \<open>The discipline of the sender\<close>

definition fresh_replan :: "replan_workflow_command \<Rightarrow> workflow_aggregate \<Rightarrow> bool" where
  "fresh_replan cmd w \<longleftrightarrow>
     (let new = nd_node_id ` set (rw_new_nodes cmd)
      in (\<forall>i \<in> new. node_status w i = None)
       \<and> (\<forall>e \<in> set (rw_new_edges cmd). ed_from_node_id e \<in> new \<and>
            (ed_to_node_id e \<in> new \<or> node_status w (ed_to_node_id e) = Some NsPending))
       \<and> (\<forall>i \<in> set (rw_entry_node_ids cmd). i \<in> new \<and>
            (\<forall>e \<in> set (wa_edges w @ rw_new_edges cmd). ed_to_node_id e \<noteq> i)))"

fun disciplined :: "wf_op \<Rightarrow> workflow_aggregate \<Rightarrow> bool" where
  "disciplined (WfReplan cmd) w = fresh_replan cmd w"
| "disciplined _ w = True"

lemma fresh_replanD:
  assumes "fresh_replan cmd w"
  shows "i \<in> nd_node_id ` set (rw_new_nodes cmd) \<Longrightarrow> node_status w i = None"
    and "e \<in> set (rw_new_edges cmd) \<Longrightarrow> ed_from_node_id e \<in> nd_node_id ` set (rw_new_nodes cmd)"
    and "e \<in> set (rw_new_edges cmd) \<Longrightarrow> ed_to_node_id e \<in> nd_node_id ` set (rw_new_nodes cmd)
      \<or> node_status w (ed_to_node_id e) = Some NsPending"
    and "i \<in> set (rw_entry_node_ids cmd) \<Longrightarrow> i \<in> nd_node_id ` set (rw_new_nodes cmd)"
    and "i \<in> set (rw_entry_node_ids cmd) \<Longrightarrow> e \<in> set (wa_edges w @ rw_new_edges cmd) \<Longrightarrow>
      ed_to_node_id e \<noteq> i"
  using assms [unfolded fresh_replan_def Let_def, THEN conjunct1]
    assms [unfolded fresh_replan_def Let_def, THEN conjunct2, THEN conjunct1]
    assms [unfolded fresh_replan_def Let_def, THEN conjunct2, THEN conjunct2]
  by (simp_all only: Ball_def simp_thms)

lemma replan_okD:
  assumes "replan_ok w cmd"
  shows "i \<in> set (rewrite_removes (rw_pending_rewrites cmd)) \<Longrightarrow> node_status w i = Some NsPending"
    and "r \<in> set (rw_rejoin_edges cmd) \<Longrightarrow> rj_from_node_id r \<in> nd_node_id ` set (rw_new_nodes cmd)"
    and "r \<in> set (rw_rejoin_edges cmd) \<Longrightarrow> rj_target_node_id r \<notin> nd_node_id ` set (rw_new_nodes cmd)"
    and "r \<in> set (rw_rejoin_edges cmd) \<Longrightarrow> node_status w (rj_target_node_id r) = Some NsPending"
  using assms by (simp_all only: replan_ok_def Let_def Ball_def simp_thms)

lemma commit_edges_cases:
  assumes "commit_replan cmd w = (activated, w')" "(x, t) \<in> edge_rel (wa_edges w')"
  obtains (old) "(x, t) \<in> edge_rel (wa_edges w)" "x \<notin> set (rewrite_removes (rw_pending_rewrites cmd))"
  | (new) e where "e \<in> set (rw_new_edges cmd)" "ed_from_node_id e = x" "ed_to_node_id e = t"
  | (rejoin) r where "r \<in> set (rw_rejoin_edges cmd)" "rj_from_node_id r = x" "rj_target_node_id r = t"
  using assms(2) unfolding commit_replan_sel(2) [OF assms(1)]
  by (auto simp: rejoin_as_edge_def)

lemma hist_ok_commit:
  assumes "hist_ok w" "replan_ok w cmd" "fresh_replan cmd w" "commit_replan cmd w = (activated, w')"
  shows "hist_ok w' \<and> keeps_frozen w w'"
proof -
  let ?new = "nd_node_id ` set (rw_new_nodes cmd)"
  let ?rem = "set (rewrite_removes (rw_pending_rewrites cmd))"
  let ?entries = "set (rw_entry_node_ids cmd)"
  note status = commit_replan_sel(1) [OF assms(4)]
  note new = fresh_replanD(1) [OF assms(3)] and entries = fresh_replanD(4) [OF assms(3)]
    and no_entry = fresh_replanD(5) [OF assms(3)] and removed = replan_okD(1) [OF assms(2)]
  have pending: "untouched w' t" if "t \<notin> ?entries" "t \<in> ?new \<or> untouched w t" for t
    using that unfolding status untouched_def merged_status_def by (simp, blast)
  have kept: "node_status w' x = node_status w x" if "x \<notin> ?new" "x \<notin> ?rem" for x
    using that entries [of x] unfolding status by (auto simp: merged_status_def)
  have present: "node_status w' x \<noteq> None" if "x \<in> ?new" for x
    using that unfolding status by (simp add: merged_status_def)
  have "node_status w' x \<noteq> None \<and> (open_at w' x \<longrightarrow> untouched w' t)"
    if "(x, t) \<in> edge_rel (wa_edges w')" for x t
    using assms(4) that
  proof (cases rule: commit_edges_cases)
    case old
    have "x \<notin> ?new" using new [of x] hist_okD(1) [OF assms(1) old(1)] by blast
    then have x: "node_status w' x = node_status w x" using kept old(2) by blast
    obtain e where "e \<in> set (wa_edges w)" "ed_to_node_id e = t" using old(1) by auto
    then have "t \<notin> ?entries" using no_entry [of t e] by auto
    then have "open_at w' x \<Longrightarrow> untouched w' t"
      using pending hist_okD(2) [OF assms(1) old(1)] x by (simp add: open_at_def)
    then show ?thesis using hist_okD(1) [OF assms(1) old(1)] x by simp
  next
    case (new e)
    then have "x \<in> ?new" "t \<in> ?new \<or> untouched w t"
      using fresh_replanD(2,3) [OF assms(3) new(1)] by (auto simp: untouched_def)
    moreover have "t \<notin> ?entries" using no_entry [of t e] new by auto
    ultimately show ?thesis using present pending by blast
  next
    case (rejoin r)
    then have "x \<in> ?new" "t \<notin> ?new" "untouched w t"
      using replan_okD(2-4) [OF assms(2) rejoin(1)] by (simp_all add: untouched_def)
    then show ?thesis using present pending entries by blast
  qed
  then have "hist_ok w'" unfolding hist_ok_def by blast
  moreover have "keeps_frozen w w'"
    unfolding keeps_frozen_def
  proof (intro allI impI)
    fix i s assume i: "node_status w i = Some s" "frozen s"
    have "i \<notin> ?new" using new [of i] i(1) by auto
    moreover have "i \<notin> ?rem" using removed [of i] i by (auto simp: frozen_def)
    ultimately show "node_status w' i = Some s" using kept i by simp
  qed
  ultimately show ?thesis ..
qed


section \<open>The invariant under every operation\<close>

lemma guarded_snd: "snd (guarded g w w') = (if g = Ok () then w' else w)"
  by (cases g) (simp_all add: guarded_def)

lemmas lifecycle_defs = activate_def deactivate_def complete_workflow_def cancel_def fail_workflow_def
  finish_workflow_def guarded_snd

lemma hist_ok_same:
  assumes "wa_edges w' = wa_edges w" "node_status w' = node_status w"
  shows "hist_ok w' = hist_ok w" "keeps_frozen w w'"
  by (simp_all add: hist_ok_def open_at_def untouched_def keeps_frozen_def assms)

fun is_lifecycle :: "wf_op \<Rightarrow> bool" where
  "is_lifecycle (WfAdvance _ _ _ _ _) = False"
| "is_lifecycle (WfReplan _) = False"
| "is_lifecycle _ = True"

lemma lifecycle_frame:
  assumes "is_lifecycle op"
  shows "wa_edges (wf_step op w) = wa_edges w" "node_status (wf_step op w) = node_status w"
    "wa_nodes (wf_step op w) = wa_nodes w" "wa_node_states (wf_step op w) = wa_node_states w"
  using assms by (cases op; simp add: lifecycle_defs node_status_def fun_eq_iff)+

lemma hist_ok_step:
  assumes "hist_ok w" "disciplined op w"
  shows "hist_ok (wf_step op w) \<and> keeps_frozen w (wf_step op w)"
proof -
  have same: "hist_ok w \<and> keeps_frozen w w" using assms(1) hist_ok_same(2) by blast
  show ?thesis
  proof (cases op)
    case (WfAdvance i a c ev ss)
    consider out w' where "advance_node i a c ev ss w = (Ok out, w')" "advanced i a c ev ss w out w'"
      | e where "advance_node i a c ev ss w = (Err e, w)"
      using advance_node_cases by blast
    then show ?thesis
      by cases (use WfAdvance same hist_ok_advanced [OF assms(1)] in auto)
  next
    case (WfReplan cmd)
    show ?thesis
    proof (cases rule: replan_cases [of w cmd])
      case (accepted activated w')
      then show ?thesis
        using hist_ok_commit [OF assms(1) accepted(1) _ accepted(2)] assms(2) WfReplan by simp
    qed (use WfReplan same in simp)
  qed (use hist_ok_same [OF lifecycle_frame(1,2), of op w] assms(1) in simp_all)
qed

lemma initial_status:
  "map_of (initial_states root ns) j =
     (if j \<in> nd_node_id ` set ns then Some (if j = root then NsActive else NsPending) else None)"
proof -
  have "map_of (fold (\<lambda>n. hm_insert (nd_node_id n) (if nd_node_id n = root then NsActive else NsPending)) ns m) j
      = (if j \<in> nd_node_id ` set ns then Some (if j = root then NsActive else NsPending) else map_of m j)" for m
    by (induction ns arbitrary: m) (auto simp: AList.update_conv')
  then show ?thesis by (simp add: initial_states_def)
qed

lemma wa_new_Ok:
  assumes "wa_new spec i now = Ok w"
  shows "well_formed (spec_definition spec)" "wa_edges w = cs_edges spec" "wa_nodes w = cs_nodes spec"
    "wa_node_states w = initial_states (cs_root_node_id spec) (cs_nodes spec)"
    "wa_status w = WfActive" "wa_active_mode w = Some Executing"
    "wa_node_conclusions w = []" "wa_node_evidence w = []" "wa_node_exits w = []"
  using assms
  by (auto simp: wa_new_def validate_well_formed [symmetric] split: outcome.splits)

lemma hist_ok_new:
  assumes "wa_new spec i now = Ok w"
  shows "hist_ok w"
proof -
  let ?d = "spec_definition spec"
  note new = wa_new_Ok [OF assms]
  have status: "node_status w j = (if j \<in> id_set ?d then
      Some (if j = cs_root_node_id spec then NsActive else NsPending) else None)" for j
    unfolding node_status_def new(4) initial_status by (simp add: id_set_image spec_definition_def)
  have root: "cs_root_node_id spec \<notin> Range (edge_rel (cs_edges spec))"
  proof -
    have "filter (\<lambda>i. i \<notin> Range (edge_rel (wd_edges ?d))) (node_ids (wd_nodes ?d)) = [wd_root_node_id ?d]"
      using new(1) unfolding well_formed_def Let_def by blast
    then have "wd_root_node_id ?d \<in> set (filter (\<lambda>i. i \<notin> Range (edge_rel (wd_edges ?d))) (node_ids (wd_nodes ?d)))"
      by (simp only: list.set_intros)
    then show ?thesis by (simp add: spec_definition_def)
  qed
  have ends: "x \<in> id_set ?d \<and> t \<in> id_set ?d" if "(x, t) \<in> edge_rel (cs_edges spec)" for x t
  proof -
    have "edge_rel (wd_edges ?d) \<subseteq> id_set ?d \<times> id_set ?d"
      using new(1) unfolding well_formed_def Let_def by blast
    moreover have "(x, t) \<in> edge_rel (wd_edges ?d)" using that by (simp add: spec_definition_def)
    ultimately show ?thesis by blast
  qed
  show ?thesis
  proof (rule hist_okI)
    fix x t assume xt: "(x, t) \<in> edge_rel (wa_edges w)"
    then have xt': "(x, t) \<in> edge_rel (cs_edges spec)" by (simp add: new(2))
    then show "node_status w x \<noteq> None" using ends [OF xt'] by (simp add: status)
    have "t \<noteq> cs_root_node_id spec" using root xt' by blast
    then show "untouched w t" using ends [OF xt'] by (simp add: status untouched_def)
  qed
qed

interpretation nodes: write_once wf_step disciplined hist_ok node_status frozen
proof
  fix w op i s
  assume "hist_ok w" "disciplined op w"
  note step = hist_ok_step [OF this]
  then show "hist_ok (wf_step op w)" by simp
  assume "node_status w i = Some s" "frozen s"
  then show "node_status (wf_step op w) i = Some s" using step by (simp add: keeps_frozen_def)
qed

section \<open>The end of the workflow\<close>

lemma activate_joins_frame:
  "activate_joins ss w = (activated, w') \<Longrightarrow> wa_status w' = wa_status w"
  by (induction ss arbitrary: w activated) (auto split: if_splits prod.splits)

lemma advanced_status: "advanced i a c ev ss w out w' \<Longrightarrow> wa_status w' = wa_status w"
  by (erule advanced.cases) (auto dest: activate_joins_frame)

lemma status_advance: "wa_status (snd (advance_node i a c ev ss w)) = wa_status w"
  using advance_node_cases [of i a c ev ss w] by (auto dest: advanced_status)

lemma status_replan: "wa_status (snd (replan cmd w)) = wa_status w"
  by (cases rule: replan_cases [of w cmd]) (auto dest: commit_replan_sel(3))

lemma terminal_lifecycle:
  assumes "wf_terminal (wa_status w)" "is_lifecycle op"
  shows "wf_step op w = w"
  using assms by (cases op) (simp_all add: lifecycle_defs ensure_not_terminal_def)

interpretation life: write_once wf_step "\<lambda>_ _. True" "\<lambda>_. True" "\<lambda>w (_ :: unit). Some (wa_status w)" wf_terminal
proof
  fix w :: workflow_aggregate and op s
  assume "Some (wa_status w) = Some s" "wf_terminal s"
  then have "wf_terminal (wa_status w)" "s = wa_status w" by simp_all
  then show "Some (wa_status (wf_step op w)) = Some s"
    using status_advance status_replan terminal_lifecycle [of w op] by (cases op) simp_all
qed

inductive wf_reachable :: "workflow_aggregate \<Rightarrow> bool" where
  created: "wa_new spec i now = Ok w \<Longrightarrow> wf_reachable w"
| stepped: "wf_reachable w \<Longrightarrow> wf_reachable (wf_step op w)"

lemma no_active_lookup:
  assumes "no_active w"
  shows "node_status w i \<noteq> Some NsActive"
proof
  assume "node_status w i = Some NsActive"
  then have "(i, NsActive) \<in> set (wa_node_states w)"
    unfolding node_status_def by (rule map_of_SomeD)
  then show False
    using assms by (auto simp: no_active_def node_ids_with_status_def filter_empty_conv)
qed

definition closed_out :: "workflow_aggregate \<Rightarrow> bool" where
  "closed_out w \<longleftrightarrow> complete_done w \<and> no_active w \<and> wa_active_mode w = None"

lemma closed_out_step:
  assumes "closed_out w" "wa_status w = WfCompleted"
  shows "wf_step op w = w"
proof (cases op)
  case (WfAdvance i a c ev ss)
  have "node_status w i \<noteq> Some NsActive"
    using assms(1) no_active_lookup by (simp add: closed_out_def)
  then have "\<not> advanced i a c ev ss w out w'" for out w' by (auto elim: advanced.cases)
  then show ?thesis using advance_node_cases [of i a c ev ss w] WfAdvance by auto
next
  case (WfReplan cmd)
  have "\<not> replan_ok w cmd" using assms(1) by (simp add: replan_ok_def closed_out_def Let_def)
  then show ?thesis using WfReplan by (cases rule: replan_cases [of w cmd]) auto
qed (use assms(2) terminal_lifecycle [of w op] in \<open>auto simp: wf_terminal_def\<close>)

lemma fail_unless_Ok [simp]: "fail_unless b e = Ok () \<longleftrightarrow> b"
  by (simp add: fail_unless_def)

lemma ensure_not_terminal_Ok [simp]: "ensure_not_terminal w = Ok () \<longleftrightarrow> \<not> wf_terminal (wa_status w)"
  by (simp add: ensure_not_terminal_def)

lemma complete_workflow_state:
  "snd (complete_workflow s w) =
     (if wa_status w = WfActive \<and> wa_active_mode w \<noteq> Some Replanning \<and> \<not> is_blank s
         \<and> complete_done w \<and> no_active w
      then finish_workflow WfCompleted w else w)"
  by (auto simp: complete_workflow_def guarded_snd wf_terminal_def)

lemma completes_only_by_complete:
  assumes "wa_status w \<noteq> WfCompleted" "wa_status (wf_step op w) = WfCompleted"
  obtains s where "op = WfComplete s" "complete_done w" "no_active w"
    "wf_step op w = finish_workflow WfCompleted w"
proof (cases op)
  case (WfComplete s)
  then show ?thesis
    using assms that [of s] complete_workflow_state [of s w] by (simp split: if_splits)
next
  case WfAdvance
  then show ?thesis using assms by (simp add: status_advance)
next
  case WfReplan
  then show ?thesis using assms by (simp add: status_replan)
qed (use assms in \<open>auto simp: lifecycle_defs split: if_splits\<close>)

lemma reachable_closed_out: "wf_reachable w \<Longrightarrow> wa_status w = WfCompleted \<Longrightarrow> closed_out w"
proof (induction rule: wf_reachable.induct)
  case (created spec i now w)
  then show ?case by (simp add: wa_new_Ok)
next
  case (stepped w op)
  show ?case
  proof (cases "wa_status w = WfCompleted")
    case True
    then show ?thesis using stepped.IH closed_out_step by simp
  next
    case False
    obtain s where "complete_done w" "no_active w" "wf_step op w = finish_workflow WfCompleted w"
      using completes_only_by_complete [OF False stepped.prems] by blast
    then show ?thesis
      by (simp add: closed_out_def complete_done_def no_active_def node_ids_with_status_def
          node_status_def finish_workflow_def)
  qed
qed

end
