(* ===== verification/Workflow_Store.thy ===== *)
theory Workflow_Store
  imports Workflow_Aggregate
begin

text \<open>
  The session store (\<open>application/store.rs\<close>), the persistence port (\<open>ports.rs\<close>) and the tool backend
  (\<open>application/backend.rs\<close>).

  The store lives beside a disk of type \<open>'d\<close>, which only the persistence port changes. The mutexes are the
  sequential order of the calls, so an aggregate behind \<open>Arc<Mutex<_>>\<close> is its entry of the map. The
  identifiers and time stamps the backend asks its two generators for are arguments of \<open>create\<close>.
\<close>

section \<open>The persistence port\<close>

record 'd workflow_persistence =
  wp_save :: "ustr \<Rightarrow> workflow_snapshot_data \<Rightarrow> 'd \<Rightarrow> (persistence_error, unit) outcome \<times> 'd"
  wp_load_all :: "ustr \<Rightarrow> 'd \<Rightarrow> (persistence_error, workflow_snapshot_data list) outcome"
  wp_clear_index :: "ustr \<Rightarrow> 'd \<Rightarrow> (persistence_error, unit) outcome \<times> 'd"

section \<open>The store\<close>

record 'd workflow_store =
  wt_workflows :: "(ustr, workflow_aggregate) hmap"
  wt_persistence :: "(ustr \<times> 'd workflow_persistence) option"
  wt_disk :: 'd

definition wt_new :: "'d \<Rightarrow> 'd workflow_store" where
  "wt_new disk = \<lparr>wt_workflows = [], wt_persistence = None, wt_disk = disk\<rparr>"

definition load_snapshots ::
  "workflow_snapshot_data list \<Rightarrow> (ustr, workflow_aggregate) hmap \<Rightarrow> (ustr, workflow_aggregate) hmap" where
  "load_snapshots ss m =
     fold (\<lambda>s m. case from_snapshot s of Ok w \<Rightarrow> hm_insert (wa_workflow_id w) w m | _ \<Rightarrow> m) ss m"

definition with_persistence :: "'d workflow_persistence \<Rightarrow> ustr \<Rightarrow> 'd \<Rightarrow> 'd workflow_store" where
  "with_persistence p session disk =
     \<lparr>wt_workflows = (case wp_load_all p session disk of Ok ss \<Rightarrow> load_snapshots ss [] | _ \<Rightarrow> []),
      wt_persistence = Some (session, p), wt_disk = disk\<rparr>"

definition persist_snapshot :: "workflow_snapshot_data \<Rightarrow> 'd workflow_store \<Rightarrow> 'd workflow_store" where
  "persist_snapshot s st =
     (case wt_persistence st of
        None \<Rightarrow> st
      | Some (session, p) \<Rightarrow> st\<lparr>wt_disk := snd (wp_save p session s (wt_disk st))\<rparr>)"

definition active_workflow_id :: "'d workflow_store \<Rightarrow> ustr option" where
  "active_workflow_id st =
     map_option fst (find (\<lambda>(_, w). wa_status w = WfActive) (wt_workflows st))"

definition insert_workflow ::
  "workflow_aggregate \<Rightarrow> 'd workflow_store \<Rightarrow> (workflow_tool_error, unit) outcome \<times> 'd workflow_store" where
  "insert_workflow w st =
     (if wa_workflow_id w \<in> set (hm_keys (wt_workflows st)) then
        (Err (WorkflowNotVisible (wa_workflow_id w)), st)
      else if wa_status w = WfActive
          \<and> find (\<lambda>(_, w). wa_status w = WfActive) (wt_workflows st) \<noteq> None then
        (Err ActiveWorkflowAlreadyExists, st)
      else (Ok (), st\<lparr>wt_workflows := hm_insert (wa_workflow_id w) w (wt_workflows st)\<rparr>))"

definition get_workflow ::
  "'d workflow_store \<Rightarrow> ustr \<Rightarrow> (workflow_tool_error, workflow_aggregate) outcome" where
  "get_workflow st i =
     (case map_of (wt_workflows st) i of Some w \<Rightarrow> Ok w | None \<Rightarrow> Err (WorkflowNotVisible i))"

definition wanted :: "workflow_status option \<Rightarrow> workflow_aggregate \<Rightarrow> bool" where
  "wanted status w \<longleftrightarrow> (case status of None \<Rightarrow> True | Some s \<Rightarrow> wa_status w = s)"

definition list_workflows :: "'d workflow_store \<Rightarrow> workflow_status option \<Rightarrow> workflow_aggregate list" where
  "list_workflows st status =
     sort_key wa_workflow_id (filter (wanted status) (hm_values (wt_workflows st)))"

definition total_workflows :: "'d workflow_store \<Rightarrow> workflow_status option \<Rightarrow> nat" where
  "total_workflows st status = length (filter (wanted status) (hm_values (wt_workflows st)))"

fun active_hint :: "(ustr, workflow_aggregate) hmap \<Rightarrow> workflow_state_hint option" where
  "active_hint [] = None"
| "active_hint ((i, w) # m) =
     (if wa_status w \<noteq> WfActive then active_hint m
      else case wa_active_mode w of
        None \<Rightarrow> active_hint m
      | Some mode \<Rightarrow> Some \<lparr>wh_workflow_id = i, wh_active_mode = mode\<rparr>)"

definition active_state :: "'d workflow_store \<Rightarrow> workflow_state_hint option" where
  "active_state st = active_hint (wt_workflows st)"

definition clear_memory :: "'d workflow_store \<Rightarrow> 'd workflow_store" where
  "clear_memory st = st\<lparr>wt_workflows := []\<rparr>"

definition reset_session ::
  "ustr \<Rightarrow> 'd workflow_store \<Rightarrow> (persistence_error, unit) outcome \<times> 'd workflow_store" where
  "reset_session session st =
     (case wt_persistence st of
        Some (bound, p) \<Rightarrow>
          if bound = session then
            (case wp_clear_index p session (wt_disk st) of
               (Ok _, d) \<Rightarrow> (Ok (), clear_memory (st\<lparr>wt_disk := d\<rparr>))
             | (Err e, d) \<Rightarrow> (Err e, st\<lparr>wt_disk := d\<rparr>)
             | (Panic, d) \<Rightarrow> (Panic, st\<lparr>wt_disk := d\<rparr>))
          else (Ok (), clear_memory st)
      | None \<Rightarrow> (Ok (), clear_memory st))"

section \<open>The tool backend\<close>

definition summary_data :: "workflow_aggregate \<Rightarrow> workflow_summary_data" where
  "summary_data w =
     \<lparr>ws_workflow_id = wa_workflow_id w, ws_name = wa_name w, ws_status = wa_status w,
      ws_active_mode = wa_active_mode w, ws_pending_mode = wa_pending_mode w,
      ws_node_summary =
        \<lparr>nc_pending = length (node_ids_with_status w NsPending),
         nc_active = length (node_ids_with_status w NsActive),
         nc_completed = length (node_ids_with_status w NsCompleted),
         nc_failed = length (node_ids_with_status w NsFailed),
         nc_stopped = length (node_ids_with_status w NsStopped)\<rparr>,
      ws_updated_at = wa_updated_at w\<rparr>"

definition node_view :: "workflow_aggregate \<Rightarrow> node_definition \<Rightarrow> node_view_data" where
  "node_view w n =
     (let i = nd_node_id n
      in \<lparr>nv_node_id = i, nv_kind = nd_kind n, nv_role = nd_role n,
          nv_status = (case node_status w i of Some s \<Rightarrow> s | None \<Rightarrow> NsPending),
          nv_description = nd_description n, nv_completion_criteria = nd_completion_criteria n,
          nv_conclusion = node_conclusion w i,
          nv_evidence_refs = (case node_evidence w i of Some r \<Rightarrow> r | None \<Rightarrow> []),
          nv_successors = (case node_exits w i of Some x \<Rightarrow> x | None \<Rightarrow> [])\<rparr>)"

definition detail_data :: "workflow_aggregate \<Rightarrow> bool \<Rightarrow> workflow_detail_data" where
  "detail_data w include_facts =
     \<lparr>dd_workflow_id = wa_workflow_id w, dd_name = wa_name w, dd_objective = wa_objective w,
      dd_status = wa_status w, dd_active_mode = wa_active_mode w,
      dd_pending_mode = wa_pending_mode w, dd_root_node_id = wa_root_node_id w,
      dd_complete_node_id =
        (case find (\<lambda>n. nd_kind n = KindComplete) (wa_nodes w) of
           Some n \<Rightarrow> nd_node_id n | None \<Rightarrow> []),
      dd_nodes = map (node_view w) (wa_nodes w), dd_edges = wa_edges w, dd_facts = [],
      dd_allowed_actions = allowed_actions w\<rparr>"

type_synonym ('d, 'a) wb_result = "(workflow_tool_error, 'a) outcome \<times> 'd workflow_store"

text \<open>What every mutation does once its aggregate has accepted it: the map and then the disk.\<close>

definition put_workflow :: "ustr \<Rightarrow> workflow_aggregate \<Rightarrow> 'd workflow_store \<Rightarrow> 'd workflow_store" where
  "put_workflow i w st = st\<lparr>wt_workflows := hm_insert i w (wt_workflows st)\<rparr>"

definition wb_create ::
  "create_workflow_spec \<Rightarrow> ustr \<Rightarrow> ustr \<Rightarrow> 'd workflow_store \<Rightarrow>
     ('d, workflow_summary_data) wb_result" where
  "wb_create spec new_id now st =
     (if active_workflow_id st \<noteq> None then (Err ActiveWorkflowAlreadyExists, st)
      else case wa_new spec new_id now of
        Err e \<Rightarrow> (Err e, st)
      | Panic \<Rightarrow> (Panic, st)
      | Ok w \<Rightarrow>
          (case insert_workflow w st of
             (Ok _, st') \<Rightarrow> (Ok (summary_data w), persist_snapshot (to_snapshot w) st')
           | (Err e, st') \<Rightarrow> (Err e, st')
           | (Panic, st') \<Rightarrow> (Panic, st')))"

definition wb_list :: "list_workflows_query \<Rightarrow> 'd workflow_store \<Rightarrow> list_workflows_data" where
  "wb_list q st =
     (let total = total_workflows st (lq_status q);
          matched = list_workflows st (lq_status q);
          offset = min (lq_offset q) total
      in \<lparr>lw_workflows = map summary_data (take (lq_limit q) (drop offset matched)),
          lw_total = total, lw_limit = lq_limit q, lw_offset = lq_offset q\<rparr>)"

definition wb_query ::
  "query_workflow_query \<Rightarrow> 'd workflow_store \<Rightarrow> (workflow_tool_error, workflow_detail_data) outcome" where
  "wb_query q st = map_ok (\<lambda>w. detail_data w (qq_include_facts q)) (get_workflow st (qq_workflow_id q))"

definition summary_text :: "update_workflow_command \<Rightarrow> ustr" where
  "summary_text cmd = (case uw_summary cmd of Some s \<Rightarrow> s | None \<Rightarrow> [])"

definition apply_lifecycle :: "update_workflow_command \<Rightarrow> workflow_aggregate \<Rightarrow> unit wf_result" where
  "apply_lifecycle cmd w =
     (case uw_action cmd of
        LaActivate \<Rightarrow> activate w
      | LaDeactivate \<Rightarrow> deactivate w
      | LaComplete \<Rightarrow> complete_workflow (summary_text cmd) w
      | LaCancel \<Rightarrow> cancel (summary_text cmd) w
      | LaFail \<Rightarrow> fail_workflow (summary_text cmd) w)"

definition wb_update ::
  "update_workflow_command \<Rightarrow> 'd workflow_store \<Rightarrow> ('d, lifecycle_result_data) wb_result" where
  "wb_update cmd st =
     (case get_workflow st (uw_workflow_id cmd) of
        Err e \<Rightarrow> (Err e, st)
      | Panic \<Rightarrow> (Panic, st)
      | Ok w \<Rightarrow>
          (case apply_lifecycle cmd w of
             (Ok _, w') \<Rightarrow>
               (Ok \<lparr>lr_workflow_id = wa_workflow_id w', lr_status = wa_status w',
                    lr_active_mode = wa_active_mode w', lr_pending_mode = wa_pending_mode w'\<rparr>,
                persist_snapshot (to_snapshot w') (put_workflow (uw_workflow_id cmd) w' st))
           | (Err e, w') \<Rightarrow> (Err e, put_workflow (uw_workflow_id cmd) w' st)
           | (Panic, w') \<Rightarrow> (Panic, put_workflow (uw_workflow_id cmd) w' st)))"

definition wb_node_update ::
  "update_node_command \<Rightarrow> 'd workflow_store \<Rightarrow> ('d, node_update_result_data) wb_result" where
  "wb_node_update cmd st =
     (case get_workflow st (un_workflow_id cmd) of
        Err e \<Rightarrow> (Err e, st)
      | Panic \<Rightarrow> (Panic, st)
      | Ok w \<Rightarrow>
          if wa_active_mode w = Some Replanning then (Err (WorkflowReplanning (un_workflow_id cmd)), st)
          else (case advance_node (un_node_id cmd) (un_action cmd) (un_conclusion cmd)
                       (un_evidence_refs cmd) (un_successors cmd) w of
             (Ok out, w') \<Rightarrow>
               (Ok \<lparr>nr_workflow_id = wa_workflow_id w', nr_node_id = un_node_id cmd,
                    nr_node_status = ao_node_status out, nr_status = wa_status w',
                    nr_active_mode = wa_active_mode w',
                    nr_activated_node_ids = ao_activated_node_ids out,
                    nr_stopped_node_ids = ao_stopped_node_ids out,
                    nr_replan_boundary =
                      (if ao_node_status out = NsFailed then
                         Some \<lparr>rb_trigger_node_id = un_node_id cmd,
                               rb_stopped_node_ids = ao_stopped_node_ids out,
                               rb_frozen_fact_refs = un_evidence_refs cmd\<rparr>
                       else None)\<rparr>,
                persist_snapshot (to_snapshot w') (put_workflow (un_workflow_id cmd) w' st))
           | (Err e, w') \<Rightarrow> (Err e, put_workflow (un_workflow_id cmd) w' st)
           | (Panic, w') \<Rightarrow> (Panic, put_workflow (un_workflow_id cmd) w' st)))"

definition wb_replan ::
  "replan_workflow_command \<Rightarrow> 'd workflow_store \<Rightarrow> ('d, replan_result_data) wb_result" where
  "wb_replan cmd st =
     (case get_workflow st (rw_workflow_id cmd) of
        Err e \<Rightarrow> (Err e, st)
      | Panic \<Rightarrow> (Panic, st)
      | Ok w \<Rightarrow>
          (case replan cmd w of
             (Ok res, w') \<Rightarrow>
               (Ok res, persist_snapshot (to_snapshot w') (put_workflow (rw_workflow_id cmd) w' st))
           | (Err e, w') \<Rightarrow> (Err e, put_workflow (rw_workflow_id cmd) w' st)
           | (Panic, w') \<Rightarrow> (Panic, put_workflow (rw_workflow_id cmd) w' st)))"

end
