(* ===== verification/Workflow_Files.thy ===== *)
theory Workflow_Files
  imports Workflow_Store
begin

text \<open>
  The file persistence (\<open>adapters/file_persistence.rs\<close>): one index file per session and one entity file
  per workflow.

  A file holds a value or bytes that do not decode (\<open>Garbled\<close>); \<open>serde_json\<close> is taken to write what it
  reads back. The disk also remembers whether its two directories exist. A write through a temporary file and a rename replaces the file or fails. Whether a file
  operation fails is the environment's choice, an argument \<open>io\<close> that names the error. A \<open>BTreeSet\<close> is a
  sorted list without repetition. Identifiers are used as file names; two identifiers give two files.
\<close>

section \<open>The disk\<close>

datatype 'a disk_file = Readable 'a | Garbled

record session_index_file =
  ix_workflow_ids :: "ustr list"
  ix_active_workflow_id :: "ustr option"

record wf_disk =
  dk_root :: ustr
  dk_indexes :: "(ustr, session_index_file disk_file) hmap"
  dk_entities :: "(ustr, workflow_snapshot_data disk_file) hmap"
  dk_index_dir :: bool
  dk_entities_dir :: bool

datatype io_action =
    IoReadIndex ustr | IoWriteIndex ustr | IoRemoveIndex ustr
  | IoReadEntity ustr | IoWriteEntity ustr | IoRemoveEntity ustr
  | IoListIndexes | IoListEntities

type_synonym io = "io_action \<Rightarrow> ustr option"

definition entity_path :: "wf_disk \<Rightarrow> ustr \<Rightarrow> ustr" where
  "entity_path d i = dk_root d @ lit ''/entities/'' @ i @ lit ''.json''"

definition index_path :: "wf_disk \<Rightarrow> ustr \<Rightarrow> ustr" where
  "index_path d s = dk_root d @ lit ''/index/'' @ s @ lit ''.json''"

definition io_err :: "ustr \<Rightarrow> ustr \<Rightarrow> persistence_error" where
  "io_err path error = PeIo (path @ lit '': '' @ error)"

definition empty_index :: session_index_file where
  "empty_index = \<lparr>ix_workflow_ids = [], ix_active_workflow_id = None\<rparr>"

definition read_file ::
  "io \<Rightarrow> io_action \<Rightarrow> ustr \<Rightarrow> 'a disk_file \<Rightarrow> (persistence_error, 'a) outcome" where
  "read_file io action path f =
     (case io action of
        Some error \<Rightarrow> Err (io_err path error)
      | None \<Rightarrow> (case f of Readable x \<Rightarrow> Ok x | Garbled \<Rightarrow> Err (PeCorrupt path)))"

definition load_index :: "io \<Rightarrow> ustr \<Rightarrow> wf_disk \<Rightarrow> (persistence_error, session_index_file) outcome" where
  "load_index io s d =
     (case map_of (dk_indexes d) s of
        None \<Rightarrow> Ok empty_index
      | Some f \<Rightarrow> read_file io (IoReadIndex s) (index_path d s) f)"

definition store_index ::
  "io \<Rightarrow> ustr \<Rightarrow> session_index_file \<Rightarrow> wf_disk \<Rightarrow> (persistence_error, unit) outcome \<times> wf_disk" where
  "store_index io s ix d =
     (case io (IoWriteIndex s) of
        Some error \<Rightarrow> (Err (io_err (index_path d s) error), d)
      | None \<Rightarrow> (Ok (), d\<lparr>dk_indexes := hm_insert s (Readable ix) (dk_indexes d), dk_index_dir := True\<rparr>))"

section \<open>The port\<close>

definition register :: "workflow_snapshot_data \<Rightarrow> session_index_file \<Rightarrow> session_index_file" where
  "register x ix =
     \<lparr>ix_workflow_ids = insort_insert (sn_workflow_id x) (ix_workflow_ids ix),
      ix_active_workflow_id =
        (if sn_status x = WfActive then Some (sn_workflow_id x)
         else if ix_active_workflow_id ix = Some (sn_workflow_id x) then None
         else ix_active_workflow_id ix)\<rparr>"

definition fp_save ::
  "io \<Rightarrow> ustr \<Rightarrow> workflow_snapshot_data \<Rightarrow> wf_disk \<Rightarrow> (persistence_error, unit) outcome \<times> wf_disk" where
  "fp_save io s x d =
     (case io (IoWriteEntity (sn_workflow_id x)) of
        Some error \<Rightarrow> (Err (io_err (entity_path d (sn_workflow_id x)) error), d)
      | None \<Rightarrow>
          let d' = d\<lparr>dk_entities := hm_insert (sn_workflow_id x) (Readable x) (dk_entities d),
                     dk_entities_dir := True\<rparr>
          in (case load_index io s d' of
                Err e \<Rightarrow> (Err e, d')
              | Panic \<Rightarrow> (Panic, d')
              | Ok ix \<Rightarrow> store_index io s (register x ix) d'))"

definition load_entity ::
  "io \<Rightarrow> wf_disk \<Rightarrow> ustr \<Rightarrow> (persistence_error, workflow_snapshot_data) outcome" where
  "load_entity io d i =
     (case map_of (dk_entities d) i of
        None \<Rightarrow> Err (PeCorrupt (entity_path d i))
      | Some f \<Rightarrow>
          (case read_file io (IoReadEntity i) (entity_path d i) f of
             Ok x \<Rightarrow> if sn_workflow_id x \<noteq> i then Err (PeCorrupt (entity_path d i)) else Ok x
           | Err e \<Rightarrow> Err e
           | Panic \<Rightarrow> Panic))"

definition fp_load_all ::
  "io \<Rightarrow> ustr \<Rightarrow> wf_disk \<Rightarrow> (persistence_error, workflow_snapshot_data list) outcome" where
  "fp_load_all io s d =
     (case load_index io s d of
        Ok ix \<Rightarrow> traverse (load_entity io d) (ix_workflow_ids ix)
      | Err e \<Rightarrow> Err e
      | Panic \<Rightarrow> Panic)"

definition fp_clear_index ::
  "io \<Rightarrow> ustr \<Rightarrow> wf_disk \<Rightarrow> (persistence_error, unit) outcome \<times> wf_disk" where
  "fp_clear_index io s d =
     (case map_of (dk_indexes d) s of
        None \<Rightarrow> (Ok (), d)
      | Some _ \<Rightarrow>
          (case io (IoRemoveIndex s) of
             Some error \<Rightarrow> (Err (io_err (index_path d s) error), d)
           | None \<Rightarrow> (Ok (), d\<lparr>dk_indexes := hm_remove s (dk_indexes d)\<rparr>)))"

definition file_persistence :: "io \<Rightarrow> wf_disk workflow_persistence" where
  "file_persistence io =
     \<lparr>wp_save = fp_save io, wp_load_all = fp_load_all io, wp_clear_index = fp_clear_index io\<rparr>"

section \<open>Cleaning up\<close>

record cleanup_report =
  cl_scanned :: nat
  cl_referenced :: nat
  cl_removed :: "ustr list"

definition index_references :: "session_index_file \<Rightarrow> ustr list" where
  "index_references ix =
     ix_workflow_ids ix @ (case ix_active_workflow_id ix of Some i \<Rightarrow> [i] | None \<Rightarrow> [])"

definition collect_referenced_ids :: "io \<Rightarrow> wf_disk \<Rightarrow> (persistence_error, ustr list) outcome" where
  "collect_referenced_ids io d =
     (if \<not> dk_index_dir d then Ok []
      else case io IoListIndexes of
        Some error \<Rightarrow> Err (io_err (dk_root d @ lit ''/index'') error)
      | None \<Rightarrow>
          map_ok concat
            (traverse (\<lambda>(s, f). map_ok index_references (read_file io (IoReadIndex s) (index_path d s) f))
               (dk_indexes d)))"

text \<open>The loop over the scanned entities; a removal that fails leaves the ones before it removed.\<close>

fun remove_orphans ::
  "io \<Rightarrow> bool \<Rightarrow> ustr list \<Rightarrow> ustr list \<Rightarrow> cleanup_report \<Rightarrow> wf_disk \<Rightarrow>
     (persistence_error, cleanup_report) outcome \<times> wf_disk" where
  "remove_orphans io dry referenced [] report d = (Ok report, d)"
| "remove_orphans io dry referenced (i # is) report d =
     (if i \<in> set referenced then
        remove_orphans io dry referenced is (report\<lparr>cl_referenced := Suc (cl_referenced report)\<rparr>) d
      else if dry then
        remove_orphans io dry referenced is (report\<lparr>cl_removed := cl_removed report @ [i]\<rparr>) d
      else case io (IoRemoveEntity i) of
        Some error \<Rightarrow> (Err (io_err (entity_path d i) error), d)
      | None \<Rightarrow>
          remove_orphans io dry referenced is (report\<lparr>cl_removed := cl_removed report @ [i]\<rparr>)
            (d\<lparr>dk_entities := hm_remove i (dk_entities d)\<rparr>))"

definition empty_report :: cleanup_report where
  "empty_report = \<lparr>cl_scanned = 0, cl_referenced = 0, cl_removed = []\<rparr>"

definition cleanup_orphans ::
  "io \<Rightarrow> bool \<Rightarrow> wf_disk \<Rightarrow> (persistence_error, cleanup_report) outcome \<times> wf_disk" where
  "cleanup_orphans io dry d =
     (if \<not> dk_entities_dir d then (Ok empty_report, d)
      else case collect_referenced_ids io d of
        Err e \<Rightarrow> (Err e, d)
      | Panic \<Rightarrow> (Panic, d)
      | Ok referenced \<Rightarrow>
          (case io IoListEntities of
             Some error \<Rightarrow> (Err (io_err (dk_root d @ lit ''/entities'') error), d)
           | None \<Rightarrow>
               let ids = hm_keys (dk_entities d);
                   (r, d') = remove_orphans io dry referenced ids (empty_report\<lparr>cl_scanned := length ids\<rparr>) d
               in (map_ok (\<lambda>rep. rep\<lparr>cl_removed := sort (cl_removed rep)\<rparr>) r, d')))"

end
