(* ===== verification/Workflow_Restore.thy ===== *)
theory Workflow_Restore
  imports Workflow_Lifecycle Workflow_Files
begin

text \<open>
  A workflow that is saved and restored. The image forgets how the hash maps were filled, so the restored
  aggregate equals the saved one as seen through its lookups (\<open>wf_equiv\<close>), and every operation respects
  that view.
\<close>

section \<open>What an aggregate shows\<close>

definition evidence_of :: "workflow_aggregate \<Rightarrow> node_id \<Rightarrow> evidence_ref list" where
  "evidence_of w i = (case node_evidence w i of Some r \<Rightarrow> r | None \<Rightarrow> [])"

definition exits_of :: "workflow_aggregate \<Rightarrow> node_id \<Rightarrow> successor_decision list" where
  "exits_of w i = (case node_exits w i of Some x \<Rightarrow> x | None \<Rightarrow> [])"

definition wf_equiv :: "workflow_aggregate \<Rightarrow> workflow_aggregate \<Rightarrow> bool" where
  "wf_equiv v w \<longleftrightarrow>
     wa_workflow_id v = wa_workflow_id w \<and> wa_name v = wa_name w \<and> wa_objective v = wa_objective w
     \<and> wa_root_node_id v = wa_root_node_id w \<and> wa_nodes v = wa_nodes w \<and> wa_edges v = wa_edges w
     \<and> wa_status v = wa_status w \<and> wa_active_mode v = wa_active_mode w
     \<and> wa_pending_mode v = wa_pending_mode w \<and> wa_updated_at v = wa_updated_at w
     \<and> node_status v = node_status w \<and> node_conclusion v = node_conclusion w
     \<and> evidence_of v = evidence_of w \<and> exits_of v = exits_of w"

lemmas lookup_defs = node_status_def node_conclusion_def node_evidence_def node_exits_def
  evidence_of_def exits_of_def AList.update_conv' AList.delete_conv' fun_eq_iff

text \<open>The state of the maps every operation keeps.\<close>

definition maps_ok :: "workflow_aggregate \<Rightarrow> bool" where
  "maps_ok w \<longleftrightarrow>
     distinct (hm_keys (wa_node_states w))
     \<and> (\<forall>n \<in> set (wa_nodes w). node_status w (nd_node_id n) \<noteq> None)
     \<and> (\<forall>i. node_status w i = None \<longrightarrow>
          node_conclusion w i = None \<and> node_evidence w i = None \<and> node_exits w i = None)"

section \<open>Every operation keeps the maps in order\<close>

lemma set_node_maps [simp]:
  "node_conclusion (set_node i s w) = node_conclusion w" "node_evidence (set_node i s w) = node_evidence w"
  "wa_node_states (set_node i s w) = hm_insert i s (wa_node_states w)"
  by (simp_all add: set_node_def lookup_defs)

lemma record_completion_maps [simp]:
  "node_conclusion (record_completion i c ev ss w) = (node_conclusion w)(i \<mapsto> c)"
  "node_evidence (record_completion i c ev ss w) = (node_evidence w)(i \<mapsto> ev)"
  "wa_node_states (record_completion i c ev ss w) = hm_insert i NsCompleted (wa_node_states w)"
  by (simp_all add: record_completion_def lookup_defs)

lemma maps_ok_set_node: "maps_ok w \<Longrightarrow> maps_ok (set_node i s w)"
  by (simp add: maps_ok_def distinct_update)

lemma maps_ok_completion: "maps_ok w \<Longrightarrow> maps_ok (record_completion i c ev ss w)"
  by (simp add: maps_ok_def distinct_update)

lemma keys_stop_others [simp]: "hm_keys (stop_others i m) = hm_keys m"
  by (induction m) (auto simp: stop_others_def)

lemma failed_node_maps [simp]:
  "node_conclusion (failed_node i c w) = (node_conclusion w)(i \<mapsto> c)"
  "node_evidence (failed_node i c w) = node_evidence w"
  "node_exits (failed_node i c w) = node_exits w"
  "wa_node_states (failed_node i c w) = hm_insert i NsFailed (stop_others i (wa_node_states w))"
  by (simp_all add: failed_node_def enter_replanning_def lookup_defs)

lemma evidence_update [simp]:
  "node_evidence (w\<lparr>wa_node_evidence := hm_insert i ev (wa_node_evidence w)\<rparr>) = (node_evidence w)(i \<mapsto> ev)"
  "node_conclusion (w\<lparr>wa_node_evidence := e\<rparr>) = node_conclusion w"
  "node_exits (w\<lparr>wa_node_evidence := e\<rparr>) = node_exits w"
  by (simp_all add: lookup_defs)

lemma maps_ok_failed:
  assumes "maps_ok w"
  shows "maps_ok (failed_node i c w\<lparr>wa_node_evidence := hm_insert i ev (wa_node_evidence (failed_node i c w))\<rparr>)"
  using assms by (simp add: maps_ok_def distinct_update)

lemma maps_ok_joins: "maps_ok w \<Longrightarrow> maps_ok (snd (activate_joins ss w))"
  by (induction ss arbitrary: w) (simp_all add: maps_ok_set_node split_beta Let_def)

lemma maps_ok_advanced: "advanced i a c ev ss w out w' \<Longrightarrow> maps_ok w \<Longrightarrow> maps_ok w'"
proof (erule advanced.cases, goal_cases)
  case (3 w i ss c ev activated w')
  then show ?case using maps_ok_joins [of "record_completion i c ev ss w" ss] maps_ok_completion by simp
qed (simp_all add: maps_ok_failed maps_ok_completion)

lemma distinct_remove: "distinct (hm_keys m) \<Longrightarrow> distinct (hm_keys (fold hm_remove ks m))"
  by (induction ks arbitrary: m) (simp_all add: distinct_delete)

lemma remove_nodes_maps [simp]:
  "node_conclusion (remove_nodes ks w) = (\<lambda>j. if j \<in> set ks then None else node_conclusion w j)"
  "node_evidence (remove_nodes ks w) = (\<lambda>j. if j \<in> set ks then None else node_evidence w j)"
  "node_exits (remove_nodes ks w) = (\<lambda>j. if j \<in> set ks then None else node_exits w j)"
  "wa_node_states (remove_nodes ks w) = fold hm_remove ks (wa_node_states w)"
  "wa_nodes (remove_nodes ks w) = filter (\<lambda>n. nd_node_id n \<notin> set ks) (wa_nodes w)"
  by (simp_all add: remove_nodes_def lookup_defs fold_hm_remove)

lemma maps_ok_remove: "maps_ok w \<Longrightarrow> maps_ok (remove_nodes ks w)"
  by (simp add: maps_ok_def distinct_remove)

lemma ids_update_first:
  "map nd_node_id (update_first p (override_node u) ns) = map nd_node_id ns"
  by (induction ns) (simp_all add: override_node_def)

lemma ids_updates:
  "map nd_node_id (fold (\<lambda>u. update_first (\<lambda>n. nd_node_id n = pu_node_id u) (override_node u)) us ns)
     = map nd_node_id ns"
  by (induction us arbitrary: ns) (simp_all add: ids_update_first)

lemma update_nodes_ids: "nd_node_id ` set (wa_nodes (update_nodes us w)) = nd_node_id ` set (wa_nodes w)"
  unfolding update_nodes_def set_map [symmetric] by (simp add: ids_updates del: set_map)

lemma update_nodes_maps:
  "wa_node_states (update_nodes us w) = wa_node_states w"
  "node_conclusion (update_nodes us w) = node_conclusion w"
  "node_evidence (update_nodes us w) = node_evidence w"
  "node_exits (update_nodes us w) = node_exits w"
  by (simp_all add: update_nodes_def lookup_defs)

lemma maps_ok_update:
  assumes "maps_ok w"
  shows "maps_ok (update_nodes us w)"
proof -
  have "node_status w j \<noteq> None" if "j \<in> nd_node_id ` set (wa_nodes w)" for j
    using assms that by (auto simp: maps_ok_def)
  then have "node_status w (nd_node_id n) \<noteq> None" if "n \<in> set (wa_nodes (update_nodes us w))" for n
    using update_nodes_ids [of us w] that by blast
  then show ?thesis
    using assms unfolding maps_ok_def update_nodes_maps update_nodes_sel by blast
qed

lemma distinct_fold_insert: "distinct (hm_keys m) \<Longrightarrow> distinct (hm_keys (fold (\<lambda>n. hm_insert (f n) v) ns m))"
  by (induction ns arbitrary: m) (simp_all add: distinct_update)

lemma merge_nodes_maps:
  "node_conclusion (merge_nodes cmd w) = node_conclusion w"
  "node_evidence (merge_nodes cmd w) = node_evidence w" "node_exits (merge_nodes cmd w) = node_exits w"
  "wa_nodes (merge_nodes cmd w) = wa_nodes w @ rw_new_nodes cmd"
  "distinct (hm_keys (wa_node_states w)) \<Longrightarrow> distinct (hm_keys (wa_node_states (merge_nodes cmd w)))"
  by (simp_all add: merge_nodes_def lookup_defs distinct_fold_insert)

lemma maps_ok_merge: "maps_ok w \<Longrightarrow> maps_ok (merge_nodes cmd w)"
  by (auto simp: maps_ok_def merge_nodes_maps)

lemma maps_ok_entries: "maps_ok w \<Longrightarrow> maps_ok (snd (activate_entries is w))"
  by (induction "is" arbitrary: w) (simp_all add: maps_ok_set_node split_beta Let_def)

lemma maps_ok_same:
  "wa_node_states v = wa_node_states w \<Longrightarrow> wa_nodes v = wa_nodes w \<Longrightarrow>
   wa_node_conclusions v = wa_node_conclusions w \<Longrightarrow> wa_node_evidence v = wa_node_evidence w \<Longrightarrow>
   wa_node_exits v = wa_node_exits w \<Longrightarrow> maps_ok v = maps_ok w"
  by (simp add: maps_ok_def node_status_def node_conclusion_def node_evidence_def node_exits_def)

lemma maps_ok_commit: "maps_ok w \<Longrightarrow> maps_ok (snd (commit_replan cmd w))"
  using maps_ok_same [of "x\<lparr>wa_active_mode := Some Executing\<rparr>" x for x]
  by (simp add: commit_replan_def Let_def split_beta maps_ok_entries maps_ok_merge maps_ok_update maps_ok_remove)

lemma lifecycle_maps:
  assumes "is_lifecycle op"
  shows "wa_node_conclusions (wf_step op w) = wa_node_conclusions w"
    "wa_node_evidence (wf_step op w) = wa_node_evidence w"
    "wa_node_exits (wf_step op w) = wa_node_exits w"
  using assms by (cases op; simp add: lifecycle_defs)+

lemma maps_ok_step:
  assumes "maps_ok w"
  shows "maps_ok (wf_step op w)"
proof (cases op)
  case (WfAdvance i a c ev ss)
  then show ?thesis using advance_node_cases [of i a c ev ss w] maps_ok_advanced assms by auto
next
  case (WfReplan cmd)
  show ?thesis
  proof (cases rule: replan_cases [of w cmd])
    case (accepted activated w')
    then show ?thesis using maps_ok_commit [OF assms, of cmd] WfReplan by simp
  qed (use WfReplan assms in simp)
qed (use assms maps_ok_same [OF lifecycle_frame(4,3) lifecycle_maps, of op w] in simp_all)

lemma distinct_initial: "distinct (hm_keys (initial_states root ns))"
proof -
  have "distinct (hm_keys m) \<Longrightarrow> distinct (hm_keys (fold (\<lambda>n. hm_insert (nd_node_id n) (f n)) ns m))" for f m
    by (induction ns arbitrary: m) (simp_all add: distinct_update)
  from this [of "[]" "\<lambda>n. if nd_node_id n = root then NsActive else NsPending"]
  show ?thesis by (simp add: initial_states_def)
qed

lemma maps_ok_new: "wa_new spec i now = Ok w \<Longrightarrow> maps_ok w"
  using wa_new_Ok [of spec i now w] distinct_initial
  by (simp add: maps_ok_def node_status_def node_conclusion_def node_evidence_def node_exits_def
      initial_status)

lemma reachable_maps_ok: "wf_reachable w \<Longrightarrow> maps_ok w"
  by (induction rule: wf_reachable.induct) (simp_all add: maps_ok_new maps_ok_step)


section \<open>Every operation respects the view\<close>

lemma equivD:
  assumes "wf_equiv v w"
  shows "wa_workflow_id v = wa_workflow_id w" "wa_nodes v = wa_nodes w" "wa_edges v = wa_edges w"
    "wa_status v = wa_status w" "wa_active_mode v = wa_active_mode w"
    "wa_pending_mode v = wa_pending_mode w" "node_status v = node_status w"
    "node_conclusion v = node_conclusion w" "evidence_of v = evidence_of w" "exits_of v = exits_of w"
  using assms by (simp_all add: wf_equiv_def)

lemma evidence_of_upd:
  "evidence_of (set_node i s w) = evidence_of w" "exits_of (set_node i s w) = exits_of w"
  "evidence_of (record_completion i c ev ss w) = (evidence_of w)(i := ev)"
  "exits_of (record_completion i c ev ss w) = (exits_of w)(i := ss)"
  "exits_of (failed_node i c w) = exits_of w"
  by (simp_all add: evidence_of_def exits_of_def fun_eq_iff)

lemma chose_exits: "chose w x t \<longleftrightarrow> t \<in> sd_node_id ` set (exits_of w x)"
  by (cases "node_exits w x") (simp_all add: chose_def exits_of_def)

lemma equiv_join: "wf_equiv v w \<Longrightarrow> join_ready v = join_ready w"
  by (simp add: join_ready_def out_of_play_def chose_exits fun_eq_iff equivD)

lemma set_node_rest [simp]:
  "wa_workflow_id (set_node i s w) = wa_workflow_id w" "wa_name (set_node i s w) = wa_name w"
  "wa_objective (set_node i s w) = wa_objective w"
  "wa_root_node_id (set_node i s w) = wa_root_node_id w"
  "wa_updated_at (set_node i s w) = wa_updated_at w"
  by (simp_all add: set_node_def)

lemma equiv_set_node: "wf_equiv v w \<Longrightarrow> wf_equiv (set_node i s v) (set_node i s w)"
  by (simp add: wf_equiv_def evidence_of_upd)

lemma equiv_completion:
  assumes "wf_equiv v w"
  shows "wf_equiv (record_completion i c ev ss v) (record_completion i c ev ss w)"
proof -
  have "wa_workflow_id (record_completion i c ev ss u) = wa_workflow_id u"
    "wa_name (record_completion i c ev ss u) = wa_name u"
    "wa_objective (record_completion i c ev ss u) = wa_objective u"
    "wa_root_node_id (record_completion i c ev ss u) = wa_root_node_id u"
    "wa_pending_mode (record_completion i c ev ss u) = wa_pending_mode u"
    "wa_updated_at (record_completion i c ev ss u) = wa_updated_at u" for u
    by (simp_all add: record_completion_def)
  then show ?thesis using assms by (simp add: wf_equiv_def evidence_of_upd)
qed

lemma equiv_joins:
  assumes "wf_equiv v w"
  shows "fst (activate_joins ss v) = fst (activate_joins ss w) \<and>
    wf_equiv (snd (activate_joins ss v)) (snd (activate_joins ss w))"
  using assms
proof (induction ss arbitrary: v w)
  case (Cons s ss)
  then show ?case
    using Cons.IH [OF equiv_set_node [OF Cons.prems]] Cons.IH [OF Cons.prems] equiv_join [OF Cons.prems]
    by (simp add: and_join_iff split_beta Let_def)
qed simp

lemma equiv_failed:
  assumes "wf_equiv v w"
  shows "wf_equiv (failed_node i c v\<lparr>wa_node_evidence := hm_insert i ev (wa_node_evidence (failed_node i c v))\<rparr>)
    (failed_node i c w\<lparr>wa_node_evidence := hm_insert i ev (wa_node_evidence (failed_node i c w))\<rparr>)"
proof -
  have "wa_workflow_id (failed_node i c u) = wa_workflow_id u"
    "wa_name (failed_node i c u) = wa_name u" "wa_objective (failed_node i c u) = wa_objective u"
    "wa_root_node_id (failed_node i c u) = wa_root_node_id u"
    "wa_pending_mode (failed_node i c u) = wa_pending_mode u"
    "wa_updated_at (failed_node i c u) = wa_updated_at u" for u
    by (simp_all add: failed_node_def enter_replanning_def)
  moreover have "evidence_of (u\<lparr>wa_node_evidence := hm_insert i ev (wa_node_evidence u)\<rparr>) =
      (evidence_of u)(i := ev)" "exits_of (u\<lparr>wa_node_evidence := e\<rparr>) = exits_of u" for u e
    by (simp_all add: evidence_of_def exits_of_def fun_eq_iff)
  moreover have "evidence_of (failed_node i c u) = evidence_of u" for u
    by (simp add: evidence_of_def fun_eq_iff)
  ultimately show ?thesis using assms by (simp add: wf_equiv_def evidence_of_upd cong: if_cong)
qed

lemma equiv_advance:
  assumes "wf_equiv v w"
  shows "wf_equiv (snd (advance_node i a c ev ss v)) (snd (advance_node i a c ev ss w))"
proof -
  note eq = equivD [OF assms]
  have direct: "direct_successors v i = direct_successors w i"
    and complete: "is_complete_node v i = is_complete_node w i"
    by (simp_all add: direct_successors_def is_complete_node_def eq)
  show ?thesis
  proof (cases "wa_active_mode w = Some Replanning \<or> node_status w i \<noteq> Some NsActive
      \<or> bad_successor (direct_successors w i) [] ss \<noteq> None")
    case True
    then have "snd (advance_node i a c ev ss u) = u" if "u = v \<or> u = w" for u
      using that eq(5,7) direct
      by (auto simp: advance_node_def split: option.split node_status.split)
    then show ?thesis using assms by simp
  next
    case False
    then have ok: "wa_active_mode w \<noteq> Some Replanning" "node_status w i = Some NsActive"
      "bad_successor (direct_successors w i) [] ss = None" by simp_all
    show ?thesis
      using ok assms equiv_joins [OF equiv_completion [OF assms]] equiv_completion [OF assms]
        equiv_failed [OF assms]
      by (cases a) (simp_all add: advance_node_def fail_node_def eq direct complete Let_def split_beta)
  qed
qed

lemma equiv_replan_ok:
  assumes "wf_equiv v w"
  shows "replan_ok v cmd = replan_ok w cmd"
proof -
  note eq = equivD [OF assms]
  have "is_effective v = is_effective w" by (simp add: is_effective_def eq fun_eq_iff)
  then have kept: "kept_nodes v cmd = kept_nodes w cmd" by (simp add: kept_nodes_def eq)
  then have "merged_ok v cmd = merged_ok w cmd"
    by (simp add: merged_ok_def effective_nodes_def effective_edges_def eq)
  moreover have "is_complete_node v i = is_complete_node w i" for i
    by (simp add: is_complete_node_def eq)
  ultimately show ?thesis by (simp add: replan_ok_def eq)
qed

lemma equiv_remove: "wf_equiv v w \<Longrightarrow> wf_equiv (remove_nodes ks v) (remove_nodes ks w)"
proof -
  have "wa_workflow_id (remove_nodes ks u) = wa_workflow_id u"
    "wa_name (remove_nodes ks u) = wa_name u" "wa_objective (remove_nodes ks u) = wa_objective u"
    "wa_root_node_id (remove_nodes ks u) = wa_root_node_id u"
    "wa_active_mode (remove_nodes ks u) = wa_active_mode u"
    "wa_pending_mode (remove_nodes ks u) = wa_pending_mode u"
    "wa_updated_at (remove_nodes ks u) = wa_updated_at u" for u
    by (simp_all add: remove_nodes_def)
  moreover have "evidence_of (remove_nodes ks u) = (\<lambda>j. if j \<in> set ks then [] else evidence_of u j)"
    "exits_of (remove_nodes ks u) = (\<lambda>j. if j \<in> set ks then [] else exits_of u j)" for u
    by (simp_all add: evidence_of_def exits_of_def fun_eq_iff)
  ultimately show "wf_equiv v w \<Longrightarrow> wf_equiv (remove_nodes ks v) (remove_nodes ks w)"
    by (simp add: wf_equiv_def cong: if_cong)
qed

lemma equiv_update: "wf_equiv v w \<Longrightarrow> wf_equiv (update_nodes us v) (update_nodes us w)"
  by (simp add: wf_equiv_def evidence_of_def exits_of_def update_nodes_maps fun_eq_iff)
    (simp add: update_nodes_def)

lemma equiv_merge: "wf_equiv v w \<Longrightarrow> wf_equiv (merge_nodes cmd v) (merge_nodes cmd w)"
  by (simp add: wf_equiv_def evidence_of_def exits_of_def merge_nodes_maps fun_eq_iff)
    (simp add: merge_nodes_def)

lemma equiv_entries:
  "wf_equiv v w \<Longrightarrow> wf_equiv (snd (activate_entries is v)) (snd (activate_entries is w))"
proof (induction "is" arbitrary: v w)
  case (Cons i "is")
  then show ?case
    using Cons.IH [OF equiv_set_node [OF Cons.prems]] Cons.IH [OF Cons.prems]
    by (simp add: equivD(7) [OF Cons.prems] split_beta Let_def)
qed simp

lemma equiv_mode: "wf_equiv v w \<Longrightarrow> wf_equiv (v\<lparr>wa_active_mode := m\<rparr>) (w\<lparr>wa_active_mode := m\<rparr>)"
  by (simp add: wf_equiv_def node_conclusion_def node_evidence_def node_exits_def evidence_of_def
      exits_of_def fun_eq_iff)

lemma equiv_commit:
  "wf_equiv v w \<Longrightarrow> wf_equiv (snd (commit_replan cmd v)) (snd (commit_replan cmd w))"
  by (simp add: commit_replan_def Let_def split_beta equiv_mode equiv_entries equiv_merge
      equiv_update equiv_remove)

lemma snd_replan: "snd (replan cmd w) = (if replan_ok w cmd then snd (commit_replan cmd w) else w)"
  by (cases rule: replan_cases [of w cmd]) simp_all

lemma no_active_status:
  assumes "maps_ok w"
  shows "no_active w \<longleftrightarrow> (\<forall>i. node_status w i \<noteq> Some NsActive)"
proof -
  have "no_active w \<longleftrightarrow> (\<forall>i. (i, NsActive) \<notin> set (wa_node_states w))"
    by (auto simp: no_active_def node_ids_with_status_def filter_empty_conv)
  then show ?thesis
    using assms by (simp add: maps_ok_def node_status_def map_of_eq_Some_iff)
qed

lemma equiv_lifecycle:
  assumes "is_lifecycle op" "wf_equiv v w" "maps_ok v" "maps_ok w"
  shows "wf_equiv (wf_step op v) (wf_step op w)"
proof -
  note eq = equivD [OF assms(2)]
  have "complete_done v = complete_done w" by (simp add: complete_done_def eq)
  moreover have "no_active v = no_active w"
    by (simp add: no_active_status [OF assms(3)] no_active_status [OF assms(4)] eq)
  moreover have "wf_equiv (v\<lparr>wa_status := s, wa_active_mode := m, wa_pending_mode := q\<rparr>)
      (w\<lparr>wa_status := s, wa_active_mode := m, wa_pending_mode := q\<rparr>)"
    "wf_equiv (v\<lparr>wa_status := s, wa_active_mode := m\<rparr>) (w\<lparr>wa_status := s, wa_active_mode := m\<rparr>)"
    "wf_equiv (v\<lparr>wa_pending_mode := q, wa_status := s, wa_active_mode := m\<rparr>)
      (w\<lparr>wa_pending_mode := q, wa_status := s, wa_active_mode := m\<rparr>)" for s m q
    using assms(2) by (simp_all add: wf_equiv_def node_status_def node_conclusion_def
        node_evidence_def node_exits_def evidence_of_def exits_of_def fun_eq_iff)
  ultimately show ?thesis
    using assms(1,2) by (cases op) (simp_all add: lifecycle_defs eq wf_terminal_def)
qed

lemma equiv_step:
  assumes "wf_equiv v w" "maps_ok v" "maps_ok w"
  shows "wf_equiv (wf_step op v) (wf_step op w)"
proof (cases op)
  case WfAdvance
  then show ?thesis using equiv_advance [OF assms(1)] by simp
next
  case (WfReplan cmd)
  then show ?thesis
    using equiv_replan_ok [OF assms(1)] equiv_commit [OF assms(1)] assms(1) by (simp add: snd_replan)
qed (use equiv_lifecycle [of op] assms in simp_all)

lemma equiv_run:
  "wf_equiv v w \<Longrightarrow> maps_ok v \<Longrightarrow> maps_ok w \<Longrightarrow> wf_equiv (fold wf_step ops v) (fold wf_step ops w)"
  by (induction ops arbitrary: v w) (simp_all add: equiv_step maps_ok_step)

lemma equiv_snapshot:
  assumes "wf_equiv v w"
  shows "to_snapshot v = to_snapshot w"
proof -
  have "snapshot_entry u n = \<lparr>ne_node_id = nd_node_id n,
      ne_status = (case node_status u (nd_node_id n) of Some s \<Rightarrow> s | None \<Rightarrow> NsPending),
      ne_conclusion = node_conclusion u (nd_node_id n),
      ne_evidence_refs = evidence_of u (nd_node_id n), ne_exits = exits_of u (nd_node_id n)\<rparr>" for u n
    by (simp add: snapshot_entry_def evidence_of_def exits_of_def Let_def)
  then show ?thesis using assms by (simp add: wf_equiv_def to_snapshot_def)
qed

section \<open>Restoring\<close>

definition no_ghost :: "workflow_aggregate \<Rightarrow> bool" where
  "no_ghost w \<longleftrightarrow> list_all (\<lambda>i. i \<in> nd_node_id ` set (wa_nodes w)) (hm_keys (wa_node_states w))"

lemma no_ghost_None: "no_ghost w \<Longrightarrow> i \<notin> nd_node_id ` set (wa_nodes w) \<Longrightarrow> node_status w i = None"
  by (auto simp: no_ghost_def list_all_iff node_status_def map_of_eq_None_iff)

lemma load_entries_Ok:
  "ne_node_id ` set es \<subseteq> nd_node_id ` set ns \<Longrightarrow> load_entries ns es m = Ok (fold load_entry es m)"
  by (induction es arbitrary: m) (auto simp: list_ex_iff)

lemma load_saved:
  "map_of (em_states (fold load_entry (map (snapshot_entry w) ns) m)) j =
     (if j \<in> nd_node_id ` set ns then Some (case node_status w j of Some s \<Rightarrow> s | None \<Rightarrow> NsPending)
      else map_of (em_states m) j) \<and>
   map_of (em_conclusions (fold load_entry (map (snapshot_entry w) ns) m)) j =
     (if j \<in> nd_node_id ` set ns \<and> node_conclusion w j \<noteq> None then node_conclusion w j
      else map_of (em_conclusions m) j) \<and>
   map_of (em_evidence (fold load_entry (map (snapshot_entry w) ns) m)) j =
     (if j \<in> nd_node_id ` set ns then Some (evidence_of w j) else map_of (em_evidence m) j) \<and>
   map_of (em_exits (fold load_entry (map (snapshot_entry w) ns) m)) j =
     (if j \<in> nd_node_id ` set ns then Some (exits_of w j) else map_of (em_exits m) j)"
proof (induction ns arbitrary: m)
  case (Cons n ns)
  let ?m = "load_entry (snapshot_entry w n) m"
  have "map_of (em_states ?m) j = (if j = nd_node_id n
      then Some (case node_status w j of Some s \<Rightarrow> s | None \<Rightarrow> NsPending) else map_of (em_states m) j)"
    "map_of (em_conclusions ?m) j = (if j = nd_node_id n \<and> node_conclusion w j \<noteq> None
      then node_conclusion w j else map_of (em_conclusions m) j)"
    "map_of (em_evidence ?m) j = (if j = nd_node_id n then Some (evidence_of w j) else map_of (em_evidence m) j)"
    "map_of (em_exits ?m) j = (if j = nd_node_id n then Some (exits_of w j) else map_of (em_exits m) j)"
    by (auto simp: load_entry_def snapshot_entry_def Let_def AList.update_conv' evidence_of_def
        exits_of_def split: option.split)
  then show ?case
    using Cons.IH [of ?m] by (cases "j = nd_node_id n"; cases "j \<in> nd_node_id ` set ns") simp_all
qed simp

lemma distinct_load_entries:
  "distinct (hm_keys (em_states m)) \<Longrightarrow> distinct (hm_keys (em_states (fold load_entry es m)))"
  by (induction es arbitrary: m) (simp_all add: load_entry_def distinct_update)

lemma default_pending_same:
  "(\<And>n. n \<in> set ns \<Longrightarrow> map_of m (nd_node_id n) \<noteq> None) \<Longrightarrow> default_pending ns m = m"
proof (induction ns)
  case (Cons n ns)
  then have "default_pending ns m = m" "map_of m (nd_node_id n) \<noteq> None" by simp_all
  then show ?case by (auto simp: default_pending_def)
qed (simp add: default_pending_def)

lemma restore_saved:
  assumes "maps_ok w" "no_ghost w"
  obtains w' where "from_snapshot (to_snapshot w) = Ok w'" "wf_equiv w' w" "maps_ok w'"
proof -
  let ?ids = "nd_node_id ` set (wa_nodes w)"
  let ?m = "fold load_entry (map (snapshot_entry w) (wa_nodes w))
      \<lparr>em_states = [], em_conclusions = [], em_evidence = [], em_exits = []\<rparr>"
  have lookups: "map_of (em_states ?m) j =
      (if j \<in> ?ids then Some (case node_status w j of Some s \<Rightarrow> s | None \<Rightarrow> NsPending) else None)"
    "map_of (em_conclusions ?m) j = (if j \<in> ?ids then node_conclusion w j else None)"
    "map_of (em_evidence ?m) j = (if j \<in> ?ids then Some (evidence_of w j) else None)"
    "map_of (em_exits ?m) j = (if j \<in> ?ids then Some (exits_of w j) else None)" for j
    using load_saved [of w "wa_nodes w" "\<lparr>em_states = [], em_conclusions = [], em_evidence = [], em_exits = []\<rparr>" j]
    by simp_all
  have "load_entries (wa_nodes w) (map (snapshot_entry w) (wa_nodes w))
      \<lparr>em_states = [], em_conclusions = [], em_evidence = [], em_exits = []\<rparr> = Ok ?m"
    by (rule load_entries_Ok) (auto simp: snapshot_entry_def Let_def)
  moreover have "default_pending (wa_nodes w) (em_states ?m) = em_states ?m"
    by (rule default_pending_same) (simp add: lookups)
  moreover define w' where "w' = ok_value (from_snapshot (to_snapshot w))"
  ultimately have w': "from_snapshot (to_snapshot w) = Ok w'"
    "wa_node_states w' = em_states ?m" "wa_node_conclusions w' = em_conclusions ?m"
    "wa_node_evidence w' = em_evidence ?m" "wa_node_exits w' = em_exits ?m"
    "wa_workflow_id w' = wa_workflow_id w" "wa_name w' = wa_name w" "wa_objective w' = wa_objective w"
    "wa_root_node_id w' = wa_root_node_id w" "wa_nodes w' = wa_nodes w" "wa_edges w' = wa_edges w"
    "wa_status w' = wa_status w" "wa_active_mode w' = wa_active_mode w"
    "wa_pending_mode w' = wa_pending_mode w" "wa_updated_at w' = wa_updated_at w"
    by (simp_all add: from_snapshot_def to_snapshot_def)
  have inside: "node_status w j \<noteq> None" if "j \<in> ?ids" for j
    using assms(1) that by (auto simp: maps_ok_def)
  have outside: "node_status w j = None \<and> node_conclusion w j = None \<and> node_evidence w j = None
      \<and> node_exits w j = None" if "j \<notin> ?ids" for j
    using assms(1) no_ghost_None [OF assms(2) that] by (simp add: maps_ok_def)
  have status: "node_status w' j = node_status w j" for j
    using inside [of j] outside [of j] unfolding node_status_def [of w'] w' lookups
    by (auto split: option.split)
  have rest: "node_conclusion w' j = node_conclusion w j" "evidence_of w' j = evidence_of w j"
    "exits_of w' j = exits_of w j" for j
    using outside [of j]
    by (simp_all add: node_conclusion_def [of w'] evidence_of_def [of w'] exits_of_def [of w']
        node_evidence_def [of w'] node_exits_def [of w'] w' lookups)
      (simp_all add: evidence_of_def exits_of_def)
  have "wf_equiv w' w" unfolding wf_equiv_def using w' status rest by (simp add: fun_eq_iff)
  moreover have "maps_ok w'"
  proof -
    have "node_status w' j = None \<longleftrightarrow> j \<notin> ?ids" for j
      using inside [of j] outside [of j] status by auto
    moreover have "distinct (hm_keys (em_states ?m))" by (rule distinct_load_entries) simp
    ultimately show ?thesis
      by (simp add: maps_ok_def node_conclusion_def node_evidence_def node_exits_def w' lookups)
  qed
  ultimately show ?thesis using that w'(1) by blast
qed

end
