(* ===== verification/Workflow_Recovery.thy ===== *)
theory Workflow_Recovery
  imports Workflow_Restore
begin

text \<open>
  The store and its disk. The locale \<open>snapshot_storage\<close> states what the store relies on from the
  persistence port and proves that a restarted store holds what the running one held; the file persistence
  is its interpretation on a disk whose operations do not fail. The cleanup of orphaned files, on readable
  and on damaged disks.
\<close>

section \<open>The operations of the backend as data\<close>

datatype wb_op =
    WbCreate create_workflow_spec ustr ustr
  | WbUpdate update_workflow_command
  | WbNodeUpdate update_node_command
  | WbReplan replan_workflow_command
  | WbReset ustr

fun wb_step :: "wb_op \<Rightarrow> 'd workflow_store \<Rightarrow> 'd workflow_store" where
  "wb_step (WbCreate spec i now) st = snd (wb_create spec i now st)"
| "wb_step (WbUpdate cmd) st = snd (wb_update cmd st)"
| "wb_step (WbNodeUpdate cmd) st = snd (wb_node_update cmd st)"
| "wb_step (WbReplan cmd) st = snd (wb_replan cmd st)"
| "wb_step (WbReset session) st = snd (reset_session session st)"

text \<open>A reset is meant for the session the store is bound to; see \<open>finding_reset_other_session\<close>.\<close>

fun own_session :: "ustr \<Rightarrow> wb_op \<Rightarrow> bool" where
  "own_session s (WbReset session) \<longleftrightarrow> session = s"
| "own_session s _ \<longleftrightarrow> True"

text \<open>Every aggregate of the store moves by an operation of the aggregate, or the store stays.\<close>

fun lifecycle_op :: "update_workflow_command \<Rightarrow> wf_op" where
  "lifecycle_op cmd =
     (case uw_action cmd of
        LaActivate \<Rightarrow> WfActivate
      | LaDeactivate \<Rightarrow> WfDeactivate
      | LaComplete \<Rightarrow> WfComplete (summary_text cmd)
      | LaCancel \<Rightarrow> WfCancel (summary_text cmd)
      | LaFail \<Rightarrow> WfFail (summary_text cmd))"

lemma apply_lifecycle_state: "snd (apply_lifecycle cmd w) = wf_step (lifecycle_op cmd) w"
  by (cases "uw_action cmd") (simp_all add: apply_lifecycle_def)

lemma guarded_cases:
  "(fst (guarded g w w') = Ok () \<and> snd (guarded g w w') = w') \<or>
   ((\<forall>x. fst (guarded g w w') \<noteq> Ok x) \<and> snd (guarded g w w') = w)"
  by (cases g) (simp_all add: guarded_def)

lemma apply_lifecycle_Err: "(\<And>x. fst (apply_lifecycle cmd w) \<noteq> Ok x) \<Longrightarrow> snd (apply_lifecycle cmd w) = w"
  unfolding apply_lifecycle_def activate_def deactivate_def complete_workflow_def cancel_def fail_workflow_def
  using guarded_cases by (cases "uw_action cmd") (simp only: lifecycle_action.case, metis)+

lemma workflow_id_step: "wa_workflow_id (wf_step op w) = wa_workflow_id w"
proof (cases op)
  case (WfAdvance i a c ev ss)
  have joins: "wa_workflow_id (snd (activate_joins ss u)) = wa_workflow_id u" for u
    by (induction ss arbitrary: u) (simp_all add: split_beta Let_def)
  have "advanced i a c ev ss w out w' \<Longrightarrow> wa_workflow_id w' = wa_workflow_id w" for out w'
    using joins [of "record_completion i c ev ss w"]
    by (erule_tac advanced.cases) (auto simp: failed_node_def enter_replanning_def record_completion_def)
  then show ?thesis using WfAdvance advance_node_cases [of i a c ev ss w] by auto
next
  case (WfReplan cmd)
  have "wa_workflow_id (snd (activate_entries is u)) = wa_workflow_id u" for "is" u
    by (induction "is" arbitrary: u) (simp_all add: split_beta Let_def)
  then show ?thesis
    using WfReplan
    by (simp add: snd_replan commit_replan_def Let_def split_beta merge_nodes_def update_nodes_def remove_nodes_def)
qed (simp_all add: lifecycle_defs)

section \<open>Loading a list of images\<close>

lemma load_snapshots_other:
  assumes "\<And>x. x \<in> set xs \<Longrightarrow> \<exists>w. from_snapshot x = Ok w \<and> wa_workflow_id w = sn_workflow_id x"
    and "i \<notin> sn_workflow_id ` set xs"
  shows "map_of (load_snapshots xs m) i = map_of m i"
  using assms
proof (induction xs arbitrary: m)
  case (Cons x xs)
  obtain w where "from_snapshot x = Ok w" "wa_workflow_id w = sn_workflow_id x" using Cons.prems(1) by auto
  then show ?case
    using Cons.IH [of "hm_insert (wa_workflow_id w) w m"] Cons.prems
    by (simp add: load_snapshots_def AList.update_conv')
qed (simp add: load_snapshots_def)

lemma load_snapshots_member:
  assumes "\<And>x. x \<in> set xs \<Longrightarrow> \<exists>w. from_snapshot x = Ok w \<and> wa_workflow_id w = sn_workflow_id x"
    and "distinct (map sn_workflow_id xs)" "y \<in> set xs" "from_snapshot y = Ok v"
  shows "map_of (load_snapshots xs m) (sn_workflow_id y) = Some v"
  using assms
proof (induction xs arbitrary: m)
  case (Cons x xs)
  obtain w where w: "from_snapshot x = Ok w" "wa_workflow_id w = sn_workflow_id x" using Cons.prems(1) by auto
  then have step: "load_snapshots (x # xs) m = load_snapshots xs (hm_insert (sn_workflow_id x) w m)"
    by (simp add: load_snapshots_def)
  show ?case
  proof (cases "y = x")
    case True
    then have "sn_workflow_id y \<notin> sn_workflow_id ` set xs" using Cons.prems(2) by auto
    then show ?thesis
      unfolding step using load_snapshots_other [of xs "sn_workflow_id y"] Cons.prems(1,4) w True
      by (simp add: AList.update_conv')
  next
    case False
    then show ?thesis unfolding step using Cons by simp
  qed
qed simp

section \<open>What the store relies on\<close>

text \<open>The disk holds the image of every workflow of the store, and of no other.\<close>

definition mirrored ::
  "'d workflow_persistence \<Rightarrow> (ustr \<Rightarrow> 'd \<Rightarrow> bool) \<Rightarrow>
     (ustr \<Rightarrow> 'd \<Rightarrow> ustr \<Rightarrow> workflow_snapshot_data option) \<Rightarrow> ustr \<Rightarrow> 'd workflow_store \<Rightarrow> bool" where
  "mirrored p healthy content s st \<longleftrightarrow>
     wt_persistence st = Some (s, p) \<and> healthy s (wt_disk st)
     \<and> content s (wt_disk st) = (\<lambda>i. map_option to_snapshot (map_of (wt_workflows st) i))
     \<and> (\<forall>i w. map_of (wt_workflows st) i = Some w \<longrightarrow> wa_workflow_id w = i \<and> wf_reachable w)"

text \<open>The restored workflow: the same view, and maps in order.\<close>

definition same_workflow :: "workflow_aggregate \<Rightarrow> workflow_aggregate \<Rightarrow> bool" where
  "same_workflow v w \<longleftrightarrow> wf_equiv v w \<and> maps_ok v \<and> maps_ok w"

lemma same_workflow_run:
  "same_workflow v w \<Longrightarrow> to_snapshot (fold wf_step ops v) = to_snapshot (fold wf_step ops w)"
  by (simp add: same_workflow_def equiv_run equiv_snapshot)

locale snapshot_storage =
  fixes p :: "'d workflow_persistence"
    and healthy :: "ustr \<Rightarrow> 'd \<Rightarrow> bool"
    and content :: "ustr \<Rightarrow> 'd \<Rightarrow> ustr \<Rightarrow> workflow_snapshot_data option"
  assumes save_healthy: "healthy s d \<Longrightarrow> healthy s (snd (wp_save p s x d))"
    and save_content:
      "healthy s d \<Longrightarrow> content s (snd (wp_save p s x d)) = (content s d)(sn_workflow_id x \<mapsto> x)"
    and load_content:
      "healthy s d \<Longrightarrow> \<exists>xs. wp_load_all p s d = Ok xs \<and> distinct (map sn_workflow_id xs) \<and>
         (\<forall>i x. content s d i = Some x \<longleftrightarrow> x \<in> set xs \<and> sn_workflow_id x = i)"
    and clear_content:
      "healthy s d \<Longrightarrow> fst (wp_clear_index p s d) = Ok () \<and> healthy s (snd (wp_clear_index p s d)) \<and>
         content s (snd (wp_clear_index p s d)) = (\<lambda>_. None)"
begin

lemma mirrored_put:
  assumes "mirrored p healthy content s st" "wa_workflow_id w = i" "wf_reachable w"
  shows "mirrored p healthy content s (persist_snapshot (to_snapshot w) (put_workflow i w st))"
proof -
  have "sn_workflow_id (to_snapshot w) = i" using assms(2) by (simp add: to_snapshot_def)
  then show ?thesis
    using assms save_healthy save_content
    by (auto simp: mirrored_def persist_snapshot_def put_workflow_def AList.update_conv' fun_eq_iff)
qed

lemma mirrored_same:
  assumes "mirrored p healthy content s st" "map_of (wt_workflows st) i = Some w"
  shows "mirrored p healthy content s (put_workflow i w st)"
proof -
  have "map_of (hm_insert i w (wt_workflows st)) = map_of (wt_workflows st)"
    using assms(2) by (simp add: AList.update_conv' fun_upd_idem)
  then show ?thesis using assms(1) by (simp add: mirrored_def put_workflow_def)
qed

lemma mirrored_get:
  assumes "mirrored p healthy content s st" "get_workflow st i = Ok w"
  shows "map_of (wt_workflows st) i = Some w" "wa_workflow_id w = i" "wf_reachable w"
  using assms by (auto simp: mirrored_def get_workflow_def split: option.splits)

lemma mirrored_create:
  assumes "mirrored p healthy content s st"
  shows "mirrored p healthy content s (snd (wb_create spec i now st))"
proof (cases "active_workflow_id st \<noteq> None")
  case False
  show ?thesis
  proof (cases "wa_new spec i now")
    case (Ok w)
    have "wa_workflow_id w = i" using Ok by (auto simp: wa_new_def split: outcome.splits)
    moreover have "wf_reachable w" using Ok by (rule created)
    ultimately have "mirrored p healthy content s (persist_snapshot (to_snapshot w) (put_workflow i w st))"
      using assms by (intro mirrored_put)
    then show ?thesis
      using Ok assms \<open>wa_workflow_id w = i\<close>
      by (auto simp: wb_create_def insert_workflow_def put_workflow_def)
  qed (use assms in \<open>simp_all add: wb_create_def\<close>)
qed (use assms in \<open>simp add: wb_create_def\<close>)

lemma mirrored_reset:
  assumes "mirrored p healthy content s st"
  shows "mirrored p healthy content s (snd (reset_session s st))"
proof -
  obtain d where "wp_clear_index p s (wt_disk st) = (Ok (), d)" "healthy s d" "content s d = (\<lambda>_. None)"
    using assms clear_content [of s "wt_disk st"]
    by (cases "wp_clear_index p s (wt_disk st)") (auto simp: mirrored_def)
  then show ?thesis using assms by (simp add: mirrored_def reset_session_def clear_memory_def)
qed

lemma mirrored_step:
  assumes "mirrored p healthy content s st" "own_session s op"
  shows "mirrored p healthy content s (wb_step op st)"
proof (cases op)
  case WbCreate
  then show ?thesis using mirrored_create [OF assms(1)] by simp
next
  case (WbUpdate cmd)
  show ?thesis
  proof (cases "get_workflow st (uw_workflow_id cmd)")
    case (Ok w)
    note w = mirrored_get [OF assms(1) Ok]
    have "wf_reachable (wf_step (lifecycle_op cmd) w)" using w(3) by (rule stepped)
    then have put: "mirrored p healthy content s (persist_snapshot (to_snapshot (snd (apply_lifecycle cmd w)))
        (put_workflow (uw_workflow_id cmd) (snd (apply_lifecycle cmd w)) st))"
      unfolding apply_lifecycle_state using w(2) workflow_id_step by (intro mirrored_put [OF assms(1)]) auto
    show ?thesis
      using WbUpdate Ok put mirrored_same [OF assms(1) w(1)] apply_lifecycle_Err [of cmd w]
      by (cases "apply_lifecycle cmd w"; cases "fst (apply_lifecycle cmd w)") (simp_all add: wb_update_def)
  qed (use WbUpdate assms in \<open>simp_all add: wb_update_def\<close>)
next
  case (WbNodeUpdate cmd)
  show ?thesis
  proof (cases "get_workflow st (un_workflow_id cmd)")
    case (Ok w)
    let ?op = "WfAdvance (un_node_id cmd) (un_action cmd) (un_conclusion cmd) (un_evidence_refs cmd)
        (un_successors cmd)"
    let ?r = "advance_node (un_node_id cmd) (un_action cmd) (un_conclusion cmd) (un_evidence_refs cmd)
        (un_successors cmd) w"
    note w = mirrored_get [OF assms(1) Ok]
    have "wf_reachable (wf_step ?op w)" using w(3) by (rule stepped)
    moreover have "wa_workflow_id (wf_step ?op w) = un_workflow_id cmd"
      unfolding workflow_id_step by (rule w(2))
    ultimately have put: "mirrored p healthy content s (persist_snapshot (to_snapshot (snd ?r))
        (put_workflow (un_workflow_id cmd) (snd ?r) st))"
      by (simp add: mirrored_put [OF assms(1)])
    consider out where "fst ?r = Ok out" | e where "?r = (Err e, w)"
      using advance_node_cases [of "un_node_id cmd" "un_action cmd" "un_conclusion cmd"
          "un_evidence_refs cmd" "un_successors cmd" w] by fastforce
    then show ?thesis
    proof cases
      case 1
      then show ?thesis
        using WbNodeUpdate Ok put assms by (cases ?r) (simp add: wb_node_update_def)
    next
      case 2
      then show ?thesis
        using WbNodeUpdate Ok mirrored_same [OF assms(1) w(1)] assms by (simp add: wb_node_update_def)
    qed
  qed (use WbNodeUpdate assms in \<open>simp_all add: wb_node_update_def\<close>)
next
  case (WbReplan cmd)
  show ?thesis
  proof (cases "get_workflow st (rw_workflow_id cmd)")
    case (Ok w)
    note w = mirrored_get [OF assms(1) Ok]
    have "wf_reachable (wf_step (WfReplan cmd) w)" using w(3) by (rule stepped)
    moreover have "wa_workflow_id (wf_step (WfReplan cmd) w) = rw_workflow_id cmd"
      unfolding workflow_id_step by (rule w(2))
    ultimately have put: "mirrored p healthy content s (persist_snapshot (to_snapshot (snd (replan cmd w)))
        (put_workflow (rw_workflow_id cmd) (snd (replan cmd w)) st))"
      by (simp add: mirrored_put [OF assms(1)])
    show ?thesis
    proof (cases rule: replan_cases [of w cmd])
      case (accepted activated w')
      then obtain r where "fst (replan cmd w) = Ok r" by blast
      then show ?thesis using WbReplan Ok put by (cases "replan cmd w") (simp add: wb_replan_def)
    next
      case (rejected e)
      then show ?thesis
        using WbReplan Ok mirrored_same [OF assms(1) w(1)] by (simp add: wb_replan_def)
    qed
  qed (use WbReplan assms in \<open>simp_all add: wb_replan_def\<close>)
next
  case (WbReset session)
  then show ?thesis using mirrored_reset [OF assms(1)] assms(2) by simp
qed

lemma mirrored_run:
  "mirrored p healthy content s st \<Longrightarrow> list_all (own_session s) ops \<Longrightarrow>
     mirrored p healthy content s (fold wb_step ops st)"
  by (induction ops arbitrary: st) (simp_all add: mirrored_step)

lemma restart_lookup:
  assumes "mirrored p healthy content s st" "list_all (\<lambda>(_, w). no_ghost w) (wt_workflows st)"
  shows "rel_option same_workflow (map_of (wt_workflows (with_persistence p s (wt_disk st))) i)
    (map_of (wt_workflows st) i)"
proof -
  have healthy: "healthy s (wt_disk st)"
    and content: "content s (wt_disk st) = (\<lambda>i. map_option to_snapshot (map_of (wt_workflows st) i))"
    and each: "map_of (wt_workflows st) i = Some w \<Longrightarrow> wa_workflow_id w = i \<and> wf_reachable w" for i w
    using assms(1) by (simp_all add: mirrored_def)
  obtain xs where xs: "wp_load_all p s (wt_disk st) = Ok xs" "distinct (map sn_workflow_id xs)"
    "content s (wt_disk st) i = Some x \<longleftrightarrow> x \<in> set xs \<and> sn_workflow_id x = i" for i x
    using load_content [OF healthy] by blast
  have restored: "\<exists>w'. from_snapshot (to_snapshot w) = Ok w' \<and> same_workflow w' w"
    if "map_of (wt_workflows st) i = Some w" for i w
  proof -
    have "no_ghost w" using assms(2) map_of_SomeD [OF that] by (auto simp: list_all_iff)
    then show ?thesis
      using each [OF that] reachable_maps_ok restore_saved [of w] unfolding same_workflow_def by metis
  qed
  have all: "\<exists>w'. from_snapshot x = Ok w' \<and> wa_workflow_id w' = sn_workflow_id x" if x: "x \<in> set xs" for x
  proof -
    obtain w where w: "map_of (wt_workflows st) (sn_workflow_id x) = Some w" "x = to_snapshot w"
      using xs(3) [of "sn_workflow_id x" x] x unfolding content by auto
    obtain w' where "from_snapshot (to_snapshot w) = Ok w'" "same_workflow w' w"
      using restored [OF w(1)] by blast
    then show ?thesis using w(2) equivD(1) by (auto simp: to_snapshot_def same_workflow_def)
  qed
  show ?thesis
  proof (cases "map_of (wt_workflows st) i")
    case None
    then have "i \<notin> sn_workflow_id ` set xs" using xs(3) content by (metis image_iff option.map_disc_iff option.distinct(1))
    then show ?thesis
      using None load_snapshots_other [OF all, of xs i "[]"] xs(1) by (simp add: with_persistence_def)
  next
    case (Some w)
    then have x: "to_snapshot w \<in> set xs" "sn_workflow_id (to_snapshot w) = i"
      using xs(3) [of i "to_snapshot w"] unfolding content by auto
    obtain w' where "from_snapshot (to_snapshot w) = Ok w'" "same_workflow w' w" using restored [OF Some] by blast
    then show ?thesis
      using load_snapshots_member [OF all xs(2) x(1), of w' "[]"] x(2) xs(1) Some
      by (simp add: with_persistence_def)
  qed
qed

end

section \<open>The file persistence\<close>

definition no_faults :: io where
  "no_faults action = None"

definition session_ids :: "ustr \<Rightarrow> wf_disk \<Rightarrow> ustr list" where
  "session_ids s d =
     (case map_of (dk_indexes d) s of Some (Readable ix) \<Rightarrow> ix_workflow_ids ix | _ \<Rightarrow> [])"

definition entity :: "wf_disk \<Rightarrow> ustr \<Rightarrow> workflow_snapshot_data option" where
  "entity d i = (case map_of (dk_entities d) i of Some (Readable x) \<Rightarrow> Some x | _ \<Rightarrow> None)"

definition files_ok :: "ustr \<Rightarrow> wf_disk \<Rightarrow> bool" where
  "files_ok s d \<longleftrightarrow>
     map_of (dk_indexes d) s \<noteq> Some Garbled \<and> distinct (session_ids s d)
     \<and> (\<forall>i \<in> set (session_ids s d). \<exists>x. entity d i = Some x \<and> sn_workflow_id x = i)"

definition files_content :: "ustr \<Rightarrow> wf_disk \<Rightarrow> ustr \<Rightarrow> workflow_snapshot_data option" where
  "files_content s d i = (if i \<in> set (session_ids s d) then entity d i else None)"

lemma load_index_ok:
  assumes "files_ok s d"
  obtains ix where "load_index no_faults s d = Ok ix" "ix_workflow_ids ix = session_ids s d"
proof (cases "map_of (dk_indexes d) s")
  case None
  then show ?thesis using that [of empty_index]
    by (simp add: load_index_def session_ids_def empty_index_def)
next
  case (Some f)
  then obtain ix where "f = Readable ix" using assms by (cases f) (auto simp: files_ok_def)
  then show ?thesis using that [of ix] Some
    by (simp add: load_index_def session_ids_def read_file_def no_faults_def)
qed

lemma load_entity_ok:
  assumes "entity d i = Some x" "sn_workflow_id x = i"
  shows "load_entity no_faults d i = Ok x"
  using assms by (auto simp: entity_def load_entity_def read_file_def no_faults_def
      split: option.splits disk_file.splits)

lemma save_result:
  assumes "files_ok s d"
  obtains ix where "ix_workflow_ids ix = session_ids s d"
    "fp_save no_faults s x d = (Ok (),
       d\<lparr>dk_entities := hm_insert (sn_workflow_id x) (Readable x) (dk_entities d), dk_entities_dir := True,
         dk_indexes := hm_insert s (Readable (register x ix)) (dk_indexes d), dk_index_dir := True\<rparr>)"
proof -
  let ?d = "d\<lparr>dk_entities := hm_insert (sn_workflow_id x) (Readable x) (dk_entities d), dk_entities_dir := True\<rparr>"
  obtain ix where ix: "load_index no_faults s d = Ok ix" "ix_workflow_ids ix = session_ids s d"
    using load_index_ok [OF assms] .
  have "index_path ?d = index_path d" by (simp add: index_path_def fun_eq_iff)
  then have "load_index no_faults s ?d = load_index no_faults s d"
    by (simp add: load_index_def split: option.split)
  then show ?thesis
    using that [OF ix(2)] ix(1) by (simp add: fp_save_def store_index_def no_faults_def Let_def)
qed

lemma files_save:
  assumes "files_ok s d"
  shows "files_ok s (snd (fp_save no_faults s x d))"
    and "files_content s (snd (fp_save no_faults s x d)) = (files_content s d)(sn_workflow_id x \<mapsto> x)"
proof -
  obtain ix where ix: "ix_workflow_ids ix = session_ids s d"
    "fp_save no_faults s x d = (Ok (),
       d\<lparr>dk_entities := hm_insert (sn_workflow_id x) (Readable x) (dk_entities d), dk_entities_dir := True,
         dk_indexes := hm_insert s (Readable (register x ix)) (dk_indexes d), dk_index_dir := True\<rparr>)"
    using save_result [OF assms] .
  let ?d = "snd (fp_save no_faults s x d)"
  have ids: "session_ids s ?d = insort_insert (sn_workflow_id x) (session_ids s d)"
    using ix by (simp add: session_ids_def AList.update_conv' register_def)
  have entities: "entity ?d = (entity d)(sn_workflow_id x \<mapsto> x)"
    using ix(2) by (simp add: entity_def AList.update_conv' fun_eq_iff)
  have readable: "map_of (dk_indexes ?d) s \<noteq> Some Garbled"
    using ix(2) by (simp add: AList.update_conv')
  show "files_ok s ?d"
    using assms unfolding files_ok_def ids entities
    by (simp add: readable distinct_insort_insert set_insort_insert)
  show "files_content s ?d = (files_content s d)(sn_workflow_id x \<mapsto> x)"
    unfolding files_content_def ids entities by (auto simp: set_insort_insert fun_eq_iff)
qed

lemma files_load:
  assumes "files_ok s d"
  shows "\<exists>xs. fp_load_all no_faults s d = Ok xs \<and> distinct (map sn_workflow_id xs) \<and>
    (\<forall>i x. files_content s d i = Some x \<longleftrightarrow> x \<in> set xs \<and> sn_workflow_id x = i)"
proof -
  obtain ix where ix: "load_index no_faults s d = Ok ix" "ix_workflow_ids ix = session_ids s d"
    using load_index_ok [OF assms] .
  let ?get = "\<lambda>i. the (entity d i)"
  have each: "entity d i = Some (?get i) \<and> sn_workflow_id (?get i) = i" if "i \<in> set (session_ids s d)" for i
    using assms that by (auto simp: files_ok_def)
  have "traverse (load_entity no_faults d) (session_ids s d) = Ok (map ?get (session_ids s d))"
    using each load_entity_ok by (intro traverse_Ok_map) blast
  moreover have "map sn_workflow_id (map ?get (session_ids s d)) = session_ids s d"
    using each by (simp add: map_idI)
  moreover have "files_content s d i = Some x \<longleftrightarrow> x \<in> set (map ?get (session_ids s d)) \<and> sn_workflow_id x = i" for i x
  proof (cases "i \<in> set (session_ids s d)")
    case True
    then have "x \<in> set (map ?get (session_ids s d)) \<and> sn_workflow_id x = i \<longleftrightarrow> x = ?get i"
      using each by auto
    then show ?thesis using each [OF True] True by (auto simp: files_content_def)
  next
    case False
    then show ?thesis using each by (auto simp: files_content_def)
  qed
  ultimately show ?thesis
    using assms ix by (intro exI [of _ "map ?get (session_ids s d)"]) (simp add: fp_load_all_def files_ok_def)
qed

lemma files_clear:
  assumes "files_ok s d"
  shows "fst (fp_clear_index no_faults s d) = Ok () \<and> files_ok s (snd (fp_clear_index no_faults s d)) \<and>
    files_content s (snd (fp_clear_index no_faults s d)) = (\<lambda>_. None)"
proof (cases "map_of (dk_indexes d) s")
  case None
  then show ?thesis using assms
    by (simp add: fp_clear_index_def files_content_def session_ids_def fun_eq_iff)
next
  case (Some f)
  let ?d = "d\<lparr>dk_indexes := hm_remove s (dk_indexes d)\<rparr>"
  have "session_ids s ?d = []" "map_of (dk_indexes ?d) s = None"
    by (simp_all add: session_ids_def AList.delete_conv')
  then show ?thesis using Some
    by (simp add: fp_clear_index_def no_faults_def files_content_def files_ok_def fun_eq_iff)
qed

interpretation files: snapshot_storage "file_persistence no_faults" files_ok files_content
  by unfold_locales (simp_all add: file_persistence_def files_save files_load files_clear)


text \<open>A session that starts on an empty disk.\<close>

definition empty_disk :: "ustr \<Rightarrow> wf_disk" where
  "empty_disk root =
     \<lparr>dk_root = root, dk_indexes = [], dk_entities = [], dk_index_dir = False, dk_entities_dir = False\<rparr>"

definition fresh_session :: "ustr \<Rightarrow> ustr \<Rightarrow> wf_disk workflow_store" where
  "fresh_session root s = with_persistence (file_persistence no_faults) s (empty_disk root)"

lemma fresh_session_mirrored:
  "mirrored (file_persistence no_faults) files_ok files_content s (fresh_session root s)"
proof -
  have "session_ids s (empty_disk root) = []" "files_ok s (empty_disk root)"
    by (simp_all add: session_ids_def files_ok_def empty_disk_def)
  moreover have "fp_load_all no_faults s (empty_disk root) = Ok []"
    by (simp add: fp_load_all_def load_index_def empty_disk_def empty_index_def)
  ultimately show ?thesis
    by (simp add: mirrored_def fresh_session_def with_persistence_def file_persistence_def
        files_content_def load_snapshots_def fun_eq_iff)
qed

text \<open>
  The cleanup of orphaned entity files (\<open>cleanup_orphans\<close> of \<open>adapters/file_persistence.rs\<close>): what it
  removes, and that no session notices.
\<close>

definition all_references :: "wf_disk \<Rightarrow> ustr set" where
  "all_references d = (\<Union>(s, f) \<in> set (dk_indexes d). case f of Readable ix \<Rightarrow> set (index_references ix) | Garbled \<Rightarrow> {})"

definition indexes_readable :: "wf_disk \<Rightarrow> bool" where
  "indexes_readable d \<longleftrightarrow> list_all (\<lambda>(s, f). f \<noteq> Garbled) (dk_indexes d) \<and> (dk_indexes d \<noteq> [] \<longrightarrow> dk_index_dir d)"

lemma collect_ok:
  assumes "indexes_readable d"
  obtains refs where "collect_referenced_ids no_faults d = Ok refs" "set refs = all_references d"
proof (cases "dk_index_dir d")
  case False
  then show ?thesis
    using that [of "[]"] assms by (simp add: collect_referenced_ids_def all_references_def indexes_readable_def)
next
  case True
  let ?refs = "\<lambda>(s, f). case f of Readable ix \<Rightarrow> index_references ix | Garbled \<Rightarrow> []"
  let ?read = "\<lambda>(s, f). map_ok index_references (read_file no_faults (IoReadIndex s) (index_path d s) f)"
  have "traverse ?read (dk_indexes d) = Ok (map ?refs (dk_indexes d))"
  proof (rule traverse_Ok_map)
    fix e assume "e \<in> set (dk_indexes d)"
    then show "?read e = Ok (?refs e)"
      using assms by (cases e; cases "snd e") (auto simp: indexes_readable_def list_all_iff read_file_def no_faults_def)
  qed
  moreover have "set (concat (map ?refs (dk_indexes d))) = all_references d"
    unfolding all_references_def by (force split: disk_file.splits)
  ultimately show ?thesis
    using that [of "concat (map ?refs (dk_indexes d))"] True
    by (simp add: collect_referenced_ids_def no_faults_def)
qed

lemma remove_orphans_result:
  "remove_orphans no_faults dry refs is rep d =
     (Ok (rep\<lparr>cl_referenced := cl_referenced rep + length (filter (\<lambda>i. i \<in> set refs) is),
              cl_removed := cl_removed rep @ filter (\<lambda>i. i \<notin> set refs) is\<rparr>),
      if dry then d
      else d\<lparr>dk_entities := fold hm_remove (filter (\<lambda>i. i \<notin> set refs) is) (dk_entities d)\<rparr>)"
  by (induction no_faults dry refs "is" rep d rule: remove_orphans.induct)
    (simp_all add: no_faults_def)

lemma cleanup_result:
  assumes "indexes_readable d" "dk_entities_dir d"
  obtains refs where "set refs = all_references d"
    "cleanup_orphans no_faults dry d =
      (Ok \<lparr>cl_scanned = length (dk_entities d),
           cl_referenced = length (filter (\<lambda>i. i \<in> set refs) (hm_keys (dk_entities d))),
           cl_removed = sort (filter (\<lambda>i. i \<notin> set refs) (hm_keys (dk_entities d)))\<rparr>,
       if dry then d
       else d\<lparr>dk_entities := fold hm_remove (filter (\<lambda>i. i \<notin> set refs) (hm_keys (dk_entities d))) (dk_entities d)\<rparr>)"
proof -
  obtain refs where refs: "collect_referenced_ids no_faults d = Ok refs" "set refs = all_references d"
    using collect_ok [OF assms(1)] .
  then show ?thesis
    using that [OF refs(2)] assms(2)
    by (simp add: cleanup_orphans_def Let_def remove_orphans_result empty_report_def no_faults_def)
qed

lemma session_references:
  "i \<in> set (session_ids s d) \<Longrightarrow> i \<in> all_references d"
proof -
  assume "i \<in> set (session_ids s d)"
  then obtain ix where ix: "map_of (dk_indexes d) s = Some (Readable ix)" "i \<in> set (ix_workflow_ids ix)"
    by (cases "map_of (dk_indexes d) s"; cases "the (map_of (dk_indexes d) s)")
      (auto simp: session_ids_def)
  show ?thesis
    unfolding all_references_def
    by (rule UN_I [OF map_of_SomeD [OF ix(1)]]) (use ix(2) in \<open>simp add: index_references_def\<close>)
qed

lemma load_all_cong:
  assumes "dk_indexes d' = dk_indexes d" "dk_root d' = dk_root d"
    and "\<And>i. i \<in> set (session_ids s d) \<Longrightarrow> map_of (dk_entities d') i = map_of (dk_entities d) i"
  shows "fp_load_all no_faults s d' = fp_load_all no_faults s d"
proof -
  have paths: "index_path d' = index_path d" "entity_path d' = entity_path d"
    by (simp_all add: index_path_def entity_path_def assms(2) fun_eq_iff)
  have index: "load_index no_faults s d' = load_index no_faults s d"
    by (simp add: load_index_def assms(1) paths split: option.split)
  have "load_entity no_faults d' i = load_entity no_faults d i"
    if "map_of (dk_entities d') i = map_of (dk_entities d) i" for i
    using that by (simp add: load_entity_def paths split: option.split outcome.split)
  then have "traverse (load_entity no_faults d') is = traverse (load_entity no_faults d) is"
    if "\<And>i. i \<in> set is \<Longrightarrow> map_of (dk_entities d') i = map_of (dk_entities d) i" for "is"
    using that by (induction "is") (simp_all split: outcome.split)
  moreover have "ix_workflow_ids ix = session_ids s d" if "load_index no_faults s d = Ok ix" for ix
    using that by (auto simp: load_index_def session_ids_def read_file_def no_faults_def empty_index_def
        split: option.splits disk_file.splits)
  ultimately show ?thesis
    using assms(3) index by (cases "load_index no_faults s d") (simp_all add: fp_load_all_def)
qed


lemma cleanup_effect:
  assumes "indexes_readable d" "dk_entities_dir d" "cleanup_orphans no_faults dry d = (r, d')"
  shows "fp_load_all no_faults s d' = fp_load_all no_faults s d"
    and "dry \<Longrightarrow> d' = d"
    and "\<not> dry \<Longrightarrow> map_of (dk_entities d') i = (if i \<in> all_references d then map_of (dk_entities d) i else None)"
    and "\<not> dry \<Longrightarrow> \<exists>rep. fst (cleanup_orphans no_faults dry d') = Ok rep \<and> cl_removed rep = []"
    and "fst (cleanup_orphans no_faults True d) = r"
proof -
  obtain refs where refs: "set refs = all_references d"
    and result: "cleanup_orphans no_faults dry d =
      (Ok \<lparr>cl_scanned = length (dk_entities d),
           cl_referenced = length (filter (\<lambda>i. i \<in> set refs) (hm_keys (dk_entities d))),
           cl_removed = sort (filter (\<lambda>i. i \<notin> set refs) (hm_keys (dk_entities d)))\<rparr>,
       if dry then d
       else d\<lparr>dk_entities := fold hm_remove (filter (\<lambda>i. i \<notin> set refs) (hm_keys (dk_entities d))) (dk_entities d)\<rparr>)"
    using cleanup_result [OF assms(1,2)] by blast
  have d': "d' = (if dry then d else
      d\<lparr>dk_entities := fold hm_remove (filter (\<lambda>i. i \<notin> set refs) (hm_keys (dk_entities d))) (dk_entities d)\<rparr>)"
    using assms(3) result by simp
  then show "dry \<Longrightarrow> d' = d" by simp
  have lookup: "map_of (dk_entities d') i = (if i \<in> all_references d then map_of (dk_entities d) i else None)"
    if "\<not> dry" for i
    using that by (auto simp: d' fold_hm_remove refs map_of_eq_None_iff)
  then show "\<not> dry \<Longrightarrow> map_of (dk_entities d') i = (if i \<in> all_references d then map_of (dk_entities d) i else None)" .
  have same: "dk_indexes d' = dk_indexes d" "dk_root d' = dk_root d" "dk_entities_dir d' = dk_entities_dir d"
    "dk_index_dir d' = dk_index_dir d"
    by (simp_all add: d')
  have "map_of (dk_entities d') i = map_of (dk_entities d) i" if "i \<in> set (session_ids s d)" for i
    using lookup session_references [OF that] d' by (cases dry) simp_all
  then show "fp_load_all no_faults s d' = fp_load_all no_faults s d"
    by (rule load_all_cong [OF same(1,2)])
  show "\<exists>rep. fst (cleanup_orphans no_faults dry d') = Ok rep \<and> cl_removed rep = []" if "\<not> dry"
  proof -
    have "indexes_readable d'" "dk_entities_dir d'"
      using assms(1,2) same by (simp_all add: indexes_readable_def)
    then obtain refs' where refs': "set refs' = all_references d'"
      and again: "fst (cleanup_orphans no_faults dry d') =
        Ok \<lparr>cl_scanned = length (dk_entities d'),
           cl_referenced = length (filter (\<lambda>i. i \<in> set refs') (hm_keys (dk_entities d'))),
           cl_removed = sort (filter (\<lambda>i. i \<notin> set refs') (hm_keys (dk_entities d')))\<rparr>"
      using cleanup_result [of d' dry] by (metis fst_conv)
    have "i \<in> set refs'" if "i \<in> set (hm_keys (dk_entities d'))" for i
    proof -
      have "map_of (dk_entities d') i \<noteq> None" using that by (simp add: map_of_eq_None_iff)
      then have "i \<in> all_references d" using lookup [OF \<open>\<not> dry\<close>] by (metis option.distinct(1))
      then show ?thesis using refs' same(1) by (simp add: all_references_def)
    qed
    then have "filter (\<lambda>i. i \<notin> set refs') (hm_keys (dk_entities d')) = []"
      by (simp only: filter_empty_conv) blast
    then show ?thesis using again by simp
  qed
  have "fst (cleanup_orphans no_faults True d) = fst (cleanup_orphans no_faults dry d)"
    by (cases "collect_referenced_ids no_faults d")
      (simp_all add: cleanup_orphans_def Let_def remove_orphans_result no_faults_def)
  then show "fst (cleanup_orphans no_faults True d) = r" using assms(3) by simp
qed

text \<open>A damaged index stops the cleanup before it removes anything, whatever else fails.\<close>

lemma traverse_Err:
  "(\<exists>x \<in> set xs. \<forall>y. f x \<noteq> Ok y) \<Longrightarrow> \<forall>y. traverse f xs \<noteq> Ok y"
  by (induction xs) (auto split: outcome.split)

lemma damaged_references:
  assumes "\<not> list_all (\<lambda>(s, f). f \<noteq> Garbled) (dk_indexes d)" "dk_index_dir d"
  shows "\<forall>y. collect_referenced_ids io d \<noteq> Ok y"
proof -
  let ?read = "\<lambda>(s, f). map_ok index_references (read_file io (IoReadIndex s) (index_path d s) f)"
  obtain s where "(s, Garbled) \<in> set (dk_indexes d)" using assms(1) by (auto simp: list_all_iff)
  moreover have "\<forall>y. ?read (s, Garbled) \<noteq> Ok y"
    by (auto simp: read_file_def split: option.splits)
  ultimately have "\<forall>y. traverse ?read (dk_indexes d) \<noteq> Ok y" by (intro traverse_Err) blast
  then show ?thesis
    using assms(2) by (auto simp: collect_referenced_ids_def split: option.split)
qed

text \<open>The three cases of the cleanup on a disk whose files lie in their directories.\<close>

definition layout_ok :: "wf_disk \<Rightarrow> bool" where
  "layout_ok d \<longleftrightarrow> (dk_indexes d \<noteq> [] \<longrightarrow> dk_index_dir d) \<and> (dk_entities d \<noteq> [] \<longrightarrow> dk_entities_dir d)"

lemma layout_readable:
  "layout_ok d \<Longrightarrow> list_all (\<lambda>(_, f). f \<noteq> Garbled) (dk_indexes d) \<Longrightarrow> indexes_readable d"
  by (simp add: layout_ok_def indexes_readable_def)

lemma cleanup_dry_same:
  "cleanup_orphans no_faults True d = (fst (cleanup_orphans no_faults False d), d)"
  by (cases "collect_referenced_ids no_faults d")
    (simp_all add: cleanup_orphans_def Let_def remove_orphans_result no_faults_def)

lemma cleanup_without_entities:
  assumes "layout_ok d" "\<not> dk_entities_dir d"
  shows "cleanup_orphans io dry d = (Ok empty_report, d)" "map_of (dk_entities d) i = None" "cl_removed empty_report = []"
  using assms by (auto simp: layout_ok_def cleanup_orphans_def empty_report_def)

lemma cleanup_damaged:
  assumes "layout_ok d" "dk_entities_dir d" "\<not> list_all (\<lambda>(_, f). f \<noteq> Garbled) (dk_indexes d)"
  shows "snd (cleanup_orphans io dry d) = d" "fst (cleanup_orphans io dry d) \<noteq> Ok rep"
proof -
  have "\<forall>y. collect_referenced_ids io d \<noteq> Ok y"
    using assms(1,3) by (intro damaged_references) (auto simp: layout_ok_def)
  then show "snd (cleanup_orphans io dry d) = d" "fst (cleanup_orphans io dry d) \<noteq> Ok rep"
    using assms(2) by (cases "collect_referenced_ids io d"; simp add: cleanup_orphans_def)+
qed

end
