(* ===== verification/Workflow_Properties.thy ===== *)
theory Workflow_Properties
  imports Workflow_Recovery
begin

text \<open>
  The properties of the Workflow context. The witnesses run on one small workflow: a root with two branches
  that meet in a confirmation before the complete node. The findings at the end are histories on which the code does something
  its documentation excludes.
\<close>

section \<open>A small workflow\<close>

definition demo_node :: "nat \<Rightarrow> node_kind \<Rightarrow> node_definition" where
  "demo_node i k =
     \<lparr>nd_node_id = [i], nd_kind = k, nd_role = (if k = KindWork then Some Implementer else None),
      nd_description = [], nd_completion_criteria = None\<rparr>"

definition demo_edge :: "nat \<Rightarrow> nat \<Rightarrow> edge_definition" where
  "demo_edge i j = \<lparr>ed_from_node_id = [i], ed_to_node_id = [j]\<rparr>"

definition demo_graph :: create_workflow_spec where
  "demo_graph =
     \<lparr>cs_name = [], cs_objective = [], cs_root_node_id = [0],
      cs_nodes = [demo_node 0 KindWork, demo_node 1 KindWork, demo_node 5 KindWork, demo_node 2 KindConfirm,
        demo_node 3 KindComplete],
      cs_edges = [demo_edge 0 1, demo_edge 0 5, demo_edge 1 2, demo_edge 5 2, demo_edge 2 3]\<rparr>"

definition demo_flow :: workflow_aggregate where
  "demo_flow = ok_value (wa_new demo_graph [100] [7])"

definition choice :: "nat \<Rightarrow> successor_decision" where
  "choice i = \<lparr>sd_node_id = [i], sd_description = []\<rparr>"

definition finishes :: "nat \<Rightarrow> nat list \<Rightarrow> wf_op" where
  "finishes i js = WfAdvance [i] NaComplete [33] [] (map choice js)"

lemma demo_new: "wa_new demo_graph [100] [7] = Ok demo_flow"
  by code_simp


section \<open>The kernel\<close>

text \<open>
  C26: The kernel accepts a graph exactly when the graph is well-formed: every edge joins two of its nodes,
  it has no cycle, the declared root is its only node without a predecessor and a work node, everything is
  reachable from the root, exactly one node is a complete node, it has no successor and can be reached from
  everywhere, every other node has a successor, and a node has a role exactly when it is a work node.
\<close>

theorem kernel_accepts_well_formed: "validate d = Ok () \<longleftrightarrow> well_formed d"
  by (rule validate_well_formed)

text \<open>
  C27: The kernel always returns: its recursive cycle check needs at most one frame per node and edge. And
  two of its errors never occur: a graph that fails a reachability check has failed an earlier check, so
  neither an unreachable node nor a missing path to the complete node is ever reported.
\<close>

theorem kernel_reachability_is_implied:
  "validate d \<noteq> Panic \<and> (\<forall>s. validate d \<noteq> graph_err UnreachableNode s) \<and>
   (\<forall>s. validate d \<noteq> graph_err NoPathToCompleteNode s)"
proof -
  have "ge_reason e \<notin> {UnreachableNode, NoPathToCompleteNode}" if "validate d = Err e" for e
    using validate_reasons [OF that] by simp
  then show ?thesis using validate_not_panic by (auto simp: graph_err_def)
qed

section \<open>Histories\<close>

text \<open>
  C28: Finished history is frozen. Take any history of a created workflow. Let every replan be disciplined: its new nodes have identifiers that no
  node of the workflow has, each of its new edges leaves from a new node and leads to a new node or to a
  pending one, and its entries are new nodes to which no edge leads, old or new. Then
  a node that is completed, failed or stopped at some point has that status at every later point. (The code
  leaves this discipline to the sender: \<open>finding_completed_node_reactivated\<close> and
  \<open>finding_pending_entry_reactivated\<close> are histories without it.)
\<close>

theorem finished_nodes_stay:
  assumes "wa_new spec i now = Ok w" "all_allowed wf_step disciplined (ops @ later) w"
    and "node_status (fold wf_step ops w) n = Some s" "frozen s"
  shows "node_status (fold wf_step (ops @ later) w) n = Some s"
  using nodes.later_final [OF hist_ok_new [OF assms(1)] assms(2-4)] .

definition demo_replan :: replan_workflow_command where
  "demo_replan =
     \<lparr>rw_workflow_id = [100],
      rw_boundary = \<lparr>rb_trigger_node_id = [1], rb_stopped_node_ids = [], rb_frozen_fact_refs = []\<rparr>,
      rw_new_nodes = [demo_node 4 KindWork], rw_new_edges = [], rw_entry_node_ids = [[4]],
      rw_rejoin_edges = [\<lparr>rj_from_node_id = [4], rj_target_node_id = [2]\<rparr>],
      rw_pending_rewrites = None\<rparr>"

definition demo_failing :: "wf_op list" where
  "demo_failing = [finishes 0 [1, 5], WfAdvance [1] NaFail [33] [] []]"

definition demo_rest :: "wf_op list" where
  "demo_rest = [WfReplan demo_replan, finishes 4 [2], finishes 2 [3], finishes 3 [], WfComplete [33]]"

theorem finished_nodes_stay_witness:
  "node_status (fold wf_step (demo_failing @ demo_rest) demo_flow) [1] = Some NsFailed"
proof -
  have "all_allowed wf_step disciplined (demo_failing @ demo_rest) demo_flow" by code_simp
  moreover have "node_status (fold wf_step demo_failing demo_flow) [1] = Some NsFailed" by code_simp
  ultimately show ?thesis
    by (rule finished_nodes_stay [OF demo_new]) (simp add: frozen_def)
qed

definition demo_branches :: "wf_op list" where
  "demo_branches = [finishes 0 [1, 5], finishes 1 [2]]"

definition demo_joined :: "advance_outcome wf_result" where
  "demo_joined = advance_node [5] NaComplete [33] [] [choice 2] (fold wf_step demo_branches demo_flow)"

text \<open>
  C29: The AND-join is exact. Take any history of a created workflow. Let every replan be disciplined: its new nodes have identifiers that no
  node of the workflow has, each of its new edges leaves from a new node and leads to a new node or to a
  pending one, and its entries are new nodes to which no edge leads, old or new. Then
  completing a node activates exactly those chosen successors all of whose predecessors still in play are
  completed and have chosen them, in the order of the choice; the node itself is completed and no other node
  changes. (\<open>finding_join_too_early\<close> is a history without the discipline.)
\<close>

theorem completion_activates_joins:
  assumes "wa_new spec i now = Ok w0" "all_allowed wf_step disciplined ops w0"
    and "advance_node n NaComplete c ev ss (fold wf_step ops w0) = (Ok out, w)"
  shows "ao_activated_node_ids out = filter (join_ready w) (map sd_node_id ss) \<and>
    (\<forall>m. node_status w m = (if m = n then Some NsCompleted
      else if m \<in> set (ao_activated_node_ids out) then Some NsActive
      else node_status (fold wf_step ops w0) m))"
proof -
  have ok: "hist_ok (fold wf_step ops w0)"
    using nodes.run_good [OF hist_ok_new [OF assms(1)] assms(2)] .
  have "advanced n NaComplete c ev ss (fold wf_step ops w0) out w"
    using advance_node_cases [of n NaComplete c ev ss "fold wf_step ops w0"] assms(3) by auto
  from advanced_completion [OF ok this] show ?thesis by simp
qed

theorem completion_activates_joins_witness:
  "node_status (snd demo_joined) [2] = Some NsActive \<and> join_ready (snd demo_joined) [2]"
proof -
  have ok: "advance_node [5] NaComplete [33] [] [choice 2] (fold wf_step demo_branches demo_flow) =
      (Ok (ok_value (fst demo_joined)), snd demo_joined)" by code_simp
  have "all_allowed wf_step disciplined demo_branches demo_flow" by code_simp
  note joins = completion_activates_joins [OF demo_new this ok]
  have activated: "ao_activated_node_ids (ok_value (fst demo_joined)) = [[2]]" by code_simp
  then have "[2] \<in> set (filter (join_ready (snd demo_joined)) (map sd_node_id [choice 2]))"
    using joins by (metis list.set_intros(1))
  moreover have "node_status (snd demo_joined) [2] = Some NsActive" using joins [THEN conjunct2, THEN spec [of _ "[2]"]] activated by simp
  ultimately show ?thesis by (simp only: set_filter mem_Collect_eq)
qed

text \<open>
  C30: A completed workflow is over: in every reachable state whose status is \<open>Completed\<close> the complete node
  is completed, no node is active, and every operation of the aggregate leaves the state as it is.
\<close>

theorem completed_workflow_is_over:
  assumes "wf_reachable w" "wa_status w = WfCompleted"
  shows "complete_done w \<and> (\<forall>i. node_status w i \<noteq> Some NsActive) \<and> wf_step op w = w"
proof -
  have "closed_out w" using assms by (rule reachable_closed_out)
  then show ?thesis
    using closed_out_step [OF _ assms(2)] no_active_status [OF reachable_maps_ok [OF assms(1)]]
    by (simp add: closed_out_def)
qed

lemma run_reachable: "wf_reachable w \<Longrightarrow> wf_reachable (fold wf_step ops w)"
  by (induction ops arbitrary: w) (auto intro: stepped)

theorem completed_workflow_is_over_witness:
  "wf_step (WfCancel [33]) (fold wf_step (demo_failing @ demo_rest) demo_flow)
     = fold wf_step (demo_failing @ demo_rest) demo_flow"
proof -
  have "wf_reachable (fold wf_step (demo_failing @ demo_rest) demo_flow)"
    by (rule run_reachable) (rule created [OF demo_new])
  moreover have "wa_status (fold wf_step (demo_failing @ demo_rest) demo_flow) = WfCompleted" by code_simp
  ultimately show ?thesis using completed_workflow_is_over by blast
qed



section \<open>The store and its files\<close>

text \<open>
  C32: A restart loses nothing: after any history of one session on a disk that does not fail, provided that
  at its end every node with a status is a node of its workflow, a store loaded from that disk holds the same
  workflows, and each of them behaves from then on as the one in memory would have. (A node that a replan has
  removed can get a status again: \<open>finding_removed_node_revived\<close>; a restart loses that status:
  \<open>finding_restart_loses_removed_node\<close>.)
\<close>

theorem restart_restores:
  assumes "list_all (own_session s) ops"
    and "list_all (\<lambda>(_, w). no_ghost w) (wt_workflows (fold wb_step ops (fresh_session root s)))"
  shows "map_option (\<lambda>w. to_snapshot (fold wf_step later w))
      (map_of (wt_workflows (with_persistence (file_persistence no_faults) s
        (wt_disk (fold wb_step ops (fresh_session root s))))) i)
    = map_option (\<lambda>w. to_snapshot (fold wf_step later w))
      (map_of (wt_workflows (fold wb_step ops (fresh_session root s))) i)"
proof -
  let ?st = "fold wb_step ops (fresh_session root s)"
  have "mirrored (file_persistence no_faults) files_ok files_content s ?st"
    using files.mirrored_run [OF fresh_session_mirrored assms(1)] .
  from files.restart_lookup [OF this assms(2), of i] show ?thesis
    by (auto simp: option_rel_Some1 elim!: option.rel_cases dest: same_workflow_run)
qed

definition demo_session :: "wb_op list" where
  "demo_session =
     [WbCreate demo_graph [100] [7],
      WbNodeUpdate \<lparr>un_workflow_id = [100], un_node_id = [0], un_action = NaComplete, un_conclusion = [33],
        un_evidence_refs = [], un_successors = [choice 1, choice 5]\<rparr>,
      WbNodeUpdate \<lparr>un_workflow_id = [100], un_node_id = [1], un_action = NaFail, un_conclusion = [33],
        un_evidence_refs = [], un_successors = []\<rparr>]"

definition demo_store_disk :: wf_disk where
  "demo_store_disk = wt_disk (fold wb_step demo_session (fresh_session [47] [1]))"

theorem restart_restores_witness:
  "map_option (\<lambda>w. to_snapshot (fold wf_step [WfDeactivate, WfActivate] w))
      (map_of (wt_workflows (with_persistence (file_persistence no_faults) [1] demo_store_disk)) [100])
    = map_option (\<lambda>w. to_snapshot (fold wf_step [WfDeactivate, WfActivate] w))
      (map_of (wt_workflows (fold wb_step demo_session (fresh_session [47] [1]))) [100])"
proof -
  have "list_all (own_session [1]) demo_session" by code_simp
  moreover have "list_all (\<lambda>(_, w). no_ghost w)
      (wt_workflows (fold wb_step demo_session (fresh_session [47] [1])))" by code_simp
  ultimately show ?thesis unfolding demo_store_disk_def by (rule restart_restores)
qed

text \<open>
  C33: The cleanup of orphaned files is safe and complete, or it does nothing. On a disk that does not fail
  (and whose files lie in their directories), no session loads anything else afterwards and the dry run reports
  the same and changes nothing. When every index can be decoded, or there is no directory of entities, exactly
  the unreferenced entities are gone and a second run finds nothing to remove; when an index is damaged, the
  cleanup fails and leaves the disk as it is.
\<close>

theorem cleanup_removes_orphans_only:
  assumes "layout_ok d" "cleanup_orphans no_faults False d = (r, d')"
  shows "(\<forall>s. fp_load_all no_faults s d' = fp_load_all no_faults s d) \<and>
    cleanup_orphans no_faults True d = (r, d) \<and>
    (if list_all (\<lambda>(_, f). f \<noteq> Garbled) (dk_indexes d) \<or> \<not> dk_entities_dir d then
       (\<forall>i. map_of (dk_entities d') i = (if i \<in> all_references d then map_of (dk_entities d) i else None)) \<and>
       (\<exists>rep. fst (cleanup_orphans no_faults False d') = Ok rep \<and> cl_removed rep = [])
     else d' = d \<and> (\<forall>rep. r \<noteq> Ok rep))"
proof -
  have dry: "cleanup_orphans no_faults True d = (r, d)" using cleanup_dry_same [of d] assms(2) by simp
  consider (readable) "dk_entities_dir d" "list_all (\<lambda>(_, f). f \<noteq> Garbled) (dk_indexes d)"
    | (damaged) "dk_entities_dir d" "\<not> list_all (\<lambda>(_, f). f \<noteq> Garbled) (dk_indexes d)"
    | (absent) "\<not> dk_entities_dir d" by blast
  then show ?thesis
  proof cases
    case readable
    with dry show ?thesis
      using cleanup_effect(1,3,4) [OF layout_readable [OF assms(1)] _ assms(2)] by simp
  next
    case damaged
    then show ?thesis using dry cleanup_damaged [OF assms(1) damaged] assms(2) by (metis (no_types, lifting) fst_conv snd_conv)
  next
    case absent
    then show ?thesis using dry cleanup_without_entities [OF assms(1) absent] assms(2) by auto
  qed
qed

theorem cleanup_removes_orphans_only_witness:
  "\<exists>d. cleanup_orphans no_faults True d = (fst (cleanup_orphans no_faults False d), d) \<and>
     fst (cleanup_orphans no_faults False d) = Ok \<lparr>cl_scanned = 1, cl_referenced = 0, cl_removed = [[100]]\<rparr>"
proof -
  let ?d = "snd (fp_clear_index no_faults [1] demo_store_disk)"
  have "layout_ok ?d" by code_simp
  moreover have "fst (cleanup_orphans no_faults False ?d) =
      Ok \<lparr>cl_scanned = 1, cl_referenced = 0, cl_removed = [[100]]\<rparr>" by code_simp
  moreover obtain r d' where "cleanup_orphans no_faults False ?d = (r, d')"
    by (cases "cleanup_orphans no_faults False ?d")
  ultimately show ?thesis using cleanup_removes_orphans_only [of ?d r d'] by (metis fst_conv)
qed


section \<open>Findings\<close>

text \<open>
  \<open>activate\<close> does not look at the other workflows: two workflows of one session can be active, although
  the store is documented to hold at most one active workflow.
\<close>

definition lifecycle_cmd :: "nat \<Rightarrow> lifecycle_action \<Rightarrow> wb_op" where
  "lifecycle_cmd i a = WbUpdate \<lparr>uw_workflow_id = [i], uw_action = a, uw_summary = None, uw_evidence_refs = []\<rparr>"

lemma finding_two_active:
  "length (filter (\<lambda>(_, w). wa_status w = WfActive) (wt_workflows
     (fold wb_step
       [WbCreate demo_graph [100] [7], lifecycle_cmd 100 LaDeactivate, WbCreate demo_graph [101] [7],
        lifecycle_cmd 100 LaActivate] (fresh_session [47] [1])))) = 2"
  by code_simp

text \<open>\<open>advance_node\<close> does not look at the status of the workflow: a cancelled workflow goes on.\<close>

lemma finding_cancelled_still_advances:
  "wa_status (fold wf_step [WfCancel [33], finishes 0 [1, 5]] demo_flow) = WfCancelled \<and>
   node_status (fold wf_step [WfCancel [33], finishes 0 [1, 5]] demo_flow) [1] = Some NsActive"
  by code_simp

text \<open>
  A node that fails while the workflow is inactive asks for a replan that the next \<open>activate\<close> forgets: the
  workflow executes, with no node to execute.
\<close>

lemma finding_failure_while_inactive_lost:
  "wa_active_mode (fold wf_step [WfDeactivate, WfAdvance [0] NaFail [33] [] [], WfActivate] demo_flow) = Some Executing \<and>
   no_active (fold wf_step [WfDeactivate, WfAdvance [0] NaFail [33] [] [], WfActivate] demo_flow)"
  by code_simp

text \<open>\<open>activate\<close> keeps \<open>pending_mode\<close>, which is documented to be empty unless the workflow is inactive.\<close>

lemma finding_pending_mode_stays:
  "wa_status (fold wf_step (demo_failing @ [WfDeactivate, WfActivate]) demo_flow) = WfActive \<and>
   wa_pending_mode (fold wf_step (demo_failing @ [WfDeactivate, WfActivate]) demo_flow) = Some Replanning"
  by code_simp

text \<open>The kernel accepts two nodes with one identifier.\<close>

lemma finding_duplicate_node_ids:
  "validate
     \<lparr>wd_name = [], wd_objective = [], wd_root_node_id = [0],
      wd_nodes = [demo_node 0 KindWork, demo_node 1 KindWork, demo_node 1 KindConfirm, demo_node 3 KindComplete],
      wd_edges = [demo_edge 0 1, demo_edge 1 3]\<rparr> = Ok ()"
  by code_simp

text \<open>
  A replan keeps the edges that lead to the nodes it removes, so a removed node can be chosen as a
  successor: it becomes active without having a definition.
\<close>

definition replan_with ::
  "edge_definition list \<Rightarrow> nat list \<Rightarrow> nat \<Rightarrow> nat list \<Rightarrow> wf_op" where
  "replan_with edges entries target removed =
     WfReplan (demo_replan\<lparr>rw_new_edges := edges, rw_entry_node_ids := map (\<lambda>i. [i]) entries,
       rw_rejoin_edges := [\<lparr>rj_from_node_id = [4], rj_target_node_id = [target]\<rparr>],
       rw_pending_rewrites := Some \<lparr>pr_update = [], pr_remove = map (\<lambda>i. [i]) removed\<rparr>\<rparr>)"

definition demo_detour :: workflow_aggregate where
  "demo_detour = ok_value (wa_new
     (demo_graph\<lparr>cs_nodes := [demo_node 0 KindWork, demo_node 1 KindWork, demo_node 2 KindWork, demo_node 3 KindComplete],
        cs_edges := [demo_edge 0 1, demo_edge 1 2, demo_edge 2 3, demo_edge 1 3]\<rparr>) [100] [7])"

definition removal_history :: "wf_op list" where
  "removal_history =
     [WfAdvance [0] NaFail [33] [] [], replan_with [] [4] 1 [2], finishes 4 [1], finishes 1 [2]]"

lemma finding_removed_node_revived:
  "node_status (fold wf_step removal_history demo_detour) [2] = Some NsActive \<and>
   \<not> list_ex (\<lambda>n. nd_node_id n = [2]) (wa_nodes (fold wf_step removal_history demo_detour))"
  by code_simp

text \<open>A new edge of a replan may lead to a completed node, which is then activated again.\<close>

definition reactivation_history :: "wf_op list" where
  "reactivation_history =
     [finishes 0 [1, 5], finishes 1 [2], WfAdvance [5] NaFail [33] [] [],
      replan_with [demo_edge 4 1] [4] 2 [], finishes 4 [1]]"

lemma finding_completed_node_reactivated:
  "node_status (fold wf_step (take 2 reactivation_history) demo_flow) [1] = Some NsCompleted \<and>
   node_status (fold wf_step reactivation_history demo_flow) [1] = Some NsActive"
  by code_simp

text \<open>
  An entry may be an open node that a new node leads to: it is activated at once, and once more when the new
  node completes, although it is completed by then.
\<close>

definition entry_history :: "wf_op list" where
  "entry_history = demo_failing @ [replan_with [] [4, 2] 2 [], finishes 2 [3], finishes 4 [2]]"

lemma finding_pending_entry_reactivated:
  "node_status (fold wf_step (butlast entry_history) demo_flow) [2] = Some NsCompleted \<and>
   node_status (fold wf_step entry_history demo_flow) [2] = Some NsActive"
  by code_simp

text \<open>
  A node that a new edge has made active again has still chosen its successor: the join behind it does not
  wait for it to complete again.
\<close>

definition early_history :: "wf_op list" where
  "early_history = butlast reactivation_history @ [finishes 4 [2, 1]]"

lemma finding_join_too_early:
  "node_status (fold wf_step early_history demo_flow) [1] = Some NsActive \<and>
   node_status (fold wf_step early_history demo_flow) [2] = Some NsActive \<and>
   list_ex (\<lambda>e. e = demo_edge 1 2) (wa_edges (fold wf_step early_history demo_flow))"
  by code_simp

text \<open>The search for a cycle starts at the defined nodes: a cycle among other identifiers is accepted.\<close>

definition undefined_cycle :: replan_workflow_command where
  "undefined_cycle = demo_replan\<lparr>rw_new_edges := [demo_edge 50 51, demo_edge 51 50]\<rparr>"

lemma finding_undefined_cycle_accepted:
  "(case fst (replan undefined_cycle (fold wf_step demo_failing demo_flow)) of Ok r \<Rightarrow> True | _ \<Rightarrow> False) \<and>
   ([50], [50]) \<in> (edge_rel (wa_edges (snd (replan undefined_cycle (fold wf_step demo_failing demo_flow)))))\<^sup>+"
proof -
  let ?w = "snd (replan undefined_cycle (fold wf_step demo_failing demo_flow))"
  have "list_ex (\<lambda>e. e = demo_edge 50 51) (wa_edges ?w)" "list_ex (\<lambda>e. e = demo_edge 51 50) (wa_edges ?w)"
    by code_simp+
  then have "([50], [51]) \<in> edge_rel (wa_edges ?w)" "([51], [50]) \<in> edge_rel (wa_edges ?w)"
    unfolding list_ex_iff edge_rel_iff by (force simp: demo_edge_def)+
  then have "([50], [50]) \<in> (edge_rel (wa_edges ?w))\<^sup>+" by (rule trancl_into_trancl [OF r_into_trancl])
  moreover have "case fst (replan undefined_cycle (fold wf_step demo_failing demo_flow)) of Ok r \<Rightarrow> True | _ \<Rightarrow> False"
    by code_simp
  ultimately show ?thesis by blast
qed

text \<open>
  An entry of a replan need not be a new node: the complete node itself is accepted, and the workflow
  completes with all of its work pending.
\<close>

lemma finding_complete_node_as_entry:
  "wa_status (fold wf_step
     [WfAdvance [0] NaFail [33] [] [], replan_with [] [3] 1 [], finishes 3 [], WfComplete [33]] demo_flow) = WfCompleted"
  by code_simp

text \<open>
  A rejoin is accepted even when a completed predecessor of its target chose another way: the target can
  never be activated, and the workflow, executing without an active node, can neither fail nor replan.
\<close>

definition demo_fork :: workflow_aggregate where
  "demo_fork = ok_value (wa_new
     (demo_graph\<lparr>cs_nodes := [demo_node 0 KindWork, demo_node 1 KindWork, demo_node 2 KindWork, demo_node 3 KindComplete],
        cs_edges := [demo_edge 0 1, demo_edge 0 2, demo_edge 1 3, demo_edge 2 3]\<rparr>) [100] [7])"

definition stuck_history :: "wf_op list" where
  "stuck_history = [finishes 0 [1], WfAdvance [1] NaFail [33] [] [], replan_with [] [4] 2 [], finishes 4 [2]]"

lemma finding_rejoin_never_activates:
  "no_active (fold wf_step stuck_history demo_fork) \<and>
   wa_active_mode (fold wf_step stuck_history demo_fork) = Some Executing \<and>
   node_status (fold wf_step stuck_history demo_fork) [2] = Some NsPending \<and>
   wf_step (WfFail [33]) (fold wf_step stuck_history demo_fork) = fold wf_step stuck_history demo_fork"
  by code_simp

text \<open>The snapshot of a workflow leaves out the status of a removed node: a restart loses it.\<close>

lemma finding_restart_loses_removed_node:
  "case from_snapshot (to_snapshot (fold wf_step removal_history demo_detour)) of
     Ok w \<Rightarrow> node_status w [2] = None
   | _ \<Rightarrow> False"
  by code_simp

text \<open>A reset for another session empties the memory and keeps the index: a restart brings everything back.\<close>

lemma finding_reset_other_session:
  "wt_workflows (fold wb_step (demo_session @ [WbReset [2]]) (fresh_session [47] [1])) = [] \<and>
   wt_workflows (with_persistence (file_persistence no_faults) [1]
     (wt_disk (fold wb_step (demo_session @ [WbReset [2]]) (fresh_session [47] [1])))) \<noteq> []"
  by code_simp

end
