(* ===== verification/Disk.thy ===== *)
theory Disk
  imports Prelude
begin

text \<open>
  What the storage adapters see of a disk: the tree below one directory handle, the calls of the file
  system, and a process that can be interrupted at every one of them.

  A call is one \<open>step\<close>. Its \<^emph>\<open>fate\<close> is an argument of the model: it goes through, it breaks with an error,
  or the process dies there. A call that does not go through leaves the tree as it was, except for a write,
  which leaves a prefix of its bytes. \<open>remove_dir_all\<close> and \<open>create_dir_all\<close> are sequences of steps.
  A flush (\<open>sync_all\<close>) has no effect on the tree, since the death of a process loses no completed call;
  it is a step because it can fail.

  \<open>wp\<close> is the calculus the protocols are verified in: the condition on a tree under which a program, for
  every list of fates that is allowed, ends in its three postconditions.
\<close>

section \<open>Trees\<close>

type_synonym bytes = "nat list"
type_synonym path = "ustr list"

datatype entry = File bytes | Folder | Link

type_synonym tree = "(path, entry) hmap"

definition look :: "tree \<Rightarrow> path \<Rightarrow> entry option" where
  "look t p = map_of t p"

definition under :: "'a list \<Rightarrow> 'a list \<Rightarrow> bool" where
  "under d p \<longleftrightarrow> take (length d) p = d"

text \<open>The directory a path lies in; the handle itself is always there.\<close>

definition is_folder :: "tree \<Rightarrow> path \<Rightarrow> bool" where
  "is_folder t p \<longleftrightarrow> p = [] \<or> look t p = Some Folder"

definition names_in :: "tree \<Rightarrow> path \<Rightarrow> ustr list" where
  "names_in t d = map last (filter (\<lambda>p. p \<noteq> [] \<and> butlast p = d) (hm_keys t))"

definition moved :: "path \<Rightarrow> path \<Rightarrow> tree \<Rightarrow> tree" where
  "moved s d t =
     map (\<lambda>(p, e). (if under s p then d @ drop (length s) p else p, e)) (filter (\<lambda>(p, _). \<not> under d p) t)"

text \<open>A handle on a directory: a program that sees the tree below it.\<close>

definition subtree :: "path \<Rightarrow> tree \<Rightarrow> tree" where
  "subtree d t = map (\<lambda>(p, e). (drop (length d) p, e)) (filter (\<lambda>(p, _). under d p \<and> p \<noteq> d) t)"

definition graft :: "path \<Rightarrow> tree \<Rightarrow> tree \<Rightarrow> tree" where
  "graft d sub t = filter (\<lambda>(p, _). \<not> (under d p \<and> p \<noteq> d)) t @ map (\<lambda>(p, e). (d @ p, e)) sub"

section \<open>Steps\<close>

datatype io_kind = IoNotFound | IoExists | IoDenied | IoOther

datatype fate = Goes | Breaks io_kind nat | Dies nat

record machine =
  m_tree :: tree
  m_fates :: "fate list"

datatype ('e, 'a) reply = Done 'a | Fails 'e | Stopped

type_synonym ('e, 'a) io = "machine \<Rightarrow> ('e, 'a) reply \<times> machine"

definition perform ::
  "(tree \<Rightarrow> io_kind + 'a \<times> tree) \<Rightarrow> machine \<Rightarrow> (io_kind, 'a) reply \<times> machine" where
  "perform act m =
     (case act (m_tree m) of
        Inl k \<Rightarrow> (Fails k, m)
      | Inr (x, t) \<Rightarrow> (Done x, m\<lparr>m_tree := t\<rparr>))"

text \<open>\<open>torn k\<close> is the effect of a call that was interrupted after \<open>k\<close> bytes. No fates left: all goes through.\<close>

definition step ::
  "(nat \<Rightarrow> tree \<Rightarrow> tree) \<Rightarrow> (tree \<Rightarrow> io_kind + 'a \<times> tree) \<Rightarrow> (io_kind, 'a) io" where
  "step torn act m =
     (case m_fates m of
        [] \<Rightarrow> perform act m
      | Goes # fs \<Rightarrow> perform act (m\<lparr>m_fates := fs\<rparr>)
      | Breaks k n # fs \<Rightarrow> (Fails k, m\<lparr>m_tree := torn n (m_tree m), m_fates := fs\<rparr>)
      | Dies n # fs \<Rightarrow> (Stopped, m\<lparr>m_tree := torn n (m_tree m), m_fates := fs\<rparr>))"

abbreviation atomic :: "(tree \<Rightarrow> io_kind + 'a \<times> tree) \<Rightarrow> (io_kind, 'a) io" where
  "atomic \<equiv> step (\<lambda>_ t. t)"

section \<open>Programs\<close>

definition ret :: "'a \<Rightarrow> ('e, 'a) io" where
  "ret x m = (Done x, m)"

definition fail :: "'e \<Rightarrow> ('e, 'a) io" where
  "fail e m = (Fails e, m)"

text \<open>A panic, or the end of the process.\<close>

definition stop :: "('e, 'a) io" where
  "stop m = (Stopped, m)"

definition bind_io :: "('e, 'a) io \<Rightarrow> ('a \<Rightarrow> ('e, 'b) io) \<Rightarrow> ('e, 'b) io" where
  "bind_io c k m =
     (case c m of
        (Done x, m') \<Rightarrow> k x m'
      | (Fails e, m') \<Rightarrow> (Fails e, m')
      | (Stopped, m') \<Rightarrow> (Stopped, m'))"

text \<open>\<open>c?; d\<close>\<close>

definition then_io :: "('e, 'a) io \<Rightarrow> ('e, 'b) io \<Rightarrow> ('e, 'b) io" where
  "then_io c d = bind_io c (\<lambda>_. d)"

text \<open>\<open>map_err\<close>\<close>

definition map_fail :: "('d \<Rightarrow> 'e) \<Rightarrow> ('d, 'a) io \<Rightarrow> ('e, 'a) io" where
  "map_fail f c m =
     (case c m of
        (Done x, m') \<Rightarrow> (Done x, m')
      | (Fails e, m') \<Rightarrow> (Fails (f e), m')
      | (Stopped, m') \<Rightarrow> (Stopped, m'))"

text \<open>A result that is inspected instead of being returned with \<open>?\<close>.\<close>

definition attempt :: "('e, 'a) io \<Rightarrow> ('d, 'e + 'a) io" where
  "attempt c m =
     (case c m of
        (Done x, m') \<Rightarrow> (Done (Inr x), m')
      | (Fails e, m') \<Rightarrow> (Done (Inl e), m')
      | (Stopped, m') \<Rightarrow> (Stopped, m'))"

text \<open>\<open>let _ = c\<close>\<close>

definition ignore :: "('e, 'a) io \<Rightarrow> ('d, unit) io" where
  "ignore c = bind_io (attempt c) (\<lambda>_. ret ())"

text \<open>\<open>for x in xs { f(x)?; }\<close> and \<open>xs.map(f).collect::<Result<Vec<_>, _>>()\<close>\<close>

fun each :: "('a \<Rightarrow> ('e, unit) io) \<Rightarrow> 'a list \<Rightarrow> ('e, unit) io" where
  "each f [] = ret ()"
| "each f (x # xs) = then_io (f x) (each f xs)"

fun gather :: "('a \<Rightarrow> ('e, 'b) io) \<Rightarrow> 'a list \<Rightarrow> ('e, 'b list) io" where
  "gather f [] = ret []"
| "gather f (x # xs) = bind_io (f x) (\<lambda>y. bind_io (gather f xs) (\<lambda>ys. ret (y # ys)))"

definition from_option :: "'e \<Rightarrow> 'a option \<Rightarrow> ('e, 'a) io" where
  "from_option e v = (case v of Some x \<Rightarrow> ret x | None \<Rightarrow> fail e)"

fun lift_outcome :: "('e, 'a) outcome \<Rightarrow> ('e, 'a) io" where
  "lift_outcome (Ok x) = ret x"
| "lift_outcome (Err e) = fail e"
| "lift_outcome Panic = stop"

definition when_io :: "bool \<Rightarrow> ('e, unit) io \<Rightarrow> ('e, unit) io" where
  "when_io b c = (if b then c else ret ())"

definition within :: "path \<Rightarrow> ('e, 'a) io \<Rightarrow> ('e, 'a) io" where
  "within d c m =
     (case c (m\<lparr>m_tree := subtree d (m_tree m)\<rparr>) of
        (r, m') \<Rightarrow> (r, m'\<lparr>m_tree := graft d (m_tree m') (m_tree m)\<rparr>))"

section \<open>The calls of the file system\<close>

text \<open>\<open>symlink_metadata\<close>, \<open>open\<close> and \<open>read_to_end\<close>, \<open>entries\<close>, \<open>open_dir\<close>\<close>

definition fs_stat :: "path \<Rightarrow> (io_kind, entry) io" where
  "fs_stat p = atomic (\<lambda>t.
     if p = [] then Inr (Folder, t)
     else case look t p of None \<Rightarrow> Inl IoNotFound | Some e \<Rightarrow> Inr (e, t))"

definition fs_read :: "path \<Rightarrow> (io_kind, bytes) io" where
  "fs_read p = atomic (\<lambda>t.
     case look t p of
       Some (File b) \<Rightarrow> Inr (b, t)
     | None \<Rightarrow> Inl IoNotFound
     | Some _ \<Rightarrow> Inl IoOther)"

definition fs_open :: "path \<Rightarrow> (io_kind, unit) io" where
  "fs_open p = atomic (\<lambda>t. if p = [] \<or> look t p \<noteq> None then Inr ((), t) else Inl IoNotFound)"

definition fs_entries :: "path \<Rightarrow> (io_kind, ustr list) io" where
  "fs_entries d = atomic (\<lambda>t. if is_folder t d then Inr (names_in t d, t) else Inl IoNotFound)"

definition fs_open_dir :: "path \<Rightarrow> (io_kind, unit) io" where
  "fs_open_dir d = atomic (\<lambda>t.
     if is_folder t d then Inr ((), t) else if look t d = None then Inl IoNotFound else Inl IoOther)"

text \<open>\<open>open\<close> with \<open>create_new\<close>, \<open>write_all\<close> and \<open>sync_all\<close> on the file that was opened\<close>

definition fs_create_new :: "path \<Rightarrow> (io_kind, unit) io" where
  "fs_create_new p = atomic (\<lambda>t.
     if look t p \<noteq> None then Inl IoExists
     else if \<not> is_folder t (butlast p) then Inl IoNotFound
     else Inr ((), hm_insert p (File []) t))"

text \<open>\<open>open\<close> with \<open>create\<close>\<close>

definition fs_open_create :: "path \<Rightarrow> (io_kind, unit) io" where
  "fs_open_create p = atomic (\<lambda>t.
     case look t p of
       Some (File _) \<Rightarrow> Inr ((), t)
     | Some _ \<Rightarrow> Inl IoOther
     | None \<Rightarrow> if is_folder t (butlast p) then Inr ((), hm_insert p (File []) t) else Inl IoNotFound)"

definition fs_write :: "path \<Rightarrow> bytes \<Rightarrow> (io_kind, unit) io" where
  "fs_write p b =
     step (\<lambda>k t. hm_insert p (File (take k b)) t) (\<lambda>t. Inr ((), hm_insert p (File b) t))"

definition fs_sync :: "path \<Rightarrow> (io_kind, unit) io" where
  "fs_sync p = atomic (\<lambda>t. Inr ((), t))"

text \<open>\<open>remove_file\<close>, and the removal of one entry by \<open>remove_dir_all\<close>\<close>

definition fs_remove_file :: "path \<Rightarrow> (io_kind, unit) io" where
  "fs_remove_file p = atomic (\<lambda>t.
     case look t p of
       None \<Rightarrow> Inl IoNotFound
     | Some Folder \<Rightarrow> Inl IoOther
     | Some _ \<Rightarrow> Inr ((), hm_remove p t))"

definition fs_unlink :: "path \<Rightarrow> (io_kind, unit) io" where
  "fs_unlink p = atomic (\<lambda>t. if look t p = None then Inl IoNotFound else Inr ((), hm_remove p t))"

text \<open>
  A directory goes after its contents: the entries below it are removed with the longest paths first. What
  lies below is read off when the call starts, the handle being locked.
\<close>

definition below :: "path \<Rightarrow> tree \<Rightarrow> path list" where
  "below d t = sort_key (\<lambda>p. - int (length p)) (filter (under d) (hm_keys t))"

definition fs_survey :: "path \<Rightarrow> (io_kind, path list) io" where
  "fs_survey d = atomic (\<lambda>t.
     case look t d of
       Some Folder \<Rightarrow> Inr (below d t, t)
     | None \<Rightarrow> Inl IoNotFound
     | Some _ \<Rightarrow> Inl IoOther)"

definition fs_remove_dir_all :: "path \<Rightarrow> (io_kind, unit) io" where
  "fs_remove_dir_all d = bind_io (fs_survey d) (each fs_unlink)"

text \<open>\<open>create_dir\<close>, for every leading part of the path\<close>

definition fs_create_dir :: "path \<Rightarrow> (io_kind, unit) io" where
  "fs_create_dir p = atomic (\<lambda>t.
     case look t p of
       Some Folder \<Rightarrow> Inr ((), t)
     | Some _ \<Rightarrow> Inl IoExists
     | None \<Rightarrow> if is_folder t (butlast p) then Inr ((), hm_insert p Folder t) else Inl IoNotFound)"

definition fs_create_dir_all :: "path \<Rightarrow> (io_kind, unit) io" where
  "fs_create_dir_all p = each fs_create_dir (map (\<lambda>n. take (Suc n) p) [0..<length p])"

text \<open>
  \<open>rename\<close>: a file replaces a file, a directory replaces an empty directory; neither end may lie below the
  other.
\<close>

definition can_replace :: "tree \<Rightarrow> entry \<Rightarrow> path \<Rightarrow> bool" where
  "can_replace t e d =
     (case look t d of
        None \<Rightarrow> is_folder t (butlast d)
      | Some Folder \<Rightarrow> e = Folder \<and> names_in t d = []
      | Some _ \<Rightarrow> e \<noteq> Folder)"

definition fs_rename :: "path \<Rightarrow> path \<Rightarrow> (io_kind, unit) io" where
  "fs_rename s d = atomic (\<lambda>t.
     case look t s of
       None \<Rightarrow> Inl IoNotFound
     | Some e \<Rightarrow>
         if s = d then Inr ((), t)
         else if under s d \<or> under d s \<or> \<not> can_replace t e d then Inl IoOther
         else Inr ((), moved s d t))"

end
