(* ===== verification/Dataset_Model.thy ===== *)
theory Dataset_Model
  imports Disk
begin

text \<open>
  The data of the dataset storage (\<open>storage/src/domain\<close>: \<open>atomic_dataset.rs\<close>, \<open>published_language.rs\<close>,
  \<open>safe_path.rs\<close>, \<open>blob_recovery.rs\<close>, the shared types of \<open>atomic_blob.rs\<close>) and its records on disk
  (\<open>adapters/dataset_protocol.rs\<close>).

  A string is the list of its UTF-8 bytes here, since names are hashed and compared as bytes. SHA-256, the
  JSON codec and the generator of UUIDs belong to third-party crates: they are the fields of \<open>host\<close>. An
  operation draws at most one UUID. The texts of error messages are left out.
\<close>

section \<open>Errors\<close>

datatype durability = BestEffort | ProcessCrashSafe

fun satisfies :: "durability \<Rightarrow> durability \<Rightarrow> bool" where
  "satisfies ProcessCrashSafe required = True"
| "satisfies BestEffort required = (required = BestEffort)"

datatype storage_namespace =
    NsSession | NsMemory | NsToolResult | NsConfig | NsBackgroundProcess | NsLegacyBackgroundTask

fun namespace_str :: "storage_namespace \<Rightarrow> ustr" where
  "namespace_str NsSession = lit ''session''"
| "namespace_str NsMemory = lit ''memory''"
| "namespace_str NsToolResult = lit ''tool-result''"
| "namespace_str NsConfig = lit ''config''"
| "namespace_str NsBackgroundProcess = lit ''background-process''"
| "namespace_str NsLegacyBackgroundTask = lit ''background-task''"

definition minimum_durability :: "storage_namespace \<Rightarrow> durability" where
  "minimum_durability ns = ProcessCrashSafe"

definition effective_durability :: "storage_namespace \<Rightarrow> durability \<Rightarrow> durability" where
  "effective_durability ns requested =
     (if satisfies requested (minimum_durability ns) then requested else minimum_durability ns)"

datatype generation_kind = GenPrimary | GenPrevious

datatype transaction_scope = ScopeBlob | ScopeDataset

datatype quarantine_reason = DigestMismatch | DecoderRejected | PromoteFromCorrupt

datatype corruption_reason =
    PrimaryDigestMatchesNeitherGeneration
  | CommittedDigestMismatch
  | OrphanPreviousDigestMismatch
  | InvalidJournal
  | DatasetMemberDigestMismatch

datatype quarantine_disposition = EvidenceQuarantined | QuarantineFailed

datatype storage_error =
    InvalidKey
  | StorageIo
  | PermissionDenied
  | UnsupportedDurability
  | ConcurrentWrite
  | CorruptTransaction transaction_scope corruption_reason quarantine_disposition

datatype error_category = CatInvalid | CatUnavailable | CatStorage

fun category :: "storage_error \<Rightarrow> error_category" where
  "category InvalidKey = CatInvalid"
| "category UnsupportedDurability = CatUnavailable"
| "category StorageIo = CatStorage"
| "category PermissionDenied = CatStorage"
| "category ConcurrentWrite = CatStorage"
| "category (CorruptTransaction _ _ _) = CatStorage"

fun is_corruption :: "storage_error \<Rightarrow> bool" where
  "is_corruption (CorruptTransaction _ _ _) = True"
| "is_corruption _ = False"

section \<open>Names and keys\<close>

text \<open>\<open>SafePathSegmentData::from_str\<close>: not empty, no leading dot, no separator, no NUL\<close>

definition safe_segment :: "ustr \<Rightarrow> bool" where
  "safe_segment s \<longleftrightarrow>
     \<not> (s = [] \<or> s = lit ''.'' \<or> s = lit ''..'' \<or> hd s = 46 \<or> 47 \<in> set s \<or> 92 \<in> set s \<or> 0 \<in> set s)"

definition parse_segment :: "ustr \<Rightarrow> (storage_error, ustr) outcome" where
  "parse_segment s = (if safe_segment s then Ok s else Err InvalidKey)"

record dataset_key =
  dk_namespace :: storage_namespace
  dk_segments :: "ustr list"

definition dataset_key_new ::
  "storage_namespace \<Rightarrow> ustr list \<Rightarrow> (storage_error, dataset_key) outcome" where
  "dataset_key_new ns segments =
     (if segments = [] then Err InvalidKey else Ok \<lparr>dk_namespace = ns, dk_segments = segments\<rparr>)"

text \<open>\<open>dataset_rel\<close>\<close>

definition dataset_rel :: "dataset_key \<Rightarrow> path" where
  "dataset_rel key = namespace_str (dk_namespace key) # dk_segments key"

section \<open>Records on disk\<close>

datatype journal_phase = Prepared | Committed

datatype journal_kind = KindCommit | KindPromotePrevious

record journal_member =
  jm_name :: ustr
  jm_digest :: ustr
  jm_byte_len :: nat
  jm_revision_digest :: ustr

record dataset_journal =
  dj_nonce :: ustr
  dj_kind :: journal_kind
  dj_old_revision :: ustr
  dj_new_revision :: ustr
  dj_members :: "journal_member list"
  dj_phase :: journal_phase

record manifest_member_record =
  mm_name :: ustr
  mm_byte_len :: nat
  mm_revision_digest :: ustr
  mm_content_digest :: ustr

record manifest_record =
  mr_revision :: ustr
  mr_members :: "ustr list"
  mr_evidence :: "manifest_member_record list"

record host =
  h_sha256 :: "bytes \<Rightarrow> bytes"
  h_encode_manifest :: "manifest_record \<Rightarrow> bytes"
  h_decode_manifest :: "bytes \<Rightarrow> manifest_record option"
  h_encode_journal :: "dataset_journal \<Rightarrow> bytes"
  h_decode_journal :: "bytes \<Rightarrow> dataset_journal option"
  h_uuid :: ustr

section \<open>Digests\<close>

primrec le_bytes :: "nat \<Rightarrow> nat \<Rightarrow> bytes" where
  "le_bytes 0 n = []"
| "le_bytes (Suc k) n = n mod 256 # le_bytes k (n div 256)"

text \<open>\<open>(n as u64).to_le_bytes()\<close>\<close>

definition le64 :: "nat \<Rightarrow> bytes" where
  "le64 n = le_bytes 8 n"

definition member_bytes_domain :: bytes where
  "member_bytes_domain = lit ''aemeath.storage.dataset.member.bytes.v1'' @ [0]"

definition revision_domain :: bytes where
  "revision_domain = lit ''aemeath.storage.dataset.revision.v1'' @ [0]"

definition member_digest_domain :: bytes where
  "member_digest_domain = lit ''aemeath.storage.dataset.member.digest.v1'' @ [0]"

definition revision_member_digest :: "host \<Rightarrow> bytes \<Rightarrow> bytes" where
  "revision_member_digest h b = h_sha256 h (member_bytes_domain @ le64 (length b) @ b)"

type_synonym evidence = "ustr \<times> nat \<times> bytes"

definition evidence_bytes :: "evidence \<Rightarrow> bytes" where
  "evidence_bytes e = (case e of (name, byte_len, digest) \<Rightarrow>
     le64 (length name) @ name @ le64 byte_len @ digest)"

definition revision_preimage :: "evidence list \<Rightarrow> bytes" where
  "revision_preimage members =
     (let ordered = sort_key fst members
      in revision_domain @ le64 (length ordered) @ concat (map evidence_bytes ordered))"

definition from_member_digests :: "host \<Rightarrow> evidence list \<Rightarrow> bytes" where
  "from_member_digests h members = h_sha256 h (revision_preimage members)"

text \<open>\<open>format!("{byte:02x}")\<close>\<close>

definition hex_digit :: "nat \<Rightarrow> nat" where
  "hex_digit d = (if d < 10 then 48 + d else 87 + d)"

definition encode_revision :: "bytes \<Rightarrow> ustr" where
  "encode_revision b = concat (map (\<lambda>x. [hex_digit (x div 16), hex_digit (x mod 16)]) b)"

definition digest_bytes :: "host \<Rightarrow> bytes \<Rightarrow> ustr" where
  "digest_bytes h b = encode_revision (h_sha256 h (member_digest_domain @ le64 (length b) @ b))"

definition revision_member_digest_hex :: "host \<Rightarrow> bytes \<Rightarrow> ustr" where
  "revision_member_digest_hex h b = encode_revision (revision_member_digest h b)"

text \<open>
  \<open>u8::from_str_radix\<close> on two bytes takes a sign. Slicing a string inside a character panics, which a
  window that starts or ends before a continuation byte does.
\<close>

definition hex_value :: "nat \<Rightarrow> nat option" where
  "hex_value c =
     (if 48 \<le> c \<and> c \<le> 57 then Some (c - 48)
      else if 97 \<le> c \<and> c \<le> 102 then Some (c - 87)
      else if 65 \<le> c \<and> c \<le> 70 then Some (c - 55) else None)"

definition radix_pair :: "nat \<Rightarrow> nat \<Rightarrow> nat option" where
  "radix_pair a b =
     (if a = 43 then hex_value b
      else case (hex_value a, hex_value b) of (Some x, Some y) \<Rightarrow> Some (16 * x + y) | _ \<Rightarrow> None)"

definition is_continuation :: "nat \<Rightarrow> bool" where
  "is_continuation c \<longleftrightarrow> 128 \<le> c \<and> c < 192"

fun decode_pairs :: "ustr \<Rightarrow> (storage_error, bytes) outcome" where
  "decode_pairs (a # b # rest) =
     (if is_continuation a \<or> (rest \<noteq> [] \<and> is_continuation (hd rest)) then Panic
      else case radix_pair a b of
        None \<Rightarrow> Err StorageIo
      | Some v \<Rightarrow> map_ok (\<lambda>vs. v # vs) (decode_pairs rest))"
| "decode_pairs _ = Ok []"

definition decode_revision :: "ustr \<Rightarrow> (storage_error, bytes) outcome" where
  "decode_revision hex = (if length hex \<noteq> 64 then Err StorageIo else decode_pairs hex)"

definition is_hex64 :: "ustr \<Rightarrow> bool" where
  "is_hex64 s \<longleftrightarrow> length s = 64 \<and> list_all (\<lambda>c. hex_value c \<noteq> None) s"

section \<open>Members, references and changes\<close>

record dataset_member =
  me_name :: ustr
  me_bytes :: bytes

record member_reference =
  rf_source_revision :: bytes
  rf_name :: ustr
  rf_byte_len :: nat
  rf_member_digest :: bytes

definition matches_bytes :: "host \<Rightarrow> member_reference \<Rightarrow> bytes \<Rightarrow> bool" where
  "matches_bytes h r b \<longleftrightarrow> rf_byte_len r = length b \<and> rf_member_digest r = revision_member_digest h b"

fun adjacent_equal :: "'a list \<Rightarrow> bool" where
  "adjacent_equal (x # y # xs) = (x = y \<or> adjacent_equal (y # xs))"
| "adjacent_equal _ = False"

record change_set =
  ch_expected :: bytes
  ch_new :: "dataset_member list"
  ch_reused :: "member_reference list"
  ch_removed :: "ustr list"

definition change_set_new ::
  "bytes \<Rightarrow> dataset_member list \<Rightarrow> member_reference list \<Rightarrow> (storage_error, change_set) outcome" where
  "change_set_new expected new_members reused =
     (let new_members = sort_key me_name new_members; reused = sort_key rf_name reused;
          names = sort (map me_name new_members @ map rf_name reused)
      in if adjacent_equal names then Err InvalidKey
         else if list_ex (\<lambda>m. rf_source_revision m \<noteq> expected) reused then Err InvalidKey
         else Ok \<lparr>ch_expected = expected, ch_new = new_members, ch_reused = reused, ch_removed = []\<rparr>)"

definition reject_duplicate_names :: "ustr list \<Rightarrow> (storage_error, unit) outcome" where
  "reject_duplicate_names names = (if adjacent_equal names then Err InvalidKey else Ok ())"

definition target_names :: "change_set \<Rightarrow> ustr list" where
  "target_names c = map me_name (ch_new c) @ map rf_name (ch_reused c)"

definition with_removed_members ::
  "ustr list \<Rightarrow> change_set \<Rightarrow> (storage_error, change_set) outcome" where
  "with_removed_members removed c =
     (let removed = sort removed
      in guard_ok (reject_duplicate_names removed)
        (if list_ex (\<lambda>n. n \<in> set (target_names c)) removed then Err InvalidKey
         else Ok (c\<lparr>ch_removed := removed\<rparr>)))"

section \<open>Manifests and reads\<close>

record manifest_data =
  md_revision :: bytes
  md_members :: "ustr list"
  md_evidence :: "member_reference list"

definition canonicalize_members ::
  "dataset_member list \<Rightarrow> (storage_error, dataset_member list) outcome" where
  "canonicalize_members members =
     (let members = sort_key me_name members
      in if adjacent_equal (map me_name members) then Err InvalidKey else Ok members)"

definition member_evidence_of :: "host \<Rightarrow> dataset_member \<Rightarrow> evidence" where
  "member_evidence_of h m = (me_name m, length (me_bytes m), revision_member_digest h (me_bytes m))"

definition from_canonical_members :: "host \<Rightarrow> dataset_member list \<Rightarrow> bytes" where
  "from_canonical_members h members = from_member_digests h (map (member_evidence_of h) members)"

definition manifest_new :: "host \<Rightarrow> dataset_member list \<Rightarrow> (storage_error, manifest_data) outcome" where
  "manifest_new h members =
     map_ok (\<lambda>members.
       (let revision = from_canonical_members h members
        in \<lparr>md_revision = revision, md_members = map me_name members,
            md_evidence = map (\<lambda>m. \<lparr>rf_source_revision = revision, rf_name = me_name m,
              rf_byte_len = length (me_bytes m),
              rf_member_digest = revision_member_digest h (me_bytes m)\<rparr>) members\<rparr>))
     (canonicalize_members members)"

definition from_verified_members ::
  "bytes \<Rightarrow> member_reference list \<Rightarrow> (storage_error, manifest_data) outcome" where
  "from_verified_members revision evidence =
     (let evidence = sort_key rf_name evidence; members = map rf_name evidence
      in guard_ok (reject_duplicate_names members)
        (if list_ex (\<lambda>m. rf_source_revision m \<noteq> revision) evidence then Err InvalidKey
         else Ok \<lparr>md_revision = revision, md_members = members, md_evidence = evidence\<rparr>))"

text \<open>A binary search in a slice that is sorted without duplicates finds the one match.\<close>

definition member_evidence :: "manifest_data \<Rightarrow> ustr \<Rightarrow> member_reference option" where
  "member_evidence m name = List.find (\<lambda>r. rf_name r = name) (md_evidence m)"

definition omitted_members :: "manifest_data \<Rightarrow> manifest_data \<Rightarrow> ustr list" where
  "omitted_members m replacement = filter (\<lambda>n. n \<notin> set (md_members replacement)) (md_members m)"

record read_data =
  rd_revision :: bytes
  rd_members :: "dataset_member list"

definition read_data_new ::
  "bytes \<Rightarrow> dataset_member list \<Rightarrow> (storage_error, read_data) outcome" where
  "read_data_new revision members =
     map_ok (\<lambda>ms. \<lparr>rd_revision = revision, rd_members = ms\<rparr>) (canonicalize_members members)"

datatype read_outcome = Found read_data | Missing

datatype visibility = Visible | RecoveryPending

record commit_receipt =
  cr_revision :: bytes
  cr_visibility :: visibility

record delete_outcome =
  do_primary :: bool
  do_previous :: bool
  do_quarantine :: bool

record quarantine_receipt =
  qr_id :: ustr
  qr_generation :: generation_kind
  qr_scope :: transaction_scope
  qr_reason :: quarantine_reason

datatype quarantine_outcome =
    Moved quarantine_receipt
  | AlreadyAbsent generation_kind transaction_scope quarantine_reason

end
