(* ===== verification/Dataset_Protocol.thy ===== *)
theory Dataset_Protocol
  imports Dataset_Model
begin

text \<open>
  The file utilities of \<open>adapters/dataset_protocol.rs\<close> and the error maps of \<open>adapters/error_map.rs\<close>, over
  the handle of one dataset directory.
\<close>

section \<open>Names\<close>

definition lock_file :: ustr where "lock_file = lit ''dataset.lock''"
definition journal_file :: ustr where "journal_file = lit ''journal.json''"
definition manifest_file :: ustr where "manifest_file = lit ''manifest.json''"
definition blobs_dir :: ustr where "blobs_dir = lit ''blobs''"
definition members_dir :: ustr where "members_dir = lit ''members''"
definition primary_dir :: ustr where "primary_dir = lit ''primary''"
definition previous_dir :: ustr where "previous_dir = lit ''previous''"
definition previous_next_dir :: ustr where "previous_next_dir = lit ''previous.next''"
definition corruption_marker :: ustr where "corruption_marker = lit ''corruption.marker''"

definition stage_prefix :: ustr where "stage_prefix = lit ''.stage-''"
definition swap_prefix :: ustr where "swap_prefix = lit ''.swap-''"
definition journal_prefix :: ustr where "journal_prefix = lit ''.journal-''"
definition manifest_prefix :: ustr where "manifest_prefix = lit ''.manifest-''"
definition corrupt_infix :: ustr where "corrupt_infix = lit ''.corrupt.''"

lemmas file_names =
  lock_file_def journal_file_def manifest_file_def blobs_dir_def members_dir_def primary_dir_def
  previous_dir_def previous_next_dir_def corruption_marker_def stage_prefix_def swap_prefix_def
  journal_prefix_def manifest_prefix_def corrupt_infix_def

fun has_part :: "'a list \<Rightarrow> 'a list \<Rightarrow> bool" where
  "has_part pat [] = (pat = [])"
| "has_part pat (x # xs) = (under pat (x # xs) \<or> has_part pat xs)"

section \<open>Errors\<close>

definition map_io :: "io_kind \<Rightarrow> storage_error" where
  "map_io k = (if k = IoDenied then PermissionDenied else StorageIo)"

definition map_lock_io :: "io_kind \<Rightarrow> storage_error" where
  "map_lock_io k = StorageIo"

definition map_sync :: "io_kind \<Rightarrow> storage_error" where
  "map_sync k = UnsupportedDurability"

type_synonym 'a sio = "(storage_error, 'a) io"

definition reject_symlink :: "path \<Rightarrow> unit sio" where
  "reject_symlink p = bind_io (attempt (fs_stat p)) (\<lambda>r.
     case r of
       Inr Link \<Rightarrow> fail InvalidKey
     | Inr _ \<Rightarrow> ret ()
     | Inl IoNotFound \<Rightarrow> ret ()
     | Inl k \<Rightarrow> fail (map_io k))"

definition exists_io :: "path \<Rightarrow> bool sio" where
  "exists_io p = bind_io (attempt (fs_stat p)) (\<lambda>r.
     case r of
       Inr Link \<Rightarrow> fail InvalidKey
     | Inr _ \<Rightarrow> ret True
     | Inl IoNotFound \<Rightarrow> ret False
     | Inl k \<Rightarrow> fail (map_io k))"

section \<open>Files\<close>

definition write_new_file :: "path \<Rightarrow> bytes \<Rightarrow> unit sio" where
  "write_new_file p b =
     then_io (reject_symlink p)
    (then_io (map_fail map_io (fs_create_new p))
    (then_io (map_fail map_io (fs_write p b))
             (map_fail map_sync (fs_sync p))))"

definition read_file :: "path \<Rightarrow> bytes option sio" where
  "read_file p =
     then_io (reject_symlink p)
    (bind_io (attempt (fs_read p)) (\<lambda>r.
       case r of
         Inr b \<Rightarrow> ret (Some b)
       | Inl IoNotFound \<Rightarrow> ret None
       | Inl k \<Rightarrow> fail (map_io k)))"

definition rename_io :: "path \<Rightarrow> path \<Rightarrow> unit sio" where
  "rename_io s d = map_fail map_io (fs_rename s d)"

definition create_dir_all :: "path \<Rightarrow> unit sio" where
  "create_dir_all p = map_fail map_io (fs_create_dir_all p)"

definition remove_dir_all :: "path \<Rightarrow> unit sio" where
  "remove_dir_all p = map_fail map_io (fs_remove_dir_all p)"

definition sync_dir :: "unit sio" where
  "sync_dir = then_io (map_fail map_sync (fs_open [])) (map_fail map_sync (fs_sync []))"

definition sync_subdir :: "path \<Rightarrow> unit sio" where
  "sync_subdir p =
     then_io (reject_symlink p)
    (bind_io (attempt (fs_open p)) (\<lambda>r.
       case r of
         Inr _ \<Rightarrow> map_fail map_sync (fs_sync p)
       | Inl IoNotFound \<Rightarrow> ret ()
       | Inl k \<Rightarrow> fail (map_io k)))"

text \<open>Both records are written beside their place and renamed.\<close>

definition write_beside :: "path \<Rightarrow> path \<Rightarrow> bytes \<Rightarrow> unit sio" where
  "write_beside stage target b =
     then_io (ignore (fs_remove_file stage))
    (then_io (write_new_file stage b)
    (then_io (reject_symlink target)
             (rename_io stage target)))"

definition write_manifest :: "host \<Rightarrow> path \<Rightarrow> manifest_record \<Rightarrow> ustr \<Rightarrow> unit sio" where
  "write_manifest h gen_dir record nonce =
     write_beside (gen_dir @ [manifest_prefix @ nonce]) (gen_dir @ [manifest_file]) (h_encode_manifest h record)"

definition read_manifest :: "host \<Rightarrow> path \<Rightarrow> manifest_record option sio" where
  "read_manifest h gen_dir = bind_io (read_file (gen_dir @ [manifest_file])) (\<lambda>r.
     case r of
       None \<Rightarrow> ret None
     | Some b \<Rightarrow>
         (case h_decode_manifest h b of
            None \<Rightarrow> fail StorageIo
          | Some record \<Rightarrow> ret (Some record)))"

definition write_journal :: "host \<Rightarrow> dataset_journal \<Rightarrow> unit sio" where
  "write_journal h j =
     write_beside [journal_prefix @ dj_nonce j] [journal_file] (h_encode_journal h j)"

text \<open>\<open>Some None\<close> is a journal that cannot be decoded.\<close>

definition read_journal_raw :: "host \<Rightarrow> dataset_journal option option sio" where
  "read_journal_raw h = bind_io (read_file [journal_file]) (\<lambda>r. ret (map_option (h_decode_journal h) r))"

definition remove_journal :: "unit sio" where
  "remove_journal = bind_io (attempt (fs_remove_file [journal_file])) (\<lambda>r.
     case r of
       Inr _ \<Rightarrow> ret ()
     | Inl IoNotFound \<Rightarrow> ret ()
     | Inl k \<Rightarrow> fail (map_io k))"

definition has_corrupt_journal :: "bool sio" where
  "has_corrupt_journal =
     bind_io (map_fail map_io (fs_entries [])) (\<lambda>names.
       ret (list_ex (under (journal_file @ corrupt_infix)) names))"

definition digest_file :: "host \<Rightarrow> path \<Rightarrow> ustr option sio" where
  "digest_file h p = bind_io (read_file p) (\<lambda>r. ret (map_option (digest_bytes h) r))"

section \<open>Structure of a journal\<close>

text \<open>Names in strictly ascending order, each safe, each digest 64 hexadecimal digits.\<close>

fun journal_members_valid :: "ustr option \<Rightarrow> journal_member list \<Rightarrow> bool" where
  "journal_members_valid prev [] = True"
| "journal_members_valid prev (m # ms) =
     (safe_segment (jm_name m) \<and> is_hex64 (jm_digest m) \<and> is_hex64 (jm_revision_digest m) \<and>
      (case prev of None \<Rightarrow> True | Some p \<Rightarrow> p < jm_name m) \<and>
      journal_members_valid (Some (jm_name m)) ms)"

definition validate_journal_structure :: "dataset_journal \<Rightarrow> bool" where
  "validate_journal_structure j \<longleftrightarrow>
     safe_segment (dj_nonce j) \<and> is_hex64 (dj_old_revision j) \<and> is_hex64 (dj_new_revision j) \<and>
     journal_members_valid None (dj_members j)"

section \<open>Records derived from a journal\<close>

definition evidence_record :: "journal_member \<Rightarrow> manifest_member_record" where
  "evidence_record m =
     \<lparr>mm_name = jm_name m, mm_byte_len = jm_byte_len m, mm_revision_digest = jm_revision_digest m,
      mm_content_digest = jm_digest m\<rparr>"

definition manifest_record_from_journal :: "dataset_journal \<Rightarrow> manifest_record" where
  "manifest_record_from_journal j =
     \<lparr>mr_revision = dj_new_revision j, mr_members = map jm_name (dj_members j),
      mr_evidence = map evidence_record (dj_members j)\<rparr>"

definition recompute_revision_hex :: "host \<Rightarrow> journal_member list \<Rightarrow> (storage_error, ustr) outcome" where
  "recompute_revision_hex h members =
     map_ok (\<lambda>digests.
       encode_revision (from_member_digests h
         (map (\<lambda>(m, d). (jm_name m, jm_byte_len m, d)) (zip members digests))))
     (traverse (\<lambda>m. decode_revision (jm_revision_digest m)) members)"

end
