(* ===== verification/Dataset_Recovery.thy ===== *)
theory Dataset_Recovery
  imports Dataset_Protocol
begin

text \<open>
  The recovery half of \<open>FileSystemDatasetAdapter\<close> (\<open>adapters/dataset_filesystem.rs\<close>): quarantine, the
  cleaning of residues, the validation of a journal and rolling it forward. The fault injection points are
  empty outside of tests and left out, and so is logging.
\<close>

section \<open>Quarantine\<close>

definition quarantine_rename :: "path \<Rightarrow> path \<Rightarrow> (unit, bool) io" where
  "quarantine_rename source target = bind_io (attempt (fs_stat source)) (\<lambda>r.
     case r of
       Inr Link \<Rightarrow> fail ()
     | Inr _ \<Rightarrow> then_io (map_fail (\<lambda>_. ()) (fs_rename source target)) (ret True)
     | Inl IoNotFound \<Rightarrow> ret False
     | Inl _ \<Rightarrow> fail ())"

definition write_corruption_marker :: "unit sio" where
  "write_corruption_marker = bind_io (exists_io [corruption_marker]) (\<lambda>e.
     then_io (when_io (\<not> e)
       (write_new_file [corruption_marker] (lit ''aemeath dataset transaction corruption'' @ [10])))
     sync_dir)"

definition is_evidence :: "ustr \<Rightarrow> bool" where
  "is_evidence name \<longleftrightarrow>
     name = previous_next_dir \<or> under stage_prefix name \<or> under swap_prefix name \<or> under journal_prefix name"

text \<open>The journal first, then the other residues, the primary generation last.\<close>

definition quarantine_journal ::
  "ustr \<Rightarrow> bool \<Rightarrow> quarantine_disposition \<Rightarrow> (storage_error, bool \<times> quarantine_disposition) io" where
  "quarantine_journal i present disp =
     (if present then
        bind_io (attempt (quarantine_rename [journal_file] [journal_file @ corrupt_infix @ i])) (\<lambda>r.
          case r of Inr b \<Rightarrow> ret (b, disp) | Inl _ \<Rightarrow> ret (False, QuarantineFailed))
      else ret (False, disp))"

fun quarantine_evidence ::
  "ustr \<Rightarrow> ustr list \<Rightarrow> quarantine_disposition \<Rightarrow> (storage_error, quarantine_disposition) io" where
  "quarantine_evidence i [] disp = ret disp"
| "quarantine_evidence i (n # ns) disp =
     bind_io (attempt (quarantine_rename [n] [n @ corrupt_infix @ i])) (\<lambda>r.
       quarantine_evidence i ns (case r of Inr _ \<Rightarrow> disp | Inl _ \<Rightarrow> QuarantineFailed))"

definition quarantine_primary ::
  "ustr \<Rightarrow> bool \<Rightarrow> quarantine_disposition \<Rightarrow> (storage_error, quarantine_disposition) io" where
  "quarantine_primary i journal_quarantined disp =
     bind_io (attempt (quarantine_rename [primary_dir] [primary_dir @ corrupt_infix @ i])) (\<lambda>r.
       case r of
         Inr _ \<Rightarrow> ret disp
       | Inl _ \<Rightarrow>
           then_io
             (when_io journal_quarantined
               (ignore (fs_rename [journal_file @ corrupt_infix @ i] [journal_file])))
             (ret QuarantineFailed))"

definition fails :: "(io_kind, unit) io \<Rightarrow> (storage_error, bool) io" where
  "fails c = bind_io (attempt c) (\<lambda>r. ret (case r of Inl _ \<Rightarrow> True | Inr _ \<Rightarrow> False))"

definition sync_root :: "(io_kind, unit) io" where
  "sync_root = then_io (fs_open []) (fs_sync [])"

text \<open>Once all evidence is durable the barrier goes: the journal becomes ordinary evidence, the marker is removed.\<close>

definition release_barrier ::
  "ustr \<Rightarrow> bool \<Rightarrow> quarantine_disposition \<Rightarrow> (storage_error, quarantine_disposition) io" where
  "release_barrier i journal_quarantined disp =
     (if disp \<noteq> EvidenceQuarantined then ret disp
      else
        bind_io (if journal_quarantined
                 then fails (fs_rename [journal_file @ corrupt_infix @ i] [lit ''transaction'' @ corrupt_infix @ i])
                 else ret False) (\<lambda>f1.
        if f1 then ret QuarantineFailed else
        bind_io (fails sync_root) (\<lambda>f2.
        if f2 then ret QuarantineFailed else
        bind_io (fails (fs_remove_file [corruption_marker])) (\<lambda>f3.
        if f3 then ret QuarantineFailed else
        bind_io (fails sync_root) (\<lambda>f4.
        ret (if f4 then QuarantineFailed else EvidenceQuarantined))))))"

definition quarantine_corrupt :: "host \<Rightarrow> corruption_reason \<Rightarrow> bool \<Rightarrow> storage_error sio" where
  "quarantine_corrupt h reason include_primary =
     (let i = h_uuid h in
      bind_io (attempt (fs_entries [])) (\<lambda>r.
      let names = (case r of Inr ns \<Rightarrow> filter (\<lambda>n. \<not> has_part corrupt_infix n) ns | Inl _ \<Rightarrow> []);
          disp = (case r of Inr _ \<Rightarrow> EvidenceQuarantined | Inl _ \<Rightarrow> QuarantineFailed);
          present = journal_file \<in> set names;
          evidence = filter (\<lambda>n. n \<noteq> journal_file \<and> is_evidence n) names
      in bind_io (attempt write_corruption_marker) (\<lambda>w.
      case w of
        Inl _ \<Rightarrow> ret (CorruptTransaction ScopeDataset reason QuarantineFailed)
      | Inr _ \<Rightarrow>
          bind_io (quarantine_journal i present disp) (\<lambda>(jq, disp).
          bind_io (quarantine_evidence i evidence disp) (\<lambda>disp.
          bind_io (if include_primary then quarantine_primary i jq disp else ret disp) (\<lambda>disp.
          bind_io (release_barrier i jq disp) (\<lambda>disp.
          then_io (ignore sync_root)
            (ret (CorruptTransaction ScopeDataset reason disp)))))))))"

text \<open>\<open>return Err(self.quarantine_corrupt(..))\<close>\<close>

definition refuse :: "host \<Rightarrow> corruption_reason \<Rightarrow> bool \<Rightarrow> 'a sio" where
  "refuse h reason include_primary = bind_io (quarantine_corrupt h reason include_primary) fail"

definition corrupt_journal_barrier_error :: storage_error where
  "corrupt_journal_barrier_error = CorruptTransaction ScopeDataset InvalidJournal EvidenceQuarantined"

definition corruption_marker_error :: storage_error where
  "corruption_marker_error = CorruptTransaction ScopeDataset DatasetMemberDigestMismatch QuarantineFailed"

definition dataset_member_mismatch :: storage_error where
  "dataset_member_mismatch = CorruptTransaction ScopeDataset DatasetMemberDigestMismatch EvidenceQuarantined"

section \<open>Residues\<close>

definition is_transient :: "ustr \<Rightarrow> bool" where
  "is_transient name \<longleftrightarrow>
     \<not> has_part corrupt_infix name \<and>
     (under stage_prefix name \<or> under swap_prefix name \<or> under journal_prefix name)"

definition remove_transient :: "ustr \<Rightarrow> unit sio" where
  "remove_transient name = bind_io (attempt (fs_remove_dir_all [name])) (\<lambda>r.
     case r of Inr _ \<Rightarrow> ret () | Inl _ \<Rightarrow> ignore (fs_remove_file [name]))"

definition remove_transients :: "bool sio" where
  "remove_transients = bind_io (map_fail map_io (fs_entries [])) (\<lambda>names.
     let transient = filter is_transient names
     in then_io (each remove_transient transient) (ret (transient \<noteq> [])))"

definition cleanup_orphans :: "unit sio" where
  "cleanup_orphans =
     bind_io remove_transients (\<lambda>removed.
     bind_io (exists_io [previous_next_dir]) (\<lambda>next.
     then_io (when_io next (remove_dir_all [previous_next_dir]))
             (when_io (removed \<or> next) sync_dir)))"

definition generation_references :: "host \<Rightarrow> ustr \<Rightarrow> ustr list sio" where
  "generation_references h gen = bind_io (read_manifest h [gen]) (\<lambda>r.
     ret (case r of
       None \<Rightarrow> []
     | Some record \<Rightarrow> filter (\<lambda>d. d \<noteq> []) (map mm_content_digest (mr_evidence record))))"

fun collect_members :: "ustr list \<Rightarrow> ustr list \<Rightarrow> nat sio" where
  "collect_members referenced [] = ret 0"
| "collect_members referenced (n # ns) =
     bind_io (map_fail map_io (fs_stat [members_dir, n])) (\<lambda>e.
       case e of
         File _ \<Rightarrow>
           if n \<in> set referenced then collect_members referenced ns
           else then_io (map_fail map_io (fs_remove_file [members_dir, n]))
                  (bind_io (collect_members referenced ns) (\<lambda>k. ret (Suc k)))
       | _ \<Rightarrow> collect_members referenced ns)"

definition collect_orphan_member_content :: "host \<Rightarrow> nat sio" where
  "collect_orphan_member_content h =
     bind_io (generation_references h primary_dir) (\<lambda>a.
     bind_io (generation_references h previous_dir) (\<lambda>b.
     bind_io (exists_io [members_dir]) (\<lambda>e.
     if \<not> e then ret 0 else
     then_io (map_fail map_io (fs_open_dir [members_dir]))
    (bind_io (map_fail map_io (fs_entries [members_dir])) (\<lambda>names.
     bind_io (collect_members (a @ b) names) (\<lambda>removed.
     then_io (when_io (removed > 0) (sync_subdir [members_dir])) (ret removed)))))))"

definition collect_orphan_member_content_best_effort :: "host \<Rightarrow> unit sio" where
  "collect_orphan_member_content_best_effort h = ignore (collect_orphan_member_content h)"

definition finalize_previous_swap :: "unit sio" where
  "finalize_previous_swap =
     bind_io (exists_io [previous_next_dir]) (\<lambda>next.
     when_io next
       (bind_io (exists_io [previous_dir]) (\<lambda>prev.
        then_io (when_io prev (remove_dir_all [previous_dir]))
                (rename_io [previous_next_dir] [previous_dir]))))"

definition remove_legacy_generation_blobs :: "unit sio" where
  "remove_legacy_generation_blobs =
     each (\<lambda>gen. bind_io (exists_io [gen, blobs_dir]) (\<lambda>e. when_io e (remove_dir_all [gen, blobs_dir])))
       [primary_dir, previous_dir]"

definition validate_shared_member :: "host \<Rightarrow> manifest_member_record \<Rightarrow> unit sio" where
  "validate_shared_member h m =
     (if mm_content_digest m = [] then fail dataset_member_mismatch
      else bind_io (read_file [members_dir, mm_content_digest m]) (\<lambda>r.
        bind_io (from_option dataset_member_mismatch r) (\<lambda>b.
        if digest_bytes h b \<noteq> mm_content_digest m \<or> length b \<noteq> mm_byte_len m \<or>
           revision_member_digest_hex h b \<noteq> mm_revision_digest m
        then fail dataset_member_mismatch else ret ())))"

definition validate_shared_generation :: "host \<Rightarrow> manifest_record \<Rightarrow> unit sio" where
  "validate_shared_generation h record = each (validate_shared_member h) (mr_evidence record)"

section \<open>Rolling a commit forward\<close>

definition generation_revision :: "host \<Rightarrow> ustr \<Rightarrow> ustr option sio" where
  "generation_revision h gen = bind_io (read_manifest h [gen]) (\<lambda>r. ret (map_option mr_revision r))"

definition stage_dir :: "ustr \<Rightarrow> ustr" where
  "stage_dir nonce = stage_prefix @ nonce"

definition swap_dir :: "ustr \<Rightarrow> ustr" where
  "swap_dir nonce = swap_prefix @ nonce"

text \<open>The bytes of one member of the journal, and whether they come from the shared store.\<close>

definition journal_member_content :: "host \<Rightarrow> ustr \<Rightarrow> journal_member \<Rightarrow> (bytes \<times> bool) sio" where
  "journal_member_content h nonce m =
     bind_io (read_file [stage_dir nonce, members_dir, jm_digest m]) (\<lambda>staged.
       case staged of
         Some b \<Rightarrow> ret (b, False)
       | None \<Rightarrow>
           bind_io (read_file [members_dir, jm_digest m]) (\<lambda>stored.
             case stored of
               Some b \<Rightarrow> ret (b, True)
             | None \<Rightarrow> refuse h DatasetMemberDigestMismatch False))"

definition journal_member_evidence :: "host \<Rightarrow> ustr \<Rightarrow> journal_member \<Rightarrow> evidence sio" where
  "journal_member_evidence h nonce m =
     bind_io (journal_member_content h nonce m) (\<lambda>(b, from_shared).
       if digest_bytes h b \<noteq> jm_digest m then refuse h DatasetMemberDigestMismatch from_shared
       else if length b \<noteq> jm_byte_len m \<or> revision_member_digest_hex h b \<noteq> jm_revision_digest m
       then refuse h InvalidJournal False
       else ret (jm_name m, length b, revision_member_digest h b))"

definition validate_commit_journal_semantics :: "host \<Rightarrow> dataset_journal \<Rightarrow> unit sio" where
  "validate_commit_journal_semantics h j =
     bind_io (gather (journal_member_evidence h (dj_nonce j)) (dj_members j)) (\<lambda>actual.
     if encode_revision (from_member_digests h actual) \<noteq> dj_new_revision j then refuse h InvalidJournal False
     else
       bind_io (generation_revision h primary_dir) (\<lambda>primary.
       bind_io (generation_revision h previous_next_dir) (\<lambda>next.
       if (primary = None \<and> next = None) \<or> primary = Some (dj_old_revision j)
          \<or> next = Some (dj_old_revision j) \<or> primary = Some (dj_new_revision j)
       then ret () else refuse h InvalidJournal False)))"

definition publish_journal_member :: "host \<Rightarrow> ustr \<Rightarrow> journal_member \<Rightarrow> unit sio" where
  "publish_journal_member h nonce m =
     bind_io (exists_io [members_dir, jm_digest m]) (\<lambda>stored.
     if stored then ret ()
     else bind_io (digest_file h [stage_dir nonce, members_dir, jm_digest m]) (\<lambda>digest.
       if digest \<noteq> Some (jm_digest m) then refuse h DatasetMemberDigestMismatch False
       else rename_io [stage_dir nonce, members_dir, jm_digest m] [members_dir, jm_digest m]))"

text \<open>The second half of a commit, from the primary manifest on: shared with the commit itself.\<close>

definition publish_primary ::
  "host \<Rightarrow> manifest_record \<Rightarrow> dataset_journal \<Rightarrow> unit sio" where
  "publish_primary h record j =
     then_io (write_manifest h [primary_dir] record (dj_nonce j))
    (then_io (sync_subdir [primary_dir])
    (then_io sync_dir
    (then_io (validate_shared_generation h record)
    (then_io (write_journal h (j\<lparr>dj_phase := Committed\<rparr>))
    (then_io sync_dir
    (then_io finalize_previous_swap
    (then_io remove_legacy_generation_blobs
    (then_io sync_dir
    (then_io (ignore (fs_remove_dir_all [stage_dir (dj_nonce j)]))
             remove_journal)))))))))"

definition roll_forward_commit :: "host \<Rightarrow> dataset_journal \<Rightarrow> unit sio" where
  "roll_forward_commit h j =
     then_io (validate_commit_journal_semantics h j)
    (then_io (create_dir_all [members_dir])
    (then_io (each (publish_journal_member h (dj_nonce j)) (dj_members j))
    (then_io (sync_subdir [stage_dir (dj_nonce j), members_dir])
    (then_io (sync_subdir [members_dir])
    (then_io (publish_primary h (manifest_record_from_journal j) j)
    (then_io remove_transients
             sync_dir))))))"

section \<open>Rolling a promotion forward\<close>

definition validate_journal_member_in :: "host \<Rightarrow> ustr \<Rightarrow> manifest_record \<Rightarrow> journal_member \<Rightarrow> unit sio" where
  "validate_journal_member_in h gen record m =
     (case List.find (\<lambda>r. mm_name r = jm_name m) (mr_evidence record) of
        None \<Rightarrow> refuse h DatasetMemberDigestMismatch (gen = primary_dir)
      | Some r \<Rightarrow>
          bind_io (read_file
            (if mm_content_digest r = [] then [gen, blobs_dir, jm_name m] else [members_dir, mm_content_digest r])) (\<lambda>c.
          case c of
            None \<Rightarrow> refuse h DatasetMemberDigestMismatch (gen = primary_dir)
          | Some b \<Rightarrow>
              if digest_bytes h b \<noteq> jm_digest m \<or> length b \<noteq> jm_byte_len m \<or>
                 revision_member_digest_hex h b \<noteq> jm_revision_digest m
              then refuse h DatasetMemberDigestMismatch (gen = primary_dir) else ret ()))"

definition validate_generation_against_journal :: "host \<Rightarrow> ustr \<Rightarrow> dataset_journal \<Rightarrow> unit sio" where
  "validate_generation_against_journal h gen j =
     bind_io (read_manifest h [gen]) (\<lambda>r.
       case r of
         None \<Rightarrow> refuse h DatasetMemberDigestMismatch (gen = primary_dir)
       | Some record \<Rightarrow>
           if mr_members record \<noteq> map jm_name (dj_members j)
           then refuse h DatasetMemberDigestMismatch (gen = primary_dir)
           else each (validate_journal_member_in h gen record) (dj_members j))"

definition slot_revision :: "host \<Rightarrow> ustr \<Rightarrow> (ustr \<times> ustr) list sio" where
  "slot_revision h gen = bind_io (generation_revision h gen) (\<lambda>r.
     ret (case r of None \<Rightarrow> [] | Some v \<Rightarrow> [(gen, v)]))"

definition validate_promote_journal_semantics :: "host \<Rightarrow> dataset_journal \<Rightarrow> unit sio" where
  "validate_promote_journal_semantics h j =
     bind_io (lift_outcome (recompute_revision_hex h (dj_members j))) (\<lambda>recomputed.
     if recomputed \<noteq> dj_new_revision j then refuse h InvalidJournal False
     else
       bind_io (gather (slot_revision h) [primary_dir, previous_dir, swap_dir (dj_nonce j)]) (\<lambda>slots.
       let present = concat slots; old = dj_old_revision j; new = dj_new_revision j
       in if \<not> (list_ex (\<lambda>(_, v). v = old) present \<and> list_ex (\<lambda>(_, v). v = new) present \<and>
                list_all (\<lambda>(_, v). v = old \<or> v = new) present)
          then refuse h InvalidJournal False
          else case List.find (\<lambda>(_, v). v = new) present of
            None \<Rightarrow> stop
          | Some (gen, _) \<Rightarrow> validate_generation_against_journal h gen j))"

definition rename_and_sync :: "path \<Rightarrow> path \<Rightarrow> unit sio" where
  "rename_and_sync s d = then_io (rename_io s d) sync_dir"

definition advance_promote_swap :: "host \<Rightarrow> dataset_journal \<Rightarrow> unit sio" where
  "advance_promote_swap h j =
     (let swap = swap_dir (dj_nonce j) in
      bind_io (exists_io [swap]) (\<lambda>swap_exists.
      bind_io (exists_io [primary_dir]) (\<lambda>primary_exists.
      if \<not> swap_exists then
        bind_io (generation_revision h primary_dir) (\<lambda>primary_rev.
        if primary_rev = Some (dj_new_revision j) then ret ()
        else
          then_io (when_io primary_exists
            (then_io (reject_symlink [swap]) (rename_and_sync [primary_dir] [swap])))
         (then_io (rename_and_sync [previous_dir] [primary_dir])
         (bind_io (exists_io [swap]) (\<lambda>e. when_io e (rename_and_sync [swap] [previous_dir])))))
      else if primary_exists then rename_and_sync [swap] [previous_dir]
      else then_io (rename_and_sync [previous_dir] [primary_dir])
                   (rename_and_sync [swap] [previous_dir]))))"

definition roll_forward_promote :: "host \<Rightarrow> dataset_journal \<Rightarrow> unit sio" where
  "roll_forward_promote h j =
     then_io (validate_promote_journal_semantics h j)
    (then_io (advance_promote_swap h j)
    (then_io sync_dir
    (then_io remove_transients
    (then_io remove_journal
             sync_dir))))"

section \<open>Recovery\<close>

definition recover :: "host \<Rightarrow> unit sio" where
  "recover h =
     bind_io (exists_io [corruption_marker]) (\<lambda>marker.
     if marker then fail corruption_marker_error else
     bind_io has_corrupt_journal (\<lambda>barrier.
     if barrier then fail corrupt_journal_barrier_error else
     bind_io (read_journal_raw h) (\<lambda>raw.
     case raw of
       None \<Rightarrow> cleanup_orphans
     | Some None \<Rightarrow> refuse h InvalidJournal False
     | Some (Some j) \<Rightarrow>
         if \<not> validate_journal_structure j then refuse h InvalidJournal False
         else case dj_kind j of
           KindCommit \<Rightarrow> roll_forward_commit h j
         | KindPromotePrevious \<Rightarrow> roll_forward_promote h j)))"

end
