(* ===== verification/Dataset_Adapter.thy ===== *)
theory Dataset_Adapter
  imports Dataset_Recovery
begin

text \<open>
  The operations of \<open>FileSystemDatasetAdapter\<close> (\<open>adapters/dataset_filesystem.rs\<close>): reading a generation,
  committing, promoting the previous generation, quarantine and deletion, and the port
  \<open>AtomicDatasetPort\<close>. The lock of a dataset makes its operations sequential.
\<close>

section \<open>Reading\<close>

definition legacy_reference :: "host \<Rightarrow> ustr \<Rightarrow> bytes \<Rightarrow> ustr \<Rightarrow> member_reference sio" where
  "legacy_reference h gen revision name =
     bind_io (lift_outcome (parse_segment name)) (\<lambda>safe_name.
     bind_io (read_file [gen, blobs_dir, name]) (\<lambda>r.
     bind_io (from_option StorageIo r) (\<lambda>b.
     ret \<lparr>rf_source_revision = revision, rf_name = safe_name, rf_byte_len = length b,
          rf_member_digest = revision_member_digest h b\<rparr>)))"

definition recorded_reference ::
  "bytes \<Rightarrow> manifest_member_record \<Rightarrow> (storage_error, member_reference) outcome" where
  "recorded_reference revision m =
     (case parse_segment (mm_name m) of
        Ok name \<Rightarrow>
          map_ok (\<lambda>digest. \<lparr>rf_source_revision = revision, rf_name = name, rf_byte_len = mm_byte_len m,
                            rf_member_digest = digest\<rparr>)
            (decode_revision (mm_revision_digest m))
      | Err e \<Rightarrow> Err e
      | Panic \<Rightarrow> Panic)"

definition manifest_from_record :: "host \<Rightarrow> ustr \<Rightarrow> manifest_record \<Rightarrow> manifest_data sio" where
  "manifest_from_record h gen record =
     bind_io (lift_outcome (decode_revision (mr_revision record))) (\<lambda>revision.
     bind_io (if mr_evidence record = [] \<and> mr_members record \<noteq> []
              then gather (legacy_reference h gen revision) (mr_members record)
              else lift_outcome (traverse (recorded_reference revision) (mr_evidence record))) (\<lambda>evidence.
     bind_io (lift_outcome (from_verified_members revision evidence)) (\<lambda>manifest.
     bind_io (lift_outcome (traverse parse_segment (mr_members record))) (\<lambda>names.
     if md_members manifest \<noteq> names then fail StorageIo else ret manifest))))"

definition current_manifest :: "host \<Rightarrow> manifest_data sio" where
  "current_manifest h = bind_io (read_manifest h [primary_dir]) (\<lambda>r.
     case r of
       Some record \<Rightarrow> manifest_from_record h primary_dir record
     | None \<Rightarrow> lift_outcome (manifest_new h []))"

definition legacy_layout :: "manifest_record \<Rightarrow> bool" where
  "legacy_layout record \<longleftrightarrow>
     mr_members record \<noteq> [] \<and>
     (mr_evidence record = [] \<or> list_all (\<lambda>m. mm_content_digest m = []) (mr_evidence record))"

definition member_record :: "manifest_record \<Rightarrow> ustr \<Rightarrow> manifest_member_record option" where
  "member_record record name = List.find (\<lambda>m. mm_name m = name) (mr_evidence record)"

text \<open>\<open>None\<close>: the whole read returns \<open>NotFound\<close>.\<close>

definition read_member :: "host \<Rightarrow> ustr \<Rightarrow> manifest_record \<Rightarrow> ustr \<Rightarrow> dataset_member option sio" where
  "read_member h gen record name =
     (if legacy_layout record then
        (if name \<notin> set (mr_members record) then ret None
         else bind_io (read_file [gen, blobs_dir, name]) (\<lambda>r.
           ret (map_option (\<lambda>b. \<lparr>me_name = name, me_bytes = b\<rparr>) r)))
      else case member_record record name of
        None \<Rightarrow> ret None
      | Some m \<Rightarrow>
          bind_io (read_file [members_dir, mm_content_digest m]) (\<lambda>r.
          case r of
            None \<Rightarrow> ret None
          | Some b \<Rightarrow>
              if digest_bytes h b \<noteq> mm_content_digest m then fail dataset_member_mismatch
              else ret (Some \<lparr>me_name = name, me_bytes = b\<rparr>)))"

fun read_members ::
  "host \<Rightarrow> ustr \<Rightarrow> manifest_record \<Rightarrow> ustr list \<Rightarrow> dataset_member list option sio" where
  "read_members h gen record [] = ret (Some [])"
| "read_members h gen record (n # ns) =
     bind_io (read_member h gen record n) (\<lambda>r.
       case r of
         None \<Rightarrow> ret None
       | Some m \<Rightarrow> bind_io (read_members h gen record ns) (\<lambda>rs. ret (map_option (\<lambda>ms. m # ms) rs)))"

definition read_generation :: "host \<Rightarrow> ustr \<Rightarrow> ustr list \<Rightarrow> read_outcome sio" where
  "read_generation h gen members =
     bind_io (read_manifest h [gen]) (\<lambda>r.
     case r of
       None \<Rightarrow> ret Missing
     | Some record \<Rightarrow>
         bind_io (lift_outcome (decode_revision (mr_revision record))) (\<lambda>revision.
         bind_io (read_members h gen record members) (\<lambda>result.
         case result of
           None \<Rightarrow> ret Missing
         | Some ms \<Rightarrow> bind_io (lift_outcome (read_data_new revision ms)) (\<lambda>d. ret (Found d)))))"

section \<open>Committing\<close>

definition stage_previous_manifest :: "unit sio" where
  "stage_previous_manifest =
     bind_io (exists_io [previous_next_dir]) (\<lambda>next.
     then_io (when_io next (then_io (remove_dir_all [previous_next_dir]) sync_dir))
    (bind_io (read_file [primary_dir, manifest_file]) (\<lambda>r.
     case r of
       None \<Rightarrow> sync_dir
     | Some b \<Rightarrow>
         then_io (create_dir_all [previous_next_dir])
        (then_io (write_new_file [previous_next_dir, manifest_file] b)
        (then_io (sync_subdir [previous_next_dir])
                 sync_dir)))))"

definition stage_member :: "host \<Rightarrow> ustr \<Rightarrow> ustr list \<Rightarrow> dataset_member \<Rightarrow> unit sio" where
  "stage_member h nonce existing m =
     (let digest = digest_bytes h (me_bytes m) in
      bind_io (exists_io [members_dir, digest]) (\<lambda>stored.
      when_io (\<not> stored \<and> digest \<notin> set existing)
        (write_new_file [stage_dir nonce, members_dir, digest] (me_bytes m))))"

text \<open>Up to the logical point of commit: the journal is in place and flushed.\<close>

definition prepare_commit ::
  "host \<Rightarrow> ustr list \<Rightarrow> dataset_member list \<Rightarrow> manifest_record \<Rightarrow> dataset_journal \<Rightarrow> unit sio" where
  "prepare_commit h existing new_members record j =
     (let stage = stage_dir (dj_nonce j) in
      then_io (create_dir_all [stage, members_dir])
     (then_io (each (stage_member h (dj_nonce j) existing) new_members)
     (then_io (write_manifest h [stage] record (dj_nonce j))
     (then_io (sync_subdir [stage, members_dir])
     (then_io (sync_subdir [stage])
     (then_io sync_dir
     (then_io stage_previous_manifest
     (bind_io (exists_io [primary_dir]) (\<lambda>primary.
      then_io (when_io (\<not> primary) (create_dir_all [primary_dir]))
     (then_io (write_journal h j)
              sync_dir))))))))))"

definition publish_member :: "host \<Rightarrow> ustr \<Rightarrow> dataset_member \<Rightarrow> unit sio" where
  "publish_member h nonce m =
     (let digest = digest_bytes h (me_bytes m) in
      bind_io (exists_io [members_dir, digest]) (\<lambda>stored.
      when_io (\<not> stored)
        (then_io (rename_io [stage_dir nonce, members_dir, digest] [members_dir, digest])
        (then_io (sync_subdir [stage_dir nonce, members_dir])
                 (sync_subdir [members_dir])))))"

definition finish_commit ::
  "host \<Rightarrow> dataset_member list \<Rightarrow> manifest_record \<Rightarrow> dataset_journal \<Rightarrow> unit sio" where
  "finish_commit h new_members record j =
     then_io (create_dir_all [members_dir])
    (then_io (each (publish_member h (dj_nonce j)) new_members)
    (then_io (publish_primary h record j)
    (then_io (collect_orphan_member_content_best_effort h)
             sync_dir)))"

definition receipt :: "bytes \<Rightarrow> visibility \<Rightarrow> commit_receipt" where
  "receipt revision v = \<lparr>cr_revision = revision, cr_visibility = v\<rparr>"

text \<open>\<open>discard\<close> is what the error path does before the logical point of commit.\<close>

definition committed_after ::
  "bytes \<Rightarrow> unit sio \<Rightarrow> unit sio \<Rightarrow> unit sio \<Rightarrow> commit_receipt sio" where
  "committed_after revision prepare finish discard =
     bind_io (attempt prepare) (\<lambda>r.
     case r of
       Inl e \<Rightarrow> if is_corruption e then fail e else then_io discard (fail e)
     | Inr _ \<Rightarrow>
         bind_io (attempt finish) (\<lambda>r.
         case r of
           Inr _ \<Rightarrow> ret (receipt revision Visible)
         | Inl e \<Rightarrow> if is_corruption e then fail e else ret (receipt revision RecoveryPending)))"

definition change_evidence :: "host \<Rightarrow> change_set \<Rightarrow> evidence list" where
  "change_evidence h c =
     sort_key fst (map (member_evidence_of h) (ch_new c) @
       map (\<lambda>r. (rf_name r, rf_byte_len r, rf_member_digest r)) (ch_reused c))"

definition new_journal_member :: "host \<Rightarrow> dataset_member \<Rightarrow> journal_member" where
  "new_journal_member h m =
     \<lparr>jm_name = me_name m, jm_digest = digest_bytes h (me_bytes m), jm_byte_len = length (me_bytes m),
      jm_revision_digest = revision_member_digest_hex h (me_bytes m)\<rparr>"

definition reused_journal_member ::
  "(ustr \<times> ustr) list \<Rightarrow> member_reference \<Rightarrow> (storage_error, journal_member) outcome" where
  "reused_journal_member content r =
     (case List.find (\<lambda>(n, _). n = rf_name r) content of
        None \<Rightarrow> Err dataset_member_mismatch
      | Some (_, digest) \<Rightarrow>
          Ok \<lparr>jm_name = rf_name r, jm_digest = digest, jm_byte_len = rf_byte_len r,
              jm_revision_digest = encode_revision (rf_member_digest r)\<rparr>)"

definition commit_journal ::
  "ustr \<Rightarrow> bytes \<Rightarrow> bytes \<Rightarrow> journal_member list \<Rightarrow> dataset_journal" where
  "commit_journal nonce old new members =
     \<lparr>dj_nonce = nonce, dj_kind = KindCommit, dj_old_revision = encode_revision old,
      dj_new_revision = encode_revision new, dj_members = sort_key jm_name members,
      dj_phase = Prepared\<rparr>"

definition commit_incremental_verified ::
  "host \<Rightarrow> manifest_data \<Rightarrow> change_set \<Rightarrow> (ustr \<times> ustr) list \<Rightarrow> commit_receipt sio" where
  "commit_incremental_verified h current c reused_content =
     bind_io (read_manifest h [primary_dir]) (\<lambda>current_record.
     let evidence = change_evidence h c; revision = from_member_digests h evidence in
     bind_io (lift_outcome (traverse (\<lambda>(n, _, _). parse_segment n) evidence)) (\<lambda>names.
     bind_io (lift_outcome (from_verified_members revision
       (map (\<lambda>((_, byte_len, digest), name). \<lparr>rf_source_revision = revision, rf_name = name,
          rf_byte_len = byte_len, rf_member_digest = digest\<rparr>) (zip evidence names)))) (\<lambda>_.
     bind_io (lift_outcome (traverse (reused_journal_member reused_content) (ch_reused c))) (\<lambda>reused.
     let j = commit_journal (h_uuid h) (md_revision current) revision
               (map (new_journal_member h) (ch_new c) @ reused);
         record = manifest_record_from_journal j;
         existing = (case current_record of None \<Rightarrow> []
           | Some r \<Rightarrow> filter (\<lambda>d. d \<noteq> []) (map mm_content_digest (mr_evidence r)))
     in committed_after revision
          (prepare_commit h existing (ch_new c) record j)
          (finish_commit h (ch_new c) record j)
          (then_io (ignore (fs_remove_dir_all [stage_dir (dj_nonce j)]))
                   (ignore (fs_remove_dir_all [previous_next_dir])))))))"

definition reused_content_path ::
  "bool \<Rightarrow> manifest_record option \<Rightarrow> ustr \<Rightarrow> (storage_error, path) outcome" where
  "reused_content_path legacy current_record name =
     (if legacy then Ok [primary_dir, blobs_dir, name]
      else case Option.bind current_record (\<lambda>r. map_of (rev (map (\<lambda>m. (mm_name m, m)) (mr_evidence r))) name) of
        None \<Rightarrow> Err dataset_member_mismatch
      | Some m \<Rightarrow>
          if mm_content_digest m = [] then Ok [primary_dir, blobs_dir, name]
          else Ok [members_dir, mm_content_digest m])"

definition reuse_member ::
  "host \<Rightarrow> manifest_data \<Rightarrow> ustr list \<Rightarrow> bool \<Rightarrow> manifest_record option \<Rightarrow> member_reference \<Rightarrow>
     (ustr \<times> ustr) sio" where
  "reuse_member h current removed legacy current_record r =
     (if rf_name r \<notin> set (md_members current) \<or> rf_name r \<in> set removed then fail dataset_member_mismatch
      else
        bind_io (lift_outcome (reused_content_path legacy current_record (rf_name r))) (\<lambda>p.
        bind_io (read_file p) (\<lambda>c.
        bind_io (from_option dataset_member_mismatch c) (\<lambda>b.
        if \<not> matches_bytes h r b then fail dataset_member_mismatch
        else
          bind_io (exists_io [members_dir, digest_bytes h b]) (\<lambda>stored.
          then_io (when_io (\<not> stored) (write_new_file [members_dir, digest_bytes h b] b))
                  (ret (rf_name r, digest_bytes h b)))))))"

definition commit_incremental_sync :: "host \<Rightarrow> change_set \<Rightarrow> commit_receipt sio" where
  "commit_incremental_sync h c =
     bind_io (current_manifest h) (\<lambda>current.
     if md_revision current \<noteq> ch_expected c then fail ConcurrentWrite
     else if list_ex (\<lambda>n. n \<notin> set (md_members current)) (ch_removed c) then fail InvalidKey
     else
       bind_io (read_manifest h [primary_dir]) (\<lambda>current_record.
       let legacy = (case current_record of None \<Rightarrow> False
             | Some r \<Rightarrow> mr_evidence r = [] \<and> mr_members r \<noteq> [])
       in then_io (create_dir_all [members_dir])
         (bind_io (gather (reuse_member h current (ch_removed c) legacy current_record) (ch_reused c)) (\<lambda>content.
          then_io (sync_subdir [members_dir])
         (if list_ex (\<lambda>n. n \<notin> set (target_names c) \<and> n \<notin> set (ch_removed c)) (md_members current)
          then fail InvalidKey
          else commit_incremental_verified h current c content)))))"

definition commit_sync :: "host \<Rightarrow> bytes \<Rightarrow> dataset_member list \<Rightarrow> commit_receipt sio" where
  "commit_sync h expected members =
     bind_io (current_manifest h) (\<lambda>current.
     if md_revision current \<noteq> expected then fail ConcurrentWrite
     else
       let removed = filter (\<lambda>n. n \<notin> set (map me_name members)) (md_members current)
       in bind_io (lift_outcome
            (case change_set_new expected members [] of
               Ok c \<Rightarrow> with_removed_members removed c
             | Err e \<Rightarrow> Err e
             | Panic \<Rightarrow> Panic)) (commit_incremental_sync h))"

section \<open>Promoting the previous generation\<close>

definition previous_content_path :: "manifest_member_record \<Rightarrow> ustr \<Rightarrow> path" where
  "previous_content_path m name =
     (if mm_content_digest m = [] then [previous_dir, blobs_dir, name] else [members_dir, mm_content_digest m])"

definition previous_member :: "host \<Rightarrow> manifest_record \<Rightarrow> ustr \<Rightarrow> dataset_member sio" where
  "previous_member h record name =
     bind_io (lift_outcome (parse_segment name)) (\<lambda>segment.
     bind_io (from_option dataset_member_mismatch (member_record record name)) (\<lambda>m.
     bind_io (read_file (previous_content_path m name)) (\<lambda>c.
     bind_io (from_option dataset_member_mismatch c) (\<lambda>b.
     if mm_content_digest m \<noteq> [] \<and> digest_bytes h b \<noteq> mm_content_digest m then fail dataset_member_mismatch
     else ret \<lparr>me_name = segment, me_bytes = b\<rparr>))))"

definition validate_previous_generation :: "host \<Rightarrow> manifest_record \<Rightarrow> unit sio" where
  "validate_previous_generation h record =
     bind_io (gather (previous_member h record) (mr_members record)) (\<lambda>members.
     bind_io (lift_outcome (manifest_new h members)) (\<lambda>recomputed.
     bind_io (lift_outcome (decode_revision (mr_revision record))) (\<lambda>expected.
     if md_revision recomputed \<noteq> expected then fail dataset_member_mismatch else ret ())))"

definition promoted_member :: "host \<Rightarrow> manifest_member_record \<Rightarrow> journal_member sio" where
  "promoted_member h m =
     bind_io (read_file (previous_content_path m (mm_name m))) (\<lambda>c.
     bind_io (from_option dataset_member_mismatch c) (\<lambda>b.
     ret \<lparr>jm_name = mm_name m, jm_digest = digest_bytes h b, jm_byte_len = length b,
          jm_revision_digest = revision_member_digest_hex h b\<rparr>))"

definition promote_journal ::
  "ustr \<Rightarrow> bytes \<Rightarrow> bytes \<Rightarrow> journal_member list \<Rightarrow> dataset_journal" where
  "promote_journal nonce old new members =
     (commit_journal nonce old new members)\<lparr>dj_kind := KindPromotePrevious\<rparr>"

definition finish_promote :: "host \<Rightarrow> dataset_journal \<Rightarrow> unit sio" where
  "finish_promote h j =
     then_io (advance_promote_swap h j)
    (then_io (write_journal h (j\<lparr>dj_phase := Committed\<rparr>))
    (then_io sync_dir
    (then_io remove_journal
             sync_dir)))"

definition promote_sync :: "host \<Rightarrow> commit_receipt sio" where
  "promote_sync h =
     bind_io (read_manifest h [previous_dir]) (\<lambda>r.
     case r of
       None \<Rightarrow> bind_io (current_manifest h) (\<lambda>current. ret (receipt (md_revision current) Visible))
     | Some record \<Rightarrow>
         then_io (validate_previous_generation h record)
        (bind_io (lift_outcome (decode_revision (mr_revision record))) (\<lambda>revision.
         bind_io (current_manifest h) (\<lambda>current.
         bind_io (gather (promoted_member h) (mr_evidence record)) (\<lambda>members.
         let j = promote_journal (h_uuid h) (md_revision current) revision members
         in committed_after revision (then_io (write_journal h j) sync_dir) (finish_promote h j)
              (ignore remove_journal))))))"

section \<open>Quarantine and deletion\<close>

definition generation_dir :: "generation_kind \<Rightarrow> ustr" where
  "generation_dir g = (case g of GenPrimary \<Rightarrow> primary_dir | GenPrevious \<Rightarrow> previous_dir)"

definition quarantine_sync ::
  "host \<Rightarrow> generation_kind \<Rightarrow> transaction_scope \<Rightarrow> quarantine_reason \<Rightarrow> quarantine_outcome sio" where
  "quarantine_sync h g scope reason =
     bind_io (exists_io [generation_dir g, manifest_file]) (\<lambda>e.
     if \<not> e then ret (AlreadyAbsent g scope reason)
     else
       then_io (reject_symlink [generation_dir g])
      (bind_io (lift_outcome (parse_segment (h_uuid h))) (\<lambda>i.
       then_io (rename_io [generation_dir g] [generation_dir g @ lit ''.quarantine.'' @ i])
      (then_io sync_dir
       (ret (Moved \<lparr>qr_id = i, qr_generation = g, qr_scope = scope, qr_reason = reason\<rparr>))))))"

definition lock_dataset :: "unit sio" where
  "lock_dataset =
     then_io (reject_symlink [lock_file])
    (then_io (map_fail map_io (fs_open_create [lock_file]))
             (map_fail map_lock_io (fs_sync [lock_file])))"

definition remove_generation :: "ustr \<Rightarrow> unit sio" where
  "remove_generation gen = bind_io (exists_io [gen]) (\<lambda>e. when_io e (remove_dir_all [gen]))"

definition open_existing_dataset_dir :: "dataset_key \<Rightarrow> bool sio" where
  "open_existing_dataset_dir key = bind_io (attempt (fs_stat (dataset_rel key))) (\<lambda>r.
     case r of
       Inr Link \<Rightarrow> fail InvalidKey
     | Inr (File _) \<Rightarrow> fail InvalidKey
     | Inr Folder \<Rightarrow> then_io (map_fail map_io (fs_open_dir (dataset_rel key))) (ret True)
     | Inl IoNotFound \<Rightarrow> ret False
     | Inl k \<Rightarrow> fail (map_io k))"

definition delete_all_generations_sync :: "host \<Rightarrow> dataset_key \<Rightarrow> bool \<Rightarrow> delete_outcome sio" where
  "delete_all_generations_sync h key include_quarantine =
     bind_io (open_existing_dataset_dir key) (\<lambda>there.
     if \<not> there then ret \<lparr>do_primary = False, do_previous = False, do_quarantine = False\<rparr>
     else
       bind_io (within (dataset_rel key)
         (then_io lock_dataset (then_io (recover h)
           (bind_io (exists_io [primary_dir]) (\<lambda>a.
            bind_io (exists_io [previous_dir]) (\<lambda>b. ret (a, b))))))) (\<lambda>(a, b).
       then_io
         (if include_quarantine then remove_dir_all (dataset_rel key)
          else within (dataset_rel key)
            (then_io (each remove_generation [primary_dir, previous_dir]) sync_dir))
         (ret \<lparr>do_primary = a, do_previous = b, do_quarantine = False\<rparr>)))"

section \<open>The port\<close>

text \<open>\<open>locked\<close>, over the handle of the dataset\<close>

definition enter_dataset :: "host \<Rightarrow> unit sio" where
  "enter_dataset h =
     then_io lock_dataset
    (then_io (recover h)
             (collect_orphan_member_content_best_effort h))"

definition open_dataset_dir :: "dataset_key \<Rightarrow> unit sio" where
  "open_dataset_dir key =
     then_io (create_dir_all (dataset_rel key)) (map_fail map_io (fs_open_dir (dataset_rel key)))"

definition locked :: "host \<Rightarrow> dataset_key \<Rightarrow> 'a sio \<Rightarrow> 'a sio" where
  "locked h key c =
     then_io (open_dataset_dir key) (within (dataset_rel key) (then_io (enter_dataset h) c))"

definition port_read_manifest :: "host \<Rightarrow> dataset_key \<Rightarrow> manifest_data sio" where
  "port_read_manifest h key = locked h key (current_manifest h)"

definition port_read_consistent :: "host \<Rightarrow> dataset_key \<Rightarrow> ustr list \<Rightarrow> read_outcome sio" where
  "port_read_consistent h key members = locked h key (read_generation h primary_dir members)"

definition port_read_previous :: "host \<Rightarrow> dataset_key \<Rightarrow> ustr list \<Rightarrow> read_outcome sio" where
  "port_read_previous h key members = locked h key (read_generation h previous_dir members)"

definition port_commit_atomic ::
  "host \<Rightarrow> dataset_key \<Rightarrow> bytes \<Rightarrow> dataset_member list \<Rightarrow> commit_receipt sio" where
  "port_commit_atomic h key expected members = locked h key (commit_sync h expected members)"

definition port_commit_incremental :: "host \<Rightarrow> dataset_key \<Rightarrow> change_set \<Rightarrow> commit_receipt sio" where
  "port_commit_incremental h key c = locked h key (commit_incremental_sync h c)"

definition port_promote_previous :: "host \<Rightarrow> dataset_key \<Rightarrow> commit_receipt sio" where
  "port_promote_previous h key = locked h key (promote_sync h)"

definition port_quarantine ::
  "host \<Rightarrow> dataset_key \<Rightarrow> generation_kind \<Rightarrow> transaction_scope \<Rightarrow> quarantine_reason \<Rightarrow>
     quarantine_outcome sio" where
  "port_quarantine h key g scope reason = locked h key (quarantine_sync h g scope reason)"

end
