(* ===== verification/Disk_Logic.thy ===== *)
theory Disk_Logic
  imports Disk
begin

text \<open>
  The calculus the storage protocols are verified in. \<open>wp br di c Q E S f\<close>: from every tree that looks like
  \<open>f\<close>, with calls that may break (\<open>br\<close>) and a process that may die (\<open>di\<close>), the program \<open>c\<close> ends with a result
  in \<open>Q\<close>, an error in \<open>E\<close> or dead in \<open>S\<close>. The three postconditions speak of what \<open>look\<close> sees, so the order
  of the entries plays no role, and the trees are sound: no symbolic links, and every entry lies in a
  directory.
\<close>

section \<open>Sound trees\<close>

type_synonym disk = "path \<Rightarrow> entry option"

definition good :: "disk \<Rightarrow> bool" where
  "good f \<longleftrightarrow>
     f [] = None \<and> (\<forall>p. f p \<noteq> Some Link) \<and> (\<forall>p n. f (p @ [n]) \<noteq> None \<longrightarrow> p = [] \<or> f p = Some Folder)"

definition sound :: "tree \<Rightarrow> bool" where
  "sound t \<longleftrightarrow> distinct (hm_keys t) \<and> good (look t)"

definition folder_at :: "disk \<Rightarrow> path \<Rightarrow> bool" where
  "folder_at f p \<longleftrightarrow> p = [] \<or> f p = Some Folder"

lemma look_insert [simp]: "look (hm_insert p e t) = (look t)(p \<mapsto> e)"
  by (simp add: look_def fun_eq_iff AList.update_conv')

lemma look_remove [simp]: "look (hm_remove p t) = (look t)(p := None)"
  by (simp add: look_def fun_eq_iff AList.delete_conv')

lemma look_None_iff: "look t p = None \<longleftrightarrow> p \<notin> set (hm_keys t)"
  by (simp add: look_def map_of_eq_None_iff)

lemma is_folder_look [simp]: "is_folder t p = folder_at (look t) p"
  by (simp add: is_folder_def folder_at_def)

lemma good_no_link [simp]: "good f \<Longrightarrow> f p \<noteq> Some Link"
  by (simp add: good_def)

lemma file_or_none: "good f \<Longrightarrow> f p \<noteq> Some Folder \<Longrightarrow> f p = None \<or> (\<exists>b. f p = Some (File b))"
  using good_no_link [of f p] by (cases "f p") (auto, metis entry.exhaust)

lemma good_root [simp]: "good f \<Longrightarrow> f [] = None"
  by (simp add: good_def)

lemma good_above: "good f \<Longrightarrow> f (p @ [n]) \<noteq> None \<Longrightarrow> folder_at f p"
  unfolding good_def folder_at_def by blast

lemma good_parent: "good f \<Longrightarrow> f p \<noteq> None \<Longrightarrow> folder_at f (butlast p)"
  by (cases p rule: rev_cases) (simp, metis butlast_snoc good_above)

lemma goodI:
  assumes "f [] = None" "\<And>p. f p \<noteq> Some Link" "\<And>p n. f (p @ [n]) \<noteq> None \<Longrightarrow> folder_at f p"
  shows "good f"
  using assms unfolding good_def folder_at_def by blast

lemma good_insert:
  assumes "good f" "folder_at f (butlast p)" "p \<noteq> []" "e \<noteq> Link" "e = Folder \<or> f p \<noteq> Some Folder"
  shows "good (f(p \<mapsto> e))"
proof (rule goodI)
  fix q n assume *: "(f(p \<mapsto> e)) (q @ [n]) \<noteq> None"
  show "folder_at (f(p \<mapsto> e)) q"
  proof (cases "q @ [n] = p")
    case True
    then have "folder_at f q" "q \<noteq> p" using assms(2) by auto
    then show ?thesis by (simp add: folder_at_def)
  next
    case False
    then have "folder_at f q" using * assms(1) good_above by (metis fun_upd_other)
    then show ?thesis using assms(3,5) by (auto simp: folder_at_def)
  qed
qed (use assms in \<open>auto simp: fun_upd_apply\<close>)

lemma good_delete:
  assumes "good f" "\<And>n. f (p @ [n]) = None"
  shows "good (f(p := None))"
proof (rule goodI)
  fix q n assume *: "(f(p := None)) (q @ [n]) \<noteq> None"
  then have "f (q @ [n]) \<noteq> None" by (auto split: if_splits)
  moreover from this assms(2) have "q \<noteq> p" by metis
  ultimately show "folder_at (f(p := None)) q"
    using assms(1) good_above by (auto simp: folder_at_def)
qed (use assms in \<open>auto simp: fun_upd_apply\<close>)

lemma under_refl [simp]: "under d d"
  by (simp add: under_def)

lemma under_append [simp]: "under d (d @ x)"
  by (simp add: under_def)

lemma under_iff: "under d p \<longleftrightarrow> (\<exists>x. p = d @ x)"
  by (metis append_take_drop_id under_append under_def)

lemma under_snoc: "under d (p @ [n]) \<longleftrightarrow> under d p \<or> d = p @ [n]"
proof
  assume "under d (p @ [n])"
  then obtain x where x: "p @ [n] = d @ x" unfolding under_iff by blast
  show "under d p \<or> d = p @ [n]"
    using x by (cases x rule: rev_cases) (auto simp: under_iff)
qed (auto simp: under_iff)

lemma under_trans: "under a b \<Longrightarrow> under b c \<Longrightarrow> under a c"
  by (auto simp: under_iff)

lemma under_butlast: "under d (butlast p) \<Longrightarrow> under d p"
  by (cases p rule: rev_cases) (auto simp: under_snoc)

section \<open>The transformer\<close>

definition allowed :: "bool \<Rightarrow> bool \<Rightarrow> fate list \<Rightarrow> bool" where
  "allowed br di fs \<longleftrightarrow>
     (\<forall>x \<in> set fs. case x of Goes \<Rightarrow> True | Breaks k _ \<Rightarrow> br \<and> k \<in> {IoDenied, IoOther} | Dies _ \<Rightarrow> di)"

fun ends ::
  "bool \<Rightarrow> bool \<Rightarrow> ('a \<Rightarrow> disk \<Rightarrow> bool) \<Rightarrow> ('e \<Rightarrow> disk \<Rightarrow> bool) \<Rightarrow> (disk \<Rightarrow> bool) \<Rightarrow>
     ('e, 'a) reply \<times> machine \<Rightarrow> bool" where
  "ends br di Q E S (r, m) \<longleftrightarrow>
     sound (m_tree m) \<and> allowed br di (m_fates m) \<and>
     (case r of
        Done x \<Rightarrow> Q x (look (m_tree m))
      | Fails e \<Rightarrow> E e (look (m_tree m))
      | Stopped \<Rightarrow> S (look (m_tree m)))"

definition wp ::
  "bool \<Rightarrow> bool \<Rightarrow> ('e, 'a) io \<Rightarrow> ('a \<Rightarrow> disk \<Rightarrow> bool) \<Rightarrow> ('e \<Rightarrow> disk \<Rightarrow> bool) \<Rightarrow> (disk \<Rightarrow> bool) \<Rightarrow>
     disk \<Rightarrow> bool" where
  "wp br di c Q E S f \<longleftrightarrow>
     (\<forall>m :: machine. sound (m_tree m) \<longrightarrow> look (m_tree m) = f \<longrightarrow> allowed br di (m_fates m) \<longrightarrow>
        ends br di Q E S (c m))"

lemma wpI:
  assumes "\<And>m :: machine. sound (m_tree m) \<Longrightarrow> look (m_tree m) = f \<Longrightarrow> allowed br di (m_fates m) \<Longrightarrow>
    ends br di Q E S (c m)"
  shows "wp br di c Q E S f"
  unfolding wp_def using assms by blast

lemma wpD:
  "wp br di c Q E S f \<Longrightarrow> sound (m_tree m) \<Longrightarrow> look (m_tree m) = f \<Longrightarrow> allowed br di (m_fates m) \<Longrightarrow>
   ends br di Q E S (c m)"
  unfolding wp_def by blast

text \<open>Soundness comes for free.\<close>

lemma wp_good: "(good f \<Longrightarrow> wp br di c Q E S f) \<Longrightarrow> wp br di c Q E S f"
  unfolding wp_def sound_def by blast

lemma ends_mono:
  assumes "ends br di Q E S rm" "\<And>x g. good g \<Longrightarrow> Q x g \<Longrightarrow> Q' x g" "\<And>e g. good g \<Longrightarrow> E e g \<Longrightarrow> E' e g"
    "\<And>g. good g \<Longrightarrow> S g \<Longrightarrow> S' g"
  shows "ends br di Q' E' S' rm"
proof (cases rm)
  case (Pair r m)
  then have "good (look (m_tree m))" using assms(1) by (simp add: sound_def)
  then show ?thesis using assms Pair by (cases r) auto
qed

lemma wp_mono:
  assumes "wp br di c Q E S f" "\<And>x g. good g \<Longrightarrow> Q x g \<Longrightarrow> Q' x g" "\<And>e g. good g \<Longrightarrow> E e g \<Longrightarrow> E' e g"
    "\<And>g. good g \<Longrightarrow> S g \<Longrightarrow> S' g"
  shows "wp br di c Q' E' S' f"
  by (rule wpI) (rule ends_mono [OF wpD [OF assms(1)] assms(2-4)])

section \<open>Rules for programs\<close>

lemma wp_ret [simp]: "Q x f \<Longrightarrow> wp br di (ret x) Q E S f"
  by (rule wpI) (simp add: ret_def)

lemma wp_fail [simp]: "E e f \<Longrightarrow> wp br di (fail e) Q E S f"
  by (rule wpI) (simp add: fail_def)

lemma wp_stop: "S f \<Longrightarrow> wp br di stop Q E S f"
  by (rule wpI) (simp add: stop_def)

lemma bind_ret [simp]: "bind_io (ret x) k = k x" "bind_io (fail e) k = fail e"
  by (simp_all add: bind_io_def ret_def fail_def fun_eq_iff)

lemma then_ret [simp]: "then_io (ret x) c = c" "then_io (fail e) c = fail e"
  by (simp_all add: then_io_def)

lemma wp_bind:
  assumes "wp br di c (\<lambda>x. wp br di (k x) Q E S) E S f"
  shows "wp br di (bind_io c k) Q E S f"
proof (rule wpI)
  fix m :: machine assume m: "sound (m_tree m)" "look (m_tree m) = f" "allowed br di (m_fates m)"
  obtain r m' where c: "c m = (r, m')" by fastforce
  have post: "ends br di (\<lambda>x. wp br di (k x) Q E S) E S (r, m')"
    using wpD [OF assms m] by (simp only: c)
  show "ends br di Q E S (bind_io c k m)"
  proof (cases r)
    case (Done x)
    then have "wp br di (k x) Q E S (look (m_tree m'))" "sound (m_tree m')" "allowed br di (m_fates m')"
      using post by auto
    then show ?thesis using wpD [OF _ _ refl] by (simp add: bind_io_def c Done)
  qed (use post in \<open>auto simp: bind_io_def c\<close>)
qed

lemma wp_then:
  "wp br di c (\<lambda>_. wp br di d Q E S) E S f \<Longrightarrow> wp br di (then_io c d) Q E S f"
  unfolding then_io_def by (rule wp_bind)

lemma wp_map_fail:
  "wp br di c Q (\<lambda>e. E (g e)) S f \<Longrightarrow> wp br di (map_fail g c) Q E S f"
  by (rule wpI, drule wpD, assumption+) (auto simp: map_fail_def split: prod.splits reply.splits)

lemma wp_attempt:
  "wp br di c (\<lambda>x. Q (Inr x)) (\<lambda>e. Q (Inl e)) S f \<Longrightarrow> wp br di (attempt c) Q E S f"
  by (rule wpI, drule wpD, assumption+) (auto simp: attempt_def split: prod.splits reply.splits)

lemma wp_ignore:
  "wp br di c (\<lambda>_. Q ()) (\<lambda>_. Q ()) S f \<Longrightarrow> wp br di (ignore c) Q E S f"
  unfolding ignore_def by (rule wp_bind, rule wp_attempt) (auto elim!: wp_mono)

lemma wp_when:
  "(b \<Longrightarrow> wp br di c Q E S f) \<Longrightarrow> (\<not> b \<Longrightarrow> Q () f) \<Longrightarrow> wp br di (when_io b c) Q E S f"
  by (simp add: when_io_def)

lemma wp_from_option:
  "(\<And>x. v = Some x \<Longrightarrow> Q x f) \<Longrightarrow> (v = None \<Longrightarrow> E e f) \<Longrightarrow> wp br di (from_option e v) Q E S f"
  by (cases v) (simp_all add: from_option_def)

lemma wp_lift:
  assumes "\<And>x. r = Ok x \<Longrightarrow> Q x f" "\<And>e. r = Err e \<Longrightarrow> E e f" "r = Panic \<Longrightarrow> S f"
  shows "wp br di (lift_outcome r) Q E S f"
  using assms by (cases r) (auto intro: wp_stop)

lemma wp_if:
  "(b \<Longrightarrow> wp br di c Q E S f) \<Longrightarrow> (\<not> b \<Longrightarrow> wp br di d Q E S f) \<Longrightarrow>
   wp br di (if b then c else d) Q E S f"
  by simp

text \<open>A loop with an invariant of the elements already done and those still to do.\<close>

lemma wp_each_gen:
  assumes "\<And>x ys zs g. xs = ys @ x # zs \<Longrightarrow> Inv ys g \<Longrightarrow> wp br di (c x) (\<lambda>_. Inv (ys @ [x])) E S g"
  shows "pre @ post = xs \<Longrightarrow> Inv pre g \<Longrightarrow> wp br di (each c post) (\<lambda>_. Inv xs) E S g"
proof (induction post arbitrary: pre g)
  case (Cons x zs)
  have "wp br di (c x) (\<lambda>_. Inv (pre @ [x])) E S g"
    using assms Cons.prems by metis
  then have "wp br di (c x) (\<lambda>_. wp br di (each c zs) (\<lambda>_. Inv xs) E S) E S g"
    by (rule wp_mono) (use Cons in auto)
  then show ?case by (simp add: wp_then)
qed simp

lemma wp_each:
  assumes "Inv [] f" "\<And>x ys zs g. xs = ys @ x # zs \<Longrightarrow> Inv ys g \<Longrightarrow> wp br di (c x) (\<lambda>_. Inv (ys @ [x])) E S g"
    "\<And>g. good g \<Longrightarrow> Inv xs g \<Longrightarrow> Q () g"
  shows "wp br di (each c xs) Q E S f"
  by (rule wp_mono [OF wp_each_gen [where Inv = Inv and pre = "[]", OF assms(2)]])
    (use assms in auto)

lemma wp_gather:
  assumes "\<And>x g. x \<in> set xs \<Longrightarrow> Inv g \<Longrightarrow> wp br di (c x) (\<lambda>y g. Inv g \<and> R x y) E S g"
  shows "Inv f \<Longrightarrow> wp br di (gather c xs) (\<lambda>ys g. Inv g \<and> list_all2 R xs ys) E S f"
  using assms
proof (induction xs arbitrary: f)
  case (Cons x xs)
  have "wp br di (c x) (\<lambda>y g. Inv g \<and> R x y) E S f" using Cons.prems by simp
  then have "wp br di (c x) (\<lambda>y. wp br di (bind_io (gather c xs) (\<lambda>ys. ret (y # ys)))
      (\<lambda>ys g. Inv g \<and> list_all2 R (x # xs) ys) E S) E S f"
  proof (rule wp_mono)
    fix y g assume "Inv g \<and> R x y"
    then have "wp br di (gather c xs) (\<lambda>ys g. Inv g \<and> list_all2 R xs ys) E S g"
      using Cons by simp
    then show "wp br di (bind_io (gather c xs) (\<lambda>ys. ret (y # ys)))
      (\<lambda>ys g. Inv g \<and> list_all2 R (x # xs) ys) E S g"
      using \<open>Inv g \<and> R x y\<close> by (intro wp_bind) (auto elim!: wp_mono)
  qed
  then show ?case by (simp add: wp_bind)
qed simp

text \<open>Reading programs leave the disk alone.\<close>

lemma wp_gather_const:
  assumes "\<And>x. x \<in> set xs \<Longrightarrow> wp br di (c x) (\<lambda>y g. g = f \<and> R x y) E S f"
  shows "wp br di (gather c xs) (\<lambda>ys g. g = f \<and> list_all2 R xs ys) E S f"
  by (rule wp_gather [where Inv = "\<lambda>g. g = f"]) (use assms in auto)

end
