(* ===== verification/Disk_Rules.thy ===== *)
theory Disk_Rules
  imports Disk_Logic
begin

text \<open>One rule of the calculus for each call of the file system.\<close>

section \<open>Single steps\<close>

definition hurt ::
  "bool \<Rightarrow> bool \<Rightarrow> (io_kind \<Rightarrow> disk \<Rightarrow> bool) \<Rightarrow> (disk \<Rightarrow> bool) \<Rightarrow> disk \<Rightarrow> bool" where
  "hurt br di E S f \<longleftrightarrow> (br \<longrightarrow> E IoDenied f \<and> E IoOther f) \<and> (di \<longrightarrow> S f)"

lemma allowed_Cons [simp]:
  "allowed br di (x # fs) \<longleftrightarrow>
     (case x of Goes \<Rightarrow> True | Breaks k _ \<Rightarrow> br \<and> k \<in> {IoDenied, IoOther} | Dies _ \<Rightarrow> di) \<and> allowed br di fs"
  by (auto simp: allowed_def)

lemma allowed_Nil [simp]: "allowed br di []"
  by (simp add: allowed_def)

lemma wp_step:
  assumes "\<And>t. sound t \<Longrightarrow> look t = f \<Longrightarrow>
      (case act t of Inl k \<Rightarrow> E k f | Inr (x, t') \<Rightarrow> sound t' \<and> Q x (look t'))"
    and "\<And>t n. sound t \<Longrightarrow> look t = f \<Longrightarrow> sound (torn n t) \<and> hurt br di E S (look (torn n t))"
  shows "wp br di (step torn act) Q E S f"
proof (rule wpI)
  fix m :: machine assume m: "sound (m_tree m)" "look (m_tree m) = f" "allowed br di (m_fates m)"
  have run: "ends br di Q E S (perform act (m\<lparr>m_fates := fs\<rparr>))" if "allowed br di fs" for fs
    using assms(1) [OF m(1,2)] m(1,2) that by (auto simp: perform_def split: sum.splits)
  have harmed: "ends br di Q E S (Fails k, m\<lparr>m_tree := torn n (m_tree m), m_fates := fs\<rparr>)"
    if "br" "k \<in> {IoDenied, IoOther}" "allowed br di fs" for k n fs
    using assms(2) [OF m(1,2), of n] that by (auto simp: hurt_def)
  have dead: "ends br di Q E S (Stopped, m\<lparr>m_tree := torn n (m_tree m), m_fates := fs\<rparr>)"
    if "di" "allowed br di fs" for n fs
    using assms(2) [OF m(1,2), of n] that by (auto simp: hurt_def)
  show "ends br di Q E S (step torn act m)"
  proof (cases "m_fates m")
    case Nil
    have "m\<lparr>m_fates := []\<rparr> = m" using Nil by (cases m) simp
    then have "ends br di Q E S (perform act m)" using run [of "[]"] by simp
    then show ?thesis using Nil by (simp add: step_def)
  next
    case (Cons x fs)
    show ?thesis
    proof (cases x)
      case Goes
      then show ?thesis using m(3) run Cons by (simp add: step_def)
    next
      case (Breaks k n)
      then have "br" "k \<in> {IoDenied, IoOther}" "allowed br di fs" using m(3) Cons by auto
      then show ?thesis using harmed Cons Breaks by (simp only: step_def list.case fate.case)
    next
      case (Dies n)
      then have "di" "allowed br di fs" using m(3) Cons by auto
      then show ?thesis using dead Cons Dies by (simp only: step_def list.case fate.case)
    qed
  qed
qed

lemma wp_atomic:
  assumes "\<And>t. sound t \<Longrightarrow> look t = f \<Longrightarrow>
      (case act t of Inl k \<Rightarrow> E k f | Inr (x, t') \<Rightarrow> sound t' \<and> Q x (look t'))"
    and "hurt br di E S f"
  shows "wp br di (atomic act) Q E S f"
  by (rule wp_step) (use assms in auto)

lemma sound_good: "sound t \<Longrightarrow> look t = f \<Longrightarrow> good f"
  by (auto simp: sound_def)

section \<open>Reading\<close>

lemma wp_stat:
  assumes "p \<noteq> []" "f p = None \<Longrightarrow> E IoNotFound f" "\<And>e. f p = Some e \<Longrightarrow> Q e f" "hurt br di E S f"
  shows "wp br di (fs_stat p) Q E S f"
  unfolding fs_stat_def by (rule wp_atomic) (use assms in \<open>auto split: option.splits\<close>)

lemma wp_read:
  assumes "f p = None \<Longrightarrow> E IoNotFound f" "\<And>b. f p = Some (File b) \<Longrightarrow> Q b f"
    "f p = Some Folder \<Longrightarrow> E IoOther f" "hurt br di E S f"
  shows "wp br di (fs_read p) Q E S f"
  unfolding fs_read_def
  by (rule wp_atomic) (use assms in \<open>auto simp: sound_def split: option.splits entry.splits\<close>)

lemma wp_open:
  assumes "p = [] \<or> f p \<noteq> None \<Longrightarrow> Q () f" "p \<noteq> [] \<Longrightarrow> f p = None \<Longrightarrow> E IoNotFound f" "hurt br di E S f"
  shows "wp br di (fs_open p) Q E S f"
  unfolding fs_open_def by (rule wp_atomic) (use assms in auto)

lemma names_in_set: "set (names_in t d) = {n. look t (d @ [n]) \<noteq> None}"
proof -
  have "n \<in> set (names_in t d) \<longleftrightarrow> d @ [n] \<in> fst ` set t" for n
    unfolding names_in_def
    by (force simp: image_iff butlast_append intro: append_butlast_last_id)
  then show ?thesis by (simp add: look_None_iff set_eq_iff)
qed

lemma names_in_distinct: "sound t \<Longrightarrow> distinct (names_in t d)"
  unfolding names_in_def sound_def
  by (auto simp: distinct_map intro!: inj_onI) (metis append_butlast_last_id)

lemma wp_entries:
  assumes "folder_at f d" "\<And>ns. distinct ns \<Longrightarrow> set ns = {n. f (d @ [n]) \<noteq> None} \<Longrightarrow> Q ns f"
    "hurt br di E S f"
  shows "wp br di (fs_entries d) Q E S f"
  unfolding fs_entries_def
  by (rule wp_atomic) (use assms names_in_distinct in \<open>auto simp: names_in_set\<close>)

lemma wp_open_dir:
  assumes "folder_at f d" "Q () f" "hurt br di E S f"
  shows "wp br di (fs_open_dir d) Q E S f"
  unfolding fs_open_dir_def by (rule wp_atomic) (use assms in auto)

lemma wp_sync:
  assumes "Q () f" "hurt br di E S f"
  shows "wp br di (fs_sync p) Q E S f"
  unfolding fs_sync_def by (rule wp_atomic) (use assms in auto)

section \<open>Writing\<close>

lemma sound_insert:
  assumes "sound t" "folder_at (look t) (butlast p)" "p \<noteq> []" "e \<noteq> Link" "e = Folder \<or> look t p \<noteq> Some Folder"
  shows "sound (hm_insert p e t)" "look (hm_insert p e t) = (look t)(p \<mapsto> e)"
  using assms good_insert by (auto simp: sound_def)

lemma wp_create_new:
  assumes "p \<noteq> []" "f p \<noteq> None \<Longrightarrow> E IoExists f" "folder_at f (butlast p)"
    "f p = None \<Longrightarrow> Q () (f(p \<mapsto> File []))" "hurt br di E S f"
  shows "wp br di (fs_create_new p) Q E S f"
  unfolding fs_create_new_def by (rule wp_atomic) (use assms sound_insert in auto)

lemma wp_open_create:
  assumes "p \<noteq> []" "folder_at f (butlast p)" "f p \<noteq> Some Folder" "f p = None \<Longrightarrow> Q () (f(p \<mapsto> File []))"
    "f p \<noteq> None \<Longrightarrow> Q () f" "hurt br di E S f"
  shows "wp br di (fs_open_create p) Q E S f"
  unfolding fs_open_create_def
  by (rule wp_atomic) (use assms sound_insert in \<open>auto simp: sound_def split: option.splits entry.splits\<close>)

lemma wp_write:
  assumes "f p = Some (File b0)" "Q () (f(p \<mapsto> File b))" "\<And>k. hurt br di E S (f(p \<mapsto> File (take k b)))"
  shows "wp br di (fs_write p b) Q E S f"
proof -
  have ins: "sound (hm_insert p (File c) t)" "look (hm_insert p (File c) t) = f(p \<mapsto> File c)"
    if "sound t" "look t = f" for t c
  proof -
    have "good f" using that by (rule sound_good)
    then have "p \<noteq> []" "folder_at (look t) (butlast p)"
      using assms(1) good_parent that(2) by fastforce+
    then show "sound (hm_insert p (File c) t)" "look (hm_insert p (File c) t) = f(p \<mapsto> File c)"
      using sound_insert [OF that(1)] that(2) assms(1) by auto
  qed
  show ?thesis
    unfolding fs_write_def by (rule wp_step) (use assms ins in auto)
qed

lemma sound_delete:
  assumes "sound t" "\<And>n. look t (p @ [n]) = None"
  shows "sound (hm_remove p t)" "look (hm_remove p t) = (look t)(p := None)"
  using assms good_delete
  by (auto simp: sound_def intro: AList.distinct_delete)

lemma wp_remove_file:
  assumes "f p = None \<Longrightarrow> E IoNotFound f" "f p = Some Folder \<Longrightarrow> E IoOther f"
    "\<And>b. f p = Some (File b) \<Longrightarrow> Q () (f(p := None))" "hurt br di E S f"
  shows "wp br di (fs_remove_file p) Q E S f"
  unfolding fs_remove_file_def
proof (rule wp_atomic)
  fix t assume t: "sound t" "look t = f"
  have leaf: "look t (p @ [n]) = None" if "f p = Some (File b)" for b n
    using good_above [OF sound_good [OF t], of p n] good_root [OF sound_good [OF t]] that t(2)
    by (cases "f (p @ [n])") (auto simp: folder_at_def)
  show "case case look t p of None \<Rightarrow> Inl IoNotFound | Some Folder \<Rightarrow> Inl IoOther
      | Some _ \<Rightarrow> Inr ((), hm_remove p t) of
    Inl k \<Rightarrow> E k f | Inr (x, t') \<Rightarrow> sound t' \<and> Q x (look t')"
    using assms t sound_delete [OF t(1)] leaf good_no_link [OF sound_good [OF t], of p]
    by (auto split: option.splits entry.splits)
qed (rule assms)

lemma wp_unlink:
  assumes "f p \<noteq> None" "\<And>n. f (p @ [n]) = None" "Q () (f(p := None))" "hurt br di E S f"
  shows "wp br di (fs_unlink p) Q E S f"
  unfolding fs_unlink_def
  by (rule wp_atomic) (use assms sound_delete in auto)

section \<open>Removing a directory\<close>

definition pruned :: "path \<Rightarrow> disk \<Rightarrow> disk" where
  "pruned d f = (\<lambda>p. if under d p then None else f p)"

text \<open>What may be left when the removal is interrupted.\<close>

definition partly :: "path \<Rightarrow> disk \<Rightarrow> disk \<Rightarrow> bool" where
  "partly d f g \<longleftrightarrow> (\<forall>p. (\<not> under d p \<longrightarrow> g p = f p) \<and> (g p = None \<or> g p = f p))"

lemma partly_refl [simp]: "partly d f f"
  by (simp add: partly_def)

lemma partly_pruned [simp]: "partly d f (pruned d f)"
  by (simp add: partly_def pruned_def)

lemma partly_outside: "partly d f g \<Longrightarrow> \<not> under d p \<Longrightarrow> g p = f p"
  by (simp add: partly_def)

lemma below_set: "set (below d t) = {p. under d p \<and> look t p \<noteq> None}"
  by (auto simp: below_def look_None_iff)

lemma below_order:
  assumes "sound t" "below d t = ys @ p # zs"
  shows "p \<notin> set ys" "p \<notin> set zs" "q \<in> set zs \<Longrightarrow> length q \<le> length p"
proof -
  have "distinct (below d t)"
    using assms(1) by (simp add: below_def sound_def)
  then show "p \<notin> set ys" "p \<notin> set zs" using assms(2) by auto
  have "sorted (map (\<lambda>p. - int (length p)) (below d t))"
    by (simp add: below_def)
  then show "q \<in> set zs \<Longrightarrow> length q \<le> length p"
    by (auto simp: assms(2) sorted_append)
qed

lemma wp_remove_dir_all:
  assumes "f d = None \<Longrightarrow> E IoNotFound f" "\<And>b. f d = Some (File b) \<Longrightarrow> E IoOther f"
    "f d = Some Folder \<Longrightarrow> Q () (pruned d f)"
    "\<And>g. good g \<Longrightarrow> partly d f g \<Longrightarrow> hurt br di E S g"
  shows "wp br di (fs_remove_dir_all d) Q E S f"
proof (rule wp_good)
  assume good: "good f"
  define cut where "cut = (\<lambda>ys. \<lambda>p. if p \<in> set ys then None else f p)"
  have loop: "wp br di (each fs_unlink (below d t)) Q E S f"
    if t: "sound t" "look t = f" and d: "f d = Some Folder" for t
  proof (rule wp_each [where Inv = "\<lambda>ys g. g = cut ys"])
    fix p ys zs g assume xs: "below d t = ys @ p # zs" and g: "g = cut ys"
    have p: "under d p" "f p \<noteq> None"
      using below_set [of d t] xs t(2) by auto
    have leaf: "cut ys (p @ [n]) = None" for n
    proof (rule ccontr)
      assume "cut ys (p @ [n]) \<noteq> None"
      then have "f (p @ [n]) \<noteq> None" "p @ [n] \<notin> set ys" by (auto simp: cut_def split: if_splits)
      moreover have "under d (p @ [n])" using p(1) by (simp add: under_snoc)
      ultimately have "p @ [n] \<in> set (below d t)" using t(2) by (simp add: below_set)
      then have "p @ [n] \<in> set zs" using xs \<open>p @ [n] \<notin> set ys\<close> by auto
      then show False using below_order(3) [OF t(1) xs] by fastforce
    qed
    show "wp br di (fs_unlink p) (\<lambda>_ g. g = cut (ys @ [p])) E S g"
    proof (rule wp_good, rule wp_unlink)
      show "g p \<noteq> None" using p below_order(1) [OF t(1) xs] g by (simp add: cut_def)
      show "g (p @ [n]) = None" for n using leaf g by simp
      show "g(p := None) = cut (ys @ [p])" using g by (auto simp: cut_def)
      assume "good g"
      moreover have "partly d f g"
        using g below_set [of d t] xs by (auto simp: partly_def cut_def)
      ultimately show "hurt br di E S g" by (rule assms(4))
    qed
  next
    fix g assume "g = cut (below d t)"
    then have "g = pruned d f" using t(2) by (auto simp: cut_def pruned_def below_set)
    then show "Q () g" using assms(3) d by simp
  qed (simp add: cut_def)
  show ?thesis
    unfolding fs_remove_dir_all_def fs_survey_def
  proof (rule wp_bind, rule wp_atomic, goal_cases)
    case (1 t)
    then show ?case
      using assms(1,2) loop good_no_link [OF good, of d]
      by (auto split: option.splits entry.splits)
  qed (auto intro: assms(4) good)
qed

section \<open>Making directories\<close>

lemma wp_create_dir:
  assumes "p \<noteq> []" "folder_at f (butlast p)" "\<And>b. f p \<noteq> Some (File b)" "f p \<noteq> None \<Longrightarrow> Q () f"
    "f p = None \<Longrightarrow> Q () (f(p \<mapsto> Folder))" "hurt br di E S f"
  shows "wp br di (fs_create_dir p) Q E S f"
  unfolding fs_create_dir_def
  by (rule wp_atomic) (use assms sound_insert in \<open>auto simp: sound_def split: option.splits entry.splits\<close>)

lemma wp_create_dir_all1:
  assumes "\<And>b. f [n] \<noteq> Some (File b)" "Q () (f([n] \<mapsto> Folder))" "hurt br di E S f"
  shows "wp br di (fs_create_dir_all [n]) Q E S f"
proof (rule wp_good)
  assume "good f"
  then have "f [n] = None \<or> f [n] = Some Folder"
    using assms(1) good_no_link by (metis entry.exhaust not_None_eq)
  then have "wp br di (fs_create_dir [n]) (\<lambda>_. wp br di (ret ()) Q E S) E S f"
    using assms by (intro wp_create_dir) (auto simp: folder_at_def fun_upd_idem)
  then show ?thesis by (simp add: fs_create_dir_all_def wp_then)
qed

lemma wp_create_dir_all2:
  assumes "\<And>b. f [n] \<noteq> Some (File b)" "\<And>b. f [n, k] \<noteq> Some (File b)"
    "Q () (f([n] \<mapsto> Folder, [n, k] \<mapsto> Folder))" "hurt br di E S f" "hurt br di E S (f([n] \<mapsto> Folder))"
  shows "wp br di (fs_create_dir_all [n, k]) Q E S f"
proof (rule wp_good)
  assume "good f"
  let ?f = "f([n] \<mapsto> Folder)"
  have folder: "f [n] = None \<or> f [n] = Some Folder" "f [n, k] = None \<or> f [n, k] = Some Folder"
    using assms(1,2) good_no_link [OF \<open>good f\<close>] by (metis entry.exhaust not_None_eq)+
  have second: "wp br di (fs_create_dir [n, k]) (\<lambda>_. wp br di (ret ()) Q E S) E S ?f"
  proof (rule wp_create_dir)
    assume "?f [n, k] \<noteq> None"
    then have "f [n, k] = Some Folder" using folder(2) by auto
    then have "?f = ?f([n, k] \<mapsto> Folder)" by (simp add: fun_eq_iff)
    then have "Q () ?f" using assms(3) by simp
    then show "wp br di (ret ()) Q E S ?f" by simp
  qed (use assms in \<open>auto simp: folder_at_def\<close>)
  have "wp br di (fs_create_dir [n])
     (\<lambda>_. wp br di (fs_create_dir [n, k]) (\<lambda>_. wp br di (ret ()) Q E S) E S) E S f"
  proof (rule wp_create_dir)
    assume "f [n] \<noteq> None"
    then have "f [n] = Some Folder" using folder(1) by auto
    then have "f = ?f" by (simp add: fun_eq_iff)
    then show "wp br di (fs_create_dir [n, k]) (\<lambda>_. wp br di (ret ()) Q E S) E S f"
      using second by simp
  qed (use assms second in \<open>auto simp: folder_at_def\<close>)
  then have "wp br di (fs_create_dir [n])
     (\<lambda>_. wp br di (then_io (fs_create_dir [n, k]) (ret ())) Q E S) E S f"
    by (rule wp_mono) (auto intro: wp_then)
  moreover have "map (\<lambda>i. take (Suc i) [n, k]) [0..<length [n, k]] = [[n], [n, k]]"
    by (simp add: upt_rec)
  ultimately show ?thesis
    unfolding fs_create_dir_all_def by (auto intro: wp_then)
qed

section \<open>Renaming\<close>

definition carried :: "path \<Rightarrow> path \<Rightarrow> disk \<Rightarrow> disk" where
  "carried s d f =
     (\<lambda>q. if under d q then f (s @ drop (length d) q) else if under s q then None else f q)"

lemma look_moved:
  assumes "\<not> under s d" "\<not> under d s"
  shows "look (moved s d t) = carried s d (look t)"
proof
  fix q
  show "look (moved s d t) q = carried s d (look t) q"
  proof (induction t)
    case (Cons pe t)
    obtain p e where pe: "pe = (p, e)" by fastforce
    have step: "under d p \<Longrightarrow> moved s d (pe # t) = moved s d t"
      "\<not> under d p \<Longrightarrow> under s p \<Longrightarrow> moved s d (pe # t) = (d @ drop (length s) p, e) # moved s d t"
      "\<not> under d p \<Longrightarrow> \<not> under s p \<Longrightarrow> moved s d (pe # t) = (p, e) # moved s d t"
      by (simp_all add: moved_def pe)
    consider "under d p" | "\<not> under d p" "under s p" | "\<not> under d p" "\<not> under s p" by blast
    then show ?case
    proof cases
      case 1
      have "\<not> under s p \<or> True" by simp
      have "p \<noteq> s @ drop (length d) q" if "under d q"
      proof
        assume "p = s @ drop (length d) q"
        then have "under s p" by simp
        then show False using 1 assms by (auto simp: under_iff append_eq_append_conv2)
      qed
      then show ?thesis using 1 Cons step(1) by (auto simp: carried_def pe look_def)
    next
      case 2
      then obtain x where x: "p = s @ x" unfolding under_iff by blast
      show ?thesis
        using 2 Cons step(2) x by (auto simp: carried_def pe under_iff look_def)
    next
      case 3
      then show ?thesis using Cons step(3) by (auto simp: carried_def pe under_iff look_def)
    qed
  qed (simp add: moved_def carried_def look_def)
qed

lemma distinct_moved:
  assumes "distinct (hm_keys t)"
  shows "distinct (hm_keys (moved s d t))"
proof -
  let ?keys = "filter (\<lambda>p. \<not> under d p) (hm_keys t)"
  have "hm_keys (moved s d t) = map (\<lambda>p. if under s p then d @ drop (length s) p else p) ?keys"
    by (induction t) (auto simp: moved_def)
  moreover have "inj_on (\<lambda>p. if under s p then d @ drop (length s) p else p) (set ?keys)"
    by (rule inj_onI) (auto simp: under_iff split: if_splits)
  ultimately show ?thesis using assms by (simp add: distinct_map)
qed

lemma good_carried:
  assumes "good f" "f s = Some e" "\<not> under s d" "\<not> under d s" "folder_at f (butlast d)" "d \<noteq> []"
  shows "good (carried s d f)"
proof (rule goodI)
  have "s \<noteq> []" using assms(1,2) by auto
  then show "carried s d f [] = None"
    using assms by (auto simp: carried_def under_def)
  show "carried s d f p \<noteq> Some Link" for p
    using assms(1) by (auto simp: carried_def)
  fix p n assume *: "carried s d f (p @ [n]) \<noteq> None"
  show "folder_at (carried s d f) p"
  proof (cases "under d (p @ [n])")
    case True
    then consider "under d p" | "d = p @ [n]" by (auto simp: under_snoc)
    then show ?thesis
    proof cases
      case 1
      then obtain x where x: "p = d @ x" unfolding under_iff by blast
      then have "f ((s @ x) @ [n]) \<noteq> None" using * True by (simp add: carried_def)
      then have "folder_at f (s @ x)" by (rule good_above [OF assms(1)])
      then show ?thesis using x \<open>s \<noteq> []\<close> assms(6) by (auto simp: folder_at_def carried_def)
    next
      case 2
      then have "folder_at f p" using assms(5) by simp
      moreover have "\<not> under s p" using 2 assms(3) by (auto simp: under_snoc)
      moreover have "\<not> under d p" using 2 by (auto simp: under_iff)
      ultimately show ?thesis by (auto simp: folder_at_def carried_def)
    qed
  next
    case False
    then have "f (p @ [n]) \<noteq> None" "\<not> under s (p @ [n])" using * by (auto simp: carried_def split: if_splits)
    then have "folder_at f p" "\<not> under s p" "\<not> under d p"
      using good_above [OF assms(1)] False by (auto simp: under_snoc)
    then show ?thesis by (auto simp: folder_at_def carried_def)
  qed
qed

lemma wp_rename:
  assumes "f s = None \<Longrightarrow> E IoNotFound f" "d \<noteq> []" "\<not> under s d" "\<not> under d s" "folder_at f (butlast d)"
    "f d = None \<or> (\<exists>b b'. f d = Some (File b) \<and> f s = Some (File b'))"
    "f s \<noteq> None \<Longrightarrow> Q () (carried s d f)" "hurt br di E S f"
  shows "wp br di (fs_rename s d) Q E S f"
  unfolding fs_rename_def
proof (rule wp_atomic)
  fix t assume t: "sound t" "look t = f"
  have "s \<noteq> d" using assms(3) by auto
  have "sound (moved s d t) \<and> look (moved s d t) = carried s d f" if "f s = Some e" for e
    using good_carried [OF sound_good [OF t] that assms(3,4,5,2)] distinct_moved [of t s d]
      look_moved [OF assms(3,4)] t by (simp add: sound_def)
  moreover have "can_replace t e d" if "f s = Some e" for e
    using that assms(5,6) t by (auto simp: can_replace_def)
  ultimately show "case case look t s of None \<Rightarrow> Inl IoNotFound
      | Some e \<Rightarrow> if s = d then Inr ((), t)
          else if under s d \<or> under d s \<or> \<not> can_replace t e d then Inl IoOther
          else Inr ((), moved s d t) of
    Inl k \<Rightarrow> E k f | Inr (x, t') \<Rightarrow> sound t' \<and> Q x (look t')"
    using assms t \<open>s \<noteq> d\<close> by (auto split: option.splits)
qed (rule assms)

text \<open>A file is carried alone.\<close>

lemma carried_file:
  assumes "good f" "f s = Some (File b)" "\<And>n. f (d @ [n]) = None" "\<not> under s d" "\<not> under d s"
  shows "carried s d f = f(s := None, d \<mapsto> File b)"
proof -
  have leaf: "f (p @ x) = None" if "\<And>n. f (p @ [n]) = None" "x \<noteq> []" "p \<noteq> []" for p x
    using that(2)
  proof (induction x rule: rev_induct)
    case (snoc n x)
    then show ?case
      using that(1) good_above [OF assms(1), of "p @ x" n] that(3)
      by (cases "x = []"; cases "f (p @ x @ [n])") (auto simp: folder_at_def)
  qed simp
  have s: "s \<noteq> []" using assms(1,2) by auto
  have d: "d \<noteq> []" using assms(5) by (auto simp: under_def)
  have "f (s @ [n]) = None" for n
    using good_above [OF assms(1), of s n] assms(2) s by (cases "f (s @ [n])") (auto simp: folder_at_def)
  then have below_s: "f (s @ x) = None" if "x \<noteq> []" for x using leaf that s by blast
  have below_d: "f (d @ x) = None" if "x \<noteq> []" for x using leaf assms(3) that d by blast
  show ?thesis
  proof
    fix q
    consider x where "q = d @ x" | x where "q = s @ x" "\<not> under d q" | "\<not> under d q" "\<not> under s q"
      by (auto simp: under_iff)
    then show "carried s d f q = (f(s := None, d \<mapsto> File b)) q"
    proof cases
      case (1 x)
      then show ?thesis using assms below_s below_d by (cases "x = []") (auto simp: carried_def under_iff)
    next
      case (2 x)
      then show ?thesis using assms below_s by (cases "x = []") (auto simp: carried_def under_iff)
    next
      case 3
      then have "q \<noteq> s" "q \<noteq> d" by auto
      then show ?thesis using 3 by (simp add: carried_def)
    qed
  qed
qed

text \<open>
  A program that runs on the handle of one directory: what it does to the tree below the handle is what it
  does on that tree alone, and nothing outside of it changes.
\<close>

definition sub_at :: "path \<Rightarrow> disk \<Rightarrow> disk" where
  "sub_at d f = (\<lambda>p. if p = [] then None else f (d @ p))"

definition graft_at :: "path \<Rightarrow> disk \<Rightarrow> disk \<Rightarrow> disk" where
  "graft_at d g f = (\<lambda>p. if under d p \<and> p \<noteq> d then g (drop (length d) p) else f p)"

lemma sub_graft: "good g \<Longrightarrow> sub_at d (graft_at d g f) = g"
  by (auto simp: sub_at_def graft_at_def fun_eq_iff)

lemma graft_sub [simp]: "graft_at d (sub_at d f) f = f"
  by (auto simp: sub_at_def graft_at_def fun_eq_iff under_iff)

lemma graft_outside: "\<not> under d p \<Longrightarrow> graft_at d g f p = f p"
  by (simp add: graft_at_def)

text \<open>A directory elsewhere.\<close>

lemma sub_graft_apart:
  assumes "\<not> under d e" "\<not> under e d"
  shows "sub_at e (graft_at d g f) = sub_at e f"
proof -
  have "\<not> under d (e @ p)" for p
    using assms by (auto simp: under_iff append_eq_append_conv2)
  then show ?thesis by (simp add: sub_at_def graft_at_def fun_eq_iff)
qed

lemma look_subtree: "look (subtree d t) = sub_at d (look t)"
proof
  fix q
  show "look (subtree d t) q = sub_at d (look t) q"
  proof (induction t)
    case (Cons pe t)
    obtain p e where pe: "pe = (p, e)" by fastforce
    show ?case
    proof (cases "under d p \<and> p \<noteq> d")
      case True
      then obtain x where "p = d @ x" "x \<noteq> []" by (auto simp: under_iff)
      then show ?thesis using Cons by (auto simp: subtree_def look_def sub_at_def pe)
    next
      case False
      then have "p \<noteq> d @ q" if "q \<noteq> []" using that by auto
      then show ?thesis using Cons False by (auto simp: subtree_def look_def sub_at_def pe)
    qed
  qed (simp add: subtree_def look_def sub_at_def)
qed

lemma look_append: "look (s @ t) p = (case look s p of None \<Rightarrow> look t p | Some e \<Rightarrow> Some e)"
  by (auto simp: look_def map_add_def split: option.splits)

lemma look_graft:
  assumes "look s [] = None"
  shows "look (graft d s t) = graft_at d (look s) (look t)"
proof
  fix q
  have kept: "look (filter (\<lambda>(p, _). \<not> (under d p \<and> p \<noteq> d)) t) q = (if under d q \<and> q \<noteq> d then None else look t q)"
    by (induction t) (auto simp: look_def)
  have put: "look (map (\<lambda>(p, e). (d @ p, e)) s) q = (if under d q then look s (drop (length d) q) else None)"
    by (induction s) (auto simp: look_def under_iff)
  show "look (graft d s t) q = graft_at d (look s) (look t) q"
    unfolding graft_def look_append kept put using assms by (auto simp: graft_at_def split: option.splits)
qed

lemma good_sub_at:
  assumes "good f"
  shows "good (sub_at d f)"
proof (rule goodI)
  show "folder_at (sub_at d f) p" if "sub_at d f (p @ [n]) \<noteq> None" for p n
    using that good_above [OF assms, of "d @ p" n] by (auto simp: sub_at_def folder_at_def)
qed (use assms in \<open>auto simp: sub_at_def\<close>)

lemma good_graft_at:
  assumes "good f" "good g" "folder_at f d"
  shows "good (graft_at d g f)"
proof (rule goodI)
  show "graft_at d g f [] = None" using assms by (auto simp: graft_at_def under_def)
  show "graft_at d g f p \<noteq> Some Link" for p using assms(1,2) by (simp add: graft_at_def)
  fix p n assume *: "graft_at d g f (p @ [n]) \<noteq> None"
  show "folder_at (graft_at d g f) p"
  proof (cases "under d p")
    case True
    then obtain x where x: "p = d @ x" unfolding under_iff by blast
    then have "g (x @ [n]) \<noteq> None" using * by (simp add: graft_at_def)
    then have "folder_at g x" by (rule good_above [OF assms(2)])
    then show ?thesis using x assms(3) by (auto simp: folder_at_def graft_at_def)
  next
    case False
    then have "\<not> (under d (p @ [n]) \<and> p @ [n] \<noteq> d)" by (auto simp: under_snoc)
    then have "f (p @ [n]) \<noteq> None" using * by (simp add: graft_at_def split: if_splits)
    then have "folder_at f p" by (rule good_above [OF assms(1)])
    then show ?thesis using False by (simp add: folder_at_def graft_at_def)
  qed
qed

lemma sound_subtree: "sound t \<Longrightarrow> sound (subtree d t)"
proof -
  assume t: "sound t"
  have "hm_keys (subtree d t) = map (drop (length d)) (filter (\<lambda>p. under d p \<and> p \<noteq> d) (hm_keys t))"
    by (induction t) (auto simp: subtree_def)
  moreover have "inj_on (drop (length d)) (set (filter (\<lambda>p. under d p \<and> p \<noteq> d) (hm_keys t)))"
    by (rule inj_onI) (auto simp: under_iff)
  ultimately show ?thesis
    using t good_sub_at by (auto simp: sound_def look_subtree distinct_map)
qed

lemma sound_graft:
  assumes "sound t" "sound s" "folder_at (look t) d"
  shows "sound (graft d s t)" "look (graft d s t) = graft_at d (look s) (look t)"
proof -
  have root: "look s [] = None" using assms(2) by (simp add: sound_def)
  then show l: "look (graft d s t) = graft_at d (look s) (look t)" by (rule look_graft)
  have keys: "hm_keys (graft d s t) = filter (\<lambda>p. \<not> (under d p \<and> p \<noteq> d)) (hm_keys t) @ map ((@) d) (hm_keys s)"
    by (induction t) (auto simp: graft_def comp_def)
  have "[] \<notin> set (hm_keys s)" using root by (simp add: look_None_iff)
  then have "set (filter (\<lambda>p. \<not> (under d p \<and> p \<noteq> d)) (hm_keys t)) \<inter> set (map ((@) d) (hm_keys s)) = {}"
    by (auto simp: image_iff)
  moreover have "distinct (map ((@) d) (hm_keys s))"
    using assms(2) by (simp add: sound_def distinct_map inj_on_def)
  ultimately have "distinct (hm_keys (graft d s t))"
    using assms(1) by (simp only: keys distinct_append) (simp add: sound_def)
  then show "sound (graft d s t)"
    using assms l good_graft_at by (simp add: sound_def)
qed

lemma wp_within:
  assumes "folder_at f d"
    "wp br di c (\<lambda>x g. Q x (graft_at d g f)) (\<lambda>e g. E e (graft_at d g f)) (\<lambda>g. S (graft_at d g f)) (sub_at d f)"
  shows "wp br di (within d c) Q E S f"
proof (rule wpI)
  fix m :: machine assume m: "sound (m_tree m)" "look (m_tree m) = f" "allowed br di (m_fates m)"
  let ?m = "m\<lparr>m_tree := subtree d (m_tree m)\<rparr>"
  obtain r m' where c: "c ?m = (r, m')" by fastforce
  have "ends br di (\<lambda>x g. Q x (graft_at d g f)) (\<lambda>e g. E e (graft_at d g f)) (\<lambda>g. S (graft_at d g f)) (c ?m)"
    by (rule wpD [OF assms(2)]) (use m sound_subtree in \<open>simp_all add: look_subtree\<close>)
  moreover have "within d c m = (r, m'\<lparr>m_tree := graft d (m_tree m') (m_tree m)\<rparr>)"
    by (simp add: within_def c)
  ultimately show "ends br di Q E S (within d c m)"
    using sound_graft [OF m(1), of "m_tree m'" d] assms(1) m(2) by (cases r) (simp_all add: c)
qed

section \<open>Making the way to a directory\<close>

definition made :: "path \<Rightarrow> disk \<Rightarrow> disk" where
  "made p f = (\<lambda>q. if q \<noteq> [] \<and> under q p then Some Folder else f q)"

definition can_make :: "path \<Rightarrow> disk \<Rightarrow> bool" where
  "can_make p f \<longleftrightarrow> (\<forall>q b. under q p \<longrightarrow> f q \<noteq> Some (File b))"

lemma under_take_Suc: "i < length p \<Longrightarrow> under q (take (Suc i) p) \<longleftrightarrow> under q (take i p) \<or> q = take (Suc i) p"
  by (simp add: take_Suc_conv_app_nth under_snoc)

lemma wp_create_dir_all:
  assumes "can_make p f" "Q () (made p f)" "\<And>i. i \<le> length p \<Longrightarrow> hurt br di E S (made (take i p) f)"
  shows "wp br di (fs_create_dir_all p) Q E S f"
  unfolding fs_create_dir_all_def
proof (rule wp_each [where Inv = "\<lambda>ys g. g = made (take (length ys) p) f"])
  show "f = made (take (length []) p) f" by (auto simp: made_def under_def)
  show "Q () g" if "g = made (take (length (map (\<lambda>n. take (Suc n) p) [0..<length p])) p) f" for g
    using that assms(2) by simp
  fix x ys zs g
  assume xs: "map (\<lambda>n. take (Suc n) p) [0..<length p] = ys @ x # zs" and g: "g = made (take (length ys) p) f"
  let ?i = "length ys"
  have i: "?i < length p" using arg_cong [OF xs, of length] by simp
  have x: "x = take (Suc ?i) p"
  proof -
    have "x = map (\<lambda>n. take (Suc n) p) [0..<length p] ! ?i" by (simp only: xs nth_append_length)
    then show ?thesis using i by simp
  qed
  have parent: "butlast x = take ?i p" using i x by (simp add: take_Suc_conv_app_nth)
  have next_: "made (take (Suc ?i) p) f = (made (take ?i p) f)(x \<mapsto> Folder)"
    using under_take_Suc [OF i] i x by (auto simp: made_def fun_eq_iff)
  have bare: "g x \<noteq> Some (File b)" for b
  proof -
    have "under x p" using x i by (simp add: under_def min_def)
    then show ?thesis using assms(1) by (simp add: g made_def can_make_def)
  qed
  show "wp br di (fs_create_dir x) (\<lambda>_ g. g = made (take (length (ys @ [x])) p) f) E S g"
  proof (rule wp_good, rule wp_create_dir)
    assume good: "good g"
    show "x \<noteq> []" using x i by auto
    show "folder_at g (butlast x)" by (simp add: parent g folder_at_def made_def)
    show "g x \<noteq> Some (File b)" for b by (rule bare)
    show "g = made (take (length (ys @ [x])) p) f" if there: "g x \<noteq> None"
    proof -
      have "g x = Some Folder"
        using there bare good_no_link [OF good, of x] by (cases "g x") (auto, metis entry.exhaust)
      then show ?thesis using next_ g by (simp add: fun_upd_idem)
    qed
  qed (use next_ g i assms(3) [of ?i] in simp_all)
qed

lemma under_take: "under (take i d) d"
  by (metis append_take_drop_id under_append)

lemma under_length: "under a b \<Longrightarrow> length a \<le> length b"
  by (auto simp: under_iff)

text \<open>Nothing changes but the directory and the way to it.\<close>

definition apart :: "path \<Rightarrow> disk \<Rightarrow> disk \<Rightarrow> bool" where
  "apart d f g \<longleftrightarrow> (\<forall>p. \<not> under d p \<longrightarrow> \<not> under p d \<longrightarrow> g p = f p)"

lemma apart_made: "apart d f (made (take i d) f)"
proof -
  have "\<not> under p (take i d)" if "\<not> under p d" for p
    using that under_trans [OF _ under_take] by blast
  then show ?thesis by (auto simp: apart_def made_def)
qed

lemma apart_graft: "apart d f g \<Longrightarrow> apart d f (graft_at d k g)"
  by (simp add: apart_def graft_at_def)

lemma sub_made: "sub_at d (made (take i d) f) = sub_at d f"
proof -
  have "\<not> under (d @ p) (take i d)" if "p \<noteq> []" for p
  proof
    assume "under (d @ p) (take i d)"
    then have "length (d @ p) \<le> length d" using under_length under_take le_trans by blast
    then show False using that by simp
  qed
  then show ?thesis by (auto simp: sub_at_def made_def fun_eq_iff)
qed

lemma can_make_made: "can_make d f \<Longrightarrow> can_make d (made (take i d) f)"
  by (simp add: can_make_def made_def)

lemma can_make_graft: "can_make d f \<Longrightarrow> can_make d (graft_at d g f)"
proof -
  assume m: "can_make d f"
  have "q = d" if "under q d" "under d q" for q using that by (auto simp: under_iff)
  then show ?thesis using m by (auto simp: can_make_def graft_at_def)
qed

lemma apart_sub:
  assumes "apart d f g" "\<not> under d e" "\<not> under e d"
  shows "sub_at e g = sub_at e f"
proof -
  have "\<not> under d (e @ p)" "\<not> under (e @ p) d" for p
    using assms(2,3) by (auto simp: under_iff append_eq_append_conv2)
  then show ?thesis using assms(1) by (simp add: sub_at_def apart_def fun_eq_iff)
qed

end
