(* ===== verification/Dataset_Rules.thy ===== *)
theory Dataset_Rules
  imports Dataset_Adapter Disk_Rules
begin

text \<open>The rules of the calculus for the file utilities of the dataset protocol.\<close>

section \<open>Harm\<close>

definition benign :: "storage_error \<Rightarrow> bool" where
  "benign e \<longleftrightarrow> e \<in> {StorageIo, PermissionDenied, UnsupportedDurability}"

definition harm ::
  "bool \<Rightarrow> bool \<Rightarrow> (storage_error \<Rightarrow> disk \<Rightarrow> bool) \<Rightarrow> (disk \<Rightarrow> bool) \<Rightarrow> disk \<Rightarrow> bool" where
  "harm br di E S f \<longleftrightarrow> (br \<longrightarrow> (\<forall>e. benign e \<longrightarrow> E e f)) \<and> (di \<longrightarrow> S f)"

lemma benign_simps [simp]:
  "benign StorageIo" "benign PermissionDenied" "benign UnsupportedDurability" "benign (map_io k)" "benign (map_sync k)"
  "benign (map_lock_io k)"
  by (simp_all add: benign_def map_io_def map_sync_def map_lock_io_def)

lemma benign_not_corruption: "benign e \<Longrightarrow> \<not> is_corruption e"
  by (auto simp: benign_def)

lemma hurt_map_io [simp]: "harm br di E S f \<Longrightarrow> hurt br di (\<lambda>k. E (map_io k)) S f"
  by (simp add: harm_def hurt_def)

lemma hurt_map_sync [simp]: "harm br di E S f \<Longrightarrow> hurt br di (\<lambda>k. E (map_sync k)) S f"
  by (simp add: harm_def hurt_def)

lemma hurt_map_lock [simp]: "harm br di E S f \<Longrightarrow> hurt br di (\<lambda>k. E (map_lock_io k)) S f"
  by (simp add: harm_def hurt_def)

lemma harmI: "(\<And>e. br \<Longrightarrow> benign e \<Longrightarrow> E e f) \<Longrightarrow> (di \<Longrightarrow> S f) \<Longrightarrow> harm br di E S f"
  by (simp add: harm_def)

lemma map_io_simps [simp]:
  "map_io IoNotFound = StorageIo" "map_io IoExists = StorageIo" "map_io IoOther = StorageIo"
  "map_io IoDenied = PermissionDenied"
  by (simp_all add: map_io_def)

lemma harm_fail [simp]: "harm True di E S f \<Longrightarrow> benign e \<Longrightarrow> wp True di (fail e) Q E S f"
  by (simp add: harm_def)

lemma harm_dies: "harm br di E S f \<Longrightarrow> di \<Longrightarrow> S f"
  by (simp add: harm_def)

lemma harmE: "harm br di E S f \<Longrightarrow> br \<Longrightarrow> benign e \<Longrightarrow> E e f"
  by (simp add: harm_def)

section \<open>Looking\<close>

text \<open>A \<open>symlink_metadata\<close> whose result is inspected.\<close>

lemma wp_attempt_stat:
  assumes "p \<noteq> []" "harm br di E S f"
    "f p = None \<Longrightarrow> wp br di (k (Inl IoNotFound)) Q E S f"
    "\<And>e. f p = Some e \<Longrightarrow> e \<noteq> Link \<Longrightarrow> wp br di (k (Inr e)) Q E S f"
    "\<And>i. br \<Longrightarrow> i \<noteq> IoNotFound \<Longrightarrow> wp br di (k (Inl i)) Q E S f"
  shows "wp br di (bind_io (attempt (fs_stat p)) k) Q E S f"
proof (rule wp_good, rule wp_bind, rule wp_attempt, rule wp_stat)
  show "hurt br di (\<lambda>e. wp br di (k (Inl e)) Q E S) S f"
    using assms(2,5) by (auto simp: hurt_def harm_def)
  show "wp br di (k (Inr e)) Q E S f" if "good f" "f p = Some e" for e
    using assms(4) that good_no_link by blast
qed (use assms in auto)

lemma wp_exists:
  assumes "p \<noteq> []" "Q (f p \<noteq> None) f" "harm br di E S f"
  shows "wp br di (exists_io p) Q E S f"
  unfolding exists_io_def
  by (rule wp_attempt_stat) (use assms in \<open>auto split: entry.splits io_kind.splits\<close>)

lemma wp_reject:
  assumes "p \<noteq> []" "Q () f" "harm br di E S f"
  shows "wp br di (reject_symlink p) Q E S f"
  unfolding reject_symlink_def
  by (rule wp_attempt_stat) (use assms in \<open>auto split: entry.splits io_kind.splits\<close>)

lemma wp_read_file:
  assumes "p \<noteq> []" "\<And>b. f p = Some (File b) \<Longrightarrow> Q (Some b) f" "f p = None \<Longrightarrow> Q None f"
    "f p \<noteq> Some Folder" "harm br di E S f"
  shows "wp br di (read_file p) Q E S f"
  unfolding read_file_def
proof (rule wp_then, rule wp_reject)
  show "wp br di (bind_io (attempt (fs_read p)) (\<lambda>r. case r of Inl IoNotFound \<Rightarrow> ret None
      | Inl k \<Rightarrow> fail (map_io k) | Inr b \<Rightarrow> ret (Some b))) Q E S f"
    by (rule wp_bind, rule wp_attempt, rule wp_read)
      (use assms in \<open>auto simp: hurt_def dest: harm_dies\<close>)
qed (use assms in auto)

lemma wp_sync_dir:
  assumes "Q () f" "harm br di E S f"
  shows "wp br di sync_dir Q E S f"
  unfolding sync_dir_def by (intro wp_then wp_map_fail wp_open wp_sync) (use assms in auto)

lemma wp_sync_root:
  assumes "Q () f" "hurt br di E S f"
  shows "wp br di sync_root Q E S f"
  unfolding sync_root_def by (intro wp_then wp_open wp_sync) (use assms in auto)

lemma wp_sync_subdir:
  assumes "p \<noteq> []" "Q () f" "harm br di E S f"
  shows "wp br di (sync_subdir p) Q E S f"
  unfolding sync_subdir_def
proof (rule wp_then, rule wp_reject)
  have "wp br di (map_fail map_sync (fs_sync p)) Q E S f"
    by (intro wp_map_fail wp_sync) (use assms in auto)
  then show "wp br di (bind_io (attempt (fs_open p)) (\<lambda>r. case r of Inl IoNotFound \<Rightarrow> ret ()
      | Inl k \<Rightarrow> fail (map_io k) | Inr _ \<Rightarrow> map_fail map_sync (fs_sync p))) Q E S f"
    by (intro wp_bind wp_attempt wp_open) (use assms in \<open>auto simp: hurt_def dest: harm_dies\<close>)
qed (use assms in auto)

section \<open>Changing\<close>

lemma wp_write_new_file:
  assumes "p \<noteq> []" "f p \<noteq> None \<Longrightarrow> E StorageIo f" "folder_at f (butlast p)" "f p = None \<Longrightarrow> Q () (f(p \<mapsto> File b))"
    "harm br di E S f" "\<And>k. f p = None \<Longrightarrow> harm br di E S (f(p \<mapsto> File (take k b)))"
  shows "wp br di (write_new_file p b) Q E S f"
  unfolding write_new_file_def
proof (rule wp_then, rule wp_reject [OF assms(1) _ assms(5)], rule wp_then, rule wp_map_fail, rule wp_create_new)
  assume none: "f p = None"
  have full: "harm br di E S (f(p \<mapsto> File b))" using assms(6) [OF none, of "length b"] by simp
  have "wp br di (fs_write p b) (\<lambda>_. wp br di (map_fail map_sync (fs_sync p)) Q E S)
      (\<lambda>k. E (map_io k)) S (f(p \<mapsto> File []))"
    by (rule wp_write) (use assms(4,6) full none in \<open>auto intro!: wp_map_fail wp_sync\<close>)
  then show "wp br di (then_io (map_fail map_io (fs_write p b)) (map_fail map_sync (fs_sync p))) Q E S
      (f(p \<mapsto> File []))"
    by (intro wp_then wp_map_fail)
qed (use assms in auto)

lemma wp_rename_io:
  assumes "f s = None \<Longrightarrow> E StorageIo f" "d \<noteq> []" "\<not> under s d" "\<not> under d s" "folder_at f (butlast d)"
    "f d = None \<or> (\<exists>b b'. f d = Some (File b) \<and> f s = Some (File b'))"
    "f s \<noteq> None \<Longrightarrow> Q () (carried s d f)" "harm br di E S f"
  shows "wp br di (rename_io s d) Q E S f"
  unfolding rename_io_def
  by (rule wp_map_fail, rule wp_rename) (use assms in auto)

lemma wp_remove_dir:
  assumes "f d = Some Folder" "Q () (pruned d f)" "\<And>g. good g \<Longrightarrow> partly d f g \<Longrightarrow> harm br di E S g"
  shows "wp br di (remove_dir_all d) Q E S f"
  unfolding remove_dir_all_def
  by (rule wp_map_fail, rule wp_remove_dir_all) (use assms in auto)

text \<open>Nothing is left of a directory but what was there.\<close>

lemma wp_ignore_remove_dir:
  assumes "\<And>g. good g \<Longrightarrow> partly d f g \<Longrightarrow> Q () g" "\<And>g. di \<Longrightarrow> good g \<Longrightarrow> partly d f g \<Longrightarrow> S g"
  shows "wp br di (ignore (fs_remove_dir_all d)) Q E S f"
proof (rule wp_good)
  assume "good f"
  show ?thesis
  proof (rule wp_ignore, rule wp_remove_dir_all)
    assume d: "f d = Some Folder"
    show "Q () (pruned d f)"
    proof (rule assms(1))
      show "good (pruned d f)"
      proof (rule goodI)
        show "folder_at (pruned d f) p" if "pruned d f (p @ [n]) \<noteq> None" for p n
          using that good_above [OF \<open>good f\<close>, of p n]
          by (auto simp: pruned_def folder_at_def under_snoc split: if_splits)
      qed (use \<open>good f\<close> in \<open>auto simp: pruned_def\<close>)
    qed simp
  qed (use assms \<open>good f\<close> in \<open>auto simp: hurt_def dest: harm_dies\<close>)
qed

lemma wp_create_dir1:
  assumes "\<And>b. f [n] \<noteq> Some (File b)" "Q () (f([n] \<mapsto> Folder))" "harm br di E S f"
  shows "wp br di (create_dir_all [n]) Q E S f"
  unfolding create_dir_all_def
  by (rule wp_map_fail, rule wp_create_dir_all1) (use assms in auto)

lemma wp_create_dir2:
  assumes "\<And>b. f [n] \<noteq> Some (File b)" "\<And>b. f [n, k] \<noteq> Some (File b)"
    "Q () (f([n] \<mapsto> Folder, [n, k] \<mapsto> Folder))" "harm br di E S f" "harm br di E S (f([n] \<mapsto> Folder))"
  shows "wp br di (create_dir_all [n, k]) Q E S f"
  unfolding create_dir_all_def
  by (rule wp_map_fail, rule wp_create_dir_all2) (use assms in auto)

lemma file_below_none:
  assumes "good f" "f p = None \<or> (\<exists>b. f p = Some (File b))" "p \<noteq> []"
  shows "f (p @ [n]) = None"
  using good_above [OF assms(1), of p n] assms(2,3) by (cases "f (p @ [n])") (auto simp: folder_at_def)

lemma wp_write_beside:
  assumes "stage \<noteq> []" "target \<noteq> []" "\<not> under stage target" "\<not> under target stage"
    "folder_at f (butlast stage)" "folder_at f (butlast target)"
    "f stage \<noteq> Some Folder" "f target \<noteq> Some Folder"
    "Q () (f(stage := None, target \<mapsto> File b))"
    "\<And>x. x \<noteq> Some Folder \<Longrightarrow> harm br di E S (f(stage := x))"
  shows "wp br di (write_beside stage target b) Q E S f"
proof (rule wp_good)
  assume good: "good f"
  have "butlast stage \<noteq> stage"
    using assms(1) by (metis append_butlast_last_id append_self_conv not_Cons_self2)
  moreover have "butlast target \<noteq> stage"
    using assms(3) under_butlast [of stage target] by auto
  moreover have parents: "stage \<noteq> target" using assms(3) by auto
  ultimately have folders: "folder_at (f(stage := x)) (butlast stage)" "folder_at (f(stage := x)) (butlast target)" for x
    using assms(5,6) by (auto simp: folder_at_def)
  have harms: "harm br di E S f" using assms(10) [of "f stage"] assms(7) by simp
  have finish: "wp br di (then_io (write_new_file stage b) (then_io (reject_symlink target) (rename_io stage target)))
      Q E S (f(stage := x))" if x: "x = None \<or> br \<and> x \<noteq> Some Folder" for x
  proof (rule wp_then, rule wp_write_new_file [OF assms(1)])
    assume "(f(stage := x)) stage = None"
    then have "x = None" by simp
    have last: "wp br di (rename_io stage target) Q E S (f(stage \<mapsto> File b))"
    proof (rule wp_good, rule wp_rename_io)
      assume "good (f(stage \<mapsto> File b))"
      moreover have "(f(stage \<mapsto> File b)) (target @ [n]) = None" for n
        using file_below_none [OF calculation, of target n] assms(2) file_or_none [OF good assms(8)] \<open>stage \<noteq> target\<close>
        by auto
      ultimately have "carried stage target (f(stage \<mapsto> File b)) = f(stage := None, target \<mapsto> File b)"
        using carried_file [of "f(stage \<mapsto> File b)" stage b target] assms(3,4) by simp
      then show "Q () (carried stage target (f(stage \<mapsto> File b)))" using assms(9) by simp
      show "(f(stage \<mapsto> File b)) target = None \<or>
          (\<exists>c d. (f(stage \<mapsto> File b)) target = Some (File c) \<and> (f(stage \<mapsto> File b)) stage = Some (File d))"
        using file_or_none [OF good assms(8)] \<open>stage \<noteq> target\<close> by auto
    qed (use assms(1-4) folders(2) assms(10) in \<open>simp_all\<close>)
    then show "wp br di (then_io (reject_symlink target) (rename_io stage target)) Q E S
        ((f(stage := x))(stage \<mapsto> File b))"
      using assms(2,10) by (intro wp_then wp_reject) simp_all
  next
    show hx: "harm br di E S (f(stage := x))" using x assms(10) [of x] by auto
    show "E StorageIo (f(stage := x))" if "(f(stage := x)) stage \<noteq> None"
    proof -
      have br using that x by auto
      then show ?thesis by (rule harmE [OF hx]) simp
    qed
    show "harm br di E S ((f(stage := x))(stage \<mapsto> File (take k b)))" for k
      using assms(10) [of "Some (File (take k b))"] by simp
    show "folder_at (f(stage := x)) (butlast stage)" by (rule folders)
  qed
  show ?thesis
    unfolding write_beside_def
  proof (rule wp_then, rule wp_ignore, rule wp_remove_file)
    assume "f stage = None"
    then show "wp br di (then_io (write_new_file stage b) (then_io (reject_symlink target) (rename_io stage target)))
      Q E S f"
      using finish [of None] by (simp add: fun_upd_idem)
  next
    show "hurt br di (\<lambda>_. wp br di (then_io (write_new_file stage b)
        (then_io (reject_symlink target) (rename_io stage target))) Q E S) S f"
      using finish [of "f stage"] assms(7) harms by (auto simp: hurt_def harm_def)
  qed (use finish [of None] assms(7) in simp_all)
qed

section \<open>Records\<close>

definition host_ok :: "host \<Rightarrow> bool" where
  "host_ok h \<longleftrightarrow>
     (\<forall>b. length (h_sha256 h b) = 32 \<and> (\<forall>x \<in> set (h_sha256 h b). x < 256)) \<and>
     (\<forall>r. h_decode_manifest h (h_encode_manifest h r) = Some r) \<and>
     (\<forall>j. h_decode_journal h (h_encode_journal h j) = Some j)"

lemma wp_read_manifest:
  assumes "\<And>b r. f (g @ [manifest_file]) = Some (File b) \<Longrightarrow> h_decode_manifest h b = Some r \<Longrightarrow> Q (Some r) f"
    "\<And>b. f (g @ [manifest_file]) = Some (File b) \<Longrightarrow> h_decode_manifest h b = None \<Longrightarrow> E StorageIo f"
    "f (g @ [manifest_file]) = None \<Longrightarrow> Q None f"
    "f (g @ [manifest_file]) \<noteq> Some Folder" "harm br di E S f"
  shows "wp br di (read_manifest h g) Q E S f"
  unfolding read_manifest_def
  by (rule wp_bind, rule wp_read_file) (use assms in \<open>auto split: option.splits\<close>)

lemma wp_generation_revision:
  assumes "\<And>b r. f [g, manifest_file] = Some (File b) \<Longrightarrow> h_decode_manifest h b = Some r \<Longrightarrow> Q (Some (mr_revision r)) f"
    "\<And>b. f [g, manifest_file] = Some (File b) \<Longrightarrow> h_decode_manifest h b = None \<Longrightarrow> E StorageIo f"
    "f [g, manifest_file] = None \<Longrightarrow> Q None f"
    "f [g, manifest_file] \<noteq> Some Folder" "harm br di E S f"
  shows "wp br di (generation_revision h g) Q E S f"
  unfolding generation_revision_def
  by (rule wp_bind, rule wp_read_manifest) (use assms in auto)

lemma wp_remove_journal:
  assumes "Q () (f([journal_file] := None))" "f [journal_file] \<noteq> Some Folder" "harm br di E S f"
  shows "wp br di remove_journal Q E S f"
  unfolding remove_journal_def
proof (rule wp_bind, rule wp_attempt, rule wp_remove_file)
  assume "f [journal_file] = None"
  then show "wp br di (case Inl IoNotFound of Inl IoNotFound \<Rightarrow> ret () | Inl k \<Rightarrow> fail (map_io k)
      | Inr _ \<Rightarrow> ret ()) Q E S f"
    using assms(1) by (simp add: fun_upd_idem)
qed (use assms in \<open>auto simp: hurt_def harm_def\<close>)

end
