(* ===== verification/Dataset_State.thy ===== *)
theory Dataset_State
  imports Dataset_Rules
begin

text \<open>
  What a disk means. A generation is the list of its members in the order of their names. \<open>settled\<close> describes
  the disks with a current and a previous generation and no transaction; \<open>pending\<close> those on which a commit has
  passed its logical point and the next recovery has to finish it. Both look at few paths only, so whatever a
  step does elsewhere keeps them (\<open>settled_cong\<close>, \<open>pending_cong\<close>).
\<close>

section \<open>Generations\<close>

type_synonym generation = "dataset_member list"

definition revision_of :: "host \<Rightarrow> generation \<Rightarrow> bytes" where
  "revision_of h M = from_canonical_members h M"

definition record_of :: "host \<Rightarrow> generation \<Rightarrow> manifest_record" where
  "record_of h M =
     \<lparr>mr_revision = encode_revision (revision_of h M), mr_members = map me_name M,
      mr_evidence = map (evidence_record \<circ> new_journal_member h) M\<rparr>"

abbreviation manifest_bytes :: "host \<Rightarrow> generation \<Rightarrow> bytes" where
  "manifest_bytes h M \<equiv> h_encode_manifest h (record_of h M)"

definition canonical :: "generation \<Rightarrow> bool" where
  "canonical M \<longleftrightarrow> sorted (map me_name M) \<and> distinct (map me_name M) \<and> (\<forall>m \<in> set M. safe_segment (me_name m))"

definition members_of :: "generation option \<Rightarrow> generation" where
  "members_of g = (case g of None \<Rightarrow> [] | Some M \<Rightarrow> M)"

text \<open>The generation that is kept when a new one is committed.\<close>

definition kept :: "generation option \<Rightarrow> generation option \<Rightarrow> generation option" where
  "kept cur prev = (case cur of None \<Rightarrow> prev | Some _ \<Rightarrow> cur)"

abbreviation digest_of :: "host \<Rightarrow> dataset_member \<Rightarrow> ustr" where
  "digest_of h m \<equiv> digest_bytes h (me_bytes m)"

text \<open>The journal of the commit that replaces \<open>cur\<close> by \<open>N\<close>.\<close>

definition journal_of :: "host \<Rightarrow> ustr \<Rightarrow> generation option \<Rightarrow> generation \<Rightarrow> dataset_journal" where
  "journal_of h u cur N =
     commit_journal u (revision_of h (members_of cur)) (revision_of h N) (map (new_journal_member h) N)"

text \<open>SHA-256 yields 32 bytes, the codec reads back what it wrote, no collision among the contents in play.\<close>

definition fair :: "host \<Rightarrow> bytes set \<Rightarrow> bool" where
  "fair h B \<longleftrightarrow> host_ok h \<and> inj_on (digest_bytes h) B"

section \<open>The type of a path\<close>

definition is_slot :: "ustr \<Rightarrow> bool" where
  "is_slot n \<longleftrightarrow> n = primary_dir \<or> n = previous_dir \<or> n = previous_next_dir \<or> under swap_prefix n"

definition dotted :: "ustr \<Rightarrow> bool" where
  "dotted n \<longleftrightarrow> n \<noteq> [] \<and> hd n = 46"

text \<open>No barrier, no blobs of the legacy layout, and every name of the protocol has the type it should have.\<close>

fun fits :: "path \<Rightarrow> entry \<Rightarrow> bool" where
  "fits [n] e \<longleftrightarrow>
     n \<noteq> corruption_marker \<and> \<not> under (journal_file @ corrupt_infix) n \<and>
     (n = members_dir \<or> is_slot n \<longrightarrow> e = Folder) \<and>
     (n = journal_file \<or> n = lock_file \<or> under journal_prefix n \<longrightarrow> e \<noteq> Folder)"
| "fits [d, n] e \<longleftrightarrow>
     (is_slot d \<longrightarrow> n \<noteq> blobs_dir) \<and>
     (is_slot d \<or> under stage_prefix d \<longrightarrow> n = manifest_file \<or> dotted n \<longrightarrow> e \<noteq> Folder)"
| "fits _ e \<longleftrightarrow> True"

definition tidy :: "disk \<Rightarrow> bool" where
  "tidy f \<longleftrightarrow> (\<forall>p e. f p = Some e \<longrightarrow> fits p e)"

lemma tidyD: "tidy f \<Longrightarrow> f p = Some e \<Longrightarrow> fits p e"
  by (simp add: tidy_def)

lemma tidy_insert [simp, intro]: "tidy f \<Longrightarrow> fits p e \<Longrightarrow> tidy (f(p \<mapsto> e))"
  by (simp add: tidy_def)

lemma tidy_delete [simp, intro]: "tidy f \<Longrightarrow> tidy (f(p := None))"
  by (simp add: tidy_def)

lemma tidy_update: "tidy f \<Longrightarrow> (\<And>e. x = Some e \<Longrightarrow> fits p e) \<Longrightarrow> tidy (f(p := x))"
  by (cases x) auto

lemma tidy_partly: "tidy f \<Longrightarrow> partly d f g \<Longrightarrow> tidy g"
  unfolding tidy_def partly_def by (metis option.distinct(1))

lemma tidy_pruned: "tidy f \<Longrightarrow> tidy (pruned d f)"
  using tidy_partly partly_pruned by blast

section \<open>Names are different\<close>

lemma file_names_distinct [simp]:
  "primary_dir \<noteq> previous_dir" "primary_dir \<noteq> previous_next_dir" "previous_dir \<noteq> previous_next_dir"
  "previous_dir \<noteq> primary_dir" "previous_next_dir \<noteq> primary_dir" "previous_next_dir \<noteq> previous_dir"
  "members_dir \<noteq> primary_dir" "members_dir \<noteq> previous_dir" "members_dir \<noteq> previous_next_dir"
  "primary_dir \<noteq> members_dir" "previous_dir \<noteq> members_dir" "previous_next_dir \<noteq> members_dir"
  "journal_file \<noteq> primary_dir" "journal_file \<noteq> previous_dir" "journal_file \<noteq> previous_next_dir"
  "journal_file \<noteq> members_dir" "journal_file \<noteq> corruption_marker" "corruption_marker \<noteq> journal_file"
  "primary_dir \<noteq> journal_file" "previous_dir \<noteq> journal_file" "previous_next_dir \<noteq> journal_file"
  "members_dir \<noteq> journal_file" "corruption_marker \<noteq> primary_dir" "corruption_marker \<noteq> previous_dir"
  "corruption_marker \<noteq> previous_next_dir" "corruption_marker \<noteq> members_dir"
  "primary_dir \<noteq> corruption_marker" "previous_dir \<noteq> corruption_marker"
  "previous_next_dir \<noteq> corruption_marker" "members_dir \<noteq> corruption_marker"
  "members_dir \<noteq> manifest_file" "manifest_file \<noteq> members_dir"
  "manifest_file \<noteq> blobs_dir" "blobs_dir \<noteq> manifest_file"
  "lock_file \<noteq> primary_dir" "lock_file \<noteq> previous_dir" "lock_file \<noteq> previous_next_dir"
  "lock_file \<noteq> members_dir" "lock_file \<noteq> journal_file" "lock_file \<noteq> corruption_marker"
  "primary_dir \<noteq> lock_file" "previous_dir \<noteq> lock_file" "previous_next_dir \<noteq> lock_file"
  "members_dir \<noteq> lock_file" "journal_file \<noteq> lock_file"
  by (simp_all add: file_names lit_def)

lemma dotted_names [simp]:
  "\<not> dotted primary_dir" "\<not> dotted previous_dir" "\<not> dotted previous_next_dir" "\<not> dotted members_dir"
  "\<not> dotted journal_file" "\<not> dotted corruption_marker" "\<not> dotted manifest_file" "\<not> dotted blobs_dir"
  "\<not> dotted lock_file"
  "dotted (stage_dir i)" "dotted (swap_dir i)" "dotted (journal_prefix @ i)" "dotted (manifest_prefix @ i)"
  by (simp_all add: dotted_def file_names lit_def stage_dir_def swap_dir_def)

text \<open>A name with a dot is none of the names without.\<close>

lemma dotted_apart:
  "dotted n \<Longrightarrow> n \<notin> {primary_dir, previous_dir, previous_next_dir, members_dir, journal_file, lock_file,
    corruption_marker, manifest_file, blobs_dir}"
  by auto

lemma transient_neq [simp]:
  assumes "dotted n"
  shows "n \<noteq> primary_dir" "n \<noteq> previous_dir" "n \<noteq> previous_next_dir" "n \<noteq> members_dir" "n \<noteq> journal_file"
    "n \<noteq> lock_file" "n \<noteq> corruption_marker" "n \<noteq> manifest_file" "n \<noteq> blobs_dir"
    "primary_dir \<noteq> n" "previous_dir \<noteq> n" "previous_next_dir \<noteq> n" "members_dir \<noteq> n" "journal_file \<noteq> n"
    "lock_file \<noteq> n" "corruption_marker \<noteq> n" "manifest_file \<noteq> n" "blobs_dir \<noteq> n"
  using dotted_apart [OF assms] by auto

lemma dotted_not_barrier [simp]: "dotted n \<Longrightarrow> \<not> under (journal_file @ corrupt_infix) n"
  by (auto simp: dotted_def under_iff file_names lit_def)

lemma names_not_barrier [simp]:
  "\<not> under (journal_file @ corrupt_infix) primary_dir" "\<not> under (journal_file @ corrupt_infix) previous_dir"
  "\<not> under (journal_file @ corrupt_infix) previous_next_dir" "\<not> under (journal_file @ corrupt_infix) members_dir"
  "\<not> under (journal_file @ corrupt_infix) journal_file" "\<not> under (journal_file @ corrupt_infix) lock_file"
  by (simp_all add: under_def file_names lit_def)

lemma prefix_dotted:
  "under journal_prefix n \<Longrightarrow> dotted n" "under swap_prefix n \<Longrightarrow> dotted n" "under stage_prefix n \<Longrightarrow> dotted n"
  by (auto simp: dotted_def under_iff file_names lit_def)

lemma prefix_apart [simp]:
  "\<not> under journal_prefix (stage_dir i)" "\<not> under journal_prefix (swap_dir i)" "\<not> under swap_prefix (stage_dir i)"
  "\<not> under swap_prefix (journal_prefix @ i)" "under swap_prefix (swap_dir i)" "under stage_prefix (stage_dir i)"
  "stage_dir i \<noteq> journal_prefix @ k" "journal_prefix @ k \<noteq> stage_dir i" "stage_dir i \<noteq> swap_dir k"
  "swap_dir i \<noteq> journal_prefix @ k" "journal_prefix @ k \<noteq> swap_dir i" "swap_dir k \<noteq> stage_dir i"
  by (simp_all add: stage_dir_def swap_dir_def file_names lit_def under_def)

lemma prefix_plain [simp]:
  assumes "\<not> dotted n"
  shows "\<not> under journal_prefix n" "\<not> under swap_prefix n" "\<not> under stage_prefix n"
  using assms prefix_dotted by blast+

lemma is_slot_simps [simp]:
  "is_slot primary_dir" "is_slot previous_dir" "is_slot previous_next_dir" "is_slot (swap_dir i)"
  "\<not> is_slot members_dir" "\<not> is_slot journal_file" "\<not> is_slot lock_file" "\<not> is_slot (stage_dir i)"
  "\<not> is_slot (journal_prefix @ i)"
  by (simp_all add: is_slot_def)

lemma is_slot_not_stage [simp]: "is_slot d \<Longrightarrow> d \<noteq> stage_dir i"
  by auto

lemma under_single [simp]: "under [a] (b # p) \<longleftrightarrow> a = b" "\<not> under [a] []"
  by (auto simp: under_def)

section \<open>Directories\<close>

definition store_ok :: "host \<Rightarrow> bytes set \<Rightarrow> disk \<Rightarrow> bool" where
  "store_ok h B f \<longleftrightarrow>
     (\<forall>d e. f [members_dir, d] = Some e \<longrightarrow> (\<exists>b \<in> B. e = File b \<and> digest_bytes h b = d))"

definition contents :: "host \<Rightarrow> generation \<Rightarrow> disk \<Rightarrow> bool" where
  "contents h M f \<longleftrightarrow> (\<forall>m \<in> set M. f [members_dir, digest_of h m] = Some (File (me_bytes m)))"

definition manifest_at :: "host \<Rightarrow> ustr \<Rightarrow> generation option \<Rightarrow> disk \<Rightarrow> bool" where
  "manifest_at h dir g f \<longleftrightarrow> f [dir, manifest_file] = map_option (\<lambda>M. File (manifest_bytes h M)) g"

text \<open>A generation that can be read in full.\<close>

definition whole :: "host \<Rightarrow> generation option \<Rightarrow> disk \<Rightarrow> bool" where
  "whole h g f \<longleftrightarrow> (\<forall>M. g = Some M \<longrightarrow> canonical M \<and> contents h M f)"

definition settled_but :: "host \<Rightarrow> bytes set \<Rightarrow> generation option \<Rightarrow> generation option \<Rightarrow> disk \<Rightarrow> bool" where
  "settled_but h B cur prev f \<longleftrightarrow>
     tidy f \<and> store_ok h B f \<and>
     manifest_at h primary_dir cur f \<and> whole h cur f \<and> manifest_at h previous_dir prev f \<and> whole h prev f"

definition settled :: "host \<Rightarrow> bytes set \<Rightarrow> generation option \<Rightarrow> generation option \<Rightarrow> disk \<Rightarrow> bool" where
  "settled h B cur prev f \<longleftrightarrow> settled_but h B cur prev f \<and> f [journal_file] = None"

text \<open>Every member of \<open>N\<close> is stored, or staged for the transaction \<open>u\<close>.\<close>

definition staged :: "host \<Rightarrow> ustr \<Rightarrow> generation \<Rightarrow> disk \<Rightarrow> bool" where
  "staged h u N f \<longleftrightarrow>
     (\<forall>m \<in> set N.
        f [stage_dir u, members_dir, digest_of h m] = Some (File (me_bytes m)) \<or>
        f [stage_dir u, members_dir, digest_of h m] = None \<and>
          f [members_dir, digest_of h m] = Some (File (me_bytes m)))"

text \<open>
  The current generation is kept in \<open>previous.next\<close>, or has become the previous one already (there is none to
  keep when nothing was committed before).
\<close>

definition keeping :: "host \<Rightarrow> generation option \<Rightarrow> generation \<Rightarrow> generation option \<Rightarrow> disk \<Rightarrow> bool" where
  "keeping h cur N prev f \<longleftrightarrow>
     cur \<noteq> None \<and> manifest_at h previous_next_dir cur f \<or>
     f [previous_next_dir] = None \<and> manifest_at h previous_dir (kept cur prev) f \<and>
       (cur = None \<or> manifest_at h primary_dir (Some N) f)"

definition journal_there :: "host \<Rightarrow> ustr \<Rightarrow> generation option \<Rightarrow> generation \<Rightarrow> disk \<Rightarrow> bool" where
  "journal_there h u cur N f \<longleftrightarrow>
     (\<exists>ph. f [journal_file] = Some (File (h_encode_journal h (journal_of h u cur N\<lparr>dj_phase := ph\<rparr>))))"

definition pending ::
  "host \<Rightarrow> bytes set \<Rightarrow> ustr \<Rightarrow> generation option \<Rightarrow> generation \<Rightarrow> generation option \<Rightarrow> disk \<Rightarrow> bool" where
  "pending h B u cur N prev f \<longleftrightarrow>
     tidy f \<and> store_ok h B f \<and> safe_segment u \<and> canonical N \<and> me_bytes ` set N \<subseteq> B \<and> f [primary_dir] = Some Folder \<and>
     journal_there h u cur N f \<and> staged h u N f \<and> whole h (kept cur prev) f \<and>
     (manifest_at h primary_dir cur f \<or> manifest_at h primary_dir (Some N) f) \<and> keeping h cur N prev f"

section \<open>What matters\<close>

fun core :: "path \<Rightarrow> bool" where
  "core [n] \<longleftrightarrow> n = journal_file"
| "core [d, n] \<longleftrightarrow> d = members_dir \<or> (d = primary_dir \<or> d = previous_dir) \<and> n = manifest_file"
| "core _ \<longleftrightarrow> False"

fun core_pending :: "ustr \<Rightarrow> path \<Rightarrow> bool" where
  "core_pending u [n] \<longleftrightarrow> n = journal_file \<or> n = primary_dir \<or> n = previous_next_dir"
| "core_pending u [d, n] \<longleftrightarrow>
     d = members_dir \<or> (d = primary_dir \<or> d = previous_dir \<or> d = previous_next_dir) \<and> n = manifest_file"
| "core_pending u [s, d, n] \<longleftrightarrow> s = stage_dir u \<and> d = members_dir"
| "core_pending u _ \<longleftrightarrow> False"

lemmas disk_defs = store_ok_def contents_def manifest_at_def whole_def

lemma keeping_cong:
  assumes "keeping h cur N prev f" "g [previous_next_dir] = f [previous_next_dir]"
    "\<And>d. is_slot d \<Longrightarrow> g [d, manifest_file] = f [d, manifest_file]"
  shows "keeping h cur N prev g"
  using assms by (simp add: keeping_def manifest_at_def)

lemma settled_but_cong:
  assumes "settled_but h B cur prev f" "tidy g" "\<And>p. core p \<Longrightarrow> p \<noteq> [journal_file] \<Longrightarrow> g p = f p"
  shows "settled_but h B cur prev g"
  using assms by (simp add: settled_but_def disk_defs)

lemma settled_cong:
  assumes "settled h B cur prev f" "tidy g" "\<And>p. core p \<Longrightarrow> g p = f p"
  shows "settled h B cur prev g"
  using assms settled_but_cong [of h B cur prev f g] by (simp add: settled_def)

lemma pending_cong:
  assumes "pending h B u cur N prev f" "tidy g" "\<And>p. core_pending u p \<Longrightarrow> g p = f p"
  shows "pending h B u cur N prev g"
  using assms by (simp add: pending_def disk_defs staged_def keeping_def journal_there_def)

lemma settled_tidy [simp]: "settled h B cur prev f \<Longrightarrow> tidy f"
  by (simp add: settled_def settled_but_def)

lemma pending_tidy [simp]: "pending h B u cur N prev f \<Longrightarrow> tidy f"
  by (simp add: pending_def)

text \<open>A single file beside the core, and a directory that is being removed.\<close>

lemma settled_update:
  assumes "settled h B cur prev f" "\<not> core p" "\<And>e. x = Some e \<Longrightarrow> fits p e"
  shows "settled h B cur prev (f(p := x))"
proof (rule settled_cong [OF assms(1)])
  show "tidy (f(p := x))" using assms by (intro tidy_update) simp_all
  show "(f(p := x)) q = f q" if "core q" for q using assms(2) that by auto
qed

lemma settled_but_update:
  assumes "settled_but h B cur prev f" "\<not> core p \<or> p = [journal_file]" "\<And>e. x = Some e \<Longrightarrow> fits p e"
  shows "settled_but h B cur prev (f(p := x))"
proof (rule settled_but_cong [OF assms(1)])
  show "tidy (f(p := x))" using assms by (intro tidy_update) (simp_all add: settled_but_def)
  show "(f(p := x)) q = f q" if "core q" "q \<noteq> [journal_file]" for q using assms(2) that by auto
qed

lemma pending_update:
  assumes "pending h B u cur N prev f" "\<not> core_pending u p" "\<And>e. x = Some e \<Longrightarrow> fits p e"
  shows "pending h B u cur N prev (f(p := x))"
proof (rule pending_cong [OF assms(1)])
  show "tidy (f(p := x))" using assms by (intro tidy_update) simp_all
  show "(f(p := x)) q = f q" if "core_pending u q" for q using assms(2) that by auto
qed

lemma settled_partly:
  assumes "settled h B cur prev f" "partly d f g" "\<And>p. core p \<Longrightarrow> \<not> under d p"
  shows "settled h B cur prev g"
proof (rule settled_cong [OF assms(1)])
  show "tidy g" using settled_tidy [OF assms(1)] assms(2) by (rule tidy_partly)
qed (use assms(2,3) partly_outside in blast)

lemma settled_but_partly:
  assumes "settled_but h B cur prev f" "partly d f g" "\<And>p. core p \<Longrightarrow> \<not> under d p"
  shows "settled_but h B cur prev g"
proof (rule settled_but_cong [OF assms(1)])
  have "tidy f" using assms(1) by (simp add: settled_but_def)
  then show "tidy g" using assms(2) by (rule tidy_partly)
qed (use assms(2,3) partly_outside in blast)

lemma core_under_single: "core p \<Longrightarrow> under [n] p \<Longrightarrow> n \<in> {journal_file, members_dir, primary_dir, previous_dir}"
  by (cases p rule: core.cases) auto

lemma settled_partly_dir:
  assumes "settled h B cur prev f" "partly [n] f g" "n \<notin> {journal_file, members_dir, primary_dir, previous_dir}"
  shows "settled h B cur prev g"
  by (rule settled_partly [OF assms(1,2)]) (use assms(3) core_under_single in blast)

lemma settled_but_partly_dir:
  assumes "settled_but h B cur prev f" "partly [n] f g" "n \<notin> {journal_file, members_dir, primary_dir, previous_dir}"
  shows "settled_but h B cur prev g"
  by (rule settled_but_partly [OF assms(1,2)]) (use assms(3) core_under_single in blast)

end
