(* ===== verification/Dataset_Reading.thy ===== *)
theory Dataset_Reading
  imports Dataset_State
begin

text \<open>
  Records that are written can be read: hexadecimal revisions, journals that pass the structural check, and
  the reads of a settled disk, which return the generation it holds.
\<close>

section \<open>Hexadecimal\<close>

lemma high_digit [simp]: "(x::nat) < 256 \<Longrightarrow> x div 16 < 16"
  by (simp add: div_less_iff_less_mult)

lemma hex_digit_value: "d < 16 \<Longrightarrow> hex_value (hex_digit d) = Some d"
  by (auto simp: hex_value_def hex_digit_def)

lemma hex_digit_bounds:
  "d < 16 \<Longrightarrow> hex_digit d \<noteq> 43" "d < 16 \<Longrightarrow> \<not> is_continuation (hex_digit d)"
  by (auto simp: hex_digit_def is_continuation_def)

lemma radix_pair_hex: "x < 256 \<Longrightarrow> radix_pair (hex_digit (x div 16)) (hex_digit (x mod 16)) = Some x"
  by (simp add: radix_pair_def hex_digit_value hex_digit_bounds)

lemma length_encode_revision [simp]: "length (encode_revision b) = 2 * length b"
  by (induction b) (simp_all add: encode_revision_def)

lemma encode_revision_Cons:
  "encode_revision (x # b) = hex_digit (x div 16) # hex_digit (x mod 16) # encode_revision b"
  by (simp add: encode_revision_def)

lemma encode_revision_hd:
  "\<forall>x \<in> set b. x < 256 \<Longrightarrow> encode_revision b = [] \<or> \<not> is_continuation (hd (encode_revision b))"
  by (cases b) (simp_all add: encode_revision_Cons hex_digit_bounds, simp add: encode_revision_def)

lemma decode_pairs_encode: "\<forall>x \<in> set b. x < 256 \<Longrightarrow> decode_pairs (encode_revision b) = Ok b"
proof (induction b)
  case (Cons x b)
  then show ?case
    using encode_revision_hd [of b]
    by (simp add: encode_revision_Cons hex_digit_bounds radix_pair_hex)
qed (simp add: encode_revision_def)

lemma decode_encode_revision:
  "length b = 32 \<Longrightarrow> \<forall>x \<in> set b. x < 256 \<Longrightarrow> decode_revision (encode_revision b) = Ok b"
  by (simp add: decode_revision_def decode_pairs_encode)

lemma is_hex64_encode: "length b = 32 \<Longrightarrow> \<forall>x \<in> set b. x < 256 \<Longrightarrow> is_hex64 (encode_revision b)"
proof -
  have "list_all (\<lambda>c. hex_value c \<noteq> None) (encode_revision b)" if "\<forall>x \<in> set b. x < 256" for b
    using that
  proof (induction b)
    case (Cons x b)
    then show ?case by (simp add: encode_revision_Cons hex_digit_value)
  qed (simp add: encode_revision_def)
  then show "length b = 32 \<Longrightarrow> \<forall>x \<in> set b. x < 256 \<Longrightarrow> is_hex64 (encode_revision b)"
    by (simp add: is_hex64_def)
qed

section \<open>Digests are digests\<close>

lemma host_sha:
  assumes "host_ok h"
  shows "length (h_sha256 h b) = 32" "\<forall>x \<in> set (h_sha256 h b). x < 256"
  using assms by (simp_all add: host_ok_def)

lemma host_codec [simp]:
  assumes "host_ok h"
  shows "h_decode_manifest h (h_encode_manifest h r) = Some r" "h_decode_journal h (h_encode_journal h j) = Some j"
  using assms by (simp_all add: host_ok_def)

lemma fair_host [simp]: "fair h B \<Longrightarrow> host_ok h"
  by (simp add: fair_def)

lemma fair_eq: "fair h B \<Longrightarrow> a \<in> B \<Longrightarrow> b \<in> B \<Longrightarrow> digest_bytes h a = digest_bytes h b \<Longrightarrow> a = b"
  by (auto simp: fair_def inj_on_def)

lemma decode_digests [simp]:
  assumes "host_ok h"
  shows "decode_revision (encode_revision (revision_of h M)) = Ok (revision_of h M)"
    "decode_revision (revision_member_digest_hex h b) = Ok (revision_member_digest h b)"
  using host_sha [OF assms]
  by (simp_all add: decode_encode_revision revision_of_def from_canonical_members_def from_member_digests_def
      revision_member_digest_hex_def revision_member_digest_def)

lemma hex_digests [simp]:
  assumes "host_ok h"
  shows "is_hex64 (encode_revision (revision_of h M))" "is_hex64 (digest_bytes h b)"
    "is_hex64 (revision_member_digest_hex h b)" "digest_bytes h b \<noteq> []"
  using host_sha [OF assms] is_hex64_encode
  by (auto simp: revision_of_def from_canonical_members_def from_member_digests_def
      revision_member_digest_hex_def revision_member_digest_def digest_bytes_def is_hex64_def
      dest!: arg_cong [where f = length])

section \<open>The records of a generation\<close>

lemma new_journal_member_simps [simp]:
  "jm_name (new_journal_member h m) = me_name m" "jm_digest (new_journal_member h m) = digest_of h m"
  "jm_byte_len (new_journal_member h m) = length (me_bytes m)"
  "jm_revision_digest (new_journal_member h m) = revision_member_digest_hex h (me_bytes m)"
  by (simp_all add: new_journal_member_def)

lemma evidence_record_simps [simp]:
  "mm_name (evidence_record m) = jm_name m" "mm_byte_len (evidence_record m) = jm_byte_len m"
  "mm_revision_digest (evidence_record m) = jm_revision_digest m" "mm_content_digest (evidence_record m) = jm_digest m"
  by (simp_all add: evidence_record_def)

lemma record_of_simps [simp]:
  "mr_revision (record_of h M) = encode_revision (revision_of h M)" "mr_members (record_of h M) = map me_name M"
  "mr_evidence (record_of h M) = map (evidence_record \<circ> new_journal_member h) M"
  by (simp_all add: record_of_def)

lemma journal_of_members:
  assumes "canonical N"
  shows "dj_members (journal_of h u cur N) = map (new_journal_member h) N"
proof -
  have "sorted (map jm_name (map (new_journal_member h) N))"
    using assms by (simp add: canonical_def comp_def)
  then show ?thesis by (simp add: journal_of_def commit_journal_def sort_key_id_if_sorted)
qed

lemma journal_of_simps [simp]:
  "dj_nonce (journal_of h u cur N) = u" "dj_kind (journal_of h u cur N) = KindCommit"
  "dj_old_revision (journal_of h u cur N) = encode_revision (revision_of h (members_of cur))"
  "dj_new_revision (journal_of h u cur N) = encode_revision (revision_of h N)"
  by (simp_all add: journal_of_def commit_journal_def)

lemma record_from_journal_of:
  "canonical N \<Longrightarrow> manifest_record_from_journal (journal_of h u cur N\<lparr>dj_phase := ph\<rparr>) = record_of h N"
  "canonical N \<Longrightarrow> manifest_record_from_journal (journal_of h u cur N) = record_of h N"
  by (simp_all add: manifest_record_from_journal_def record_of_def journal_of_members comp_def)

lemma journal_members_valid_map:
  assumes "host_ok h" "sorted (map me_name N)" "distinct (map me_name N)" "\<forall>m \<in> set N. safe_segment (me_name m)"
    "case prev of None \<Rightarrow> True | Some p \<Rightarrow> \<forall>m \<in> set N. p < me_name m"
  shows "journal_members_valid prev (map (new_journal_member h) N)"
  using assms(2-)
proof (induction N arbitrary: prev)
  case (Cons m N)
  have less: "\<forall>k \<in> set N. me_name m < me_name k"
    using Cons.prems by (auto simp: order_le_less)
  have "journal_members_valid (Some (me_name m)) (map (new_journal_member h) N)"
    by (rule Cons.IH) (use Cons.prems less in auto)
  then show ?case using Cons.prems assms(1) by (auto split: option.splits)
qed simp

lemma journal_of_valid:
  assumes "host_ok h" "canonical N" "safe_segment u"
  shows "validate_journal_structure (journal_of h u cur N\<lparr>dj_phase := ph\<rparr>)"
  using assms journal_members_valid_map [of h N None]
  by (simp add: validate_journal_structure_def journal_of_members canonical_def)

text \<open>Evidence, in the order of the names.\<close>

lemma member_evidence_name [simp]: "fst (member_evidence_of h m) = me_name m"
  by (simp add: member_evidence_of_def)

definition manifest_of :: "host \<Rightarrow> generation \<Rightarrow> manifest_data" where
  "manifest_of h M =
     \<lparr>md_revision = revision_of h M, md_members = map me_name M,
      md_evidence = map (\<lambda>m. \<lparr>rf_source_revision = revision_of h M, rf_name = me_name m,
        rf_byte_len = length (me_bytes m), rf_member_digest = revision_member_digest h (me_bytes m)\<rparr>) M\<rparr>"

lemma adjacent_equal_distinct: "sorted xs \<Longrightarrow> adjacent_equal xs \<longleftrightarrow> \<not> distinct xs"
proof (induction xs rule: adjacent_equal.induct)
  case (1 x y xs)
  have "x \<in> set (y # xs) \<longleftrightarrow> x = y" using 1 by (auto intro: antisym)
  then show ?case using 1 by auto
qed simp_all

lemma manifest_new_canonical: "canonical M \<Longrightarrow> manifest_new h M = Ok (manifest_of h M)"
  by (simp add: canonical_def manifest_new_def canonicalize_members_def sort_key_id_if_sorted
      adjacent_equal_distinct manifest_of_def revision_of_def Let_def)

lemma manifest_new_nil: "manifest_new h [] = Ok (manifest_of h [])"
  by (rule manifest_new_canonical) (simp add: canonical_def)

lemma from_verified_members_canonical:
  assumes "canonical M"
  shows "from_verified_members (revision_of h M) (md_evidence (manifest_of h M)) = Ok (manifest_of h M)"
proof -
  have names: "map rf_name (md_evidence (manifest_of h M)) = map me_name M"
    by (simp add: manifest_of_def comp_def)
  then have "sort_key rf_name (md_evidence (manifest_of h M)) = md_evidence (manifest_of h M)"
    using assms by (simp add: sort_key_id_if_sorted canonical_def)
  then show ?thesis
    using names assms
    by (simp add: from_verified_members_def Let_def reject_duplicate_names_def adjacent_equal_distinct
        canonical_def guard_ok_def)
      (auto simp: manifest_of_def list_ex_iff)
qed

lemma recorded_references:
  assumes "host_ok h" "canonical M"
  shows "traverse (recorded_reference (revision_of h M)) (mr_evidence (record_of h M)) = Ok (md_evidence (manifest_of h M))"
proof -
  have "traverse (recorded_reference (revision_of h M)) (mr_evidence (record_of h M)) =
    Ok (map (\<lambda>r. \<lparr>rf_source_revision = revision_of h M, rf_name = mm_name r, rf_byte_len = mm_byte_len r,
      rf_member_digest = ok_value (decode_revision (mm_revision_digest r))\<rparr>) (mr_evidence (record_of h M)))"
    by (rule traverse_Ok_map) (use assms in \<open>auto simp: recorded_reference_def parse_segment_def canonical_def\<close>)
  then show ?thesis using assms by (simp add: manifest_of_def comp_def)
qed

section \<open>Reading a settled disk\<close>

text \<open>An error of the file system, or the end of the process, leaves a disk that satisfies \<open>I\<close>; nothing else goes wrong.\<close>

abbreviation keeps ::
  "bool \<Rightarrow> bool \<Rightarrow> 'a sio \<Rightarrow> ('a \<Rightarrow> disk \<Rightarrow> bool) \<Rightarrow> (disk \<Rightarrow> bool) \<Rightarrow> disk \<Rightarrow> bool" where
  "keeps br di c Q I \<equiv> wp br di c Q (\<lambda>e g. br \<and> benign e \<and> I g) I"

lemma harm_keeps [simp, intro]: "I f \<Longrightarrow> harm br di (\<lambda>e g. br \<and> benign e \<and> I g) I f"
  by (simp add: harm_def)

lemma wp_read_manifest_at:
  assumes "host_ok h" "manifest_at h dir g f" "Q (map_option (record_of h) g) f" "harm br di E S f"
  shows "wp br di (read_manifest h [dir]) Q E S f"
  by (cases g; rule wp_read_manifest) (use assms in \<open>auto simp: manifest_at_def\<close>)

lemma wp_generation_revision_at:
  assumes "host_ok h" "manifest_at h dir g f"
    "Q (map_option (\<lambda>M. encode_revision (revision_of h M)) g) f" "harm br di E S f"
  shows "wp br di (generation_revision h dir) Q E S f"
  unfolding generation_revision_def
  by (rule wp_bind, rule wp_read_manifest_at [OF assms(1,2) _ assms(4)])
    (use assms(3) in \<open>auto simp: option.map_comp comp_def\<close>)

lemma wp_manifest_from_record:
  assumes "host_ok h" "canonical M" "Q (manifest_of h M) f"
  shows "wp br di (manifest_from_record h dir (record_of h M)) Q E S f"
proof -
  have names: "traverse parse_segment (map me_name M) = Ok (map me_name M)"
  proof -
    have "traverse parse_segment (map me_name M) = Ok (map (\<lambda>n. n) (map me_name M))"
      by (rule traverse_Ok_map) (use assms(2) in \<open>auto simp: canonical_def parse_segment_def\<close>)
    then show ?thesis by simp
  qed
  have "manifest_from_record h dir (record_of h M) = ret (manifest_of h M)"
    using assms(1,2) recorded_references [OF assms(1,2)] from_verified_members_canonical [OF assms(2), of h] names
    by (auto simp: manifest_from_record_def) (simp_all add: manifest_of_def)
  then show ?thesis using assms(3) by simp
qed

lemma wp_current_manifest:
  assumes "host_ok h" "manifest_at h primary_dir cur f" "\<And>M. cur = Some M \<Longrightarrow> canonical M"
    "Q (manifest_of h (members_of cur)) f" "harm br di E S f"
  shows "wp br di (current_manifest h) Q E S f"
  unfolding current_manifest_def
proof (rule wp_bind, rule wp_read_manifest_at [OF assms(1,2) _ assms(5)])
  show "wp br di (case map_option (record_of h) cur of None \<Rightarrow> lift_outcome (manifest_new h [])
      | Some record \<Rightarrow> manifest_from_record h primary_dir record) Q E S f"
    using assms(1,3,4) by (auto simp: members_of_def manifest_new_nil split: option.splits
        intro: wp_manifest_from_record)
qed

section \<open>Reading a generation\<close>

definition member_named :: "generation \<Rightarrow> ustr \<Rightarrow> dataset_member option" where
  "member_named M n = List.find (\<lambda>m. me_name m = n) M"

definition picked :: "generation \<Rightarrow> ustr list \<Rightarrow> dataset_member list option" where
  "picked M ns = those (map (member_named M) ns)"

lemma find_map: "List.find P (map g xs) = map_option g (List.find (P \<circ> g) xs)"
  by (induction xs) simp_all

lemma member_named_Some: "member_named M n = Some m \<Longrightarrow> m \<in> set M \<and> me_name m = n"
  by (auto simp: member_named_def find_Some_iff)

lemma member_named_None: "member_named M n = None \<longleftrightarrow> n \<notin> me_name ` set M"
  by (auto simp: member_named_def find_None_iff)

lemma member_named_self: "distinct (map me_name M) \<Longrightarrow> m \<in> set M \<Longrightarrow> member_named M (me_name m) = Some m"
  by (cases "member_named M (me_name m)")
    (auto simp: member_named_None dest!: member_named_Some dest: inj_onD simp: distinct_map)

lemma picked_names: "picked M ns = Some ms \<Longrightarrow> map me_name ms = ns \<and> set ms \<subseteq> set M"
proof (induction ns arbitrary: ms)
  case (Cons n ns)
  then show ?case by (auto simp: picked_def split: option.splits dest: member_named_Some)
qed (simp add: picked_def)

lemma picked_None: "picked M ns = None \<longleftrightarrow> \<not> set ns \<subseteq> me_name ` set M"
proof (induction ns)
  case (Cons n ns)
  then show ?case
    using member_named_None [of M n] by (auto simp: picked_def split: option.splits)
qed (simp add: picked_def)

lemma picked_all: "distinct (map me_name M) \<Longrightarrow> picked M (map me_name M) = Some M"
proof -
  assume d: "distinct (map me_name M)"
  have "those (map (member_named M) (map me_name L)) = Some L" if "set L \<subseteq> set M" for L
    using that by (induction L) (simp_all add: member_named_self [OF d])
  then show ?thesis by (simp add: picked_def)
qed

lemma not_legacy: "host_ok h \<Longrightarrow> \<not> legacy_layout (record_of h M)"
  by (cases M) (simp_all add: legacy_layout_def)

lemma member_record_of:
  "member_record (record_of h M) n = map_option (evidence_record \<circ> new_journal_member h) (member_named M n)"
  by (simp add: member_record_def member_named_def find_map comp_def)

lemma wp_read_member:
  assumes "host_ok h" "contents h M f" "Q (member_named M n) f" "harm br di E S f"
  shows "wp br di (read_member h dir (record_of h M) n) Q E S f"
proof (cases "member_named M n")
  case None
  then show ?thesis using assms by (simp add: read_member_def not_legacy member_record_of)
next
  case (Some m)
  then have m: "m \<in> set M" "me_name m = n" using member_named_Some by blast+
  then have there: "f [members_dir, digest_of h m] = Some (File (me_bytes m))"
    using assms(2) by (simp add: contents_def)
  have "m = \<lparr>me_name = n, me_bytes = me_bytes m\<rparr>" using m by simp
  then have Q: "Q (Some \<lparr>me_name = n, me_bytes = me_bytes m\<rparr>) f" using assms(3) Some by simp
  have "wp br di (read_file [members_dir, digest_of h m])
     (\<lambda>r. wp br di (case r of None \<Rightarrow> ret None
        | Some b \<Rightarrow> if digest_bytes h b \<noteq> digest_of h m then fail dataset_member_mismatch
            else ret (Some \<lparr>me_name = n, me_bytes = b\<rparr>)) Q E S) E S f"
    by (rule wp_read_file) (use there Q assms(4) in auto)
  then show ?thesis
    using Some assms(1) by (simp add: read_member_def not_legacy member_record_of wp_bind)
qed

lemma wp_read_members:
  assumes "host_ok h" "contents h M f" "harm br di E S f"
  shows "Q (picked M ns) f \<Longrightarrow> wp br di (read_members h dir (record_of h M) ns) Q E S f"
proof (induction ns arbitrary: Q)
  case (Cons n ns)
  show ?case
  proof (simp, rule wp_bind, rule wp_read_member [OF assms(1,2) _ assms(3)], cases "member_named M n")
    case None
    then show "wp br di (case member_named M n of None \<Rightarrow> ret None
      | Some m \<Rightarrow> bind_io (read_members h dir (record_of h M) ns) (\<lambda>rs. ret (map_option (\<lambda>ms. m # ms) rs))) Q E S f"
      using Cons.prems by (simp add: picked_def)
  next
    case (Some m)
    have "wp br di (read_members h dir (record_of h M) ns) (\<lambda>rs. wp br di (ret (map_option (\<lambda>ms. m # ms) rs)) Q E S) E S f"
      by (rule Cons.IH) (use Cons.prems Some in \<open>simp add: picked_def comp_def\<close>)
    then show "wp br di (case member_named M n of None \<Rightarrow> ret None
      | Some m \<Rightarrow> bind_io (read_members h dir (record_of h M) ns) (\<lambda>rs. ret (map_option (\<lambda>ms. m # ms) rs))) Q E S f"
      using Some by (simp add: wp_bind)
  qed
qed (simp add: picked_def)

text \<open>What a read of the members \<open>ns\<close> returns when the slot holds \<open>g\<close>.\<close>

definition read_result :: "host \<Rightarrow> generation option \<Rightarrow> ustr list \<Rightarrow> read_outcome" where
  "read_result h g ns =
     (case g of
        None \<Rightarrow> Missing
      | Some M \<Rightarrow>
          (case picked M ns of
             None \<Rightarrow> Missing
           | Some ms \<Rightarrow> Found \<lparr>rd_revision = revision_of h M, rd_members = sort_key me_name ms\<rparr>))"

lemma read_data_new_distinct:
  "distinct (map me_name ms) \<Longrightarrow> read_data_new r ms = Ok \<lparr>rd_revision = r, rd_members = sort_key me_name ms\<rparr>"
  by (simp add: read_data_new_def canonicalize_members_def adjacent_equal_distinct distinct_map Let_def)

lemma wp_read_generation:
  assumes "host_ok h" "manifest_at h dir g f" "whole h g f" "distinct ns" "Q (read_result h g ns) f"
    "harm br di E S f"
  shows "wp br di (read_generation h dir ns) Q E S f"
  unfolding read_generation_def
proof (rule wp_bind, rule wp_read_manifest_at [OF assms(1,2) _ assms(6)], cases g)
  case None
  then show "wp br di (case map_option (record_of h) g of None \<Rightarrow> ret Missing
     | Some record \<Rightarrow> bind_io (lift_outcome (decode_revision (mr_revision record))) (\<lambda>revision.
         bind_io (read_members h dir record ns) (\<lambda>result. case result of None \<Rightarrow> ret Missing
           | Some ms \<Rightarrow> bind_io (lift_outcome (read_data_new revision ms)) (\<lambda>d. ret (Found d))))) Q E S f"
    using assms(5) by (simp add: read_result_def)
next
  case (Some M)
  have "contents h M f" using assms(3) Some by (simp add: whole_def)
  then have "wp br di (read_members h dir (record_of h M) ns)
      (\<lambda>result. wp br di (case result of None \<Rightarrow> ret Missing
           | Some ms \<Rightarrow> bind_io (lift_outcome (read_data_new (revision_of h M) ms)) (\<lambda>d. ret (Found d))) Q E S) E S f"
  proof (rule wp_read_members [OF assms(1) _ assms(6)])
    show "wp br di (case picked M ns of None \<Rightarrow> ret Missing
           | Some ms \<Rightarrow> bind_io (lift_outcome (read_data_new (revision_of h M) ms)) (\<lambda>d. ret (Found d))) Q E S f"
      using assms(4,5) Some
      by (auto simp: read_result_def read_data_new_distinct dest!: picked_names split: option.splits)
  qed
  then show "wp br di (case map_option (record_of h) g of None \<Rightarrow> ret Missing
     | Some record \<Rightarrow> bind_io (lift_outcome (decode_revision (mr_revision record))) (\<lambda>revision.
         bind_io (read_members h dir record ns) (\<lambda>result. case result of None \<Rightarrow> ret Missing
           | Some ms \<Rightarrow> bind_io (lift_outcome (read_data_new revision ms)) (\<lambda>d. ret (Found d))))) Q E S f"
    using Some assms(1) by (simp add: wp_bind)
qed

end
