(* ===== verification/Dataset_Rolling.thy ===== *)
theory Dataset_Rolling
  imports Dataset_Reading
begin

text \<open>
  Rolling a commit forward. From a pending disk every step leads to a pending disk, and the last one to a disk
  that is settled on the new generation, whatever calls break and wherever the process dies.
\<close>

section \<open>Steps that leave the disk alone\<close>

definition forward ::
  "host \<Rightarrow> bytes set \<Rightarrow> ustr \<Rightarrow> generation option \<Rightarrow> generation \<Rightarrow> generation option \<Rightarrow> disk \<Rightarrow> bool" where
  "forward h B u cur N prev f \<longleftrightarrow> pending h B u cur N prev f \<or> settled h B (Some N) (kept cur prev) f"

lemma pending_forward [intro]: "pending h B u cur N prev f \<Longrightarrow> forward h B u cur N prev f"
  by (simp add: forward_def)

lemma settled_forward [intro]: "settled h B (Some N) (kept cur prev) f \<Longrightarrow> forward h B u cur N prev f"
  by (simp add: forward_def)

lemma gather_map: "gather c (map g xs) = gather (c \<circ> g) xs"
  by (induction xs) simp_all

lemma each_map: "each c (map g xs) = each (c \<circ> g) xs"
  by (induction xs) simp_all

lemma wp_gather_map:
  assumes "\<And>x. x \<in> set xs \<Longrightarrow> wp br di (c x) (\<lambda>y g. g = f \<and> y = k x) E S f" "Q (map k xs) f"
  shows "wp br di (gather c xs) Q E S f"
proof (rule wp_mono)
  show "wp br di (gather c xs) (\<lambda>ys g. g = f \<and> list_all2 (\<lambda>x y. y = k x) xs ys) E S f"
    by (rule wp_gather_const) (rule assms)
  show "Q ys g" if "g = f \<and> list_all2 (\<lambda>x y. y = k x) xs ys" for ys g
  proof -
    have "ys = map k xs" using that by (auto simp: list_all2_conv_all_nth intro!: nth_equalityI)
    then show ?thesis using that assms(2) by simp
  qed
qed

lemma wp_each_const:
  assumes "\<And>x. x \<in> set xs \<Longrightarrow> wp br di (c x) (\<lambda>_ g. g = f) E S f" "Q () f"
  shows "wp br di (each c xs) Q E S f"
  by (rule wp_each [where Inv = "\<lambda>_ g. g = f"]) (use assms in auto)

section \<open>The checks\<close>

lemma wp_journal_member_content:
  assumes "staged h u N f" "m \<in> set N" "\<And>s. Q (me_bytes m, s) f" "harm br di E S f"
  shows "wp br di (journal_member_content h u (new_journal_member h m)) Q E S f"
proof -
  have "f [stage_dir u, members_dir, digest_of h m] = Some (File (me_bytes m)) \<or>
      f [stage_dir u, members_dir, digest_of h m] = None \<and> f [members_dir, digest_of h m] = Some (File (me_bytes m))"
    using assms(1,2) by (simp add: staged_def)
  then show ?thesis
  proof
    assume "f [stage_dir u, members_dir, digest_of h m] = Some (File (me_bytes m))"
    then show ?thesis
      unfolding journal_member_content_def
      by (intro wp_bind wp_read_file) (use assms(3,4) in auto)
  next
    assume here: "f [stage_dir u, members_dir, digest_of h m] = None \<and> f [members_dir, digest_of h m] = Some (File (me_bytes m))"
    have "wp br di (read_file [members_dir, digest_of h m])
       (\<lambda>stored. wp br di (case stored of Some b \<Rightarrow> ret (b, True) | None \<Rightarrow> refuse h DatasetMemberDigestMismatch False) Q E S)
       E S f"
      by (rule wp_read_file) (use here assms(3,4) in auto)
    then show ?thesis
      unfolding journal_member_content_def
      by (intro wp_bind wp_read_file) (use here assms(4) in \<open>auto intro: wp_bind\<close>)
  qed
qed

lemma wp_journal_member_evidence:
  assumes "staged h u N f" "m \<in> set N" "Q (member_evidence_of h m) f" "harm br di E S f"
  shows "wp br di (journal_member_evidence h u (new_journal_member h m)) Q E S f"
  unfolding journal_member_evidence_def
  by (rule wp_bind, rule wp_journal_member_content [OF assms(1,2)])
    (use assms(3,4) in \<open>simp_all add: member_evidence_of_def\<close>)

lemma good_below: "good f \<Longrightarrow> f [d] = None \<Longrightarrow> f [d, n] = None"
  using good_above [of f "[d]" n] by (cases "f [d, n]") (auto simp: folder_at_def)

lemma wp_validate_commit:
  assumes h: "host_ok h" and p: "pending h B u cur N prev f" and Q: "Q () f" and harm: "harm br di E S f"
  shows "wp br di (validate_commit_journal_semantics h (journal_of h u cur N\<lparr>dj_phase := ph\<rparr>)) Q E S f"
proof (rule wp_good)
  assume good: "good f"
  have canonical: "canonical N" and staged: "staged h u N f" using p by (simp_all add: pending_def)
  obtain g1 where g1: "manifest_at h primary_dir g1 f" "g1 = cur \<or> g1 = Some N"
    using p by (auto simp: pending_def)
  have "keeping h cur N prev f" using p by (simp add: pending_def)
  then obtain g2 where g2: "manifest_at h previous_next_dir g2 f"
      "g2 = cur \<and> cur \<noteq> None \<or> g2 = None \<and> (cur = None \<or> manifest_at h primary_dir (Some N) f)"
    unfolding keeping_def
  proof
    assume "f [previous_next_dir] = None \<and> manifest_at h previous_dir (kept cur prev) f \<and>
      (cur = None \<or> manifest_at h primary_dir (Some N) f)"
    then show thesis
      using that [of None] good_below [OF good, of previous_next_dir manifest_file] by (simp add: manifest_at_def)
  qed (use that [of cur] in simp)
  have accepted: "(a = None \<and> b = None) \<or> a = Some old \<or> b = Some old \<or> a = Some new"
    if "a = map_option (\<lambda>M. encode_revision (revision_of h M)) g1"
      "b = map_option (\<lambda>M. encode_revision (revision_of h M)) g2"
      "old = encode_revision (revision_of h (members_of cur))" "new = encode_revision (revision_of h N)" for a b old new
  proof (cases cur)
    case None
    then show ?thesis using that g1 g2 by auto
  next
    case (Some M)
    show ?thesis
    proof (cases "g2 = cur \<or> g1 = cur")
      case False
      then have "manifest_at h primary_dir g1 f" "g1 = Some N" using g1 by simp_all
      then show ?thesis using that by simp
    qed (use that Some in \<open>auto simp: members_of_def\<close>)
  qed
  have revisions: "wp br di (bind_io (generation_revision h primary_dir) (\<lambda>primary.
      bind_io (generation_revision h previous_next_dir) (\<lambda>gone.
       if (primary = None \<and> gone = None) \<or> primary = Some old \<or> gone = Some old \<or> primary = Some new
       then ret () else refuse h InvalidJournal False))) Q E S f"
    if "old = encode_revision (revision_of h (members_of cur))" "new = encode_revision (revision_of h N)" for old new
    by (intro wp_bind wp_generation_revision_at [OF h g1(1)] wp_generation_revision_at [OF h g2(1)])
      (use accepted [OF refl refl that] Q harm in simp_all)
  define j where "j = journal_of h u cur N\<lparr>dj_phase := ph\<rparr>"
  have j: "dj_nonce j = u" "dj_members j = map (new_journal_member h) N"
    "dj_old_revision j = encode_revision (revision_of h (members_of cur))"
    "dj_new_revision j = encode_revision (revision_of h N)"
    by (simp_all add: j_def journal_of_members [OF canonical])
  have "wp br di (validate_commit_journal_semantics h j) Q E S f"
    unfolding validate_commit_journal_semantics_def j(1,2) gather_map
    by (rule wp_bind, rule wp_gather_map [where k = "member_evidence_of h"])
      (use staged harm revisions [OF j(3,4)] in
        \<open>simp_all add: wp_journal_member_evidence j(4) revision_of_def from_canonical_members_def\<close>)
  then show ?thesis by (simp add: j_def)
qed

section \<open>Publishing the members\<close>

lemma pending_publish:
  assumes "fair h B" "pending h B u cur N prev f" "m \<in> set N"
    "f [members_dir, digest_of h m] = None"
  shows "pending h B u cur N prev
    (f([stage_dir u, members_dir, digest_of h m] := None, [members_dir, digest_of h m] \<mapsto> File (me_bytes m)))"
    (is "pending h B u cur N prev ?g")
proof -
  have "me_bytes m \<in> B" using assms(2,3) by (auto simp: pending_def)
  then have store: "store_ok h B ?g" using assms(2) by (auto simp: pending_def store_ok_def)
  have same: "me_bytes k = me_bytes m" if "k \<in> set N" "digest_of h k = digest_of h m" for k
    using fair_eq [OF assms(1)] that assms(2,3) by (auto simp: pending_def)
  have "staged h u N f" using assms(2) by (simp add: pending_def)
  then have staged: "staged h u N ?g"
    using same [symmetric] by (auto simp: staged_def)
  have "contents h M ?g" if "contents h M f" for M
    using that assms(4) by (auto simp: contents_def)
  then have whole: "whole h (kept cur prev) ?g" using assms(2) by (auto simp: pending_def whole_def)
  have "tidy ?g" using assms(2) by (intro tidy_insert tidy_delete) simp_all
  moreover have "?g [n] = f [n]" "d \<noteq> members_dir \<Longrightarrow> ?g [d, n] = f [d, n]" for d n by simp_all
  ultimately show ?thesis
    using assms(2) store staged whole unfolding pending_def manifest_at_def keeping_def journal_there_def
    by (simp del: fun_upd_apply)
qed

lemma stored_bytes:
  assumes "fair h B" "store_ok h B f" "me_bytes m \<in> B" "f [members_dir, digest_of h m] \<noteq> None"
  shows "f [members_dir, digest_of h m] = Some (File (me_bytes m))"
proof -
  obtain e where e: "f [members_dir, digest_of h m] = Some e" using assms(4) by blast
  then obtain b where "b \<in> B" "e = File b" "digest_bytes h b = digest_of h m"
    using assms(2) by (auto simp: store_ok_def)
  then show ?thesis using e fair_eq [OF assms(1) _ assms(3)] by simp
qed

text \<open>A member goes from the stage to the store, unless it is there.\<close>

lemma wp_move_member:
  assumes "f [members_dir] = Some Folder" "f [stage_dir u, members_dir, d] = Some (File b)" "f [members_dir, d] = None"
    "Q () (f([stage_dir u, members_dir, d] := None, [members_dir, d] \<mapsto> File b))" "harm br di E S f"
  shows "wp br di (rename_io [stage_dir u, members_dir, d] [members_dir, d]) Q E S f"
proof (rule wp_good)
  assume good: "good f"
  have apart: "\<not> under [stage_dir u, members_dir, d] [members_dir, d]" "\<not> under [members_dir, d] [stage_dir u, members_dir, d]"
    by (simp_all add: under_def)
  have "f ([members_dir, d] @ [n]) = None" for n
    by (rule file_below_none [OF good]) (simp_all add: assms(3))
  then have "carried [stage_dir u, members_dir, d] [members_dir, d] f =
      f([stage_dir u, members_dir, d] := None, [members_dir, d] \<mapsto> File b)"
    using carried_file [OF good assms(2)] apart by simp
  then show ?thesis
    using assms apart by (intro wp_rename_io) (simp_all add: folder_at_def)
qed

definition grown :: "disk \<Rightarrow> disk \<Rightarrow> bool" where
  "grown f g \<longleftrightarrow> g [members_dir] = Some Folder \<and> (\<forall>d. f [members_dir, d] \<noteq> None \<longrightarrow> g [members_dir, d] = f [members_dir, d])"

lemma grown_contents: "grown f g \<Longrightarrow> contents h M f \<Longrightarrow> contents h M g"
  by (simp add: grown_def contents_def)

lemma wp_publish_journal_member:
  assumes "fair h B" "pending h B u cur N prev f" "m \<in> set N" "f [members_dir] = Some Folder"
    "\<And>g. pending h B u cur N prev g \<Longrightarrow> grown f g \<Longrightarrow> g [members_dir, digest_of h m] = Some (File (me_bytes m)) \<Longrightarrow> Q () g"
    "harm br di E S f"
  shows "wp br di (publish_journal_member h u (new_journal_member h m)) Q E S f"
proof -
  have staged: "f [stage_dir u, members_dir, digest_of h m] = Some (File (me_bytes m)) \<or>
      f [stage_dir u, members_dir, digest_of h m] = None \<and> f [members_dir, digest_of h m] = Some (File (me_bytes m))"
    using assms(2,3) by (simp add: pending_def staged_def)
  show ?thesis
    unfolding publish_journal_member_def new_journal_member_simps
  proof (rule wp_bind, rule wp_exists, simp, cases "f [members_dir, digest_of h m] = None")
    case True
    then have here: "f [stage_dir u, members_dir, digest_of h m] = Some (File (me_bytes m))" using staged by simp
    let ?g = "f([stage_dir u, members_dir, digest_of h m] := None, [members_dir, digest_of h m] \<mapsto> File (me_bytes m))"
    have "Q () ?g"
      by (rule assms(5) [OF pending_publish [OF assms(1-3) True]]) (use assms(4) True in \<open>auto simp: grown_def\<close>)
    then have move: "wp br di (rename_io [stage_dir u, members_dir, digest_of h m] [members_dir, digest_of h m]) Q E S f"
      by (rule wp_move_member [OF assms(4) here True _ assms(6)])
    have "wp br di (digest_file h [stage_dir u, members_dir, digest_of h m])
        (\<lambda>digest. wp br di (if digest \<noteq> Some (digest_of h m) then refuse h DatasetMemberDigestMismatch False
          else rename_io [stage_dir u, members_dir, digest_of h m] [members_dir, digest_of h m]) Q E S) E S f"
      unfolding digest_file_def
      by (intro wp_bind wp_read_file) (use here move assms(6) in auto)
    then show "wp br di (if f [members_dir, digest_of h m] \<noteq> None then ret ()
        else bind_io (digest_file h [stage_dir u, members_dir, digest_of h m]) (\<lambda>digest.
          if digest \<noteq> Some (digest_of h m) then refuse h DatasetMemberDigestMismatch False
          else rename_io [stage_dir u, members_dir, digest_of h m] [members_dir, digest_of h m])) Q E S f"
      using True by (simp add: wp_bind)
  next
    case False
    have "f [members_dir, digest_of h m] = Some (File (me_bytes m))"
      by (rule stored_bytes [OF assms(1)]) (use assms(2,3) False in \<open>auto simp: pending_def\<close>)
    then have "Q () f" by (intro assms(5) [OF assms(2)]) (use assms(4) in \<open>simp_all add: grown_def\<close>)
    then show "wp br di (if f [members_dir, digest_of h m] \<noteq> None then ret ()
        else bind_io (digest_file h [stage_dir u, members_dir, digest_of h m]) (\<lambda>digest.
          if digest \<noteq> Some (digest_of h m) then refuse h DatasetMemberDigestMismatch False
          else rename_io [stage_dir u, members_dir, digest_of h m] [members_dir, digest_of h m])) Q E S f"
      using False by simp
  qed (rule assms(6))
qed

lemma wp_publish_journal_members:
  assumes "fair h B" "pending h B u cur N prev f" "f [members_dir] = Some Folder"
    "\<And>g. pending h B u cur N prev g \<Longrightarrow> contents h N g \<Longrightarrow> Q () g"
    "\<And>g. pending h B u cur N prev g \<Longrightarrow> harm br di E S g"
  shows "wp br di (each (publish_journal_member h u) (map (new_journal_member h) N)) Q E S f"
  unfolding each_map
proof (rule wp_each [where Inv = "\<lambda>ys g. pending h B u cur N prev g \<and> g [members_dir] = Some Folder \<and> contents h ys g"])
  show "pending h B u cur N prev f \<and> f [members_dir] = Some Folder \<and> contents h [] f"
    using assms by (simp add: contents_def)
  show "Q () g" if "pending h B u cur N prev g \<and> g [members_dir] = Some Folder \<and> contents h N g" for g
    using that assms(4) by blast
  fix m ys zs g
  assume N: "N = ys @ m # zs" and g: "pending h B u cur N prev g \<and> g [members_dir] = Some Folder \<and> contents h ys g"
  show "wp br di ((publish_journal_member h u \<circ> new_journal_member h) m)
     (\<lambda>_ g. pending h B u cur N prev g \<and> g [members_dir] = Some Folder \<and> contents h (ys @ [m]) g) E S g"
    unfolding comp_def
  proof (rule wp_publish_journal_member [OF assms(1)])
    show "pending h B u cur N prev k \<and> k [members_dir] = Some Folder \<and> contents h (ys @ [m]) k"
      if "pending h B u cur N prev k" "grown g k" "k [members_dir, digest_of h m] = Some (File (me_bytes m))" for k
      using that g grown_contents [of g k h ys] by (auto simp: contents_def grown_def)
  qed (use N g assms(5) in auto)
qed

section \<open>Publishing the generation\<close>

definition published ::
  "host \<Rightarrow> bytes set \<Rightarrow> ustr \<Rightarrow> generation option \<Rightarrow> generation \<Rightarrow> generation option \<Rightarrow> disk \<Rightarrow> bool" where
  "published h B u cur N prev f \<longleftrightarrow>
     pending h B u cur N prev f \<and> contents h N f \<and> manifest_at h primary_dir (Some N) f"

lemma published_pending [intro]: "published h B u cur N prev f \<Longrightarrow> pending h B u cur N prev f"
  by (simp add: published_def)

lemma published_update:
  assumes "published h B u cur N prev f" "\<not> core_pending u p" "\<And>e. x = Some e \<Longrightarrow> fits p e"
  shows "published h B u cur N prev (f(p := x))"
proof -
  have "p \<noteq> [primary_dir, manifest_file]" "\<And>d. p \<noteq> [members_dir, d]" using assms(2) by auto
  moreover have "pending h B u cur N prev (f(p := x))"
    by (rule pending_update [OF published_pending [OF assms(1)] assms(2,3)])
  ultimately show ?thesis
    using assms(1) by (auto simp: published_def contents_def manifest_at_def)
qed

text \<open>Once all members are stored the stage plays no role.\<close>

lemma published_partly_stage:
  assumes "published h B u cur N prev f" "partly [stage_dir u] f g"
  shows "published h B u cur N prev g"
proof -
  have p: "pending h B u cur N prev f" using assms(1) by blast
  have same: "g [n] = f [n]" if "n \<noteq> stage_dir u" for n using partly_outside [OF assms(2)] that by simp
  have same2: "g [d, n] = f [d, n]" if "d \<noteq> stage_dir u" for d n using partly_outside [OF assms(2)] that by simp
  have "tidy g" using p assms(2) tidy_partly by (metis pending_tidy)
  moreover have "staged h u N g"
    unfolding staged_def
  proof
    fix m assume m: "m \<in> set N"
    let ?p = "[stage_dir u, members_dir, digest_of h m]"
    have "f ?p = Some (File (me_bytes m)) \<or> f ?p = None" using p m by (auto simp: pending_def staged_def)
    moreover have "g ?p = None \<or> g ?p = f ?p" using assms(2) by (simp add: partly_def)
    moreover have "g [members_dir, digest_of h m] = Some (File (me_bytes m))"
      using assms(1) m by (simp add: published_def contents_def same2)
    ultimately show "g ?p = Some (File (me_bytes m)) \<or>
        g ?p = None \<and> g [members_dir, digest_of h m] = Some (File (me_bytes m))" by auto
  qed
  moreover have "keeping h cur N prev g"
    by (rule keeping_cong [of _ _ _ _ f]) (use p same same2 in \<open>auto simp: pending_def\<close>)
  ultimately show ?thesis
    using assms(1) by (simp add: published_def pending_def disk_defs journal_there_def same same2)
qed

lemma wp_write_primary:
  assumes "pending h B u cur N prev f" "contents h N f"
    "\<And>g. published h B u cur N prev g \<Longrightarrow> Q () g" "\<And>g. pending h B u cur N prev g \<Longrightarrow> harm br di E S g"
  shows "wp br di (write_manifest h [primary_dir] (record_of h N) u) Q E S f"
  unfolding write_manifest_def
proof (rule wp_write_beside)
  have p: "tidy f" "f [primary_dir] = Some Folder" using assms(1) by (simp_all add: pending_def)
  then show "folder_at f (butlast ([primary_dir] @ [manifest_prefix @ u]))"
    "folder_at f (butlast ([primary_dir] @ [manifest_file]))" by (simp_all add: folder_at_def)
  show "f ([primary_dir] @ [manifest_prefix @ u]) \<noteq> Some Folder"
    "f ([primary_dir] @ [manifest_file]) \<noteq> Some Folder"
    using tidyD [OF p(1), of "[primary_dir, manifest_prefix @ u]" Folder]
      tidyD [OF p(1), of "[primary_dir, manifest_file]" Folder] by auto
  have beside: "pending h B u cur N prev (f([primary_dir, manifest_prefix @ u] := x))" if "x \<noteq> Some Folder" for x
    by (rule pending_update [OF assms(1)]) (use that in auto)
  then show "harm br di E S (f([primary_dir] @ [manifest_prefix @ u] := x))" if "x \<noteq> Some Folder" for x
    using that assms(4) by simp
  let ?g = "f([primary_dir, manifest_prefix @ u] := None, [primary_dir, manifest_file] \<mapsto> File (manifest_bytes h N))"
  have one: "?g [n] = f [n]" and two: "d \<noteq> primary_dir \<Longrightarrow> ?g [d, n] = f [d, n]"
    and three: "?g [a, b, c] = f [a, b, c]" and at: "?g [primary_dir, manifest_file] = Some (File (manifest_bytes h N))"
    for a b c d n by simp_all
  have tidy: "tidy ?g" using p(1) by (intro tidy_insert tidy_delete) simp_all
  have "keeping h cur N prev f" using assms(1) by (simp add: pending_def)
  then have keeping: "keeping h cur N prev ?g"
    unfolding keeping_def manifest_at_def by (auto simp: one two at simp del: fun_upd_apply)
  have "published h B u cur N prev ?g"
    using assms(1,2) tidy keeping unfolding published_def pending_def disk_defs staged_def journal_there_def
    by (simp add: one two three at del: fun_upd_apply)
  then show "Q () (f([primary_dir] @ [manifest_prefix @ u] := None,
      [primary_dir] @ [manifest_file] \<mapsto> File (manifest_bytes h N)))"
    using assms(3) by simp
qed (simp_all add: under_def)

lemma wp_write_journal:
  assumes "published h B u cur N prev f" "\<And>g. published h B u cur N prev g \<Longrightarrow> Q () g"
    "\<And>g. pending h B u cur N prev g \<Longrightarrow> harm br di E S g"
  shows "wp br di (write_journal h (journal_of h u cur N\<lparr>dj_phase := ph\<rparr>)) Q E S f"
proof -
  have p: "tidy f" using assms(1) by (simp add: published_def pending_def)
  have bare: "f [journal_prefix @ u] \<noteq> Some Folder" "f [journal_file] \<noteq> Some Folder"
    using tidyD [OF p, of "[journal_prefix @ u]" Folder] tidyD [OF p, of "[journal_file]" Folder] by auto
  have beside: "pending h B u cur N prev (f([journal_prefix @ u] := x))" if "x \<noteq> Some Folder" for x
    using assms(1) that by (intro pending_update) (auto simp: is_slot_def)
  let ?j = "journal_of h u cur N\<lparr>dj_phase := ph\<rparr>"
  let ?g = "f([journal_prefix @ u] := None, [journal_file] \<mapsto> File (h_encode_journal h ?j))"
  have one: "?g [primary_dir] = f [primary_dir]" "?g [previous_next_dir] = f [previous_next_dir]"
    and two: "?g [d, n] = f [d, n]" and three: "?g [a, b, c] = f [a, b, c]"
    and at: "?g [journal_file] = Some (File (h_encode_journal h ?j))"
    for a b c d n by simp_all
  have tidy: "tidy ?g" using p by (intro tidy_insert tidy_delete) simp_all
  have "published h B u cur N prev ?g"
    using assms(1) tidy unfolding published_def pending_def disk_defs staged_def keeping_def journal_there_def
    by (auto simp add: one two three at simp del: fun_upd_apply)
  then have "Q () ?g" by (rule assms(2))
  then show ?thesis
    unfolding write_journal_def
    by (intro wp_write_beside) (use bare beside assms(3) in \<open>simp_all add: under_def folder_at_def\<close>)
qed

section \<open>The swap of the previous generation\<close>

lemma published_partly_previous:
  assumes "published h B u cur N prev f" "f [previous_next_dir] \<noteq> None" "partly [previous_dir] f g"
  shows "published h B u cur N prev g"
proof -
  have p: "pending h B u cur N prev f" using assms(1) by blast
  have same: "g (n # r) = f (n # r)" if "n \<noteq> previous_dir" for n r using partly_outside [OF assms(3)] that by simp
  have "tidy g" using p assms(3) tidy_partly by (metis pending_tidy)
  moreover have "keeping h cur N prev g"
    using p assms(2) same by (simp add: pending_def keeping_def manifest_at_def)
  moreover have "staged h u N g"
    using p same by (simp add: pending_def staged_def)
  ultimately show ?thesis
    using assms(1) by (simp add: published_def pending_def disk_defs journal_there_def same)
qed

lemma published_swapped:
  assumes "good f" "published h B u cur N prev f" "f [previous_next_dir] \<noteq> None" "f [previous_dir] = None"
  shows "published h B u cur N prev (carried [previous_next_dir] [previous_dir] f)"
    "carried [previous_next_dir] [previous_dir] f [previous_next_dir] = None"
proof -
  let ?g = "carried [previous_next_dir] [previous_dir] f"
  have p: "pending h B u cur N prev f" using assms(2) by blast
  have same: "?g (n # r) = f (n # r)" if "n \<noteq> previous_dir" "n \<noteq> previous_next_dir" for n r
    using that by (simp add: carried_def)
  have moved: "?g (previous_dir # r) = f (previous_next_dir # r)" "?g (previous_next_dir # r) = None" for r
    by (simp_all add: carried_def)
  then show "?g [previous_next_dir] = None" by blast
  have "tidy ?g"
    unfolding tidy_def
  proof (intro allI impI)
    fix q e assume q: "?g q = Some e"
    have old: "f q = Some e \<Longrightarrow> fits q e" for q using p by (simp add: pending_def tidy_def)
    consider r where "q = previous_dir # r" | r where "q = previous_next_dir # r"
      | "\<And>r. q \<noteq> previous_dir # r" "\<And>r. q \<noteq> previous_next_dir # r" by blast
    then show "fits q e"
    proof cases
      case (1 r)
      then have "fits (previous_next_dir # r) e" using q moved(1) old by simp
      then show ?thesis using 1 by (cases r rule: list.exhaust; cases "tl r") auto
    next
      case 3
      then have "f q = Some e" using q assms(1) same by (cases q) (auto simp: carried_def split: if_splits)
      then show ?thesis by (rule old)
    qed (use q moved in simp)
  qed
  moreover have "keeping h cur N prev ?g"
    using assms(2,3) by (auto simp: published_def pending_def keeping_def manifest_at_def same moved kept_def)
  moreover have "staged h u N ?g"
    using p same by (simp add: pending_def staged_def)
  ultimately show "published h B u cur N prev ?g"
    using assms(2) by (simp add: published_def pending_def disk_defs journal_there_def same)
qed

lemma wp_finalize_previous_swap:
  assumes "published h B u cur N prev f"
    "\<And>g. published h B u cur N prev g \<Longrightarrow> g [previous_next_dir] = None \<Longrightarrow> Q () g"
    "\<And>g. published h B u cur N prev g \<Longrightarrow> harm br di E S g"
  shows "wp br di finalize_previous_swap Q E S f"
proof -
  have swap: "wp br di (rename_io [previous_next_dir] [previous_dir]) Q E S g"
    if g: "published h B u cur N prev g" "g [previous_next_dir] \<noteq> None" "g [previous_dir] = None" for g
  proof (rule wp_good)
    assume "good g"
    then show "wp br di (rename_io [previous_next_dir] [previous_dir]) Q E S g"
      using published_swapped [OF _ g] assms(2,3) g
      by (intro wp_rename_io) (simp_all add: folder_at_def)
  qed
  have clear: "wp br di (when_io b (remove_dir_all [previous_dir]))
      (\<lambda>_. wp br di (rename_io [previous_next_dir] [previous_dir]) Q E S) E S f"
    if "f [previous_next_dir] \<noteq> None" "b \<longleftrightarrow> f [previous_dir] \<noteq> None" for b
  proof (rule wp_when)
    assume "b"
    then have "f [previous_dir] \<noteq> None" using that by simp
    then obtain e where e: "f [previous_dir] = Some e" by blast
    have "tidy f" using assms(1) by (simp add: published_def pending_def)
    then have folder: "f [previous_dir] = Some Folder" using tidyD e by fastforce
    show "wp br di (remove_dir_all [previous_dir]) (\<lambda>_. wp br di (rename_io [previous_next_dir] [previous_dir]) Q E S) E S f"
    proof (rule wp_remove_dir [where d = "[previous_dir]"])
      show "f [previous_dir] = Some Folder" by (rule folder)
      show "wp br di (rename_io [previous_next_dir] [previous_dir]) Q E S (pruned [previous_dir] f)"
        by (rule swap [OF published_partly_previous [OF assms(1) that(1) partly_pruned]])
          (use that(1) in \<open>simp_all add: pruned_def\<close>)
      show "harm br di E S g" if "partly [previous_dir] f g" for g
        by (rule assms(3), rule published_partly_previous [OF assms(1) \<open>f [previous_next_dir] \<noteq> None\<close> that])
    qed
  qed (use that assms(1) swap in simp)
  show ?thesis
    unfolding finalize_previous_swap_def
  proof (rule wp_bind, rule wp_exists, simp, rule wp_when)
    assume "f [previous_next_dir] \<noteq> None"
    then show "wp br di (bind_io (exists_io [previous_dir]) (\<lambda>prev. then_io (when_io prev (remove_dir_all [previous_dir]))
        (rename_io [previous_next_dir] [previous_dir]))) Q E S f"
      using clear assms(1,3) by (intro wp_bind wp_exists wp_then) simp_all
  qed (use assms in auto)
qed

section \<open>The whole of it\<close>

lemma wp_remove_legacy:
  assumes "tidy f" "Q () f" "harm br di E S f"
  shows "wp br di remove_legacy_generation_blobs Q E S f"
  unfolding remove_legacy_generation_blobs_def
proof (rule wp_each_const)
  fix gen assume gen: "gen \<in> set [primary_dir, previous_dir]"
  have "f [gen, blobs_dir] = None"
    using tidyD [OF assms(1), of "[gen, blobs_dir]"] gen by (cases "f [gen, blobs_dir]") auto
  then show "wp br di (bind_io (exists_io [gen, blobs_dir]) (\<lambda>e. when_io e (remove_dir_all [gen, blobs_dir])))
      (\<lambda>_ g. g = f) E S f"
    using assms(3) by (intro wp_bind wp_exists) (simp_all add: when_io_def)
qed (rule assms)

lemma wp_validate_shared:
  assumes "host_ok h" "contents h N f" "Q () f" "harm br di E S f"
  shows "wp br di (validate_shared_generation h (record_of h N)) Q E S f"
  unfolding validate_shared_generation_def record_of_simps each_map
proof (rule wp_each_const)
  fix m assume m: "m \<in> set N"
  have there: "f [members_dir, digest_of h m] = Some (File (me_bytes m))" using assms(2) m by (simp add: contents_def)
  show "wp br di ((validate_shared_member h \<circ> (evidence_record \<circ> new_journal_member h)) m) (\<lambda>_ g. g = f) E S f"
    unfolding validate_shared_member_def comp_def
    by (simp add: assms(1), intro wp_bind wp_read_file) (use there assms(4) in \<open>auto simp: from_option_def\<close>)
qed (rule assms)

lemma published_settled:
  assumes "published h B u cur N prev f" "f [previous_next_dir] = None" "good f"
  shows "settled h B (Some N) (kept cur prev) (f([journal_file] := None))"
proof -
  have "f [previous_next_dir, manifest_file] = None" by (rule good_below [OF assms(3,2)])
  then have "manifest_at h previous_dir (kept cur prev) f"
    using assms(1) by (auto simp: published_def pending_def keeping_def manifest_at_def)
  then have "settled_but h B (Some N) (kept cur prev) f"
    using assms(1) by (simp add: settled_but_def published_def pending_def whole_def)
  then have "settled_but h B (Some N) (kept cur prev) (f([journal_file] := None))"
    by (rule settled_but_update) simp_all
  then show ?thesis by (simp add: settled_def)
qed

lemma wp_publish_primary:
  assumes h: "host_ok h" and N: "canonical N" and p: "pending h B u cur N prev f" and c: "contents h N f"
    and j: "\<exists>ph. j = journal_of h u cur N\<lparr>dj_phase := ph\<rparr>"
    and Q: "\<And>g. settled h B (Some N) (kept cur prev) g \<Longrightarrow> Q () g"
    and harm: "\<And>g. pending h B u cur N prev g \<Longrightarrow> harm br di E S g"
  shows "wp br di (publish_primary h (record_of h N) j) Q E S f"
proof -
  obtain ph where ph: "j\<lparr>dj_phase := Committed\<rparr> = journal_of h u cur N\<lparr>dj_phase := Committed\<rparr>" "dj_nonce j = u"
    using j by auto
  have harm': "harm br di E S g" if "published h B u cur N prev g" for g
    using that harm by blast
  have finish: "wp br di (then_io sync_dir (then_io (ignore (fs_remove_dir_all [stage_dir u])) remove_journal)) Q E S f"
    if f: "published h B u cur N prev f" "f [previous_next_dir] = None" for f
  proof (rule wp_then, rule wp_sync_dir, rule wp_then, rule wp_ignore_remove_dir)
    fix g assume g: "good g" "partly [stage_dir u] f g"
    have pub: "published h B u cur N prev g" by (rule published_partly_stage [OF f(1) g(2)])
    have "g [previous_next_dir] = None" using partly_outside [OF g(2), of "[previous_next_dir]"] f(2) by simp
    then have "Q () (g([journal_file] := None))" by (intro Q published_settled [OF pub _ g(1)])
    moreover have "g [journal_file] \<noteq> Some Folder"
      using pub by (auto simp: published_def pending_def journal_there_def)
    ultimately show "wp br di remove_journal Q E S g" by (rule wp_remove_journal) (rule harm' [OF pub])
    show "S g" if di using harm' [OF pub] that by (rule harm_dies)
  qed (rule harm' [OF f(1)])
  have swapped: "wp br di (then_io finalize_previous_swap (then_io remove_legacy_generation_blobs (then_io sync_dir
      (then_io (ignore (fs_remove_dir_all [stage_dir u])) remove_journal)))) Q E S g"
    if g: "published h B u cur N prev g" for g
  proof (rule wp_then, rule wp_finalize_previous_swap [OF g _ harm'])
    fix f assume f: "published h B u cur N prev f" "f [previous_next_dir] = None"
    have tidy: "tidy f" using f(1) by (simp add: published_def pending_def)
    show "wp br di (then_io remove_legacy_generation_blobs (then_io sync_dir
      (then_io (ignore (fs_remove_dir_all [stage_dir u])) remove_journal))) Q E S f"
      by (rule wp_then, rule wp_remove_legacy [OF tidy]) (rule finish f harm')+
  qed
  have tail: "wp br di (then_io (write_journal h (journal_of h u cur N\<lparr>dj_phase := Committed\<rparr>))
      (then_io sync_dir (then_io finalize_previous_swap (then_io remove_legacy_generation_blobs (then_io sync_dir
      (then_io (ignore (fs_remove_dir_all [stage_dir u])) remove_journal)))))) Q E S g"
    if g: "published h B u cur N prev g" for g
    by (rule wp_then, rule wp_write_journal [OF g _ harm], rule wp_then, rule wp_sync_dir, rule swapped, assumption,
        rule harm')
  have rest: "wp br di (then_io (sync_subdir [primary_dir]) (then_io sync_dir (then_io (validate_shared_generation h (record_of h N))
      (then_io (write_journal h (journal_of h u cur N\<lparr>dj_phase := Committed\<rparr>))
      (then_io sync_dir (then_io finalize_previous_swap (then_io remove_legacy_generation_blobs (then_io sync_dir
      (then_io (ignore (fs_remove_dir_all [stage_dir u])) remove_journal))))))))) Q E S g"
    if g: "published h B u cur N prev g" for g
  proof -
    have c: "contents h N g" using g by (simp add: published_def)
    show ?thesis
      by (rule wp_then, rule wp_sync_subdir, simp, rule wp_then, rule wp_sync_dir, rule wp_then,
          rule wp_validate_shared [OF h c], rule tail, (rule g harm' [OF g])+)
  qed
  show ?thesis
    unfolding publish_primary_def ph
    by (rule wp_then, rule wp_write_primary [OF p c rest harm])
qed

end
