(* ===== verification/Dataset_Resume.thy ===== *)
theory Dataset_Resume
  imports Dataset_Rolling
begin

text \<open>
  Recovery. \<open>recover\<close> keeps a settled disk as it is but for residues, and finishes the commit of a pending one;
  whatever breaks on the way, the disk stays one that the next recovery finishes. The collection of orphans
  keeps both generations.
\<close>

section \<open>Residues\<close>

lemma wp_each_inv:
  assumes "Inv f" "\<And>x g. x \<in> set xs \<Longrightarrow> Inv g \<Longrightarrow> wp br di (c x) (\<lambda>_. Inv) E S g" "\<And>g. Inv g \<Longrightarrow> Q () g"
  shows "wp br di (each c xs) Q E S f"
  by (rule wp_each [where Inv = "\<lambda>_. Inv"]) (use assms in auto)

text \<open>A disk property that only looks at what is not transient.\<close>

definition blind :: "(disk \<Rightarrow> bool) \<Rightarrow> bool" where
  "blind I \<longleftrightarrow>
     (\<forall>f g n. I f \<longrightarrow> dotted n \<longrightarrow> (\<forall>p. \<not> under [n] p \<longrightarrow> g p = f p) \<longrightarrow> (\<forall>p. g p = None \<or> g p = f p) \<longrightarrow> I g)"

lemma blind_partly: "blind I \<Longrightarrow> I f \<Longrightarrow> dotted n \<Longrightarrow> partly [n] f g \<Longrightarrow> I g"
  unfolding blind_def partly_def by blast

lemma blind_delete: "blind I \<Longrightarrow> I f \<Longrightarrow> dotted n \<Longrightarrow> I (f([n] := None))"
  by (rule blind_partly [of I f n]) (auto simp: partly_def)

lemma is_transient_dotted: "is_transient n \<Longrightarrow> dotted n"
  by (auto simp: is_transient_def dest: prefix_dotted)

definition clean :: "disk \<Rightarrow> bool" where
  "clean f \<longleftrightarrow> (\<forall>n. is_transient n \<longrightarrow> f [n] = None)"

text \<open>A property that the removal of files cannot destroy.\<close>

definition dwindles :: "(disk \<Rightarrow> bool) \<Rightarrow> bool" where
  "dwindles X \<longleftrightarrow> (\<forall>f g. X f \<longrightarrow> (\<forall>p. g p = None \<or> g p = f p) \<longrightarrow> X g)"

lemma dwindles_partly: "dwindles X \<Longrightarrow> X f \<Longrightarrow> partly d f g \<Longrightarrow> X g"
  unfolding dwindles_def partly_def by blast

lemma dwindles_delete: "dwindles X \<Longrightarrow> X f \<Longrightarrow> X (f(p := None))"
  unfolding dwindles_def by (metis fun_upd_apply)

lemma dwindles_clean: "dwindles (\<lambda>f. br \<or> clean f)"
  unfolding dwindles_def clean_def by metis

lemma wp_remove_transient:
  assumes "blind I" "I f" "dotted n" "\<And>g. I g \<Longrightarrow> partly [n] f g \<Longrightarrow> br \<or> g [n] = None \<Longrightarrow> Q () g"
    "\<And>g. I g \<Longrightarrow> di \<Longrightarrow> S g"
  shows "wp br di (remove_transient n) Q E S f"
proof -
  have keep: "I g" if "partly [n] f g" for g
    by (rule blind_partly [OF assms(1-3) that])
  have gone: "partly [n] f (g([n] := None))" if "partly [n] f g" for g
    using that by (simp add: partly_def)
  have alone: "wp br di (ignore (fs_remove_file [n])) Q E S g" if g: "partly [n] f g" "br \<or> g [n] \<noteq> Some Folder" for g
  proof (rule wp_ignore, rule wp_remove_file)
    show "Q () (g([n] := None))" by (rule assms(4) [OF keep [OF gone [OF g(1)]] gone [OF g(1)]]) simp
    show "hurt br di (\<lambda>_. Q ()) S g" using keep [OF g(1)] g(1) assms(4,5) by (auto simp: hurt_def)
  qed (use g keep assms(4) in auto)
  show ?thesis
    unfolding remove_transient_def
  proof (rule wp_bind, rule wp_attempt, rule wp_remove_dir_all)
    show "wp br di (case Inr () of Inr _ \<Rightarrow> ret () | Inl _ \<Rightarrow> ignore (fs_remove_file [n])) Q E S (pruned [n] f)"
      using keep [OF partly_pruned] assms(4) partly_pruned by (simp add: pruned_def)
    show "hurt br di (\<lambda>e. wp br di (case Inl e of Inr _ \<Rightarrow> ret () | Inl _ \<Rightarrow> ignore (fs_remove_file [n])) Q E S) S g"
      if "partly [n] f g" for g
      using that alone keep assms(5) by (auto simp: hurt_def)
  qed (use alone partly_refl in auto)
qed

lemma wp_remove_transients:
  assumes "blind I" "I f" "\<And>b g. I g \<Longrightarrow> br \<or> clean g \<Longrightarrow> Q b g" "\<And>g. I g \<Longrightarrow> harm br di E S g"
  shows "wp br di remove_transients Q E S f"
proof -
  have loop: "wp br di (each remove_transient (filter is_transient ns)) (\<lambda>_. wp br di (ret b) Q E S) E S f"
    if ns: "set ns = {n. f ([] @ [n]) \<noteq> None}" for ns b
  proof (rule wp_each [where Inv = "\<lambda>ys g. I g \<and> (\<forall>k. f [k] = None \<longrightarrow> g [k] = None) \<and> (br \<or> (\<forall>n \<in> set ys. g [n] = None))"])
    fix n ys zs g
    assume n: "filter is_transient ns = ys @ n # zs"
      and g: "I g \<and> (\<forall>k. f [k] = None \<longrightarrow> g [k] = None) \<and> (br \<or> (\<forall>n \<in> set ys. g [n] = None))"
    have "n \<in> set (filter is_transient ns)" using n by simp
    then have dotted: "dotted n" using is_transient_dotted by auto
    show "wp br di (remove_transient n)
       (\<lambda>_ g. I g \<and> (\<forall>k. f [k] = None \<longrightarrow> g [k] = None) \<and> (br \<or> (\<forall>n \<in> set (ys @ [n]). g [n] = None))) E S g"
    proof (rule wp_remove_transient [OF assms(1) _ dotted])
      show "S k" if "I k" di for k using harm_dies [OF assms(4) [OF that(1)] that(2)] .
      show "I k \<and> (\<forall>j. f [j] = None \<longrightarrow> k [j] = None) \<and> (br \<or> (\<forall>n \<in> set (ys @ [n]). k [n] = None))"
        if k: "I k" "partly [n] g k" "br \<or> k [n] = None" for k
      proof -
        have "k p = None \<or> k p = g p" for p using k(2) by (simp add: partly_def)
        then have "\<forall>p. g p = None \<longrightarrow> k p = None" by metis
        then show ?thesis using g k by auto
      qed
    qed (use g in blast)
  next
    fix g assume g: "I g \<and> (\<forall>k. f [k] = None \<longrightarrow> g [k] = None) \<and> (br \<or> (\<forall>n \<in> set (filter is_transient ns). g [n] = None))"
    have "br \<or> clean g"
    proof (cases br)
      case False
      have "g [n] = None" if "is_transient n" for n
        using g False that ns by (cases "n \<in> set ns") auto
      then show ?thesis by (simp add: clean_def)
    qed simp
    then show "wp br di (ret b) Q E S g" using g assms(3) by (intro wp_ret) blast
  qed (use assms(2) in simp)
  show ?thesis
    unfolding remove_transients_def Let_def
    by (rule wp_bind, rule wp_map_fail, rule wp_entries, simp add: folder_at_def, rule wp_then, rule loop, assumption)
      (rule hurt_map_io, rule assms(4), rule assms(2))
qed

lemma blind_settled: "blind (settled h B cur prev)"
  unfolding blind_def
proof (intro allI impI)
  fix f g n
  assume f: "settled h B cur prev f" "dotted n" "\<forall>p. \<not> under [n] p \<longrightarrow> g p = f p" "\<forall>p. g p = None \<or> g p = f p"
  have "partly [n] f g" unfolding partly_def using f(3,4) by blast
  then show "settled h B cur prev g" by (rule settled_partly_dir [OF f(1)]) (use f(2) in auto)
qed

section \<open>The cleaning of orphans\<close>

lemma wp_cleanup_orphans:
  assumes "settled h B cur prev f" "\<And>g. settled h B cur prev g \<Longrightarrow> br \<or> clean g \<Longrightarrow> Q () g"
    "\<And>g. settled h B cur prev g \<Longrightarrow> harm br di E S g"
  shows "wp br di cleanup_orphans Q E S f"
  unfolding cleanup_orphans_def
proof (rule wp_bind, rule wp_remove_transients [OF blind_settled assms(1)])
  fix b g assume g: "settled h B cur prev g" "br \<or> clean g"
  have flush: "wp br di (when_io c sync_dir) Q E S k" if "settled h B cur prev k" "br \<or> clean k" for c k
    by (rule wp_when) (use assms(2,3) that in \<open>auto intro: wp_sync_dir\<close>)
  have drop: "wp br di (when_io c (remove_dir_all [previous_next_dir])) (\<lambda>_. wp br di (when_io b' sync_dir) Q E S) E S g"
    if "c \<longleftrightarrow> g [previous_next_dir] \<noteq> None" for c b'
  proof (rule wp_when)
    assume c
    then have "g [previous_next_dir] \<noteq> None" using that by simp
    then have folder: "g [previous_next_dir] = Some Folder"
      using tidyD [OF settled_tidy [OF g(1)], of "[previous_next_dir]"] by auto
    have kept: "settled h B cur prev k" "br \<or> clean k" if "partly [previous_next_dir] g k" for k
      using settled_partly_dir [OF g(1) that] dwindles_partly [OF dwindles_clean g(2) that] by simp_all
    show "wp br di (remove_dir_all [previous_next_dir]) (\<lambda>_. wp br di (when_io b' sync_dir) Q E S) E S g"
    proof (rule wp_remove_dir [where d = "[previous_next_dir]"])
      show "wp br di (when_io b' sync_dir) Q E S (pruned [previous_next_dir] g)"
        by (rule flush; rule kept; rule partly_pruned)
    qed (use folder kept assms(3) in auto)
  qed (use g flush in simp)
  show "wp br di (bind_io (exists_io [previous_next_dir]) (\<lambda>gone. then_io (when_io gone (remove_dir_all [previous_next_dir]))
       (when_io (b \<or> gone) sync_dir))) Q E S g"
    by (rule wp_bind, rule wp_exists, simp, rule wp_then, rule drop, simp, rule assms(3) [OF g(1)])
qed (rule assms(3))

section \<open>Recovery\<close>

lemma wp_no_marker:
  assumes "tidy f" "wp br di (k False) Q E S f" "harm br di E S f"
  shows "wp br di (bind_io (exists_io [corruption_marker]) k) Q E S f"
proof -
  have "f [corruption_marker] = None"
    using tidyD [OF assms(1), of "[corruption_marker]"] by (cases "f [corruption_marker]") auto
  then show ?thesis using assms(2,3) by (intro wp_bind wp_exists) simp_all
qed

lemma wp_no_barrier:
  assumes "tidy f" "wp br di (k False) Q E S f" "harm br di E S f"
  shows "wp br di (bind_io has_corrupt_journal k) Q E S f"
  unfolding has_corrupt_journal_def
proof (rule wp_bind, rule wp_bind, rule wp_map_fail, rule wp_entries)
  fix ns assume ns: "set ns = {n. f ([] @ [n]) \<noteq> None}"
  have "\<not> under (journal_file @ corrupt_infix) n" if "n \<in> set ns" for n
  proof -
    have "f [n] \<noteq> None" using that ns by simp
    then obtain e where "f [n] = Some e" by blast
    then show ?thesis using tidyD [OF assms(1)] by fastforce
  qed
  then have "\<not> list_ex (under (journal_file @ corrupt_infix)) ns" by (auto simp: list_ex_iff)
  then show "wp br di (ret (list_ex (under (journal_file @ corrupt_infix)) ns)) (\<lambda>x. wp br di (k x) Q E S) E S f"
    using assms(2) by simp
qed (use assms(3) in \<open>simp_all add: folder_at_def\<close>)

lemma wp_recover_settled:
  assumes "settled h B cur prev f" "\<And>g. settled h B cur prev g \<Longrightarrow> br \<or> clean g \<Longrightarrow> Q () g"
    "\<And>g. settled h B cur prev g \<Longrightarrow> harm br di E S g"
  shows "wp br di (recover h) Q E S f"
proof -
  have none: "f [journal_file] = None" using assms(1) by (simp add: settled_def)
  have clean: "wp br di cleanup_orphans Q E S f"
    by (rule wp_cleanup_orphans [OF assms(1)]) (rule assms(2,3); assumption)+
  have "wp br di (read_journal_raw h) (\<lambda>raw. wp br di
     (case raw of None \<Rightarrow> cleanup_orphans
      | Some None \<Rightarrow> refuse h InvalidJournal False
      | Some (Some j) \<Rightarrow>
         if \<not> validate_journal_structure j then refuse h InvalidJournal False
         else case dj_kind j of KindCommit \<Rightarrow> roll_forward_commit h j | KindPromotePrevious \<Rightarrow> roll_forward_promote h j)
      Q E S) E S f"
    unfolding read_journal_raw_def
    by (rule wp_bind, rule wp_read_file) (use none clean assms(3) [OF assms(1)] in auto)
  then show ?thesis
    unfolding recover_def using settled_tidy [OF assms(1)] assms(3) [OF assms(1)]
    by (intro wp_no_marker) (simp_all, intro wp_no_barrier, simp_all add: wp_bind)
qed

lemma wp_recover_journal:
  assumes "host_ok h" "tidy f" "f [journal_file] = Some (File (h_encode_journal h j))" "validate_journal_structure j"
    "wp br di (case dj_kind j of KindCommit \<Rightarrow> roll_forward_commit h j | KindPromotePrevious \<Rightarrow> roll_forward_promote h j) Q E S f"
    "harm br di E S f"
  shows "wp br di (recover h) Q E S f"
proof -
  have "wp br di (read_journal_raw h) (\<lambda>raw. wp br di
     (case raw of None \<Rightarrow> cleanup_orphans
      | Some None \<Rightarrow> refuse h InvalidJournal False
      | Some (Some j) \<Rightarrow>
         if \<not> validate_journal_structure j then refuse h InvalidJournal False
         else case dj_kind j of KindCommit \<Rightarrow> roll_forward_commit h j | KindPromotePrevious \<Rightarrow> roll_forward_promote h j)
      Q E S) E S f"
    unfolding read_journal_raw_def
    by (rule wp_bind, rule wp_read_file) (use assms in auto)
  then show ?thesis
    unfolding recover_def using assms(2,6)
    by (intro wp_no_marker) (simp_all, intro wp_no_barrier, simp_all add: wp_bind)
qed

lemma wp_roll_forward_commit:
  assumes fair: "fair h B" and p: "pending h B u cur N prev f"
    and Q: "\<And>g. settled h B (Some N) (kept cur prev) g \<Longrightarrow> br \<or> clean g \<Longrightarrow> Q () g"
    and harm: "\<And>g. forward h B u cur N prev g \<Longrightarrow> harm br di E S g"
  shows "wp br di (roll_forward_commit h (journal_of h u cur N\<lparr>dj_phase := ph\<rparr>)) Q E S f"
proof -
  let ?j = "journal_of h u cur N\<lparr>dj_phase := ph\<rparr>"
  have host: "host_ok h" and N: "canonical N" using fair p by (simp_all add: pending_def)
  have pharm: "harm br di E S g" if "pending h B u cur N prev g" for g
    using that harm by (auto simp: forward_def)
  have sharm: "harm br di E S g" if "settled h B (Some N) (kept cur prev) g" for g
    using that harm by (auto simp: forward_def)
  have clean: "wp br di (then_io remove_transients sync_dir) Q E S g"
    if g: "settled h B (Some N) (kept cur prev) g" for g
    by (rule wp_then, rule wp_remove_transients [OF blind_settled g], rule wp_sync_dir)
      (rule Q sharm; assumption)+
  have publish: "wp br di (then_io (sync_subdir [stage_dir u, members_dir]) (then_io (sync_subdir [members_dir])
      (then_io (publish_primary h (record_of h N) ?j) (then_io remove_transients sync_dir)))) Q E S g"
    if g: "pending h B u cur N prev g" "contents h N g" for g
  proof (rule wp_then, rule wp_sync_subdir, simp, rule wp_then, rule wp_sync_subdir, simp, rule wp_then)
    show "wp br di (publish_primary h (record_of h N) ?j) (\<lambda>_. wp br di (then_io remove_transients sync_dir) Q E S) E S g"
      by (rule wp_publish_primary [OF host N g]) (use clean pharm in blast)+
  qed (rule pharm [OF g(1)])+
  have store: "wp br di (then_io (each (publish_journal_member h u) (map (new_journal_member h) N))
      (then_io (sync_subdir [stage_dir u, members_dir]) (then_io (sync_subdir [members_dir])
      (then_io (publish_primary h (record_of h N) ?j) (then_io remove_transients sync_dir))))) Q E S g"
    if g: "pending h B u cur N prev g" "g [members_dir] = Some Folder" for g
    by (rule wp_then, rule wp_publish_journal_members [OF fair g], rule publish) (assumption | rule pharm)+
  have "wp br di (create_dir_all [members_dir])
      (\<lambda>_. wp br di (then_io (each (publish_journal_member h u) (map (new_journal_member h) N))
      (then_io (sync_subdir [stage_dir u, members_dir]) (then_io (sync_subdir [members_dir])
      (then_io (publish_primary h (record_of h N) ?j) (then_io remove_transients sync_dir))))) Q E S) E S f"
  proof (rule wp_create_dir1)
    show "f [members_dir] \<noteq> Some (File b)" for b
      using tidyD [OF pending_tidy [OF p], of "[members_dir]"] by auto
    have "staged h u N f \<and> store_ok h B f" using p by (simp add: pending_def)
    have "pending h B u cur N prev (f([members_dir] \<mapsto> Folder))"
      by (rule pending_update [OF p]) auto
    then show "wp br di (then_io (each (publish_journal_member h u) (map (new_journal_member h) N))
      (then_io (sync_subdir [stage_dir u, members_dir]) (then_io (sync_subdir [members_dir])
      (then_io (publish_primary h (record_of h N) ?j) (then_io remove_transients sync_dir))))) Q E S
      (f([members_dir] \<mapsto> Folder))"
      by (rule store) simp
  qed (rule pharm [OF p])
  then show ?thesis
    unfolding roll_forward_commit_def record_from_journal_of [OF N]
    by (intro wp_then wp_validate_commit [OF host p] pharm [OF p]) (simp add: journal_of_members [OF N])
qed

lemma wp_recover_pending:
  assumes fair: "fair h B" and p: "pending h B u cur N prev f"
    and Q: "\<And>g. settled h B (Some N) (kept cur prev) g \<Longrightarrow> br \<or> clean g \<Longrightarrow> Q () g"
    and harm: "\<And>g. forward h B u cur N prev g \<Longrightarrow> harm br di E S g"
  shows "wp br di (recover h) Q E S f"
proof -
  have host: "host_ok h" using fair by simp
  obtain ph where there: "f [journal_file] = Some (File (h_encode_journal h (journal_of h u cur N\<lparr>dj_phase := ph\<rparr>)))"
    using p by (auto simp: pending_def journal_there_def)
  let ?j = "journal_of h u cur N\<lparr>dj_phase := ph\<rparr>"
  have valid: "validate_journal_structure ?j"
    using p by (intro journal_of_valid [OF host]) (simp_all add: pending_def)
  have pharm: "harm br di E S f" using p by (intro harm pending_forward)
  have roll: "wp br di (roll_forward_commit h ?j) Q E S f"
    by (rule wp_roll_forward_commit [OF fair p]) (rule Q harm; assumption)+
  have tidy: "tidy f" using p by (simp add: pending_def)
  show ?thesis
    by (rule wp_recover_journal [OF host tidy there valid]) (simp_all add: roll pharm)
qed

lemma wp_recover:
  assumes "fair h B" "forward h B u cur N prev f"
    "\<And>g. settled h B (Some N) (kept cur prev) g \<Longrightarrow> br \<or> clean g \<Longrightarrow> Q () g"
    "\<And>g. forward h B u cur N prev g \<Longrightarrow> harm br di E S g"
  shows "wp br di (recover h) Q E S f"
  using assms(2) unfolding forward_def
proof
  assume "pending h B u cur N prev f"
  then show ?thesis using assms(1,3,4) by (intro wp_recover_pending)
next
  assume "settled h B (Some N) (kept cur prev) f"
  then show ?thesis using assms(3,4) by (intro wp_recover_settled) (auto simp: forward_def)
qed

section \<open>The collection of orphans\<close>

lemma wp_generation_references:
  assumes "host_ok h" "manifest_at h dir g f" "Q (map (digest_of h) (members_of g)) f" "harm br di E S f"
  shows "wp br di (generation_references h dir) Q E S f"
proof -
  have "(case map_option (record_of h) g of None \<Rightarrow> []
      | Some record \<Rightarrow> filter (\<lambda>d. d \<noteq> []) (map mm_content_digest (mr_evidence record))) = map (digest_of h) (members_of g)"
    using assms(1) by (auto simp: members_of_def comp_def filter_id_conv split: option.splits)
  then show ?thesis
    unfolding generation_references_def
    by (intro wp_bind wp_read_manifest_at [OF assms(1,2) _ assms(4)]) (use assms(3) in simp)
qed

definition referenced :: "host \<Rightarrow> generation option \<Rightarrow> generation option \<Rightarrow> ustr list" where
  "referenced h cur prev = map (digest_of h) (members_of cur) @ map (digest_of h) (members_of prev)"

lemma settled_forget:
  assumes "settled h B cur prev f" "d \<notin> set (referenced h cur prev)"
  shows "settled h B cur prev (f([members_dir, d] := None))" (is "settled h B cur prev ?g")
proof -
  have f: "settled_but h B cur prev f" "f [journal_file] = None" using assms(1) by (simp_all add: settled_def)
  have "tidy ?g" using f(1) by (simp add: settled_but_def tidy_delete)
  moreover have "store_ok h B ?g" using f(1) by (simp add: settled_but_def store_ok_def)
  moreover have "contents h M ?g" if "contents h M f" "cur = Some M \<or> prev = Some M" for M
    using that assms(2) by (auto simp: contents_def referenced_def members_of_def)
  then have "whole h cur ?g" "whole h prev ?g"
    using f(1) by (auto simp: settled_but_def whole_def)
  ultimately show ?thesis
    using f by (simp add: settled_def settled_but_def manifest_at_def)
qed

text \<open>Exactly what the two generations refer to is left when no call breaks.\<close>

lemma wp_collect_members:
  assumes "settled h B cur prev f" "distinct ns" "\<And>n. n \<in> set ns \<Longrightarrow> f [members_dir, n] \<noteq> None"
    "\<And>k g. settled h B cur prev g \<Longrightarrow> (\<And>p. g p = None \<or> g p = f p) \<Longrightarrow>
      (\<And>n. g [members_dir, n] = (if n \<in> set ns - set (referenced h cur prev) then None else f [members_dir, n])) \<Longrightarrow> Q k g"
    "\<And>g. settled h B cur prev g \<Longrightarrow> harm br di E S g"
  shows "wp br di (collect_members (referenced h cur prev) ns) Q E S f"
  using assms(1-4)
proof (induction ns arbitrary: f Q)
  case (Cons n ns)
  obtain b where file_at: "f [members_dir, n] = Some (File b)"
    using Cons.prems(3) [of n] Cons.prems(1) by (auto simp: settled_def settled_but_def store_ok_def)
  let ?ref = "referenced h cur prev"
  have stay: "wp br di (collect_members ?ref ns) Q E S f" if "n \<in> set ?ref"
  proof (rule Cons.IH [OF Cons.prems(1)])
    show "Q k g" if "settled h B cur prev g" "\<And>p. g p = None \<or> g p = f p"
      "\<And>i. g [members_dir, i] = (if i \<in> set ns - set ?ref then None else f [members_dir, i])" for k g
      by (rule Cons.prems(4) [OF that(1,2)]) (use that(3) \<open>n \<in> set ?ref\<close> in auto)
  qed (use Cons.prems(2,3) in auto)
  have drop: "wp br di (bind_io (collect_members ?ref ns) (\<lambda>k. ret (Suc k))) Q E S (f([members_dir, n] := None))"
    if "n \<notin> set ?ref"
  proof (rule wp_bind, rule Cons.IH)
    show "settled h B cur prev (f([members_dir, n] := None))" by (rule settled_forget [OF Cons.prems(1) that])
    show "wp br di (ret (Suc k)) Q E S g" if "settled h B cur prev g" "\<And>p. g p = None \<or> g p = (f([members_dir, n] := None)) p"
      "\<And>i. g [members_dir, i] = (if i \<in> set ns - set ?ref then None else (f([members_dir, n] := None)) [members_dir, i])" for k g
    proof (rule wp_ret, rule Cons.prems(4) [OF that(1)])
      show "g p = None \<or> g p = f p" for p using that(2) [of p] by (auto split: if_splits)
      show "g [members_dir, i] = (if i \<in> set (n # ns) - set ?ref then None else f [members_dir, i])" for i
        using that(3) [of i] \<open>n \<notin> set ?ref\<close> by auto
    qed
  qed (use Cons.prems(2,3) in auto)
  have "wp br di (if n \<in> set ?ref then collect_members ?ref ns
      else then_io (map_fail map_io (fs_remove_file [members_dir, n]))
        (bind_io (collect_members ?ref ns) (\<lambda>k. ret (Suc k)))) Q E S f"
    by (rule wp_if, rule stay, simp, rule wp_then, rule wp_map_fail, rule wp_remove_file)
      (use file_at drop assms(5) [OF Cons.prems(1)] in auto)
  then have branch: "wp br di (case File b of File _ \<Rightarrow> if n \<in> set ?ref then collect_members ?ref ns
      else then_io (map_fail map_io (fs_remove_file [members_dir, n]))
        (bind_io (collect_members ?ref ns) (\<lambda>k. ret (Suc k))) | _ \<Rightarrow> collect_members ?ref ns) Q E S f"
    by simp
  show ?case
    unfolding collect_members.simps
    by (rule wp_bind, rule wp_map_fail, rule wp_stat)
      (use file_at branch assms(5) [OF Cons.prems(1)] in \<open>simp_all split del: if_split\<close>)
qed simp

text \<open>The store holds nothing else.\<close>

definition tight :: "host \<Rightarrow> generation option \<Rightarrow> generation option \<Rightarrow> disk \<Rightarrow> bool" where
  "tight h cur prev f \<longleftrightarrow> (\<forall>d. f [members_dir, d] \<noteq> None \<longrightarrow> d \<in> set (referenced h cur prev))"

lemma wp_collect_orphans:
  assumes host: "host_ok h" and f: "settled h B cur prev f"
    and Q: "\<And>k g. settled h B cur prev g \<Longrightarrow> (\<And>p. g p = None \<or> g p = f p) \<Longrightarrow> tight h cur prev g \<Longrightarrow> Q k g"
    and harm: "\<And>g. settled h B cur prev g \<Longrightarrow> harm br di E S g"
  shows "wp br di (collect_orphan_member_content h) Q E S f"
proof (rule wp_good)
  assume good: "good f"
  have m: "manifest_at h primary_dir cur f" "manifest_at h previous_dir prev f"
    using f by (simp_all add: settled_def settled_but_def)
  have loop: "wp br di (collect_members (referenced h cur prev) ns) (\<lambda>k. wp br di
      (then_io (when_io (k > 0) (sync_subdir [members_dir])) (ret k)) Q E S) E S f"
    if ns: "distinct ns" "set ns = {n. f ([members_dir] @ [n]) \<noteq> None}" for ns
  proof (rule wp_collect_members [OF f ns(1)])
    fix k g assume g: "settled h B cur prev g" "\<And>p. g p = None \<or> g p = f p"
      "\<And>n. g [members_dir, n] = (if n \<in> set ns - set (referenced h cur prev) then None else f [members_dir, n])"
    have "tight h cur prev g" using g(3) ns(2) by (auto simp: tight_def split: if_splits)
    then have "Q k g" by (rule Q [OF g(1,2)])
    then show "wp br di (then_io (when_io (k > 0) (sync_subdir [members_dir])) (ret k)) Q E S g"
      using harm [OF g(1)] by (intro wp_then wp_when wp_sync_subdir) auto
  qed (use ns harm in auto)
  have "wp br di (if \<not> e then ret 0 else then_io (map_fail map_io (fs_open_dir [members_dir]))
     (bind_io (map_fail map_io (fs_entries [members_dir])) (\<lambda>names.
      bind_io (collect_members (referenced h cur prev) names) (\<lambda>removed.
      then_io (when_io (removed > 0) (sync_subdir [members_dir])) (ret removed))))) Q E S f"
    if e: "e \<longleftrightarrow> f [members_dir] \<noteq> None" for e
  proof (cases "f [members_dir] = None")
    case True
    have "f [members_dir, d] = None" for d using good_below [OF good True] .
    then have "Q 0 f" by (intro Q [OF f]) (simp_all add: tight_def)
    then show ?thesis using e True by simp
  next
    case False
    then have folder: "folder_at f [members_dir]"
      using tidyD [OF settled_tidy [OF f], of "[members_dir]"] by (auto simp: folder_at_def)
    have "wp br di (then_io (map_fail map_io (fs_open_dir [members_dir]))
     (bind_io (map_fail map_io (fs_entries [members_dir])) (\<lambda>names.
      bind_io (collect_members (referenced h cur prev) names) (\<lambda>removed.
      then_io (when_io (removed > 0) (sync_subdir [members_dir])) (ret removed))))) Q E S f"
      using hurt_map_io [OF harm [OF f]]
      by (intro wp_then wp_map_fail wp_open_dir [OF folder] wp_bind wp_entries [OF folder] loop)
    then show ?thesis using e False by simp
  qed
  then have rest: "wp br di (bind_io (exists_io [members_dir]) (\<lambda>e. if \<not> e then ret 0
    else then_io (map_fail map_io (fs_open_dir [members_dir]))
     (bind_io (map_fail map_io (fs_entries [members_dir])) (\<lambda>names.
      bind_io (collect_members (referenced h cur prev) names) (\<lambda>removed.
      then_io (when_io (removed > 0) (sync_subdir [members_dir])) (ret removed)))))) Q E S f"
    using harm [OF f] by (intro wp_bind wp_exists) simp_all
  show ?thesis
    unfolding collect_orphan_member_content_def
    by (rule wp_bind, rule wp_generation_references [OF host m(1)], rule wp_bind,
        rule wp_generation_references [OF host m(2)], rule rest [unfolded referenced_def]) (rule harm [OF f])+
qed

text \<open>A disk at rest: settled, and nothing on it that the two generations do not need.\<close>

definition idle :: "bool \<Rightarrow> host \<Rightarrow> bytes set \<Rightarrow> generation option \<Rightarrow> generation option \<Rightarrow> disk \<Rightarrow> bool" where
  "idle br h B cur prev f \<longleftrightarrow> settled h B cur prev f \<and> (br \<or> tight h cur prev f \<and> clean f)"

lemma wp_collect_best_effort:
  assumes "host_ok h" "settled h B cur prev f"
    "\<And>g. settled h B cur prev g \<Longrightarrow> br \<or> tight h cur prev g \<Longrightarrow> (br \<or> clean f \<Longrightarrow> br \<or> clean g) \<Longrightarrow> Q () g"
    "\<And>g. di \<Longrightarrow> settled h B cur prev g \<Longrightarrow> S g"
  shows "wp br di (collect_orphan_member_content_best_effort h) Q E S f"
  unfolding collect_orphan_member_content_best_effort_def
proof (rule wp_ignore, rule wp_collect_orphans [OF assms(1,2)])
  show "Q () g" if "settled h B cur prev g" "\<And>p. g p = None \<or> g p = f p" "tight h cur prev g" for g
  proof -
    have "br \<or> clean g" if "br \<or> clean f"
      using dwindles_clean [of br] that \<open>\<And>p. g p = None \<or> g p = f p\<close> unfolding dwindles_def by blast
    then show ?thesis using that by (intro assms(3)) auto
  qed
qed (use assms(3,4) in \<open>auto simp: harm_def\<close>)

section \<open>Entering a dataset\<close>

lemma wp_take_lock:
  assumes "f [lock_file] \<noteq> Some Folder" "I f" "I (f([lock_file] \<mapsto> File []))" "\<And>g. I g \<Longrightarrow> Q () g"
    "\<And>g. I g \<Longrightarrow> harm br di E S g"
  shows "wp br di lock_dataset Q E S f"
proof -
  have flush: "wp br di (fs_sync [lock_file]) Q (\<lambda>k. E (map_lock_io k)) S g" if "I g" for g
    by (rule wp_sync) (use that assms(4,5) in auto)
  show ?thesis
    unfolding lock_dataset_def
    by (intro wp_then wp_reject wp_map_fail wp_open_create)
      (use flush assms(1-3,5) in \<open>auto simp: folder_at_def\<close>)
qed

lemma wp_lock_dataset:
  assumes "tidy f" "I f" "I (f([lock_file] \<mapsto> File []))" "\<And>g. I g \<Longrightarrow> Q () g" "\<And>g. I g \<Longrightarrow> harm br di E S g"
  shows "wp br di lock_dataset Q E S f"
proof (rule wp_take_lock [where I = I])
  show "f [lock_file] \<noteq> Some Folder" using tidyD [OF assms(1), of "[lock_file]"] by auto
qed (use assms in auto)

end
