(* ===== verification/Dataset_Committing.thy ===== *)
theory Dataset_Committing
  imports Dataset_Resume
begin

text \<open>
  A commit. Up to the rename of its journal the disk stays settled on the old generations; from there on it is
  pending, and the rest of the commit is the same as its recovery.
\<close>

section \<open>Staging the members\<close>

lemma whole_contents: "whole h g f \<Longrightarrow> contents h (members_of g) f"
  by (cases g) (simp_all add: whole_def members_of_def contents_def)

lemma settled_contents: "settled h B cur prev f \<Longrightarrow> contents h (members_of cur) f"
  by (rule whole_contents) (simp add: settled_def settled_but_def)

lemma pending_contents: "pending h B u cur N prev f \<Longrightarrow> contents h (members_of cur) f"
  by (cases cur) (simp_all add: pending_def whole_def members_of_def kept_def contents_def)

text \<open>The staging directory after the members \<open>ys\<close>, beside the store of \<open>f\<close>.\<close>

definition staging :: "host \<Rightarrow> ustr \<Rightarrow> disk \<Rightarrow> dataset_member list \<Rightarrow> disk \<Rightarrow> bool" where
  "staging h u f ys g \<longleftrightarrow>
     g [stage_dir u] = Some Folder \<and> g [stage_dir u, members_dir] = Some Folder \<and>
     (\<forall>d. g [members_dir, d] = f [members_dir, d]) \<and>
     (\<forall>m \<in> set ys. g [members_dir, digest_of h m] \<noteq> None \<or> g [stage_dir u, members_dir, digest_of h m] \<noteq> None) \<and>
     (\<forall>d. g [stage_dir u, members_dir, d] \<noteq> None \<longrightarrow>
        (\<exists>m \<in> set ys. digest_of h m = d \<and> g [stage_dir u, members_dir, d] = Some (File (me_bytes m))))"

lemma staging_staged:
  assumes fair: "fair h B" and s: "settled h B cur prev g" and st: "staging h u f new g"
    and N: "set N \<subseteq> set new \<union> set (members_of cur)" "set new \<subseteq> set N" "me_bytes ` set N \<subseteq> B"
  shows "staged h u N g"
  unfolding staged_def
proof
  fix m assume m: "m \<in> set N"
  have store: "store_ok h B g" using s by (simp add: settled_def settled_but_def)
  show "g [stage_dir u, members_dir, digest_of h m] = Some (File (me_bytes m)) \<or>
        g [stage_dir u, members_dir, digest_of h m] = None \<and> g [members_dir, digest_of h m] = Some (File (me_bytes m))"
  proof (cases "g [stage_dir u, members_dir, digest_of h m] = None")
    case True
    have there: "g [members_dir, digest_of h m] \<noteq> None"
    proof (cases "m \<in> set new")
      case False
      then have "m \<in> set (members_of cur)" using m N by auto
      then show ?thesis using settled_contents [OF s] by (simp add: contents_def)
    qed (use st True in \<open>auto simp: staging_def\<close>)
    have "g [members_dir, digest_of h m] = Some (File (me_bytes m))"
      by (rule stored_bytes [OF fair store _ there]) (use m N(3) in auto)
    then show ?thesis using True by simp
  next
    case False
    then obtain k where k: "k \<in> set new" "digest_of h k = digest_of h m"
      "g [stage_dir u, members_dir, digest_of h m] = Some (File (me_bytes k))"
      using st by (auto simp: staging_def)
    then have "me_bytes k = me_bytes m" using fair_eq [OF fair] m N(2,3) by blast
    then show ?thesis using k by simp
  qed
qed

lemma wp_stage_member:
  assumes "settled h B cur prev g" "staging h u f ys g"
    "existing = map (digest_of h) (members_of cur)"
    "\<And>k. settled h B cur prev k \<Longrightarrow> staging h u f (ys @ [m]) k \<Longrightarrow> Q () k"
    "\<And>k. settled h B cur prev k \<Longrightarrow> digest_of h m \<in> set (map (digest_of h) ys) \<Longrightarrow> E StorageIo k"
    "\<And>k. settled h B cur prev k \<Longrightarrow> harm br di E S k"
  shows "wp br di (stage_member h u existing m) Q E S g"
proof -
  let ?d = "digest_of h m"
  have stored: "?d \<in> set existing \<Longrightarrow> g [members_dir, ?d] \<noteq> None"
    using settled_contents [OF assms(1)] assms(3) by (auto simp: contents_def)
  have keep: "settled h B cur prev (g([stage_dir u, members_dir, ?d] := x))" for x
    by (rule settled_update [OF assms(1)]) simp_all
  have put: "wp br di (write_new_file [stage_dir u, members_dir, ?d] (me_bytes m)) Q E S g"
    if none: "g [members_dir, ?d] = None"
  proof (rule wp_write_new_file)
    show "E StorageIo g" if there: "g [stage_dir u, members_dir, ?d] \<noteq> None"
    proof -
      have "\<exists>k \<in> set ys. digest_of h k = ?d" using assms(2) there unfolding staging_def by blast
      then have "?d \<in> set (map (digest_of h) ys)" by (metis imageI list.set_map)
      then show ?thesis by (rule assms(5) [OF assms(1)])
    qed
    show "folder_at g (butlast [stage_dir u, members_dir, ?d])"
      using assms(2) by (simp add: folder_at_def staging_def)
    show "Q () (g([stage_dir u, members_dir, ?d] \<mapsto> File (me_bytes m)))"
      by (rule assms(4) [OF keep]) (use assms(2) in \<open>auto simp: staging_def\<close>)
  qed (use assms(1,6) keep in auto)
  have "wp br di (when_io (\<not> s \<and> ?d \<notin> set existing) (write_new_file [stage_dir u, members_dir, ?d] (me_bytes m))) Q E S g"
    if s: "s \<longleftrightarrow> g [members_dir, ?d] \<noteq> None" for s
  proof (rule wp_when)
    assume "\<not> (\<not> s \<and> ?d \<notin> set existing)"
    then have "g [members_dir, ?d] \<noteq> None" using stored s by auto
    then show "Q () g" using assms(2) by (intro assms(4) [OF assms(1)]) (auto simp: staging_def)
  qed (use put s in auto)
  then show ?thesis
    unfolding stage_member_def Let_def
    by (intro wp_bind wp_exists) (use assms(1,6) in auto)
qed

lemma wp_stage_members:
  assumes "settled h B cur prev f" "staging h u f [] f" "existing = map (digest_of h) (members_of cur)"
    "\<And>k. settled h B cur prev k \<Longrightarrow> staging h u f new k \<Longrightarrow> Q () k"
    "\<And>k. settled h B cur prev k \<Longrightarrow> \<not> distinct (map (digest_of h) new) \<Longrightarrow> E StorageIo k"
    "\<And>k. settled h B cur prev k \<Longrightarrow> harm br di E S k"
  shows "wp br di (each (stage_member h u existing) new) Q E S f"
proof (rule wp_each [where Inv = "\<lambda>ys g. settled h B cur prev g \<and> staging h u f ys g"])
  fix m ys zs g assume new: "new = ys @ m # zs" and g: "settled h B cur prev g \<and> staging h u f ys g"
  show "wp br di (stage_member h u existing m) (\<lambda>_ g. settled h B cur prev g \<and> staging h u f (ys @ [m]) g) E S g"
    by (rule wp_stage_member [OF _ _ assms(3)]) (use g new assms(5,6) in auto)
qed (use assms in auto)

section \<open>Preparing\<close>

definition prepared ::
  "host \<Rightarrow> bytes set \<Rightarrow> ustr \<Rightarrow> generation option \<Rightarrow> generation \<Rightarrow> generation option \<Rightarrow> disk \<Rightarrow> bool" where
  "prepared h B u cur N prev f \<longleftrightarrow>
     settled h B cur prev f \<and> staged h u N f \<and> f [stage_dir u] = Some Folder"

lemma prepared_update:
  assumes "prepared h B u cur N prev f" "\<not> core p" "\<And>d. p \<noteq> [stage_dir u, members_dir, d]" "p \<noteq> [stage_dir u]"
    "\<And>e. x = Some e \<Longrightarrow> fits p e"
  shows "prepared h B u cur N prev (f(p := x))"
proof -
  have "settled h B cur prev (f(p := x))"
    by (rule settled_update) (use assms in \<open>auto simp: prepared_def\<close>)
  moreover have "p \<noteq> [members_dir, d]" for d using assms(2) by auto
  then have "staged h u N (f(p := x))"
    using assms(1,3) by (simp add: prepared_def staged_def) metis
  ultimately show ?thesis using assms(1,4) by (simp add: prepared_def)
qed

lemma prepared_partly:
  assumes "prepared h B u cur N prev f" "partly [previous_next_dir] f g"
  shows "prepared h B u cur N prev g"
proof -
  have same: "g (n # r) = f (n # r)" if "n \<noteq> previous_next_dir" for n r
    using partly_outside [OF assms(2)] that by simp
  have "settled h B cur prev g"
    by (rule settled_partly_dir [OF _ assms(2)]) (use assms(1) in \<open>auto simp: prepared_def\<close>)
  then show ?thesis using assms(1) same by (simp add: prepared_def staged_def)
qed

lemma prepared_settled: "prepared h B u cur N prev f \<Longrightarrow> settled h B cur prev f"
  by (simp add: prepared_def)

lemma wp_stage_previous_manifest:
  assumes "prepared h B u cur N prev f"
    "\<And>g. prepared h B u cur N prev g \<Longrightarrow>
      cur = None \<and> g [previous_next_dir] = None \<or> cur \<noteq> None \<and> manifest_at h previous_next_dir cur g \<Longrightarrow> Q () g"
    "\<And>g. prepared h B u cur N prev g \<Longrightarrow> harm br di E S g"
  shows "wp br di stage_previous_manifest Q E S f"
proof -
  let ?read = "bind_io (read_file [primary_dir, manifest_file]) (\<lambda>r.
     case r of
       None \<Rightarrow> sync_dir
     | Some b \<Rightarrow>
         then_io (create_dir_all [previous_next_dir])
        (then_io (write_new_file [previous_next_dir, manifest_file] b)
        (then_io (sync_subdir [previous_next_dir])
                 sync_dir)))"
  have flush: "wp br di (then_io (sync_subdir [previous_next_dir]) sync_dir) Q E S g"
    if "prepared h B u cur N prev g" "cur \<noteq> None" "manifest_at h previous_next_dir cur g" for g
    using that assms(2,3) by (intro wp_then wp_sync_subdir wp_sync_dir) simp_all
  have copy: "wp br di (then_io (create_dir_all [previous_next_dir])
      (then_io (write_new_file [previous_next_dir, manifest_file] (manifest_bytes h M))
      (then_io (sync_subdir [previous_next_dir]) sync_dir))) Q E S g"
    if g: "prepared h B u cur N prev g" "g [previous_next_dir] = None" "cur = Some M" for g M
  proof (rule wp_good)
    assume good: "good g"
    have none: "g [previous_next_dir, manifest_file] = None" by (rule good_below [OF good g(2)])
    have dir: "prepared h B u cur N prev (g([previous_next_dir] \<mapsto> Folder))"
      by (rule prepared_update [OF g(1)]) auto
    have new: "prepared h B u cur N prev (g([previous_next_dir] \<mapsto> Folder, [previous_next_dir, manifest_file] \<mapsto> File b))" for b
      by (rule prepared_update [OF dir]) auto
    have put: "wp br di (then_io (write_new_file [previous_next_dir, manifest_file] (manifest_bytes h M))
      (then_io (sync_subdir [previous_next_dir]) sync_dir)) Q E S (g([previous_next_dir] \<mapsto> Folder))"
    proof (rule wp_then, rule wp_write_new_file)
      show "wp br di (then_io (sync_subdir [previous_next_dir]) sync_dir) Q E S
          (g([previous_next_dir] \<mapsto> Folder, [previous_next_dir, manifest_file] \<mapsto> File (manifest_bytes h M)))"
        by (rule flush [OF new]) (use g(3) in \<open>simp_all add: manifest_at_def\<close>)
    qed (use none dir new assms(3) in \<open>simp_all add: folder_at_def\<close>)
    show "wp br di (then_io (create_dir_all [previous_next_dir])
      (then_io (write_new_file [previous_next_dir, manifest_file] (manifest_bytes h M))
      (then_io (sync_subdir [previous_next_dir]) sync_dir))) Q E S g"
      by (rule wp_then, rule wp_create_dir1) (use put g(1,2) assms(3) in simp_all)
  qed
  have read: "wp br di ?read Q E S g"
    if g: "prepared h B u cur N prev g" "g [previous_next_dir] = None" for g
  proof -
    have m: "g [primary_dir, manifest_file] = map_option (\<lambda>M. File (manifest_bytes h M)) cur"
      using g(1) by (simp add: prepared_def settled_def settled_but_def manifest_at_def)
    have "wp br di sync_dir Q E S g" if "cur = None"
      by (rule wp_sync_dir) (use that g assms(2,3) in auto)
    then show ?thesis
      using m copy [OF g] assms(3) [OF g(1)]
      by (intro wp_bind wp_read_file) (cases cur; simp)+
  qed
  have drop: "wp br di (when_io c (then_io (remove_dir_all [previous_next_dir]) sync_dir)) (\<lambda>_. wp br di ?read Q E S) E S f"
    if c: "c \<longleftrightarrow> f [previous_next_dir] \<noteq> None" for c
  proof (rule wp_when)
    assume c
    then have "f [previous_next_dir] \<noteq> None" using c by simp
    then have folder: "f [previous_next_dir] = Some Folder"
      using tidyD [OF settled_tidy [OF prepared_settled [OF assms(1)]], of "[previous_next_dir]"] by auto
    have p: "prepared h B u cur N prev (pruned [previous_next_dir] f)"
      by (rule prepared_partly [OF assms(1) partly_pruned])
    have none: "pruned [previous_next_dir] f [previous_next_dir] = None" by (simp add: pruned_def)
    have gone: "wp br di sync_dir (\<lambda>_. wp br di ?read Q E S) E S (pruned [previous_next_dir] f)"
      by (rule wp_sync_dir, rule read [OF p none], rule assms(3) [OF p])
    show "wp br di (then_io (remove_dir_all [previous_next_dir]) sync_dir) (\<lambda>_. wp br di ?read Q E S) E S f"
      by (rule wp_then, rule wp_remove_dir [where d = "[previous_next_dir]"], rule folder, rule gone)
        (rule assms(3), rule prepared_partly [OF assms(1)])
  qed (use c read assms(1) in simp)
  show ?thesis
    unfolding stage_previous_manifest_def
    by (rule wp_bind, rule wp_exists, simp, rule wp_then, rule drop, simp, rule assms(3) [OF assms(1)])
qed

lemma pending_new:
  assumes "prepared h B u cur N prev f" "f [primary_dir] = Some Folder" "safe_segment u" "canonical N"
    "me_bytes ` set N \<subseteq> B"
    "cur = None \<and> f [previous_next_dir] = None \<or> cur \<noteq> None \<and> manifest_at h previous_next_dir cur f"
  shows "pending h B u cur N prev
    (f([journal_prefix @ u] := None, [journal_file] \<mapsto> File (h_encode_journal h (journal_of h u cur N))))"
    (is "pending h B u cur N prev ?g")
proof -
  have one: "?g [primary_dir] = f [primary_dir]" "?g [previous_next_dir] = f [previous_next_dir]"
    and two: "?g [d, n] = f [d, n]" and three: "?g [a, b, c] = f [a, b, c]"
    and at: "?g [journal_file] = Some (File (h_encode_journal h (journal_of h u cur N)))" for a b c d n by simp_all
  have s: "settled_but h B cur prev f" and st: "staged h u N f"
    using assms(1) by (simp_all add: prepared_def settled_def)
  have "journal_of h u cur N\<lparr>dj_phase := Prepared\<rparr> = journal_of h u cur N"
    by (simp add: journal_of_def commit_journal_def)
  then have "journal_there h u cur N ?g"
    unfolding journal_there_def at by metis
  moreover have "tidy ?g" using s by (intro tidy_insert tidy_delete) (simp_all add: settled_but_def)
  moreover have "keeping h cur N prev ?g"
    using assms(6) s by (auto simp: keeping_def manifest_at_def one two kept_def settled_but_def simp del: fun_upd_apply)
  moreover have "whole h (kept cur prev) ?g"
  proof -
    have "whole h (kept cur prev) f" using s by (auto simp: settled_but_def kept_def split: option.splits)
    then show ?thesis by (simp add: whole_def contents_def two del: fun_upd_apply)
  qed
  moreover have "store_ok h B ?g" using s by (simp add: settled_but_def store_ok_def two del: fun_upd_apply)
  moreover have "staged h u N ?g" using st by (simp add: staged_def two three del: fun_upd_apply)
  moreover have "manifest_at h primary_dir cur ?g"
    using s by (simp add: settled_but_def manifest_at_def two del: fun_upd_apply)
  moreover have "?g [primary_dir] = Some Folder" using assms(2) by (simp only: one)
  ultimately show ?thesis
    unfolding pending_def using assms(3-5) by blast
qed

lemma wp_write_new_journal:
  assumes "prepared h B u cur N prev f" "f [primary_dir] = Some Folder" "safe_segment u" "canonical N"
    "me_bytes ` set N \<subseteq> B"
    "cur = None \<and> f [previous_next_dir] = None \<or> cur \<noteq> None \<and> manifest_at h previous_next_dir cur f"
    "\<And>g. pending h B u cur N prev g \<Longrightarrow> settled_but h B cur prev g \<Longrightarrow> Q () g"
    "\<And>g. settled h B cur prev g \<Longrightarrow> harm br di E S g"
  shows "wp br di (write_journal h (journal_of h u cur N)) Q E S f"
proof -
  have p: "tidy f" using assms(1) by (simp add: prepared_def settled_def settled_but_def)
  have bare: "f [journal_prefix @ u] \<noteq> Some Folder" "f [journal_file] \<noteq> Some Folder"
    using tidyD [OF p, of "[journal_prefix @ u]" Folder] tidyD [OF p, of "[journal_file]" Folder] by auto
  have beside: "settled h B cur prev (f([journal_prefix @ u] := x))" if "x \<noteq> Some Folder" for x
    by (rule settled_update [OF prepared_settled [OF assms(1)]]) (use that in \<open>auto simp: is_slot_def\<close>)
  have "settled_but h B cur prev (f([journal_prefix @ u] := None))"
    using beside [of None] by (simp add: settled_def)
  then have "settled_but h B cur prev
      (f([journal_prefix @ u] := None, [journal_file] \<mapsto> File (h_encode_journal h (journal_of h u cur N))))"
    by (rule settled_but_update) auto
  then have "Q () (f([journal_prefix @ u] := None, [journal_file] \<mapsto> File (h_encode_journal h (journal_of h u cur N))))"
    by (rule assms(7) [OF pending_new [OF assms(1-6)]])
  then show ?thesis
    unfolding write_journal_def
    by (intro wp_write_beside) (use bare beside assms(8) in \<open>simp_all add: under_def folder_at_def\<close>)
qed

lemma wp_stage_manifest:
  assumes "prepared h B u cur N prev f" "\<And>g. prepared h B u cur N prev g \<Longrightarrow> Q () g"
    "\<And>g. prepared h B u cur N prev g \<Longrightarrow> harm br di E S g"
  shows "wp br di (write_manifest h [stage_dir u] r u) Q E S f"
  unfolding write_manifest_def
proof (rule wp_write_beside)
  have tidy: "tidy f" using assms(1) by (simp add: prepared_def settled_def settled_but_def)
  show "folder_at f (butlast ([stage_dir u] @ [manifest_prefix @ u]))"
    "folder_at f (butlast ([stage_dir u] @ [manifest_file]))"
    using assms(1) by (simp_all add: folder_at_def prepared_def)
  show "f ([stage_dir u] @ [manifest_prefix @ u]) \<noteq> Some Folder" "f ([stage_dir u] @ [manifest_file]) \<noteq> Some Folder"
    using tidyD [OF tidy, of "[stage_dir u, manifest_prefix @ u]" Folder]
      tidyD [OF tidy, of "[stage_dir u, manifest_file]" Folder] by auto
  have beside: "prepared h B u cur N prev (f([stage_dir u, manifest_prefix @ u] := x))" if "x \<noteq> Some Folder" for x
    by (rule prepared_update [OF assms(1)]) (use that in auto)
  then show "harm br di E S (f([stage_dir u] @ [manifest_prefix @ u] := x))" if "x \<noteq> Some Folder" for x
    using that assms(3) by simp
  have "prepared h B u cur N prev (f([stage_dir u, manifest_prefix @ u] := None, [stage_dir u, manifest_file] \<mapsto> File c))" for c
    by (rule prepared_update [OF beside]) auto
  then show "Q () (f([stage_dir u] @ [manifest_prefix @ u] := None,
      [stage_dir u] @ [manifest_file] \<mapsto> File (h_encode_manifest h r)))"
    using assms(2) by simp
qed (simp_all add: under_def)

text \<open>What a commit replaces \<open>cur\<close> by: new members, and members of \<open>cur\<close> that stay.\<close>

definition extends :: "bytes set \<Rightarrow> generation option \<Rightarrow> dataset_member list \<Rightarrow> generation \<Rightarrow> bool" where
  "extends B cur new N \<longleftrightarrow>
     canonical N \<and> me_bytes ` set N \<subseteq> B \<and> set new \<subseteq> set N \<and> set N \<subseteq> set new \<union> set (members_of cur)"

lemma wp_prepare_commit:
  assumes fair: "fair h B" and s: "settled h B cur prev f" and fresh: "f [stage_dir u] = None"
    and u: "safe_segment u" and N: "extends B cur new N"
    and Q: "\<And>g. pending h B u cur N prev g \<Longrightarrow> Q () g"
    and dup: "\<And>g. settled h B cur prev g \<Longrightarrow> \<not> distinct (map (digest_of h) new) \<Longrightarrow> E StorageIo g"
    and sharm: "\<And>g. settled h B cur prev g \<Longrightarrow> harm br di E S g"
    and pharm: "\<And>g. pending h B u cur N prev g \<Longrightarrow> settled_but h B cur prev g \<Longrightarrow> harm br di E S g"
  shows "wp br di (prepare_commit h (map (digest_of h) (members_of cur)) new (record_of h N) (journal_of h u cur N)) Q E S f"
proof (rule wp_good)
  assume good: "good f"
  have N': "canonical N" "me_bytes ` set N \<subseteq> B" "set N \<subseteq> set new \<union> set (members_of cur)" "set new \<subseteq> set N"
    using N by (simp_all add: extends_def)
  let ?kept = "\<lambda>g. cur = None \<and> g [previous_next_dir] = None \<or> cur \<noteq> None \<and> manifest_at h previous_next_dir cur g"
  let ?last = "then_io (write_journal h (journal_of h u cur N)) sync_dir"
  let ?seal = "bind_io (exists_io [primary_dir]) (\<lambda>primary. then_io (when_io (\<not> primary) (create_dir_all [primary_dir])) ?last)"
  let ?copy = "then_io (sync_subdir [stage_dir u, members_dir]) (then_io (sync_subdir [stage_dir u]) (then_io sync_dir
      (then_io stage_previous_manifest ?seal)))"
  let ?fill = "then_io (each (stage_member h u (map (digest_of h) (members_of cur))) new)
      (then_io (write_manifest h [stage_dir u] (record_of h N) u) ?copy)"
  have harm: "harm br di E S g" if "prepared h B u cur N prev g" for g
    by (rule sharm [OF prepared_settled [OF that]])
  have last: "wp br di ?last Q E S g"
    if g: "prepared h B u cur N prev g" "?kept g" "g [primary_dir] = Some Folder" for g
    by (rule wp_then, rule wp_write_new_journal [OF g(1,3) u N'(1,2) g(2) _ sharm], rule wp_sync_dir) (erule Q pharm)+
  have make: "wp br di (when_io (\<not> b) (create_dir_all [primary_dir])) (\<lambda>_. wp br di ?last Q E S) E S g"
    if g: "prepared h B u cur N prev g" "?kept g" and b: "b \<longleftrightarrow> g [primary_dir] \<noteq> None" for g b
  proof (rule wp_when)
    have bare: "g [primary_dir] \<noteq> Some (File c)" for c
      using tidyD [OF settled_tidy [OF prepared_settled [OF g(1)]], of "[primary_dir]"] by auto
    have dir: "prepared h B u cur N prev (g([primary_dir] \<mapsto> Folder))"
      by (rule prepared_update [OF g(1)]) auto
    have "wp br di ?last Q E S (g([primary_dir] \<mapsto> Folder))"
      by (rule last [OF dir]) (use g(2) in \<open>simp_all add: manifest_at_def\<close>)
    then show "wp br di (create_dir_all [primary_dir]) (\<lambda>_. wp br di ?last Q E S) E S g"
      by (intro wp_create_dir1 bare harm g(1))
    assume "\<not> \<not> b"
    then have "g [primary_dir] \<noteq> None" using b by simp
    then have "g [primary_dir] = Some Folder"
      using tidyD [OF settled_tidy [OF prepared_settled [OF g(1)]], of "[primary_dir]"] by auto
    then show "wp br di ?last Q E S g" by (rule last [OF g])
  qed
  have seal: "wp br di ?seal Q E S g" if g: "prepared h B u cur N prev g" "?kept g" for g
    by (rule wp_bind, rule wp_exists, simp, rule wp_then, rule make [OF g refl], rule harm [OF g(1)])
  have copy: "wp br di ?copy Q E S g" if g: "prepared h B u cur N prev g" for g
    by (rule wp_then, rule wp_sync_subdir, simp, rule wp_then, rule wp_sync_subdir, simp, rule wp_then,
        rule wp_sync_dir, rule wp_then, rule wp_stage_previous_manifest [OF g seal]) (assumption | rule harm [OF g] harm)+
  have manifest: "wp br di (then_io (write_manifest h [stage_dir u] (record_of h N) u) ?copy) Q E S g"
    if g: "prepared h B u cur N prev g" for g
    by (rule wp_then, rule wp_stage_manifest [OF g copy]) (assumption | rule harm)+
  let ?f = "f([stage_dir u] \<mapsto> Folder, [stage_dir u, members_dir] \<mapsto> Folder)"
  have below: "f [stage_dir u, n] = None" "f [stage_dir u, n, k] = None" for n k
    using good_below [OF good fresh, of n] good_above [OF good, of "[stage_dir u, n]" k]
    by (cases "f [stage_dir u, n, k]"; simp add: folder_at_def)+
  have s1: "settled h B cur prev (f([stage_dir u] \<mapsto> Folder))" by (rule settled_update [OF s]) auto
  have s2: "settled h B cur prev ?f" by (rule settled_update [OF s1]) auto
  have fill: "wp br di ?fill Q E S ?f"
  proof (rule wp_then, rule wp_stage_members [OF s2])
    show "staging h u ?f [] ?f" using below by (simp add: staging_def)
    fix g assume g: "settled h B cur prev g" "staging h u ?f new g"
    have "staged h u N g" by (rule staging_staged [OF fair g N'(3,4,2)])
    then have "prepared h B u cur N prev g" using g by (simp add: prepared_def staging_def)
    then show "wp br di (then_io (write_manifest h [stage_dir u] (record_of h N) u) ?copy) Q E S g" by (rule manifest)
  qed (use dup sharm in auto)
  have u': "dj_nonce (journal_of h u cur N) = u" by simp
  show ?thesis
    unfolding prepare_commit_def Let_def u'
    by (rule wp_then, rule wp_create_dir2)
      (use fresh below fill s1 s sharm in simp_all)
qed

section \<open>Publishing\<close>

lemma wp_publish_member:
  assumes "fair h B" "pending h B u cur N prev f" "m \<in> set N" "f [members_dir] = Some Folder"
    "\<And>g. pending h B u cur N prev g \<Longrightarrow> grown f g \<Longrightarrow> g [members_dir, digest_of h m] = Some (File (me_bytes m)) \<Longrightarrow> Q () g"
    "\<And>g. pending h B u cur N prev g \<Longrightarrow> harm br di E S g"
  shows "wp br di (publish_member h u m) Q E S f"
proof -
  let ?d = "digest_of h m"
  have flush: "wp br di (then_io (sync_subdir [stage_dir u, members_dir]) (sync_subdir [members_dir])) Q E S g"
    if "pending h B u cur N prev g" "Q () g" for g
    using that assms(6) by (intro wp_then wp_sync_subdir) simp_all
  have move: "wp br di (then_io (rename_io [stage_dir u, members_dir, ?d] [members_dir, ?d])
      (then_io (sync_subdir [stage_dir u, members_dir]) (sync_subdir [members_dir]))) Q E S f"
    if none: "f [members_dir, ?d] = None"
  proof -
    let ?g = "f([stage_dir u, members_dir, ?d] := None, [members_dir, ?d] \<mapsto> File (me_bytes m))"
    have here: "f [stage_dir u, members_dir, ?d] = Some (File (me_bytes m))"
      using assms(2,3) none by (auto simp: pending_def staged_def)
    have p: "pending h B u cur N prev ?g" by (rule pending_publish [OF assms(1-3) none])
    have "Q () ?g" by (rule assms(5) [OF p]) (use assms(4) none in \<open>auto simp: grown_def\<close>)
    then have next_: "wp br di (then_io (sync_subdir [stage_dir u, members_dir]) (sync_subdir [members_dir])) Q E S ?g"
      by (rule flush [OF p])
    show ?thesis
      by (rule wp_then, rule wp_move_member [OF assms(4) here none], rule next_, rule assms(6) [OF assms(2)])
  qed
  have "f [members_dir, ?d] = Some (File (me_bytes m))" if "f [members_dir, ?d] \<noteq> None"
    by (rule stored_bytes [OF assms(1)]) (use assms(2,3) that in \<open>auto simp: pending_def\<close>)
  then have "Q () f" if "f [members_dir, ?d] \<noteq> None"
    using that by (intro assms(5) [OF assms(2)]) (use assms(4) in \<open>simp_all add: grown_def\<close>)
  then show ?thesis
    unfolding publish_member_def Let_def
    by (intro wp_bind wp_exists wp_when) (use move assms(2,6) in simp_all)
qed

lemma wp_publish_members:
  assumes "fair h B" "pending h B u cur N prev f" "f [members_dir] = Some Folder" "extends B cur new N"
    "\<And>g. pending h B u cur N prev g \<Longrightarrow> contents h N g \<Longrightarrow> Q () g"
    "\<And>g. pending h B u cur N prev g \<Longrightarrow> harm br di E S g"
  shows "wp br di (each (publish_member h u) new) Q E S f"
proof (rule wp_each [where Inv = "\<lambda>ys g. pending h B u cur N prev g \<and> g [members_dir] = Some Folder \<and> contents h ys g"])
  show "pending h B u cur N prev f \<and> f [members_dir] = Some Folder \<and> contents h [] f"
    using assms by (simp add: contents_def)
  show "Q () g" if g: "pending h B u cur N prev g \<and> g [members_dir] = Some Folder \<and> contents h new g" for g
  proof -
    have "contents h N g"
      using g pending_contents [of h B u cur N prev g] assms(4) by (auto simp: extends_def contents_def)
    then show ?thesis using g assms(5) by blast
  qed
  fix m ys zs g
  assume new: "new = ys @ m # zs" and g: "pending h B u cur N prev g \<and> g [members_dir] = Some Folder \<and> contents h ys g"
  show "wp br di (publish_member h u m)
     (\<lambda>_ g. pending h B u cur N prev g \<and> g [members_dir] = Some Folder \<and> contents h (ys @ [m]) g) E S g"
  proof (rule wp_publish_member [OF assms(1)])
    show "m \<in> set N" using assms(4) new by (auto simp: extends_def)
    show "pending h B u cur N prev k \<and> k [members_dir] = Some Folder \<and> contents h (ys @ [m]) k"
      if "pending h B u cur N prev k" "grown g k" "k [members_dir, digest_of h m] = Some (File (me_bytes m))" for k
      using that g grown_contents [of g k h ys] by (auto simp: contents_def grown_def)
  qed (use g assms(6) in auto)
qed

lemma wp_finish_commit:
  assumes fair: "fair h B" and p: "pending h B u cur N prev f" and N: "extends B cur new N"
    and Q: "\<And>g. settled h B (Some N) (kept cur prev) g \<Longrightarrow> br \<or> tight h (Some N) (kept cur prev) g \<Longrightarrow> Q () g"
    and harm: "\<And>g. forward h B u cur N prev g \<Longrightarrow> harm br di E S g"
  shows "wp br di (finish_commit h new (record_of h N) (journal_of h u cur N)) Q E S f"
proof -
  have host: "host_ok h" and canonical: "canonical N" using fair N by (simp_all add: extends_def)
  have pharm: "harm br di E S g" if "pending h B u cur N prev g" for g
    by (rule harm, rule pending_forward, rule that)
  have sharm: "harm br di E S g" if "settled h B (Some N) (kept cur prev) g" for g
    by (rule harm, rule settled_forward, rule that)
  let ?clean = "then_io (collect_orphan_member_content_best_effort h) sync_dir"
  let ?publish = "then_io (publish_primary h (record_of h N) (journal_of h u cur N)) ?clean"
  let ?store = "then_io (each (publish_member h u) new) ?publish"
  have flush: "wp br di sync_dir Q E S g"
    if "settled h B (Some N) (kept cur prev) g" "br \<or> tight h (Some N) (kept cur prev) g" for g
    by (rule wp_sync_dir) (rule Q sharm that)+
  have clean: "wp br di ?clean Q E S g" if g: "settled h B (Some N) (kept cur prev) g" for g
  proof (rule wp_then, rule wp_collect_best_effort [OF host g])
    show "wp br di sync_dir Q E S k"
      if "settled h B (Some N) (kept cur prev) k" "br \<or> tight h (Some N) (kept cur prev) k" for k
      by (rule flush [OF that])
    show "S k" if "di" "settled h B (Some N) (kept cur prev) k" for k
      using harm_dies [OF sharm [OF that(2)] that(1)] .
  qed
  have prepared_journal: "\<exists>ph. journal_of h u cur N = journal_of h u cur N\<lparr>dj_phase := ph\<rparr>"
    by (rule exI [of _ Prepared]) (simp add: journal_of_def commit_journal_def)
  have publish: "wp br di ?publish Q E S g" if g: "pending h B u cur N prev g" "contents h N g" for g
    by (rule wp_then, rule wp_publish_primary [OF host canonical g prepared_journal clean pharm])
  have store: "wp br di ?store Q E S g" if g: "pending h B u cur N prev g" "g [members_dir] = Some Folder" for g
    by (rule wp_then, rule wp_publish_members [OF fair g N publish pharm])
  have bare: "f [members_dir] \<noteq> Some (File b)" for b
    using tidyD [OF pending_tidy [OF p], of "[members_dir]"] by auto
  have "pending h B u cur N prev (f([members_dir] \<mapsto> Folder))"
    by (rule pending_update [OF p]) auto
  then have dir: "wp br di ?store Q E S (f([members_dir] \<mapsto> Folder))" by (rule store) simp
  have u': "dj_nonce (journal_of h u cur N) = u" by simp
  show ?thesis
    unfolding finish_commit_def u'
    by (rule wp_then, rule wp_create_dir1, rule bare, rule dir, rule pharm [OF p])
qed

lemma wp_committed_after:
  assumes "wp br di prepare
      (\<lambda>_. wp br di finish (\<lambda>_. Q (receipt r Visible)) (\<lambda>e g. \<not> is_corruption e \<and> Q (receipt r RecoveryPending) g) S)
      (\<lambda>e g. \<not> is_corruption e \<and> wp br di (then_io discard (fail e)) Q E S g) S f"
  shows "wp br di (committed_after r prepare finish discard) Q E S f"
  unfolding committed_after_def
proof (rule wp_bind, rule wp_attempt, rule wp_mono [OF assms])
  fix x g
  assume "wp br di finish (\<lambda>_. Q (receipt r Visible)) (\<lambda>e g. \<not> is_corruption e \<and> Q (receipt r RecoveryPending) g) S g"
  then have "wp br di (attempt finish) (\<lambda>x. wp br di (case x of
      Inr _ \<Rightarrow> ret (receipt r Visible)
    | Inl e \<Rightarrow> if is_corruption e then fail e else ret (receipt r RecoveryPending)) Q E S) E S g"
    by (intro wp_attempt) (erule wp_mono; simp)
  then show "wp br di (case Inr x of
      Inl e \<Rightarrow> if is_corruption e then fail e else then_io discard (fail e)
    | Inr _ \<Rightarrow> bind_io (attempt finish) (\<lambda>x. case x of
        Inr _ \<Rightarrow> ret (receipt r Visible)
      | Inl e \<Rightarrow> if is_corruption e then fail e else ret (receipt r RecoveryPending))) Q E S g"
    by (simp add: wp_bind)
qed simp_all

text \<open>The error path of a preparation.\<close>

lemma wp_discard:
  assumes "settled_but h B cur prev f" "\<And>g. settled_but h B cur prev g \<Longrightarrow> (settled h B cur prev f \<Longrightarrow> settled h B cur prev g) \<Longrightarrow> E e g"
    "\<And>g. di \<Longrightarrow> settled_but h B cur prev g \<Longrightarrow> (settled h B cur prev f \<Longrightarrow> settled h B cur prev g) \<Longrightarrow> S g"
  shows "wp br di (then_io (then_io (ignore (fs_remove_dir_all [stage_dir u]))
      (ignore (fs_remove_dir_all [previous_next_dir]))) (fail e)) Q E S f"
proof (rule wp_then, rule wp_then, rule wp_ignore_remove_dir)
  fix g assume g: "partly [stage_dir u] f g"
  have one: "settled_but h B cur prev g" "settled h B cur prev f \<Longrightarrow> settled h B cur prev g"
    using settled_but_partly_dir [OF assms(1) g] settled_partly_dir [OF _ g] by simp_all
  then show "S g" if di using that assms(3) by blast
  show "wp br di (ignore (fs_remove_dir_all [previous_next_dir])) (\<lambda>_. wp br di (fail e) Q E S) E S g"
  proof (rule wp_ignore_remove_dir)
    fix k assume k: "partly [previous_next_dir] g k"
    have two: "settled_but h B cur prev k" "settled h B cur prev g \<Longrightarrow> settled h B cur prev k"
      using settled_but_partly_dir [OF one(1) k] settled_partly_dir [OF _ k] by simp_all
    then show "wp br di (fail e) Q E S k" using one(2) assms(2) by (intro wp_fail) blast
    show "S k" if di using two one(2) assms(3) that by blast
  qed
qed

end
