(* ===== verification/Dataset_Commit.thy ===== *)
theory Dataset_Commit
  imports Dataset_Committing
begin

text \<open>
  The commit operations on a settled disk: the generation a change set leads to, when a change set is accepted,
  and what every outcome of a commit leaves behind.
\<close>

section \<open>Change sets\<close>

definition reused_member :: "generation option \<Rightarrow> member_reference \<Rightarrow> dataset_member" where
  "reused_member cur r = the (member_named (members_of cur) (rf_name r))"

definition merged :: "generation option \<Rightarrow> change_set \<Rightarrow> generation" where
  "merged cur c = sort_key me_name (ch_new c @ map (reused_member cur) (ch_reused c))"

definition reusable :: "host \<Rightarrow> generation option \<Rightarrow> change_set \<Rightarrow> member_reference \<Rightarrow> bool" where
  "reusable h cur c r \<longleftrightarrow>
     rf_name r \<notin> set (ch_removed c) \<and>
     (\<exists>m. member_named (members_of cur) (rf_name r) = Some m \<and> matches_bytes h r (me_bytes m))"

text \<open>Every member of the current generation is replaced, kept or removed, and nothing else is removed.\<close>

definition acceptable :: "host \<Rightarrow> generation option \<Rightarrow> change_set \<Rightarrow> bool" where
  "acceptable h cur c \<longleftrightarrow>
     ch_expected c = revision_of h (members_of cur) \<and>
     set (ch_removed c) \<subseteq> me_name ` set (members_of cur) \<and>
     (\<forall>r \<in> set (ch_reused c). reusable h cur c r) \<and>
     me_name ` set (members_of cur) \<subseteq> set (target_names c) \<union> set (ch_removed c) \<and>
     canonical (merged cur c)"

lemma reusable_member:
  assumes "reusable h cur c r"
  shows "member_named (members_of cur) (rf_name r) = Some (reused_member cur r)"
    "reused_member cur r \<in> set (members_of cur)" "me_name (reused_member cur r) = rf_name r"
    "rf_byte_len r = length (me_bytes (reused_member cur r))"
    "rf_member_digest r = revision_member_digest h (me_bytes (reused_member cur r))"
proof -
  obtain m where m: "member_named (members_of cur) (rf_name r) = Some m" "matches_bytes h r (me_bytes m)"
    using assms by (auto simp: reusable_def)
  then have "reused_member cur r = m" by (simp add: reused_member_def)
  then show "member_named (members_of cur) (rf_name r) = Some (reused_member cur r)"
    "reused_member cur r \<in> set (members_of cur)" "me_name (reused_member cur r) = rf_name r"
    "rf_byte_len r = length (me_bytes (reused_member cur r))"
    "rf_member_digest r = revision_member_digest h (me_bytes (reused_member cur r))"
    using m member_named_Some [OF m(1)] by (simp_all add: matches_bytes_def)
qed

lemma sort_key_map: "sort_key k (map g xs) = map g (sort_key (k \<circ> g) xs)"
proof (induction xs)
  case (Cons x xs)
  have "insort_key k (g x) (map g ys) = map g (insort_key (k \<circ> g) x ys)" for ys
    by (induction ys) simp_all
  then show ?case using Cons by (simp add: comp_def)
qed simp

lemma sort_key_again: "sort_key k (sort_key k xs) = sort_key k xs"
  by (rule sort_key_id_if_sorted) simp

lemma change_evidence_merged:
  assumes "\<forall>r \<in> set (ch_reused c). reusable h cur c r"
  shows "change_evidence h c = map (member_evidence_of h) (merged cur c)"
proof -
  have "map (\<lambda>r. (rf_name r, rf_byte_len r, rf_member_digest r)) (ch_reused c) =
      map (member_evidence_of h) (map (reused_member cur) (ch_reused c))"
    using assms by (auto simp: member_evidence_of_def reusable_member)
  then have "change_evidence h c =
      sort_key fst (map (member_evidence_of h) (ch_new c @ map (reused_member cur) (ch_reused c)))"
    by (simp only: change_evidence_def map_append)
  then show ?thesis
    by (simp only: sort_key_map merged_def) (simp add: comp_def)
qed

definition reused_entry :: "host \<Rightarrow> generation option \<Rightarrow> member_reference \<Rightarrow> ustr \<times> ustr" where
  "reused_entry h cur r = (rf_name r, digest_of h (reused_member cur r))"

lemma reused_journal_members:
  assumes "\<forall>r \<in> set rs. reusable h cur c r"
  shows "traverse (reused_journal_member (map (reused_entry h cur) rs)) rs =
    Ok (map (new_journal_member h) (map (reused_member cur) rs))"
proof -
  have found: "List.find (\<lambda>(n, _). n = rf_name r) (map (reused_entry h cur) ss) = Some (reused_entry h cur r)"
    if "r \<in> set ss" for r ss
    using that by (induction ss) (auto simp: reused_entry_def reused_member_def)
  have "traverse (reused_journal_member (map (reused_entry h cur) rs)) rs =
      Ok (map (\<lambda>r. new_journal_member h (reused_member cur r)) rs)"
  proof (rule traverse_Ok_map)
    fix r assume r: "r \<in> set rs"
    then have "reusable h cur c r" using assms by blast
    then show "reused_journal_member (map (reused_entry h cur) rs) r = Ok (new_journal_member h (reused_member cur r))"
      using found [OF r] reusable_member [of h cur c r]
      by (simp add: reused_journal_member_def reused_entry_def new_journal_member_def revision_member_digest_hex_def)
  qed
  then show ?thesis by (simp add: comp_def)
qed

lemma commit_journal_merged:
  "commit_journal u (revision_of h (members_of cur)) (revision_of h (merged cur c))
     (map (new_journal_member h) (ch_new c) @ map (new_journal_member h) (map (reused_member cur) (ch_reused c))) =
   journal_of h u cur (merged cur c)"
proof -
  have "sort_key jm_name (map (new_journal_member h) (ch_new c @ map (reused_member cur) (ch_reused c))) =
      sort_key jm_name (map (new_journal_member h) (merged cur c))"
    by (simp only: sort_key_map comp_def new_journal_member_simps merged_def sort_key_again)
  then show ?thesis by (simp add: journal_of_def commit_journal_def)
qed

lemma merged_extends:
  assumes "\<forall>r \<in> set (ch_reused c). reusable h cur c r" "canonical (merged cur c)"
    "me_bytes ` set (ch_new c) \<subseteq> B" "me_bytes ` set (members_of cur) \<subseteq> B"
  shows "extends B cur (ch_new c) (merged cur c)"
proof -
  have "reused_member cur r \<in> set (members_of cur)" if "r \<in> set (ch_reused c)" for r
    using assms(1) that reusable_member(2) by blast
  then have "set (merged cur c) \<subseteq> set (ch_new c) \<union> set (members_of cur)" "set (ch_new c) \<subseteq> set (merged cur c)"
    by (auto simp: merged_def)
  moreover have "me_bytes ` set (merged cur c) \<subseteq> B"
    using assms(3,4) calculation(1) by blast
  ultimately show ?thesis using assms(2) by (simp add: extends_def)
qed

lemma settled_bytes:
  assumes "settled h B cur prev f"
  shows "me_bytes ` set (members_of cur) \<subseteq> B"
proof
  fix b assume "b \<in> me_bytes ` set (members_of cur)"
  then obtain m where "m \<in> set (members_of cur)" "b = me_bytes m" by blast
  then show "b \<in> B"
    using assms settled_contents [OF assms]
    by (auto simp: settled_def settled_but_def store_ok_def contents_def)
qed

section \<open>Names\<close>

lemma traverse_parse:
  "traverse parse_segment ns = (if list_all safe_segment ns then Ok ns else Err InvalidKey)"
  by (induction ns) (simp_all add: parse_segment_def)

lemma traverse_map: "traverse g (map k xs) = traverse (g \<circ> k) xs"
  by (induction xs) (simp_all split: outcome.splits)

lemma from_verified_names:
  assumes "sorted (map rf_name es)" "\<forall>e \<in> set es. rf_source_revision e = r"
  shows "\<exists>d. from_verified_members r es = (if distinct (map rf_name es) then Ok d else Err InvalidKey)"
  using assms
  by (auto simp: from_verified_members_def sort_key_id_if_sorted reject_duplicate_names_def adjacent_equal_distinct
      guard_ok_def list_ex_iff)

section \<open>Reusing members\<close>

lemma reused_path:
  assumes "host_ok h" "distinct (map me_name (members_of cur))" "member_named (members_of cur) n = Some m"
  shows "reused_content_path False (map_option (record_of h) cur) n = Ok [members_dir, digest_of h m]"
proof -
  obtain M where M: "cur = Some M" using assms(3) by (cases cur) (simp_all add: members_of_def member_named_def)
  have m: "m \<in> set M" "me_name m = n" using member_named_Some [OF assms(3)] M by (simp_all add: members_of_def)
  let ?entries = "map (\<lambda>e. (mm_name e, e)) (mr_evidence (record_of h M))"
  have names: "map fst ?entries = map me_name M" by (simp add: comp_def)
  then have "map fst (rev ?entries) = rev (map me_name M)" by (simp only: rev_map [symmetric])
  then have "distinct (map fst (rev ?entries))"
    using assms(2) M by (simp only: distinct_rev) (simp add: members_of_def)
  moreover have "(n, evidence_record (new_journal_member h m)) \<in> set (rev ?entries)"
    using m by force
  ultimately have "map_of (rev ?entries) n = Some (evidence_record (new_journal_member h m))"
    by (rule map_of_is_SomeI)
  then show ?thesis using M assms(1) by (simp add: reused_content_path_def comp_def)
qed

lemma wp_reuse_member:
  assumes host: "host_ok h" and s: "settled h B cur prev f"
    and bad: "\<not> reusable h cur c r \<Longrightarrow> E dataset_member_mismatch f" and harm: "harm br di E S f"
  shows "wp br di (reuse_member h (manifest_of h (members_of cur)) (ch_removed c) False (map_option (record_of h) cur) r)
    (\<lambda>y g. g = f \<and> reusable h cur c r \<and> y = reused_entry h cur r) E S f"
proof (cases "rf_name r \<notin> me_name ` set (members_of cur) \<or> rf_name r \<in> set (ch_removed c)")
  case True
  then have "\<not> reusable h cur c r"
    using member_named_None [of "members_of cur" "rf_name r"] by (auto simp: reusable_def)
  then show ?thesis using True bad by (auto simp: reuse_member_def manifest_of_def)
next
  case False
  then obtain m where m: "member_named (members_of cur) (rf_name r) = Some m"
    using member_named_None [of "members_of cur" "rf_name r"] by auto
  have "distinct (map me_name (members_of cur))"
    using s by (cases cur) (simp_all add: members_of_def settled_def settled_but_def whole_def canonical_def)
  then have path: "reused_content_path False (map_option (record_of h) cur) (rf_name r) = Ok [members_dir, digest_of h m]"
    by (rule reused_path [OF host _ m])
  have there: "f [members_dir, digest_of h m] = Some (File (me_bytes m))"
    using settled_contents [OF s] member_named_Some [OF m] by (simp add: contents_def)
  have same: "reused_member cur r = m" using m by (simp add: reused_member_def)
  have ok: "matches_bytes h r (me_bytes m) \<longleftrightarrow> reusable h cur c r" using False m by (simp add: reusable_def)
  have keep: "wp br di (bind_io (exists_io [members_dir, digest_of h m]) (\<lambda>stored.
      then_io (when_io (\<not> stored) (write_new_file [members_dir, digest_of h m] (me_bytes m)))
              (ret (rf_name r, digest_of h m))))
      (\<lambda>y g. g = f \<and> reusable h cur c r \<and> y = reused_entry h cur r) E S f" if "reusable h cur c r"
    by (rule wp_bind, rule wp_exists) (use there harm same that in \<open>simp_all add: when_io_def reused_entry_def\<close>)
  have "wp br di (if \<not> matches_bytes h r (me_bytes m) then fail dataset_member_mismatch
      else bind_io (exists_io [members_dir, digest_of h m]) (\<lambda>stored.
      then_io (when_io (\<not> stored) (write_new_file [members_dir, digest_of h m] (me_bytes m)))
              (ret (rf_name r, digest_of h m))))
      (\<lambda>y g. g = f \<and> reusable h cur c r \<and> y = reused_entry h cur r) E S f"
    using keep bad by (simp add: ok)
  then have "wp br di (bind_io (read_file [members_dir, digest_of h m]) (\<lambda>x.
        bind_io (from_option dataset_member_mismatch x) (\<lambda>b.
        if \<not> matches_bytes h r b then fail dataset_member_mismatch
        else
          bind_io (exists_io [members_dir, digest_bytes h b]) (\<lambda>stored.
          then_io (when_io (\<not> stored) (write_new_file [members_dir, digest_bytes h b] b))
                  (ret (rf_name r, digest_bytes h b))))))
      (\<lambda>y g. g = f \<and> reusable h cur c r \<and> y = reused_entry h cur r) E S f"
    by (intro wp_bind wp_read_file) (use there harm in \<open>auto simp: from_option_def\<close>)
  then show ?thesis
    using False by (simp add: reuse_member_def manifest_of_def path)
qed

lemma wp_reuse_members:
  assumes "host_ok h" "settled h B cur prev f"
    "\<not> (\<forall>r \<in> set (ch_reused c). reusable h cur c r) \<Longrightarrow> E dataset_member_mismatch f" "harm br di E S f"
    "(\<forall>r \<in> set (ch_reused c). reusable h cur c r) \<Longrightarrow> Q (map (reused_entry h cur) (ch_reused c)) f"
  shows "wp br di (gather (reuse_member h (manifest_of h (members_of cur)) (ch_removed c) False
      (map_option (record_of h) cur)) (ch_reused c)) Q E S f"
proof (rule wp_mono)
  show "wp br di (gather (reuse_member h (manifest_of h (members_of cur)) (ch_removed c) False
      (map_option (record_of h) cur)) (ch_reused c))
      (\<lambda>ys g. g = f \<and> list_all2 (\<lambda>r y. reusable h cur c r \<and> y = reused_entry h cur r) (ch_reused c) ys) E S f"
    by (rule wp_gather_const, rule wp_reuse_member [OF assms(1,2)]) (use assms(3,4) in auto)
  show "Q ys g"
    if "g = f \<and> list_all2 (\<lambda>r y. reusable h cur c r \<and> y = reused_entry h cur r) (ch_reused c) ys" for ys g
  proof -
    have "ys = map (reused_entry h cur) (ch_reused c)" "\<forall>r \<in> set (ch_reused c). reusable h cur c r"
      using that by (auto simp: list_all2_conv_all_nth in_set_conv_nth intro!: nth_equalityI)
    then show ?thesis using that assms(5) by blast
  qed
qed

section \<open>The outcomes of a commit\<close>

definition committed ::
  "bool \<Rightarrow> host \<Rightarrow> bytes set \<Rightarrow> ustr \<Rightarrow> generation option \<Rightarrow> generation \<Rightarrow> generation option \<Rightarrow> commit_receipt \<Rightarrow>
     disk \<Rightarrow> bool" where
  "committed br h B u cur N prev r g \<longleftrightarrow>
     cr_revision r = revision_of h N \<and>
     (cr_visibility r = Visible \<and> settled h B (Some N) (kept cur prev) g \<and> (br \<or> tight h (Some N) (kept cur prev) g) \<or>
      br \<and> cr_visibility r = RecoveryPending \<and> forward h B u cur N prev g)"

text \<open>An error leaves the old generations; only a flush that breaks can leave a journal beside them.\<close>

definition uncommitted ::
  "bool \<Rightarrow> host \<Rightarrow> bytes set \<Rightarrow> generation option \<Rightarrow> generation option \<Rightarrow> disk \<Rightarrow> bool" where
  "uncommitted br h B cur prev g \<longleftrightarrow> settled h B cur prev g \<or> br \<and> settled_but h B cur prev g"

definition cut_short ::
  "bool \<Rightarrow> host \<Rightarrow> bytes set \<Rightarrow> ustr \<Rightarrow> generation option \<Rightarrow> generation \<Rightarrow> generation option \<Rightarrow> disk \<Rightarrow> bool" where
  "cut_short br h B u cur N prev g \<longleftrightarrow> uncommitted br h B cur prev g \<or> forward h B u cur N prev g"

definition change_error :: "host \<Rightarrow> generation option \<Rightarrow> change_set \<Rightarrow> storage_error \<Rightarrow> bool" where
  "change_error h cur c e \<longleftrightarrow>
     (if ch_expected c \<noteq> revision_of h (members_of cur) then e = ConcurrentWrite
      else if \<not> set (ch_removed c) \<subseteq> me_name ` set (members_of cur) then e = InvalidKey
      else if \<not> (\<forall>r \<in> set (ch_reused c). reusable h cur c r) then e = dataset_member_mismatch
      else if \<not> me_name ` set (members_of cur) \<subseteq> set (target_names c) \<union> set (ch_removed c) then e = InvalidKey
      else if \<not> canonical (merged cur c) then e = InvalidKey
      else e = StorageIo \<and> \<not> distinct (map me_bytes (ch_new c)))"

lemma uncommitted_settled [intro]: "settled h B cur prev g \<Longrightarrow> uncommitted br h B cur prev g"
  by (simp add: uncommitted_def)

lemma settled_settled_but: "settled h B cur prev g \<Longrightarrow> settled_but h B cur prev g"
  by (simp add: settled_def)

lemma pending_settled_but:
  assumes "pending h B u cur N prev f" "manifest_at h primary_dir cur f" "manifest_at h previous_dir prev f" "whole h prev f"
  shows "settled_but h B cur prev f"
  using assms by (cases cur) (simp_all add: pending_def settled_but_def kept_def whole_def)

section \<open>Committing\<close>

text \<open>The transaction itself, from a generation whose new members have been merged.\<close>

lemma wp_transaction:
  assumes fair: "fair h B" and s: "settled h B cur prev f" and fresh: "f [stage_dir (h_uuid h)] = None"
    and u: "safe_segment (h_uuid h)" and N: "extends B cur new N"
    and Q: "\<And>r g. committed br h B (h_uuid h) cur N prev r g \<Longrightarrow> Q r g"
    and E: "\<And>e g. uncommitted br h B cur prev g \<Longrightarrow>
      br \<and> benign e \<or> e = StorageIo \<and> \<not> distinct (map me_bytes new) \<Longrightarrow> E e g"
    and S: "\<And>g. di \<Longrightarrow> cut_short br h B (h_uuid h) cur N prev g \<Longrightarrow> S g"
  shows "wp br di (committed_after (revision_of h N)
      (prepare_commit h (map (digest_of h) (members_of cur)) new (record_of h N) (journal_of h (h_uuid h) cur N))
      (finish_commit h new (record_of h N) (journal_of h (h_uuid h) cur N))
      (then_io (ignore (fs_remove_dir_all [stage_dir (h_uuid h)])) (ignore (fs_remove_dir_all [previous_next_dir])))) Q E S f"
proof (rule wp_committed_after)
  let ?u = "h_uuid h"
  let ?discard = "\<lambda>e. then_io (then_io (ignore (fs_remove_dir_all [stage_dir ?u])) (ignore (fs_remove_dir_all [previous_next_dir]))) (fail e)"
  have distinct: "\<not> distinct (map me_bytes new)" if "\<not> distinct (map (digest_of h) new)"
  proof
    assume "distinct (map me_bytes new)"
    moreover have "inj_on (digest_bytes h) (set (map me_bytes new))"
      using fair N by (auto simp: fair_def extends_def intro: inj_on_subset)
    ultimately have "distinct (map (digest_bytes h) (map me_bytes new))"
      by (simp only: distinct_map)
    then show False using that by (simp add: comp_def)
  qed
  have dead: "S g" if "di" "uncommitted br h B cur prev g" for g
    using that by (intro S) (simp_all add: cut_short_def)
  have discard: "wp br di (?discard e) Q E S g"
    if g: "settled_but h B cur prev g" "br \<or> settled h B cur prev g"
      and e: "br \<and> benign e \<or> e = StorageIo \<and> \<not> distinct (map me_bytes new)" for e g
  proof (rule wp_discard [OF g(1)])
    fix k assume k: "settled_but h B cur prev k" "settled h B cur prev g \<Longrightarrow> settled h B cur prev k"
    have un: "uncommitted br h B cur prev k" using k g(2) by (auto simp: uncommitted_def)
    show "E e k" by (rule E [OF un e])
    show "S k" if di using dead that un by blast
  qed
  have forward_dead: "S g" if "di" "forward h B ?u cur N prev g" for g
    using that by (intro S) (simp_all add: cut_short_def)
  have finish: "wp br di (finish_commit h new (record_of h N) (journal_of h ?u cur N))
      (\<lambda>_. Q (receipt (revision_of h N) Visible))
      (\<lambda>e g. \<not> is_corruption e \<and> Q (receipt (revision_of h N) RecoveryPending) g) S g"
    if g: "pending h B ?u cur N prev g" for g
  proof (rule wp_finish_commit [OF fair g N])
    show "Q (receipt (revision_of h N) Visible) k"
      if "settled h B (Some N) (kept cur prev) k" "br \<or> tight h (Some N) (kept cur prev) k" for k
      by (rule Q) (use that in \<open>simp add: committed_def receipt_def\<close>)
    show "harm br di (\<lambda>e g. \<not> is_corruption e \<and> Q (receipt (revision_of h N) RecoveryPending) g) S k"
      if k: "forward h B ?u cur N prev k" for k
    proof (rule harmI)
      show "\<not> is_corruption e \<and> Q (receipt (revision_of h N) RecoveryPending) k" if "br" "benign e" for e
        using that k benign_not_corruption Q by (auto simp: committed_def receipt_def)
    qed (rule forward_dead [OF _ k])
  qed
  show "wp br di (prepare_commit h (map (digest_of h) (members_of cur)) new (record_of h N) (journal_of h ?u cur N))
      (\<lambda>_. wp br di (finish_commit h new (record_of h N) (journal_of h ?u cur N))
        (\<lambda>_. Q (receipt (revision_of h N) Visible))
        (\<lambda>e g. \<not> is_corruption e \<and> Q (receipt (revision_of h N) RecoveryPending) g) S)
      (\<lambda>e g. \<not> is_corruption e \<and> wp br di (?discard e) Q E S g) S f"
  proof (rule wp_prepare_commit [OF fair s fresh u N finish])
    fix g
    show "\<not> is_corruption StorageIo \<and> wp br di (?discard StorageIo) Q E S g"
      if "settled h B cur prev g" "\<not> distinct (map (digest_of h) new)"
      using that distinct by (auto intro!: discard simp: settled_settled_but)
    show "harm br di (\<lambda>e g. \<not> is_corruption e \<and> wp br di (?discard e) Q E S g) S g"
      if g: "settled h B cur prev g"
    proof (rule harmI)
      show "\<not> is_corruption e \<and> wp br di (?discard e) Q E S g" if "br" "benign e" for e
        using discard [OF settled_settled_but [OF g]] that g benign_not_corruption by simp
    qed (use g dead in blast)
    show "harm br di (\<lambda>e g. \<not> is_corruption e \<and> wp br di (?discard e) Q E S g) S g"
      if g: "pending h B ?u cur N prev g" "settled_but h B cur prev g"
    proof (rule harmI)
      show "\<not> is_corruption e \<and> wp br di (?discard e) Q E S g" if "br" "benign e" for e
        using discard [OF g(2)] that benign_not_corruption by simp
    qed (use g forward_dead in blast)
  qed
qed

lemma wp_commit_verified:
  assumes fair: "fair h B" and s: "settled h B cur prev f" and fresh: "f [stage_dir (h_uuid h)] = None"
    and u: "safe_segment (h_uuid h)" and new: "me_bytes ` set (ch_new c) \<subseteq> B"
    and reusable: "\<forall>r \<in> set (ch_reused c). reusable h cur c r"
    and Q: "\<And>r g. canonical (merged cur c) \<Longrightarrow> committed br h B (h_uuid h) cur (merged cur c) prev r g \<Longrightarrow> Q r g"
    and bad: "\<And>g. settled h B cur prev g \<Longrightarrow> \<not> canonical (merged cur c) \<Longrightarrow> E InvalidKey g"
    and E: "\<And>e g. uncommitted br h B cur prev g \<Longrightarrow> canonical (merged cur c) \<Longrightarrow>
      br \<and> benign e \<or> e = StorageIo \<and> \<not> distinct (map me_bytes (ch_new c)) \<Longrightarrow> E e g"
    and harm: "harm br di E S f"
    and S: "\<And>g. di \<Longrightarrow> canonical (merged cur c) \<Longrightarrow> cut_short br h B (h_uuid h) cur (merged cur c) prev g \<Longrightarrow> S g"
  shows "wp br di (commit_incremental_verified h (manifest_of h (members_of cur)) c
      (map (reused_entry h cur) (ch_reused c))) Q E S f"
proof -
  let ?N = "merged cur c"
  have host: "host_ok h" using fair by simp
  have m: "manifest_at h primary_dir cur f" using s by (simp add: settled_def settled_but_def)
  have evidence: "change_evidence h c = map (member_evidence_of h) ?N"
    by (rule change_evidence_merged [OF reusable])
  have revision: "from_member_digests h (change_evidence h c) = revision_of h ?N"
    by (simp add: evidence revision_of_def from_canonical_members_def)
  have names: "traverse (\<lambda>(n, _, _). parse_segment n) (change_evidence h c) =
      (if list_all safe_segment (map me_name ?N) then Ok (map me_name ?N) else Err InvalidKey)"
    unfolding evidence traverse_map
    using traverse_parse [of "map me_name ?N"]
    by (simp add: traverse_map comp_def member_evidence_of_def)
  have sorted: "sorted (map me_name ?N)" by (simp add: merged_def)
  have journal: "commit_journal (h_uuid h) (md_revision (manifest_of h (members_of cur))) (revision_of h ?N)
       (map (new_journal_member h) (ch_new c) @ map (new_journal_member h \<circ> reused_member cur) (ch_reused c)) =
      journal_of h (h_uuid h) cur ?N"
    using commit_journal_merged [of "h_uuid h" h cur c] by (simp add: manifest_of_def)
  have existing: "(case map_option (record_of h) cur of None \<Rightarrow> []
      | Some r \<Rightarrow> filter (\<lambda>d. d \<noteq> []) (map mm_content_digest (mr_evidence r))) = map (digest_of h) (members_of cur)"
    using host by (auto simp: members_of_def comp_def filter_id_conv split: option.splits)
  let ?refs = "map (\<lambda>((_, byte_len, digest), name). \<lparr>rf_source_revision = revision_of h ?N, rf_name = name,
      rf_byte_len = byte_len, rf_member_digest = digest\<rparr>) (zip (change_evidence h c) (map me_name ?N))"
  have refs: "?refs = map (\<lambda>m. \<lparr>rf_source_revision = revision_of h ?N, rf_name = me_name m,
      rf_byte_len = length (me_bytes m), rf_member_digest = revision_member_digest h (me_bytes m)\<rparr>) ?N"
    by (simp add: evidence zip_map1 zip_map2 zip_same_conv_map member_evidence_of_def)
  have "\<exists>d. from_verified_members (revision_of h ?N) ?refs =
      (if distinct (map rf_name ?refs) then Ok d else Err InvalidKey)"
    unfolding refs by (rule from_verified_names) (use sorted in \<open>auto simp: comp_def\<close>)
  moreover have "distinct (map rf_name ?refs) \<longleftrightarrow> distinct (map me_name ?N)" unfolding refs by (simp add: comp_def)
  ultimately obtain d where d: "from_verified_members (revision_of h ?N) ?refs =
      (if distinct (map me_name ?N) then Ok d else Err InvalidKey)" by auto
  have run: "commit_incremental_verified h (manifest_of h (members_of cur)) c (map (reused_entry h cur) (ch_reused c)) =
      bind_io (read_manifest h [primary_dir]) (\<lambda>current_record.
      if \<not> canonical ?N then fail InvalidKey
      else committed_after (revision_of h ?N)
       (prepare_commit h (case current_record of None \<Rightarrow> []
          | Some r \<Rightarrow> filter (\<lambda>d. d \<noteq> []) (map mm_content_digest (mr_evidence r))) (ch_new c)
          (record_of h ?N) (journal_of h (h_uuid h) cur ?N))
       (finish_commit h (ch_new c) (record_of h ?N) (journal_of h (h_uuid h) cur ?N))
       (then_io (ignore (fs_remove_dir_all [stage_dir (h_uuid h)])) (ignore (fs_remove_dir_all [previous_next_dir]))))"
    (is "?lhs = ?rhs")
  proof (cases "canonical ?N")
    case True
    then have "list_all safe_segment (map me_name ?N)" "distinct (map me_name ?N)"
      by (simp_all add: canonical_def list_all_iff)
    then show ?thesis
      using True d names reused_journal_members [OF reusable]
      by (simp add: commit_incremental_verified_def Let_def revision journal record_from_journal_of)
  next
    case False
    then have "\<not> list_all safe_segment (map me_name ?N) \<or> \<not> distinct (map me_name ?N)"
      using sorted by (auto simp: canonical_def list_all_iff)
    then show ?thesis
      using False d names by (auto simp: commit_incremental_verified_def Let_def revision)
  qed
  have transaction: "wp br di (committed_after (revision_of h ?N)
      (prepare_commit h (map (digest_of h) (members_of cur)) (ch_new c) (record_of h ?N) (journal_of h (h_uuid h) cur ?N))
      (finish_commit h (ch_new c) (record_of h ?N) (journal_of h (h_uuid h) cur ?N))
      (then_io (ignore (fs_remove_dir_all [stage_dir (h_uuid h)])) (ignore (fs_remove_dir_all [previous_next_dir])))) Q E S f"
    if "canonical ?N"
    by (rule wp_transaction [OF fair s fresh u merged_extends [OF reusable that new settled_bytes [OF s]]])
      (use that Q E S in blast)+
  show ?thesis
    unfolding run
    by (rule wp_bind, rule wp_read_manifest_at [OF host m _ harm])
      (use existing transaction bad [OF s] in auto)
qed

lemma manifest_of_simps [simp]:
  "md_revision (manifest_of h M) = revision_of h M" "md_members (manifest_of h M) = map me_name M"
  by (simp_all add: manifest_of_def)

theorem wp_commit_incremental:
  assumes fair: "fair h B" and s: "settled h B cur prev f" and fresh: "f [stage_dir (h_uuid h)] = None"
    and u: "safe_segment (h_uuid h)" and new: "me_bytes ` set (ch_new c) \<subseteq> B"
  shows "wp br di (commit_incremental_sync h c)
    (\<lambda>r g. acceptable h cur c \<and> committed br h B (h_uuid h) cur (merged cur c) prev r g)
    (\<lambda>e g. uncommitted br h B cur prev g \<and> (br \<and> benign e \<or> change_error h cur c e))
    (\<lambda>g. di \<and> (uncommitted br h B cur prev g \<or> acceptable h cur c \<and> cut_short br h B (h_uuid h) cur (merged cur c) prev g)) f"
    (is "wp br di _ ?Q ?E ?S f")
proof -
  let ?M = "members_of cur"
  have host: "host_ok h" using fair by simp
  have m: "manifest_at h primary_dir cur f" and w: "whole h cur f"
    using s by (simp_all add: settled_def settled_but_def)
  have harm: "harm br di ?E ?S g" if "settled h B cur prev g" for g
    using that by (auto simp: harm_def)
  have stale: "?E ConcurrentWrite f" if "ch_expected c \<noteq> revision_of h ?M"
    using that s by (auto simp: change_error_def)
  have bad_removal: "?E InvalidKey f"
    if "ch_expected c = revision_of h ?M" "\<not> set (ch_removed c) \<subseteq> me_name ` set ?M"
    using that s by (auto simp: change_error_def)
  let ?legacy = "\<lambda>r. case r of None \<Rightarrow> False | Some r \<Rightarrow> mr_evidence r = [] \<and> mr_members r \<noteq> []"
  have legacy: "?legacy (map_option (record_of h) cur) = False"
    by (cases cur) simp_all
  let ?finish = "\<lambda>content. then_io (sync_subdir [members_dir])
         (if list_ex (\<lambda>n. n \<notin> set (target_names c) \<and> n \<notin> set (ch_removed c)) (map me_name ?M)
          then fail InvalidKey
          else commit_incremental_verified h (manifest_of h ?M) c content)"
  have finish: "wp br di (?finish (map (reused_entry h cur) (ch_reused c))) ?Q ?E ?S g"
    if g: "settled h B cur prev g" "g [stage_dir (h_uuid h)] = None"
      and ok: "ch_expected c = revision_of h ?M" "set (ch_removed c) \<subseteq> me_name ` set ?M"
        "\<forall>r \<in> set (ch_reused c). reusable h cur c r" for g
  proof (rule wp_then, rule wp_sync_subdir, simp, rule wp_if)
    assume "list_ex (\<lambda>n. n \<notin> set (target_names c) \<and> n \<notin> set (ch_removed c)) (map me_name ?M)"
    then have "\<not> me_name ` set ?M \<subseteq> set (target_names c) \<union> set (ch_removed c)" by (auto simp: list_ex_iff)
    then have "change_error h cur c InvalidKey" unfolding change_error_def using ok by simp
    then show "wp br di (fail InvalidKey) ?Q ?E ?S g" using g(1) by (intro wp_fail) blast
  next
    assume "\<not> list_ex (\<lambda>n. n \<notin> set (target_names c) \<and> n \<notin> set (ch_removed c)) (map me_name ?M)"
    then have cover: "me_name ` set ?M \<subseteq> set (target_names c) \<union> set (ch_removed c)" by (auto simp: list_ex_iff)
    have acceptable: "acceptable h cur c" if "canonical (merged cur c)"
      using ok cover that by (simp add: acceptable_def)
    have error: "change_error h cur c e \<longleftrightarrow>
        (if \<not> canonical (merged cur c) then e = InvalidKey else e = StorageIo \<and> \<not> distinct (map me_bytes (ch_new c)))" for e
      unfolding change_error_def using ok cover by simp
    show "wp br di (commit_incremental_verified h (manifest_of h ?M) c (map (reused_entry h cur) (ch_reused c))) ?Q ?E ?S g"
    proof (rule wp_commit_verified [OF fair g u new ok(3)])
      show "?E InvalidKey k" if "settled h B cur prev k" "\<not> canonical (merged cur c)" for k
        using that error by auto
      show "?E e k" if "uncommitted br h B cur prev k" "canonical (merged cur c)"
        "br \<and> benign e \<or> e = StorageIo \<and> \<not> distinct (map me_bytes (ch_new c))" for e k
        using that error by auto
    qed (use acceptable harm [OF g(1)] in auto)
  qed (rule harm [OF g(1)])
  let ?reuse = "bind_io (gather (reuse_member h (manifest_of h ?M) (ch_removed c) False (map_option (record_of h) cur))
      (ch_reused c)) ?finish"
  have reuse: "wp br di ?reuse ?Q ?E ?S g"
    if g: "settled h B cur prev g" "g [stage_dir (h_uuid h)] = None"
      and ok: "ch_expected c = revision_of h ?M" "set (ch_removed c) \<subseteq> me_name ` set ?M" for g
  proof (rule wp_bind, rule wp_reuse_members [OF host g(1)])
    show "wp br di (?finish (map (reused_entry h cur) (ch_reused c))) ?Q ?E ?S g"
      if "\<forall>r \<in> set (ch_reused c). reusable h cur c r"
      by (rule finish [OF g ok that])
    show "?E dataset_member_mismatch g" if "\<not> (\<forall>r \<in> set (ch_reused c). reusable h cur c r)"
      using that g ok by (auto simp: change_error_def)
  qed (rule harm [OF g(1)])
  have make: "wp br di (then_io (create_dir_all [members_dir]) ?reuse) ?Q ?E ?S f"
    if ok: "ch_expected c = revision_of h ?M" "set (ch_removed c) \<subseteq> me_name ` set ?M"
  proof (rule wp_then, rule wp_create_dir1)
    show "f [members_dir] \<noteq> Some (File b)" for b
      using tidyD [OF settled_tidy [OF s], of "[members_dir]"] by auto
    have "settled h B cur prev (f([members_dir] \<mapsto> Folder))" by (rule settled_update [OF s]) auto
    then show "wp br di ?reuse ?Q ?E ?S (f([members_dir] \<mapsto> Folder))" by (rule reuse) (use fresh ok in simp_all)
  qed (rule harm [OF s])
  have rest: "wp br di (bind_io (read_manifest h [primary_dir]) (\<lambda>current_record.
       let legacy = ?legacy current_record
       in then_io (create_dir_all [members_dir])
         (bind_io (gather (reuse_member h (manifest_of h ?M) (ch_removed c) legacy current_record) (ch_reused c)) ?finish)))
       ?Q ?E ?S f"
    if ok: "ch_expected c = revision_of h ?M" "set (ch_removed c) \<subseteq> me_name ` set ?M"
    unfolding Let_def
    by (rule wp_bind, rule wp_read_manifest_at [OF host m _ harm [OF s]]) (unfold legacy, rule make [OF ok])
  show ?thesis
    unfolding commit_incremental_sync_def
  proof (rule wp_bind, rule wp_current_manifest [OF host m _ _ harm [OF s]], use w in \<open>simp add: whole_def\<close>,
      unfold manifest_of_simps, rule wp_if, rule wp_fail, rule stale, simp, rule wp_if, rule wp_fail, rule bad_removal)
    assume "list_ex (\<lambda>n. n \<notin> set (map me_name ?M)) (ch_removed c)"
    then show "\<not> set (ch_removed c) \<subseteq> me_name ` set ?M" by (auto simp: list_ex_iff)
  qed (simp, rule rest, simp, auto simp: list_ex_iff)
qed

section \<open>Replacing all members\<close>

definition replacement :: "generation option \<Rightarrow> bytes \<Rightarrow> dataset_member list \<Rightarrow> change_set" where
  "replacement cur expected members =
     \<lparr>ch_expected = expected, ch_new = sort_key me_name members, ch_reused = [],
      ch_removed = sort (filter (\<lambda>n. n \<notin> set (map me_name members)) (map me_name (members_of cur)))\<rparr>"

definition replace_error ::
  "host \<Rightarrow> generation option \<Rightarrow> bytes \<Rightarrow> dataset_member list \<Rightarrow> storage_error \<Rightarrow> bool" where
  "replace_error h cur expected members e \<longleftrightarrow>
     (if expected \<noteq> revision_of h (members_of cur) then e = ConcurrentWrite
      else if \<not> canonical (sort_key me_name members) then e = InvalidKey
      else e = StorageIo \<and> \<not> distinct (map me_bytes members))"

lemma merged_replacement: "merged cur (replacement cur expected members) = sort_key me_name members"
  by (simp add: merged_def replacement_def sort_key_again)

lemma acceptable_replacement:
  "acceptable h cur (replacement cur expected members) \<longleftrightarrow>
     expected = revision_of h (members_of cur) \<and> canonical (sort_key me_name members)"
  unfolding acceptable_def merged_replacement by (auto simp: replacement_def target_names_def)

lemma distinct_sort_bytes: "distinct (map me_bytes (sort_key me_name members)) \<longleftrightarrow> distinct (map me_bytes members)"
  by (simp add: distinct_map)

lemma distinct_sort_names: "distinct (map me_name (sort_key me_name members)) \<longleftrightarrow> distinct (map me_name members)"
  by (simp add: distinct_map)

lemma change_error_replacement:
  assumes "change_error h cur (replacement cur expected members) e"
  shows "replace_error h cur expected members e"
proof -
  have sub: "set (ch_removed (replacement cur expected members)) \<subseteq> me_name ` set (members_of cur)"
    "me_name ` set (members_of cur) \<subseteq>
      set (target_names (replacement cur expected members)) \<union> set (ch_removed (replacement cur expected members))"
    by (auto simp: replacement_def target_names_def)
  have "change_error h cur (replacement cur expected members) e \<longleftrightarrow> replace_error h cur expected members e"
    unfolding change_error_def replace_error_def merged_replacement using sub
    by (simp add: distinct_sort_bytes replacement_def target_names_def)
  then show ?thesis using assms by simp
qed

lemma change_set_replacement:
  assumes "distinct (map me_name (members_of cur))"
  shows "(case change_set_new expected members [] of
      Ok c \<Rightarrow> with_removed_members
        (filter (\<lambda>n. n \<notin> set (map me_name members)) (map me_name (members_of cur))) c
    | Err e \<Rightarrow> Err e | Panic \<Rightarrow> Panic) =
    (if distinct (map me_name members) then Ok (replacement cur expected members) else Err InvalidKey)"
proof -
  have "\<not> adjacent_equal (sort (filter (\<lambda>n. n \<notin> set (map me_name members)) (map me_name (members_of cur))))"
    using assms by (simp add: adjacent_equal_distinct)
  then show ?thesis
    by (auto simp: distinct_sort_names change_set_new_def Let_def adjacent_equal_distinct with_removed_members_def
        reject_duplicate_names_def guard_ok_def target_names_def list_ex_iff replacement_def)
qed

theorem wp_commit_sync:
  assumes fair: "fair h B" and s: "settled h B cur prev f" and fresh: "f [stage_dir (h_uuid h)] = None"
    and u: "safe_segment (h_uuid h)" and new: "me_bytes ` set members \<subseteq> B"
  shows "wp br di (commit_sync h expected members)
    (\<lambda>r g. expected = revision_of h (members_of cur) \<and> canonical (sort_key me_name members) \<and>
      committed br h B (h_uuid h) cur (sort_key me_name members) prev r g)
    (\<lambda>e g. uncommitted br h B cur prev g \<and> (br \<and> benign e \<or> replace_error h cur expected members e))
    (\<lambda>g. di \<and> (uncommitted br h B cur prev g \<or>
      expected = revision_of h (members_of cur) \<and> canonical (sort_key me_name members) \<and>
      cut_short br h B (h_uuid h) cur (sort_key me_name members) prev g)) f"
    (is "wp br di _ ?Q ?E ?S f")
proof -
  have host: "host_ok h" using fair by simp
  have m: "manifest_at h primary_dir cur f" and w: "whole h cur f"
    using s by (simp_all add: settled_def settled_but_def)
  have harm: "harm br di ?E ?S f" using s by (auto simp: harm_def)
  have names: "distinct (map me_name (members_of cur))"
    using w by (cases cur) (simp_all add: members_of_def whole_def canonical_def)
  let ?c = "replacement cur expected members"
  have commit: "wp br di (commit_incremental_sync h ?c) ?Q ?E ?S f"
  proof (rule wp_mono [OF wp_commit_incremental [OF fair s fresh u]])
    show "me_bytes ` set (ch_new ?c) \<subseteq> B" using new by (simp add: replacement_def)
  qed (auto simp: acceptable_replacement merged_replacement dest: change_error_replacement)
  have twice: "?E InvalidKey f" if "expected = revision_of h (members_of cur)" "\<not> distinct (map me_name members)"
  proof -
    have "\<not> canonical (sort_key me_name members)" using that(2) by (simp add: canonical_def distinct_sort_names)
    then show ?thesis using that s by (auto simp: replace_error_def)
  qed
  have stale: "?E ConcurrentWrite f" if "revision_of h (members_of cur) \<noteq> expected"
    using that s by (auto simp: replace_error_def)
  show ?thesis
    unfolding commit_sync_def
  proof (rule wp_bind, rule wp_current_manifest [OF host m _ _ harm], use w in \<open>simp add: whole_def\<close>,
      unfold manifest_of_simps Let_def change_set_replacement [OF names], rule wp_if, rule wp_fail, rule stale, assumption)
    assume "\<not> revision_of h (members_of cur) \<noteq> expected"
    then have e: "expected = revision_of h (members_of cur)" by simp
    show "wp br di (bind_io (lift_outcome (if distinct (map me_name members) then Ok ?c else Err InvalidKey))
        (commit_incremental_sync h)) ?Q ?E ?S f"
    proof (cases "distinct (map me_name members)")
      case True
      then show ?thesis using commit by (simp only: if_True lift_outcome.simps bind_ret)
    next
      case False
      have "wp br di (fail InvalidKey) ?Q ?E ?S f" by (rule wp_fail) (rule twice [OF e False])
      then show ?thesis using False by (simp only: if_False lift_outcome.simps bind_ret)
    qed
  qed
qed

end
