(* ===== verification/Dataset_Promoting.thy ===== *)
theory Dataset_Promoting
  imports Dataset_Commit
begin

text \<open>
  The promotion of the previous generation: a swap of two directories by three renames, with the journal as
  its logical point. The four stages of the swap are the disjuncts of \<open>swap_stage\<close>; every step leads from one
  to the next, and recovery from each of them to the end.
\<close>

section \<open>Slots\<close>

definition holds :: "host \<Rightarrow> ustr \<Rightarrow> generation \<Rightarrow> disk \<Rightarrow> bool" where
  "holds h d X f \<longleftrightarrow> f [d] = Some Folder \<and> manifest_at h d (Some X) f"

definition swap_stage :: "host \<Rightarrow> ustr \<Rightarrow> generation \<Rightarrow> generation \<Rightarrow> disk \<Rightarrow> bool" where
  "swap_stage h s M P f \<longleftrightarrow>
     holds h primary_dir M f \<and> holds h previous_dir P f \<and> f [s] = None \<or>
     f [primary_dir] = None \<and> holds h previous_dir P f \<and> holds h s M f \<or>
     holds h primary_dir P f \<and> f [previous_dir] = None \<and> holds h s M f \<or>
     holds h primary_dir P f \<and> holds h previous_dir M f \<and> f [s] = None"

definition promote_journal_of :: "host \<Rightarrow> ustr \<Rightarrow> generation \<Rightarrow> generation \<Rightarrow> dataset_journal" where
  "promote_journal_of h u M P =
     promote_journal u (revision_of h M) (revision_of h P) (map (new_journal_member h) P)"

definition swap_base :: "host \<Rightarrow> bytes set \<Rightarrow> ustr \<Rightarrow> generation \<Rightarrow> generation \<Rightarrow> disk \<Rightarrow> bool" where
  "swap_base h B u M P f \<longleftrightarrow>
     tidy f \<and> store_ok h B f \<and> safe_segment u \<and> canonical M \<and> canonical P \<and> contents h M f \<and> contents h P f \<and>
     (revision_of h M = revision_of h P \<longrightarrow> M = P) \<and>
     (\<exists>ph. f [journal_file] = Some (File (h_encode_journal h (promote_journal_of h u M P\<lparr>dj_phase := ph\<rparr>))))"

definition swapping :: "host \<Rightarrow> bytes set \<Rightarrow> ustr \<Rightarrow> generation \<Rightarrow> generation \<Rightarrow> disk \<Rightarrow> bool" where
  "swapping h B u M P f \<longleftrightarrow> swap_base h B u M P f \<and> swap_stage h (swap_dir u) M P f"

definition swapped :: "host \<Rightarrow> bytes set \<Rightarrow> ustr \<Rightarrow> generation \<Rightarrow> generation \<Rightarrow> disk \<Rightarrow> bool" where
  "swapped h B u M P f \<longleftrightarrow>
     swap_base h B u M P f \<and> holds h primary_dir P f \<and> holds h previous_dir M f \<and> f [swap_dir u] = None"

lemma swapped_swapping: "swapped h B u M P f \<Longrightarrow> swapping h B u M P f"
  by (simp add: swapped_def swapping_def swap_stage_def)

lemma promote_journal_of_simps [simp]:
  "dj_nonce (promote_journal_of h u M P) = u" "dj_kind (promote_journal_of h u M P) = KindPromotePrevious"
  "dj_old_revision (promote_journal_of h u M P) = encode_revision (revision_of h M)"
  "dj_new_revision (promote_journal_of h u M P) = encode_revision (revision_of h P)"
  by (simp_all add: promote_journal_of_def promote_journal_def commit_journal_def)

lemma promote_journal_of_members:
  assumes "canonical P"
  shows "dj_members (promote_journal_of h u M P) = map (new_journal_member h) P"
proof -
  have "sorted (map jm_name (map (new_journal_member h) P))"
    using assms by (simp add: canonical_def comp_def)
  then show ?thesis
    by (simp add: promote_journal_of_def promote_journal_def commit_journal_def sort_key_id_if_sorted)
qed

lemma promote_journal_of_valid:
  assumes "host_ok h" "canonical P" "safe_segment u"
  shows "validate_journal_structure (promote_journal_of h u M P\<lparr>dj_phase := ph\<rparr>)"
  using assms journal_members_valid_map [of h P None]
  by (simp add: validate_journal_structure_def promote_journal_of_members canonical_def)

section \<open>Moving a slot\<close>

lemma tidy_carried_slot:
  assumes "good f" "tidy f" "is_slot a" "is_slot b" "a \<noteq> b"
  shows "tidy (carried [a] [b] f)"
  unfolding tidy_def
proof (intro allI impI)
  fix q e assume q: "carried [a] [b] f q = Some e"
  have old: "f q = Some e \<Longrightarrow> fits q e" for q using assms(2) by (simp add: tidy_def)
  have plain: "n \<noteq> corruption_marker \<and> \<not> under (journal_file @ corrupt_infix) n \<and> n \<noteq> journal_file \<and> n \<noteq> lock_file \<and>
      \<not> under journal_prefix n \<and> n \<noteq> members_dir" if "is_slot n" for n
    using that by (auto simp: is_slot_def under_iff file_names lit_def)
  consider r where "q = b # r" | r where "q = a # r" "a \<noteq> b" | "\<And>r. q \<noteq> a # r" "\<And>r. q \<noteq> b # r"
    using assms(5) by blast
  then show "fits q e"
  proof cases
    case (1 r)
    then have r: "fits (a # r) e" using q old by (simp add: carried_def)
    show ?thesis
    proof (cases r)
      case Nil
      then show ?thesis using r 1 assms(3,4) plain by simp
    next
      case (Cons n t)
      then show ?thesis using r 1 assms(3,4) by (cases t) simp_all
    qed
  next
    case 2
    then show ?thesis using q by (simp add: carried_def)
  next
    case 3
    then have "f q = Some e" using q assms(1) by (cases q) (auto simp: carried_def split: if_splits)
    then show ?thesis by (rule old)
  qed
qed

lemma carried_slot:
  assumes "a \<noteq> b"
  shows "carried [a] [b] f (b # r) = f (a # r)" "carried [a] [b] f (a # r) = None"
    "n \<noteq> a \<Longrightarrow> n \<noteq> b \<Longrightarrow> carried [a] [b] f (n # r) = f (n # r)"
  using assms by (simp_all add: carried_def)

lemma swap_base_carried:
  assumes "good f" "swap_base h B u M P f" "is_slot a" "is_slot b" "a \<noteq> b"
  shows "swap_base h B u M P (carried [a] [b] f)"
proof -
  have "tidy (carried [a] [b] f)"
    by (rule tidy_carried_slot [OF assms(1) _ assms(3-5)]) (use assms(2) in \<open>simp add: swap_base_def\<close>)
  moreover have "journal_file \<noteq> a" "journal_file \<noteq> b" "members_dir \<noteq> a" "members_dir \<noteq> b"
    using assms(3,4) by (auto simp: is_slot_def)
  then have "carried [a] [b] f (journal_file # r) = f (journal_file # r)"
    "carried [a] [b] f (members_dir # r) = f (members_dir # r)" for r
    using carried_slot(3) [OF assms(5)] by auto
  ultimately show ?thesis
    using assms(2) by (simp add: swap_base_def store_ok_def contents_def)
qed

text \<open>One rename of the swap, followed by a flush.\<close>

lemma wp_rename_slot:
  assumes base: "swap_base h B u M P f" and slots: "is_slot a" "is_slot b" "a \<noteq> b" and empty: "f [b] = None"
    and there: "f [a] \<noteq> None"
    and stage: "swap_stage h (swap_dir u) M P f" "swap_stage h (swap_dir u) M P (carried [a] [b] f)"
    and Q: "\<And>g. swapping h B u M P g \<Longrightarrow> g = carried [a] [b] f \<Longrightarrow> Q () g"
    and harm: "\<And>g. swapping h B u M P g \<Longrightarrow> harm br di E S g"
  shows "wp br di (rename_and_sync [a] [b]) Q E S f"
proof (rule wp_good)
  assume good: "good f"
  have here: "swapping h B u M P f" using base stage by (simp add: swapping_def)
  have moved: "swapping h B u M P (carried [a] [b] f)"
    using swap_base_carried [OF good base slots] stage by (simp add: swapping_def)
  then have "Q () (carried [a] [b] f)" by (rule Q) simp
  then have "wp br di sync_dir Q E S (carried [a] [b] f)"
    by (rule wp_sync_dir) (rule harm [OF moved])
  then show ?thesis
    unfolding rename_and_sync_def
    by (intro wp_then wp_rename_io) (use slots empty there harm [OF here] in \<open>simp_all add: folder_at_def\<close>)
qed

section \<open>Advancing the swap\<close>

lemma slot_distinct [simp]:
  "swap_dir u \<noteq> primary_dir" "swap_dir u \<noteq> previous_dir" "primary_dir \<noteq> swap_dir u" "previous_dir \<noteq> swap_dir u"
  by simp_all

lemma holds_carried:
  assumes "a \<noteq> b"
  shows "holds h b X (carried [a] [b] f) \<longleftrightarrow> holds h a X f"
    "d \<noteq> a \<Longrightarrow> d \<noteq> b \<Longrightarrow> holds h d X (carried [a] [b] f) \<longleftrightarrow> holds h d X f"
  using carried_slot [OF assms] by (simp_all add: holds_def manifest_at_def)

lemma holds_there: "holds h d X f \<Longrightarrow> f [d] \<noteq> None"
  by (simp add: holds_def)

lemma wp_swap_third:
  assumes base: "swap_base h B u M P f"
    and f: "holds h primary_dir P f" "f [previous_dir] = None" "holds h (swap_dir u) M f"
    and Q: "\<And>g. swapped h B u M P g \<Longrightarrow> Q () g"
    and harm: "\<And>g. swapping h B u M P g \<Longrightarrow> harm br di E S g"
  shows "wp br di (rename_and_sync [swap_dir u] [previous_dir]) Q E S f"
proof (rule wp_rename_slot [OF base _ _ _ f(2) holds_there [OF f(3)] _ _ _ harm])
  let ?g = "carried [swap_dir u] [previous_dir] f"
  have g: "holds h primary_dir P ?g" "holds h previous_dir M ?g" "?g [swap_dir u] = None"
    using f holds_carried [of "swap_dir u" previous_dir] carried_slot(2) [of "swap_dir u" previous_dir] by simp_all
  show "swap_stage h (swap_dir u) M P f" "swap_stage h (swap_dir u) M P ?g"
    using f g by (simp_all add: swap_stage_def)
  show "Q () k" if "swapping h B u M P k" "k = ?g" for k
    using that g by (intro Q) (simp add: swapped_def swapping_def)
qed simp_all

lemma wp_swap_second:
  assumes base: "swap_base h B u M P f"
    and f: "f [primary_dir] = None" "holds h previous_dir P f" "holds h (swap_dir u) M f"
    and Q: "\<And>g. swap_base h B u M P g \<Longrightarrow> holds h primary_dir P g \<Longrightarrow> g [previous_dir] = None \<Longrightarrow>
      holds h (swap_dir u) M g \<Longrightarrow> Q () g"
    and harm: "\<And>g. swapping h B u M P g \<Longrightarrow> harm br di E S g"
  shows "wp br di (rename_and_sync [previous_dir] [primary_dir]) Q E S f"
proof (rule wp_rename_slot [OF base _ _ _ f(1) holds_there [OF f(2)] _ _ _ harm])
  let ?g = "carried [previous_dir] [primary_dir] f"
  have g: "holds h primary_dir P ?g" "?g [previous_dir] = None" "holds h (swap_dir u) M ?g"
    using f holds_carried [of previous_dir primary_dir] carried_slot(2) [of previous_dir primary_dir] by simp_all
  show "swap_stage h (swap_dir u) M P f" "swap_stage h (swap_dir u) M P ?g"
    using f g by (simp_all add: swap_stage_def)
  show "Q () k" if "swapping h B u M P k" "k = ?g" for k
    using that g by (intro Q) (simp_all add: swapping_def)
qed simp_all

lemma wp_swap_first:
  assumes base: "swap_base h B u M P f"
    and f: "holds h primary_dir M f" "holds h previous_dir P f" "f [swap_dir u] = None"
    and Q: "\<And>g. swap_base h B u M P g \<Longrightarrow> g [primary_dir] = None \<Longrightarrow> holds h previous_dir P g \<Longrightarrow>
      holds h (swap_dir u) M g \<Longrightarrow> Q () g"
    and harm: "\<And>g. swapping h B u M P g \<Longrightarrow> harm br di E S g"
  shows "wp br di (rename_and_sync [primary_dir] [swap_dir u]) Q E S f"
proof (rule wp_rename_slot [OF base _ _ _ f(3) holds_there [OF f(1)] _ _ _ harm])
  let ?g = "carried [primary_dir] [swap_dir u] f"
  have g: "?g [primary_dir] = None" "holds h previous_dir P ?g" "holds h (swap_dir u) M ?g"
    using f holds_carried [of primary_dir "swap_dir u"] carried_slot(2) [of primary_dir "swap_dir u"] by simp_all
  show "swap_stage h (swap_dir u) M P f" "swap_stage h (swap_dir u) M P ?g"
    using f g by (simp_all add: swap_stage_def)
  show "Q () k" if "swapping h B u M P k" "k = ?g" for k
    using that g by (intro Q) (simp_all add: swapping_def)
qed simp_all

lemma wp_advance:
  assumes host: "host_ok h" and s: "swapping h B u M P f" and j: "dj_nonce j = u" "dj_new_revision j = encode_revision (revision_of h P)"
    and Q: "\<And>g. swapped h B u M P g \<Longrightarrow> Q () g"
    and harm: "\<And>g. swapping h B u M P g \<Longrightarrow> harm br di E S g"
  shows "wp br di (advance_promote_swap h j) Q E S f"
proof -
  let ?s = "swap_dir u"
  have base: "swap_base h B u M P f" using s by (simp add: swapping_def)
  have revisions: "encode_revision (revision_of h M) = encode_revision (revision_of h P) \<longleftrightarrow> M = P"
    using base decode_digests(1) [OF host] by (metis swap_base_def outcome.inject(1))
  let ?third = "rename_and_sync [?s] [previous_dir]"
  have third: "wp br di ?third Q E S g"
    if "swap_base h B u M P g" "holds h primary_dir P g" "g [previous_dir] = None" "holds h ?s M g" for g
    by (rule wp_swap_third [OF that]) (erule Q harm)+
  have second: "wp br di (then_io (rename_and_sync [previous_dir] [primary_dir]) ?third) Q E S g"
    if "swap_base h B u M P g" "g [primary_dir] = None" "holds h previous_dir P g" "holds h ?s M g" for g
    by (rule wp_then, rule wp_swap_second [OF that]) (rule third harm; assumption)+
  have third': "wp br di (bind_io (exists_io [?s]) (\<lambda>e. when_io e ?third)) Q E S g"
    if g: "swap_base h B u M P g" "holds h primary_dir P g" "g [previous_dir] = None" "holds h ?s M g" for g
  proof (rule wp_bind, rule wp_exists)
    show "wp br di (when_io (g [?s] \<noteq> None) ?third) Q E S g"
      using third [OF g] holds_there [OF g(4)] by (simp add: when_io_def)
    show "harm br di E S g" by (rule harm) (use g in \<open>simp add: swapping_def swap_stage_def\<close>)
  qed simp
  have second': "wp br di (then_io (rename_and_sync [previous_dir] [primary_dir])
      (bind_io (exists_io [?s]) (\<lambda>e. when_io e ?third))) Q E S g"
    if "swap_base h B u M P g" "g [primary_dir] = None" "holds h previous_dir P g" "holds h ?s M g" for g
    by (rule wp_then, rule wp_swap_second [OF that]) (rule third' harm; assumption)+
  have when_true: "when_io b c = c" if b for b and c :: "(storage_error, unit) io"
    using that by (simp add: when_io_def)
  have first: "wp br di (then_io (when_io b (then_io (reject_symlink [?s]) (rename_and_sync [primary_dir] [?s])))
      (then_io (rename_and_sync [previous_dir] [primary_dir]) (bind_io (exists_io [?s]) (\<lambda>e. when_io e ?third)))) Q E S f"
    if f: "holds h primary_dir M f" "holds h previous_dir P f" "f [?s] = None" and b: b for b
    unfolding when_true [OF b]
    by (rule wp_then, rule wp_then, rule wp_reject, simp, rule wp_swap_first [OF base f], (rule second' harm; assumption)+, rule harm [OF s])
  have whole: "wp br di (if \<not> a then
        bind_io (generation_revision h primary_dir) (\<lambda>primary_rev.
        if primary_rev = Some (encode_revision (revision_of h P)) then ret ()
        else
          then_io (when_io b (then_io (reject_symlink [?s]) (rename_and_sync [primary_dir] [?s])))
         (then_io (rename_and_sync [previous_dir] [primary_dir]) (bind_io (exists_io [?s]) (\<lambda>e. when_io e ?third))))
      else if b then ?third
      else then_io (rename_and_sync [previous_dir] [primary_dir]) ?third) Q E S f"
    if ab: "a \<longleftrightarrow> f [?s] \<noteq> None" "b \<longleftrightarrow> f [primary_dir] \<noteq> None" for a b
  proof -
    consider "holds h primary_dir M f" "holds h previous_dir P f" "f [?s] = None"
      | "f [primary_dir] = None" "holds h previous_dir P f" "holds h ?s M f"
      | "holds h primary_dir P f" "f [previous_dir] = None" "holds h ?s M f"
      | "holds h primary_dir P f" "holds h previous_dir M f" "f [?s] = None"
      using s unfolding swapping_def swap_stage_def by (elim conjE disjE) simp_all
    then show ?thesis
    proof cases
      case 1
      have m: "manifest_at h primary_dir (Some M) f" and b using 1(1) ab holds_there [OF 1(1)] by (simp_all add: holds_def)
      have "Q () f" if "M = P"
        by (rule Q) (use that 1 base in \<open>simp add: swapped_def\<close>)
      then show ?thesis
        using ab 1 first [OF 1 \<open>b\<close>] revisions
        by (simp, intro wp_bind wp_generation_revision_at [OF host m _ harm [OF s]]) simp
    next
      case 2
      then show ?thesis using ab second [OF base 2] holds_there [OF 2(3)] by simp
    next
      case 3
      then show ?thesis using ab third [OF base 3] holds_there [OF 3(3)] holds_there [OF 3(1)] by simp
    next
      case 4
      have m: "manifest_at h primary_dir (Some P) f" using 4(1) by (simp add: holds_def)
      have "Q () f" by (rule Q) (use 4 base in \<open>simp add: swapped_def\<close>)
      then show ?thesis
        using ab 4 by (simp, intro wp_bind wp_generation_revision_at [OF host m _ harm [OF s]]) simp
    qed
  qed
  show ?thesis
    unfolding advance_promote_swap_def Let_def j
    by (rule wp_bind, rule wp_exists, simp, rule wp_bind, rule wp_exists, simp, rule whole [OF refl refl])
      (rule harm [OF s])+
qed

section \<open>The checks\<close>

lemma recompute_revision:
  assumes "host_ok h"
  shows "recompute_revision_hex h (map (new_journal_member h) P) = Ok (encode_revision (revision_of h P))"
proof -
  have "traverse (\<lambda>m. decode_revision (jm_revision_digest m)) (map (new_journal_member h) P) =
      Ok (map (\<lambda>m. ok_value (decode_revision (jm_revision_digest m))) (map (new_journal_member h) P))"
    by (rule traverse_Ok_map) (use assms in auto)
  moreover have "map (\<lambda>(m, d). (jm_name m, jm_byte_len m, d))
      (zip (map (new_journal_member h) P) (map (\<lambda>m. ok_value (decode_revision (jm_revision_digest m))) (map (new_journal_member h) P))) =
      map (member_evidence_of h) P"
    using assms by (induction P) (simp_all add: member_evidence_of_def)
  ultimately show ?thesis
    by (simp add: recompute_revision_hex_def revision_of_def from_canonical_members_def del: map_map)
qed

lemma wp_slot_revision:
  assumes "host_ok h" "manifest_at h d g f"
    "Q (case g of None \<Rightarrow> [] | Some M \<Rightarrow> [(d, encode_revision (revision_of h M))]) f" "harm br di E S f"
  shows "wp br di (slot_revision h d) Q E S f"
  unfolding slot_revision_def
  by (intro wp_bind wp_generation_revision_at [OF assms(1,2) _ assms(4)])
    (use assms(3) in \<open>cases g; simp\<close>)

lemma wp_validate_generation:
  assumes host: "host_ok h" and m: "manifest_at h d (Some P) f" and c: "contents h P f" and P: "canonical P"
    and j: "dj_members j = map (new_journal_member h) P" and Q: "Q () f" and harm: "harm br di E S f"
  shows "wp br di (validate_generation_against_journal h d j) Q E S f"
proof -
  have one: "wp br di (validate_journal_member_in h d (record_of h P) (new_journal_member h k)) (\<lambda>_ g. g = f) E S f"
    if k: "k \<in> set P" for k
  proof -
    have found: "List.find (\<lambda>r. mm_name r = me_name k) (mr_evidence (record_of h P)) =
        Some (evidence_record (new_journal_member h k))"
      using member_named_self [of P k] P k by (simp add: canonical_def find_map comp_def member_named_def)
    have there: "f [members_dir, digest_of h k] = Some (File (me_bytes k))" using c k by (simp add: contents_def)
    show ?thesis
      unfolding validate_journal_member_in_def new_journal_member_simps found
      by (simp add: host, intro wp_bind wp_read_file) (use there harm in auto)
  qed
  have "wp br di (each (validate_journal_member_in h d (record_of h P)) (map (new_journal_member h) P)) Q E S f"
    unfolding each_map by (rule wp_each_const) (use one Q in auto)
  then show ?thesis
    unfolding validate_generation_against_journal_def j
    by (intro wp_bind wp_read_manifest_at [OF host m _ harm]) simp
qed

lemma wp_validate_promote:
  assumes host: "host_ok h" and s: "swapping h B u M P f" and Q: "Q () f" and harm: "harm br di E S f"
  shows "wp br di (validate_promote_journal_semantics h (promote_journal_of h u M P\<lparr>dj_phase := ph\<rparr>)) Q E S f"
proof (rule wp_good)
  assume good: "good f"
  have base: "canonical P" "contents h P f" using s by (simp_all add: swapping_def swap_base_def)
  define j where "j = promote_journal_of h u M P\<lparr>dj_phase := ph\<rparr>"
  have j: "dj_nonce j = u" "dj_members j = map (new_journal_member h) P"
    "dj_old_revision j = encode_revision (revision_of h M)" "dj_new_revision j = encode_revision (revision_of h P)"
    by (simp_all add: j_def promote_journal_of_members [OF base(1)])
  let ?rev = "\<lambda>X. encode_revision (revision_of h X)"
  let ?slot = "\<lambda>d g. case g of None \<Rightarrow> [] | Some X \<Rightarrow> [(d, ?rev X)]"
  have revisions: "?rev M = ?rev P \<longleftrightarrow> M = P"
    using s decode_digests(1) [OF host] by (metis swapping_def swap_base_def outcome.inject(1))
  have none: "manifest_at h d None f" if "f [d] = None" for d
    using good_below [OF good that] by (simp add: manifest_at_def)
  obtain a b c where slots: "manifest_at h primary_dir a f" "manifest_at h previous_dir b f" "manifest_at h (swap_dir u) c f"
    and stages: "(a, b, c) \<in> {(Some M, Some P, None), (None, Some P, Some M), (Some P, None, Some M), (Some P, Some M, None)}"
  proof -
    consider "holds h primary_dir M f" "holds h previous_dir P f" "f [swap_dir u] = None"
      | "f [primary_dir] = None" "holds h previous_dir P f" "holds h (swap_dir u) M f"
      | "holds h primary_dir P f" "f [previous_dir] = None" "holds h (swap_dir u) M f"
      | "holds h primary_dir P f" "holds h previous_dir M f" "f [swap_dir u] = None"
      using s unfolding swapping_def swap_stage_def by (elim conjE disjE) simp_all
    then show thesis
    proof cases
      case 1
      then show thesis using that [of "Some M" "Some P" None] none by (simp add: holds_def)
    next
      case 2
      then show thesis using that [of None "Some P" "Some M"] none by (simp add: holds_def)
    next
      case 3
      then show thesis using that [of "Some P" None "Some M"] none by (simp add: holds_def)
    next
      case 4
      then show thesis using that [of "Some P" "Some M" None] none by (simp add: holds_def)
    qed
  qed
  let ?present = "?slot primary_dir a @ ?slot previous_dir b @ ?slot (swap_dir u) c"
  have accepted: "list_ex (\<lambda>(_, v). v = ?rev M) ?present" "list_ex (\<lambda>(_, v). v = ?rev P) ?present"
    "list_all (\<lambda>(_, v). v = ?rev M \<or> v = ?rev P) ?present"
    using stages by auto
  obtain d v where found: "List.find (\<lambda>(_, v). v = ?rev P) ?present = Some (d, v)"
    and d: "manifest_at h d (Some P) f"
    using stages slots revisions by (cases "M = P") auto
  let ?check = "\<lambda>present. if \<not> (list_ex (\<lambda>(_, v). v = ?rev M) present \<and> list_ex (\<lambda>(_, v). v = ?rev P) present \<and>
                list_all (\<lambda>(_, v). v = ?rev M \<or> v = ?rev P) present)
          then refuse h InvalidJournal False
          else case List.find (\<lambda>(_, v). v = ?rev P) present of
            None \<Rightarrow> stop
          | Some (gen, _) \<Rightarrow> validate_generation_against_journal h gen j"
  have "wp br di (?check ?present) Q E S f"
    unfolding found using accepted wp_validate_generation [OF host d base(2,1) j(2), of Q] Q harm by simp
  then have gather: "wp br di (gather (slot_revision h) [primary_dir, previous_dir, swap_dir u])
      (\<lambda>slots. wp br di (?check (concat slots)) Q E S) E S f"
    using harm
    by (simp only: gather.simps, intro wp_bind wp_slot_revision [OF host slots(1)]
        wp_slot_revision [OF host slots(2)] wp_slot_revision [OF host slots(3)] wp_ret)
      (simp_all only: concat.simps append_Nil2 bind_ret wp_ret)
  have "validate_promote_journal_semantics h j =
      bind_io (gather (slot_revision h) [primary_dir, previous_dir, swap_dir u]) (\<lambda>slots. ?check (concat slots))"
    unfolding validate_promote_journal_semantics_def j recompute_revision [OF host] Let_def
    by (simp only: lift_outcome.simps bind_ret simp_thms if_False)
  then have "wp br di (validate_promote_journal_semantics h j) Q E S f"
    using gather by (simp only: wp_bind)
  then show ?thesis by (simp add: j_def)
qed

section \<open>Recovering a promotion\<close>

definition swap_forward :: "host \<Rightarrow> bytes set \<Rightarrow> ustr \<Rightarrow> generation \<Rightarrow> generation \<Rightarrow> disk \<Rightarrow> bool" where
  "swap_forward h B u M P f \<longleftrightarrow> swapping h B u M P f \<or> settled h B (Some P) (Some M) f"

lemma swapping_forward: "swapping h B u M P f \<Longrightarrow> swap_forward h B u M P f"
  by (simp add: swap_forward_def)

lemma settled_swap_forward: "settled h B (Some P) (Some M) f \<Longrightarrow> swap_forward h B u M P f"
  by (simp add: swap_forward_def)

lemma blind_swapped: "blind (swapped h B u M P)"
  unfolding blind_def
proof (intro allI impI)
  fix f g n
  assume f: "swapped h B u M P f" "dotted n" "\<forall>p. \<not> under [n] p \<longrightarrow> g p = f p" "\<forall>p. g p = None \<or> g p = f p"
  have part: "partly [n] f g" unfolding partly_def using f(3,4) by blast
  have same: "g (k # r) = f (k # r)" if "\<not> dotted k" for k r
  proof -
    have "n \<noteq> k" using that f(2) by auto
    then show ?thesis using partly_outside [OF part, of "k # r"] by simp
  qed
  have "tidy g" by (rule tidy_partly [OF _ part]) (use f(1) in \<open>simp add: swapped_def swap_base_def\<close>)
  moreover have "g [swap_dir u] = None" using f(1) f(4) [rule_format, of "[swap_dir u]"] by (auto simp: swapped_def)
  ultimately show "swapped h B u M P g"
    using f(1) by (simp add: swapped_def swap_base_def store_ok_def contents_def holds_def manifest_at_def same)
qed

lemma swapped_settled:
  assumes "swapped h B u M P f"
  shows "settled h B (Some P) (Some M) (f([journal_file] := None))"
proof -
  have "settled_but h B (Some P) (Some M) f"
    using assms by (simp add: settled_but_def swapped_def swap_base_def holds_def whole_def)
  then have "settled_but h B (Some P) (Some M) (f([journal_file] := None))"
    by (rule settled_but_update) simp_all
  then show ?thesis by (simp add: settled_def)
qed

lemma wp_close_swap:
  assumes f: "swapped h B u M P f"
    and Q: "\<And>g. settled h B (Some P) (Some M) g \<Longrightarrow> (br \<or> clean f \<Longrightarrow> br \<or> clean g) \<Longrightarrow> Q () g"
    and harm: "\<And>g. swap_forward h B u M P g \<Longrightarrow> harm br di E S g"
  shows "wp br di (then_io remove_journal sync_dir) Q E S f"
proof (rule wp_then, rule wp_remove_journal)
  have s: "settled h B (Some P) (Some M) (f([journal_file] := None))" by (rule swapped_settled [OF f])
  have "br \<or> clean (f([journal_file] := None))" if "br \<or> clean f"
    by (rule dwindles_delete [OF dwindles_clean that])
  then have "Q () (f([journal_file] := None))" by (rule Q [OF s])
  then show "wp br di sync_dir Q E S (f([journal_file] := None))"
    by (rule wp_sync_dir) (rule harm settled_swap_forward s)+
  show "f [journal_file] \<noteq> Some Folder" using f by (auto simp: swapped_def swap_base_def)
  show "harm br di E S f" by (rule harm, rule swapping_forward, rule swapped_swapping [OF f])
qed

lemma wp_roll_forward_promote:
  assumes host: "host_ok h" and s: "swapping h B u M P f"
    and Q: "\<And>g. settled h B (Some P) (Some M) g \<Longrightarrow> br \<or> clean g \<Longrightarrow> Q () g"
    and harm: "\<And>g. swap_forward h B u M P g \<Longrightarrow> harm br di E S g"
  shows "wp br di (roll_forward_promote h (promote_journal_of h u M P\<lparr>dj_phase := ph\<rparr>)) Q E S f"
proof -
  let ?j = "promote_journal_of h u M P\<lparr>dj_phase := ph\<rparr>"
  have sharm: "harm br di E S g" if "swapping h B u M P g" for g
    by (rule harm, rule swapping_forward, rule that)
  have dharm: "harm br di E S g" if "swapped h B u M P g" for g
    by (rule sharm, rule swapped_swapping, rule that)
  have close: "wp br di (then_io remove_journal sync_dir) Q E S g" if "swapped h B u M P g" "br \<or> clean g" for g
    by (rule wp_close_swap [OF that(1)]) (use that(2) Q harm in auto)
  have clean: "wp br di (then_io sync_dir (then_io remove_transients (then_io remove_journal sync_dir))) Q E S g"
    if g: "swapped h B u M P g" for g
    by (rule wp_then, rule wp_sync_dir, rule wp_then, rule wp_remove_transients [OF blind_swapped g])
      (rule close dharm g; assumption?)+
  have advance: "wp br di (advance_promote_swap h ?j)
      (\<lambda>_. wp br di (then_io sync_dir (then_io remove_transients (then_io remove_journal sync_dir))) Q E S) E S f"
    by (rule wp_advance [OF host s]) (simp_all add: clean sharm)
  show ?thesis
    unfolding roll_forward_promote_def
    by (rule wp_then, rule wp_validate_promote [OF host s], rule wp_then, rule advance, rule sharm [OF s])
qed

lemma wp_recover_swapping:
  assumes host: "host_ok h" and s: "swapping h B u M P f"
    and Q: "\<And>g. settled h B (Some P) (Some M) g \<Longrightarrow> br \<or> clean g \<Longrightarrow> Q () g"
    and harm: "\<And>g. swap_forward h B u M P g \<Longrightarrow> harm br di E S g"
  shows "wp br di (recover h) Q E S f"
proof -
  have base: "swap_base h B u M P f" and tidy: "tidy f" using s by (simp_all add: swapping_def swap_base_def)
  obtain ph where there: "f [journal_file] = Some (File (h_encode_journal h (promote_journal_of h u M P\<lparr>dj_phase := ph\<rparr>)))"
    using base by (auto simp: swap_base_def)
  let ?j = "promote_journal_of h u M P\<lparr>dj_phase := ph\<rparr>"
  have valid: "validate_journal_structure ?j"
    using base by (intro promote_journal_of_valid [OF host]) (simp_all add: swap_base_def)
  have sharm: "harm br di E S f" by (rule harm, rule swapping_forward, rule s)
  have roll: "wp br di (roll_forward_promote h ?j) Q E S f"
    by (rule wp_roll_forward_promote [OF host s]) (rule Q harm; assumption)+
  show ?thesis
    by (rule wp_recover_journal [OF host tidy there valid]) (simp_all add: roll sharm)
qed

section \<open>Promoting\<close>

lemma wp_previous_members:
  assumes host: "host_ok h" and P: "canonical P" and c: "contents h P f" and Q: "Q P f" and harm: "harm br di E S f"
  shows "wp br di (gather (previous_member h (record_of h P)) (mr_members (record_of h P))) Q E S f"
proof -
  have one: "wp br di ((previous_member h (record_of h P) \<circ> me_name) k) (\<lambda>y g. g = f \<and> y = k) E S f" if k: "k \<in> set P" for k
  proof -
    have safe: "parse_segment (me_name k) = Ok (me_name k)" using P k by (simp add: canonical_def parse_segment_def)
    have found: "member_record (record_of h P) (me_name k) = Some (evidence_record (new_journal_member h k))"
      using member_named_self [of P k] P k by (simp add: member_record_of canonical_def)
    have there: "f [members_dir, digest_of h k] = Some (File (me_bytes k))" using c k by (simp add: contents_def)
    show ?thesis
      unfolding previous_member_def comp_def safe found
      by (simp add: host previous_content_path_def from_option_def, intro wp_bind wp_read_file)
        (use there harm in \<open>auto simp: from_option_def\<close>)
  qed
  show ?thesis
    unfolding record_of_simps gather_map by (rule wp_gather_map [where k = "\<lambda>k. k"]) (use one Q in simp_all)
qed

lemma wp_promoted_members:
  assumes host: "host_ok h" and c: "contents h P f" and Q: "Q (map (new_journal_member h) P) f" and harm: "harm br di E S f"
  shows "wp br di (gather (promoted_member h) (mr_evidence (record_of h P))) Q E S f"
proof -
  have one: "wp br di ((promoted_member h \<circ> (evidence_record \<circ> new_journal_member h)) k)
      (\<lambda>y g. g = f \<and> y = new_journal_member h k) E S f" if k: "k \<in> set P" for k
  proof -
    have there: "f [members_dir, digest_of h k] = Some (File (me_bytes k))" using c k by (simp add: contents_def)
    show ?thesis
      unfolding promoted_member_def
      by (simp add: host previous_content_path_def, intro wp_bind wp_read_file)
        (use there harm in \<open>auto simp: from_option_def new_journal_member_def\<close>)
  qed
  show ?thesis
    unfolding record_of_simps gather_map by (rule wp_gather_map [where k = "new_journal_member h"]) (use one Q in simp_all)
qed

lemma wp_validate_previous:
  assumes host: "host_ok h" and P: "canonical P" and c: "contents h P f" and Q: "Q () f" and harm: "harm br di E S f"
  shows "wp br di (validate_previous_generation h (record_of h P)) Q E S f"
  unfolding validate_previous_generation_def
  by (rule wp_bind, rule wp_previous_members [OF host P c _ harm])
    (use Q host P in \<open>simp add: manifest_new_canonical manifest_of_def\<close>)

lemma settled_holds:
  assumes "good f" "settled h B (Some M) (Some P) f"
  shows "holds h primary_dir M f" "holds h previous_dir P f"
  using assms good_above [OF assms(1), of "[primary_dir]" manifest_file] good_above [OF assms(1), of "[previous_dir]" manifest_file]
  by (simp_all add: settled_def settled_but_def holds_def manifest_at_def folder_at_def)

lemma swap_base_journal:
  assumes "settled_but h B (Some M) (Some P) f \<or> swap_base h B u M P f" "safe_segment u"
    "revision_of h M = revision_of h P \<longrightarrow> M = P"
  shows "swap_base h B u M P
    (f([journal_prefix @ u] := None, [journal_file] \<mapsto> File (h_encode_journal h (promote_journal_of h u M P\<lparr>dj_phase := ph\<rparr>))))"
    (is "swap_base h B u M P ?g")
proof -
  have two: "?g [d, n] = f [d, n]" for d n by simp
  have "tidy f" using assms(1) by (auto simp: settled_but_def swap_base_def)
  then have "tidy ?g" by (intro tidy_insert tidy_delete) simp_all
  moreover have "store_ok h B ?g" using assms(1) by (auto simp: settled_but_def swap_base_def store_ok_def two simp del: fun_upd_apply)
  moreover have "contents h M ?g" "contents h P ?g" "canonical M" "canonical P"
    using assms(1) by (auto simp: settled_but_def swap_base_def whole_def contents_def two simp del: fun_upd_apply)
  moreover have "?g [journal_file] = Some (File (h_encode_journal h (promote_journal_of h u M P\<lparr>dj_phase := ph\<rparr>)))" by simp
  ultimately show ?thesis
    unfolding swap_base_def using assms(2,3) by blast
qed

lemma journal_elsewhere:
  "(f([journal_prefix @ u] := x, [journal_file] := y)) [d, n] = f [d, n]"
  "d \<in> {primary_dir, previous_dir, swap_dir i} \<Longrightarrow> (f([journal_prefix @ u] := x, [journal_file] := y)) [d] = f [d]"
  by auto

text \<open>Writing the journal, in either phase, beside a disk with the invariant \<open>I\<close>.\<close>

lemma wp_write_promote_journal:
  assumes "tidy f" "\<And>x. x \<noteq> Some Folder \<Longrightarrow> harm br di E S (f([journal_prefix @ u] := x))"
    "Q () (f([journal_prefix @ u] := None, [journal_file] \<mapsto> File (h_encode_journal h j)))" "dj_nonce j = u"
  shows "wp br di (write_journal h j) Q E S f"
proof -
  have "f [journal_prefix @ u] \<noteq> Some Folder" "f [journal_file] \<noteq> Some Folder"
    using tidyD [OF assms(1), of "[journal_prefix @ u]" Folder] tidyD [OF assms(1), of "[journal_file]" Folder] by auto
  then show ?thesis
    unfolding write_journal_def assms(4)
    by (intro wp_write_beside) (use assms(2,3) in \<open>simp_all add: under_def folder_at_def\<close>)
qed

lemma swapped_beside:
  assumes "swapped h B u M P f" "x \<noteq> Some Folder"
  shows "swapped h B u M P (f([journal_prefix @ u] := x))" (is "swapped h B u M P ?g")
proof -
  have same: "?g [d, n] = f [d, n]" "n \<noteq> journal_prefix @ u \<Longrightarrow> ?g [n] = f [n]" for d n by simp_all
  have "tidy ?g"
    by (rule tidy_update) (use assms in \<open>auto simp: swapped_def swap_base_def is_slot_def\<close>)
  then show ?thesis
    using assms(1) by (simp add: swapped_def swap_base_def store_ok_def contents_def holds_def manifest_at_def same del: fun_upd_apply)
qed

lemma swapped_journal:
  assumes "swapped h B u M P f"
  shows "swapped h B u M P
    (f([journal_prefix @ u] := None, [journal_file] \<mapsto> File (h_encode_journal h (promote_journal_of h u M P\<lparr>dj_phase := ph\<rparr>))))"
    (is "swapped h B u M P ?g")
proof -
  have "swap_base h B u M P ?g"
    by (rule swap_base_journal) (use assms in \<open>auto simp: swapped_def swap_base_def\<close>)
  moreover have "?g [d, n] = f [d, n]" "d \<in> {primary_dir, previous_dir, swap_dir u} \<Longrightarrow> ?g [d] = f [d]" for d n
    by (rule journal_elsewhere)+
  ultimately show ?thesis
    using assms by (simp add: swapped_def holds_def manifest_at_def del: fun_upd_apply)
qed

lemma wp_finish_promote:
  assumes host: "host_ok h" and s: "swapping h B u M P f"
    and Q: "\<And>g. settled h B (Some P) (Some M) g \<Longrightarrow> Q () g"
    and harm: "\<And>g. swap_forward h B u M P g \<Longrightarrow> harm br di E S g"
  shows "wp br di (finish_promote h (promote_journal_of h u M P)) Q E S f"
proof -
  have sharm: "harm br di E S g" if "swapping h B u M P g" for g
    by (rule harm, rule swapping_forward, rule that)
  have dharm: "harm br di E S g" if "swapped h B u M P g" for g
    by (rule sharm, rule swapped_swapping, rule that)
  have close: "wp br di (then_io remove_journal sync_dir) Q E S g" if "swapped h B u M P g" for g
    by (rule wp_close_swap [OF that]) (rule Q harm; assumption)+
  let ?seal = "then_io (write_journal h (promote_journal_of h u M P\<lparr>dj_phase := Committed\<rparr>))
      (then_io sync_dir (then_io remove_journal sync_dir))"
  have seal: "wp br di ?seal Q E S g" if g: "swapped h B u M P g" for g
  proof (rule wp_then, rule wp_write_promote_journal)
    show "tidy g" using g by (simp add: swapped_def swap_base_def)
    show "harm br di E S (g([journal_prefix @ u] := x))" if "x \<noteq> Some Folder" for x
      by (rule dharm, rule swapped_beside [OF g that])
    have k: "swapped h B u M P (g([journal_prefix @ u] := None,
        [journal_file] \<mapsto> File (h_encode_journal h (promote_journal_of h u M P\<lparr>dj_phase := Committed\<rparr>))))"
      by (rule swapped_journal [OF g])
    show "wp br di (then_io sync_dir (then_io remove_journal sync_dir)) Q E S (g([journal_prefix @ u] := None,
        [journal_file] \<mapsto> File (h_encode_journal h (promote_journal_of h u M P\<lparr>dj_phase := Committed\<rparr>))))"
      by (rule wp_then, rule wp_sync_dir, rule close [OF k], rule dharm [OF k])
  qed simp
  show ?thesis
    unfolding finish_promote_def
    by (rule wp_then, rule wp_advance [OF host s]) (simp_all add: seal sharm)
qed

definition promoted ::
  "bool \<Rightarrow> host \<Rightarrow> bytes set \<Rightarrow> ustr \<Rightarrow> generation \<Rightarrow> generation \<Rightarrow> commit_receipt \<Rightarrow> disk \<Rightarrow> bool" where
  "promoted br h B u M P r g \<longleftrightarrow>
     cr_revision r = revision_of h P \<and>
     (cr_visibility r = Visible \<and> settled h B (Some P) (Some M) g \<or>
      br \<and> cr_visibility r = RecoveryPending \<and> swap_forward h B u M P g)"

theorem wp_promote_sync:
  assumes host: "host_ok h" and s: "settled h B (Some M) (Some P) f" and fresh: "f [swap_dir (h_uuid h)] = None"
    and u: "safe_segment (h_uuid h)" and apart: "revision_of h M = revision_of h P \<longrightarrow> M = P"
  shows "wp br di (promote_sync h) (promoted br h B (h_uuid h) M P)
    (\<lambda>e g. br \<and> benign e \<and> uncommitted br h B (Some M) (Some P) g)
    (\<lambda>g. di \<and> (uncommitted br h B (Some M) (Some P) g \<or> swap_forward h B (h_uuid h) M P g)) f"
    (is "wp br di _ ?Q ?E ?S f")
proof (rule wp_good)
  assume good: "good f"
  let ?u = "h_uuid h"
  let ?j = "promote_journal_of h ?u M P"
  have m: "manifest_at h primary_dir (Some M) f" "manifest_at h previous_dir (Some P) f"
    and M: "canonical M" and P: "canonical P" and c: "contents h P f" and tidy: "tidy f"
    using s by (simp_all add: settled_def settled_but_def whole_def)
  have harm: "harm br di ?E ?S f" using s by (auto simp: harm_def)
  let ?g = "f([journal_prefix @ ?u] := None, [journal_file] \<mapsto> File (h_encode_journal h ?j))"
  have phase: "?j\<lparr>dj_phase := Prepared\<rparr> = ?j"
    by (simp add: promote_journal_of_def promote_journal_def commit_journal_def)
  have base: "swap_base h B ?u M P ?g"
    using swap_base_journal [OF disjI1 [OF settled_settled_but [OF s]] u apart, of Prepared] by (simp only: phase)
  have g: "swapping h B ?u M P ?g"
  proof -
    have "holds h primary_dir M ?g" "holds h previous_dir P ?g" "?g [swap_dir ?u] = None"
      using settled_holds [OF good s] fresh journal_elsewhere [where f = f and u = ?u]
      by (simp_all add: holds_def manifest_at_def del: fun_upd_apply)
    then show ?thesis using base by (simp add: swapping_def swap_stage_def)
  qed
  have but: "settled_but h B (Some M) (Some P) ?g"
    using settled_settled_but [OF s] by (intro settled_but_update) (auto simp: is_slot_def)
  have gone: "settled_but h B (Some M) (Some P) (k([journal_file] := None))"
    if "settled_but h B (Some M) (Some P) k" for k
    using that by (rule settled_but_update) auto
  have discard: "wp br di (then_io (ignore remove_journal) (fail e)) ?Q ?E ?S k"
    if k: "settled_but h B (Some M) (Some P) k" "br" "benign e" "k [journal_file] \<noteq> Some Folder" for k e
  proof (rule wp_then, rule wp_ignore, rule wp_remove_journal)
    have "?E e l" if "settled_but h B (Some M) (Some P) l" for l using k that by (simp add: uncommitted_def)
    then show "wp br di (fail e) ?Q ?E ?S (k([journal_file] := None))" using gone [OF k(1)] by (intro wp_fail) blast
    show "harm br di (\<lambda>_. wp br di (fail e) ?Q ?E ?S) ?S k"
      using k by (auto simp: harm_def uncommitted_def intro!: wp_fail)
  qed (rule k(4))
  have finish: "wp br di (finish_promote h ?j) (\<lambda>_. ?Q (receipt (revision_of h P) Visible))
      (\<lambda>e g. \<not> is_corruption e \<and> ?Q (receipt (revision_of h P) RecoveryPending) g) ?S ?g"
    by (rule wp_finish_promote [OF host g])
      (auto simp: promoted_def receipt_def harm_def benign_not_corruption)
  have flush: "wp br di sync_dir (\<lambda>_. wp br di (finish_promote h ?j) (\<lambda>_. ?Q (receipt (revision_of h P) Visible))
      (\<lambda>e g. \<not> is_corruption e \<and> ?Q (receipt (revision_of h P) RecoveryPending) g) ?S)
      (\<lambda>e g. \<not> is_corruption e \<and> wp br di (then_io (ignore remove_journal) (fail e)) ?Q ?E ?S g) ?S ?g"
  proof (rule wp_sync_dir, rule finish, rule harmI)
    show "\<not> is_corruption e \<and> wp br di (then_io (ignore remove_journal) (fail e)) ?Q ?E ?S ?g" if br "benign e" for e
      using discard [OF but that] benign_not_corruption [OF that(2)] by simp
    show "?S ?g" if di using swapping_forward [OF g] that by blast
  qed
  have transaction: "wp br di (committed_after (revision_of h P) (then_io (write_journal h ?j) sync_dir) (finish_promote h ?j)
      (ignore remove_journal)) ?Q ?E ?S f"
  proof (rule wp_committed_after, rule wp_then, rule wp_write_promote_journal [where u = ?u])
    show "tidy f" by (rule tidy)
    show "wp br di sync_dir (\<lambda>_. wp br di (finish_promote h ?j) (\<lambda>_. ?Q (receipt (revision_of h P) Visible))
      (\<lambda>e g. \<not> is_corruption e \<and> ?Q (receipt (revision_of h P) RecoveryPending) g) ?S)
      (\<lambda>e g. \<not> is_corruption e \<and> wp br di (then_io (ignore remove_journal) (fail e)) ?Q ?E ?S g) ?S ?g"
      by (rule flush)
    fix x assume x: "x \<noteq> Some Folder"
    have "settled h B (Some M) (Some P) (f([journal_prefix @ ?u] := x))"
      by (rule settled_update [OF s]) (use x in \<open>auto simp: is_slot_def\<close>)
    then have k: "settled_but h B (Some M) (Some P) (f([journal_prefix @ ?u] := x))"
      "uncommitted br h B (Some M) (Some P) (f([journal_prefix @ ?u] := x))"
      "(f([journal_prefix @ ?u] := x)) [journal_file] \<noteq> Some Folder"
      by (auto simp: settled_def uncommitted_def)
    show "harm br di (\<lambda>e g. \<not> is_corruption e \<and> wp br di (then_io (ignore remove_journal) (fail e)) ?Q ?E ?S g) ?S
        (f([journal_prefix @ ?u] := x))"
    proof (rule harmI)
      show "\<not> is_corruption e \<and> wp br di (then_io (ignore remove_journal) (fail e)) ?Q ?E ?S (f([journal_prefix @ ?u] := x))"
        if br "benign e" for e
        using discard [OF k(1) that k(3)] benign_not_corruption [OF that(2)] by blast
    qed (use k(2) in blast)
  qed simp
  have journal: "promote_journal ?u (revision_of h M) (revision_of h P) (map (new_journal_member h) P) = ?j"
    by (simp add: promote_journal_of_def)
  show ?thesis
    unfolding promote_sync_def
  proof (rule wp_bind, rule wp_read_manifest_at [OF host m(2) _ harm])
    have "wp br di (bind_io (gather (promoted_member h) (mr_evidence (record_of h P))) (\<lambda>members.
         let j = promote_journal ?u (revision_of h M) (revision_of h P) members
         in committed_after (revision_of h P) (then_io (write_journal h j) sync_dir) (finish_promote h j)
              (ignore remove_journal))) ?Q ?E ?S f"
      by (rule wp_bind, rule wp_promoted_members [OF host c _ harm]) (simp add: Let_def journal transaction)
    then have "wp br di (bind_io (current_manifest h) (\<lambda>current. bind_io (gather (promoted_member h) (mr_evidence (record_of h P)))
       (\<lambda>members. let j = promote_journal ?u (md_revision current) (revision_of h P) members
         in committed_after (revision_of h P) (then_io (write_journal h j) sync_dir) (finish_promote h j)
              (ignore remove_journal)))) ?Q ?E ?S f"
      by (intro wp_bind [of _ _ "current_manifest h"] wp_current_manifest [OF host m(1) _ _ harm])
        (use M in \<open>simp_all add: members_of_def\<close>)
    then show "wp br di (case map_option (record_of h) (Some P) of
        None \<Rightarrow> bind_io (current_manifest h) (\<lambda>current. ret (receipt (md_revision current) Visible))
      | Some record \<Rightarrow>
         then_io (validate_previous_generation h record)
        (bind_io (lift_outcome (decode_revision (mr_revision record))) (\<lambda>revision.
         bind_io (current_manifest h) (\<lambda>current.
         bind_io (gather (promoted_member h) (mr_evidence record)) (\<lambda>members.
         let j = promote_journal (h_uuid h) (md_revision current) revision members
         in committed_after revision (then_io (write_journal h j) sync_dir) (finish_promote h j)
              (ignore remove_journal)))))) ?Q ?E ?S f"
      using host by (simp, intro wp_then [of _ _ "validate_previous_generation h (record_of h P)"]
        wp_validate_previous [OF host P c _ harm])
  qed
qed

end
