(* ===== verification/Dataset_Session.thy ===== *)
theory Dataset_Session
  imports Dataset_Promoting Disk_Rules
begin

text \<open>
  The operations of the port: the lock, the recovery and the operation proper, on the directory of a dataset
  in the store. What they do depends on and changes that directory alone.
\<close>

section \<open>The port and the handle\<close>

lemma dataset_rel_nonempty [simp]: "dataset_rel key \<noteq> []"
  by (simp add: dataset_rel_def)

text \<open>\<open>P\<close> holds of the directory of the dataset, and nothing outside has changed since \<open>f\<close>.\<close>

definition located :: "dataset_key \<Rightarrow> (disk \<Rightarrow> bool) \<Rightarrow> disk \<Rightarrow> bool" where
  "located key P f \<longleftrightarrow> can_make (dataset_rel key) f \<and> P (sub_at (dataset_rel key) f)"

definition within_key :: "dataset_key \<Rightarrow> disk \<Rightarrow> (disk \<Rightarrow> bool) \<Rightarrow> disk \<Rightarrow> bool" where
  "within_key key f P g \<longleftrightarrow> located key P g \<and> apart (dataset_rel key) f g"

lemma wp_locked:
  assumes make: "can_make (dataset_rel key) f"
    and run: "wp br di (then_io (enter_dataset h) c) Q E S (sub_at (dataset_rel key) f)"
    and harm: "harm br di E S (sub_at (dataset_rel key) f)"
  shows "wp br di (locked h key c) (\<lambda>x. within_key key f (Q x)) (\<lambda>e. within_key key f (E e)) (within_key key f S) f"
proof -
  let ?d = "dataset_rel key"
  let ?Q = "\<lambda>x. within_key key f (Q x)" and ?E = "\<lambda>e. within_key key f (E e)" and ?S = "within_key key f S"
  have still: "within_key key f P (made (take i ?d) f)" if "P (sub_at ?d f)" for P i
    using that make by (simp add: within_key_def located_def can_make_made sub_made apart_made)
  have harm': "harm br di ?E ?S (made (take i ?d) f)" for i
    using harm still by (simp add: harm_def)
  have lift: "within_key key f P (graft_at ?d g (made ?d f))" if "good g" "P g" for P g
    using that can_make_graft [OF can_make_made [OF make, of "length ?d"]] apart_graft [OF apart_made [of ?d f "length ?d"]]
    by (simp add: within_key_def located_def sub_graft)
  have folder: "folder_at (made ?d f) ?d" by (simp add: folder_at_def made_def)
  have "sub_at ?d (made ?d f) = sub_at ?d f" using sub_made [of ?d "length ?d" f] by simp
  then have body: "wp br di (within ?d (then_io (enter_dataset h) c)) ?Q ?E ?S (made ?d f)"
    using run by (intro wp_within [OF folder]) (auto elim!: wp_mono intro: lift)
  have opened: "wp br di (map_fail map_io (fs_open_dir ?d)) (\<lambda>_. wp br di (within ?d (then_io (enter_dataset h) c)) ?Q ?E ?S)
      ?E ?S (made ?d f)"
    using harm' [of "length ?d"]
    by (intro wp_map_fail wp_open_dir [OF folder] body hurt_map_io [where E = ?E]) simp
  show ?thesis
    unfolding locked_def open_dataset_dir_def create_dir_all_def
    by (rule wp_then, rule wp_then, rule wp_map_fail, rule wp_create_dir_all [OF make], rule opened)
      (rule hurt_map_io, rule harm')
qed

section \<open>What a disk means\<close>

text \<open>
  The two generations that the next operation will find: those of a settled disk, or those a transaction that
  has passed its logical point will have led to.
\<close>

type_synonym generations = "generation option \<times> generation option"

definition means :: "host \<Rightarrow> bytes set \<Rightarrow> generations \<Rightarrow> disk \<Rightarrow> bool" where
  "means h B s f \<longleftrightarrow>
     settled h B (fst s) (snd s) f \<or>
     (\<exists>u c N p. pending h B u c N p f \<and> s = (Some N, kept c p)) \<or>
     (\<exists>u M P. swapping h B u M P f \<and> s = (Some P, Some M))"

lemma means_settled: "settled h B cur prev f \<Longrightarrow> means h B (cur, prev) f"
  by (simp add: means_def)

lemma means_forward: "forward h B u cur N prev f \<Longrightarrow> means h B (Some N, kept cur prev) f"
  by (auto simp: means_def forward_def)

lemma means_swap_forward: "swap_forward h B u M P f \<Longrightarrow> means h B (Some P, Some M) f"
  by (auto simp: means_def swap_forward_def)

lemma means_tidy: "means h B s f \<Longrightarrow> tidy f"
  unfolding means_def using settled_tidy pending_tidy by (metis swapping_def swap_base_def)

lemma swapping_lock: "swapping h B u M P f \<Longrightarrow> swapping h B u M P (f([lock_file] \<mapsto> File []))"
proof -
  assume s: "swapping h B u M P f"
  let ?g = "f([lock_file] \<mapsto> File [])"
  have same: "?g [d, n] = f [d, n]" "d \<noteq> lock_file \<Longrightarrow> ?g [d] = f [d]" for d n by simp_all
  have "tidy ?g" using s by (intro tidy_insert) (simp_all add: swapping_def swap_base_def)
  then have "swap_base h B u M P ?g"
    using s by (simp add: swapping_def swap_base_def store_ok_def contents_def same del: fun_upd_apply)
  moreover have "holds h d X ?g = holds h d X f" "?g [d] = f [d]" if "is_slot d" for d X
  proof -
    have "d \<noteq> lock_file" using that by auto
    then show "holds h d X ?g = holds h d X f" "?g [d] = f [d]"
      using same by (simp_all add: holds_def manifest_at_def del: fun_upd_apply)
  qed
  then have "swap_stage h (swap_dir u) M P ?g"
    using s by (simp add: swapping_def swap_stage_def del: fun_upd_apply)
  ultimately show ?thesis by (simp add: swapping_def)
qed

lemma means_lock: "means h B s f \<Longrightarrow> means h B s (f([lock_file] \<mapsto> File []))"
  unfolding means_def
proof (elim disjE exE conjE)
  assume "settled h B (fst s) (snd s) f"
  then have "settled h B (fst s) (snd s) (f([lock_file] \<mapsto> File []))" by (rule settled_update) auto
  then show "settled h B (fst s) (snd s) (f([lock_file] \<mapsto> File [])) \<or>
     (\<exists>u c N p. pending h B u c N p (f([lock_file] \<mapsto> File [])) \<and> s = (Some N, kept c p)) \<or>
     (\<exists>u M P. swapping h B u M P (f([lock_file] \<mapsto> File [])) \<and> s = (Some P, Some M))" by blast
next
  fix u c N p assume "pending h B u c N p f" and s: "s = (Some N, kept c p)"
  then have "pending h B u c N p (f([lock_file] \<mapsto> File []))" by (intro pending_update) auto
  then show "settled h B (fst s) (snd s) (f([lock_file] \<mapsto> File [])) \<or>
     (\<exists>u c N p. pending h B u c N p (f([lock_file] \<mapsto> File [])) \<and> s = (Some N, kept c p)) \<or>
     (\<exists>u M P. swapping h B u M P (f([lock_file] \<mapsto> File [])) \<and> s = (Some P, Some M))" using s by blast
next
  fix u M P assume "swapping h B u M P f" and s: "s = (Some P, Some M)"
  then show "settled h B (fst s) (snd s) (f([lock_file] \<mapsto> File [])) \<or>
     (\<exists>u c N p. pending h B u c N p (f([lock_file] \<mapsto> File [])) \<and> s = (Some N, kept c p)) \<or>
     (\<exists>u M P. swapping h B u M P (f([lock_file] \<mapsto> File [])) \<and> s = (Some P, Some M))" using swapping_lock by blast
qed

text \<open>Recovery never changes what the disk means, and settles it when it gets to its end.\<close>

lemma wp_recover_means:
  assumes fair: "fair h B" and f: "means h B s f"
    and Q: "\<And>g. settled h B (fst s) (snd s) g \<Longrightarrow> br \<or> clean g \<Longrightarrow> Q () g"
    and harm: "\<And>g. means h B s g \<Longrightarrow> harm br di E S g"
  shows "wp br di (recover h) Q E S f"
  using f unfolding means_def
proof (elim disjE exE conjE)
  assume "settled h B (fst s) (snd s) f"
  then show ?thesis
    by (rule wp_recover_settled) (use Q harm means_settled in \<open>auto simp: means_def\<close>)
next
  fix u c N p assume p: "pending h B u c N p f" and s: "s = (Some N, kept c p)"
  show ?thesis
    by (rule wp_recover_pending [OF fair p]) (use Q harm means_forward s in auto)
next
  fix u M P assume p: "swapping h B u M P f" and s: "s = (Some P, Some M)"
  have host: "host_ok h" using fair by simp
  show ?thesis
    by (rule wp_recover_swapping [OF host p]) (use Q harm means_swap_forward s in auto)
qed

lemma wp_enter_means:
  assumes fair: "fair h B" and f: "means h B s f" and Q: "\<And>g. idle br h B (fst s) (snd s) g \<Longrightarrow> Q () g"
    and harm: "\<And>g. means h B s g \<Longrightarrow> harm br di E S g"
  shows "wp br di (enter_dataset h) Q E S f"
proof -
  have host: "host_ok h" using fair by simp
  have collect: "wp br di (collect_orphan_member_content_best_effort h) Q E S g"
    if g: "settled h B (fst s) (snd s) g" "br \<or> clean g" for g
  proof (rule wp_collect_best_effort [OF host g(1)])
    show "S k" if "di" "settled h B (fst s) (snd s) k" for k
      using harm_dies [OF harm that(1)] that(2) by (simp add: means_def)
    show "Q () k" if "settled h B (fst s) (snd s) k" "br \<or> tight h (fst s) (snd s) k" "br \<or> clean g \<Longrightarrow> br \<or> clean k" for k
      using that g(2) by (intro Q) (auto simp: idle_def)
  qed
  have rest: "wp br di (then_io (recover h) (collect_orphan_member_content_best_effort h)) Q E S g"
    if g: "means h B s g" for g
    by (rule wp_then, rule wp_recover_means [OF fair g]) (rule collect harm; assumption)+
  show ?thesis
    unfolding enter_dataset_def
    by (rule wp_then, rule wp_lock_dataset [where I = "means h B s", OF means_tidy [OF f] f means_lock [OF f]])
      (erule rest harm)+
qed

section \<open>Operations\<close>

definition uuid_ok :: "ustr \<Rightarrow> bool" where
  "uuid_ok i \<longleftrightarrow> safe_segment i \<and> \<not> has_part corrupt_infix (stage_dir i) \<and> \<not> has_part corrupt_infix (swap_dir i)"

lemma idle_fresh:
  assumes "idle False h B cur prev f" "uuid_ok i"
  shows "settled h B cur prev f" "f [stage_dir i] = None" "f [swap_dir i] = None"
proof -
  have "is_transient (stage_dir i)" "is_transient (swap_dir i)"
    using assms(2) by (simp_all add: uuid_ok_def is_transient_def)
  then show "settled h B cur prev f" "f [stage_dir i] = None" "f [swap_dir i] = None"
    using assms(1) by (auto simp: idle_def clean_def)
qed

text \<open>
  What the clients of the port rely on: a dataset is a register that holds a generation and its predecessor.
  Every history of calls, each of which may be cut short at any step, is explained by that register.
\<close>

section \<open>Calls\<close>

datatype dataset_call =
    CallManifest
  | CallRead "ustr list"
  | CallReadPrevious "ustr list"
  | CallReplace bytes "dataset_member list"
  | CallIncremental change_set
  | CallPromote

datatype dataset_answer = AnsManifest manifest_data | AnsRead read_outcome | AnsCommitted commit_receipt

definition answer :: "('a \<Rightarrow> dataset_answer) \<Rightarrow> 'a sio \<Rightarrow> dataset_answer sio" where
  "answer a c = bind_io c (\<lambda>x. ret (a x))"

text \<open>A call below the lock, and the same call through the port.\<close>

fun body_of :: "host \<Rightarrow> dataset_call \<Rightarrow> dataset_answer sio" where
  "body_of h CallManifest = answer AnsManifest (current_manifest h)"
| "body_of h (CallRead ns) = answer AnsRead (read_generation h primary_dir ns)"
| "body_of h (CallReadPrevious ns) = answer AnsRead (read_generation h previous_dir ns)"
| "body_of h (CallReplace expected members) = answer AnsCommitted (commit_sync h expected members)"
| "body_of h (CallIncremental c) = answer AnsCommitted (commit_incremental_sync h c)"
| "body_of h CallPromote = answer AnsCommitted (promote_sync h)"

fun port_call :: "host \<Rightarrow> dataset_key \<Rightarrow> dataset_call \<Rightarrow> dataset_answer sio" where
  "port_call h key CallManifest = answer AnsManifest (port_read_manifest h key)"
| "port_call h key (CallRead ns) = answer AnsRead (port_read_consistent h key ns)"
| "port_call h key (CallReadPrevious ns) = answer AnsRead (port_read_previous h key ns)"
| "port_call h key (CallReplace expected members) = answer AnsCommitted (port_commit_atomic h key expected members)"
| "port_call h key (CallIncremental c) = answer AnsCommitted (port_commit_incremental h key c)"
| "port_call h key CallPromote = answer AnsCommitted (port_promote_previous h key)"

section \<open>The register of two generations\<close>

text \<open>
  The specification: a register with compare-and-swap that keeps its previous value. A call that is cut short
  (\<open>Stopped\<close>) has had its whole effect or none.
\<close>

definition new_state :: "generations \<Rightarrow> generation \<Rightarrow> generations" where
  "new_state s N = (Some N, kept (fst s) (snd s))"

fun explains ::
  "host \<Rightarrow> generations \<Rightarrow> dataset_call \<Rightarrow> (storage_error, dataset_answer) reply \<Rightarrow> generations \<Rightarrow> bool" where
  "explains h s CallManifest r s' \<longleftrightarrow>
     s' = s \<and> (r = Stopped \<or> r = Done (AnsManifest (manifest_of h (members_of (fst s)))))"
| "explains h s (CallRead ns) r s' \<longleftrightarrow> s' = s \<and> (r = Stopped \<or> r = Done (AnsRead (read_result h (fst s) ns)))"
| "explains h s (CallReadPrevious ns) r s' \<longleftrightarrow>
     s' = s \<and> (r = Stopped \<or> r = Done (AnsRead (read_result h (snd s) ns)))"
| "explains h s (CallReplace expected members) r s' \<longleftrightarrow>
     (let N = sort_key me_name members;
          ok = (expected = revision_of h (members_of (fst s)) \<and> canonical N)
      in case r of
        Done a \<Rightarrow> ok \<and> a = AnsCommitted (receipt (revision_of h N) Visible) \<and> s' = new_state s N
      | Fails e \<Rightarrow> replace_error h (fst s) expected members e \<and> s' = s
      | Stopped \<Rightarrow> s' = s \<or> ok \<and> s' = new_state s N)"
| "explains h s (CallIncremental c) r s' \<longleftrightarrow>
     (let N = merged (fst s) c; ok = acceptable h (fst s) c
      in case r of
        Done a \<Rightarrow> ok \<and> a = AnsCommitted (receipt (revision_of h N) Visible) \<and> s' = new_state s N
      | Fails e \<Rightarrow> change_error h (fst s) c e \<and> s' = s
      | Stopped \<Rightarrow> s' = s \<or> ok \<and> s' = new_state s N)"
| "explains h s CallPromote r s' \<longleftrightarrow>
     (case snd s of
        None \<Rightarrow> s' = s \<and> (r = Stopped \<or>
          r = Done (AnsCommitted (receipt (revision_of h (members_of (fst s))) Visible)))
      | Some P \<Rightarrow>
          r = Done (AnsCommitted (receipt (revision_of h P) Visible)) \<and> s' = (Some P, fst s) \<or>
          r = Stopped \<and> (s' = s \<or> s' = (Some P, fst s)))"

text \<open>The generations \<open>G\<close> in play have different revisions, and their contents lie in \<open>B\<close>.\<close>

definition known :: "generation set \<Rightarrow> generations \<Rightarrow> bool" where
  "known G s \<longleftrightarrow> set_option (fst s) \<union> set_option (snd s) \<subseteq> G \<and> (snd s \<noteq> None \<longrightarrow> fst s \<noteq> None)"

fun call_ok :: "bytes set \<Rightarrow> generation set \<Rightarrow> dataset_call \<Rightarrow> bool" where
  "call_ok B G (CallRead ns) \<longleftrightarrow> distinct ns"
| "call_ok B G (CallReadPrevious ns) \<longleftrightarrow> distinct ns"
| "call_ok B G (CallReplace expected members) \<longleftrightarrow>
     me_bytes ` set members \<subseteq> B \<and> (canonical (sort_key me_name members) \<longrightarrow> sort_key me_name members \<in> G)"
| "call_ok B G (CallIncremental c) \<longleftrightarrow>
     me_bytes ` set (ch_new c) \<subseteq> B \<and> (\<forall>cur. set_option cur \<subseteq> G \<longrightarrow> canonical (merged cur c) \<longrightarrow> merged cur c \<in> G)"
| "call_ok B G _ \<longleftrightarrow> True"

lemma explains_known:
  assumes "explains h s call r s'" "call_ok B G call" "known G s"
  shows "known G s'"
proof -
  have new: "known G (new_state s N)" if "N \<in> G" for N
    using assms(3) that by (auto simp: known_def new_state_def kept_def split: option.splits)
  show ?thesis
  proof (cases call)
    case (CallReplace expected members)
    then show ?thesis
      using assms new by (cases r) (auto simp: Let_def)
  next
    case (CallIncremental c)
    have "merged (fst s) c \<in> G" if "acceptable h (fst s) c"
      using that assms(2,3) CallIncremental by (auto simp: known_def acceptable_def)
    then show ?thesis
      using assms new CallIncremental by (cases r) (auto simp: Let_def)
  next
    case CallPromote
    then show ?thesis using assms(1,3) by (cases "fst s"; cases "snd s") (auto simp: known_def)
  qed (use assms in auto)
qed

section \<open>One call\<close>

definition explained ::
  "host \<Rightarrow> bytes set \<Rightarrow> generations \<Rightarrow> dataset_call \<Rightarrow> (storage_error, dataset_answer) reply \<Rightarrow> disk \<Rightarrow> bool" where
  "explained h B s call r g \<longleftrightarrow> (\<exists>s'. explains h s call r s' \<and> means h B s' g)"

lemma explains_stopped: "explains h s call Stopped s"
  by (cases call) (auto simp: Let_def split: option.splits)

lemma explains_replace_stopped:
  "expected = revision_of h (members_of (fst s)) \<Longrightarrow> canonical (sort_key me_name members) \<Longrightarrow>
   explains h s (CallReplace expected members) Stopped (new_state s (sort_key me_name members))"
  by (simp add: Let_def)

lemma explains_incremental_stopped:
  "acceptable h (fst s) c \<Longrightarrow> explains h s (CallIncremental c) Stopped (new_state s (merged (fst s) c))"
  by (simp add: Let_def)

lemma explained_stopped: "means h B s g \<Longrightarrow> explained h B s call Stopped g"
  unfolding explained_def using explains_stopped by blast

lemma wp_answer: "wp br di c (\<lambda>x. Q (a x)) E S f \<Longrightarrow> wp br di (answer a c) Q E S f"
  unfolding answer_def by (rule wp_bind, erule wp_mono) simp_all

lemma calm_uncommitted [simp]: "uncommitted False h B cur prev g \<longleftrightarrow> settled h B cur prev g"
  by (simp add: uncommitted_def)

lemma committed_means:
  "committed False h B u cur N prev r g \<Longrightarrow> r = receipt (revision_of h N) Visible \<and> means h B (Some N, kept cur prev) g"
  by (auto simp: committed_def receipt_def means_settled)

lemma cut_short_means:
  "cut_short False h B u cur N prev g \<Longrightarrow> means h B (cur, prev) g \<or> means h B (Some N, kept cur prev) g"
  by (auto simp: cut_short_def means_settled means_forward)

text \<open>Two different generations can be swapped when their revisions tell them apart.\<close>

definition swappable :: "host \<Rightarrow> generations \<Rightarrow> bool" where
  "swappable h s \<longleftrightarrow>
     (\<forall>P. snd s = Some P \<longrightarrow> (\<exists>M. fst s = Some M \<and> (revision_of h M = revision_of h P \<longrightarrow> M = P)))"

lemma known_swappable: "inj_on (revision_of h) G \<Longrightarrow> known G s \<Longrightarrow> swappable h s"
  by (auto simp: swappable_def known_def inj_on_def)

lemma call_ok_mono: "call_ok B G call \<Longrightarrow> call_ok B UNIV call"
  by (cases call) auto

lemma wp_body:
  assumes fair: "fair h B" and u: "uuid_ok (h_uuid h)" and swap: "call = CallPromote \<Longrightarrow> swappable h s"
    and f: "idle False h B (fst s) (snd s) f" and ok: "call_ok B UNIV call"
  shows "wp False di (body_of h call) (\<lambda>a. explained h B s call (Done a)) (\<lambda>e. explained h B s call (Fails e))
    (\<lambda>g. di \<and> explained h B s call Stopped g) f"
proof -
  have host: "host_ok h" and safe: "safe_segment (h_uuid h)" using fair u by (simp_all add: uuid_ok_def)
  note fresh = idle_fresh [OF f u]
  have m: "manifest_at h primary_dir (fst s) f" "manifest_at h previous_dir (snd s) f"
    and w: "whole h (fst s) f" "whole h (snd s) f"
    using fresh(1) by (simp_all add: settled_def settled_but_def)
  have here: "means h B s f" using fresh(1) by (simp add: means_def)
  have harm: "harm False di E (\<lambda>g. di \<and> explained h B s call Stopped g) f" for E
    using explained_stopped [OF here] by (simp add: harm_def)
  show ?thesis
  proof (cases call)
    case CallManifest
    then show ?thesis
      using w here harm
      by (simp, intro wp_answer wp_current_manifest [OF host m(1)]) (auto simp: whole_def explained_def)
  next
    case (CallRead ns)
    then show ?thesis
      using ok here harm by (simp, intro wp_answer wp_read_generation [OF host m(1) w(1)]) (auto simp: explained_def)
  next
    case (CallReadPrevious ns)
    then show ?thesis
      using ok here harm by (simp, intro wp_answer wp_read_generation [OF host m(2) w(2)]) (auto simp: explained_def)
  next
    case (CallReplace expected members)
    have bytes: "me_bytes ` set members \<subseteq> B" using ok CallReplace by simp
    show ?thesis
      unfolding CallReplace body_of.simps
    proof (rule wp_answer, rule wp_mono [OF wp_commit_sync [OF fair fresh(1,2) safe bytes]])
      fix g
      show "explained h B s (CallReplace expected members) (Done (AnsCommitted r)) g"
        if "expected = revision_of h (members_of (fst s)) \<and> canonical (sort_key me_name members) \<and>
          committed False h B (h_uuid h) (fst s) (sort_key me_name members) (snd s) r g" for r
        using that committed_means by (fastforce simp: explained_def new_state_def)
      show "explained h B s (CallReplace expected members) (Fails e) g"
        if "uncommitted False h B (fst s) (snd s) g \<and> (False \<and> benign e \<or> replace_error h (fst s) expected members e)" for e
        using that means_settled [of h B "fst s" "snd s" g] by (auto simp: explained_def)
      show "di \<and> explained h B s (CallReplace expected members) Stopped g"
        if S: "di \<and> (uncommitted False h B (fst s) (snd s) g \<or> expected = revision_of h (members_of (fst s)) \<and>
          canonical (sort_key me_name members) \<and>
          cut_short False h B (h_uuid h) (fst s) (sort_key me_name members) (snd s) g)"
      proof -
        have "means h B s g \<or> expected = revision_of h (members_of (fst s)) \<and> canonical (sort_key me_name members) \<and>
            means h B (new_state s (sort_key me_name members)) g"
          using S cut_short_means [of h B "h_uuid h" "fst s" "sort_key me_name members" "snd s" g]
          by (auto simp: means_settled [of h B "fst s" "snd s", simplified] new_state_def)
        then show ?thesis unfolding explained_def using S by (metis explains_stopped explains_replace_stopped)
      qed
    qed
  next
    case (CallIncremental c)
    have bytes: "me_bytes ` set (ch_new c) \<subseteq> B" using ok CallIncremental by simp
    show ?thesis
      unfolding CallIncremental body_of.simps
    proof (rule wp_answer, rule wp_mono [OF wp_commit_incremental [OF fair fresh(1,2) safe bytes]])
      fix g
      show "explained h B s (CallIncremental c) (Done (AnsCommitted r)) g"
        if "acceptable h (fst s) c \<and> committed False h B (h_uuid h) (fst s) (merged (fst s) c) (snd s) r g" for r
        using that committed_means by (fastforce simp: explained_def new_state_def)
      show "explained h B s (CallIncremental c) (Fails e) g"
        if "uncommitted False h B (fst s) (snd s) g \<and> (False \<and> benign e \<or> change_error h (fst s) c e)" for e
        using that means_settled [of h B "fst s" "snd s" g] by (auto simp: explained_def)
      show "di \<and> explained h B s (CallIncremental c) Stopped g"
        if S: "di \<and> (uncommitted False h B (fst s) (snd s) g \<or> acceptable h (fst s) c \<and>
          cut_short False h B (h_uuid h) (fst s) (merged (fst s) c) (snd s) g)"
      proof -
        have "means h B s g \<or> acceptable h (fst s) c \<and> means h B (new_state s (merged (fst s) c)) g"
          using S cut_short_means [of h B "h_uuid h" "fst s" "merged (fst s) c" "snd s" g]
          by (auto simp: means_settled [of h B "fst s" "snd s", simplified] new_state_def)
        then show ?thesis unfolding explained_def using S by (metis explains_stopped explains_incremental_stopped)
      qed
    qed
  next
    case CallPromote
    show ?thesis
    proof (cases "snd s")
      case None
      have "wp False di (current_manifest h) (\<lambda>current. wp False di (ret (receipt (md_revision current) Visible))
          (\<lambda>r. explained h B s CallPromote (Done (AnsCommitted r))) (\<lambda>e. explained h B s CallPromote (Fails e))
          (\<lambda>g. di \<and> explained h B s CallPromote Stopped g)) (\<lambda>e. explained h B s CallPromote (Fails e))
          (\<lambda>g. di \<and> explained h B s CallPromote Stopped g) f"
        by (rule wp_current_manifest [OF host m(1)])
          (use w here None harm CallPromote in \<open>auto simp: whole_def explained_def manifest_of_def\<close>)
      then show ?thesis
        using None harm CallPromote
        by (simp add: promote_sync_def, intro wp_answer wp_bind wp_read_manifest_at [OF host m(2)])
          (simp_all add: wp_bind)
    next
      case (Some P)
      then obtain M where M: "fst s = Some M" and apart: "revision_of h M = revision_of h P \<longrightarrow> M = P"
        using swap [OF CallPromote] by (auto simp: swappable_def)
      have s: "s = (Some M, Some P)" using M Some by (simp add: prod_eq_iff)
      have settled: "settled h B (Some M) (Some P) f" using fresh(1) M Some by simp
      from wp_promote_sync [OF host settled fresh(3) safe apart, of False di]
      show ?thesis
        unfolding CallPromote body_of.simps
        unfolding explained_def
        by (intro wp_answer)
          (erule wp_mono; auto simp: s promoted_def receipt_def
            intro: exI [of _ "(Some M, Some P)"] exI [of _ "(Some P, Some M)"] means_settled means_swap_forward)
    qed
  qed
qed

text \<open>The port answers under the lock, so it does not matter on which side of it the answer is wrapped.\<close>

lemma answer_then: "answer a (then_io c d) = then_io c (answer a d)"
  by (auto simp: answer_def then_io_def bind_io_def fun_eq_iff split: prod.splits reply.splits)

lemma answer_within: "answer a (within d c) = within d (answer a c)"
  by (auto simp: answer_def within_def bind_io_def ret_def fun_eq_iff split: prod.splits reply.splits)

lemma answer_locked: "answer a (locked h key c) = locked h key (answer a c)"
  by (simp add: locked_def answer_then answer_within)

lemma port_call_locked: "port_call h key call = locked h key (body_of h call)"
  by (cases call) (simp_all add: answer_locked port_read_manifest_def port_read_consistent_def port_read_previous_def
    port_commit_atomic_def port_commit_incremental_def port_promote_previous_def)

theorem wp_call:
  assumes fair: "fair h B" and u: "uuid_ok (h_uuid h)" and apart: "inj_on (revision_of h) G"
    and f: "located key (means h B s) f" and ok: "call_ok B G call" and known: "known G s"
  shows "wp False di (port_call h key call) (\<lambda>a. within_key key f (explained h B s call (Done a)))
    (\<lambda>e. within_key key f (explained h B s call (Fails e))) (within_key key f (\<lambda>g. di \<and> explained h B s call Stopped g)) f"
  unfolding port_call_locked
proof (rule wp_locked)
  have harm: "harm False di E (\<lambda>g. di \<and> explained h B s call Stopped g) g" if "means h B s g" for E g
    using explained_stopped [OF that] by (simp add: harm_def)
  have here: "means h B s (sub_at (dataset_rel key) f)" using f by (simp add: located_def)
  show "can_make (dataset_rel key) f" using f by (simp add: located_def)
  show "harm False di (\<lambda>e. explained h B s call (Fails e)) (\<lambda>g. di \<and> explained h B s call Stopped g) (sub_at (dataset_rel key) f)"
    using here by (rule harm)
  show "wp False di (then_io (enter_dataset h) (body_of h call)) (\<lambda>a. explained h B s call (Done a))
    (\<lambda>e. explained h B s call (Fails e)) (\<lambda>g. di \<and> explained h B s call Stopped g) (sub_at (dataset_rel key) f)"
    by (rule wp_then, rule wp_enter_means [OF fair here]) (rule wp_body [OF fair u known_swappable [OF apart known] _ call_ok_mono [OF ok]] harm; assumption)+
qed

end
