(* ===== verification/Crash.thy ===== *)
theory Crash
  imports Disk_Logic
begin

text \<open>
  Two contracts of programs on a disk. \<open>resumable\<close>: a recovery that can be cut short at every step, run again,
  and finishes once nothing is in its way. \<open>atomic_calls\<close>: calls that the steps of a specification explain, one
  by one, and hence history by history.
\<close>

section \<open>Recovery\<close>

text \<open>The tree that a list of attempts leaves, one after the other, each with its own fates.\<close>

fun attempts :: "('e, 'a) io \<Rightarrow> fate list list \<Rightarrow> tree \<Rightarrow> tree" where
  "attempts c [] t = t"
| "attempts c (fs # fss) t = attempts c fss (m_tree (snd (c \<lparr>m_tree = t, m_fates = fs\<rparr>)))"

definition run_on :: "('e, 'a) io \<Rightarrow> fate list \<Rightarrow> tree \<Rightarrow> ('e, 'a) reply \<times> tree" where
  "run_on c fs t = (case c \<lparr>m_tree = t, m_fates = fs\<rparr> of (r, m) \<Rightarrow> (r, m_tree m))"

lemma wp_run_on:
  assumes "wp br di c Q E S (look t)" "sound t" "allowed br di fs" "run_on c fs t = (r, t')"
  shows "sound t' \<and> (case r of Done x \<Rightarrow> Q x (look t') | Fails e \<Rightarrow> E e (look t') | Stopped \<Rightarrow> S (look t'))"
proof -
  obtain m where m: "c \<lparr>m_tree = t, m_fates = fs\<rparr> = (r, m)" "t' = m_tree m"
    using assms(4) by (auto simp: run_on_def split: prod.splits)
  from wpD [OF assms(1), of "\<lparr>m_tree = t, m_fates = fs\<rparr>"] show ?thesis
    unfolding m(2) using assms(2,3) by (simp add: m(1))
qed

lemma attempts_Cons: "attempts c (fs # fss) t = attempts c fss (snd (run_on c fs t))"
  by (simp add: run_on_def split: prod.splits)

locale resumable =
  fixes recovery :: "('e, 'a) io" and valid :: "'s \<Rightarrow> disk \<Rightarrow> bool" and final :: "'s \<Rightarrow> disk \<Rightarrow> bool"
  assumes resumes: "valid s f \<Longrightarrow> wp True True recovery (\<lambda>_. valid s) (\<lambda>_. valid s) (valid s) f"
    and completes: "valid s f \<Longrightarrow> wp False False recovery (\<lambda>_. final s) (\<lambda>_ _. False) (\<lambda>_. False) f"
begin

lemma attempts_valid:
  assumes "sound t" "valid s (look t)" "\<forall>fs \<in> set fss. allowed True True fs"
  shows "sound (attempts recovery fss t) \<and> valid s (look (attempts recovery fss t))"
  using assms
proof (induction fss arbitrary: t)
  case (Cons fs fss)
  obtain r t' where run: "run_on recovery fs t = (r, t')" by fastforce
  have "sound t' \<and> valid s (look t')"
    using wp_run_on [OF resumes [OF Cons.prems(2)] Cons.prems(1) _ run] Cons.prems(3) by (cases r) auto
  then show ?case using Cons by (simp add: attempts_Cons run del: attempts.simps)
qed simp

lemma attempt_completes:
  assumes "sound t" "valid s (look t)" "\<forall>fs \<in> set fss. allowed True True fs" "\<forall>x \<in> set fs. x = Goes"
  shows "\<exists>x t'. run_on recovery fs (attempts recovery fss t) = (Done x, t') \<and> sound t' \<and> final s (look t')"
proof -
  obtain r t' where run: "run_on recovery fs (attempts recovery fss t) = (r, t')" by fastforce
  have "allowed False False fs" using assms(4) by (auto simp: allowed_def)
  with attempts_valid [OF assms(1-3)] wp_run_on [OF completes _ _ run] show ?thesis
    by (cases r) (use run in auto)
qed

end

section \<open>Histories\<close>

text \<open>Calls one after the other, each with its fates; and what a specification has to say of their replies.\<close>

fun history :: "('c \<Rightarrow> ('e, 'a) io) \<Rightarrow> ('c \<times> fate list) list \<Rightarrow> tree \<Rightarrow> ('e, 'a) reply list \<times> tree" where
  "history serve [] t = ([], t)"
| "history serve ((c, fs) # cs) t =
     (case run_on (serve c) fs t of (r, t') \<Rightarrow> case history serve cs t' of (rs, t'') \<Rightarrow> (r # rs, t''))"

fun explains_history ::
  "('s \<Rightarrow> 'c \<Rightarrow> ('e, 'a) reply \<Rightarrow> 's \<Rightarrow> bool) \<Rightarrow> 's \<Rightarrow> 'c list \<Rightarrow> ('e, 'a) reply list \<Rightarrow> 's \<Rightarrow> bool" where
  "explains_history moves s [] [] s' \<longleftrightarrow> s' = s"
| "explains_history moves s (c # cs) (r # rs) s'' \<longleftrightarrow> (\<exists>s'. moves s c r s' \<and> explains_history moves s' cs rs s'')"
| "explains_history moves s _ _ _ \<longleftrightarrow> False"

locale atomic_calls =
  fixes serve :: "'c \<Rightarrow> ('e, 'a) io" and moves :: "'s \<Rightarrow> 'c \<Rightarrow> ('e, 'a) reply \<Rightarrow> 's \<Rightarrow> bool"
    and shows_state :: "'s \<Rightarrow> disk \<Rightarrow> bool" and fine :: "'c \<Rightarrow> bool"
  assumes served: "shows_state s f \<Longrightarrow> fine c \<Longrightarrow>
    wp False True (serve c) (\<lambda>a g. \<exists>s'. moves s c (Done a) s' \<and> shows_state s' g)
      (\<lambda>e g. \<exists>s'. moves s c (Fails e) s' \<and> shows_state s' g) (\<lambda>g. \<exists>s'. moves s c Stopped s' \<and> shows_state s' g) f"
begin

lemma histories_explained:
  assumes "sound t" "shows_state s (look t)" "\<forall>(c, fs) \<in> set cs. fine c \<and> allowed False True fs"
    "history serve cs t = (rs, t')"
  shows "sound t' \<and> (\<exists>s'. explains_history moves s (map fst cs) rs s' \<and> shows_state s' (look t'))"
  using assms
proof (induction cs arbitrary: t s rs)
  case (Cons x cs)
  obtain c fs where x: "x = (c, fs)" by fastforce
  obtain r t1 where run: "run_on (serve c) fs t = (r, t1)" by fastforce
  obtain rs1 where rest: "history serve cs t1 = (rs1, t')" "rs = r # rs1"
    using Cons.prems(4) by (auto simp: x run split: prod.splits)
  have "fine c" "allowed False True fs" using Cons.prems(3) x by auto
  with wp_run_on [OF served [OF Cons.prems(2)] Cons.prems(1) _ run]
  obtain s1 where s1: "sound t1" "moves s c r s1" "shows_state s1 (look t1)" by (cases r) auto
  from Cons.IH [OF s1(1,3) _ rest(1)] Cons.prems(3) s1(2) show ?case by (auto simp: x rest(2))
qed simp

end

end
