(* ===== verification/Dataset_History.thy ===== *)
theory Dataset_History
  imports Dataset_Session Crash
begin

text \<open>
  The port as a whole: every history of calls on any datasets, by processes that may die in any of them, is a
  history of one register per dataset; and the recovery that opens each call can itself be cut short.
\<close>

section \<open>Fresh identifiers\<close>

text \<open>Every call has an identifier of its own, and only the names of its transaction depend on it.\<close>

definition with_uuid :: "ustr \<Rightarrow> host \<Rightarrow> host" where
  "with_uuid i h = h\<lparr>h_uuid := i\<rparr>"

lemma with_uuid_parts [simp]:
  "h_sha256 (with_uuid i h) = h_sha256 h" "h_encode_manifest (with_uuid i h) = h_encode_manifest h"
  "h_decode_manifest (with_uuid i h) = h_decode_manifest h" "h_encode_journal (with_uuid i h) = h_encode_journal h"
  "h_decode_journal (with_uuid i h) = h_decode_journal h" "h_uuid (with_uuid i h) = i"
  by (simp_all add: with_uuid_def)

lemma with_uuid_digests [simp]:
  "digest_bytes (with_uuid i h) = digest_bytes h" "revision_member_digest (with_uuid i h) = revision_member_digest h"
  "revision_member_digest_hex (with_uuid i h) = revision_member_digest_hex h"
  "from_member_digests (with_uuid i h) = from_member_digests h"
  by (simp_all add: fun_eq_iff digest_bytes_def revision_member_digest_def revision_member_digest_hex_def
    from_member_digests_def)

lemma with_uuid_members [simp]:
  "member_evidence_of (with_uuid i h) = member_evidence_of h" "new_journal_member (with_uuid i h) = new_journal_member h"
  "matches_bytes (with_uuid i h) = matches_bytes h"
  by (simp_all add: fun_eq_iff member_evidence_of_def new_journal_member_def matches_bytes_def)

lemma with_uuid_revision [simp]: "revision_of (with_uuid i h) = revision_of h"
  by (simp add: fun_eq_iff revision_of_def from_canonical_members_def)

lemma with_uuid_records [simp]:
  "record_of (with_uuid i h) = record_of h" "journal_of (with_uuid i h) = journal_of h"
  "promote_journal_of (with_uuid i h) = promote_journal_of h" "manifest_of (with_uuid i h) = manifest_of h"
  "read_result (with_uuid i h) = read_result h"
  by (simp_all add: fun_eq_iff record_of_def journal_of_def promote_journal_of_def manifest_of_def read_result_def
    split: option.splits)

lemma with_uuid_disk [simp]:
  "manifest_at (with_uuid i h) = manifest_at h" "contents (with_uuid i h) = contents h"
  "store_ok (with_uuid i h) = store_ok h" "whole (with_uuid i h) = whole h" "staged (with_uuid i h) = staged h"
  by (simp_all add: fun_eq_iff manifest_at_def contents_def store_ok_def whole_def staged_def)

lemma with_uuid_states [simp]:
  "settled (with_uuid i h) = settled h" "keeping (with_uuid i h) = keeping h"
  "journal_there (with_uuid i h) = journal_there h" "holds (with_uuid i h) = holds h"
  by (simp_all add: fun_eq_iff settled_def settled_but_def keeping_def journal_there_def holds_def)

lemma with_uuid_swapping [simp]:
  "swap_base (with_uuid i h) = swap_base h" "swap_stage (with_uuid i h) = swap_stage h"
  by (simp_all only: fun_eq_iff swap_base_def swap_stage_def with_uuid_parts with_uuid_records with_uuid_disk
    with_uuid_states with_uuid_revision simp_thms)

lemma with_uuid_pending [simp]: "pending (with_uuid i h) = pending h" "swapping (with_uuid i h) = swapping h"
  by (simp_all only: fun_eq_iff pending_def swapping_def with_uuid_parts with_uuid_disk with_uuid_states
    with_uuid_swapping simp_thms)

lemma with_uuid_means [simp]: "means (with_uuid i h) = means h" "fair (with_uuid i h) = fair h"
  by (simp_all only: fun_eq_iff means_def fair_def host_ok_def with_uuid_parts with_uuid_digests with_uuid_states
    with_uuid_pending simp_thms)

lemma with_uuid_errors [simp]:
  "reusable (with_uuid i h) = reusable h" "acceptable (with_uuid i h) = acceptable h"
  "replace_error (with_uuid i h) = replace_error h" "change_error (with_uuid i h) = change_error h"
  by (simp_all add: fun_eq_iff reusable_def acceptable_def replace_error_def change_error_def)

lemma with_uuid_explains [simp]: "explains (with_uuid i h) s call r s' \<longleftrightarrow> explains h s call r s'"
  by (cases call) (simp_all add: Let_def split: reply.splits option.splits)

lemma with_uuid_explained [simp]: "explained (with_uuid i h) = explained h"
  by (simp add: fun_eq_iff explained_def)

section \<open>Many datasets\<close>

record request =
  rq_key :: dataset_key
  rq_uuid :: ustr
  rq_call :: dataset_call

definition serve :: "host \<Rightarrow> request \<Rightarrow> dataset_answer sio" where
  "serve h q = port_call (with_uuid (rq_uuid q) h) (rq_key q) (rq_call q)"

text \<open>The specification of the store: a register for every key, and a request moves the one it names.\<close>

type_synonym registers = "dataset_key \<Rightarrow> generations"

definition register_step ::
  "host \<Rightarrow> registers \<Rightarrow> request \<Rightarrow> (storage_error, dataset_answer) reply \<Rightarrow> registers \<Rightarrow> bool" where
  "register_step h s q r s' \<longleftrightarrow>
     (\<exists>x. explains h (s (rq_key q)) (rq_call q) r x \<and> s' = s(rq_key q := x))"

text \<open>No dataset lies in the directory of another one.\<close>

definition independent :: "dataset_key set \<Rightarrow> bool" where
  "independent K \<longleftrightarrow> (\<forall>k \<in> K. \<forall>k' \<in> K. k \<noteq> k' \<longrightarrow> \<not> under (dataset_rel k) (dataset_rel k'))"

definition holds_registers ::
  "host \<Rightarrow> bytes set \<Rightarrow> generation set \<Rightarrow> dataset_key set \<Rightarrow> registers \<Rightarrow> disk \<Rightarrow> bool" where
  "holds_registers h B G K s f \<longleftrightarrow>
     fair h B \<and> inj_on (revision_of h) G \<and> independent K \<and>
     (\<forall>k \<in> K. known G (s k) \<and> located k (means h B (s k)) f)"

definition request_ok :: "bytes set \<Rightarrow> generation set \<Rightarrow> dataset_key set \<Rightarrow> request \<Rightarrow> bool" where
  "request_ok B G K q \<longleftrightarrow> rq_key q \<in> K \<and> uuid_ok (rq_uuid q) \<and> call_ok B G (rq_call q)"

lemma located_elsewhere:
  assumes "located k' P f" "within_key k f R g" "\<not> under (dataset_rel k) (dataset_rel k')"
    "\<not> under (dataset_rel k') (dataset_rel k)"
  shows "located k' P g"
proof -
  have away: "apart (dataset_rel k) f g" and make: "can_make (dataset_rel k) g"
    using assms(2) by (simp_all add: within_key_def located_def)
  have "g q \<noteq> Some (File b)" if q: "under q (dataset_rel k')" for q b
  proof (cases "under q (dataset_rel k)")
    case True
    then show ?thesis using make by (simp add: can_make_def)
  next
    case False
    moreover have "\<not> under (dataset_rel k) q" using q assms(3) under_trans by blast
    ultimately have "g q = f q" using away by (simp add: apart_def)
    then show ?thesis using assms(1) q by (simp add: located_def can_make_def)
  qed
  then have "can_make (dataset_rel k') g" by (simp add: can_make_def)
  moreover have "sub_at (dataset_rel k') g = sub_at (dataset_rel k') f"
    using away assms(3,4) by (intro apart_sub)
  ultimately show ?thesis using assms(1) by (simp add: located_def)
qed

lemma holds_registers_step:
  assumes reg: "holds_registers h B G K s f" and ok: "request_ok B G K q"
    and run: "within_key (rq_key q) f (explained h B (s (rq_key q)) (rq_call q) r) g"
  shows "\<exists>s'. register_step h s q r s' \<and> holds_registers h B G K s' g"
proof -
  let ?k = "rq_key q"
  obtain x where x: "explains h (s ?k) (rq_call q) r x" "located ?k (means h B x) g"
    using run by (auto simp: within_key_def located_def explained_def)
  have K: "?k \<in> K" "call_ok B G (rq_call q)" using ok by (simp_all add: request_ok_def)
  have "known G x" using explains_known [OF x(1) K(2)] reg K(1) by (simp add: holds_registers_def)
  moreover have "located k (means h B (s k)) g" if "k \<in> K" "k \<noteq> ?k" for k
    using reg that K(1) by (intro located_elsewhere [OF _ run]) (auto simp: holds_registers_def independent_def)
  ultimately have "holds_registers h B G K (s(?k := x)) g"
    using reg x(2) by (auto simp: holds_registers_def)
  then show ?thesis using x(1) unfolding register_step_def by blast
qed

interpretation ports: atomic_calls "serve h" "register_step h" "holds_registers h B G K" "request_ok B G K" for h B G K
proof
  fix s f q assume reg: "holds_registers h B G K s f" and ok: "request_ok B G K q"
  let ?h = "with_uuid (rq_uuid q) h"
  have K: "rq_key q \<in> K" "uuid_ok (h_uuid ?h)" "call_ok B G (rq_call q)" using ok by (simp_all add: request_ok_def)
  have fair: "fair ?h B" "inj_on (revision_of ?h) G" using reg by (simp_all add: holds_registers_def)
  have here: "located (rq_key q) (means ?h B (s (rq_key q))) f" "known G (s (rq_key q))"
    using reg K(1) by (simp_all add: holds_registers_def)
  show "wp False True (serve h q) (\<lambda>a g. \<exists>s'. register_step h s q (Done a) s' \<and> holds_registers h B G K s' g)
      (\<lambda>e g. \<exists>s'. register_step h s q (Fails e) s' \<and> holds_registers h B G K s' g)
      (\<lambda>g. \<exists>s'. register_step h s q Stopped s' \<and> holds_registers h B G K s' g) f"
    unfolding serve_def
    by (rule wp_mono [OF wp_call [OF fair(1) K(2) fair(2) here(1) K(3) here(2)]])
      (use holds_registers_step [OF reg ok] in simp_all)
qed

section \<open>Recovery after recovery\<close>

interpretation reopening: resumable "enter_dataset h" "\<lambda>s f. fair h B \<and> means h B s f"
    "\<lambda>s f. settled h B (fst s) (snd s) f \<and> tight h (fst s) (snd s) f \<and> clean f" for h B
proof
  fix s f assume f: "fair h B \<and> means h B s f"
  then have idle: "means h B s g" if "idle br h B (fst s) (snd s) g" for br g
    using that by (simp add: idle_def means_def)
  show "wp True True (enter_dataset h) (\<lambda>_ f. fair h B \<and> means h B s f) (\<lambda>_ f. fair h B \<and> means h B s f)
      (\<lambda>f. fair h B \<and> means h B s f) f"
    by (rule wp_enter_means) (use f idle in \<open>auto simp: harm_def\<close>)
  show "wp False False (enter_dataset h)
      (\<lambda>_ f. settled h B (fst s) (snd s) f \<and> tight h (fst s) (snd s) f \<and> clean f) (\<lambda>_ _. False) (\<lambda>_. False) f"
    by (rule wp_enter_means) (use f in \<open>auto simp: harm_def idle_def\<close>)
qed

text \<open>
  One operation under the lock, run with the fates of its calls: what it answers, and what recovery makes of a
  disk. The barrier, and what the bytes under a revision determine.
\<close>

section \<open>A call under the lock\<close>

text \<open>The recovery and the operation proper, on the directory of the dataset.\<close>

definition session :: "host \<Rightarrow> 'a sio \<Rightarrow> 'a sio" where
  "session h c = then_io (enter_dataset h) c"

definition calm :: "fate list \<Rightarrow> bool" where
  "calm fs \<longleftrightarrow> (\<forall>x \<in> set fs. x = Goes)"

lemma calm_allowed: "calm fs \<Longrightarrow> allowed br di fs"
  by (auto simp: calm_def allowed_def)

lemma run_body:
  assumes fair: "fair h B" and u: "uuid_ok (h_uuid h)" and swap: "call = CallPromote \<Longrightarrow> swappable h s"
    and here: "means h B s (look t)" and ok: "call_ok B UNIV call"
    and run: "sound t" "allowed False di fs" "run_on (session h (body_of h call)) fs t = (r, t')"
  shows "sound t' \<and> explained h B s call r (look t') \<and> (r = Stopped \<longrightarrow> di)"
proof -
  have harm: "harm False di E (\<lambda>g. di \<and> explained h B s call Stopped g) g" if "means h B s g" for E g
    using explained_stopped [OF that] by (simp add: harm_def)
  have "wp False di (session h (body_of h call)) (\<lambda>a. explained h B s call (Done a))
      (\<lambda>e. explained h B s call (Fails e)) (\<lambda>g. di \<and> explained h B s call Stopped g) (look t)"
    unfolding session_def
    by (rule wp_then, rule wp_enter_means [OF fair here])
      (rule wp_body [OF fair u swap _ ok] harm; assumption)+
  from wp_run_on [OF this run] show ?thesis by (cases r) auto
qed

lemma recovered:
  assumes "fair h B" "means h B s (look t)" "sound t" "\<forall>fs \<in> set fss. allowed True True fs" "calm gs"
  shows "\<exists>t'. run_on (enter_dataset h) gs (attempts (enter_dataset h) fss t) = (Done (), t') \<and> sound t' \<and>
    settled h B (fst s) (snd s) (look t') \<and> tight h (fst s) (snd s) (look t') \<and> clean (look t')"
  using reopening.attempt_completes [of t h B s fss gs] assms by (simp add: calm_def)

lemma run_on_answer:
  "run_on c fs t = (r, t') \<Longrightarrow> run_on (answer a c) fs t = (map_reply id a r, t')"
  by (auto simp: run_on_def answer_def bind_io_def ret_def split: prod.splits reply.splits)

lemma recovered_canonical:
  assumes "fair h B" "means h B s (look t)" "sound t"
  shows "(fst s = Some M \<longrightarrow> canonical M) \<and> (snd s = Some M \<longrightarrow> canonical M)"
  using recovered [OF assms, of "[]" "[]"] by (auto simp: calm_def settled_def settled_but_def whole_def)

lemma settled_referenced:
  assumes "settled h B cur prev f" "d \<in> set (referenced h cur prev)"
  shows "f [members_dir, d] \<noteq> None"
  using assms by (auto simp: settled_def settled_but_def whole_def contents_def referenced_def members_of_def
    split: option.splits)

text \<open>
  The disks that the life of one dataset leaves: calls that may die, none of whose own calls of the file system
  reports an error, and openings that may die or break, from an empty directory on.
\<close>

inductive left_behind :: "host \<Rightarrow> bytes set \<Rightarrow> generation set \<Rightarrow> tree \<Rightarrow> bool" for h B G where
  empty: "left_behind h B G []"
| called: "left_behind h B G t \<Longrightarrow> uuid_ok u \<Longrightarrow> call_ok B G call \<Longrightarrow> allowed False True fs \<Longrightarrow>
    run_on (session (with_uuid u h) (body_of (with_uuid u h) call)) fs t = (r, t') \<Longrightarrow> left_behind h B G t'"
| opened: "left_behind h B G t \<Longrightarrow> allowed True True fs \<Longrightarrow>
    run_on (enter_dataset (with_uuid u h)) fs t = (r, t') \<Longrightarrow> left_behind h B G t'"

lemma left_behind_means:
  assumes "left_behind h B G t" "fair h B" "inj_on (revision_of h) G"
  shows "sound t \<and> (\<exists>s. known G s \<and> means h B s (look t))"
  using assms
proof (induction rule: left_behind.induct)
  case empty
  have "means h B (None, None) (look [])"
    by (simp add: means_def settled_def settled_but_def tidy_def store_ok_def manifest_at_def whole_def look_def)
  moreover have "sound []" "known G (None, None)" by (simp_all add: sound_def good_def look_def known_def)
  ultimately show ?case by blast
next
  case (called t u call fs r t')
  then obtain s where s: "sound t" "known G s" "means h B s (look t)" by blast
  have "sound t' \<and> explained h B s call r (look t')"
    using run_body [of "with_uuid u h" B call s t False] run_body [of "with_uuid u h" B call s t True fs r t']
      called.prems called.hyps s known_swappable [of "with_uuid u h" G s] call_ok_mono [of B G call] by simp
  then obtain x where "sound t'" "explains h s call r x" "means h B x (look t')" unfolding explained_def by blast
  then show ?case using explains_known [OF _ called.hyps(3) s(2)] by blast
next
  case (opened t fs u r t')
  then obtain s where s: "sound t" "known G s" "means h B s (look t)" by blast
  have "attempts (enter_dataset (with_uuid u h)) [fs] t = t'"
    using opened.hyps(3) by (simp add: run_on_def split: prod.splits)
  then have "sound t' \<and> means h B s (look t')"
    using reopening.attempts_valid [of t "with_uuid u h" B s "[fs]"] s opened.prems(1) opened.hyps(2) by simp
  then show ?case using s(2) by blast
qed

text \<open>The same for the operation itself: what a call answers is its result.\<close>

lemma run_call:
  assumes "fair h B" "uuid_ok (h_uuid h)" "call = CallPromote \<Longrightarrow> swappable h s" "means h B s (look t)"
    "call_ok B UNIV call" "sound t" "allowed False di fs" "body_of h call = answer a c"
    "run_on (session h c) fs t = (r, t')"
  shows "sound t' \<and> explained h B s call (map_reply id a r) (look t') \<and> (r = Stopped \<longrightarrow> di)"
  using run_body [OF assms(1-7)] run_on_answer [OF assms(9), of a] assms(8)
  by (simp add: session_def answer_then)

lemma run_reading:
  assumes "fair h B" "uuid_ok (h_uuid h)" "sound t" "means h B s (look t)" "calm fs" "call_ok B UNIV call"
    "body_of h call = answer AnsRead c" "\<And>r s'. explains h s call r s' \<Longrightarrow> s' = s \<and> (r = Stopped \<or> r = Done (AnsRead x))"
    "run_on (session h c) fs t = (r, t')" "call \<noteq> CallPromote"
  shows "r = Done x \<and> sound t' \<and> means h B s (look t')"
proof -
  have "sound t' \<and> explained h B s call (map_reply id AnsRead r) (look t') \<and> (r = Stopped \<longrightarrow> False)"
    by (rule run_call [OF assms(1,2) _ assms(4,6,3) calm_allowed [OF assms(5)] assms(7,9)]) (use assms(10) in simp)
  then show ?thesis using assms(8) by (cases r) (fastforce simp: explained_def)+
qed

lemma run_read:
  assumes "fair h B" "uuid_ok (h_uuid h)" "sound t" "means h B s (look t)" "calm fs" "distinct ns"
    "run_on (session h (read_generation h primary_dir ns)) fs t = (r, t')"
  shows "r = Done (read_result h (fst s) ns)" "sound t'" "means h B s (look t')"
  using run_reading [where call = "CallRead ns", OF assms(1-5) _ _ _ assms(7)] assms(6) by simp_all

lemma run_read_previous:
  assumes "fair h B" "uuid_ok (h_uuid h)" "sound t" "means h B s (look t)" "calm fs" "distinct ns"
    "run_on (session h (read_generation h previous_dir ns)) fs t = (r, t')"
  shows "r = Done (read_result h (snd s) ns)"
  using run_reading [where call = "CallReadPrevious ns", OF assms(1-5) _ _ _ assms(7)] assms(6) by simp_all

text \<open>A generation reads back in full.\<close>

lemma distinct_sorted_names: "distinct (map k (sort_key k xs)) \<longleftrightarrow> distinct (map k xs)"
  by (simp add: distinct_map)

lemma read_result_all:
  assumes "distinct (map me_name ms)" "N = sort_key me_name ms"
  shows "read_result h (Some N) (map me_name ms) = Found \<lparr>rd_revision = revision_of h N, rd_members = N\<rparr>"
proof -
  have "member_named N (me_name m) = Some m" if m: "m \<in> set ms" for m
  proof (cases "member_named N (me_name m)")
    case None
    then show ?thesis using m assms(2) by (simp add: member_named_None)
  next
    case (Some x)
    then show ?thesis using m assms member_named_Some [OF Some] by (auto simp: distinct_map inj_on_def)
  qed
  then have all: "map (member_named N) (map me_name ms) = map Some ms" by simp
  have "those (map Some xs) = Some xs" for xs :: generation by (induction xs) simp_all
  then have "picked N (map me_name ms) = Some ms" unfolding picked_def all .
  then show ?thesis using assms(2) by (simp add: read_result_def)
qed

lemma run_replace:
  assumes "fair h B" "uuid_ok (h_uuid h)" "me_bytes ` set members \<subseteq> B" "sound t" "means h B s (look t)"
    "allowed False di fs" "run_on (session h (commit_sync h expected members)) fs t = (r, t')"
  shows "sound t' \<and> explained h B s (CallReplace expected members) (map_reply id AnsCommitted r) (look t') \<and>
    (r = Stopped \<longrightarrow> di)"
  by (rule run_call [OF assms(1,2) _ assms(5) _ assms(4,6) _ assms(7)]) (use assms(3) in simp_all)

section \<open>The barrier\<close>

lemma marker_not_lock: "corruption_marker \<noteq> lock_file"
  by (simp add: file_names lit_def)

lemma wp_recover_barred:
  assumes "f [corruption_marker] \<noteq> None \<or> (\<exists>n. under (journal_file @ corrupt_infix) n \<and> f [n] \<noteq> None)"
    "harm br di E S f" "E corruption_marker_error f" "E corrupt_journal_barrier_error f"
  shows "wp br di (recover h) Q E S f"
proof -
  have barred: "wp br di has_corrupt_journal (\<lambda>b g. g = f \<and> b) E S f" if "f [corruption_marker] = None"
    unfolding has_corrupt_journal_def
  proof (rule wp_bind, rule wp_map_fail, rule wp_entries)
    fix ns assume ns: "set ns = {n. f ([] @ [n]) \<noteq> None}"
    then have "list_ex (under (journal_file @ corrupt_infix)) ns" using assms(1) that by (auto simp: list_ex_iff)
    then show "wp br di (ret (list_ex (under (journal_file @ corrupt_infix)) ns)) (\<lambda>b g. g = f \<and> b) E S f"
      by (intro wp_ret) simp
  qed (use assms(2) in \<open>auto simp: folder_at_def hurt_map_io\<close>)
  show ?thesis
    unfolding recover_def
    by (rule wp_bind, rule wp_exists)
      (auto intro!: wp_bind assms(2) wp_mono [OF barred] simp: assms(3,4))
qed

section \<open>The bytes under a revision\<close>

lemma length_le_bytes [simp]: "length (le_bytes k n) = k"
  by (induction k arbitrary: n) simp_all

lemma le_bytes_inj: "n < 256 ^ k \<Longrightarrow> m < 256 ^ k \<Longrightarrow> le_bytes k n = le_bytes k m \<Longrightarrow> n = m"
proof (induction k arbitrary: n m)
  case (Suc k)
  have "n div 256 = m div 256"
    by (rule Suc.IH) (use Suc.prems in \<open>simp_all add: less_mult_imp_div_less mult.commute\<close>)
  moreover have "n mod 256 = m mod 256" using Suc.prems(3) by simp
  ultimately show ?case by (metis div_mult_mod_eq)
qed simp

lemma length_le64 [simp]: "length (le64 n) = 8"
  by (simp add: le64_def)

lemma le64_inj: "n < 2 ^ 64 \<Longrightarrow> m < 2 ^ 64 \<Longrightarrow> le64 n = le64 m \<Longrightarrow> n = m"
  using le_bytes_inj [of n 8 m] by (simp add: le64_def)

definition evidence_ok :: "evidence \<Rightarrow> bool" where
  "evidence_ok e \<longleftrightarrow> length (fst e) < 2 ^ 64 \<and> fst (snd e) < 2 ^ 64 \<and> length (snd (snd e)) = 32"

lemma evidence_bytes_inj:
  assumes "evidence_ok e" "evidence_ok e'" "evidence_bytes e @ xs = evidence_bytes e' @ ys"
  shows "e = e' \<and> xs = ys"
proof -
  obtain n l d n' l' d' where e: "e = (n, l, d)" "e' = (n', l', d')" by (metis prod.exhaust)
  have eq: "le64 (length n) @ n @ le64 l @ d @ xs = le64 (length n') @ n' @ le64 l' @ d' @ ys"
    using assms(3) by (simp add: e evidence_bytes_def)
  then have "length n = length n'" using assms(1,2) by (intro le64_inj) (simp_all add: e evidence_ok_def)
  moreover from this eq have "le64 l = le64 l'" by simp
  ultimately show ?thesis using eq assms(1,2) le64_inj [of l l'] by (simp add: e evidence_ok_def)
qed

lemma evidence_list_inj:
  "\<forall>e \<in> set es \<union> set es'. evidence_ok e \<Longrightarrow> length es = length es' \<Longrightarrow>
   concat (map evidence_bytes es) = concat (map evidence_bytes es') \<Longrightarrow> es = es'"
  by (induction es es' rule: list_induct2') (auto dest: evidence_bytes_inj)

lemma revision_preimage_inj:
  assumes "sorted (map fst es)" "sorted (map fst es')" "\<forall>e \<in> set es \<union> set es'. evidence_ok e"
    "length es < 2 ^ 64" "length es' < 2 ^ 64" "revision_preimage es = revision_preimage es'"
  shows "es = es'"
proof -
  have eq: "le64 (length es) @ concat (map evidence_bytes es) = le64 (length es') @ concat (map evidence_bytes es')"
    using assms(1,2,6) by (simp add: revision_preimage_def sort_key_id_if_sorted)
  then have "length es = length es'" using assms(4,5) by (intro le64_inj) simp_all
  then show ?thesis using eq assms(3) by (intro evidence_list_inj) simp_all
qed

lemma canonical_evidence: "canonical M \<Longrightarrow> sorted (map fst (map (member_evidence_of h) M))"
  by (simp add: canonical_def member_evidence_of_def comp_def)

end
