(* ===== verification/Dataset_Demo.thy ===== *)
theory Dataset_Demo
  imports Dataset_Adapter
begin

text \<open>
  A concrete host, for the applications of the theorems to concrete disks: the last 32 bytes in place of SHA-256,
  and a codec that writes every string after its length.
\<close>

section \<open>A codec\<close>

type_synonym 'a parser = "bytes \<Rightarrow> ('a \<times> bytes) option"

definition put_str :: "ustr \<Rightarrow> bytes" where
  "put_str s = length s # s"

fun get_str :: "ustr parser" where
  "get_str [] = None"
| "get_str (n # xs) = (if n \<le> length xs then Some (take n xs, drop n xs) else None)"

definition put_list :: "('a \<Rightarrow> bytes) \<Rightarrow> 'a list \<Rightarrow> bytes" where
  "put_list f xs = length xs # concat (map f xs)"

fun get_many :: "'a parser \<Rightarrow> nat \<Rightarrow> 'a list parser" where
  "get_many g 0 xs = Some ([], xs)"
| "get_many g (Suc n) xs =
     (case g xs of
        None \<Rightarrow> None
      | Some (y, ys) \<Rightarrow> map_option (\<lambda>(zs, r). (y # zs, r)) (get_many g n ys))"

fun get_list :: "'a parser \<Rightarrow> 'a list parser" where
  "get_list g [] = None"
| "get_list g (n # xs) = get_many g n xs"

definition reads_back :: "('a \<Rightarrow> bytes) \<Rightarrow> 'a parser \<Rightarrow> bool" where
  "reads_back f g \<longleftrightarrow> (\<forall>x r. g (f x @ r) = Some (x, r))"

lemma reads_back_str: "reads_back put_str get_str"
  by (simp add: reads_back_def put_str_def)

lemma get_many_concat:
  "reads_back f g \<Longrightarrow> get_many g (length xs) (concat (map f xs) @ r) = Some (xs, r)"
  by (induction xs) (simp_all add: reads_back_def)

lemma reads_back_list: "reads_back f g \<Longrightarrow> reads_back (put_list f) (get_list g)"
  by (simp add: reads_back_def [of "put_list f"] put_list_def get_many_concat)

definition seq_parser :: "'a parser \<Rightarrow> ('a \<Rightarrow> 'b parser) \<Rightarrow> 'b parser" where
  "seq_parser g k xs = (case g xs of None \<Rightarrow> None | Some (y, ys) \<Rightarrow> k y ys)"

lemma seq_parser_back [simp]: "reads_back f g \<Longrightarrow> seq_parser g k (f x @ r) = k x r"
  by (simp add: seq_parser_def reads_back_def)

lemma seq_parser_end: "reads_back f g \<Longrightarrow> seq_parser g k (f x) = k x []"
  using seq_parser_back [of f g k x "[]"] by simp

fun get_nat :: "nat parser" where
  "get_nat [] = None"
| "get_nat (n # xs) = Some (n, xs)"

lemma seq_parser_nat [simp]: "seq_parser get_nat k (n # r) = k n r"
  by (simp add: seq_parser_def)

definition done_parser :: "'a \<Rightarrow> 'a parser" where
  "done_parser x xs = Some (x, xs)"

definition put_evidence :: "manifest_member_record \<Rightarrow> bytes" where
  "put_evidence m =
     put_str (mm_name m) @ mm_byte_len m # put_str (mm_revision_digest m) @ put_str (mm_content_digest m)"

definition get_evidence :: "manifest_member_record parser" where
  "get_evidence =
     seq_parser get_str (\<lambda>name. seq_parser get_nat (\<lambda>len. seq_parser get_str (\<lambda>rev_digest.
     seq_parser get_str (\<lambda>content. done_parser
       \<lparr>mm_name = name, mm_byte_len = len, mm_revision_digest = rev_digest, mm_content_digest = content\<rparr>))))"

lemma reads_back_evidence: "reads_back put_evidence get_evidence"
  unfolding reads_back_def put_evidence_def get_evidence_def
  by (simp add: reads_back_str done_parser_def)

definition demo_encode_manifest :: "manifest_record \<Rightarrow> bytes" where
  "demo_encode_manifest r =
     put_str (mr_revision r) @ put_list put_str (mr_members r) @ put_list put_evidence (mr_evidence r)"

definition demo_decode_manifest :: "bytes \<Rightarrow> manifest_record option" where
  "demo_decode_manifest b = map_option fst
     (seq_parser get_str (\<lambda>revision. seq_parser (get_list get_str) (\<lambda>members.
      seq_parser (get_list get_evidence) (\<lambda>evidence. done_parser
        \<lparr>mr_revision = revision, mr_members = members, mr_evidence = evidence\<rparr>))) b)"

lemma demo_manifest_back: "demo_decode_manifest (demo_encode_manifest r) = Some r"
  by (simp add: demo_decode_manifest_def demo_encode_manifest_def reads_back_str
      reads_back_list [OF reads_back_str] seq_parser_end [OF reads_back_list [OF reads_back_evidence]]
      done_parser_def)

definition put_member :: "journal_member \<Rightarrow> bytes" where
  "put_member m =
     put_str (jm_name m) @ put_str (jm_digest m) @ jm_byte_len m # put_str (jm_revision_digest m)"

definition get_member :: "journal_member parser" where
  "get_member =
     seq_parser get_str (\<lambda>name. seq_parser get_str (\<lambda>digest. seq_parser get_nat (\<lambda>len.
     seq_parser get_str (\<lambda>rev_digest. done_parser
       \<lparr>jm_name = name, jm_digest = digest, jm_byte_len = len, jm_revision_digest = rev_digest\<rparr>))))"

lemma reads_back_member: "reads_back put_member get_member"
  unfolding reads_back_def put_member_def get_member_def
  by (simp add: reads_back_str done_parser_def)

definition demo_encode_journal :: "dataset_journal \<Rightarrow> bytes" where
  "demo_encode_journal j =
     (if dj_kind j = KindCommit then 0 else 1) # (if dj_phase j = Prepared then 0 else 1) #
     put_str (dj_nonce j) @ put_str (dj_old_revision j) @ put_str (dj_new_revision j) @
     put_list put_member (dj_members j)"

definition demo_decode_journal :: "bytes \<Rightarrow> dataset_journal option" where
  "demo_decode_journal b = map_option fst
     (seq_parser get_nat (\<lambda>kind. seq_parser get_nat (\<lambda>phase.
      seq_parser get_str (\<lambda>nonce. seq_parser get_str (\<lambda>old. seq_parser get_str (\<lambda>new.
      seq_parser (get_list get_member) (\<lambda>members. done_parser
        \<lparr>dj_nonce = nonce, dj_kind = (if kind = 0 then KindCommit else KindPromotePrevious),
         dj_old_revision = old, dj_new_revision = new, dj_members = members,
         dj_phase = (if phase = 0 then Prepared else Committed)\<rparr>)))))) b)"

lemma demo_journal_back: "demo_decode_journal (demo_encode_journal j) = Some j"
  by (cases "dj_kind j"; cases "dj_phase j")
    (simp_all add: demo_decode_journal_def demo_encode_journal_def reads_back_str
      seq_parser_end [OF reads_back_list [OF reads_back_member]] done_parser_def)

section \<open>A host\<close>

definition demo_sha :: "bytes \<Rightarrow> bytes" where
  "demo_sha b = map (\<lambda>x. x mod 256) (take 32 (rev b @ replicate 32 0))"

definition demo_host :: "ustr \<Rightarrow> host" where
  "demo_host i =
     \<lparr>h_sha256 = demo_sha, h_encode_manifest = demo_encode_manifest,
      h_decode_manifest = demo_decode_manifest, h_encode_journal = demo_encode_journal,
      h_decode_journal = demo_decode_journal, h_uuid = i\<rparr>"

lemma length_demo_sha: "length (demo_sha b) = 32"
  by (simp add: demo_sha_def)

lemma demo_sha_bytes: "x \<in> set (demo_sha b) \<Longrightarrow> x < 256"
  by (auto simp: demo_sha_def)

end
