(* ===== verification/Dataset_Findings.thy ===== *)
theory Dataset_Findings
  imports Dataset_History Dataset_Demo "HOL-Library.Code_Target_Nat"
begin

text \<open>A concrete store, and the behaviours of the dataset storage that its documentation does not promise.\<close>

section \<open>A concrete store\<close>

text \<open>The names as lists of bytes, so that a run of the model does not convert them again and again.\<close>

lemma name_bytes [code]:
  "lock_file = [100, 97, 116, 97, 115, 101, 116, 46, 108, 111, 99, 107]"
  "journal_file = [106, 111, 117, 114, 110, 97, 108, 46, 106, 115, 111, 110]"
  "manifest_file = [109, 97, 110, 105, 102, 101, 115, 116, 46, 106, 115, 111, 110]"
  "blobs_dir = [98, 108, 111, 98, 115]"
  "members_dir = [109, 101, 109, 98, 101, 114, 115]"
  "primary_dir = [112, 114, 105, 109, 97, 114, 121]"
  "previous_dir = [112, 114, 101, 118, 105, 111, 117, 115]"
  "previous_next_dir = [112, 114, 101, 118, 105, 111, 117, 115, 46, 110, 101, 120, 116]"
  "corruption_marker = [99, 111, 114, 114, 117, 112, 116, 105, 111, 110, 46, 109, 97, 114, 107, 101, 114]"
  "stage_prefix = [46, 115, 116, 97, 103, 101, 45]"
  "swap_prefix = [46, 115, 119, 97, 112, 45]"
  "journal_prefix = [46, 106, 111, 117, 114, 110, 97, 108, 45]"
  "manifest_prefix = [46, 109, 97, 110, 105, 102, 101, 115, 116, 45]"
  "corrupt_infix = [46, 99, 111, 114, 114, 117, 112, 116, 46]"
  by (simp_all add: file_names lit_def)

lemma domain_bytes [code]:
  "member_bytes_domain = [97, 101, 109, 101, 97, 116, 104, 46, 115, 116, 111, 114, 97, 103, 101, 46, 100,
    97, 116, 97, 115, 101, 116, 46, 109, 101, 109, 98, 101, 114, 46, 98, 121, 116, 101, 115, 46, 118, 49, 0]"
  "revision_domain = [97, 101, 109, 101, 97, 116, 104, 46, 115, 116, 111, 114, 97, 103, 101, 46, 100, 97,
    116, 97, 115, 101, 116, 46, 114, 101, 118, 105, 115, 105, 111, 110, 46, 118, 49, 0]"
  "member_digest_domain = [97, 101, 109, 101, 97, 116, 104, 46, 115, 116, 111, 114, 97, 103, 101, 46,
    100, 97, 116, 97, 115, 101, 116, 46, 109, 101, 109, 98, 101, 114, 46, 100, 105, 103, 101, 115, 116, 46,
    118, 49, 0]"
  by (simp_all add: member_bytes_domain_def revision_domain_def member_digest_domain_def lit_def)

lemma safe_segment_bytes [code]:
  "safe_segment s \<longleftrightarrow>
     \<not> (s = [] \<or> s = [46] \<or> s = [46, 46] \<or> hd s = 46 \<or> 47 \<in> set s \<or> 92 \<in> set s \<or> 0 \<in> set s)"
  by (simp add: safe_segment_def lit_def)

definition demo_h :: host where
  "demo_h = demo_host ([117, 49])"

definition demo_member :: "nat \<Rightarrow> dataset_member" where
  "demo_member x = \<lparr>me_name = [97], me_bytes = [x]\<rparr>"

definition other_member :: "nat \<Rightarrow> dataset_member" where
  "other_member x = \<lparr>me_name = [98], me_bytes = [x]\<rparr>"

section \<open>Findings\<close>

text \<open>Two new members with the same content collide in the staging directory.\<close>

lemma finding_equal_contents_rejected:
  "fst (run_on (session demo_h (commit_sync demo_h (revision_of demo_h []) [demo_member 1, other_member 1])) [] [])
     = Fails StorageIo"
  by code_simp

text \<open>The text of a revision is sliced as characters: a damaged manifest can make a reader panic.\<close>

lemma finding_damaged_revision_panics: "decode_revision ([97, 195, 169] @ replicate 61 97) = Panic"
  by code_simp

end
