(* ===== verification/Dataset_Properties.thy ===== *)
theory Dataset_Properties
  imports Dataset_Findings
begin

text \<open>The properties of the dataset storage, each with an application to a concrete store.\<close>

section \<open>A concrete store\<close>

definition demo_B :: "bytes set" where
  "demo_B = {[1], [2]}"

definition demo_G :: "generation set" where
  "demo_G = {[demo_member 1], [demo_member 2]}"

lemma demo_fair: "fair demo_h demo_B"
proof -
  have "digest_bytes demo_h [1] \<noteq> digest_bytes demo_h [2]" by code_simp
  moreover have "host_ok demo_h"
    by (simp add: host_ok_def demo_h_def demo_host_def length_demo_sha demo_sha_bytes demo_manifest_back demo_journal_back)
  ultimately show ?thesis by (simp add: fair_def demo_B_def)
qed

lemma demo_apart: "inj_on (revision_of demo_h) demo_G"
proof -
  have "revision_of demo_h [demo_member 1] \<noteq> revision_of demo_h [demo_member 2]" by code_simp
  then show ?thesis by (auto simp: demo_G_def inj_on_def)
qed

lemma demo_uuid: "uuid_ok (h_uuid demo_h)"
  by code_simp

lemma demo_canonical: "canonical [demo_member x]" "sort_key me_name [demo_member x] = [demo_member x]"
proof -
  have "safe_segment [97]" by code_simp
  then show "canonical [demo_member x]" "sort_key me_name [demo_member x] = [demo_member x]"
    by (simp_all add: canonical_def demo_member_def)
qed

lemma empty_sound: "sound []"
  by (simp add: sound_def good_def look_def)

lemma demo_next:
  assumes "sound t" "means demo_h demo_B s (look t)" "x \<in> {1, 2}"
  shows "\<exists>t'. sound t' \<and> means demo_h demo_B (Some [demo_member x], kept (fst s) (snd s)) (look t')"
proof -
  let ?c = "commit_sync demo_h (revision_of demo_h (members_of (fst s))) [demo_member x]"
  obtain r t' where run: "run_on (session demo_h ?c) [] t = (r, t')" by fastforce
  have B: "me_bytes ` set [demo_member x] \<subseteq> demo_B" using assms(3) by (auto simp: demo_member_def demo_B_def)
  have "allowed False False []" by (simp add: allowed_def)
  from run_replace [OF demo_fair demo_uuid B assms(1,2) this run] show ?thesis
    using demo_canonical [of x]
    by (cases r) (auto simp: explained_def Let_def new_state_def replace_error_def)
qed

lemma empty_means: "means h B (None, None) (look [])"
  by (simp add: means_def settled_def settled_but_def tidy_def store_ok_def manifest_at_def whole_def look_def)

lemma demo_trees:
  obtains t1 t2 where "sound t1" "means demo_h demo_B (Some [demo_member 1], None) (look t1)"
    "sound t2" "means demo_h demo_B (Some [demo_member 2], Some [demo_member 1]) (look t2)"
proof -
  obtain t1 where t1: "sound t1" "means demo_h demo_B (Some [demo_member 1], None) (look t1)"
    using demo_next [OF empty_sound empty_means, of 1] by (auto simp: kept_def)
  obtain t2 where "sound t2" "means demo_h demo_B (Some [demo_member 2], Some [demo_member 1]) (look t2)"
    using demo_next [OF t1, of 2] by (auto simp: kept_def)
  with t1 show thesis by (rule that)
qed

lemma demo_bytes: "x \<in> {1, 2} \<Longrightarrow> me_bytes ` set [demo_member x] \<subseteq> demo_B"
  by (auto simp: demo_member_def demo_B_def)

lemma calm_Nil: "calm []"
  by (simp add: calm_def)

section \<open>Histories\<close>

text \<open>Two datasets; a commit to each, the second of which dies, then a read and a promotion.\<close>

definition demo_key :: "nat \<Rightarrow> dataset_key" where
  "demo_key x = \<lparr>dk_namespace = NsSession, dk_segments = [[x]]\<rparr>"

definition demo_requests :: "(request \<times> fate list) list" where
  "demo_requests =
     [(\<lparr>rq_key = demo_key 97, rq_uuid = [117, 49], rq_call = CallReplace (revision_of demo_h []) [demo_member 1]\<rparr>, []),
      (\<lparr>rq_key = demo_key 98, rq_uuid = [117, 50], rq_call = CallReplace (revision_of demo_h []) [demo_member 2]\<rparr>,
        replicate 40 Goes @ [Dies 0]),
      (\<lparr>rq_key = demo_key 97, rq_uuid = [117, 51], rq_call = CallRead [[97]]\<rparr>, []),
      (\<lparr>rq_key = demo_key 98, rq_uuid = [117, 52], rq_call = CallPromote\<rparr>, [])]"

lemma demo_start: "holds_registers demo_h demo_B demo_G {demo_key 97, demo_key 98} (\<lambda>_. (None, None)) (look [])"
proof -
  have "independent {demo_key 97, demo_key 98}"
    by (simp add: independent_def demo_key_def dataset_rel_def under_def)
  moreover have "located k (means demo_h demo_B (None, None)) (look [])" for k
  proof -
    have "sub_at (dataset_rel k) (look []) = look []" by (simp add: sub_at_def look_def fun_eq_iff)
    then show ?thesis using empty_means by (simp add: located_def can_make_def look_def)
  qed
  ultimately show ?thesis by (simp add: holds_registers_def demo_fair demo_apart known_def)
qed

lemma demo_requests_ok:
  "\<forall>(q, fs) \<in> set demo_requests. request_ok demo_B demo_G {demo_key 97, demo_key 98} q \<and> allowed False True fs"
proof -
  have "uuid_ok [117, 49]" "uuid_ok [117, 50]" "uuid_ok [117, 51]" "uuid_ok [117, 52]" by code_simp+
  moreover have "allowed False True (replicate 40 Goes @ [Dies 0])" "allowed False True []"
    by (auto simp: allowed_def)
  ultimately show ?thesis
    using demo_bytes [of 1] demo_bytes [of 2]
    by (simp add: demo_requests_def request_ok_def demo_canonical demo_G_def)
qed

text \<open>
  C1: Every history of the store is a history of registers. Let any datasets whose directories do not contain one
  another be used by any sequence of reads, commits, incremental commits and promotions, where each process may die
  at any point of any call: then the replies are those of one register per dataset with compare-and-swap and one
  previous value, where a call that died has had its whole effect or none. (The digests of the contents in play are
  taken to differ, and the revisions of the generations.)
\<close>

theorem dataset_histories_are_registers:
  assumes "sound t" "holds_registers h B G K s (look t)"
    "\<forall>(q, fs) \<in> set qs. request_ok B G K q \<and> allowed False True fs" "history (serve h) qs t = (rs, t')"
  shows "sound t' \<and>
    (\<exists>s'. explains_history (register_step h) s (map fst qs) rs s' \<and> holds_registers h B G K s' (look t'))"
  by (rule ports.histories_explained [OF assms])

lemma dataset_histories_are_registers_witness:
  "\<exists>rs t'. history (serve demo_h) demo_requests [] = (rs, t') \<and> sound t' \<and>
     (\<exists>s'. explains_history (register_step demo_h) (\<lambda>_. (None, None)) (map fst demo_requests) rs s' \<and>
       holds_registers demo_h demo_B demo_G {demo_key 97, demo_key 98} s' (look t'))"
proof -
  obtain rs t' where run: "history (serve demo_h) demo_requests [] = (rs, t')" by fastforce
  from dataset_histories_are_registers [OF empty_sound demo_start demo_requests_ok this] run show ?thesis by blast
qed

section \<open>Interrupted transactions\<close>

text \<open>
  C2: A commit is atomic. Let a dataset stand at a current and a previous generation, and let a commit run on
  it that may die at any of its calls, none of which reports an input or output error; let any number of
  recoveries follow, each of which may die or hit such errors at any step. Then the first undisturbed read
  (of any names, none of them twice) finds all of the old generation or all of the new one: the new one if the
  commit reported success, the old one if it reported an error. (The contents in play have different digests. Of a commit whose flush fails
  this is not true: the journal stays behind without its contents.)
\<close>

theorem interrupted_commit_is_atomic:
  assumes "fair h B" "uuid_ok (h_uuid h)" "me_bytes ` set members \<subseteq> B" "sound t" "means h B (cur, prev) (look t)"
    and run: "allowed False True fs" "run_on (session h (commit_sync h expected members)) fs t = (r, t1)"
    and again: "\<forall>fs \<in> set fss. allowed True True fs" "calm gs" "distinct ns"
  shows "\<exists>M t3. run_on (session h (read_generation h primary_dir ns)) gs (attempts (enter_dataset h) fss t1)
       = (Done (read_result h M ns), t3) \<and>
     (case r of
        Done c \<Rightarrow> M = Some (sort_key me_name members)
      | Fails e \<Rightarrow> M = cur
      | Stopped \<Rightarrow> M = cur \<or> M = Some (sort_key me_name members))"
proof -
  define t2 where "t2 = attempts (enter_dataset h) fss t1"
  let ?N = "sort_key me_name members"
  obtain s' where s': "explains h (cur, prev) (CallReplace expected members) (map_reply id AnsCommitted r) s'"
      "sound t1" "means h B s' (look t1)"
    using run_replace [OF assms(1-5) run] by (auto simp: explained_def)
  have t2: "sound t2" "means h B s' (look t2)"
    using reopening.attempts_valid [of t1 h B s' fss] assms(1) s'(2,3) again(1) by (simp_all add: t2_def)
  obtain r3 t3 where run3: "run_on (session h (read_generation h primary_dir ns)) gs t2 = (r3, t3)" by fastforce
  have "r3 = Done (read_result h (fst s') ns)"
    using run_read(1) [OF assms(1,2) t2 again(2,3) run3] .
  moreover have "case r of Done c \<Rightarrow> fst s' = Some ?N | Fails e \<Rightarrow> fst s' = cur | Stopped \<Rightarrow> fst s' = cur \<or> fst s' = Some ?N"
    using s'(1) by (cases r) (auto simp: Let_def new_state_def)
  ultimately show ?thesis using run3 t2_def by blast
qed

lemma interrupted_commit_is_atomic_witness:
  "\<exists>t r t1 M t3.
     run_on (session demo_h (commit_sync demo_h (revision_of demo_h [demo_member 1]) [demo_member 2]))
       (replicate 80 Goes @ [Dies 0]) t = (r, t1) \<and>
     run_on (session demo_h (read_generation demo_h primary_dir [[97]])) []
       (attempts (enter_dataset demo_h) [[Goes, Breaks IoOther 0, Dies 0]] t1) = (Done (read_result demo_h M [[97]]), t3) \<and>
     (r = Stopped \<longrightarrow> M = Some [demo_member 1] \<or> M = Some [demo_member 2])"
proof -
  obtain t where t: "sound t" "means demo_h demo_B (Some [demo_member 1], None) (look t)" using demo_trees by metis
  let ?c = "session demo_h (commit_sync demo_h (revision_of demo_h [demo_member 1]) [demo_member 2])"
  have fates: "allowed False True (replicate 80 Goes @ [Dies 0])"
    "\<forall>fs \<in> set [[Goes, Breaks IoOther 0, Dies 0]]. allowed True True fs"
    by (auto simp: allowed_def)
  obtain r t1 where run: "run_on ?c (replicate 80 Goes @ [Dies 0]) t = (r, t1)" by fastforce
  have B: "me_bytes ` set [demo_member 2] \<subseteq> demo_B" by (rule demo_bytes) simp
  from interrupted_commit_is_atomic [OF demo_fair demo_uuid B t fates(1) run fates(2) calm_Nil, of "[[97]]"]
  obtain M t3 where M: "run_on (session demo_h (read_generation demo_h primary_dir [[97]])) []
      (attempts (enter_dataset demo_h) [[Goes, Breaks IoOther 0, Dies 0]] t1) = (Done (read_result demo_h M [[97]]), t3)"
    and r: "case r of Done c \<Rightarrow> M = Some (sort_key me_name [demo_member 2]) | Fails e \<Rightarrow> M = Some [demo_member 1]
      | Stopped \<Rightarrow> M = Some [demo_member 1] \<or> M = Some (sort_key me_name [demo_member 2])"
    by (auto simp only: distinct.simps set_simps)
  have "r = Stopped \<longrightarrow> M = Some [demo_member 1] \<or> M = Some [demo_member 2]"
    using r unfolding demo_canonical(2) by (cases r) simp_all
  with run M show ?thesis by blast
qed

text \<open>
  C3: Recovery always completes. Take any disk that the life of one dataset can leave behind, from an empty
  directory on: reads, commits, incremental commits and promotions that may die at any of their calls, none of
  which reports an input or output error, and recoveries that may die or hit such errors at any step. However
  often recovery is then cut short in either way, an undisturbed run of it succeeds, finishes the transaction
  that was under way, leaves no residue of any transaction, and keeps in the member store exactly what the two
  generations refer to. (The digests of the contents in play differ, and the revisions of the generations. A
  disk whose journal is there while a commit has taken back its contents, because a flush failed, or whose
  contents were lost otherwise, is none of these: recovery reports it as corrupt.)
\<close>

theorem recovery_completes:
  assumes "fair h B" "inj_on (revision_of h) G" "left_behind h B G t"
    "\<forall>fs \<in> set fss. allowed True True fs" "calm gs"
  shows "\<exists>s t'. means h B s (look t) \<and>
    run_on (enter_dataset h) gs (attempts (enter_dataset h) fss t) = (Done (), t') \<and>
    settled h B (fst s) (snd s) (look t') \<and> clean (look t') \<and>
    (\<forall>d. look t' [members_dir, d] \<noteq> None \<longleftrightarrow> d \<in> set (referenced h (fst s) (snd s)))"
proof -
  obtain s where s: "sound t" "means h B s (look t)" using left_behind_means [OF assms(3,1,2)] by blast
  obtain t' where t': "run_on (enter_dataset h) gs (attempts (enter_dataset h) fss t) = (Done (), t')"
      "settled h B (fst s) (snd s) (look t')" "tight h (fst s) (snd s) (look t')" "clean (look t')"
    using recovered [OF assms(1) s(2,1) assms(4,5)] by blast
  have "look t' [members_dir, d] \<noteq> None" if "d \<in> set (referenced h (fst s) (snd s))" for d
    using settled_referenced [OF t'(2) that] .
  then have "\<forall>d. look t' [members_dir, d] \<noteq> None \<longleftrightarrow> d \<in> set (referenced h (fst s) (snd s))"
    using t'(3) by (auto simp: tight_def)
  with s t' show ?thesis by blast
qed

lemma recovery_completes_witness:
  "\<exists>r t t'. run_on (session demo_h (commit_sync demo_h (revision_of demo_h []) [demo_member 1]))
       (replicate 64 Goes @ [Dies 0]) [] = (r, t) \<and>
     run_on (enter_dataset demo_h) [Goes] (attempts (enter_dataset demo_h) [[Goes, Dies 0], [Breaks IoDenied 0]] t)
       = (Done (), t') \<and> clean (look t')"
proof -
  let ?c = "CallReplace (revision_of demo_h []) [demo_member 1]"
  obtain r t where run: "run_on (session demo_h (commit_sync demo_h (revision_of demo_h []) [demo_member 1]))
      (replicate 64 Goes @ [Dies 0]) [] = (r, t)" by fastforce
  have "run_on (session demo_h (body_of demo_h ?c)) (replicate 64 Goes @ [Dies 0]) [] = (map_reply id AnsCommitted r, t)"
    using run_on_answer [OF run, of AnsCommitted] by (simp add: session_def answer_then)
  moreover have "call_ok demo_B demo_G ?c"
    using demo_bytes [of 1] by (simp add: demo_canonical demo_G_def)
  moreover have "allowed False True (replicate 64 Goes @ [Dies 0])" by (auto simp: allowed_def)
  moreover have "with_uuid [117, 49] demo_h = demo_h" by (simp add: with_uuid_def demo_h_def demo_host_def)
  moreover have "uuid_ok [117, 49]" by code_simp
  ultimately have t: "left_behind demo_h demo_B demo_G t"
    using left_behind.called [OF left_behind.empty, of "[117, 49]" demo_B demo_G ?c "replicate 64 Goes @ [Dies 0]" demo_h] by metis
  have fates: "\<forall>fs \<in> set [[Goes, Dies 0], [Breaks IoDenied 0]]. allowed True True fs" "calm [Goes]"
    by (auto simp: allowed_def calm_def)
  from recovery_completes [OF demo_fair demo_apart t fates] run show ?thesis by blast
qed

text \<open>
  C4: What is committed is read back. An undisturbed commit of members with different names and different contents
  over the revision the dataset has succeeds with the revision of the new generation; reading then yields these
  members, in the order of their names, under that revision, and the generation before is the previous one.
\<close>

theorem commit_then_read:
  fixes members :: generation
  defines "N \<equiv> sort_key me_name members"
  assumes fair: "fair h B" and u: "uuid_ok (h_uuid h)" and new: "me_bytes ` set members \<subseteq> B" and t: "sound t" "means h B (Some M, prev) (look t)"
    and ok: "canonical N" "distinct (map me_bytes members)" and calm: "calm fs" "calm gs" "calm hs"
  shows "\<exists>t1 t2 t3.
    run_on (session h (commit_sync h (revision_of h M) members)) fs t = (Done (receipt (revision_of h N) Visible), t1) \<and>
    run_on (session h (read_generation h primary_dir (map me_name members))) gs t1
      = (Done (Found \<lparr>rd_revision = revision_of h N, rd_members = N\<rparr>), t2) \<and>
    run_on (session h (read_generation h previous_dir (map me_name M))) hs t2
      = (Done (Found \<lparr>rd_revision = revision_of h M, rd_members = M\<rparr>), t3)"
proof -
  obtain r t1 where run1: "run_on (session h (commit_sync h (revision_of h M) members)) fs t = (r, t1)" by fastforce
  have commit: "sound t1 \<and> explained h B (Some M, prev) (CallReplace (revision_of h M) members) (map_reply id AnsCommitted r) (look t1) \<and>
      (r = Stopped \<longrightarrow> False)"
    by (rule run_replace [OF fair u new t calm_allowed [OF calm(1)] run1])
  have r: "r = Done (receipt (revision_of h N) Visible)" "means h B (Some N, Some M) (look t1)"
    using commit ok by (cases r; auto simp: explained_def Let_def new_state_def kept_def replace_error_def members_of_def N_def)+
  have M: "canonical M" using recovered_canonical [OF fair r(2), of M] commit by simp
  obtain r2 t2 where run2: "run_on (session h (read_generation h primary_dir (map me_name members))) gs t1 = (r2, t2)" by fastforce
  have names: "distinct (map me_name members)" using ok(1) distinct_sorted_names by (auto simp: canonical_def N_def)
  have r2: "r2 = Done (read_result h (Some N) (map me_name members))" "sound t2" "means h B (Some N, Some M) (look t2)"
    using run_read [OF fair u _ r(2) calm(2) names run2] commit by simp_all
  obtain r3 t3 where run3: "run_on (session h (read_generation h previous_dir (map me_name M))) hs t2 = (r3, t3)" by fastforce
  have r3: "r3 = Done (read_result h (Some M) (map me_name M))"
    using run_read_previous [OF fair u r2(2,3) calm(3) _ run3] M by (simp add: canonical_def)
  have "read_result h (Some N) (map me_name members) = Found \<lparr>rd_revision = revision_of h N, rd_members = N\<rparr>"
    by (rule read_result_all) (use names in \<open>simp_all add: N_def\<close>)
  moreover have "read_result h (Some M) (map me_name M) = Found \<lparr>rd_revision = revision_of h M, rd_members = M\<rparr>"
    by (rule read_result_all) (use M in \<open>simp_all add: canonical_def sort_key_id_if_sorted\<close>)
  ultimately show ?thesis using run1 run2 run3 r(1) r2(1) r3 by simp
qed

lemma commit_then_read_witness:
  "\<exists>t t1 t2. run_on (session demo_h (commit_sync demo_h (revision_of demo_h [demo_member 1]) [demo_member 2])) [] t
       = (Done (receipt (revision_of demo_h [demo_member 2]) Visible), t1) \<and>
     run_on (session demo_h (read_generation demo_h primary_dir [[97]])) [] t1
       = (Done (Found \<lparr>rd_revision = revision_of demo_h [demo_member 2], rd_members = [demo_member 2]\<rparr>), t2)"
proof -
  obtain t where t: "sound t" "means demo_h demo_B (Some [demo_member 1], None) (look t)" using demo_trees by metis
  have B: "me_bytes ` set [demo_member 2] \<subseteq> demo_B" by (rule demo_bytes) simp
  have c: "canonical (sort_key me_name [demo_member 2])" unfolding demo_canonical(2) by (rule demo_canonical(1))
  have name: "map me_name [demo_member 2] = [[97]]" by (simp add: demo_member_def)
  from commit_then_read [OF demo_fair demo_uuid B t c _ calm_Nil calm_Nil calm_Nil]
  show ?thesis unfolding demo_canonical(2) name by auto
qed

text \<open>
  C5: A change set is applied or refused, and which of the two is decided by what the caller can see. An
  undisturbed incremental commit either makes the merged generation current, and then it named the current
  revision, removed members that exist, reused members as they are and left none unmentioned; or it fails with the
  error for the first of these conditions that it violates, and the generations stay (two new members with the
  same content make it fail as well).
\<close>

theorem incremental_commit_decided:
  assumes "fair h B" "uuid_ok (h_uuid h)" "me_bytes ` set (ch_new c) \<subseteq> B" "sound t" "means h B (cur, prev) (look t)"
    "calm fs"
  shows "\<exists>r t'. run_on (session h (commit_incremental_sync h c)) fs t = (r, t') \<and>
    (case r of
       Done a \<Rightarrow> a = receipt (revision_of h (merged cur c)) Visible \<and> acceptable h cur c \<and>
         means h B (Some (merged cur c), kept cur prev) (look t')
     | Fails e \<Rightarrow> change_error h cur c e \<and> means h B (cur, prev) (look t')
     | Stopped \<Rightarrow> False)"
proof -
  obtain r t' where run: "run_on (session h (commit_incremental_sync h c)) fs t = (r, t')" by fastforce
  have c: "allowed False False fs" using assms(6) by (rule calm_allowed)
  have "sound t' \<and> explained h B (cur, prev) (CallIncremental c) (map_reply id AnsCommitted r) (look t') \<and>
      (r = Stopped \<longrightarrow> False)"
    by (rule run_call [OF assms(1,2) _ assms(5) _ assms(4) c _ run]) (use assms(3) in simp_all)
  then show ?thesis using run by (cases r) (auto simp: explained_def Let_def new_state_def)
qed

lemma incremental_commit_decided_witness:
  "\<exists>t r t'. run_on (session demo_h (commit_incremental_sync demo_h
       \<lparr>ch_expected = revision_of demo_h [], ch_new = [], ch_reused = [], ch_removed = []\<rparr>)) [] t = (r, t') \<and>
     r = Fails ConcurrentWrite \<and> means demo_h demo_B (Some [demo_member 1], None) (look t')"
proof -
  let ?c = "\<lparr>ch_expected = revision_of demo_h [], ch_new = [], ch_reused = [], ch_removed = []\<rparr> :: change_set"
  obtain t where t: "sound t" "means demo_h demo_B (Some [demo_member 1], None) (look t)" using demo_trees by metis
  have stale: "revision_of demo_h [] \<noteq> revision_of demo_h [demo_member 1]" by code_simp
  have "me_bytes ` set (ch_new ?c) \<subseteq> demo_B" by simp
  from incremental_commit_decided [OF demo_fair demo_uuid this t calm_Nil] obtain r t'
    where run: "run_on (session demo_h (commit_incremental_sync demo_h ?c)) [] t = (r, t')"
      and r: "case r of
        Done a \<Rightarrow> a = receipt (revision_of demo_h (merged (Some [demo_member 1]) ?c)) Visible \<and>
          acceptable demo_h (Some [demo_member 1]) ?c \<and>
          means demo_h demo_B (Some (merged (Some [demo_member 1]) ?c), kept (Some [demo_member 1]) None) (look t')
      | Fails e \<Rightarrow> change_error demo_h (Some [demo_member 1]) ?c e \<and>
          means demo_h demo_B (Some [demo_member 1], None) (look t')
      | Stopped \<Rightarrow> False" by blast
  have "r = Fails ConcurrentWrite" "means demo_h demo_B (Some [demo_member 1], None) (look t')"
    using r stale by (cases r; simp add: acceptable_def change_error_def members_of_def)+
  with run show ?thesis by blast
qed

text \<open>
  C6: Promoting the previous generation exchanges the two generations, all or nothing. Let a dataset have both
  a current and a previous generation, of different revisions if they differ, and let a promotion run on it
  that may die at any of its calls, none of which reports an input or output error; let any number of
  recoveries follow, each of which may die or hit such errors at any step. Then the first undisturbed recovery
  ends with the two generations as they were or exchanged, and exchanged if the promotion answered; the
  promotion never reports an error. (The contents in play have different digests. Without a current
  generation a promotion that dies can be lost.)
\<close>

theorem promotion_swaps_generations:
  assumes "fair h B" "uuid_ok (h_uuid h)" "sound t" "means h B (Some M, Some P) (look t)"
    and apart: "revision_of h M = revision_of h P \<longrightarrow> M = P"
    and run: "allowed False True fs" "run_on (session h (promote_sync h)) fs t = (r, t1)"
    and again: "\<forall>fs \<in> set fss. allowed True True fs" "calm gs"
  shows "\<exists>s t2. run_on (enter_dataset h) gs (attempts (enter_dataset h) fss t1) = (Done (), t2) \<and>
    settled h B (fst s) (snd s) (look t2) \<and>
    (case r of
       Done a \<Rightarrow> a = receipt (revision_of h P) Visible \<and> s = (Some P, Some M)
     | Fails e \<Rightarrow> False
     | Stopped \<Rightarrow> s = (Some M, Some P) \<or> s = (Some P, Some M))"
proof -
  have swap: "swappable h (Some M, Some P)" using apart by (simp add: swappable_def)
  have "sound t1 \<and> explained h B (Some M, Some P) CallPromote (map_reply id AnsCommitted r) (look t1) \<and>
      (r = Stopped \<longrightarrow> True)"
    by (rule run_call [OF assms(1,2) swap assms(4) _ assms(3) run(1) _ run(2)]) simp_all
  then obtain s where s: "explains h (Some M, Some P) CallPromote (map_reply id AnsCommitted r) s"
      "sound t1" "means h B s (look t1)"
    by (auto simp: explained_def)
  obtain t2 where t2: "run_on (enter_dataset h) gs (attempts (enter_dataset h) fss t1) = (Done (), t2)"
      "settled h B (fst s) (snd s) (look t2)"
    using recovered [OF assms(1) s(3,2) again] by blast
  have "case r of Done a \<Rightarrow> a = receipt (revision_of h P) Visible \<and> s = (Some P, Some M)
      | Fails e \<Rightarrow> False | Stopped \<Rightarrow> s = (Some M, Some P) \<or> s = (Some P, Some M)"
    using s(1) by (cases r) auto
  with t2 show ?thesis by blast
qed

lemma promotion_swaps_generations_witness:
  "\<exists>t r t1 s t2. run_on (session demo_h (promote_sync demo_h)) (replicate 40 Goes @ [Dies 0]) t = (r, t1) \<and>
     run_on (enter_dataset demo_h) [] (attempts (enter_dataset demo_h) [[Goes, Dies 0]] t1) = (Done (), t2) \<and>
     settled demo_h demo_B (fst s) (snd s) (look t2) \<and>
     s \<in> {(Some [demo_member 2], Some [demo_member 1]), (Some [demo_member 1], Some [demo_member 2])}"
proof -
  obtain t where t: "sound t" "means demo_h demo_B (Some [demo_member 2], Some [demo_member 1]) (look t)"
    using demo_trees by metis
  have apart: "revision_of demo_h [demo_member 2] = revision_of demo_h [demo_member 1] \<longrightarrow> [demo_member 2] = [demo_member 1]"
    using demo_apart by (auto simp: demo_G_def inj_on_def)
  have fates: "allowed False True (replicate 40 Goes @ [Dies 0])" "\<forall>fs \<in> set [[Goes, Dies 0]]. allowed True True fs"
    by (auto simp: allowed_def)
  obtain r t1 where run: "run_on (session demo_h (promote_sync demo_h)) (replicate 40 Goes @ [Dies 0]) t = (r, t1)"
    by fastforce
  from promotion_swaps_generations [OF demo_fair demo_uuid t apart fates(1) run fates(2) calm_Nil]
  obtain s t2 where s: "run_on (enter_dataset demo_h) [] (attempts (enter_dataset demo_h) [[Goes, Dies 0]] t1) = (Done (), t2)"
      "settled demo_h demo_B (fst s) (snd s) (look t2)"
    and r: "case r of
        Done a \<Rightarrow> a = receipt (revision_of demo_h [demo_member 1]) Visible \<and> s = (Some [demo_member 1], Some [demo_member 2])
      | Fails e \<Rightarrow> False
      | Stopped \<Rightarrow> s = (Some [demo_member 2], Some [demo_member 1]) \<or> s = (Some [demo_member 1], Some [demo_member 2])"
    by blast
  have "s \<in> {(Some [demo_member 2], Some [demo_member 1]), (Some [demo_member 1], Some [demo_member 2])}"
    using r by (cases r) auto
  with run s show ?thesis by blast
qed

text \<open>
  C7: A barrier holds. While the marker of a corruption, or a journal set aside, lies in the directory of the
  dataset, every operation fails, whatever it is, even when calls break: it changes nothing but the lock file.
\<close>

theorem barrier_fails_closed:
  assumes "sound t" "allowed True True fs" "look t [lock_file] \<noteq> Some Folder"
    "look t [corruption_marker] \<noteq> None \<or> (\<exists>n. under (journal_file @ corrupt_infix) n \<and> look t [n] \<noteq> None)"
    "run_on (session h c) fs t = (r, t')"
  shows "(\<forall>x. r \<noteq> Done x) \<and> (\<forall>p. p \<noteq> [lock_file] \<longrightarrow> look t' p = look t p)"
proof -
  let ?I = "\<lambda>g. \<forall>p. p \<noteq> [lock_file] \<longrightarrow> g p = look t p"
  have harm: "harm True True (\<lambda>e. ?I) ?I g" if "?I g" for g using that by (simp add: harm_def)
  have recovery: "wp True True (recover h) (\<lambda>_ _. False) (\<lambda>e. ?I) ?I g" if g: "?I g" for g
  proof (rule wp_recover_barred)
    have "g [n] = look t [n]" if "n \<noteq> lock_file" for n using g that by simp
    then show "g [corruption_marker] \<noteq> None \<or> (\<exists>n. under (journal_file @ corrupt_infix) n \<and> g [n] \<noteq> None)"
      using assms(4) names_not_barrier(6) marker_not_lock by metis
  qed (use g harm in auto)
  have "wp True True (session h c) (\<lambda>_ _. False) (\<lambda>e. ?I) ?I (look t)"
    unfolding session_def enter_dataset_def
  proof (rule wp_then, rule wp_then, rule wp_take_lock [where I = ?I])
    show "wp True True (then_io (recover h) (collect_orphan_member_content_best_effort h))
        (\<lambda>_. wp True True c (\<lambda>_ _. False) (\<lambda>e. ?I) ?I) (\<lambda>e. ?I) ?I g" if "?I g" for g
      by (rule wp_then) (rule wp_mono [OF recovery [OF that]]; simp)
  qed (use assms(3) harm in auto)
  from wp_run_on [OF this assms(1,2,5)] show ?thesis by (cases r) auto
qed


lemma barrier_fails_closed_witness:
  "\<exists>r t'. run_on (session demo_h (promote_sync demo_h)) [Goes, Breaks IoOther 0] [([corruption_marker], File [])] = (r, t') \<and>
     (\<forall>x. r \<noteq> Done x) \<and> look t' [corruption_marker] = Some (File [])"
proof -
  let ?t = "[([corruption_marker], File [])] :: tree"
  have t: "sound ?t" "look ?t [lock_file] \<noteq> Some Folder" "look ?t [corruption_marker] = Some (File [])"
    using marker_not_lock by (auto simp: sound_def good_def look_def)
  have fates: "allowed True True [Goes, Breaks IoOther 0]" by (simp add: allowed_def)
  obtain r t' where run: "run_on (session demo_h (promote_sync demo_h)) [Goes, Breaks IoOther 0] ?t = (r, t')" by fastforce
  from barrier_fails_closed [OF t(1) fates t(2) _ run] t(3) marker_not_lock run show ?thesis by auto
qed

section \<open>Revisions\<close>

text \<open>
  Equal revisions mean equal generations, up to collisions of SHA-256. If two generations of different content
  have the same revision, then two different inputs of the hash function with the same digest can be exhibited: the
  preimages of the revisions, or those of the digests of two members.
\<close>

theorem equal_revisions_collide:
  assumes "canonical M" "canonical N" "revision_of h M = revision_of h N" "M \<noteq> N"
    "\<forall>m \<in> set M \<union> set N. length (me_name m) < 2 ^ 64 \<and> length (me_bytes m) < 2 ^ 64"
    "length M < 2 ^ 64" "length N < 2 ^ 64" "\<forall>b. length (h_sha256 h b) = 32"
  shows "\<exists>x y. x \<noteq> y \<and> h_sha256 h x = h_sha256 h y"
proof (rule ccontr)
  assume "\<not> ?thesis"
  then have inj: "x = y" if "h_sha256 h x = h_sha256 h y" for x y using that by metis
  have same: "revision_preimage (map (member_evidence_of h) M) = revision_preimage (map (member_evidence_of h) N)"
    by (rule inj) (use assms(3) in \<open>simp add: revision_of_def from_canonical_members_def from_member_digests_def\<close>)
  have "map (member_evidence_of h) M = map (member_evidence_of h) N"
  proof (intro revision_preimage_inj canonical_evidence assms(1,2))
    show "\<forall>e \<in> set (map (member_evidence_of h) M) \<union> set (map (member_evidence_of h) N). evidence_ok e"
      using assms(5,8) by (auto simp: evidence_ok_def member_evidence_of_def revision_member_digest_def)
    show "length (map (member_evidence_of h) M) < 2 ^ 64" "length (map (member_evidence_of h) N) < 2 ^ 64"
      using assms(6,7) by (simp_all only: length_map)
  qed (rule same)
  moreover have "m = n" if "member_evidence_of h m = member_evidence_of h n" for m n
  proof -
    have digest: "revision_member_digest h (me_bytes m) = revision_member_digest h (me_bytes n)"
      using that by (simp add: member_evidence_of_def)
    have "member_bytes_domain @ le64 (length (me_bytes m)) @ me_bytes m =
        member_bytes_domain @ le64 (length (me_bytes n)) @ me_bytes n"
      by (rule inj [OF digest [unfolded revision_member_digest_def]])
    then show ?thesis using that by (simp add: member_evidence_of_def)
  qed
  ultimately have "M = N" by (intro map_injective [of "member_evidence_of h"]) (auto intro: injI)
  then show False using assms(4) by simp
qed

lemma equal_revisions_collide_witness:
  "\<exists>x y. x \<noteq> y \<and> h_sha256 (demo_h\<lparr>h_sha256 := \<lambda>_. replicate 32 0\<rparr>) x = h_sha256 (demo_h\<lparr>h_sha256 := \<lambda>_. replicate 32 0\<rparr>) y"
proof (rule equal_revisions_collide [of "[demo_member 1]" "[demo_member 2]"])
  show "canonical [demo_member 1]" "canonical [demo_member 2]" by (rule demo_canonical)+
qed (simp_all add: demo_member_def revision_of_def from_canonical_members_def from_member_digests_def)

text \<open>
  The text of a revision. A revision is written as 64 hexadecimal digits, and reading them gives the revision
  back.
\<close>

theorem revision_text_round_trip:
  assumes "length b = 32" "\<forall>x \<in> set b. x < 256"
  shows "is_hex64 (encode_revision b) \<and> decode_revision (encode_revision b) = Ok b"
  using is_hex64_encode [OF assms] decode_encode_revision [OF assms] by simp

lemma revision_text_round_trip_witness:
  "is_hex64 (encode_revision (replicate 32 171)) \<and> decode_revision (encode_revision (replicate 32 171)) = Ok (replicate 32 171)"
  by (rule revision_text_round_trip) simp_all

end
