(* ===== verification/Path_Text.thy ===== *)
theory Path_Text
  imports Prelude "HOL-Library.Sublist"
begin

text \<open>
  \<open>std::path\<close> as the workspace uses it. A path is raw text (\<open>raw_path\<close>, valid Unicode); \<open>components\<close> is the
  reading Rust compares paths by: repeated slashes, trailing slashes and inner dots do not count, \<open>..\<close> does.
  \<open>from_components\<close> is the text that collecting components yields. A \<^emph>\<open>plain\<close> path is absolute and has only
  ordinary names; it is the form of every canonical path, and there text and components determine each other.
\<close>

section \<open>Text\<close>

type_synonym raw_path = ustr

abbreviation slash :: nat where "slash \<equiv> 47"
abbreviation dot :: nat where "dot \<equiv> 46"

fun split_on :: "nat \<Rightarrow> ustr \<Rightarrow> ustr list" where
  "split_on c [] = [[]]"
| "split_on c (x # xs) =
     (if x = c then [] # split_on c xs
      else (case split_on c xs of [] \<Rightarrow> [[x]] | y # ys \<Rightarrow> (x # y) # ys))"

definition trim :: "ustr \<Rightarrow> ustr" where
  "trim s = rev (dropWhile is_whitespace (rev (dropWhile is_whitespace s)))"

definition trim_matches :: "(nat \<Rightarrow> bool) \<Rightarrow> ustr \<Rightarrow> ustr" where
  "trim_matches p s = rev (dropWhile p (rev (dropWhile p s)))"

section \<open>Components\<close>

datatype component = RootDir | CurDir | ParentDir | Normal ustr

fun is_absolute :: "raw_path \<Rightarrow> bool" where
  "is_absolute [] = False"
| "is_absolute (c # _) = (c = slash)"

definition body_component :: "ustr \<Rightarrow> component option" where
  "body_component seg =
     (if seg = [] \<or> seg = [dot] then None
      else if seg = [dot, dot] then Some ParentDir
      else Some (Normal seg))"

definition components :: "raw_path \<Rightarrow> component list" where
  "components p =
     (if is_absolute p then [RootDir]
      else if hd (split_on slash p) = [dot] then [CurDir] else []) @
     List.map_filter body_component (split_on slash p)"

text \<open>\<open>==\<close> and \<open>starts_with\<close> of \<open>Path\<close>.\<close>

definition same_path :: "raw_path \<Rightarrow> raw_path \<Rightarrow> bool" where
  "same_path p q \<longleftrightarrow> components p = components q"

definition starts_with :: "raw_path \<Rightarrow> raw_path \<Rightarrow> bool" where
  "starts_with p q \<longleftrightarrow> prefix (components q) (components p)"

text \<open>\<open>join\<close>, which is \<open>push\<close> on a copy.\<close>

definition path_join :: "raw_path \<Rightarrow> raw_path \<Rightarrow> raw_path" where
  "path_join base p =
     (if is_absolute p then p
      else if base = [] \<or> last base = slash then base @ p
      else base @ slash # p)"

fun component_text :: "component \<Rightarrow> ustr" where
  "component_text RootDir = [slash]"
| "component_text CurDir = [dot]"
| "component_text ParentDir = [dot, dot]"
| "component_text (Normal n) = n"

definition from_components :: "component list \<Rightarrow> raw_path" where
  "from_components cs = foldl path_join [] (map component_text cs)"

definition file_name :: "raw_path \<Rightarrow> ustr option" where
  "file_name p =
     (case rev (components p) of Normal n # _ \<Rightarrow> Some n | _ \<Rightarrow> None)"

text \<open>\<open>parent\<close>, spelled without repeated slashes.\<close>

definition parent :: "raw_path \<Rightarrow> raw_path option" where
  "parent p =
     (let cs = components p in
      if cs = [] \<or> last cs = RootDir then None else Some (from_components (butlast cs)))"

section \<open>Plain paths\<close>

definition clean_name :: "ustr \<Rightarrow> bool" where
  "clean_name n \<longleftrightarrow> n \<noteq> [] \<and> slash \<notin> set n \<and> n \<noteq> [dot] \<and> n \<noteq> [dot, dot]"

definition abs_path :: "ustr list \<Rightarrow> raw_path" where
  "abs_path ns = from_components (RootDir # map Normal ns)"

definition plain :: "raw_path \<Rightarrow> bool" where
  "plain p \<longleftrightarrow> (\<exists>ns. list_all clean_name ns \<and> p = abs_path ns)"

lemma split_on_not_Nil [simp]: "split_on c s \<noteq> []"
  by (induction s) (auto split: list.splits)

lemma split_on_no_sep: "c \<notin> set s \<Longrightarrow> split_on c s = [s]"
  by (induction s) auto

lemma split_on_append: "c \<notin> set s \<Longrightarrow> split_on c (s @ c # t) = s # split_on c t"
  by (induction s) auto

lemma split_on_pieces: "seg \<in> set (split_on c s) \<Longrightarrow> c \<notin> set seg"
  by (induction s arbitrary: seg) (auto split: list.splits if_splits)

lemma split_on_chars: "seg \<in> set (split_on c s) \<Longrightarrow> set seg \<subseteq> set s"
  by (induction s arbitrary: seg) (auto split: list.splits if_splits, fastforce)

text \<open>The text of a component after the first: it is looked up as it is.\<close>

definition piece :: "ustr \<Rightarrow> bool" where
  "piece s \<longleftrightarrow> s \<noteq> [] \<and> slash \<notin> set s \<and> s \<noteq> [dot]"

fun body_part :: "component \<Rightarrow> bool" where
  "body_part RootDir = False"
| "body_part CurDir = False"
| "body_part ParentDir = True"
| "body_part (Normal n) = clean_name n"

definition well_formed :: "component list \<Rightarrow> bool" where
  "well_formed cs \<longleftrightarrow> (case cs of [] \<Rightarrow> True | c # cs' \<Rightarrow> (body_part c \<or> c = RootDir \<or> c = CurDir) \<and> list_all body_part cs')"

lemma piece_ends:
  assumes "piece s"
  shows "s \<noteq> [] \<and> last s \<noteq> slash \<and> \<not> is_absolute s"
proof -
  have "s \<noteq> []" "slash \<notin> set s" using assms by (simp_all add: piece_def)
  moreover from this have "last s \<noteq> slash" by (metis last_in_set)
  ultimately show ?thesis by (cases s) auto
qed

lemma clean_piece: "clean_name n \<Longrightarrow> piece n"
  by (simp add: clean_name_def piece_def)

lemma body_piece: "body_part c \<Longrightarrow> piece (component_text c) \<and> body_component (component_text c) = Some c"
  by (cases c) (auto simp: piece_def body_component_def clean_name_def)

lemma clean_name_ends: "clean_name n \<Longrightarrow> n \<noteq> [] \<and> last n \<noteq> slash"
  using clean_piece piece_ends by blast

lemma map_Normal_inject [simp]: "map Normal ns = map Normal ms \<longleftrightarrow> ns = ms"
  by (rule inj_map_eq_map) (simp add: inj_def)

lemma foldl_join_pieces:
  "list_all piece ns \<Longrightarrow> base \<noteq> [] \<Longrightarrow> last base \<noteq> slash \<Longrightarrow>
     foldl path_join base ns = base @ concat (map (\<lambda>n. slash # n) ns)"
proof (induction ns arbitrary: base)
  case (Cons n ns)
  then have "n \<noteq> []" "last n \<noteq> slash" "\<not> is_absolute n" using piece_ends by simp_all
  with Cons show ?case by (auto simp: path_join_def)
qed simp

lemma foldl_join_first:
  assumes "piece n" "list_all piece ns" "base = [] \<or> base = [slash]"
  shows "foldl path_join base (n # ns) = base @ n @ concat (map (\<lambda>n. slash # n) ns)"
proof -
  have "n \<noteq> []" "last n \<noteq> slash" "\<not> is_absolute n" using piece_ends [OF assms(1)] by simp_all
  then show ?thesis
    using foldl_join_pieces [OF assms(2), of "base @ n"] assms(3) by (auto simp: path_join_def)
qed

lemma split_pieces:
  "slash \<notin> set s \<Longrightarrow> list_all piece ns \<Longrightarrow> split_on slash (s @ concat (map (\<lambda>n. slash # n) ns)) = s # ns"
proof (induction ns arbitrary: s)
  case (Cons m ns)
  then have "slash \<notin> set m" by (simp add: piece_def)
  with Cons show ?case by (simp add: split_on_append)
qed (simp add: split_on_no_sep)

lemma body_texts:
  "list_all body_part cs \<Longrightarrow>
     list_all piece (map component_text cs) \<and> List.map_filter body_component (map component_text cs) = cs"
  using body_piece by (induction cs) (auto simp: List.map_filter_simps)

lemma components_from_components:
  assumes "well_formed cs"
  shows "components (from_components cs) = cs"
proof (cases cs)
  case (Cons c cs')
  let ?ns = "map component_text cs'"
  have body: "list_all piece ?ns" "List.map_filter body_component ?ns = cs'"
    using body_texts assms Cons by (simp_all add: well_formed_def)
  consider "c = RootDir" | "c = CurDir" | "body_part c"
    using assms Cons by (auto simp: well_formed_def)
  then show ?thesis
  proof cases
    case 1
    have "from_components cs = (if cs' = [] then [slash] else concat (map (\<lambda>n. slash # n) ?ns))"
      using foldl_join_first [of "hd ?ns" "tl ?ns" "[slash]"] body(1) Cons 1
      by (cases cs') (auto simp: from_components_def path_join_def)
    then show ?thesis
      using split_pieces [of "[]" ?ns] body Cons 1
      by (cases cs') (auto simp: components_def List.map_filter_simps body_component_def)
  next
    case 2
    then have "from_components cs = [dot] @ concat (map (\<lambda>n. slash # n) ?ns)"
      using foldl_join_pieces [of ?ns "[dot]"] body(1) Cons by (simp add: from_components_def path_join_def)
    moreover from this have "split_on slash (from_components cs) = [dot] # ?ns"
      using split_pieces [of "[dot]" ?ns] body(1) by simp
    ultimately show ?thesis
      using body(2) Cons 2 by (simp add: components_def List.map_filter_simps body_component_def)
  next
    case 3
    then have c: "piece (component_text c)" "body_component (component_text c) = Some c" using body_piece by auto
    then have "from_components cs = component_text c @ concat (map (\<lambda>n. slash # n) ?ns)"
      using foldl_join_first [of "component_text c" ?ns "[]"] body(1) Cons by (simp add: from_components_def)
    moreover from this have "split_on slash (from_components cs) = component_text c # ?ns"
      using split_pieces [of "component_text c" ?ns] body(1) c(1) by (simp add: piece_def)
    moreover have "\<not> is_absolute (component_text c @ concat (map (\<lambda>n. slash # n) ?ns))"
      using piece_ends [OF c(1)] by (cases "component_text c") auto
    ultimately show ?thesis
      using body(2) c Cons by (simp add: components_def List.map_filter_simps piece_def)
  qed
qed (simp add: from_components_def components_def List.map_filter_simps body_component_def)

lemma well_formed_components: "well_formed (components p)"
proof -
  have "list_all body_part (List.map_filter body_component segs)" if "\<forall>seg \<in> set segs. slash \<notin> set seg" for segs
    using that
    by (induction segs) (auto simp: List.map_filter_simps body_component_def clean_name_def)
  then have "list_all body_part (List.map_filter body_component (split_on slash p))"
    using split_on_pieces by blast
  then show ?thesis
    by (auto simp: components_def well_formed_def list_all_iff split: list.split)
qed

lemma well_formed_butlast: "well_formed cs \<Longrightarrow> well_formed (butlast cs)"
  by (cases cs; cases "tl cs") (auto simp: well_formed_def list_all_iff dest: in_set_butlastD)

lemma parent_shorter: "parent p = Some q \<Longrightarrow> length (components q) < length (components p)"
  using components_from_components [OF well_formed_butlast [OF well_formed_components]]
  by (auto simp: parent_def Let_def split: if_splits)

lemma well_formed_names: "list_all clean_name ns \<Longrightarrow> well_formed (RootDir # map Normal ns)"
  by (simp add: well_formed_def list_all_iff)

lemma components_abs_path [simp]:
  "list_all clean_name ns \<Longrightarrow> components (abs_path ns) = RootDir # map Normal ns"
  by (simp add: abs_path_def components_from_components well_formed_names)

lemma abs_path_text:
  assumes "list_all clean_name ns"
  shows "abs_path ns = (if ns = [] then [slash] else concat (map (\<lambda>n. slash # n) ns))"
proof (cases ns)
  case (Cons n ms)
  then show ?thesis
    using foldl_join_first [of n ms "[slash]"] assms clean_piece
    by (simp add: abs_path_def from_components_def path_join_def list_all_iff comp_def)
qed (simp add: abs_path_def from_components_def path_join_def)

lemma split_abs_path:
  "list_all clean_name ns \<Longrightarrow> split_on slash (abs_path ns) = [] # (if ns = [] then [[]] else ns)"
  using split_pieces [of "[]" ns] clean_piece by (simp add: abs_path_text list_all_iff)

lemma abs_path_absolute [simp]: "list_all clean_name ns \<Longrightarrow> is_absolute (abs_path ns)"
  by (cases ns) (auto simp: abs_path_text)

lemma abs_path_inject:
  "list_all clean_name ns \<Longrightarrow> list_all clean_name ms \<Longrightarrow> abs_path ns = abs_path ms \<longleftrightarrow> ns = ms"
  by (metis components_abs_path list.inject map_Normal_inject)

lemma same_path_abs_path:
  "list_all clean_name ns \<Longrightarrow> list_all clean_name ms \<Longrightarrow> same_path (abs_path ns) (abs_path ms) \<longleftrightarrow> ns = ms"
  by (simp add: same_path_def)

lemma same_path_refl [simp]: "same_path p p"
  by (simp add: same_path_def)

lemma starts_with_refl [simp]: "starts_with p p"
  by (simp add: starts_with_def)

lemma plain_same_path: "plain p \<Longrightarrow> plain q \<Longrightarrow> same_path p q \<longleftrightarrow> p = q"
  by (auto simp: plain_def same_path_abs_path)

lemma starts_with_abs_path:
  assumes "list_all clean_name ns" "list_all clean_name ms"
  shows "starts_with (abs_path ns) (abs_path ms) \<longleftrightarrow> prefix ms ns"
proof -
  have "prefix (map Normal ms) (map Normal ns) \<longleftrightarrow> prefix ms ns"
  proof
    assume "prefix (map Normal ms) (map Normal ns)"
    then have "map Normal ms = map Normal (take (length ms) ns)"
      by (metis prefix_def take_map length_map append_eq_conv_conj)
    then have "ms = take (length ms) ns" by (simp only: map_Normal_inject)
    then show "prefix ms ns" by (metis take_is_prefix)
  qed (auto simp: prefix_def)
  then show ?thesis using assms by (simp add: starts_with_def)
qed

lemma parent_abs_path [simp]:
  "list_all clean_name ns \<Longrightarrow> parent (abs_path ns) = (if ns = [] then None else Some (abs_path (butlast ns)))"
  by (auto simp: parent_def Let_def abs_path_def [of "butlast ns"] last_map map_butlast)

lemma file_name_abs_path [simp]:
  "list_all clean_name ns \<Longrightarrow> file_name (abs_path ns) = (if ns = [] then None else Some (last ns))"
  by (cases ns rule: rev_cases) (auto simp: file_name_def)

lemma join_clean_names: "foldl path_join (abs_path ns) ms = abs_path (ns @ ms)"
  by (simp add: abs_path_def from_components_def comp_def)

end
