(* ===== verification/File_Tree.thy ===== *)
theory File_Tree
  imports Path_Text
begin

text \<open>
  The file system behind \<open>std::fs\<close> as far as the workspace asks it: directories with search and write
  permission, files and symbolic links, and the process's working directory. \<open>walk\<close> is the path lookup of the
  kernel (Linux): \<open>..\<close> is physical, a link is followed where it stands, and the number of links is bounded. \<open>canonicalize\<close>
  is \<open>fs::canonicalize\<close>; on a sane file system its answer is a plain path, and its own canonical form.
\<close>

section \<open>Trees\<close>

datatype io_error_kind = NotFound | PermissionDenied | OtherIo

datatype inode =
    Plain_File
  | Symlink raw_path
  | Directory (searchable: bool) (writable: bool) (entries: "(ustr \<times> inode) list")

record file_system =
  fs_root :: inode
  fs_cwd :: "ustr list"

fun inode_at :: "inode \<Rightarrow> ustr list \<Rightarrow> inode option" where
  "inode_at nd [] = Some nd"
| "inode_at (Directory _ _ es) (n # ns) =
     (case map_of es n of None \<Rightarrow> None | Some nd \<Rightarrow> inode_at nd ns)"
| "inode_at _ (n # ns) = None"

definition max_links :: nat where
  "max_links = 40"

text \<open>One segment looked up in a directory; \<open>None\<close> is a link to follow.\<close>

fun walk :: "inode \<Rightarrow> nat \<Rightarrow> ustr list \<Rightarrow> ustr list \<Rightarrow> (io_error_kind, ustr list) outcome" where
  "walk root links pos [] = Ok pos"
| "walk root links pos (seg # segs) =
     (case inode_at root pos of
        Some (Directory may_search _ es) \<Rightarrow>
          if seg = [] then walk root links pos segs
          else if \<not> may_search then Err PermissionDenied
          else if 0 \<in> set seg then Err OtherIo
          else if seg = [dot] then walk root links pos segs
          else if seg = [dot, dot] then walk root links (butlast pos) segs
          else (case map_of es seg of
                  None \<Rightarrow> Err NotFound
                | Some (Symlink target) \<Rightarrow>
                    if links = 0 then Err OtherIo
                    else if target = [] then Err NotFound
                    else walk root (links - 1) (if is_absolute target then [] else pos)
                           (split_on slash target @ segs)
                | Some _ \<Rightarrow> walk root links (pos @ [seg]) segs)
      | _ \<Rightarrow> Err OtherIo)"

definition start_of :: "file_system \<Rightarrow> raw_path \<Rightarrow> ustr list" where
  "start_of fs p = (if is_absolute p then [] else fs_cwd fs)"

definition lookup_path :: "file_system \<Rightarrow> raw_path \<Rightarrow> (io_error_kind, ustr list) outcome" where
  "lookup_path fs p =
     (if p = [] then Err NotFound
      else walk (fs_root fs) max_links (start_of fs p) (split_on slash p))"

section \<open>The calls\<close>

definition canonicalize :: "file_system \<Rightarrow> raw_path \<Rightarrow> (io_error_kind, raw_path) outcome" where
  "canonicalize fs p = map_ok abs_path (lookup_path fs p)"

definition metadata :: "file_system \<Rightarrow> raw_path \<Rightarrow> (io_error_kind, inode) outcome" where
  "metadata fs p =
     (case lookup_path fs p of
        Ok ns \<Rightarrow> (case inode_at (fs_root fs) ns of Some nd \<Rightarrow> Ok nd | None \<Rightarrow> Err NotFound)
      | Err e \<Rightarrow> Err e
      | Panic \<Rightarrow> Panic)"

fun is_directory :: "inode \<Rightarrow> bool" where
  "is_directory (Directory _ _ _) = True"
| "is_directory _ = False"

definition path_exists :: "file_system \<Rightarrow> raw_path \<Rightarrow> bool" where
  "path_exists fs p = (case metadata fs p of Ok _ \<Rightarrow> True | _ \<Rightarrow> False)"

definition is_dir :: "file_system \<Rightarrow> raw_path \<Rightarrow> bool" where
  "is_dir fs p = (case metadata fs p of Ok nd \<Rightarrow> is_directory nd | _ \<Rightarrow> False)"

text \<open>\<open>mkdir\<close> and \<open>fs::create_dir_all\<close>. A component that ends in \<open>.\<close> or \<open>..\<close> exists already.\<close>

fun insert_at :: "ustr list \<Rightarrow> ustr \<Rightarrow> inode \<Rightarrow> inode" where
  "insert_at [] n (Directory x w es) = Directory x w (hm_insert n (Directory True True []) es)"
| "insert_at (d # ds) n (Directory x w es) =
     (case map_of es d of
        None \<Rightarrow> Directory x w es
      | Some nd \<Rightarrow> Directory x w (hm_insert d (insert_at ds n nd) es))"
| "insert_at _ _ nd = nd"

definition make_dir :: "raw_path \<Rightarrow> file_system \<Rightarrow> (io_error_kind, unit) outcome \<times> file_system" where
  "make_dir p fs =
     (case dropWhile (\<lambda>seg. seg = []) (rev (split_on slash p)) of
        [] \<Rightarrow> (Err (if p = [] then NotFound else OtherIo), fs)
      | n # before \<Rightarrow>
          (case walk (fs_root fs) max_links (start_of fs p) (rev before) of
             Ok d \<Rightarrow>
               (case inode_at (fs_root fs) d of
                  Some (Directory may_search may_write es) \<Rightarrow>
                    if \<not> may_search then (Err PermissionDenied, fs)
                    else if n = [dot] \<or> n = [dot, dot] \<or> 0 \<in> set n \<or> map_of es n \<noteq> None then (Err OtherIo, fs)
                    else if \<not> may_write then (Err PermissionDenied, fs)
                    else (Ok (), fs\<lparr>fs_root := insert_at d n (fs_root fs)\<rparr>)
                | _ \<Rightarrow> (Err OtherIo, fs))
           | Err e \<Rightarrow> (Err e, fs)
           | Panic \<Rightarrow> (Panic, fs)))"

definition make_dir_or_find :: "raw_path \<Rightarrow> file_system \<Rightarrow> (io_error_kind, unit) outcome \<times> file_system" where
  "make_dir_or_find p fs =
     (case make_dir p fs of
        (Err e, fs') \<Rightarrow> if is_dir fs' p then (Ok (), fs') else (Err e, fs')
      | made \<Rightarrow> made)"

function create_dirs :: "component list \<Rightarrow> file_system \<Rightarrow> (io_error_kind, unit) outcome \<times> file_system" where
  "create_dirs cs fs =
     (if cs = [] then (Ok (), fs)
      else (case make_dir (from_components cs) fs of
              (Err NotFound, fs') \<Rightarrow>
                if last cs = RootDir then (Err OtherIo, fs')
                else (case create_dirs (butlast cs) fs' of
                        (Ok _, fs'') \<Rightarrow> make_dir_or_find (from_components cs) fs''
                      | failed \<Rightarrow> failed)
            | (Err e, fs') \<Rightarrow> if is_dir fs' (from_components cs) then (Ok (), fs') else (Err e, fs')
            | made \<Rightarrow> made))"
  by pat_completeness auto
termination by (relation "measure (\<lambda>(cs, _). length cs)") (auto simp: less_Suc_eq_le)

declare create_dirs.simps [simp del]

definition create_dir_all :: "raw_path \<Rightarrow> file_system \<Rightarrow> (io_error_kind, unit) outcome \<times> file_system" where
  "create_dir_all p fs = create_dirs (components p) fs"

section \<open>Canonical paths\<close>

text \<open>A position that is reached by plain lookups: searchable directories on the way, not a link at its end.\<close>

fun reachable_at :: "inode \<Rightarrow> ustr list \<Rightarrow> bool" where
  "reachable_at nd [] \<longleftrightarrow> (case nd of Symlink _ \<Rightarrow> False | _ \<Rightarrow> True)"
| "reachable_at (Directory may_search _ es) (n # ns) \<longleftrightarrow>
     may_search \<and> clean_name n \<and> 0 \<notin> set n \<and> (case map_of es n of None \<Rightarrow> False | Some nd \<Rightarrow> reachable_at nd ns)"
| "reachable_at _ (n # ns) \<longleftrightarrow> False"

lemma inode_at_append:
  "inode_at nd (ns @ ms) = (case inode_at nd ns of None \<Rightarrow> None | Some nd' \<Rightarrow> inode_at nd' ms)"
  by (induction nd ns rule: inode_at.induct) (auto split: option.splits)

lemma reachable_at_append:
  "reachable_at nd (ns @ m # ms) \<longleftrightarrow>
     reachable_at nd ns \<and> (case inode_at nd ns of None \<Rightarrow> False | Some nd' \<Rightarrow> reachable_at nd' (m # ms))"
proof (induction nd ns rule: inode_at.induct)
  case (1 nd)
  then show ?case by (cases nd) auto
qed (auto split: option.splits)

lemma reachable_at_inode: "reachable_at nd ns \<Longrightarrow> \<exists>nd'. inode_at nd ns = Some nd' \<and> (\<forall>t. nd' \<noteq> Symlink t)"
  by (induction nd ns rule: inode_at.induct) (auto split: option.splits inode.splits)

lemma reachable_at_clean: "reachable_at nd ns \<Longrightarrow> list_all clean_name ns \<and> (\<forall>n \<in> set ns. 0 \<notin> set n)"
  by (induction nd ns rule: inode_at.induct) (auto split: option.splits)

lemma reachable_at_butlast: "reachable_at nd ns \<Longrightarrow> reachable_at nd (butlast ns)"
  by (cases ns rule: rev_cases) (auto simp: reachable_at_append)

lemma clean_name_segment:
  "slash \<notin> set seg \<Longrightarrow> seg \<noteq> [] \<Longrightarrow> seg \<noteq> [dot] \<Longrightarrow> seg \<noteq> [dot, dot] \<Longrightarrow> clean_name seg"
  by (simp add: clean_name_def)

lemma walk_reachable:
  "walk root links pos segs = Ok ns \<Longrightarrow> reachable_at root pos \<Longrightarrow> \<forall>seg \<in> set segs. slash \<notin> set seg \<Longrightarrow>
     reachable_at root ns"
proof (induction root links pos segs rule: walk.induct)
  case (2 root links pos seg segs)
  note run = 2(7) and here = 2(8) and clear = 2(9)
  obtain may_search w es where d: "inode_at root pos = Some (Directory may_search w es)"
    using run by (cases "inode_at root pos") (auto split: inode.splits)
  have segs: "\<forall>seg \<in> set segs. slash \<notin> set seg" and seg: "slash \<notin> set seg" using clear by auto
  have root: "reachable_at root []"
    using here d by (cases pos; cases root) auto
  show ?case
    using 2(1-6) [OF d refl] run segs root split_on_pieces clean_name_segment [OF seg] here
      reachable_at_butlast [OF here]
    by (auto simp: d ball_Un reachable_at_append split: if_splits option.splits inode.splits)
qed simp

lemma walk_straight:
  "reachable_at root (pos @ ns) \<Longrightarrow> walk root links pos ns = Ok (pos @ ns)"
proof (induction ns arbitrary: pos)
  case (Cons n ns)
  from Cons.prems obtain nd may_search w es where
    d: "inode_at root pos = Some (Directory may_search w es)" and may_search "clean_name n" "0 \<notin> set n"
      and nd: "map_of es n = Some nd" "reachable_at nd ns"
    by (auto simp: reachable_at_append split: option.splits elim!: reachable_at.elims)
  moreover have "nd \<noteq> Symlink t" for t
    using nd(2) by (cases ns) auto
  moreover have "walk root links (pos @ [n]) ns = Ok (pos @ n # ns)"
    using Cons.IH [of "pos @ [n]"] Cons.prems by simp
  ultimately show ?case
    by (auto simp: clean_name_def split: inode.split)
qed simp

lemma walk_not_Panic: "walk root links pos segs \<noteq> Panic"
  by (induction root links pos segs rule: walk.induct) (auto split: option.splits inode.splits)

text \<open>The tree has a directory at its top, and the process stands somewhere in it.\<close>

definition sane :: "file_system \<Rightarrow> bool" where
  "sane fs \<longleftrightarrow> is_directory (fs_root fs) \<and> reachable_at (fs_root fs) (fs_cwd fs)"

lemma lookup_path_reachable:
  assumes "sane fs" "lookup_path fs p = Ok ns"
  shows "reachable_at (fs_root fs) ns"
proof -
  have "reachable_at (fs_root fs) (start_of fs p)"
    using assms(1) by (cases "fs_root fs") (auto simp: sane_def start_of_def)
  with assms(2) show ?thesis
    using split_on_pieces by (auto simp: lookup_path_def split: if_splits intro: walk_reachable)
qed

lemma lookup_path_abs_path:
  assumes "reachable_at (fs_root fs) ns" "is_directory (fs_root fs)"
  shows "lookup_path fs (abs_path ns) = Ok ns"
proof -
  have clean: "list_all clean_name ns" using reachable_at_clean [OF assms(1)] by blast
  obtain x w es where root: "fs_root fs = Directory x w es" using assms(2) by (cases "fs_root fs") auto
  have "abs_path ns \<noteq> []" using abs_path_absolute [OF clean] by auto
  then show ?thesis
    using walk_straight [of "fs_root fs" "[]" ns] assms(1) abs_path_absolute [OF clean]
    by (simp add: lookup_path_def start_of_def split_abs_path [OF clean] root)
qed

lemma canonicalize_plain: "sane fs \<Longrightarrow> canonicalize fs p = Ok q \<Longrightarrow> plain q"
  using lookup_path_reachable reachable_at_clean by (fastforce simp: canonicalize_def plain_def)

lemma canonicalize_again: "sane fs \<Longrightarrow> canonicalize fs p = Ok q \<Longrightarrow> canonicalize fs q = Ok q"
  using lookup_path_reachable lookup_path_abs_path by (fastforce simp: canonicalize_def sane_def)

lemma canonicalize_not_Panic [simp]: "canonicalize fs p \<noteq> Panic"
  by (simp add: canonicalize_def lookup_path_def walk_not_Panic)

lemma path_exists_iff: "sane fs \<Longrightarrow> path_exists fs p \<longleftrightarrow> (\<exists>q. canonicalize fs p = Ok q)"
  using lookup_path_reachable reachable_at_inode walk_not_Panic
  by (fastforce simp: path_exists_def metadata_def canonicalize_def split: outcome.splits option.splits)

lemma is_dir_exists: "is_dir fs p \<Longrightarrow> path_exists fs p"
  by (auto simp: is_dir_def path_exists_def split: outcome.splits)

lemma is_dir_canonical:
  assumes "sane fs" "canonicalize fs p = Ok q"
  shows "is_dir fs q = is_dir fs p"
proof -
  obtain ns where ns: "lookup_path fs p = Ok ns" "q = abs_path ns"
    using assms(2) by (auto simp: canonicalize_def)
  then have "lookup_path fs q = Ok ns"
    using lookup_path_abs_path lookup_path_reachable assms(1) by (simp add: sane_def)
  then show ?thesis by (simp add: is_dir_def metadata_def ns(1))
qed

end
