(* ===== verification/Project_Model.thy ===== *)
theory Project_Model
  imports File_Tree
begin

text \<open>
  The types of the Project context (\<open>agent/features/project/src\<close>): \<open>domain/types.rs\<close>, \<open>domain/git.rs\<close>, the fields of
  \<open>WorkspaceState\<close> in \<open>domain/state.rs\<close>, and of \<open>agent/shared/src\<close> what Project publishes: \<open>session_types.rs\<close> and
  \<open>tools_vocab.rs\<close>. The \<open>git_port\<close> is the trait \<open>GitWorktreeOps\<close>; its methods read the file system, and
  \<open>worktree_add\<close> changes it. SHA-256 is an argument (\<open>sha\<close>). A \<open>DomainError\<close> carries the error it was made from
  and a category; the operations here return the former.
\<close>

section \<open>Results\<close>

fun and_then :: "('e, 'a) outcome \<Rightarrow> ('a \<Rightarrow> ('e, 'b) outcome) \<Rightarrow> ('e, 'b) outcome" where
  "and_then (Ok x) k = k x"
| "and_then (Err e) k = Err e"
| "and_then Panic k = Panic"

fun map_err :: "('d \<Rightarrow> 'e) \<Rightarrow> ('d, 'a) outcome \<Rightarrow> ('e, 'a) outcome" where
  "map_err f (Ok x) = Ok x"
| "map_err f (Err e) = Err (f e)"
| "map_err f Panic = Panic"

lemma and_then_Ok_iff [simp]: "and_then r k = Ok y \<longleftrightarrow> (\<exists>x. r = Ok x \<and> k x = Ok y)"
  by (cases r) auto

lemma map_err_Ok_iff [simp]: "map_err f r = Ok x \<longleftrightarrow> r = Ok x"
  by (cases r) auto

lemma and_then_Panic: "and_then r k = Panic \<longleftrightarrow> r = Panic \<or> (\<exists>x. r = Ok x \<and> k x = Panic)"
  by (cases r) auto

lemma map_err_Panic [simp]: "map_err f r = Panic \<longleftrightarrow> r = Panic"
  by (cases r) auto

section \<open>Identity\<close>

record project_identity =
  pi_initial_cwd :: ustr
  pi_git_common_dir :: "ustr option"

datatype worktree_kind = NonGit | Primary | Linked

datatype workspace_id = WorkspaceId ustr

text \<open>The bytes of a string, and the digest of fields with their lengths (\<open>packages/global/utils/src/lib.rs\<close>).\<close>

definition utf8_char :: "nat \<Rightarrow> nat list" where
  "utf8_char c =
     (if c < 128 then [c]
      else if c < 2048 then [192 + c div 64, 128 + c mod 64]
      else if c < 65536 then [224 + c div 4096, 128 + c div 64 mod 64, 128 + c mod 64]
      else [240 + c div 262144, 128 + c div 4096 mod 64, 128 + c div 64 mod 64, 128 + c mod 64])"

definition utf8 :: "ustr \<Rightarrow> nat list" where
  "utf8 s = concat (map utf8_char s)"

definition be64 :: "nat \<Rightarrow> nat list" where
  "be64 n = map (\<lambda>i. n div 256 ^ i mod 256) [7, 6, 5, 4, 3, 2, 1, 0]"

definition hex_char :: "nat \<Rightarrow> nat" where
  "hex_char d = (if d < 10 then 48 + d else 87 + d)"

definition encode_hex :: "nat list \<Rightarrow> ustr" where
  "encode_hex bs = concat (map (\<lambda>b. [hex_char (b div 16), hex_char (b mod 16)]) bs)"

definition stable_sha256_hex :: "(nat list \<Rightarrow> nat list) \<Rightarrow> nat list \<Rightarrow> nat list list \<Rightarrow> ustr" where
  "stable_sha256_hex sha tag parts = encode_hex (sha (tag @ concat (map (\<lambda>f. be64 (length f) @ f) parts)))"

definition derive_id :: "(nat list \<Rightarrow> nat list) \<Rightarrow> project_identity \<Rightarrow> ustr \<Rightarrow> workspace_id" where
  "derive_id sha identity workspace_root =
     WorkspaceId (lit ''ws-'' @
       stable_sha256_hex sha (lit ''aemeath.workspace-id.v1'' @ [0])
         [utf8 (pi_initial_cwd identity),
          utf8 (case pi_git_common_dir identity of Some d \<Rightarrow> d | None \<Rightarrow> []),
          utf8 workspace_root])"

definition same_project_identity :: "project_identity \<Rightarrow> project_identity \<Rightarrow> bool" where
  "same_project_identity current persisted =
     (case (pi_git_common_dir current, pi_git_common_dir persisted) of
        (Some current_git, Some stored_git) \<Rightarrow> current_git = stored_git
      | (None, None) \<Rightarrow> pi_initial_cwd current = pi_initial_cwd persisted
      | _ \<Rightarrow> False)"

section \<open>Persisted context and authorization\<close>

record persisted_frame =
  pf_path_base :: ustr
  pf_workspace_root :: ustr
  pf_worktree_kind :: worktree_kind

record persisted_context =
  pc_workspace_id :: workspace_id
  pc_project_identity :: project_identity
  pc_path_base :: ustr
  pc_workspace_root :: ustr
  pc_worktree_kind :: worktree_kind
  pc_context_stack :: "persisted_frame list"

record authorization =
  au_allow_outside_workspace :: bool
  au_require_read_before_write :: bool
  au_enforce_bash_safety :: bool
  au_enforce_tool_fuse :: bool

definition auth_standard :: authorization where
  "auth_standard = \<lparr>au_allow_outside_workspace = False, au_require_read_before_write = True,
     au_enforce_bash_safety = True, au_enforce_tool_fuse = True\<rparr>"

definition auth_allow_all :: authorization where
  "auth_allow_all = \<lparr>au_allow_outside_workspace = True, au_require_read_before_write = False,
     au_enforce_bash_safety = False, au_enforce_tool_fuse = False\<rparr>"

section \<open>Errors\<close>

text \<open>\<open>CwdGone\<close> carries the path its message is about; the text around it is fixed.\<close>

datatype git_probe_error =
    ProbeGitUnavailable | ProbeCwdGone raw_path | ProbePermissionDenied
  | ProbeCommandFailed "int option" | ProbeInvalidOutput

datatype git_operation_error =
    OpGitUnavailable | OpCwdGone raw_path | OpPermissionDenied
  | OpCommandFailed "int option" | OpInvalidOutput

datatype workspace_init_error =
    InitPathNotFound raw_path | InitNotDirectory raw_path | InitPermissionDenied raw_path
  | InitCanonicalizeFailed raw_path | InitGitProbeFailed git_probe_error

datatype workspace_error =
    PathNotFound raw_path | NotDirectory raw_path
  | PathOutsideWorkspaceRoot raw_path raw_path
  | PathTooDeep raw_path | CannotResolveSearchPath raw_path
  | MissingPathAndBranch | InvalidBranch
  | NestedWorktree raw_path raw_path
  | RepoMismatch raw_path raw_path
  | NotLinkedWorktree raw_path
  | EmptyStack | UnsupportedForNonGit
  | GitProbeFailed git_probe_error | GitOperationFailed git_operation_error

datatype workspace_restore_error =
    RestoreInvalidProjectIdentity
  | RestorePathNotFound ustr
  | RestorePathOutsideWorkspaceRoot ustr ustr
  | RestoreInvalidStackShape | RestoreRepositoryMismatch | RestoreWorkspaceIdMismatch
  | RestoreGitProbeFailed git_probe_error

datatype failure_category = CategoryStorage | CategoryInvalid | CategoryUnavailable

fun workspace_category :: "workspace_error \<Rightarrow> failure_category" where
  "workspace_category (GitProbeFailed _) = CategoryStorage"
| "workspace_category (GitOperationFailed _) = CategoryStorage"
| "workspace_category _ = CategoryInvalid"

fun restore_category :: "workspace_restore_error \<Rightarrow> failure_category" where
  "restore_category (RestoreGitProbeFailed _) = CategoryStorage"
| "restore_category _ = CategoryInvalid"

fun init_category :: "workspace_init_error \<Rightarrow> failure_category" where
  "init_category (InitGitProbeFailed _) = CategoryStorage"
| "init_category (InitPermissionDenied _) = CategoryUnavailable"
| "init_category _ = CategoryInvalid"

section \<open>State\<close>

record workspace_data =
  wd_id :: workspace_id
  wd_path_base :: raw_path
  wd_workspace_root :: raw_path
  wd_worktree_kind :: worktree_kind

record workspace_state =
  ws_project_identity :: project_identity
  ws_workspace_root :: raw_path
  ws_path_base :: raw_path
  ws_worktree_kind :: worktree_kind
  ws_worktrees_root :: raw_path
  ws_stack :: "workspace_data list"

section \<open>Git\<close>

datatype repository_probe =
    GitRepository (canonical_top_level: raw_path) (canonical_common_dir: raw_path) (probe_kind: worktree_kind)
  | NonGitDirectory

record git_port =
  gp_probe_repository :: "file_system \<Rightarrow> raw_path \<Rightarrow> (git_probe_error, repository_probe) outcome"
  gp_show_toplevel :: "file_system \<Rightarrow> raw_path \<Rightarrow> (git_operation_error, raw_path) outcome"
  gp_is_linked_worktree :: "file_system \<Rightarrow> raw_path \<Rightarrow> (git_operation_error, bool) outcome"
  gp_worktree_add ::
    "file_system \<Rightarrow> raw_path \<Rightarrow> raw_path \<Rightarrow> ustr \<Rightarrow> ustr \<Rightarrow> (git_operation_error, unit) outcome \<times> file_system"
  gp_current_branch :: "file_system \<Rightarrow> raw_path \<Rightarrow> (git_operation_error, ustr option) outcome"

end
