(* ===== verification/Project_Git.thy ===== *)
theory Project_Git
  imports Project_Model
begin

text \<open>
  The git adapter (\<open>adapters/git.rs\<close>): the five port methods as invocations of the program \<open>git\<close> and readings of
  its output. The program is an argument: \<open>git_answer\<close> is what an invocation in a directory answers, \<open>git_effect\<close>
  what it does to the file system. Only \<open>worktree add\<close> is taken to have an effect; \<open>git rev-parse\<close> is documented
  to read. Output that is not UTF-8 is \<open>None\<close>; \<open>go_stderr\<close> is the text after the lossy conversion.
\<close>

record git_command_output =
  go_success :: bool
  go_exit_code :: "int option"
  go_stdout :: "ustr option"
  go_stderr :: ustr

record git_program =
  git_answer :: "file_system \<Rightarrow> raw_path \<Rightarrow> ustr list \<Rightarrow> (io_error_kind, git_command_output) outcome"
  git_effect :: "file_system \<Rightarrow> raw_path \<Rightarrow> ustr list \<Rightarrow> file_system"

section \<open>Failures\<close>

definition cwd_gone :: "file_system \<Rightarrow> raw_path \<Rightarrow> bool" where
  "cwd_gone fs cwd \<longleftrightarrow> \<not> path_exists fs cwd"

definition probe_spawn :: "file_system \<Rightarrow> raw_path \<Rightarrow> io_error_kind \<Rightarrow> git_probe_error" where
  "probe_spawn fs cwd error =
     (case error of
        NotFound \<Rightarrow> if cwd_gone fs cwd then ProbeCwdGone cwd else ProbeGitUnavailable
      | PermissionDenied \<Rightarrow> ProbePermissionDenied
      | OtherIo \<Rightarrow> ProbeCommandFailed None)"

definition operation_spawn :: "file_system \<Rightarrow> raw_path \<Rightarrow> io_error_kind \<Rightarrow> git_operation_error" where
  "operation_spawn fs cwd error =
     (case error of
        NotFound \<Rightarrow> if cwd_gone fs cwd then OpCwdGone cwd else OpGitUnavailable
      | PermissionDenied \<Rightarrow> OpPermissionDenied
      | OtherIo \<Rightarrow> OpCommandFailed None)"

section \<open>Reading output\<close>

definition operation_output :: "git_command_output \<Rightarrow> (git_operation_error, ustr) outcome" where
  "operation_output out =
     (if \<not> go_success out then Err (OpCommandFailed (go_exit_code out))
      else (case go_stdout out of
              None \<Rightarrow> Err OpInvalidOutput
            | Some text \<Rightarrow> if trim text = [] then Err OpInvalidOutput else Ok (trim text)))"

definition resolve_git_path :: "file_system \<Rightarrow> raw_path \<Rightarrow> ustr \<Rightarrow> (git_probe_error, raw_path) outcome" where
  "resolve_git_path fs base value =
     map_err (\<lambda>_. ProbeInvalidOutput)
       (canonicalize fs (if is_absolute value then value else path_join base value))"

text \<open>\<open>str::lines\<close>: a final newline opens no line, and a carriage return before a newline is dropped.\<close>

definition chomp :: "ustr \<Rightarrow> ustr" where
  "chomp l = (if l \<noteq> [] \<and> last l = 13 then butlast l else l)"

definition text_lines :: "ustr \<Rightarrow> ustr list" where
  "text_lines s =
     (let ls = split_on 10 s in map chomp (butlast ls) @ (if last ls = [] then [] else [last ls]))"

definition ascii_lowercase :: "ustr \<Rightarrow> ustr" where
  "ascii_lowercase s = map (\<lambda>c. if 65 \<le> c \<and> c \<le> 90 then c + 32 else c) s"

definition contains_text :: "ustr \<Rightarrow> ustr \<Rightarrow> bool" where
  "contains_text s sub = list_ex (prefix sub) (suffixes s)"

section \<open>The port\<close>

definition rev_parse_args :: "ustr list" where
  "rev_parse_args = [lit ''rev-parse'', lit ''--show-toplevel'', lit ''--git-common-dir'', lit ''--git-dir'']"

text \<open>The three answers of \<open>rev-parse\<close>.\<close>

fun three_lines :: "ustr list \<Rightarrow> (ustr \<times> ustr \<times> ustr) option" where
  "three_lines [toplevel, common, git_dir] =
     (if toplevel = [] \<or> common = [] \<or> git_dir = [] then None else Some (toplevel, common, git_dir))"
| "three_lines _ = None"

definition failed_probe :: "git_command_output \<Rightarrow> (git_probe_error, repository_probe) outcome" where
  "failed_probe out =
     (let stderr = ascii_lowercase (go_stderr out) in
      if contains_text stderr (lit ''not a git repository'') then Ok NonGitDirectory
      else if contains_text stderr (lit ''permission denied'') then Err ProbePermissionDenied
      else Err (ProbeCommandFailed (go_exit_code out)))"

definition read_probe :: "file_system \<Rightarrow> raw_path \<Rightarrow> ustr \<Rightarrow> (git_probe_error, repository_probe) outcome" where
  "read_probe fs path stdout =
     (case three_lines (map trim (text_lines stdout)) of
        None \<Rightarrow> Err ProbeInvalidOutput
      | Some (toplevel, common, git_dir) \<Rightarrow>
          and_then (map_err (\<lambda>_. ProbeInvalidOutput) (canonicalize fs toplevel)) (\<lambda>top_level.
          and_then (resolve_git_path fs path common) (\<lambda>common_dir.
          and_then (resolve_git_path fs path git_dir) (\<lambda>dir.
            Ok (GitRepository top_level common_dir (if same_path dir common_dir then Primary else Linked))))))"

definition probe_repository ::
  "git_program \<Rightarrow> file_system \<Rightarrow> raw_path \<Rightarrow> (git_probe_error, repository_probe) outcome" where
  "probe_repository git fs path =
     and_then (map_err (probe_spawn fs path) (git_answer git fs path rev_parse_args)) (\<lambda>out.
       if \<not> go_success out then failed_probe out
       else (case go_stdout out of None \<Rightarrow> Err ProbeInvalidOutput | Some stdout \<Rightarrow> read_probe fs path stdout))"

definition show_toplevel :: "git_program \<Rightarrow> file_system \<Rightarrow> raw_path \<Rightarrow> (git_operation_error, raw_path) outcome" where
  "show_toplevel git fs path =
     and_then (map_err (operation_spawn fs path)
         (git_answer git fs path [lit ''rev-parse'', lit ''--show-toplevel''])) (\<lambda>out.
     and_then (operation_output out) (\<lambda>value. map_err (\<lambda>_. OpInvalidOutput) (canonicalize fs value)))"

fun operation_of_probe :: "git_probe_error \<Rightarrow> git_operation_error" where
  "operation_of_probe ProbeGitUnavailable = OpGitUnavailable"
| "operation_of_probe (ProbeCwdGone cwd) = OpCwdGone cwd"
| "operation_of_probe ProbePermissionDenied = OpPermissionDenied"
| "operation_of_probe (ProbeCommandFailed code) = OpCommandFailed code"
| "operation_of_probe ProbeInvalidOutput = OpInvalidOutput"

definition is_linked_worktree :: "git_program \<Rightarrow> file_system \<Rightarrow> raw_path \<Rightarrow> (git_operation_error, bool) outcome" where
  "is_linked_worktree git fs path =
     map_ok (\<lambda>probe. case probe of GitRepository _ _ kind \<Rightarrow> kind = Linked | NonGitDirectory \<Rightarrow> False)
       (map_err operation_of_probe (probe_repository git fs path))"

definition worktree_add_args :: "raw_path \<Rightarrow> ustr \<Rightarrow> ustr \<Rightarrow> ustr list" where
  "worktree_add_args path branch base =
     [lit ''worktree'', lit ''add'', lit ''-b'', branch, lit ''--'', path, base]"

definition worktree_add ::
  "git_program \<Rightarrow> file_system \<Rightarrow> raw_path \<Rightarrow> raw_path \<Rightarrow> ustr \<Rightarrow> ustr \<Rightarrow>
     (git_operation_error, unit) outcome \<times> file_system" where
  "worktree_add git fs repo_root path branch base =
     (case (case parent path of None \<Rightarrow> (Ok (), fs) | Some above_dir \<Rightarrow> create_dir_all above_dir fs) of
        (Ok _, fs') \<Rightarrow>
          (case git_answer git fs' repo_root (worktree_add_args path branch base) of
             Ok out \<Rightarrow>
               (if go_success out then Ok () else Err (OpCommandFailed (go_exit_code out)),
                git_effect git fs' repo_root (worktree_add_args path branch base))
           | Err e \<Rightarrow> (Err (operation_spawn fs' repo_root e), fs')
           | Panic \<Rightarrow> (Panic, fs'))
      | (Err e, fs') \<Rightarrow> (Err (operation_spawn fs' repo_root e), fs')
      | (Panic, fs') \<Rightarrow> (Panic, fs'))"

definition current_branch :: "git_program \<Rightarrow> file_system \<Rightarrow> raw_path \<Rightarrow> (git_operation_error, ustr option) outcome" where
  "current_branch git fs path =
     and_then (map_err (operation_spawn fs path)
         (git_answer git fs path [lit ''rev-parse'', lit ''--abbrev-ref'', lit ''HEAD''])) (\<lambda>out.
       map_ok (\<lambda>branch. if branch = lit ''HEAD'' then None else Some branch) (operation_output out))"

definition git_cli :: "git_program \<Rightarrow> git_port" where
  "git_cli git =
     \<lparr>gp_probe_repository = probe_repository git, gp_show_toplevel = show_toplevel git,
      gp_is_linked_worktree = is_linked_worktree git, gp_worktree_add = worktree_add git,
      gp_current_branch = current_branch git\<rparr>"

end
