(* ===== verification/Project_State.thy ===== *)
theory Project_State
  imports Project_Git
begin

text \<open>
  The workspace aggregate of \<open>domain/state.rs\<close> in its life within a process: where it stands, and the operations
  that move it. \<open>change_directory\<close>, \<open>enter\<close> and \<open>exit_worktree\<close> return their outcome and the state they leave;
  \<open>enter\<close> may also create a worktree and so returns the file system.
\<close>

section \<open>Positions\<close>

definition from_verified ::
  "project_identity \<Rightarrow> raw_path \<Rightarrow> raw_path \<Rightarrow> worktree_kind \<Rightarrow> raw_path \<Rightarrow> workspace_state" where
  "from_verified identity root base kind worktrees_root =
     \<lparr>ws_project_identity = identity, ws_workspace_root = root, ws_path_base = base, ws_worktree_kind = kind,
      ws_worktrees_root = worktrees_root, ws_stack = []\<rparr>"

definition derive_isolated :: "workspace_state \<Rightarrow> workspace_state" where
  "derive_isolated s = s\<lparr>ws_stack := []\<rparr>"

definition current_id :: "(nat list \<Rightarrow> nat list) \<Rightarrow> workspace_state \<Rightarrow> workspace_id" where
  "current_id sha s = derive_id sha (ws_project_identity s) (ws_workspace_root s)"

definition resolve_relative :: "workspace_state \<Rightarrow> raw_path \<Rightarrow> raw_path" where
  "resolve_relative s rel = (if is_absolute rel then rel else path_join (ws_path_base s) rel)"

section \<open>Where a worktree goes\<close>

definition safe_char :: "nat \<Rightarrow> bool" where
  "safe_char c \<longleftrightarrow>
     (48 \<le> c \<and> c \<le> 57) \<or> (65 \<le> c \<and> c \<le> 90) \<or> (97 \<le> c \<and> c \<le> 122) \<or> c = 46 \<or> c = 95 \<or> c = 45"

definition edge_char :: "nat \<Rightarrow> bool" where
  "edge_char c \<longleftrightarrow> c = 46 \<or> c = 95 \<or> c = 45"

text \<open>The loop over the characters; the flag is \<open>last_dash\<close>.\<close>

fun sanitize_chars :: "bool \<Rightarrow> ustr \<Rightarrow> ustr" where
  "sanitize_chars last_dash [] = []"
| "sanitize_chars last_dash (c # cs) =
     (if safe_char c then c # sanitize_chars False cs
      else if \<not> last_dash then 45 # sanitize_chars True cs
      else sanitize_chars last_dash cs)"

definition sanitize_branch_for_path :: "ustr \<Rightarrow> (workspace_error, ustr) outcome" where
  "sanitize_branch_for_path branch =
     (let s = trim_matches edge_char (sanitize_chars False (trim branch)) in
      if s = [] then Err InvalidBranch else Ok s)"

definition unnamed_workspace_segment :: ustr where
  "unnamed_workspace_segment = lit ''workspace''"

definition workspace_repo_segment :: "workspace_state \<Rightarrow> (workspace_error, ustr) outcome" where
  "workspace_repo_segment s =
     sanitize_branch_for_path
       (case file_name (ws_workspace_root s) of Some n \<Rightarrow> n | None \<Rightarrow> unnamed_workspace_segment)"

definition resolve_worktree_path ::
  "workspace_state \<Rightarrow> raw_path option \<Rightarrow> ustr option \<Rightarrow> (workspace_error, raw_path) outcome" where
  "resolve_worktree_path s path branch =
     (case (case path of Some p \<Rightarrow> if p = [] then None else Some p | None \<Rightarrow> None) of
        Some p \<Rightarrow> if is_absolute p then Ok p else Ok (path_join (ws_path_base s) p)
      | None \<Rightarrow>
          (case branch of
             Some b \<Rightarrow>
               if is_blank b then Err MissingPathAndBranch
               else and_then (workspace_repo_segment s) (\<lambda>repo.
                    and_then (sanitize_branch_for_path b) (\<lambda>segment.
                      Ok (path_join (path_join (ws_worktrees_root s) repo) segment)))
           | None \<Rightarrow> Err MissingPathAndBranch))"

definition default_worktree_base :: ustr where
  "default_worktree_base = lit ''main''"

definition resolve_worktree_base :: "ustr option \<Rightarrow> ustr" where
  "resolve_worktree_base base =
     (case base of Some b \<Rightarrow> if is_blank b then default_worktree_base else b | None \<Rightarrow> default_worktree_base)"

section \<open>Changing the directory\<close>

definition change_directory ::
  "file_system \<Rightarrow> raw_path \<Rightarrow> authorization \<Rightarrow> workspace_state \<Rightarrow>
     (workspace_error, unit) outcome \<times> workspace_state" where
  "change_directory fs path auth s =
     (case map_err (\<lambda>_. PathNotFound path) (canonicalize fs path) of
        Ok canonical \<Rightarrow>
          if \<not> is_dir fs canonical then (Err (NotDirectory canonical), s)
          else if au_allow_outside_workspace auth then (Ok (), s\<lparr>ws_path_base := canonical\<rparr>)
          else (case map_err (\<lambda>_. PathNotFound (ws_workspace_root s)) (canonicalize fs (ws_workspace_root s)) of
                  Ok canonical_root \<Rightarrow>
                    if \<not> starts_with canonical canonical_root
                    then (Err (PathOutsideWorkspaceRoot canonical canonical_root), s)
                    else (Ok (), s\<lparr>ws_path_base := canonical\<rparr>)
                | Err e \<Rightarrow> (Err e, s)
                | Panic \<Rightarrow> (Panic, s))
      | Err e \<Rightarrow> (Err e, s)
      | Panic \<Rightarrow> (Panic, s))"

section \<open>Worktrees\<close>

definition validate_in_repo ::
  "git_port \<Rightarrow> file_system \<Rightarrow> workspace_state \<Rightarrow> raw_path \<Rightarrow>
     (workspace_error, raw_path \<times> raw_path \<times> worktree_kind) outcome" where
  "validate_in_repo git fs s target =
     and_then (map_err (\<lambda>_. PathNotFound target) (canonicalize fs target)) (\<lambda>canonical.
     if \<not> is_dir fs canonical then Err (NotDirectory canonical)
     else
       and_then (map_err GitOperationFailed (gp_show_toplevel git fs canonical)) (\<lambda>worktree_root.
       and_then (map_err GitProbeFailed (gp_probe_repository git fs canonical)) (\<lambda>probe.
       case probe of
         GitRepository top_level common_dir kind \<Rightarrow>
           if \<not> (case pi_git_common_dir (ws_project_identity s) of
                    Some expected \<Rightarrow> same_path common_dir expected | None \<Rightarrow> False)
           then Err (RepoMismatch worktree_root (ws_workspace_root s))
           else if \<not> same_path top_level worktree_root then Err (GitProbeFailed ProbeInvalidOutput)
           else Ok (canonical, worktree_root, kind)
       | NonGitDirectory \<Rightarrow> Err (GitProbeFailed ProbeInvalidOutput))))"

text \<open>The frame that \<open>enter\<close> pushes, and the stack it pushes it on.\<close>

definition entry_frame ::
  "git_port \<Rightarrow> file_system \<Rightarrow> workspace_state \<Rightarrow>
     (workspace_error, workspace_data list \<times> raw_path \<times> raw_path \<times> worktree_kind) outcome" where
  "entry_frame git fs s =
     (if ws_worktree_kind s = Linked then
        if starts_with (ws_path_base s) (ws_workspace_root s)
        then Err (NestedWorktree (ws_workspace_root s) (ws_path_base s))
        else
          and_then (map_err GitOperationFailed (gp_show_toplevel git fs (ws_path_base s))) (\<lambda>top_level.
          and_then (validate_in_repo git fs s top_level) (\<lambda>(_, root, kind).
            if kind \<noteq> Primary then Err (NestedWorktree root (ws_path_base s))
            else Ok ([], ws_path_base s, root, Primary)))
      else if ws_stack s \<noteq> [] then
        and_then (map_err GitOperationFailed (gp_is_linked_worktree git fs (ws_path_base s))) (\<lambda>linked.
          if linked then Err (NestedWorktree (ws_workspace_root s) (ws_path_base s))
          else Ok ([], ws_path_base s, ws_workspace_root s, ws_worktree_kind s))
      else Ok (ws_stack s, ws_path_base s, ws_workspace_root s, ws_worktree_kind s))"

definition create_if_missing ::
  "git_port \<Rightarrow> file_system \<Rightarrow> workspace_state \<Rightarrow> raw_path \<Rightarrow> ustr option \<Rightarrow> ustr option \<Rightarrow>
     (workspace_error, unit) outcome \<times> file_system" where
  "create_if_missing git fs s target branch base =
     (if path_exists fs target then (Ok (), fs)
      else (case (case branch of Some b \<Rightarrow> if is_blank b then None else Some b | None \<Rightarrow> None) of
              None \<Rightarrow> (Err MissingPathAndBranch, fs)
            | Some b \<Rightarrow>
                (case gp_worktree_add git fs (ws_workspace_root s) target b (resolve_worktree_base base) of
                   (added, fs') \<Rightarrow> (map_err GitOperationFailed added, fs'))))"

definition enter_frame ::
  "(nat list \<Rightarrow> nat list) \<Rightarrow> workspace_state \<Rightarrow> raw_path \<Rightarrow> raw_path \<Rightarrow> worktree_kind \<Rightarrow> workspace_data" where
  "enter_frame sha s base root kind =
     \<lparr>wd_id = current_id sha s, wd_path_base = base, wd_workspace_root = root, wd_worktree_kind = kind\<rparr>"

definition enter ::
  "(nat list \<Rightarrow> nat list) \<Rightarrow> git_port \<Rightarrow> raw_path option \<Rightarrow> ustr option \<Rightarrow> ustr option \<Rightarrow> file_system \<Rightarrow>
     workspace_state \<Rightarrow> (workspace_error, workspace_data) outcome \<times> workspace_state \<times> file_system" where
  "enter sha git path branch base fs s =
     (if ws_worktree_kind s = NonGit then (Err UnsupportedForNonGit, s, fs)
      else case and_then (entry_frame git fs s) (\<lambda>fr. map_ok (Pair fr) (resolve_worktree_path s path branch)) of
        Ok ((next_stack, frame_base, frame_root, frame_kind), target) \<Rightarrow>
          (case create_if_missing git fs s target branch base of
             (Ok _, fs') \<Rightarrow>
               (case validate_in_repo git fs' s target of
                  Ok (canonical, worktree_root, kind) \<Rightarrow>
                    if kind \<noteq> Linked then (Err (NotLinkedWorktree canonical), s, fs')
                    else let frame = enter_frame sha s frame_base frame_root frame_kind in
                      (Ok frame,
                       s\<lparr>ws_stack := next_stack @ [frame], ws_workspace_root := worktree_root,
                         ws_path_base := canonical, ws_worktree_kind := kind\<rparr>, fs')
                | Err e \<Rightarrow> (Err e, s, fs')
                | Panic \<Rightarrow> (Panic, s, fs'))
           | (Err e, fs') \<Rightarrow> (Err e, s, fs')
           | (Panic, fs') \<Rightarrow> (Panic, s, fs'))
      | Err e \<Rightarrow> (Err e, s, fs)
      | Panic \<Rightarrow> (Panic, s, fs))"

definition exit_worktree ::
  "git_port \<Rightarrow> file_system \<Rightarrow> workspace_state \<Rightarrow> (workspace_error, workspace_data) outcome \<times> workspace_state" where
  "exit_worktree git fs s =
     (if ws_worktree_kind s = NonGit then (Err UnsupportedForNonGit, s)
      else if ws_stack s = [] then (Err EmptyStack, s)
      else let prev = last (ws_stack s) in
        (case validate_in_repo git fs s (wd_path_base prev) of
           Ok (canonical, worktree_root, kind) \<Rightarrow>
             if \<not> same_path canonical (wd_path_base prev) \<or> \<not> same_path worktree_root (wd_workspace_root prev) \<or>
                kind \<noteq> wd_worktree_kind prev
             then (Err (GitProbeFailed ProbeInvalidOutput), s)
             else (Ok prev,
                   s\<lparr>ws_stack := butlast (ws_stack s), ws_workspace_root := worktree_root,
                     ws_path_base := canonical, ws_worktree_kind := kind\<rparr>)
         | Err e \<Rightarrow> (Err e, s)
         | Panic \<Rightarrow> (Panic, s)))"

text \<open>
  Persistence of the workspace (\<open>domain/state.rs\<close>): the snapshot, and the four phases of \<open>prepare_restore\<close>. The
  result of a successful preparation is a candidate state that \<open>commit_restore\<close> makes the current one. Paths and
  their texts are the same thing here, so \<open>display\<close> and \<open>to_string_lossy\<close> do not show.
\<close>

section \<open>The snapshot\<close>

definition snapshot_frame :: "workspace_data \<Rightarrow> persisted_frame" where
  "snapshot_frame f =
     \<lparr>pf_path_base = wd_path_base f, pf_workspace_root = wd_workspace_root f, pf_worktree_kind = wd_worktree_kind f\<rparr>"

definition take_snapshot :: "(nat list \<Rightarrow> nat list) \<Rightarrow> workspace_state \<Rightarrow> persisted_context" where
  "take_snapshot sha s =
     \<lparr>pc_workspace_id = current_id sha s, pc_project_identity = ws_project_identity s,
      pc_path_base = ws_path_base s, pc_workspace_root = ws_workspace_root s,
      pc_worktree_kind = ws_worktree_kind s, pc_context_stack = map snapshot_frame (ws_stack s)\<rparr>"

section \<open>Paths\<close>

definition restore_path :: "file_system \<Rightarrow> ustr \<Rightarrow> (workspace_restore_error, raw_path) outcome" where
  "restore_path fs raw =
     (if raw = [] \<or> \<not> path_exists fs raw \<or> \<not> is_dir fs raw then Err (RestorePathNotFound raw)
      else map_err (\<lambda>_. RestorePathNotFound raw) (canonicalize fs raw))"

definition validate_containment :: "raw_path \<Rightarrow> raw_path \<Rightarrow> (workspace_restore_error, unit) outcome" where
  "validate_containment path root =
     (if starts_with path root then Ok () else Err (RestorePathOutsideWorkspaceRoot path root))"

text \<open>A working directory that is gone, or outside of its root, falls back to the root.\<close>

definition restore_base :: "file_system \<Rightarrow> ustr \<Rightarrow> raw_path \<Rightarrow> (workspace_restore_error, raw_path) outcome" where
  "restore_base fs raw root =
     (case restore_path fs raw of
        Ok path \<Rightarrow>
          (case validate_containment path root of
             Ok _ \<Rightarrow> Ok path
           | Err (RestorePathOutsideWorkspaceRoot _ _) \<Rightarrow> Ok root
           | Err e \<Rightarrow> Err e
           | Panic \<Rightarrow> Panic)
      | Err (RestorePathNotFound _) \<Rightarrow> Ok root
      | Err e \<Rightarrow> Err e
      | Panic \<Rightarrow> Panic)"

record restored_paths =
  rp_initial_cwd :: raw_path
  rp_workspace_root :: raw_path
  rp_path_base :: raw_path
  rp_fallback_eligible :: bool

definition restore_identity ::
  "file_system \<Rightarrow> persisted_context \<Rightarrow> (workspace_restore_error, restored_paths) outcome" where
  "restore_identity fs dto =
     (if pi_initial_cwd (pc_project_identity dto) = [] then Err RestoreInvalidProjectIdentity
      else
        and_then (restore_path fs (pi_initial_cwd (pc_project_identity dto))) (\<lambda>initial_cwd.
        and_then (restore_path fs (pc_workspace_root dto)) (\<lambda>workspace_root.
        and_then (restore_base fs (pc_path_base dto) workspace_root) (\<lambda>path_base.
          Ok \<lparr>rp_initial_cwd = initial_cwd, rp_workspace_root = workspace_root, rp_path_base = path_base,
              rp_fallback_eligible = (pc_worktree_kind dto = Primary \<and> pc_context_stack dto = [])\<rparr>))))"

definition restore_frame ::
  "file_system \<Rightarrow> workspace_id \<Rightarrow> persisted_frame \<Rightarrow> (workspace_restore_error, workspace_data) outcome" where
  "restore_frame fs wid persisted =
     and_then (restore_path fs (pf_workspace_root persisted)) (\<lambda>frame_root.
     and_then (restore_base fs (pf_path_base persisted) frame_root) (\<lambda>frame_base.
       Ok \<lparr>wd_id = wid, wd_path_base = frame_base, wd_workspace_root = frame_root,
           wd_worktree_kind = pf_worktree_kind persisted\<rparr>))"

definition restore_stack ::
  "file_system \<Rightarrow> persisted_context \<Rightarrow> (workspace_restore_error, workspace_data list) outcome" where
  "restore_stack fs dto = traverse (restore_frame fs (pc_workspace_id dto)) (pc_context_stack dto)"

section \<open>Git\<close>

definition probe_restore ::
  "git_port \<Rightarrow> file_system \<Rightarrow> raw_path \<Rightarrow> (workspace_restore_error, repository_probe) outcome" where
  "probe_restore git fs path = map_err RestoreGitProbeFailed (gp_probe_repository git fs path)"

definition validate_git_location ::
  "git_port \<Rightarrow> file_system \<Rightarrow> raw_path \<Rightarrow> raw_path option \<Rightarrow> raw_path \<Rightarrow> worktree_kind option \<Rightarrow>
     (workspace_restore_error, unit) outcome" where
  "validate_git_location git fs path expected_root expected_common expected_kind =
     and_then (probe_restore git fs path) (\<lambda>probe.
       case probe of
         GitRepository top_level common_dir kind \<Rightarrow>
           if same_path common_dir expected_common \<and>
              (case expected_root of None \<Rightarrow> True | Some root \<Rightarrow> same_path top_level root) \<and>
              (case expected_kind of None \<Rightarrow> True | Some k \<Rightarrow> kind = k)
           then Ok () else Err RestoreRepositoryMismatch
       | NonGitDirectory \<Rightarrow> Err RestoreRepositoryMismatch)"

definition invalid_shape :: "persisted_context \<Rightarrow> raw_path \<Rightarrow> workspace_data list \<Rightarrow> bool" where
  "invalid_shape dto common stack \<longleftrightarrow>
     \<not> is_absolute common \<or> pc_worktree_kind dto = NonGit \<or> 1 < length stack \<or>
     list_ex (\<lambda>f. wd_worktree_kind f \<noteq> Primary) stack \<or> (stack \<noteq> [] \<and> pc_worktree_kind dto \<noteq> Linked)"

fun validate_frames ::
  "git_port \<Rightarrow> file_system \<Rightarrow> raw_path \<Rightarrow> workspace_data list \<Rightarrow> (workspace_restore_error, unit) outcome" where
  "validate_frames git fs common [] = Ok ()"
| "validate_frames git fs common (f # frames) =
     and_then (validate_git_location git fs (wd_workspace_root f) (Some (wd_workspace_root f)) common
                 (Some (wd_worktree_kind f))) (\<lambda>_.
     and_then (validate_git_location git fs (wd_path_base f) (Some (wd_workspace_root f)) common
                 (Some (wd_worktree_kind f))) (\<lambda>_.
       validate_frames git fs common frames))"

definition base_location ::
  "git_port \<Rightarrow> file_system \<Rightarrow> persisted_context \<Rightarrow> raw_path \<Rightarrow> restored_paths \<Rightarrow>
     (workspace_restore_error, restored_paths) outcome" where
  "base_location git fs dto common paths =
     (case validate_git_location git fs (rp_path_base paths) (Some (rp_workspace_root paths)) common
             (Some (pc_worktree_kind dto)) of
        Err e \<Rightarrow>
          if rp_fallback_eligible paths then Ok (paths\<lparr>rp_path_base := rp_workspace_root paths\<rparr>) else Err e
      | Ok _ \<Rightarrow> Ok paths
      | Panic \<Rightarrow> Panic)"

definition restore_git_location ::
  "git_port \<Rightarrow> file_system \<Rightarrow> persisted_context \<Rightarrow> restored_paths \<Rightarrow> workspace_data list \<Rightarrow>
     (workspace_restore_error, project_identity \<times> restored_paths) outcome" where
  "restore_git_location git fs dto paths stack =
     (case pi_git_common_dir (pc_project_identity dto) of
        Some common \<Rightarrow>
          if common = [] then Err RestoreInvalidProjectIdentity
          else if invalid_shape dto common stack then Err RestoreInvalidStackShape
          else
            and_then (validate_git_location git fs (rp_initial_cwd paths) None common None) (\<lambda>_.
            and_then (validate_git_location git fs (rp_workspace_root paths) (Some (rp_workspace_root paths)) common
                        (Some (pc_worktree_kind dto))) (\<lambda>_.
            and_then (base_location git fs dto common paths) (\<lambda>paths'.
            and_then (validate_frames git fs common stack) (\<lambda>_.
              Ok (\<lparr>pi_initial_cwd = rp_initial_cwd paths', pi_git_common_dir = Some common\<rparr>, paths')))))
      | None \<Rightarrow>
          if pc_worktree_kind dto \<noteq> NonGit \<or> stack \<noteq> [] \<or>
             \<not> same_path (rp_workspace_root paths) (rp_initial_cwd paths)
          then Err RestoreInvalidStackShape
          else
            and_then (probe_restore git fs (rp_initial_cwd paths)) (\<lambda>initial.
            if initial \<noteq> NonGitDirectory then Err RestoreRepositoryMismatch
            else and_then (probe_restore git fs (rp_path_base paths)) (\<lambda>here.
              if here \<noteq> NonGitDirectory then Err RestoreRepositoryMismatch
              else Ok (\<lparr>pi_initial_cwd = rp_initial_cwd paths, pi_git_common_dir = None\<rparr>, paths))))"

section \<open>The candidate\<close>

definition restore_candidate ::
  "(nat list \<Rightarrow> nat list) \<Rightarrow> workspace_state \<Rightarrow> persisted_context \<Rightarrow> restored_paths \<Rightarrow> workspace_data list \<Rightarrow>
     project_identity \<Rightarrow> (workspace_restore_error, workspace_state) outcome" where
  "restore_candidate sha live dto paths stack identity =
     (if pc_workspace_id dto \<noteq> derive_id sha identity (rp_workspace_root paths) then Err RestoreWorkspaceIdMismatch
      else Ok \<lparr>ws_project_identity = identity, ws_workspace_root = rp_workspace_root paths,
               ws_path_base = rp_path_base paths, ws_worktree_kind = pc_worktree_kind dto,
               ws_worktrees_root = ws_worktrees_root live, ws_stack = stack\<rparr>)"

definition prepare_workspace_restore ::
  "(nat list \<Rightarrow> nat list) \<Rightarrow> git_port \<Rightarrow> file_system \<Rightarrow> persisted_context \<Rightarrow> workspace_state \<Rightarrow>
     (workspace_restore_error, workspace_state) outcome" where
  "prepare_workspace_restore sha git fs dto live =
     and_then (restore_identity fs dto) (\<lambda>paths.
     and_then (restore_stack fs dto) (\<lambda>stack.
     and_then (restore_git_location git fs dto paths stack) (\<lambda>(identity, paths').
       restore_candidate sha live dto paths' stack identity)))"

definition commit_workspace_restore :: "workspace_state \<Rightarrow> workspace_state \<Rightarrow> workspace_state" where
  "commit_workspace_restore candidate s = candidate"

end
