(* ===== verification/Project_Service.thy ===== *)
theory Project_Service
  imports Project_State
begin

text \<open>
  The service (\<open>service.rs\<close>, \<open>application.rs\<close>) and its construction (\<open>adapters/wiring.rs\<close>): the resolution of the
  paths that tools name, and the control operations, which compute a candidate from a copy of the state and
  replace the state only when they succeed. \<open>canonical\<close> stands for \<open>canonicalize\<close> on the file system at hand.
\<close>

section \<open>Resolving paths\<close>

definition max_path_depth :: nat where
  "max_path_depth = 64"

text \<open>The walk up to an ancestor that exists; the tail holds the names that were left.\<close>

function climb :: "(raw_path \<Rightarrow> (io_error_kind, raw_path) outcome) \<Rightarrow> raw_path \<Rightarrow> ustr list \<Rightarrow> raw_path option" where
  "climb canonical candidate tail =
     (case canonical candidate of
        Ok c \<Rightarrow> Some (foldl path_join c tail)
      | _ \<Rightarrow>
          (case parent candidate of
             None \<Rightarrow> None
           | Some p \<Rightarrow>
               climb canonical p (case file_name candidate of Some n \<Rightarrow> n # tail | None \<Rightarrow> tail)))"
  by pat_completeness auto
termination
  by (relation "measure (\<lambda>(_, p, _). length (components p))") (auto simp: parent_shorter)

declare climb.simps [simp del]

definition canonicalize_existing_ancestor ::
  "(raw_path \<Rightarrow> (io_error_kind, raw_path) outcome) \<Rightarrow> raw_path \<Rightarrow> raw_path" where
  "canonicalize_existing_ancestor canonical path =
     (case canonical path of
        Ok c \<Rightarrow> c
      | _ \<Rightarrow> (case climb canonical path [] of Some c \<Rightarrow> c | None \<Rightarrow> path))"

text \<open>The stack of \<open>lexical_normalize\<close>, its top first.\<close>

fun normalize_step :: "component list \<Rightarrow> component \<Rightarrow> component list" where
  "normalize_step stack CurDir = stack"
| "normalize_step stack ParentDir = (case stack of Normal _ # below \<Rightarrow> below | _ \<Rightarrow> stack)"
| "normalize_step stack RootDir = [RootDir]"
| "normalize_step stack (Normal n) = Normal n # stack"

definition lexical_normalize :: "raw_path \<Rightarrow> raw_path" where
  "lexical_normalize path = from_components (rev (foldl normalize_step [] (components path)))"

definition resolve_path ::
  "(raw_path \<Rightarrow> (io_error_kind, raw_path) outcome) \<Rightarrow> raw_path \<Rightarrow> raw_path \<Rightarrow> raw_path option \<Rightarrow> bool \<Rightarrow>
     (workspace_error, raw_path) outcome" where
  "resolve_path canonical path path_base workspace_root must_exist =
     (if max_path_depth < length (components path) then Err (PathTooDeep path)
      else
        let lexical = lexical_normalize (if is_absolute path then path else path_join path_base path) in
        and_then (if must_exist then map_err (\<lambda>_. CannotResolveSearchPath path) (canonical lexical)
                  else Ok (canonicalize_existing_ancestor canonical lexical)) (\<lambda>resolved.
          case workspace_root of
            None \<Rightarrow> Ok resolved
          | Some root \<Rightarrow>
              let workspace = (case canonical root of Ok c \<Rightarrow> c | _ \<Rightarrow> lexical_normalize root) in
              if starts_with resolved workspace then Ok resolved
              else Err (PathOutsideWorkspaceRoot resolved workspace)))"

section \<open>Reading\<close>

definition root_limit :: "authorization \<Rightarrow> workspace_state \<Rightarrow> raw_path option" where
  "root_limit auth s = (if au_allow_outside_workspace auth then None else Some (ws_workspace_root s))"

definition resolve_file_path ::
  "file_system \<Rightarrow> raw_path \<Rightarrow> authorization \<Rightarrow> workspace_state \<Rightarrow> (workspace_error, raw_path) outcome" where
  "resolve_file_path fs path auth s =
     resolve_path (canonicalize fs) path (ws_path_base s) (root_limit auth s) False"

definition resolve_search_path ::
  "file_system \<Rightarrow> raw_path \<Rightarrow> authorization \<Rightarrow> workspace_state \<Rightarrow> (workspace_error, raw_path) outcome" where
  "resolve_search_path fs path auth s =
     and_then (resolve_path (canonicalize fs) path (ws_path_base s) (root_limit auth s) True) (\<lambda>resolved.
       if is_dir fs resolved then Ok resolved else Err (NotDirectory resolved))"

definition in_worktree :: "workspace_state \<Rightarrow> bool" where
  "in_worktree s \<longleftrightarrow> ws_worktree_kind s = Linked"

definition service_current_branch ::
  "git_port \<Rightarrow> file_system \<Rightarrow> workspace_state \<Rightarrow> (workspace_error, ustr option) outcome" where
  "service_current_branch git fs s =
     (if ws_worktree_kind s = NonGit then Ok None
      else map_err GitOperationFailed (gp_current_branch git fs (ws_workspace_root s)))"

definition service_initial_cwd :: "workspace_state \<Rightarrow> raw_path" where
  "service_initial_cwd s = pi_initial_cwd (ws_project_identity s)"

section \<open>Control\<close>

datatype control_call =
    ChangeDirectory raw_path authorization
  | Enter "raw_path option" "ustr option" "ustr option"
  | Exit
  | CommitRestore workspace_state

datatype control_reply = ReplyDone | ReplyFrame workspace_data

text \<open>The use cases of \<open>application.rs\<close>: the candidate that a call would commit.\<close>

definition candidate_of ::
  "(nat list \<Rightarrow> nat list) \<Rightarrow> git_port \<Rightarrow> control_call \<Rightarrow> file_system \<Rightarrow> workspace_state \<Rightarrow>
     (workspace_error, control_reply) outcome \<times> workspace_state \<times> file_system" where
  "candidate_of sha git call fs live =
     (case call of
        ChangeDirectory path auth \<Rightarrow>
          (case change_directory fs path auth live of (r, s) \<Rightarrow> (map_ok (\<lambda>_. ReplyDone) r, s, fs))
      | Enter path branch base \<Rightarrow>
          (case enter sha git path branch base fs live of (r, s, fs') \<Rightarrow> (map_ok ReplyFrame r, s, fs'))
      | Exit \<Rightarrow> (case exit_worktree git fs live of (r, s) \<Rightarrow> (map_ok ReplyFrame r, s, fs))
      | CommitRestore candidate \<Rightarrow> (Ok ReplyDone, commit_workspace_restore candidate live, fs))"

text \<open>A call of the service: the candidate is committed on success only.\<close>

definition serve_control ::
  "(nat list \<Rightarrow> nat list) \<Rightarrow> git_port \<Rightarrow> control_call \<Rightarrow> file_system \<Rightarrow> workspace_state \<Rightarrow>
     (workspace_error, control_reply) outcome \<times> workspace_state \<times> file_system" where
  "serve_control sha git call fs live =
     (case candidate_of sha git call fs live of
        (Ok r, next_state, fs') \<Rightarrow> (Ok r, next_state, fs')
      | (failed, _, fs') \<Rightarrow> (failed, live, fs'))"

section \<open>Construction\<close>

definition resolve_worktrees_root :: "raw_path \<Rightarrow> raw_path option \<Rightarrow> raw_path \<Rightarrow> raw_path" where
  "resolve_worktrees_root global_dir worktrees_dir workspace_root =
     (case worktrees_dir of
        Some dir \<Rightarrow> if is_absolute dir then dir else path_join workspace_root dir
      | None \<Rightarrow> global_dir)"

definition init_io_error :: "raw_path \<Rightarrow> io_error_kind \<Rightarrow> workspace_init_error" where
  "init_io_error cwd error =
     (case error of
        NotFound \<Rightarrow> InitPathNotFound cwd
      | PermissionDenied \<Rightarrow> InitPermissionDenied cwd
      | OtherIo \<Rightarrow> InitCanonicalizeFailed cwd)"

definition build_workspace ::
  "git_port \<Rightarrow> raw_path \<Rightarrow> file_system \<Rightarrow> raw_path \<Rightarrow> raw_path option \<Rightarrow>
     (workspace_init_error, workspace_state) outcome" where
  "build_workspace git global_dir fs cwd worktrees_dir =
     and_then (map_err (init_io_error cwd) (metadata fs cwd)) (\<lambda>node.
     if \<not> is_directory node then Err (InitNotDirectory cwd)
     else
       and_then (map_err (init_io_error cwd) (canonicalize fs cwd)) (\<lambda>canonical.
       map_ok
         (\<lambda>probe.
            case probe of
              GitRepository top_level common_dir kind \<Rightarrow>
                from_verified \<lparr>pi_initial_cwd = canonical, pi_git_common_dir = Some common_dir\<rparr>
                  top_level canonical kind (resolve_worktrees_root global_dir worktrees_dir top_level)
            | NonGitDirectory \<Rightarrow>
                from_verified \<lparr>pi_initial_cwd = canonical, pi_git_common_dir = None\<rparr>
                  canonical canonical NonGit (resolve_worktrees_root global_dir worktrees_dir canonical))
         (map_err InitGitProbeFailed (gp_probe_repository git fs canonical))))"

end
