(* ===== verification/Project_Paths.thy ===== *)
theory Project_Paths
  imports Project_Service
begin

text \<open>
  What the resolution of paths guarantees. The locale \<open>canonical_naming\<close> is what \<open>resolve_path\<close> needs of a
  canonicalization; it is interpreted on the file system. Then the names that \<open>sanitize_branch_for_path\<close> builds.
\<close>

section \<open>Normalized paths\<close>

lemma normalize_body:
  "list_all body_part cs \<Longrightarrow> list_all clean_name ns \<Longrightarrow>
     \<exists>ms. list_all clean_name ms \<and>
       foldl normalize_step (map Normal (rev ns) @ [RootDir]) cs = map Normal (rev ms) @ [RootDir]"
proof (induction cs arbitrary: ns)
  case (Cons c cs)
  have "\<exists>ms. list_all clean_name ms \<and>
      normalize_step (map Normal (rev ns) @ [RootDir]) c = map Normal (rev ms) @ [RootDir]"
  proof (cases c)
    case ParentDir
    then show ?thesis
      using Cons.prems(2) by (intro exI [of _ "butlast ns"]; cases ns rule: rev_cases) auto
  next
    case (Normal n)
    then show ?thesis
      using Cons.prems by (intro exI [of _ "ns @ [n]"]) auto
  qed (use Cons.prems in auto)
  with Cons.IH Cons.prems(1) show ?case by (metis foldl_Cons list.pred_inject(2))
qed (metis foldl_Nil)

lemma lexical_normalize_absolute:
  assumes "is_absolute p"
  shows "\<exists>ns. list_all clean_name ns \<and> lexical_normalize p = abs_path ns"
proof -
  obtain cs where cs: "components p = RootDir # cs"
    using assms by (auto simp: components_def)
  then have "list_all body_part cs"
    using well_formed_components [of p] by (simp add: well_formed_def)
  then obtain ms where "list_all clean_name ms" "foldl normalize_step [RootDir] cs = map Normal (rev ms) @ [RootDir]"
    using normalize_body [of cs "[]"] by auto
  then show ?thesis
    by (auto simp: lexical_normalize_def cs abs_path_def rev_map [symmetric])
qed

lemma normalize_names: "foldl normalize_step stack (map Normal ns) = map Normal (rev ns) @ stack"
  by (induction ns arbitrary: stack) auto

lemma lexical_normalize_plain [simp]: "plain p \<Longrightarrow> lexical_normalize p = p"
  by (auto simp: plain_def lexical_normalize_def normalize_names rev_map [symmetric] abs_path_def [symmetric])

lemma plain_absolute: "plain p \<Longrightarrow> is_absolute p"
  by (auto simp: plain_def)

lemma path_join_absolute: "is_absolute base \<Longrightarrow> is_absolute (path_join base p)"
  by (cases base) (auto simp: path_join_def)

lemma joined_normal:
  "is_absolute base \<Longrightarrow>
     \<exists>ns. list_all clean_name ns \<and> lexical_normalize (if is_absolute p then p else path_join base p) = abs_path ns"
  using lexical_normalize_absolute path_join_absolute by simp

section \<open>Canonicalization\<close>

text \<open>The first \<open>k\<close> names of a path resolve to \<open>cs\<close>, and no longer part of it resolves.\<close>

definition resolves_up_to ::
  "(raw_path \<Rightarrow> (io_error_kind, raw_path) outcome) \<Rightarrow> ustr list \<Rightarrow> nat \<Rightarrow> ustr list \<Rightarrow> bool" where
  "resolves_up_to canonical ns k cs \<longleftrightarrow>
     k \<le> length ns \<and> list_all clean_name cs \<and> canonical (abs_path (take k ns)) = Ok (abs_path cs) \<and>
     (\<forall>j c. k < j \<and> j \<le> length ns \<longrightarrow> canonical (abs_path (take j ns)) \<noteq> Ok c)"

locale canonical_naming =
  fixes good :: "'fs \<Rightarrow> bool"
    and canonical :: "'fs \<Rightarrow> raw_path \<Rightarrow> (io_error_kind, raw_path) outcome"
  assumes canonical_plain: "good fs \<Longrightarrow> canonical fs p = Ok q \<Longrightarrow> plain q"
    and canonical_again: "good fs \<Longrightarrow> canonical fs p = Ok q \<Longrightarrow> canonical fs q = Ok q"
    and canonical_root: "good fs \<Longrightarrow> canonical fs (abs_path []) = Ok (abs_path [])"
    and canonical_returns: "canonical fs p \<noteq> Panic"
begin

lemma canonical_names:
  "good fs \<Longrightarrow> canonical fs p = Ok q \<Longrightarrow> \<exists>cs. list_all clean_name cs \<and> q = abs_path cs"
  using canonical_plain by (fastforce simp: plain_def)

lemma climb_resolves:
  assumes "good fs" "list_all clean_name ns"
  shows "\<exists>k cs. resolves_up_to (canonical fs) ns k cs \<and>
    climb (canonical fs) (abs_path ns) tail = Some (abs_path (cs @ drop k ns @ tail))"
  using assms(2)
proof (induction ns arbitrary: tail rule: rev_induct)
  case Nil
  have "climb (canonical fs) (abs_path []) tail = Some (abs_path tail)"
    using canonical_root [OF assms(1)] by (subst climb.simps) (simp add: join_clean_names)
  then show ?case
    using canonical_root [OF assms(1)] by (intro exI [of _ 0] exI [of _ "[]"]) (auto simp: resolves_up_to_def)
next
  case (snoc n ns)
  show ?case
  proof (cases "canonical fs (abs_path (ns @ [n]))")
    case (Ok c)
    then obtain cs where "list_all clean_name cs" "c = abs_path cs"
      using canonical_names [OF assms(1)] by blast
    then have "resolves_up_to (canonical fs) (ns @ [n]) (length (ns @ [n])) cs"
      "climb (canonical fs) (abs_path (ns @ [n])) tail = Some (abs_path (cs @ tail))"
      using Ok by (auto simp: resolves_up_to_def climb.simps [of _ "abs_path (ns @ [n])"] join_clean_names)
    then show ?thesis by (metis append.left_neutral drop_all order_refl)
  next
    case (Err e)
    from snoc obtain k cs where kc: "resolves_up_to (canonical fs) ns k cs"
      "climb (canonical fs) (abs_path ns) (n # tail) = Some (abs_path (cs @ drop k ns @ n # tail))"
      by (metis list_all_append)
    have "climb (canonical fs) (abs_path (ns @ [n])) tail = climb (canonical fs) (abs_path ns) (n # tail)"
      using snoc.prems by (subst climb.simps) (simp add: Err)
    moreover have "resolves_up_to (canonical fs) (ns @ [n]) k cs"
      using kc(1) Err by (auto simp: resolves_up_to_def le_Suc_eq)
    moreover have "k \<le> length ns" using kc(1) by (simp add: resolves_up_to_def)
    ultimately show ?thesis using kc(2) by (intro exI [of _ k] exI [of _ cs]) simp
  qed (simp add: canonical_returns)
qed

lemma existing_ancestor_resolves:
  assumes "good fs" "list_all clean_name ns"
  shows "\<exists>k cs. resolves_up_to (canonical fs) ns k cs \<and>
    canonicalize_existing_ancestor (canonical fs) (abs_path ns) = abs_path (cs @ drop k ns)"
proof (cases "canonical fs (abs_path ns)")
  case (Ok c)
  then obtain cs where "list_all clean_name cs" "c = abs_path cs"
    using canonical_names [OF assms(1)] by blast
  then show ?thesis
    using Ok by (intro exI [of _ "length ns"] exI [of _ cs])
      (simp add: resolves_up_to_def canonicalize_existing_ancestor_def)
next
  case (Err e)
  then show ?thesis
    using climb_resolves [OF assms, of "[]"] by (fastforce simp: canonicalize_existing_ancestor_def)
qed (simp add: canonical_returns)

lemma root_names:
  assumes "good fs" "plain root"
  shows "\<exists>rs. list_all clean_name rs \<and>
    (case canonical fs root of Ok c \<Rightarrow> c | _ \<Rightarrow> lexical_normalize root) = abs_path rs"
  using assms canonical_names [OF assms(1)]
  by (cases "canonical fs root") (auto simp: canonical_returns, simp add: plain_def)

text \<open>An accepted path lies under the root by its names, and is what the walk up left of the normalized path.\<close>

lemma accepted_path:
  assumes "good fs" "plain base" "plain root"
    and "resolve_path (canonical fs) path base (Some root) False = Ok p"
  shows "\<exists>ns k cs rs ts. list_all clean_name ns \<and> resolves_up_to (canonical fs) ns k cs \<and> p = abs_path (cs @ drop k ns) \<and>
    cs @ drop k ns = rs @ ts \<and> list_all clean_name (rs @ ts) \<and>
    (case canonical fs root of Ok c \<Rightarrow> c | _ \<Rightarrow> root) = abs_path rs"
proof -
  obtain ns where ns: "list_all clean_name ns"
    "lexical_normalize (if is_absolute path then path else path_join base path) = abs_path ns"
    using joined_normal plain_absolute [OF assms(2)] by blast
  obtain rs where rs: "list_all clean_name rs"
    "(case canonical fs root of Ok c \<Rightarrow> c | _ \<Rightarrow> lexical_normalize root) = abs_path rs"
    using root_names [OF assms(1,3)] by blast
  obtain k cs where kc: "resolves_up_to (canonical fs) ns k cs"
    "canonicalize_existing_ancestor (canonical fs) (abs_path ns) = abs_path (cs @ drop k ns)"
    using existing_ancestor_resolves [OF assms(1) ns(1)] by blast
  have p: "p = abs_path (cs @ drop k ns)" "starts_with p (abs_path rs)"
    using assms(4) kc(2) rs(2) by (auto simp: resolve_path_def ns(2) Let_def split: if_splits)
  moreover have clean: "list_all clean_name (cs @ drop k ns)"
    using kc(1) ns(1) by (auto simp: resolves_up_to_def list_all_iff dest: in_set_dropD)
  ultimately obtain ts where "cs @ drop k ns = rs @ ts"
    using starts_with_abs_path [OF clean rs(1)] by (auto elim: prefixE)
  then show ?thesis
    using ns(1) kc(1) p(1) rs(2) clean assms(3) by (metis lexical_normalize_plain)
qed

end

lemma canonicalize_root: "sane fs \<Longrightarrow> canonicalize fs (abs_path []) = Ok (abs_path [])"
  using lookup_path_abs_path [of fs "[]"] by (cases "fs_root fs") (auto simp: canonicalize_def sane_def)

interpretation names: canonical_naming sane canonicalize
  by unfold_locales (simp_all add: canonicalize_plain canonicalize_again canonicalize_root)

section \<open>Paths that do not resolve\<close>

lemma walk_append:
  "walk root links pos xs = Ok c \<Longrightarrow> \<exists>left. \<forall>ys. walk root links pos (xs @ ys) = walk root left c ys"
proof (induction root links pos xs rule: walk.induct)
  case (2 root links pos seg segs)
  from 2(7) obtain may_search w es where d: "inode_at root pos = Some (Directory may_search w es)"
    by (cases "inode_at root pos") (auto split: inode.splits)
  show ?case
    using 2(1-6) [OF d refl] 2(7) by (auto simp: d split: if_splits option.splits inode.splits)
qed auto

lemma lookup_names:
  assumes "sane fs" "list_all clean_name ns"
  shows "lookup_path fs (abs_path ns) = walk (fs_root fs) max_links [] ns"
proof -
  obtain x w es where "fs_root fs = Directory x w es"
    using assms(1) by (cases "fs_root fs") (auto simp: sane_def)
  moreover have "abs_path ns \<noteq> []"
    using abs_path_absolute [OF assms(2)] by auto
  ultimately show ?thesis
    using abs_path_absolute [OF assms(2)]
    by (simp add: lookup_path_def start_of_def split_abs_path [OF assms(2)])
qed

lemma walk_one:
  assumes "walk root links pos [n] = Err e" "walk root links' pos (n # ns) = Ok q" "clean_name n"
  shows "\<exists>target. inode_at root (pos @ [n]) = Some (Symlink target)"
proof -
  from assms(2) obtain may_search w es where d: "inode_at root pos = Some (Directory may_search w es)"
    by (cases "inode_at root pos") (auto split: inode.splits)
  with assms show ?thesis
    by (auto simp: inode_at_append clean_name_def split: if_splits option.splits inode.splits)
qed

declare walk.simps(2) [simp del]

text \<open>Where a walk up stopped although the rest of the path exists, there is a link.\<close>

lemma unresolved_is_link:
  assumes "sane fs" "list_all clean_name ns" "resolves_up_to (canonicalize fs) ns k cs" "k < length ns"
    and "canonicalize fs (abs_path (cs @ drop k ns)) = Ok q"
  shows "\<exists>target. inode_at (fs_root fs) (cs @ [ns ! k]) = Some (Symlink target)"
proof -
  have taken: "list_all clean_name (take k ns)" "clean_name (ns ! k)" and cs: "list_all clean_name cs"
    using assms(2,3,4) by (auto simp: list_all_iff resolves_up_to_def dest: in_set_takeD)
  have "canonicalize fs (abs_path (take k ns)) = Ok (abs_path cs)"
    using assms(3) by (simp add: resolves_up_to_def)
  then obtain cs' where cs': "lookup_path fs (abs_path (take k ns)) = Ok cs'" "abs_path cs' = abs_path cs"
    by (auto simp: canonicalize_def)
  then have reach: "reachable_at (fs_root fs) cs'"
    using lookup_path_reachable assms(1) by blast
  then have "cs' = cs"
    using cs' cs abs_path_inject reachable_at_clean by blast
  with cs' lookup_names [OF assms(1) taken(1)]
  have "walk (fs_root fs) max_links [] (take k ns) = Ok cs" by simp
  from walk_append [OF this] obtain left
    where left: "walk (fs_root fs) max_links [] (take k ns @ [ns ! k]) = walk (fs_root fs) left cs [ns ! k]" by blast
  have "\<forall>c. canonicalize fs (abs_path (take (Suc k) ns)) \<noteq> Ok c"
    using assms(3,4) by (auto simp: resolves_up_to_def)
  moreover have "list_all clean_name (take (Suc k) ns)"
    using assms(2) by (auto simp: list_all_iff dest: in_set_takeD)
  ultimately have "\<forall>c. walk (fs_root fs) left cs [ns ! k] \<noteq> Ok c"
    using left lookup_names [OF assms(1), of "take (Suc k) ns"] assms(4)
    by (auto simp: canonicalize_def take_Suc_conv_app_nth)
  then obtain e where "walk (fs_root fs) left cs [ns ! k] = Err e"
    by (cases "walk (fs_root fs) left cs [ns ! k]") (auto simp: walk_not_Panic)
  moreover have "walk (fs_root fs) max_links [] cs = Ok cs"
    using walk_straight [of _ "[]"] reach \<open>cs' = cs\<close> by simp
  from walk_append [OF this] obtain left'
    where "walk (fs_root fs) max_links [] (cs @ drop k ns) = walk (fs_root fs) left' cs (drop k ns)" by blast
  moreover have "list_all clean_name (cs @ drop k ns)"
    using assms(2) cs by (auto simp: list_all_iff dest: in_set_dropD)
  ultimately show ?thesis
    using walk_one taken(2) assms(4,5) lookup_names [OF assms(1), of "cs @ drop k ns"]
    by (auto simp: canonicalize_def Cons_nth_drop_Suc [symmetric])
qed

section \<open>Names for worktrees\<close>

lemma sanitize_chars_safe: "c \<in> set (sanitize_chars d s) \<Longrightarrow> safe_char c"
  by (induction d s rule: sanitize_chars.induct) (auto simp: safe_char_def split: if_splits)

lemma dropWhile_hd: "dropWhile p s \<noteq> [] \<Longrightarrow> \<not> p (hd (dropWhile p s))"
  by (induction s) auto

lemma trim_matches_subset: "set (trim_matches p s) \<subseteq> set s"
  by (auto simp: trim_matches_def dest!: set_dropWhileD)

lemma trim_matches_edges:
  assumes "trim_matches p s \<noteq> []"
  shows "\<not> p (hd (trim_matches p s)) \<and> \<not> p (last (trim_matches p s))"
proof -
  let ?d = "dropWhile p s" let ?r = "dropWhile p (rev ?d)"
  have r: "?r \<noteq> []" using assms by (simp add: trim_matches_def)
  then have "?d \<noteq> []" by (metis dropWhile.simps(1) rev.simps(1))
  obtain us where "rev ?d = us @ ?r" using takeWhile_dropWhile_id by metis
  then have "?d = rev ?r @ rev us" by (metis rev_append rev_rev_ident)
  then have "hd (rev ?r) = hd ?d" using r by (metis hd_append2 rev_is_Nil_conv)
  then show ?thesis
    using dropWhile_hd [OF r] dropWhile_hd [OF \<open>?d \<noteq> []\<close>] by (simp add: trim_matches_def last_rev)
qed

lemma sanitized_segment:
  assumes "sanitize_branch_for_path b = Ok seg"
  shows "seg \<noteq> [] \<and> (\<forall>c \<in> set seg. safe_char c) \<and> \<not> edge_char (hd seg) \<and> \<not> edge_char (last seg)"
  using assms trim_matches_edges trim_matches_subset sanitize_chars_safe
  by (fastforce simp: sanitize_branch_for_path_def Let_def split: if_splits)

lemma sanitized_clean:
  assumes "sanitize_branch_for_path b = Ok seg"
  shows "clean_name seg"
  using sanitized_segment [OF assms] by (auto simp: clean_name_def safe_char_def edge_char_def)

lemma sanitize_chars_id: "\<forall>c \<in> set s. safe_char c \<Longrightarrow> sanitize_chars d s = s"
  by (induction s arbitrary: d) auto

lemma dropWhile_neq_self: "s \<noteq> [] \<Longrightarrow> \<not> p (hd s) \<Longrightarrow> dropWhile p s = s"
  by (cases s) auto

lemma trim_matches_id: "s \<noteq> [] \<Longrightarrow> \<not> p (hd s) \<Longrightarrow> \<not> p (last s) \<Longrightarrow> trim_matches p s = s"
  by (simp add: trim_matches_def dropWhile_neq_self hd_rev)

lemma sanitize_again:
  assumes "sanitize_branch_for_path b = Ok seg"
  shows "sanitize_branch_for_path seg = Ok seg"
proof -
  note seg = sanitized_segment [OF assms]
  have blank: "\<not> is_whitespace c" if "safe_char c" for c
    using that by (auto simp: safe_char_def is_whitespace_def)
  have "trim seg = seg"
    using trim_matches_id [of seg is_whitespace] seg blank by (simp add: trim_def trim_matches_def)
  then show ?thesis
    using seg sanitize_chars_id trim_matches_id by (simp add: sanitize_branch_for_path_def)
qed

lemma split_on_join: "split_on c (s @ c # t) = split_on c s @ split_on c t"
  by (induction s) (auto split: list.split)

lemma components_join:
  assumes "clean_name n"
  shows "components (path_join p n) = components p @ [Normal n]"
proof -
  have n: "split_on slash n = [n]" "\<not> is_absolute n"
    using assms clean_piece piece_ends by (auto simp: clean_name_def split_on_no_sep)
  have parts: "body_component n = Some (Normal n)" "body_component [] = None"
    using assms body_piece [of "Normal n"] by (simp_all add: body_component_def)
  have filter_append: "List.map_filter f (xs @ ys) = List.map_filter f xs @ List.map_filter f ys" for f :: "ustr \<Rightarrow> component option" and xs ys
    by (simp add: List.map_filter_def)
  have hd_split: "hd (split_on slash (q @ slash # t)) = hd (split_on slash q)" for q t
    by (simp add: split_on_join)
  have abs: "is_absolute (q @ slash # t) = (is_absolute q \<or> q = [])" for q t
    by (cases q) auto
  consider "p = []" | q where "p = q @ [slash]" | "p \<noteq> []" "last p \<noteq> slash"
    by (cases p rule: rev_cases) auto
  then show ?thesis
  proof cases
    case 1
    then show ?thesis
      using n parts assms
      by (simp add: path_join_def components_def List.map_filter_simps clean_name_def)
  next
    case 2
    then show ?thesis
      using n parts by (auto simp: path_join_def components_def abs split_on_join filter_append List.map_filter_simps)
  next
    case 3
    then show ?thesis
      using n parts by (auto simp: path_join_def components_def abs split_on_join filter_append List.map_filter_simps)
  qed
qed

end
