(* ===== verification/Project_Invariant.thy ===== *)
theory Project_Invariant
  imports Project_Paths
begin

text \<open>
  The invariant of the workspace: its stack has at most one frame, of a primary checkout, and only while the
  workspace stands in a linked worktree; a project is outside of git exactly when it has no common directory; and
  every position is a plain path. \<open>git_laws\<close> is what this needs of the git port; the adapter keeps it for every
  program \<open>git\<close>. \<open>workspace_reachable\<close> are the states of the service, whatever happens to the file system.
\<close>

section \<open>The git port\<close>

locale git_laws =
  fixes git :: git_port
  assumes probe_plain: "sane fs \<Longrightarrow> gp_probe_repository git fs p = Ok (GitRepository t c k) \<Longrightarrow>
      plain t \<and> plain c \<and> k \<noteq> NonGit"
    and toplevel_plain: "sane fs \<Longrightarrow> gp_show_toplevel git fs p = Ok t \<Longrightarrow> plain t"

lemma read_probe_plain:
  assumes "sane fs" "read_probe fs p stdout = Ok (GitRepository t c k)"
  shows "plain t \<and> plain c \<and> k \<noteq> NonGit"
  using assms(2) canonicalize_plain [OF assms(1)]
  by (auto simp: read_probe_def resolve_git_path_def split: option.splits if_splits)

interpretation cli: git_laws "git_cli git" for git
proof unfold_locales
  fix fs p t c k
  assume "sane fs" "gp_probe_repository (git_cli git) fs p = Ok (GitRepository t c k)"
  then show "plain t \<and> plain c \<and> k \<noteq> NonGit"
    using read_probe_plain
    by (fastforce simp: git_cli_def probe_repository_def failed_probe_def Let_def split: if_splits option.splits)
next
  fix fs p t
  assume "sane fs" "gp_show_toplevel (git_cli git) fs p = Ok t"
  then show "plain t"
    using canonicalize_plain by (auto simp: git_cli_def show_toplevel_def)
qed

section \<open>The invariant\<close>

definition frame_ok :: "workspace_data \<Rightarrow> bool" where
  "frame_ok f \<longleftrightarrow> wd_worktree_kind f = Primary \<and> plain (wd_path_base f) \<and> plain (wd_workspace_root f)"

definition workspace_ok :: "workspace_state \<Rightarrow> bool" where
  "workspace_ok s \<longleftrightarrow>
     (ws_worktree_kind s = NonGit \<longleftrightarrow> pi_git_common_dir (ws_project_identity s) = None) \<and>
     (ws_stack s \<noteq> [] \<longrightarrow> ws_worktree_kind s = Linked) \<and> length (ws_stack s) \<le> 1 \<and>
     list_all frame_ok (ws_stack s) \<and> plain (ws_workspace_root s) \<and> plain (ws_path_base s)"

lemma workspace_okD:
  assumes "workspace_ok s"
  shows "plain (ws_workspace_root s)" "plain (ws_path_base s)" "list_all frame_ok (ws_stack s)"
    "length (ws_stack s) \<le> 1" "ws_stack s \<noteq> [] \<Longrightarrow> ws_worktree_kind s = Linked"
    "ws_worktree_kind s = NonGit \<longleftrightarrow> pi_git_common_dir (ws_project_identity s) = None"
  using assms by (simp_all add: workspace_ok_def)

lemma ok_derive_isolated: "workspace_ok s \<Longrightarrow> workspace_ok (derive_isolated s)"
  by (simp add: workspace_ok_def derive_isolated_def)

lemma ok_change_directory:
  assumes "workspace_ok s" "sane fs" "change_directory fs path auth s = (r, s')"
  shows "workspace_ok s'"
  using assms canonicalize_plain [OF assms(2)]
  by (auto simp: change_directory_def workspace_ok_def split: outcome.splits if_splits)

section \<open>Worktrees\<close>

text \<open>What a successful \<open>enter\<close> or \<open>exit\<close> has gone through.\<close>

lemma enter_OkE:
  assumes "enter sha git path branch base fs s = (Ok frame, s', fs')"
  obtains stk frame_base frame_root frame_kind target canonical root where
    "ws_worktree_kind s \<noteq> NonGit" "entry_frame git fs s = Ok (stk, frame_base, frame_root, frame_kind)"
    "resolve_worktree_path s path branch = Ok target" "create_if_missing git fs s target branch base = (Ok (), fs')"
    "validate_in_repo git fs' s target = Ok (canonical, root, Linked)"
    "frame = enter_frame sha s frame_base frame_root frame_kind"
    "s' = s\<lparr>ws_stack := stk @ [frame], ws_workspace_root := root, ws_path_base := canonical,
            ws_worktree_kind := Linked\<rparr>"
  using assms by (auto simp: enter_def Let_def split: if_splits outcome.splits prod.splits)

lemma enter_failed: "enter sha git path branch base fs s = (r, s', fs') \<Longrightarrow> (\<forall>x. r \<noteq> Ok x) \<Longrightarrow> s' = s"
  by (auto simp: enter_def Let_def split: if_splits outcome.splits prod.splits)

lemma exit_OkE:
  assumes "exit_worktree git fs s = (Ok frame, s')"
  obtains canonical root where
    "ws_worktree_kind s \<noteq> NonGit" "ws_stack s \<noteq> []" "frame = last (ws_stack s)"
    "validate_in_repo git fs s (wd_path_base frame) = Ok (canonical, root, wd_worktree_kind frame)"
    "same_path canonical (wd_path_base frame)" "same_path root (wd_workspace_root frame)"
    "s' = s\<lparr>ws_stack := butlast (ws_stack s), ws_workspace_root := root, ws_path_base := canonical,
            ws_worktree_kind := wd_worktree_kind frame\<rparr>"
  using assms by (auto simp: exit_worktree_def Let_def split: if_splits outcome.splits prod.splits)

lemma exit_failed: "exit_worktree git fs s = (r, s') \<Longrightarrow> (\<forall>x. r \<noteq> Ok x) \<Longrightarrow> s' = s"
  by (auto simp: exit_worktree_def Let_def split: if_splits outcome.splits prod.splits)

lemma validate_in_repo_OkE:
  assumes "validate_in_repo git fs s target = Ok (canonical, root, kind)"
  obtains top_level common expected where
    "canonicalize fs target = Ok canonical" "is_dir fs canonical" "gp_show_toplevel git fs canonical = Ok root"
    "gp_probe_repository git fs canonical = Ok (GitRepository top_level common kind)"
    "pi_git_common_dir (ws_project_identity s) = Some expected" "same_path common expected"
    "same_path top_level root"
proof -
  obtain probe where p: "canonicalize fs target = Ok canonical" "is_dir fs canonical"
    "gp_show_toplevel git fs canonical = Ok root" "gp_probe_repository git fs canonical = Ok probe"
    using assms
    by (auto simp: validate_in_repo_def split: if_splits, cases "\<exists>e. probe = e", auto split: repository_probe.splits if_splits)
  show thesis
    using assms p that
    by (cases probe; cases "pi_git_common_dir (ws_project_identity s)")
      (auto simp: validate_in_repo_def split: if_splits)
qed

context git_laws
begin

lemma validated:
  assumes "sane fs" "validate_in_repo git fs s target = Ok (c, root, kind)"
  shows "plain c \<and> plain root \<and> kind \<noteq> NonGit \<and> pi_git_common_dir (ws_project_identity s) \<noteq> None"
  using assms(2)
  by (rule validate_in_repo_OkE)
    (use canonicalize_plain [OF assms(1)] probe_plain [OF assms(1)] toplevel_plain [OF assms(1)] in auto)

lemma entry_frame_ok:
  assumes "workspace_ok s" "sane fs" "entry_frame git fs s = Ok (stk, base, root, kind)"
    "ws_worktree_kind s \<noteq> NonGit"
  shows "stk = [] \<and> base = ws_path_base s \<and> plain root \<and> kind = Primary"
proof (cases "ws_worktree_kind s = Linked")
  case True
  then obtain top_level c where "validate_in_repo git fs s top_level = Ok (c, root, Primary)"
    "stk = []" "base = ws_path_base s" "kind = Primary"
    using assms(3) by (auto simp: entry_frame_def split: if_splits)
  then show ?thesis using validated [OF assms(2)] by auto
next
  case False
  moreover from this have "ws_stack s = []"
    using workspace_okD(5) [OF assms(1)] by blast
  ultimately show ?thesis
    using assms(3,4) workspace_okD(1) [OF assms(1)]
    by (cases "ws_worktree_kind s") (auto simp: entry_frame_def)
qed

lemma ok_enter:
  assumes "workspace_ok s" "sane fs" "sane fs'" "enter sha git path branch base fs s = (r, s', fs')"
  shows "workspace_ok s'"
proof (cases "\<exists>frame. r = Ok frame")
  case True
  then obtain frame where "enter sha git path branch base fs s = (Ok frame, s', fs')"
    using assms(4) by blast
  then show ?thesis
  proof (rule enter_OkE)
    fix stk fb fr fk target c root
    assume "ws_worktree_kind s \<noteq> NonGit" "entry_frame git fs s = Ok (stk, fb, fr, fk)"
      "validate_in_repo git fs' s target = Ok (c, root, Linked)" "frame = enter_frame sha s fb fr fk"
      "s' = s\<lparr>ws_stack := stk @ [frame], ws_workspace_root := root, ws_path_base := c, ws_worktree_kind := Linked\<rparr>"
    then show ?thesis
      using entry_frame_ok [OF assms(1,2)] validated [OF assms(3)] workspace_okD(2) [OF assms(1)]
      by (fastforce simp: workspace_ok_def frame_ok_def enter_frame_def)
  qed
qed (use assms enter_failed in blast)

lemma ok_exit:
  assumes "workspace_ok s" "sane fs" "exit_worktree git fs s = (r, s')"
  shows "workspace_ok s'"
proof (cases "\<exists>frame. r = Ok frame")
  case True
  then obtain frame where "exit_worktree git fs s = (Ok frame, s')"
    using assms(3) by blast
  then show ?thesis
  proof (rule exit_OkE)
    fix c root
    assume v: "validate_in_repo git fs s (wd_path_base frame) = Ok (c, root, wd_worktree_kind frame)"
      and "ws_stack s \<noteq> []" "frame = last (ws_stack s)"
      and s': "s' = s\<lparr>ws_stack := butlast (ws_stack s), ws_workspace_root := root, ws_path_base := c,
                  ws_worktree_kind := wd_worktree_kind frame\<rparr>"
    have "butlast (ws_stack s) = []"
      using workspace_okD(4) [OF assms(1)] by (cases "ws_stack s") auto
    then show ?thesis
      using validated [OF assms(2) v] by (simp add: s' workspace_ok_def)
  qed
qed (use assms exit_failed in blast)

section \<open>Construction and restore\<close>

lemma ok_build:
  assumes "sane fs" "build_workspace git global_dir fs cwd dir = Ok s"
  shows "workspace_ok s"
proof -
  obtain canonical probe where p: "canonicalize fs cwd = Ok canonical" "gp_probe_repository git fs canonical = Ok probe"
    using assms(2) by (auto simp: build_workspace_def split: if_splits)
  show ?thesis
    using assms(2) canonicalize_plain [OF assms(1) p(1)] probe_plain [OF assms(1)] p
    by (cases probe) (auto simp: build_workspace_def workspace_ok_def from_verified_def split: if_splits)
qed

end

lemma restore_path_OkD: "restore_path fs raw = Ok p \<Longrightarrow> canonicalize fs raw = Ok p \<and> is_dir fs raw"
  by (auto simp: restore_path_def split: if_splits)

lemma restore_base_OkD:
  "restore_base fs raw root = Ok p \<Longrightarrow> p = root \<or> (restore_path fs raw = Ok p \<and> starts_with p root)"
  by (auto simp: restore_base_def validate_containment_def
      split: outcome.splits workspace_restore_error.splits if_splits)

lemma restore_path_plain: "sane fs \<Longrightarrow> restore_path fs raw = Ok p \<Longrightarrow> plain p"
  using restore_path_OkD canonicalize_plain by blast

lemma restore_base_plain: "sane fs \<Longrightarrow> plain root \<Longrightarrow> restore_base fs raw root = Ok p \<Longrightarrow> plain p"
  using restore_base_OkD restore_path_plain by blast

lemma restore_stack_plain:
  assumes "sane fs" "restore_stack fs dto = Ok stack" "f \<in> set stack"
  shows "plain (wd_path_base f) \<and> plain (wd_workspace_root f)"
proof -
  obtain p where "restore_frame fs (pc_workspace_id dto) p = Ok f"
    using traverse_OkD [OF assms(2) [unfolded restore_stack_def] assms(3)] by blast
  then show ?thesis
    by (auto simp: restore_frame_def intro: restore_path_plain [OF assms(1)] restore_base_plain [OF assms(1)])
qed

lemma restore_identity_plain:
  assumes "sane fs" "restore_identity fs dto = Ok paths"
  shows "plain (rp_workspace_root paths) \<and> plain (rp_path_base paths)"
  using assms(2)
  by (auto simp: restore_identity_def split: if_splits
      intro: restore_path_plain [OF assms(1)] restore_base_plain [OF assms(1)])

lemma base_location_paths:
  assumes "base_location git fs dto common paths = Ok paths'"
  shows "paths' = paths \<or> paths' = paths\<lparr>rp_path_base := rp_workspace_root paths\<rparr>"
  using assms by (auto simp: base_location_def split: outcome.splits if_splits)

lemma restore_git_location_paths:
  assumes "restore_git_location git fs dto paths stack = Ok (identity, paths')"
  shows "(paths' = paths \<or> paths' = paths\<lparr>rp_path_base := rp_workspace_root paths\<rparr>) \<and>
    pi_git_common_dir identity = pi_git_common_dir (pc_project_identity dto) \<and>
    (case pi_git_common_dir identity of
       None \<Rightarrow> pc_worktree_kind dto = NonGit \<and> stack = []
     | Some common \<Rightarrow> \<not> invalid_shape dto common stack)"
proof (cases "pi_git_common_dir (pc_project_identity dto)")
  case None
  then show ?thesis
    using assms by (auto simp: restore_git_location_def split: if_splits)
next
  case (Some common)
  then have "base_location git fs dto common paths = Ok paths'" "\<not> invalid_shape dto common stack"
    "pi_git_common_dir identity = Some common"
    using assms by (auto simp: restore_git_location_def split: if_splits)
  then show ?thesis
    using base_location_paths Some by auto
qed

lemma ok_prepare_restore:
  assumes "sane fs" "prepare_workspace_restore sha git fs dto live = Ok s"
  shows "workspace_ok s"
proof -
  obtain paths stack identity paths' where
    p: "restore_identity fs dto = Ok paths" and k: "restore_stack fs dto = Ok stack"
    and g: "restore_git_location git fs dto paths stack = Ok (identity, paths')"
    and c: "restore_candidate sha live dto paths' stack identity = Ok s"
    using assms(2) by (auto simp: prepare_workspace_restore_def)
  note git = restore_git_location_paths [OF g]
  have plain: "plain (rp_workspace_root paths')" "plain (rp_path_base paths')"
    using git restore_identity_plain [OF assms(1) p] by auto
  have s: "ws_project_identity s = identity" "ws_stack s = stack" "ws_worktree_kind s = pc_worktree_kind dto"
    "ws_workspace_root s = rp_workspace_root paths'" "ws_path_base s = rp_path_base paths'"
    using c by (auto simp: restore_candidate_def split: if_splits)
  show ?thesis
    using git plain restore_stack_plain [OF assms(1) k]
    by (auto simp: workspace_ok_def s invalid_shape_def frame_ok_def list_all_iff list_ex_iff split: option.splits)
qed

section \<open>Reachable states\<close>

inductive workspace_reachable :: "(nat list \<Rightarrow> nat list) \<Rightarrow> git_program \<Rightarrow> workspace_state \<Rightarrow> bool"
  for sha git where
  built: "sane fs \<Longrightarrow> build_workspace (git_cli git) global_dir fs cwd dir = Ok s \<Longrightarrow> workspace_reachable sha git s"
| derived: "workspace_reachable sha git s \<Longrightarrow> workspace_reachable sha git (derive_isolated s)"
| prepared: "workspace_reachable sha git live \<Longrightarrow> sane fs \<Longrightarrow>
    prepare_workspace_restore sha (git_cli git) fs dto live = Ok s \<Longrightarrow> workspace_reachable sha git s"
| served: "workspace_reachable sha git s \<Longrightarrow> sane fs \<Longrightarrow> serve_control sha (git_cli git) call fs s = (r, s', fs') \<Longrightarrow>
    sane fs' \<Longrightarrow> (\<And>c. call = CommitRestore c \<Longrightarrow> workspace_reachable sha git c) \<Longrightarrow> workspace_reachable sha git s'"

lemma ok_serve_control:
  assumes "workspace_ok s" "sane fs" "sane fs'" "serve_control sha (git_cli git) call fs s = (r, s', fs')"
    "\<And>c. call = CommitRestore c \<Longrightarrow> workspace_ok c"
  shows "workspace_ok s'"
proof (cases "s' = s")
  case False
  then obtain r' where run: "candidate_of sha (git_cli git) call fs s = (r', s', fs')"
    using assms(4) by (auto simp: serve_control_def split: prod.splits outcome.splits)
  show ?thesis
  proof (cases call)
    case ChangeDirectory
    then show ?thesis
      using run ok_change_directory [OF assms(1,2)] by (auto simp: candidate_of_def split: prod.splits)
  next
    case Enter
    then show ?thesis
      using run cli.ok_enter [OF assms(1,2,3)] by (auto simp: candidate_of_def split: prod.splits)
  next
    case Exit
    then show ?thesis
      using run cli.ok_exit [OF assms(1,2)] by (auto simp: candidate_of_def split: prod.splits)
  next
    case CommitRestore
    then show ?thesis
      using run assms(5) by (auto simp: candidate_of_def commit_workspace_restore_def)
  qed
qed (use assms(1) in simp)

lemma ok_reachable: "workspace_reachable sha git s \<Longrightarrow> workspace_ok s"
proof (induction rule: workspace_reachable.induct)
  case (served s fs call r s' fs')
  then show ?case using ok_serve_control by blast
qed (auto intro: cli.ok_build ok_derive_isolated ok_prepare_restore)

text \<open>
  The two locks of \<open>WorkspaceService\<close> (\<open>service.rs\<close>). A control call takes \<open>control_operation\<close> for its whole length,
  but the state's own lock only to copy the state and to replace it: git and the file system are asked in between,
  while readers go on. \<open>service_step\<close> is one step of any thread, or of the world outside. Every state that an
  interleaving shows is a state of calls that run one after the other.
\<close>

datatype phase =
    Idle
  | Waiting control_call
  | Holding control_call
  | Cloned control_call workspace_state
  | Computed workspace_state

record shared_service =
  sh_state :: workspace_state
  sh_control :: "nat option"
  sh_files :: file_system
  sh_phase :: "nat \<Rightarrow> phase"

definition at_phase :: "nat \<Rightarrow> phase \<Rightarrow> shared_service \<Rightarrow> shared_service" where
  "at_phase i p c = c\<lparr>sh_phase := (sh_phase c)(i := p)\<rparr>"

definition released :: "nat \<Rightarrow> shared_service \<Rightarrow> shared_service" where
  "released i c = at_phase i Idle (c\<lparr>sh_control := None\<rparr>)"

inductive service_step ::
  "(nat list \<Rightarrow> nat list) \<Rightarrow> git_port \<Rightarrow> shared_service \<Rightarrow> shared_service \<Rightarrow> bool" for sha git where
  arrive: "sh_phase c i = Idle \<Longrightarrow> service_step sha git c (at_phase i (Waiting call) c)"
| lock: "sh_phase c i = Waiting call \<Longrightarrow> sh_control c = None \<Longrightarrow>
    service_step sha git c (at_phase i (Holding call) (c\<lparr>sh_control := Some i\<rparr>))"
| clone: "sh_phase c i = Holding call \<Longrightarrow> (\<And>r. call \<noteq> CommitRestore r) \<Longrightarrow>
    service_step sha git c (at_phase i (Cloned call (sh_state c)) c)"
| compute: "sh_phase c i = Cloned call live \<Longrightarrow>
    candidate_of sha git call (sh_files c) live = (Ok reply, next_state, fs') \<Longrightarrow>
    service_step sha git c (at_phase i (Computed next_state) (c\<lparr>sh_files := fs'\<rparr>))"
| fail: "sh_phase c i = Cloned call live \<Longrightarrow>
    candidate_of sha git call (sh_files c) live = (r, next_state, fs') \<Longrightarrow> (\<And>reply. r \<noteq> Ok reply) \<Longrightarrow>
    service_step sha git c (released i (c\<lparr>sh_files := fs'\<rparr>))"
| commit: "sh_phase c i = Computed next_state \<Longrightarrow>
    service_step sha git c (released i (c\<lparr>sh_state := next_state\<rparr>))"
| restore: "sh_phase c i = Holding (CommitRestore candidate) \<Longrightarrow>
    service_step sha git c (released i (c\<lparr>sh_state := commit_workspace_restore candidate (sh_state c)\<rparr>))"
| outside: "service_step sha git c (c\<lparr>sh_files := fs'\<rparr>)"

text \<open>Calls one after the other, each on some file system.\<close>

inductive serial ::
  "(nat list \<Rightarrow> nat list) \<Rightarrow> git_port \<Rightarrow> workspace_state \<Rightarrow> workspace_state \<Rightarrow> bool" for sha git where
  none: "serial sha git s s"
| more: "serial sha git s s' \<Longrightarrow> serve_control sha git call fs s' = (Ok reply, s'', fs') \<Longrightarrow> serial sha git s s''"

definition idle_service :: "workspace_state \<Rightarrow> file_system \<Rightarrow> shared_service" where
  "idle_service s fs = \<lparr>sh_state = s, sh_control = None, sh_files = fs, sh_phase = \<lambda>_. Idle\<rparr>"

fun in_control :: "phase \<Rightarrow> bool" where
  "in_control Idle = False"
| "in_control (Waiting _) = False"
| "in_control _ = True"

definition phase_ok ::
  "(nat list \<Rightarrow> nat list) \<Rightarrow> git_port \<Rightarrow> workspace_state \<Rightarrow> phase \<Rightarrow> bool" where
  "phase_ok sha git s p \<longleftrightarrow>
     (case p of
        Cloned _ live \<Rightarrow> live = s
      | Computed next_state \<Rightarrow> \<exists>call fs reply fs'. candidate_of sha git call fs s = (Ok reply, next_state, fs')
      | _ \<Rightarrow> True)"

definition service_ok :: "(nat list \<Rightarrow> nat list) \<Rightarrow> git_port \<Rightarrow> shared_service \<Rightarrow> bool" where
  "service_ok sha git c \<longleftrightarrow>
     (\<forall>i. in_control (sh_phase c i) \<longrightarrow> sh_control c = Some i) \<and> (\<forall>i. phase_ok sha git (sh_state c) (sh_phase c i))"

lemma phase_ok_outside: "\<not> in_control p \<Longrightarrow> phase_ok sha git s p"
  by (cases p) (auto simp: phase_ok_def)

lemma service_ok_release:
  assumes "service_ok sha git c" "in_control (sh_phase c i)" "sh_phase c' = sh_phase c"
  shows "service_ok sha git (released i c')"
proof -
  have "\<not> in_control (sh_phase c j)" if "j \<noteq> i" for j
    using assms(1,2) that unfolding service_ok_def by (metis option.inject)
  then show ?thesis
    using assms(3) phase_ok_outside by (auto simp: service_ok_def released_def at_phase_def)
qed

lemma service_ok_at_phase:
  assumes "service_ok sha git c" "in_control p \<longrightarrow> sh_control c = Some i" "phase_ok sha git (sh_state c) p"
    "sh_phase c' = sh_phase c" "sh_control c' = sh_control c" "sh_state c' = sh_state c"
  shows "service_ok sha git (at_phase i p c')"
  using assms by (auto simp: service_ok_def at_phase_def)

lemma in_control_holder: "service_ok sha git c \<Longrightarrow> in_control (sh_phase c i) \<Longrightarrow> sh_control c = Some i"
  by (auto simp: service_ok_def)

lemma phase_okD: "service_ok sha git c \<Longrightarrow> phase_ok sha git (sh_state c) (sh_phase c i)"
  by (auto simp: service_ok_def)

lemma service_ok_step:
  assumes "service_step sha git c c'" "service_ok sha git c"
  shows "service_ok sha git c'"
  using assms
proof (cases rule: service_step.cases)
  case (lock i call)
  have "\<not> in_control (sh_phase c j)" for j
    using assms(2) lock(3) by (auto simp: service_ok_def)
  then show ?thesis
    using lock(1) phase_ok_outside by (auto simp: service_ok_def at_phase_def phase_ok_def)
next
  case (compute i call live reply next_state fs')
  have "live = sh_state c"
    using phase_okD [OF assms(2), of i] compute(2) by (simp add: phase_ok_def)
  then have "phase_ok sha git (sh_state c) (Computed next_state)"
    using compute(3) by (auto simp: phase_ok_def)
  then show ?thesis
    using compute(1,2) in_control_holder [OF assms(2), of i] by (auto intro: service_ok_at_phase [OF assms(2)])
next
  case (fail i call live r next_state fs')
  then show ?thesis by (auto intro: service_ok_release [OF assms(2)])
next
  case (commit i next_state)
  then show ?thesis by (auto intro: service_ok_release [OF assms(2)])
next
  case (restore i candidate)
  then show ?thesis by (auto intro: service_ok_release [OF assms(2)])
next
  case (arrive i call)
  then show ?thesis by (auto intro: service_ok_at_phase [OF assms(2)] simp: phase_ok_def)
next
  case (clone i call)
  then show ?thesis
    using in_control_holder [OF assms(2), of i] by (auto intro: service_ok_at_phase [OF assms(2)] simp: phase_ok_def)
qed (use assms(2) in \<open>auto simp: service_ok_def\<close>)

text \<open>A step that changes the state is one whole call on the state it replaces.\<close>

lemma step_serves:
  assumes "service_step sha git c c'" "service_ok sha git c"
  shows "sh_state c' = sh_state c \<or>
    (\<exists>call fs reply fs'. serve_control sha git call fs (sh_state c) = (Ok reply, sh_state c', fs'))"
  using assms(1)
proof (cases rule: service_step.cases)
  case (commit i next_state)
  then obtain call fs reply fs' where "candidate_of sha git call fs (sh_state c) = (Ok reply, next_state, fs')"
    using phase_okD [OF assms(2), of i] by (auto simp: phase_ok_def)
  then have "serve_control sha git call fs (sh_state c) = (Ok reply, sh_state c', fs')"
    using commit(1) by (simp add: serve_control_def released_def at_phase_def)
  then show ?thesis by blast
next
  case (restore i candidate)
  then have "serve_control sha git (CommitRestore candidate) fs (sh_state c) = (Ok ReplyDone, sh_state c', fs)" for fs
    by (simp add: serve_control_def candidate_of_def released_def at_phase_def)
  then show ?thesis by blast
qed (auto simp: at_phase_def released_def)

lemma service_ok_idle: "service_ok sha git (idle_service s fs)"
  by (simp add: service_ok_def idle_service_def phase_ok_def)

lemma steps_serial:
  assumes "(service_step sha git)\<^sup>*\<^sup>* (idle_service s fs) c"
  shows "service_ok sha git c \<and> serial sha git s (sh_state c)"
  using assms
proof (induction rule: rtranclp_induct)
  case base
  then show ?case using service_ok_idle serial.none by (simp add: idle_service_def)
next
  case (step c c')
  then show ?case
    using service_ok_step step_serves by (metis serial.more)
qed

end
