(* ===== verification/Project_Moves.thy ===== *)
theory Project_Moves
  imports Project_Invariant
begin

text \<open>
  What the moves of a workspace do: which changes of directory are accepted, that leaving a worktree undoes
  entering it, what a restore accepts and what it gives back.
\<close>

section \<open>Changing the directory\<close>

definition inside_root :: "file_system \<Rightarrow> workspace_state \<Rightarrow> raw_path \<Rightarrow> bool" where
  "inside_root fs s p \<longleftrightarrow> (\<exists>root. canonicalize fs (ws_workspace_root s) = Ok root \<and> starts_with p root)"

lemma change_directory_Ok:
  assumes "sane fs"
  shows "change_directory fs path auth s = (Ok (), s') \<longleftrightarrow>
    (\<exists>c. canonicalize fs path = Ok c \<and> is_dir fs path \<and> (au_allow_outside_workspace auth \<or> inside_root fs s c) \<and>
       s' = s\<lparr>ws_path_base := c\<rparr>)"
  using is_dir_canonical [OF assms]
  by (cases "canonicalize fs path"; cases "canonicalize fs (ws_workspace_root s)")
    (auto simp: change_directory_def inside_root_def split: if_splits)

lemma change_directory_failed: "change_directory fs path auth s = (r, s') \<Longrightarrow> r \<noteq> Ok () \<Longrightarrow> s' = s"
  by (auto simp: change_directory_def split: outcome.splits if_splits)

section \<open>Leaving what was entered\<close>

lemma validate_in_repo_identity:
  assumes "ws_project_identity s = ws_project_identity s'"
  shows "validate_in_repo git fs s target = Ok v \<longleftrightarrow> validate_in_repo git fs s' target = Ok v"
  using assms by (auto simp: validate_in_repo_def split: repository_probe.splits option.splits if_splits)


lemma exit_OkI:
  assumes "ws_worktree_kind s \<noteq> NonGit" "ws_stack s = [frame]"
    "validate_in_repo git fs s (wd_path_base frame) = Ok (c, root, wd_worktree_kind frame)"
    "c = wd_path_base frame" "root = wd_workspace_root frame"
  shows "exit_worktree git fs s =
    (Ok frame, s\<lparr>ws_stack := [], ws_workspace_root := root, ws_path_base := c,
       ws_worktree_kind := wd_worktree_kind frame\<rparr>)"
  using assms by (simp add: exit_worktree_def)

context git_laws
begin

lemma enter_from_primary:
  assumes "workspace_ok s" "ws_worktree_kind s = Primary" "enter sha git path branch base fs s = (Ok frame, s', fs')"
  shows "frame = enter_frame sha s (ws_path_base s) (ws_workspace_root s) Primary \<and> ws_stack s = [] \<and>
    (\<exists>root c. s' = s\<lparr>ws_stack := [frame], ws_workspace_root := root, ws_path_base := c, ws_worktree_kind := Linked\<rparr>)"
  using assms(3)
proof (rule enter_OkE)
  fix stk fb fr fk target c root
  assume fr: "entry_frame git fs s = Ok (stk, fb, fr, fk)" "frame = enter_frame sha s fb fr fk"
    and s': "s' = s\<lparr>ws_stack := stk @ [frame], ws_workspace_root := root, ws_path_base := c, ws_worktree_kind := Linked\<rparr>"
  have "ws_stack s = []"
    using workspace_okD(5) [OF assms(1)] assms(2) by auto
  with fr show ?thesis
    using assms(2) by (auto simp: s' entry_frame_def)
qed

lemma exit_returns:
  assumes "workspace_ok s" "ws_worktree_kind s = Primary" "enter sha git path branch base fs s = (Ok frame, s', fs')"
    and "sane gs"
  shows "exit_worktree git gs s' = (Ok f, t) \<longleftrightarrow>
    validate_in_repo git gs s (ws_path_base s) = Ok (ws_path_base s, ws_workspace_root s, Primary) \<and> f = frame \<and> t = s"
    (is "?left \<longleftrightarrow> ?right")
proof -
  obtain root' c' where frame: "frame = enter_frame sha s (ws_path_base s) (ws_workspace_root s) Primary"
    and empty: "ws_stack s = []"
    and s': "s' = s\<lparr>ws_stack := [frame], ws_workspace_root := root', ws_path_base := c', ws_worktree_kind := Linked\<rparr>"
    using enter_from_primary [OF assms(1-3)] by blast
  have same: "validate_in_repo git gs s' p = Ok v \<longleftrightarrow> validate_in_repo git gs s p = Ok v" for p v
    by (rule validate_in_repo_identity) (simp add: s')
  have rewind: "s\<lparr>ws_stack := [], ws_workspace_root := ws_workspace_root s, ws_path_base := ws_path_base s,
      ws_worktree_kind := Primary\<rparr> = s"
    using empty assms(2) by (cases s) simp
  note plain = workspace_okD(1,2) [OF assms(1)]
  show ?thesis
  proof
    assume ?left
    then show ?right
    proof (rule exit_OkE)
      fix c root
      assume x: "f = last (ws_stack s')"
        "validate_in_repo git gs s' (wd_path_base f) = Ok (c, root, wd_worktree_kind f)"
        "same_path c (wd_path_base f)" "same_path root (wd_workspace_root f)"
        "t = s'\<lparr>ws_stack := butlast (ws_stack s'), ws_workspace_root := root, ws_path_base := c,
                ws_worktree_kind := wd_worktree_kind f\<rparr>"
      have "plain c" "plain root" using validated [OF assms(4) x(2)] by auto
      moreover have f: "f = frame" "wd_path_base f = ws_path_base s" "wd_workspace_root f = ws_workspace_root s"
        "wd_worktree_kind f = Primary"
        using x(1) by (simp_all add: s' frame enter_frame_def)
      ultimately have here: "c = ws_path_base s" "root = ws_workspace_root s"
        using x(3,4) plain by (auto simp: plain_same_path)
      have "t = s"
        using x(5) rewind by (simp add: s' here f(4))
      moreover have "validate_in_repo git gs s (ws_path_base s) = Ok (ws_path_base s, ws_workspace_root s, Primary)"
        using x(2) unfolding f(2,4) here same .
      ultimately show ?right using f(1) by blast
    qed
  next
    assume right: ?right
    have f: "wd_path_base frame = ws_path_base s" "wd_workspace_root frame = ws_workspace_root s"
      "wd_worktree_kind frame = Primary" "ws_stack s' = [frame]" "ws_worktree_kind s' \<noteq> NonGit"
      by (simp_all add: s' frame enter_frame_def)
    have "validate_in_repo git gs s' (wd_path_base frame) = Ok (ws_path_base s, ws_workspace_root s, wd_worktree_kind frame)"
      unfolding same f using right by blast
    from exit_OkI [OF f(5,4) this] f
    have "exit_worktree git gs s' = (Ok frame, s'\<lparr>ws_stack := [], ws_workspace_root := ws_workspace_root s,
        ws_path_base := ws_path_base s, ws_worktree_kind := Primary\<rparr>)"
      by metis
    moreover have "s'\<lparr>ws_stack := [], ws_workspace_root := ws_workspace_root s, ws_path_base := ws_path_base s,
        ws_worktree_kind := Primary\<rparr> = s"
      using rewind by (simp add: s')
    ultimately show ?left using right by metis
  qed
qed

end

section \<open>Restoring what was saved\<close>

text \<open>A directory that is its own canonical path; and a workspace whose places are all still what they were.\<close>

definition stands :: "file_system \<Rightarrow> raw_path \<Rightarrow> bool" where
  "stands fs p \<longleftrightarrow> canonicalize fs p = Ok p \<and> is_dir fs p"

definition frame_stands :: "file_system \<Rightarrow> workspace_data \<Rightarrow> bool" where
  "frame_stands fs f \<longleftrightarrow>
     stands fs (wd_workspace_root f) \<and> stands fs (wd_path_base f) \<and> starts_with (wd_path_base f) (wd_workspace_root f)"

definition settled :: "git_port \<Rightarrow> file_system \<Rightarrow> workspace_state \<Rightarrow> bool" where
  "settled git fs s \<longleftrightarrow>
     stands fs (pi_initial_cwd (ws_project_identity s)) \<and> stands fs (ws_workspace_root s) \<and>
     stands fs (ws_path_base s) \<and> starts_with (ws_path_base s) (ws_workspace_root s) \<and>
     list_all (frame_stands fs) (ws_stack s) \<and>
     (case pi_git_common_dir (ws_project_identity s) of
        Some common \<Rightarrow>
          is_absolute common \<and>
          validate_git_location git fs (pi_initial_cwd (ws_project_identity s)) None common None = Ok () \<and>
          validate_git_location git fs (ws_workspace_root s) (Some (ws_workspace_root s)) common
            (Some (ws_worktree_kind s)) = Ok () \<and>
          validate_git_location git fs (ws_path_base s) (Some (ws_workspace_root s)) common
            (Some (ws_worktree_kind s)) = Ok () \<and>
          validate_frames git fs common (ws_stack s) = Ok ()
      | None \<Rightarrow>
          same_path (ws_workspace_root s) (pi_initial_cwd (ws_project_identity s)) \<and>
          probe_restore git fs (pi_initial_cwd (ws_project_identity s)) = Ok NonGitDirectory \<and>
          probe_restore git fs (ws_path_base s) = Ok NonGitDirectory)"

lemma stands_restores: "stands fs p \<Longrightarrow> p \<noteq> [] \<and> restore_path fs p = Ok p"
  by (auto simp: stands_def restore_path_def is_dir_exists)
    (simp add: canonicalize_def lookup_path_def)

lemma restore_base_inside: "stands fs p \<Longrightarrow> starts_with p root \<Longrightarrow> restore_base fs p root = Ok p"
  using stands_restores by (simp add: restore_base_def validate_containment_def)

definition with_id :: "workspace_id \<Rightarrow> workspace_data \<Rightarrow> workspace_data" where
  "with_id i f = f\<lparr>wd_id := i\<rparr>"

lemma with_id_simps [simp]:
  "wd_path_base (with_id i f) = wd_path_base f" "wd_workspace_root (with_id i f) = wd_workspace_root f"
  "wd_worktree_kind (with_id i f) = wd_worktree_kind f" "wd_id (with_id i f) = i"
  by (simp_all add: with_id_def)

lemma restore_frame_snapshot:
  assumes "frame_stands fs f"
  shows "restore_frame fs i (snapshot_frame f) = Ok (with_id i f)"
  using assms stands_restores restore_base_inside
  by (cases f) (simp add: restore_frame_def snapshot_frame_def frame_stands_def with_id_def)

lemma validate_frames_with_id: "validate_frames git fs common (map (with_id i) stack) = validate_frames git fs common stack"
  by (induction stack) simp_all

lemma restore_stack_snapshot:
  assumes "list_all (frame_stands fs) (ws_stack s)"
  shows "restore_stack fs (take_snapshot sha s) = Ok (map (with_id (current_id sha s)) (ws_stack s))"
proof -
  have "traverse (restore_frame fs i) (map snapshot_frame fr) = Ok (map (with_id i) fr)"
    if "list_all (frame_stands fs) fr" for i fr
    using that restore_frame_snapshot by (induction fr) simp_all
  then show ?thesis
    using assms by (simp add: restore_stack_def take_snapshot_def)
qed

lemma snapshot_restores:
  assumes "workspace_ok s" "settled git fs s"
  shows "prepare_workspace_restore sha git fs (take_snapshot sha s) live =
    Ok (s\<lparr>ws_worktrees_root := ws_worktrees_root live,
          ws_stack := map (with_id (current_id sha s)) (ws_stack s)\<rparr>)"
proof -
  let ?dto = "take_snapshot sha s" and ?stack = "map (with_id (current_id sha s)) (ws_stack s)"
  let ?paths = "\<lparr>rp_initial_cwd = pi_initial_cwd (ws_project_identity s), rp_workspace_root = ws_workspace_root s,
    rp_path_base = ws_path_base s,
    rp_fallback_eligible = (ws_worktree_kind s = Primary \<and> ws_stack s = [])\<rparr>"
  have i: "restore_identity fs ?dto = Ok ?paths"
    using assms(2) stands_restores [of fs "pi_initial_cwd (ws_project_identity s)"]
      stands_restores [of fs "ws_workspace_root s"] restore_base_inside
    by (simp add: restore_identity_def take_snapshot_def settled_def)
  have k: "restore_stack fs ?dto = Ok ?stack"
    using assms(2) restore_stack_snapshot by (simp add: settled_def)
  have g: "restore_git_location git fs ?dto ?paths ?stack = Ok (ws_project_identity s, ?paths)"
  proof (cases "pi_git_common_dir (ws_project_identity s)")
    case None
    then show ?thesis
      using assms workspace_okD [OF assms(1)]
      by (cases "ws_project_identity s") (auto simp: restore_git_location_def take_snapshot_def settled_def)
  next
    case (Some common)
    then have "\<not> invalid_shape ?dto common ?stack" "common \<noteq> []"
      using assms workspace_okD [OF assms(1)]
      by (auto simp: invalid_shape_def take_snapshot_def settled_def list_ex_iff list_all_iff frame_ok_def)
    then show ?thesis
      using Some assms(2) validate_frames_with_id
      by (cases "ws_project_identity s")
        (simp add: restore_git_location_def take_snapshot_def settled_def base_location_def)
  qed
  have c: "restore_candidate sha live ?dto ?paths ?stack (ws_project_identity s) =
      Ok (s\<lparr>ws_worktrees_root := ws_worktrees_root live, ws_stack := ?stack\<rparr>)"
    by (cases s) (simp add: restore_candidate_def take_snapshot_def current_id_def)
  show ?thesis
    by (simp only: prepare_workspace_restore_def i k g c and_then.simps prod.case)
qed

section \<open>What a restore accepts\<close>

lemma restore_base_total: "\<exists>p. restore_base fs raw root = Ok p \<and> (p = root \<or> starts_with p root)"
  by (cases "canonicalize fs raw")
    (auto simp: restore_base_def restore_path_def validate_containment_def split: outcome.splits)

lemma validate_git_location_OkD:
  "validate_git_location git fs p (Some root) common (Some kind) = Ok () \<Longrightarrow>
     \<exists>t c. gp_probe_repository git fs p = Ok (GitRepository t c kind) \<and> same_path t root \<and> same_path c common"
  by (cases "gp_probe_repository git fs p"; cases "ok_value (gp_probe_repository git fs p)")
    (auto simp: validate_git_location_def probe_restore_def split: if_splits)

lemma validate_git_location_Panic:
  "validate_git_location git fs p root common kind = Panic \<Longrightarrow> gp_probe_repository git fs p = Panic"
  by (cases "gp_probe_repository git fs p"; cases "ok_value (gp_probe_repository git fs p)")
    (auto simp: validate_git_location_def probe_restore_def split: if_splits option.splits)

text \<open>The place of a workspace in its repository, as git has confirmed it.\<close>

definition confirmed :: "git_port \<Rightarrow> file_system \<Rightarrow> raw_path \<Rightarrow> raw_path \<Rightarrow> worktree_kind \<Rightarrow> raw_path \<Rightarrow> bool" where
  "confirmed git fs common root kind p \<longleftrightarrow>
     (\<exists>t c. gp_probe_repository git fs p = Ok (GitRepository t c kind) \<and> same_path t root \<and> same_path c common)"

lemma base_location_confirmed:
  assumes "base_location git fs dto common paths = Ok paths'"
    "confirmed git fs common (rp_workspace_root paths) (pc_worktree_kind dto) (rp_workspace_root paths)"
  shows "rp_workspace_root paths' = rp_workspace_root paths \<and>
    confirmed git fs common (rp_workspace_root paths) (pc_worktree_kind dto) (rp_path_base paths')"
  using assms validate_git_location_OkD
  by (auto simp: base_location_def confirmed_def split: outcome.splits if_splits)

lemma validate_frames_confirmed:
  "validate_frames git fs common stack = Ok () \<Longrightarrow> f \<in> set stack \<Longrightarrow>
     confirmed git fs common (wd_workspace_root f) (wd_worktree_kind f) (wd_workspace_root f) \<and>
     confirmed git fs common (wd_workspace_root f) (wd_worktree_kind f) (wd_path_base f)"
  using validate_git_location_OkD by (induction stack) (auto simp: confirmed_def)

lemma restore_stack_inside:
  assumes "restore_stack fs dto = Ok stack" "f \<in> set stack"
  shows "starts_with (wd_path_base f) (wd_workspace_root f)"
proof -
  obtain p where "restore_frame fs (pc_workspace_id dto) p = Ok f"
    using traverse_OkD [OF assms(1) [unfolded restore_stack_def] assms(2)] by blast
  then show ?thesis
    by (auto simp: restore_frame_def dest: restore_base_OkD)
qed

lemma restore_identity_inside:
  assumes "restore_identity fs dto = Ok paths"
  shows "starts_with (rp_path_base paths) (rp_workspace_root paths)"
  using assms by (auto simp: restore_identity_def split: if_splits dest: restore_base_OkD)

text \<open>A lost working directory never stands in the way of a session in a primary checkout.\<close>

lemma base_location_returns:
  assumes "rp_fallback_eligible paths" "\<And>p. gp_probe_repository git fs p \<noteq> Panic"
  shows "\<exists>paths'. base_location git fs dto common paths = Ok paths'"
  using assms validate_git_location_Panic by (fastforce simp: base_location_def split: outcome.splits)

lemma restore_survives_lost_directory:
  assumes "prepare_workspace_restore sha git fs dto live = Ok s"
    and "pc_worktree_kind dto = Primary" "pc_context_stack dto = []"
    and "pi_git_common_dir (pc_project_identity dto) = Some common" "\<And>p. gp_probe_repository git fs p \<noteq> Panic"
  shows "\<exists>s'. prepare_workspace_restore sha git fs (dto\<lparr>pc_path_base := lost\<rparr>) live = Ok s'"
proof -
  let ?dto = "dto\<lparr>pc_path_base := lost\<rparr>"
  obtain paths stack identity paths' where
    p: "restore_identity fs dto = Ok paths" and k: "restore_stack fs dto = Ok stack"
    and g: "restore_git_location git fs dto paths stack = Ok (identity, paths')"
    and c: "restore_candidate sha live dto paths' stack identity = Ok s"
    using assms(1) by (auto simp: prepare_workspace_restore_def)
  have stack: "stack = []" using k assms(3) by (simp add: restore_stack_def)
  obtain base where "restore_base fs lost (rp_workspace_root paths) = Ok base"
    using restore_base_total by blast
  then have p': "restore_identity fs ?dto = Ok (paths\<lparr>rp_path_base := base\<rparr>)"
    using p by (auto simp: restore_identity_def split: if_splits)
  have "rp_fallback_eligible paths"
    using p assms(2,3) by (auto simp: restore_identity_def split: if_splits)
  then obtain paths'' where b: "base_location git fs ?dto common (paths\<lparr>rp_path_base := base\<rparr>) = Ok paths''"
    using base_location_returns [of "paths\<lparr>rp_path_base := base\<rparr>" git fs] assms(5) by fastforce
  have same: "rp_workspace_root paths'' = rp_workspace_root paths" "rp_initial_cwd paths'' = rp_initial_cwd paths"
    "rp_workspace_root paths' = rp_workspace_root paths" "rp_initial_cwd paths' = rp_initial_cwd paths"
    using base_location_paths [OF b] restore_git_location_paths [OF g] by auto
  have "identity = \<lparr>pi_initial_cwd = rp_initial_cwd paths, pi_git_common_dir = Some common\<rparr>"
    using g assms(4) same by (auto simp: restore_git_location_def split: if_splits)
  moreover have "restore_git_location git fs ?dto (paths\<lparr>rp_path_base := base\<rparr>) [] = Ok (identity, paths'')"
    using g assms(4) b same calculation by (auto simp: restore_git_location_def stack invalid_shape_def split: if_splits)
  moreover have "restore_stack fs ?dto = Ok []"
    using assms(3) by (simp add: restore_stack_def)
  ultimately show ?thesis
    using c p' same by (auto simp: prepare_workspace_restore_def restore_candidate_def split: if_splits)
qed

end
