(* ===== verification/Project_Demo.thy ===== *)
theory Project_Demo
  imports Project_Moves "HOL-Library.Code_Target_Nat"
begin

text \<open>
  A concrete machine, for evaluation: a repository at \<open>/r\<close> with its git directory \<open>/r/g\<close>, a linked worktree of it
  at \<open>/w/r/b\<close>, a directory \<open>/t\<close> outside, and a program \<open>git\<close> that knows the two checkouts. Names are single
  letters, as character codes. And the behaviours of the workspace that its documentation does not promise.
\<close>

abbreviation dir :: "(ustr \<times> inode) list \<Rightarrow> inode" where
  "dir \<equiv> Directory True True"

text \<open>In \<open>/r\<close>: the git directory, a directory \<open>s\<close>, a link \<open>l\<close> to \<open>/t/n\<close>, a link \<open>h\<close> to \<open>.\<close>, a link \<open>o\<close> to \<open>/t\<close>.\<close>

definition site_repo :: "(ustr \<times> inode) list" where
  "site_repo = [([103], dir [([119], dir [])]), ([115], dir []), ([108], Symlink [47, 116, 47, 110]),
     ([104], Symlink [46]), ([111], Symlink [47, 116])]"

definition site_files :: file_system where
  "site_files = \<lparr>fs_root = dir [([114], dir site_repo), ([119], dir [([114], dir [([98], dir [])])]), ([116], dir [])],
     fs_cwd = []\<rparr>"

definition site_place :: "raw_path \<Rightarrow> (raw_path \<times> raw_path) option" where
  "site_place cwd =
     (if starts_with cwd [47, 114] then Some ([47, 114], [47, 114, 47, 103])
      else if starts_with cwd [47, 119, 47, 114, 47, 98] then Some ([47, 119, 47, 114, 47, 98], [47, 114, 47, 103, 47, 119])
      else None)"

definition site_answer :: "file_system \<Rightarrow> raw_path \<Rightarrow> ustr list \<Rightarrow> (io_error_kind, git_command_output) outcome" where
  "site_answer fs cwd args =
     Ok (case site_place cwd of
           None \<Rightarrow> \<lparr>go_success = False, go_exit_code = Some 128, go_stdout = Some [],
                    go_stderr = lit ''fatal: not a git repository''\<rparr>
         | Some (toplevel, git_dir) \<Rightarrow>
             \<lparr>go_success = True, go_exit_code = Some 0,
              go_stdout = Some (toplevel @ [10] @
                (if length args = 4 then [47, 114, 47, 103] @ [10] @ git_dir @ [10] else [])),
              go_stderr = []\<rparr>)"

definition site_git :: git_program where
  "site_git = \<lparr>git_answer = site_answer, git_effect = \<lambda>fs _ _. fs\<rparr>"

definition site_sha :: "nat list \<Rightarrow> nat list" where
  "site_sha bs = bs"

definition site_workspace :: workspace_state where
  "site_workspace =
     (case build_workspace (git_cli site_git) [47, 119] site_files [47, 114] None of
        Ok s \<Rightarrow> s
      | _ \<Rightarrow> from_verified \<lparr>pi_initial_cwd = [], pi_git_common_dir = None\<rparr> [] [] NonGit [])"

lemma site_sane: "sane site_files"
  by code_simp

lemma site_built: "build_workspace (git_cli site_git) [47, 119] site_files [47, 114] None = Ok site_workspace"
  by code_simp

lemma site_reachable: "workspace_reachable site_sha site_git site_workspace"
  using workspace_reachable.built [OF site_sane site_built] .

definition site_enter :: "(workspace_error, workspace_data) outcome \<times> workspace_state \<times> file_system" where
  "site_enter = enter site_sha (git_cli site_git) None (Some [98]) None site_files site_workspace"

lemma site_entered: "ws_worktree_kind (fst (snd site_enter)) = Linked" "snd (snd site_enter) = site_files"
  "length (ws_stack (fst (snd site_enter))) = 1"
  by code_simp+

lemma site_fresh: "ws_stack site_workspace = []"
  by code_simp

section \<open>Findings\<close>

text \<open>A file path that ends in a link to a file that does not exist yet is accepted, and leads outside.\<close>

lemma finding_dangling_link_accepted:
  "resolve_file_path site_files [108] auth_standard site_workspace = Ok [47, 114, 47, 108]"
  "inode_at (fs_root site_files) [[114], [108]] = Some (Symlink [47, 116, 47, 110])"
  by code_simp+

text \<open>Forty links on the way use up what the kernel follows: the link behind them is accepted unseen.\<close>

definition long_way :: raw_path where
  "long_way = concat (replicate 40 [104, 47]) @ [111]"

lemma finding_long_way_accepted:
  "resolve_file_path site_files long_way auth_standard site_workspace = Ok [47, 114, 47, 111]"
  "canonicalize site_files [47, 114, 47, 111] = Ok [47, 116]"
  "resolve_file_path site_files [111] auth_standard site_workspace = Err (PathOutsideWorkspaceRoot [47, 116] [47, 114])"
  by code_simp+

text \<open>After an authorized move out of the repository a worktree can be entered and not be left any more.\<close>

definition site_drifted :: workspace_state where
  "site_drifted = snd (change_directory site_files [47, 116] auth_allow_all site_workspace)"

definition site_stuck :: workspace_state where
  "site_stuck = fst (snd (enter site_sha (git_cli site_git) None (Some [98]) None site_files site_drifted))"

lemma finding_drifted_worktree_cannot_be_left:
  "ws_worktree_kind site_stuck = Linked"
  "fst (exit_worktree (git_cli site_git) site_files site_stuck) = Err (GitOperationFailed (OpCommandFailed (Some 128)))"
  by code_simp+

text \<open>Different branches share a directory: entering one of them ends in the worktree of the other.\<close>

lemma finding_branches_share_directory:
  "sanitize_branch_for_path [97, 47, 98] = sanitize_branch_for_path [97, 45, 98]"
  "sanitize_branch_for_path [64, 98] = sanitize_branch_for_path [98]"
  "fst (snd (enter site_sha (git_cli site_git) None (Some [64, 98]) None site_files site_workspace)) =
     fst (snd site_enter)"
  by code_simp+

text \<open>The frame of a restored workspace carries the identifier of the worktree, not of the place it stands for.\<close>

lemma finding_restored_frame_id:
  "map wd_id (ws_stack (fst (snd site_enter))) = [current_id site_sha site_workspace]"
  "map_ok (\<lambda>s. map wd_id (ws_stack s))
     (prepare_workspace_restore site_sha (git_cli site_git) site_files
       (take_snapshot site_sha (fst (snd site_enter))) site_workspace) =
   Ok [current_id site_sha (fst (snd site_enter))]"
  "current_id site_sha site_workspace \<noteq> current_id site_sha (fst (snd site_enter))"
  by code_simp+

text \<open>Lines of git are trimmed, so a repository whose name ends in a blank is taken for its neighbour.\<close>

definition blank_files :: file_system where
  "blank_files = \<lparr>fs_root = dir [([114], dir []), ([114, 32], dir [([103], dir [])])], fs_cwd = []\<rparr>"

definition blank_git :: git_program where
  "blank_git =
     \<lparr>git_answer = \<lambda>fs cwd args. Ok \<lparr>go_success = True, go_exit_code = Some 0,
          go_stdout = Some ([47, 114, 32] @ [10] @ [103] @ [10] @ [103] @ [10]), go_stderr = []\<rparr>,
      git_effect = \<lambda>fs _ _. fs\<rparr>"

lemma finding_trimmed_toplevel:
  "map_ok (\<lambda>s. (ws_path_base s, ws_workspace_root s))
     (build_workspace (git_cli blank_git) [] blank_files [47, 114, 32] None) = Ok ([47, 114, 32], [47, 114])"
  by code_simp

end
