(* ===== verification/Project_Properties.thy ===== *)
theory Project_Properties
  imports Project_Demo
begin

text \<open>
  The properties of the Project context: where tools may reach (C34), how worktrees are named (C35), what every
  workspace satisfies (C36), leaving and entering worktrees (C37), saving and restoring (C38, C39), and calls
  from several threads (C40).
\<close>

section \<open>Reaching files\<close>

text \<open>
  C34: Without authorization a tool is handed only paths below the workspace root, by names and without dots.
  And following such a path leads nowhere else, unless a symbolic link stands at the first of its names that
  the resolution could not follow.
\<close>

theorem accepted_paths_stay_inside:
  assumes "workspace_reachable sha git s" "sane fs" "\<not> au_allow_outside_workspace auth"
    and "resolve_file_path fs path auth s = Ok p"
  shows "\<exists>rs ts. list_all clean_name (rs @ ts) \<and> p = abs_path (rs @ ts) \<and>
    (case canonicalize fs (ws_workspace_root s) of Ok root \<Rightarrow> root | _ \<Rightarrow> ws_workspace_root s) = abs_path rs \<and>
    (\<forall>q. canonicalize fs p = Ok q \<longrightarrow>
       q = p \<or> (\<exists>cs n rest target. rs @ ts = cs @ n # rest \<and> canonicalize fs (abs_path cs) = Ok (abs_path cs) \<and>
                  inode_at (fs_root fs) (cs @ [n]) = Some (Symlink target)))"
proof -
  note ok = workspace_okD(1,2) [OF ok_reachable [OF assms(1)]]
  have "resolve_path (canonicalize fs) path (ws_path_base s) (Some (ws_workspace_root s)) False = Ok p"
    using assms(3,4) by (simp add: resolve_file_path_def root_limit_def)
  from names.accepted_path [OF assms(2) ok(2,1) this] obtain ns k cs rs ts where
    ns: "list_all clean_name ns" "resolves_up_to (canonicalize fs) ns k cs" and p: "p = abs_path (cs @ drop k ns)"
    and split: "cs @ drop k ns = rs @ ts" "list_all clean_name (rs @ ts)"
    and root: "(case canonicalize fs (ws_workspace_root s) of Ok c \<Rightarrow> c | _ \<Rightarrow> ws_workspace_root s) = abs_path rs"
    by blast
  have cs: "canonicalize fs (abs_path cs) = Ok (abs_path cs)"
    using ns(2) canonicalize_again [OF assms(2)] by (auto simp: resolves_up_to_def)
  have "q = p \<or> (\<exists>cs n rest target. rs @ ts = cs @ n # rest \<and> canonicalize fs (abs_path cs) = Ok (abs_path cs) \<and>
      inode_at (fs_root fs) (cs @ [n]) = Some (Symlink target))" if q: "canonicalize fs p = Ok q" for q
  proof (cases "k < length ns")
    case True
    with unresolved_is_link [OF assms(2) ns True] q p obtain target
      where "inode_at (fs_root fs) (cs @ [ns ! k]) = Some (Symlink target)" by blast
    then show ?thesis
      using cs split(1) True by (metis Cons_nth_drop_Suc)
  next
    case False
    then show ?thesis using q cs by (simp add: p)
  qed
  then show ?thesis using p split root by metis
qed

theorem accepted_paths_stay_inside_witness:
  "\<exists>rs ts. list_all clean_name (rs @ ts) \<and> [47, 114, 47, 115, 47, 110] = abs_path (rs @ ts) \<and>
    (case canonicalize site_files (ws_workspace_root site_workspace) of
       Ok root \<Rightarrow> root | _ \<Rightarrow> ws_workspace_root site_workspace) = abs_path rs \<and>
    (\<forall>q. canonicalize site_files [47, 114, 47, 115, 47, 110] = Ok q \<longrightarrow>
       q = [47, 114, 47, 115, 47, 110] \<or>
       (\<exists>cs n rest target. rs @ ts = cs @ n # rest \<and> canonicalize site_files (abs_path cs) = Ok (abs_path cs) \<and>
          inode_at (fs_root site_files) (cs @ [n]) = Some (Symlink target)))"
proof -
  have "resolve_file_path site_files [115, 47, 46, 46, 47, 115, 47, 110] auth_standard site_workspace =
      Ok [47, 114, 47, 115, 47, 110]"
    by code_simp
  from accepted_paths_stay_inside [OF site_reachable site_sane _ this] show ?thesis
    by (simp add: auth_standard_def)
qed

section \<open>Naming worktrees\<close>

text \<open>
  C35: Whatever a branch is called, the directory of its worktree lies exactly two names below the worktrees
  root: the cleaned names of the repository and of the branch, of letters, digits and inner dots, dashes and
  underscores. Cleaning a cleaned name changes nothing.
\<close>

theorem worktree_directories_are_named:
  assumes "resolve_worktree_path s None (Some branch) = Ok p"
  shows "\<exists>repo seg. components p = components (ws_worktrees_root s) @ [Normal repo, Normal seg] \<and>
    (\<forall>n \<in> {repo, seg}. clean_name n \<and> (\<forall>c \<in> set n. safe_char c) \<and> \<not> edge_char (hd n) \<and> \<not> edge_char (last n) \<and>
       sanitize_branch_for_path n = Ok n) \<and>
    workspace_repo_segment s = Ok repo \<and> sanitize_branch_for_path branch = Ok seg"
proof -
  obtain repo seg where rs: "workspace_repo_segment s = Ok repo" "sanitize_branch_for_path branch = Ok seg"
    and p: "p = path_join (path_join (ws_worktrees_root s) repo) seg"
    using assms by (auto simp: resolve_worktree_path_def split: if_splits)
  obtain name where name: "sanitize_branch_for_path name = Ok repo"
    using rs(1) by (auto simp: workspace_repo_segment_def)
  then show ?thesis
    using rs p components_join sanitized_clean sanitized_segment sanitize_again by fastforce
qed

theorem worktree_directories_are_named_witness:
  "\<exists>repo seg. components [47, 119, 47, 114, 47, 97, 45, 98] =
      components (ws_worktrees_root site_workspace) @ [Normal repo, Normal seg] \<and>
    (\<forall>n \<in> {repo, seg}. clean_name n \<and> (\<forall>c \<in> set n. safe_char c) \<and> \<not> edge_char (hd n) \<and> \<not> edge_char (last n) \<and>
       sanitize_branch_for_path n = Ok n) \<and>
    workspace_repo_segment site_workspace = Ok repo \<and>
    sanitize_branch_for_path [46, 46, 47, 97, 47, 47, 98] = Ok seg"
proof -
  have "resolve_worktree_path site_workspace None (Some [46, 46, 47, 97, 47, 47, 98]) = Ok [47, 119, 47, 114, 47, 97, 45, 98]"
    by code_simp
  then show ?thesis by (rule worktree_directories_are_named)
qed

section \<open>The workspace\<close>

text \<open>
  C36: Every workspace the service can come to, over any file system, any answers of git, restored sessions and
  derived agents, keeps the invariant: at most one frame, of a primary checkout and only inside a linked
  worktree; outside of git exactly without a common directory; and plain paths everywhere. In particular
  \<open>enter\<close> never meets a stack outside of a linked worktree, and every snapshot has a shape a restore accepts.
\<close>

theorem reachable_workspaces_are_sound:
  assumes "workspace_reachable sha git s"
  shows "workspace_ok s \<and> (ws_worktree_kind s \<noteq> Linked \<longrightarrow> ws_stack s = []) \<and>
    (\<forall>common. pi_git_common_dir (ws_project_identity s) = Some common \<and> is_absolute common \<longrightarrow>
       \<not> invalid_shape (take_snapshot sha s) common (ws_stack s))"
proof -
  have ok: "workspace_ok s" using ok_reachable [OF assms] .
  then show ?thesis
    using workspace_okD(4,5,6) [OF ok] workspace_okD(3) [OF ok]
    by (auto simp: invalid_shape_def take_snapshot_def list_ex_iff list_all_iff frame_ok_def)
qed

theorem reachable_workspaces_are_sound_witness:
  "workspace_ok (fst (snd site_enter)) \<and> length (ws_stack (fst (snd site_enter))) = 1"
proof -
  obtain r s where e: "site_enter = (r, s, site_files)"
    using site_entered(2) by (metis prod.collapse)
  have "\<exists>frame. r = Ok frame"
    using site_entered(3) enter_failed [of site_sha "git_cli site_git" None "Some [98]" None site_files site_workspace r s]
    by (metis e fst_conv list.size(3) site_enter_def site_fresh snd_conv zero_neq_one)
  then have "serve_control site_sha (git_cli site_git) (Enter None (Some [98]) None) site_files site_workspace =
      (map_ok ReplyFrame r, s, site_files)"
    using e by (auto simp: serve_control_def candidate_of_def site_enter_def)
  then have "workspace_reachable site_sha site_git s"
    using workspace_reachable.served [OF site_reachable site_sane] site_sane by blast
  from reachable_workspaces_are_sound [OF this] site_entered(3) show ?thesis by (simp add: e)
qed

text \<open>
  C37: Leaving a worktree undoes entering it. From a primary checkout, after \<open>enter\<close>, \<open>exit\<close> succeeds exactly
  when git still finds the place that was left in the same checkout of the same repository, and then the whole
  workspace is as before, and the frame handed out is the one \<open>enter\<close> reported. When it fails nothing moves.
\<close>

theorem exit_undoes_enter:
  assumes "workspace_reachable sha git s" "ws_worktree_kind s = Primary"
    and "enter sha (git_cli git) path branch base fs s = (Ok frame, s', fs')" "sane gs"
  shows "(exit_worktree (git_cli git) gs s' = (Ok f, t) \<longleftrightarrow>
      validate_in_repo (git_cli git) gs s (ws_path_base s) = Ok (ws_path_base s, ws_workspace_root s, Primary) \<and>
      f = frame \<and> t = s) \<and>
    (exit_worktree (git_cli git) gs s' = (Err e, t) \<longrightarrow> t = s')"
  using cli.exit_returns [OF ok_reachable [OF assms(1)] assms(2,3,4)] exit_failed by blast

theorem exit_undoes_enter_witness:
  "fst (snd site_enter) \<noteq> site_workspace \<and> (\<exists>f. exit_worktree (git_cli site_git) site_files (fst (snd site_enter)) = (Ok f, site_workspace))"
proof -
  have primary: "ws_worktree_kind site_workspace = Primary" by code_simp
  obtain r s where e: "site_enter = (r, s, site_files)"
    using site_entered(2) by (metis prod.collapse)
  have "s \<noteq> site_workspace" using site_entered(1) primary by (auto simp: e)
  then obtain frame where "enter site_sha (git_cli site_git) None (Some [98]) None site_files site_workspace =
      (Ok frame, s, site_files)"
    using e enter_failed unfolding site_enter_def by blast
  moreover have "validate_in_repo (git_cli site_git) site_files site_workspace (ws_path_base site_workspace) =
      Ok (ws_path_base site_workspace, ws_workspace_root site_workspace, Primary)"
    by code_simp
  ultimately have "exit_worktree (git_cli site_git) site_files s = (Ok frame, site_workspace)"
    using exit_undoes_enter [OF site_reachable primary _ site_sane] by blast
  then show ?thesis using \<open>s \<noteq> site_workspace\<close> by (auto simp: e)
qed

section \<open>Sessions\<close>

text \<open>
  C38: A saved workspace is restored. While the places it names stand and git says of them what it said, the
  snapshot is accepted by any running workspace and yields the saved one: position, kind, identity, stack. Only
  the directory for new worktrees is the running one's, and the frames carry the workspace's identifier.
\<close>

theorem saved_workspace_is_restored:
  assumes "workspace_reachable sha git s" "settled (git_cli git) fs s"
  shows "prepare_workspace_restore sha (git_cli git) fs (take_snapshot sha s) live =
    Ok (s\<lparr>ws_worktrees_root := ws_worktrees_root live,
          ws_stack := map (with_id (current_id sha s)) (ws_stack s)\<rparr>)"
  using snapshot_restores [OF ok_reachable [OF assms(1)] assms(2)] .

theorem saved_workspace_is_restored_witness:
  "prepare_workspace_restore site_sha (git_cli site_git) site_files (take_snapshot site_sha site_workspace) site_workspace =
    Ok site_workspace"
proof -
  have "settled (git_cli site_git) site_files site_workspace" by code_simp
  from saved_workspace_is_restored [OF site_reachable this, of site_workspace] show ?thesis
    using site_fresh by simp
qed

text \<open>
  C39: Whatever was persisted, a workspace that a restore accepts stands inside its root, and so do its frames;
  in a git project git has confirmed root, directory and frames as lying in checkouts of the persisted
  repository, of the persisted kind; otherwise git knows no repository there. Its identifier is the persisted one.
\<close>

theorem restored_workspace_is_confirmed:
  assumes "prepare_workspace_restore sha git fs dto live = Ok s"
  shows "(\<forall>(base, root) \<in> set ((ws_path_base s, ws_workspace_root s) #
             map (\<lambda>f. (wd_path_base f, wd_workspace_root f)) (ws_stack s)). starts_with base root) \<and>
    (case pi_git_common_dir (pc_project_identity dto) of
       Some common \<Rightarrow>
         (\<forall>(base, root, kind) \<in> set ((ws_path_base s, ws_workspace_root s, pc_worktree_kind dto) #
             map (\<lambda>f. (wd_path_base f, wd_workspace_root f, Primary)) (ws_stack s)).
            confirmed git fs common root kind root \<and> confirmed git fs common root kind base)
     | None \<Rightarrow> gp_probe_repository git fs (ws_path_base s) = Ok NonGitDirectory \<and> ws_stack s = []) \<and>
    ws_worktree_kind s = pc_worktree_kind dto \<and> current_id sha s = pc_workspace_id dto"
proof -
  obtain paths stack identity paths' where
    p: "restore_identity fs dto = Ok paths" and k: "restore_stack fs dto = Ok stack"
    and g: "restore_git_location git fs dto paths stack = Ok (identity, paths')"
    and c: "restore_candidate sha live dto paths' stack identity = Ok s"
    using assms by (auto simp: prepare_workspace_restore_def)
  have s: "ws_project_identity s = identity" "ws_stack s = stack" "ws_worktree_kind s = pc_worktree_kind dto"
    "ws_workspace_root s = rp_workspace_root paths'" "ws_path_base s = rp_path_base paths'"
    "current_id sha s = pc_workspace_id dto"
    using c by (auto simp: restore_candidate_def current_id_def split: if_splits)
  have inside: "starts_with (rp_path_base paths') (rp_workspace_root paths')"
    using restore_git_location_paths [OF g] restore_identity_inside [OF p] by auto
  have location: "case pi_git_common_dir (pc_project_identity dto) of
       Some common \<Rightarrow>
         (\<forall>(base, root, kind) \<in> set ((ws_path_base s, ws_workspace_root s, pc_worktree_kind dto) #
             map (\<lambda>f. (wd_path_base f, wd_workspace_root f, Primary)) (ws_stack s)).
            confirmed git fs common root kind root \<and> confirmed git fs common root kind base)
     | None \<Rightarrow> gp_probe_repository git fs (ws_path_base s) = Ok NonGitDirectory \<and> ws_stack s = []"
  proof (cases "pi_git_common_dir (pc_project_identity dto)")
    case None
    then show ?thesis
      using g by (auto simp: restore_git_location_def probe_restore_def s split: if_splits)
  next
    case (Some common)
    then have shape: "\<not> invalid_shape dto common stack"
      and root: "confirmed git fs common (rp_workspace_root paths) (pc_worktree_kind dto) (rp_workspace_root paths)"
      and base: "base_location git fs dto common paths = Ok paths'"
      and frames: "validate_frames git fs common stack = Ok ()"
      using g validate_git_location_OkD
      by (auto simp: restore_git_location_def confirmed_def split: if_splits)
    have "wd_worktree_kind f = Primary" if "f \<in> set stack" for f
      using shape that by (auto simp: invalid_shape_def list_ex_iff)
    then show ?thesis
      using base_location_confirmed [OF base root] root validate_frames_confirmed [OF frames]
      by (fastforce simp: Some s)
  qed
  show ?thesis
    using inside location restore_stack_inside [OF k] s by auto
qed

theorem restored_workspace_is_confirmed_witness:
  "confirmed (git_cli site_git) site_files [47, 114, 47, 103] [47, 114] Primary [47, 114]"
proof -
  have "prepare_workspace_restore site_sha (git_cli site_git) site_files (take_snapshot site_sha site_workspace)
      site_workspace = Ok site_workspace"
    "pi_git_common_dir (pc_project_identity (take_snapshot site_sha site_workspace)) = Some [47, 114, 47, 103]"
    "pc_worktree_kind (take_snapshot site_sha site_workspace) = Primary" "ws_workspace_root site_workspace = [47, 114]"
    by code_simp+
  from restored_workspace_is_confirmed [OF this(1)] this(2-4) show ?thesis by simp
qed

section \<open>Sharing\<close>

text \<open>
  C40: Control calls of any number of threads, interleaved in every way with each other and with changes of the
  file system, never lose an update: every state a reader can see is the state after some sequence of whole
  calls, and each step that changes it is one whole call made on the state it replaces.
\<close>

theorem service_is_serializable:
  assumes "(service_step sha git)\<^sup>*\<^sup>* (idle_service s fs) c"
  shows "serial sha git s (sh_state c) \<and>
    (\<forall>c'. service_step sha git c c' \<longrightarrow>
       sh_state c' = sh_state c \<or>
       (\<exists>call fs reply fs'. serve_control sha git call fs (sh_state c) = (Ok reply, sh_state c', fs')))"
  using steps_serial [OF assms] step_serves by blast

theorem service_is_serializable_witness:
  "\<exists>c. (service_step site_sha (git_cli site_git))\<^sup>*\<^sup>* (idle_service site_workspace site_files) c \<and>
     ws_path_base (sh_state c) = [47, 114, 47, 115] \<and> serial site_sha (git_cli site_git) site_workspace (sh_state c)"
proof -
  let ?step = "service_step site_sha (git_cli site_git)" and ?call = "ChangeDirectory [47, 114, 47, 115] auth_standard"
  let ?s = "site_workspace\<lparr>ws_path_base := [47, 114, 47, 115]\<rparr>"
  let ?c0 = "idle_service site_workspace site_files"
  let ?c1 = "at_phase 7 (Waiting ?call) ?c0"
  let ?c2 = "at_phase 7 (Holding ?call) (?c1\<lparr>sh_control := Some 7\<rparr>)"
  let ?c3 = "at_phase 7 (Cloned ?call (sh_state ?c2)) ?c2"
  let ?c4 = "at_phase 7 (Computed ?s) (?c3\<lparr>sh_files := site_files\<rparr>)"
  let ?c5 = "released 7 (?c4\<lparr>sh_state := ?s\<rparr>)"
  have computed: "candidate_of site_sha (git_cli site_git) ?call site_files site_workspace = (Ok ReplyDone, ?s, site_files)"
    by code_simp
  have "?step ?c0 ?c1" by (rule service_step.arrive) (simp add: idle_service_def)
  moreover have "?step ?c1 ?c2" by (rule service_step.lock) (simp_all add: idle_service_def at_phase_def)
  moreover have "?step ?c2 ?c3" by (rule service_step.clone) (simp_all add: at_phase_def)
  moreover have "?step ?c3 ?c4"
    by (rule service_step.compute [where reply = ReplyDone]) (use computed in \<open>simp_all add: at_phase_def idle_service_def\<close>)
  moreover have "?step ?c4 ?c5" by (rule service_step.commit) (simp add: at_phase_def)
  ultimately have run: "?step\<^sup>*\<^sup>* ?c0 ?c5"
    by (meson converse_rtranclp_into_rtranclp r_into_rtranclp)
  from service_is_serializable [OF this] run show ?thesis
    by (intro exI [of _ ?c5]) (auto simp: released_def at_phase_def)
qed

end
