(* ===== verification/Spec2Isabelle.thy ===== *)
theory Spec2Isabelle
  imports Task_Properties Run_Properties Workflow_Properties Dataset_Properties
    Project_Properties
begin

text \<open>
  Aemeath is a coding agent written in Rust. This development models five of its contexts under
  \<open>agent/features\<close>: the task list of a session, the run of the agent, the workflow a session follows, the
  storage of datasets, and the workspace the agent stands in.

  \<^bold>\<open>The program.\<close> The agent talks to a language model in \<^emph>\<open>runs\<close>. The loop engine drives a \<open>Run\<close> from
  status to status, one step at a time; a run may derive sub-runs with fewer capabilities. The model keeps
  its plan in a \<^emph>\<open>task\<close> store of the session, and may bind the session to a \<^emph>\<open>workflow\<close>, a directed
  acyclic graph of nodes it has to work through. Tasks and workflows are persisted and restored with the
  session. Sessions and memories are kept in \<^emph>\<open>datasets\<close>, sets of named members on disk that change as a
  whole. The \<^emph>\<open>workspace\<close> says which directory the tools work in and which files they may reach; it moves
  between the checkouts of a git repository and is saved with the session. The contexts do not call one
  another; each is reached through tools or through the engine.

  \<^bold>\<open>Conventions.\<close> \<open>Prelude\<close> holds what the parts share. A fallible method returns an \<open>outcome\<close>: \<open>Ok\<close>,
  \<open>Err\<close> with the error of the source, or \<open>Panic\<close>. A method with a \<open>&mut self\<close> receiver returns its
  outcome and the state it leaves, on the error paths as well. A \<open>HashMap\<close> is an association list with
  distinct keys, so that a statement about reads can say that the order of the map does not matter. A
  mutex is the sequential order of the operations; \<open>Project_Invariant\<close> justifies that for an operation that
  releases the mutex while it works. Clocks and generators of identifiers are arguments.
  Machine integers are words where the code relies on their width.

  \<^bold>\<open>Task\<close> (\<open>task/src\<close>).

  \<^item> \<open>Decimal\<close>, \<open>Graph_Search\<close>, \<open>Kahn\<close>: decimal text, and the graph searches the store writes by hand.
  \<^item> \<open>Task_Model\<close> (\<open>domain/model.rs\<close>), \<open>Task_State\<close> and \<open>Task_Commands\<close> (\<open>domain/state.rs\<close>),
    \<open>Task_Query\<close> (\<open>domain/query.rs\<close>, \<open>domain/lifecycle.rs\<close>): the aggregate.
  \<^item> \<open>Task_Invariant\<close>, \<open>Task_Preserve\<close>, \<open>Task_Dependencies\<close>, \<open>Task_Replace\<close>: its
    invariant, and one lemma per command that the command keeps it and honours the contract. The
    invariant does not ask for sorted edges, because restored images need not have them; \<open>edges_sorted\<close> is
    a condition of its own that every command keeps.
  \<^item> \<open>Task_Store\<close> (\<open>adapters/store.rs\<close>): the locale \<open>transactional\<close> and its interpretation.
  \<^item> \<open>Task_Snapshot\<close>, \<open>Task_Snapshot_Facts\<close>, \<open>Task_Restore\<close> (\<open>domain/snapshot.rs\<close>), \<open>Task_Codec\<close>
    (\<open>adapters/snapshot_codec.rs\<close>): persistence. \<open>Task_Evolution\<close>: the locales \<open>task_change\<close> and
    \<open>task_change_moves\<close>, what becomes of each task under the commands, and their two interpretations.
  \<^item> \<open>Task_Query_Facts\<close>, \<open>Task_Compact\<close> (\<open>domain/compact_snapshot.rs\<close>), \<open>Task_Properties\<close> (C8 to C16):
    the read models agree with the state, the checks decide what they are meant to decide, and a saved
    store is restored.

  \<^bold>\<open>Run\<close> (\<open>runtime/src/domain/agent_run\<close>).

  \<^item> \<open>Run_Model\<close> (\<open>state.rs\<close>, \<open>step.rs\<close>, \<open>event.rs\<close>, \<open>intent.rs\<close>), \<open>Run_Spec\<close> (\<open>spec.rs\<close>), \<open>Run_Machine\<close>
    (\<open>domain.rs\<close>): data, capabilities and every method of the aggregate.
  \<^item> \<open>Histories\<close>: the locale of aggregates that record their moves, and that of histories in which some values,
    once reached, stay; \<open>Run_Facts\<close>, \<open>Run_Invariant\<close>,
    \<open>Run_Control\<close>: what each operation does, the invariants of reachable runs, and those of runs that are
    driven the way the engine drives them (\<open>engine_op\<close>).
  \<^item> \<open>Run_Lifecycle\<close>: the abstract life of a run, which the operations refine. \<open>Run_Records\<close>: what a
    failed operation may have changed, and what counts the blocks of the stop hook. \<open>Run_Properties\<close>: C17 to C25.

  \<^bold>\<open>Workflow\<close> (\<open>workflow/src\<close>).

  \<^item> \<open>Workflow_Model\<close> (\<open>domain.rs\<close>, \<open>domain/tool_data.rs\<close>, \<open>domain/tool_error.rs\<close>, \<open>domain/snapshot.rs\<close>,
    \<open>ports.rs\<close>), \<open>Graph_Walk\<close> and \<open>Workflow_Kernel\<close> (\<open>domain/kernel.rs\<close>), \<open>Workflow_Aggregate\<close>
    (\<open>application/aggregate.rs\<close>), \<open>Workflow_Store\<close> (\<open>application/store.rs\<close>, \<open>application/backend.rs\<close>),
    \<open>Workflow_Files\<close> (\<open>adapters/file_persistence.rs\<close>).
  \<^item> \<open>Workflow_History\<close>,
    \<open>Workflow_Lifecycle\<close>: the operations of a workflow as data, the discipline the sender of a replan has
    to keep, finished nodes and finished workflows.
  \<^item> \<open>Workflow_Restore\<close>, \<open>Workflow_Recovery\<close>: a snapshot holds all of a workflow, and a restarted store
    holds what the running one held; the locale \<open>snapshot_storage\<close> is what the store needs of its disk.
    The removal of orphans. \<open>Workflow_Properties\<close>: C26 to C33.

  \<^bold>\<open>Storage\<close> (\<open>storage/src\<close>): datasets that survive crashes.

  \<^item> \<open>Disk\<close>: trees of files and directories, and programs on them. Every call of the file system consumes a
    \<^emph>\<open>fate\<close>: it goes through, it breaks with an I/O error, or the process dies in it, a write or a removal
    possibly done in part. \<open>Disk_Logic\<close>, \<open>Disk_Rules\<close>: a calculus of weakest preconditions with
    a postcondition for results, one for errors and one for deaths; \<open>Crash\<close>: the locales \<open>resumable\<close> (a
    recovery that may itself be interrupted) and \<open>atomic_calls\<close> (calls that a specification explains).
  \<^item> \<open>Dataset_Model\<close> (\<open>domain/atomic_dataset.rs\<close>, \<open>domain/published_language.rs\<close>, \<open>domain/safe_path.rs\<close>),
    \<open>Dataset_Protocol\<close> (\<open>adapters/dataset_protocol.rs\<close>, \<open>adapters/error_map.rs\<close>), \<open>Dataset_Recovery\<close> and
    \<open>Dataset_Adapter\<close> (\<open>adapters/dataset_filesystem.rs\<close>): data, records, and every operation of the adapter
    under the lock: recovery, quarantine, orphan collection, reads, commits, promotion, deletion.
  \<^item> \<open>Dataset_State\<close>: what a disk means: \<open>settled\<close> with a current and a previous generation, or \<open>pending\<close> with a
    transaction past its logical point. \<open>Dataset_Rules\<close>, \<open>Dataset_Reading\<close>, \<open>Dataset_Rolling\<close>,
    \<open>Dataset_Resume\<close>, \<open>Dataset_Committing\<close>, \<open>Dataset_Commit\<close>, \<open>Dataset_Promoting\<close>, \<open>Dataset_Session\<close>: one
    lemma per operation on what it makes of such a disk, whatever the fates.
  \<^item> \<open>Dataset_History\<close>: the abstract specification, one register with compare-and-swap and
    one previous value per dataset, and the interpretations of the locales, single calls, and the disks that the life of
    a dataset leaves behind (\<open>left_behind\<close>);
    \<open>Dataset_Findings\<close>, \<open>Dataset_Demo\<close>: a concrete store. \<open>Dataset_Properties\<close>: C1 to C7.

  \<^bold>\<open>Project\<close> (\<open>project/src\<close>): the workspace.

  \<^item> \<open>Path_Text\<close>: \<open>std::path\<close>, raw text and its components. \<open>File_Tree\<close>: directories with permissions, files and
    symbolic links; the path lookup of Linux (\<open>walk\<close>), \<open>canonicalize\<close>, \<open>metadata\<close>, \<open>create_dir_all\<close>.
  \<^item> \<open>Project_Model\<close> (\<open>domain/types.rs\<close>, \<open>domain/git.rs\<close>, and \<open>session_types.rs\<close> of \<open>agent/shared\<close>), \<open>Project_Git\<close>
    (\<open>adapters/git.rs\<close>), \<open>Project_State\<close> (\<open>domain/state.rs\<close>), \<open>Project_Service\<close> (\<open>service.rs\<close>,
    \<open>application.rs\<close>, \<open>adapters/wiring.rs\<close>): positions, worktrees, persistence, and the paths tools may name.
  \<^item> \<open>Project_Paths\<close>: the locale \<open>canonical_naming\<close>, what the resolution of a path needs of a file system, and where
    an accepted path can lead. \<open>Project_Invariant\<close>: the locale \<open>git_laws\<close>, the invariant and the reachable
    workspaces, and the two locks of the service as steps of threads. \<open>Project_Moves\<close>: entering and leaving, saving
    and restoring. \<open>Project_Demo\<close>: a concrete machine and the findings. \<open>Project_Properties\<close>: C34 to
    C40.

  \<^bold>\<open>Bounds and fuel.\<close> \<open>walk\<close> follows \<open>max_links\<close> symbolic links, the forty that Linux follows, and
  reports an error at the next one, as Linux does. The recursive cycle check of the workflow kernel has
  \<open>visit_fuel\<close>, the number of nodes and edges plus one; \<open>visit_all_correct\<close> shows that it does not run out. The breadth-first and depth-first
  searches and the loop of Kahn's algorithm are total functions with measures of their own.

  \<^bold>\<open>Conditions.\<close> Some promises of the code depend on its callers or its disk, and the theorems say on
  what: a commit or a promotion may die in any of its calls, but no call of its own reports an error (C1, C2,
  C3, C6); a replan keeps to \<open>disciplined\<close>, which the code leaves to its sender (C28, C29); the engine uses an
  identifier for one step only (C22). The lemmas whose names begin with \<open>finding_\<close> are concrete runs without
  such a condition, or runs that the documentation excludes.

  \<^bold>\<open>Parameters.\<close> The outcome of each file system call of the workflow persistence is an argument; the JSON
  of a tool call is a type parameter. SHA-256, the JSON codec of the records and the generator of UUIDs are the
  fields of \<open>host\<close>; the theorems ask that the codec reads back what it wrote, that digests have 32 bytes, and
  that the contents in play do not collide. A string of the storage is the list of its UTF-8 bytes.
  Of the project, SHA-256 and the program \<open>git\<close> are arguments; \<open>git rev-parse\<close> is taken to read only, and paths to
  be valid Unicode. The file system may change in any way between two operations, not within one.

  \<^bold>\<open>Not modelled.\<close> \<open>serde_json\<close> and the raw JSON pre-check of the task codec, logging, the asynchronous
  drivers of a run, the tools and adapters that do input and output, the provider clients, the terminal
  interface. Of the storage: the adapter for single blobs, the listing of datasets, the fault injection of
  the tests; concurrent processes are taken in the order in which they hold the lock, and a flush makes no
  difference to what a tree holds. The session aggregate, memory, policy, hooks and configuration are not
  modelled.
\<close>

end
